(* ===== verification/HF_Prelude.thy ===== *)
theory HF_Prelude
  imports Complex_Main "HOL-Library.Word" "HOL-Library.List_Lexorder" "HOL-Library.Char_ord"
    "HOL-Library.Sublist"
begin

text \<open>
  Shared vocabulary of the development: exceptions and results, the std::string operations the
  engine uses, and JSON values (the data type of nlohmann::json) with the member operations the
  engine calls.  An object is a key-sorted association list, as nlohmann's default object type
  (std::map) is.  Text rendering, dumping and numeric comparison of JSON belong to that third
  party library and are parameters wherever a component needs them.
\<close>

named_theorems res_simps "equations of the result combinators"
named_theorems json_simps "equations of the JSON member operations"

section \<open>Exceptions and results\<close>

text \<open>The exception classes thrown by the modelled code, with their what() text.\<close>

datatype exc =
    Runtime_error string
  | Logic_error string
  | Invalid_argument string
  | Out_of_range string
  | Json_error string
  | Budget_exceeded_error string
  | Security_error string string string
  | Tool_exception string
  | Parse_error string string
  | Bad_optional_access
  | Hard_end_exception

fun what :: "exc \<Rightarrow> string" where
  "what (Runtime_error m) = m"
| "what (Logic_error m) = m"
| "what (Invalid_argument m) = m"
| "what (Out_of_range m) = m"
| "what (Json_error m) = m"
| "what (Budget_exceeded_error m) = m"
| "what (Security_error tool pth reason) = ''SecurityError: tool='' @ tool @ '' path='' @ pth @ '' reason='' @ reason"
| "what (Tool_exception m) = m"
| "what (Parse_error m file) = m"
| "what Bad_optional_access = ''bad optional access''"
| "what Hard_end_exception = ''Hard end node encountered in branch, terminating main execution.''"

type_synonym 'a res = "exc + 'a"

definition ebind :: "'a res \<Rightarrow> ('a \<Rightarrow> 'b res) \<Rightarrow> 'b res" where
  "ebind r k = (case r of Inl e \<Rightarrow> Inl e | Inr x \<Rightarrow> k x)"

lemma ebind_simps [simp, res_simps]:
  "ebind (Inl e) k = Inl e"
  "ebind (Inr x) k = k x"
  by (simp_all add: ebind_def)

lemma ebind_assoc: "ebind (ebind r k) h = ebind r (\<lambda>x. ebind (k x) h)"
  by (cases r) simp_all

lemma ebind_Inr_conv: "ebind r k = Inr y \<longleftrightarrow> (\<exists>x. r = Inr x \<and> k x = Inr y)"
  by (cases r) simp_all

lemma ebind_Inl_conv: "ebind r k = Inl e \<longleftrightarrow> r = Inl e \<or> (\<exists>x. r = Inr x \<and> k x = Inl e)"
  by (cases r) simp_all

section \<open>Strings\<close>

text \<open>The character classes of <cctype> and of regular expressions, in the C locale.\<close>

definition is_space :: "char \<Rightarrow> bool" where
  "is_space c \<longleftrightarrow> (let n = (of_char c :: nat) in n = 32 \<or> 9 \<le> n \<and> n \<le> 13)"

definition is_digit :: "char \<Rightarrow> bool" where
  "is_digit c \<longleftrightarrow> (let n = (of_char c :: nat) in 48 \<le> n \<and> n \<le> 57)"

definition is_word :: "char \<Rightarrow> bool" where
  "is_word c \<longleftrightarrow> (let n = (of_char c :: nat) in
     48 \<le> n \<and> n \<le> 57 \<or> 65 \<le> n \<and> n \<le> 90 \<or> 97 \<le> n \<and> n \<le> 122 \<or> n = 95)"

text \<open>\<open>rfind(p, 0) == 0\<close>, and \<open>substr(0, size(p)) == p\<close>.\<close>

definition starts_with :: "string \<Rightarrow> string \<Rightarrow> bool" where
  "starts_with p s = prefix p s"

definition ends_with :: "string \<Rightarrow> string \<Rightarrow> bool" where
  "ends_with p s = suffix p s"

text \<open>\<open>s.find(p)\<close>: the first index at which \<open>p\<close> occurs, or None for npos.\<close>

fun find_sub :: "string \<Rightarrow> string \<Rightarrow> nat option" where
  "find_sub p [] = (if p = [] then Some 0 else None)"
| "find_sub p (c # cs) =
     (if prefix p (c # cs) then Some 0 else map_option Suc (find_sub p cs))"

definition contains_sub :: "string \<Rightarrow> string \<Rightarrow> bool" where
  "contains_sub p s = (find_sub p s \<noteq> None)"

lemma find_sub_Some: "find_sub p s = Some i \<Longrightarrow> i \<le> length s \<and> prefix p (drop i s)"
  by (induction s arbitrary: i) (auto split: if_splits)

lemma find_sub_None: "find_sub p s = None \<longleftrightarrow> \<not> sublist p s"
  by (induction s) (auto simp: sublist_Cons_right)

lemma contains_sub_sublist: "contains_sub p s \<longleftrightarrow> sublist p s"
  by (simp add: contains_sub_def find_sub_None)

lemma contains_sub_append [simp]: "contains_sub p (a @ p @ b)"
  by (simp add: contains_sub_sublist)

text \<open>std::to_string of a non-negative and of a signed integer.\<close>

fun nat_str :: "nat \<Rightarrow> string" where
  "nat_str n = (if n < 10 then [char_of (48 + n)]
                else nat_str (n div 10) @ [char_of (48 + n mod 10)])"

declare nat_str.simps [simp del]

definition int_str :: "int \<Rightarrow> string" where
  "int_str i = (if i < 0 then CHR ''-'' # nat_str (nat (- i)) else nat_str (nat i))"

text \<open>The number read back from its decimal digits, most significant first.\<close>

definition digits_val :: "string \<Rightarrow> nat" where
  "digits_val s = foldl (\<lambda>a c. 10 * a + (of_char c - 48)) 0 s"

lemma digits_val_nat_str [simp]: "digits_val (nat_str n) = n"
proof (induction n rule: nat_str.induct)
  case (1 n)
  have small: "(of_char (char_of (48 + k) :: char) :: nat) = 48 + k" if "k < 10" for k
    using that by simp
  show ?case
  proof (cases "n < 10")
    case True
    then show ?thesis
      by (simp add: nat_str.simps[of n] digits_val_def small)
  next
    case False
    have "digits_val (nat_str n) = 10 * digits_val (nat_str (n div 10)) + n mod 10"
      using False small[of "n mod 10"]
      by (simp add: nat_str.simps[of n] digits_val_def)
    then show ?thesis using 1 False by simp
  qed
qed

lemma nat_str_inject [simp]: "nat_str m = nat_str n \<longleftrightarrow> m = n"
  by (metis digits_val_nat_str)

section \<open>JSON values\<close>

datatype json =
    JNull
  | JBool bool
  | JInt int
  | JFloat "64 word"
  | JStr string
  | JArr "json list"
  | JObj "(string \<times> json) list"

fun is_obj :: "json \<Rightarrow> bool" where
  "is_obj (JObj _) = True" | "is_obj _ = False"

fun is_arr :: "json \<Rightarrow> bool" where
  "is_arr (JArr _) = True" | "is_arr _ = False"

fun is_str :: "json \<Rightarrow> bool" where
  "is_str (JStr _) = True" | "is_str _ = False"

fun is_bool :: "json \<Rightarrow> bool" where
  "is_bool (JBool _) = True" | "is_bool _ = False"

fun is_num :: "json \<Rightarrow> bool" where
  "is_num (JInt _) = True" | "is_num (JFloat _) = True" | "is_num _ = False"

text \<open>Insertion into, and erasure from, a key-sorted association list.\<close>

fun kv_ins :: "'k::linorder \<Rightarrow> 'v \<Rightarrow> ('k \<times> 'v) list \<Rightarrow> ('k \<times> 'v) list" where
  "kv_ins k v [] = [(k, v)]"
| "kv_ins k v ((k', v') # xs) =
     (if k = k' then (k, v) # xs
      else if k < k' then (k, v) # (k', v') # xs
      else (k', v') # kv_ins k v xs)"

definition kv_del :: "'k \<Rightarrow> ('k \<times> 'v) list \<Rightarrow> ('k \<times> 'v) list" where
  "kv_del k xs = filter (\<lambda>p. fst p \<noteq> k) xs"

lemma map_of_kv_ins [simp]: "map_of (kv_ins k v xs) = (map_of xs)(k \<mapsto> v)"
  by (induction k v xs rule: kv_ins.induct) (auto simp: fun_upd_twist)

lemma map_of_kv_del [simp]: "map_of (kv_del k xs) = (map_of xs)(k := None)"
  by (induction xs) (auto simp: kv_del_def fun_upd_twist)

lemma kv_ins_set_keys [simp]: "fst ` set (kv_ins k v xs) = insert k (fst ` set xs)"
  by (induction k v xs rule: kv_ins.induct) auto

lemma kv_ins_strict_sorted:
  "sorted_wrt (<) (map fst xs) \<Longrightarrow> sorted_wrt (<) (map fst (kv_ins k v xs))"
proof (induction k v xs rule: kv_ins.induct)
  case (2 k v k' v' xs)
  then show ?case
    by (auto simp: image_iff dest!: kv_ins_set_keys[THEN equalityD1, THEN subsetD, OF imageI] )
qed simp

lemma kv_ins_not_Nil [simp]: "kv_ins k v xs \<noteq> []"
  by (cases xs) (auto split: if_splits)

lemma kv_ins_idem [simp]: "kv_ins k v (kv_ins k w xs) = kv_ins k v xs"
  by (induction k w xs rule: kv_ins.induct) auto

text \<open>\<open>j.contains(k)\<close>, \<open>j.value(k, d)\<close> as a lookup, \<open>j.at(k)\<close> and \<open>j[k] = v\<close> (null becomes an object;
  any other kind throws type_error 305).\<close>

definition jlookup :: "string \<Rightarrow> json \<Rightarrow> json option" where
  "jlookup k j = (case j of JObj xs \<Rightarrow> map_of xs k | _ \<Rightarrow> None)"

definition jcontains :: "string \<Rightarrow> json \<Rightarrow> bool" where
  "jcontains k j = (jlookup k j \<noteq> None)"

definition jput :: "string \<Rightarrow> json \<Rightarrow> json \<Rightarrow> json res" where
  "jput k v j = (case j of
       JNull \<Rightarrow> Inr (JObj [(k, v)])
     | JObj xs \<Rightarrow> Inr (JObj (kv_ins k v xs))
     | _ \<Rightarrow> Inl (Json_error ''type_error.305''))"

definition jset :: "string \<Rightarrow> json \<Rightarrow> json \<Rightarrow> json" where
  "jset k v j = (case j of JObj xs \<Rightarrow> JObj (kv_ins k v xs) | _ \<Rightarrow> JObj [(k, v)])"

definition jat :: "string \<Rightarrow> json \<Rightarrow> json res" where
  "jat k j = (case j of
       JObj xs \<Rightarrow> (case map_of xs k of Some v \<Rightarrow> Inr v | None \<Rightarrow> Inl (Json_error ''out_of_range.403''))
     | _ \<Rightarrow> Inl (Json_error ''type_error.304''))"

definition jobj :: "(string \<times> json) list \<Rightarrow> json" where
  "jobj kvs = JObj (foldl (\<lambda>o' (k, v). kv_ins k v o') [] kvs)"

abbreviation jempty :: json where "jempty \<equiv> JObj []"

lemma jlookup_simps [simp, json_simps]:
  "jlookup k (JObj xs) = map_of xs k"
  "jlookup k JNull = None"
  "jlookup k (JBool b) = None"
  "jlookup k (JInt i) = None"
  "jlookup k (JFloat f) = None"
  "jlookup k (JStr s) = None"
  "jlookup k (JArr a) = None"
  by (simp_all add: jlookup_def)

lemma jlookup_jset [simp, json_simps]:
  "is_obj j \<Longrightarrow> jlookup k (jset k' v j) = (if k = k' then Some v else jlookup k j)"
  by (cases j) (auto simp: jset_def)

lemma is_obj_jset [simp]: "is_obj (jset k v j)"
  by (cases j) (auto simp: jset_def)

lemma jput_obj [simp]: "is_obj j \<Longrightarrow> jput k v j = Inr (jset k v j)"
  by (cases j) (auto simp: jset_def jput_def)

lemma jput_Inr_lookup:
  "jput k v j = Inr j' \<Longrightarrow> jlookup k' j' = (if k' = k then Some v else jlookup k' j)"
  by (cases j) (auto simp: jput_def)

lemma jput_Inr_obj: "jput k v j = Inr j' \<Longrightarrow> is_obj j'"
  by (cases j) (auto simp: jput_def)

lemma jcontains_obj: "jcontains k j \<Longrightarrow> is_obj j"
  by (cases j) (auto simp: jcontains_def)

section \<open>Facts about maps kept as key-sorted association lists (std::map)\<close>

lemma sum_list_kv_del:
  fixes f :: "'v \<Rightarrow> nat"
  shows "distinct (map fst xs) \<Longrightarrow> map_of xs k = Some v \<Longrightarrow>
    sum_list (map (f \<circ> snd) xs) = f v + sum_list (map (f \<circ> snd) (kv_del k xs))"
proof (induction xs)
  case (Cons p xs)
  show ?case
  proof (cases "fst p = k")
    case True
    then have "\<forall>q\<in>set xs. fst q \<noteq> k" using Cons.prems by (auto simp: image_iff)
    then have "kv_del k xs = xs" by (simp add: kv_del_def filter_id_conv)
    then show ?thesis using True Cons.prems by (cases p) (auto simp: kv_del_def)
  next
    case False
    then show ?thesis using Cons by (cases p) (auto simp: kv_del_def)
  qed
qed simp

lemma kv_del_strict_sorted:
  "sorted_wrt (<) (map fst xs) \<Longrightarrow> sorted_wrt (<) (map fst (kv_del k xs))"
  unfolding kv_del_def by (induction xs) auto

lemma strict_sorted_distinct: "sorted_wrt (<) (xs :: 'k::linorder list) \<Longrightarrow> distinct xs"
  by (induction xs) auto

lemma length_kv_ins: "length (kv_ins k v xs) \<le> Suc (length xs)"
  by (induction k v xs rule: kv_ins.induct) auto

lemma sum_list_kv_ins:
  fixes f :: "'v \<Rightarrow> nat"
  shows "sum_list (map (f \<circ> snd) (kv_ins k v xs)) \<le> f v + sum_list (map (f \<circ> snd) xs)"
  by (induction k v xs rule: kv_ins.induct) auto

lemma kv_del_set_keys [simp]: "fst ` set (kv_del k xs) = fst ` set xs - {k}"
  by (auto simp: kv_del_def)

text \<open>Every object inside a well-formed value has strictly increasing keys, as a std::map has.\<close>

fun jwf :: "json \<Rightarrow> bool" where
  "jwf (JObj kvs) = (sorted_wrt (<) (map fst kvs) \<and> (\<forall>kv \<in> set kvs. jwf (snd kv)))"
| "jwf (JArr xs) = (\<forall>x \<in> set xs. jwf x)"
| "jwf _ = True"

text \<open>The value at a path of member names.\<close>

fun jpath :: "string list \<Rightarrow> json \<Rightarrow> json option" where
  "jpath [] j = Some j"
| "jpath (k # ks) j = (case jlookup k j of None \<Rightarrow> None | Some v \<Rightarrow> jpath ks v)"

end
