(* ===== verification/Budget.thy ===== *)
theory Budget
  imports HF_Prelude
begin

text \<open>
  Execution budgets: core/types/budget.h (ExecutionBudget, its lock-free try_consume operations)
  and modules/budget (BudgetController, CostTracker).  Counters are the C++ int counters, read as
  integers; the only increments are guarded by the limit, so with a limit they never leave the int
  range.  Time points are nanoseconds of the steady clock, passed in as \<open>now\<close>.  A double is its
  64 bits; IEEE addition, multiplication and the int conversion come in as an \<open>fp_ops\<close> record.
\<close>

section \<open>ExecutionBudget\<close>

record execution_budget =
  max_nodes :: int
  max_llm_calls :: int
  max_duration_sec :: int
  max_subgraph_depth :: int
  max_snapshots :: int
  snapshot_max_size_kb :: nat
  max_evolution_llm_calls :: int
  nodes_used :: int
  llm_calls_used :: int
  subgraph_depth_used :: int
  evolution_llm_calls_used :: int
  start_time :: int

definition new_budget :: "int \<Rightarrow> execution_budget" where
  "new_budget now = \<lparr> max_nodes = -1, max_llm_calls = -1, max_duration_sec = -1,
     max_subgraph_depth = -1, max_snapshots = -1, snapshot_max_size_kb = 512,
     max_evolution_llm_calls = -1, nodes_used = 0, llm_calls_used = 0, subgraph_depth_used = 0,
     evolution_llm_calls_used = 0, start_time = now \<rparr>"

text \<open>The move constructor: the limits move, the counters and the clock restart.\<close>

definition budget_move_ctor :: "int \<Rightarrow> execution_budget \<Rightarrow> execution_budget" where
  "budget_move_ctor now b = \<lparr> max_nodes = max_nodes b, max_llm_calls = max_llm_calls b,
     max_duration_sec = max_duration_sec b, max_subgraph_depth = max_subgraph_depth b,
     max_snapshots = max_snapshots b, snapshot_max_size_kb = snapshot_max_size_kb b,
     max_evolution_llm_calls = max_evolution_llm_calls b, nodes_used = 0, llm_calls_used = 0,
     subgraph_depth_used = 0, evolution_llm_calls_used = 0, start_time = now \<rparr>"

text \<open>The move assignment: every field of the target is written, when source and target differ.\<close>

definition budget_move_assign ::
  "int \<Rightarrow> bool \<Rightarrow> execution_budget \<Rightarrow> execution_budget \<Rightarrow> execution_budget" where
  "budget_move_assign now same target b = (if same then target else
     target \<lparr> max_nodes := max_nodes b, max_llm_calls := max_llm_calls b,
       max_duration_sec := max_duration_sec b, max_subgraph_depth := max_subgraph_depth b,
       max_snapshots := max_snapshots b, snapshot_max_size_kb := snapshot_max_size_kb b,
       max_evolution_llm_calls := max_evolution_llm_calls b, nodes_used := 0, llm_calls_used := 0,
       subgraph_depth_used := 0, evolution_llm_calls_used := 0, start_time := now \<rparr>)"

text \<open>duration_cast truncates towards zero.\<close>

definition elapsed_sec :: "int \<Rightarrow> execution_budget \<Rightarrow> int" where
  "elapsed_sec now b = (let d = now - start_time b in
     if d < 0 then - ((- d) div 1000000000) else d div 1000000000)"

definition duration_exceeded :: "int \<Rightarrow> execution_budget \<Rightarrow> bool" where
  "duration_exceeded now b \<longleftrightarrow>
     0 \<le> max_duration_sec b \<and> max_duration_sec b < elapsed_sec now b"

definition budget_exceeded :: "int \<Rightarrow> execution_budget \<Rightarrow> bool" where
  "budget_exceeded now b =
     (if 0 \<le> max_nodes b \<and> max_nodes b < nodes_used b then True
      else if 0 \<le> max_llm_calls b \<and> max_llm_calls b < llm_calls_used b then True
      else if 0 \<le> max_subgraph_depth b \<and> max_subgraph_depth b < subgraph_depth_used b then True
      else if duration_exceeded now b then True
      else False)"

text \<open>The sequential outcome of the try_consume operations (no other thread between the load and
  the exchange); the interleaved behaviour is \<open>cas_step\<close> below.\<close>

definition try_consume_node :: "execution_budget \<Rightarrow> bool \<times> execution_budget" where
  "try_consume_node b =
     (if 0 \<le> max_nodes b \<and> max_nodes b \<le> nodes_used b then (False, b)
      else (True, b \<lparr> nodes_used := nodes_used b + 1 \<rparr>))"

definition try_consume_llm_call :: "execution_budget \<Rightarrow> bool \<times> execution_budget" where
  "try_consume_llm_call b =
     (if 0 \<le> max_llm_calls b \<and> max_llm_calls b \<le> llm_calls_used b then (False, b)
      else (True, b \<lparr> llm_calls_used := llm_calls_used b + 1 \<rparr>))"

definition try_consume_subgraph_depth :: "execution_budget \<Rightarrow> bool \<times> execution_budget" where
  "try_consume_subgraph_depth b =
     (if 0 \<le> max_subgraph_depth b \<and> max_subgraph_depth b \<le> subgraph_depth_used b then (False, b)
      else (True, b \<lparr> subgraph_depth_used := subgraph_depth_used b + 1 \<rparr>))"

definition try_consume_evolution_llm_call ::
  "execution_budget \<Rightarrow> bool \<times> execution_budget" where
  "try_consume_evolution_llm_call b =
     (if max_evolution_llm_calls b < 0 then (True, b)
      else if max_evolution_llm_calls b \<le> evolution_llm_calls_used b then (False, b)
      else (True, b \<lparr> evolution_llm_calls_used := evolution_llm_calls_used b + 1 \<rparr>))"

definition evolution_budget_exceeded :: "execution_budget \<Rightarrow> bool" where
  "evolution_budget_exceeded b =
     (if max_evolution_llm_calls b < 0 then False
      else max_evolution_llm_calls b \<le> evolution_llm_calls_used b)"

definition reset_evolution_cycle_counter :: "execution_budget \<Rightarrow> execution_budget" where
  "reset_evolution_cycle_counter b = b \<lparr> evolution_llm_calls_used := 0 \<rparr>"

section \<open>The contract of a limited counter\<close>

text \<open>\<open>run_tries f n s\<close> calls the operation \<open>f\<close> n times and counts the grants.\<close>

fun run_tries :: "('s \<Rightarrow> bool \<times> 's) \<Rightarrow> nat \<Rightarrow> 's \<Rightarrow> nat \<times> 's" where
  "run_tries f 0 s = (0, s)"
| "run_tries f (Suc n) s =
     (let (ok, s1) = f s; (k, s2) = run_tries f n s1 in ((if ok then Suc k else k), s2))"

locale limited_counter =
  fixes try_op :: "'s \<Rightarrow> bool \<times> 's"
    and used :: "'s \<Rightarrow> int"
    and lim :: "'s \<Rightarrow> int"
  assumes lim_kept: "lim (snd (try_op s)) = lim s"
    and granted: "fst (try_op s) \<longleftrightarrow> lim s < 0 \<or> used s < lim s"
    and counted: "0 \<le> lim s \<Longrightarrow> used s < lim s \<Longrightarrow> used (snd (try_op s)) = used s + 1"
    and refused: "0 \<le> lim s \<Longrightarrow> lim s \<le> used s \<Longrightarrow> used (snd (try_op s)) = used s"
begin

lemma bounded_step: "0 \<le> lim s \<Longrightarrow> used s \<le> lim s \<Longrightarrow> used (snd (try_op s)) \<le> lim s"
  using counted refused by (cases "used s < lim s") auto

lemma run_lim: "lim (snd (run_tries try_op n s)) = lim s"
  by (induction n arbitrary: s) (auto simp: split_beta lim_kept)

lemma run_unlimited: "lim s < 0 \<Longrightarrow> fst (run_tries try_op n s) = n"
  by (induction n arbitrary: s) (auto simp: split_beta lim_kept granted)

lemma run_exact:
  "0 \<le> lim s \<Longrightarrow> used s \<le> lim s \<Longrightarrow>
   int (fst (run_tries try_op n s)) = min (int n) (lim s - used s) \<and>
   used (snd (run_tries try_op n s)) = used s + min (int n) (lim s - used s)"
proof (induction n arbitrary: s)
  case (Suc n)
  let ?t = "snd (try_op s)"
  have l: "lim ?t = lim s" by (rule lim_kept)
  show ?case
  proof (cases "used s < lim s")
    case True
    then have u: "used ?t = used s + 1" and g: "fst (try_op s)"
      using counted Suc.prems granted by auto
    show ?thesis using Suc.IH[of ?t] Suc.prems True l u g by (auto simp: split_beta)
  next
    case False
    then have u: "used ?t = used s" and g: "\<not> fst (try_op s)"
      using refused Suc.prems granted by auto
    show ?thesis using Suc.IH[of ?t] Suc.prems False l u g by (auto simp: split_beta)
  qed
qed simp

end

text \<open>A counter that also counts when it has no limit.\<close>

locale metered_counter = limited_counter +
  assumes counted_unlimited: "lim s < 0 \<Longrightarrow> used (snd (try_op s)) = used s + 1"
begin

lemma run_unlimited_count: "lim s < 0 \<Longrightarrow> used (snd (run_tries try_op n s)) = used s + int n"
  by (induction n arbitrary: s) (auto simp: split_beta lim_kept counted_unlimited)

end

lemmas consume_defs = try_consume_node_def try_consume_llm_call_def
  try_consume_subgraph_depth_def try_consume_evolution_llm_call_def

interpretation nodes: metered_counter try_consume_node nodes_used max_nodes
  by unfold_locales (auto simp: consume_defs)

interpretation llm: metered_counter try_consume_llm_call llm_calls_used max_llm_calls
  by unfold_locales (auto simp: consume_defs)

interpretation depth: metered_counter try_consume_subgraph_depth subgraph_depth_used
    max_subgraph_depth
  by unfold_locales (auto simp: consume_defs)

interpretation evo: limited_counter try_consume_evolution_llm_call evolution_llm_calls_used
    max_evolution_llm_calls
  by unfold_locales (auto simp: consume_defs)

section \<open>The compare-exchange loop under interleaving\<close>

text \<open>
  Every try_consume operation is the loop

    current = load; if (limited && current >= max) return false;
    expected = current;
    while (!compare_exchange_weak(expected, expected + 1))
      if (limited && expected >= max) return false;
    return true;

  Each thread is at one of these points; a failed exchange (spurious or not) reloads expected.
\<close>

datatype cas_pc = Before_load | At_exchange int | Returned bool

record cas_state =
  counter :: int
  threads :: "cas_pc list"

definition over_limit :: "int \<Rightarrow> int \<Rightarrow> bool" where
  "over_limit mx c \<longleftrightarrow> 0 \<le> mx \<and> mx \<le> c"

inductive cas_step :: "int \<Rightarrow> cas_state \<Rightarrow> cas_state \<Rightarrow> bool" for mx where
  load_refused:
    "i < length (threads s) \<Longrightarrow> threads s ! i = Before_load \<Longrightarrow> over_limit mx (counter s) \<Longrightarrow>
     cas_step mx s (s \<lparr> threads := (threads s)[i := Returned False] \<rparr>)"
| load_ok:
    "i < length (threads s) \<Longrightarrow> threads s ! i = Before_load \<Longrightarrow> \<not> over_limit mx (counter s) \<Longrightarrow>
     cas_step mx s (s \<lparr> threads := (threads s)[i := At_exchange (counter s)] \<rparr>)"
| exchange_ok:
    "i < length (threads s) \<Longrightarrow> threads s ! i = At_exchange e \<Longrightarrow> counter s = e \<Longrightarrow>
     cas_step mx s (s \<lparr> counter := e + 1, threads := (threads s)[i := Returned True] \<rparr>)"
| exchange_refused:
    "i < length (threads s) \<Longrightarrow> threads s ! i = At_exchange e \<Longrightarrow> over_limit mx (counter s) \<Longrightarrow>
     cas_step mx s (s \<lparr> threads := (threads s)[i := Returned False] \<rparr>)"
| exchange_retry:
    "i < length (threads s) \<Longrightarrow> threads s ! i = At_exchange e \<Longrightarrow> \<not> over_limit mx (counter s) \<Longrightarrow>
     cas_step mx s (s \<lparr> threads := (threads s)[i := At_exchange (counter s)] \<rparr>)"

inductive_cases cas_stepE: "cas_step mx s t"

inductive cas_reach :: "int \<Rightarrow> int \<Rightarrow> nat \<Rightarrow> cas_state \<Rightarrow> bool" for mx c0 n where
  cas_init: "cas_reach mx c0 n \<lparr> counter = c0, threads = replicate n Before_load \<rparr>"
| cas_next: "cas_reach mx c0 n s \<Longrightarrow> cas_step mx s t \<Longrightarrow> cas_reach mx c0 n t"

definition grants :: "cas_state \<Rightarrow> nat" where
  "grants s = count_list (threads s) (Returned True)"

definition all_returned :: "cas_state \<Rightarrow> bool" where
  "all_returned s = list_all (\<lambda>t. t = Returned True \<or> t = Returned False) (threads s)"

lemma count_list_update:
  "i < length xs \<Longrightarrow>
   count_list (xs[i := y]) x + (if xs ! i = x then 1 else 0) =
   count_list xs x + (if y = x then 1 else 0)"
proof (induction xs arbitrary: i)
  case (Cons a xs)
  show ?case using Cons.IH[of "i - 1"] Cons.prems by (cases i) (auto split: if_splits)
qed simp

text \<open>The invariant: the counter is the initial value plus the grants; a thread at the exchange holds
  a value below the limit; a refusal was issued only with the counter at the limit.\<close>

definition cas_inv :: "int \<Rightarrow> int \<Rightarrow> nat \<Rightarrow> cas_state \<Rightarrow> bool" where
  "cas_inv mx c0 n s \<longleftrightarrow> length (threads s) = n \<and> counter s = c0 + int (grants s) \<and>
     (\<forall>e. At_exchange e \<in> set (threads s) \<longrightarrow> \<not> over_limit mx e) \<and>
     (0 \<le> mx \<and> c0 \<le> mx \<longrightarrow> counter s \<le> mx) \<and>
     (Returned False \<in> set (threads s) \<longrightarrow> over_limit mx (counter s))"

lemma cas_inv_init: "cas_inv mx c0 n \<lparr> counter = c0, threads = replicate n Before_load \<rparr>"
  by (auto simp: cas_inv_def grants_def count_list_0_iff)

lemma set_update_cases: "x \<in> set (xs[i := y]) \<Longrightarrow> x = y \<or> x \<in> set xs"
  by (meson insertE set_update_subset_insert subsetD)

lemma cas_inv_move:
  assumes "cas_inv mx c0 n s" "i < length (threads s)" "threads s ! i \<noteq> Returned True"
    "y \<noteq> Returned True" "\<And>e. y = At_exchange e \<Longrightarrow> \<not> over_limit mx e"
    "y = Returned False \<Longrightarrow> over_limit mx (counter s)"
  shows "cas_inv mx c0 n (s \<lparr> threads := (threads s)[i := y] \<rparr>)"
  using assms count_list_update[of i "threads s" y "Returned True"]
  by (auto simp: cas_inv_def grants_def dest: set_update_cases)

lemma cas_inv_step:
  assumes inv: "cas_inv mx c0 n s" and step: "cas_step mx s t"
  shows "cas_inv mx c0 n t"
  using step
proof (cases rule: cas_step.cases)
  case (exchange_ok i e)
  have "At_exchange e \<in> set (threads s)" using exchange_ok by (metis nth_mem)
  then have "\<not> over_limit mx e" using inv by (auto simp: cas_inv_def)
  moreover have "grants t = Suc (grants s)"
    using count_list_update[of i "threads s" "Returned True" "Returned True"] exchange_ok
    by (simp add: grants_def)
  ultimately show ?thesis
    using inv exchange_ok by (auto simp: cas_inv_def over_limit_def dest: set_update_cases)
qed (use inv in \<open>auto intro!: cas_inv_move\<close>)

lemma cas_inv_reach: "cas_reach mx c0 n s \<Longrightarrow> cas_inv mx c0 n s"
  by (induction rule: cas_reach.induct) (blast intro: cas_inv_init cas_inv_step)+

lemma all_returned_no_refusal:
  "all_returned s \<Longrightarrow> Returned False \<notin> set (threads s) \<Longrightarrow> grants s = length (threads s)"
proof -
  assume a: "all_returned s" and r: "Returned False \<notin> set (threads s)"
  then have "\<forall>t\<in>set (threads s). t = Returned True"
    by (auto simp: all_returned_def list_all_iff)
  then have "filter ((=) (Returned True)) (threads s) = threads s" by (simp add: filter_id_conv)
  then show ?thesis by (simp add: grants_def count_list_eq_length_filter)
qed

section \<open>BudgetController\<close>

type_synonym f64 = "64 word"

record fp_ops =
  fp_add :: "f64 \<Rightarrow> f64 \<Rightarrow> f64"
  fp_mul :: "f64 \<Rightarrow> f64 \<Rightarrow> f64"
  fp_of_int :: "int \<Rightarrow> f64"

text \<open>The five price literals of the source, as their IEEE bits: 0.0, 1.5e-7, 2e-6, 3e-5, 1e-6.\<close>

definition cost_per_token_for :: "string \<Rightarrow> f64" where
  "cost_per_token_for model =
     (if contains_sub ''llama'' model \<or> contains_sub ''gguf'' model \<or> contains_sub ''local'' model
      then 0
      else if contains_sub ''gpt-4o-mini'' model then 0x3e8421f5f40d8376
      else if contains_sub ''gpt-3.5'' model \<or> contains_sub ''gpt-3.5-turbo'' model
      then 0x3ec0c6f7a0b5ed8d
      else if contains_sub ''gpt-4'' model then 0x3eff75104d551d69
      else 0x3eb0c6f7a0b5ed8d)"

record cost_tracker =
  total_cost_usd :: f64
  tokens_consumed :: int
  last_call_cost_usd :: f64

record budget_controller =
  budget_opt :: "execution_budget option"
  termination_target :: string
  costs :: cost_tracker

definition new_budget_controller :: "int \<Rightarrow> execution_budget option \<Rightarrow> budget_controller" where
  "new_budget_controller now b = \<lparr>
     budget_opt = map_option (\<lambda>x. (budget_move_ctor now x) \<lparr> start_time := now \<rparr>) b,
     termination_target = ''/__system__/budget_exceeded'',
     costs = \<lparr> total_cost_usd = 0, tokens_consumed = 0, last_call_cost_usd = 0 \<rparr> \<rparr>"

definition on_budget :: "(execution_budget \<Rightarrow> bool \<times> execution_budget) \<Rightarrow>
    budget_controller \<Rightarrow> bool \<times> budget_controller" where
  "on_budget f c = (case budget_opt c of
       None \<Rightarrow> (True, c)
     | Some b \<Rightarrow> (let (ok, b') = f b in (ok, c \<lparr> budget_opt := Some b' \<rparr>)))"

definition bc_try_consume_node :: "budget_controller \<Rightarrow> bool \<times> budget_controller" where
  "bc_try_consume_node c = on_budget try_consume_node c"

definition bc_try_consume_llm_call :: "budget_controller \<Rightarrow> bool \<times> budget_controller" where
  "bc_try_consume_llm_call c = on_budget try_consume_llm_call c"

definition bc_try_consume_subgraph_depth :: "budget_controller \<Rightarrow> bool \<times> budget_controller" where
  "bc_try_consume_subgraph_depth c = on_budget try_consume_subgraph_depth c"

definition bc_try_consume_evolution_llm_call ::
  "budget_controller \<Rightarrow> bool \<times> budget_controller" where
  "bc_try_consume_evolution_llm_call c = on_budget try_consume_evolution_llm_call c"

definition bc_exceeded :: "int \<Rightarrow> budget_controller \<Rightarrow> bool" where
  "bc_exceeded now c = (case budget_opt c of None \<Rightarrow> False | Some b \<Rightarrow> budget_exceeded now b)"

definition bc_evolution_budget_exceeded :: "budget_controller \<Rightarrow> bool" where
  "bc_evolution_budget_exceeded c =
     (case budget_opt c of None \<Rightarrow> False | Some b \<Rightarrow> evolution_budget_exceeded b)"

definition set_termination_target :: "string \<Rightarrow> budget_controller \<Rightarrow> budget_controller" where
  "set_termination_target target c = c \<lparr> termination_target := target \<rparr>"

definition get_termination_target :: "int \<Rightarrow> budget_controller \<Rightarrow> string option" where
  "get_termination_target now c = (if bc_exceeded now c then Some (termination_target c) else None)"

text \<open>std::optional's move assignment move-assigns when both sides hold a budget, move-constructs
  into an empty left side, and clears the left side for an empty right side.\<close>

definition set_budget ::
  "int \<Rightarrow> execution_budget option \<Rightarrow> budget_controller \<Rightarrow> budget_controller" where
  "set_budget now nb c = c \<lparr> budget_opt := (case (budget_opt c, nb) of
       (_, None) \<Rightarrow> None
     | (None, Some b) \<Rightarrow> Some ((budget_move_ctor now b) \<lparr> start_time := now \<rparr>)
     | (Some old, Some b) \<Rightarrow> Some ((budget_move_assign now False old b) \<lparr> start_time := now \<rparr>)) \<rparr>"

text \<open>tokens_consumed is an atomic int: fetch_add wraps at 32 bits.\<close>

definition wrap32 :: "int \<Rightarrow> int" where
  "wrap32 i = sint (word_of_int i :: 32 word)"

definition record_llm_call ::
  "fp_ops \<Rightarrow> int \<Rightarrow> string \<Rightarrow> budget_controller \<Rightarrow> budget_controller" where
  "record_llm_call fp tokens model c =
     (if tokens < 0 then c
      else let call_cost = fp_mul fp (cost_per_token_for model) (fp_of_int fp tokens);
               t = costs c
           in c \<lparr> costs := \<lparr> total_cost_usd = fp_add fp (total_cost_usd t) call_cost,
                             tokens_consumed = wrap32 (tokens_consumed t + tokens),
                             last_call_cost_usd = call_cost \<rparr> \<rparr>)"

definition reset_costs :: "budget_controller \<Rightarrow> budget_controller" where
  "reset_costs c = c \<lparr> costs := \<lparr> total_cost_usd = 0, tokens_consumed = 0,
                                   last_call_cost_usd = 0 \<rparr> \<rparr>"

definition bc_reset_evolution_cycle_counter :: "budget_controller \<Rightarrow> budget_controller" where
  "bc_reset_evolution_cycle_counter c =
     c \<lparr> budget_opt := map_option reset_evolution_cycle_counter (budget_opt c) \<rparr>"

section \<open>Runs of controller operations\<close>

datatype budget_op =
    Op_node | Op_llm | Op_subgraph | Op_evolution | Op_reset_evolution | Op_reset_costs
  | Op_set_budget int "execution_budget option" | Op_set_target string
  | Op_record fp_ops int string

primrec budget_apply :: "budget_op \<Rightarrow> budget_controller \<Rightarrow> budget_controller" where
  "budget_apply Op_node c = snd (bc_try_consume_node c)"
| "budget_apply Op_llm c = snd (bc_try_consume_llm_call c)"
| "budget_apply Op_subgraph c = snd (bc_try_consume_subgraph_depth c)"
| "budget_apply Op_evolution c = snd (bc_try_consume_evolution_llm_call c)"
| "budget_apply Op_reset_evolution c = bc_reset_evolution_cycle_counter c"
| "budget_apply Op_reset_costs c = reset_costs c"
| "budget_apply (Op_set_budget now b) c = set_budget now b c"
| "budget_apply (Op_set_target t) c = set_termination_target t c"
| "budget_apply (Op_record fp n m) c = record_llm_call fp n m c"

definition within_limits :: "execution_budget \<Rightarrow> bool" where
  "within_limits b \<longleftrightarrow>
     (0 \<le> max_nodes b \<longrightarrow> nodes_used b \<le> max_nodes b) \<and>
     (0 \<le> max_llm_calls b \<longrightarrow> llm_calls_used b \<le> max_llm_calls b) \<and>
     (0 \<le> max_subgraph_depth b \<longrightarrow> subgraph_depth_used b \<le> max_subgraph_depth b) \<and>
     (0 \<le> max_evolution_llm_calls b \<longrightarrow> evolution_llm_calls_used b \<le> max_evolution_llm_calls b)"

lemma within_limits_ops:
  assumes "within_limits b"
  shows "within_limits (snd (try_consume_node b))" "within_limits (snd (try_consume_llm_call b))"
    "within_limits (snd (try_consume_subgraph_depth b))"
    "within_limits (snd (try_consume_evolution_llm_call b))"
    "within_limits (reset_evolution_cycle_counter b)"
  using assms by (auto simp: within_limits_def consume_defs reset_evolution_cycle_counter_def)

lemma within_limits_fresh:
  "within_limits ((budget_move_ctor now b) \<lparr> start_time := t \<rparr>)"
  "within_limits ((budget_move_assign now False old b) \<lparr> start_time := t \<rparr>)"
  by (auto simp: within_limits_def budget_move_ctor_def budget_move_assign_def)

definition bc_within :: "budget_controller \<Rightarrow> bool" where
  "bc_within c = (case budget_opt c of None \<Rightarrow> True | Some b \<Rightarrow> within_limits b)"

lemmas bc_consume_defs = bc_try_consume_node_def bc_try_consume_llm_call_def
  bc_try_consume_subgraph_depth_def bc_try_consume_evolution_llm_call_def

lemma on_budget_within:
  "(\<And>b. within_limits b \<Longrightarrow> within_limits (snd (f b))) \<Longrightarrow> bc_within c \<Longrightarrow>
   bc_within (snd (on_budget f c))"
  by (auto simp: on_budget_def bc_within_def split_beta split: option.splits)

lemma bc_within_consume:
  assumes "bc_within c"
  shows "bc_within (snd (bc_try_consume_node c))" "bc_within (snd (bc_try_consume_llm_call c))"
    "bc_within (snd (bc_try_consume_subgraph_depth c))"
    "bc_within (snd (bc_try_consume_evolution_llm_call c))"
  using assms by (simp_all add: bc_consume_defs on_budget_within within_limits_ops)

lemma bc_within_others:
  assumes "bc_within c"
  shows "bc_within (bc_reset_evolution_cycle_counter c)" "bc_within (reset_costs c)"
    "bc_within (set_budget now nb c)" "bc_within (set_termination_target t c)"
    "bc_within (record_llm_call fp n m c)"
  using assms
  by (auto simp: bc_reset_evolution_cycle_counter_def reset_costs_def set_budget_def
      set_termination_target_def record_llm_call_def Let_def bc_within_def within_limits_fresh
      within_limits_ops split: option.splits)

lemma bc_within_apply: "bc_within c \<Longrightarrow> bc_within (budget_apply ope c)"
  by (cases ope) (simp_all add: bc_within_consume bc_within_others)

lemma bc_within_new: "bc_within (new_budget_controller now b)"
  by (auto simp: bc_within_def new_budget_controller_def within_limits_fresh split: option.splits)

lemma bc_within_run: "bc_within (fold budget_apply ops (new_budget_controller now b))"
proof -
  have "bc_within c \<Longrightarrow> bc_within (fold budget_apply ops c)" for c
    by (induction ops arbitrary: c) (auto simp: bc_within_apply)
  then show ?thesis using bc_within_new by blast
qed

lemma within_not_exceeded: "within_limits b \<Longrightarrow> budget_exceeded now b = duration_exceeded now b"
  by (auto simp: within_limits_def budget_exceeded_def)

section \<open>Properties\<close>

text \<open>C5. In every interleaving of n threads that run the compare-exchange loop of try_consume on a
  counter that starts at c0 at or below a limit mx, the counter never passes the limit and equals
  c0 plus the number of calls that returned true; and once all calls have returned, exactly
  min n (mx - c0) of them were granted: no permit is lost and none is given twice.\<close>

theorem cas_exact:
  assumes "cas_reach mx c0 n s" "0 \<le> mx" "c0 \<le> mx"
  shows "counter s \<le> mx \<and> counter s = c0 + int (grants s) \<and>
    (all_returned s \<longrightarrow> int (grants s) = min (int n) (mx - c0))"
proof -
  have inv: "cas_inv mx c0 n s" by (rule cas_inv_reach[OF assms(1)])
  have "int (grants s) = min (int n) (mx - c0)" if "all_returned s"
  proof (cases "Returned False \<in> set (threads s)")
    case True
    then have "counter s = mx" using inv assms by (auto simp: cas_inv_def over_limit_def)
    moreover have "grants s \<le> n" using inv count_le_length[of "threads s" "Returned True"]
      by (simp add: grants_def cas_inv_def)
    ultimately show ?thesis using inv by (simp add: cas_inv_def)
  next
    case False
    then show ?thesis using all_returned_no_refusal[OF that] inv assms by (auto simp: cas_inv_def)
  qed
  then show ?thesis using inv assms by (auto simp: cas_inv_def)
qed

lemma cas_exact_witness:
  "all_returned \<lparr> counter = 1, threads = [Returned True, Returned False] \<rparr> \<and>
   int (grants \<lparr> counter = 1, threads = [Returned True, Returned False] \<rparr>) = min (int 2) (1 - 0)"
proof -
  let ?s0 = "\<lparr> counter = 0, threads = [Before_load, Before_load] \<rparr>"
  let ?s1 = "\<lparr> counter = 0, threads = [At_exchange 0, Before_load] \<rparr>"
  let ?s2 = "\<lparr> counter = 0, threads = [At_exchange 0, At_exchange 0] \<rparr>"
  let ?s3 = "\<lparr> counter = 1, threads = [Returned True, At_exchange 0] \<rparr>"
  let ?s4 = "\<lparr> counter = 1, threads = [Returned True, Returned False] \<rparr>"
  have r0: "cas_reach 1 0 2 ?s0" using cas_init[of 1 0 2] by (simp add: numeral_2_eq_2)
  have r1: "cas_reach 1 0 2 ?s1"
    using cas_next[OF r0 load_ok[of 0 ?s0 1]] by (simp add: over_limit_def)
  have r2: "cas_reach 1 0 2 ?s2"
    using cas_next[OF r1 load_ok[of 1 ?s1 1]] by (simp add: over_limit_def)
  have r3: "cas_reach 1 0 2 ?s3"
    using cas_next[OF r2 exchange_ok[of 0 ?s2 0 1]] by simp
  have r4: "cas_reach 1 0 2 ?s4"
    using cas_next[OF r3 exchange_refused[of 1 ?s3 0 1]] by (simp add: over_limit_def)
  have a: "all_returned ?s4" by (simp add: all_returned_def)
  show ?thesis using cas_exact[OF r4] a by simp
qed

text \<open>Whatever operations are run on a controller made from any initial budget, its counters never
  pass their limits, so exceeded() is decided by the elapsed time alone: it is true exactly when a
  budget is set and its duration limit is passed, and the termination target is returned only then.
  The counter comparisons of exceeded() never fire.\<close>

theorem exceeded_only_by_time:
  "bc_exceeded t (fold budget_apply ops (new_budget_controller now b)) =
     (case budget_opt (fold budget_apply ops (new_budget_controller now b)) of
        None \<Rightarrow> False | Some b' \<Rightarrow> duration_exceeded t b') \<and>
   (get_termination_target t (fold budget_apply ops (new_budget_controller now b)) =
     (if (case budget_opt (fold budget_apply ops (new_budget_controller now b)) of
            None \<Rightarrow> False | Some b' \<Rightarrow> duration_exceeded t b')
      then Some (termination_target (fold budget_apply ops (new_budget_controller now b)))
      else None))"
  using bc_within_run[of ops now b]
  by (auto simp: bc_exceeded_def get_termination_target_def bc_within_def within_not_exceeded
      split: option.splits)

text \<open>Trying to consume a node n times from a fresh budget with limit m grants exactly min n m
  nodes and leaves the counter at that number; with no limit all n are granted and counted.\<close>

theorem consume_node_exact:
  "fst (run_tries try_consume_node n (budget_move_ctor now b)) =
     (if 0 \<le> max_nodes b then min n (nat (max_nodes b)) else n) \<and>
   nodes_used (snd (run_tries try_consume_node n (budget_move_ctor now b))) =
     (if 0 \<le> max_nodes b then min (int n) (max_nodes b) else int n)"
proof (cases "0 \<le> max_nodes b")
  case True
  then have "0 \<le> max_nodes (budget_move_ctor now b)"
    "nodes_used (budget_move_ctor now b) \<le> max_nodes (budget_move_ctor now b)"
    by (simp_all add: budget_move_ctor_def)
  from nodes.run_exact[OF this, of n] True show ?thesis
    by (auto simp: budget_move_ctor_def)
next
  case False
  then have "max_nodes (budget_move_ctor now b) < 0" by (simp add: budget_move_ctor_def)
  from nodes.run_unlimited[OF this, of n] nodes.run_unlimited_count[OF this, of n] False
  show ?thesis by (simp add: budget_move_ctor_def)
qed

end
