(* ===== verification/Tool_Result.thy ===== *)
theory Tool_Result
  imports HF_Prelude
begin

text \<open>
  The tool result envelope: core/types/tool_result.h and tool_result.cpp (ErrorCode, ToolResult, its
  factories and its JSON form), and core/types/execution_result.h (is_retryable).  The conversion
  of a JSON double to uint64_t is the parameter \<open>f2u\<close>; an integer is converted modulo 2^64.
\<close>

section \<open>Error codes\<close>

datatype error_code =
    Unknown | PermissionDenied | PathViolation | DangerousCommand | ToolNotRegistered
  | Retry | Skip | Abort | Audit | Timeout | ResourceExhausted
  | SandboxViolation | MaxStepsExceeded | Crash | BudgetExhausted | UnsupportedPlatform
  | InvalidArg | InvalidParams | Cancelled

primrec error_code_to_string :: "error_code \<Rightarrow> string" where
  "error_code_to_string Unknown = ''Unknown''"
| "error_code_to_string PermissionDenied = ''PermissionDenied''"
| "error_code_to_string PathViolation = ''PathViolation''"
| "error_code_to_string DangerousCommand = ''DangerousCommand''"
| "error_code_to_string ToolNotRegistered = ''ToolNotRegistered''"
| "error_code_to_string Retry = ''Retry''"
| "error_code_to_string Skip = ''Skip''"
| "error_code_to_string Abort = ''Abort''"
| "error_code_to_string Audit = ''Audit''"
| "error_code_to_string Timeout = ''Timeout''"
| "error_code_to_string ResourceExhausted = ''ResourceExhausted''"
| "error_code_to_string SandboxViolation = ''SandboxViolation''"
| "error_code_to_string MaxStepsExceeded = ''MaxStepsExceeded''"
| "error_code_to_string Crash = ''Crash''"
| "error_code_to_string BudgetExhausted = ''BudgetExhausted''"
| "error_code_to_string UnsupportedPlatform = ''UnsupportedPlatform''"
| "error_code_to_string InvalidArg = ''InvalidArg''"
| "error_code_to_string InvalidParams = ''InvalidParams''"
| "error_code_to_string Cancelled = ''Cancelled''"

definition string_to_error_code :: "string \<Rightarrow> error_code" where
  "string_to_error_code s =
     (if s = ''PermissionDenied'' then PermissionDenied
      else if s = ''PathViolation'' then PathViolation
      else if s = ''DangerousCommand'' then DangerousCommand
      else if s = ''ToolNotRegistered'' then ToolNotRegistered
      else if s = ''Retry'' then Retry
      else if s = ''Skip'' then Skip
      else if s = ''Abort'' then Abort
      else if s = ''Audit'' then Audit
      else if s = ''Timeout'' then Timeout
      else if s = ''ResourceExhausted'' then ResourceExhausted
      else if s = ''SandboxViolation'' then SandboxViolation
      else if s = ''MaxStepsExceeded'' then MaxStepsExceeded
      else if s = ''Crash'' then Crash
      else if s = ''BudgetExhausted'' then BudgetExhausted
      else if s = ''UnsupportedPlatform'' then UnsupportedPlatform
      else if s = ''InvalidArg'' then InvalidArg
      else if s = ''InvalidParams'' then InvalidParams
      else if s = ''Cancelled'' then Cancelled
      else Unknown)"

lemma error_code_of_string [simp]: "string_to_error_code (error_code_to_string c) = c"
  by (cases c) (simp_all add: string_to_error_code_def)

lemma error_code_to_string_inject [simp]:
  "error_code_to_string c = error_code_to_string d \<longleftrightarrow> c = d"
  by (metis error_code_of_string)

lemma printed_error_code:
  "string_to_error_code s = Unknown \<or> error_code_to_string (string_to_error_code s) = s"
  unfolding string_to_error_code_def by simp

section \<open>ToolResult\<close>

record tool_result =
  tr_ok :: bool
  tr_data :: json
  tr_meta :: json
  tr_error_code :: "error_code option"
  tr_latency_ms :: "64 word option"
  tr_trace_id :: "string option"
  tr_parent_trace :: "string option"
  tr_metadata :: "json option"

definition default_tool_result :: tool_result where
  "default_tool_result = \<lparr> tr_ok = False, tr_data = jempty, tr_meta = jempty,
     tr_error_code = None, tr_latency_ms = None, tr_trace_id = None, tr_parent_trace = None,
     tr_metadata = None \<rparr>"

definition tr_success :: "json \<Rightarrow> json \<Rightarrow> tool_result" where
  "tr_success d m = default_tool_result \<lparr> tr_ok := True, tr_data := d, tr_meta := m \<rparr>"

definition tr_error :: "error_code \<Rightarrow> string \<Rightarrow> json \<Rightarrow> tool_result" where
  "tr_error code msg m = (let m0 = (if is_obj m then m else jempty);
     m1 = jset ''error_code'' (JStr (error_code_to_string code)) m0;
     m2 = jset ''error_message'' (JStr msg) m1
     in default_tool_result \<lparr> tr_ok := False, tr_error_code := Some code, tr_meta := m2 \<rparr>)"

definition jset_opt :: "string \<Rightarrow> json option \<Rightarrow> json \<Rightarrow> json" where
  "jset_opt k v j = (case v of None \<Rightarrow> j | Some x \<Rightarrow> jset k x j)"

definition tr_to_json :: "tool_result \<Rightarrow> json" where
  "tr_to_json r = (let
     j = jset ''ok'' (JBool (tr_ok r)) JNull;
     j = jset ''data'' (tr_data r) j;
     j = jset ''meta'' (tr_meta r) j;
     j = jset_opt ''error_code'' (map_option (\<lambda>c. JStr (error_code_to_string c)) (tr_error_code r)) j;
     j = jset_opt ''latency_ms'' (map_option (\<lambda>w. JInt (uint w)) (tr_latency_ms r)) j;
     j = jset_opt ''trace_id'' (map_option JStr (tr_trace_id r)) j;
     j = jset_opt ''parent_trace'' (map_option JStr (tr_parent_trace r)) j;
     j = jset_opt ''metadata'' (tr_metadata r) j
   in j)"

text \<open>Field readers of \<open>from_json\<close>: each keeps its default unless the member has the right kind.\<close>

fun as_bool :: "bool \<Rightarrow> json option \<Rightarrow> bool" where
  "as_bool d (Some (JBool b)) = b"
| "as_bool d _ = d"

fun as_string :: "json option \<Rightarrow> string option" where
  "as_string (Some (JStr s)) = Some s"
| "as_string _ = None"

fun as_u64 :: "(64 word \<Rightarrow> 64 word) \<Rightarrow> json option \<Rightarrow> 64 word option" where
  "as_u64 f2u (Some (JInt i)) = Some (word_of_int i)"
| "as_u64 f2u (Some (JFloat w)) = Some (f2u w)"
| "as_u64 f2u _ = None"

text \<open>The bridge of a top-level error text into meta: the subscript on meta throws unless meta is an
  object or null.\<close>

definition bridge_error :: "string option \<Rightarrow> json \<Rightarrow> json res" where
  "bridge_error err m = (case err of
       Some e \<Rightarrow> if \<not> jcontains ''error_message'' m then jput ''error_message'' (JStr e) m else Inr m
     | None \<Rightarrow> Inr m)"

definition tr_from_json :: "(64 word \<Rightarrow> 64 word) \<Rightarrow> json \<Rightarrow> tool_result res" where
  "tr_from_json f2u j =
     (if \<not> is_obj j then Inr default_tool_result
      else ebind (bridge_error (as_string (jlookup ''error'' j))
                  (case jlookup ''meta'' j of Some m \<Rightarrow> m | None \<Rightarrow> jempty))
           (\<lambda>meta. Inr \<lparr> tr_ok = as_bool False (jlookup ''ok'' j),
              tr_data = (case jlookup ''data'' j of Some d \<Rightarrow> d | None \<Rightarrow> j),
              tr_meta = meta,
              tr_error_code = map_option string_to_error_code (as_string (jlookup ''error_code'' j)),
              tr_latency_ms = as_u64 f2u (jlookup ''latency_ms'' j),
              tr_trace_id = as_string (jlookup ''trace_id'' j),
              tr_parent_trace = as_string (jlookup ''parent_trace'' j),
              tr_metadata = jlookup ''metadata'' j \<rparr>))"

lemma bridge_error_Inl:
  "(\<exists>x. bridge_error err m = Inl x) \<longleftrightarrow> (\<exists>e. err = Some e) \<and> \<not> is_obj m \<and> m \<noteq> JNull"
  by (cases m) (auto simp: bridge_error_def jcontains_def jput_def split: option.splits)

lemma bridge_error_obj:
  "bridge_error (Some e) (JObj m) = Inr (if map_of m ''error_message'' = None
     then JObj (kv_ins ''error_message'' (JStr e) m) else JObj m)"
  by (simp add: bridge_error_def jcontains_def jput_def)

lemma as_string_Some [simp]: "as_string v = Some s \<longleftrightarrow> v = Some (JStr s)"
  by (cases v rule: as_string.cases) auto

lemma ebind_fails: "(\<exists>x. ebind r (\<lambda>v. Inr (f v)) = Inl x) \<longleftrightarrow> (\<exists>x. r = Inl x)"
  by (cases r) auto

lemma is_obj_jset_opt [simp]: "is_obj j \<Longrightarrow> is_obj (jset_opt k v j)"
  by (auto simp: jset_opt_def split: option.splits)

lemma jlookup_jset_opt [simp, json_simps]:
  "is_obj j \<Longrightarrow> jlookup k (jset_opt k' v j) =
     (if k = k' \<and> v \<noteq> None then v else jlookup k j)"
  by (auto simp: jset_opt_def split: option.splits)

lemma jlookup_jset_null [simp, json_simps]:
  "jlookup k (jset k' v JNull) = (if k = k' then Some v else None)"
  by (simp add: jset_def)

lemma tr_to_json_obj [simp]: "is_obj (tr_to_json r)"
  by (simp add: tr_to_json_def Let_def)

lemma tr_to_json_lookups [json_simps]:
  "jlookup ''ok'' (tr_to_json r) = Some (JBool (tr_ok r))"
  "jlookup ''data'' (tr_to_json r) = Some (tr_data r)"
  "jlookup ''meta'' (tr_to_json r) = Some (tr_meta r)"
  "jlookup ''error'' (tr_to_json r) = None"
  "jlookup ''error_code'' (tr_to_json r) =
     map_option (\<lambda>c. JStr (error_code_to_string c)) (tr_error_code r)"
  "jlookup ''latency_ms'' (tr_to_json r) = map_option (\<lambda>w. JInt (uint w)) (tr_latency_ms r)"
  "jlookup ''trace_id'' (tr_to_json r) = map_option JStr (tr_trace_id r)"
  "jlookup ''parent_trace'' (tr_to_json r) = map_option JStr (tr_parent_trace r)"
  "jlookup ''metadata'' (tr_to_json r) = tr_metadata r"
  by (auto simp: tr_to_json_def Let_def)

lemma as_string_map [simp]: "as_string (map_option (\<lambda>x. JStr (f x)) v) = map_option f v"
  "as_string (map_option JStr w) = w"
  by (cases v; simp) (cases w; simp)

lemma as_u64_map [simp]: "as_u64 f2u (map_option (\<lambda>w. JInt (uint w)) v) = v"
  by (cases v) simp_all

section \<open>Retry classification\<close>

definition is_retryable :: "bool \<Rightarrow> error_code option \<Rightarrow> bool" where
  "is_retryable success ec = (case ec of
       None \<Rightarrow> \<not> success
     | Some c \<Rightarrow> (case c of Retry \<Rightarrow> True | Timeout \<Rightarrow> True | ResourceExhausted \<Rightarrow> True
                   | MaxStepsExceeded \<Rightarrow> True | Crash \<Rightarrow> True | BudgetExhausted \<Rightarrow> True
                   | _ \<Rightarrow> False))"

section \<open>Properties\<close>

text \<open>Every tool result survives its JSON form: reading back what to_json wrote returns exactly
  the same envelope, every optional field included, whatever its data and meta are, and the error
  bridge of from_json leaves it alone.\<close>

theorem tool_result_roundtrip: "tr_from_json f2u (tr_to_json r) = Inr r"
  by (simp add: tr_from_json_def tr_to_json_lookups bridge_error_def option.map_comp comp_def option.map_ident)

text \<open>What from_json accepts: a non-object gives the default failed result; an object with a
  top-level error text and a meta object without error_message gets that text bridged into meta,
  and an error_message already there wins; the read throws only for such a text over a meta that
  is neither an object nor null.\<close>

theorem from_json_error_bridge:
  "(\<not> is_obj j \<longrightarrow> tr_from_json f2u j = Inr default_tool_result) \<and>
   (is_obj j \<and> jlookup ''error'' j = Some (JStr e) \<and> jlookup ''meta'' j = Some (JObj m) \<longrightarrow>
      (\<exists>r. tr_from_json f2u j = Inr r \<and> jlookup ''error_message'' (tr_meta r) =
        (case map_of m ''error_message'' of Some x \<Rightarrow> Some x | None \<Rightarrow> Some (JStr e)))) \<and>
   ((\<exists>x. tr_from_json f2u j = Inl x) \<longleftrightarrow>
      (\<exists>e m. jlookup ''error'' j = Some (JStr e) \<and> jlookup ''meta'' j = Some m \<and>
             \<not> is_obj m \<and> m \<noteq> JNull))"
proof (cases "is_obj j")
  case False
  then show ?thesis by (cases j) (auto simp: tr_from_json_def)
next
  case True
  have c: "(\<exists>x. tr_from_json f2u j = Inl x) \<longleftrightarrow>
      (\<exists>e m. jlookup ''error'' j = Some (JStr e) \<and> jlookup ''meta'' j = Some m \<and>
             \<not> is_obj m \<and> m \<noteq> JNull)"
    using True by (auto simp: tr_from_json_def ebind_fails bridge_error_Inl split: option.splits)
  show ?thesis
    using True c by (auto simp: tr_from_json_def bridge_error_obj split: option.splits)
qed

lemma from_json_error_bridge_witness:
  "\<exists>r. tr_from_json id (JObj [(''error'', JStr ''boom''), (''meta'', JObj [])]) = Inr r \<and>
       jlookup ''error_message'' (tr_meta r) = Some (JStr ''boom'')"
  using from_json_error_bridge[of "JObj [(''error'', JStr ''boom''), (''meta'', JObj [])]" id
      "''boom''" "[]"] by simp

text \<open>The error code table is a bijection on the names: reading a printed code gives the code
  back, and a string reads as a code other than Unknown only when it is that code's printed name.\<close>

theorem error_code_names:
  "string_to_error_code (error_code_to_string c) = c \<and>
   (string_to_error_code s = c \<and> c \<noteq> Unknown \<longrightarrow> s = error_code_to_string c)"
  using printed_error_code[of s] by auto

lemma error_code_names_witness:
  "''Timeout'' = error_code_to_string Timeout"
  using error_code_names[of Timeout "''Timeout''"] by simp

end
