(* ===== verification/Bus.thy ===== *)
theory Bus
  imports Tool_Result "HOL-Library.Multiset"
begin

text \<open>
  The interaction bus: contract/bus_event.h, event_builder.h, causal_clock.h, causal_order.h and
  common/contract/inmemory_bus.cpp.  Every public operation holds the bus mutex throughout and
  the dispatch thread takes it three times per event, so the bus is a machine whose actions are
  those critical sections and the callback invocations between them; an execution is any list of
  actions (\<open>bus_run\<close>).  The iteration order of the two unordered maps is the standard library's:
  the maps are association lists in iteration order and \<open>reorder\<close> is the permutation an insertion
  of a new key may cause.  A subscriber callback is a value of the type parameter.
\<close>

section \<open>Events and their construction\<close>

datatype event_priority = Critical | Normal | Low

record bus_event =
  ev_topic :: string
  ev_payload :: tool_result
  ev_timestamp :: int
  ev_causal_time :: "64 word"
  ev_priority :: event_priority

definition mk_event :: "string \<Rightarrow> tool_result \<Rightarrow> int \<Rightarrow> bus_event" where
  "mk_event topic payload ts = \<lparr> ev_topic = topic, ev_payload = payload, ev_timestamp = ts,
     ev_causal_time = 0, ev_priority = Normal \<rparr>"

record event_builder =
  eb_topic :: string
  eb_payload :: tool_result

definition eb_new :: "string \<Rightarrow> event_builder" where
  "eb_new topic = \<lparr> eb_topic = topic, eb_payload = tr_success jempty jempty \<rparr>"

definition eb_from :: "string \<Rightarrow> tool_result \<Rightarrow> event_builder" where
  "eb_from topic p = \<lparr> eb_topic = topic, eb_payload = p \<rparr>"

definition eb_args :: "json \<Rightarrow> event_builder \<Rightarrow> event_builder" where
  "eb_args a b = b \<lparr> eb_payload := (eb_payload b) \<lparr> tr_data := a \<rparr> \<rparr>"

definition eb_meta :: "json \<Rightarrow> event_builder \<Rightarrow> event_builder" where
  "eb_meta m b = b \<lparr> eb_payload := (eb_payload b) \<lparr> tr_meta := m \<rparr> \<rparr>"

definition eb_ok :: "bool \<Rightarrow> event_builder \<Rightarrow> event_builder" where
  "eb_ok v b = b \<lparr> eb_payload := (eb_payload b) \<lparr> tr_ok := v \<rparr> \<rparr>"

definition eb_error_code :: "error_code \<Rightarrow> event_builder \<Rightarrow> event_builder" where
  "eb_error_code c b = b \<lparr> eb_payload := (eb_payload b) \<lparr> tr_error_code := Some c \<rparr> \<rparr>"

definition eb_latency_ms :: "64 word \<Rightarrow> event_builder \<Rightarrow> event_builder" where
  "eb_latency_ms w b = b \<lparr> eb_payload := (eb_payload b) \<lparr> tr_latency_ms := Some w \<rparr> \<rparr>"

definition eb_trace_id :: "string \<Rightarrow> event_builder \<Rightarrow> event_builder" where
  "eb_trace_id t b = b \<lparr> eb_payload := (eb_payload b) \<lparr> tr_trace_id := Some t \<rparr> \<rparr>"

definition eb_parent_trace :: "string \<Rightarrow> event_builder \<Rightarrow> event_builder" where
  "eb_parent_trace t b = b \<lparr> eb_payload := (eb_payload b) \<lparr> tr_parent_trace := Some t \<rparr> \<rparr>"

definition eb_metadata :: "json \<Rightarrow> event_builder \<Rightarrow> event_builder" where
  "eb_metadata m b = b \<lparr> eb_payload := (eb_payload b) \<lparr> tr_metadata := Some m \<rparr> \<rparr>"

definition eb_build :: "int \<Rightarrow> event_builder \<Rightarrow> bus_event" where
  "eb_build now b = mk_event (eb_topic b) (eb_payload b) now"

section \<open>Causal clock and causal order\<close>

text \<open>\<open>tick\<close> returns the old value (fetch_add); \<open>merge\<close> is the maximum with an external time.\<close>

definition clock_tick :: "64 word \<Rightarrow> 64 word \<times> 64 word" where
  "clock_tick c = (c, c + 1)"

definition clock_merge :: "64 word \<Rightarrow> 64 word \<Rightarrow> 64 word" where
  "clock_merge external c = (if c < external then external else c)"

definition clock_happens_before :: "64 word \<Rightarrow> 64 word \<Rightarrow> bool" where
  "clock_happens_before a b = (a < b)"

datatype causal_relation = ABeforeB | BBeforeA | Concurrent

definition trace_link :: "bus_event \<Rightarrow> bus_event \<Rightarrow> bool" where
  "trace_link a b = (case (tr_trace_id (ev_payload a), tr_parent_trace (ev_payload b)) of
     (Some t, Some p) \<Rightarrow> t = p | _ \<Rightarrow> False)"

definition causal_order :: "bus_event \<Rightarrow> bus_event \<Rightarrow> causal_relation" where
  "causal_order a b =
     (if trace_link a b then ABeforeB
      else if trace_link b a then BBeforeA
      else if ev_causal_time a \<noteq> 0 \<and> ev_causal_time b \<noteq> 0 then
        (if ev_causal_time a < ev_causal_time b then ABeforeB
         else if ev_causal_time b < ev_causal_time a then BBeforeA
         else Concurrent)
      else Concurrent)"

definition happens_before :: "bus_event \<Rightarrow> bus_event \<Rightarrow> bool" where
  "happens_before a b = (causal_order a b = ABeforeB)"

section \<open>Glob patterns\<close>

text \<open>The loop of \<open>glob_match\<close>.  The index pi is kept as the rest of the pattern, ti as the rest of
  the topic, and (star_p, star_t) as the pattern after the last star with the topic rest at which
  it was tried.\<close>

partial_function (option) glob_loop ::
  "string \<Rightarrow> string \<Rightarrow> (string \<times> string) option \<Rightarrow> bool option" where
  "glob_loop p t star =
     (if t = [] then Some (dropWhile (\<lambda>c. c = CHR ''*'') p = [])
      else if p \<noteq> [] \<and> (hd p = CHR ''?'' \<or> hd p = hd t) then glob_loop (tl p) (tl t) star
      else if p \<noteq> [] \<and> hd p = CHR ''*'' then glob_loop (tl p) t (Some (tl p, t))
      else (case star of
              Some (sp, st) \<Rightarrow> glob_loop sp (tl st) (Some (sp, tl st))
            | None \<Rightarrow> Some False))"

lemma glob_loop_nil: "glob_loop p [] star = Some (dropWhile (\<lambda>c. c = CHR ''*'') p = [])"
  by (subst glob_loop.simps) (simp only: if_True refl)

lemma glob_loop_literal:
  "c = CHR ''?'' \<or> c = x \<Longrightarrow> glob_loop (c # p) (x # t) star = glob_loop p t star"
  by (subst glob_loop.simps) (simp only: if_True if_False list.simps list.sel refl simp_thms)

lemma glob_loop_star:
  "CHR ''*'' \<noteq> x \<Longrightarrow> glob_loop (CHR ''*'' # p) (x # t) star = glob_loop p (x # t) (Some (p, x # t))"
  by (subst glob_loop.simps) simp

lemma glob_loop_back:
  "p = [] \<or> hd p \<noteq> CHR ''?'' \<and> hd p \<noteq> x \<and> hd p \<noteq> CHR ''*'' \<Longrightarrow>
   glob_loop p (x # t) star = (case star of Some (sp, st) \<Rightarrow> glob_loop sp (tl st) (Some (sp, tl st))
     | None \<Rightarrow> Some False)"
  by (subst glob_loop.simps) (cases p; simp)

definition glob_match :: "string \<Rightarrow> string \<Rightarrow> bool" where
  "glob_match pattern topic = (glob_loop pattern topic None = Some True)"

definition has_wildcard :: "string \<Rightarrow> bool" where
  "has_wildcard s = (CHR ''*'' \<in> set s \<or> CHR ''?'' \<in> set s)"

text \<open>The meaning of a pattern: a star stands for any text, a question mark for one character.\<close>

fun glob_spec :: "string \<Rightarrow> string \<Rightarrow> bool" where
  "glob_spec [] t = (t = [])"
| "glob_spec (c # p) [] = (c = CHR ''*'' \<and> glob_spec p [])"
| "glob_spec (c # p) (x # t) =
     (if c = CHR ''*'' then glob_spec p (x # t) \<or> glob_spec (CHR ''*'' # p) t
      else (c = CHR ''?'' \<or> c = x) \<and> glob_spec p t)"

lemma glob_spec_nil: "glob_spec p [] \<longleftrightarrow> dropWhile (\<lambda>c. c = CHR ''*'') p = []"
  by (induction p) auto

lemma glob_spec_star: "glob_spec (CHR ''*'' # p) t \<longleftrightarrow> (\<exists>u v. t = u @ v \<and> glob_spec p v)"
proof (induction t)
  case Nil
  show ?case by (auto simp: glob_spec_nil)
next
  case (Cons x t)
  show ?case
  proof
    assume "glob_spec (CHR ''*'' # p) (x # t)"
    then have "glob_spec p (x # t) \<or> (\<exists>u v. t = u @ v \<and> glob_spec p v)" using Cons by auto
    then show "\<exists>u v. x # t = u @ v \<and> glob_spec p v"
      by (metis append_Cons append_Nil)
  next
    assume "\<exists>u v. x # t = u @ v \<and> glob_spec p v"
    then obtain u v where "x # t = u @ v" "glob_spec p v" by blast
    then show "glob_spec (CHR ''*'' # p) (x # t)"
      using Cons by (cases u) auto
  qed
qed

lemma glob_spec_star_mono: "glob_spec (CHR ''*'' # p) v \<Longrightarrow> glob_spec (CHR ''*'' # p) (u @ v)"
  unfolding glob_spec_star by (metis append.assoc)

lemma glob_spec_prefix:
  "CHR ''*'' \<notin> set q \<Longrightarrow> glob_spec (q @ r) s \<Longrightarrow>
   \<exists>u v. s = u @ v \<and> length u = length q \<and> glob_spec r v"
proof (induction q arbitrary: s)
  case (Cons c q)
  then obtain x t where s: "s = x # t" by (cases s) auto
  have "glob_spec (q @ r) t" using Cons.prems s by auto
  then obtain u v where "t = u @ v" "length u = length q" "glob_spec r v"
    using Cons.IH[of t] Cons.prems(1) by auto
  then have "s = (x # u) @ v \<and> length (x # u) = length (c # q) \<and> glob_spec r v" using s by simp
  then show ?case by blast
qed simp

text \<open>The loop invariant: what was matched since the last star is star-free and fits exactly.\<close>

definition star_inv :: "string \<Rightarrow> string \<Rightarrow> (string \<times> string) option \<Rightarrow> bool" where
  "star_inv p t star = (case star of None \<Rightarrow> True
     | Some (sp, st) \<Rightarrow> \<exists>q u. sp = q @ p \<and> st = u @ t \<and> length q = length u \<and> CHR ''*'' \<notin> set q)"

definition star_alt :: "(string \<times> string) option \<Rightarrow> bool" where
  "star_alt star = (case star of None \<Rightarrow> False
     | Some (sp, st) \<Rightarrow> st \<noteq> [] \<and> glob_spec (CHR ''*'' # sp) (tl st))"

lemma star_alt_new:
  assumes inv: "star_inv (CHR ''*'' # p) t star" and alt: "star_alt star"
  shows "glob_spec (CHR ''*'' # p) t"
proof -
  obtain sp st where star: "star = Some (sp, st)" using alt by (auto simp: star_alt_def split: option.splits)
  from inv star obtain q u where q: "sp = q @ CHR ''*'' # p" "st = u @ t" "length q = length u"
    "CHR ''*'' \<notin> set q" by (auto simp: star_inv_def)
  from alt star have "st \<noteq> []" "glob_spec (CHR ''*'' # sp) (tl st)" by (auto simp: star_alt_def)
  then obtain a b where ab: "tl st = a @ b" "glob_spec sp b" unfolding glob_spec_star by blast
  from glob_spec_prefix[OF q(4)] ab(2) q(1) obtain c d where
    cd: "b = c @ d" "length c = length q" "glob_spec (CHR ''*'' # p) d" by blast
  have "st = hd st # a @ c @ d" using \<open>st \<noteq> []\<close> ab(1) cd(1) by (cases st) auto
  then have "u @ t = (hd st # a @ c) @ d" using q(2) by simp
  moreover have "length u \<le> length (hd st # a @ c)" using cd(2) q(3) by simp
  ultimately have "t = drop (length u) (hd st # a @ c) @ d"
    by (metis append_eq_conv_conj drop_append diff_is_0_eq drop_0)
  then obtain w where "t = w @ d" by blast
  then show ?thesis using cd(3) glob_spec_star_mono by blast
qed

lemma star_inv_match:
  assumes "star_inv (c # p) (x # t) star" "c \<noteq> CHR ''*''"
  shows "star_inv p t star"
proof (cases star)
  case (Some ss)
  obtain sp st where star: "star = Some (sp, st)" using Some by (cases ss) auto
  with assms obtain q u where "sp = q @ c # p" "st = u @ x # t" "length q = length u"
    "CHR ''*'' \<notin> set q" by (auto simp: star_inv_def)
  then have "sp = (q @ [c]) @ p \<and> st = (u @ [x]) @ t \<and> length (q @ [c]) = length (u @ [x]) \<and>
    CHR ''*'' \<notin> set (q @ [c])" using assms(2) by auto
  then show ?thesis unfolding star_inv_def star by auto
qed (simp add: star_inv_def)

lemma glob_loop_correct:
  "CHR ''*'' \<notin> set t \<Longrightarrow> star_inv p t star \<Longrightarrow> (\<forall>sp st. star = Some (sp, st) \<longrightarrow> CHR ''*'' \<notin> set st) \<Longrightarrow>
   glob_loop p t star = Some (glob_spec p t \<or> star_alt star)"
proof (induction "(p, t, star)" arbitrary: p t star rule: wf_induct_rule[OF wf_measures[of
      "[\<lambda>(p, t, star). case star of None \<Rightarrow> Suc (length p) | Some (sp, st) \<Rightarrow> length sp,
        \<lambda>(p, t, star). case star of None \<Rightarrow> 0 | Some (sp, st) \<Rightarrow> length st,
        \<lambda>(p, t, star). length t]"]])
  case (1 p t star)
  note IH = 1(1) and nostar = 1(2) and inv = 1(3) and nst = 1(4)
  show ?case
  proof (cases t)
    case Nil
    have alt: "star_alt star \<Longrightarrow> glob_spec p []"
    proof -
      assume a: "star_alt star"
      then obtain sp st where star: "star = Some (sp, st)" by (auto simp: star_alt_def split: option.splits)
      from inv star Nil obtain q where q: "sp = q @ p" "length q = length st" "CHR ''*'' \<notin> set q"
        by (auto simp: star_inv_def)
      from a star have "st \<noteq> []" "glob_spec (CHR ''*'' # sp) (tl st)" by (auto simp: star_alt_def)
      then obtain a' b where ab: "tl st = a' @ b" "glob_spec sp b" unfolding glob_spec_star by blast
      from glob_spec_prefix[OF q(3)] ab(2) q(1) obtain c d where
        cd: "b = c @ d" "length c = length q" by blast
      have "length b \<le> length (tl st)" using ab(1) by simp
      then show ?thesis using cd q(2) \<open>st \<noteq> []\<close> by (cases st) auto
    qed
    show ?thesis unfolding Nil glob_loop_nil glob_spec_nil[symmetric] using alt by blast
  next
    case (Cons x t')
    show ?thesis
    proof (cases "p \<noteq> [] \<and> (hd p = CHR ''?'' \<or> hd p = x)")
      case True
      then obtain c p' where p: "p = c # p'" "c = CHR ''?'' \<or> c = x" by (cases p) auto
      have c: "c \<noteq> CHR ''*''" using p(2) nostar Cons by auto
      have inv': "star_inv p' t' star"
        using star_inv_match inv Cons p(1) c by blast
      have "glob_loop p t star = glob_loop p' t' star"
        unfolding Cons p(1) using p(2) by (rule glob_loop_literal)
      also have "\<dots> = Some (glob_spec p' t' \<or> star_alt star)"
        using Cons p nostar nst inv' by (intro IH) (auto split: option.splits)
      finally show ?thesis using Cons p c by auto
    next
      case nolit: False
      show ?thesis
      proof (cases "p \<noteq> [] \<and> hd p = CHR ''*''")
        case True
        then obtain p' where p: "p = CHR ''*'' # p'" by (cases p) auto
        have "glob_loop p t star = glob_loop p' t (Some (p', t))"
          unfolding Cons p using nostar Cons by (intro glob_loop_star) auto
        also have "\<dots> = Some (glob_spec p' t \<or> star_alt (Some (p', t)))"
        proof (intro IH)
          show "((p', t, Some (p', t)), p, t, star) \<in> measures
            [\<lambda>(p, t, star). case star of None \<Rightarrow> Suc (length p) | Some (sp, st) \<Rightarrow> length sp,
             \<lambda>(p, t, star). case star of None \<Rightarrow> 0 | Some (sp, st) \<Rightarrow> length st,
             \<lambda>(p, t, star). length t]"
            using p inv by (auto simp: star_inv_def split: option.splits)
        qed (use nostar in \<open>auto simp: star_inv_def\<close>)
        also have "glob_spec p' t \<or> star_alt (Some (p', t)) \<longleftrightarrow> glob_spec p t"
          using p Cons by (auto simp: star_alt_def)
        finally show ?thesis using star_alt_new[of p' t star] inv p by auto
      next
        case nost: False
        have np: "\<not> glob_spec p t" using nolit nost Cons by (cases p) auto
        show ?thesis
        proof (cases star)
          case None
          then show ?thesis using Cons nolit nost np glob_loop_back[of p x t' None]
            by (auto simp: star_alt_def)
        next
          case (Some ss)
          obtain sp st where star: "star = Some (sp, st)" using Some by (cases ss) auto
          have st: "st \<noteq> []" using inv star Cons by (auto simp: star_inv_def)
          have "glob_loop p t star = glob_loop sp (tl st) (Some (sp, tl st))"
            using Cons nolit nost star glob_loop_back[of p x t' star] by auto
          also have "\<dots> = Some (glob_spec sp (tl st) \<or> star_alt (Some (sp, tl st)))"
            using star st nst
            by (intro IH) (auto simp: star_inv_def intro: list.set_sel(2))
          also have "glob_spec sp (tl st) \<or> star_alt (Some (sp, tl st)) \<longleftrightarrow> star_alt star"
            using star st by (cases "tl st") (auto simp: star_alt_def glob_spec_nil)
          finally show ?thesis using np by simp
        qed
      qed
    qed
  qed
qed

lemma glob_match_spec: "CHR ''*'' \<notin> set topic \<Longrightarrow> glob_match p topic = glob_spec p topic"
  using glob_loop_correct[of topic p None]
  by (simp add: glob_match_def star_inv_def star_alt_def)

lemma glob_loop_total_plain: "CHR ''*'' \<notin> set topic \<Longrightarrow> \<exists>b. glob_loop p topic None = Some b"
  using glob_loop_correct[of topic p None] by (simp add: star_inv_def)

section \<open>The bus machine\<close>

type_synonym 'cb subscribers = "(string \<times> (nat \<times> 'cb) list) list"

text \<open>Where the dispatch thread stands: waiting for an event, holding a popped event, running the
  callbacks collected for it, or ended.\<close>

datatype 'cb dispatch_pc =
    Waiting | Holding bus_event | Calling bus_event "'cb list" | Ended

text \<open>The last three fields are history variables: every event enqueued, every event taken from the
  queue, and every callback invocation, in order.\<close>

record 'cb bus =
  event_queue :: "bus_event list"
  exact_subs :: "'cb subscribers"
  wildcard_subs :: "'cb subscribers"
  next_token :: nat
  in_flight :: nat
  causal_clock :: "64 word"
  stop_flag :: bool
  dispatcher :: "'cb dispatch_pc"
  enqueued :: "bus_event list"
  taken :: "bus_event list"
  invoked :: "('cb \<times> bus_event) list"

definition new_bus :: "'cb bus" where
  "new_bus = \<lparr> event_queue = [], exact_subs = [], wildcard_subs = [], next_token = 0,
     in_flight = 0, causal_clock = 0, stop_flag = False, dispatcher = Waiting,
     enqueued = [], taken = [], invoked = [] \<rparr>"

definition bus_emit :: "bus_event \<Rightarrow> 'cb bus \<Rightarrow> 'cb bus" where
  "bus_emit e b = (let (t, c) = clock_tick (causal_clock b); e' = e \<lparr> ev_causal_time := t \<rparr>
     in b \<lparr> causal_clock := c, event_queue := event_queue b @ [e'], enqueued := enqueued b @ [e'] \<rparr>)"

text \<open>The string overload first ticks outside the mutex, then emits: two critical points.\<close>

definition text_event :: "string \<Rightarrow> string \<Rightarrow> int \<Rightarrow> bus_event" where
  "text_event event_type content now =
     mk_event event_type (tr_success jempty (jset ''content'' (JStr content) JNull)) now"

definition bus_tick :: "'cb bus \<Rightarrow> 'cb bus" where
  "bus_tick b = b \<lparr> causal_clock := snd (clock_tick (causal_clock b)) \<rparr>"

definition bus_emit_text :: "string \<Rightarrow> string \<Rightarrow> int \<Rightarrow> 'cb bus \<Rightarrow> 'cb bus" where
  "bus_emit_text event_type content now b =
     bus_emit ((text_event event_type content now)
                 \<lparr> ev_causal_time := fst (clock_tick (causal_clock b)) \<rparr>) (bus_tick b)"

definition push_sub :: "('cb subscribers \<Rightarrow> 'cb subscribers) \<Rightarrow> string \<Rightarrow> nat \<times> 'cb \<Rightarrow>
    'cb subscribers \<Rightarrow> 'cb subscribers" where
  "push_sub reorder k x m =
     (if map_of m k = None then reorder ((k, [x]) # m)
      else map (\<lambda>(k', v). if k' = k then (k', v @ [x]) else (k', v)) m)"

definition bus_subscribe :: "('cb subscribers \<Rightarrow> 'cb subscribers) \<Rightarrow> string \<Rightarrow> 'cb \<Rightarrow>
    'cb bus \<Rightarrow> nat \<times> 'cb bus" where
  "bus_subscribe reorder event_type cb b =
     (let token = next_token b; b1 = b \<lparr> next_token := token + 1 \<rparr>
      in if has_wildcard event_type
         then (token, b1 \<lparr> wildcard_subs := push_sub reorder event_type (token, cb) (wildcard_subs b) \<rparr>)
         else (token, b1 \<lparr> exact_subs := push_sub reorder event_type (token, cb) (exact_subs b) \<rparr>))"

text \<open>Erase the token from the first vector that holds it, and say whether one did.\<close>

fun unsub_scan :: "nat \<Rightarrow> 'cb subscribers \<Rightarrow> bool \<times> 'cb subscribers" where
  "unsub_scan token [] = (False, [])"
| "unsub_scan token ((k, v) # m) =
     (if token \<in> fst ` set v then (True, (k, filter (\<lambda>p. fst p \<noteq> token) v) # m)
      else let (found, m') = unsub_scan token m in (found, (k, v) # m'))"

definition bus_unsubscribe :: "nat \<Rightarrow> 'cb bus \<Rightarrow> 'cb bus" where
  "bus_unsubscribe token b =
     (case unsub_scan token (exact_subs b) of
        (True, m) \<Rightarrow> b \<lparr> exact_subs := m \<rparr>
      | (False, _) \<Rightarrow> (case unsub_scan token (wildcard_subs b) of
            (True, m) \<Rightarrow> b \<lparr> wildcard_subs := m \<rparr>
          | (False, _) \<Rightarrow> b))"

definition bus_try_pop :: "'cb bus \<Rightarrow> bus_event option \<times> 'cb bus" where
  "bus_try_pop b = (case event_queue b of
       [] \<Rightarrow> (None, b)
     | e # q \<Rightarrow> (Some e, b \<lparr> event_queue := q, taken := taken b @ [e] \<rparr>))"

definition drained :: "'cb bus \<Rightarrow> bool" where
  "drained b \<longleftrightarrow> event_queue b = [] \<and> in_flight b = 0"

text \<open>The callbacks for an event: those of its exact topic, then those of each matching pattern.\<close>

definition collect_callbacks :: "bus_event \<Rightarrow> 'cb bus \<Rightarrow> 'cb list" where
  "collect_callbacks e b =
     (case map_of (exact_subs b) (ev_topic e) of Some v \<Rightarrow> map snd v | None \<Rightarrow> []) @
     concat (map (\<lambda>(pat, v). if glob_match pat (ev_topic e) then map snd v else []) (wildcard_subs b))"

text \<open>One action of the dispatch thread.\<close>

definition dispatch_step :: "'cb bus \<Rightarrow> 'cb bus" where
  "dispatch_step b = (case dispatcher b of
       Waiting \<Rightarrow>
         (if \<not> stop_flag b \<and> event_queue b = [] then b
          else if stop_flag b \<and> event_queue b = [] \<and> in_flight b = 0 then b \<lparr> dispatcher := Ended \<rparr>
          else (case event_queue b of
              [] \<Rightarrow> b
            | e # q \<Rightarrow> b \<lparr> event_queue := q, in_flight := in_flight b + 1,
                          dispatcher := Holding e, taken := taken b @ [e] \<rparr>))
     | Holding e \<Rightarrow> b \<lparr> dispatcher := Calling e (collect_callbacks e b) \<rparr>
     | Calling e (cb # cbs) \<Rightarrow>
         b \<lparr> dispatcher := Calling e cbs, invoked := invoked b @ [(cb, e)] \<rparr>
     | Calling e [] \<Rightarrow> b \<lparr> in_flight := in_flight b - 1, dispatcher := Waiting \<rparr>
     | Ended \<Rightarrow> b)"

datatype 'cb bus_action =
    A_emit bus_event | A_tick | A_subscribe string 'cb | A_unsubscribe nat | A_try_pop
  | A_dispatch | A_stop

primrec bus_do ::
  "('cb subscribers \<Rightarrow> 'cb subscribers) \<Rightarrow> 'cb bus_action \<Rightarrow> 'cb bus \<Rightarrow> 'cb bus" where
  "bus_do ro (A_emit e) b = bus_emit e b"
| "bus_do ro A_tick b = bus_tick b"
| "bus_do ro (A_subscribe t cb) b = snd (bus_subscribe ro t cb b)"
| "bus_do ro (A_unsubscribe n) b = bus_unsubscribe n b"
| "bus_do ro A_try_pop b = snd (bus_try_pop b)"
| "bus_do ro A_dispatch b = dispatch_step b"
| "bus_do ro A_stop b = b \<lparr> stop_flag := True \<rparr>"

definition bus_run ::
  "('cb subscribers \<Rightarrow> 'cb subscribers) \<Rightarrow> 'cb bus_action list \<Rightarrow> 'cb bus \<Rightarrow> 'cb bus" where
  "bus_run ro acts b = fold (bus_do ro) acts b"

lemma bus_run_Nil [simp]: "bus_run ro [] b = b"
  by (simp add: bus_run_def)

lemma bus_run_snoc: "bus_run ro (acts @ [a]) b = bus_do ro a (bus_run ro acts b)"
  by (simp add: bus_run_def)

section \<open>Subscriber tables\<close>

definition flat_subs :: "'cb subscribers \<Rightarrow> (string \<times> nat \<times> 'cb) list" where
  "flat_subs m = concat (map (\<lambda>(k, v). map (\<lambda>x. (k, x)) v) m)"

definition tokens_of :: "'cb subscribers \<Rightarrow> nat list" where
  "tokens_of m = map (\<lambda>x. fst (snd x)) (flat_subs m)"

lemma flat_subs_simps [simp]:
  "flat_subs [] = []"
  "flat_subs ((k, v) # m) = map (\<lambda>x. (k, x)) v @ flat_subs m"
  by (simp_all add: flat_subs_def)

lemma tokens_of_simps [simp]:
  "tokens_of [] = []"
  "tokens_of ((k, v) # m) = map fst v @ tokens_of m"
  by (simp_all add: tokens_of_def)

lemma mset_flat_cong: "mset m = mset m' \<Longrightarrow> mset (flat_subs m) = mset (flat_subs m')"
  unfolding flat_subs_def mset_concat map_map[symmetric] sum_mset_sum_list[symmetric]
  by (metis mset_map)

lemma mset_tokens: "mset (tokens_of m) = image_mset (\<lambda>x. fst (snd x)) (mset (flat_subs m))"
  by (simp add: tokens_of_def)

lemma unsub_scan_absent: "token \<notin> set (tokens_of m) \<Longrightarrow> unsub_scan token m = (False, m)"
  by (induction m rule: unsub_scan.induct) (auto simp: image_iff)

lemma unsub_scan_present:
  "token \<in> set (tokens_of m) \<Longrightarrow> distinct (tokens_of m) \<Longrightarrow>
   fst (unsub_scan token m) \<and>
   flat_subs (snd (unsub_scan token m)) = filter (\<lambda>x. fst (snd x) \<noteq> token) (flat_subs m) \<and>
   map fst (snd (unsub_scan token m)) = map fst m"
proof (induction token m rule: unsub_scan.induct)
  case (2 token k v m)
  show ?case
  proof (cases "token \<in> fst ` set v")
    case True
    then have "token \<notin> set (tokens_of m)" using 2(3) by auto
    then have "filter (\<lambda>x. fst (snd x) \<noteq> token) (flat_subs m) = flat_subs m"
      by (auto simp: filter_id_conv tokens_of_def)
    then show ?thesis using True by (simp add: filter_map comp_def)
  next
    case False
    then have "filter (\<lambda>x. fst x \<noteq> token) v = v" by (auto simp: filter_id_conv)
    then show ?thesis using 2 False by (auto simp: split_beta filter_map comp_def)
  qed
qed simp

lemma push_sub_flat:
  assumes "\<And>m'. mset (ro m') = mset m'" "distinct (map fst m)"
  shows "mset (flat_subs (push_sub ro k x m)) = add_mset (k, x) (mset (flat_subs m))"
proof (cases "map_of m k")
  case None
  then show ?thesis using mset_flat_cong[OF assms(1)[of "(k, [x]) # m"]] by (simp add: push_sub_def)
next
  case (Some v)
  have "distinct (map fst m) \<Longrightarrow> map_of m k = Some v \<Longrightarrow>
    mset (flat_subs (map (\<lambda>(k', v). if k' = k then (k', v @ [x]) else (k', v)) m)) =
    add_mset (k, x) (mset (flat_subs m))"
  proof (induction m)
    case (Cons p m)
    obtain k' v' where p: "p = (k', v')" by (cases p)
    show ?case
    proof (cases "k' = k")
      case True
      then have "map (\<lambda>(k', v). if k' = k then (k', v @ [x]) else (k', v)) m = m"
        using Cons.prems p by (auto intro!: map_idI simp: image_iff)
      then show ?thesis using True p by simp
    qed (use Cons p in auto)
  qed simp
  then show ?thesis using Some assms(2) by (simp add: push_sub_def)
qed

lemma push_sub_keys:
  assumes "\<And>m'. mset (ro m') = mset m'"
  shows "mset (map fst (push_sub ro k x m)) =
    (if map_of m k = None then add_mset k (mset (map fst m)) else mset (map fst m))"
proof -
  have keys: "map fst (map (\<lambda>(k', v). if k' = k then (k', v @ [x]) else (k', v)) m) = map fst m"
    by (induction m) auto
  show ?thesis
  proof (cases "map_of m k = None")
    case True
    then show ?thesis by (simp add: push_sub_def assms)
  next
    case False
    then have "map fst (push_sub ro k x m) = map fst m" by (simp only: push_sub_def if_False keys)
    then show ?thesis using False by simp
  qed
qed

section \<open>Invariants of every execution\<close>

definition sub_keys :: "'cb subscribers \<Rightarrow> string set" where
  "sub_keys m = set (map fst m)"

definition subs_inv :: "'cb bus \<Rightarrow> bool" where
  "subs_inv b \<longleftrightarrow>
     distinct (tokens_of (exact_subs b) @ tokens_of (wildcard_subs b)) \<and>
     (\<forall>t \<in> set (tokens_of (exact_subs b) @ tokens_of (wildcard_subs b)). t < next_token b) \<and>
     distinct (map fst (exact_subs b)) \<and> distinct (map fst (wildcard_subs b)) \<and>
     (\<forall>k \<in> sub_keys (exact_subs b). \<not> has_wildcard k) \<and>
     (\<forall>k \<in> sub_keys (wildcard_subs b). has_wildcard k)"

definition flow_inv :: "'cb bus \<Rightarrow> bool" where
  "flow_inv b \<longleftrightarrow> enqueued b = taken b @ event_queue b \<and>
     in_flight b = (case dispatcher b of Holding _ \<Rightarrow> 1 | Calling _ _ \<Rightarrow> 1 | _ \<Rightarrow> 0)"

definition clock_inv :: "nat \<Rightarrow> 'cb bus \<Rightarrow> bool" where
  "clock_inv n b \<longleftrightarrow> unat (causal_clock b) \<le> n \<and>
     sorted_wrt (<) (map ev_causal_time (enqueued b)) \<and>
     (\<forall>e \<in> set (enqueued b). ev_causal_time e < causal_clock b)"

lemma flow_inv_dispatch: "flow_inv b \<Longrightarrow> flow_inv (dispatch_step b)"
  by (auto simp: flow_inv_def dispatch_step_def split: list.splits dispatch_pc.splits)

lemma flow_frame:
  assumes "flow_inv b" "enqueued b' = enqueued b" "taken b' = taken b"
    "event_queue b' = event_queue b" "in_flight b' = in_flight b" "dispatcher b' = dispatcher b"
  shows "flow_inv b'"
  using assms by (simp add: flow_inv_def)

lemma flow_inv_subscribe: "flow_inv b \<Longrightarrow> flow_inv (snd (bus_subscribe ro t cb b))"
  by (erule flow_frame) (simp_all add: bus_subscribe_def Let_def)

lemma flow_inv_unsubscribe: "flow_inv b \<Longrightarrow> flow_inv (bus_unsubscribe n b)"
  by (erule flow_frame) (simp_all add: bus_unsubscribe_def split: prod.splits bool.splits)

lemma flow_inv_do: "flow_inv b \<Longrightarrow> flow_inv (bus_do ro a b)"
proof (cases a)
  case (A_emit e)
  assume "flow_inv b"
  then show ?thesis using A_emit
    by (simp add: flow_inv_def bus_emit_def clock_tick_def Let_def)
next
  case A_try_pop
  assume "flow_inv b"
  then show ?thesis using A_try_pop
    by (simp add: flow_inv_def bus_try_pop_def split: list.splits dispatch_pc.splits)
qed (auto simp: bus_tick_def flow_inv_dispatch flow_inv_subscribe flow_inv_unsubscribe
    elim: flow_frame)

lemma bus_run_induct:
  assumes "P new_bus" "\<And>a b. P b \<Longrightarrow> P (bus_do ro a b)"
  shows "P (bus_run ro acts new_bus)"
  by (induction acts rule: rev_induct) (simp_all add: bus_run_snoc assms)

lemma flow_inv_run: "flow_inv (bus_run ro acts new_bus)"
  by (rule bus_run_induct[where P = flow_inv], simp add: flow_inv_def new_bus_def)
    (rule flow_inv_do)

lemma dispatch_step_frame [simp]:
  "exact_subs (dispatch_step b) = exact_subs b" "wildcard_subs (dispatch_step b) = wildcard_subs b"
  "next_token (dispatch_step b) = next_token b" "causal_clock (dispatch_step b) = causal_clock b"
  "enqueued (dispatch_step b) = enqueued b"
  by (auto simp: dispatch_step_def split: list.splits dispatch_pc.splits)

lemma try_pop_frame [simp]:
  "exact_subs (snd (bus_try_pop b)) = exact_subs b"
  "wildcard_subs (snd (bus_try_pop b)) = wildcard_subs b"
  "next_token (snd (bus_try_pop b)) = next_token b"
  "causal_clock (snd (bus_try_pop b)) = causal_clock b"
  "enqueued (snd (bus_try_pop b)) = enqueued b"
  by (auto simp: bus_try_pop_def split: list.splits)

lemma subscribe_frame [simp]:
  "causal_clock (snd (bus_subscribe ro t cb b)) = causal_clock b"
  "enqueued (snd (bus_subscribe ro t cb b)) = enqueued b"
  by (auto simp: bus_subscribe_def Let_def)

lemma unsubscribe_frame [simp]:
  "causal_clock (bus_unsubscribe n b) = causal_clock b"
  "enqueued (bus_unsubscribe n b) = enqueued b" "next_token (bus_unsubscribe n b) = next_token b"
  by (auto simp: bus_unsubscribe_def split: prod.splits bool.splits)

lemma word_less_Suc:
  fixes c :: "64 word"
  assumes "unat c < 2 ^ 64 - 1"
  shows "c < c + 1" "unat (c + 1) = unat c + 1"
proof -
  show "unat (c + 1) = unat c + 1" using assms by (simp add: unat_word_ariths)
  then show "c < c + 1" by (simp add: word_less_nat_alt)
qed

lemma clock_inv_do:
  assumes "clock_inv n b" "n < 2 ^ 64 - 1"
  shows "clock_inv (Suc n) (bus_do ro a b)"
proof -
  have c: "unat (causal_clock b) < 2 ^ 64 - 1" using assms by (simp add: clock_inv_def)
  note w = word_less_Suc[OF c]
  have up: "e < causal_clock b \<Longrightarrow> e < causal_clock b + 1" for e
    by (rule less_trans[OF _ w(1)])
  show ?thesis
  proof (cases a)
    case (A_emit e)
    then show ?thesis using assms(1) w up
      by (auto simp: clock_inv_def bus_emit_def clock_tick_def sorted_wrt_append Let_def)
  next
    case A_tick
    then show ?thesis using assms(1) w up
      by (auto simp: clock_inv_def bus_tick_def clock_tick_def)
  qed (use assms(1) in \<open>auto simp: clock_inv_def\<close>)
qed

lemma clock_inv_run: "length acts < 2 ^ 64 \<Longrightarrow> clock_inv (length acts) (bus_run ro acts new_bus)"
proof (induction acts rule: rev_induct)
  case Nil
  show ?case by (simp add: clock_inv_def new_bus_def)
next
  case (snoc a acts)
  then show ?case using clock_inv_do[of "length acts" "bus_run ro acts new_bus" ro a]
    by (simp add: bus_run_snoc)
qed

lemma subs_frame:
  assumes "subs_inv b" "exact_subs b' = exact_subs b" "wildcard_subs b' = wildcard_subs b"
    "next_token b' = next_token b"
  shows "subs_inv b'"
  using assms by (simp add: subs_inv_def)

lemma push_sub_facts:
  assumes "\<And>m'. mset (ro m') = mset m'" "distinct (map fst m)"
  shows "set (tokens_of (push_sub ro k x m)) = insert (fst x) (set (tokens_of m))"
    "distinct (tokens_of (push_sub ro k x m)) \<longleftrightarrow>
       fst x \<notin> set (tokens_of m) \<and> distinct (tokens_of m)"
    "distinct (map fst (push_sub ro k x m))"
    "sub_keys (push_sub ro k x m) = insert k (sub_keys m)"
proof -
  have t: "mset (tokens_of (push_sub ro k x m)) = mset (fst x # tokens_of m)"
    by (simp add: mset_tokens push_sub_flat[OF assms])
  then show "set (tokens_of (push_sub ro k x m)) = insert (fst x) (set (tokens_of m))"
    by (metis list.simps(15) set_mset_mset)
  show "distinct (tokens_of (push_sub ro k x m)) \<longleftrightarrow>
       fst x \<notin> set (tokens_of m) \<and> distinct (tokens_of m)"
    using mset_eq_imp_distinct_iff[OF t] by simp
  have k: "mset (map fst (push_sub ro k x m)) = mset (if map_of m k = None then k # map fst m else map fst m)"
    by (simp only: push_sub_keys[OF assms(1)] mset.simps(2) if_distrib[of mset])
  show "distinct (map fst (push_sub ro k x m))"
    using mset_eq_imp_distinct_iff[OF k] assms(2) by (simp add: map_of_eq_None_iff)
  have "set (map fst (push_sub ro k x m)) = set (if map_of m k = None then k # map fst m else map fst m)"
    by (rule mset_eq_setD[OF k])
  moreover have "map_of m k \<noteq> None \<Longrightarrow> k \<in> fst ` set m" by (simp add: map_of_eq_None_iff)
  ultimately show "sub_keys (push_sub ro k x m) = insert k (sub_keys m)"
    by (auto simp: sub_keys_def split: if_splits)
qed

lemma subs_inv_subscribe:
  assumes "\<And>m'. mset (ro m') = mset m'" "subs_inv b"
  shows "subs_inv (snd (bus_subscribe ro t cb b))"
proof -
  have d: "distinct (map fst (exact_subs b))" "distinct (map fst (wildcard_subs b))"
    using assms(2) by (simp_all add: subs_inv_def)
  have "next_token b \<notin> set (tokens_of (exact_subs b))" "next_token b \<notin> set (tokens_of (wildcard_subs b))"
    using assms(2) by (auto simp: subs_inv_def)
  then show ?thesis
    using assms(2) push_sub_facts[OF assms(1) d(1), of t "(next_token b, cb)"]
      push_sub_facts[OF assms(1) d(2), of t "(next_token b, cb)"]
    by (auto simp: subs_inv_def bus_subscribe_def Let_def less_Suc_eq)
qed

text \<open>Removing a token removes exactly its subscription.\<close>

definition all_subs :: "'cb bus \<Rightarrow> (string \<times> nat \<times> 'cb) list" where
  "all_subs b = flat_subs (exact_subs b) @ flat_subs (wildcard_subs b)"

lemma filter_absent: "token \<notin> set (tokens_of m) \<Longrightarrow>
  filter (\<lambda>x. fst (snd x) \<noteq> token) (flat_subs m) = flat_subs m"
  by (auto simp: filter_id_conv tokens_of_def)

lemma unsubscribe_exact:
  assumes "subs_inv b"
  shows "all_subs (bus_unsubscribe token b) =
    filter (\<lambda>x. fst (snd x) \<noteq> token) (all_subs b) \<and>
    map fst (exact_subs (bus_unsubscribe token b)) = map fst (exact_subs b) \<and>
    map fst (wildcard_subs (bus_unsubscribe token b)) = map fst (wildcard_subs b)"
proof -
  have d: "distinct (tokens_of (exact_subs b))" "distinct (tokens_of (wildcard_subs b))"
    "set (tokens_of (exact_subs b)) \<inter> set (tokens_of (wildcard_subs b)) = {}"
    using assms by (auto simp: subs_inv_def)
  show ?thesis
  proof (cases "token \<in> set (tokens_of (exact_subs b))")
    case True
    then have "token \<notin> set (tokens_of (wildcard_subs b))" using d by auto
    then show ?thesis using unsub_scan_present[OF True d(1)]
        filter_absent[of token "wildcard_subs b"]
      by (auto simp: bus_unsubscribe_def all_subs_def split: prod.splits)
  next
    case False
    show ?thesis
    proof (cases "token \<in> set (tokens_of (wildcard_subs b))")
      case True
      then show ?thesis using unsub_scan_present[OF True d(2)] unsub_scan_absent[OF False]
          filter_absent[OF False]
        by (auto simp: bus_unsubscribe_def all_subs_def split: prod.splits)
    next
      case wf: False
      then show ?thesis using unsub_scan_absent[OF False] unsub_scan_absent[OF wf]
          filter_absent[OF False] filter_absent[OF wf]
        by (auto simp: bus_unsubscribe_def all_subs_def)
    qed
  qed
qed

lemma tokens_all: "tokens_of (exact_subs b) @ tokens_of (wildcard_subs b) =
    map (\<lambda>x. fst (snd x)) (all_subs b)"
  by (simp add: tokens_of_def all_subs_def)

lemma subs_inv_unsubscribe:
  assumes "subs_inv b"
  shows "subs_inv (bus_unsubscribe token b)"
proof -
  let ?b = "bus_unsubscribe token b"
  note e = unsubscribe_exact[OF assms, of token]
  have "sub_keys (exact_subs ?b) = sub_keys (exact_subs b)"
    "sub_keys (wildcard_subs ?b) = sub_keys (wildcard_subs b)"
    by (simp_all only: sub_keys_def e)
  moreover have "distinct (map (\<lambda>x. fst (snd x)) (all_subs ?b))"
    using assms e by (auto simp: subs_inv_def tokens_all intro: distinct_map_filter)
  moreover have "\<forall>t \<in> set (map (\<lambda>x. fst (snd x)) (all_subs ?b)). t < next_token b"
    using assms e by (auto simp: subs_inv_def tokens_all)
  ultimately show ?thesis using assms e by (simp add: subs_inv_def tokens_all)
qed

lemma subs_inv_do:
  assumes "\<And>m'. mset (ro m') = mset m'"
  shows "subs_inv b \<Longrightarrow> subs_inv (bus_do ro a b)"
  by (cases a) (auto simp: subs_inv_subscribe[OF assms] subs_inv_unsubscribe bus_emit_def bus_tick_def
      clock_tick_def Let_def elim: subs_frame)

lemma subs_inv_run:
  "(\<And>m'. mset (ro m') = mset m') \<Longrightarrow> subs_inv (bus_run ro acts new_bus)"
  by (rule bus_run_induct[where P = subs_inv], simp add: subs_inv_def new_bus_def sub_keys_def)
    (rule subs_inv_do)

section \<open>Dispatch\<close>

text \<open>What a subscription asks for: a text with a wildcard is a pattern, any other an exact topic.\<close>

definition wants :: "string \<Rightarrow> string \<Rightarrow> bool" where
  "wants pat topic = (if has_wildcard pat then glob_spec pat topic else pat = topic)"

definition wanted_callbacks :: "string \<Rightarrow> (string \<times> nat \<times> 'cb) list \<Rightarrow> 'cb list" where
  "wanted_callbacks topic subs = map (\<lambda>x. snd (snd x)) (filter (\<lambda>x. wants (fst x) topic) subs)"

lemma wanted_append [simp]:
  "wanted_callbacks topic (xs @ ys) = wanted_callbacks topic xs @ wanted_callbacks topic ys"
  by (simp add: wanted_callbacks_def)

lemma wanted_nil [simp]: "wanted_callbacks topic [] = []"
  by (simp add: wanted_callbacks_def)

lemma wanted_key:
  "wanted_callbacks topic (map (\<lambda>x. (k, x)) v) = (if wants k topic then map snd v else [])"
  by (induction v) (auto simp: wanted_callbacks_def)

lemma wanted_exact_none:
  "\<forall>k \<in> sub_keys m. \<not> has_wildcard k \<Longrightarrow> topic \<notin> sub_keys m \<Longrightarrow> wanted_callbacks topic (flat_subs m) = []"
  by (induction m) (auto simp: sub_keys_def wanted_key wants_def)

lemma wanted_exact:
  "\<forall>k \<in> sub_keys m. \<not> has_wildcard k \<Longrightarrow> distinct (map fst m) \<Longrightarrow>
   wanted_callbacks topic (flat_subs m) = (case map_of m topic of Some v \<Rightarrow> map snd v | None \<Rightarrow> [])"
proof (induction m)
  case Nil
  show ?case by (simp add: wanted_callbacks_def)
next
  case (Cons p m)
  obtain k v where p: "p = (k, v)" by (cases p)
  have k: "\<not> has_wildcard k" "\<forall>k \<in> sub_keys m. \<not> has_wildcard k" "k \<notin> sub_keys m"
    using Cons.prems p by (auto simp: sub_keys_def)
  show ?case
  proof (cases "k = topic")
    case True
    then show ?thesis using wanted_exact_none[of m topic] k p by (auto simp: wanted_key wants_def)
  next
    case False
    then show ?thesis using Cons k p by (auto simp: wanted_key wants_def)
  qed
qed

lemma wanted_patterns:
  "\<forall>k \<in> sub_keys m. has_wildcard k \<Longrightarrow> CHR ''*'' \<notin> set topic \<Longrightarrow>
   wanted_callbacks topic (flat_subs m) =
   concat (map (\<lambda>(pat, v). if glob_match pat topic then map snd v else []) m)"
  by (induction m) (auto simp: sub_keys_def wanted_key wants_def glob_match_spec)

lemma collect_wanted:
  "subs_inv b \<Longrightarrow> CHR ''*'' \<notin> set (ev_topic e) \<Longrightarrow>
   collect_callbacks e b = wanted_callbacks (ev_topic e) (all_subs b)"
  by (simp add: collect_callbacks_def all_subs_def wanted_exact wanted_patterns subs_inv_def)

lemma calling_steps:
  "dispatcher b = Calling e cbs \<Longrightarrow>
   (dispatch_step ^^ length cbs) b =
     b \<lparr> dispatcher := Calling e [], invoked := invoked b @ map (\<lambda>cb. (cb, e)) cbs \<rparr>"
proof (induction cbs arbitrary: b)
  case (Cons cb cbs)
  have d: "dispatch_step b = b \<lparr> dispatcher := Calling e cbs, invoked := invoked b @ [(cb, e)] \<rparr>"
    using Cons.prems by (simp add: dispatch_step_def)
  have "(dispatch_step ^^ length cbs) (dispatch_step b) =
      b \<lparr> dispatcher := Calling e [], invoked := (invoked b @ [(cb, e)]) @ map (\<lambda>cb. (cb, e)) cbs \<rparr>"
    unfolding d using Cons.IH[of "b \<lparr> dispatcher := Calling e cbs, invoked := invoked b @ [(cb, e)] \<rparr>"]
    by simp
  then show ?case by (simp add: funpow_swap1 funpow_Suc_right del: funpow.simps)
qed simp

section \<open>Properties\<close>

text \<open>C10. In every interleaving of emits, pops, subscriptions, callbacks and dispatcher actions, events
  leave the queue exactly once and in the order they were emitted (what was taken followed by what
  is queued is what was enqueued), and, as long as fewer than 2^64 actions ran, the causal times
  stamped on them strictly increase in that order; a drained bus has handed out every event and
  its dispatcher is idle.\<close>

theorem bus_fifo_causal:
  assumes "length acts < 2 ^ 64"
  shows "enqueued (bus_run ro acts new_bus) =
      taken (bus_run ro acts new_bus) @ event_queue (bus_run ro acts new_bus) \<and>
    sorted_wrt (<) (map ev_causal_time (enqueued (bus_run ro acts new_bus))) \<and>
    (drained (bus_run ro acts new_bus) \<longrightarrow>
       taken (bus_run ro acts new_bus) = enqueued (bus_run ro acts new_bus) \<and>
       dispatcher (bus_run ro acts new_bus) \<in> {Waiting, Ended})"
  using flow_inv_run[of ro acts] clock_inv_run[OF assms, of ro]
  by (auto simp: flow_inv_def clock_inv_def drained_def split: dispatch_pc.splits)

lemma bus_fifo_causal_witness:
  "sorted_wrt (<) (map ev_causal_time (enqueued (bus_run id
     [A_emit (mk_event ''a'' default_tool_result 0), A_dispatch :: nat bus_action, A_tick,
      A_emit (mk_event ''b'' default_tool_result 0)] new_bus)))"
proof -
  have l: "length [A_emit (mk_event ''a'' default_tool_result 0), A_dispatch :: nat bus_action, A_tick,
      A_emit (mk_event ''b'' default_tool_result 0)] < 2 ^ 64" by simp
  from bus_fifo_causal[OF l, of id] show ?thesis by blast
qed

text \<open>C9. Whatever was subscribed and unsubscribed before, and however the hash tables reorder their
  keys, when the dispatcher holds an event whose topic has no star it collects exactly the
  callbacks of the current subscriptions that ask for the topic (exact topics by equality,
  patterns by the meaning of star and question mark), and its next actions call each of them once
  with that event and release the in-flight count.\<close>

theorem dispatch_exact:
  assumes "\<And>m'. mset (ro m') = mset m'" "b = bus_run ro acts new_bus" "dispatcher b = Holding e"
    "CHR ''*'' \<notin> set (ev_topic e)"
  shows "dispatch_step b = b \<lparr> dispatcher := Calling e (wanted_callbacks (ev_topic e) (all_subs b)) \<rparr> \<and>
    invoked ((dispatch_step ^^ Suc (length (wanted_callbacks (ev_topic e) (all_subs b)))) b) =
      invoked b @ map (\<lambda>cb. (cb, e)) (wanted_callbacks (ev_topic e) (all_subs b)) \<and>
    in_flight (dispatch_step
      ((dispatch_step ^^ Suc (length (wanted_callbacks (ev_topic e) (all_subs b)))) b)) = 0"
proof -
  let ?w = "wanted_callbacks (ev_topic e) (all_subs b)"
  have "subs_inv b" unfolding assms(2) by (rule subs_inv_run[OF assms(1)])
  then have d: "dispatch_step b = b \<lparr> dispatcher := Calling e ?w \<rparr>"
    using assms(3,4) by (simp add: dispatch_step_def collect_wanted)
  have n: "(dispatch_step ^^ Suc (length ?w)) b =
      b \<lparr> dispatcher := Calling e [], invoked := invoked b @ map (\<lambda>cb. (cb, e)) ?w \<rparr>"
    unfolding funpow_Suc_right comp_apply d
    using calling_steps[of "b \<lparr> dispatcher := Calling e ?w \<rparr>" e ?w] by simp
  have "in_flight b = 1"
    using flow_inv_run[of ro acts] assms(2,3) by (simp add: flow_inv_def)
  then show ?thesis using d unfolding n by (simp add: dispatch_step_def)
qed

lemma dispatch_exact_witness:
  "invoked ((dispatch_step ^^ 2) (bus_run id [A_subscribe ''a'' (7 :: nat),
     A_emit (mk_event ''a'' default_tool_result 0), A_dispatch] new_bus)) =
   [(7, mk_event ''a'' default_tool_result 0)]"
proof -
  let ?acts = "[A_subscribe ''a'' (7 :: nat), A_emit (mk_event ''a'' default_tool_result 0), A_dispatch]"
  have w: "wanted_callbacks ''a'' [(''a'', 0, 7 :: nat)] = [7]"
    by (simp add: wanted_callbacks_def wants_def has_wildcard_def)
  have e: "(mk_event ''a'' default_tool_result 0) \<lparr> ev_causal_time := 0 \<rparr> = mk_event ''a'' default_tool_result 0"
    by (simp add: mk_event_def)
  have b: "bus_run id ?acts new_bus = new_bus \<lparr> exact_subs := [(''a'', [(0, 7)])], next_token := 1,
      causal_clock := 1, in_flight := 1, dispatcher := Holding (mk_event ''a'' default_tool_result 0),
      enqueued := [mk_event ''a'' default_tool_result 0],
      taken := [mk_event ''a'' default_tool_result 0] \<rparr>"
    by (simp add: bus_run_def bus_subscribe_def has_wildcard_def push_sub_def new_bus_def
        bus_emit_def clock_tick_def dispatch_step_def Let_def e)
  then have a: "all_subs (bus_run id ?acts new_bus) = [(''a'', 0, 7)]"
    by (simp add: all_subs_def new_bus_def)
  have t: "ev_topic (mk_event ''a'' default_tool_result 0) = ''a''" by (simp add: mk_event_def)
  show ?thesis
    using dispatch_exact[of id "bus_run id ?acts new_bus" ?acts "mk_event ''a'' default_tool_result 0",
        unfolded a t w] b by (simp add: numeral_2_eq_2 new_bus_def del: funpow.simps)
qed

text \<open>Subscription tokens are never reused and identify one subscription: in every reachable bus,
  subscribing returns a token no current subscription has and adds exactly one subscription, and
  unsubscribing a token removes exactly the subscription with that token, leaving all others in
  their order.\<close>

theorem subscription_exact:
  assumes "\<And>m'. mset (ro m') = mset m'" "b = bus_run ro acts new_bus"
    "bus_subscribe ro topic cb b = (token, b')"
  shows "token \<notin> (\<lambda>x. fst (snd x)) ` set (all_subs b) \<and>
    mset (all_subs b') = add_mset (topic, token, cb) (mset (all_subs b)) \<and>
    all_subs (bus_unsubscribe n b) = filter (\<lambda>x. fst (snd x) \<noteq> n) (all_subs b) \<and>
    mset (all_subs (bus_unsubscribe token b')) = mset (all_subs b)"
proof -
  have inv: "subs_inv b" unfolding assms(2) by (rule subs_inv_run[OF assms(1)])
  have d: "distinct (map fst (exact_subs b))" "distinct (map fst (wildcard_subs b))"
    using inv by (simp_all add: subs_inv_def)
  have tk: "token = next_token b" using assms(3) by (auto simp: bus_subscribe_def Let_def split: if_splits)
  have fresh: "token \<notin> (\<lambda>x. fst (snd x)) ` set (all_subs b)"
    using inv unfolding subs_inv_def tokens_all tk by auto
  have add: "mset (all_subs b') = add_mset (topic, token, cb) (mset (all_subs b))"
    using assms(3) push_sub_flat[OF assms(1) d(1)] push_sub_flat[OF assms(1) d(2)]
    by (auto simp: bus_subscribe_def Let_def all_subs_def split: if_splits)
  have inv': "subs_inv b'" using subs_inv_subscribe[OF assms(1) inv, of topic cb] assms(3) by simp
  have "mset (all_subs (bus_unsubscribe token b')) = filter_mset (\<lambda>x. fst (snd x) \<noteq> token) (mset (all_subs b'))"
    using unsubscribe_exact[OF inv'] by simp
  also have "\<dots> = filter_mset (\<lambda>x. fst (snd x) \<noteq> token) (mset (all_subs b))" by (simp add: add)
  also have "\<dots> = mset (all_subs b)" using fresh by (auto simp: filter_mset_eq_conv)
  finally show ?thesis using fresh add unsubscribe_exact[OF inv] by blast
qed

lemma subscription_exact_witness:
  "all_subs (bus_unsubscribe 0 (snd (bus_subscribe id ''a'' (7 :: nat) new_bus))) = []"
proof -
  obtain b' where b': "bus_subscribe id ''a'' (7 :: nat) new_bus = (0, b')"
    by (simp add: bus_subscribe_def new_bus_def Let_def has_wildcard_def)
  have "mset (all_subs (bus_unsubscribe 0 b')) = mset (all_subs (new_bus :: nat bus))"
    using subscription_exact[of id new_bus "[]" "''a''" 7 0 b'] b' by simp
  then show ?thesis by (simp only: b' snd_conv) (simp add: all_subs_def new_bus_def)
qed

text \<open>The glob matcher with its single backtrack point decides exactly the declarative pattern
  semantics (star for any text, question mark for one character) on every topic that does not
  itself contain a star.\<close>

theorem glob_match_meaning:
  "CHR ''*'' \<notin> set topic \<Longrightarrow> glob_match pattern topic \<longleftrightarrow> glob_spec pattern topic"
  by (rule glob_match_spec)

lemma glob_match_meaning_witness:
  "glob_match ''tool.*.ok'' ''tool.a.b.ok''"
  using glob_match_meaning[of "''tool.a.b.ok''" "''tool.*.ok''"] by simp

text \<open>On a topic that contains a star the literal comparison wins over the wildcard.\<close>

lemma glob_literal_star: "\<not> glob_match ''*a'' ''*ba'' \<and> glob_spec ''*a'' ''*ba''"
  by (simp add: glob_match_def glob_loop_literal glob_loop_back)

text \<open>Of two events of one bus that no trace link relates, the one emitted first is ordered before
  the other, except that an event stamped 0 is reported concurrent with every later one; and the
  first event a fresh bus emits is stamped 0, the value causal_order reads as not filled in.\<close>

theorem causal_order_of_bus:
  assumes "length acts < 2 ^ 64" "evs = enqueued (bus_run ro acts new_bus)" "i < j" "j < length evs"
    "\<not> trace_link (evs ! i) (evs ! j)" "\<not> trace_link (evs ! j) (evs ! i)"
  shows "causal_order (evs ! i) (evs ! j) =
      (if ev_causal_time (evs ! i) = 0 then Concurrent else ABeforeB) \<and>
    ev_causal_time (hd (enqueued (bus_emit e new_bus))) = 0"
proof -
  have "ev_causal_time (evs ! i) < ev_causal_time (evs ! j)"
    using clock_inv_run[OF assms(1), of ro] assms(2-4)
    by (simp add: clock_inv_def sorted_wrt_iff_nth_less)
  moreover from this have "ev_causal_time (evs ! j) \<noteq> 0" by auto
  ultimately show ?thesis using assms(5,6)
    by (simp add: causal_order_def bus_emit_def clock_tick_def new_bus_def Let_def)
qed

lemma causal_order_of_bus_witness:
  "causal_order (enqueued (bus_run id [A_emit (mk_event ''a'' default_tool_result 0),
       A_emit (mk_event ''b'' default_tool_result 0) :: nat bus_action] new_bus) ! 0)
     (enqueued (bus_run id [A_emit (mk_event ''a'' default_tool_result 0),
       A_emit (mk_event ''b'' default_tool_result 0) :: nat bus_action] new_bus) ! 1) = Concurrent"
  using causal_order_of_bus[of "[A_emit (mk_event ''a'' default_tool_result 0),
       A_emit (mk_event ''b'' default_tool_result 0) :: nat bus_action]" _ id 0 1]
  by (simp add: bus_run_def bus_emit_def clock_tick_def new_bus_def Let_def trace_link_def
      mk_event_def default_tool_result_def)

end
