(* ===== verification/Context_Engine.thy ===== *)
theory Context_Engine
  imports HF_Prelude
begin

text \<open>
  The context engine: modules/context/context_engine.{h,cpp}.  Contexts are JSON values, merged
  under per-path strategies, and snapshots are kept in a bounded store with an insertion order and
  an estimated total size.  JSON text (\<open>dump\<close>) and JSON equality (\<open>jeq\<close>, which compares numbers
  across kinds) belong to nlohmann::json and are parameters.  The iteration order of the policy
  table (an unordered_map) is that of the association list.  A merge that throws leaves the part
  already merged in the target: its result is the target with an optional exception.
\<close>

section \<open>Merge strategies\<close>

record merge_policy =
  field_policies :: "(string \<times> string) list"
  default_strategy :: string

definition default_merge_policy :: merge_policy where
  "default_merge_policy = \<lparr> field_policies = [], default_strategy = ''error_on_conflict'' \<rparr>"

text \<open>The first pattern in iteration order that ends in a star and whose rest is a prefix of the path.\<close>

fun wildcard_strategy :: "string \<Rightarrow> (string \<times> string) list \<Rightarrow> string option" where
  "wildcard_strategy path [] = None"
| "wildcard_strategy path ((pattern, strategy) # ps) =
     (if pattern \<noteq> [] \<and> last pattern = CHR ''*'' \<and> starts_with (butlast pattern) path
      then Some strategy else wildcard_strategy path ps)"

definition get_merge_strategy_for_path :: "string \<Rightarrow> merge_policy \<Rightarrow> string" where
  "get_merge_strategy_for_path path policy =
     (case map_of (field_policies policy) path of
        Some s \<Rightarrow> s
      | None \<Rightarrow> (case wildcard_strategy path (field_policies policy) of
            Some s \<Rightarrow> s
          | None \<Rightarrow> default_strategy policy))"

text \<open>\<open>range_items\<close> is a range-for over a JSON value: the elements of an array, the members of an
  object, the value itself for a scalar, nothing for null.\<close>

fun range_items :: "json \<Rightarrow> json list" where
  "range_items (JArr xs) = xs"
| "range_items (JObj kvs) = map snd kvs"
| "range_items JNull = []"
| "range_items v = [v]"

fun arr_items :: "json \<Rightarrow> json list" where
  "arr_items (JArr xs) = xs" | "arr_items _ = []"

definition push_unique :: "(json \<Rightarrow> json \<Rightarrow> bool) \<Rightarrow> json \<Rightarrow> json list \<Rightarrow> json list" where
  "push_unique jeq item xs = (if list_ex (\<lambda>x. jeq x item) xs then xs else xs @ [item])"

definition merge_array ::
  "(json \<Rightarrow> json \<Rightarrow> bool) \<Rightarrow> json \<Rightarrow> json \<Rightarrow> string \<Rightarrow> json \<times> exc option" where
  "merge_array jeq target source strategy =
     (if strategy = ''array_concat'' then (JArr (arr_items target @ range_items source), None)
      else if strategy = ''array_merge_unique'' then
        (JArr (fold (push_unique jeq) (range_items source) (arr_items target)), None)
      else if strategy = ''deep_merge'' then (source, None)
      else if strategy = ''last_write_wins'' then (source, None)
      else (target, Some (Runtime_error ''Context merge conflict for array field.'')))"

definition merge_scalar ::
  "(json \<Rightarrow> json \<Rightarrow> bool) \<Rightarrow> (json \<Rightarrow> string) \<Rightarrow> json \<Rightarrow> json \<Rightarrow> string \<Rightarrow> json \<times> exc option" where
  "merge_scalar jeq dump target source strategy =
     (if strategy = ''last_write_wins'' then (source, None)
      else if strategy = ''deep_merge'' then (source, None)
      else if \<not> jeq target source then
        (target, Some (Runtime_error (''Context merge conflict for scalar field: '' @ dump target
                                      @ '' vs '' @ dump source)))
      else (target, None))"

section \<open>The recursive merge\<close>

fun merge_recursive ::
  "(json \<Rightarrow> json \<Rightarrow> bool) \<Rightarrow> (json \<Rightarrow> string) \<Rightarrow> merge_policy \<Rightarrow> json \<Rightarrow> json \<Rightarrow> string \<Rightarrow>
   json \<times> exc option"
and merge_members ::
  "(json \<Rightarrow> json \<Rightarrow> bool) \<Rightarrow> (json \<Rightarrow> string) \<Rightarrow> merge_policy \<Rightarrow> (string \<times> json) list \<Rightarrow>
   (string \<times> json) list \<Rightarrow> string \<Rightarrow> (string \<times> json) list \<times> exc option" where
  "merge_recursive jeq dump pol target (JObj src) pfx =
     (case target of
        JObj tgt \<Rightarrow> (let (t, e) = merge_members jeq dump pol tgt src pfx in (JObj t, e))
      | _ \<Rightarrow> merge_scalar jeq dump target (JObj src) (default_strategy pol))"
| "merge_recursive jeq dump pol target (JArr xs) pfx =
     merge_array jeq target (JArr xs) (default_strategy pol)"
| "merge_recursive jeq dump pol target source pfx =
     merge_scalar jeq dump target source (default_strategy pol)"
| "merge_members jeq dump pol tgt [] pfx = (tgt, None)"
| "merge_members jeq dump pol tgt ((k, v) # src) pfx =
     (let path = (if pfx = [] then k else pfx @ ''.'' @ k) in
      case map_of tgt k of
        None \<Rightarrow> merge_members jeq dump pol (kv_ins k v tgt) src pfx
      | Some tv \<Rightarrow>
          (let strategy = get_merge_strategy_for_path path pol;
               (nv, err) = (if is_obj tv \<and> is_obj v then merge_recursive jeq dump pol tv v path
                            else if is_arr tv \<and> is_arr v then merge_array jeq tv v strategy
                            else merge_scalar jeq dump tv v strategy)
           in case err of
                Some e \<Rightarrow> (kv_ins k nv tgt, Some e)
              | None \<Rightarrow> merge_members jeq dump pol (kv_ins k nv tgt) src pfx))"

definition ctx_merge ::
  "(json \<Rightarrow> json \<Rightarrow> bool) \<Rightarrow> (json \<Rightarrow> string) \<Rightarrow> merge_policy \<Rightarrow> json \<Rightarrow> json \<Rightarrow> json \<times> exc option" where
  "ctx_merge jeq dump pol target source =
     (if \<not> is_obj source then (target, None) else merge_recursive jeq dump pol target source [])"

section \<open>The snapshot store\<close>

record snapshot_store =
  snapshots :: "(string \<times> json) list"
  snapshot_order :: "string list"
  store_max_snapshots :: nat
  store_max_size_kb :: nat
  store_total_size_kb :: nat

definition new_store :: snapshot_store where
  "new_store = \<lparr> snapshots = [], snapshot_order = [], store_max_snapshots = 10,
     store_max_size_kb = 512, store_total_size_kb = 0 \<rparr>"

definition estimate_json_size_kb :: "(json \<Rightarrow> string) \<Rightarrow> json \<Rightarrow> nat" where
  "estimate_json_size_kb dump j = (length (dump j) + 1023) div 1024"

definition get_snapshot :: "string \<Rightarrow> snapshot_store \<Rightarrow> json option" where
  "get_snapshot key st = map_of (snapshots st) key"

definition over_budget :: "snapshot_store \<Rightarrow> bool" where
  "over_budget st \<longleftrightarrow> store_max_snapshots st < length (snapshots st) \<or>
     store_max_size_kb st < store_total_size_kb st"

function enforce_snapshot_budget :: "(json \<Rightarrow> string) \<Rightarrow> snapshot_store \<Rightarrow> snapshot_store" where
  "enforce_snapshot_budget dump st =
     (if snapshot_order st \<noteq> [] \<and> over_budget st
      then let oldest = hd (snapshot_order st);
               st1 = st \<lparr> snapshot_order := tl (snapshot_order st) \<rparr>
           in enforce_snapshot_budget dump
                (case get_snapshot oldest st1 of
                   Some ctx \<Rightarrow> st1 \<lparr>
                     store_total_size_kb := store_total_size_kb st1 - estimate_json_size_kb dump ctx,
                     snapshots := kv_del oldest (snapshots st1) \<rparr>
                 | None \<Rightarrow> st1)
      else st)"
  by pat_completeness auto
termination
  by (relation "measure (\<lambda>(dump, st). length (snapshot_order st))")
    (auto split: option.splits)

declare enforce_snapshot_budget.simps [simp del]

definition no_room :: "(json \<Rightarrow> string) \<Rightarrow> json \<Rightarrow> snapshot_store \<Rightarrow> bool" where
  "no_room dump ctx st \<longleftrightarrow> store_max_snapshots st \<le> length (snapshots st) \<or>
     store_max_size_kb st < store_total_size_kb st + estimate_json_size_kb dump ctx"

definition add_snapshot ::
  "(json \<Rightarrow> string) \<Rightarrow> string \<Rightarrow> json \<Rightarrow> snapshot_store \<Rightarrow> snapshot_store" where
  "add_snapshot dump key ctx st = st \<lparr> snapshots := kv_ins key ctx (snapshots st),
     snapshot_order := snapshot_order st @ [key],
     store_total_size_kb := store_total_size_kb st + estimate_json_size_kb dump ctx \<rparr>"

definition save_snapshot ::
  "(json \<Rightarrow> string) \<Rightarrow> string \<Rightarrow> json \<Rightarrow> snapshot_store \<Rightarrow> snapshot_store" where
  "save_snapshot dump key ctx st =
     (if no_room dump ctx st
      then let st1 = enforce_snapshot_budget dump st
           in if no_room dump ctx st1 then st1 else add_snapshot dump key ctx st1
      else add_snapshot dump key ctx st)"

definition set_snapshot_limits ::
  "(json \<Rightarrow> string) \<Rightarrow> nat \<Rightarrow> nat \<Rightarrow> snapshot_store \<Rightarrow> snapshot_store" where
  "set_snapshot_limits dump max_count max_kb st = enforce_snapshot_budget dump
     (st \<lparr> store_max_snapshots := max_count, store_max_size_kb := max_kb \<rparr>)"

text \<open>\<open>execute_with_snapshot\<close>: the function runs first; its exception leaves the store untouched.\<close>

definition execute_with_snapshot ::
  "(json \<Rightarrow> string) \<Rightarrow> (json \<Rightarrow> json res) \<Rightarrow> json \<Rightarrow> bool \<Rightarrow> string \<Rightarrow> snapshot_store \<Rightarrow>
   (json \<times> string option) res \<times> snapshot_store" where
  "execute_with_snapshot dump f ctx need path st = (case f ctx of
       Inl e \<Rightarrow> (Inl e, st)
     | Inr new \<Rightarrow> if need then (Inr (new, Some path), save_snapshot dump path ctx st)
                 else (Inr (new, None), st))"

section \<open>Facts about the merge\<close>

definition merge_value ::
  "(json \<Rightarrow> json \<Rightarrow> bool) \<Rightarrow> (json \<Rightarrow> string) \<Rightarrow> merge_policy \<Rightarrow> json \<Rightarrow> json \<Rightarrow> string \<Rightarrow>
   json \<times> exc option" where
  "merge_value jeq dump pol tv v path =
     (if is_obj tv \<and> is_obj v then merge_recursive jeq dump pol tv v path
      else if is_arr tv \<and> is_arr v then merge_array jeq tv v (get_merge_strategy_for_path path pol)
      else merge_scalar jeq dump tv v (get_merge_strategy_for_path path pol))"

definition sub_path :: "string \<Rightarrow> string \<Rightarrow> string" where
  "sub_path pfx k = (if pfx = [] then k else pfx @ ''.'' @ k)"

lemma merge_members_Cons:
  "merge_members jeq dump pol tgt ((k, v) # src) pfx =
     (case map_of tgt k of
        None \<Rightarrow> merge_members jeq dump pol (kv_ins k v tgt) src pfx
      | Some tv \<Rightarrow> (case merge_value jeq dump pol tv v (sub_path pfx k) of
            (nv, Some e) \<Rightarrow> (kv_ins k nv tgt, Some e)
          | (nv, None) \<Rightarrow> merge_members jeq dump pol (kv_ins k nv tgt) src pfx))"
  by (auto simp: merge_value_def sub_path_def Let_def split: option.splits prod.splits)

declare merge_members.simps(2) [simp del] merge_recursive.simps(1) [simp del]

lemma merge_members_keep:
  "k \<notin> fst ` set src \<Longrightarrow> map_of (fst (merge_members jeq dump pol tgt src pfx)) k = map_of tgt k"
proof (induction src arbitrary: tgt)
  case (Cons p src)
  then show ?case
    by (cases p) (auto simp: merge_members_Cons split: option.splits prod.splits)
qed simp

lemma merge_members_ok:
  "distinct (map fst src) \<Longrightarrow> snd (merge_members jeq dump pol tgt src pfx) = None \<longleftrightarrow>
   (\<forall>(k, v) \<in> set src. \<forall>tv. map_of tgt k = Some tv \<longrightarrow>
      snd (merge_value jeq dump pol tv v (sub_path pfx k)) = None)"
proof (induction src arbitrary: tgt)
  case (Cons p src)
  obtain k v where p: "p = (k, v)" by (cases p)
  have k: "k \<notin> fst ` set src" and d: "distinct (map fst src)" using Cons.prems p by auto
  have other: "\<And>w. snd (merge_members jeq dump pol (kv_ins k w tgt) src pfx) = None \<longleftrightarrow>
     (\<forall>(k', v') \<in> set src. \<forall>tv. map_of tgt k' = Some tv \<longrightarrow>
        snd (merge_value jeq dump pol tv v' (sub_path pfx k')) = None)"
    using k by (subst Cons.IH[OF d]) (force simp: image_iff)
  show ?case
    by (auto simp: p merge_members_Cons other split: option.splits prod.splits)
qed simp

lemma merge_members_lookup:
  "distinct (map fst src) \<Longrightarrow> snd (merge_members jeq dump pol tgt src pfx) = None \<Longrightarrow>
   map_of (fst (merge_members jeq dump pol tgt src pfx)) k =
     (case map_of src k of
        None \<Rightarrow> map_of tgt k
      | Some v \<Rightarrow> (case map_of tgt k of
          None \<Rightarrow> Some v
        | Some tv \<Rightarrow> Some (fst (merge_value jeq dump pol tv v (sub_path pfx k)))))"
proof (induction src arbitrary: tgt)
  case (Cons p src)
  obtain k' v where p: "p = (k', v)" by (cases p)
  have k: "k' \<notin> fst ` set src" and d: "distinct (map fst src)" using Cons.prems p by auto
  show ?case
  proof (cases "k = k'")
    case True
    have n: "map_of src k' = None" using k by (simp add: map_of_eq_None_iff)
    show ?thesis using Cons.prems(2) True n k
      by (auto simp: p merge_members_Cons merge_members_keep split: option.splits prod.splits)
  next
    case False
    then show ?thesis using Cons.prems(2) Cons.IH[OF d]
      by (auto simp: p merge_members_Cons split: option.splits prod.splits)
  qed
qed simp

lemma merge_recursive_obj:
  "merge_recursive jeq dump pol (JObj tgt) (JObj src) pfx =
   (JObj (fst (merge_members jeq dump pol tgt src pfx)), snd (merge_members jeq dump pol tgt src pfx))"
  by (simp add: split_beta merge_recursive.simps(1))

lemma merge_value_obj:
  "merge_value jeq dump pol (JObj tgt) (JObj src) path =
   (JObj (fst (merge_members jeq dump pol tgt src path)), snd (merge_members jeq dump pol tgt src path))"
  by (simp add: merge_value_def merge_recursive_obj)

lemma no_policies_strategy [simp]:
  "field_policies pol = [] \<Longrightarrow> get_merge_strategy_for_path path pol = default_strategy pol"
  by (simp add: get_merge_strategy_for_path_def)

text \<open>Two values are compatible when their common members are: objects recursively, scalars and
  mismatched kinds by JSON equality, and two arrays never.\<close>

fun compatible :: "(json \<Rightarrow> json \<Rightarrow> bool) \<Rightarrow> json \<Rightarrow> json \<Rightarrow> bool" where
  "compatible jeq (JObj tgt) (JObj src) =
     (\<forall>kv \<in> set src. case map_of tgt (fst kv) of None \<Rightarrow> True | Some tv \<Rightarrow> compatible jeq tv (snd kv))"
| "compatible jeq (JArr xs) (JArr ys) = False"
| "compatible jeq tv v = jeq tv v"

lemma merge_value_default_ok:
  "jwf v \<Longrightarrow> snd (merge_value jeq dump default_merge_policy tv v path) = None \<longleftrightarrow> compatible jeq tv v"
proof (induction jeq tv v arbitrary: path rule: compatible.induct)
  case (1 jeq tgt src)
  then have d: "distinct (map fst src)" by (simp add: strict_sorted_distinct)
  have wf: "\<And>k v. (k, v) \<in> set src \<Longrightarrow> jwf v" using 1(2) by auto
  have ih: "snd (merge_value jeq dump default_merge_policy tv v path) = None \<longleftrightarrow> compatible jeq tv v"
    if "(k, v) \<in> set src" "map_of tgt k = Some tv" for k v tv path
    using 1(1)[of "(k, v)" tv path] wf that by simp
  show ?case unfolding merge_value_obj snd_conv merge_members_ok[OF d] compatible.simps
    by (auto simp: ih split: option.splits)
qed (auto simp: merge_value_def merge_array_def merge_scalar_def default_merge_policy_def
    get_merge_strategy_for_path_def)

lemma jwf_members: "jwf (JObj kvs) \<Longrightarrow> distinct (map fst kvs) \<and> (\<forall>k v. map_of kvs k = Some v \<longrightarrow> jwf v)"
  by (auto simp: strict_sorted_distinct dest: map_of_SomeD)

lemma merge_value_nonobj:
  assumes "\<not> (is_obj tv \<and> is_obj v)" "snd (merge_value jeq dump default_merge_policy tv v path) = None"
  shows "fst (merge_value jeq dump default_merge_policy tv v path) = tv" "jeq tv v"
  using assms by (auto simp: merge_value_def merge_array_def merge_scalar_def
      default_merge_policy_def get_merge_strategy_for_path_def split: if_splits)

lemma merge_default_keeps:
  "jwf v \<Longrightarrow> snd (merge_value jeq dump default_merge_policy tv v path) = None \<Longrightarrow>
   jpath ks tv = Some x \<Longrightarrow> \<not> is_obj x \<Longrightarrow>
   jpath ks (fst (merge_value jeq dump default_merge_policy tv v path)) = Some x"
proof (induction ks arbitrary: tv v path)
  case Nil
  then show ?case using merge_value_nonobj(1)[of tv v] by auto
next
  case (Cons k ks)
  show ?case
  proof (cases "is_obj tv \<and> is_obj v")
    case True
    then obtain tgt src where o: "tv = JObj tgt" "v = JObj src" by (cases tv; cases v) auto
    note w = jwf_members[OF Cons.prems(1)[unfolded o]]
    have ok: "snd (merge_members jeq dump default_merge_policy tgt src path) = None"
      using Cons.prems(2) by (simp add: o merge_value_obj)
    obtain tk where tk: "map_of tgt k = Some tk" "jpath ks tk = Some x"
      using Cons.prems(3) by (auto simp: o split: option.splits)
    show ?thesis
    proof (cases "map_of src k")
      case None
      then show ?thesis using merge_members_lookup[OF conjunct1[OF w] ok, of k] tk
        by (simp add: o merge_value_obj)
    next
      case (Some vk)
      have "snd (merge_value jeq dump default_merge_policy tk vk (sub_path path k)) = None"
        using ok[unfolded merge_members_ok[OF conjunct1[OF w]]] Some tk by (auto dest: map_of_SomeD)
      then show ?thesis using merge_members_lookup[OF conjunct1[OF w] ok, of k] tk Some w
          Cons.IH[of vk tk] Cons.prems(4) by (simp add: o merge_value_obj)
    qed
  next
    case False
    then show ?thesis using merge_value_nonobj(1) Cons.prems by metis
  qed
qed

lemma merge_default_takes:
  assumes jeq: "\<And>a b. jeq a b \<Longrightarrow> is_obj b \<Longrightarrow> is_obj a"
  shows "jwf v \<Longrightarrow> snd (merge_value jeq dump default_merge_policy tv v path) = None \<Longrightarrow>
   jpath ks v = Some x \<Longrightarrow> \<not> is_obj x \<Longrightarrow>
   \<exists>y. jpath ks (fst (merge_value jeq dump default_merge_policy tv v path)) = Some y \<and> (y = x \<or> jeq y x)"
proof (induction ks arbitrary: tv v path)
  case Nil
  then have nv: "\<not> (is_obj tv \<and> is_obj v)" by simp
  show ?case using merge_value_nonobj[OF nv Nil.prems(2)] Nil.prems by simp
next
  case (Cons k ks)
  have vo: "is_obj v" using Cons.prems(3) by (cases v) auto
  show ?case
  proof (cases "is_obj tv")
    case True
    then obtain tgt src where o: "tv = JObj tgt" "v = JObj src" using vo by (cases tv; cases v) auto
    note w = jwf_members[OF Cons.prems(1)[unfolded o]]
    have ok: "snd (merge_members jeq dump default_merge_policy tgt src path) = None"
      using Cons.prems(2) by (simp add: o merge_value_obj)
    obtain vk where vk: "map_of src k = Some vk" "jpath ks vk = Some x"
      using Cons.prems(3) by (auto simp: o split: option.splits)
    show ?thesis
    proof (cases "map_of tgt k")
      case None
      then show ?thesis using merge_members_lookup[OF conjunct1[OF w] ok, of k] vk
        by (simp add: o merge_value_obj)
    next
      case (Some tk)
      have "snd (merge_value jeq dump default_merge_policy tk vk (sub_path path k)) = None"
        using ok[unfolded merge_members_ok[OF conjunct1[OF w]]] Some vk by (auto dest: map_of_SomeD)
      then show ?thesis using merge_members_lookup[OF conjunct1[OF w] ok, of k] vk Some w
          Cons.IH[of vk tk] Cons.prems(4) by (simp add: o merge_value_obj)
    qed
  next
    case False
    then show ?thesis using merge_value_nonobj(2)[of tv v] jeq[of tv v] vo Cons.prems(2) by blast
  qed
qed

definition lww_policy :: merge_policy where
  "lww_policy = \<lparr> field_policies = [], default_strategy = ''last_write_wins'' \<rparr>"

lemma lww_nonobj: "\<not> (is_obj tv \<and> is_obj v) \<Longrightarrow> merge_value jeq dump lww_policy tv v path = (v, None)"
  by (auto simp: merge_value_def merge_array_def merge_scalar_def lww_policy_def
      get_merge_strategy_for_path_def)

lemma lww_total: "jwf v \<Longrightarrow> snd (merge_value jeq dump lww_policy tv v path) = None"
proof (induction v arbitrary: tv path rule: jwf.induct)
  case (1 kvs)
  show ?case
  proof (cases tv)
    case (JObj tgt)
    then show ?thesis
      using 1 by (auto simp: merge_value_obj merge_members_ok strict_sorted_distinct)
  qed (simp_all add: lww_nonobj)
qed (simp_all add: lww_nonobj)

lemma lww_takes:
  "jwf v \<Longrightarrow> jpath ks v = Some x \<Longrightarrow> \<not> is_obj x \<Longrightarrow>
   jpath ks (fst (merge_value jeq dump lww_policy tv v path)) = Some x"
proof (induction ks arbitrary: tv v path)
  case Nil
  then show ?case by (simp add: lww_nonobj)
next
  case (Cons k ks)
  show ?case
  proof (cases "is_obj tv \<and> is_obj v")
    case True
    then obtain tgt src where o: "tv = JObj tgt" "v = JObj src" by (cases tv; cases v) auto
    note w = jwf_members[OF Cons.prems(1)[unfolded o]]
    have ok: "snd (merge_members jeq dump lww_policy tgt src path) = None"
      using lww_total[OF Cons.prems(1), of jeq dump tv path] by (simp add: o merge_value_obj)
    obtain vk where vk: "map_of src k = Some vk" "jpath ks vk = Some x"
      using Cons.prems(2) by (auto simp: o split: option.splits)
    then have "jwf vk" using w by blast
    then show ?thesis using merge_members_lookup[OF conjunct1[OF w] ok, of k] vk Cons.IH Cons.prems(3)
      by (cases "map_of tgt k") (simp_all add: o merge_value_obj)
  next
    case False
    then show ?thesis using Cons.prems by (simp add: lww_nonobj)
  qed
qed

lemma lww_keeps:
  "jwf v \<Longrightarrow> is_obj tv \<Longrightarrow> jpath ks tv = Some x \<Longrightarrow> jpath ks v = None \<Longrightarrow>
   (\<And>n y. jpath (take n ks) v = Some y \<Longrightarrow> is_obj y) \<Longrightarrow>
   jpath ks (fst (merge_value jeq dump lww_policy tv v path)) = Some x"
proof (induction ks arbitrary: tv v path)
  case (Cons k ks)
  have "is_obj v" using Cons.prems(5)[of 0] by simp
  then obtain tgt src where o: "tv = JObj tgt" "v = JObj src" using Cons.prems(2) by (cases tv; cases v) auto
  note w = jwf_members[OF Cons.prems(1)[unfolded o]]
  have ok: "snd (merge_members jeq dump lww_policy tgt src path) = None"
    using lww_total[OF Cons.prems(1), of jeq dump tv path] by (simp add: o merge_value_obj)
  obtain tk where tk: "map_of tgt k = Some tk" "jpath ks tk = Some x"
    using Cons.prems(3) by (auto simp: o split: option.splits)
  show ?case
  proof (cases "map_of src k")
    case None
    then show ?thesis using merge_members_lookup[OF conjunct1[OF w] ok, of k] tk
      by (simp add: o merge_value_obj)
  next
    case (Some vk)
    have vko: "\<And>n y. jpath (take n ks) vk = Some y \<Longrightarrow> is_obj y"
      using Cons.prems(5)[of "Suc n" for n] Some by (simp add: o)
    then have "is_obj vk" by (metis jpath.simps(1) take0)
    have tko: "is_obj tk"
    proof (cases ks)
      case Nil
      then show ?thesis using Cons.prems(4) Some by (simp add: o)
    next
      case (Cons k' ks')
      then show ?thesis using tk(2) by (cases tk) auto
    qed
    have "jpath ks vk = None" using Cons.prems(4) Some by (simp add: o)
    from Cons.IH[OF _ tko tk(2) this vko] show ?thesis
      using merge_members_lookup[OF conjunct1[OF w] ok, of k] tk Some w by (simp add: o merge_value_obj)
  qed
qed simp

lemma ctx_merge_value:
  "is_obj target \<Longrightarrow> is_obj source \<Longrightarrow> ctx_merge jeq dump pol target source = merge_value jeq dump pol target source []"
  by (simp add: ctx_merge_def merge_value_def)

section \<open>Facts about the store\<close>

definition stored_kb :: "(json \<Rightarrow> string) \<Rightarrow> snapshot_store \<Rightarrow> nat" where
  "stored_kb dump st = sum_list (map (estimate_json_size_kb dump \<circ> snd) (snapshots st))"

definition store_inv :: "(json \<Rightarrow> string) \<Rightarrow> snapshot_store \<Rightarrow> bool" where
  "store_inv dump st \<longleftrightarrow> sorted_wrt (<) (map fst (snapshots st)) \<and>
     fst ` set (snapshots st) \<subseteq> set (snapshot_order st) \<and>
     stored_kb dump st \<le> store_total_size_kb st"

definition settled :: "snapshot_store \<Rightarrow> bool" where
  "settled st \<longleftrightarrow> snapshot_order st = [] \<or> \<not> over_budget st"

definition evict :: "(json \<Rightarrow> string) \<Rightarrow> snapshot_store \<Rightarrow> snapshot_store" where
  "evict dump st = (let oldest = hd (snapshot_order st);
       st1 = st \<lparr> snapshot_order := tl (snapshot_order st) \<rparr>
     in case get_snapshot oldest st1 of
          Some ctx \<Rightarrow> st1 \<lparr>
            store_total_size_kb := store_total_size_kb st1 - estimate_json_size_kb dump ctx,
            snapshots := kv_del oldest (snapshots st1) \<rparr>
        | None \<Rightarrow> st1)"

lemma enforce_evict:
  "enforce_snapshot_budget dump st =
     (if settled st then st else enforce_snapshot_budget dump (evict dump st))"
  by (subst enforce_snapshot_budget.simps) (simp add: settled_def evict_def Let_def)

lemma evict_order [simp]: "snapshot_order (evict dump st) = tl (snapshot_order st)"
  by (simp add: evict_def Let_def split: option.splits)

lemma evict_limits [simp]:
  "store_max_snapshots (evict dump st) = store_max_snapshots st"
  "store_max_size_kb (evict dump st) = store_max_size_kb st"
  by (simp_all add: evict_def Let_def split: option.splits)

lemma evict_inv:
  assumes "store_inv dump st" "snapshot_order st \<noteq> []"
  shows "store_inv dump (evict dump st)"
proof (cases "map_of (snapshots st) (hd (snapshot_order st))")
  case None
  then have "hd (snapshot_order st) \<notin> fst ` set (snapshots st)" by (simp add: map_of_eq_None_iff)
  then show ?thesis using assms None
    by (cases "snapshot_order st")
      (auto simp: store_inv_def evict_def get_snapshot_def stored_kb_def image_iff)
next
  case (Some ctx)
  have d: "distinct (map fst (snapshots st))" using assms by (simp add: store_inv_def strict_sorted_distinct)
  show ?thesis using assms Some sum_list_kv_del[OF d Some, of "estimate_json_size_kb dump"]
    by (cases "snapshot_order st")
      (auto simp: store_inv_def evict_def get_snapshot_def stored_kb_def kv_del_strict_sorted)
qed

lemma enforce_facts:
  "store_inv dump st \<Longrightarrow> store_inv dump (enforce_snapshot_budget dump st) \<and>
   settled (enforce_snapshot_budget dump st) \<and>
   store_max_snapshots (enforce_snapshot_budget dump st) = store_max_snapshots st \<and>
   store_max_size_kb (enforce_snapshot_budget dump st) = store_max_size_kb st"
proof (induction "length (snapshot_order st)" arbitrary: st rule: less_induct)
  case less
  show ?case
  proof (cases "settled st")
    case True
    then show ?thesis using less.prems by (subst (1 2 3 4) enforce_evict) simp
  next
    case False
    then have ne: "snapshot_order st \<noteq> []" by (simp add: settled_def)
    then show ?thesis using False less.hyps[of "evict dump st"] evict_inv[OF less.prems ne]
      by (subst (1 2 3 4) enforce_evict) simp
  qed
qed

lemma save_settled:
  "settled st \<Longrightarrow> save_snapshot dump key ctx st =
     (if no_room dump ctx st then st else add_snapshot dump key ctx st)"
  by (auto simp: save_snapshot_def enforce_evict Let_def)

lemma add_inv:
  "store_inv dump st \<Longrightarrow> store_inv dump (add_snapshot dump key ctx st)"
  using sum_list_kv_ins[of "estimate_json_size_kb dump" key ctx "snapshots st"]
  by (auto simp: store_inv_def add_snapshot_def stored_kb_def kv_ins_strict_sorted)

lemma add_settled: "\<not> no_room dump ctx st \<Longrightarrow> settled (add_snapshot dump key ctx st)"
  using length_kv_ins[of key ctx "snapshots st"]
  by (auto simp: settled_def over_budget_def no_room_def add_snapshot_def)

datatype store_op = Save string json | Set_limits nat nat

primrec store_apply :: "(json \<Rightarrow> string) \<Rightarrow> store_op \<Rightarrow> snapshot_store \<Rightarrow> snapshot_store" where
  "store_apply dump (Save k c) st = save_snapshot dump k c st"
| "store_apply dump (Set_limits n kb) st = set_snapshot_limits dump n kb st"

lemma store_apply_facts:
  assumes "store_inv dump st" "settled st"
  shows "store_inv dump (store_apply dump a st)" "settled (store_apply dump a st)"
proof -
  have "store_inv dump (set_snapshot_limits dump n kb st) \<and> settled (set_snapshot_limits dump n kb st)" for n kb
    using enforce_facts[of dump "st \<lparr> store_max_snapshots := n, store_max_size_kb := kb \<rparr>"] assms(1)
    by (simp add: set_snapshot_limits_def store_inv_def stored_kb_def)
  then show "store_inv dump (store_apply dump a st)" "settled (store_apply dump a st)"
    using assms by (cases a; auto simp: save_settled add_inv add_settled)+
qed

lemma store_run_facts:
  "store_inv dump (fold (store_apply dump) ops new_store) \<and> settled (fold (store_apply dump) ops new_store)"
proof (induction ops rule: rev_induct)
  case Nil
  show ?case by (simp add: store_inv_def new_store_def stored_kb_def settled_def)
qed (simp add: store_apply_facts)

section \<open>Properties\<close>

text \<open>C13. Under the default policy (error_on_conflict, no field policies) a merge of two objects
  succeeds exactly when they are compatible: shared members agree by JSON equality, object members
  recursively, and no shared member is an array on both sides (two arrays conflict even when equal).
  When it succeeds, every leaf of the target is kept and every leaf of the source is present, up to
  JSON equality.\<close>

theorem merge_default_correct:
  assumes "is_obj target" "is_obj source" "jwf source" "\<And>a b. jeq a b \<Longrightarrow> is_obj b \<Longrightarrow> is_obj a"
    "ctx_merge jeq dump default_merge_policy target source = (r, err)"
  shows "(err = None \<longleftrightarrow> compatible jeq target source) \<and>
    (err = None \<longrightarrow>
      (\<forall>ks x. jpath ks target = Some x \<and> \<not> is_obj x \<longrightarrow> jpath ks r = Some x) \<and>
      (\<forall>ks x. jpath ks source = Some x \<and> \<not> is_obj x \<longrightarrow>
         (\<exists>y. jpath ks r = Some y \<and> (y = x \<or> jeq y x))))"
proof -
  have m: "merge_value jeq dump default_merge_policy target source [] = (r, err)"
    using assms(5) by (simp add: ctx_merge_value assms(1,2))
  have t: "err = None \<Longrightarrow> jpath ks source = Some x \<Longrightarrow> \<not> is_obj x \<Longrightarrow>
      \<exists>y. jpath ks r = Some y \<and> (y = x \<or> jeq y x)" for ks x
    using merge_default_takes[of jeq source dump target "[]" ks x, OF assms(4) assms(3)] m by simp
  show ?thesis
    using merge_value_default_ok[OF assms(3), of jeq dump target "[]"]
      merge_default_keeps[OF assms(3), of jeq dump target "[]"] t m by auto
qed

lemma merge_default_correct_witness:
  "jpath [''a''] (fst (ctx_merge (=) (\<lambda>_. []) default_merge_policy (JObj [(''a'', JInt 1)])
      (JObj [(''b'', JInt 2)]))) = Some (JInt 1) \<and>
   snd (ctx_merge (=) (\<lambda>_. []) default_merge_policy (JObj [(''a'', JArr [])]) (JObj [(''a'', JArr [])])) \<noteq> None"
proof -
  obtain r err where re: "ctx_merge (=) (\<lambda>_. []) default_merge_policy (JObj [(''a'', JInt 1)])
      (JObj [(''b'', JInt 2)]) = (r, err)" by fastforce
  have j: "jpath [''a''] (JObj [(''a'', JInt 1)]) = Some (JInt 1)" by simp
  have 1: "jpath [''a''] r = Some (JInt 1)"
    using merge_default_correct[OF _ _ _ _ re] j by (auto simp del: jpath.simps)
  obtain r' err' where re': "ctx_merge (=) (\<lambda>_. []) default_merge_policy (JObj [(''a'', JArr [])])
      (JObj [(''a'', JArr [])]) = (r', err')" by fastforce
  have "err' \<noteq> None" using merge_default_correct[OF _ _ _ _ re'] by auto
  then show ?thesis using 1 re re' by simp
qed

text \<open>Under last_write_wins a merge of two objects never fails; every leaf of the source is in the
  result at its path; and every part of the target whose path the source does not reach is kept.\<close>

theorem merge_last_write_wins:
  assumes "is_obj target" "is_obj source" "jwf source"
    "ctx_merge jeq dump lww_policy target source = (r, err)"
  shows "err = None \<and>
    (\<forall>ks x. jpath ks source = Some x \<and> \<not> is_obj x \<longrightarrow> jpath ks r = Some x) \<and>
    (\<forall>ks x. jpath ks target = Some x \<and> jpath ks source = None \<and>
       (\<forall>n y. jpath (take n ks) source = Some y \<longrightarrow> is_obj y) \<longrightarrow> jpath ks r = Some x)"
proof -
  have m: "merge_value jeq dump lww_policy target source [] = (r, err)"
    using assms(4) by (simp add: ctx_merge_value assms(1,2))
  show ?thesis
    using lww_total[OF assms(3), of jeq dump target "[]"] lww_takes[OF assms(3), of _ _ jeq dump target "[]"]
      lww_keeps[OF assms(3,1), of _ _ jeq dump "[]"] m by auto
qed

lemma merge_last_write_wins_witness:
  "jpath [''a'', ''b''] (fst (ctx_merge (=) (\<lambda>_. []) lww_policy
      (JObj [(''a'', JObj [(''b'', JInt 1), (''c'', JInt 3)])])
      (JObj [(''a'', JObj [(''b'', JInt 2)])]))) = Some (JInt 2)"
proof -
  let ?s = "JObj [(''a'', JObj [(''b'', JInt 2)])]"
  obtain r err where re: "ctx_merge (=) (\<lambda>_. []) lww_policy
      (JObj [(''a'', JObj [(''b'', JInt 1), (''c'', JInt 3)])]) ?s = (r, err)" by fastforce
  have "jpath [''a'', ''b''] ?s = Some (JInt 2)" by simp
  then show ?thesis using merge_last_write_wins[OF _ _ _ re] re by (auto simp del: jpath.simps)
qed

text \<open>In every snapshot store reached by saves and limit changes, the keys stored all stand in the
  FIFO order, the running total is at least the estimated size of what is stored (so the
  subtraction at eviction never wraps), and the store is within both limits unless its FIFO is
  empty.\<close>

theorem snapshot_store_invariant:
  "let st = fold (store_apply dump) ops new_store in
     set (map fst (snapshots st)) \<subseteq> set (snapshot_order st) \<and>
     sum_list (map (estimate_json_size_kb dump \<circ> snd) (snapshots st)) \<le> store_total_size_kb st \<and>
     (snapshot_order st = [] \<or>
        length (snapshots st) \<le> store_max_snapshots st \<and> store_total_size_kb st \<le> store_max_size_kb st)"
  using store_run_facts[of dump ops]
  by (auto simp: Let_def store_inv_def stored_kb_def settled_def over_budget_def)

text \<open>Saving never evicts: in every reachable store a save that does not fit (the count is at its
  limit or the total would pass the size limit) leaves the store as it was, so the new snapshot is
  refused and the oldest kept; a save that fits makes exactly its key read as the saved context.\<close>

theorem save_refuses_instead_of_evicting:
  assumes "st = fold (store_apply dump) ops new_store"
  shows "(no_room dump ctx st \<longrightarrow> save_snapshot dump key ctx st = st) \<and>
    get_snapshot k (save_snapshot dump key ctx st) =
      (if k = key \<and> \<not> no_room dump ctx st then Some ctx else get_snapshot k st)"
  using store_run_facts[of dump ops] assms
  by (auto simp: save_settled get_snapshot_def add_snapshot_def)

lemma save_refuses_instead_of_evicting_witness:
  "get_snapshot ''b'' (save_snapshot (\<lambda>_. []) ''b'' JNull (fold (store_apply (\<lambda>_. []))
     [Set_limits 1 512, Save ''a'' JNull] new_store)) = None"
proof -
  let ?st = "fold (store_apply (\<lambda>_. [])) [Set_limits 1 512, Save ''a'' JNull] new_store"
  have st: "?st = \<lparr> snapshots = [(''a'', JNull)], snapshot_order = [''a''], store_max_snapshots = 1,
      store_max_size_kb = 512, store_total_size_kb = 0 \<rparr>"
    by (simp add: set_snapshot_limits_def enforce_evict settled_def new_store_def save_snapshot_def
        no_room_def add_snapshot_def estimate_json_size_kb_def)
  show ?thesis
    using save_refuses_instead_of_evicting[OF refl, of "\<lambda>_. []" JNull
        "[Set_limits 1 512, Save ''a'' JNull]" "''b''" "''b''"] unfolding st
    by (simp add: no_room_def get_snapshot_def)
qed

text \<open>A key saved twice is counted twice and evicted once: its size stays in the total for good.\<close>

lemma snapshot_total_leaks:
  "let st = set_snapshot_limits (\<lambda>_. replicate 1024 CHR ''x'') 0 512
      (save_snapshot (\<lambda>_. replicate 1024 CHR ''x'') ''a'' JNull
        (save_snapshot (\<lambda>_. replicate 1024 CHR ''x'') ''a'' JNull new_store))
   in snapshots st = [] \<and> store_total_size_kb st = 1"
  by (simp add: Let_def set_snapshot_limits_def enforce_evict settled_def new_store_def save_snapshot_def
        no_room_def add_snapshot_def estimate_json_size_kb_def over_budget_def evict_def
        get_snapshot_def kv_del_def)

end
