(* ===== verification/Policy.thy ===== *)
theory Policy
  imports Tool_Result
begin

text \<open>
  Execution policies: common/policy (the three approval modes, ApprovalHandler, layer profiles,
  dangerous patterns, backend policies, the mode switch) and the path and shell guards of
  agenticdsl/policy/path_policy.h.  The canonical form of a path (std::filesystem, None when it
  throws) and regular expression search are parameters \<open>canon\<close> and \<open>rx\<close>; an approval callback is a
  function, None for an empty std::function.
\<close>

section \<open>Tool metadata and call contexts\<close>

datatype tool_category = ReadOnly | WriteFile | Execute | Network | StateModify

datatype layer_profile = Workflow | Thinking | Cognitive

datatype validation_mode = Strict | Warn | Ignore

record approval_policy =
  requires_approval_in_plan :: bool
  requires_approval_in_agent :: bool
  requires_approval_in_yolo :: bool
  force_approval_always :: bool

definition default_approval_policy :: approval_policy where
  "default_approval_policy = \<lparr> requires_approval_in_plan = True, requires_approval_in_agent = True,
     requires_approval_in_yolo = False, force_approval_always = False \<rparr>"

record tool_metadata =
  md_name :: string
  md_description :: string
  md_domain :: string
  md_category :: tool_category
  md_min_layer :: layer_profile
  md_approval :: approval_policy
  md_allowed_layers :: "layer_profile list"
  md_cost_estimate :: "64 word"
  md_timeout_ms :: int
  md_input_schema :: "json option"
  md_output_schema :: "json option"
  md_validation_mode :: validation_mode

record tool_call_context =
  cx_session_id :: string
  cx_caller_layer :: string
  cx_target_path :: string
  cx_is_in_fleet_mode :: bool
  cx_call_count :: nat
  cx_trace_id :: string

record tool_preview =
  pv_command_line :: string
  pv_diff_text :: string
  pv_affected_paths :: "string list"
  pv_estimated_sec :: int
  pv_risk_summary :: string
  pv_metadata_json :: string

record approval_request =
  rq_tool_name :: string
  rq_meta :: tool_metadata
  rq_ctx :: tool_call_context
  rq_preview :: tool_preview
  rq_request_id :: string
  rq_created_at :: int

type_synonym approval_callback = "approval_request \<Rightarrow> int \<Rightarrow> bool"

definition char_lower :: "char \<Rightarrow> char" where
  "char_lower c = (let n = (of_char c :: nat) in if 65 \<le> n \<and> n \<le> 90 then char_of (n + 32) else c)"

definition str_lower :: "string \<Rightarrow> string" where
  "str_lower s = map char_lower s"

section \<open>The three modes\<close>

datatype policy_mode = Plan | Agent | Yolo

definition forced :: "tool_metadata \<Rightarrow> bool" where
  "forced m = force_approval_always (md_approval m)"

definition plan_requires_approval :: "tool_metadata \<Rightarrow> tool_call_context \<Rightarrow> bool" where
  "plan_requires_approval m c = (forced m \<or> md_category m \<noteq> ReadOnly)"

definition plan_should_execute :: "tool_metadata \<Rightarrow> tool_call_context \<Rightarrow> bool" where
  "plan_should_execute m c = False"

definition plan_can_skip :: "tool_metadata \<Rightarrow> tool_call_context \<Rightarrow> bool" where
  "plan_can_skip m c = False"

definition mk_request ::
  "tool_metadata \<Rightarrow> tool_call_context \<Rightarrow> tool_preview \<Rightarrow> string \<Rightarrow> int \<Rightarrow> approval_request" where
  "mk_request m c p rid now = \<lparr> rq_tool_name = md_name m, rq_meta = m, rq_ctx = c, rq_preview = p,
     rq_request_id = rid, rq_created_at = now \<rparr>"

definition plan_request_approval :: "int \<Rightarrow> tool_metadata \<Rightarrow> tool_call_context \<Rightarrow> tool_preview \<Rightarrow>
    approval_callback option \<Rightarrow> bool" where
  "plan_request_approval now m c p cb = (case cb of
       None \<Rightarrow> False
     | Some f \<Rightarrow> f (mk_request m c p (''plan-'' @ nat_str (cx_call_count c)) now) 300000)"

definition agent_requires_approval :: "tool_metadata \<Rightarrow> tool_call_context \<Rightarrow> bool" where
  "agent_requires_approval m c = (forced m \<or> requires_approval_in_agent (md_approval m))"

definition agent_should_execute :: "tool_metadata \<Rightarrow> tool_call_context \<Rightarrow> bool" where
  "agent_should_execute m c = True"

definition agent_can_skip :: "tool_metadata \<Rightarrow> tool_call_context \<Rightarrow> bool" where
  "agent_can_skip m c = (md_category m = ReadOnly \<and> \<not> forced m)"

definition agent_request_approval :: "int \<Rightarrow> tool_metadata \<Rightarrow> tool_call_context \<Rightarrow> tool_preview \<Rightarrow>
    approval_callback option \<Rightarrow> bool" where
  "agent_request_approval now m c p cb =
     (if \<not> agent_requires_approval m c then True
      else case cb of None \<Rightarrow> False
        | Some f \<Rightarrow> f (mk_request m c p (''agent-'' @ nat_str (cx_call_count c)) now) 300000)"

definition yolo_requires_approval :: "tool_metadata \<Rightarrow> tool_call_context \<Rightarrow> bool" where
  "yolo_requires_approval m c = forced m"

definition yolo_should_execute :: "tool_metadata \<Rightarrow> tool_call_context \<Rightarrow> bool" where
  "yolo_should_execute m c = True"

definition yolo_can_skip :: "tool_metadata \<Rightarrow> tool_call_context \<Rightarrow> bool" where
  "yolo_can_skip m c = (\<not> forced m)"

definition yolo_request_approval :: "int \<Rightarrow> tool_metadata \<Rightarrow> tool_call_context \<Rightarrow> tool_preview \<Rightarrow>
    approval_callback option \<Rightarrow> bool" where
  "yolo_request_approval now m c p cb =
     (if \<not> yolo_requires_approval m c then True
      else case cb of None \<Rightarrow> False
        | Some f \<Rightarrow> f (mk_request m c p (''yolo-'' @ nat_str (cx_call_count c)) now) 300000)"

text \<open>The virtual interface of a policy object, and the factory.\<close>

record exec_policy =
  requires_approval :: "tool_metadata \<Rightarrow> tool_call_context \<Rightarrow> bool"
  should_execute :: "tool_metadata \<Rightarrow> tool_call_context \<Rightarrow> bool"
  can_skip :: "tool_metadata \<Rightarrow> tool_call_context \<Rightarrow> bool"
  request_approval :: "int \<Rightarrow> tool_metadata \<Rightarrow> tool_call_context \<Rightarrow> tool_preview \<Rightarrow>
    approval_callback option \<Rightarrow> bool"

primrec policy_create :: "policy_mode \<Rightarrow> exec_policy" where
  "policy_create Plan = \<lparr> requires_approval = plan_requires_approval,
     should_execute = plan_should_execute, can_skip = plan_can_skip,
     request_approval = plan_request_approval \<rparr>"
| "policy_create Agent = \<lparr> requires_approval = agent_requires_approval,
     should_execute = agent_should_execute, can_skip = agent_can_skip,
     request_approval = agent_request_approval \<rparr>"
| "policy_create Yolo = \<lparr> requires_approval = yolo_requires_approval,
     should_execute = yolo_should_execute, can_skip = yolo_can_skip,
     request_approval = yolo_request_approval \<rparr>"

section \<open>The approval handler\<close>

text \<open>\<open>fresh_id\<close> is the generated id used when the context names no session.\<close>

definition approval_request_id :: "string \<Rightarrow> tool_call_context \<Rightarrow> string" where
  "approval_request_id fresh_id c =
     (if cx_session_id c = [] then fresh_id
      else cx_session_id c @ ''-'' @ nat_str (cx_call_count c))"

definition process_request :: "exec_policy option \<Rightarrow> approval_callback option \<Rightarrow> int \<Rightarrow> int \<Rightarrow> string \<Rightarrow>
    tool_metadata \<Rightarrow> tool_call_context \<Rightarrow> tool_preview \<Rightarrow> bool" where
  "process_request policy callback timeout now fresh_id m c p = (case policy of
       None \<Rightarrow> False
     | Some pol \<Rightarrow>
         if \<not> should_execute pol m c then False
         else if can_skip pol m c then True
         else if \<not> requires_approval pol m c then True
         else (case callback of
             None \<Rightarrow> False
           | Some f \<Rightarrow> f (mk_request m c p (approval_request_id fresh_id c) now) timeout))"

text \<open>The event bus callback publishes the request and answers at once.\<close>

definition approval_event_text :: "approval_request \<Rightarrow> int \<Rightarrow> string" where
  "approval_event_text req timeout = ''request_id='' @ rq_request_id req @ '', tool='' @ rq_tool_name req @
     '', command='' @ pv_command_line (rq_preview req) @ '', risk='' @ pv_risk_summary (rq_preview req) @
     '', timeout_ms='' @ int_str timeout"

definition event_bus_callback ::
  "bool \<Rightarrow> approval_request \<Rightarrow> int \<Rightarrow> bool \<times> (string \<times> string) list" where
  "event_bus_callback has_bus req timeout =
     (if \<not> has_bus then (False, [])
      else (True, [(''policy.approval.requested'', approval_event_text req timeout)]))"

definition tui_answer :: "string option \<Rightarrow> bool" where
  "tui_answer line = (case line of None \<Rightarrow> False | Some l \<Rightarrow> l = ''y'' \<or> l = ''Y'' \<or> l = ''yes'')"

definition requires_yolo_confirmation :: "string \<Rightarrow> string \<Rightarrow> bool" where
  "requires_yolo_confirmation from_mode to_mode \<longleftrightarrow> from_mode = ''yolo'' \<or> to_mode = ''yolo''"

definition read_user_input :: "string option \<Rightarrow> bool" where
  "read_user_input line = (case line of None \<Rightarrow> False
     | Some l \<Rightarrow> l = ''y'' \<or> l = ''Y'' \<or> l = ''yes'' \<or> l = ''YES'')"

definition confirm_yolo_switch :: "string \<Rightarrow> bool option \<Rightarrow> string option \<Rightarrow> bool" where
  "confirm_yolo_switch from_mode input line =
     (if \<not> requires_yolo_confirmation from_mode ''yolo'' then True
      else case input of Some answer \<Rightarrow> answer | None \<Rightarrow> read_user_input line)"

section \<open>Layers\<close>

definition iequals :: "string \<Rightarrow> string \<Rightarrow> bool" where
  "iequals a b = (length a = length b \<and> list_all (\<lambda>(x, y). char_lower x = char_lower y) (zip a b))"

definition parse_layer :: "string \<Rightarrow> layer_profile res" where
  "parse_layer s =
     (if iequals s ''workflow'' then Inr Workflow
      else if iequals s ''thinking'' then Inr Thinking
      else if iequals s ''cognitive'' then Inr Cognitive
      else Inl (Invalid_argument (''Unknown caller_layer: '' @ [CHR 0x27] @ s @ [CHR 0x27] @
                                  '' (expected: workflow/thinking/cognitive)'')))"

primrec check_layer_permission :: "layer_profile \<Rightarrow> tool_category \<Rightarrow> bool" where
  "check_layer_permission Workflow cat = True"
| "check_layer_permission Thinking cat = (cat = ReadOnly)"
| "check_layer_permission Cognitive cat = False"

primrec layer_to_string :: "layer_profile \<Rightarrow> string" where
  "layer_to_string Workflow = ''workflow''"
| "layer_to_string Thinking = ''thinking''"
| "layer_to_string Cognitive = ''cognitive''"

primrec category_to_string :: "tool_category \<Rightarrow> string" where
  "category_to_string ReadOnly = ''ReadOnly''"
| "category_to_string WriteFile = ''WriteFile''"
| "category_to_string Execute = ''Execute''"
| "category_to_string Network = ''Network''"
| "category_to_string StateModify = ''StateModify''"

primrec category_number :: "tool_category \<Rightarrow> nat" where
  "category_number ReadOnly = 0"
| "category_number WriteFile = 1"
| "category_number Execute = 2"
| "category_number Network = 3"
| "category_number StateModify = 4"

primrec registration_allows :: "layer_profile \<Rightarrow> tool_category \<Rightarrow> bool" where
  "registration_allows Cognitive cat = (cat = ReadOnly)"
| "registration_allows Thinking cat = (cat = ReadOnly \<or> cat = WriteFile)"
| "registration_allows Workflow cat = True"

definition check_registration_permission :: "tool_metadata \<Rightarrow> unit res" where
  "check_registration_permission m =
     (case find (\<lambda>l. \<not> registration_allows l (md_category m)) (md_allowed_layers m) of
        None \<Rightarrow> Inr ()
      | Some l \<Rightarrow> Inl (Invalid_argument (''ToolMetadata registration: layer '' @ layer_to_string l @
          '' does not permit category '' @ nat_str (category_number (md_category m)) @
          '' for tool '' @ [CHR 0x27] @ md_name m @ [CHR 0x27])))"

section \<open>Paths and commands\<close>

record path_policy =
  allowed_prefixes :: "string list"
  denied_patterns :: "string list"

definition default_path_policy :: path_policy where
  "default_path_policy = \<lparr> allowed_prefixes = [''/tmp/hydraforge'', ''./workspace''],
     denied_patterns = [''/etc/passwd'', ''/'' @ [CHR 0x5C] @ ''.ssh/'', ''/proc/'',
       ''/'' @ [CHR 0x5C] @ ''.aws/'', ''/'' @ [CHR 0x5C] @ ''.config/'',
       ''C:'' @ [CHR 0x5C, CHR 0x5C] @ ''Windows''] \<rparr>"

record check_result =
  cr_allowed :: bool
  cr_reason :: string
  cr_matched_denied :: "string option"

text \<open>The index of the first pattern that occurs in the canonical path.\<close>

fun first_denied :: "(string \<Rightarrow> string \<Rightarrow> bool) \<Rightarrow> string \<Rightarrow> nat \<Rightarrow> string list \<Rightarrow> nat option" where
  "first_denied rx canonical i [] = None"
| "first_denied rx canonical i (p # ps) =
     (if rx canonical p then Some i else first_denied rx canonical (Suc i) ps)"

definition prefix_allows :: "(string \<Rightarrow> string option) \<Rightarrow> string \<Rightarrow> string \<Rightarrow> bool" where
  "prefix_allows canon canonical p =
     (case canon p of None \<Rightarrow> False | Some cp \<Rightarrow> starts_with cp canonical)"

definition path_check :: "(string \<Rightarrow> string option) \<Rightarrow> (string \<Rightarrow> string \<Rightarrow> bool) \<Rightarrow> path_policy \<Rightarrow>
    string \<Rightarrow> check_result" where
  "path_check canon rx pol path = (case canon path of
       None \<Rightarrow> \<lparr> cr_allowed = False, cr_reason = ''invalid_path'', cr_matched_denied = None \<rparr>
     | Some canonical \<Rightarrow> (case first_denied rx canonical 0 (denied_patterns pol) of
           Some i \<Rightarrow> \<lparr> cr_allowed = False, cr_reason = ''path_matches_denied_pattern'',
                       cr_matched_denied = Some (''denied_pattern_index='' @ nat_str i) \<rparr>
         | None \<Rightarrow>
             if \<not> (allowed_prefixes pol = [] \<or> list_ex (prefix_allows canon canonical) (allowed_prefixes pol))
             then \<lparr> cr_allowed = False, cr_reason = ''path_not_in_allowed_prefix'', cr_matched_denied = None \<rparr>
             else \<lparr> cr_allowed = True, cr_reason = ''allowed'', cr_matched_denied = None \<rparr>))"

definition shell_patterns :: "string list" where
  "shell_patterns = [''rm -rf'', ''rm -r /'', ''dd if='', ''mkfs'', ''| bash'', ''; bash'', ''&& bash'',
     ''> /dev/'', ''curl | sh'', ''wget | sh'', ''| sh'', ''chmod 777'', ''chown root'']"

definition shell_is_dangerous :: "string \<Rightarrow> bool" where
  "shell_is_dangerous command = list_ex (\<lambda>p. contains_sub p (str_lower command)) shell_patterns"

definition suggest_safe_alternative :: "string \<Rightarrow> string option" where
  "suggest_safe_alternative command =
     (if contains_sub ''rm -rf'' command then Some ''rm -i (interactive mode)''
      else if contains_sub ''| bash'' command \<or> contains_sub ''; bash'' command
      then Some ''use a dedicated tool instead of piping to bash''
      else None)"

definition owasp_patterns :: "string list" where
  "owasp_patterns = [''rm -rf'', ''mkfs'', '':(){ :|:& };:'', ''dd if=/dev/zero'', ''>/dev/sd'']"

definition contains_dangerous :: "string \<Rightarrow> bool" where
  "contains_dangerous cmd =
     list_ex (\<lambda>p. contains_sub (str_lower p) (str_lower cmd)) owasp_patterns"

definition first_dangerous_match :: "string \<Rightarrow> string" where
  "first_dangerous_match cmd =
     (case find (\<lambda>p. contains_sub (str_lower p) (str_lower cmd)) owasp_patterns of
        Some p \<Rightarrow> p | None \<Rightarrow> [])"

section \<open>Backend policies\<close>

record backend_policy =
  bp_requires_approval :: bool
  bp_allowed_env_vars :: "string list"
  bp_allowed_paths :: "string list"
  bp_allow_network :: bool
  bp_max_memory_mb :: nat
  bp_max_cpu_cores :: nat
  bp_image_allowlist :: "string list"

record backend_config =
  local_policy :: backend_policy
  docker_ephemeral_policy :: backend_policy
  docker_prod_policy :: backend_policy
  overrides :: "(string \<times> backend_policy) list"

text \<open>\<open>home\<close> is the value of the HOME environment variable.\<close>

definition backend_defaults :: "string option \<Rightarrow> backend_config" where
  "backend_defaults home = \<lparr>
     local_policy = \<lparr> bp_requires_approval = True,
       bp_allowed_env_vars = [''PATH'', ''HOME'', ''USER'', ''LANG''],
       bp_allowed_paths = ''/tmp'' # (case home of Some h \<Rightarrow> [h] | None \<Rightarrow> []),
       bp_allow_network = False, bp_max_memory_mb = 1024, bp_max_cpu_cores = 1,
       bp_image_allowlist = [] \<rparr>,
     docker_ephemeral_policy = \<lparr> bp_requires_approval = False, bp_allowed_env_vars = [''*''],
       bp_allowed_paths = [''*''], bp_allow_network = True, bp_max_memory_mb = 512,
       bp_max_cpu_cores = 2, bp_image_allowlist = [] \<rparr>,
     docker_prod_policy = \<lparr> bp_requires_approval = True, bp_allowed_env_vars = [],
       bp_allowed_paths = [], bp_allow_network = False, bp_max_memory_mb = 1024,
       bp_max_cpu_cores = 2, bp_image_allowlist = [] \<rparr>,
     overrides = [] \<rparr>"

definition override_default_policy :: "string \<Rightarrow> backend_policy \<Rightarrow> backend_config \<Rightarrow> backend_config" where
  "override_default_policy spec p cfg = cfg \<lparr> overrides := kv_ins spec p (overrides cfg) \<rparr>"

definition find_backend_policy :: "string \<Rightarrow> backend_config \<Rightarrow> backend_policy option" where
  "find_backend_policy spec cfg = (case map_of (overrides cfg) spec of
       Some p \<Rightarrow> Some p
     | None \<Rightarrow>
         if spec = ''local'' then Some (local_policy cfg)
         else if spec = ''docker:prod'' then Some (docker_prod_policy cfg)
         else if starts_with ''docker:'' spec then Some (docker_ephemeral_policy cfg)
         else None)"

section \<open>The approval floor as a contract\<close>

text \<open>What every mode promises about a tool that forces approval: it requires approval, its approval
  cannot be skipped, and its own request passes only with a callback that answers yes.\<close>

locale approval_floor =
  fixes pol :: exec_policy
  assumes floor_requires: "forced m \<Longrightarrow> requires_approval pol m c"
    and floor_no_skip: "forced m \<Longrightarrow> \<not> can_skip pol m c"
    and floor_request: "forced m \<Longrightarrow> request_approval pol now m c p cb \<Longrightarrow>
      \<exists>f rid. cb = Some f \<and> f (mk_request m c p rid now) 300000"
begin

lemma process_forced:
  "forced m \<Longrightarrow> process_request (Some pol) cb timeout now rid m c p \<Longrightarrow>
   \<exists>f. cb = Some f \<and> f (mk_request m c p (approval_request_id rid c) now) timeout"
  using floor_requires floor_no_skip
  by (auto simp: process_request_def split: if_splits option.splits)

lemma process_forced_no_callback:
  "forced m \<Longrightarrow> \<not> process_request (Some pol) None timeout now rid m c p"
  using process_forced by blast

end

lemmas plan_defs = plan_requires_approval_def plan_should_execute_def plan_can_skip_def
  plan_request_approval_def
lemmas agent_defs = agent_requires_approval_def agent_should_execute_def agent_can_skip_def
  agent_request_approval_def
lemmas yolo_defs = yolo_requires_approval_def yolo_should_execute_def yolo_can_skip_def
  yolo_request_approval_def

interpretation plan_floor: approval_floor "policy_create Plan"
  by unfold_locales (auto simp: plan_defs split: option.splits)

interpretation agent_floor: approval_floor "policy_create Agent"
  by unfold_locales (auto simp: agent_defs split: option.splits)

interpretation yolo_floor: approval_floor "policy_create Yolo"
  by unfold_locales (auto simp: yolo_defs split: option.splits)

section \<open>Facts about layers, paths and commands\<close>

lemma iequals_lower: "iequals a b \<longleftrightarrow> str_lower a = str_lower b"
proof -
  have "length a = length b \<Longrightarrow> list_all (\<lambda>(x, y). char_lower x = char_lower y) (zip a b) \<longleftrightarrow>
    map char_lower a = map char_lower b"
    by (induction a b rule: list_induct2) auto
  then show ?thesis by (metis iequals_def str_lower_def map_eq_imp_length_eq)
qed

lemma char_lower_idem [simp]: "char_lower (char_lower c) = char_lower c"
proof -
  have "(of_char c :: nat) < 256" by (metis nat_of_char_less_256)
  then show ?thesis by (simp add: char_lower_def Let_def)
qed

lemma str_lower_idem [simp]: "str_lower (str_lower s) = str_lower s"
  by (simp add: str_lower_def)

lemma shell_dangerous_lower: "shell_is_dangerous (str_lower s) = shell_is_dangerous s"
  by (simp add: shell_is_dangerous_def)

lemma first_denied_None: "first_denied rx c i ps = None \<longleftrightarrow> (\<forall>p \<in> set ps. \<not> rx c p)"
  by (induction ps arbitrary: i) auto

section \<open>Properties\<close>

text \<open>C11. The safety floor: in every mode, a tool that forces approval gets through the approval handler
  only when there is a callback and that callback said yes to a request naming this very tool
  and context; with no callback it is always refused.\<close>

theorem forced_tool_needs_approval:
  assumes "forced m" "process_request (Some (policy_create mode)) cb timeout now rid m c p"
  shows "\<exists>f. cb = Some f \<and> f (mk_request m c p (approval_request_id rid c) now) timeout"
proof (cases mode)
  case Plan
  then show ?thesis using plan_floor.process_forced assms by blast
next
  case Agent
  then show ?thesis using agent_floor.process_forced assms by blast
next
  case Yolo
  then show ?thesis using yolo_floor.process_forced assms by blast
qed

definition sample_meta :: tool_metadata where
  "sample_meta = \<lparr> md_name = ''fs.delete'', md_description = [], md_domain = ''fs'',
     md_category = WriteFile, md_min_layer = Workflow,
     md_approval = default_approval_policy \<lparr> force_approval_always := True \<rparr>,
     md_allowed_layers = [], md_cost_estimate = 0, md_timeout_ms = 30000, md_input_schema = None,
     md_output_schema = None, md_validation_mode = Strict \<rparr>"

definition sample_ctx :: tool_call_context where
  "sample_ctx = \<lparr> cx_session_id = ''s'', cx_caller_layer = ''workflow'', cx_target_path = [],
     cx_is_in_fleet_mode = False, cx_call_count = 1, cx_trace_id = [] \<rparr>"

definition sample_preview :: tool_preview where
  "sample_preview = \<lparr> pv_command_line = [], pv_diff_text = [], pv_affected_paths = [],
     pv_estimated_sec = 0, pv_risk_summary = [], pv_metadata_json = [] \<rparr>"

lemma forced_tool_needs_approval_witness:
  "\<exists>f. Some (\<lambda>rq t. rq_tool_name rq = ''fs.delete'') = Some f \<and>
     f (mk_request sample_meta sample_ctx sample_preview (approval_request_id ''r'' sample_ctx) 0) (5::int)"
proof -
  have f: "forced sample_meta" by (simp add: forced_def sample_meta_def)
  have p: "process_request (Some (policy_create Yolo)) (Some (\<lambda>rq t. rq_tool_name rq = ''fs.delete''))
      5 0 ''r'' sample_meta sample_ctx sample_preview"
    by (simp add: process_request_def yolo_defs forced_def sample_meta_def mk_request_def)
  show ?thesis by (rule forced_tool_needs_approval[OF f p])
qed

text \<open>The complete decision table of the approval handler: Plan mode refuses every call without
  consulting the callback; Agent mode lets unforced read-only tools and tools that do not ask for
  approval through, Yolo mode every unforced tool, and both ask the callback for all others.\<close>

theorem approval_decision_table:
  "process_request (Some (policy_create mode)) cb timeout now rid m c p =
     (let ask = (case cb of None \<Rightarrow> False
                 | Some f \<Rightarrow> f (mk_request m c p (approval_request_id rid c) now) timeout)
      in case mode of
           Plan \<Rightarrow> False
         | Agent \<Rightarrow> (if forced m then ask
                     else if md_category m = ReadOnly then True
                     else if requires_approval_in_agent (md_approval m) then ask else True)
         | Yolo \<Rightarrow> (if forced m then ask else True))"
  by (cases mode) (auto simp: process_request_def plan_defs agent_defs yolo_defs Let_def split: option.splits)

text \<open>A path passes the guard exactly when it has a canonical form, no denied pattern occurs in that
  form, and either no prefix is configured or the canonical form of some configured prefix is a
  textual prefix of it.\<close>

theorem path_check_decision:
  "cr_allowed (path_check canon rx pol path) \<longleftrightarrow>
     (\<exists>cp. canon path = Some cp \<and> list_all (\<lambda>d. \<not> rx cp d) (denied_patterns pol) \<and>
        (allowed_prefixes pol = [] \<or>
         list_ex (\<lambda>a. \<exists>ca. canon a = Some ca \<and> starts_with ca cp) (allowed_prefixes pol)))"
proof (cases "canon path")
  case (Some cp)
  have d: "first_denied rx cp 0 (denied_patterns pol) = None \<longleftrightarrow>
      list_all (\<lambda>d. \<not> rx cp d) (denied_patterns pol)"
    by (simp add: first_denied_None list_all_iff)
  have a: "list_ex (prefix_allows canon cp) ps =
      list_ex (\<lambda>a. \<exists>ca. canon a = Some ca \<and> starts_with ca cp) ps" for ps
    by (induction ps) (auto simp: prefix_allows_def split: option.splits)
  show ?thesis using d a[of "allowed_prefixes pol"] Some
    by (auto simp: path_check_def split: option.splits)
qed (simp add: path_check_def)

text \<open>The prefix test is textual: a sibling directory whose name extends an allowed one passes.\<close>

lemma sibling_directory_allowed:
  "cr_allowed (path_check Some (\<lambda>_ _. False) default_path_policy ''/tmp/hydraforge-evil/x'')"
  by (simp add: path_check_decision default_path_policy_def starts_with_def)

text \<open>A caller layer parses exactly when its lower-case form is one of the three names, to the layer
  of that name; and the two matrices that cite the same source differ exactly at (Thinking,
  WriteFile) and (Cognitive, ReadOnly), which may be registered but never called.\<close>

theorem layers_parse_and_matrices:
  "(parse_layer s = Inr l \<longleftrightarrow> str_lower s = layer_to_string l) \<and>
   (registration_allows l cat = check_layer_permission l cat \<longleftrightarrow>
      \<not> (l = Thinking \<and> cat = WriteFile \<or> l = Cognitive \<and> cat = ReadOnly))"
proof -
  have w: "str_lower ''workflow'' = ''workflow''" "str_lower ''thinking'' = ''thinking''"
    "str_lower ''cognitive'' = ''cognitive''"
    by (simp_all add: str_lower_def char_lower_def)
  have "parse_layer s = Inr l \<longleftrightarrow> str_lower s = layer_to_string l"
    by (cases l) (auto simp: parse_layer_def iequals_lower w)
  moreover have "registration_allows l cat = check_layer_permission l cat \<longleftrightarrow>
      \<not> (l = Thinking \<and> cat = WriteFile \<or> l = Cognitive \<and> cat = ReadOnly)"
    by (cases l; cases cat) auto
  ultimately show ?thesis by blast
qed

text \<open>The event bus callback approves every request it publishes.\<close>

lemma event_bus_callback_approves: "fst (event_bus_callback True req timeout)"
  by (simp add: event_bus_callback_def)

end
