(* ===== verification/Tools.thy ===== *)
theory Tools
  imports Policy "HOL-Library.Product_Lexorder" "HOL-Library.Multiset"
begin

text \<open>
  The tool layer: common/tools/registry.cpp (ToolRegistry), tool_hook_registry.cpp
  (ToolHookRegistry), secure_tool_registry.cpp (the security decorator) and common/llm/llm_config.h.
  A tool is a function from its string arguments to JSON or an exception; a generator is an LLM
  backend.  Both come from outside, as values stored in the registry.  Argument maps and the
  registry's hash maps are key-sorted association lists; only list_tools shows their order.
\<close>

type_synonym tool_args = "(string \<times> string) list"

type_synonym tool_func = "tool_args \<Rightarrow> json res"

section \<open>LLM configuration\<close>

record llm_config =
  lc_provider :: string
  lc_api_url :: string
  lc_api_endpoint :: string
  lc_api_key :: string
  lc_api_key_env :: "string option"
  lc_api_key_file :: "string option"
  lc_model :: string
  lc_n_ctx :: int
  lc_max_tokens :: int
  lc_temperature :: "32 word"
  lc_top_p :: "32 word"
  lc_stop_tokens :: "string list"
  lc_n_threads :: int
  lc_min_p :: "32 word"
  lc_organization :: "string option"
  lc_timeout_seconds :: int
  lc_max_retries :: int

text \<open>The member initialisers; 0.7f, 0.95f and 0.05f by their bits.\<close>

definition default_llm_config :: llm_config where
  "default_llm_config = \<lparr> lc_provider = ''openai'', lc_api_url = ''https://api.openai.com/v1'',
     lc_api_endpoint = ''/v1/chat/completions'', lc_api_key = [], lc_api_key_env = None,
     lc_api_key_file = None, lc_model = ''gpt-4o-mini'', lc_n_ctx = 2048, lc_max_tokens = 2048,
     lc_temperature = 0x3f333333, lc_top_p = 0x3f733333, lc_stop_tokens = [], lc_n_threads = 4,
     lc_min_p = 0x3d4ccccd, lc_organization = None, lc_timeout_seconds = 60, lc_max_retries = 3 \<rparr>"

record llm_result =
  lr_success :: bool
  lr_text :: string
  lr_error :: string
  lr_tokens :: int

type_synonym llm_generator = "string \<Rightarrow> llm_config \<Rightarrow> llm_result res"

section \<open>ToolRegistry\<close>

record tool_registry =
  reg_tools :: "(string \<times> tool_func) list"
  reg_metadata :: "(string \<times> tool_metadata) list"
  reg_llm :: "(string \<times> (llm_generator \<times> llm_config)) list"

definition reg_has_tool :: "string \<Rightarrow> tool_registry \<Rightarrow> bool" where
  "reg_has_tool name r \<longleftrightarrow> map_of (reg_tools r) name \<noteq> None \<or> map_of (reg_llm r) name \<noteq> None"

definition reg_call_tool :: "string \<Rightarrow> tool_args \<Rightarrow> tool_registry \<Rightarrow> json" where
  "reg_call_tool name args r = (case map_of (reg_tools r) name of
       None \<Rightarrow> jobj [(''error'', JStr (''Tool not found: '' @ name))]
     | Some f \<Rightarrow> (case f args of
           Inr j \<Rightarrow> j
         | Inl e \<Rightarrow> jobj [(''error'', JStr (''Tool execution failed: '' @ what e))]))"

definition reg_list_tools :: "tool_registry \<Rightarrow> string list" where
  "reg_list_tools r = map fst (reg_tools r) @ map fst (reg_llm r)"

definition dangerous_category :: "tool_category \<Rightarrow> bool" where
  "dangerous_category c \<longleftrightarrow> c = Execute \<or> c = Network \<or> c = StateModify"

definition no_plan_or_agent :: "tool_metadata \<Rightarrow> bool" where
  "no_plan_or_agent m \<longleftrightarrow> \<not> requires_approval_in_plan (md_approval m) \<and>
     \<not> requires_approval_in_agent (md_approval m)"

definition register_tool_function ::
  "string \<Rightarrow> tool_metadata \<Rightarrow> tool_func \<Rightarrow> tool_registry \<Rightarrow> tool_registry res" where
  "register_tool_function name m f r =
     (if name = [] then Inl (Invalid_argument ''ToolRegistry: tool name must not be empty'')
      else if map_of (reg_tools r) name \<noteq> None
      then Inl (Invalid_argument (''ToolRegistry: tool '' @ [CHR 0x27] @ name @ [CHR 0x27] @
                                  '' already registered''))
      else if no_plan_or_agent m \<and> dangerous_category (md_category m)
      then Inl (Invalid_argument (''ToolRegistry: tool '' @ [CHR 0x27] @ name @ [CHR 0x27] @
                                  '' has dangerous category but no plan or agent approval''))
      else if md_allowed_layers m \<noteq> [] \<and> md_min_layer m \<notin> set (md_allowed_layers m)
      then Inl (Invalid_argument (''ToolRegistry: min_layer not in allowed_layers for '' @ [CHR 0x27] @
                                  name @ [CHR 0x27]))
      else Inr (r \<lparr> reg_tools := kv_ins name f (reg_tools r),
                   reg_metadata := kv_ins name m (reg_metadata r) \<rparr>))"

definition unregister_tool_function :: "string \<Rightarrow> tool_registry \<Rightarrow> tool_registry" where
  "unregister_tool_function name r = r \<lparr> reg_tools := kv_del name (reg_tools r),
     reg_metadata := kv_del name (reg_metadata r) \<rparr>"

definition register_llm_tool ::
  "string \<Rightarrow> llm_generator \<Rightarrow> llm_config \<Rightarrow> tool_registry \<Rightarrow> tool_registry" where
  "register_llm_tool name g params r = r \<lparr> reg_llm := kv_ins name (g, params) (reg_llm r) \<rparr>"

definition reg_is_llm_tool :: "string \<Rightarrow> tool_registry \<Rightarrow> bool" where
  "reg_is_llm_tool name r \<longleftrightarrow> map_of (reg_llm r) name \<noteq> None"

definition reg_get_llm_params :: "string \<Rightarrow> tool_registry \<Rightarrow> llm_config res" where
  "reg_get_llm_params name r = (case map_of (reg_llm r) name of
       None \<Rightarrow> Inl (Runtime_error (''Not an LLM tool: '' @ name))
     | Some (g, params) \<Rightarrow> Inr params)"

text \<open>Every field of the call's parameters that differs from the defaults, and its model when not
  empty, overrides the registered parameters.\<close>

definition merge_llm_params :: "llm_config \<Rightarrow> llm_config \<Rightarrow> llm_config" where
  "merge_llm_params registered params = (let d = default_llm_config; m = registered;
     m = (if lc_temperature params \<noteq> lc_temperature d then m \<lparr> lc_temperature := lc_temperature params \<rparr> else m);
     m = (if lc_max_tokens params \<noteq> lc_max_tokens d then m \<lparr> lc_max_tokens := lc_max_tokens params \<rparr> else m);
     m = (if lc_top_p params \<noteq> lc_top_p d then m \<lparr> lc_top_p := lc_top_p params \<rparr> else m);
     m = (if lc_n_ctx params \<noteq> lc_n_ctx d then m \<lparr> lc_n_ctx := lc_n_ctx params \<rparr> else m);
     m = (if lc_n_threads params \<noteq> lc_n_threads d then m \<lparr> lc_n_threads := lc_n_threads params \<rparr> else m);
     m = (if lc_model params \<noteq> [] then m \<lparr> lc_model := lc_model params \<rparr> else m)
   in m)"

text \<open>The result and, for the cost callback, the tokens and the model charged.\<close>

definition reg_call_llm_tool ::
  "string \<Rightarrow> string \<Rightarrow> llm_config \<Rightarrow> tool_registry \<Rightarrow> json \<times> (int \<times> string) option" where
  "reg_call_llm_tool name prompt params r = (case map_of (reg_llm r) name of
       None \<Rightarrow> (jobj [(''error'', JStr (''LLM tool not found: '' @ name))], None)
     | Some (g, registered) \<Rightarrow>
         (let merged = merge_llm_params registered params in
          case g prompt merged of
            Inl e \<Rightarrow> (jobj [(''error'', JStr (''LLM tool execution failed: '' @ what e))], None)
          | Inr res \<Rightarrow>
              if lr_success res
              then (jobj [(''success'', JBool True), (''text'', JStr (lr_text res)),
                          (''tokens_generated'', JInt (lr_tokens res))],
                    Some (lr_tokens res, lc_model merged))
              else (jobj [(''success'', JBool False), (''error'', JStr (lr_error res))], None)))"

text \<open>The default tools.  \<open>arith\<close> is the double arithmetic of calculate: it parses both operands
  (None when std::stod throws) and applies one of the four operators (None when unsupported).\<close>

record arith_ops =
  ar_stod :: "string \<Rightarrow> 64 word option"
  ar_is_zero :: "64 word \<Rightarrow> bool"
  ar_apply :: "string \<Rightarrow> 64 word \<Rightarrow> 64 word \<Rightarrow> 64 word"

definition tool_web_search :: tool_func where
  "tool_web_search args = Inr (jobj [(''results'', JStr (''[MOCK] Search results for: '' @
     (case map_of args ''query'' of Some q \<Rightarrow> q | None \<Rightarrow> ''default query'')))])"

definition tool_get_weather :: tool_func where
  "tool_get_weather args = Inr (jobj
     [(''location'', JStr (case map_of args ''location'' of Some l \<Rightarrow> l | None \<Rightarrow> ''unknown'')),
      (''condition'', JStr ''Sunny''), (''temperature_c'', JInt 22)])"

definition tool_calculate :: "arith_ops \<Rightarrow> tool_func" where
  "tool_calculate ar args =
     (case (map_of args ''a'', map_of args ''b'', map_of args ''op'') of
        (Some sa, Some sb, Some ope) \<Rightarrow>
          (case (ar_stod ar sa, ar_stod ar sb) of
             (Some a, Some b) \<Rightarrow>
               if ope = ''/'' \<and> ar_is_zero ar b then Inr (jobj [(''error'', JStr ''Division by zero'')])
               else if ope = ''+'' \<or> ope = ''-'' \<or> ope = ''*'' \<or> ope = ''/''
               then Inr (jobj [(''result'', JFloat (ar_apply ar ope a b))])
               else Inr (jobj [(''error'', JStr (''Unsupported operator: '' @ ope))])
           | _ \<Rightarrow> Inr (jobj [(''error'', JStr ''Invalid number format'')]))
      | _ \<Rightarrow> Inr (jobj [(''error'', JStr ''Missing arguments: a, b, op'')]))"

definition builtin_metadata :: "string \<Rightarrow> string \<Rightarrow> tool_metadata" where
  "builtin_metadata name description = \<lparr> md_name = name, md_description = description,
     md_domain = ''builtin'', md_category = ReadOnly, md_min_layer = Workflow,
     md_approval = \<lparr> requires_approval_in_plan = True, requires_approval_in_agent = True,
       requires_approval_in_yolo = False, force_approval_always = False \<rparr>,
     md_allowed_layers = [], md_cost_estimate = 0, md_timeout_ms = 30000, md_input_schema = None,
     md_output_schema = None, md_validation_mode = Strict \<rparr>"

definition empty_registry :: tool_registry where
  "empty_registry = \<lparr> reg_tools = [], reg_metadata = [], reg_llm = [] \<rparr>"

definition new_tool_registry :: "arith_ops \<Rightarrow> tool_registry res" where
  "new_tool_registry ar =
     ebind (register_tool_function ''web_search'' (builtin_metadata ''web_search'' ''Search the web'')
              tool_web_search empty_registry)
     (\<lambda>r. ebind (register_tool_function ''get_weather''
                   (builtin_metadata ''get_weather'' ''Get weather info'') tool_get_weather r)
     (\<lambda>r. register_tool_function ''calculate'' (builtin_metadata ''calculate'' ''Calculate expression'')
            (tool_calculate ar) r))"

section \<open>Tool hooks\<close>

datatype hook_error_policy = FailClosed | FailOpen

datatype hook_exception = Std_exception string | Other_exception

datatype pre_action = PreContinue | PreDeny | PreModifyArgs

record pre_hook_result =
  ph_action :: pre_action
  ph_modified_args :: tool_args
  ph_deny_reason :: string

record post_hook_result =
  po_modify_result :: bool
  po_modified_result :: tool_result

record 'h hook_entry =
  he_tool_glob :: string
  he_hook :: 'h
  he_priority :: int
  he_policy :: hook_error_policy
  he_seq :: nat

type_synonym pre_hook =
  "tool_metadata \<Rightarrow> tool_call_context \<Rightarrow> tool_args \<Rightarrow> hook_exception + pre_hook_result"

type_synonym post_hook =
  "tool_metadata \<Rightarrow> tool_call_context \<Rightarrow> tool_result \<Rightarrow> hook_exception + post_hook_result"

record tool_hooks =
  th_pre :: "pre_hook hook_entry list"
  th_post :: "post_hook hook_entry list"
  th_next_seq :: nat

definition new_tool_hooks :: tool_hooks where
  "new_tool_hooks = \<lparr> th_pre = [], th_post = [], th_next_seq = 0 \<rparr>"

text \<open>\<open>split\<close> drops empty parts.\<close>

fun split_acc :: "char \<Rightarrow> string \<Rightarrow> string \<Rightarrow> string list" where
  "split_acc d cur [] = (if cur = [] then [] else [cur])"
| "split_acc d cur (c # s) =
     (if c = d then (if cur = [] then split_acc d [] s else cur # split_acc d [] s)
      else split_acc d (cur @ [c]) s)"

definition split_parts :: "string \<Rightarrow> char \<Rightarrow> string list" where
  "split_parts s d = split_acc d [] s"

definition match_tool_glob :: "string \<Rightarrow> string \<Rightarrow> bool" where
  "match_tool_glob pattern name =
     (if pattern = ''*'' then True
      else let p = split_parts pattern CHR ''/''; n = split_parts name CHR ''/''
           in length p = length n \<and> list_all (\<lambda>(x, y). x = ''*'' \<or> x = y) (zip p n))"

definition register_pre_hook ::
  "string \<Rightarrow> pre_hook \<Rightarrow> int \<Rightarrow> hook_error_policy \<Rightarrow> tool_hooks \<Rightarrow> tool_hooks" where
  "register_pre_hook glob h pri pol t = t \<lparr> th_pre := th_pre t @ [\<lparr> he_tool_glob = glob, he_hook = h,
     he_priority = pri, he_policy = pol, he_seq = th_next_seq t \<rparr>], th_next_seq := th_next_seq t + 1 \<rparr>"

definition register_post_hook ::
  "string \<Rightarrow> post_hook \<Rightarrow> int \<Rightarrow> hook_error_policy \<Rightarrow> tool_hooks \<Rightarrow> tool_hooks" where
  "register_post_hook glob h pri pol t = t \<lparr> th_post := th_post t @ [\<lparr> he_tool_glob = glob, he_hook = h,
     he_priority = pri, he_policy = pol, he_seq = th_next_seq t \<rparr>], th_next_seq := th_next_seq t + 1 \<rparr>"

definition matched_hooks :: "string \<Rightarrow> 'h hook_entry list \<Rightarrow> 'h hook_entry list" where
  "matched_hooks name es =
     sort_key (\<lambda>e. (he_priority e, he_seq e)) (filter (\<lambda>e. match_tool_glob (he_tool_glob e) name) es)"

definition hook_tag :: "string \<Rightarrow> 'h hook_entry \<Rightarrow> string" where
  "hook_tag kind e = ''['' @ kind @ nat_str (he_seq e) @ '']''"

fun run_pre_hooks :: "tool_metadata \<Rightarrow> tool_call_context \<Rightarrow> pre_hook hook_entry list \<Rightarrow> tool_args \<Rightarrow>
    string list \<Rightarrow> pre_hook_result \<times> string list" where
  "run_pre_hooks m c [] args ws =
     (\<lparr> ph_action = PreContinue, ph_modified_args = args, ph_deny_reason = [] \<rparr>, ws)"
| "run_pre_hooks m c (e # es) args ws =
     (case he_hook e m c args of
        Inr r \<Rightarrow>
          if ph_action r = PreDeny
          then (r \<lparr> ph_deny_reason := hook_tag ''pre_hook_'' e @ '' '' @ ph_deny_reason r \<rparr>, ws)
          else run_pre_hooks m c es
                 (if ph_action r = PreModifyArgs then ph_modified_args r else args) ws
      | Inl (Std_exception msg) \<Rightarrow>
          if he_policy e = FailClosed
          then (\<lparr> ph_action = PreDeny, ph_modified_args = [],
                  ph_deny_reason = hook_tag ''pre_hook_'' e @ '' exception: '' @ msg \<rparr>, ws)
          else run_pre_hooks m c es args (ws @ [hook_tag ''pre_hook_'' e @ '' skipped: '' @ msg])
      | Inl Other_exception \<Rightarrow>
          if he_policy e = FailClosed
          then (\<lparr> ph_action = PreDeny, ph_modified_args = [],
                  ph_deny_reason = hook_tag ''pre_hook_'' e @ '' exception: unknown'' \<rparr>, ws)
          else run_pre_hooks m c es args
                 (ws @ [hook_tag ''pre_hook_'' e @ '' skipped: unknown exception'']))"

definition apply_pre_hooks :: "tool_hooks \<Rightarrow> tool_metadata \<Rightarrow> tool_call_context \<Rightarrow> tool_args \<Rightarrow>
    string list \<Rightarrow> pre_hook_result \<times> string list" where
  "apply_pre_hooks t m c args ws = run_pre_hooks m c (matched_hooks (md_name m) (th_pre t)) args ws"

fun run_post_hooks :: "tool_metadata \<Rightarrow> tool_call_context \<Rightarrow> post_hook hook_entry list \<Rightarrow> tool_result \<Rightarrow>
    string list \<Rightarrow> tool_result \<times> string list" where
  "run_post_hooks m c [] res ws = (res, ws)"
| "run_post_hooks m c (e # es) res ws =
     (case he_hook e m c res of
        Inr r \<Rightarrow> run_post_hooks m c es (if po_modify_result r then po_modified_result r else res) ws
      | Inl (Std_exception msg) \<Rightarrow>
          if he_policy e = FailClosed
          then (tr_error PermissionDenied (hook_tag ''post_hook_'' e @ '' exception: '' @ msg) jempty, ws)
          else run_post_hooks m c es res (ws @ [hook_tag ''post_hook_'' e @ '' skipped: '' @ msg])
      | Inl Other_exception \<Rightarrow>
          if he_policy e = FailClosed
          then (tr_error PermissionDenied (hook_tag ''post_hook_'' e @ '' exception: unknown'') jempty, ws)
          else run_post_hooks m c es res
                 (ws @ [hook_tag ''post_hook_'' e @ '' skipped: unknown exception'']))"

definition apply_post_hooks :: "tool_hooks \<Rightarrow> tool_metadata \<Rightarrow> tool_call_context \<Rightarrow> tool_result \<Rightarrow>
    string list \<Rightarrow> tool_result \<times> string list" where
  "apply_post_hooks t m c res ws = run_post_hooks m c (matched_hooks (md_name m) (th_post t)) res ws"

section \<open>SecureToolRegistry\<close>

datatype security_code = SE_PermissionDenied | SE_PathViolation | SE_DangerousCommand
  | SE_ToolNotRegistered | SE_Unknown

primrec security_code_number :: "security_code \<Rightarrow> int" where
  "security_code_number SE_PermissionDenied = 0"
| "security_code_number SE_PathViolation = 1"
| "security_code_number SE_DangerousCommand = 2"
| "security_code_number SE_ToolNotRegistered = 3"
| "security_code_number SE_Unknown = 4"

record security_error =
  se_code :: security_code
  se_message :: string
  se_tool_name :: string
  se_details :: string

text \<open>\<open>sr_base\<close> is None for a null registry pointer.\<close>

record secure_registry =
  sr_base :: "tool_registry option"
  sr_disabled :: "(string \<times> bool) list"
  sr_policies :: "(string \<times> path_policy) list"
  sr_default_policy :: path_policy

definition new_secure_registry :: "tool_registry option \<Rightarrow> secure_registry" where
  "new_secure_registry b = \<lparr> sr_base = b, sr_disabled = [], sr_policies = [],
     sr_default_policy = default_path_policy \<rparr>"

definition disable_tool :: "string \<Rightarrow> secure_registry \<Rightarrow> secure_registry" where
  "disable_tool name s = s \<lparr> sr_disabled := kv_ins name True (sr_disabled s) \<rparr>"

definition enable_tool :: "string \<Rightarrow> secure_registry \<Rightarrow> secure_registry" where
  "enable_tool name s = s \<lparr> sr_disabled := kv_del name (sr_disabled s) \<rparr>"

definition is_disabled :: "string \<Rightarrow> secure_registry \<Rightarrow> bool" where
  "is_disabled name s = (map_of (sr_disabled s) name = Some True)"

definition set_path_policy :: "string \<Rightarrow> path_policy \<Rightarrow> secure_registry \<Rightarrow> secure_registry" where
  "set_path_policy name p s = s \<lparr> sr_policies := kv_ins name p (sr_policies s) \<rparr>"

definition get_path_policy :: "string \<Rightarrow> secure_registry \<Rightarrow> path_policy" where
  "get_path_policy name s =
     (case map_of (sr_policies s) name of Some p \<Rightarrow> p | None \<Rightarrow> sr_default_policy s)"

definition set_default_path_policy :: "path_policy \<Rightarrow> secure_registry \<Rightarrow> secure_registry" where
  "set_default_path_policy p s = s \<lparr> sr_default_policy := p \<rparr>"

definition sec_has_tool :: "string \<Rightarrow> secure_registry \<Rightarrow> bool" where
  "sec_has_tool name s = (case sr_base s of None \<Rightarrow> False | Some r \<Rightarrow> reg_has_tool name r)"

definition quoted :: "string \<Rightarrow> string" where
  "quoted s = [CHR 0x27] @ s @ [CHR 0x27]"

text \<open>The two file system functions the guard uses.\<close>

record fs_ops =
  fs_canon :: "string \<Rightarrow> string option"
  fs_regex :: "string \<Rightarrow> string \<Rightarrow> bool"

definition check_security ::
  "fs_ops \<Rightarrow> string \<Rightarrow> tool_args \<Rightarrow> secure_registry \<Rightarrow> security_error option" where
  "check_security fs name args s =
     (if is_disabled name s
      then Some \<lparr> se_code = SE_PermissionDenied,
                  se_message = ''Tool '' @ quoted name @ '' is disabled by security policy'',
                  se_tool_name = name, se_details = ''disabled=true'' \<rparr>
      else if sr_base s = None
      then Some \<lparr> se_code = SE_ToolNotRegistered, se_message = ''Internal: registry_ref_ is null'',
                  se_tool_name = name, se_details = ''no_base_registry'' \<rparr>
      else if \<not> sec_has_tool name s
      then Some \<lparr> se_code = SE_ToolNotRegistered,
                  se_message = ''Tool '' @ quoted name @ '' is not registered'',
                  se_tool_name = name, se_details = ''not_in_registry'' \<rparr>
      else
        let path_error =
              (if starts_with ''fs.'' name
               then (case map_of args ''path'' of
                   None \<Rightarrow> None
                 | Some p \<Rightarrow>
                     (let r = path_check (fs_canon fs) (fs_regex fs) (get_path_policy name s) p in
                      if \<not> cr_allowed r
                      then Some \<lparr> se_code = SE_PathViolation,
                                  se_message = ''Path '' @ quoted p @ '' '' @ cr_reason r,
                                  se_tool_name = name,
                                  se_details = (case cr_matched_denied r of Some d \<Rightarrow> d
                                                | None \<Rightarrow> ''unknown'') \<rparr>
                      else None))
               else None)
        in case path_error of
             Some e \<Rightarrow> Some e
           | None \<Rightarrow>
               if name = ''shell.exec''
               then (case map_of args ''command'' of
                   None \<Rightarrow> None
                 | Some cmd \<Rightarrow>
                     if shell_is_dangerous cmd
                     then Some \<lparr> se_code = SE_DangerousCommand,
                                 se_message = ''Shell command contains dangerous pattern'',
                                 se_tool_name = name, se_details = cmd \<rparr>
                     else None)
               else None)"

text \<open>A secure call: the result, and the calls that reached the wrapped registry.\<close>

record secure_result =
  sec_allowed :: bool
  sec_payload :: json
  sec_error :: security_error

definition no_security_error :: security_error where
  "no_security_error = \<lparr> se_code = SE_Unknown, se_message = [], se_tool_name = [], se_details = [] \<rparr>"

definition denied_result :: "security_error \<Rightarrow> secure_result" where
  "denied_result e = \<lparr> sec_allowed = False, sec_payload = JNull, sec_error = e \<rparr>"

definition call_passthrough :: "string \<Rightarrow> tool_args \<Rightarrow> secure_registry \<Rightarrow>
    secure_result \<times> (string \<times> tool_args) list" where
  "call_passthrough name args s =
     (if is_disabled name s
      then (denied_result \<lparr> se_code = SE_PermissionDenied,
              se_message = ''Tool '' @ quoted name @ '' is disabled'', se_tool_name = name,
              se_details = ''disabled=true'' \<rparr>, [])
      else if \<not> sec_has_tool name s
      then (denied_result \<lparr> se_code = SE_ToolNotRegistered,
              se_message = ''Tool '' @ quoted name @ '' is not registered'', se_tool_name = name,
              se_details = ''not_in_registry'' \<rparr>, [])
      else (\<lparr> sec_allowed = True,
              sec_payload = (case sr_base s of Some r \<Rightarrow> reg_call_tool name args r | None \<Rightarrow> JNull),
              sec_error = no_security_error \<rparr>, [(name, args)]))"

definition call_direct :: "fs_ops \<Rightarrow> string \<Rightarrow> tool_args \<Rightarrow> secure_registry \<Rightarrow>
    secure_result \<times> (string \<times> tool_args) list" where
  "call_direct fs name args s = (case check_security fs name args s of
       Some e \<Rightarrow> (denied_result e, [])
     | None \<Rightarrow> call_passthrough name args s)"

definition sec_call_tool :: "fs_ops \<Rightarrow> string \<Rightarrow> tool_args \<Rightarrow> secure_registry \<Rightarrow>
    json \<times> (string \<times> tool_args) list" where
  "sec_call_tool fs name args s = (let (r, calls) = call_direct fs name args s in
     (if sec_allowed r then sec_payload r
      else jobj [(''success'', JBool False),
                 (''error_code'', JInt (security_code_number (se_code (sec_error r)))),
                 (''error_message'', JStr (se_message (sec_error r))),
                 (''tool_name'', JStr (se_tool_name (sec_error r))),
                 (''details'', JStr (se_details (sec_error r)))], calls))"

definition sec_list_tools :: "secure_registry \<Rightarrow> string list" where
  "sec_list_tools s = (case sr_base s of None \<Rightarrow> [] | Some r \<Rightarrow> reg_list_tools r)"

definition sec_register_tool_function ::
  "string \<Rightarrow> tool_metadata \<Rightarrow> tool_func \<Rightarrow> secure_registry \<Rightarrow> secure_registry res" where
  "sec_register_tool_function name m f s = (case sr_base s of
       None \<Rightarrow> Inr s
     | Some r \<Rightarrow> ebind (register_tool_function name m f r) (\<lambda>r'. Inr (s \<lparr> sr_base := Some r' \<rparr>)))"

definition sec_unregister_tool_function :: "string \<Rightarrow> secure_registry \<Rightarrow> secure_registry" where
  "sec_unregister_tool_function name s =
     (if is_disabled name s then s
      else s \<lparr> sr_base := map_option (unregister_tool_function name) (sr_base s) \<rparr>)"

definition sec_register_llm_tool ::
  "string \<Rightarrow> llm_generator \<Rightarrow> llm_config \<Rightarrow> secure_registry \<Rightarrow> secure_registry" where
  "sec_register_llm_tool name g params s =
     s \<lparr> sr_base := map_option (register_llm_tool name g params) (sr_base s) \<rparr>"

definition sec_is_llm_tool :: "string \<Rightarrow> secure_registry \<Rightarrow> bool" where
  "sec_is_llm_tool name s = (case sr_base s of None \<Rightarrow> False | Some r \<Rightarrow> reg_is_llm_tool name r)"

definition sec_get_llm_params :: "string \<Rightarrow> secure_registry \<Rightarrow> llm_config res" where
  "sec_get_llm_params name s = (case sr_base s of
       None \<Rightarrow> Inr default_llm_config | Some r \<Rightarrow> reg_get_llm_params name r)"

definition sec_call_llm_tool ::
  "string \<Rightarrow> string \<Rightarrow> llm_config \<Rightarrow> secure_registry \<Rightarrow> json \<times> (int \<times> string) option" where
  "sec_call_llm_tool name prompt params s = (case sr_base s of
       Some r \<Rightarrow> reg_call_llm_tool name prompt params r
     | None \<Rightarrow> (jobj [(''error'', JStr ''registry_ref_ is null'')], None))"

section \<open>The registry interface as a contract\<close>

text \<open>What IToolRegistry promises its clients about function tools: a name is registered at most once,
  registration makes it and nothing else available, and unregistering removes it (where the
  implementation lets it: \<open>removable\<close>).  \<open>fn\<close> is the registered function, \<open>ok\<close> the registries in which
  the implementation has a backing store.\<close>

locale tool_registry_api =
  fixes ok :: "'r \<Rightarrow> bool"
    and fn :: "string \<Rightarrow> 'r \<Rightarrow> tool_func option"
    and register :: "string \<Rightarrow> tool_metadata \<Rightarrow> tool_func \<Rightarrow> 'r \<Rightarrow> 'r res"
    and unregister :: "string \<Rightarrow> 'r \<Rightarrow> 'r"
    and removable :: "string \<Rightarrow> 'r \<Rightarrow> bool"
  assumes register_fn: "ok r \<Longrightarrow> register n m f r = Inr r' \<Longrightarrow>
      fn k r' = (if k = n then Some f else fn k r)"
    and register_ok: "ok r \<Longrightarrow> register n m f r = Inr r' \<Longrightarrow> ok r'"
    and register_once: "ok r \<Longrightarrow> fn n r \<noteq> None \<Longrightarrow> \<exists>e. register n m f r = Inl e"
    and unregister_fn: "removable n r \<Longrightarrow> fn k (unregister n r) = (if k = n then None else fn k r)"
    and unregister_kept: "\<not> removable n r \<Longrightarrow> unregister n r = r"
    and unregister_ok: "ok r \<Longrightarrow> ok (unregister n r)"
    and register_removable: "register n m f r = Inr r' \<Longrightarrow> removable k r' = removable k r"
begin

lemma register_keeps: "ok r \<Longrightarrow> register n m f r = Inr r' \<Longrightarrow> fn k r = Some g \<Longrightarrow> fn k r' = Some g"
  using register_fn[of r n m f r' k] register_once[of r n m f] by (cases "k = n") auto

lemma register_unregister:
  "ok r \<Longrightarrow> removable n r \<Longrightarrow> register n m f r = Inr r' \<Longrightarrow> fn k (unregister n r') = fn k r"
proof -
  assume o: "ok r" and rm: "removable n r" and rg: "register n m f r = Inr r'"
  have "fn n r = None" using register_once[OF o, of n m f] rg by force
  then show ?thesis using unregister_fn[of n r' k] register_fn[OF o rg, of k] register_removable[OF rg] rm
    by simp
qed

lemma re_register: "removable n r \<Longrightarrow> fn n (unregister n r) = None"
  by (simp add: unregister_fn)

end

lemma register_tool_function_Inr:
  "register_tool_function n m f r = Inr r' \<Longrightarrow>
   map_of (reg_tools r) n = None \<and> \<not> (no_plan_or_agent m \<and> dangerous_category (md_category m)) \<and>
   r' = r \<lparr> reg_tools := kv_ins n f (reg_tools r), reg_metadata := kv_ins n m (reg_metadata r) \<rparr>"
  by (auto simp: register_tool_function_def split: if_splits)

definition registry_fn :: "string \<Rightarrow> tool_registry \<Rightarrow> tool_func option" where
  "registry_fn n r = map_of (reg_tools r) n"

definition secure_fn :: "string \<Rightarrow> secure_registry \<Rightarrow> tool_func option" where
  "secure_fn n s = (case sr_base s of None \<Rightarrow> None | Some r \<Rightarrow> registry_fn n r)"

lemma register_once_base:
  "registry_fn n r \<noteq> None \<Longrightarrow> \<exists>e. register_tool_function n m f r = Inl e"
  by (auto simp: register_tool_function_def registry_fn_def)

lemma register_once_secure:
  "secure_fn n s \<noteq> None \<Longrightarrow> \<exists>e. sec_register_tool_function n m f s = Inl e"
  using register_once_base[of n _ m f]
  by (fastforce simp: sec_register_tool_function_def secure_fn_def split: option.splits)

interpretation base_api: tool_registry_api "\<lambda>r :: tool_registry. True" registry_fn
    register_tool_function unregister_tool_function "\<lambda>n (r :: tool_registry). True"
  by unfold_locales (auto dest!: register_tool_function_Inr
      simp: registry_fn_def unregister_tool_function_def register_once_base[unfolded registry_fn_def])

interpretation secure_api: tool_registry_api "\<lambda>s :: secure_registry. sr_base s \<noteq> None"
    secure_fn
    sec_register_tool_function sec_unregister_tool_function "\<lambda>n (s :: secure_registry). \<not> is_disabled n s"
proof unfold_locales
  fix s n m f
  assume "secure_fn n s \<noteq> None"
  then show "\<exists>e. sec_register_tool_function n m f s = Inl e" by (rule register_once_secure)
qed (auto simp: sec_register_tool_function_def sec_unregister_tool_function_def
      ebind_Inr_conv unregister_tool_function_def is_disabled_def secure_fn_def registry_fn_def
      dest!: register_tool_function_Inr split: option.splits)

section \<open>Facts about registries and hooks\<close>

datatype reg_op = Reg_register string tool_metadata tool_func | Reg_unregister string
  | Reg_llm string llm_generator llm_config

text \<open>A registration that throws leaves the registry as it was.\<close>

primrec reg_apply :: "reg_op \<Rightarrow> tool_registry \<Rightarrow> tool_registry" where
  "reg_apply (Reg_register n m f) r = (case register_tool_function n m f r of Inl _ \<Rightarrow> r | Inr r' \<Rightarrow> r')"
| "reg_apply (Reg_unregister n) r = unregister_tool_function n r"
| "reg_apply (Reg_llm n g c) r = register_llm_tool n g c r"

definition reg_inv :: "tool_registry \<Rightarrow> bool" where
  "reg_inv r \<longleftrightarrow> (\<forall>n. (map_of (reg_tools r) n = None) = (map_of (reg_metadata r) n = None)) \<and>
     (\<forall>n m. map_of (reg_metadata r) n = Some m \<longrightarrow>
        \<not> (no_plan_or_agent m \<and> dangerous_category (md_category m)))"

lemma reg_inv_apply: "reg_inv r \<Longrightarrow> reg_inv (reg_apply a r)"
proof (cases a)
  case (Reg_register n m f)
  assume inv: "reg_inv r"
  show ?thesis
  proof (cases "register_tool_function n m f r")
    case (Inr r')
    then show ?thesis using inv Reg_register register_tool_function_Inr[OF Inr]
      by (auto simp: reg_inv_def)
  qed (use inv Reg_register in simp)
qed (auto simp: reg_inv_def unregister_tool_function_def register_llm_tool_def)

text \<open>The arguments after all hooks have run, None when one of them vetoes.\<close>

definition hook_step :: "tool_metadata \<Rightarrow> tool_call_context \<Rightarrow> pre_hook hook_entry \<Rightarrow> tool_args \<Rightarrow>
    tool_args option" where
  "hook_step m c e args = (case he_hook e m c args of
       Inr r \<Rightarrow> if ph_action r = PreDeny then None
                else Some (if ph_action r = PreModifyArgs then ph_modified_args r else args)
     | Inl _ \<Rightarrow> if he_policy e = FailClosed then None else Some args)"

fun hooks_admit :: "tool_metadata \<Rightarrow> tool_call_context \<Rightarrow> pre_hook hook_entry list \<Rightarrow> tool_args \<Rightarrow>
    tool_args option" where
  "hooks_admit m c [] args = Some args"
| "hooks_admit m c (e # es) args =
     (case hook_step m c e args of None \<Rightarrow> None | Some a \<Rightarrow> hooks_admit m c es a)"

lemma run_pre_hooks_admit:
  "(hooks_admit m c es args = None \<longrightarrow> ph_action (fst (run_pre_hooks m c es args ws)) = PreDeny) \<and>
   (\<forall>a. hooks_admit m c es args = Some a \<longrightarrow>
      ph_action (fst (run_pre_hooks m c es args ws)) = PreContinue \<and>
      ph_modified_args (fst (run_pre_hooks m c es args ws)) = a)"
proof (induction es arbitrary: args ws)
  case (Cons e es)
  show ?case
  proof (cases "he_hook e m c args")
    case (Inl x)
    then show ?thesis using Cons.IH by (cases x) (simp_all add: hook_step_def)
  next
    case (Inr r)
    then show ?thesis using Cons.IH by (simp add: hook_step_def)
  qed
qed simp

lemma matched_hooks_perm:
  assumes "mset es = mset es'" "distinct (map he_seq es)"
  shows "matched_hooks name es = matched_hooks name es'"
proof -
  let ?f = "\<lambda>e. (he_priority e, he_seq e)" and ?P = "\<lambda>e. match_tool_glob (he_tool_glob e) name"
  have d: "inj_on ?f (set (filter ?P es))"
    using assms(2) by (auto simp: distinct_map inj_on_def)
  have m: "mset (filter ?P es) = mset (filter ?P es')" using arg_cong[OF assms(1), of "filter_mset ?P"] by simp
  have m': "mset (filter ?P es) = mset (sort_key ?f (filter ?P es'))" using m by simp
  show ?thesis unfolding matched_hooks_def
    by (rule sort_key_inj_key_eq[OF m' d]) simp
qed

section \<open>Properties\<close>

text \<open>C12. Nothing passes the security gate that should not: call_direct reaches the wrapped registry
  exactly when the tool is not disabled, is registered, its path argument (for a tool named fs.*
  that has one) passes the path policy in force for it, and its command argument (for shell.exec
  with one) has no dangerous pattern; it is then called once, with the given arguments, and its
  answer is the payload; otherwise nothing is called and the result is a refusal.\<close>

theorem call_direct_gate:
  "call_direct fs name args s =
     (if \<not> is_disabled name s \<and> sec_has_tool name s \<and>
         (\<forall>p. starts_with ''fs.'' name \<and> map_of args ''path'' = Some p \<longrightarrow>
            cr_allowed (path_check (fs_canon fs) (fs_regex fs) (get_path_policy name s) p)) \<and>
         (\<forall>c. name = ''shell.exec'' \<and> map_of args ''command'' = Some c \<longrightarrow> \<not> shell_is_dangerous c)
      then (\<lparr> sec_allowed = True, sec_payload = reg_call_tool name args (the (sr_base s)),
              sec_error = no_security_error \<rparr>, [(name, args)])
      else (denied_result (the (check_security fs name args s)), []))"
proof (cases "sr_base s")
  case None
  then show ?thesis by (simp add: call_direct_def check_security_def sec_has_tool_def)
next
  case (Some r)
  have f: "\<not> starts_with ''fs.'' ''shell.exec''" by (simp add: starts_with_def)
  show ?thesis using Some f
    by (auto simp: call_direct_def check_security_def call_passthrough_def Let_def split: option.splits)
qed

lemma call_direct_gate_witness:
  "call_direct \<lparr> fs_canon = Some, fs_regex = (\<lambda>_ _. False) \<rparr> ''shell.exec'' [(''command'', ''RM -RF /'')]
     (new_secure_registry (Some \<lparr> reg_tools = [(''shell.exec'', \<lambda>_. Inr JNull)], reg_metadata = [],
        reg_llm = [] \<rparr>)) =
   (denied_result (the (check_security \<lparr> fs_canon = Some, fs_regex = (\<lambda>_ _. False) \<rparr> ''shell.exec''
     [(''command'', ''RM -RF /'')] (new_secure_registry (Some \<lparr> reg_tools = [(''shell.exec'', \<lambda>_. Inr JNull)],
        reg_metadata = [], reg_llm = [] \<rparr>)))), [])"
proof -
  have d: "shell_is_dangerous ''RM -RF /''" by code_simp
  show ?thesis by (subst call_direct_gate) (simp add: d)
qed

text \<open>In every registry reached by registrations (refused ones included), unregistrations and LLM
  registrations, a tool has metadata exactly when it has a function, and no tool of a dangerous
  category (Execute, Network, StateModify) is exempt from approval in both Plan and Agent mode.\<close>

theorem registry_invariant:
  "let r = fold reg_apply ops empty_registry in
     (map_of (reg_tools r) n = None) = (map_of (reg_metadata r) n = None) \<and>
     (case map_of (reg_metadata r) n of
        None \<Rightarrow> True
      | Some m \<Rightarrow> \<not> (no_plan_or_agent m \<and> dangerous_category (md_category m)))"
proof -
  have "reg_inv (fold reg_apply ops r)" if "reg_inv r" for r
    using that by (induction ops arbitrary: r) (simp_all add: reg_inv_apply)
  moreover have "reg_inv empty_registry" by (simp add: reg_inv_def empty_registry_def)
  ultimately have "reg_inv (fold reg_apply ops empty_registry)" by blast
  then show ?thesis by (auto simp: reg_inv_def Let_def split: option.splits)
qed

text \<open>Through the security decorator, registering a tool and unregistering it again restores every
  function it served, and a registration never replaces a function already there; a tool that is
  disabled cannot be unregistered at all.\<close>

theorem secure_register_unregister:
  assumes "sr_base s \<noteq> None" "sec_register_tool_function n m f s = Inr s'"
  shows "secure_fn n s' = Some f \<and>
    (k \<noteq> n \<or> secure_fn k s = None) \<and>
    (if is_disabled n s then sec_unregister_tool_function n s' = s'
     else secure_fn k (sec_unregister_tool_function n s') = secure_fn k s)"
proof -
  have 1: "secure_fn n s' = Some f" using secure_api.register_fn[OF assms, of n] by simp
  have 2: "k \<noteq> n \<or> secure_fn k s = None" using secure_api.register_once[OF assms(1), of n m f] assms(2)
    by (metis Inl_Inr_False)
  have 3: "is_disabled n s' = is_disabled n s"
    using secure_api.register_removable[OF assms(2), of n] by simp
  have 4: "\<not> is_disabled n s \<Longrightarrow> secure_fn k (sec_unregister_tool_function n s') = secure_fn k s"
    by (rule secure_api.register_unregister[OF assms(1) _ assms(2)])
  have 5: "is_disabled n s \<Longrightarrow> sec_unregister_tool_function n s' = s'"
    using secure_api.unregister_kept[of n s'] 3 by simp
  show ?thesis using 1 2 4 5 by simp
qed

lemma secure_register_unregister_witness:
  "secure_fn ''t'' (sec_unregister_tool_function ''t'' (new_secure_registry (Some empty_registry)
      \<lparr> sr_base := Some (empty_registry \<lparr> reg_tools := [(''t'', \<lambda>_. Inr JNull)],
          reg_metadata := [(''t'', builtin_metadata ''t'' [])] \<rparr>) \<rparr>)) = None"
proof -
  let ?s = "new_secure_registry (Some empty_registry)"
  have r: "sec_register_tool_function ''t'' (builtin_metadata ''t'' []) (\<lambda>_. Inr JNull) ?s =
      Inr (?s \<lparr> sr_base := Some (empty_registry \<lparr> reg_tools := [(''t'', \<lambda>_. Inr JNull)],
          reg_metadata := [(''t'', builtin_metadata ''t'' [])] \<rparr>) \<rparr>)"
    by (simp add: sec_register_tool_function_def new_secure_registry_def register_tool_function_def
        empty_registry_def builtin_metadata_def no_plan_or_agent_def)
  have b: "sr_base ?s \<noteq> None" by (simp add: new_secure_registry_def)
  have d: "\<not> is_disabled ''t'' ?s" by (simp add: is_disabled_def new_secure_registry_def)
  have e: "secure_fn ''t'' ?s = None"
    by (simp add: secure_fn_def registry_fn_def new_secure_registry_def empty_registry_def)
  show ?thesis using secure_register_unregister[OF b r, of "''t''"] d e by simp
qed

text \<open>The pre-hook chain: whatever order the hooks are stored in, those matching the tool run by
  priority and then registration, each on the arguments its predecessors left; the call is denied
  exactly when one of them denies or throws while fail-closed, and otherwise the answer is Continue
  with the final arguments.  It is never ModifyArgs, whatever the hooks changed.\<close>

theorem pre_hooks_outcome:
  assumes "mset hs = mset (th_pre t)" "distinct (map he_seq hs)"
  shows "ph_action (fst (apply_pre_hooks t m c args ws)) =
      (if hooks_admit m c (matched_hooks (md_name m) hs) args = None then PreDeny else PreContinue) \<and>
    (case hooks_admit m c (matched_hooks (md_name m) hs) args of
       None \<Rightarrow> True
     | Some a \<Rightarrow> ph_modified_args (fst (apply_pre_hooks t m c args ws)) = a) \<and>
    ph_action (fst (apply_pre_hooks t m c args ws)) \<noteq> PreModifyArgs"
  using run_pre_hooks_admit[of m c "matched_hooks (md_name m) hs" args ws]
    matched_hooks_perm[OF assms, of "md_name m"]
  by (auto simp: apply_pre_hooks_def split: option.splits)

definition sample_hooks :: tool_hooks where
  "sample_hooks = register_pre_hook ''*''
     (\<lambda>m c a. Inr \<lparr> ph_action = PreModifyArgs, ph_modified_args = [(''x'', ''1'')], ph_deny_reason = [] \<rparr>)
     0 FailClosed new_tool_hooks"

lemma pre_hooks_outcome_witness:
  "ph_action (fst (apply_pre_hooks sample_hooks sample_meta sample_ctx [] [])) \<noteq> PreModifyArgs"
proof -
  have d: "distinct (map he_seq (th_pre sample_hooks))"
    by (simp add: sample_hooks_def register_pre_hook_def new_tool_hooks_def)
  show ?thesis using pre_hooks_outcome[OF refl d] by blast
qed

text \<open>A call that passes default parameters to an LLM tool overrides the model the tool was
  registered with by the default model name, while every other registered setting is kept: the
  generator runs with that model and the cost callback is charged for it.\<close>

theorem default_params_override_model:
  "merge_llm_params registered default_llm_config = registered \<lparr> lc_model := ''gpt-4o-mini'' \<rparr> \<and>
   snd (reg_call_llm_tool name prompt default_llm_config (register_llm_tool name g registered r)) =
     (case g prompt (registered \<lparr> lc_model := ''gpt-4o-mini'' \<rparr>) of
        Inl _ \<Rightarrow> None
      | Inr res \<Rightarrow> if lr_success res then Some (lr_tokens res, ''gpt-4o-mini'') else None)"
proof -
  have m: "merge_llm_params registered default_llm_config = registered \<lparr> lc_model := ''gpt-4o-mini'' \<rparr>"
    by (simp add: merge_llm_params_def default_llm_config_def Let_def)
  then show ?thesis
    by (simp add: reg_call_llm_tool_def register_llm_tool_def Let_def split: sum.splits)
qed

end
