(* ===== verification/Coordinator.thy ===== *)
theory Coordinator
  imports Tools Bus
begin

text \<open>
  The tool coordinator: common/tools/tool_coordinator.cpp (the nesting guard, the validation pipeline
  and execute) and tool_schema_validator.cpp.  What a call does outside is the list of its
  effects in order: events handed to the bus, and the call of the registry.  The registry it
  drives is a parameter \<open>call\<close> (any IToolRegistry), and so are the dump, parse and equality of
  JSON, the double parser, the hash of the audit fingerprint, clocks and generated ids (\<open>co_env\<close>;
  \<open>ce_id n\<close> is the n-th id generated during the call).
\<close>

section \<open>The schema validator\<close>

fun type_matches :: "string \<Rightarrow> json \<Rightarrow> bool" where
  "type_matches expected v =
     (if expected = ''object'' then is_obj v
      else if expected = ''array'' then is_arr v
      else if expected = ''string'' then is_str v
      else if expected = ''integer'' then (case v of JInt _ \<Rightarrow> True | _ \<Rightarrow> False)
      else if expected = ''number'' then is_num v
      else if expected = ''boolean'' then is_bool v
      else if expected = ''null'' then v = JNull
      else False)"

fun instance_type_name :: "json \<Rightarrow> string" where
  "instance_type_name (JObj _) = ''object''"
| "instance_type_name (JArr _) = ''array''"
| "instance_type_name (JStr _) = ''string''"
| "instance_type_name (JInt _) = ''integer''"
| "instance_type_name (JFloat _) = ''number''"
| "instance_type_name (JBool _) = ''boolean''"
| "instance_type_name JNull = ''null''"

text \<open>JSON pointers: a token is escaped when it is appended.\<close>

fun ptr_escape :: "string \<Rightarrow> string" where
  "ptr_escape [] = []"
| "ptr_escape (c # s) = (if c = CHR ''~'' then ''~0'' else if c = CHR ''/'' then ''~1'' else [c]) @ ptr_escape s"

definition ptr_append :: "string \<Rightarrow> string \<Rightarrow> string" where
  "ptr_append base tok = base @ ''/'' @ ptr_escape tok"

definition schema_error :: "string \<Rightarrow> string \<Rightarrow> json" where
  "schema_error ptr message = jobj [(''path'', JStr ptr), (''message'', JStr message)]"

definition type_ok :: "json \<Rightarrow> json \<Rightarrow> bool" where
  "type_ok t v = (case t of
       JStr s \<Rightarrow> type_matches s v
     | JArr ts \<Rightarrow> list_ex (\<lambda>x. case x of JStr s \<Rightarrow> type_matches s v | _ \<Rightarrow> False) ts
     | _ \<Rightarrow> False)"

definition enum_errors :: "(json \<Rightarrow> json \<Rightarrow> bool) \<Rightarrow> json option \<Rightarrow> json \<Rightarrow> string \<Rightarrow> json list" where
  "enum_errors jeq en v ptr = (case en of
       Some (JArr vs) \<Rightarrow> if list_ex (\<lambda>x. jeq x v) vs then [] else [schema_error ptr ''value not in enum'']
     | _ \<Rightarrow> [])"

definition required_errors :: "json option \<Rightarrow> json \<Rightarrow> string \<Rightarrow> json list" where
  "required_errors req v ptr = (case req of
       Some (JArr fs) \<Rightarrow> concat (map (\<lambda>f. case f of
           JStr s \<Rightarrow> if \<not> jcontains s v then [schema_error (ptr_append ptr s) ''required field missing''] else []
         | _ \<Rightarrow> []) fs)
     | _ \<Rightarrow> [])"

lemma size_map_of: "map_of kvs k = Some v \<Longrightarrow> size v < size (JObj kvs)"
proof (induction kvs)
  case (Cons p kvs)
  then show ?case by (cases p) (auto split: if_splits)
qed simp

lemma size_member: "(k, v) \<in> set kvs \<Longrightarrow> size v < size (JObj kvs)"
proof (induction kvs)
  case (Cons p kvs)
  then show ?case by (cases p) auto
qed simp

function validate_node ::
  "(json \<Rightarrow> json \<Rightarrow> bool) \<Rightarrow> (json \<Rightarrow> string) \<Rightarrow> json \<Rightarrow> json \<Rightarrow> string \<Rightarrow> json list" where
  "validate_node jeq dump schema v ptr = (case schema of
       JObj kvs \<Rightarrow>
         (case map_of kvs ''type'' of
            Some t \<Rightarrow> if type_ok t v then [] else
              [schema_error ptr (''type mismatch: expected '' @ dump t @ '', got '' @ instance_type_name v)]
          | None \<Rightarrow> []) @
         (if (case map_of kvs ''type'' of Some t \<Rightarrow> type_ok t v | None \<Rightarrow> True) then
            enum_errors jeq (map_of kvs ''enum'') v ptr @
            (if is_obj v then
               required_errors (map_of kvs ''required'') v ptr @
               (case map_of kvs ''properties'' of
                  Some (JObj props) \<Rightarrow> concat (map (\<lambda>(key, sub). case jlookup key v of
                      Some x \<Rightarrow> validate_node jeq dump sub x (ptr_append ptr key)
                    | None \<Rightarrow> []) props)
                | _ \<Rightarrow> [])
             else []) @
            (case (v, map_of kvs ''items'') of
               (JArr xs, Some it) \<Rightarrow> concat (map (\<lambda>(i, x).
                   validate_node jeq dump it x (ptr_append ptr (nat_str i))) (zip [0..<length xs] xs))
             | _ \<Rightarrow> [])
          else [])
     | _ \<Rightarrow> [])"
  by pat_completeness auto
termination
proof (relation "measure (\<lambda>(jeq, dump, schema, v, ptr). size schema)", goal_cases)
  case (2 jeq dump schema v ptr kvs j props p key sub x)
  then have "size j < size schema" using size_map_of[of kvs "''properties''" j] by simp
  moreover have "size sub < size j" using size_member[of key sub props] 2 by simp
  ultimately show ?case by simp
next
  case (3 jeq dump schema v ptr kvs a b xs it p i x)
  then show ?case using size_map_of[of kvs "''items''" it] by simp
qed simp

declare validate_node.simps [simp del]

section \<open>The nesting guard\<close>

text \<open>The thread-local state: depth and the stack of active calls, most recent last.\<close>

record nesting =
  ne_depth :: nat
  ne_stack :: "string list"

definition no_nesting :: nesting where
  "no_nesting = \<lparr> ne_depth = 0, ne_stack = [] \<rparr>"

fun format_call_stack :: "string list \<Rightarrow> string" where
  "format_call_stack [] = []"
| "format_call_stack [s] = s"
| "format_call_stack (s # t # ss) =
     s @ '' '' @ [CHR 0xE2, CHR 0x86, CHR 0x92] @ '' '' @ format_call_stack (t # ss)"

definition guard_enter :: "string \<Rightarrow> nesting \<Rightarrow> nesting res" where
  "guard_enter name n =
     (if name \<in> set (ne_stack n)
      then Inl (Runtime_error (''ToolCoordinator cycle detected: '' @ name @
             '' already in call_stack | stack: '' @ format_call_stack (ne_stack n)))
      else if 2 \<le> ne_depth n
      then Inl (Runtime_error (''ToolCoordinator nesting depth > 2 (depth='' @ nat_str (ne_depth n + 1) @
             ''): '' @ name @ '' | call_stack: '' @ format_call_stack (ne_stack n)))
      else Inr \<lparr> ne_depth = ne_depth n + 1, ne_stack = ne_stack n @ [name] \<rparr>)"

definition guard_exit :: "string \<Rightarrow> nesting \<Rightarrow> nesting" where
  "guard_exit name n = \<lparr> ne_depth = (if 0 < ne_depth n then ne_depth n - 1 else ne_depth n),
     ne_stack = (if ne_stack n \<noteq> [] \<and> last (ne_stack n) = name then butlast (ne_stack n)
                 else ne_stack n) \<rparr>"

section \<open>Environment and effects\<close>

record co_env =
  ce_bus :: bool
  ce_dump :: "json \<Rightarrow> string"
  ce_reparse :: "json \<Rightarrow> json res"
  ce_jeq :: "json \<Rightarrow> json \<Rightarrow> bool"
  ce_stod :: "string \<Rightarrow> (64 word \<times> nat) option"
  ce_hash :: "string \<Rightarrow> string"
  ce_fs :: fs_ops
  ce_iso :: string
  ce_now :: int
  ce_duration :: int
  ce_thread :: int
  ce_id :: "nat \<Rightarrow> string"
  ce_approval_id :: string

datatype co_effect = Emit bus_event | Call_tool string tool_args

definition emit_if :: "co_env \<Rightarrow> event_builder \<Rightarrow> co_effect list" where
  "emit_if env b = (if ce_bus env then [Emit (eb_build (ce_now env) b)] else [])"

definition audit_meta ::
  "co_env \<Rightarrow> string \<Rightarrow> string \<Rightarrow> string \<Rightarrow> string \<Rightarrow> string \<Rightarrow> string \<Rightarrow> json" where
  "audit_meta env event rid tool cat layer session = jobj [(''event'', JStr event),
     (''request_id'', JStr rid), (''tool_name'', JStr tool), (''category'', JStr cat),
     (''caller_layer'', JStr layer), (''session_id'', JStr session),
     (''timestamp_iso8601'', JStr (ce_iso env))]"

definition tool_execution_event :: "co_env \<Rightarrow> string \<Rightarrow> string \<Rightarrow> string \<Rightarrow> string \<Rightarrow> string \<Rightarrow>
    bool \<Rightarrow> int \<Rightarrow> string option \<Rightarrow> co_effect list" where
  "tool_execution_event env topic tool layer rid session ok duration ec = emit_if env
     (eb_meta (jobj [(''request_id'', JStr rid), (''session_id'', JStr session)])
       (eb_args (jset_opt ''error_code'' (map_option JStr ec)
          (jobj [(''tool'', JStr tool), (''layer'', JStr layer), (''ok'', JBool ok),
                 (''duration_ms'', JInt duration)]))
         (eb_new topic)))"

definition cycle_event :: "co_env \<Rightarrow> string \<Rightarrow> nesting \<Rightarrow> co_effect list" where
  "cycle_event env name n = emit_if env
     (eb_meta (jobj [(''call_stack'', JArr (map JStr (ne_stack n))), (''thread_id'', JInt (ce_thread env)),
                     (''timestamp'', JStr (ce_iso env))])
       (eb_args (jobj [(''caller'', JStr name), (''callee'', JStr name),
                       (''nesting_depth'', JInt (int (ne_depth n)))])
         (eb_new ''tool.coordinator.cycle_detected'')))"

datatype validation_stage = SchemaValidate | Coercion | RequiredField | BusinessRules

primrec stage_name :: "validation_stage \<Rightarrow> string" where
  "stage_name SchemaValidate = ''schema_validate''"
| "stage_name Coercion = ''coercion''"
| "stage_name RequiredField = ''required_field''"
| "stage_name BusinessRules = ''business_rules''"

definition map_stage_to_error :: "validation_stage \<Rightarrow> error_code" where
  "map_stage_to_error stage = InvalidParams"

definition map_to_jsonrpc :: "error_code \<Rightarrow> int" where
  "map_to_jsonrpc c = (case c of InvalidParams \<Rightarrow> -32602 | _ \<Rightarrow> -32603)"

definition emit_audit_denied :: "co_env \<Rightarrow> validation_stage \<Rightarrow> string \<Rightarrow> string \<Rightarrow> tool_call_context \<Rightarrow>
    co_effect list" where
  "emit_audit_denied env stage tool reason cx = (let
     m = audit_meta env ''tool.audit.denied'' (ce_id env 1) tool ''validation'' ''coordinator'' (cx_session_id cx);
     m = (if cx_trace_id cx \<noteq> [] then jset ''trace_id'' (JStr (cx_trace_id cx)) m else m)
   in emit_if env (eb_args (jobj [(''tool'', JStr tool), (''reason'', JStr reason),
                                  (''validation_stage'', JStr (stage_name stage))])
        (eb_from ''tool.audit.denied'' (tr_error (map_stage_to_error stage) reason m))))"

section \<open>The validation pipeline\<close>

text \<open>The coordinator's own type test: an unknown type name does not constrain.\<close>

definition json_type_matches :: "string \<Rightarrow> json \<Rightarrow> bool" where
  "json_type_matches expected v =
     (if expected = ''object'' then is_obj v
      else if expected = ''array'' then is_arr v
      else if expected = ''string'' then is_str v
      else if expected = ''integer'' then (case v of JInt _ \<Rightarrow> True | _ \<Rightarrow> False)
      else if expected = ''number'' then is_num v
      else if expected = ''boolean'' then is_bool v
      else if expected = ''null'' then v = JNull
      else True)"

text \<open>The object at \<open>properties.key\<close>, and its type member.\<close>

definition property_schema :: "json \<Rightarrow> string \<Rightarrow> json option" where
  "property_schema schema key = (case jlookup ''properties'' schema of
       Some (JObj props) \<Rightarrow> (case map_of props key of Some (JObj f) \<Rightarrow> Some (JObj f) | _ \<Rightarrow> None)
     | _ \<Rightarrow> None)"

definition check_type :: "json \<Rightarrow> string \<Rightarrow> json \<Rightarrow> bool" where
  "check_type schema key v = (case property_schema schema key of
       None \<Rightarrow> True
     | Some f \<Rightarrow> (case jlookup ''type'' f of
           Some (JStr t) \<Rightarrow> json_type_matches t v
         | Some (JArr ts) \<Rightarrow> list_ex (\<lambda>t. case t of JStr s \<Rightarrow> json_type_matches s v | _ \<Rightarrow> False) ts
         | _ \<Rightarrow> True))"

definition get_required_fields :: "json \<Rightarrow> string list" where
  "get_required_fields schema = (case jlookup ''required'' schema of
       Some (JArr fs) \<Rightarrow> concat (map (\<lambda>f. case f of JStr s \<Rightarrow> [s] | _ \<Rightarrow> []) fs)
     | _ \<Rightarrow> [])"

text \<open>std::stoll: leading white space, an optional sign, digits; the value and the characters used, or
  None when it throws (no digits, or out of the range of long long).\<close>

definition stoll :: "string \<Rightarrow> (int \<times> nat) option" where
  "stoll s = (let ws = takeWhile is_space s; r = drop (length ws) s;
       sign = (if r \<noteq> [] \<and> (hd r = CHR ''-'' \<or> hd r = CHR ''+'') then 1 else 0);
       ds = takeWhile is_digit (drop sign r);
       v = (if r \<noteq> [] \<and> hd r = CHR ''-'' then - int (digits_val ds) else int (digits_val ds))
     in if ds = [] \<or> v < - (2 ^ 63) \<or> 2 ^ 63 \<le> v then None
        else Some (v, length ws + sign + length ds))"

record coerce_failure =
  cf_field_path :: string
  cf_original :: string
  cf_target :: string

text \<open>One field: its new value, and a failure when its string does not convert.\<close>

definition coerce_field :: "co_env \<Rightarrow> json \<Rightarrow> string \<Rightarrow> json \<Rightarrow> json \<times> coerce_failure list" where
  "coerce_field env schema key v = (case property_schema schema key of
       None \<Rightarrow> (v, [])
     | Some f \<Rightarrow> (case (jlookup ''type'' f, v) of
           (Some (JStr expected), JStr s) \<Rightarrow>
             (let failed = (v, [\<lparr> cf_field_path = key, cf_original = s, cf_target = expected \<rparr>]) in
              if expected = ''integer'' then
                (case stoll s of Some (i, pos) \<Rightarrow> if pos = length s then (JInt i, []) else failed
                 | None \<Rightarrow> failed)
              else if expected = ''number'' then
                (case ce_stod env s of Some (d, pos) \<Rightarrow> if pos = length s then (JFloat d, []) else failed
                 | None \<Rightarrow> failed)
              else if expected = ''boolean'' then
                (if s = ''true'' then (JBool True, []) else if s = ''false'' then (JBool False, []) else failed)
              else (v, []))
         | _ \<Rightarrow> (v, [])))"

definition coerce_args ::
  "co_env \<Rightarrow> json \<Rightarrow> (string \<times> json) list \<Rightarrow> (string \<times> json) list \<times> coerce_failure list" where
  "coerce_args env schema args =
     (map (\<lambda>(k, v). (k, fst (coerce_field env schema k v))) args,
      concat (map (\<lambda>(k, v). snd (coerce_field env schema k v)) args))"

definition error_message_of :: "json \<Rightarrow> string" where
  "error_message_of e = (case jlookup ''message'' e of Some (JStr s) \<Rightarrow> s | _ \<Rightarrow> [])"

text \<open>Errors the first step defers to the later ones.\<close>

definition deferrable :: "json \<Rightarrow> bool" where
  "deferrable e = (let msg = error_message_of e in
     starts_with ''type mismatch'' msg \<or> msg = ''required field missing'' \<or> msg = ''value not in enum'')"

type_synonym pipeline_result = "co_effect list \<times> (tool_result + (string \<times> json) list) res"

definition reject :: "co_env \<Rightarrow> validation_stage \<Rightarrow> tool_metadata \<Rightarrow> tool_call_context \<Rightarrow> string \<Rightarrow> string \<Rightarrow>
    (string \<times> json) list \<Rightarrow> pipeline_result" where
  "reject env stage m cx reason msg details =
     (emit_audit_denied env stage (md_name m) reason cx,
      Inr (Inl (tr_error InvalidParams msg (jobj ((''validation_stage'', JStr (stage_name stage)) # details)))))"

definition step_schema :: "co_env \<Rightarrow> tool_metadata \<Rightarrow> tool_call_context \<Rightarrow> json \<Rightarrow> (string \<times> json) list \<Rightarrow>
    pipeline_result" where
  "step_schema env m cx schema args = (case ce_reparse env schema of
       Inl e \<Rightarrow> ([], Inl e)
     | Inr sch \<Rightarrow>
         (let fatal = filter (\<lambda>e. \<not> deferrable e) (validate_node (ce_jeq env) (ce_dump env) sch (JObj args) []) in
          if fatal \<noteq> [] then
            reject env SchemaValidate m cx ''schema validation failed''
              (''schema validation failed for tool: '' @ md_name m) [(''errors'', JArr fatal)]
          else ([], Inr (Inr args))))"

definition has_deferred :: "co_env \<Rightarrow> json \<Rightarrow> (string \<times> json) list \<Rightarrow> bool" where
  "has_deferred env schema args = (case ce_reparse env schema of
       Inl e \<Rightarrow> False
     | Inr sch \<Rightarrow> list_ex deferrable (validate_node (ce_jeq env) (ce_dump env) sch (JObj args) []))"

definition step_coercion :: "co_env \<Rightarrow> tool_metadata \<Rightarrow> tool_call_context \<Rightarrow> json \<Rightarrow> (string \<times> json) list \<Rightarrow>
    pipeline_result" where
  "step_coercion env m cx schema args = (case md_validation_mode m of
       Strict \<Rightarrow>
         (case find (\<lambda>(k, v). \<not> check_type schema k v) args of
            Some (k, v) \<Rightarrow> reject env Coercion m cx (''strict type check failed on field: '' @ k)
              (''type mismatch on field '' @ quoted k @ '' for tool: '' @ md_name m) [(''field_path'', JStr k)]
          | None \<Rightarrow> ([], Inr (Inr args)))
     | Warn \<Rightarrow>
         (let (coerced, failures) = coerce_args env schema args in
          if failures \<noteq> [] then
            reject env Coercion m cx ''coercion_failed'' (''coercion failed for tool: '' @ md_name m)
              [(''reason'', JStr ''coercion_failed''),
               (''failures'', JArr (map (\<lambda>f. jobj [(''field_path'', JStr (cf_field_path f)),
                                                   (''target_type'', JStr (cf_target f))]) failures))]
          else
            (let args' = (if \<not> ce_jeq env (JObj coerced) (JObj args) then coerced else args) in
             if has_deferred env schema args then
               (case ce_reparse env schema of
                  Inl e \<Rightarrow> ([], Inl e)
                | Inr sch \<Rightarrow>
                    (let errs = validate_node (ce_jeq env) (ce_dump env) sch (JObj args') [] in
                     if errs \<noteq> [] then
                       reject env SchemaValidate m cx ''schema validation failed after coercion''
                         (''schema validation failed after coercion for tool: '' @ md_name m)
                         [(''post_coercion'', JBool True), (''errors'', JArr errs)]
                     else ([], Inr (Inr args'))))
             else ([], Inr (Inr args'))))
     | Ignore \<Rightarrow> ([], Inr (Inr args)))"

definition step_required :: "co_env \<Rightarrow> tool_metadata \<Rightarrow> tool_call_context \<Rightarrow> json \<Rightarrow> (string \<times> json) list \<Rightarrow>
    pipeline_result" where
  "step_required env m cx schema args =
     (case find (\<lambda>f. \<not> jcontains f (JObj args)) (get_required_fields schema) of
        Some f \<Rightarrow> reject env RequiredField m cx (''required field missing: '' @ f)
          (''required field '' @ quoted f @ '' missing for tool: '' @ md_name m) [(''field_path'', JStr f)]
      | None \<Rightarrow> ([], Inr (Inr args)))"

definition schema_declares_path :: "json option \<Rightarrow> bool" where
  "schema_declares_path sch = (case sch of None \<Rightarrow> False
     | Some s \<Rightarrow> (case jlookup ''properties'' s of None \<Rightarrow> False | Some p \<Rightarrow> jcontains ''path'' p))"

definition step_business :: "co_env \<Rightarrow> tool_metadata \<Rightarrow> tool_call_context \<Rightarrow> (string \<times> json) list \<Rightarrow>
    pipeline_result" where
  "step_business env m cx args =
     (if md_category m \<noteq> Execute then ([], Inr (Inr args))
      else
        let fp = JStr (ce_hash env (ce_dump env (JObj args)));
            bad_path = (case (schema_declares_path (md_input_schema m), map_of args ''path'') of
                (True, Some (JStr p)) \<Rightarrow>
                  (let c = path_check (fs_canon (ce_fs env)) (fs_regex (ce_fs env)) default_path_policy p in
                   if cr_allowed c then None else Some (cr_reason c))
              | _ \<Rightarrow> None);
            bad_cmd = (case map_of args ''cmd'' of
                Some (JStr c) \<Rightarrow> if contains_dangerous c then Some c else None
              | _ \<Rightarrow> None)
        in case bad_path of
             Some why \<Rightarrow> reject env BusinessRules m cx (''path policy violation: '' @ why)
               (''path policy violation for tool: '' @ md_name m)
               [(''reason'', JStr ''path_policy_violation''), (''args_hash'', fp)]
           | None \<Rightarrow> (case bad_cmd of
               Some c \<Rightarrow> reject env BusinessRules m cx
                 (''dangerous pattern detected: '' @ first_dangerous_match c)
                 (''dangerous pattern detected for tool: '' @ md_name m)
                 [(''reason'', JStr ''dangerous_pattern_detected''),
                  (''matched_pattern'', JStr (first_dangerous_match c)), (''args_hash'', fp)]
             | None \<Rightarrow> ([], Inr (Inr args))))"

text \<open>Run the next step on the arguments of one that passed.\<close>

definition and_then ::
  "pipeline_result \<Rightarrow> ((string \<times> json) list \<Rightarrow> pipeline_result) \<Rightarrow> pipeline_result" where
  "and_then p k = (case p of
       (es, Inr (Inr args)) \<Rightarrow> (let (es', r) = k args in (es @ es', r))
     | (es, r) \<Rightarrow> (es, r))"

definition validate_args :: "co_env \<Rightarrow> tool_metadata \<Rightarrow> tool_call_context \<Rightarrow> tool_args \<Rightarrow>
    pipeline_result" where
  "validate_args env m cx args =
     (let args_json = foldl (\<lambda>o' (k, v). kv_ins k (JStr v) o') [] args in
      and_then
        (case md_input_schema m of
           None \<Rightarrow> ([], Inr (Inr args_json))
         | Some schema \<Rightarrow>
             and_then (step_schema env m cx schema args_json) (\<lambda>a.
             and_then (step_coercion env m cx schema a) (\<lambda>a.
             step_required env m cx schema a)))
        (step_business env m cx))"

definition write_back :: "co_env \<Rightarrow> (string \<times> json) list \<Rightarrow> tool_args \<Rightarrow> tool_args" where
  "write_back env args eff = foldl (\<lambda>e (k, v).
     kv_ins k (case v of JStr s \<Rightarrow> s | _ \<Rightarrow> ce_dump env v) e) eff args"

section \<open>Execute\<close>

definition metadata_to_json :: "co_env \<Rightarrow> tool_metadata \<Rightarrow> string" where
  "metadata_to_json env m = ce_dump env (jobj
     [(''name'', JStr (md_name m)), (''category'', JInt (int (category_number (md_category m)))),
      (''min_layer'', JInt (case md_min_layer m of Workflow \<Rightarrow> 0 | Thinking \<Rightarrow> 1 | Cognitive \<Rightarrow> 2)),
      (''allowed_layers'', JArr (map (\<lambda>l. JInt (case l of Workflow \<Rightarrow> 0 | Thinking \<Rightarrow> 1 | Cognitive \<Rightarrow> 2))
         (md_allowed_layers m))),
      (''cost_estimate'', JFloat (md_cost_estimate m)), (''timeout_ms'', JInt (md_timeout_ms m)),
      (''approval'', jobj
         [(''requires_approval_in_plan'', JBool (requires_approval_in_plan (md_approval m))),
          (''requires_approval_in_agent'', JBool (requires_approval_in_agent (md_approval m))),
          (''requires_approval_in_yolo'', JBool (requires_approval_in_yolo (md_approval m)))])])"

record coordinator =
  co_policy :: "exec_policy option"
  co_callback :: "approval_callback option"
  co_timeout :: int
  co_hooks :: "tool_hooks option"

definition cat_audit :: "co_env \<Rightarrow> string \<Rightarrow> tool_metadata \<Rightarrow> tool_call_context \<Rightarrow> json" where
  "cat_audit env event m cx = audit_meta env event (ce_id env 0) (md_name m)
     (category_to_string (md_category m)) (cx_caller_layer cx) (cx_session_id cx)"

definition with_warnings :: "string list \<Rightarrow> json \<Rightarrow> json" where
  "with_warnings ws j = (if ws \<noteq> [] then jset ''hook_warnings'' (JArr (map JStr ws)) j else j)"

definition denied_event :: "co_env \<Rightarrow> error_code \<Rightarrow> string \<Rightarrow> json \<Rightarrow> co_effect list" where
  "denied_event env code msg m = emit_if env (eb_from ''tool.audit.denied'' (tr_error code msg m))"

text \<open>Step 4's envelope: an error text, an explicit success = false, or the raw value.\<close>

definition envelope :: "json \<Rightarrow> tool_result" where
  "envelope raw = (case jlookup ''error'' raw of
       Some (JStr e) \<Rightarrow> tr_error Unknown e jempty
     | _ \<Rightarrow> (case jlookup ''success'' raw of
           Some (JBool False) \<Rightarrow> tr_error Unknown
             (case jlookup ''error_message'' raw of Some (JStr m) \<Rightarrow> m | _ \<Rightarrow> ''Unknown error'') jempty
         | _ \<Rightarrow> tr_success raw jempty))"

definition completed_events :: "co_env \<Rightarrow> tool_metadata \<Rightarrow> tool_call_context \<Rightarrow> string list \<Rightarrow> tool_result \<Rightarrow>
    co_effect list" where
  "completed_events env m cx ws res =
     (let dur = int_str (ce_duration env);
          okt = (if tr_ok res then ''true'' else ''false'');
          ec = (if tr_ok res then [] else ''tool.error'')
      in emit_if env (eb_meta (with_warnings ws (jset ''error_code'' (JStr ec) (jset ''ok'' (JStr okt)
             (jset ''duration_ms'' (JStr dur) (cat_audit env ''tool.audit.completed'' m cx)))))
           (eb_args (jobj [(''tool_name'', JStr (md_name m)),
                           (''category'', JStr (category_to_string (md_category m))),
                           (''ok'', JStr okt), (''duration_ms'', JStr dur), (''error_code'', JStr ec)])
             (eb_new ''tool.audit.completed''))) @
         tool_execution_event env ''tool.execution.end'' (md_name m) (cx_caller_layer cx) (ce_id env 0)
           (cx_session_id cx) (tr_ok res) (ce_duration env)
           (if tr_ok res then None else Some ''tool.error''))"

text \<open>The end of execute, from the envelope on: post-hooks, then the completion events.\<close>

definition finish_call :: "co_env \<Rightarrow> coordinator \<Rightarrow> tool_metadata \<Rightarrow> tool_call_context \<Rightarrow> string list \<Rightarrow>
    tool_result \<Rightarrow> co_effect list \<times> tool_result res" where
  "finish_call env co m cx ws res0 = (case co_hooks co of
       None \<Rightarrow> (completed_events env m cx ws res0, Inr res0)
     | Some hooks \<Rightarrow>
         (let (res, ws') = apply_post_hooks hooks m cx res0 ws in
          if tr_ok res then (completed_events env m cx ws' res, Inr res)
          else if \<not> ce_bus env then ([], Inr res)
          else (case jlookup ''error_message'' (tr_meta res) of
              None \<Rightarrow> (denied_event env (case tr_error_code res of Some c \<Rightarrow> c | None \<Rightarrow> Unknown)
                  ''post-hook fail-closed'' (with_warnings ws' (jset ''reason'' (JStr ''post-hook fail-closed'')
                     (cat_audit env ''tool.audit.denied'' m cx))), Inr res)
            | Some (JStr why) \<Rightarrow> (denied_event env (case tr_error_code res of Some c \<Rightarrow> c | None \<Rightarrow> Unknown)
                  why (with_warnings ws' (jset ''reason'' (JStr why)
                     (cat_audit env ''tool.audit.denied'' m cx))), Inr res)
            | Some _ \<Rightarrow> ([], Inl (Json_error ''type_error.302'')))))"

definition call_preview :: "co_env \<Rightarrow> tool_metadata \<Rightarrow> tool_args \<Rightarrow> tool_preview" where
  "call_preview env m args = \<lparr> pv_command_line = md_name m @ ''('' @ nat_str (length args) @ '' args)'',
     pv_diff_text = [], pv_affected_paths = [], pv_estimated_sec = 0,
     pv_risk_summary = ''Tool category: '' @ category_to_string (md_category m),
     pv_metadata_json = metadata_to_json env m \<rparr>"

text \<open>From the layer check to the call, with the arguments that passed validation.\<close>

definition authorise_and_call :: "co_env \<Rightarrow> coordinator \<Rightarrow> (string \<Rightarrow> tool_args \<Rightarrow> json) \<Rightarrow> tool_metadata \<Rightarrow>
    tool_call_context \<Rightarrow> tool_args \<Rightarrow> string list \<Rightarrow> co_effect list \<times> tool_result res" where
  "authorise_and_call env co call m cx args ws =
     (let cat = category_to_string (md_category m); layer = cx_caller_layer cx;
          start = tool_execution_event env ''tool.execution.start'' (md_name m) layer (ce_id env 0)
                    (cx_session_id cx) True 0 None
      in case parse_layer layer of
           Inl e \<Rightarrow> (start, Inr (tr_error Unknown (what e) jempty))
         | Inr l \<Rightarrow>
             if \<not> check_layer_permission l (md_category m) then
               (start @ denied_event env PermissionDenied
                  (''Layer '' @ quoted layer @ '' cannot call category '' @ quoted cat)
                  (cat_audit env ''tool.audit.denied'' m cx),
                Inr (tr_error PermissionDenied
                  (''Layer permission denied: '' @ quoted layer @ '' cannot call category '' @ quoted cat) jempty))
             else if \<not> process_request (co_policy co) (co_callback co) (co_timeout co) (ce_now env)
                 (ce_approval_id env) m cx
                 (call_preview env m args) then
               (start @ denied_event env PermissionDenied ''Approval denied by policy''
                  (cat_audit env ''tool.audit.denied'' m cx),
                Inr (tr_error PermissionDenied (''Approval denied by policy for tool: '' @ md_name m) jempty))
             else
               (let invoked = emit_if env
                      (eb_meta (jset ''args_keys_count'' (JStr (nat_str (length args)))
                         (cat_audit env ''tool.audit.invoked'' m cx))
                       (eb_args (jobj [(''tool_name'', JStr (md_name m)), (''category'', JStr cat)])
                         (eb_new ''tool.audit.invoked'')));
                    (es, r) = finish_call env co m cx ws (envelope (call (md_name m) args))
                in (start @ invoked @ [Call_tool (md_name m) args] @ es, r)))"

definition execute_guarded :: "co_env \<Rightarrow> coordinator \<Rightarrow> (string \<Rightarrow> tool_args \<Rightarrow> json) \<Rightarrow> tool_metadata \<Rightarrow>
    tool_call_context \<Rightarrow> tool_args \<Rightarrow> bool \<Rightarrow> co_effect list \<times> tool_result res" where
  "execute_guarded env co call m cx args cancelled =
     (if cancelled then
        (emit_if env (eb_args (jobj [(''tool'', JStr (md_name m)), (''reason'', JStr ''cancelled'')])
           (eb_from ''tool.audit.denied''
             (tr_error PermissionDenied ''cancelled'' (cat_audit env ''tool.audit.denied'' m cx)))),
         Inr (tr_error PermissionDenied ''cancelled'' jempty))
      else
        let (pre, ws) = (case co_hooks co of
              None \<Rightarrow> (\<lparr> ph_action = PreContinue, ph_modified_args = [], ph_deny_reason = [] \<rparr>, [])
            | Some hooks \<Rightarrow> apply_pre_hooks hooks m cx args [])
        in if ph_action pre = PreDeny then
             (denied_event env PermissionDenied (ph_deny_reason pre)
                (with_warnings ws (jset ''reason'' (JStr (ph_deny_reason pre))
                  (cat_audit env ''tool.audit.denied'' m cx))),
              Inr (tr_error PermissionDenied (ph_deny_reason pre) jempty))
           else
             (let eff = (if ph_action pre = PreModifyArgs then ph_modified_args pre else args);
                  (es, v) = validate_args env m cx eff
              in case v of
                   Inl e \<Rightarrow> (es, Inl e)
                 | Inr (Inl res) \<Rightarrow> (es, Inr res)
                 | Inr (Inr checked) \<Rightarrow>
                     (let (es', r) = authorise_and_call env co call m cx (write_back env checked eff) ws
                      in (es @ es', r))))"

text \<open>The whole call: the guard's state is pushed for its duration and restored by the destructor, on
  every path out of the body.\<close>

definition coordinator_execute :: "co_env \<Rightarrow> coordinator \<Rightarrow> (string \<Rightarrow> tool_args \<Rightarrow> json) \<Rightarrow> tool_metadata \<Rightarrow>
    tool_call_context \<Rightarrow> tool_args \<Rightarrow> bool \<Rightarrow> nesting \<Rightarrow> co_effect list \<times> tool_result res \<times> nesting" where
  "coordinator_execute env co call m cx args cancelled n = (case guard_enter (md_name m) n of
       Inl e \<Rightarrow> ((if md_name m \<in> set (ne_stack n) then cycle_event env (md_name m) n else []), Inl e, n)
     | Inr n' \<Rightarrow>
         (let (es, r) = execute_guarded env co call m cx args cancelled
          in (es, r, guard_exit (md_name m) n')))"

section \<open>Facts about the nesting guard\<close>

datatype guard_op = Enter string | Leave string

text \<open>Scopes as the thread runs them: an entry that throws changes nothing; a scope ends with its own
  name.\<close>

primrec guard_apply :: "guard_op \<Rightarrow> nesting \<Rightarrow> nesting" where
  "guard_apply (Enter name) n = (case guard_enter name n of Inl _ \<Rightarrow> n | Inr n' \<Rightarrow> n')"
| "guard_apply (Leave name) n = (if ne_stack n \<noteq> [] \<and> last (ne_stack n) = name then guard_exit name n else n)"

definition nesting_inv :: "nesting \<Rightarrow> bool" where
  "nesting_inv n \<longleftrightarrow> ne_depth n = length (ne_stack n) \<and> distinct (ne_stack n) \<and> ne_depth n \<le> 2"

lemma nesting_inv_enter: "nesting_inv n \<Longrightarrow> guard_enter name n = Inr n' \<Longrightarrow> nesting_inv n'"
  by (auto simp: guard_enter_def nesting_inv_def split: if_splits)

lemma nesting_inv_apply: "nesting_inv n \<Longrightarrow> nesting_inv (guard_apply a n)"
proof (cases a)
  case (Enter name)
  assume "nesting_inv n"
  then show ?thesis using Enter nesting_inv_enter by (auto split: sum.splits)
next
  case (Leave name)
  assume "nesting_inv n"
  then show ?thesis using Leave
    by (auto simp: guard_exit_def nesting_inv_def distinct_butlast)
qed

lemma guard_enter_exit: "guard_enter name n = Inr n' \<Longrightarrow> guard_exit name n' = n"
  by (cases n) (auto simp: guard_enter_def guard_exit_def split: if_splits)

section \<open>Facts about execute\<close>

definition no_call :: "co_effect list \<Rightarrow> bool" where
  "no_call es \<longleftrightarrow> (\<forall>n a. Call_tool n a \<notin> set es)"

lemma no_call_simps [simp]:
  "no_call []" "no_call (es @ fs) \<longleftrightarrow> no_call es \<and> no_call fs"
  "no_call (Emit e # es) \<longleftrightarrow> no_call es" "\<not> no_call (Call_tool n a # es)"
  by (auto simp: no_call_def)

lemma no_call_events [simp]:
  "no_call (emit_if env b)" "no_call (denied_event env c msg j)" "no_call (cycle_event env name n)"
  "no_call (tool_execution_event env topic tool layer rid session ok d ec)"
  "no_call (completed_events env m cx ws res)" "no_call (emit_audit_denied env stage tool reason cx)"
  by (simp_all add: emit_if_def denied_event_def cycle_event_def tool_execution_event_def
      completed_events_def emit_audit_denied_def Let_def)

lemma no_call_reject [simp]: "no_call (fst (reject env stage m cx reason msg details))"
  by (simp add: reject_def)

lemma no_call_steps [simp]:
  "no_call (fst (step_schema env m cx schema args))"
  "no_call (fst (step_coercion env m cx schema args))"
  "no_call (fst (step_required env m cx schema args))"
  "no_call (fst (step_business env m cx args))"
  by (auto simp: step_schema_def step_coercion_def step_required_def step_business_def Let_def
      split: sum.splits option.splits validation_mode.splits prod.splits)

lemma no_call_and_then:
  "no_call (fst p) \<Longrightarrow> (\<And>a. no_call (fst (k a))) \<Longrightarrow> no_call (fst (and_then p k))"
  by (auto simp: and_then_def split: prod.splits sum.splits) (metis fst_conv)

lemma no_call_validate [simp]: "no_call (fst (validate_args env m cx args))"
  by (auto simp: validate_args_def Let_def intro!: no_call_and_then split: option.splits)

lemma no_call_finish [simp]: "no_call (fst (finish_call env co m cx ws res))"
  by (auto simp: finish_call_def split: option.splits prod.splits json.splits)

definition authorised :: "co_env \<Rightarrow> coordinator \<Rightarrow> tool_metadata \<Rightarrow> tool_call_context \<Rightarrow> tool_args \<Rightarrow> bool" where
  "authorised env co m cx args \<longleftrightarrow>
     (case parse_layer (cx_caller_layer cx) of Inl _ \<Rightarrow> False
      | Inr l \<Rightarrow> check_layer_permission l (md_category m)) \<and>
     process_request (co_policy co) (co_callback co) (co_timeout co) (ce_now env) (ce_approval_id env)
       m cx (call_preview env m args)"

definition invoked_event :: "co_env \<Rightarrow> tool_metadata \<Rightarrow> tool_call_context \<Rightarrow> tool_args \<Rightarrow> co_effect list" where
  "invoked_event env m cx args = emit_if env
     (eb_meta (jset ''args_keys_count'' (JStr (nat_str (length args))) (cat_audit env ''tool.audit.invoked'' m cx))
       (eb_args (jobj [(''tool_name'', JStr (md_name m)),
                       (''category'', JStr (category_to_string (md_category m)))])
         (eb_new ''tool.audit.invoked'')))"

lemma no_call_invoked [simp]: "no_call (invoked_event env m cx args)"
  by (simp add: invoked_event_def)

lemma authorise_shape:
  "if authorised env co m cx args
   then \<exists>pre post. no_call pre \<and> no_call post \<and> fst (authorise_and_call env co call m cx args ws) =
     pre @ invoked_event env m cx args @ [Call_tool (md_name m) args] @ post
   else no_call (fst (authorise_and_call env co call m cx args ws))"
proof (cases "authorised env co m cx args")
  case True
  then obtain l where l: "parse_layer (cx_caller_layer cx) = Inr l" "check_layer_permission l (md_category m)"
    by (auto simp: authorised_def split: sum.splits)
  let ?f = "finish_call env co m cx ws (envelope (call (md_name m) args))"
  have "fst (authorise_and_call env co call m cx args ws) =
      tool_execution_event env ''tool.execution.start'' (md_name m) (cx_caller_layer cx) (ce_id env 0)
        (cx_session_id cx) True 0 None @ invoked_event env m cx args @ [Call_tool (md_name m) args] @ fst ?f"
    using True l by (simp add: authorise_and_call_def authorised_def invoked_event_def Let_def split_beta)
  then show ?thesis using True no_call_finish no_call_events(4) by (metis (no_types))
next
  case False
  then show ?thesis
    by (auto simp: authorise_and_call_def authorised_def Let_def split: sum.splits)
qed

lemma pre_hooks_never_modify: "ph_action (fst (apply_pre_hooks t m c args ws)) \<noteq> PreModifyArgs"
  using run_pre_hooks_admit[of m c "matched_hooks (md_name m) (th_pre t)" args ws]
  by (cases "hooks_admit m c (matched_hooks (md_name m) (th_pre t)) args") (auto simp: apply_pre_hooks_def)

definition hooks_pass :: "coordinator \<Rightarrow> tool_metadata \<Rightarrow> tool_call_context \<Rightarrow> tool_args \<Rightarrow> bool" where
  "hooks_pass co m cx args = (case co_hooks co of None \<Rightarrow> True
     | Some hooks \<Rightarrow> hooks_admit m cx (matched_hooks (md_name m) (th_pre hooks)) args \<noteq> None)"

lemma apply_pre_deny:
  "ph_action (fst (apply_pre_hooks t m c args ws)) = PreDeny \<longleftrightarrow>
   hooks_admit m c (matched_hooks (md_name m) (th_pre t)) args = None"
  using run_pre_hooks_admit[of m c "matched_hooks (md_name m) (th_pre t)" args ws]
  by (cases "hooks_admit m c (matched_hooks (md_name m) (th_pre t)) args") (auto simp: apply_pre_hooks_def)

lemma guarded_shape:
  "if \<not> cancelled \<and> hooks_pass co m cx args \<and>
      (\<exists>checked. snd (validate_args env m cx args) = Inr (Inr checked) \<and>
         authorised env co m cx (write_back env checked args))
   then \<exists>pre post checked. no_call pre \<and> no_call post \<and>
     snd (validate_args env m cx args) = Inr (Inr checked) \<and>
     fst (execute_guarded env co call m cx args cancelled) =
       pre @ invoked_event env m cx (write_back env checked args) @
       [Call_tool (md_name m) (write_back env checked args)] @ post
   else no_call (fst (execute_guarded env co call m cx args cancelled))"
proof (cases "cancelled \<or> \<not> hooks_pass co m cx args")
  case True
  have "no_call (fst (execute_guarded env co call m cx args cancelled))"
  proof (cases cancelled)
    case False
    with True obtain hooks where h: "co_hooks co = Some hooks"
      "ph_action (fst (apply_pre_hooks hooks m cx args [])) = PreDeny"
      by (auto simp: hooks_pass_def apply_pre_deny split: option.splits)
    then show ?thesis using False by (simp add: execute_guarded_def split_beta)
  qed (simp add: execute_guarded_def)
  then show ?thesis using True by auto
next
  case False
  then have allowed: "\<not> cancelled" "hooks_pass co m cx args" by simp_all
  define ws where "ws = (case co_hooks co of None \<Rightarrow> []
    | Some hooks \<Rightarrow> snd (apply_pre_hooks hooks m cx args []))"
  have step: "execute_guarded env co call m cx args cancelled =
     (let (es, v) = validate_args env m cx args in case v of
         Inl e \<Rightarrow> (es, Inl e)
       | Inr (Inl res) \<Rightarrow> (es, Inr res)
       | Inr (Inr checked) \<Rightarrow>
           (let (es', r) = authorise_and_call env co call m cx (write_back env checked args) ws
            in (es @ es', r)))"
  proof (cases "co_hooks co")
    case None
    then have w: "ws = []" by (simp add: ws_def)
    show ?thesis unfolding w using False None by (simp add: execute_guarded_def Let_def cong: prod.case_cong sum.case_cong)
  next
    case (Some hooks)
    obtain pre w where pw: "apply_pre_hooks hooks m cx args [] = (pre, w)" by fastforce
    then have "ph_action pre \<noteq> PreDeny" "ph_action pre \<noteq> PreModifyArgs"
      using False Some apply_pre_deny[of hooks m cx args "[]"]
        pre_hooks_never_modify[of hooks m cx args "[]"] by (auto simp: hooks_pass_def)
    moreover have w: "ws = w" using Some pw by (simp add: ws_def)
    ultimately show ?thesis unfolding w using False Some pw by (simp add: execute_guarded_def Let_def cong: prod.case_cong sum.case_cong)
  qed
  obtain es v where v: "validate_args env m cx args = (es, v)" by fastforce
  have nc: "no_call es" using no_call_validate[of env m cx args] v by simp
  show ?thesis
  proof (cases "\<exists>checked. v = Inr (Inr checked)")
    case True
    then obtain checked where c: "v = Inr (Inr checked)" by blast
    have e: "fst (execute_guarded env co call m cx args cancelled) =
        es @ fst (authorise_and_call env co call m cx (write_back env checked args) ws)"
      by (simp add: step v c split_beta)
    note a = authorise_shape[of env co m cx "write_back env checked args" call ws]
    show ?thesis
    proof (cases "authorised env co m cx (write_back env checked args)")
      case True
      then obtain pre post where pp: "no_call pre" "no_call post"
        "fst (authorise_and_call env co call m cx (write_back env checked args) ws) =
          pre @ invoked_event env m cx (write_back env checked args) @
          [Call_tool (md_name m) (write_back env checked args)] @ post" using a by auto
      have "no_call (es @ pre)" using nc pp(1) by simp
      moreover have "fst (execute_guarded env co call m cx args cancelled) =
          (es @ pre) @ invoked_event env m cx (write_back env checked args) @
          [Call_tool (md_name m) (write_back env checked args)] @ post" using e pp(3) by simp
      moreover have sv: "snd (validate_args env m cx args) = Inr (Inr checked)" using c v by simp
      ultimately have ex: "\<exists>pre post checked. no_call pre \<and> no_call post \<and>
          snd (validate_args env m cx args) = Inr (Inr checked) \<and>
          fst (execute_guarded env co call m cx args cancelled) =
            pre @ invoked_event env m cx (write_back env checked args) @
            [Call_tool (md_name m) (write_back env checked args)] @ post" using pp(2) by blast
      have cond: "\<not> cancelled \<and> hooks_pass co m cx args \<and>
          (\<exists>checked. snd (validate_args env m cx args) = Inr (Inr checked) \<and>
             authorised env co m cx (write_back env checked args))" using allowed sv True by blast
      show ?thesis unfolding if_P[OF cond] by (rule ex)
    next
      case False
      then show ?thesis using a nc c v e by auto
    qed
  next
    case False
    then show ?thesis using nc v by (auto simp: step split: sum.splits)
  qed
qed

section \<open>Properties\<close>

text \<open>C1. The coordinator calls a tool only when everything allows it, and then exactly once and only
  after auditing it.  If the tool is not active on this thread's call stack, fewer than two calls
  are nested, the call is not cancelled, no pre-hook vetoes, the arguments pass validation, the
  caller's layer may use the tool's category and the approval handler agrees, then the effects
  contain exactly one registry call, right after the tool.audit.invoked event (when there is a
  bus); in every other case they contain none.  The arguments passed are the validated form of
  the caller's own arguments: what a hook changed in them is not in it.\<close>

theorem coordinator_calls_when_allowed:
  "if md_name m \<notin> set (ne_stack n) \<and> ne_depth n < 2 \<and> \<not> cancelled \<and> hooks_pass co m cx args \<and>
      (\<exists>checked. snd (validate_args env m cx args) = Inr (Inr checked) \<and>
         authorised env co m cx (write_back env checked args))
   then \<exists>pre post checked. no_call pre \<and> no_call post \<and>
     snd (validate_args env m cx args) = Inr (Inr checked) \<and>
     fst (coordinator_execute env co call m cx args cancelled n) =
       pre @ invoked_event env m cx (write_back env checked args) @
       [Call_tool (md_name m) (write_back env checked args)] @ post
   else no_call (fst (coordinator_execute env co call m cx args cancelled n))"
proof (cases "md_name m \<in> set (ne_stack n) \<or> 2 \<le> ne_depth n")
  case True
  then have "no_call (fst (coordinator_execute env co call m cx args cancelled n))"
    by (auto simp: coordinator_execute_def guard_enter_def)
  then show ?thesis using True by auto
next
  case False
  then have "fst (coordinator_execute env co call m cx args cancelled n) =
      fst (execute_guarded env co call m cx args cancelled)"
    by (simp add: coordinator_execute_def guard_enter_def split_beta)
  then show ?thesis using guarded_shape[of cancelled co m cx args env call] False by auto
qed

text \<open>C2. In every mode, a tool that forces approval is called through the coordinator only after the
  approval callback answered yes to a request that names this tool and this context.\<close>

theorem coordinator_respects_approval_floor:
  assumes "forced m" "co_policy co = Some (policy_create mode)"
    "Call_tool name a \<in> set (fst (coordinator_execute env co call m cx args cancelled n))"
  shows "name = md_name m \<and> (\<exists>f. co_callback co = Some f \<and>
    f (mk_request m cx (call_preview env m a) (approval_request_id (ce_approval_id env) cx) (ce_now env))
      (co_timeout co))"
proof -
  have nn: "\<not> no_call (fst (coordinator_execute env co call m cx args cancelled n))"
    using assms(3) by (auto simp: no_call_def)
  note g = coordinator_execute_def guard_enter_def
  have ex: "fst (coordinator_execute env co call m cx args cancelled n) =
      fst (execute_guarded env co call m cx args cancelled)"
    using nn by (auto simp: g split_beta split: if_splits)
  then have "\<not> no_call (fst (execute_guarded env co call m cx args cancelled))" using nn by simp
  with guarded_shape[of cancelled co m cx args env call] obtain pre post checked where
    sh: "no_call pre" "no_call post" "snd (validate_args env m cx args) = Inr (Inr checked)"
      "fst (execute_guarded env co call m cx args cancelled) =
       pre @ invoked_event env m cx (write_back env checked args) @
       [Call_tool (md_name m) (write_back env checked args)] @ post"
    and au: "authorised env co m cx (write_back env checked args)"
    by (auto split: if_splits)
  have "Call_tool name a \<in> set (pre @ invoked_event env m cx (write_back env checked args) @
       [Call_tool (md_name m) (write_back env checked args)] @ post)"
    using assms(3) ex sh(4) by simp
  then have na: "name = md_name m" "a = write_back env checked args"
    using sh(1,2) no_call_invoked by (auto simp: no_call_def)
  have "process_request (Some (policy_create mode)) (co_callback co) (co_timeout co) (ce_now env)
      (ce_approval_id env) m cx (call_preview env m a)"
    using au assms(2) na by (simp add: authorised_def)
  then show ?thesis
    using na plan_floor.process_forced[OF assms(1)] agent_floor.process_forced[OF assms(1)]
      yolo_floor.process_forced[OF assms(1)] by (cases mode) blast+
qed

definition sample_env :: co_env where
  "sample_env = \<lparr> ce_bus = True, ce_dump = (\<lambda>_. ''{}''), ce_reparse = Inr, ce_jeq = (=),
     ce_stod = (\<lambda>_. None), ce_hash = id, ce_fs = \<lparr> fs_canon = Some, fs_regex = (\<lambda>_ _. False) \<rparr>,
     ce_iso = [], ce_now = 0, ce_duration = 1, ce_thread = 0, ce_id = nat_str, ce_approval_id = ''q'' \<rparr>"

lemma coordinator_respects_approval_floor_witness:
  "''fs.delete'' = md_name sample_meta \<and> (\<exists>f. Some (\<lambda>rq t. rq_tool_name rq = ''fs.delete'') = Some f \<and>
    f (mk_request sample_meta sample_ctx (call_preview sample_env sample_meta [])
        (approval_request_id ''q'' sample_ctx) 0) (300000 :: int))"
proof -
  let ?co = "\<lparr> co_policy = Some (policy_create Yolo), co_callback = Some (\<lambda>rq t. rq_tool_name rq = ''fs.delete''),
     co_timeout = 300000, co_hooks = None \<rparr>"
  have f: "forced sample_meta" by (simp add: forced_def sample_meta_def)
  have p: "parse_layer ''workflow'' = Inr Workflow" by (simp add: parse_layer_def iequals_def)
  have "Call_tool ''fs.delete'' [] \<in> set (fst (coordinator_execute sample_env ?co (\<lambda>_ _. JNull) sample_meta
      sample_ctx [] False no_nesting))"
    by (simp add: coordinator_execute_def guard_enter_def no_nesting_def execute_guarded_def
        validate_args_def and_then_def step_business_def sample_meta_def authorise_and_call_def
        sample_ctx_def p process_request_def yolo_defs forced_def mk_request_def write_back_def split_beta
        Let_def)
  from coordinator_respects_approval_floor[OF f _ this, of Yolo] show ?thesis
    by (simp add: sample_env_def)
qed

text \<open>In every sequence of entered and left scopes on a thread, the nesting depth is the height of
  the call stack, never exceeds two, and no tool is active twice; and a call restores the state it
  found, whether the tool ran, was refused, or the guard threw.\<close>

theorem nesting_bounded:
  "ne_depth (fold guard_apply ops no_nesting) = length (ne_stack (fold guard_apply ops no_nesting)) \<and>
   ne_depth (fold guard_apply ops no_nesting) \<le> 2 \<and> distinct (ne_stack (fold guard_apply ops no_nesting)) \<and>
   snd (snd (coordinator_execute env co call m cx args cancelled n)) = n"
proof -
  have "nesting_inv (fold guard_apply ops s)" if "nesting_inv s" for s
    using that by (induction ops arbitrary: s) (simp_all add: nesting_inv_apply)
  moreover have "nesting_inv no_nesting" by (simp add: nesting_inv_def no_nesting_def)
  ultimately have "nesting_inv (fold guard_apply ops no_nesting)" by blast
  moreover have "snd (snd (coordinator_execute env co call m cx args cancelled n)) = n"
    by (cases "guard_enter (md_name m) n")
      (simp_all add: coordinator_execute_def split_beta guard_enter_exit)
  ultimately show ?thesis by (simp add: nesting_inv_def)
qed

definition enum_schema :: "string \<Rightarrow> string \<Rightarrow> json" where
  "enum_schema k v = JObj [(''properties'', JObj [(k, JObj [(''enum'', JArr [JStr v]), (''type'', JStr ''string'')])])]"

lemma enum_schema_errors:
  "validate_node jeq dump (enum_schema k v) (JObj [(k, JStr w)]) [] =
     (if jeq (JStr v) (JStr w) then [] else [schema_error (ptr_append [] k) ''value not in enum''])"
  by (simp add: enum_schema_def validate_node.simps[of _ _ "JObj [(''properties'', p)]" for p]
      validate_node.simps[of _ _ "JObj [(''enum'', p), (''type'', q)]" for p q] type_ok_def
      enum_errors_def required_errors_def)

lemma schema_error_message [simp]: "error_message_of (schema_error p msg) = msg"
  by (simp add: error_message_of_def schema_error_def jobj_def)

text \<open>An enum constraint on a string argument is enforced in Warn mode but not in Strict mode: the
  first step defers the violation, Strict only checks types afterwards, and so admits a value the
  schema excludes that Warn rejects.\<close>

theorem strict_mode_skips_enum:
  assumes "ce_reparse env (enum_schema k v) = Inr (enum_schema k v)"
    "\<not> ce_jeq env (JStr v) (JStr w)" "ce_jeq env (JObj [(k, JStr w)]) (JObj [(k, JStr w)])"
    "md_input_schema m = Some (enum_schema k v)" "md_category m \<noteq> Execute"
  shows "snd (validate_args env (m \<lparr> md_validation_mode := Strict \<rparr>) cx [(k, w)]) = Inr (Inr [(k, JStr w)]) \<and>
    (\<exists>r. snd (validate_args env (m \<lparr> md_validation_mode := Warn \<rparr>) cx [(k, w)]) = Inr (Inl r) \<and>
       tr_error_code r = Some InvalidParams)"
proof -
  have d: "deferrable (schema_error p ''value not in enum'')" for p by (simp add: deferrable_def)
  have ps: "property_schema (enum_schema k v) k = Some (JObj [(''enum'', JArr [JStr v]), (''type'', JStr ''string'')])"
    by (simp add: property_schema_def enum_schema_def)
  have t: "check_type (enum_schema k v) k (JStr w)"
    by (simp add: check_type_def ps json_type_matches_def)
  have c: "coerce_field env (enum_schema k v) k (JStr w) = (JStr w, [])"
    by (simp add: coerce_field_def ps Let_def)
  have r: "get_required_fields (enum_schema k v) = []" by (simp add: get_required_fields_def enum_schema_def)
  show ?thesis
    using assms d t c r
    by (simp add: validate_args_def and_then_def step_schema_def step_coercion_def step_required_def
        step_business_def enum_schema_errors has_deferred_def coerce_args_def reject_def tr_error_def Let_def)
qed

lemma strict_mode_skips_enum_witness:
  "snd (validate_args sample_env (sample_meta \<lparr> md_input_schema := Some (enum_schema ''m'' ''r''),
      md_validation_mode := Strict \<rparr>) sample_ctx [(''m'', ''w'')]) = Inr (Inr [(''m'', JStr ''w'')])"
proof -
  let ?m = "sample_meta \<lparr> md_input_schema := Some (enum_schema ''m'' ''r'') \<rparr>"
  have "ce_reparse sample_env (enum_schema ''m'' ''r'') = Inr (enum_schema ''m'' ''r'')"
    "\<not> ce_jeq sample_env (JStr ''r'') (JStr ''w'')"
    "ce_jeq sample_env (JObj [(''m'', JStr ''w'')]) (JObj [(''m'', JStr ''w'')])"
    "md_input_schema ?m = Some (enum_schema ''m'' ''r'')" "md_category ?m \<noteq> Execute"
    by (simp_all add: sample_env_def sample_meta_def)
  from strict_mode_skips_enum[OF this, of sample_ctx] show ?thesis by simp
qed

end
