(* ===== verification/Nodes.thy ===== *)
theory Nodes
  imports HF_Prelude Budget Tools
begin

text \<open>
  The graph data of the engine (src/core/types/node.h, src/core/types/resource.h,
  src/modules/executor/node.cpp, src/modules/system/system_nodes.cpp): nodes, parsed graphs,
  cloning and the system nodes, and the state-and-exception combinator the executor and the
  scheduler are written with.  A node is the record of the Node base class with the fields of its
  subclass in \<open>nd_body\<close>; the type tag is the one the subclass constructor stores.
\<close>

section \<open>Computations with state and exceptions\<close>

type_synonym ('a, 's) act = "'s \<Rightarrow> 'a res \<times> 's"

definition sret :: "'a \<Rightarrow> ('a, 's) act" where
  "sret x s = (Inr x, s)"

definition sthrow :: "exc \<Rightarrow> ('a, 's) act" where
  "sthrow e s = (Inl e, s)"

definition sbind :: "('a, 's) act \<Rightarrow> ('a \<Rightarrow> ('b, 's) act) \<Rightarrow> ('b, 's) act" where
  "sbind m k s = (case m s of (Inl e, s') \<Rightarrow> (Inl e, s') | (Inr x, s') \<Rightarrow> k x s')"

definition slift :: "'a res \<Rightarrow> ('a, 's) act" where
  "slift r s = (r, s)"

definition smod :: "('s \<Rightarrow> 's) \<Rightarrow> (unit, 's) act" where
  "smod f s = (Inr (), f s)"

definition sget :: "('s \<Rightarrow> 'a) \<Rightarrow> ('a, 's) act" where
  "sget f s = (Inr (f s), s)"

lemmas act_defs = sret_def sthrow_def sbind_def slift_def smod_def sget_def

lemma sret_simp [simp, res_simps]: "sret x s = (Inr x, s)" by (simp add: sret_def)

lemma sthrow_simp [simp, res_simps]: "sthrow e s = (Inl e, s)" by (simp add: sthrow_def)

lemma slift_simp [simp, res_simps]: "slift r s = (r, s)" by (simp add: slift_def)

lemma smod_simp [simp, res_simps]: "smod f s = (Inr (), f s)" by (simp add: smod_def)

lemma sget_simp [simp, res_simps]: "sget f s = (Inr (f s), s)" by (simp add: sget_def)

lemma sbind_eq [res_simps]:
  "sbind m k s = (case fst (m s) of Inl e \<Rightarrow> (Inl e, snd (m s)) | Inr x \<Rightarrow> k x (snd (m s)))"
  by (simp add: sbind_def split: prod.splits sum.splits)

lemma sbind_Inr_conv:
  "sbind m k s = (Inr y, s'') \<longleftrightarrow> (\<exists>x s'. m s = (Inr x, s') \<and> k x s' = (Inr y, s''))"
  by (auto simp: sbind_def split: prod.splits sum.splits)

lemma sbind_assoc: "sbind (sbind m k) h = sbind m (\<lambda>x. sbind (k x) h)"
  by (rule ext) (simp add: sbind_def split: prod.splits sum.splits)

text \<open>A computation keeps a property of the state, whatever it returns.\<close>

definition keeps :: "('s \<Rightarrow> bool) \<Rightarrow> ('a, 's) act \<Rightarrow> bool" where
  "keeps P m \<longleftrightarrow> (\<forall>s. P s \<longrightarrow> P (snd (m s)))"

lemma keeps_simps [intro, simp]:
  "keeps P (sret x)" "keeps P (sthrow e)" "keeps P (slift r)" "keeps P (sget f)"
  by (simp_all add: keeps_def)

lemma keeps_smod [intro]: "(\<And>s. P s \<Longrightarrow> P (f s)) \<Longrightarrow> keeps P (smod f)"
  by (simp add: keeps_def)

lemma keeps_sbind [intro]: "keeps P m \<Longrightarrow> (\<And>x. keeps P (k x)) \<Longrightarrow> keeps P (sbind m k)"
  unfolding keeps_def sbind_eq by (auto split: sum.splits)

text \<open>\<open>j.value(k, d)\<close> for a bool and for a string, and \<open>get<std::string>()\<close>, with their type errors.\<close>

definition jvalue_bool :: "string \<Rightarrow> bool \<Rightarrow> json \<Rightarrow> bool res" where
  "jvalue_bool k d j = (case j of
       JObj kvs \<Rightarrow> (case map_of kvs k of
           None \<Rightarrow> Inr d
         | Some (JBool b) \<Rightarrow> Inr b
         | Some _ \<Rightarrow> Inl (Json_error ''type_error.302''))
     | _ \<Rightarrow> Inl (Json_error ''type_error.306''))"

definition jvalue_str :: "string \<Rightarrow> string \<Rightarrow> json \<Rightarrow> string res" where
  "jvalue_str k d j = (case j of
       JObj kvs \<Rightarrow> (case map_of kvs k of
           None \<Rightarrow> Inr d
         | Some (JStr s) \<Rightarrow> Inr s
         | Some _ \<Rightarrow> Inl (Json_error ''type_error.302''))
     | _ \<Rightarrow> Inl (Json_error ''type_error.306''))"

fun jget_str :: "json \<Rightarrow> string res" where
  "jget_str (JStr s) = Inr s"
| "jget_str _ = Inl (Json_error ''type_error.302'')"

fun jget_bool :: "json \<Rightarrow> bool res" where
  "jget_bool (JBool b) = Inr b"
| "jget_bool _ = Inl (Json_error ''type_error.302'')"

section \<open>Nodes\<close>

datatype node_type =
    START | END | ASSIGN | DSL_CALL | TOOL_CALL | RESOURCE | FORK | JOIN
  | GENERATE_SUBGRAPH | ASSERT | YIELD

primrec node_type_number :: "node_type \<Rightarrow> nat" where
  "node_type_number START = 0"
| "node_type_number END = 1"
| "node_type_number ASSIGN = 2"
| "node_type_number DSL_CALL = 3"
| "node_type_number TOOL_CALL = 4"
| "node_type_number RESOURCE = 5"
| "node_type_number FORK = 6"
| "node_type_number JOIN = 7"
| "node_type_number GENERATE_SUBGRAPH = 8"
| "node_type_number ASSERT = 9"
| "node_type_number YIELD = 10"

datatype yield_mode = NEXT | CONTINUE | STOP

datatype resource_type = FILE | POSTGRES | MYSQL | SQLITE | API_ENDPOINT | VECTOR_STORE | CUSTOM

primrec resource_type_number :: "resource_type \<Rightarrow> nat" where
  "resource_type_number FILE = 0"
| "resource_type_number POSTGRES = 1"
| "resource_type_number MYSQL = 2"
| "resource_type_number SQLITE = 3"
| "resource_type_number API_ENDPOINT = 4"
| "resource_type_number VECTOR_STORE = 5"
| "resource_type_number CUSTOM = 6"

text \<open>The fields each subclass adds.  The unordered maps of assignments and arguments are listed in
  their iteration order.\<close>

datatype node_body =
    StartNode
  | EndNode
  | AssignNode "(string \<times> string) list"
  | DSLNode string string llm_config "string list"
  | ToolCallNode string "(string \<times> string) list" "string list"
  | ResourceNode resource_type string string
  | ForkNode "string list"
  | JoinNode "string list" string
  | GenerateSubgraphNode string "string list" string "string option"
  | AssertNode string "string option"
  | YieldNode string yield_mode string

record node =
  nd_path :: string
  nd_next :: "string list"
  nd_metadata :: json
  nd_signature :: "string option"
  nd_permissions :: "string list"
  nd_body :: node_body

primrec body_type :: "node_body \<Rightarrow> node_type" where
  "body_type StartNode = START"
| "body_type EndNode = END"
| "body_type (AssignNode a) = ASSIGN"
| "body_type (DSLNode p t c ks) = DSL_CALL"
| "body_type (ToolCallNode t a ks) = TOOL_CALL"
| "body_type (ResourceNode t u s) = RESOURCE"
| "body_type (ForkNode bs) = FORK"
| "body_type (JoinNode ws st) = JOIN"
| "body_type (GenerateSubgraphNode p ks v j) = GENERATE_SUBGRAPH"
| "body_type (AssertNode c f) = ASSERT"
| "body_type (YieldNode v m st) = YIELD"

definition nd_type :: "node \<Rightarrow> node_type" where
  "nd_type nd = body_type (nd_body nd)"

lemma nd_type_conv:
  "nd_type nd = FORK \<longleftrightarrow> (\<exists>bs. nd_body nd = ForkNode bs)"
  "nd_type nd = JOIN \<longleftrightarrow> (\<exists>ws st. nd_body nd = JoinNode ws st)"
  "nd_type nd = END \<longleftrightarrow> nd_body nd = EndNode"
  by (cases "nd_body nd"; simp add: nd_type_def)+

text \<open>The Node constructor with its default arguments.\<close>

definition mk_node :: "string \<Rightarrow> node_body \<Rightarrow> string list \<Rightarrow> node" where
  "mk_node path body next = \<lparr> nd_path = path, nd_next = next, nd_metadata = jempty,
     nd_signature = None, nd_permissions = [], nd_body = body \<rparr>"

text \<open>\<open>clone\<close>: every subclass copies the base fields, except ResourceNode, whose constructor takes no
  successors and which copies neither signature nor permissions.\<close>

definition clone :: "node \<Rightarrow> node" where
  "clone nd = (case nd_body nd of
       ResourceNode t u s \<Rightarrow> (mk_node (nd_path nd) (nd_body nd) []) \<lparr> nd_metadata := nd_metadata nd \<rparr>
     | _ \<Rightarrow> \<lparr> nd_path = nd_path nd, nd_next = nd_next nd, nd_metadata = nd_metadata nd,
             nd_signature = nd_signature nd, nd_permissions = nd_permissions nd, nd_body = nd_body nd \<rparr>)"

lemma clone_path [simp]: "nd_path (clone nd) = nd_path nd"
  by (cases "nd_body nd") (simp_all add: clone_def mk_node_def)

lemma clone_body [simp]: "nd_body (clone nd) = nd_body nd"
  by (cases "nd_body nd") (simp_all add: clone_def mk_node_def)

lemma clone_type [simp]: "nd_type (clone nd) = nd_type nd"
  by (simp add: nd_type_def)

lemma clone_idem [simp]: "clone (clone nd) = clone nd"
  by (cases "nd_body nd") (simp_all add: clone_def mk_node_def)

lemma clone_faithful: "nd_type nd \<noteq> RESOURCE \<Longrightarrow> clone nd = nd"
  by (cases "nd_body nd") (simp_all add: clone_def nd_type_def)

lemma clone_resource_drops_next: "nd_type nd = RESOURCE \<Longrightarrow> nd_next (clone nd) = []"
  by (cases "nd_body nd") (simp_all add: clone_def mk_node_def nd_type_def)

section \<open>Parsed graphs\<close>

record parsed_graph =
  pg_nodes :: "node list"
  pg_path :: string
  pg_metadata :: json
  pg_budget :: "execution_budget option"
  pg_signature :: "string option"
  pg_permissions :: "string list"
  pg_is_standard_library :: bool
  pg_output_schema :: "json option"

definition empty_graph :: parsed_graph where
  "empty_graph = \<lparr> pg_nodes = [], pg_path = [], pg_metadata = JNull, pg_budget = None,
     pg_signature = None, pg_permissions = [], pg_is_standard_library = False, pg_output_schema = None \<rparr>"

section \<open>Resources\<close>

record resource =
  rs_path :: string
  rs_type :: resource_type
  rs_uri :: string
  rs_scope :: string
  rs_metadata :: json

text \<open>The table of ResourceManager, listed by key.\<close>

type_synonym resource_table = "(string \<times> resource) list"

definition register_resource :: "resource \<Rightarrow> resource_table \<Rightarrow> resource_table" where
  "register_resource r t = kv_ins (rs_path r) r t"

definition has_resource :: "string \<Rightarrow> resource_table \<Rightarrow> bool" where
  "has_resource p t \<longleftrightarrow> map_of t p \<noteq> None"

definition get_resource :: "string \<Rightarrow> resource_table \<Rightarrow> resource option" where
  "get_resource p t = map_of t p"

definition resource_info :: "resource \<Rightarrow> json" where
  "resource_info r = jobj [(''uri'', JStr (rs_uri r)),
     (''type'', JInt (int (resource_type_number (rs_type r)))), (''scope'', JStr (rs_scope r))]"

definition get_resources_context :: "resource_table \<Rightarrow> json" where
  "get_resources_context t = jobj (map (\<lambda>(p, r). (p, resource_info r)) t)"

section \<open>System nodes\<close>

definition system_end :: "string \<Rightarrow> string \<Rightarrow> node" where
  "system_end path mode = (mk_node path EndNode [])
     \<lparr> nd_metadata := jobj [(''termination_mode'', JStr mode)] \<rparr>"

definition create_system_nodes :: "node list" where
  "create_system_nodes = [system_end ''/__system__/budget_exceeded'' ''hard'',
     system_end ''/__system__/end_soft'' ''soft'', system_end ''/__system__/noop'' ''soft'']"

definition is_system_path :: "string \<Rightarrow> bool" where
  "is_system_path p = starts_with ''/__system__/'' p"

end
