(* ===== verification/Executor.thy ===== *)
theory Executor
  imports Nodes Coordinator
begin

text \<open>
  Node execution (src/modules/executor/node_executor.cpp, yield_stream_bridge.cpp,
  signature_validator.cpp).  The state of a computation is the executor's tool-call counter, the
  effects it has produced (bus events, stream chunks, registered graphs) and a world of arbitrary
  type holding whatever the registry, the tools, the provider and the streams keep.  Template
  rendering (inja), JSON printing, std::stod and the Markdown parser are functions of the
  environment.  InjaTemplateRenderer::render turns every inja error into a runtime_error, so the
  executor's own handlers for inja::RenderError and inja::InjaError are never entered and have no
  counterpart here.
\<close>

section \<open>Signatures\<close>

datatype signature_mode = Sig_strict | Sig_warn | Sig_ignore

record signature_ast =
  sig_inputs :: "(string \<times> string) list"
  sig_outputs :: "(string \<times> string) list"

definition type_whitelist :: "string list" where
  "type_whitelist = [''string'', ''number'', ''boolean'', ''object'', ''array'', ''integer'', ''null'']"

definition is_valid_type :: "string \<Rightarrow> bool" where
  "is_valid_type t \<longleftrightarrow> t \<in> set type_whitelist"

definition enforce_mode :: "signature_mode \<Rightarrow> string \<Rightarrow> unit res" where
  "enforce_mode mode reason = (case mode of
       Sig_strict \<Rightarrow> Inl (Invalid_argument (''SignatureValidator (strict): '' @ reason))
     | _ \<Rightarrow> Inr ())"

text \<open>The two capture groups of \<open>^\(([^)]*)\)\s*->\s*\{([^}]*)\}\s*$\<close>.\<close>

definition signature_groups :: "string \<Rightarrow> (string \<times> string) option" where
  "signature_groups s = (case s of
       [] \<Rightarrow> None
     | c # s1 \<Rightarrow>
         if c \<noteq> CHR ''('' then None
         else let ins = takeWhile (\<lambda>x. x \<noteq> CHR '')'') s1; s2 = drop (length ins) s1 in
           if s2 = [] then None
           else let s3 = dropWhile is_space (tl s2) in
             if \<not> starts_with ''->'' s3 then None
             else let s4 = dropWhile is_space (drop 2 s3) in
               if s4 = [] \<or> hd s4 \<noteq> CHR ''{'' then None
               else let outs = takeWhile (\<lambda>x. x \<noteq> CHR ''}'') (tl s4); s5 = drop (length outs) (tl s4) in
                 if s5 = [] \<or> dropWhile is_space (tl s5) \<noteq> [] then None
                 else Some (ins, outs))"

text \<open>One attempt at a match of \<open>(\w+)\s*:\s*(\w+)\<close> at the first word of the input, with the input left
  after it; and the successive matches.\<close>

definition next_param :: "string \<Rightarrow> ((string \<times> string) option \<times> string) option" where
  "next_param s =
     (let s1 = dropWhile (\<lambda>c. \<not> is_word c) s; s2 = dropWhile is_word s1
      in if takeWhile is_word s1 = [] then None
         else let s3 = dropWhile is_space s2; s4 = dropWhile is_space (tl s3) in
           if s3 = [] \<or> hd s3 \<noteq> CHR '':'' \<or> takeWhile is_word s4 = [] then Some (None, s2)
           else Some (Some (takeWhile is_word s1, takeWhile is_word s4), dropWhile is_word s4))"

lemma next_param_shorter:
  assumes "next_param s = Some (r, s')"
  shows "length s' < length s"
proof -
  define s1 where "s1 = dropWhile (\<lambda>c. \<not> is_word c) s"
  define s2 where "s2 = dropWhile is_word s1"
  define s3 where "s3 = dropWhile is_space s2"
  define s4 where "s4 = dropWhile is_space (tl s3)"
  have ne: "takeWhile is_word s1 \<noteq> []" and s': "s' = s2 \<or> s' = dropWhile is_word s4"
    using assms unfolding next_param_def Let_def s1_def [symmetric] s2_def [symmetric]
      s3_def [symmetric] s4_def [symmetric] by (auto split: if_splits)
  have 1: "length s1 \<le> length s" unfolding s1_def by (rule length_dropWhile_le)
  have "length s1 = length (takeWhile is_word s1) + length s2"
    unfolding s2_def by (metis length_append takeWhile_dropWhile_id)
  then have 2: "length s2 < length s1" using ne by simp
  have 3: "length s3 \<le> length s2" unfolding s3_def by (rule length_dropWhile_le)
  have 4: "length s4 \<le> length (tl s3)" unfolding s4_def by (rule length_dropWhile_le)
  have "length (dropWhile is_word s4) \<le> length s4" by (rule length_dropWhile_le)
  then show ?thesis using s' 1 2 3 4 by auto
qed

function signature_params :: "string \<Rightarrow> (string \<times> string) list" where
  "signature_params s = (case next_param s of
       None \<Rightarrow> []
     | Some (None, s') \<Rightarrow> signature_params s'
     | Some (Some p, s') \<Rightarrow> p # signature_params s')"
  by pat_completeness auto
termination
  by (relation "measure length") (auto dest: next_param_shorter)

declare signature_params.simps [simp del]

fun check_types :: "signature_mode \<Rightarrow> string \<Rightarrow> (string \<times> string) list \<Rightarrow> unit res" where
  "check_types mode what' [] = Inr ()"
| "check_types mode what' ((n, t) # ps) =
     (if is_valid_type t then check_types mode what' ps
      else ebind (enforce_mode mode (''invalid '' @ what' @ '' type '' @ quoted t @ '' in signature''))
             (\<lambda>_. check_types mode what' ps))"

definition parse_signature_ast :: "signature_mode \<Rightarrow> string \<Rightarrow> signature_ast res" where
  "parse_signature_ast mode s = (case signature_groups s of
       None \<Rightarrow> ebind (enforce_mode mode (''signature format invalid: '' @ s))
                 (\<lambda>_. Inr \<lparr> sig_inputs = [], sig_outputs = [] \<rparr>)
     | Some (ins, outs) \<Rightarrow>
         ebind (check_types mode ''input'' (signature_params ins)) (\<lambda>_.
         ebind (check_types mode ''output'' (signature_params outs)) (\<lambda>_.
         Inr \<lparr> sig_inputs = signature_params ins, sig_outputs = signature_params outs \<rparr>)))"

section \<open>The stream bridge\<close>

record 'w stream_ops =
  so_active :: "'w \<Rightarrow> bool"
  so_stop_requested :: "'w \<Rightarrow> bool"
  so_next :: "'w \<Rightarrow> string option \<times> 'w"

definition pull_single :: "'w stream_ops \<Rightarrow> 'w \<Rightarrow> string option \<times> 'w" where
  "pull_single str w =
     (if \<not> so_active str w then (None, w)
      else if so_stop_requested str w then (None, w)
      else so_next str w)"

text \<open>The exception of an exhausted budget carries the tokens consumed so far.\<close>

fun pull_loop :: "'w stream_ops \<Rightarrow> ('w \<Rightarrow> bool) \<Rightarrow> nat \<Rightarrow> string list \<Rightarrow> 'w \<Rightarrow>
    ((string \<times> string list) + string list) \<times> 'w" where
  "pull_loop str ok 0 consumed w = (Inr consumed, w)"
| "pull_loop str ok (Suc k) consumed w =
     (if so_stop_requested str w then (Inr consumed, w)
      else if \<not> ok w
      then (Inl (''Budget exceeded during YIELD CONTINUE mode after '' @ nat_str (length consumed) @
                 '' tokens'', consumed), w)
      else if \<not> so_active str w then (Inr consumed, w)
      else case so_next str w of
             (None, w') \<Rightarrow> (Inr consumed, w')
           | (Some t, w') \<Rightarrow> pull_loop str ok k (consumed @ [t]) w')"

section \<open>Environment and state of the executor\<close>

text \<open>\<open>xe_provider\<close> is None for a null provider: generate, with the error's message on the left, and
  generate_stream, None for a null stream.  \<open>xe_uninit_layer\<close> is the minimum layer of the metadata the
  executor builds, which it leaves uninitialised.\<close>

record 'w executor_env =
  xe_inja :: "string \<Rightarrow> json \<Rightarrow> string + string"
  xe_dump :: "json \<Rightarrow> string"
  xe_f2u :: "64 word \<Rightarrow> 64 word"
  xe_stod :: "string \<Rightarrow> 64 word option"
  xe_has_tool :: "string \<Rightarrow> 'w \<Rightarrow> bool"
  xe_call_tool :: "string \<Rightarrow> tool_args \<Rightarrow> 'w \<Rightarrow> json res \<times> 'w"
  xe_call_llm_tool :: "string \<Rightarrow> string \<Rightarrow> llm_config \<Rightarrow> 'w \<Rightarrow> json res \<times> 'w"
  xe_coordinator :: "(tool_metadata \<Rightarrow> tool_call_context \<Rightarrow> tool_args \<Rightarrow> 'w \<Rightarrow> tool_result res \<times> 'w) option"
  xe_approval :: "(tool_metadata \<Rightarrow> tool_call_context \<Rightarrow> tool_preview \<Rightarrow> 'w \<Rightarrow> bool res \<times> 'w) option"
  xe_provider :: "((string \<Rightarrow> llm_config \<Rightarrow> 'w \<Rightarrow> (string + string) \<times> 'w) \<times>
                   (string \<Rightarrow> llm_config \<Rightarrow> 'w \<Rightarrow> 'w stream_ops option \<times> 'w)) option"
  xe_parse :: "string \<Rightarrow> parsed_graph list res"
  xe_sink :: bool
  xe_bus :: bool
  xe_append :: bool
  xe_now :: "'w \<Rightarrow> int"
  xe_steady_ms :: "'w \<Rightarrow> int"
  xe_uninit_layer :: layer_profile

datatype node_effect =
    Bus_emit bus_event
  | Sink_push string
  | Sink_close
  | Append_graph parsed_graph

record 'w exec_state =
  xs_world :: 'w
  xs_tool_call_count :: nat
  xs_effects :: "node_effect list"

definition on_world :: "('w \<Rightarrow> 'a \<times> 'w) \<Rightarrow> ('a, 'w exec_state) act" where
  "on_world f st = (let (r, w) = f (xs_world st) in (Inr r, st \<lparr> xs_world := w \<rparr>))"

definition on_world_res :: "('w \<Rightarrow> 'a res \<times> 'w) \<Rightarrow> ('a, 'w exec_state) act" where
  "on_world_res f st = (let (r, w) = f (xs_world st) in (r, st \<lparr> xs_world := w \<rparr>))"

definition effect :: "node_effect list \<Rightarrow> (unit, 'w exec_state) act" where
  "effect es = smod (\<lambda>st. st \<lparr> xs_effects := xs_effects st @ es \<rparr>)"

definition bus_effect :: "'w executor_env \<Rightarrow> event_builder \<Rightarrow> (unit, 'w exec_state) act" where
  "bus_effect env b st =
     (if xe_bus env then effect [Bus_emit (eb_build (xe_now env (xs_world st)) b)] st else (Inr (), st))"

text \<open>InjaTemplateRenderer::render.\<close>

definition render :: "'w executor_env \<Rightarrow> string \<Rightarrow> json \<Rightarrow> string res" where
  "render env tmpl ctx = (case xe_inja env tmpl ctx of
       Inl m \<Rightarrow> Inl (Runtime_error (''Template render error: '' @ m)) | Inr s \<Rightarrow> Inr s)"

section \<open>Node execution\<close>

text \<open>\<open>substr(6)\<close> of a permission of five characters is out of range.\<close>

fun check_permissions :: "'w executor_env \<Rightarrow> 'w \<Rightarrow> string list \<Rightarrow> string \<Rightarrow> unit res" where
  "check_permissions env w [] path = Inr ()"
| "check_permissions env w (perm # perms) path =
     (if take 5 perm = ''tool:''
      then if length perm < 6 then Inl (Out_of_range ''basic_string::substr'')
           else if \<not> xe_has_tool env (drop 6 perm) w
           then Inl (Runtime_error (''Permission denied: Tool '' @ quoted (drop 6 perm) @
                      '' not available for node: '' @ path))
           else check_permissions env w perms path
      else check_permissions env w perms path)"

fun execute_assign :: "'w executor_env \<Rightarrow> (string \<times> string) list \<Rightarrow> json \<Rightarrow> json \<Rightarrow> json res" where
  "execute_assign env [] ctx new = Inr new"
| "execute_assign env ((key, tmpl) # as) ctx new =
     ebind (render env tmpl ctx) (\<lambda>v. ebind (jput key (JStr v) new) (execute_assign env as ctx))"

text \<open>The value of the first output key from the LLM tool: the reply must report success and hold a
  text that is neither null nor blank.\<close>

definition blank_reply :: "json \<Rightarrow> bool" where
  "blank_reply t = (case t of JNull \<Rightarrow> True | JStr s \<Rightarrow> s = [] \<or> list_all is_space s | _ \<Rightarrow> False)"

definition llm_reply_text :: "string \<Rightarrow> json \<Rightarrow> string res" where
  "llm_reply_text blank_message reply =
     ebind (jvalue_bool ''success'' False reply) (\<lambda>ok.
       if \<not> ok then ebind (jvalue_str ''error'' ''Unknown error'' reply)
         (\<lambda>m. Inl (Runtime_error (''LLM generation failed: '' @ m)))
       else let t = (case jlookup ''text'' reply of None \<Rightarrow> JNull | Some t \<Rightarrow> t)
         in if blank_reply t then Inl (Runtime_error blank_message) else jget_str t)"

definition blank_stream_message :: "string \<Rightarrow> string \<Rightarrow> string" where
  "blank_stream_message path key = ''LLM call returned null/empty/whitespace response for node '' @
     quoted path @ '' output_key '' @ quoted key @
     '' (stream path). Check provider model availability or response format.''"

definition blank_message :: "string \<Rightarrow> string \<Rightarrow> string" where
  "blank_message path key = ''LLM call returned null/empty/whitespace response for node '' @
     quoted path @ '' output_key '' @ quoted key @
     ''. Check provider model availability, prompt template, or response format.''"

definition stream_requested :: "node \<Rightarrow> bool" where
  "stream_requested nd \<longleftrightarrow> jlookup ''stream'' (nd_metadata nd) = Some (JBool True)"

text \<open>The text in chunks of \<open>kStreamChunkSize\<close> = 64 characters.\<close>

fun chunks64 :: "string \<Rightarrow> string list" where
  "chunks64 [] = []"
| "chunks64 (c # cs) = take 64 (c # cs) # chunks64 (drop 64 (c # cs))"

definition push_text :: "string \<Rightarrow> (unit, 'w exec_state) act" where
  "push_text text = effect (map Sink_push (chunks64 text) @ [Sink_close])"

definition put_ctx :: "string \<Rightarrow> json \<Rightarrow> json \<Rightarrow> (json, 'w exec_state) act" where
  "put_ctx key v ctx = slift (jput key v ctx)"

definition llm_output :: "'w executor_env \<Rightarrow> string \<Rightarrow> string \<Rightarrow> llm_config \<Rightarrow> string \<Rightarrow> json \<Rightarrow>
    (string, 'w exec_state) act" where
  "llm_output env prompt tool params message ctx =
     sbind (slift (render env prompt ctx)) (\<lambda>p.
     sbind (on_world_res (xe_call_llm_tool env tool p params)) (\<lambda>reply.
     slift (llm_reply_text message reply)))"

definition dsl_stream :: "'w executor_env \<Rightarrow> node \<Rightarrow> string \<Rightarrow> string \<Rightarrow> llm_config \<Rightarrow> string \<Rightarrow> json \<Rightarrow>
    (json, 'w exec_state) act" where
  "dsl_stream env nd prompt tool params key ctx =
     sbind (case jlookup key ctx of
              Some v \<Rightarrow> put_ctx key v ctx
            | None \<Rightarrow> sbind (llm_output env prompt tool params (blank_stream_message (nd_path nd) key) ctx)
                        (\<lambda>t. put_ctx key (JStr t) ctx))
       (\<lambda>new. sbind (push_text (xe_dump env (case jlookup key new of None \<Rightarrow> JNull | Some v \<Rightarrow> v)))
       (\<lambda>_. sret new))"

definition dsl_call :: "'w executor_env \<Rightarrow> node \<Rightarrow> string \<Rightarrow> string \<Rightarrow> llm_config \<Rightarrow> string \<Rightarrow> json \<Rightarrow>
    (json, 'w exec_state) act" where
  "dsl_call env nd prompt tool params key ctx = (case jlookup key ctx of
       Some v \<Rightarrow> put_ctx key v ctx
     | None \<Rightarrow>
         sbind (bus_effect env (eb_meta (jobj [(''prompt'', JStr [])])
           (eb_args (jobj [(''node_path'', JStr (nd_path nd)), (''llm_tool_name'', JStr tool)])
             (eb_new ''dsl.call.started'')))) (\<lambda>_.
         sbind (llm_output env prompt tool params (blank_message (nd_path nd) key) ctx) (\<lambda>t.
         sbind (put_ctx key (JStr t) ctx) (\<lambda>new.
         sbind (bus_effect env (eb_meta (jobj [(''text'', JStr t)])
           (eb_args (jobj [(''node_path'', JStr (nd_path nd)), (''output_key'', JStr key)])
             (eb_new ''dsl.call.completed'')))) (\<lambda>_.
         sret new)))))"

definition execute_dsl_node :: "'w executor_env \<Rightarrow> node \<Rightarrow> string \<Rightarrow> string \<Rightarrow> llm_config \<Rightarrow> string list \<Rightarrow>
    json \<Rightarrow> (json, 'w exec_state) act" where
  "execute_dsl_node env nd prompt tool params keys ctx = (case keys of
       [] \<Rightarrow> sthrow (Runtime_error (''DSLNode has no output_keys: '' @ nd_path nd))
     | key # _ \<Rightarrow>
         if stream_requested nd \<and> xe_sink env then dsl_stream env nd prompt tool params key ctx
         else dsl_call env nd prompt tool params key ctx)"

text \<open>\<open>dispatch_to_tool\<close>: the coordinator if one is set, else the approval handler and the registry,
  else the registry alone.  The context of the call names the node as target path and leaves session,
  caller layer and trace id empty.\<close>

definition dispatch_meta :: "'w executor_env \<Rightarrow> string \<Rightarrow> tool_metadata" where
  "dispatch_meta env tool = \<lparr> md_name = tool, md_description = [], md_domain = [],
     md_category = Execute, md_min_layer = xe_uninit_layer env, md_approval = default_approval_policy,
     md_allowed_layers = [], md_cost_estimate = 0, md_timeout_ms = 30000, md_input_schema = None,
     md_output_schema = None, md_validation_mode = Strict \<rparr>"

definition dispatch_ctx :: "string \<Rightarrow> nat \<Rightarrow> tool_call_context" where
  "dispatch_ctx path cnt = \<lparr> cx_session_id = [], cx_caller_layer = [], cx_target_path = path,
     cx_is_in_fleet_mode = False, cx_call_count = cnt, cx_trace_id = [] \<rparr>"

definition dispatch_preview :: "string \<Rightarrow> string \<Rightarrow> tool_args \<Rightarrow> tool_preview" where
  "dispatch_preview tool path args = \<lparr>
     pv_command_line = tool @ concat (map (\<lambda>(k, v). '' '' @ k @ ''='' @ v) args), pv_diff_text = [],
     pv_affected_paths = [], pv_estimated_sec = 0,
     pv_risk_summary = ''Tool: '' @ tool @ '' at '' @ path, pv_metadata_json = [] \<rparr>"

definition raw_to_result :: "(64 word \<Rightarrow> 64 word) \<Rightarrow> json \<Rightarrow> tool_result res" where
  "raw_to_result f2u raw = (case jlookup ''ok'' raw of
       Some (JBool b) \<Rightarrow> tr_from_json f2u raw | _ \<Rightarrow> Inr (tr_success raw jempty))"

definition call_registry :: "'w executor_env \<Rightarrow> string \<Rightarrow> tool_args \<Rightarrow> (tool_result, 'w exec_state) act" where
  "call_registry env tool args =
     sbind (on_world_res (xe_call_tool env tool args)) (\<lambda>raw. slift (raw_to_result (xe_f2u env) raw))"

definition stamp_result :: "int \<Rightarrow> int \<Rightarrow> tool_args \<Rightarrow> tool_result \<Rightarrow> tool_result" where
  "stamp_result t0 t1 args r = (let r' = r \<lparr> tr_latency_ms := Some (word_of_int (t1 - t0)) \<rparr> in
     case map_of args ''trace_id'' of None \<Rightarrow> r' | Some t \<Rightarrow> r' \<lparr> tr_trace_id := Some t \<rparr>)"

definition dispatch_to_tool :: "'w executor_env \<Rightarrow> string \<Rightarrow> string \<Rightarrow> tool_args \<Rightarrow>
    (tool_result, 'w exec_state) act" where
  "dispatch_to_tool env tool path args =
     sbind (sget xs_tool_call_count) (\<lambda>cnt.
     sbind (smod (\<lambda>st. st \<lparr> xs_tool_call_count := cnt + 1 \<rparr>)) (\<lambda>_.
     sbind (sget (\<lambda>st. xe_steady_ms env (xs_world st))) (\<lambda>t0.
     sbind (case xe_coordinator env of
              Some co \<Rightarrow> on_world_res (co (dispatch_meta env tool) (dispatch_ctx path cnt) args)
            | None \<Rightarrow> (case xe_approval env of
                Some ap \<Rightarrow>
                  sbind (on_world_res (ap (dispatch_meta env tool) (dispatch_ctx path cnt)
                           (dispatch_preview tool path args))) (\<lambda>ok.
                  if \<not> ok then sthrow (Runtime_error (''Tool '' @ quoted tool @
                      '' denied by execution policy at node: '' @ path))
                  else call_registry env tool args)
              | None \<Rightarrow> call_registry env tool args)) (\<lambda>r.
     sbind (sget (\<lambda>st. xe_steady_ms env (xs_world st))) (\<lambda>t1.
     sret (stamp_result t0 t1 args r))))))"

text \<open>\<open>handle_tool_errors\<close>: False asks the caller to skip; every other failure throws.\<close>

definition handle_tool_errors :: "'w executor_env \<Rightarrow> node \<Rightarrow> string \<Rightarrow> tool_result \<Rightarrow>
    (bool, 'w exec_state) act" where
  "handle_tool_errors env nd tool r =
     sbind (slift (jvalue_str ''error_message'' [] (tr_meta r))) (\<lambda>msg.
       let code = (case tr_error_code r of None \<Rightarrow> Unknown | Some c \<Rightarrow> c);
           emit_failed = bus_effect env (eb_from ''execution.failed'' (tr_error code msg
             (jobj [(''node_path'', JStr (nd_path nd)), (''tool_name'', JStr tool)])))
       in case code of
            Retry \<Rightarrow> sbind emit_failed (\<lambda>_. sthrow (Runtime_error (''[RETRY] Tool '' @ quoted tool @ '': '' @ msg)))
          | Abort \<Rightarrow> sbind emit_failed (\<lambda>_. sthrow (Runtime_error (''[ABORT] Tool '' @ quoted tool @ '': '' @ msg)))
          | Skip \<Rightarrow> sret False
          | _ \<Rightarrow> sbind emit_failed (\<lambda>_. sthrow (Runtime_error (''Tool '' @ quoted tool @ '' failed: '' @ msg))))"

fun put_members :: "json \<Rightarrow> string list \<Rightarrow> json \<Rightarrow> json res" where
  "put_members data [] ctx = Inr ctx"
| "put_members data (k # ks) ctx = (case jlookup k data of
       None \<Rightarrow> put_members data ks ctx
     | Some v \<Rightarrow> ebind (jput k v ctx) (put_members data ks))"

definition process_output_keys :: "json \<Rightarrow> string list \<Rightarrow> json \<Rightarrow> json res" where
  "process_output_keys ctx keys data = (case keys of
       [] \<Rightarrow> Inr ctx
     | [k] \<Rightarrow> jput k data ctx
     | k # _ \<Rightarrow> if is_obj data then put_members data keys ctx else jput k data ctx)"

fun render_args :: "'w executor_env \<Rightarrow> (string \<times> string) list \<Rightarrow> json \<Rightarrow> tool_args res" where
  "render_args env [] ctx = Inr []"
| "render_args env ((k, t) # as) ctx =
     ebind (render env t ctx) (\<lambda>v. ebind (render_args env as ctx) (\<lambda>r. Inr ((k, v) # r)))"

definition execute_tool_call :: "'w executor_env \<Rightarrow> node \<Rightarrow> string \<Rightarrow> (string \<times> string) list \<Rightarrow> string list \<Rightarrow>
    json \<Rightarrow> (json, 'w exec_state) act" where
  "execute_tool_call env nd tool args keys ctx =
     sbind (slift (render_args env args ctx)) (\<lambda>rargs.
     sbind (slift (render env tool ctx)) (\<lambda>name.
     sbind (sget (\<lambda>st. xe_has_tool env name (xs_world st))) (\<lambda>known.
     if \<not> known then sthrow (Runtime_error (''Tool '' @ quoted name @ '' not registered for node: '' @ nd_path nd))
     else
       sbind (dispatch_to_tool env name (nd_path nd) rargs) (\<lambda>r.
       sbind (if tr_ok r then sret True else handle_tool_errors env nd tool r) (\<lambda>go.
       if \<not> go then sret ctx
       else
         sbind (slift (process_output_keys ctx keys (tr_data r))) (\<lambda>new.
         sbind (if stream_requested nd \<and> xe_sink env then push_text (xe_dump env (tr_data r))
                else bus_effect env (eb_from ''tool.completed'' r)) (\<lambda>_.
         sret new)))))))"

text \<open>A double is zero when all bits but the sign are.\<close>

definition f64_nonzero :: "64 word \<Rightarrow> bool" where
  "f64_nonzero d \<longleftrightarrow> unat d mod 2 ^ 63 \<noteq> 0"

definition assert_condition :: "'w executor_env \<Rightarrow> string \<Rightarrow> bool res" where
  "assert_condition env s =
     (if s = ''true'' then Inr True else if s = ''false'' then Inr False
      else case xe_stod env s of
             Some d \<Rightarrow> Inr (f64_nonzero d)
           | None \<Rightarrow> Inl (Runtime_error (''Assert condition did not evaluate to a boolean value (''
                @ quoted ''true'' @ ''/'' @ quoted ''false'' @ '' or number): '' @ s)))"

definition execute_assert :: "'w executor_env \<Rightarrow> node \<Rightarrow> string \<Rightarrow> string option \<Rightarrow> json \<Rightarrow> json res" where
  "execute_assert env nd condition on_failure ctx =
     ebind (render env condition ctx) (\<lambda>s. ebind (assert_condition env s) (\<lambda>b.
       if b then Inr ctx
       else case on_failure of
              Some target \<Rightarrow> Inl (Runtime_error (''Assert failed. Jumping to: '' @ target))
            | None \<Rightarrow> Inl (Runtime_error (''Assert failed at node: '' @ nd_path nd))))"

text \<open>\<open>execute_generate_subgraph\<close>.  The signature of a generated graph is checked in the node's mode; every
  exception of the body is rethrown with the node kind in front.\<close>

definition mode_of :: "string \<Rightarrow> signature_mode" where
  "mode_of s = (if s = ''warn'' then Sig_warn else if s = ''ignore'' then Sig_ignore else Sig_strict)"

definition check_signature :: "string \<Rightarrow> string option \<Rightarrow> parsed_graph \<Rightarrow> unit res" where
  "check_signature validation on_violation g = (case pg_signature g of
       None \<Rightarrow> Inr ()
     | Some sig \<Rightarrow> (case parse_signature_ast (mode_of validation) sig of
           Inr _ \<Rightarrow> Inr ()
         | Inl e \<Rightarrow> Inl (Runtime_error (case on_violation of
               Some target \<Rightarrow> ''Signature violation: '' @ what e @ '' (jump target: '' @ target @ '' not yet supported)''
             | None \<Rightarrow> ''GenerateSubGraphNode execution failed: '' @ what e))))"

fun register_graphs :: "'w executor_env \<Rightarrow> string \<Rightarrow> string option \<Rightarrow> parsed_graph list \<Rightarrow>
    (string list, 'w exec_state) act" where
  "register_graphs env validation on_violation [] = sret []"
| "register_graphs env validation on_violation (g # gs) =
     (if starts_with ''/dynamic/'' (pg_path g)
      then sbind (slift (check_signature validation on_violation g)) (\<lambda>_.
           sbind (if xe_append env then effect [Append_graph g] else sret ()) (\<lambda>_.
           sbind (register_graphs env validation on_violation gs) (\<lambda>ps. sret (pg_path g # ps))))
      else register_graphs env validation on_violation gs)"

definition rethrow_as :: "string \<Rightarrow> ('a, 's) act \<Rightarrow> ('a, 's) act" where
  "rethrow_as pre m s = (case m s of
       (Inl e, s') \<Rightarrow> (Inl (Runtime_error (pre @ what e)), s') | (Inr x, s') \<Rightarrow> (Inr x, s'))"

definition request_params :: llm_config where
  "request_params = default_llm_config \<lparr> lc_model := [] \<rparr>"

definition generate_text :: "'w executor_env \<Rightarrow> string \<Rightarrow> (string, 'w exec_state) act" where
  "generate_text env prompt = (case xe_provider env of
       None \<Rightarrow> sthrow (Runtime_error ''LLM provider not available for generate_subgraph'')
     | Some (gen, str) \<Rightarrow> sbind (on_world (gen prompt request_params)) (\<lambda>r. case r of
           Inl m \<Rightarrow> sthrow (Runtime_error (''LLM provider error: '' @ m))
         | Inr t \<Rightarrow> sret t))"

definition graph_paths_json :: "string list \<Rightarrow> json" where
  "graph_paths_json ps = (case ps of [p] \<Rightarrow> JStr p | _ \<Rightarrow> JArr (map JStr ps))"

definition execute_generate_subgraph :: "'w executor_env \<Rightarrow> string list \<Rightarrow> string \<Rightarrow> string option \<Rightarrow> json \<Rightarrow>
    (json, 'w exec_state) act" where
  "execute_generate_subgraph env keys validation on_violation ctx =
     rethrow_as ''GenerateSubgraphNode execution failed: ''
      (case jlookup ''__rendered_prompt__'' ctx of
         None \<Rightarrow> sthrow (Runtime_error ''Missing __rendered_prompt__ in context for GenerateSubgraphNode'')
       | Some pj \<Rightarrow>
           sbind (slift (jget_str pj)) (\<lambda>prompt.
           sbind (generate_text env prompt) (\<lambda>dsl.
           sbind (slift (xe_parse env dsl)) (\<lambda>graphs.
           sbind (register_graphs env validation on_violation graphs) (\<lambda>paths.
           case keys of
             [] \<Rightarrow> sret ctx
           | k # _ \<Rightarrow> put_ctx k (graph_paths_json paths) ctx)))))"

text \<open>\<open>execute_yield\<close>: without a provider nothing happens, in every mode.\<close>

definition jputs :: "(string \<times> json) list \<Rightarrow> json \<Rightarrow> json res" where
  "jputs kvs ctx = foldl (\<lambda>r (k, v). ebind r (jput k v)) (Inr ctx) kvs"

definition yield_pull :: "node \<Rightarrow> yield_mode \<Rightarrow> 'w stream_ops \<Rightarrow> ('w \<Rightarrow> bool) \<Rightarrow> json \<Rightarrow>
    (json, 'w exec_state) act" where
  "yield_pull nd mode str ok ctx =
     (if mode = NEXT
      then sbind (on_world (pull_single str)) (\<lambda>t.
        slift (jputs [(''__yield__'', JStr (case t of None \<Rightarrow> [] | Some x \<Rightarrow> x)), (''__yield_mode__'', JStr ''NEXT''),
                      (''__yield_node_path__'', JStr (nd_path nd))] ctx))
      else sbind (on_world (pull_loop str ok 10000 [])) (\<lambda>r. case r of
             Inl (m, ts) \<Rightarrow> sbind (slift (jputs [(''__yield__'', JStr (concat ts)),
                 (''__yield_budget_exceeded__'', JBool True)] ctx)) (\<lambda>_. sthrow (Budget_exceeded_error m))
           | Inr ts \<Rightarrow> slift (jputs [(''__yield__'', JStr (concat ts)), (''__yield_mode__'', JStr ''CONTINUE'')] ctx)))"

definition execute_yield :: "'w executor_env \<Rightarrow> ('w \<Rightarrow> bool) \<Rightarrow> node \<Rightarrow> string \<Rightarrow> yield_mode \<Rightarrow> string \<Rightarrow> json \<Rightarrow>
    (json, 'w exec_state) act" where
  "execute_yield env ok nd yvalue mode stop_path ctx =
     sbind (slift (render env yvalue ctx)) (\<lambda>rendered. case xe_provider env of
         None \<Rightarrow> sret ctx
       | Some (gen, open_stream) \<Rightarrow>
           if mode = STOP
           then slift (jputs [(''__yield_mode__'', JStr ''STOP''), (''__yield_stop_path__'', JStr stop_path)] ctx)
           else sbind (on_world (open_stream rendered request_params)) (\<lambda>s. case s of
                  None \<Rightarrow> put_ctx ''__yield_error__'' (JStr ''null_stream'') ctx
                | Some str \<Rightarrow> yield_pull nd mode str ok ctx))"

text \<open>\<open>NodeExecutor::execute_node\<close>.\<close>

definition execute_body :: "'w executor_env \<Rightarrow> ('w \<Rightarrow> bool) \<Rightarrow> node \<Rightarrow> json \<Rightarrow> (json, 'w exec_state) act" where
  "execute_body env ok nd ctx = (case nd_body nd of
       StartNode \<Rightarrow> sret ctx
     | EndNode \<Rightarrow> sret ctx
     | AssignNode as \<Rightarrow> slift (execute_assign env as ctx ctx)
     | DSLNode prompt tool params keys \<Rightarrow> execute_dsl_node env nd prompt tool params keys ctx
     | ToolCallNode tool args keys \<Rightarrow> execute_tool_call env nd tool args keys ctx
     | ResourceNode t u sc \<Rightarrow> sret ctx
     | ForkNode bs \<Rightarrow> sthrow (Logic_error ''ForkNode/JoinNode reached NodeExecutor - scheduler routing bug'')
     | JoinNode ws st \<Rightarrow> sthrow (Logic_error ''ForkNode/JoinNode reached NodeExecutor - scheduler routing bug'')
     | GenerateSubgraphNode prompt keys validation viol \<Rightarrow> execute_generate_subgraph env keys validation viol ctx
     | AssertNode c f \<Rightarrow> slift (execute_assert env nd c f ctx)
     | YieldNode v m p \<Rightarrow> execute_yield env ok nd v m p ctx)"

definition execute_node :: "'w executor_env \<Rightarrow> ('w \<Rightarrow> bool) \<Rightarrow> node \<Rightarrow> json \<Rightarrow> (json, 'w exec_state) act" where
  "execute_node env ok nd ctx =
     sbind (sget xs_world) (\<lambda>w.
     sbind (slift (check_permissions env w (nd_permissions nd) (nd_path nd))) (\<lambda>_.
     execute_body env ok nd ctx))"

section \<open>Facts about chunks, streams and signatures\<close>

lemma concat_chunks64 [simp]: "concat (chunks64 s) = s"
  by (induction s rule: chunks64.induct) simp_all

lemma chunks64_bounds: "c \<in> set (chunks64 s) \<Longrightarrow> 0 < length c \<and> length c \<le> 64"
  by (induction s rule: chunks64.induct) auto

text \<open>The tokens a stream yields, one after another, while nothing stops the loop.\<close>

inductive pulls :: "'w stream_ops \<Rightarrow> ('w \<Rightarrow> bool) \<Rightarrow> 'w \<Rightarrow> string list \<Rightarrow> 'w \<Rightarrow> bool"
  for str :: "'w stream_ops" and ok :: "'w \<Rightarrow> bool" where
  pulls_Nil: "pulls str ok w [] w"
| pulls_Cons: "\<not> so_stop_requested str w \<Longrightarrow> ok w \<Longrightarrow> so_active str w \<Longrightarrow> so_next str w = (Some t, w') \<Longrightarrow>
     pulls str ok w' ts w'' \<Longrightarrow> pulls str ok w (t # ts) w''"

inductive_cases pulls_ConsE: "pulls str ok w (t # ts) w'"

definition exhausted :: "'w stream_ops \<Rightarrow> 'w \<Rightarrow> bool" where
  "exhausted str w \<longleftrightarrow> so_stop_requested str w \<or> \<not> so_active str w \<or> fst (so_next str w) = None"

lemma pull_loop_spec:
  "\<exists>ts w1. pulls str ok w ts w1 \<and> length ts \<le> n \<and>
     (case fst (pull_loop str ok n acc w) of
        Inr out \<Rightarrow> out = acc @ ts \<and> (length ts = n \<or> exhausted str w1)
      | Inl (m, out) \<Rightarrow> out = acc @ ts \<and> length ts < n \<and> \<not> ok w1 \<and>
          m = ''Budget exceeded during YIELD CONTINUE mode after '' @ nat_str (length out) @ '' tokens'')"
proof (induction n arbitrary: acc w)
  case 0
  show ?case by (rule exI[of _ "[]"], rule exI[of _ w]) (simp add: pulls_Nil)
next
  case (Suc n)
  consider (stop) "so_stop_requested str w" | (broke) "\<not> so_stop_requested str w" "\<not> ok w"
    | (idle) "\<not> so_stop_requested str w" "ok w" "\<not> so_active str w"
    | (ended) w' where "\<not> so_stop_requested str w" "ok w" "so_active str w" "so_next str w = (None, w')"
    | (tok) t w' where "\<not> so_stop_requested str w" "ok w" "so_active str w" "so_next str w = (Some t, w')"
    by (metis option.exhaust prod.exhaust)
  then show ?case
  proof cases
    case tok
    then obtain ts w1 where r: "pulls str ok w' ts w1" "length ts \<le> n"
      "case fst (pull_loop str ok n (acc @ [t]) w') of
        Inr out \<Rightarrow> out = (acc @ [t]) @ ts \<and> (length ts = n \<or> exhausted str w1)
      | Inl (m, out) \<Rightarrow> out = (acc @ [t]) @ ts \<and> length ts < n \<and> \<not> ok w1 \<and>
          m = ''Budget exceeded during YIELD CONTINUE mode after '' @ nat_str (length out) @ '' tokens''"
      using Suc.IH[of w' "acc @ [t]"] by blast
    have "pulls str ok w (t # ts) w1" using tok r(1) by (blast intro: pulls_Cons)
    then show ?thesis using tok r(2,3)
      by (intro exI[of _ "t # ts"] exI[of _ w1]) (auto split: sum.splits)
  qed (rule exI[of _ "[]"], rule exI[of _ w], simp add: pulls_Nil exhausted_def)+
qed

lemma check_types_ok: "check_types mode k ps = Inr () \<longleftrightarrow>
    mode \<noteq> Sig_strict \<or> list_all (\<lambda>p. is_valid_type (snd p)) ps"
  by (induction mode k ps rule: check_types.induct)
    (auto simp: enforce_mode_def split: signature_mode.splits)

text \<open>A signature written out: parameters as name, colon and type, separated by commas.\<close>

fun print_params :: "(string \<times> string) list \<Rightarrow> string" where
  "print_params [] = []"
| "print_params [(n, t)] = n @ '': '' @ t"
| "print_params ((n, t) # p # ps) = n @ '': '' @ t @ '', '' @ print_params (p # ps)"

definition print_signature :: "signature_ast \<Rightarrow> string" where
  "print_signature a = ''('' @ print_params (sig_inputs a) @ '') -> {'' @ print_params (sig_outputs a) @ ''}''"

definition word_like :: "string \<Rightarrow> bool" where
  "word_like s \<longleftrightarrow> s \<noteq> [] \<and> list_all is_word s"

definition params_wf :: "(string \<times> string) list \<Rightarrow> bool" where
  "params_wf ps \<longleftrightarrow> list_all (\<lambda>(n, t). word_like n \<and> word_like t) ps"

lemma takeWhile_word: "list_all P n \<Longrightarrow> \<not> P c \<Longrightarrow> takeWhile P (n @ c # r) = n"
  by (induction n) auto

lemma dropWhile_word: "list_all P n \<Longrightarrow> \<not> P c \<Longrightarrow> dropWhile P (n @ c # r) = c # r"
  by (induction n) auto

lemma takeWhile_word_end: "list_all P n \<Longrightarrow> takeWhile P n = n"
  by (induction n) auto

lemma dropWhile_word_end: "list_all P n \<Longrightarrow> dropWhile P n = []"
  by (induction n) auto

lemma char_classes [simp]:
  "\<not> is_word (CHR '':'')" "\<not> is_word (CHR '','')" "\<not> is_word (CHR '' '')" "\<not> is_space (CHR '':'')"
  "is_space (CHR '' '')" "\<not> is_word (CHR '')'')" "\<not> is_word (CHR ''}'')"
  by (simp_all add: is_word_def is_space_def Let_def)

lemma word_not_space: "is_word c \<Longrightarrow> \<not> is_space c"
  by (auto simp: is_word_def is_space_def Let_def)

lemma word_like_skip: "word_like n \<Longrightarrow> dropWhile (\<lambda>c. \<not> is_word c) (n @ r) = n @ r"
  by (cases n) (auto simp: word_like_def)

lemma word_like_no_space: "word_like n \<Longrightarrow> dropWhile is_space (n @ r) = n @ r"
  by (cases n) (auto simp: word_like_def word_not_space)

lemma next_param_print:
  assumes "word_like n" "word_like t"
  shows "next_param (n @ '': '' @ t) = Some (Some (n, t), [])"
    "next_param (n @ '': '' @ t @ CHR '','' # r) = Some (Some (n, t), CHR '','' # r)"
proof -
  have n: "n \<noteq> []" "list_all is_word n" and t: "t \<noteq> []" "list_all is_word t"
    using assms by (auto simp: word_like_def)
  show "next_param (n @ '': '' @ t) = Some (Some (n, t), [])"
    using n t word_like_no_space[OF assms(2), of "[]"]
    by (simp add: next_param_def Let_def word_like_skip[OF assms(1)] takeWhile_word dropWhile_word
        takeWhile_word_end dropWhile_word_end)
  show "next_param (n @ '': '' @ t @ CHR '','' # r) = Some (Some (n, t), CHR '','' # r)"
    using n t
    by (simp add: next_param_def Let_def word_like_skip[OF assms(1)] takeWhile_word dropWhile_word
        word_like_no_space[OF assms(2)])
qed

lemma next_param_skip: "\<not> is_word c \<Longrightarrow> next_param (c # r) = next_param r"
  by (simp add: next_param_def)

lemma signature_params_skip: "\<not> is_word c \<Longrightarrow> signature_params (c # r) = signature_params r"
  by (simp add: signature_params.simps[of "c # r"] signature_params.simps[of r] next_param_skip)

lemma signature_params_Nil [simp]: "signature_params [] = []"
  by (simp add: signature_params.simps next_param_def)

lemma signature_params_print: "params_wf ps \<Longrightarrow> signature_params (print_params ps) = ps"
proof (induction ps rule: print_params.induct)
  case (2 n t)
  then show ?case
    by (simp add: params_wf_def signature_params.simps[of "n @ x" for x] next_param_print(1)[simplified])
next
  case (3 n t p ps)
  then have w: "word_like n" "word_like t" and i: "signature_params (print_params (p # ps)) = p # ps"
    by (auto simp: params_wf_def)
  have "signature_params (print_params ((n, t) # p # ps)) =
      (n, t) # signature_params (CHR '','' # CHR '' '' # print_params (p # ps))"
    using next_param_print(2)[OF w, of "CHR '' '' # print_params (p # ps)"]
    by (simp add: signature_params.simps[of "n @ x" for x])
  then show ?case using i by (simp add: signature_params_skip)
qed simp

lemma print_params_chars:
  "params_wf ps \<Longrightarrow> c \<in> set (print_params ps) \<Longrightarrow> c \<noteq> CHR '')'' \<and> c \<noteq> CHR ''}''"
proof (induction ps rule: print_params.induct)
  case (2 n t)
  then show ?case using char_classes by (auto simp: params_wf_def word_like_def list_all_iff)
next
  case (3 n t p ps)
  have "params_wf (p # ps)" using 3(2) by (simp add: params_wf_def)
  then show ?case using 3 char_classes by (auto simp: params_wf_def word_like_def list_all_iff)
qed simp

lemma signature_groups_print:
  assumes "params_wf ins" "params_wf outs"
  shows "signature_groups (print_signature \<lparr> sig_inputs = ins, sig_outputs = outs \<rparr>) =
    Some (print_params ins, print_params outs)"
proof -
  have i: "list_all (\<lambda>x. x \<noteq> CHR '')'') (print_params ins)"
    and o: "list_all (\<lambda>x. x \<noteq> CHR ''}'') (print_params outs)"
    using print_params_chars[OF assms(1)] print_params_chars[OF assms(2)] by (auto simp: list_all_iff)
  show ?thesis
    using takeWhile_word[OF i, of "CHR '')''" "'' -> {'' @ print_params outs @ ''}''"]
      takeWhile_word[OF o, of "CHR ''}''" "[]"]
    by (simp add: signature_groups_def print_signature_def Let_def starts_with_def is_space_def)
qed

section \<open>Tool nodes behind a coordinator\<close>

text \<open>The coordinator of the Coordinator theory as the executor's backend; the world is the list of
  effects it has had, and the registry calls its tools.\<close>

definition coordinator_backend :: "co_env \<Rightarrow> coordinator \<Rightarrow> (string \<Rightarrow> tool_args \<Rightarrow> json) \<Rightarrow> tool_metadata \<Rightarrow>
    tool_call_context \<Rightarrow> tool_args \<Rightarrow> co_effect list \<Rightarrow> tool_result res \<times> co_effect list" where
  "coordinator_backend ce co call m cx args w =
     (let (es, r, n) = coordinator_execute ce co call m cx args False no_nesting in (r, w @ es))"

definition coordinated :: "co_env \<Rightarrow> coordinator \<Rightarrow> (string \<Rightarrow> tool_args \<Rightarrow> json) \<Rightarrow>
    co_effect list executor_env \<Rightarrow> co_effect list executor_env" where
  "coordinated ce co call env = env \<lparr> xe_coordinator := Some (coordinator_backend ce co call) \<rparr>"

lemma xe_coordinated: "xe_coordinator (coordinated ce co call env) = Some (coordinator_backend ce co call)"
  by (simp add: coordinated_def)

definition refused :: "tool_result res \<Rightarrow> bool" where
  "refused r = (case r of Inl e \<Rightarrow> True | Inr t \<Rightarrow> \<not> tr_ok t \<and>
     (\<exists>c. tr_error_code t = Some c \<and> c \<noteq> Skip))"

lemma refused_simps [simp]:
  "refused (Inl e)" "c \<noteq> Skip \<Longrightarrow> refused (Inr (tr_error c msg m))"
  by (simp_all add: refused_def tr_error_def Let_def)

lemma empty_layer_unknown: "\<exists>e. parse_layer [] = Inl e"
  by (simp add: parse_layer_def iequals_def str_lower_def)

lemma validate_without_schema:
  "md_input_schema m = None \<Longrightarrow> snd (validate_args ce m cx args) = Inr (Inl t) \<Longrightarrow> refused (Inr t)"
  by (auto simp: validate_args_def and_then_def step_business_def reject_def Let_def
      split: if_splits option.splits prod.splits)

lemma authorise_empty_layer:
  assumes "cx_caller_layer cx = []"
  shows "no_call (fst (authorise_and_call ce co call m cx args ws)) \<and>
    refused (snd (authorise_and_call ce co call m cx args ws))"
proof -
  obtain e where "parse_layer [] = Inl e" using empty_layer_unknown by blast
  then show ?thesis using assms by (simp add: authorise_and_call_def Let_def)
qed

lemma guarded_empty_layer:
  assumes "cx_caller_layer cx = []" "md_input_schema m = None"
  shows "no_call (fst (execute_guarded ce co call m cx args False)) \<and>
    refused (snd (execute_guarded ce co call m cx args False))"
proof -
  have v: "no_call es" if "validate_args ce m cx a = (es, r)" for a es r
    using no_call_validate[of ce m cx a] that by simp
  show ?thesis
    using authorise_empty_layer[OF assms(1), of ce co call m] v validate_without_schema[OF assms(2), of ce cx]
    by (auto simp: execute_guarded_def Let_def split_beta split: sum.splits)
qed

lemma coordinator_empty_layer:
  assumes "cx_caller_layer cx = []" "md_input_schema m = None"
  shows "no_call (fst (coordinator_execute ce co call m cx args False no_nesting)) \<and>
    refused (fst (snd (coordinator_execute ce co call m cx args False no_nesting)))"
  using guarded_empty_layer[OF assms, of ce co call args]
  by (auto simp: coordinator_execute_def split_beta split: sum.splits)

lemma backend_empty_layer:
  assumes "cx_caller_layer cx = []" "md_input_schema m = None"
  shows "\<exists>es r. coordinator_backend ce co call m cx args w = (r, w @ es) \<and> no_call es \<and> refused r"
  using coordinator_empty_layer[OF assms, of ce co call args]
  by (auto simp: coordinator_backend_def split_beta)

lemma refused_stamp [simp]: "refused (Inr (stamp_result t0 t1 args r)) \<longleftrightarrow> refused (Inr r)"
  by (simp add: refused_def stamp_result_def Let_def split: option.splits)

lemma effect_world [simp]: "xs_world (snd (effect es st)) = xs_world st" "fst (effect es st) = Inr ()"
  by (simp_all add: effect_def)

lemma bus_effect_world [simp]: "xs_world (snd (bus_effect env b st)) = xs_world st" "fst (bus_effect env b st) = Inr ()"
  by (simp_all add: bus_effect_def)

lemma push_text_world [simp]: "xs_world (snd (push_text t st)) = xs_world st" "fst (push_text t st) = Inr ()"
  by (simp_all add: push_text_def)

lemma dispatch_coordinated:
  "\<exists>es. xs_world (snd (dispatch_to_tool (coordinated ce co call env) tool path args st)) = xs_world st @ es \<and>
     no_call es \<and> refused (fst (dispatch_to_tool (coordinated ce co call env) tool path args st))"
proof -
  obtain es r where b: "coordinator_backend ce co call (dispatch_meta env tool)
      (dispatch_ctx path (xs_tool_call_count st)) args (xs_world st) = (r, xs_world st @ es)"
    "no_call es" "refused r"
    using backend_empty_layer[of "dispatch_ctx path (xs_tool_call_count st)" "dispatch_meta env tool"
        ce co call args "xs_world st"] by (auto simp: dispatch_ctx_def dispatch_meta_def)
  have m: "dispatch_meta (coordinated ce co call env) tool = dispatch_meta env tool"
    by (simp add: dispatch_meta_def coordinated_def)
  show ?thesis
    using b(2,3) by (auto simp: dispatch_to_tool_def sbind_eq m on_world_res_def xe_coordinated b(1) split: sum.splits)
qed

lemma refused_handled:
  assumes "refused (Inr r)"
  shows "(\<exists>e. fst (handle_tool_errors env nd tool r st) = Inl e) \<and>
    xs_world (snd (handle_tool_errors env nd tool r st)) = xs_world st"
proof -
  obtain c where c: "tr_error_code r = Some c" "c \<noteq> Skip" using assms by (auto simp: refused_def)
  then show ?thesis
    by (cases c) (auto simp: handle_tool_errors_def sbind_eq Let_def split: sum.splits)
qed

text \<open>Permissions.\<close>

definition permitted :: "'w executor_env \<Rightarrow> 'w \<Rightarrow> string list \<Rightarrow> bool" where
  "permitted env w perms \<longleftrightarrow>
     (\<forall>p \<in> set perms. take 5 p = ''tool:'' \<longrightarrow> 6 \<le> length p \<and> xe_has_tool env (drop 6 p) w)"

lemma check_permissions_ok: "check_permissions env w perms path = Inr () \<longleftrightarrow> permitted env w perms"
  by (induction env w perms path rule: check_permissions.induct) (auto simp: permitted_def)

section \<open>Properties of node execution\<close>

text \<open>C14. Permissions gate a node as a whole.  Every permission that starts with tool: must be longer
  than that prefix and name, after dropping one more character, a registered tool; then the node's
  own handler runs.  Otherwise the node fails and nothing has happened: no tool or provider call, no
  event, no counter moves.\<close>

theorem permissions_first:
  "if permitted env (xs_world st) (nd_permissions nd)
   then execute_node env ok nd ctx st = execute_body env ok nd ctx st
   else \<exists>e. execute_node env ok nd ctx st = (Inl e, st)"
  using check_permissions_ok[of env "xs_world st" "nd_permissions nd" "nd_path nd"]
  by (auto simp: execute_node_def sbind_eq split: sum.splits)

text \<open>A tool node behind a ToolCoordinator can never call its tool.  The executor leaves the caller
  layer of the call context empty, which the coordinator does not recognise: whatever the tool, the
  arguments, the policy and the approval callback, the node fails and the coordinator's effects
  contain no registry call.\<close>

theorem coordinated_tool_nodes_fail:
  "\<exists>e es. fst (execute_tool_call (coordinated ce co call env) nd tool args keys ctx st) = Inl e \<and>
     xs_world (snd (execute_tool_call (coordinated ce co call env) nd tool args keys ctx st)) = xs_world st @ es \<and>
     no_call es"
proof -
  let ?env = "coordinated ce co call env"
  have n: "no_call []" by simp
  have d: "\<exists>es. xs_world (snd (dispatch_to_tool ?env t p a st)) = xs_world st @ es \<and> no_call es \<and>
      refused (fst (dispatch_to_tool ?env t p a st))" for t p a by (rule dispatch_coordinated)
  have h: "tr_ok r = False" if "refused (Inr r)" for r using that by (simp add: refused_def)
  show ?thesis
  proof (cases "render_args ?env args ctx")
    case args: (Inr rargs)
    show ?thesis
    proof (cases "render ?env tool ctx")
      case name: (Inr name)
      obtain es where es: "xs_world (snd (dispatch_to_tool ?env name (nd_path nd) rargs st)) = xs_world st @ es"
        "no_call es" "refused (fst (dispatch_to_tool ?env name (nd_path nd) rargs st))" using d by blast
      show ?thesis
      proof (cases "fst (dispatch_to_tool ?env name (nd_path nd) rargs st)")
        case (Inl e)
        then show ?thesis using es n args name
          by (cases "xe_has_tool ?env name (xs_world st)") (auto simp: execute_tool_call_def sbind_eq)
      next
        case (Inr r)
        then have r: "refused (Inr r)" using es by simp
        let ?st = "snd (dispatch_to_tool ?env name (nd_path nd) rargs st)"
        obtain e where "fst (handle_tool_errors ?env nd tool r ?st) = Inl e"
          "xs_world (snd (handle_tool_errors ?env nd tool r ?st)) = xs_world ?st"
          using refused_handled[OF r] by blast
        then show ?thesis using Inr es n args name h[OF r]
          by (cases "xe_has_tool ?env name (xs_world st)") (auto simp: execute_tool_call_def sbind_eq)
      qed
    qed (use n args in \<open>auto simp: execute_tool_call_def sbind_eq\<close>)
  qed (use n in \<open>auto simp: execute_tool_call_def sbind_eq\<close>)
qed

text \<open>The continuous yield loop consumes exactly the tokens the stream yields while it is active,
  not stopped and within budget, in order, and never more than the iteration bound; it ends at the
  bound or when the stream is exhausted, and ends with the budget error exactly because the budget
  check failed, naming and carrying the number of tokens consumed until then.\<close>

theorem pull_loop_exact:
  "\<exists>ts w1. pulls str ok w ts w1 \<and> length ts \<le> n \<and>
     (case fst (pull_loop str ok n [] w) of
        Inr out \<Rightarrow> out = ts \<and> (length ts = n \<or> exhausted str w1)
      | Inl (m, out) \<Rightarrow> out = ts \<and> length ts < n \<and> \<not> ok w1 \<and>
          m = ''Budget exceeded during YIELD CONTINUE mode after '' @ nat_str (length out) @ '' tokens'')"
  using pull_loop_spec[of str ok w n "[]"] by (simp cong: sum.case_cong)

text \<open>A streamed DSL node replays its output: when it succeeds, what it has pushed to the sink since
  it started is the printed value it stored under its output key, cut into chunks of at most 64
  characters and followed by one close.\<close>

theorem stream_replays_output:
  assumes "execute_dsl_node env nd prompt tool params (key # keys) ctx st = (Inr new, st')"
    "stream_requested nd" "xe_sink env"
  shows "\<exists>cs v. jlookup key new = Some v \<and> concat cs = xe_dump env v \<and> list_all (\<lambda>c. length c \<le> 64) cs \<and>
    xs_effects st' = xs_effects st @ map Sink_push cs @ [Sink_close]"
proof -
  have s: "dsl_stream env nd prompt tool params key ctx st = (Inr new, st')"
    using assms by (simp add: execute_dsl_node_def)
  have out: "xs_effects (snd (llm_output env prompt tool params m ctx st)) = xs_effects st" for m
    by (auto simp: llm_output_def sbind_eq on_world_res_def split_beta split: sum.splits)
  obtain v st1 where put: "jlookup key new = Some v" "xs_effects st1 = xs_effects st"
    "push_text (xe_dump env v) st1 = (Inr (), st')"
    using s out[of "blank_stream_message (nd_path nd) key"]
    by (auto simp: dsl_stream_def sbind_eq put_ctx_def push_text_def effect_def jput_Inr_lookup
        split: option.splits sum.splits)
  then have "xs_effects st' = xs_effects st @ map Sink_push (chunks64 (xe_dump env v)) @ [Sink_close]"
    by (auto simp: push_text_def effect_def)
  moreover have "list_all (\<lambda>c. length c \<le> 64) (chunks64 (xe_dump env v))"
    using chunks64_bounds by (auto simp: list_all_iff)
  ultimately show ?thesis using put(1) concat_chunks64 by blast
qed

definition sample_executor_env :: "unit executor_env" where
  "sample_executor_env = \<lparr> xe_inja = (\<lambda>t c. Inr t), xe_dump = (\<lambda>j. ''text''), xe_f2u = id,
     xe_stod = (\<lambda>s. None), xe_has_tool = (\<lambda>t w. True), xe_call_tool = (\<lambda>t a w. (Inr jempty, w)),
     xe_call_llm_tool = (\<lambda>t p c w. (Inr jempty, w)), xe_coordinator = None, xe_approval = None,
     xe_provider = None, xe_parse = (\<lambda>s. Inr []), xe_sink = True, xe_bus = False, xe_append = True,
     xe_now = (\<lambda>w. 0), xe_steady_ms = (\<lambda>w. 0), xe_uninit_layer = Workflow \<rparr>"

definition sample_stream_node :: node where
  "sample_stream_node = (mk_node ''/main/ask'' (DSLNode ''p'' ''llm'' default_llm_config [''k'']) [])
     \<lparr> nd_metadata := JObj [(''stream'', JBool True)] \<rparr>"

lemma stream_replays_output_witness:
  "\<exists>cs v. jlookup ''k'' (JObj [(''k'', JStr ''v'')]) = Some v \<and> concat cs = ''text'' \<and>
     list_all (\<lambda>c. length c \<le> 64) cs \<and>
     [Sink_push ''text'', Sink_close] = [] @ map Sink_push cs @ [Sink_close]"
  using stream_replays_output[of sample_executor_env sample_stream_node "''p''" "''llm''" default_llm_config "''k''" "[]"
    "JObj [(''k'', JStr ''v'')]" "\<lparr> xs_world = (), xs_tool_call_count = 0, xs_effects = [] \<rparr>"
    "JObj [(''k'', JStr ''v'')]" "\<lparr> xs_world = (), xs_tool_call_count = 0,
       xs_effects = [Sink_push ''text'', Sink_close] \<rparr>"]
  by (simp add: execute_dsl_node_def dsl_stream_def stream_requested_def sample_stream_node_def
      sample_executor_env_def mk_node_def put_ctx_def jput_def push_text_def effect_def sbind_eq)

text \<open>Signatures read back.  A signature written out from parameters with word-like names and types
  is accepted in the warn and ignore modes whatever the types, and in strict mode when every type is
  in the whitelist, and the parsed parameters are the ones written.\<close>

theorem signature_roundtrip:
  assumes "params_wf ins" "params_wf outs"
    "mode \<noteq> Sig_strict \<or> list_all (\<lambda>p. is_valid_type (snd p)) (ins @ outs)"
  shows "parse_signature_ast mode (print_signature \<lparr> sig_inputs = ins, sig_outputs = outs \<rparr>) =
    Inr \<lparr> sig_inputs = ins, sig_outputs = outs \<rparr>"
proof -
  have "check_types mode k ins = Inr () \<and> check_types mode k outs = Inr ()" for k
    using assms(3) by (auto simp: check_types_ok)
  then show ?thesis
    by (simp add: parse_signature_ast_def signature_groups_print[OF assms(1,2)]
        signature_params_print[OF assms(1)] signature_params_print[OF assms(2)])
qed

lemma signature_roundtrip_witness:
  "parse_signature_ast Sig_strict (print_signature
     \<lparr> sig_inputs = [(''q'', ''string''), (''n'', ''number'')], sig_outputs = [(''r'', ''object'')] \<rparr>) =
   Inr \<lparr> sig_inputs = [(''q'', ''string''), (''n'', ''number'')], sig_outputs = [(''r'', ''object'')] \<rparr>"
  by (rule signature_roundtrip)
    (simp_all add: params_wf_def word_like_def is_word_def Let_def is_valid_type_def type_whitelist_def)

end
