(* ===== verification/Trace.thy ===== *)
theory Trace
  imports Nodes
begin

text \<open>
  Execution traces (src/modules/trace/trace_exporter.cpp, include/agenticdsl/types/trace_record.h):
  one record per executed node, opened before and completed after the execution, with the change of
  the context in between.  Comparison of JSON values is a parameter, clocks are arguments.
\<close>

record trace_record =
  tc_trace_id :: string
  tc_node_path :: string
  tc_type :: string
  tc_start_time :: int
  tc_end_time :: int
  tc_status :: string
  tc_error_code :: "string option"
  tc_context_delta :: json
  tc_ctx_snapshot_key :: "string option"
  tc_budget_snapshot :: json
  tc_metadata :: json
  tc_llm_intent :: "string option"
  tc_mode :: string

text \<open>Iterating a JSON value: an object gives its members, null and the empty array nothing; the key of
  any other iterator throws invalid_iterator.207.\<close>

definition members :: "json \<Rightarrow> (string \<times> json) list res" where
  "members j = (case j of
       JObj kvs \<Rightarrow> Inr kvs
     | JNull \<Rightarrow> Inr []
     | JArr [] \<Rightarrow> Inr []
     | _ \<Rightarrow> Inl (Json_error ''invalid_iterator.207''))"

fun delta_changed :: "(json \<Rightarrow> json \<Rightarrow> bool) \<Rightarrow> json \<Rightarrow> (string \<times> json) list \<Rightarrow> (string \<times> json) list \<Rightarrow>
    (string \<times> json) list" where
  "delta_changed jeq initial [] d = d"
| "delta_changed jeq initial ((k, v) # kvs) d = delta_changed jeq initial kvs
     (case jlookup k initial of
        Some v0 \<Rightarrow> if \<not> jeq v0 v then kv_ins k v d else d
      | None \<Rightarrow> kv_ins k v d)"

fun delta_deleted :: "json \<Rightarrow> (string \<times> json) list \<Rightarrow> (string \<times> json) list \<Rightarrow> (string \<times> json) list" where
  "delta_deleted final [] d = d"
| "delta_deleted final ((k, v) # kvs) d = delta_deleted final kvs
     (if jcontains k final then d else kv_ins k JNull d)"

definition calculate_context_delta :: "(json \<Rightarrow> json \<Rightarrow> bool) \<Rightarrow> json \<Rightarrow> json \<Rightarrow> json res" where
  "calculate_context_delta jeq initial final =
     ebind (members final) (\<lambda>fs. ebind (members initial) (\<lambda>is.
       Inr (JObj (delta_deleted final is (delta_changed jeq initial fs [])))))"

definition serialize_budget_state :: "int \<Rightarrow> execution_budget option \<Rightarrow> json" where
  "serialize_budget_state now b = (case b of
       None \<Rightarrow> jempty
     | Some b \<Rightarrow> jobj [(''max_nodes'', JInt (max_nodes b)), (''max_llm_calls'', JInt (max_llm_calls b)),
         (''max_duration_sec'', JInt (max_duration_sec b)), (''nodes_used'', JInt (nodes_used b)),
         (''llm_calls_used'', JInt (llm_calls_used b)), (''elapsed_sec'', JInt (elapsed_sec now b))])"

definition on_node_start :: "int \<Rightarrow> string \<Rightarrow> node_type \<Rightarrow> execution_budget option \<Rightarrow> trace_record list \<Rightarrow>
    trace_record list" where
  "on_node_start now path ty b ts = ts @ [\<lparr> tc_trace_id = ''t-default'', tc_node_path = path,
     tc_type = nat_str (node_type_number ty), tc_start_time = now, tc_end_time = 0,
     tc_status = ''running'', tc_error_code = None, tc_context_delta = jempty,
     tc_ctx_snapshot_key = None, tc_budget_snapshot = serialize_budget_state now b,
     tc_metadata = JNull, tc_llm_intent = None, tc_mode = [] \<rparr>]"

text \<open>The last record of the path that is still running.\<close>

fun update_first :: "('a \<Rightarrow> bool) \<Rightarrow> ('a \<Rightarrow> 'a) \<Rightarrow> 'a list \<Rightarrow> 'a list" where
  "update_first P f [] = []"
| "update_first P f (x # xs) = (if P x then f x # xs else x # update_first P f xs)"

definition running_at :: "string \<Rightarrow> trace_record \<Rightarrow> bool" where
  "running_at path r \<longleftrightarrow> tc_node_path r = path \<and> tc_status r = ''running''"

definition on_node_end :: "(json \<Rightarrow> json \<Rightarrow> bool) \<Rightarrow> int \<Rightarrow> string \<Rightarrow> string \<Rightarrow> string option \<Rightarrow> json \<Rightarrow> json \<Rightarrow>
    string option \<Rightarrow> execution_budget option \<Rightarrow> trace_record list \<Rightarrow> trace_record list res" where
  "on_node_end jeq now path status err initial final key b ts =
     (if list_ex (running_at path) ts
      then ebind (calculate_context_delta jeq initial final) (\<lambda>d.
        Inr (rev (update_first (running_at path) (\<lambda>r. r \<lparr> tc_end_time := now, tc_status := status,
          tc_error_code := err, tc_context_delta := d, tc_ctx_snapshot_key := key,
          tc_budget_snapshot := serialize_budget_state now b, tc_mode := ''dev'' \<rparr>) (rev ts))))
      else Inr ts)"

section \<open>Facts about deltas and traces\<close>

lemma delta_changed_lookup:
  "distinct (map fst kvs) \<Longrightarrow> map_of (delta_changed jeq initial kvs d) k = (case map_of kvs k of
       None \<Rightarrow> map_of d k
     | Some v \<Rightarrow> (case jlookup k initial of
           None \<Rightarrow> Some v | Some v0 \<Rightarrow> if jeq v0 v then map_of d k else Some v))"
  by (induction jeq initial kvs d rule: delta_changed.induct)
    (auto split: option.splits simp: map_of_eq_None_iff[THEN iffD2])

lemma delta_deleted_lookup:
  "map_of (delta_deleted final kvs d) k =
     (if k \<in> fst ` set kvs \<and> \<not> jcontains k final then Some JNull else map_of d k)"
  by (induction final kvs d rule: delta_deleted.induct) auto

lemma members_lookup: "members j = Inr kvs \<Longrightarrow> jlookup k j = map_of kvs k"
  by (cases j rule: json.exhaust) (auto simp: members_def split: list.splits)

lemma members_distinct: "jwf j \<Longrightarrow> members j = Inr kvs \<Longrightarrow> distinct (map fst kvs)"
  by (cases j rule: json.exhaust) (auto simp: members_def strict_sorted_distinct split: list.splits)

lemma delta_total: "is_obj initial \<Longrightarrow> is_obj final \<or> final = JNull \<Longrightarrow>
    \<exists>d. calculate_context_delta jeq initial final = Inr d"
  by (cases initial; cases final) (auto simp: calculate_context_delta_def members_def)

lemma trace_start_end:
  assumes "on_node_end jeq now' path status err initial final key b' (on_node_start now path ty b ts) = Inr ts'"
  shows "\<exists>r. ts' = ts @ [r] \<and> tc_node_path r = path \<and> tc_status r = status \<and> tc_error_code r = err \<and>
    tc_ctx_snapshot_key r = key \<and> calculate_context_delta jeq initial final = Inr (tc_context_delta r)"
  using assms
  by (auto simp: on_node_end_def on_node_start_def running_at_def ebind_Inr_conv)

end
