(* ===== verification/Exec_Session.thy ===== *)
theory Exec_Session
  imports Trace Executor Context_Engine
begin

text \<open>
  The execution session (src/modules/scheduler/execution_session.cpp and .h): one node execution with
  its context preparation, snapshots, budget, trace, module states and yields.  The resource table
  stands for the ResourceManager the session refers to.  The session's executor, its snapshot store
  and its budget controller are the models of the corresponding theories; the list of standard
  libraries is a parameter.
\<close>

section \<open>State\<close>

record yield_state =
  ys_module_path :: string
  ys_resume_context :: json

record session_result =
  er_new_context :: json
  er_success :: bool
  er_message :: string
  er_snapshot_key :: "string option"
  er_paused_at :: "string option"

record 'w session =
  ss_id :: string
  ss_resources :: resource_table
  ss_store :: snapshot_store
  ss_budget :: budget_controller
  ss_traces :: "trace_record list"
  ss_exec :: "'w exec_state"
  ss_module_states :: "(string \<times> json) list"
  ss_pending_yield :: "yield_state option"
  ss_flags :: int
  ss_pending_deps :: "(string \<times> string list) list"

record library_entry =
  le_path :: string
  le_is_subgraph :: bool
  le_output_schema :: "json option"
  le_permissions :: "string list"

record 'w session_env =
  se_exec :: "'w executor_env"
  se_jeq :: "json \<Rightarrow> json \<Rightarrow> bool"
  se_now :: "'w \<Rightarrow> int"
  se_libraries :: "library_entry list"
  se_full_graphs :: "parsed_graph list option"
  se_json_parse :: "string \<Rightarrow> json res"

abbreviation ss_world :: "'w session \<Rightarrow> 'w" where "ss_world s \<equiv> xs_world (ss_exec s)"

definition se_dump :: "'w session_env \<Rightarrow> json \<Rightarrow> string" where
  "se_dump env = xe_dump (se_exec env)"

text \<open>The constructor.  The budget is moved into the controller before its snapshot limits are read;
  moving leaves the integers in place.\<close>

definition new_session :: "'w session_env \<Rightarrow> string \<Rightarrow> execution_budget option \<Rightarrow> int \<Rightarrow> resource_table \<Rightarrow> 'w \<Rightarrow>
    'w session" where
  "new_session env sid budget flags resources w = \<lparr> ss_id = sid, ss_resources = resources,
     ss_store = (case budget of
         Some b \<Rightarrow> set_snapshot_limits (se_dump env) (if 0 \<le> max_snapshots b then nat (max_snapshots b) else 10)
                     (snapshot_max_size_kb b) new_store
       | None \<Rightarrow> set_snapshot_limits (se_dump env) 10 512 new_store),
     ss_budget = new_budget_controller (se_now env w) budget, ss_traces = [],
     ss_exec = \<lparr> xs_world = w, xs_tool_call_count = 0, xs_effects = [] \<rparr>, ss_module_states = [],
     ss_pending_yield = None, ss_flags = flags, ss_pending_deps = [] \<rparr>"

definition has_autonomous_flag :: "int \<Rightarrow> bool" where
  "has_autonomous_flag flags \<longleftrightarrow> odd flags"

section \<open>Module states, pending yields, pending dependencies\<close>

definition get_module_state :: "string \<Rightarrow> 'w session \<Rightarrow> json option" where
  "get_module_state path s = map_of (ss_module_states s) path"

definition has_module_state :: "string \<Rightarrow> 'w session \<Rightarrow> bool" where
  "has_module_state path s \<longleftrightarrow> get_module_state path s \<noteq> None"

definition ensure_module_state :: "string \<Rightarrow> 'w session \<Rightarrow> json \<times> 'w session" where
  "ensure_module_state path s = (case get_module_state path s of
       Some j \<Rightarrow> (j, s)
     | None \<Rightarrow> (jempty, s \<lparr> ss_module_states := kv_ins path jempty (ss_module_states s) \<rparr>))"

definition set_pending_yield :: "yield_state \<Rightarrow> 'w session \<Rightarrow> 'w session" where
  "set_pending_yield y s = s \<lparr> ss_pending_yield := Some y \<rparr>"

definition clear_pending_yield :: "'w session \<Rightarrow> 'w session" where
  "clear_pending_yield s = s \<lparr> ss_pending_yield := None \<rparr>"

definition check_and_requeue_dynamic_deps :: "string list \<Rightarrow> 'w session \<Rightarrow> 'w session" where
  "check_and_requeue_dynamic_deps newly s = s \<lparr> ss_pending_deps :=
     filter (\<lambda>(p, deps). deps \<noteq> [])
       (map (\<lambda>(p, deps). (p, filter (\<lambda>d. d \<notin> set newly) deps)) (ss_pending_deps s)) \<rparr>"

fun render_each :: "'w executor_env \<Rightarrow> json list \<Rightarrow> json \<Rightarrow> string list res" where
  "render_each env [] ctx = Inr []"
| "render_each env (JStr t # js) ctx =
     ebind (render env t ctx) (\<lambda>x. ebind (render_each env js ctx) (\<lambda>xs. Inr (x # xs)))"
| "render_each env (j # js) ctx = render_each env js ctx"

definition string_items :: "json list \<Rightarrow> string list" where
  "string_items js = concat (map (\<lambda>j. case j of JStr s \<Rightarrow> [s] | _ \<Rightarrow> []) js)"

definition parse_dynamic_wait_for :: "'w session_env \<Rightarrow> json \<Rightarrow> json \<Rightarrow> string list res" where
  "parse_dynamic_wait_for env expr ctx = (case expr of
       JStr t \<Rightarrow> ebind (render (se_exec env) t ctx) (\<lambda>r. Inr (case se_json_parse env r of
           Inl _ \<Rightarrow> [r]
         | Inr (JArr js) \<Rightarrow> string_items js
         | Inr (JStr p) \<Rightarrow> [p]
         | Inr _ \<Rightarrow> []))
     | JArr js \<Rightarrow> render_each (se_exec env) js ctx
     | _ \<Rightarrow> Inr [])"

section \<open>Prompts with the available subgraphs\<close>

definition library_json :: "string \<Rightarrow> json option \<Rightarrow> string list \<Rightarrow> string \<Rightarrow> json" where
  "library_json path schema perms stability = jobj
     ([(''path'', JStr path)] @
      (case schema of None \<Rightarrow> [] | Some JNull \<Rightarrow> [] | Some s \<Rightarrow> [(''signature'', jobj [(''outputs'', s)])]) @
      [(''permissions'', JArr (map JStr perms)), (''stability'', JStr stability)])"

definition build_available_subgraphs_context :: "'w session_env \<Rightarrow> json" where
  "build_available_subgraphs_context env = JArr
     (map (\<lambda>e. library_json (le_path e) (le_output_schema e) (le_permissions e) ''stable'')
        (filter le_is_subgraph (se_libraries env)) @
      map (\<lambda>g. library_json (pg_path g) (pg_output_schema g) (pg_permissions g) ''dynamic'')
        (filter (\<lambda>g. starts_with ''/dynamic/'' (pg_path g) \<and> pg_output_schema g \<notin> {None, Some JNull})
          (case se_full_graphs env of None \<Rightarrow> [] | Some gs \<Rightarrow> gs)))"

definition inject_subgraphs_into_prompt :: "'w session_env \<Rightarrow> string \<Rightarrow> json \<Rightarrow> string res" where
  "inject_subgraphs_into_prompt env prompt ctx =
     ebind (jput ''available_subgraphs'' (build_available_subgraphs_context env) ctx) (render (se_exec env) prompt)"

section \<open>Executing a node\<close>

definition meta_flag :: "string \<Rightarrow> node \<Rightarrow> bool res" where
  "meta_flag k nd = (case jlookup k (nd_metadata nd) of None \<Rightarrow> Inr False | Some v \<Rightarrow> jget_bool v)"

definition needs_snapshot :: "node \<Rightarrow> bool res" where
  "needs_snapshot nd = ebind (meta_flag ''snapshot_before_execution'' nd) (\<lambda>b. if b then Inr True
     else ebind (if nd_type nd = TOOL_CALL then meta_flag ''rollback_on_failure'' nd else Inr False) (\<lambda>r.
       Inr (r \<or> nd_type nd \<in> {FORK, GENERATE_SUBGRAPH, ASSERT})))"

definition prepare_context :: "json \<Rightarrow> 'w session \<Rightarrow> json res" where
  "prepare_context ctx s =
     ebind (if ss_resources s = [] then Inr ctx
            else jput ''resources'' (get_resources_context (ss_resources s)) ctx) (\<lambda>c.
     jput ''__module_states__'' (jobj (ss_module_states s)) c)"

text \<open>The budget checks in their order: an LLM call or a subgraph level first, then the node.  The refusal
  message, and the controller after the checks.\<close>

definition consume_budget :: "node_type \<Rightarrow> budget_controller \<Rightarrow> string option \<times> budget_controller" where
  "consume_budget ty b =
     (let (ok1, b1) = (if ty = DSL_CALL then bc_try_consume_llm_call b else (True, b)) in
      if \<not> ok1 then (Some ''Budget exceeded: LLM call limit reached'', b1)
      else let (ok2, b2) = (if ty = GENERATE_SUBGRAPH then bc_try_consume_subgraph_depth b1 else (True, b1)) in
        if \<not> ok2 then (Some ''Budget exceeded: Subgraph depth limit reached'', b2)
        else let (ok3, b3) = bc_try_consume_node b2 in
          (if ok3 then None else Some ''Budget exceeded: Node limit reached'', b3))"

definition on_exec :: "('a, 'w exec_state) act \<Rightarrow> ('a, 'w session) act" where
  "on_exec m s = (let (r, x) = m (ss_exec s) in (r, s \<lparr> ss_exec := x \<rparr>))"

text \<open>The function execute_with_snapshot runs, then the snapshot it takes on success.\<close>

definition run_node :: "'w session_env \<Rightarrow> node \<Rightarrow> json \<Rightarrow> (json, 'w session) act" where
  "run_node env nd ctx s =
     (let ok = (\<lambda>w. \<not> bc_exceeded (se_now env w) (ss_budget s)) in
      case nd_body nd of
        GenerateSubgraphNode prompt ks v j \<Rightarrow>
          sbind (slift (inject_subgraphs_into_prompt env prompt ctx)) (\<lambda>p.
          sbind (slift (jput ''__rendered_prompt__'' (JStr p) ctx)) (\<lambda>c.
          on_exec (execute_node (se_exec env) ok nd c))) s
      | _ \<Rightarrow> on_exec (execute_node (se_exec env) ok nd ctx) s)"

definition with_snapshot :: "'w session_env \<Rightarrow> node \<Rightarrow> json \<Rightarrow> bool \<Rightarrow> (json \<times> string option, 'w session) act" where
  "with_snapshot env nd ctx need s =
     (let (r, s1) = run_node env nd ctx s;
          (r', st) = execute_with_snapshot (se_dump env) (\<lambda>_. r) ctx need (nd_path nd) (ss_store s1)
      in (r', s1 \<lparr> ss_store := st \<rparr>))"

definition sync_module_states :: "json \<Rightarrow> (string \<times> json) list \<Rightarrow> (string \<times> json) list" where
  "sync_module_states ctx ms = (case jlookup ''__module_states__'' ctx of
       Some (JObj kvs) \<Rightarrow> foldl (\<lambda>m (k, v). kv_ins k v m) ms kvs
     | _ \<Rightarrow> ms)"

definition pause_of :: "'w session \<Rightarrow> node \<Rightarrow> string option" where
  "pause_of s nd = (if nd_type nd = DSL_CALL \<and> \<not> has_autonomous_flag (ss_flags s)
                    then Some (nd_path nd) else None)"

definition yielded :: "node \<Rightarrow> json \<Rightarrow> bool" where
  "yielded nd new \<longleftrightarrow> nd_type nd = YIELD \<and> jcontains ''__yield_mode__'' new"

text \<open>The body of the try block and its handler.\<close>

definition attempt_node :: "'w session_env \<Rightarrow> node \<Rightarrow> json \<Rightarrow> bool \<Rightarrow> 'w session \<Rightarrow> session_result \<times> 'w session" where
  "attempt_node env nd ctx need s = (case with_snapshot env nd ctx need s of
       (Inl e, s1) \<Rightarrow>
         (\<lparr> er_new_context = JNull, er_success = False, er_message = ''Node execution failed: '' @ what e,
            er_snapshot_key = (if need then Some (nd_path nd) else None), er_paused_at = pause_of s nd \<rparr>, s1)
     | (Inr (new, key), s1) \<Rightarrow>
         (let s2 = s1 \<lparr> ss_module_states := sync_module_states new (ss_module_states s1) \<rparr>;
              s3 = (if yielded nd new then set_pending_yield \<lparr> ys_module_path = nd_path nd,
                      ys_resume_context = jempty \<rparr> s2 else s2)
          in (\<lparr> er_new_context = new, er_success = True, er_message = ''Node executed successfully'',
                er_snapshot_key = key,
                er_paused_at = (if yielded nd new then Some (nd_path nd) else pause_of s nd) \<rparr>, s3)))"

definition refusal :: "string \<Rightarrow> node \<Rightarrow> bool \<Rightarrow> session_result" where
  "refusal msg nd need = \<lparr> er_new_context = JNull, er_success = False, er_message = msg,
     er_snapshot_key = (if need then Some (nd_path nd) else None), er_paused_at = None \<rparr>"

definition session_now :: "'w session_env \<Rightarrow> 'w session \<Rightarrow> int" where
  "session_now env s = se_now env (ss_world s)"

definition start_trace :: "'w session_env \<Rightarrow> node \<Rightarrow> 'w session \<Rightarrow> 'w session" where
  "start_trace env nd s = s \<lparr> ss_traces := on_node_start (session_now env s) (nd_path nd) (nd_type nd)
     (budget_opt (ss_budget s)) (ss_traces s) \<rparr>"

definition end_trace :: "'w session_env \<Rightarrow> node \<Rightarrow> json \<Rightarrow> session_result \<Rightarrow> 'w session \<Rightarrow>
    session_result res \<times> 'w session" where
  "end_trace env nd ctx r s = (case on_node_end (se_jeq env) (session_now env s) (nd_path nd)
         (if er_success r then ''success'' else ''failed'')
         (if er_success r then None else Some (er_message r)) ctx (er_new_context r)
         (er_snapshot_key r) (budget_opt (ss_budget s)) (ss_traces s) of
       Inl e \<Rightarrow> (Inl e, s)
     | Inr ts \<Rightarrow> (Inr r, s \<lparr> ss_traces := ts \<rparr>))"

definition session_execute_node :: "'w session_env \<Rightarrow> node \<Rightarrow> json \<Rightarrow> (session_result, 'w session) act" where
  "session_execute_node env nd ctx0 s =
     (case ebind (prepare_context ctx0 s) (\<lambda>ctx. ebind (needs_snapshot nd) (\<lambda>need. Inr (ctx, need))) of
        Inl e \<Rightarrow> (Inl e, s)
      | Inr (ctx, need) \<Rightarrow>
          (let s1 = (if need then s \<lparr> ss_store := save_snapshot (se_dump env) (nd_path nd) ctx (ss_store s) \<rparr> else s);
               (no, b) = consume_budget (nd_type nd) (ss_budget s1);
               s2 = s1 \<lparr> ss_budget := b \<rparr>
           in case no of
                Some msg \<Rightarrow> (Inr (refusal msg nd need), s2)
              | None \<Rightarrow> (let (r, s3) = attempt_node env nd ctx need (start_trace env nd s2)
                         in end_trace env nd ctx r s3)))"

section \<open>What a session promises its scheduler\<close>

text \<open>The scheduler drives sessions through \<open>run\<close> and relies on three promises: a run leaves the pending
  dependencies alone, a pending yield appears only in the name of the node that ran and only with a
  successful pausing result, and the resource table is not the session's to change.  \<open>steps\<close> is any
  sequence of runs.\<close>

locale session_contract =
  fixes run :: "node \<Rightarrow> json \<Rightarrow> 's \<Rightarrow> session_result res \<times> 's"
    and pending :: "'s \<Rightarrow> yield_state option"
    and deps :: "'s \<Rightarrow> (string \<times> string list) list"
    and resources :: "'s \<Rightarrow> resource_table"
  assumes run_deps: "deps (snd (run nd ctx s)) = deps s"
    and run_resources: "resources (snd (run nd ctx s)) = resources s"
    and run_pending: "pending (snd (run nd ctx s)) = pending s \<or>
      nd_type nd = YIELD \<and> pending (snd (run nd ctx s)) =
        Some \<lparr> ys_module_path = nd_path nd, ys_resume_context = jempty \<rparr>"
begin

definition steps :: "(node \<times> json) list \<Rightarrow> 's \<Rightarrow> 's" where
  "steps ns s = foldl (\<lambda>s (nd, ctx). snd (run nd ctx s)) s ns"

lemma steps_Cons: "steps ((nd, ctx) # ns) s = steps ns (snd (run nd ctx s))"
  by (simp add: steps_def)

lemma steps_deps: "deps (steps ns s) = deps s"
  by (induction ns arbitrary: s) (auto simp: steps_def run_deps)

lemma steps_resources: "resources (steps ns s) = resources s"
  by (induction ns arbitrary: s) (auto simp: steps_def run_resources)

lemma steps_no_yield:
  "list_all (\<lambda>(nd, ctx). nd_type nd \<noteq> YIELD) ns \<Longrightarrow> pending (steps ns s) = pending s"
proof (induction ns arbitrary: s)
  case (Cons p ns)
  obtain nd ctx where p: "p = (nd, ctx)" by fastforce
  have "pending (snd (run nd ctx s)) = pending s" using run_pending[of nd ctx s] Cons.prems p by auto
  then show ?case using Cons p by (simp add: steps_Cons)
qed (simp add: steps_def)

end

lemma on_exec_frame [simp]:
  "ss_store (snd (on_exec m s)) = ss_store s" "ss_budget (snd (on_exec m s)) = ss_budget s"
  "ss_traces (snd (on_exec m s)) = ss_traces s" "ss_module_states (snd (on_exec m s)) = ss_module_states s"
  "ss_pending_yield (snd (on_exec m s)) = ss_pending_yield s" "ss_flags (snd (on_exec m s)) = ss_flags s"
  "ss_pending_deps (snd (on_exec m s)) = ss_pending_deps s" "ss_resources (snd (on_exec m s)) = ss_resources s"
  by (simp_all add: on_exec_def split_beta)

lemma run_node_frame [simp]:
  "ss_store (snd (run_node env nd ctx s)) = ss_store s" "ss_budget (snd (run_node env nd ctx s)) = ss_budget s"
  "ss_traces (snd (run_node env nd ctx s)) = ss_traces s"
  "ss_module_states (snd (run_node env nd ctx s)) = ss_module_states s"
  "ss_pending_yield (snd (run_node env nd ctx s)) = ss_pending_yield s" "ss_flags (snd (run_node env nd ctx s)) = ss_flags s"
  "ss_pending_deps (snd (run_node env nd ctx s)) = ss_pending_deps s"
  "ss_resources (snd (run_node env nd ctx s)) = ss_resources s"
  by (auto simp: run_node_def sbind_eq Let_def split: node_body.splits sum.splits)

lemma with_snapshot_frame [simp]:
  "ss_budget (snd (with_snapshot env nd ctx need s)) = ss_budget s"
  "ss_traces (snd (with_snapshot env nd ctx need s)) = ss_traces s"
  "ss_pending_yield (snd (with_snapshot env nd ctx need s)) = ss_pending_yield s"
  "ss_pending_deps (snd (with_snapshot env nd ctx need s)) = ss_pending_deps s"
  "ss_resources (snd (with_snapshot env nd ctx need s)) = ss_resources s"
  by (simp_all add: with_snapshot_def split_beta)

lemma attempt_node_frame [simp]:
  "ss_budget (snd (attempt_node env nd ctx need s)) = ss_budget s"
  "ss_traces (snd (attempt_node env nd ctx need s)) = ss_traces s"
  "ss_pending_deps (snd (attempt_node env nd ctx need s)) = ss_pending_deps s"
  "ss_resources (snd (attempt_node env nd ctx need s)) = ss_resources s"
proof -
  obtain r s1 where w: "with_snapshot env nd ctx need s = (r, s1)" by fastforce
  show "ss_budget (snd (attempt_node env nd ctx need s)) = ss_budget s"
    "ss_traces (snd (attempt_node env nd ctx need s)) = ss_traces s"
    "ss_pending_deps (snd (attempt_node env nd ctx need s)) = ss_pending_deps s"
    "ss_resources (snd (attempt_node env nd ctx need s)) = ss_resources s"
    using with_snapshot_frame[of env nd ctx need s] w
    by (cases r; auto simp: attempt_node_def Let_def set_pending_yield_def)+
qed

lemma attempt_node_pending:
  "ss_pending_yield (snd (attempt_node env nd ctx need s)) =
     (if er_success (fst (attempt_node env nd ctx need s)) \<and>
         yielded nd (er_new_context (fst (attempt_node env nd ctx need s)))
      then Some \<lparr> ys_module_path = nd_path nd, ys_resume_context = jempty \<rparr> else ss_pending_yield s)"
proof -
  obtain r s1 where w: "with_snapshot env nd ctx need s = (r, s1)" by fastforce
  show ?thesis
    using with_snapshot_frame(3)[of env nd ctx need s] w
    by (cases r; auto simp: attempt_node_def Let_def set_pending_yield_def)
qed

lemma end_trace_frame [simp]:
  "ss_budget (snd (end_trace env nd ctx r s)) = ss_budget s"
  "ss_pending_yield (snd (end_trace env nd ctx r s)) = ss_pending_yield s"
  "ss_pending_deps (snd (end_trace env nd ctx r s)) = ss_pending_deps s"
  "ss_resources (snd (end_trace env nd ctx r s)) = ss_resources s"
  by (auto simp: end_trace_def split: sum.splits)

lemma start_trace_frame [simp]:
  "ss_budget (start_trace env nd s) = ss_budget s" "ss_pending_yield (start_trace env nd s) = ss_pending_yield s"
  "ss_pending_deps (start_trace env nd s) = ss_pending_deps s" "ss_resources (start_trace env nd s) = ss_resources s"
  "ss_exec (start_trace env nd s) = ss_exec s"
  by (simp_all add: start_trace_def)

lemma session_frame:
  "ss_pending_deps (snd (session_execute_node env nd ctx s)) = ss_pending_deps s"
  "ss_resources (snd (session_execute_node env nd ctx s)) = ss_resources s"
  by (auto simp: session_execute_node_def Let_def split_beta split: sum.splits option.splits)

lemma session_pending:
  "ss_pending_yield (snd (session_execute_node env nd ctx s)) = ss_pending_yield s \<or>
     nd_type nd = YIELD \<and> ss_pending_yield (snd (session_execute_node env nd ctx s)) =
       Some \<lparr> ys_module_path = nd_path nd, ys_resume_context = jempty \<rparr>"
  by (auto simp: session_execute_node_def Let_def split_beta attempt_node_pending yielded_def
      split: sum.splits option.splits if_splits)

interpretation sess: session_contract "session_execute_node env" ss_pending_yield ss_pending_deps ss_resources
  by unfold_locales (simp_all add: session_frame session_pending)

section \<open>Budget and trace of a session\<close>

definition run_all :: "'w session_env \<Rightarrow> (node \<times> json) list \<Rightarrow> 'w session \<Rightarrow> 'w session" where
  "run_all env ns s = foldl (\<lambda>s (nd, ctx). snd (session_execute_node env nd ctx s)) s ns"

lemma run_all_steps: "run_all env ns s = sess.steps env ns s"
  by (simp add: run_all_def sess.steps_def)

text \<open>The preparation of a node's context and its snapshot decision.\<close>

definition prepared :: "node \<Rightarrow> json \<Rightarrow> 'w session \<Rightarrow> (json \<times> bool) res" where
  "prepared nd ctx s = ebind (prepare_context ctx s) (\<lambda>c. ebind (needs_snapshot nd) (\<lambda>n. Inr (c, n)))"

lemma attempt_traces_start:
  "ss_traces (snd (attempt_node env nd ctx need (start_trace env nd s))) =
     on_node_start (session_now env s) (nd_path nd) (nd_type nd) (budget_opt (ss_budget s)) (ss_traces s)"
  by (simp add: start_trace_def)

lemma length_update_first [simp]: "length (update_first P f xs) = length xs"
  by (induction xs) auto

lemma end_trace_length: "length (ss_traces (snd (end_trace env nd ctx r s))) = length (ss_traces s)"
  by (auto simp: end_trace_def on_node_end_def ebind_Inr_conv split: sum.splits if_splits)

lemma session_budget_step:
  "case prepared nd ctx s of
     Inl e \<Rightarrow> session_execute_node env nd ctx s = (Inl e, s)
   | Inr (c, need) \<Rightarrow>
       ss_budget (snd (session_execute_node env nd ctx s)) = snd (consume_budget (nd_type nd) (ss_budget s)) \<and>
       (case fst (consume_budget (nd_type nd) (ss_budget s)) of
          Some msg \<Rightarrow> fst (session_execute_node env nd ctx s) = Inr (refusal msg nd need) \<and>
            ss_exec (snd (session_execute_node env nd ctx s)) = ss_exec s \<and>
            ss_traces (snd (session_execute_node env nd ctx s)) = ss_traces s
        | None \<Rightarrow> length (ss_traces (snd (session_execute_node env nd ctx s))) = Suc (length (ss_traces s)))"
proof (cases "prepared nd ctx s")
  case (Inl e)
  then show ?thesis by (simp add: session_execute_node_def prepared_def)
next
  case (Inr p)
  obtain c need where p: "p = (c, need)" by fastforce
  obtain no b where b: "consume_budget (nd_type nd) (ss_budget s) = (no, b)" by fastforce
  show ?thesis using Inr p b
    by (cases no) (auto simp: session_execute_node_def prepared_def Let_def split_beta end_trace_length
        start_trace_def on_node_start_def)
qed

lemma consume_budget_nodes:
  assumes "budget_opt c = Some b"
  shows "\<exists>b'. budget_opt (snd (consume_budget ty c)) = Some b' \<and> max_nodes b' = max_nodes b \<and>
    nodes_used b' = nodes_used b + (if fst (consume_budget ty c) = None then 1 else 0) \<and>
    (within_limits b \<longrightarrow> within_limits b')"
proof -
  have w: "within_limits b' \<Longrightarrow> within_limits (snd (try_consume_node b'))"
    "within_limits b' \<Longrightarrow> within_limits (snd (try_consume_llm_call b'))"
    "within_limits b' \<Longrightarrow> within_limits (snd (try_consume_subgraph_depth b'))" for b'
    by (rule within_limits_ops; assumption)+
  show ?thesis
    using assms
    by (auto simp: consume_budget_def bc_consume_defs on_budget_def split_beta Let_def consume_defs
        within_limits_def)
qed

definition budget_trace_inv :: "int \<Rightarrow> 'w session \<Rightarrow> bool" where
  "budget_trace_inv m s \<longleftrightarrow> (\<exists>b. budget_opt (ss_budget s) = Some b \<and> max_nodes b = m \<and>
     nodes_used b = int (length (ss_traces s)) \<and> within_limits b)"

lemma budget_trace_inv_step:
  assumes "budget_trace_inv m s"
  shows "budget_trace_inv m (snd (session_execute_node env nd ctx s))"
proof -
  obtain b where b: "budget_opt (ss_budget s) = Some b" "max_nodes b = m"
    "nodes_used b = int (length (ss_traces s))" "within_limits b" using assms by (auto simp: budget_trace_inv_def)
  obtain b' where b': "budget_opt (snd (consume_budget (nd_type nd) (ss_budget s))) = Some b'"
    "max_nodes b' = m" "within_limits b'"
    "nodes_used b' = nodes_used b + (if fst (consume_budget (nd_type nd) (ss_budget s)) = None then 1 else 0)"
    using consume_budget_nodes[OF b(1), of "nd_type nd"] b(2,4) by auto
  show ?thesis
  proof (cases "prepared nd ctx s")
    case (Inl e)
    then show ?thesis using session_budget_step[of env nd ctx s] assms by simp
  next
    case (Inr p)
    then show ?thesis using session_budget_step[of env nd ctx s] b' b(3)
      by (cases p; cases "fst (consume_budget (nd_type nd) (ss_budget s))") (auto simp: budget_trace_inv_def)
  qed
qed

lemma budget_trace_inv_run: "budget_trace_inv m s \<Longrightarrow> budget_trace_inv m (run_all env ns s)"
  by (induction ns arbitrary: s) (auto simp: run_all_def budget_trace_inv_step)

section \<open>Properties of the session\<close>

text \<open>The budget gates execution.  When a node's context or snapshot decision cannot be prepared the
  session throws and is unchanged.  Otherwise the controller is charged exactly what the node's type
  costs, in order; if it refuses, the result is the refusal, the executor has not run (no tool, no
  provider, no effect) and no trace is written, and if it grants, exactly one trace record is added.\<close>

theorem budget_gates_execution:
  "case prepared nd ctx s of
     Inl e \<Rightarrow> session_execute_node env nd ctx s = (Inl e, s)
   | Inr (c, need) \<Rightarrow>
       ss_budget (snd (session_execute_node env nd ctx s)) = snd (consume_budget (nd_type nd) (ss_budget s)) \<and>
       (case fst (consume_budget (nd_type nd) (ss_budget s)) of
          Some msg \<Rightarrow> fst (session_execute_node env nd ctx s) = Inr (refusal msg nd need) \<and>
            ss_exec (snd (session_execute_node env nd ctx s)) = ss_exec s \<and>
            ss_traces (snd (session_execute_node env nd ctx s)) = ss_traces s
        | None \<Rightarrow> length (ss_traces (snd (session_execute_node env nd ctx s))) = Suc (length (ss_traces s)))"
  by (rule session_budget_step)

text \<open>C15. A session never runs more nodes than its budget's node limit: over any sequence of node
  executions with any contexts, the trace of a session created with a non-negative limit holds at
  most that many records.\<close>

theorem at_most_max_nodes:
  assumes "0 \<le> max_nodes b"
  shows "int (length (ss_traces (run_all env ns (new_session env sid (Some b) flags res w)))) \<le> max_nodes b"
proof -
  have "budget_trace_inv (max_nodes b) (new_session env sid (Some b) flags res w)"
    by (auto simp: budget_trace_inv_def new_session_def new_budget_controller_def budget_move_ctor_def within_limits_def)
  then have "budget_trace_inv (max_nodes b) (run_all env ns (new_session env sid (Some b) flags res w))"
    by (rule budget_trace_inv_run)
  then show ?thesis using assms by (auto simp: budget_trace_inv_def within_limits_def)
qed

definition sample_session_env :: "unit session_env" where
  "sample_session_env = \<lparr> se_exec = sample_executor_env, se_jeq = (\<lambda>a b. a = b), se_now = (\<lambda>w. 0),
     se_libraries = [], se_full_graphs = None, se_json_parse = (\<lambda>s. Inr JNull) \<rparr>"

lemma at_most_max_nodes_witness:
  "int (length (ss_traces (run_all sample_session_env
     [(mk_node ''/main/a'' StartNode [], jempty), (mk_node ''/main/b'' EndNode [], jempty)]
     (new_session sample_session_env [] (Some ((new_budget 0) \<lparr> max_nodes := 1 \<rparr>)) 0 [] ())))) \<le> 1"
  using at_most_max_nodes[of "(new_budget 0) \<lparr> max_nodes := 1 \<rparr>"] by simp

text \<open>What a trace says.  When the session lets a node run and returns its result, the trace has grown
  by one record with the node's path, success or failed, the failure message, and as context change:
  for a member the result holds, its value when it is new or differs from before; for a member of the
  prepared context that the result lacks, null.  A failed node has no result context, so its record
  marks every member of the context as deleted.\<close>

theorem node_trace_exact:
  assumes "session_execute_node env nd ctx s = (Inr r, s')" "prepared nd ctx s = Inr (c, need)"
    "fst (consume_budget (nd_type nd) (ss_budget s)) = None" "jwf (er_new_context r)"
  shows "\<exists>t. ss_traces s' = ss_traces s @ [t] \<and> tc_node_path t = nd_path nd \<and>
    tc_status t = (if er_success r then ''success'' else ''failed'') \<and>
    tc_error_code t = (if er_success r then None else Some (er_message r)) \<and>
    jlookup k (tc_context_delta t) = (case jlookup k (er_new_context r) of
        None \<Rightarrow> if jcontains k c then Some JNull else None
      | Some v \<Rightarrow> (case jlookup k c of None \<Rightarrow> Some v | Some v0 \<Rightarrow> if se_jeq env v0 v then None else Some v))"
proof -
  obtain b where cb: "consume_budget (nd_type nd) (ss_budget s) = (None, b)"
    using assms(3) by (cases "consume_budget (nd_type nd) (ss_budget s)") auto
  define s2 where "s2 = (if need then s \<lparr> ss_store := save_snapshot (se_dump env) (nd_path nd) c (ss_store s) \<rparr> else s)
    \<lparr> ss_budget := b \<rparr>"
  have tr: "ss_traces s2 = ss_traces s" by (simp add: s2_def)
  obtain r1 s3 where a: "attempt_node env nd c need (start_trace env nd s2) = (r1, s3)" by fastforce
  have "session_execute_node env nd ctx s = end_trace env nd c r1 s3"
    using assms(2) cb a by (auto simp: session_execute_node_def prepared_def Let_def s2_def)
  then have e: "r1 = r" "ss_traces s3 = ss_traces (start_trace env nd s2)"
    "on_node_end (se_jeq env) (session_now env s3) (nd_path nd) (if er_success r then ''success'' else ''failed'')
       (if er_success r then None else Some (er_message r)) c (er_new_context r) (er_snapshot_key r)
       (budget_opt (ss_budget s3)) (ss_traces s3) = Inr (ss_traces s')"
    using assms(1) attempt_node_frame(2)[of env nd c need "start_trace env nd s2"] a
    by (auto simp: end_trace_def split: sum.splits)
  obtain t where t: "ss_traces s' = ss_traces s @ [t]" "tc_node_path t = nd_path nd"
    "tc_status t = (if er_success r then ''success'' else ''failed'')"
    "tc_error_code t = (if er_success r then None else Some (er_message r))"
    "calculate_context_delta (se_jeq env) c (er_new_context r) = Inr (tc_context_delta t)"
    using trace_start_end e(2,3) by (fastforce simp: start_trace_def tr)
  obtain fs js where m: "members (er_new_context r) = Inr fs" "members c = Inr js"
    "tc_context_delta t = JObj (delta_deleted (er_new_context r) js (delta_changed (se_jeq env) c fs []))"
    using t(5) by (auto simp: calculate_context_delta_def ebind_Inr_conv)
  have "k \<in> fst ` set js \<longleftrightarrow> jcontains k c"
    using members_lookup[OF m(2), of k] by (metis domIff dom_map_of_conv_image_fst jcontains_def)
  then have "jlookup k (tc_context_delta t) = (case jlookup k (er_new_context r) of
        None \<Rightarrow> if jcontains k c then Some JNull else None
      | Some v \<Rightarrow> (case jlookup k c of None \<Rightarrow> Some v | Some v0 \<Rightarrow> if se_jeq env v0 v then None else Some v))"
    using members_lookup[OF m(1), of k] members_distinct[OF assms(4) m(1)]
    by (auto simp: m(3) delta_deleted_lookup delta_changed_lookup jcontains_def split: option.splits)
  then show ?thesis using t by blast
qed

definition sample_start :: node where
  "sample_start = mk_node ''/main/start'' StartNode [''/main/end'']"

lemma sample_start_run:
  "fst (session_execute_node sample_session_env sample_start jempty (new_session sample_session_env [] None 0 [] ())) =
     Inr \<lparr> er_new_context = JObj [(''__module_states__'', JObj [])], er_success = True,
       er_message = ''Node executed successfully'', er_snapshot_key = None, er_paused_at = None \<rparr>"
  by (simp add: session_execute_node_def prepare_context_def needs_snapshot_def meta_flag_def sample_start_def
      mk_node_def new_session_def jput_def nd_type_def jobj_def consume_budget_def bc_consume_defs on_budget_def
      new_budget_controller_def attempt_node_def with_snapshot_def run_node_def on_exec_def execute_node_def
      execute_body_def sbind_eq execute_with_snapshot_def yielded_def pause_of_def Let_def end_trace_def
      on_node_end_def start_trace_def on_node_start_def running_at_def calculate_context_delta_def members_def
      sample_session_env_def)

lemma node_trace_exact_witness:
  "\<exists>t. ss_traces (snd (session_execute_node sample_session_env sample_start jempty
       (new_session sample_session_env [] None 0 [] ()))) = [t] \<and> tc_status t = ''success'' \<and>
     jlookup ''__module_states__'' (tc_context_delta t) = None"
proof -
  let ?s = "new_session sample_session_env [] None 0 [] ()"
  have p: "prepared sample_start jempty ?s = Inr (JObj [(''__module_states__'', JObj [])], False)"
    by (simp add: prepared_def prepare_context_def needs_snapshot_def meta_flag_def sample_start_def mk_node_def
        new_session_def jput_def nd_type_def jobj_def)
  have b: "fst (consume_budget (nd_type sample_start) (ss_budget ?s)) = None"
    by (simp add: consume_budget_def bc_consume_defs on_budget_def new_budget_controller_def new_session_def
        sample_start_def mk_node_def nd_type_def Let_def)
  note x = node_trace_exact[OF _ p b, of sample_session_env _ _ "''__module_states__''"]
  obtain r s' where e: "session_execute_node sample_session_env sample_start jempty ?s = (Inr r, s')"
    and r: "r = \<lparr> er_new_context = JObj [(''__module_states__'', JObj [])], er_success = True,
       er_message = ''Node executed successfully'', er_snapshot_key = None, er_paused_at = None \<rparr>"
    using sample_start_run by (metis prod.collapse)
  have "ss_traces ?s = []" by (simp add: new_session_def)
  moreover have "jwf (er_new_context r)" by (simp add: r)
  moreover have "se_jeq sample_session_env = (=)" by (simp add: sample_session_env_def)
  ultimately show ?thesis using x[OF e] by (auto simp: e r jcontains_def)
qed

end
