(* ===== verification/Scheduler.thy ===== *)
theory Scheduler
  imports Exec_Session
begin

text \<open>
  The topological scheduler (src/modules/scheduler/topo_scheduler.cpp and .h): building the graph,
  the serial main loop with forks, joins, jumps, dynamic waits, generated graphs and yields, resuming,
  and the task graph of the parallel mode.  The scheduler's state is one record; operations are
  state-and-exception computations over it; the main loop, which need not end, has fuel.  The
  iteration order of the unordered node map is a parameter.  The set of executed nodes is the list of
  its elements, newest first.
\<close>

section \<open>State\<close>

datatype scheduler_state = RUNNING | YIELDED | COMPLETED | FAILED

primrec scheduler_state_number :: "scheduler_state \<Rightarrow> nat" where
  "scheduler_state_number RUNNING = 0"
| "scheduler_state_number YIELDED = 1"
| "scheduler_state_number COMPLETED = 2"
| "scheduler_state_number FAILED = 3"

record exec_result =
  xr_success :: bool
  xr_message :: string
  xr_final_context :: json
  xr_paused_at :: "string option"

record 'w scheduler =
  sc_session :: "'w session"
  sc_all_nodes :: "node list"
  sc_node_map :: "(string \<times> node) list"
  sc_reverse_edges :: "(string \<times> string list) list"
  sc_wait_for_dependents :: "(string \<times> string list) list"
  sc_in_degree :: "(string \<times> int) list"
  sc_ready_queue :: "string list"
  sc_executed :: "string list"
  sc_state :: scheduler_state
  sc_yielded_context :: json
  sc_yielded_node_path :: string
  sc_dynamic_graphs :: "parsed_graph list"
  sc_fork_path :: "string option"
  sc_fork_branches :: "string list"
  sc_fork_results :: "json list"
  sc_fork_index :: nat
  sc_executing_fork :: bool
  sc_merge_strategy :: string
  sc_join_wait_for :: "string list"
  sc_join_path :: "string option"

record dag_state =
  dg_nodes :: "(string \<times> node) list"
  dg_reverse_edges :: "(string \<times> string list) list"
  dg_wait_for_dependents :: "(string \<times> string list) list"
  dg_in_degree :: "(string \<times> int) list"
  dg_ready_queue :: "string list"
  dg_executed :: "string list"
  dg_dynamic_graphs :: "parsed_graph list"

record 'w scheduler_env =
  sv_session :: "'w session_env"
  sv_order :: "(string \<times> node) list \<Rightarrow> (string \<times> node) list"
  sv_f2i :: "64 word \<Rightarrow> int"

definition new_scheduler :: "'w scheduler_env \<Rightarrow> execution_budget option \<Rightarrow> int \<Rightarrow> 'w \<Rightarrow> 'w scheduler" where
  "new_scheduler env budget flags w = \<lparr> sc_session = new_session (sv_session env) [] budget flags [] w,
     sc_all_nodes = [], sc_node_map = [], sc_reverse_edges = [], sc_wait_for_dependents = [],
     sc_in_degree = [], sc_ready_queue = [], sc_executed = [], sc_state = RUNNING,
     sc_yielded_context = JNull, sc_yielded_node_path = [], sc_dynamic_graphs = [], sc_fork_path = None,
     sc_fork_branches = [], sc_fork_results = [], sc_fork_index = 0, sc_executing_fork = False,
     sc_merge_strategy = ''error_on_conflict'', sc_join_wait_for = [], sc_join_path = None \<rparr>"

definition empty_dag :: dag_state where
  "empty_dag = \<lparr> dg_nodes = [], dg_reverse_edges = [], dg_wait_for_dependents = [], dg_in_degree = [],
     dg_ready_queue = [], dg_executed = [], dg_dynamic_graphs = [] \<rparr>"

text \<open>Reading and updating the maps with operator[], which creates a missing entry.\<close>

definition kv_get :: "'v \<Rightarrow> 'k \<Rightarrow> ('k \<times> 'v) list \<Rightarrow> 'v" where
  "kv_get d k m = (case map_of m k of None \<Rightarrow> d | Some v \<Rightarrow> v)"

definition kv_upd :: "'v \<Rightarrow> ('v \<Rightarrow> 'v) \<Rightarrow> 'k::linorder \<Rightarrow> ('k \<times> 'v) list \<Rightarrow> ('k \<times> 'v) list" where
  "kv_upd d f k m = kv_ins k (f (kv_get d k m)) m"

definition degree :: "string \<Rightarrow> 'w scheduler \<Rightarrow> int" where
  "degree p s = kv_get 0 p (sc_in_degree s)"

definition has_node :: "string \<Rightarrow> 'w scheduler \<Rightarrow> bool" where
  "has_node p s \<longleftrightarrow> map_of (sc_node_map s) p \<noteq> None"

definition push_ready :: "string \<Rightarrow> 'w scheduler \<Rightarrow> 'w scheduler" where
  "push_ready p s = s \<lparr> sc_ready_queue := sc_ready_queue s @ [p] \<rparr>"

definition insert_executed :: "string \<Rightarrow> 'w scheduler \<Rightarrow> 'w scheduler" where
  "insert_executed p s = s \<lparr> sc_executed := List.insert p (sc_executed s) \<rparr>"

fun sfold :: "('a \<Rightarrow> (unit, 's) act) \<Rightarrow> 'a list \<Rightarrow> (unit, 's) act" where
  "sfold f [] = sret ()"
| "sfold f (x # xs) = sbind (f x) (\<lambda>_. sfold f xs)"

section \<open>Building the graph\<close>

definition register_node :: "node \<Rightarrow> 'w scheduler \<Rightarrow> 'w scheduler" where
  "register_node nd s = s \<lparr> sc_node_map := kv_ins (nd_path nd) nd (sc_node_map s),
     sc_all_nodes := sc_all_nodes s @ [nd] \<rparr>"

definition node_resource :: "node \<Rightarrow> resource option" where
  "node_resource nd = (case nd_body nd of
       ResourceNode t u sc \<Rightarrow> Some \<lparr> rs_path = nd_path nd, rs_type = t, rs_uri = u, rs_scope = sc,
         rs_metadata = nd_metadata nd \<rparr>
     | _ \<Rightarrow> None)"

definition register_resources :: "'w scheduler \<Rightarrow> 'w scheduler" where
  "register_resources s = s \<lparr> sc_session := (sc_session s) \<lparr> ss_resources :=
     foldl (\<lambda>t nd. case node_resource nd of None \<Rightarrow> t | Some r \<Rightarrow> register_resource r t)
       (ss_resources (sc_session s)) (sc_all_nodes s) \<rparr> \<rparr>"

fun get_strings :: "json list \<Rightarrow> string list res" where
  "get_strings [] = Inr []"
| "get_strings (j # js) = ebind (jget_str j) (\<lambda>s. ebind (get_strings js) (\<lambda>ss. Inr (s # ss)))"

definition strings_of :: "json option \<Rightarrow> string list res" where
  "strings_of j = (case j of Some (JArr js) \<Rightarrow> get_strings js | Some (JStr s) \<Rightarrow> Inr [s] | _ \<Rightarrow> Inr [])"

definition collect_wait_for_deps :: "json \<Rightarrow> string list res" where
  "collect_wait_for_deps wfj =
     (if is_obj wfj
      then ebind (strings_of (jlookup ''all_of'' wfj)) (\<lambda>all.
           ebind (strings_of (jlookup ''any_of'' wfj)) (\<lambda>any. Inr (all @ any)))
      else strings_of (Some wfj))"

definition reset_edges :: "node \<Rightarrow> 'w scheduler \<Rightarrow> 'w scheduler" where
  "reset_edges nd s = s \<lparr> sc_in_degree := kv_ins (nd_path nd) 0 (sc_in_degree s),
     sc_reverse_edges := kv_ins (nd_path nd) [] (sc_reverse_edges s),
     sc_wait_for_dependents := kv_ins (nd_path nd) [] (sc_wait_for_dependents s) \<rparr>"

definition count_edge :: "string \<Rightarrow> string \<Rightarrow> 'w scheduler \<Rightarrow> 'w scheduler" where
  "count_edge src dst s = s \<lparr> sc_reverse_edges := kv_upd [] (\<lambda>l. l @ [src]) dst (sc_reverse_edges s),
     sc_in_degree := kv_upd 0 (\<lambda>d. d + 1) dst (sc_in_degree s) \<rparr>"

definition need_node :: "string \<Rightarrow> string \<Rightarrow> (unit, 'w scheduler) act" where
  "need_node what' p s = (if has_node p s then Inr () else Inl (Runtime_error (what' @ p)), s)"

definition add_next_edge :: "string \<Rightarrow> string \<Rightarrow> (unit, 'w scheduler) act" where
  "add_next_edge p q = sbind (need_node ''Next node not found: '' q) (\<lambda>_. smod (count_edge p q))"

definition add_wait_edge :: "string \<Rightarrow> string \<Rightarrow> (unit, 'w scheduler) act" where
  "add_wait_edge p dep = sbind (need_node ''wait_for dependency not found: '' dep) (\<lambda>_.
     smod (\<lambda>s. (count_edge dep p s) \<lparr> sc_wait_for_dependents :=
       kv_upd [] (\<lambda>l. l @ [p]) dep (sc_wait_for_dependents s) \<rparr>))"

definition add_fork_edge :: "string \<Rightarrow> string \<Rightarrow> (unit, 'w scheduler) act" where
  "add_fork_edge p b = sbind (need_node ''Fork branch node not found: '' b) (\<lambda>_. smod (count_edge p b))"

text \<open>The dependencies of a wait_for that is not a template string.\<close>

definition static_waits :: "node \<Rightarrow> string list res" where
  "static_waits nd = (case jlookup ''wait_for'' (nd_metadata nd) of
       None \<Rightarrow> Inr []
     | Some wfj \<Rightarrow> if is_str wfj then Inr [] else collect_wait_for_deps wfj)"

definition add_edges :: "node \<Rightarrow> (unit, 'w scheduler) act" where
  "add_edges nd = sbind (sfold (add_next_edge (nd_path nd)) (nd_next nd)) (\<lambda>_.
     sbind (slift (static_waits nd)) (\<lambda>deps. sfold (add_wait_edge (nd_path nd)) deps))"

definition fork_branches :: "node \<Rightarrow> string list" where
  "fork_branches nd = (case nd_body nd of ForkNode bs \<Rightarrow> bs | _ \<Rightarrow> [])"

definition add_fork_edges :: "node \<Rightarrow> (unit, 'w scheduler) act" where
  "add_fork_edges nd = sfold (add_fork_edge (nd_path nd)) (fork_branches nd)"

definition parse_node_wait_for_deps :: "(unit, 'w scheduler) act" where
  "parse_node_wait_for_deps s =
     sbind (smod (\<lambda>s. foldl (\<lambda>s nd. reset_edges nd s) s (sc_all_nodes s))) (\<lambda>_.
     sbind (sfold add_edges (sc_all_nodes s)) (\<lambda>_.
     sfold add_fork_edges (sc_all_nodes s))) s"

definition seed_initial_ready_queue :: "'w scheduler \<Rightarrow> 'w scheduler" where
  "seed_initial_ready_queue s = s \<lparr> sc_ready_queue := sc_ready_queue s @
     filter (\<lambda>p. degree p s = 0) (map nd_path (sc_all_nodes s)) \<rparr>"

definition build_dag :: "(unit, 'w scheduler) act" where
  "build_dag = sbind (smod register_resources) (\<lambda>_. sbind parse_node_wait_for_deps (\<lambda>_.
     smod seed_initial_ready_queue))"

definition copy_dag_state :: "'w scheduler \<Rightarrow> dag_state" where
  "copy_dag_state s = \<lparr> dg_nodes = sc_node_map s, dg_reverse_edges = sc_reverse_edges s,
     dg_wait_for_dependents = sc_wait_for_dependents s, dg_in_degree = sc_in_degree s,
     dg_ready_queue = sc_ready_queue s, dg_executed = [], dg_dynamic_graphs = [] \<rparr>"

definition append_dynamic_graphs :: "parsed_graph list \<Rightarrow> 'w scheduler \<Rightarrow> 'w scheduler" where
  "append_dynamic_graphs gs s = s \<lparr> sc_dynamic_graphs := sc_dynamic_graphs s @ gs \<rparr>"

definition load_graphs :: "node list \<Rightarrow> 'w scheduler \<Rightarrow> 'w scheduler" where
  "load_graphs nds s = foldl (\<lambda>s nd. register_node (clone nd) s) s nds"

text \<open>The entry point: the first graph that is /__meta__ with an entry_point or /main with an entry.\<close>

fun entry_point :: "parsed_graph list \<Rightarrow> string option res" where
  "entry_point [] = Inr None"
| "entry_point (g # gs) =
     (case (if pg_path g = ''/__meta__'' then jlookup ''entry_point'' (pg_metadata g) else None) of
        Some e \<Rightarrow> ebind (jget_str e) (\<lambda>p. Inr (Some p))
      | None \<Rightarrow> (case (if pg_path g = ''/main'' then jlookup ''entry'' (pg_metadata g) else None) of
           Some e \<Rightarrow> ebind (jget_str e) (\<lambda>p. Inr (Some (pg_path g @ ''/'' @ p)))
         | None \<Rightarrow> entry_point gs))"

definition prepare_dag_state :: "'w scheduler_env \<Rightarrow> (exec_result option, 'w scheduler) act" where
  "prepare_dag_state env = sbind (slift (entry_point
       (case se_full_graphs (sv_session env) of None \<Rightarrow> [] | Some gs \<Rightarrow> gs))) (\<lambda>ep. case ep of
     None \<Rightarrow> sret None
   | Some p \<Rightarrow>
       sbind (smod (\<lambda>s. s \<lparr> sc_ready_queue := [] \<rparr>)) (\<lambda>_.
       sbind (sget (has_node p)) (\<lambda>known.
       if \<not> known then sret (Some \<lparr> xr_success = False, xr_message = ''Entry point not found: '' @ p,
              xr_final_context = JNull, xr_paused_at = None \<rparr>)
       else sbind (smod (push_ready p)) (\<lambda>_. sret None))))"

section \<open>Running nodes, successors, jumps\<close>

fun graphs_in :: "node_effect list \<Rightarrow> parsed_graph list" where
  "graphs_in [] = []"
| "graphs_in (Append_graph g # es) = g # graphs_in es"
| "graphs_in (e # es) = graphs_in es"

text \<open>A node run by the session; its executor's callback appends the graphs it generates.\<close>

definition run_in_session :: "'w scheduler_env \<Rightarrow> node \<Rightarrow> json \<Rightarrow> (session_result, 'w scheduler) act" where
  "run_in_session env nd ctx s =
     (let (r, ses) = session_execute_node (sv_session env) nd ctx (sc_session s);
          old = length (xs_effects (ss_exec (sc_session s)))
      in (r, append_dynamic_graphs (graphs_in (drop old (xs_effects (ss_exec ses)))) (s \<lparr> sc_session := ses \<rparr>)))"

definition drop_degree :: "'w scheduler \<Rightarrow> string \<Rightarrow> 'w scheduler" where
  "drop_degree s p = (let s' = s \<lparr> sc_in_degree := kv_upd 0 (\<lambda>d. d - 1) p (sc_in_degree s) \<rparr>
     in if degree p s' = 0 then push_ready p s' else s')"

definition dependents :: "string \<Rightarrow> 'w scheduler \<Rightarrow> string list" where
  "dependents p s = kv_get [] p (sc_wait_for_dependents s)"

definition update_successors :: "node \<Rightarrow> string \<Rightarrow> 'w scheduler \<Rightarrow> 'w scheduler" where
  "update_successors nd p s = foldl drop_degree s (nd_next nd @ dependents p s)"

definition kJumpMarker :: string where
  "kJumpMarker = ''Jumping to:''"

definition process_jump :: "string \<Rightarrow> 'w scheduler \<Rightarrow> bool \<times> 'w scheduler" where
  "process_jump message s = (case find_sub kJumpMarker message of
       None \<Rightarrow> (False, s)
     | Some pos \<Rightarrow> (True, s \<lparr> sc_ready_queue := [drop (pos + length kJumpMarker) message] \<rparr>))"

section \<open>Forks and joins\<close>

definition in_branch :: "string \<Rightarrow> string \<Rightarrow> bool" where
  "in_branch branch p \<longleftrightarrow> starts_with (branch @ ''/'') p \<or> p = branch"

definition find_branch_start_node :: "'w scheduler_env \<Rightarrow> string \<Rightarrow> 'w scheduler \<Rightarrow> string res" where
  "find_branch_start_node env branch s =
     (case filter (in_branch branch) (map fst (sv_order env (sc_node_map s))) of
        [] \<Rightarrow> Inl (Runtime_error (''No starting node found for branch path: '' @ branch))
      | p # _ \<Rightarrow> Inr p)"

definition init_branch_queue :: "'w scheduler_env \<Rightarrow> string \<Rightarrow> string \<Rightarrow> 'w scheduler \<Rightarrow> string list" where
  "init_branch_queue env branch start s = (if start = [] then [] else [start]) @
     filter (\<lambda>p. p \<noteq> start \<and> in_branch branch p \<and> degree p s = 0) (map fst (sv_order env (sc_node_map s)))"

definition process_branch_end_node :: "node \<Rightarrow> bool res" where
  "process_branch_end_node nd =
     (if nd_type nd \<noteq> END then Inr False
      else ebind (jvalue_str ''termination_mode'' ''hard'' (nd_metadata nd)) (\<lambda>m.
        if m \<noteq> ''soft'' then Inl Hard_end_exception else Inr True))"

text \<open>The successors of a branch node, with the branch's own copy of the degrees; a missing entry is
  created at zero and becomes negative.\<close>

fun branch_successors :: "(string \<times> node) list \<Rightarrow> string list \<Rightarrow> (string \<times> int) list \<Rightarrow> string list \<Rightarrow>
    (string \<times> int) list \<times> string list" where
  "branch_successors nm [] deg q = (deg, q)"
| "branch_successors nm (p # ps) deg q =
     (if map_of nm p = None then branch_successors nm ps deg q
      else let deg' = kv_upd 0 (\<lambda>d. d - 1) p deg in
        branch_successors nm ps deg' (if kv_get 0 p deg' = 0 then q @ [p] else q))"

lemma unexecuted_decreases:
  assumes "map_of nm p = Some nd" "p \<notin> set ex"
  shows "card (fst ` set nm - insert p (set ex)) < card (fst ` set nm - set ex)"
proof -
  have "p \<in> fst ` set nm" using assms(1) by (metis domI dom_map_of_conv_image_fst)
  then show ?thesis using assms(2) by (intro psubset_card_mono) auto
qed

text \<open>The loop of \<open>execute_single_branch\<close>: the context and the path of the last node executed.\<close>

function branch_loop :: "'w scheduler_env \<Rightarrow> (string \<times> node) list \<Rightarrow> string list \<Rightarrow> string list \<Rightarrow>
    (string \<times> int) list \<Rightarrow> json \<Rightarrow> string \<Rightarrow> 'w scheduler \<Rightarrow> (json \<times> string) res \<times> 'w scheduler" where
  "branch_loop env nm [] ex deg ctx last_path s = (Inr (ctx, last_path), s)"
| "branch_loop env nm (p # q) ex deg ctx last_path s =
     (if p \<in> set ex then branch_loop env nm q ex deg ctx last_path s
      else case map_of nm p of
        None \<Rightarrow> (Inl (Runtime_error (''Node not found in map during branch execution: '' @ p)), s)
      | Some nd \<Rightarrow>
          (case run_in_session env nd ctx s of
             (Inl e, s') \<Rightarrow> (Inl e, s')
           | (Inr r, s') \<Rightarrow>
               if \<not> er_success r
               then (Inl (Runtime_error (''Branch execution failed at '' @ p @ '': '' @ er_message r)), s')
               else (case process_branch_end_node nd of
                   Inl e \<Rightarrow> (Inl e, s')
                 | Inr True \<Rightarrow> (Inr (er_new_context r, p), s')
                 | Inr False \<Rightarrow> branch_loop env nm (snd (branch_successors nm (nd_next nd) deg q)) (p # ex)
                     (fst (branch_successors nm (nd_next nd) deg q)) (er_new_context r) p s')))"
  by pat_completeness auto

termination
  by (relation "measures [\<lambda>(env, nm, q, ex, _). card (fst ` set nm - set ex), \<lambda>(env, nm, q, _). length q]")
    (auto simp: unexecuted_decreases)

definition execute_single_branch :: "'w scheduler_env \<Rightarrow> string \<Rightarrow> json \<Rightarrow> (json \<times> string, 'w scheduler) act" where
  "execute_single_branch env branch ctx s = (case find_branch_start_node env branch s of
       Inl e \<Rightarrow> (Inl e, s)
     | Inr start \<Rightarrow> branch_loop env (sc_node_map s) (init_branch_queue env branch start s) [] (sc_in_degree s) ctx [] s)"

text \<open>The remaining branches, each from a copy of the fork's snapshot; of a finished branch the last node
  feeds the main graph and counts as executed.\<close>

fun run_branches :: "'w scheduler_env \<Rightarrow> json \<Rightarrow> string list \<Rightarrow> (unit, 'w scheduler) act" where
  "run_branches env snap [] = sret ()"
| "run_branches env snap (b # bs) =
     sbind (execute_single_branch env b snap) (\<lambda>(ctx, last_path).
     sbind (smod (\<lambda>s.
       (case map_of (sc_node_map s) last_path of
          None \<Rightarrow> s
        | Some nd \<Rightarrow> insert_executed last_path (update_successors nd last_path s))
       \<lparr> sc_fork_results := sc_fork_results s @ [ctx], sc_fork_index := sc_fork_index s + 1 \<rparr>)) (\<lambda>_.
     run_branches env snap bs))"

definition execute_fork_branches :: "'w scheduler_env \<Rightarrow> (unit, 'w scheduler) act" where
  "execute_fork_branches env s =
     (if \<not> sc_executing_fork s \<or> sc_fork_branches s = [] then (Inr (), s)
      else case sc_fork_path s of
        None \<Rightarrow> (Inl Bad_optional_access, s)
      | Some p \<Rightarrow> (case get_snapshot p (ss_store (sc_session s)) of
          None \<Rightarrow> (Inl (Runtime_error (''Snapshot for fork node not found: '' @ p)), s)
        | Some snap \<Rightarrow> run_branches env snap (drop (sc_fork_index s) (sc_fork_branches s)) s))"

definition handle_fork_branches_block :: "'w scheduler_env \<Rightarrow> (unit, 'w scheduler) act" where
  "handle_fork_branches_block env s = (if sc_executing_fork s then execute_fork_branches env s else (Inr (), s))"

definition start_fork_simulation :: "'w scheduler_env \<Rightarrow> node \<Rightarrow> json \<Rightarrow> 'w scheduler \<Rightarrow> 'w scheduler" where
  "start_fork_simulation env nd ctx s = s \<lparr>
     sc_session := (sc_session s) \<lparr> ss_store :=
       save_snapshot (se_dump (sv_session env)) (nd_path nd) ctx (ss_store (sc_session s)) \<rparr>,
     sc_fork_path := Some (nd_path nd), sc_fork_branches := fork_branches nd, sc_fork_results := [],
     sc_fork_index := 0, sc_executing_fork := True \<rparr>"

text \<open>\<open>finish_fork_simulation\<close>: its log line reads the optional fork path, and log arguments are
  evaluated at every level.\<close>

definition finish_fork_simulation :: "(unit, 'w scheduler) act" where
  "finish_fork_simulation s = (let s1 = s \<lparr> sc_executing_fork := False \<rparr> in
     case sc_fork_path s of
       None \<Rightarrow> (Inl Bad_optional_access, s1)
     | Some p \<Rightarrow> (Inr (), s1 \<lparr> sc_fork_path := None, sc_fork_branches := [] \<rparr>))"

definition start_join_simulation :: "string \<Rightarrow> string list \<Rightarrow> string \<Rightarrow> 'w scheduler \<Rightarrow> 'w scheduler" where
  "start_join_simulation path waits strategy s = s \<lparr> sc_join_path := Some path,
     sc_merge_strategy := strategy,
     sc_join_wait_for := (if waits = [] then sc_join_wait_for s else waits) \<rparr>"

fun merge_results :: "'w scheduler_env \<Rightarrow> merge_policy \<Rightarrow> json list \<Rightarrow> json \<Rightarrow> json res" where
  "merge_results env pol [] ctx = Inr ctx"
| "merge_results env pol (r # rs) ctx =
     (case ctx_merge (se_jeq (sv_session env)) (se_dump (sv_session env)) pol ctx r of
        (_, Some e) \<Rightarrow> Inl e
      | (ctx', None) \<Rightarrow> merge_results env pol rs ctx')"

definition finish_join_simulation :: "'w scheduler_env \<Rightarrow> json \<Rightarrow> (json, 'w scheduler) act" where
  "finish_join_simulation env ctx s =
     (if length (sc_fork_results s) \<noteq> length (sc_fork_branches s)
      then (Inl (Runtime_error ''JoinNode: Not all fork branches have results for merging.''), s)
      else case merge_results env (default_merge_policy \<lparr> default_strategy := sc_merge_strategy s \<rparr>)
                  (sc_fork_results s) ctx of
        Inl e \<Rightarrow> (Inl e, s)
      | Inr ctx' \<Rightarrow> (Inr ctx', s \<lparr> sc_join_path := None, sc_fork_results := [], sc_join_wait_for := [] \<rparr>))"

definition process_fork_join :: "'w scheduler_env \<Rightarrow> node \<Rightarrow> json \<Rightarrow> (json, 'w scheduler) act" where
  "process_fork_join env nd ctx = (case nd_body nd of
       JoinNode waits strategy \<Rightarrow>
         sbind (smod (start_join_simulation (nd_path nd) waits strategy)) (\<lambda>_.
         sbind (finish_join_simulation env ctx) (\<lambda>ctx'.
         sbind finish_fork_simulation (\<lambda>_. sret ctx')))
     | _ \<Rightarrow> sthrow (Runtime_error ''Node type JOIN but not JoinNode instance''))"

definition handle_fork_node :: "'w scheduler_env \<Rightarrow> node \<Rightarrow> json \<Rightarrow> (unit, 'w scheduler) act" where
  "handle_fork_node env nd ctx = (if nd_type nd = FORK then smod (start_fork_simulation env nd ctx)
     else sthrow (Runtime_error ''Node type FORK but not ForkNode instance''))"

section \<open>Dispatch, waits, termination, generated graphs\<close>

datatype dispatch = Nothing | Found string node | Stop exec_result

definition failure :: "string \<Rightarrow> json \<Rightarrow> exec_result" where
  "failure msg ctx = \<lparr> xr_success = False, xr_message = msg, xr_final_context = ctx, xr_paused_at = None \<rparr>"

definition pop_ready_node :: "json \<Rightarrow> 'w scheduler \<Rightarrow> dispatch \<times> 'w scheduler" where
  "pop_ready_node ctx s = (case sc_ready_queue s of
       [] \<Rightarrow> (Nothing, s)
     | p # q \<Rightarrow> ((case map_of (sc_node_map s) p of
            None \<Rightarrow> Stop (failure (''Node not found in map: '' @ p) ctx)
          | Some nd \<Rightarrow> Found p nd), s \<lparr> sc_ready_queue := q \<rparr>))"

definition deps_json :: "(string \<times> string list) list \<Rightarrow> json" where
  "deps_json ds = jobj (map (\<lambda>(p, l). (p, JArr (map JStr l))) ds)"

definition dispatch_ready_nodes :: "'w scheduler_env \<Rightarrow> json \<Rightarrow> 'w scheduler \<Rightarrow> dispatch \<times> 'w scheduler" where
  "dispatch_ready_nodes env ctx s =
     (if sc_ready_queue s \<noteq> [] \<and> \<not> sc_executing_fork s then pop_ready_node ctx s
      else if sc_ready_queue s \<noteq> [] \<and> sc_executing_fork s \<and> sc_fork_index s = length (sc_fork_branches s)
      then pop_ready_node ctx (s \<lparr> sc_session := check_and_requeue_dynamic_deps [] (sc_session s) \<rparr>)
      else if ss_pending_deps (sc_session s) \<noteq> []
      then (Stop (failure (''Execution stopped: Unmet dynamic dependencies. Pending: '' @
              se_dump (sv_session env) (deps_json (ss_pending_deps (sc_session s)))) ctx), s)
      else (Nothing, s))"

definition rendered_deps :: "string \<Rightarrow> json \<Rightarrow> string list" where
  "rendered_deps text j = (case j of JArr js \<Rightarrow> string_items js | JStr p \<Rightarrow> [p] | _ \<Rightarrow> [text])"

text \<open>\<open>resolve_dynamic_waits\<close>: a result that ends the run, or whether the node can execute now; a node
  that cannot goes to the back of the queue.\<close>

definition resolve_dynamic_waits :: "'w scheduler_env \<Rightarrow> node \<Rightarrow> string \<Rightarrow> json \<Rightarrow> 'w scheduler \<Rightarrow>
    (exec_result option \<times> bool) \<times> 'w scheduler" where
  "resolve_dynamic_waits env nd p ctx s = (case jlookup ''wait_for'' (nd_metadata nd) of
       Some (JStr expr) \<Rightarrow>
         (case ebind (render (se_exec (sv_session env)) expr ctx) (\<lambda>t.
                 ebind (se_json_parse (sv_session env) t) (\<lambda>j. Inr (rendered_deps t j))) of
            Inl e \<Rightarrow> ((Some (failure (''Failed to resolve dynamic wait_for for node '' @ quoted p @ '': '' @ what e) ctx),
                       True), s)
          | Inr deps \<Rightarrow>
              if list_all (\<lambda>d. d \<in> set (sc_executed s)) deps then ((None, True), s)
              else ((None, False), push_ready p s))
     | _ \<Rightarrow> ((None, True), s))"

definition check_end_termination :: "node \<Rightarrow> string \<Rightarrow> 'w scheduler \<Rightarrow> bool res" where
  "check_end_termination nd p s =
     (if nd_type nd \<noteq> END then Inr False
      else ebind (jvalue_str ''termination_mode'' ''hard'' (nd_metadata nd)) (\<lambda>m.
        Inr (m = ''hard'' \<and> \<not> sc_executing_fork s \<and> \<not> is_system_path p)))"

text \<open>The graphs are moved out of the list but the list keeps its (now empty) elements.\<close>

definition rebuild_dynamic_graph :: "dag_state \<Rightarrow> (dag_state, 'w scheduler) act" where
  "rebuild_dynamic_graph dag s =
     (if sc_dynamic_graphs s = [] then (Inr dag, s)
      else
        let nds = map clone (sc_all_nodes s) @ map clone (concat (map pg_nodes (sc_dynamic_graphs s)));
            s1 = s \<lparr> sc_dynamic_graphs := map (\<lambda>g. g \<lparr> pg_nodes := [] \<rparr>) (sc_dynamic_graphs s),
              sc_node_map := [], sc_reverse_edges := [], sc_in_degree := [], sc_all_nodes := [] \<rparr>
        in sbind (smod (\<lambda>s. foldl (\<lambda>s nd. register_node nd s) s nds)) (\<lambda>_.
           sbind build_dag (\<lambda>_. sget copy_dag_state)) s1)"

definition finalize_execution :: "'w scheduler_env \<Rightarrow> json \<Rightarrow> 'w scheduler \<Rightarrow> exec_result" where
  "finalize_execution env ctx s =
     (if bc_exceeded (session_now (sv_session env) (sc_session s)) (ss_budget (sc_session s))
      then failure ''Execution stopped: Budget exceeded'' ctx
      else let unexecuted = filter (\<lambda>p. p \<notin> set (sc_executed s))
                 (sort (remdups (filter (\<lambda>p. \<not> is_system_path p) (map nd_path (sc_all_nodes s)))))
        in if unexecuted \<noteq> []
           then failure (''Execution stopped: Unmet dependencies or cycles. Unexecuted nodes: '' @
                  se_dump (sv_session env) (JArr (map JStr unexecuted))) ctx
           else \<lparr> xr_success = True, xr_message = ''Execution completed successfully'',
                  xr_final_context = ctx, xr_paused_at = None \<rparr>)"

section \<open>Saving and restoring the state at a yield\<close>

definition serialize_dag_state :: "'w scheduler \<Rightarrow> json" where
  "serialize_dag_state s = jobj
     [(''ready_queue'', JArr (map JStr (sc_ready_queue s))),
      (''in_degree'', jobj (map (\<lambda>(p, d). (p, JInt d)) (sc_in_degree s))),
      (''executed'', JArr (map JStr (sc_executed s)))]"

definition restored_degree :: "'w scheduler_env \<Rightarrow> json \<Rightarrow> int option" where
  "restored_degree env j = (case j of JInt i \<Rightarrow> Some (wrap32 i) | JFloat f \<Rightarrow> Some (sv_f2i env f) | _ \<Rightarrow> None)"

definition restored_degrees :: "'w scheduler_env \<Rightarrow> json option \<Rightarrow> (string \<times> int) list" where
  "restored_degrees env j = (case j of
       Some (JObj kvs) \<Rightarrow> foldl (\<lambda>m (p, v). case restored_degree env v of Some d \<Rightarrow> kv_ins p d m | None \<Rightarrow> m) [] kvs
     | _ \<Rightarrow> [])"

definition json_strings :: "json option \<Rightarrow> string list" where
  "json_strings j = (case j of Some (JArr js) \<Rightarrow> string_items js | _ \<Rightarrow> [])"

definition restore_dag_state :: "'w scheduler_env \<Rightarrow> json \<Rightarrow> 'w scheduler \<Rightarrow> 'w scheduler" where
  "restore_dag_state env j s =
     (if \<not> is_obj j then s
      else s \<lparr> sc_ready_queue := json_strings (jlookup ''ready_queue'' j),
             sc_in_degree := restored_degrees env (jlookup ''in_degree'' j),
             sc_executed := foldr List.insert (json_strings (jlookup ''executed'' j)) [] \<rparr>)"

section \<open>The main loop\<close>

datatype step_out = Go_on dag_state json | Break json | Return exec_result

definition complete :: "node \<Rightarrow> string \<Rightarrow> (unit, 'w scheduler) act" where
  "complete nd p = smod (update_successors nd p)"

definition suspend :: "string \<Rightarrow> json \<Rightarrow> 'w scheduler \<Rightarrow> exec_result \<times> 'w scheduler" where
  "suspend p ctx s =
     (let s1 = push_ready p s;
          y = \<lparr> ys_module_path = p, ys_resume_context = serialize_dag_state s1 \<rparr>
      in (\<lparr> xr_success = True, xr_message = ''YIELDED at '' @ p, xr_final_context = ctx, xr_paused_at = None \<rparr>,
          s1 \<lparr> sc_session := set_pending_yield y (sc_session s1), sc_state := YIELDED,
               sc_yielded_context := ctx, sc_yielded_node_path := p \<rparr>))"

text \<open>After a node succeeded: yield, pause, successors, end, generated graphs.\<close>

definition after_node :: "'w scheduler_env \<Rightarrow> dag_state \<Rightarrow> node \<Rightarrow> string \<Rightarrow> session_result \<Rightarrow>
    (step_out, 'w scheduler) act" where
  "after_node env dag nd p r s =
     (let ctx = er_new_context r in
      if ss_pending_yield (sc_session s) \<noteq> None
      then (let (x, s1) = suspend p ctx s in (Inr (Return x), s1))
      else
        let s1 = insert_executed p s in
        case er_paused_at r of
          Some q \<Rightarrow> (Inr (Return \<lparr> xr_success = True, xr_message = ''Paused at LLM call'',
                      xr_final_context = ctx, xr_paused_at = Some q \<rparr>), s1)
        | None \<Rightarrow>
            let s2 = update_successors nd p s1 in
            case check_end_termination nd p s2 of
              Inl e \<Rightarrow> (Inl e, s2)
            | Inr True \<Rightarrow> (Inr (Break ctx), s2)
            | Inr False \<Rightarrow>
                (case rebuild_dynamic_graph dag s2 of
                   (Inl e, s3) \<Rightarrow> (Inl e, s3)
                 | (Inr dag', s3) \<Rightarrow> (Inr (Go_on dag' ctx),
                     s3 \<lparr> sc_session := check_and_requeue_dynamic_deps [p] (sc_session s3) \<rparr>)))"

definition run_regular :: "'w scheduler_env \<Rightarrow> dag_state \<Rightarrow> node \<Rightarrow> string \<Rightarrow> json \<Rightarrow>
    (step_out, 'w scheduler) act" where
  "run_regular env dag nd p ctx s = (case run_in_session env nd ctx s of
       (Inl e, s1) \<Rightarrow> (Inl e, s1)
     | (Inr r, s1) \<Rightarrow>
         if \<not> er_success r
         then (let (jumped, s2) = process_jump (er_message r) s1 in
               (Inr (if jumped then Go_on dag ctx
                     else Return \<lparr> xr_success = False, xr_message = er_message r, xr_final_context = ctx,
                       xr_paused_at = er_paused_at r \<rparr>), s2))
         else after_node env dag nd p r s1)"

text \<open>One iteration of the loop.\<close>

definition main_step :: "'w scheduler_env \<Rightarrow> dag_state \<Rightarrow> json \<Rightarrow> (step_out, 'w scheduler) act" where
  "main_step env dag ctx =
     sbind (handle_fork_branches_block env) (\<lambda>_ s.
     case dispatch_ready_nodes env ctx s of
       (Stop r, s1) \<Rightarrow> (Inr (Return r), s1)
     | (Nothing, s1) \<Rightarrow> (Inr (Break ctx), s1)
     | (Found p nd, s1) \<Rightarrow>
         if p \<in> set (sc_executed s1) then (Inr (Go_on dag ctx), s1)
         else (case resolve_dynamic_waits env nd p ctx s1 of
            ((Some r, _), s2) \<Rightarrow> (Inr (Return r), s2)
          | ((None, False), s2) \<Rightarrow> (Inr (Go_on dag ctx), s2)
          | ((None, True), s2) \<Rightarrow>
              if nd_type nd = FORK
              then sbind (handle_fork_node env nd ctx) (\<lambda>_. sbind (smod (insert_executed p)) (\<lambda>_.
                   sbind (complete nd p) (\<lambda>_. sret (Go_on dag ctx)))) s2
              else if nd_type nd = JOIN
              then sbind (process_fork_join env nd ctx) (\<lambda>ctx'. sbind (smod (insert_executed p)) (\<lambda>_.
                   sbind (complete nd p) (\<lambda>_. sret (Go_on dag ctx')))) s2
              else run_regular env dag nd p ctx s2))"

text \<open>The loop, None when the fuel does not suffice.  Its condition reads the queue of the DagState copy,
  which dispatching does not shorten.\<close>

fun run_main_loop :: "'w scheduler_env \<Rightarrow> nat \<Rightarrow> dag_state \<Rightarrow> json \<Rightarrow> 'w scheduler \<Rightarrow>
    (exec_result res \<times> 'w scheduler) option" where
  "run_main_loop env 0 dag ctx s = None"
| "run_main_loop env (Suc n) dag ctx s =
     (if dg_ready_queue dag = [] \<and> ss_pending_deps (sc_session s) = []
      then Some (Inr (finalize_execution env ctx s), s)
      else case main_step env dag ctx s of
        (Inl e, s1) \<Rightarrow> Some (Inl e, s1)
      | (Inr (Return r), s1) \<Rightarrow> Some (Inr r, s1)
      | (Inr (Break ctx'), s1) \<Rightarrow> Some (Inr (finalize_execution env ctx' s1), s1)
      | (Inr (Go_on dag' ctx'), s1) \<Rightarrow> run_main_loop env n dag' ctx' s1)"

definition execute :: "'w scheduler_env \<Rightarrow> nat \<Rightarrow> json \<Rightarrow> 'w scheduler \<Rightarrow>
    (exec_result res \<times> 'w scheduler) option" where
  "execute env fuel ctx s = (case prepare_dag_state env s of
       (Inl e, s1) \<Rightarrow> Some (Inl e, s1)
     | (Inr (Some r), s1) \<Rightarrow> Some (Inr r, s1)
     | (Inr None, s1) \<Rightarrow> (case build_dag s1 of
         (Inl e, s2) \<Rightarrow> Some (Inl e, s2)
       | (Inr _, s2) \<Rightarrow> run_main_loop env fuel (copy_dag_state s2) ctx s2))"

definition overlay :: "json \<Rightarrow> (string \<times> json) list \<Rightarrow> json res" where
  "overlay ctx kvs = foldl (\<lambda>r (k, v). ebind r (jput k v)) (Inr ctx) kvs"

definition resume_yield :: "'w scheduler_env \<Rightarrow> nat \<Rightarrow> json \<Rightarrow> 'w scheduler \<Rightarrow>
    (exec_result res \<times> 'w scheduler) option" where
  "resume_yield env fuel updated s =
     (if sc_state s \<noteq> YIELDED
      then Some (Inr (failure (''resume_yield called but scheduler not in YIELDED state (current='' @
             nat_str (scheduler_state_number (sc_state s)) @ '')'') (sc_yielded_context s)), s)
      else case ss_pending_yield (sc_session s) of
        None \<Rightarrow> Some (Inr (failure ''resume_yield: pending_yield_ missing'' (sc_yielded_context s)), s)
      | Some y \<Rightarrow>
          let s1 = restore_dag_state env (ys_resume_context y) s in
          case ebind (members updated) (overlay (sc_yielded_context s)) of
            Inl e \<Rightarrow> Some (Inl e, s1)
          | Inr merged \<Rightarrow>
              let s2 = s1 \<lparr> sc_session := clear_pending_yield (sc_session s1), sc_state := RUNNING,
                          sc_yielded_context := JNull, sc_yielded_node_path := [] \<rparr>
              in run_main_loop env fuel (copy_dag_state s2) merged s2)"

section \<open>The parallel mode\<close>

text \<open>The precedences between the tasks: a pair (a, b) lets a run before b.  The initial task that precedes
  every node is left out.\<close>

definition parallel_edges :: "dag_state \<Rightarrow> (string \<times> string) list" where
  "parallel_edges dag = concat (map (\<lambda>(path, deps).
     map (\<lambda>dep. (dep, path)) (filter (\<lambda>dep. map_of (dg_nodes dag) dep \<noteq> None \<and> map_of (dg_nodes dag) path \<noteq> None) deps))
     (dg_wait_for_dependents dag))"

text \<open>The body of a node's task: an empty context in, the resulting context dropped; the paths of the
  nodes that succeeded are collected.\<close>

definition parallel_task :: "'w scheduler_env \<Rightarrow> dag_state \<Rightarrow> string \<Rightarrow> string list \<Rightarrow> (string list, 'w scheduler) act" where
  "parallel_task env dag p done' s = (case map_of (dg_nodes dag) p of
       None \<Rightarrow> (Inr done', s)
     | Some nd \<Rightarrow> (case run_in_session env nd JNull s of
          (Inl e, s1) \<Rightarrow> (Inl e, s1)
        | (Inr r, s1) \<Rightarrow>
            if \<not> er_success r then (Inr done', snd (process_jump (er_message r) s1))
            else (Inr (done' @ [p]), update_successors nd p s1)))"

end
