(* ===== verification/Static_Graphs.thy ===== *)
theory Static_Graphs
  imports Scheduler
begin

text \<open>
  The scheduler on static graphs: graphs without forks, joins, yields, generated subgraphs and template
  waits.  The build counts every edge, the main loop keeps the counts exact (Kahn's algorithm), and
  therefore executes an acyclic graph completely, every node once and after everything it depends on.
\<close>

section \<open>Nodes that generate no graphs\<close>

lemma graphs_in_append [simp]: "graphs_in (es @ fs) = graphs_in es @ graphs_in fs"
  by (induction es rule: graphs_in.induct) auto

definition quiet :: "('a, 'w exec_state) act \<Rightarrow> bool" where
  "quiet m \<longleftrightarrow> (\<forall>st. \<exists>es. xs_effects (snd (m st)) = xs_effects st @ es \<and> graphs_in es = [])"

lemma quiet_sret: "quiet (sret x)" by (simp add: quiet_def)

lemma quiet_sthrow: "quiet (sthrow e)" by (simp add: quiet_def)

lemma quiet_slift: "quiet (slift r)" by (simp add: quiet_def)

lemma quiet_sget: "quiet (sget f)" by (simp add: quiet_def)

lemma quiet_count: "quiet (smod (\<lambda>st. st \<lparr> xs_tool_call_count := c \<rparr>))" by (simp add: quiet_def)

lemma quiet_on_world: "quiet (on_world f)" by (auto simp: quiet_def on_world_def split_beta)

lemma quiet_on_world_res: "quiet (on_world_res f)" by (auto simp: quiet_def on_world_res_def split_beta)

lemmas quiet_basic = quiet_sret quiet_sthrow quiet_slift quiet_sget quiet_count quiet_on_world quiet_on_world_res

lemma quiet_sbind: "quiet m \<Longrightarrow> (\<And>x. quiet (k x)) \<Longrightarrow> quiet (sbind m k)"
proof -
  assume m: "quiet m" and k: "\<And>x. quiet (k x)"
  show "quiet (sbind m k)"
    unfolding quiet_def
  proof
    fix st
    obtain es where es: "xs_effects (snd (m st)) = xs_effects st @ es" "graphs_in es = []"
      using m by (auto simp: quiet_def)
    show "\<exists>es. xs_effects (snd (sbind m k st)) = xs_effects st @ es \<and> graphs_in es = []"
    proof (cases "fst (m st)")
      case (Inl e)
      then show ?thesis using es by (simp add: sbind_eq)
    next
      case (Inr x)
      obtain fs where "xs_effects (snd (k x (snd (m st)))) = xs_effects (snd (m st)) @ fs" "graphs_in fs = []"
        using k[of x] by (auto simp: quiet_def)
      then show ?thesis using Inr es by (simp add: sbind_eq)
    qed
  qed
qed

lemma quiet_effect: "graphs_in es = [] \<Longrightarrow> quiet (effect es)"
  by (simp add: quiet_def effect_def)

lemma graphs_in_pushes [simp]: "graphs_in (map Sink_push cs) = []"
  by (induction cs) auto

lemma quiet_effects: "quiet (bus_effect env b)" "quiet (push_text t)" "quiet (put_ctx k v c)"
  by (simp_all add: quiet_def bus_effect_def effect_def push_text_def put_ctx_def)

lemmas quiet_intros = quiet_basic quiet_sbind quiet_effects

lemma quiet_dsl: "quiet (execute_dsl_node env nd p t c ks ctx)"
  by (cases ks) (auto simp: execute_dsl_node_def dsl_stream_def dsl_call_def llm_output_def
      intro!: quiet_intros split: option.splits)

lemma quiet_dispatch: "quiet (dispatch_to_tool env tool path args)"
  by (auto simp: dispatch_to_tool_def call_registry_def intro!: quiet_intros split: option.splits)

lemma quiet_errors: "quiet (handle_tool_errors env nd tool r)"
  by (auto simp: handle_tool_errors_def Let_def intro!: quiet_intros split: error_code.splits option.splits)

lemma quiet_tool: "quiet (execute_tool_call env nd tool args ks ctx)"
  by (auto simp: execute_tool_call_def intro!: quiet_intros quiet_dispatch quiet_errors)

lemma quiet_yield: "quiet (execute_yield env ok nd v m p ctx)"
  by (auto simp: execute_yield_def yield_pull_def intro!: quiet_intros split: option.splits sum.splits prod.splits)

lemma quiet_execute: "nd_type nd \<noteq> GENERATE_SUBGRAPH \<Longrightarrow> quiet (execute_node env ok nd ctx)"
  by (cases "nd_body nd") (auto simp: execute_node_def execute_body_def nd_type_def
      intro!: quiet_intros quiet_dsl quiet_tool quiet_yield)

lemma session_no_graphs:
  assumes "nd_type nd \<noteq> GENERATE_SUBGRAPH"
  shows "graphs_in (drop (length (xs_effects (ss_exec s)))
    (xs_effects (ss_exec (snd (session_execute_node env nd ctx s))))) = []"
proof -
  have r: "\<exists>es. xs_effects (ss_exec (snd (run_node env nd c s1))) = xs_effects (ss_exec s1) @ es \<and> graphs_in es = []"
    for c s1
  proof -
    have q: "\<exists>es. xs_effects (snd (execute_node (se_exec env) ok nd c (ss_exec s1))) = xs_effects (ss_exec s1) @ es \<and>
        graphs_in es = []" for ok
      using quiet_execute[OF assms] unfolding quiet_def by blast
    have "snd (run_node env nd c s1) = snd (on_exec (execute_node (se_exec env)
        (\<lambda>w. \<not> bc_exceeded (se_now env w) (ss_budget s1)) nd c) s1)"
      using assms by (cases "nd_body nd") (auto simp: run_node_def Let_def nd_type_def)
    then show ?thesis using q by (simp add: on_exec_def split_beta)
  qed
  have w: "ss_exec (snd (with_snapshot env nd c need s1)) = ss_exec (snd (run_node env nd c s1))" for c need s1
    by (simp add: with_snapshot_def split_beta Let_def)
  have a: "ss_exec (snd (attempt_node env nd c need s1)) = ss_exec (snd (run_node env nd c s1))" for c need s1
  proof -
    obtain x s2 where "with_snapshot env nd c need s1 = (x, s2)" by fastforce
    then show ?thesis using w[of c need s1]
      by (cases x) (auto simp: attempt_node_def Let_def set_pending_yield_def)
  qed
  have e: "ss_exec (snd (end_trace env nd c x s1)) = ss_exec s1" for c x s1
    by (auto simp: end_trace_def split: sum.splits)
  have "\<exists>es. xs_effects (ss_exec (snd (session_execute_node env nd ctx s))) = xs_effects (ss_exec s) @ es \<and>
      graphs_in es = []"
  proof (cases "ebind (prepare_context ctx s) (\<lambda>ctx. ebind (needs_snapshot nd) (\<lambda>need. Inr (ctx, need)))")
    case (Inl x)
    then show ?thesis by (simp add: session_execute_node_def)
  next
    case (Inr p)
    obtain c need where p: "p = (c, need)" by fastforce
    define s1 where "s1 = (if need then s \<lparr> ss_store := save_snapshot (se_dump env) (nd_path nd) c (ss_store s) \<rparr> else s)"
    have s1: "ss_exec s1 = ss_exec s" "ss_budget s1 = ss_budget s" by (simp_all add: s1_def)
    obtain no b where b: "consume_budget (nd_type nd) (ss_budget s1) = (no, b)" by fastforce
    have x: "session_execute_node env nd ctx s = (case no of Some msg \<Rightarrow> (Inr (refusal msg nd need), s1 \<lparr> ss_budget := b \<rparr>)
        | None \<Rightarrow> (let (r, s3) = attempt_node env nd c need (start_trace env nd (s1 \<lparr> ss_budget := b \<rparr>))
                   in end_trace env nd c r s3))"
      using Inr p b by (cases need; cases no) (simp_all add: session_execute_node_def s1_def Let_def)
    show ?thesis
    proof (cases no)
      case None
      then show ?thesis using r[of c "start_trace env nd (s1 \<lparr> ss_budget := b \<rparr>)"] s1
        by (simp add: x e a split_beta Let_def)
    qed (simp add: x s1)
  qed
  then show ?thesis by auto
qed

section \<open>Counting edges\<close>

lemma kv_get_upd: "kv_get d k (kv_upd d f k' m) = (if k = k' then f (kv_get d k m) else kv_get d k m)"
  by (simp add: kv_get_def kv_upd_def)

lemma kv_get_ins: "kv_get d k (kv_ins k' v m) = (if k = k' then v else kv_get d k m)"
  by (simp add: kv_get_def)

lemma degree_count_edge: "degree r (count_edge p q s) = degree r s + (if r = q then 1 else 0)"
  by (simp add: degree_def count_edge_def kv_get_upd)

text \<open>A scheduler that differs only in the three edge maps.\<close>

definition same_but_edges :: "'w scheduler \<Rightarrow> 'w scheduler \<Rightarrow> bool" where
  "same_but_edges s s' \<longleftrightarrow> s' = s \<lparr> sc_reverse_edges := sc_reverse_edges s',
     sc_wait_for_dependents := sc_wait_for_dependents s', sc_in_degree := sc_in_degree s' \<rparr>"

lemma same_refl [simp]: "same_but_edges s s"
  by (simp add: same_but_edges_def)

lemma same_trans: "same_but_edges s s' \<Longrightarrow> same_but_edges s' s'' \<Longrightarrow> same_but_edges s s''"
  by (cases s; cases s'; cases s'') (simp add: same_but_edges_def)

lemma same_fields:
  assumes "same_but_edges s s'"
  shows "sc_session s' = sc_session s" "sc_all_nodes s' = sc_all_nodes s" "sc_node_map s' = sc_node_map s"
    "sc_ready_queue s' = sc_ready_queue s" "sc_executed s' = sc_executed s" "has_node p s' = has_node p s"
    "sc_executing_fork s' = sc_executing_fork s" "sc_dynamic_graphs s' = sc_dynamic_graphs s" "sc_state s' = sc_state s"
  using assms by (cases s; cases s'; simp add: same_but_edges_def has_node_def)+

lemma count_edge_same: "same_but_edges s (count_edge p q s)"
  by (simp add: same_but_edges_def count_edge_def)

definition wait_edge :: "string \<Rightarrow> 'w scheduler \<Rightarrow> string \<Rightarrow> 'w scheduler" where
  "wait_edge p s dep = (count_edge dep p s) \<lparr> sc_wait_for_dependents :=
     kv_upd [] (\<lambda>l. l @ [p]) dep (sc_wait_for_dependents s) \<rparr>"

lemma wait_edge_same: "same_but_edges s (wait_edge p s dep)"
  by (simp add: same_but_edges_def count_edge_def wait_edge_def)

lemma degree_wait_edge: "degree r (wait_edge p s dep) = degree r s + (if r = p then 1 else 0)"
  using degree_count_edge[of r dep p s] by (simp add: degree_def wait_edge_def)

lemma dependents_wait_edge: "dependents d (wait_edge p s dep) = dependents d s @ (if d = dep then [p] else [])"
  by (simp add: dependents_def wait_edge_def kv_get_upd)

lemma dependents_count_edge [simp]: "dependents d (count_edge p q s) = dependents d s"
  by (simp add: dependents_def count_edge_def)

lemma next_edges_fold:
  assumes "\<And>q. q \<in> set qs \<Longrightarrow> has_node q s"
  shows "\<exists>s'. sfold (add_next_edge p) qs s = (Inr (), s') \<and> same_but_edges s s' \<and>
    (\<forall>r. degree r s' = degree r s + int (count_list qs r)) \<and> (\<forall>d. dependents d s' = dependents d s)"
  using assms
proof (induction qs arbitrary: s)
  case (Cons q qs)
  let ?s1 = "count_edge p q s"
  have h: "has_node r ?s1 = has_node r s" for r using same_fields(6)[OF count_edge_same] .
  obtain s' where s': "sfold (add_next_edge p) qs ?s1 = (Inr (), s')" "same_but_edges ?s1 s'"
    "\<forall>r. degree r s' = degree r ?s1 + int (count_list qs r)" "\<forall>d. dependents d s' = dependents d ?s1"
    using Cons.IH[of ?s1] Cons.prems h by auto
  have "sfold (add_next_edge p) (q # qs) s = (Inr (), s')"
    using s'(1) Cons.prems by (simp add: sbind_eq add_next_edge_def need_node_def)
  then show ?case using s' same_trans[OF count_edge_same s'(2)] by (auto simp: degree_count_edge)
qed simp

lemma wait_edges_fold:
  assumes "\<And>q. q \<in> set ds \<Longrightarrow> has_node q s"
  shows "\<exists>s'. sfold (add_wait_edge p) ds s = (Inr (), s') \<and> same_but_edges s s' \<and>
    (\<forall>r. degree r s' = degree r s + (if r = p then int (length ds) else 0)) \<and>
    (\<forall>d. dependents d s' = dependents d s @ replicate (count_list ds d) p)"
  using assms
proof (induction ds arbitrary: s)
  case (Cons q ds)
  let ?s1 = "wait_edge p s q"
  have h: "has_node r ?s1 = has_node r s" for r using same_fields(6)[OF wait_edge_same] .
  obtain s' where s': "sfold (add_wait_edge p) ds ?s1 = (Inr (), s')" "same_but_edges ?s1 s'"
    "\<forall>r. degree r s' = degree r ?s1 + (if r = p then int (length ds) else 0)"
    "\<forall>d. dependents d s' = dependents d ?s1 @ replicate (count_list ds d) p"
    using Cons.IH[of ?s1] Cons.prems h by auto
  have "sfold (add_wait_edge p) (q # ds) s = (Inr (), s')"
    using s'(1) Cons.prems by (simp add: sbind_eq add_wait_edge_def need_node_def wait_edge_def)
  then show ?case using s' same_trans[OF wait_edge_same s'(2)]
    by (auto simp: degree_wait_edge dependents_wait_edge)
qed simp

section \<open>Static graphs\<close>

definition plain :: "node \<Rightarrow> bool" where
  "plain nd \<longleftrightarrow> nd_type nd \<notin> {FORK, JOIN, YIELD, GENERATE_SUBGRAPH} \<and>
     (case jlookup ''wait_for'' (nd_metadata nd) of Some (JStr t) \<Rightarrow> False | _ \<Rightarrow> True)"

definition waits_of :: "node \<Rightarrow> string list" where
  "waits_of nd = (case static_waits nd of Inr ds \<Rightarrow> ds | Inl e \<Rightarrow> [])"

definition paths :: "node list \<Rightarrow> string set" where
  "paths nds = nd_path ` set nds"

definition end_mode :: "node \<Rightarrow> string res" where
  "end_mode nd = jvalue_str ''termination_mode'' ''hard'' (nd_metadata nd)"

definition hard_end :: "node \<Rightarrow> bool" where
  "hard_end nd \<longleftrightarrow> nd_type nd = END \<and> end_mode nd = Inr ''hard'' \<and> \<not> is_system_path (nd_path nd)"

text \<open>Distinct paths, and every edge names a node of the graph.\<close>

definition node_ok :: "node list \<Rightarrow> node \<Rightarrow> bool" where
  "node_ok nds nd \<longleftrightarrow> plain nd \<and> set (nd_next nd) \<subseteq> paths nds \<and>
     static_waits nd = Inr (waits_of nd) \<and> set (waits_of nd) \<subseteq> paths nds \<and>
     (nd_type nd = END \<longrightarrow> (\<exists>m. end_mode nd = Inr m))"

definition static_graph :: "node list \<Rightarrow> bool" where
  "static_graph nds \<longleftrightarrow> distinct (map nd_path nds) \<and> list_all (node_ok nds) nds"

text \<open>p before q: q is a successor of p or waits for p.\<close>

definition before :: "node list \<Rightarrow> (string \<times> string) set" where
  "before nds = {(p, q). \<exists>nd \<in> set nds. nd_path nd = p \<and> q \<in> set (nd_next nd) \<or>
     nd_path nd = q \<and> p \<in> set (waits_of nd)}"

definition node_at :: "node list \<Rightarrow> string \<Rightarrow> node option" where
  "node_at nds p = map_of (map (\<lambda>nd. (nd_path nd, nd)) nds) p"

lemma node_at_Some: "node_at nds p = Some nd \<Longrightarrow> nd \<in> set nds \<and> nd_path nd = p"
  unfolding node_at_def by (auto dest: map_of_SomeD)

lemma node_at_mem: "distinct (map nd_path nds) \<Longrightarrow> nd \<in> set nds \<Longrightarrow> node_at nds (nd_path nd) = Some nd"
  unfolding node_at_def by (rule map_of_is_SomeI) (auto simp: comp_def)

lemma node_at_paths: "distinct (map nd_path nds) \<Longrightarrow> p \<in> paths nds \<Longrightarrow> \<exists>nd. node_at nds p = Some nd"
  unfolding paths_def using node_at_mem by blast

lemma path_inj: "distinct (map nd_path nds) \<Longrightarrow> inj_on nd_path (set nds)"
  by (simp add: distinct_map)

lemma sum_count_waits:
  assumes "distinct (map nd_path nds)" "set ds \<subseteq> paths nds"
  shows "(\<Sum>nd \<in> set nds. count_list ds (nd_path nd)) = length ds"
proof -
  have "(\<Sum>nd \<in> set nds. count_list ds (nd_path nd)) = (\<Sum>p \<in> paths nds. count_list ds p)"
    unfolding paths_def by (rule sum.reindex[OF path_inj[OF assms(1)], symmetric, unfolded comp_def])
  also have "\<dots> = (\<Sum>p \<in> set ds. count_list ds p)"
    by (rule sum.mono_neutral_right) (use assms(2) in \<open>auto simp: paths_def count_notin\<close>)
  also have "\<dots> = length ds" by (rule sum_count_set) simp_all
  finally show ?thesis .
qed

section \<open>The build\<close>

text \<open>A registered graph before its edges are counted: \<open>ready\<close> may hold paths without predecessors (the
  engine builds the graph before execute builds it again).\<close>

definition fresh :: "node list \<Rightarrow> 'w scheduler \<Rightarrow> bool" where
  "fresh nds s \<longleftrightarrow> sc_all_nodes s = nds \<and> map_of (sc_node_map s) = node_at nds \<and> sc_executed s = [] \<and>
     \<not> sc_executing_fork s \<and> sc_dynamic_graphs s = [] \<and> ss_pending_deps (sc_session s) = [] \<and>
     ss_pending_yield (sc_session s) = None \<and>
     list_all (\<lambda>p. p \<in> paths nds \<and> p \<notin> Range (before nds)) (sc_ready_queue s)"

text \<open>The edges of the nodes \<open>dn\<close> are counted: \<open>released\<close> is how often executing the node at a path lowers
  the degree of r.\<close>

definition released :: "node list \<Rightarrow> 'w scheduler \<Rightarrow> node \<Rightarrow> string \<Rightarrow> nat" where
  "released dn s nd r = (if nd \<in> set dn then count_list (nd_next nd) r else 0) +
     count_list (dependents (nd_path nd) s) r"

definition counted :: "node list \<Rightarrow> node list \<Rightarrow> 'w scheduler \<Rightarrow> bool" where
  "counted nds dn s \<longleftrightarrow> (\<forall>r \<in> paths nds. degree r s = int (\<Sum>nd \<in> set nds. released dn s nd r)) \<and>
     (\<forall>p \<in> paths nds. \<forall>r. r \<in> set (dependents p s) \<longleftrightarrow> (\<exists>nd \<in> set dn. nd_path nd = r \<and> p \<in> set (waits_of nd))) \<and>
     (\<Sum>nd \<in> set nds. length (dependents (nd_path nd) s)) = (\<Sum>nd \<in> set dn. length (waits_of nd))"

lemma count_replicate: "count_list (replicate n x) y = (if x = y then n else 0)"
  by (induction n) auto

lemma set_replicate_count: "set (replicate (count_list ds d) p) = (if d \<in> set ds then {p} else {})"
  using count_list_0_iff[of ds d] by (auto simp: set_replicate_conv_if)

lemma add_edges_counted:
  assumes "distinct (map nd_path nds)" "nd \<in> set nds" "nd \<notin> set dn" "node_ok nds nd" "counted nds dn s"
    "\<And>p. p \<in> paths nds \<Longrightarrow> has_node p s"
  shows "\<exists>s'. add_edges nd s = (Inr (), s') \<and> same_but_edges s s' \<and> counted nds (nd # dn) s'"
proof -
  let ?p = "nd_path nd" and ?ds = "waits_of nd"
  have ok: "set (nd_next nd) \<subseteq> paths nds" "static_waits nd = Inr ?ds" "set ?ds \<subseteq> paths nds"
    using assms(4) by (auto simp: node_ok_def)
  obtain s1 where s1: "sfold (add_next_edge ?p) (nd_next nd) s = (Inr (), s1)" "same_but_edges s s1"
    "\<And>r. degree r s1 = degree r s + int (count_list (nd_next nd) r)" "\<And>d. dependents d s1 = dependents d s"
    using next_edges_fold[of "nd_next nd" s ?p] ok assms(6) by blast
  have h1: "has_node q s1" if "q \<in> set ?ds" for q using that ok(3) assms(6) same_fields(6)[OF s1(2), of q] by auto
  obtain s2 where s2: "sfold (add_wait_edge ?p) ?ds s1 = (Inr (), s2)" "same_but_edges s1 s2"
    "\<And>r. degree r s2 = degree r s1 + (if r = ?p then int (length ?ds) else 0)"
    "\<And>d. dependents d s2 = dependents d s1 @ replicate (count_list ?ds d) ?p"
    using wait_edges_fold[of ?ds s1 ?p] h1 by blast
  have run: "add_edges nd s = (Inr (), s2)"
    using s1(1) s2(1) ok(2) by (simp add: add_edges_def sbind_eq)
  have dep: "dependents d s2 = dependents d s @ replicate (count_list ?ds d) ?p" for d
    by (simp add: s2(4) s1(4))
  have rel: "released (nd # dn) s2 x r = released dn s x r + (if x = nd then count_list (nd_next nd) r else 0) +
      (if ?p = r then count_list ?ds (nd_path x) else 0)" for x r
    using assms(3) by (auto simp: released_def dep count_replicate)
  have "(\<Sum>x \<in> set nds. released (nd # dn) s2 x r) = (\<Sum>x \<in> set nds. released dn s x r) +
      count_list (nd_next nd) r + (if ?p = r then length ?ds else 0)" for r
    using assms(2) sum_count_waits[OF assms(1) ok(3)] by (simp add: rel sum.distrib sum.delta)
  then have 1: "\<forall>r \<in> paths nds. degree r s2 = int (\<Sum>x \<in> set nds. released (nd # dn) s2 x r)"
    using assms(5) by (auto simp: counted_def s1(3) s2(3))
  have "r \<in> set (dependents p s2) \<longleftrightarrow> (\<exists>x \<in> set (nd # dn). nd_path x = r \<and> p \<in> set (waits_of x))"
    if "p \<in> paths nds" for p r
    using assms(5) that by (auto simp: counted_def dep set_replicate_count split: if_splits)
  moreover have "(\<Sum>x \<in> set nds. length (dependents (nd_path x) s2)) = (\<Sum>x \<in> set (nd # dn). length (waits_of x))"
    using assms(3,5) sum_count_waits[OF assms(1) ok(3)] by (simp add: counted_def dep sum.distrib)
  ultimately have "counted nds (nd # dn) s2" using 1 by (simp add: counted_def)
  then show ?thesis using run same_trans[OF s1(2) s2(2)] by blast
qed

lemma all_edges_counted:
  assumes "distinct (map nd_path nds)" "set rest \<subseteq> set nds" "set rest \<inter> set dn = {}" "distinct rest"
    "list_all (node_ok nds) rest" "counted nds dn s" "\<And>p. p \<in> paths nds \<Longrightarrow> has_node p s"
  shows "\<exists>s'. sfold add_edges rest s = (Inr (), s') \<and> same_but_edges s s' \<and> counted nds (rev rest @ dn) s'"
  using assms
proof (induction rest arbitrary: s dn)
  case (Cons nd rest)
  obtain s1 where s1: "add_edges nd s = (Inr (), s1)" "same_but_edges s s1" "counted nds (nd # dn) s1"
    using add_edges_counted[of nds nd dn s] Cons.prems by auto
  obtain s2 where "sfold add_edges rest s1 = (Inr (), s2)" "same_but_edges s1 s2" "counted nds (rev rest @ nd # dn) s2"
    using Cons.IH[of "nd # dn" s1] Cons.prems s1(3) same_fields(6)[OF s1(2)] by auto
  then show ?case using s1 same_trans by (auto simp: sbind_eq)
qed simp

lemma reset_same: "same_but_edges s (foldl (\<lambda>s nd. reset_edges nd s) s nds)"
proof (induction nds arbitrary: s)
  case (Cons nd nds)
  have "same_but_edges s (reset_edges nd s)" by (simp add: same_but_edges_def reset_edges_def)
  then show ?case using Cons same_trans by auto
qed simp

lemma reset_values:
  "degree p (foldl (\<lambda>s nd. reset_edges nd s) s nds) = (if p \<in> paths nds then 0 else degree p s)"
  "dependents p (foldl (\<lambda>s nd. reset_edges nd s) s nds) = (if p \<in> paths nds then [] else dependents p s)"
proof -
  have d: "degree p (reset_edges nd s) = (if nd_path nd = p then 0 else degree p s)"
    "dependents p (reset_edges nd s) = (if nd_path nd = p then [] else dependents p s)" for nd and s :: "'a scheduler"
    by (auto simp: degree_def dependents_def reset_edges_def kv_get_ins)
  show "degree p (foldl (\<lambda>s nd. reset_edges nd s) s nds) = (if p \<in> paths nds then 0 else degree p s)"
    by (induction nds arbitrary: s) (auto simp: paths_def d)
  show "dependents p (foldl (\<lambda>s nd. reset_edges nd s) s nds) = (if p \<in> paths nds then [] else dependents p s)"
    by (induction nds arbitrary: s) (auto simp: paths_def d)
qed

lemma no_fork_edges: "list_all plain nds \<Longrightarrow> sfold add_fork_edges nds s = (Inr (), s)"
proof (induction nds)
  case (Cons nd nds)
  then have "fork_branches nd = []" by (cases "nd_body nd") (auto simp: fork_branches_def plain_def nd_type_def)
  then show ?case using Cons by (simp add: add_fork_edges_def sbind_eq)
qed simp

lemma counted_cong: "set a = set b \<Longrightarrow> counted nds a s = counted nds b s"
  unfolding counted_def released_def by simp

lemma has_node_at: "map_of (sc_node_map s) = node_at nds \<Longrightarrow> distinct (map nd_path nds) \<Longrightarrow> p \<in> paths nds \<Longrightarrow> has_node p s"
  using node_at_paths by (fastforce simp: has_node_def)

lemma parse_counted:
  assumes "static_graph nds" "sc_all_nodes s = nds" "map_of (sc_node_map s) = node_at nds"
  shows "\<exists>s'. parse_node_wait_for_deps s = (Inr (), s') \<and> same_but_edges s s' \<and> counted nds nds s'"
proof -
  let ?s0 = "foldl (\<lambda>s nd. reset_edges nd s) s nds"
  have d: "distinct (map nd_path nds)" and ok: "list_all (node_ok nds) nds"
    using assms(1) by (auto simp: static_graph_def)
  have pl: "list_all plain nds" using ok by (auto simp: list_all_iff node_ok_def)
  have c: "counted nds [] ?s0"
    by (auto simp: counted_def released_def reset_values paths_def)
  have h: "has_node p ?s0" if "p \<in> paths nds" for p
    using has_node_at[OF assms(3) d that] same_fields(6)[OF reset_same] by blast
  obtain s1 where s1: "sfold add_edges nds ?s0 = (Inr (), s1)" "same_but_edges ?s0 s1" "counted nds (rev nds @ []) s1"
    using all_edges_counted[OF d _ _ _ ok c h] d by (auto simp: distinct_map)
  have a: "sc_all_nodes ?s0 = nds" "sc_all_nodes s1 = nds"
    using same_fields(2)[OF reset_same, of s nds] same_fields(2)[OF s1(2)] assms(2) by simp_all
  have "parse_node_wait_for_deps s = (Inr (), s1)"
    using s1(1) a assms(2) no_fork_edges[OF pl] by (simp add: parse_node_wait_for_deps_def sbind_eq)
  moreover have "counted nds nds s1" using s1(3) by (subst (asm) counted_cong[of _ nds]) simp_all
  ultimately show ?thesis using same_trans[OF reset_same s1(2)] by blast
qed

section \<open>The invariant of the main loop\<close>

definition succ :: "node \<Rightarrow> 'w scheduler \<Rightarrow> string list" where
  "succ nd s = nd_next nd @ dependents (nd_path nd) s"

definition open_edges :: "node list \<Rightarrow> 'w scheduler \<Rightarrow> string \<Rightarrow> nat" where
  "open_edges nds s r = (\<Sum>nd \<in> set nds. if nd_path nd \<in> set (sc_executed s) then 0 else count_list (succ nd s) r)"

text \<open>Executed paths, newest first: everything before a path is executed before it.\<close>

fun topo :: "node list \<Rightarrow> string list \<Rightarrow> bool" where
  "topo nds [] = True"
| "topo nds (q # zs) = ((\<forall>p. (p, q) \<in> before nds \<longrightarrow> p \<in> set zs) \<and> topo nds zs)"

lemma topo_closed: "topo nds xs \<Longrightarrow> q \<in> set xs \<Longrightarrow> (p, q) \<in> before nds \<Longrightarrow> p \<in> set xs"
  by (induction xs) auto

lemma topo_ancestors: "(p, q) \<in> (before nds)\<^sup>* \<Longrightarrow> topo nds xs \<Longrightarrow> q \<in> set xs \<Longrightarrow> p \<in> set xs"
  by (induction rule: converse_rtrancl_induct) (auto dest: topo_closed)

text \<open>The fixed part: the graph is registered and nothing special is going on.\<close>

definition calm :: "node list \<Rightarrow> 'w scheduler \<Rightarrow> bool" where
  "calm nds s \<longleftrightarrow> sc_all_nodes s = nds \<and> map_of (sc_node_map s) = node_at nds \<and> \<not> sc_executing_fork s \<and>
     sc_dynamic_graphs s = [] \<and> ss_pending_deps (sc_session s) = [] \<and> ss_pending_yield (sc_session s) = None"

definition kahn :: "node list \<Rightarrow> 'w scheduler \<Rightarrow> bool" where
  "kahn nds s \<longleftrightarrow> calm nds s \<and>
     (\<forall>r \<in> paths nds. degree r s = int (open_edges nds s r)) \<and>
     (\<forall>nd \<in> set nds. \<forall>r. r \<in> set (succ nd s) \<longleftrightarrow> (nd_path nd, r) \<in> before nds) \<and>
     (\<forall>r \<in> set (sc_ready_queue s). r \<in> paths nds \<and> degree r s = 0) \<and>
     (\<forall>r \<in> paths nds. r \<notin> set (sc_executed s) \<longrightarrow> degree r s = 0 \<longrightarrow> r \<in> set (sc_ready_queue s)) \<and>
     set (sc_executed s) \<subseteq> paths nds \<and> distinct (sc_executed s) \<and> topo nds (sc_executed s)"

definition work :: "node list \<Rightarrow> 'w scheduler \<Rightarrow> nat" where
  "work nds s = length (sc_ready_queue s) +
     (\<Sum>nd \<in> set nds. if nd_path nd \<in> set (sc_executed s) then 0 else length (succ nd s))"

lemma kahnD:
  assumes "kahn nds s"
  shows "calm nds s" "\<And>r. r \<in> paths nds \<Longrightarrow> degree r s = int (open_edges nds s r)"
    "\<And>nd r. nd \<in> set nds \<Longrightarrow> r \<in> set (succ nd s) \<longleftrightarrow> (nd_path nd, r) \<in> before nds"
    "\<And>r. r \<in> set (sc_ready_queue s) \<Longrightarrow> r \<in> paths nds \<and> degree r s = 0"
    "\<And>r. r \<in> paths nds \<Longrightarrow> r \<notin> set (sc_executed s) \<Longrightarrow> degree r s = 0 \<Longrightarrow> r \<in> set (sc_ready_queue s)"
    "set (sc_executed s) \<subseteq> paths nds" "distinct (sc_executed s)" "topo nds (sc_executed s)"
  using assms unfolding kahn_def by blast+

lemma kahnI:
  assumes "calm nds s" "\<And>r. r \<in> paths nds \<Longrightarrow> degree r s = int (open_edges nds s r)"
    "\<And>nd r. nd \<in> set nds \<Longrightarrow> r \<in> set (succ nd s) \<longleftrightarrow> (nd_path nd, r) \<in> before nds"
    "\<And>r. r \<in> set (sc_ready_queue s) \<Longrightarrow> r \<in> paths nds \<and> degree r s = 0"
    "\<And>r. r \<in> paths nds \<Longrightarrow> r \<notin> set (sc_executed s) \<Longrightarrow> degree r s = 0 \<Longrightarrow> r \<in> set (sc_ready_queue s)"
    "set (sc_executed s) \<subseteq> paths nds" "distinct (sc_executed s)" "topo nds (sc_executed s)"
  shows "kahn nds s"
  using assms unfolding kahn_def by blast

lemma before_targets: "static_graph nds \<Longrightarrow> (p, r) \<in> before nds \<Longrightarrow> p \<in> paths nds \<and> r \<in> paths nds"
  by (auto simp: before_def static_graph_def list_all_iff node_ok_def paths_def)

lemma no_open_edges:
  assumes "open_edges nds s r = 0" "nd \<in> set nds" "nd_path nd \<notin> set (sc_executed s)"
  shows "r \<notin> set (succ nd s)"
proof -
  have "(if nd_path nd \<in> set (sc_executed s) then 0 else count_list (succ nd s) r) = 0"
    using assms(1,2) by (simp add: open_edges_def)
  then show ?thesis using assms(3) by (simp add: count_list_0_iff)
qed

lemma open_edges_zeroI:
  assumes "\<And>nd. nd \<in> set nds \<Longrightarrow> nd_path nd \<notin> set (sc_executed s) \<Longrightarrow> r \<notin> set (succ nd s)"
  shows "open_edges nds s r = 0"
  unfolding open_edges_def by (rule sum.neutral) (use assms in \<open>auto simp: count_list_0_iff\<close>)

lemma ready_preds_executed:
  assumes "kahn nds s" "static_graph nds" "r \<in> paths nds" "degree r s = 0" "(p, r) \<in> before nds"
  shows "p \<in> set (sc_executed s)"
proof (rule ccontr)
  assume n: "p \<notin> set (sc_executed s)"
  have o: "open_edges nds s r = 0" using kahnD(2)[OF assms(1,3)] assms(4) by simp
  obtain nd where nd: "nd \<in> set nds" "nd_path nd = p" using before_targets[OF assms(2,5)] by (auto simp: paths_def)
  then show False using no_open_edges[OF o nd(1)] n kahnD(3)[OF assms(1) nd(1)] assms(5) by auto
qed

text \<open>Lowering the degrees of a list of successors.\<close>

lemma drop_degree_simps:
  "degree r (drop_degree s q) = degree r s - (if r = q then 1 else 0)"
  "sc_ready_queue (drop_degree s q) = sc_ready_queue s @ (if degree q s = 1 then [q] else [])"
  "sc_executed (drop_degree s q) = sc_executed s" "dependents p (drop_degree s q) = dependents p s"
  "sc_session (drop_degree s q) = sc_session s" "calm nds (drop_degree s q) = calm nds s"
  by (auto simp: drop_degree_def Let_def push_ready_def degree_def kv_get_upd dependents_def calm_def)

lemma drops_frame:
  "sc_executed (foldl drop_degree s qs) = sc_executed s" "dependents p (foldl drop_degree s qs) = dependents p s"
  "sc_session (foldl drop_degree s qs) = sc_session s" "calm nds (foldl drop_degree s qs) = calm nds s"
  by (induction qs arbitrary: s) (auto simp: drop_degree_simps)

lemma drops_degree: "degree r (foldl drop_degree s qs) = degree r s - int (count_list qs r)"
  by (induction qs arbitrary: s) (auto simp: drop_degree_simps)

lemma drops_ready_length:
  "length (sc_ready_queue (foldl drop_degree s qs)) \<le> length (sc_ready_queue s) + length qs"
proof (induction qs arbitrary: s)
  case (Cons q qs)
  have "length (sc_ready_queue (drop_degree s q)) \<le> Suc (length (sc_ready_queue s))"
    by (simp add: drop_degree_simps)
  then show ?case using Cons[of "drop_degree s q"] by simp
qed simp

lemma drops_ready:
  assumes "\<And>q. q \<in> set qs \<Longrightarrow> int (count_list qs q) \<le> degree q s"
  shows "r \<in> set (sc_ready_queue (foldl drop_degree s qs)) \<longleftrightarrow>
      r \<in> set (sc_ready_queue s) \<or> r \<in> set qs \<and> degree r s = int (count_list qs r)"
  using assms
proof (induction qs arbitrary: s)
  case (Cons q qs)
  let ?s = "drop_degree s q"
  have le: "int (count_list qs x) \<le> degree x ?s" if "x \<in> set qs" for x
    using Cons.prems[of x] Cons.prems[of q] that by (simp add: drop_degree_simps split: if_splits)
  have q: "Suc (count_list qs q) \<le> nat (degree q s)" using Cons.prems[of q] by simp
  have ih: "r \<in> set (sc_ready_queue (foldl drop_degree ?s qs)) \<longleftrightarrow>
      r \<in> set (sc_ready_queue ?s) \<or> r \<in> set qs \<and> degree r ?s = int (count_list qs r)"
    by (rule Cons.IH[OF le])
  show ?case
  proof (cases "r = q")
    case True
    have "r \<notin> set qs \<Longrightarrow> count_list qs r = 0" by (simp add: count_list_0_iff)
    moreover have "r \<in> set qs \<Longrightarrow> 0 < count_list qs r" using count_list_0_iff[of qs r] by auto
    ultimately show ?thesis using ih q True by (cases "r \<in> set qs") (auto simp: drop_degree_simps)
  next
    case False
    then show ?thesis using ih by (auto simp: drop_degree_simps)
  qed
qed simp

lemma sum_without:
  fixes f :: "node \<Rightarrow> nat"
  assumes "distinct (map nd_path nds)" "nd \<in> set nds" "nd_path nd \<notin> E"
  shows "(\<Sum>x \<in> set nds. if nd_path x \<in> E then 0 else f x) =
    f nd + (\<Sum>x \<in> set nds. if nd_path x \<in> insert (nd_path nd) E then 0 else f x)"
proof -
  have i: "nd_path x = nd_path nd \<longleftrightarrow> x = nd" if "x \<in> set nds" for x
    using path_inj[OF assms(1)] assms(2) that by (auto simp: inj_on_def)
  have "(\<Sum>x \<in> set nds. if nd_path x \<in> E then 0 else f x) =
      (\<Sum>x \<in> set nds. (if x = nd then f nd else 0) + (if nd_path x \<in> insert (nd_path nd) E then 0 else f x))"
    by (rule sum.cong) (use i assms(3) in auto)
  then show ?thesis using assms(2) by (simp add: sum.distrib)
qed

text \<open>Executing a ready node keeps the invariant and lowers the remaining work.\<close>

lemma kahn_execute:
  assumes k: "kahn nds s" and g: "static_graph nds" and p: "nd \<in> set nds" "nd_path nd \<notin> set (sc_executed s)"
    and q: "sc_ready_queue s = nd_path nd # q"
    and s1: "sc_ready_queue s1 = q" "sc_executed s1 = sc_executed s" "\<And>r. degree r s1 = degree r s"
      "\<And>r. dependents r s1 = dependents r s" "calm nds s1"
  shows "kahn nds (update_successors nd (nd_path nd) (insert_executed (nd_path nd) s1)) \<and>
    work nds (update_successors nd (nd_path nd) (insert_executed (nd_path nd) s1)) < work nds s \<and>
    sc_executed (update_successors nd (nd_path nd) (insert_executed (nd_path nd) s1)) = nd_path nd # sc_executed s"
proof -
  let ?p = "nd_path nd"
  let ?s2 = "insert_executed ?p s1"
  let ?s3 = "update_successors nd ?p ?s2"
  have d: "distinct (map nd_path nds)" using g by (simp add: static_graph_def)
  have s2: "sc_ready_queue ?s2 = q" "sc_executed ?s2 = ?p # sc_executed s" "\<And>r. degree r ?s2 = degree r s"
    "\<And>r. dependents r ?s2 = dependents r s" "calm nds ?s2"
    using s1 p(2) by (auto simp: insert_executed_def degree_def dependents_def calm_def List.insert_def)
  have u: "?s3 = foldl drop_degree ?s2 (succ nd s)" using s2(4) by (simp add: update_successors_def succ_def)
  have ex: "sc_executed ?s3 = ?p # sc_executed s" by (simp add: u drops_frame s2)
  have su: "succ x ?s3 = succ x s" for x by (simp add: succ_def u drops_frame s2)
  have deg: "degree r ?s3 = degree r s - int (count_list (succ nd s) r)" for r by (simp add: u drops_degree s2)
  have open3: "open_edges nds s r = count_list (succ nd s) r + open_edges nds ?s3 r" for r
    using sum_without[OF d p, of "\<lambda>x. count_list (succ x s) r"] by (simp add: open_edges_def ex su cong: if_cong)
  have deg3: "degree r ?s3 = int (open_edges nds ?s3 r)" if "r \<in> paths nds" for r
    using kahnD(2)[OF k that] open3[of r] by (simp add: deg)
  have tgt: "r \<in> paths nds" if "r \<in> set (succ nd s)" for r
    using kahnD(3)[OF k p(1)] that before_targets[OF g] by blast
  have le: "int (count_list (succ nd s) r) \<le> degree r ?s2" if "r \<in> set (succ nd s)" for r
    using kahnD(2)[OF k tgt[OF that]] open3[of r] by (simp add: s2(3))
  have rd: "set (sc_ready_queue ?s3) = set q \<union> {r \<in> set (succ nd s). degree r s = int (count_list (succ nd s) r)}"
    "length (sc_ready_queue ?s3) \<le> length q + length (succ nd s)"
    using drops_ready[OF le] drops_ready_length[of ?s2 "succ nd s"] by (auto simp: u s2)
  have pp: "?p \<in> paths nds" using p(1) by (simp add: paths_def)
  have q0: "r \<in> paths nds \<and> degree r s = 0" if "r \<in> set q" for r using kahnD(4)[OF k, of r] that q by simp
  have ready: "r \<in> paths nds \<and> degree r ?s3 = 0" if "r \<in> set (sc_ready_queue ?s3)" for r
  proof (cases "r \<in> set q")
    case True
    then have "open_edges nds s r = 0" using q0 kahnD(2)[OF k] by fastforce
    then show ?thesis using q0[OF True] deg3[of r] open3[of r] by simp
  next
    case False
    then show ?thesis using that rd(1) tgt by (auto simp: deg)
  qed
  have complete: "r \<in> set (sc_ready_queue ?s3)"
    if r: "r \<in> paths nds" "r \<notin> set (sc_executed ?s3)" "degree r ?s3 = 0" for r
  proof (cases "r \<in> set (succ nd s)")
    case True
    then show ?thesis using r(3) rd(1) by (simp add: deg)
  next
    case False
    then have "degree r s = 0" using r(3) by (simp add: deg count_notin)
    then have "r \<in> set (sc_ready_queue s)" using kahnD(5)[OF k r(1)] r(2) by (simp add: ex)
    then show ?thesis using q r(2) rd(1) by (auto simp: ex)
  qed
  have preds: "x \<in> set (sc_executed s)" if "(x, ?p) \<in> before nds" for x
    using ready_preds_executed[OF k g pp _ that] kahnD(4)[OF k, of ?p] q by simp
  have calm3: "calm nds ?s3" using s2(5) by (simp add: u drops_frame)
  have succ3: "r \<in> set (succ x ?s3) \<longleftrightarrow> (nd_path x, r) \<in> before nds" if "x \<in> set nds" for x r
    using kahnD(3)[OF k that] su by simp
  have "kahn nds ?s3"
  proof (rule kahnI)
    show "set (sc_executed ?s3) \<subseteq> paths nds" using kahnD(6)[OF k] pp by (simp add: ex)
    show "distinct (sc_executed ?s3)" using kahnD(7)[OF k] p(2) by (simp add: ex)
    show "topo nds (sc_executed ?s3)" using kahnD(8)[OF k] preds by (simp add: ex)
  qed (fact calm3 deg3 succ3 ready complete)+
  moreover have "work nds ?s3 < work nds s"
    using sum_without[OF d p, of "\<lambda>x. length (succ x s)"] rd(2) q
    by (simp add: work_def ex su cong: if_cong)
  ultimately show ?thesis using ex by blast
qed

definition edge_count :: "node list \<Rightarrow> nat" where
  "edge_count nds = (\<Sum>nd \<in> set nds. length (nd_next nd) + length (waits_of nd))"

lemma register_resources_frame:
  "sc_all_nodes (register_resources s) = sc_all_nodes s" "sc_node_map (register_resources s) = sc_node_map s"
  "sc_executed (register_resources s) = sc_executed s" "sc_ready_queue (register_resources s) = sc_ready_queue s"
  "calm nds (register_resources s) = calm nds s"
  by (simp_all add: register_resources_def calm_def)

lemma seed_frame:
  "degree r (seed_initial_ready_queue s) = degree r s" "dependents r (seed_initial_ready_queue s) = dependents r s"
  "sc_executed (seed_initial_ready_queue s) = sc_executed s" "calm nds (seed_initial_ready_queue s) = calm nds s"
  "sc_session (seed_initial_ready_queue s) = sc_session s"
  by (simp_all add: seed_initial_ready_queue_def degree_def dependents_def calm_def)

lemma build_kahn:
  assumes g: "static_graph nds" and f: "fresh nds s"
  shows "\<exists>s'. build_dag s = (Inr (), s') \<and> kahn nds s' \<and> sc_session s' = sc_session (register_resources s) \<and>
    work nds s' \<le> length (sc_ready_queue s) + length nds + edge_count nds \<and> sc_executed s' = []"
proof -
  let ?s0 = "register_resources s"
  have fr: "sc_all_nodes s = nds" "map_of (sc_node_map s) = node_at nds" "sc_executed s = []" "calm nds s"
    "\<And>p. p \<in> set (sc_ready_queue s) \<Longrightarrow> p \<in> paths nds \<and> p \<notin> Range (before nds)"
    using f by (auto simp: fresh_def calm_def list_all_iff)
  have d: "distinct (map nd_path nds)" using g by (simp add: static_graph_def)
  obtain s1 where s1: "parse_node_wait_for_deps ?s0 = (Inr (), s1)" "same_but_edges ?s0 s1" "counted nds nds s1"
    using parse_counted[OF g, of ?s0] fr by (auto simp: register_resources_frame)
  let ?s2 = "seed_initial_ready_queue s1"
  have a: "sc_all_nodes s1 = nds" "sc_executed s1 = []" "sc_ready_queue s1 = sc_ready_queue s"
    "sc_session s1 = sc_session ?s0" "calm nds s1"
    using same_fields[OF s1(2)] fr by (auto simp: register_resources_frame calm_def)
      (simp_all add: register_resources_def)
  have e: "succ nd ?s2 = nd_next nd @ dependents (nd_path nd) s1" for nd by (simp add: succ_def seed_frame)
  have rel: "count_list (succ nd ?s2) r = released nds s1 nd r" if "nd \<in> set nds" for nd r
    using that by (simp add: e released_def)
  have open2: "open_edges nds ?s2 r = (\<Sum>nd \<in> set nds. released nds s1 nd r)" for r
    unfolding open_edges_def seed_frame a(2) using rel by (simp cong: sum.cong)
  have deg: "degree r ?s2 = int (open_edges nds ?s2 r)" if "r \<in> paths nds" for r
    using s1(3) that by (simp add: counted_def seed_frame open2)
  have dep: "r \<in> set (dependents p s1) \<longleftrightarrow> (\<exists>nd \<in> set nds. nd_path nd = r \<and> p \<in> set (waits_of nd))" if "p \<in> paths nds" for p r
    using s1(3) that by (simp add: counted_def)
  have succ2: "r \<in> set (succ nd ?s2) \<longleftrightarrow> (nd_path nd, r) \<in> before nds" if nd: "nd \<in> set nds" for nd r
  proof -
    have "nd_path nd \<in> paths nds" using nd by (simp add: paths_def)
    moreover have "x = nd" if "x \<in> set nds" "nd_path x = nd_path nd" for x
      using that nd path_inj[OF d] by (auto simp: inj_on_def)
    ultimately show ?thesis using nd dep by (auto simp: e before_def)
  qed
  have rq: "sc_ready_queue ?s2 = sc_ready_queue s @ filter (\<lambda>p. degree p s1 = 0) (map nd_path nds)"
    by (simp add: seed_initial_ready_queue_def a)
  have "degree r ?s2 = 0" if "r \<in> set (sc_ready_queue s)" for r
  proof -
    have "open_edges nds ?s2 r = 0"
      by (rule open_edges_zeroI) (use fr(5)[OF that] succ2 in \<open>auto simp: Range_iff\<close>)
    then show ?thesis using deg fr(5)[OF that] by simp
  qed
  then have ready: "r \<in> paths nds \<and> degree r ?s2 = 0" if "r \<in> set (sc_ready_queue ?s2)" for r
    using that fr(5) by (auto simp: rq seed_frame paths_def)
  have "kahn nds ?s2"
  proof (rule kahnI)
    show "r \<in> set (sc_ready_queue ?s2)" if "r \<in> paths nds" "r \<notin> set (sc_executed ?s2)" "degree r ?s2 = 0" for r
      using that by (auto simp: rq seed_frame paths_def)
    show "calm nds ?s2" using a by (simp add: seed_frame)
    show "set (sc_executed ?s2) \<subseteq> paths nds" "distinct (sc_executed ?s2)" "topo nds (sc_executed ?s2)"
      using a by (simp_all add: seed_frame)
  qed (fact deg succ2 ready)+
  moreover have "work nds ?s2 \<le> length (sc_ready_queue s) + length nds + edge_count nds"
  proof -
    have "(\<Sum>nd \<in> set nds. length (succ nd ?s2)) = edge_count nds"
      using s1(3) by (simp add: e edge_count_def counted_def sum.distrib)
    moreover have "length (sc_ready_queue ?s2) \<le> length (sc_ready_queue s) + length nds"
      by (simp add: rq)
    ultimately show ?thesis by (simp add: work_def seed_frame a(2))
  qed
  moreover have "build_dag s = (Inr (), ?s2)" using s1(1) by (simp add: build_dag_def sbind_eq)
  moreover have "sc_executed ?s2 = []" using a by (simp add: seed_frame)
  ultimately show ?thesis using a(4) by (metis seed_frame(5))
qed

text \<open>A graph that is built is ready to be built again.\<close>

lemma build_fresh:
  assumes "static_graph nds" "fresh nds s"
  shows "\<exists>s'. build_dag s = (Inr (), s') \<and> fresh nds s' \<and> sc_session s' = sc_session (register_resources s) \<and>
    length (sc_ready_queue s') \<le> length (sc_ready_queue s) + length nds + edge_count nds"
proof -
  obtain s' where s': "build_dag s = (Inr (), s')" "kahn nds s'" "sc_session s' = sc_session (register_resources s)"
    "work nds s' \<le> length (sc_ready_queue s) + length nds + edge_count nds" "sc_executed s' = []"
    using build_kahn[OF assms] by blast
  have "p \<in> paths nds \<and> p \<notin> Range (before nds)" if "p \<in> set (sc_ready_queue s')" for p
    using ready_preds_executed[OF s'(2) assms(1)] kahnD(4)[OF s'(2) that] s'(5) by (auto simp: Range_iff)
  then have "fresh nds s'" using kahnD(1)[OF s'(2)] s'(5) by (auto simp: fresh_def calm_def list_all_iff)
  then show ?thesis using s' by (auto simp: work_def)
qed

section \<open>Running the loop\<close>

text \<open>Every node of the graph runs successfully and without pausing from any context and session with the
  property P, and keeps it; the budget is not exceeded meanwhile.\<close>

definition benign :: "'w scheduler_env \<Rightarrow> node list \<Rightarrow> (json \<Rightarrow> 'w session \<Rightarrow> bool) \<Rightarrow> bool" where
  "benign env nds P \<longleftrightarrow>
     (\<forall>nd \<in> set nds. \<forall>ctx ses. P ctx ses \<longrightarrow> (\<exists>r ses'. session_execute_node (sv_session env) nd ctx ses = (Inr r, ses') \<and>
        er_success r \<and> er_paused_at r = None \<and> P (er_new_context r) ses')) \<and>
     (\<forall>ctx ses. P ctx ses \<longrightarrow> \<not> bc_exceeded (session_now (sv_session env) ses) (ss_budget ses))"

lemma requeue_nothing: "ss_pending_deps ses = [] \<Longrightarrow> check_and_requeue_dynamic_deps ps ses = ses"
  by (simp add: check_and_requeue_dynamic_deps_def)

lemma plain_run:
  assumes "calm nds s" "plain nd" "session_execute_node (sv_session env) nd ctx (sc_session s) = (Inr r, ses')"
  shows "run_in_session env nd ctx s = (Inr r, s \<lparr> sc_session := ses' \<rparr>) \<and> calm nds (s \<lparr> sc_session := ses' \<rparr>)"
proof -
  have g: "graphs_in (drop (length (xs_effects (ss_exec (sc_session s)))) (xs_effects (ss_exec ses'))) = []"
    using session_no_graphs[of nd "sc_session s" "sv_session env" ctx] assms by (simp add: plain_def)
  have c: "ss_pending_deps ses' = []" "ss_pending_yield ses' = None"
    using sess.run_deps[of "sv_session env" nd ctx "sc_session s"] sess.run_pending[of "sv_session env" nd ctx "sc_session s"] assms
    by (auto simp: calm_def plain_def)
  show ?thesis using g c assms by (auto simp: run_in_session_def append_dynamic_graphs_def calm_def)
qed

lemma plain_no_dynamic_wait: "plain nd \<Longrightarrow> resolve_dynamic_waits env nd p ctx s = ((None, True), s)"
  by (auto simp: resolve_dynamic_waits_def plain_def split: option.splits json.splits)

lemma calm_dispatch:
  assumes "calm nds s" "sc_ready_queue s = p # q" "node_at nds p = Some nd"
  shows "dispatch_ready_nodes env ctx s = (Found p nd, s \<lparr> sc_ready_queue := q \<rparr>)"
  using assms by (simp add: dispatch_ready_nodes_def pop_ready_node_def calm_def)

lemma main_step_calm:
  "calm nds s \<Longrightarrow> handle_fork_branches_block env s = (Inr (), s)"
  by (simp add: handle_fork_branches_block_def calm_def)

lemma kahn_step:
  assumes k: "kahn nds s" and g: "static_graph nds" and b: "benign env nds P" and P: "P ctx (sc_session s)"
    and q: "sc_ready_queue s = p # q" "p \<notin> set (sc_executed s)"
  shows "\<exists>ctx' s'. kahn nds s' \<and> P ctx' (sc_session s') \<and> work nds s' < work nds s \<and> sc_executed s' = p # sc_executed s \<and>
    (main_step env dag ctx s = (Inr (Go_on dag ctx'), s') \<or>
     main_step env dag ctx s = (Inr (Break ctx'), s') \<and> (\<exists>nd \<in> set nds. nd_path nd = p \<and> hard_end nd))"
proof -
  have c: "calm nds s" using k by (simp add: kahn_def)
  have "p \<in> paths nds" using kahnD(4)[OF k, of p] q by simp
  then obtain nd where nd: "node_at nds p = Some nd" "nd \<in> set nds" "nd_path nd = p"
    using node_at_paths node_at_Some g by (metis static_graph_def)
  have ok: "node_ok nds nd" using g nd(2) by (auto simp: static_graph_def list_all_iff)
  then have pl: "plain nd" by (simp add: node_ok_def)
  let ?s1 = "s \<lparr> sc_ready_queue := q \<rparr>"
  have c1: "calm nds ?s1" using c by (simp add: calm_def)
  obtain r ses' where r: "session_execute_node (sv_session env) nd ctx (sc_session s) = (Inr r, ses')"
    "er_success r" "er_paused_at r = None" "P (er_new_context r) ses'"
    using b nd(2) P unfolding benign_def by blast
  let ?s2 = "?s1 \<lparr> sc_session := ses' \<rparr>"
  have run: "run_in_session env nd ctx ?s1 = (Inr r, ?s2)" and c2: "calm nds ?s2"
    using plain_run[OF c1 pl, of env ctx r ses'] r(1) by simp_all
  let ?s3 = "update_successors nd p (insert_executed p ?s2)"
  have x: "kahn nds ?s3" "work nds ?s3 < work nds s" "sc_executed ?s3 = p # sc_executed s"
    using kahn_execute[OF k g nd(2), of q ?s2] nd(3) q c2 by (simp_all add: degree_def dependents_def)
  have c3: "calm nds ?s3" using x(1) by (simp add: kahn_def)
  have ses3: "sc_session ?s3 = ses'" by (simp add: update_successors_def drops_frame insert_executed_def)
  have yield: "ss_pending_yield ses' = None" using c2 by (simp add: calm_def)
  have t: "nd_type nd \<noteq> FORK" "nd_type nd \<noteq> JOIN" using pl by (auto simp: plain_def)
  have step: "main_step env dag ctx s = after_node env dag nd p r ?s2"
    using q(2) t r(2) by (simp add: main_step_def sbind_eq main_step_calm[OF c] calm_dispatch[OF c q(1) nd(1)]
        plain_no_dynamic_wait[OF pl] run_regular_def run)
  obtain m where m: "nd_type nd = END \<Longrightarrow> end_mode nd = Inr m" using ok by (auto simp: node_ok_def)
  have fk: "\<not> sc_executing_fork ?s3" using c3 by (simp add: calm_def)
  have dy: "rebuild_dynamic_graph dag ?s3 = (Inr dag, ?s3)" using c3 by (simp add: rebuild_dynamic_graph_def calm_def)
  have rq: "?s3 \<lparr> sc_session := check_and_requeue_dynamic_deps [p] (sc_session ?s3) \<rparr> = ?s3"
    using c3 by (simp add: requeue_nothing calm_def)
  have ce: "check_end_termination nd p ?s3 = Inr (hard_end nd)"
    using m fk nd(3) by (cases "nd_type nd = END") (auto simp: check_end_termination_def hard_end_def end_mode_def)
  have "after_node env dag nd p r ?s2 = (Inr (if hard_end nd then Break (er_new_context r) else Go_on dag (er_new_context r)), ?s3)"
    using yield r(3) ce dy rq by (simp add: after_node_def Let_def)
  then show ?thesis using step x r(4) ses3 nd by (cases "hard_end nd") auto
qed

lemma kahn_skip:
  assumes k: "kahn nds s" and g: "static_graph nds" and q: "sc_ready_queue s = p # q" "p \<in> set (sc_executed s)"
  shows "main_step env dag ctx s = (Inr (Go_on dag ctx), s \<lparr> sc_ready_queue := q \<rparr>) \<and>
    kahn nds (s \<lparr> sc_ready_queue := q \<rparr>) \<and> work nds (s \<lparr> sc_ready_queue := q \<rparr>) < work nds s"
proof -
  let ?s = "s \<lparr> sc_ready_queue := q \<rparr>"
  have c: "calm nds s" using k by (simp add: kahn_def)
  have "p \<in> paths nds" using kahnD(4)[OF k, of p] q by simp
  then obtain nd where nd: "node_at nds p = Some nd" using node_at_paths g by (metis static_graph_def)
  have e: "degree r ?s = degree r s" "succ x ?s = succ x s" "open_edges nds ?s r = open_edges nds s r" for r x
    by (simp_all add: degree_def succ_def dependents_def open_edges_def cong: if_cong)
  have "kahn nds ?s"
  proof (rule kahnI, unfold e)
    show "calm nds ?s" using c by (simp add: calm_def)
    show "degree r s = int (open_edges nds s r)" if "r \<in> paths nds" for r using kahnD(2)[OF k that] .
    show "r \<in> set (succ nd s) \<longleftrightarrow> (nd_path nd, r) \<in> before nds" if "nd \<in> set nds" for nd r
      using kahnD(3)[OF k that] .
    show "r \<in> paths nds \<and> degree r s = 0" if "r \<in> set (sc_ready_queue ?s)" for r
      using kahnD(4)[OF k, of r] that q by simp
    show "r \<in> set (sc_ready_queue ?s)"
      if "r \<in> paths nds" "r \<notin> set (sc_executed ?s)" "degree r s = 0" for r
      using kahnD(5)[OF k, of r] that q by auto
  qed (use kahnD(6,7,8)[OF k] in simp_all)
  then show ?thesis
    using q nd by (simp add: main_step_def sbind_eq main_step_calm[OF c] calm_dispatch[OF c q(1) nd] work_def succ_def dependents_def
        cong: if_cong)
qed

lemma kahn_loop:
  assumes "kahn nds s" "static_graph nds" "benign env nds P" "P ctx (sc_session s)" "work nds s < fuel"
    "dg_ready_queue dag = [] \<Longrightarrow> sc_ready_queue s = []"
  shows "\<exists>ctx' s'. run_main_loop env fuel dag ctx s = Some (Inr (finalize_execution env ctx' s'), s') \<and>
    kahn nds s' \<and> P ctx' (sc_session s') \<and>
    (sc_ready_queue s' = [] \<or> (\<exists>nd \<in> set nds. hard_end nd \<and> nd_path nd \<in> set (sc_executed s')))"
  using assms
proof (induction fuel arbitrary: ctx s)
  case (Suc fuel)
  have c: "calm nds s" using Suc.prems(1) by (simp add: kahn_def)
  have pd: "ss_pending_deps (sc_session s) = []" using c by (simp add: calm_def)
  show ?case
  proof (cases "sc_ready_queue s")
    case Nil
    have "main_step env dag ctx s = (Inr (Break ctx), s)"
      using Nil c pd by (simp add: main_step_def sbind_eq main_step_calm[OF c] dispatch_ready_nodes_def)
    then have "run_main_loop env (Suc fuel) dag ctx s = Some (Inr (finalize_execution env ctx s), s)" by simp
    then show ?thesis using Suc.prems Nil by blast
  next
    case (Cons p q)
    then have dq: "dg_ready_queue dag \<noteq> []" using Suc.prems(6) by auto
    show ?thesis
    proof (cases "p \<in> set (sc_executed s)")
      case True
      let ?s = "s \<lparr> sc_ready_queue := q \<rparr>"
      note sk = kahn_skip[OF Suc.prems(1,2) Cons True, of env dag ctx]
      have "\<exists>ctx' s'. run_main_loop env fuel dag ctx ?s = Some (Inr (finalize_execution env ctx' s'), s') \<and>
          kahn nds s' \<and> P ctx' (sc_session s') \<and>
          (sc_ready_queue s' = [] \<or> (\<exists>nd \<in> set nds. hard_end nd \<and> nd_path nd \<in> set (sc_executed s')))"
        by (rule Suc.IH) (use sk Suc.prems dq in auto)
      then show ?thesis using sk dq by simp
    next
      case False
      obtain ctx' s' where x: "kahn nds s'" "P ctx' (sc_session s')" "work nds s' < work nds s"
        "sc_executed s' = p # sc_executed s"
        "main_step env dag ctx s = (Inr (Go_on dag ctx'), s') \<or>
         main_step env dag ctx s = (Inr (Break ctx'), s') \<and> (\<exists>nd \<in> set nds. nd_path nd = p \<and> hard_end nd)"
        using kahn_step[where ctx = ctx and dag = dag, OF Suc.prems(1,2,3,4) Cons False] by blast
      from x(5) show ?thesis
      proof
        assume m: "main_step env dag ctx s = (Inr (Go_on dag ctx'), s')"
        have "\<exists>ctx'' s''. run_main_loop env fuel dag ctx' s' = Some (Inr (finalize_execution env ctx'' s''), s'') \<and>
            kahn nds s'' \<and> P ctx'' (sc_session s'') \<and>
            (sc_ready_queue s'' = [] \<or> (\<exists>nd \<in> set nds. hard_end nd \<and> nd_path nd \<in> set (sc_executed s'')))"
          by (rule Suc.IH) (use x Suc.prems dq in auto)
        then show ?thesis using m dq by simp
      next
        assume m: "main_step env dag ctx s = (Inr (Break ctx'), s') \<and> (\<exists>nd \<in> set nds. nd_path nd = p \<and> hard_end nd)"
        then have "run_main_loop env (Suc fuel) dag ctx s = Some (Inr (finalize_execution env ctx' s'), s')"
          using dq by simp
        moreover have "\<exists>nd \<in> set nds. hard_end nd \<and> nd_path nd \<in> set (sc_executed s')" using m x(4) by auto
        ultimately show ?thesis using x by blast
      qed
    qed
  qed
qed simp

text \<open>Nothing is left over: an unexecuted node of an acyclic graph with an empty queue would have an
  unexecuted predecessor of smaller rank.\<close>

lemma all_executed:
  fixes rank :: "string \<Rightarrow> nat"
  assumes k: "kahn nds s" and g: "static_graph nds" and e: "sc_ready_queue s = []"
    and a: "\<And>p q. (p, q) \<in> before nds \<Longrightarrow> rank p < rank q" and r: "r \<in> paths nds"
  shows "r \<in> set (sc_executed s)"
  using r
proof (induction "rank r" arbitrary: r rule: less_induct)
  case less
  show ?case
  proof (rule ccontr)
    assume n: "r \<notin> set (sc_executed s)"
    have "open_edges nds s r = 0"
    proof (rule open_edges_zeroI)
      fix nd
      assume nd: "nd \<in> set nds" "nd_path nd \<notin> set (sc_executed s)"
      show "r \<notin> set (succ nd s)"
      proof
        assume "r \<in> set (succ nd s)"
        then have "(nd_path nd, r) \<in> before nds" using kahnD(3)[OF k nd(1)] by blast
        then show False using less.hyps[OF a] before_targets[OF g] nd(2) by blast
      qed
    qed
    then have "degree r s = 0" using kahnD(2)[OF k less.prems] by simp
    then show False using kahnD(5)[OF k less.prems n] e by simp
  qed
qed

text \<open>Every hard end comes after every other node, system nodes apart.\<close>

definition user_paths :: "node list \<Rightarrow> string set" where
  "user_paths nds = {p \<in> paths nds. \<not> is_system_path p}"

definition ends_last :: "node list \<Rightarrow> bool" where
  "ends_last nds \<longleftrightarrow> list_all (\<lambda>nd. hard_end nd \<longrightarrow> user_paths nds \<subseteq> {p. (p, nd_path nd) \<in> (before nds)\<^sup>*}) nds"

lemma executed_everything:
  fixes rank :: "string \<Rightarrow> nat"
  assumes k: "kahn nds s" and g: "static_graph nds" and l: "ends_last nds"
    and a: "\<And>p q. (p, q) \<in> before nds \<Longrightarrow> rank p < rank q"
    and e: "sc_ready_queue s = [] \<or> (\<exists>nd \<in> set nds. hard_end nd \<and> nd_path nd \<in> set (sc_executed s))"
  shows "user_paths nds \<subseteq> set (sc_executed s) \<and> set (sc_executed s) \<subseteq> paths nds"
proof -
  have "r \<in> set (sc_executed s)" if r: "r \<in> user_paths nds" for r
    using e
  proof
    assume "sc_ready_queue s = []"
    then show ?thesis using all_executed[where rank = rank, OF k g _ a] r by (auto simp: user_paths_def)
  next
    assume "\<exists>nd \<in> set nds. hard_end nd \<and> nd_path nd \<in> set (sc_executed s)"
    then obtain nd where "nd \<in> set nds" "hard_end nd" "nd_path nd \<in> set (sc_executed s)" by blast
    then show ?thesis using topo_ancestors[OF _ kahnD(8)[OF k]] l r by (auto simp: ends_last_def list_all_iff)
  qed
  then show ?thesis using kahnD(6)[OF k] by blast
qed

abbreviation completed :: "json \<Rightarrow> exec_result" where
  "completed ctx \<equiv> \<lparr> xr_success = True, xr_message = ''Execution completed successfully'',
     xr_final_context = ctx, xr_paused_at = None \<rparr>"

definition run_complete :: "node list \<Rightarrow> 'w scheduler \<Rightarrow> bool" where
  "run_complete nds s \<longleftrightarrow> user_paths nds \<subseteq> set (sc_executed s) \<and> set (sc_executed s) \<subseteq> paths nds \<and>
     distinct (sc_executed s) \<and> topo nds (sc_executed s)"

lemma static_graph_runs:
  fixes rank :: "string \<Rightarrow> nat"
  assumes "static_graph nds" "fresh nds s" "ends_last nds"
    "\<And>p q. (p, q) \<in> before nds \<Longrightarrow> rank p < rank q"
    "benign env nds P" "P ctx (sc_session (register_resources s))"
    "length (sc_ready_queue s) + length nds + edge_count nds < fuel"
  shows "\<exists>s1 ctx' s'. build_dag s = (Inr (), s1) \<and>
     run_main_loop env fuel (copy_dag_state s1) ctx s1 = Some (Inr (completed ctx'), s') \<and>
     P ctx' (sc_session s') \<and> run_complete nds s'"
proof -
  obtain s1 where s1: "build_dag s = (Inr (), s1)" "kahn nds s1" "sc_session s1 = sc_session (register_resources s)"
    "work nds s1 \<le> length (sc_ready_queue s) + length nds + edge_count nds"
    using build_kahn[OF assms(1,2)] by blast
  have w: "work nds s1 < fuel" using s1(4) assms(7) by simp
  have "\<exists>ctx' s'. run_main_loop env fuel (copy_dag_state s1) ctx s1 = Some (Inr (finalize_execution env ctx' s'), s') \<and>
    kahn nds s' \<and> P ctx' (sc_session s') \<and>
    (sc_ready_queue s' = [] \<or> (\<exists>nd \<in> set nds. hard_end nd \<and> nd_path nd \<in> set (sc_executed s')))"
    by (rule kahn_loop[OF s1(2) assms(1,5) _ w]) (use assms(6) s1(3) in \<open>simp_all add: copy_dag_state_def\<close>)
  then obtain ctx' s' where x: "run_main_loop env fuel (copy_dag_state s1) ctx s1 = Some (Inr (finalize_execution env ctx' s'), s')"
    "kahn nds s'" "P ctx' (sc_session s')"
    "sc_ready_queue s' = [] \<or> (\<exists>nd \<in> set nds. hard_end nd \<and> nd_path nd \<in> set (sc_executed s'))" by blast
  have ex: "user_paths nds \<subseteq> set (sc_executed s') \<and> set (sc_executed s') \<subseteq> paths nds"
    using executed_everything[where rank = rank, OF x(2) assms(1,3,4) x(4)] by blast
  have all: "sc_all_nodes s' = nds" using x(2) by (simp add: kahn_def calm_def)
  have "\<not> bc_exceeded (session_now (sv_session env) (sc_session s')) (ss_budget (sc_session s'))"
    using assms(5) x(3) by (simp add: benign_def)
  then have "finalize_execution env ctx' s' = completed ctx'"
    using ex all by (auto simp: finalize_execution_def user_paths_def paths_def Let_def filter_empty_conv)
  then show ?thesis using s1(1) x(1,3) ex kahnD(7,8)[OF x(2)] by (auto simp: run_complete_def)
qed

text \<open>An entry point, if there is one, is a node without predecessors.\<close>

definition entry_ok :: "'w scheduler_env \<Rightarrow> node list \<Rightarrow> bool" where
  "entry_ok env nds \<longleftrightarrow> (case entry_point (case se_full_graphs (sv_session env) of None \<Rightarrow> [] | Some gs \<Rightarrow> gs) of
       Inr None \<Rightarrow> True | Inr (Some p) \<Rightarrow> p \<in> paths nds \<and> p \<notin> Range (before nds) | Inl e \<Rightarrow> False)"

lemma static_graph_execute:
  fixes rank :: "string \<Rightarrow> nat"
  assumes "static_graph nds" "fresh nds s" "ends_last nds"
    "\<And>p q. (p, q) \<in> before nds \<Longrightarrow> rank p < rank q"
    "benign env nds P" "P ctx (sc_session (register_resources s))" "entry_ok env nds"
    "length (sc_ready_queue s) + length nds + edge_count nds + 1 < fuel"
  shows "\<exists>ctx' s'. execute env fuel ctx s = Some (Inr (completed ctx'), s') \<and> P ctx' (sc_session s') \<and> run_complete nds s'"
proof -
  obtain ep where ep: "entry_point (case se_full_graphs (sv_session env) of None \<Rightarrow> [] | Some gs \<Rightarrow> gs) = Inr ep"
    using assms(7) by (auto simp: entry_ok_def split: sum.splits)
  define s0 where "s0 = (case ep of None \<Rightarrow> s | Some p \<Rightarrow> s \<lparr> sc_ready_queue := [p] \<rparr>)"
  have e: "ep = None \<or> (\<exists>p. ep = Some p \<and> p \<in> paths nds \<and> p \<notin> Range (before nds))"
    using assms(7) ep by (auto simp: entry_ok_def split: option.splits)
  have f: "fresh nds s0" "length (sc_ready_queue s0) \<le> Suc (length (sc_ready_queue s))"
    "sc_session (register_resources s0) = sc_session (register_resources s)"
    using assms(2) e by (auto simp: s0_def fresh_def register_resources_def)
  have "has_node p s" if "p \<in> paths nds" for p
    using that assms(1,2) has_node_at by (auto simp: fresh_def static_graph_def)
  then have p: "prepare_dag_state env s = (Inr None, s0)"
    using e ep by (auto simp: prepare_dag_state_def sbind_eq s0_def push_ready_def has_node_def)
  have "P ctx (sc_session (register_resources s0))" using assms(6) f(3) by simp
  moreover have "length (sc_ready_queue s0) + length nds + edge_count nds < fuel" using assms(8) f(2) by linarith
  ultimately obtain s1 ctx' s' where "build_dag s0 = (Inr (), s1)"
      "run_main_loop env fuel (copy_dag_state s1) ctx s1 = Some (Inr (completed ctx'), s')"
      "P ctx' (sc_session s')" "run_complete nds s'"
    using static_graph_runs[where rank = rank, OF assms(1) f(1) assms(3,4,5)] by blast
  then show ?thesis using p by (auto simp: execute_def)
qed

text \<open>C3. The scheduler executes acyclic static graphs completely and in order.  Take a registered graph
  of nodes with distinct paths whose successors and wait_for dependencies name nodes of the graph,
  without forks, joins, yields, generated subgraphs or template waits, acyclic (a rank grows along
  every edge), in which a hard end comes after every node but system nodes, whose entry point, if one
  is declared, has no predecessors, and whose nodes run successfully.  Then, with at least as much fuel
  as the nodes, edges and already queued paths, execute ends, reports success, and has executed every
  node but perhaps system nodes, nothing else, each once, each after everything that must come before
  it.\<close>

theorem static_graph_executes:
  fixes rank :: "string \<Rightarrow> nat"
  assumes "static_graph nds" "fresh nds s" "ends_last nds"
    "\<And>p q. (p, q) \<in> before nds \<Longrightarrow> rank p < rank q"
    "benign env nds P" "P ctx (sc_session (register_resources s))" "entry_ok env nds"
    "length (sc_ready_queue s) + length nds + edge_count nds + 1 < fuel"
  shows "\<exists>ctx' s'. execute env fuel ctx s = Some (Inr \<lparr> xr_success = True, xr_message = ''Execution completed successfully'',
       xr_final_context = ctx', xr_paused_at = None \<rparr>, s') \<and>
     user_paths nds \<subseteq> set (sc_executed s') \<and> set (sc_executed s') \<subseteq> paths nds \<and>
     distinct (sc_executed s') \<and> topo nds (sc_executed s')"
  using static_graph_execute[where rank = rank, OF assms] by (auto simp: run_complete_def)

section \<open>A concrete graph\<close>

text \<open>Start and end nodes without metadata and permissions succeed in every session without a budget.\<close>

definition no_budget :: "json \<Rightarrow> 'w session \<Rightarrow> bool" where
  "no_budget ctx ses \<longleftrightarrow> is_obj ctx \<and> budget_opt (ss_budget ses) = None"

lemma prepare_no_budget: "is_obj ctx \<Longrightarrow> \<exists>c. prepare_context ctx s = Inr c \<and> is_obj c"
  by (auto simp: prepare_context_def ebind_def)

lemma passive_runs:
  assumes "nd_permissions nd = []" "nd_body nd = StartNode \<or> nd_body nd = EndNode" "needs_snapshot nd = Inr False"
    "no_budget ctx ses"
  shows "\<exists>r ses'. session_execute_node env nd ctx ses = (Inr r, ses') \<and> er_success r \<and> er_paused_at r = None \<and>
    no_budget (er_new_context r) ses'"
proof -
  obtain c where c: "prepare_context ctx ses = Inr c" "is_obj c"
    using prepare_no_budget assms(4) by (auto simp: no_budget_def)
  have nd: "nd_type nd \<in> {START, END}" "nd_permissions nd = []" "nd_body nd = StartNode \<or> nd_body nd = EndNode"
    using assms(1,2) by (auto simp: nd_type_def)
  note ns = assms(3)
  have run: "run_node env nd c s = (Inr c, s)" for s
    using nd by (auto simp: run_node_def on_exec_def execute_node_def execute_body_def sbind_eq)
  have cb: "consume_budget (nd_type nd) (ss_budget ses) = (None, ss_budget ses)"
    using nd(1) assms(4) by (auto simp: consume_budget_def bc_consume_defs on_budget_def no_budget_def)
  obtain s1 where s1: "s1 = start_trace env nd (ses \<lparr> ss_budget := ss_budget ses \<rparr>)" by blast
  have ty: "nd_type nd \<noteq> YIELD" "nd_type nd \<noteq> DSL_CALL" using nd(1) by auto
  obtain r s2 where a: "attempt_node env nd c False s1 = (r, s2)" "er_success r" "er_paused_at r = None"
    "er_new_context r = c" "budget_opt (ss_budget s2) = None"
    using assms(4) ty by (simp add: attempt_node_def with_snapshot_def run execute_with_snapshot_def yielded_def
        pause_of_def s1 no_budget_def)
  obtain d where d: "calculate_context_delta (se_jeq env) c c = Inr d" using delta_total[of c c] c(2) by blast
  have tr: "\<exists>s3. end_trace env nd c r s2 = (Inr r, s3) \<and> budget_opt (ss_budget s3) = None"
    using d a(4,5) by (auto simp: end_trace_def on_node_end_def)
  have "session_execute_node env nd ctx ses = end_trace env nd c r s2"
    using c(1) ns cb a(1) s1 by (simp add: session_execute_node_def Let_def)
  then show ?thesis using tr a c(2) by (auto simp: no_budget_def)
qed

definition sample_nodes :: "node list" where
  "sample_nodes = [sample_start, mk_node ''/main/end'' EndNode []]"

definition sample_scheduler_env :: "unit scheduler_env" where
  "sample_scheduler_env = \<lparr> sv_session = sample_session_env, sv_order = id, sv_f2i = (\<lambda>f. 0) \<rparr>"

definition sample_scheduler :: "unit scheduler" where
  "sample_scheduler = foldl (\<lambda>s nd. register_node nd s) (new_scheduler sample_scheduler_env None 0 ()) sample_nodes"

lemma sample_before: "before sample_nodes = {(''/main/start'', ''/main/end'')}"
  by (auto simp: before_def sample_nodes_def sample_start_def mk_node_def waits_of_def static_waits_def)

lemma sample_static: "static_graph sample_nodes"
  by (auto simp: static_graph_def sample_nodes_def sample_start_def mk_node_def node_ok_def plain_def nd_type_def
      paths_def waits_of_def static_waits_def end_mode_def jvalue_str_def)

lemma sample_fresh: "fresh sample_nodes sample_scheduler"
  by (auto simp: fresh_def sample_scheduler_def sample_nodes_def new_scheduler_def register_node_def
      new_session_def node_at_def sample_start_def mk_node_def intro!: ext)

lemma sample_ends_last: "ends_last sample_nodes"
  by (auto simp: ends_last_def sample_before) (auto simp: user_paths_def paths_def sample_nodes_def sample_start_def mk_node_def
      hard_end_def nd_type_def)

lemma sample_benign: "benign sample_scheduler_env sample_nodes no_budget"
proof -
  have "\<exists>r ses'. session_execute_node (sv_session sample_scheduler_env) nd ctx ses = (Inr r, ses') \<and> er_success r \<and>
      er_paused_at r = None \<and> no_budget (er_new_context r) ses'"
    if "nd \<in> set sample_nodes" "no_budget ctx ses" for nd ctx ses
    using that(1) passive_runs[OF _ _ _ that(2), of nd "sv_session sample_scheduler_env"]
    by (auto simp: sample_nodes_def sample_start_def mk_node_def needs_snapshot_def meta_flag_def nd_type_def)
  then show ?thesis by (auto simp: benign_def no_budget_def bc_exceeded_def)
qed

lemma static_graph_executes_witness:
  "\<exists>ctx' s'. execute sample_scheduler_env 10 jempty sample_scheduler =
     Some (Inr \<lparr> xr_success = True, xr_message = ''Execution completed successfully'',
       xr_final_context = ctx', xr_paused_at = None \<rparr>, s') \<and>
     user_paths sample_nodes \<subseteq> set (sc_executed s') \<and> set (sc_executed s') \<subseteq> paths sample_nodes \<and>
     distinct (sc_executed s') \<and> topo sample_nodes (sc_executed s')"
proof (rule static_graph_executes[OF sample_static sample_fresh sample_ends_last _ sample_benign,
      where rank = "\<lambda>p. if p = ''/main/end'' then 1 else 0"])
  show "no_budget jempty (sc_session (register_resources sample_scheduler))"
    by (simp add: no_budget_def register_resources_def sample_scheduler_def sample_nodes_def register_node_def
        new_scheduler_def new_session_def new_budget_controller_def)
  show "entry_ok sample_scheduler_env sample_nodes"
    by (simp add: entry_ok_def sample_scheduler_env_def sample_session_env_def)
  show "length (sc_ready_queue sample_scheduler) + length sample_nodes + edge_count sample_nodes + 1 < 10"
    by (simp add: sample_scheduler_def sample_nodes_def register_node_def new_scheduler_def edge_count_def
        waits_of_def static_waits_def sample_start_def mk_node_def)
qed (auto simp: sample_before)

end
