(* ===== verification/Scheduler_Behaviour.thy ===== *)
theory Scheduler_Behaviour
  imports Static_Graphs
begin

text \<open>
  Behaviour of the scheduler outside the static fragment: saving and restoring at a yield, resuming,
  jumps taken from failure messages, template waits, joins without a fork, rebuilding after a graph was
  generated, and the precedences of the parallel mode.
\<close>

section \<open>Saving and restoring\<close>

lemma kv_ins_last: "\<forall>k' \<in> fst ` set xs. k' < k \<Longrightarrow> kv_ins k v xs = xs @ [(k, v)]"
  by (induction k v xs rule: kv_ins.induct) auto

lemma foldl_kv_ins_sorted:
  "sorted_wrt (<) (map fst (xs @ ys)) \<Longrightarrow> foldl (\<lambda>o' (k, v). kv_ins k v o') xs ys = xs @ ys"
proof (induction ys arbitrary: xs)
  case (Cons y ys)
  obtain k v where y: "y = (k, v)" by fastforce
  have "kv_ins k v xs = xs @ [(k, v)]"
    by (rule kv_ins_last) (use Cons.prems y in \<open>auto simp: sorted_wrt_append\<close>)
  then show ?case using Cons.IH[of "xs @ [y]"] Cons.prems y by simp
qed simp

lemma jobj_sorted: "sorted_wrt (<) (map fst kvs) \<Longrightarrow> jobj kvs = JObj kvs"
  using foldl_kv_ins_sorted[of "[]" kvs] by (simp add: jobj_def)

lemma string_items_JStr [simp]: "string_items (map JStr ps) = ps"
  by (induction ps) (auto simp: string_items_def)

lemma foldr_insert_distinct: "distinct ps \<Longrightarrow> foldr List.insert ps [] = ps"
proof (induction ps)
  case (Cons p ps)
  then show ?case by (simp add: List.insert_def)
qed simp

lemma serialize_lookups:
  "jlookup ''ready_queue'' (serialize_dag_state s) = Some (JArr (map JStr (sc_ready_queue s)))"
  "jlookup ''executed'' (serialize_dag_state s) = Some (JArr (map JStr (sc_executed s)))"
  "jlookup ''in_degree'' (serialize_dag_state s) = Some (jobj (map (\<lambda>(p, d). (p, JInt d)) (sc_in_degree s)))"
  "is_obj (serialize_dag_state s)"
  by (simp_all add: serialize_dag_state_def jobj_def)

lemma restore_queues:
  assumes "distinct (sc_executed s)"
  shows "sc_ready_queue (restore_dag_state env (serialize_dag_state s) s') = sc_ready_queue s"
    "sc_executed (restore_dag_state env (serialize_dag_state s) s') = sc_executed s"
  using assms by (simp_all add: restore_dag_state_def serialize_lookups json_strings_def foldr_insert_distinct)

definition int32 :: "int \<Rightarrow> bool" where
  "int32 d \<longleftrightarrow> - (2 ^ 31) \<le> d \<and> d < 2 ^ 31"

lemma wrap32_int32: "int32 d \<Longrightarrow> wrap32 d = d"
  by (simp add: int32_def wrap32_def sint_sbintrunc' signed_take_bit_int_eq_self)

lemma restored_degrees_fold:
  assumes "list_all (\<lambda>(p, d). int32 d) ys"
  shows "foldl (\<lambda>m (p, v). case restored_degree env v of Some d \<Rightarrow> kv_ins p d m | None \<Rightarrow> m) xs
      (map (\<lambda>(p, d). (p, JInt d)) ys) = foldl (\<lambda>o' (k, v). kv_ins k v o') xs ys"
  using assms
proof (induction ys arbitrary: xs)
  case (Cons y ys)
  obtain p d where y: "y = (p, d)" by fastforce
  then show ?case using Cons by (simp add: restored_degree_def wrap32_int32)
qed simp

section \<open>Resuming a yield\<close>

text \<open>The suspended scheduler: its pending yield holds its own serialised state.\<close>

definition suspended :: "string \<Rightarrow> 'w scheduler \<Rightarrow> bool" where
  "suspended p s \<longleftrightarrow> sc_state s = YIELDED \<and> sc_ready_queue s = [p] \<and> p \<notin> set (sc_executed s) \<and>
     distinct (sc_executed s) \<and> \<not> sc_executing_fork s \<and>
     (\<exists>y. ss_pending_yield (sc_session s) = Some y \<and> ys_resume_context y = serialize_dag_state s)"

lemma yield_suspends:
  assumes run: "session_execute_node (sv_session env) nd ctx (sc_session s) = (Inr r, ses')"
    and r: "er_success r" "ss_pending_yield ses' \<noteq> None"
    and s: "sc_ready_queue s = [p]" "p \<notin> set (sc_executed s)" "distinct (sc_executed s)" "\<not> sc_executing_fork s"
      "map_of (sc_node_map s) p = Some nd" "nd_type nd = YIELD"
    and w: "\<And>t. jlookup ''wait_for'' (nd_metadata nd) \<noteq> Some (JStr t)" and dag: "dg_ready_queue dag \<noteq> []"
  shows "\<exists>s'. run_main_loop env (Suc n) dag ctx s = Some (Inr \<lparr> xr_success = True, xr_message = ''YIELDED at '' @ p,
      xr_final_context = er_new_context r, xr_paused_at = None \<rparr>, s') \<and> suspended p s' \<and> sc_executed s' = sc_executed s \<and>
      sc_node_map s' = sc_node_map s \<and> sc_yielded_context s' = er_new_context r"
proof -
  let ?s1 = "s \<lparr> sc_ready_queue := [] \<rparr>"
  have d: "dispatch_ready_nodes env ctx s = (Found p nd, ?s1)"
    using s by (simp add: dispatch_ready_nodes_def pop_ready_node_def)
  have rw: "resolve_dynamic_waits env nd p ctx ?s1 = ((None, True), ?s1)"
    using w by (auto simp: resolve_dynamic_waits_def split: option.splits json.splits)
  obtain s2 where s2: "run_in_session env nd ctx ?s1 = (Inr r, s2)" "sc_session s2 = ses'" "sc_ready_queue s2 = []"
    "sc_executed s2 = sc_executed s" "sc_executing_fork s2 = sc_executing_fork s" "sc_node_map s2 = sc_node_map s"
    using run by (simp add: run_in_session_def append_dynamic_graphs_def)
  have step: "main_step env dag ctx s = after_node env dag nd p r s2"
    using s d rw s2 r(1) by (simp add: main_step_def sbind_eq handle_fork_branches_block_def run_regular_def)
  have an: "after_node env dag nd p r s2 = (let (x, s3) = suspend p (er_new_context r) s2 in (Inr (Return x), s3))"
    using r(2) s2(2) by (simp add: after_node_def Let_def)
  have "suspended p (snd (suspend p (er_new_context r) s2))"
    using s s2 by (auto simp: suspended_def suspend_def Let_def push_ready_def set_pending_yield_def
        serialize_dag_state_def)
  then show ?thesis
    using step an s2 dag by (simp add: suspend_def Let_def push_ready_def)
qed

lemma session_succeeds:
  assumes "prepared nd ctx ses = Inr (c, need)" "is_obj c" "fst (consume_budget (nd_type nd) (ss_budget ses)) = None"
    "\<And>s. run_node env nd c s = (Inr new, s)" "is_obj new"
  shows "\<exists>r ses'. session_execute_node env nd ctx ses = (Inr r, ses') \<and> er_success r \<and> er_new_context r = new \<and>
    (yielded nd new \<longrightarrow> ss_pending_yield ses' \<noteq> None)"
proof -
  obtain b where b: "consume_budget (nd_type nd) (ss_budget ses) = (None, b)"
    using assms(3) by (cases "consume_budget (nd_type nd) (ss_budget ses)") simp
  define s1 where "s1 = (if need then ses \<lparr> ss_store := save_snapshot (se_dump env) (nd_path nd) c (ss_store ses) \<rparr> else ses)
    \<lparr> ss_budget := b \<rparr>"
  obtain r s2 where a: "attempt_node env nd c need (start_trace env nd s1) = (r, s2)" by fastforce
  have r: "er_success r" "er_new_context r = new" "yielded nd new \<Longrightarrow> ss_pending_yield s2 \<noteq> None"
    using a assms(4) by (cases need; auto simp: attempt_node_def with_snapshot_def execute_with_snapshot_def Let_def
        set_pending_yield_def split: if_splits)+
  obtain d where d: "calculate_context_delta (se_jeq env) c new = Inr d" using delta_total assms(2,5) by blast
  have tr: "\<exists>s3. end_trace env nd c r s2 = (Inr r, s3) \<and> ss_pending_yield s3 = ss_pending_yield s2"
    using d r by (auto simp: end_trace_def on_node_end_def)
  have "session_execute_node env nd ctx ses = end_trace env nd c r s2"
    using assms(1) b a by (cases need) (simp_all add: session_execute_node_def prepared_def Let_def s1_def)
  then show ?thesis using tr r by auto
qed

section \<open>Jumps\<close>

lemma find_sub_skip: "\<not> prefix p (c # cs) \<Longrightarrow> find_sub p (c # cs) = map_option Suc (find_sub p cs)"
  by simp

lemma jump_message_position:
  "find_sub kJumpMarker (''Node execution failed: Assert failed. Jumping to: '' @ target) = Some 38"
  by (simp add: kJumpMarker_def)

lemma run_failing:
  assumes "session_execute_node (sv_session env) nd ctx (sc_session s) = (Inr r, ses')" "\<not> er_success r"
    "find_sub kJumpMarker (er_message r) = Some n"
  shows "\<exists>s'. run_regular env dag nd p ctx s = (Inr (Go_on dag ctx), s') \<and>
    sc_ready_queue s' = [drop (n + length kJumpMarker) (er_message r)] \<and> sc_node_map s' = sc_node_map s \<and>
    sc_executing_fork s' = sc_executing_fork s"
  using assms by (simp add: run_regular_def run_in_session_def append_dynamic_graphs_def process_jump_def)

lemma assert_fails_session:
  assumes "nd_body nd = AssertNode cond (Some target)" "nd_permissions nd = []"
    "prepared nd ctx ses = Inr (c, need)" "is_obj c" "fst (consume_budget ASSERT (ss_budget ses)) = None"
    "render (se_exec env) cond c = Inr ''false''"
  shows "\<exists>r ses'. session_execute_node env nd ctx ses = (Inr r, ses') \<and> \<not> er_success r \<and>
    er_message r = ''Node execution failed: Assert failed. Jumping to: '' @ target"
proof -
  obtain b where b: "consume_budget (nd_type nd) (ss_budget ses) = (None, b)"
    using assms(1,5) by (cases "consume_budget ASSERT (ss_budget ses)") (simp add: nd_type_def)
  have run: "run_node env nd c s = (Inl (Runtime_error (''Assert failed. Jumping to: '' @ target)), s)" for s
    using assms(1,2,6) by (simp add: run_node_def on_exec_def execute_node_def execute_body_def sbind_eq
        execute_assert_def assert_condition_def)
  define s1 where "s1 = (if need then ses \<lparr> ss_store := save_snapshot (se_dump env) (nd_path nd) c (ss_store ses) \<rparr> else ses)
    \<lparr> ss_budget := b \<rparr>"
  obtain r s2 where a: "attempt_node env nd c need (start_trace env nd s1) = (r, s2)" "\<not> er_success r"
    "er_message r = ''Node execution failed: Assert failed. Jumping to: '' @ target" "er_new_context r = JNull"
    by (simp add: attempt_node_def with_snapshot_def run execute_with_snapshot_def)
  obtain d where d: "calculate_context_delta (se_jeq env) c JNull = Inr d" using delta_total assms(4) by blast
  have tr: "\<exists>s3. end_trace env nd c r s2 = (Inr r, s3)"
    using d a(2,4) by (auto simp: end_trace_def on_node_end_def)
  have "session_execute_node env nd ctx ses = end_trace env nd c r s2"
    using assms(3) b a(1) by (cases need) (simp_all add: session_execute_node_def prepared_def Let_def s1_def)
  then show ?thesis using tr a by auto
qed

section \<open>Properties of the scheduler\<close>

text \<open>C17. Saving and restoring.  Restoring the serialised state into any scheduler gives it the ready
  queue in order, the executed nodes and every degree, when the executed paths are distinct, the
  degree map is sorted by path and the degrees are ints.\<close>

theorem serialize_restore:
  assumes "distinct (sc_executed s)" "sorted_wrt (<) (map fst (sc_in_degree s))"
    "list_all (\<lambda>(p, d). int32 d) (sc_in_degree s)"
  shows "restore_dag_state env (serialize_dag_state s) s' = s' \<lparr> sc_ready_queue := sc_ready_queue s,
     sc_in_degree := sc_in_degree s, sc_executed := sc_executed s \<rparr>"
proof -
  have "sorted_wrt (<) (map fst (map (\<lambda>(p, d). (p, JInt d)) (sc_in_degree s)))"
    using assms(2) by (simp add: comp_def split_beta)
  then have "jobj (map (\<lambda>(p, d). (p, JInt d)) (sc_in_degree s)) = JObj (map (\<lambda>(p, d). (p, JInt d)) (sc_in_degree s))"
    by (rule jobj_sorted)
  moreover have "foldl (\<lambda>o' (k, v). kv_ins k v o') [] (sc_in_degree s) = sc_in_degree s"
    using foldl_kv_ins_sorted[of "[]" "sc_in_degree s"] assms(2) by simp
  ultimately have "restored_degrees env (jlookup ''in_degree'' (serialize_dag_state s)) = sc_in_degree s"
    by (simp add: serialize_lookups restored_degrees_def restored_degrees_fold[OF assms(3)])
  then show ?thesis
    using assms(1) by (simp add: restore_dag_state_def serialize_lookups json_strings_def foldr_insert_distinct)
qed

lemma serialize_restore_witness:
  "restore_dag_state sample_scheduler_env (serialize_dag_state (sample_scheduler \<lparr> sc_ready_queue := [''b'', ''a''],
       sc_in_degree := [(''a'', 2), (''b'', -1)], sc_executed := [''c''] \<rparr>)) sample_scheduler =
   sample_scheduler \<lparr> sc_ready_queue := [''b'', ''a''], sc_in_degree := [(''a'', 2), (''b'', -1)], sc_executed := [''c''] \<rparr>"
  by (subst serialize_restore) (simp_all add: int32_def)

text \<open>A resumed yield runs again.  A scheduler suspended at a yield node keeps that node at the head of
  its queue and outside the executed set, so resuming executes the same node once more; if it yields
  again, whatever context the caller supplied, the run ends suspended at the same node with nothing
  new executed.  The successors of a yield node whose stream does not fail are never reached.\<close>

theorem resume_repeats_yield:
  assumes "suspended p s" "map_of (sc_node_map s) p = Some nd" "nd_type nd = YIELD"
    "\<And>t. jlookup ''wait_for'' (nd_metadata nd) \<noteq> Some (JStr t)"
    "ebind (members updated) (overlay (sc_yielded_context s)) = Inr merged"
    "session_execute_node (sv_session env) nd merged (clear_pending_yield (sc_session s)) = (Inr r, ses')"
    "er_success r" "ss_pending_yield ses' \<noteq> None"
  shows "\<exists>s'. resume_yield env (Suc n) updated s = Some (Inr \<lparr> xr_success = True, xr_message = ''YIELDED at '' @ p,
      xr_final_context = er_new_context r, xr_paused_at = None \<rparr>, s') \<and> suspended p s' \<and>
    sc_executed s' = sc_executed s \<and> sc_yielded_context s' = er_new_context r"
proof -
  obtain y where y: "ss_pending_yield (sc_session s) = Some y" "ys_resume_context y = serialize_dag_state s"
    and s: "sc_state s = YIELDED" "sc_ready_queue s = [p]" "p \<notin> set (sc_executed s)" "distinct (sc_executed s)"
      "\<not> sc_executing_fork s" using assms(1) by (auto simp: suspended_def)
  define s1 where "s1 = restore_dag_state env (serialize_dag_state s) s"
  define s2 where "s2 = s1 \<lparr> sc_session := clear_pending_yield (sc_session s1), sc_state := RUNNING,
    sc_yielded_context := JNull, sc_yielded_node_path := [] \<rparr>"
  have s1: "sc_ready_queue s1 = [p]" "sc_executed s1 = sc_executed s" "sc_session s1 = sc_session s"
    "sc_node_map s1 = sc_node_map s" "sc_executing_fork s1 = sc_executing_fork s"
    using restore_queues[OF s(4), of env s] s(2) by (simp_all add: s1_def restore_dag_state_def)
  have e: "resume_yield env (Suc n) updated s = run_main_loop env (Suc n) (copy_dag_state s2) merged s2"
    using s(1) y assms(5) by (simp add: resume_yield_def Let_def s1_def s2_def)
  have q: "sc_ready_queue s2 = [p]" "p \<notin> set (sc_executed s2)" "distinct (sc_executed s2)" "\<not> sc_executing_fork s2"
    "map_of (sc_node_map s2) p = Some nd" "dg_ready_queue (copy_dag_state s2) \<noteq> []" "sc_executed s2 = sc_executed s"
    "session_execute_node (sv_session env) nd merged (sc_session s2) = (Inr r, ses')"
    using s s1 assms(2,6) by (simp_all add: s2_def copy_dag_state_def)
  show ?thesis
    using yield_suspends[OF q(8) assms(7,8) q(1,2,3,4,5) assms(3,4) q(6), of n] e q(7) by auto
qed

definition sample_yield_env :: "unit scheduler_env" where
  "sample_yield_env = sample_scheduler_env \<lparr> sv_session := sample_session_env \<lparr> se_exec :=
     sample_executor_env \<lparr> xe_provider := Some (\<lambda>_ _ w. (Inl [], w), \<lambda>_ _ w. (None, w)) \<rparr> \<rparr> \<rparr>"

definition sample_yield_node :: node where
  "sample_yield_node = mk_node ''/main/y'' (YieldNode ''v'' STOP ''p'') []"

definition sample_suspended :: "unit scheduler" where
  "sample_suspended = (let s = sample_scheduler \<lparr> sc_node_map := [(''/main/y'', sample_yield_node)],
       sc_ready_queue := [''/main/y''], sc_state := YIELDED, sc_yielded_context := jempty \<rparr>
     in s \<lparr> sc_session := set_pending_yield \<lparr> ys_module_path = ''/main/y'',
          ys_resume_context = serialize_dag_state s \<rparr> (sc_session s) \<rparr>)"

lemma sample_scheduler_fields [simp]:
  "sc_executed sample_scheduler = []" "\<not> sc_executing_fork sample_scheduler"
  "sc_session sample_scheduler = new_session sample_session_env [] None 0 [] ()"
  by (simp_all add: sample_scheduler_def sample_nodes_def register_node_def new_scheduler_def sample_scheduler_env_def)

lemma sample_suspended: "suspended ''/main/y'' sample_suspended"
  by (simp add: suspended_def sample_suspended_def Let_def set_pending_yield_def serialize_dag_state_def)

lemma sample_yields:
  "\<exists>r ses'. session_execute_node (sv_session sample_yield_env) sample_yield_node jempty
      (clear_pending_yield (sc_session sample_suspended)) = (Inr r, ses') \<and> er_success r \<and>
      ss_pending_yield ses' \<noteq> None"
proof -
  let ?c = "JObj [(''__module_states__'', JObj [])]"
  let ?n = "JObj [(''__module_states__'', JObj []), (''__yield_mode__'', JStr ''STOP''), (''__yield_stop_path__'', JStr ''p'')]"
  let ?ses = "clear_pending_yield (sc_session sample_suspended)"
  have ses: "ss_resources ?ses = []" "ss_module_states ?ses = []" "budget_opt (ss_budget ?ses) = None"
    by (simp_all add: sample_suspended_def Let_def clear_pending_yield_def set_pending_yield_def new_session_def
        new_budget_controller_def)
  have p: "prepared sample_yield_node jempty ?ses = Inr (?c, False)"
    by (simp add: prepared_def prepare_context_def needs_snapshot_def meta_flag_def sample_yield_node_def mk_node_def
        ses jput_def nd_type_def jobj_def)
  have b: "fst (consume_budget (nd_type sample_yield_node) (ss_budget ?ses)) = None"
    by (simp add: consume_budget_def bc_consume_defs on_budget_def ses nd_type_def sample_yield_node_def mk_node_def Let_def)
  have env: "render (se_exec (sv_session sample_yield_env)) ''v'' ?c = Inr ''v''"
    "\<exists>f g. xe_provider (se_exec (sv_session sample_yield_env)) = Some (f, g)"
    by (simp_all add: sample_yield_env_def sample_executor_env_def render_def)
  have j: "jputs [(''__yield_mode__'', JStr ''STOP''), (''__yield_stop_path__'', JStr ''p'')] ?c = Inr ?n"
    by (simp add: jputs_def jput_def)
  have "run_node (sv_session sample_yield_env) sample_yield_node ?c s = (Inr ?n, s)" for s
    using env j by (auto simp: run_node_def on_exec_def execute_node_def execute_body_def sbind_eq execute_yield_def
        sample_yield_node_def mk_node_def)
  from session_succeeds[OF p _ b this] show ?thesis
    by (auto simp: yielded_def sample_yield_node_def mk_node_def nd_type_def jcontains_def)
qed

lemma resume_repeats_yield_witness:
  "\<exists>x s'. resume_yield sample_yield_env 1 jempty sample_suspended = Some (Inr x, s') \<and>
     xr_message x = ''YIELDED at /main/y'' \<and> suspended ''/main/y'' s' \<and> sc_executed s' = []"
proof -
  obtain r ses' where r: "session_execute_node (sv_session sample_yield_env) sample_yield_node jempty
      (clear_pending_yield (sc_session sample_suspended)) = (Inr r, ses')" "er_success r" "ss_pending_yield ses' \<noteq> None"
    using sample_yields by blast
  have "map_of (sc_node_map sample_suspended) ''/main/y'' = Some sample_yield_node" "sc_executed sample_suspended = []"
    "ebind (members jempty) (overlay (sc_yielded_context sample_suspended)) = Inr jempty"
    by (simp_all add: sample_suspended_def Let_def members_def overlay_def)
  moreover have "nd_type sample_yield_node = YIELD" "nd_metadata sample_yield_node = jempty"
    by (simp_all add: sample_yield_node_def mk_node_def nd_type_def)
  ultimately show ?thesis
    using resume_repeats_yield[OF sample_suspended _ _ _ _ r, of jempty 0] by auto
qed

text \<open>A failed assertion cannot jump.  The executor writes the target after a colon and a space, and the
  scheduler takes everything after the colon as the path: the queue becomes the target with a leading
  space, and the next iteration ends the run with Node not found, unless some node's path really
  starts with a space.\<close>

theorem assert_jump_fails:
  assumes "sc_ready_queue s = p # q" "map_of (sc_node_map s) p = Some nd" "p \<notin> set (sc_executed s)"
    "\<not> sc_executing_fork s" "nd_body nd = AssertNode cond (Some target)" "nd_permissions nd = []"
    "\<And>t. jlookup ''wait_for'' (nd_metadata nd) \<noteq> Some (JStr t)"
    "prepared nd ctx (sc_session s) = Inr (c, need)" "is_obj c"
    "fst (consume_budget ASSERT (ss_budget (sc_session s))) = None"
    "render (se_exec (sv_session env)) cond c = Inr ''false''"
    "map_of (sc_node_map s) ('' '' @ target) = None" "dg_ready_queue dag \<noteq> []"
  shows "\<exists>s'. run_main_loop env (Suc (Suc n)) dag ctx s =
    Some (Inr (failure (''Node not found in map:  '' @ target) ctx), s')"
proof -
  let ?s1 = "s \<lparr> sc_ready_queue := q \<rparr>"
  have d: "dispatch_ready_nodes env ctx s = (Found p nd, ?s1)"
    using assms(1,2,4) by (simp add: dispatch_ready_nodes_def pop_ready_node_def)
  have rw: "resolve_dynamic_waits env nd p ctx ?s1 = ((None, True), ?s1)"
    using assms(7) by (auto simp: resolve_dynamic_waits_def split: option.splits json.splits)
  obtain r ses' where r: "session_execute_node (sv_session env) nd ctx (sc_session ?s1) = (Inr r, ses')" "\<not> er_success r"
    "er_message r = ''Node execution failed: Assert failed. Jumping to: '' @ target"
    using assert_fails_session[OF assms(5,6,8,9,10,11)] by auto
  obtain s2 where s2: "run_regular env dag nd p ctx ?s1 = (Inr (Go_on dag ctx), s2)"
    "sc_ready_queue s2 = ['' '' @ target]" "sc_node_map s2 = sc_node_map s" "\<not> sc_executing_fork s2"
    using run_failing[OF r(1,2), of 38 dag p] assms(4) jump_message_position[of target]
    by (auto simp: r(3) kJumpMarker_def)
  have t: "nd_type nd \<noteq> FORK" "nd_type nd \<noteq> JOIN" using assms(5) by (simp_all add: nd_type_def)
  have 1: "main_step env dag ctx s = (Inr (Go_on dag ctx), s2)"
    using assms(3,4) t by (simp add: main_step_def sbind_eq handle_fork_branches_block_def d rw s2(1))
  have "dispatch_ready_nodes env ctx s2 = (Stop (failure (''Node not found in map:  '' @ target) ctx), s2 \<lparr> sc_ready_queue := [] \<rparr>)"
    using s2 assms(12) by (simp add: dispatch_ready_nodes_def pop_ready_node_def)
  then have "main_step env dag ctx s2 = (Inr (Return (failure (''Node not found in map:  '' @ target) ctx)),
      s2 \<lparr> sc_ready_queue := [] \<rparr>)"
    using s2(4) by (simp add: main_step_def sbind_eq handle_fork_branches_block_def)
  then show ?thesis using 1 assms(13) by simp
qed

definition sample_assert :: node where
  "sample_assert = mk_node ''/main/a'' (AssertNode ''false'' (Some ''/main/b'')) []"

definition sample_assert_scheduler :: "unit scheduler" where
  "sample_assert_scheduler = sample_scheduler \<lparr> sc_node_map := [(''/main/a'', sample_assert),
       (''/main/b'', mk_node ''/main/b'' EndNode [])], sc_ready_queue := [''/main/a''] \<rparr>"

lemma assert_jump_fails_witness:
  "\<exists>s'. run_main_loop sample_scheduler_env 2 (empty_dag \<lparr> dg_ready_queue := [''/main/a''] \<rparr>) jempty
      sample_assert_scheduler = Some (Inr (failure ''Node not found in map:  /main/b'' jempty), s')"
proof -
  let ?s = sample_assert_scheduler
  have "prepared sample_assert jempty (sc_session ?s) = Inr (JObj [(''__module_states__'', JObj [])], True)"
    by (simp add: prepared_def prepare_context_def needs_snapshot_def meta_flag_def sample_assert_def mk_node_def
        sample_assert_scheduler_def new_session_def jput_def nd_type_def jobj_def)
  moreover have "fst (consume_budget ASSERT (ss_budget (sc_session ?s))) = None"
    by (simp add: sample_assert_scheduler_def new_session_def consume_budget_def bc_consume_defs on_budget_def
        new_budget_controller_def Let_def)
  moreover have "render (se_exec (sv_session sample_scheduler_env)) ''false'' c = Inr ''false''" for c
    by (simp add: render_def sample_scheduler_env_def sample_session_env_def sample_executor_env_def)
  ultimately show ?thesis
    using assert_jump_fails[of ?s "''/main/a''" "[]" sample_assert "''false''" "''/main/b''" jempty
        "JObj [(''__module_states__'', JObj [])]" True sample_scheduler_env "empty_dag \<lparr> dg_ready_queue := [''/main/a''] \<rparr>" 0]
    by (simp add: sample_assert_scheduler_def sample_assert_def mk_node_def numeral_2_eq_2)
qed

text \<open>A template wait on something unexecuted spins.  When the only queued node waits, by a template,
  for a path that has not been executed, the loop takes it out and puts it back forever: no amount of
  fuel ends the run.\<close>

theorem dynamic_wait_spins:
  assumes "sc_ready_queue s = [p]" "map_of (sc_node_map s) p = Some nd" "p \<notin> set (sc_executed s)"
    "\<not> sc_executing_fork s" "jlookup ''wait_for'' (nd_metadata nd) = Some (JStr expr)"
    "render (se_exec (sv_session env)) expr ctx = Inr t" "se_json_parse (sv_session env) t = Inr j"
    "d \<in> set (rendered_deps t j)" "d \<notin> set (sc_executed s)" "dg_ready_queue dag \<noteq> []"
  shows "run_main_loop env fuel dag ctx s = None"
proof (induction fuel)
  case (Suc fuel)
  let ?s1 = "s \<lparr> sc_ready_queue := [] \<rparr>"
  have d: "dispatch_ready_nodes env ctx s = (Found p nd, ?s1)"
    using assms(1,2,4) by (simp add: dispatch_ready_nodes_def pop_ready_node_def)
  have "push_ready p ?s1 = s" using assms(1) by (cases s) (simp add: push_ready_def)
  then have rw: "resolve_dynamic_waits env nd p ctx ?s1 = ((None, False), s)"
    using assms(5-9) by (auto simp: resolve_dynamic_waits_def list_all_iff)
  have "main_step env dag ctx s = (Inr (Go_on dag ctx), s)"
    using assms(3,4) by (simp add: main_step_def sbind_eq handle_fork_branches_block_def d rw)
  then show ?case using Suc assms(10) by simp
qed simp

definition sample_waiting :: node where
  "sample_waiting = (mk_node ''/main/w'' StartNode []) \<lparr> nd_metadata := JObj [(''wait_for'', JStr ''/main/v'')] \<rparr>"

lemma dynamic_wait_spins_witness:
  "\<forall>fuel. run_main_loop sample_scheduler_env fuel (empty_dag \<lparr> dg_ready_queue := [''/main/w''] \<rparr>) jempty
     (sample_scheduler \<lparr> sc_node_map := [(''/main/w'', sample_waiting)], sc_ready_queue := [''/main/w''] \<rparr>) = None"
proof
  fix fuel
  have "render (se_exec (sv_session sample_scheduler_env)) ''/main/v'' jempty = Inr ''/main/v''"
    "se_json_parse (sv_session sample_scheduler_env) ''/main/v'' = Inr JNull"
    by (simp_all add: render_def sample_scheduler_env_def sample_session_env_def sample_executor_env_def)
  then show "run_main_loop sample_scheduler_env fuel (empty_dag \<lparr> dg_ready_queue := [''/main/w''] \<rparr>) jempty
     (sample_scheduler \<lparr> sc_node_map := [(''/main/w'', sample_waiting)], sc_ready_queue := [''/main/w''] \<rparr>) = None"
    by (intro dynamic_wait_spins[of _ "''/main/w''" sample_waiting "''/main/v''" _ _ "''/main/v''" JNull "''/main/v''"])
      (simp_all add: sample_waiting_def mk_node_def rendered_deps_def)
qed

end
