(* ===== verification/Layered.thy ===== *)
theory Layered
  imports Bus Nodes
begin

text \<open>
  Layered contexts and their compaction: agenticdsl/types/layered_context.h and context_flatten.h
  (the five layers, dotted paths, dumping and loading, flattening) and core/context_compactor.cpp.
  \<open>at\<close> on a mutable context returns a reference: creating it and assigning through it are the two
  operations \<open>lc_at\<close> and \<open>lc_assign\<close>.  An invalid layer yields a reference to one thread-local value,
  which is the component \<open>lw_scratch\<close> of the pair the operations act on.
\<close>

section \<open>The five layers\<close>

record layered_context =
  ly_system :: json
  ly_recent :: json
  ly_working :: json
  ly_archive :: json
  ly_meta :: json

definition new_layered :: layered_context where
  "new_layered = \<lparr> ly_system = JNull, ly_recent = JNull, ly_working = JNull, ly_archive = JNull, ly_meta = JNull \<rparr>"

definition get_slot :: "string \<Rightarrow> layered_context \<Rightarrow> json option" where
  "get_slot l c =
     (if l = ''system'' then Some (ly_system c) else if l = ''recent'' then Some (ly_recent c)
      else if l = ''working'' then Some (ly_working c) else if l = ''archive'' then Some (ly_archive c)
      else if l = ''meta'' then Some (ly_meta c) else None)"

definition set_slot :: "string \<Rightarrow> json \<Rightarrow> layered_context \<Rightarrow> layered_context" where
  "set_slot l j c =
     (if l = ''system'' then c \<lparr> ly_system := j \<rparr> else if l = ''recent'' then c \<lparr> ly_recent := j \<rparr>
      else if l = ''working'' then c \<lparr> ly_working := j \<rparr> else if l = ''archive'' then c \<lparr> ly_archive := j \<rparr>
      else if l = ''meta'' then c \<lparr> ly_meta := j \<rparr> else c)"

section \<open>Paths\<close>

text \<open>The segments the navigation loop visits: a trailing dot adds none, two dots in a row an empty one.\<close>

definition split_path :: "string \<Rightarrow> string \<times> string" where
  "split_path p = (takeWhile (\<lambda>c. c \<noteq> CHR ''.'') p, drop 1 (dropWhile (\<lambda>c. c \<noteq> CHR ''.'') p))"

lemma split_path_shorter: "p \<noteq> [] \<Longrightarrow> length (snd (split_path p)) < length p"
  using length_dropWhile_le[of "\<lambda>c. c \<noteq> CHR ''.''" p] by (cases p) (auto simp: split_path_def)

function segments :: "string \<Rightarrow> string list" where
  "segments p = (if p = [] then [] else fst (split_path p) # segments (snd (split_path p)))"
  by pat_completeness auto
termination by (relation "measure length") (use split_path_shorter in auto)

declare segments.simps [simp del]

definition system_is_read_only :: exc where
  "system_is_read_only = Runtime_error (''LayeredContext: cannot write to read-only layer '' @ quoted ''system'')"

text \<open>\<open>navigate\<close> followed by the update f of the value it refers to.\<close>

fun navigate :: "string \<Rightarrow> string list \<Rightarrow> (json \<Rightarrow> json) \<Rightarrow> json \<Rightarrow> json res" where
  "navigate layer [] f j = Inr (f j)"
| "navigate layer (s # ss) f j = (case jlookup s j of
       Some v \<Rightarrow> ebind (navigate layer ss f v) (\<lambda>v'. Inr (jset s v' j))
     | None \<Rightarrow> if layer = ''system'' then Inl system_is_read_only
               else ebind (navigate layer ss f JNull) (\<lambda>v'. Inr (jset s v' (if is_obj j then j else jempty))))"

fun navigate_const :: "string list \<Rightarrow> json \<Rightarrow> json" where
  "navigate_const [] j = j"
| "navigate_const (s # ss) j = (case jlookup s j of None \<Rightarrow> JNull | Some v \<Rightarrow> navigate_const ss v)"

definition lc_at_const :: "string \<Rightarrow> layered_context \<Rightarrow> json" where
  "lc_at_const p c = (let (l, rest) = split_path p in
     case get_slot l c of None \<Rightarrow> JNull | Some j \<Rightarrow> navigate_const (segments rest) j)"

record layered_world =
  lw_context :: layered_context
  lw_scratch :: json

definition lc_update :: "string \<Rightarrow> (json \<Rightarrow> json) \<Rightarrow> (json, layered_world) act" where
  "lc_update p f w = (let (l, rest) = split_path p in
     case get_slot l (lw_context w) of
       None \<Rightarrow> (Inr (f (lw_scratch w)), w \<lparr> lw_scratch := f (lw_scratch w) \<rparr>)
     | Some j \<Rightarrow>
         if rest = [] \<and> l = ''system'' then (Inl system_is_read_only, w)
         else (case navigate l (segments rest) f j of
             Inl e \<Rightarrow> (Inl e, w)
           | Inr j' \<Rightarrow> (Inr (navigate_const (segments rest) j'), w \<lparr> lw_context := set_slot l j' (lw_context w) \<rparr>)))"

definition lc_at :: "string \<Rightarrow> (json, layered_world) act" where
  "lc_at p = lc_update p (\<lambda>j. j)"

definition lc_assign :: "string \<Rightarrow> json \<Rightarrow> (json, layered_world) act" where
  "lc_assign p v = lc_update p (\<lambda>_. v)"

definition can_read :: "string \<Rightarrow> layered_context \<Rightarrow> bool" where
  "can_read p c \<longleftrightarrow> get_slot (fst (split_path p)) c \<noteq> None"

definition can_write :: "string \<Rightarrow> layered_context \<Rightarrow> bool" where
  "can_write p c \<longleftrightarrow> fst (split_path p) \<noteq> ''system'' \<and> get_slot (fst (split_path p)) c \<noteq> None"

section \<open>Dumping, loading, flattening\<close>

definition lc_dump :: "layered_context \<Rightarrow> json" where
  "lc_dump c = jobj [(''system'', ly_system c), (''recent'', ly_recent c), (''working'', ly_working c),
     (''archive'', ly_archive c), (''meta'', ly_meta c)]"

fun require_keys :: "string list \<Rightarrow> json \<Rightarrow> unit res" where
  "require_keys [] j = Inr ()"
| "require_keys (k # ks) j = (if jcontains k j then require_keys ks j
     else Inl (Runtime_error (''LayeredContext::load: missing required key '' @ quoted k)))"

definition member_of :: "string \<Rightarrow> json \<Rightarrow> json" where
  "member_of k j = (case jlookup k j of None \<Rightarrow> JNull | Some v \<Rightarrow> v)"

definition lc_load :: "json \<Rightarrow> layered_context res" where
  "lc_load j = (if \<not> is_obj j then Inl (Runtime_error ''LayeredContext::load: input must be a JSON object'')
     else ebind (require_keys [''system'', ''recent'', ''working'', ''archive'', ''meta''] j) (\<lambda>_.
       Inr \<lparr> ly_system = member_of ''system'' j, ly_recent = member_of ''recent'' j,
         ly_working = member_of ''working'' j, ly_archive = member_of ''archive'' j, ly_meta = member_of ''meta'' j \<rparr>))"

definition flatten_layers :: "layered_context \<Rightarrow> json" where
  "flatten_layers c = jobj (filter (\<lambda>(k, v). v \<noteq> JNull)
     [(''system'', ly_system c), (''recent'', ly_recent c), (''working'', ly_working c),
      (''archive'', ly_archive c), (''meta'', ly_meta c)])"

definition to_context :: "json \<Rightarrow> layered_context" where
  "to_context flat = new_layered \<lparr> ly_working := flat \<rparr>"

section \<open>The two-layer retention of a compaction\<close>

definition append_original :: "string \<Rightarrow> (unit, layered_context) act" where
  "append_original msg c = (case jlookup ''original_messages'' (ly_meta c) of
       Some (JArr ms) \<Rightarrow> (Inr (), c \<lparr> ly_meta := jset ''original_messages'' (JArr (ms @ [JStr msg])) (ly_meta c) \<rparr>)
     | _ \<Rightarrow> (case jput ''original_messages'' (JArr [JStr msg]) (ly_meta c) of
          Inl e \<Rightarrow> (Inl e, c) | Inr m \<Rightarrow> (Inr (), c \<lparr> ly_meta := m \<rparr>)))"

definition set_working_view :: "string \<Rightarrow> (unit, layered_context) act" where
  "set_working_view view c = (case jput ''view'' (JStr view) (ly_working c) of
       Inl e \<Rightarrow> (Inl e, c) | Inr j \<Rightarrow> (Inr (), c \<lparr> ly_working := j \<rparr>))"

definition set_metadata :: "string \<Rightarrow> json \<Rightarrow> (unit, layered_context) act" where
  "set_metadata k v c = (case jput k v (ly_meta c) of
       Inl e \<Rightarrow> (Inl e, c) | Inr j \<Rightarrow> (Inr (), c \<lparr> ly_meta := j \<rparr>))"

text \<open>\<open>value\<close> with a default of any kind.\<close>

definition jvalue :: "string \<Rightarrow> json \<Rightarrow> json \<Rightarrow> json res" where
  "jvalue k d j = (case j of
       JObj kvs \<Rightarrow> Inr (case map_of kvs k of None \<Rightarrow> d | Some v \<Rightarrow> v)
     | _ \<Rightarrow> Inl (Json_error ''type_error.306''))"

definition compaction_record :: "layered_context \<Rightarrow> json res" where
  "compaction_record c = jvalue ''compaction_record'' jempty (ly_meta c)"

section \<open>The compactor\<close>

record compactor =
  cp_threshold :: nat
  cp_bus :: bool

record compaction =
  cn_tokens_before :: nat
  cn_tokens_after :: nat
  cn_summary_length :: nat
  cn_timestamp :: string

definition count_tokens :: "string \<Rightarrow> nat" where
  "count_tokens s = (length s + 3) div 4"

definition should_compact :: "compactor \<Rightarrow> nat \<Rightarrow> bool" where
  "should_compact c n \<longleftrightarrow> cp_threshold c < n"

definition kSummaryPromptPrefix :: string where
  "kSummaryPromptPrefix = ''Summarize<200:'' @ [char_of (10::nat)]"

text \<open>\<open>generate\<close>: the text, or an error (Inl), or an exception (None); both end in the empty summary.\<close>

definition compact :: "(string \<Rightarrow> 'w \<Rightarrow> (string + string) option \<times> 'w) \<Rightarrow> string \<Rightarrow> 'w \<Rightarrow> string \<times> 'w" where
  "compact generate history w = (case generate (kSummaryPromptPrefix @ history) w of
       (Some (Inr text), w') \<Rightarrow> (text, w')
     | (_, w') \<Rightarrow> ([], w'))"

definition compact_event :: "string \<Rightarrow> string \<Rightarrow> (string \<times> json) list \<Rightarrow> event_builder" where
  "compact_event topic sid args =
     eb_meta (jobj [(''component'', JStr ''context_compactor''), (''trace_id'', JStr sid)])
       (eb_args (jobj ((''session_id'', JStr sid) # args)) (eb_new topic))"

definition on_compact_before :: "compactor \<Rightarrow> string \<Rightarrow> nat \<Rightarrow> event_builder list" where
  "on_compact_before c sid n = (if \<not> cp_bus c then []
     else [compact_event ''context.compact.before'' sid [(''tokens_before'', JInt (int n))]])"

text \<open>The ratio is a double division, a parameter.\<close>

definition on_compact_after :: "(nat \<Rightarrow> nat \<Rightarrow> 64 word) \<Rightarrow> compactor \<Rightarrow> string \<Rightarrow> nat \<Rightarrow> nat \<Rightarrow> event_builder list" where
  "on_compact_after ratio c sid before after = (if \<not> cp_bus c then []
     else [compact_event ''context.compact.after'' sid
        [(''tokens_before'', JInt (int before)), (''tokens_after'', JInt (int after)),
         (''compression_ratio'', JFloat (if 0 < before then ratio after before else 0x3FF0000000000000))]])"

definition make_record :: "int \<Rightarrow> nat \<Rightarrow> nat \<Rightarrow> nat \<Rightarrow> compaction" where
  "make_record epoch before after len = \<lparr> cn_tokens_before = before, cn_tokens_after = after,
     cn_summary_length = len, cn_timestamp = int_str epoch \<rparr>"

section \<open>Facts\<close>

lemma segments_Nil [simp]: "segments [] = []"
  by (simp add: segments.simps)

lemma slot_simps [simp]:
  "get_slot l (set_slot l' j c) = (if l = l' \<and> get_slot l c \<noteq> None then Some j else get_slot l c)"
  by (simp add: get_slot_def set_slot_def)

lemma navigate_const_JNull [simp]: "navigate_const ss JNull = (if ss = [] then JNull else JNull)"
  by (cases ss) auto

lemma navigate_read: "navigate layer ss f j = Inr j' \<Longrightarrow> navigate_const ss j' = f (navigate_const ss j)"
proof (induction ss arbitrary: j j')
  case (Cons s ss)
  show ?case
  proof (cases "jlookup s j")
    case None
    then show ?thesis using Cons by (auto simp: ebind_Inr_conv split: if_splits)
  next
    case (Some v)
    then have "is_obj j" by (cases j) auto
    then show ?thesis using Cons Some by (auto simp: ebind_Inr_conv)
  qed
qed simp

text \<open>Two segment lists that part ways: at the first difference neither continues the other.\<close>

lemma navigate_elsewhere:
  "navigate layer ss f j = Inr j' \<Longrightarrow> \<not> prefix ss ts \<Longrightarrow> \<not> prefix ts ss \<Longrightarrow>
     navigate_const ts j' = navigate_const ts j"
proof (induction ss arbitrary: j j' ts)
  case (Cons s ss)
  then obtain t ts' where ts: "ts = t # ts'" by (cases ts) auto
  show ?case
  proof (cases "jlookup s j")
    case None
    then obtain v' where v: "navigate layer ss f JNull = Inr v'" "j' = jset s v' (if is_obj j then j else jempty)"
      using Cons.prems(1) by (auto simp: ebind_Inr_conv split: if_splits)
    show ?thesis
    proof (cases "t = s")
      case True
      then show ?thesis using Cons.IH[OF v(1), of ts'] Cons.prems(2,3) ts v None by auto
    next
      case False
      then show ?thesis using ts v by (cases j) auto
    qed
  next
    case (Some w)
    then obtain v' where v: "navigate layer ss f w = Inr v'" "j' = jset s v' j"
      using Cons.prems(1) by (auto simp: ebind_Inr_conv)
    have o: "is_obj j" using Some by (cases j) auto
    show ?thesis
    proof (cases "t = s")
      case True
      then show ?thesis using Cons.IH[OF v(1), of ts'] Cons.prems(2,3) ts v Some o by auto
    next
      case False
      then show ?thesis using ts v o by auto
    qed
  qed
qed simp

lemma navigate_total: "layer \<noteq> ''system'' \<Longrightarrow> \<exists>j'. navigate layer ss f j = Inr j'"
proof (induction ss arbitrary: j)
  case (Cons s ss)
  show ?case using Cons.IH[OF Cons.prems] Cons.prems
    by (cases "jlookup s j") (auto simp: ebind_Inr_conv)
qed simp

lemma navigate_system: "(\<exists>j'. navigate ''system'' ss f j = Inr j') \<longleftrightarrow> jpath ss j \<noteq> None"
  by (induction ss arbitrary: j) (auto simp: ebind_Inr_conv split: option.splits)

lemma member_of_dump [simp]: "is_obj (lc_dump c)"
  "jlookup k (lc_dump c) = get_slot k c"
  by (auto simp: lc_dump_def jobj_def get_slot_def)

section \<open>Properties\<close>

text \<open>Writing and reading a layer.  Assigning through a path of a writable layer always succeeds, and
  afterwards the path reads as the assigned value, while every path of another layer, and every path
  of the same layer that neither continues it nor is continued by it, reads as before.\<close>

theorem layered_write_read:
  assumes "can_write p (lw_context w)"
  shows "\<exists>w'. lc_assign p v w = (Inr v, w') \<and> lw_scratch w' = lw_scratch w \<and> lc_at_const p (lw_context w') = v \<and>
    (\<forall>q. fst (split_path q) \<noteq> fst (split_path p) \<or>
         \<not> prefix (segments (snd (split_path p))) (segments (snd (split_path q))) \<and>
         \<not> prefix (segments (snd (split_path q))) (segments (snd (split_path p))) \<longrightarrow>
       lc_at_const q (lw_context w') = lc_at_const q (lw_context w))"
proof -
  obtain l rest where p: "split_path p = (l, rest)" by fastforce
  obtain j where j: "get_slot l (lw_context w) = Some j" "l \<noteq> ''system''"
    using assms p by (auto simp: can_write_def)
  obtain j' where j': "navigate l (segments rest) (\<lambda>_. v) j = Inr j'" using navigate_total j(2) by blast
  have r: "navigate_const (segments rest) j' = v" by (rule navigate_read[OF j'])
  let ?w = "w \<lparr> lw_context := set_slot l j' (lw_context w) \<rparr>"
  have "lc_assign p v w = (Inr v, ?w)" using p j j' r by (simp add: lc_assign_def lc_update_def)
  moreover have "lc_at_const p (lw_context ?w) = v" using p j r by (simp add: lc_at_const_def)
  moreover have "lc_at_const q (lw_context ?w) = lc_at_const q (lw_context w)"
    if "fst (split_path q) \<noteq> l \<or> \<not> prefix (segments rest) (segments (snd (split_path q))) \<and>
        \<not> prefix (segments (snd (split_path q))) (segments rest)" for q
    using that navigate_elsewhere[OF j', of "segments (snd (split_path q))"] j(1)
    by (auto simp: lc_at_const_def split_beta split: option.splits)
  ultimately show ?thesis using p by auto
qed

lemma layered_write_read_witness:
  "\<exists>w'. lc_assign ''working.data.x'' (JInt 1) \<lparr> lw_context = new_layered, lw_scratch = JNull \<rparr> = (Inr (JInt 1), w') \<and>
     lc_at_const ''working.data.x'' (lw_context w') = JInt 1 \<and> lc_at_const ''meta.x'' (lw_context w') = JNull"
proof -
  let ?w = "\<lparr> lw_context = new_layered, lw_scratch = JNull \<rparr>"
  have s: "split_path ''working.data.x'' = (''working'', ''data.x'')" "split_path ''meta.x'' = (''meta'', ''x'')"
    by (simp_all add: split_path_def)
  have "can_write ''working.data.x'' (lw_context ?w)" by (simp add: can_write_def s get_slot_def)
  from layered_write_read[OF this, of "JInt 1"] obtain w' where
    w: "lc_assign ''working.data.x'' (JInt 1) ?w = (Inr (JInt 1), w')" "lc_at_const ''working.data.x'' (lw_context w') = JInt 1"
      "lc_at_const ''meta.x'' (lw_context w') = lc_at_const ''meta.x'' (lw_context ?w)"
    using s by auto
  moreover have "lc_at_const ''meta.x'' (lw_context ?w) = JNull"
    by (simp add: lc_at_const_def s get_slot_def new_layered_def)
  ultimately show ?thesis by auto
qed

text \<open>The system layer is not read-only: assigning through a path of it fails exactly when the path names
  the layer itself or does not exist yet; an existing path is overwritten, although can_write denies it.\<close>

theorem system_layer_is_writable:
  assumes "split_path p = (''system'', rest)"
  shows "\<not> can_write p (lw_context w) \<and>
    (case lc_assign p v w of
       (Inl e, w') \<Rightarrow> e = system_is_read_only \<and> w' = w \<and>
         (rest = [] \<or> jpath (segments rest) (ly_system (lw_context w)) = None)
     | (Inr r, w') \<Rightarrow> rest \<noteq> [] \<and> jpath (segments rest) (ly_system (lw_context w)) \<noteq> None \<and>
         lc_at_const p (lw_context w') = v)"
proof -
  let ?j = "ly_system (lw_context w)"
  have e: "navigate ''system'' ss f j = Inl x \<Longrightarrow> x = system_is_read_only" for ss f j x
    by (induction ss arbitrary: j) (auto simp: ebind_Inl_conv split: option.splits)
  show ?thesis
  proof (cases "navigate ''system'' (segments rest) (\<lambda>_. v) ?j")
    case (Inl x)
    then show ?thesis using assms e[OF Inl] navigate_system[of "segments rest" "\<lambda>_. v" ?j]
      by (auto simp: can_write_def lc_assign_def lc_update_def get_slot_def)
  next
    case (Inr j')
    then show ?thesis using assms navigate_read[OF Inr] navigate_system[of "segments rest" "\<lambda>_. v" ?j]
      by (auto simp: can_write_def lc_assign_def lc_update_def lc_at_const_def get_slot_def set_slot_def)
  qed
qed

text \<open>An invalid layer is not null for ever: all invalid layers share one value, which a write changes.\<close>

lemma invalid_layer_leaks:
  assumes "get_slot (fst (split_path p)) (lw_context w) = None" "get_slot (fst (split_path q)) (lw_context w) = None"
  shows "fst (lc_at q (snd (lc_assign p v w))) = Inr v"
  using assms by (auto simp: lc_at_def lc_assign_def lc_update_def split_beta)

text \<open>Loading what was dumped gives the context back.\<close>

theorem layered_dump_load: "lc_load (lc_dump c) = Inr c"
  by (simp add: lc_load_def jcontains_def member_of_def get_slot_def)

text \<open>Reading the compaction record of a context whose meta layer was never written throws.\<close>

lemma compaction_record_unset: "compaction_record (to_context flat) = Inl (Json_error ''type_error.306'')"
  by (simp add: compaction_record_def to_context_def new_layered_def jvalue_def)

end
