(* ===== verification/Sessions.thy ===== *)
theory Sessions
  imports Trace Policy
begin

text \<open>
  The session hierarchy: core/types/session.h and session.cpp (a user session owns its task sessions,
  a task session its fork branches) and core/types/session_registry.cpp.  The current task is a
  pointer into the deque of tasks: tasks carry an identity, their address, and the pointer is the
  identity of one of them.  Clocks are parameters.  Destroying a registered session polls while
  other threads use the registry: what they do before each of its critical sections is a parameter.
\<close>

section \<open>Fork branches\<close>

record subtask =
  sb_branch_path :: string
  sb_initial_context :: json
  sb_final_context :: json
  sb_trace :: "trace_record list"
  sb_status :: string
  sb_started_at :: int
  sb_completed_at :: "int option"

definition subtask_make :: "int \<Rightarrow> string \<Rightarrow> json \<Rightarrow> subtask" where
  "subtask_make now path initial = \<lparr> sb_branch_path = path, sb_initial_context = initial,
     sb_final_context = JNull, sb_trace = [], sb_status = ''pending'', sb_started_at = now, sb_completed_at = None \<rparr>"

section \<open>Task sessions\<close>

record task_session =
  ts_id :: nat
  ts_subtasks :: "subtask list"
  ts_policy :: "exec_policy option"
  ts_failure_count :: "32 word"
  ts_status :: string
  ts_context :: json

definition new_task :: "nat \<Rightarrow> task_session" where
  "new_task i = \<lparr> ts_id = i, ts_subtasks = [], ts_policy = None, ts_failure_count = 0,
     ts_status = ''active'', ts_context = JNull \<rparr>"

definition create_subtask :: "int \<Rightarrow> string \<Rightarrow> json \<Rightarrow> task_session \<Rightarrow> task_session" where
  "create_subtask now path initial t = t \<lparr> ts_subtasks := ts_subtasks t @
     [(subtask_make now path initial) \<lparr> sb_status := ''running'' \<rparr>] \<rparr>"

text \<open>The first running entry of the branch is overwritten; without one the result is appended.\<close>

fun archive_into :: "subtask \<Rightarrow> subtask list \<Rightarrow> subtask list" where
  "archive_into b [] = [b]"
| "archive_into b (x # xs) = (if sb_branch_path x = sb_branch_path b \<and> sb_status x = ''running'' then b # xs
     else x # archive_into b xs)"

definition archive_subtask_result :: "int \<Rightarrow> subtask \<Rightarrow> task_session \<Rightarrow> task_session" where
  "archive_subtask_result now b t = t \<lparr> ts_subtasks :=
     archive_into (b \<lparr> sb_completed_at := Some now \<rparr>) (ts_subtasks t) \<rparr>"

definition set_policy :: "exec_policy \<Rightarrow> task_session \<Rightarrow> task_session" where
  "set_policy p t = t \<lparr> ts_policy := Some p \<rparr>"

definition set_status :: "string \<Rightarrow> task_session \<Rightarrow> task_session" where
  "set_status st t = t \<lparr> ts_status := st \<rparr>"

definition set_context :: "json \<Rightarrow> task_session \<Rightarrow> task_session" where
  "set_context c t = t \<lparr> ts_context := c \<rparr>"

definition record_failure :: "bool \<Rightarrow> error_code option \<Rightarrow> task_session \<Rightarrow> task_session" where
  "record_failure success ec t = (if is_retryable success ec
     then t \<lparr> ts_failure_count := ts_failure_count t + 1 \<rparr> else t)"

datatype failure_mode = KeepSession | NewSession

definition determine_failure_mode :: "task_session \<Rightarrow> failure_mode" where
  "determine_failure_mode t = (if ts_failure_count t < 3 then KeepSession else NewSession)"

section \<open>User sessions\<close>

record user_session =
  us_user_id :: string
  us_created_at :: int
  us_messages :: "tool_result list"
  us_tasks :: "task_session list"
  us_current :: "nat option"
  us_vars :: json
  us_next_id :: nat

definition new_user_session :: "int \<Rightarrow> string \<Rightarrow> user_session" where
  "new_user_session now uid = \<lparr> us_user_id = uid, us_created_at = now, us_messages = [], us_tasks = [],
     us_current = None, us_vars = JNull, us_next_id = 0 \<rparr>"

definition append_message :: "tool_result \<Rightarrow> user_session \<Rightarrow> user_session" where
  "append_message m u = u \<lparr> us_messages := us_messages u @ [m] \<rparr>"

definition create_task_session :: "user_session \<Rightarrow> user_session" where
  "create_task_session u = (let old = (if 100 \<le> length (us_tasks u) then tl (us_tasks u) else us_tasks u)
     in u \<lparr> us_tasks := old @ [new_task (us_next_id u)], us_current := Some (us_next_id u),
            us_next_id := us_next_id u + 1 \<rparr>)"

text \<open>Following the pointer; a dangling one gives None.\<close>

definition current_task_session :: "user_session \<Rightarrow> task_session option" where
  "current_task_session u = Option.bind (us_current u) (\<lambda>i. find (\<lambda>t. ts_id t = i) (us_tasks u))"

definition on_current :: "(task_session \<Rightarrow> task_session) \<Rightarrow> user_session \<Rightarrow> user_session" where
  "on_current f u = u \<lparr> us_tasks := map (\<lambda>t. if us_current u = Some (ts_id t) then f t else t) (us_tasks u) \<rparr>"

definition set_session_var :: "string \<Rightarrow> json \<Rightarrow> user_session \<Rightarrow> (unit res \<times> user_session)" where
  "set_session_var k v u = (case jput k v (us_vars u) of
       Inl e \<Rightarrow> (Inl e, u) | Inr j \<Rightarrow> (Inr (), u \<lparr> us_vars := j \<rparr>))"

definition get_session_var :: "string \<Rightarrow> user_session \<Rightarrow> json" where
  "get_session_var k u = (case jlookup k (us_vars u) of None \<Rightarrow> JNull | Some v \<Rightarrow> v)"

section \<open>The registry\<close>

record session_registry =
  sg_counter :: "64 word"
  sg_sessions :: "(string \<times> user_session) list"

definition new_registry :: session_registry where
  "new_registry = \<lparr> sg_counter = 0, sg_sessions = [] \<rparr>"

definition generate_session_id :: "64 word \<Rightarrow> int \<Rightarrow> string" where
  "generate_session_id seq ns = ''sess-'' @ nat_str (unat seq) @ ''-'' @ int_str ns"

definition create_session :: "int \<Rightarrow> string \<Rightarrow> session_registry \<Rightarrow> string res \<times> session_registry" where
  "create_session ns name r =
     (let sid = generate_session_id (sg_counter r) ns; r1 = r \<lparr> sg_counter := sg_counter r + 1 \<rparr> in
      if map_of (sg_sessions r1) sid \<noteq> None
      then (Inl (Runtime_error (''SessionRegistry::create_session: session_id collision: '' @ sid)), r1)
      else (Inr sid, r1 \<lparr> sg_sessions := kv_ins sid (new_user_session ns name) (sg_sessions r1) \<rparr>))"

definition get_session :: "string \<Rightarrow> session_registry \<Rightarrow> user_session res" where
  "get_session sid r = (case map_of (sg_sessions r) sid of
       None \<Rightarrow> Inl (Out_of_range (''SessionRegistry::get_session: session not found: '' @ sid))
     | Some u \<Rightarrow> Inr u)"

definition busy :: "user_session \<Rightarrow> bool" where
  "busy u = (case current_task_session u of None \<Rightarrow> False
     | Some t \<Rightarrow> ts_status t \<noteq> ''completed'' \<and> ts_status t \<noteq> ''failed'')"

definition is_in_flight :: "string \<Rightarrow> session_registry \<Rightarrow> bool" where
  "is_in_flight sid r = (case map_of (sg_sessions r) sid of None \<Rightarrow> False | Some u \<Rightarrow> busy u)"

definition list_sessions :: "session_registry \<Rightarrow> string list" where
  "list_sessions r = map fst (sg_sessions r)"

text \<open>Polling for at most 5000 ms in steps of 100 ms.  \<open>others i\<close> is what the other threads have done to
  the registry before the i-th critical section.  The result: whether the loop went on to the
  removal, the number of critical sections so far, and the registry.\<close>

definition kMaxChecks :: nat where
  "kMaxChecks = 5000 div 100"

fun destroy_wait :: "(nat \<Rightarrow> session_registry \<Rightarrow> session_registry) \<Rightarrow> string \<Rightarrow> nat \<Rightarrow> nat \<Rightarrow> session_registry \<Rightarrow>
    bool \<times> nat \<times> session_registry" where
  "destroy_wait others sid 0 k r = (True, k, r)"
| "destroy_wait others sid (Suc n) k r = (let r' = others k r in
     case map_of (sg_sessions r') sid of
       None \<Rightarrow> (False, Suc k, r')
     | Some u \<Rightarrow> if busy u then destroy_wait others sid n (Suc k) r' else (True, Suc k, r'))"

definition destroy_session :: "(nat \<Rightarrow> session_registry \<Rightarrow> session_registry) \<Rightarrow> string \<Rightarrow> session_registry \<Rightarrow>
    nat \<times> session_registry" where
  "destroy_session others sid r = (case destroy_wait others sid kMaxChecks 0 r of
       (False, k, r') \<Rightarrow> (k, r')
     | (True, k, r') \<Rightarrow> (let r'' = others k r' in
          (Suc k, r'' \<lparr> sg_sessions := kv_del sid (sg_sessions r'') \<rparr>)))"

section \<open>Facts\<close>

text \<open>The tasks have distinct identities below the next one, and the pointer is the newest task's.\<close>

definition tasks_ok :: "user_session \<Rightarrow> bool" where
  "tasks_ok u \<longleftrightarrow> distinct (map ts_id (us_tasks u)) \<and> list_all (\<lambda>t. ts_id t < us_next_id u) (us_tasks u) \<and>
     length (us_tasks u) \<le> 100 \<and>
     (case us_current u of None \<Rightarrow> us_tasks u = [] | Some i \<Rightarrow> us_tasks u \<noteq> [] \<and> ts_id (last (us_tasks u)) = i)"

datatype us_op = Op_message tool_result | Op_create | Op_task "task_session \<Rightarrow> task_session" | Op_var string json

fun us_apply :: "us_op \<Rightarrow> user_session \<Rightarrow> user_session" where
  "us_apply (Op_message m) u = append_message m u"
| "us_apply Op_create u = create_task_session u"
| "us_apply (Op_task f) u = on_current (\<lambda>t. (f t) \<lparr> ts_id := ts_id t \<rparr>) u"
| "us_apply (Op_var k v) u = snd (set_session_var k v u)"

lemma tasks_ok_new: "tasks_ok (new_user_session now uid)"
  by (simp add: tasks_ok_def new_user_session_def)

lemma tasks_ok_create: "tasks_ok u \<Longrightarrow> tasks_ok (create_task_session u)"
  by (cases "us_tasks u") (auto simp: tasks_ok_def create_task_session_def Let_def new_task_def list_all_iff
      split: option.splits)

lemma tasks_ok_ids: "tasks_ok u \<longleftrightarrow> (let is = map ts_id (us_tasks u) in
     distinct is \<and> list_all (\<lambda>i. i < us_next_id u) is \<and> length is \<le> 100 \<and>
     (case us_current u of None \<Rightarrow> is = [] | Some i \<Rightarrow> is \<noteq> [] \<and> last is = i))"
  by (auto simp: tasks_ok_def Let_def list_all_iff last_map split: option.splits)

lemma tasks_ok_on_current:
  assumes "tasks_ok u" "\<And>t. ts_id (f t) = ts_id t"
  shows "tasks_ok (on_current f u)"
proof -
  have i: "map ts_id (us_tasks (on_current f u)) = map ts_id (us_tasks u)"
    by (simp add: on_current_def assms(2))
  have c: "us_current (on_current f u) = us_current u" "us_next_id (on_current f u) = us_next_id u"
    by (simp_all add: on_current_def)
  show ?thesis using assms(1) by (simp add: tasks_ok_ids i c del: map_map)
qed

lemma tasks_ok_apply: "tasks_ok u \<Longrightarrow> tasks_ok (us_apply op u)"
proof (cases op)
  case (Op_message m)
  assume "tasks_ok u" then show ?thesis using Op_message
    by (simp add: append_message_def tasks_ok_def split: option.splits)
next
  case Op_create
  assume "tasks_ok u" then show ?thesis using Op_create by (simp add: tasks_ok_create)
next
  case (Op_task f)
  assume "tasks_ok u" then show ?thesis using Op_task by (simp add: tasks_ok_on_current)
next
  case (Op_var k v)
  assume "tasks_ok u" then show ?thesis using Op_var
    by (auto simp: set_session_var_def tasks_ok_def split: sum.splits option.splits)
qed

lemma tasks_ok_run: "tasks_ok u \<Longrightarrow> tasks_ok (fold us_apply ops u)"
  by (induction ops arbitrary: u) (auto simp: tasks_ok_apply)

lemma find_distinct_last:
  "distinct (map g xs) \<Longrightarrow> xs \<noteq> [] \<Longrightarrow> find (\<lambda>x. g x = g (last xs)) xs = Some (last xs)"
proof (induction xs)
  case (Cons x xs)
  show ?case
  proof (cases "xs = []")
    case False
    then have "g x \<noteq> g (last xs)" using Cons.prems(1) by (metis distinct.simps(2) image_eqI last_in_set list.simps(9) set_map)
    then show ?thesis using Cons False by simp
  qed simp
qed simp

lemma current_is_last:
  assumes "tasks_ok u"
  shows "current_task_session u = (if us_tasks u = [] then None else Some (last (us_tasks u)))"
  using assms find_distinct_last[of ts_id "us_tasks u"]
  by (auto simp: tasks_ok_def current_task_session_def split: option.splits)

lemma destroy_wait_facts:
  "destroy_wait others sid n k r = (go, k', r') \<Longrightarrow> k' \<le> k + n \<and>
     (\<not> go \<longrightarrow> map_of (sg_sessions r') sid = None)"
  by (induction others sid n k r rule: destroy_wait.induct)
    (auto simp: Let_def split: option.splits if_splits)

section \<open>Properties\<close>

text \<open>The current task never dangles.  Whatever messages, variables, task creations and task updates a user
  session goes through, its pointer is null while there is no task and otherwise points to the
  newest one, and at most 100 tasks are kept.\<close>

theorem current_task_never_dangles:
  "let u = fold us_apply ops (new_user_session now uid) in
     current_task_session u = (if us_tasks u = [] then None else Some (last (us_tasks u))) \<and> length (us_tasks u) \<le> 100"
  using tasks_ok_run[OF tasks_ok_new, of ops now uid] current_is_last
  by (auto simp: Let_def tasks_ok_def)

text \<open>C16. Destroying a session ends, and ends with the session gone: after at most 51 critical sections,
  whatever other threads do in between, the registry has no session of that id.\<close>

theorem destroy_session_ends:
  "case destroy_session others sid r of (n, r') \<Rightarrow> n \<le> 51 \<and> map_of (sg_sessions r') sid = None"
proof -
  obtain go k r' where w: "destroy_wait others sid kMaxChecks 0 r = (go, k, r')" by (metis prod_cases3)
  show ?thesis using destroy_wait_facts[OF w] w
    by (cases go) (auto simp: destroy_session_def kMaxChecks_def Let_def)
qed

end
