(* ===== verification/Regex.thy ===== *)
theory Regex
  imports HF_Prelude
begin

text \<open>
  The part of std::regex (ECMAScript grammar) that the parsers use.  A matcher returns all its
  matches at the front of a text in the order in which the backtracking search tries them, each as
  the consumed text, the captured groups and the rest; the match of the library is the first one.
  Greedy repetition of a character class lists the longest run first, lazy repetition of
  \<open>[\s\S]\<close> the shortest.
\<close>

type_synonym match = "string \<times> string list \<times> string"

type_synonym matcher = "string \<Rightarrow> match list"

definition m_lit :: "string \<Rightarrow> matcher" where
  "m_lit s x = (if prefix s x then [(s, [], drop (length s) x)] else [])"

definition m_star :: "(char \<Rightarrow> bool) \<Rightarrow> matcher" where
  "m_star P x = map (\<lambda>k. (take k x, [], drop k x)) (rev [0..<Suc (length (takeWhile P x))])"

definition m_plus :: "(char \<Rightarrow> bool) \<Rightarrow> matcher" where
  "m_plus P x = map (\<lambda>k. (take k x, [], drop k x)) (rev [1..<Suc (length (takeWhile P x))])"

definition m_lazy_any :: matcher where
  "m_lazy_any x = map (\<lambda>k. (take k x, [], drop k x)) [0..<Suc (length x)]"

definition m_opt :: "matcher \<Rightarrow> matcher" where
  "m_opt m x = m x @ [([], [], x)]"

definition m_group :: "matcher \<Rightarrow> matcher" where
  "m_group m x = map (\<lambda>(u, cs, r). (u, u # cs, r)) (m x)"

definition m_alt :: "matcher \<Rightarrow> matcher \<Rightarrow> matcher" where
  "m_alt a b x = a x @ b x"

definition m_seq :: "matcher \<Rightarrow> matcher \<Rightarrow> matcher" where
  "m_seq a b x = concat (map (\<lambda>(u, cs, r). map (\<lambda>(v, ds, q). (u @ v, cs @ ds, q)) (b r)) (a x))"

definition m_end :: matcher where
  "m_end x = (if x = [] then [([], [], [])] else [])"

definition m_seqs :: "matcher list \<Rightarrow> matcher" where
  "m_seqs ms = foldr m_seq ms (\<lambda>x. [([], [], x)])"

text \<open>\<open>regex_search\<close>: the leftmost position with a match; \<open>sregex_iterator\<close>: from there on, again.\<close>

fun rx_search :: "matcher \<Rightarrow> string \<Rightarrow> match option" where
  "rx_search m [] = (case m [] of [] \<Rightarrow> None | r # _ \<Rightarrow> Some r)"
| "rx_search m (c # cs) = (case m (c # cs) of [] \<Rightarrow> rx_search m cs | r # _ \<Rightarrow> Some r)"

definition rx_matches :: "matcher \<Rightarrow> string \<Rightarrow> bool" where
  "rx_matches m x = (m_seq m m_end x \<noteq> [])"

text \<open>The patterns in use never match the empty text; such a match would end the iteration here.\<close>

function rx_all :: "matcher \<Rightarrow> string \<Rightarrow> (string \<times> string list) list" where
  "rx_all m x = (case rx_search m x of None \<Rightarrow> []
     | Some (u, cs, r) \<Rightarrow> if length r < length x then (u, cs) # rx_all m r else [])"
  by pat_completeness auto
termination by (relation "measure (\<lambda>(m, x). length x)") auto

declare rx_all.simps [simp del]

section \<open>The first match\<close>

definition starts :: "matcher \<Rightarrow> string \<Rightarrow> match \<Rightarrow> bool" where
  "starts m x r \<longleftrightarrow> (case m x of [] \<Rightarrow> False | r' # _ \<Rightarrow> r' = r)"

lemma starts_conv: "starts m x r \<longleftrightarrow> (\<exists>rs. m x = r # rs)"
  by (auto simp: starts_def split: list.splits)

lemma starts_lit [intro]: "starts (m_lit s) (s @ r) (s, [], r)"
  by (simp add: starts_def m_lit_def)

lemma m_lit_fails [simp]: "\<not> prefix s x \<Longrightarrow> m_lit s x = []"
  by (simp add: m_lit_def)

lemma takeWhile_run: "list_all P u \<Longrightarrow> r = [] \<or> \<not> P (hd r) \<Longrightarrow> takeWhile P (u @ r) = u"
  by (induction u) (auto, metis hd_Cons_tl takeWhile.simps(1) takeWhile.simps(2))

lemma starts_star: "list_all P u \<Longrightarrow> r = [] \<or> \<not> P (hd r) \<Longrightarrow> starts (m_star P) (u @ r) (u, [], r)"
  by (simp add: starts_def m_star_def takeWhile_run)

lemma starts_plus: "list_all P u \<Longrightarrow> u \<noteq> [] \<Longrightarrow> r = [] \<or> \<not> P (hd r) \<Longrightarrow> starts (m_plus P) (u @ r) (u, [], r)"
  by (simp add: starts_def m_plus_def takeWhile_run Suc_le_eq)

lemma starts_group: "starts m x (u, cs, r) \<Longrightarrow> starts (m_group m) x (u, u # cs, r)"
  by (auto simp: starts_conv m_group_def)

lemma starts_opt: "starts m x r \<Longrightarrow> starts (m_opt m) x r"
  by (auto simp: starts_conv m_opt_def)

lemma starts_seq:
  assumes "starts a x (u, cs, r)" "starts b r (v, ds, q)"
  shows "starts (m_seq a b) x (u @ v, cs @ ds, q)"
  using assms by (auto simp: starts_conv m_seq_def)

lemma starts_eps: "starts (m_seqs []) x ([], [], x)"
  by (simp add: starts_def m_seqs_def)

lemma starts_seqs_Cons:
  assumes "starts a x (u, cs, r)" "starts (m_seqs as) r (v, ds, q)"
  shows "starts (m_seqs (a # as)) x (u @ v, cs @ ds, q)"
  using starts_seq[OF assms] by (simp add: m_seqs_def)

lemma m_seqs_Cons: "m_seqs (a # as) = m_seq a (m_seqs as)"
  by (simp add: m_seqs_def fun_eq_iff)

text \<open>Skipping alternatives of the first part that the second part refuses.\<close>

lemma starts_seq_skip:
  assumes "a x = xs @ (u, cs, r) # ys" "\<And>u' cs' r'. (u', cs', r') \<in> set xs \<Longrightarrow> b r' = []"
    "starts b r (v, ds, q)"
  shows "starts (m_seq a b) x (u @ v, cs @ ds, q)"
proof -
  have c: "concat (map (\<lambda>(u, cs, r). map (\<lambda>(v, ds, q). (u @ v, cs @ ds, q)) (b r)) xs) = []"
    using assms(2) by auto
  from assms(3) obtain rs where "b r = (v, ds, q) # rs" by (auto simp: starts_conv)
  then show ?thesis by (simp add: starts_conv m_seq_def assms(1) c)
qed

lemma starts_lazy:
  assumes "\<And>k. k < length y \<Longrightarrow> b (drop k (y @ z)) = []" "starts b z (v, ds, q)"
  shows "starts (m_seq m_lazy_any b) (y @ z) (y @ v, ds, q)"
proof -
  let ?f = "\<lambda>k. (take k (y @ z), [] :: string list, drop k (y @ z))"
  have "[0..<Suc (length (y @ z))] = [0..<length y] @ length y # [Suc (length y)..<Suc (length (y @ z))]"
    using upt_add_eq_append[of 0 "length y" "Suc (length z)"] upt_conv_Cons[of "length y" "Suc (length y + length z)"]
    by (simp del: upt_Suc)
  then have "m_lazy_any (y @ z) = map ?f [0..<length y] @ (y, [], z) # map ?f [Suc (length y)..<Suc (length (y @ z))]"
    by (simp add: m_lazy_any_def)
  moreover have "b r' = []" if "(u', cs', r') \<in> set (map ?f [0..<length y])" for u' cs' r'
    using that assms(1) by auto
  ultimately show ?thesis by (rule starts_seq_skip[where cs = "[]", simplified]) (use assms(2) in auto)
qed

text \<open>\<open>\s*\n\<close> before a text that does not begin with white space.\<close>

lemma starts_newline:
  assumes "r = [] \<or> \<not> is_space (hd r)"
  shows "starts (m_seq (m_star is_space) (m_lit ''\<newline>'')) (CHR 0x0A # r) (''\<newline>'', [], r)"
proof -
  have n: "is_space CHR 0x0A" by (simp add: is_space_def)
  have t: "takeWhile is_space r = []" using assms by (cases r) auto
  have p: "\<not> prefix ''\<newline>'' r" using assms n by (cases r) auto
  show ?thesis by (simp add: starts_def m_seq_def m_star_def n t p upt_conv_Cons) (simp add: m_lit_def)
qed

lemma rx_search_starts: "starts m x r \<Longrightarrow> rx_search m x = Some r"
  by (cases x) (auto simp: starts_conv)

lemma rx_search_skip: "list_all (\<lambda>c. \<forall>t. m (c # t) = []) u \<Longrightarrow> rx_search m (u @ x) = rx_search m x"
  by (induction u) auto

end
