(* ===== verification/Yaml.thy ===== *)
theory Yaml
  imports HF_Prelude Coordinator
begin

text \<open>
  common/utils/yaml_json.cpp: from the node tree of yaml-cpp to JSON.  The library's reader is a
  parameter; here are its nodes, and what the converter does with them.  The two tests that read
  floating-point text (operator>> into a double, and std::stod) are parameters.
\<close>

datatype yaml =
    YNull
  | YScalar string
  | YSequence "yaml list"
  | YMap "(yaml \<times> yaml) list"
  | YUndefined

record yaml_env =
  ye_reads_double :: "string \<Rightarrow> bool"
  ye_stod :: "string \<Rightarrow> 64 word option"
  ye_bad_conversion :: "yaml \<Rightarrow> string"

definition is_integer :: "string \<Rightarrow> bool" where
  "is_integer s = (case s of [] \<Rightarrow> False
     | c # cs \<Rightarrow> if c = CHR ''-'' \<or> c = CHR ''+'' then cs \<noteq> [] \<and> list_all is_digit cs
                else list_all is_digit s)"

definition is_numeric :: "yaml_env \<Rightarrow> string \<Rightarrow> bool" where
  "is_numeric e s = (if s = [] then False else ye_reads_double e s)"

text \<open>A number that does not fit becomes a string again.\<close>

definition scalar_to_json :: "yaml_env \<Rightarrow> string \<Rightarrow> json" where
  "scalar_to_json e s =
     (if s = ''true'' then JBool True
      else if s = ''false'' then JBool False
      else if s = ''~'' \<or> s = [] then JNull
      else if is_numeric e s then
        (if is_integer s then (case stoll s of None \<Rightarrow> JStr s | Some (i, _) \<Rightarrow> JInt i)
         else (case ye_stod e s of None \<Rightarrow> JStr s | Some d \<Rightarrow> JFloat d))
      else JStr s)"

text \<open>\<open>kv.first.as<std::string>()\<close>: the text of a scalar, \<open>null\<close> for a null key, an exception otherwise.\<close>

definition key_text :: "yaml_env \<Rightarrow> yaml \<Rightarrow> string res" where
  "key_text e k = (case k of YScalar s \<Rightarrow> Inr s | YNull \<Rightarrow> Inr ''null''
     | _ \<Rightarrow> Inl (Runtime_error (ye_bad_conversion e k)))"

text \<open>The first failing item decides; later members of the same key replace earlier ones.\<close>

fun collect_items :: "'a res list \<Rightarrow> 'a list res" where
  "collect_items [] = Inr []"
| "collect_items (r # rs) = ebind r (\<lambda>x. ebind (collect_items rs) (\<lambda>xs. Inr (x # xs)))"

fun collect_members :: "yaml_env \<Rightarrow> (yaml \<times> json res) list \<Rightarrow> (string \<times> json) list \<Rightarrow> (string \<times> json) list res" where
  "collect_members e [] acc = Inr acc"
| "collect_members e ((k, r) # kvs) acc = ebind r (\<lambda>j. ebind (key_text e k) (\<lambda>s.
     collect_members e kvs (kv_ins s j acc)))"

fun yaml_to_json :: "yaml_env \<Rightarrow> yaml \<Rightarrow> json res" where
  "yaml_to_json e YNull = Inr JNull"
| "yaml_to_json e (YScalar s) = Inr (scalar_to_json e s)"
| "yaml_to_json e (YSequence xs) = ebind (collect_items (map (yaml_to_json e) xs)) (\<lambda>js. Inr (JArr js))"
| "yaml_to_json e (YMap kvs) =
     ebind (collect_members e (map (\<lambda>(k, v). (k, yaml_to_json e v)) kvs) []) (\<lambda>ms. Inr (JObj ms))"
| "yaml_to_json e YUndefined = Inr JNull"

section \<open>Facts\<close>

lemma collect_items_set: "collect_items rs = Inr xs \<Longrightarrow> x \<in> set xs \<Longrightarrow> Inr x \<in> set rs"
  by (induction rs arbitrary: xs) (auto simp: ebind_Inr_conv)

lemma collect_members_sorted:
  "collect_members e kvs acc = Inr ms \<Longrightarrow> sorted_wrt (<) (map fst acc) \<Longrightarrow> sorted_wrt (<) (map fst ms)"
  by (induction e kvs acc rule: collect_members.induct) (auto simp: ebind_Inr_conv kv_ins_strict_sorted)

lemma set_kv_ins: "x \<in> set (kv_ins k v xs) \<Longrightarrow> x = (k, v) \<or> x \<in> set xs"
  by (induction k v xs rule: kv_ins.induct) (auto split: if_splits)

lemma collect_members_values:
  "collect_members e kvs acc = Inr ms \<Longrightarrow> m \<in> set ms \<Longrightarrow> Inr (snd m) \<in> snd ` set kvs \<or> m \<in> set acc"
proof (induction e kvs acc rule: collect_members.induct)
  case (2 e k r kvs acc)
  then obtain j s where "r = Inr j" "key_text e k = Inr s" "collect_members e kvs (kv_ins s j acc) = Inr ms"
    by (auto simp: ebind_Inr_conv)
  with 2 show ?case by (force dest: set_kv_ins)
qed simp

text \<open>Whatever the reader delivers, the converter builds objects with strictly increasing keys.\<close>

lemma yaml_to_json_jwf: "yaml_to_json e y = Inr j \<Longrightarrow> jwf j"
proof (induction e y arbitrary: j rule: yaml_to_json.induct)
  case (2 e s)
  then show ?case by (auto simp: scalar_to_json_def split: option.splits)
next
  case (3 e xs)
  then show ?case by (fastforce simp: ebind_Inr_conv dest: collect_items_set)
next
  case (4 e kvs)
  then obtain ms where c: "collect_members e (map (\<lambda>(k, v). (k, yaml_to_json e v)) kvs) [] = Inr ms" and j: "j = JObj ms"
    by (auto simp: ebind_Inr_conv)
  have "jwf (snd m)" if "m \<in> set ms" for m
    using collect_members_values[OF c that] 4 by fastforce
  then show ?case using collect_members_sorted[OF c] j by simp
qed simp_all

end
