(* ===== verification/Document.thy ===== *)
theory Document
  imports Regex
begin

text \<open>
  How the parser finds its input in Markdown: common/utils/parser_utils.cpp (the blocks between the
  BEGIN and END markers and the path syntax), the two scanners at the end of
  modules/parser/markdown_parser.cpp, and the pattern tests of modules/parser/dual_syntax_lint.cpp.
  \<open>print_block\<close> writes a block the way the documents under lib/ do; it is not part of the program.
\<close>

section \<open>Blocks\<close>

definition begin_marker :: string where "begin_marker = ''# --- BEGIN AgenticDSL ---''"
definition end_marker :: string where "end_marker = ''# --- END AgenticDSL ---''"
definition fence :: string where "fence = ''```''"
abbreviation m_newline :: matcher where "m_newline \<equiv> m_seq (m_star is_space) (m_lit ''\<newline>'')"

definition block_tail :: matcher where
  "block_tail = m_seqs [m_lit (''\<newline>'' @ end_marker), m_newline, m_lit fence]"

definition block_pattern :: matcher where
  "block_pattern = m_seqs [m_lit ''#'', m_plus is_space, m_lit ''AgenticDSL'', m_plus is_space, m_lit ''`'',
     m_group (m_plus (\<lambda>c. c \<noteq> CHR ''`'')), m_lit ''`'', m_newline,
     m_lit fence, m_opt (m_lit ''yaml''), m_newline,
     m_lit begin_marker, m_newline,
     m_seq m_lazy_any block_tail]"

text \<open>\<open>substr(start, end - start)\<close> with the unsigned difference: a length that wraps takes everything.\<close>

definition yaml_between :: "string \<Rightarrow> string option" where
  "yaml_between full = (case (find_sub begin_marker full, find_sub end_marker full) of
       (Some b, Some e) \<Rightarrow> (case find_sub ''\<newline>'' (drop b full) of
           None \<Rightarrow> None
         | Some n \<Rightarrow> (let start = b + n + 1;
                         yaml = (if start \<le> e then take (e - start) (drop start full) else drop start full)
             in Some (if yaml \<noteq> [] \<and> last yaml = CHR 0x0A then butlast yaml else yaml)))
     | _ \<Rightarrow> None)"

fun blocks_of :: "(string \<times> string list) list \<Rightarrow> (string \<times> string) list" where
  "blocks_of [] = []"
| "blocks_of ((full, caps) # ms) = (case yaml_between full of
       None \<Rightarrow> blocks_of ms
     | Some y \<Rightarrow> (hd caps, y) # blocks_of ms)"

definition extract_pathed_blocks :: "string \<Rightarrow> (string \<times> string) list" where
  "extract_pathed_blocks md = blocks_of (rx_all block_pattern md)"

definition is_valid_node_path :: "string \<Rightarrow> bool" where
  "is_valid_node_path p = (case p of [] \<Rightarrow> False
     | c # cs \<Rightarrow> c = CHR ''/'' \<and> cs \<noteq> [] \<and> list_all (\<lambda>d. is_word d \<or> d = CHR ''/'' \<or> d = CHR ''-'') cs)"

section \<open>Format detection and the fenced block\<close>

datatype dsl_format = kYamlFenced | kBold | kNone

definition detect_format :: "string \<Rightarrow> dsl_format" where
  "detect_format content =
     (if contains_sub ''```yaml'' content \<and> contains_sub begin_marker content then kYamlFenced
      else if contains_sub ''**'' content then kBold else kNone)"

definition after_line_break :: "string \<Rightarrow> string" where
  "after_line_break t = (case t of
       [] \<Rightarrow> []
     | c # r \<Rightarrow> if c = CHR 0x0A then r
               else (case r of [] \<Rightarrow> t | d # r' \<Rightarrow> if c = CHR 0x0D \<and> d = CHR 0x0A then r' else t))"

function parse_yaml_fenced_block :: "string \<Rightarrow> string" where
  "parse_yaml_fenced_block s = (if s = [] then [] else
     (case find_sub ''```yaml'' s of
        None \<Rightarrow> []
      | Some i \<Rightarrow> (let t = drop (i + 7) s; u = after_line_break t in
          (case find_sub ''\<newline>'' u of
             None \<Rightarrow> []
           | Some k \<Rightarrow> if dropWhile (\<lambda>c. c \<in> set [CHR 0x20, CHR 0x09, CHR 0x0D]) (take k u) = begin_marker
               then (case find_sub fence (drop (k + 1) u) of None \<Rightarrow> [] | Some m \<Rightarrow> take m (drop (k + 1) u))
               else parse_yaml_fenced_block t))))"
  by pat_completeness auto
termination by (relation "measure length") auto

declare parse_yaml_fenced_block.simps [simp del]

section \<open>The syntax lint\<close>

text \<open>\<open>regex_search\<close> over and over on the suffix; the text of the arrow is given in UTF-8.  A word
  boundary ends the keyword patterns.\<close>

record lint_warning =
  lw_file :: string
  lw_line :: nat
  lw_legacy :: string
  lw_suggestion :: string

definition is_name_start :: "char \<Rightarrow> bool" where
  "is_name_start c \<longleftrightarrow> is_word c \<and> \<not> is_digit c"

definition m_char :: "(char \<Rightarrow> bool) \<Rightarrow> matcher" where
  "m_char P x = (case x of [] \<Rightarrow> [] | c # cs \<Rightarrow> if P c then [([c], [], cs)] else [])"

definition m_boundary :: matcher where
  "m_boundary x = (case x of [] \<Rightarrow> [([], [], x)] | c # _ \<Rightarrow> if is_word c then [] else [([], [], x)])"

definition arrow_ref :: "string \<Rightarrow> matcher" where
  "arrow_ref arrow = m_seqs [m_lit arrow, m_star is_space, m_group (m_seq (m_char is_name_start) (m_star is_word))]"

definition fork_join_type :: matcher where
  "fork_join_type = m_seqs [m_lit ''type:'', m_star is_space, m_group (m_alt (m_lit ''fork'') (m_lit ''join'')), m_boundary]"

definition utf8_arrow :: string where
  "utf8_arrow = [CHR 0xE2, CHR 0x86, CHR 0x92]"

definition names_found :: "matcher \<Rightarrow> string \<Rightarrow> string list" where
  "names_found m line = map (hd \<circ> snd) (rx_all m line)"

definition detect_legacy_in_line :: "string \<Rightarrow> string \<Rightarrow> nat \<Rightarrow> lint_warning list" where
  "detect_legacy_in_line file line n =
     map (\<lambda>nm. \<lparr> lw_file = file, lw_line = n, lw_legacy = ''-> '' @ nm, lw_suggestion = ''$'' @ nm \<rparr>)
       (names_found (arrow_ref ''->'') line) @
     map (\<lambda>nm. \<lparr> lw_file = file, lw_line = n, lw_legacy = utf8_arrow @ '' '' @ nm, lw_suggestion = ''$'' @ nm \<rparr>)
       (names_found (arrow_ref utf8_arrow) line) @
     map (\<lambda>ty. \<lparr> lw_file = file, lw_line = n, lw_legacy = ''type: '' @ ty, lw_suggestion = ''exec: [...]'' \<rparr>)
       (names_found fork_join_type line)"

definition has_lint_disable :: "string \<Rightarrow> bool" where
  "has_lint_disable line \<longleftrightarrow> rx_search (m_seqs [m_lit ''#'', m_star is_space, m_lit ''lint:disable'',
     m_plus is_space, m_lit ''dual-syntax'', m_boundary]) line \<noteq> None"

text \<open>The times: of the last modification and of the last commit, None when unknown.\<close>

definition is_new_file :: "int option \<Rightarrow> int option \<Rightarrow> int \<Rightarrow> bool" where
  "is_new_file mtime git_time ship = (case mtime of
       None \<Rightarrow> False
     | Some t \<Rightarrow> if t < ship then False else (case git_time of None \<Rightarrow> True | Some g \<Rightarrow> ship \<le> g))"

fun lint_lines :: "string \<Rightarrow> bool \<Rightarrow> nat \<Rightarrow> string list \<Rightarrow> lint_warning list" where
  "lint_lines file suppressed n [] = []"
| "lint_lines file suppressed n (line # ls) =
     (if suppressed then [] else detect_legacy_in_line file line (Suc n)) @
     lint_lines file (has_lint_disable line) (Suc n) ls"

definition lint_file :: "bool \<Rightarrow> int option \<Rightarrow> int option \<Rightarrow> int \<Rightarrow> string \<Rightarrow> string list option \<Rightarrow> lint_warning list" where
  "lint_file include_historical mtime git_time ship file content =
     (if \<not> include_historical \<and> \<not> is_new_file mtime git_time ship then []
      else (case content of None \<Rightarrow> [] | Some ls \<Rightarrow> lint_lines file False 0 ls))"

section \<open>Facts about markers\<close>

lemma marker_simps [simp]:
  "CHR 0x0A \<notin> set begin_marker" "CHR 0x0A \<notin> set end_marker" "CHR 0x0A \<notin> set fence"
  "begin_marker \<noteq> []" "end_marker \<noteq> []" "fence \<noteq> []"
  "hd begin_marker = CHR ''#''" "hd end_marker = CHR ''#''" "hd fence = CHR ''`''"
  by (simp_all add: begin_marker_def end_marker_def fence_def)

lemma prefix_line: "CHR 0x0A \<notin> set p \<Longrightarrow> prefix p (l @ CHR 0x0A # r) \<Longrightarrow> prefix p l"
proof (induction l arbitrary: p)
  case Nil
  then show ?case by (cases p) auto
next
  case (Cons c l)
  then show ?case by (cases p) auto
qed

lemma find_sub_line:
  assumes "CHR 0x0A \<notin> set p" "p \<noteq> []"
  shows "find_sub p (l @ CHR 0x0A # r) = (case find_sub p l of Some i \<Rightarrow> Some i
     | None \<Rightarrow> map_option (\<lambda>i. i + length l + 1) (find_sub p r))"
proof (induction l)
  case Nil
  have "\<not> prefix p (CHR 0x0A # r)" using assms by (cases p) auto
  then show ?case using assms by (simp add: option.map_comp comp_def split: option.splits)
next
  case (Cons c l)
  have "prefix p ((c # l) @ CHR 0x0A # r) \<longleftrightarrow> prefix p (c # l)"
    using prefix_line[OF assms(1), of "c # l" r] by (metis append.assoc prefixI prefix_def)
  then show ?case using Cons by (auto simp: option.map_comp comp_def split: option.splits)
qed

lemma find_sub_absent: "c \<notin> set s \<Longrightarrow> find_sub (c # q) s = None"
  by (induction s) auto

lemma find_sub_front: "find_sub p (p @ r) = Some 0"
proof (cases "p @ r")
  case (Cons c cs)
  then have "prefix p (c # cs)" by (metis prefixI)
  with Cons show ?thesis by simp
qed simp

lemma block_pattern_hash: "c \<noteq> CHR ''#'' \<Longrightarrow> block_pattern (c # t) = []"
  by (simp add: block_pattern_def m_seqs_Cons m_seq_def m_lit_def)

section \<open>Printing and finding blocks\<close>

definition print_block :: "string \<Rightarrow> string \<Rightarrow> string" where
  "print_block p y = ''#'' @ '' '' @ ''AgenticDSL'' @ '' '' @ ''`'' @ p @ ''`'' @ ''\<newline>'' @
     fence @ ''yaml'' @ ''\<newline>'' @ begin_marker @ ''\<newline>'' @
     y @ (''\<newline>'' @ end_marker) @ ''\<newline>'' @ fence"

definition block_ok :: "string \<times> string \<Rightarrow> bool" where
  "block_ok b \<longleftrightarrow> (case b of (p, y) \<Rightarrow> p \<noteq> [] \<and> list_all (\<lambda>c. c \<noteq> CHR ''`'' \<and> c \<noteq> CHR ''#'') p \<and>
     y \<noteq> [] \<and> \<not> is_space (hd y) \<and> \<not> contains_sub end_marker y)"

lemma then_lit: "starts (m_seqs as) r (v, ds, q) \<Longrightarrow> starts (m_seqs (m_lit s # as)) (s @ r) (s @ v, ds, q)"
  using starts_seqs_Cons[OF starts_lit] by simp

lemma then_newline:
  assumes "starts (m_seqs as) r (v, ds, q)" "\<not> is_space (hd r)"
  shows "starts (m_seqs (m_newline # as)) (''\<newline>'' @ r) (''\<newline>'' @ v, ds, q)"
  using starts_seqs_Cons[OF starts_newline[of r] assms(1)] assms(2) by simp

lemma then_space:
  assumes "starts (m_seqs as) r (v, ds, q)" "\<not> is_space (hd r)"
  shows "starts (m_seqs (m_plus is_space # as)) ('' '' @ r) ('' '' @ v, ds, q)"
  using starts_seqs_Cons[OF starts_plus[of is_space "'' ''" r] assms(1)] assms(2) by (simp add: is_space_def)

lemma then_opt_lit: "starts (m_seqs as) r (v, ds, q) \<Longrightarrow> starts (m_seqs (m_opt (m_lit s) # as)) (s @ r) (s @ v, ds, q)"
  using starts_seqs_Cons[OF starts_opt[OF starts_lit]] by simp

lemma then_name:
  assumes "starts (m_seqs as) (''`'' @ r) (v, ds, q)" "p \<noteq> []" "list_all (\<lambda>c. c \<noteq> CHR ''`'') p"
  shows "starts (m_seqs (m_group (m_plus (\<lambda>c. c \<noteq> CHR ''`'')) # as)) (p @ ''`'' @ r) (p @ v, p # ds, q)"
  using starts_seqs_Cons[OF starts_group[OF starts_plus[OF assms(3,2), of "''`'' @ r"]] assms(1)] by simp

lemma not_space [simp]: "\<not> is_space CHR ''#''" "\<not> is_space CHR ''`''" "\<not> is_space CHR ''A''"
  by (simp_all add: is_space_def)

lemma hd_marker_append [simp]:
  "hd (begin_marker @ r) = CHR ''#''" "hd (end_marker @ r) = CHR ''#''" "hd (fence @ r) = CHR ''`''"
  by simp_all

lemma block_tail_starts: "starts block_tail ((''\<newline>'' @ end_marker) @ ''\<newline>'' @ fence @ r)
   ((''\<newline>'' @ end_marker) @ ''\<newline>'' @ fence @ [], [], r)"
  unfolding block_tail_def
  by (rule then_lit, rule then_newline, rule then_lit, rule starts_eps) simp

lemma block_tail_fails:
  assumes "\<not> contains_sub end_marker y" "k < length y"
  shows "block_tail (drop k (y @ ''\<newline>'' @ end_marker @ r)) = []"
proof -
  have "\<not> prefix (''\<newline>'' @ end_marker) (drop k (y @ ''\<newline>'' @ end_marker @ r))"
  proof
    assume a: "prefix (''\<newline>'' @ end_marker) (drop k (y @ ''\<newline>'' @ end_marker @ r))"
    obtain c w where d: "drop k y = c # w" using assms(2) by (cases "drop k y") auto
    have e: "drop k (y @ z) = (c # w) @ z" for z using d assms(2) by simp
    have "prefix (''\<newline>'' @ end_marker) ((c # w) @ ''\<newline>'' @ end_marker @ r)" using a unfolding e .
    then have "prefix end_marker (w @ CHR 0x0A # end_marker @ r)"
      unfolding append_Cons append_Nil Cons_prefix_Cons by blast
    from prefix_line[OF _ this] have "prefix end_marker w" by simp
    then have "sublist end_marker (drop k y)" using d
      by (metis prefix_imp_sublist sublist_Cons_right)
    then have "sublist end_marker y" by (metis append_take_drop_id sublist_append_leftI sublist_order.order.trans)
    then show False using assms(1) by (simp add: contains_sub_sublist)
  qed
  then show ?thesis by (simp add: block_tail_def m_seqs_Cons m_seq_def[of "m_lit _"])
qed

lemma block_pattern_starts:
  assumes "block_ok (p, y)"
  shows "starts block_pattern (print_block p y @ r) (print_block p y, [p], r)"
proof -
  have y: "y \<noteq> []" "\<not> is_space (hd y)" "\<not> contains_sub end_marker y" and p: "p \<noteq> []" "list_all (\<lambda>c. c \<noteq> CHR ''`'') p"
    using assms by (auto simp: block_ok_def list_all_iff)
  let ?t = "(''\<newline>'' @ end_marker) @ ''\<newline>'' @ fence"
  have t: "starts block_tail (?t @ r) (?t, [], r)" using block_tail_starts[of r] by simp
  have "block_tail (drop k (y @ ?t @ r)) = []" if "k < length y" for k
    using block_tail_fails[OF y(3) that, of "''\<newline>'' @ fence @ r"] by simp
  from starts_seqs_Cons[OF starts_lazy[of y block_tail "?t @ r", OF this t] starts_eps]
  have l: "starts (m_seqs [m_seq m_lazy_any block_tail]) (y @ ?t @ r) (y @ ?t, [], r)" by simp
  have "starts block_pattern (''#'' @ '' '' @ ''AgenticDSL'' @ '' '' @ ''`'' @ p @ ''`'' @ ''\<newline>'' @
     fence @ ''yaml'' @ ''\<newline>'' @ begin_marker @ ''\<newline>'' @ y @ ?t @ r)
    (''#'' @ '' '' @ ''AgenticDSL'' @ '' '' @ ''`'' @ p @ ''`'' @ ''\<newline>'' @
     fence @ ''yaml'' @ ''\<newline>'' @ begin_marker @ ''\<newline>'' @ y @ ?t, [p], r)"
    unfolding block_pattern_def
    by (rule then_lit then_space then_name then_newline then_opt_lit l p | simp add: y)+
  then show ?thesis by (simp add: print_block_def)
qed

lemma find_line_break: "CHR 0x0A \<notin> set l \<Longrightarrow> find_sub ''\<newline>'' (l @ CHR 0x0A # r) = Some (length l)"
  by (induction l) auto

lemma marker_not_in_line:
  assumes "m \<in> {begin_marker, end_marker}" "CHR ''#'' \<notin> set l"
  shows "find_sub m l = None" "find_sub m (''# AgenticDSL `'' @ l) = None"
proof -
  obtain q where m: "m = CHR ''#'' # CHR '' '' # CHR ''-'' # q"
    using assms(1) by (auto simp: begin_marker_def end_marker_def)
  show "find_sub m l = None" using assms(2) by (simp add: m find_sub_absent)
  then show "find_sub m (''# AgenticDSL `'' @ l) = None" by (simp add: m)
qed

lemma find_after_two_lines:
  assumes "CHR 0x0A \<notin> set m" "m \<noteq> []" "find_sub m l = None" "find_sub m f = None"
  shows "find_sub m (l @ CHR 0x0A # f @ CHR 0x0A # x) = map_option (\<lambda>i. i + (length l + length f + 2)) (find_sub m x)"
  by (cases "find_sub m x") (simp_all add: find_sub_line assms)

lemma yaml_between_at:
  assumes "find_sub begin_marker full = Some b" "find_sub ''\<newline>'' (drop b full) = Some n"
    "find_sub end_marker full = Some (b + n + 1 + length y + 1)" "drop (b + n + 1) full = y @ CHR 0x0A # z"
  shows "yaml_between full = Some y"
  using assms by (simp add: yaml_between_def Let_def)

lemma yaml_between_print:
  assumes "block_ok (p, y)"
  shows "yaml_between (print_block p y) = Some y"
proof -
  let ?l = "''# AgenticDSL `'' @ p @ ''`''" and ?f = "fence @ ''yaml''" and ?n = "CHR 0x0A"
  let ?z = "y @ ?n # end_marker @ ?n # fence"
  let ?b = "length ?l + length ?f + 2"
  let ?s = "?b + length begin_marker + 1"
  have p: "CHR ''#'' \<notin> set (p @ ''`'')" and y: "find_sub end_marker y = None"
    using assms by (auto simp: block_ok_def list_all_iff contains_sub_def)
  have f: "CHR ''#'' \<notin> set ?f" by (simp add: fence_def)
  have pr: "print_block p y = ?l @ ?n # ?f @ ?n # begin_marker @ ?n # ?z" by (simp add: print_block_def)
  have u: "print_block p y = (?l @ ?n # ?f @ [?n]) @ begin_marker @ ?n # ?z"
    "print_block p y = (?l @ ?n # ?f @ ?n # begin_marker @ [?n]) @ ?z" by (simp_all add: print_block_def)
  have "length (?l @ ?n # ?f @ [?n]) = ?b" "length (?l @ ?n # ?f @ ?n # begin_marker @ [?n]) = ?s" by simp_all
  then have d: "drop ?b (print_block p y) = begin_marker @ ?n # ?z" "drop ?s (print_block p y) = ?z"
    using u by (metis append_eq_conv_conj)+
  have b: "find_sub begin_marker (print_block p y) = Some ?b"
    unfolding pr by (subst find_after_two_lines)
      (use marker_not_in_line[of begin_marker, OF _ p] marker_not_in_line[of begin_marker, OF _ f] in
        \<open>simp_all add: find_sub_front\<close>)
  have "find_sub end_marker begin_marker = None" by (simp add: begin_marker_def end_marker_def)
  then have e: "find_sub end_marker (print_block p y) = Some (?s + length y + 1)"
    unfolding pr using y by (subst find_after_two_lines)
      (use marker_not_in_line[of end_marker, OF _ p] marker_not_in_line[of end_marker, OF _ f] in
        \<open>simp_all add: find_sub_front find_sub_line\<close>)
  have "find_sub ''\<newline>'' (drop ?b (print_block p y)) = Some (length begin_marker)"
    unfolding d by (rule find_line_break) simp
  from yaml_between_at[OF b this e d(2)] show ?thesis .
qed

section \<open>Documents\<close>

text \<open>Prose in which no hash sign begins the header of a block: after it and white space comes neither the
  keyword nor, at the end of the prose, a beginning of it.  Headings are such prose.\<close>

definition opens_block :: "string \<Rightarrow> bool" where
  "opens_block t = (let w = dropWhile is_space t in prefix w ''AgenticDSL'' \<or> prefix ''AgenticDSL'' w)"

fun plain_prose :: "string \<Rightarrow> bool" where
  "plain_prose [] = True"
| "plain_prose (c # t) = ((c = CHR ''#'' \<longrightarrow> \<not> opens_block t) \<and> plain_prose t)"

text \<open>A document: prose, then a block, and so on, and prose at the end.\<close>

fun print_document :: "(string \<times> string \<times> string) list \<Rightarrow> string \<Rightarrow> string" where
  "print_document [] end_text = end_text"
| "print_document ((prose, p, y) # bs) end_text = prose @ print_block p y @ print_document bs end_text"

lemma keyword_not_in_prose:
  assumes "\<not> opens_block t" "k \<le> length (takeWhile is_space (t @ x))"
  shows "\<not> prefix ''AgenticDSL'' (drop k (t @ x))"
proof
  assume a: "prefix ''AgenticDSL'' (drop k (t @ x))"
  define sp w where "sp = takeWhile is_space t" and "w = dropWhile is_space t"
  have t: "t = sp @ w" by (simp add: sp_def w_def)
  have w: "\<not> prefix w ''AgenticDSL''" "\<not> prefix ''AgenticDSL'' w"
    using assms(1) by (simp_all add: opens_block_def w_def Let_def)
  then have "w \<noteq> []" by auto
  then have "takeWhile is_space (t @ x) = sp"
    unfolding sp_def w_def by (metis takeWhile_append1 dropWhile_eq_Nil_conv)
  then have k: "k \<le> length sp" using assms(2) by simp
  show False
  proof (cases "k = length sp")
    case True
    then have "prefix ''AgenticDSL'' (w @ x)" using a t by simp
    then show False using w prefix_same_cases[of "''AgenticDSL''" "w @ x" w] by auto
  next
    case False
    then have "drop k sp \<noteq> []" "hd (drop k sp) \<in> set sp" using k by (simp, simp add: hd_drop_conv_nth)
    moreover have "\<forall>c \<in> set sp. is_space c" unfolding sp_def by (auto dest: set_takeWhileD)
    moreover have "hd (drop k (t @ x)) = CHR ''A''" using a by (cases "drop k (t @ x)") auto
    ultimately have "is_space (CHR ''A'')" using t k by auto
    then show False by simp
  qed
qed

lemma block_pattern_prose:
  assumes "\<not> opens_block t"
  shows "block_pattern (CHR ''#'' # t @ x) = []"
proof -
  have "m_seqs (m_lit ''AgenticDSL'' # ms) (drop k (t @ x)) = []" if "k \<le> length (takeWhile is_space (t @ x))" for k ms
    using keyword_not_in_prose[OF assms that] by (simp add: m_seqs_Cons m_seq_def[of "m_lit _"])
  then have "m_seqs (m_plus is_space # m_lit ''AgenticDSL'' # ms) (t @ x) = []" for ms
    unfolding m_seqs_Cons[of "m_plus is_space"] m_seq_def[of "m_plus is_space"] m_plus_def by (auto simp: less_Suc_eq_le)
  then show ?thesis
    unfolding block_pattern_def m_seqs_Cons[of "m_lit ''#''"] m_seq_def[of "m_lit ''#''"] by (simp add: m_lit_def[of "''#''"])
qed

lemma rx_search_prose: "plain_prose u \<Longrightarrow> rx_search block_pattern (u @ x) = rx_search block_pattern x"
proof (induction u)
  case (Cons c u)
  then have "block_pattern (c # u @ x) = []"
    using block_pattern_hash[of c] block_pattern_prose[of u x] by (cases "c = CHR ''#''") auto
  then show ?case using Cons by simp
qed simp

lemma rx_all_none: "plain_prose x \<Longrightarrow> rx_all block_pattern x = []"
  using rx_search_prose[of x "[]"] by (simp add: rx_all.simps block_pattern_def m_seqs_Cons m_seq_def[of "m_lit _"])

lemma rx_all_block:
  assumes "block_ok (p, y)" "plain_prose prose"
  shows "rx_all block_pattern (prose @ print_block p y @ r) = (print_block p y, [p]) # rx_all block_pattern r"
proof -
  have "rx_search block_pattern (prose @ print_block p y @ r) = Some (print_block p y, [p], r)"
    using rx_search_starts[OF block_pattern_starts[OF assms(1)], of r] rx_search_prose[OF assms(2)] by simp
  moreover have "length r < length (prose @ print_block p y @ r)" by (simp add: print_block_def)
  ultimately show ?thesis by (subst rx_all.simps) (simp del: length_append)
qed

text \<open>C6. Printing and extracting are inverse: whatever prose, headings included, surrounds the blocks, as
  long as no hash sign in it begins the header of a block, the extractor returns exactly the printed paths and YAML
  texts, in order, when a path has no backtick or hash and a YAML text does not begin with white space or
  contain the end marker.\<close>

theorem document_roundtrip:
  assumes "list_all (\<lambda>(prose, b). plain_prose prose \<and> block_ok b) bs" "plain_prose end_text"
  shows "extract_pathed_blocks (print_document bs end_text) = map snd bs"
proof -
  have "blocks_of (rx_all block_pattern (print_document bs end_text)) = map snd bs"
    using assms by (induction bs) (auto simp: rx_all_none rx_all_block yaml_between_print)
  then show ?thesis by (simp add: extract_pathed_blocks_def)
qed

lemma document_roundtrip_witness:
  "extract_pathed_blocks (print_document [(''# Main workflow\<newline>intro '', ''/main'', ''type: end''), ([], ''/b'', ''x'')] ''## Agents\<newline>'')
     = [(''/main'', ''type: end''), (''/b'', ''x'')]"
  using document_roundtrip[of "[(''# Main workflow\<newline>intro '', ''/main'', ''type: end''), ([], ''/b'', ''x'')]" "''## Agents\<newline>''"]
  by (simp add: block_ok_def is_space_def contains_sub_def end_marker_def opens_block_def Let_def)

end
