(* ===== verification/Parser.thy ===== *)
theory Parser
  imports Document Yaml Nodes Layered
begin

text \<open>
  The parser of AgenticDSL documents: modules/parser/node_factory.cpp (the table of node factories),
  declarative_style.cpp (the expansion of \<open>exec:\<close> arrays into fork, branches and join) and
  markdown_parser.cpp.  The YAML reader, the JSON reader, dumping, the conversions of floating-point
  numbers and the iteration order of the hash maps are parameters; log lines are left out.
\<close>

record parser_env =
  pe_yaml :: "string \<Rightarrow> (bool \<times> string) + yaml"
  pe_yaml_env :: yaml_env
  pe_json :: "string \<Rightarrow> json option"
  pe_dump :: "json \<Rightarrow> string"
  pe_double_str :: "64 word \<Rightarrow> string"
  pe_d2f :: "64 word \<Rightarrow> 32 word"
  pe_i2f :: "int \<Rightarrow> 32 word"
  pe_d2i :: "64 word \<Rightarrow> int"
  pe_hash_order :: "(string \<times> string) list \<Rightarrow> (string \<times> string) list"

section \<open>Members\<close>

fun string_items :: "json list \<Rightarrow> string list res" where
  "string_items [] = Inr []"
| "string_items (j # js) = ebind (jget_str j) (\<lambda>s. ebind (string_items js) (\<lambda>ss. Inr (s # ss)))"

fun only_strings :: "json list \<Rightarrow> string list" where
  "only_strings [] = []"
| "only_strings (JStr s # js) = s # only_strings js"
| "only_strings (_ # js) = only_strings js"

text \<open>\<open>next\<close>, a string or a list of strings; anything else counts as nothing.\<close>

definition next_of :: "json \<Rightarrow> string list res" where
  "next_of j = (case jlookup ''next'' j of
       Some (JStr s) \<Rightarrow> Inr [s]
     | Some (JArr xs) \<Rightarrow> string_items xs
     | _ \<Rightarrow> Inr [])"

definition permissions_of :: "json \<Rightarrow> string list" where
  "permissions_of j = (case jlookup ''permissions'' j of Some (JArr xs) \<Rightarrow> only_strings xs | _ \<Rightarrow> [])"

definition signature_of :: "json \<Rightarrow> string option res" where
  "signature_of j = (case jlookup ''signature'' j of
       None \<Rightarrow> Inr None
     | Some v \<Rightarrow> ebind (jget_str v) (\<lambda>s. Inr (Some s)))"

definition optional_string :: "string \<Rightarrow> json \<Rightarrow> string option" where
  "optional_string k j = (case jlookup k j of Some (JStr s) \<Rightarrow> Some s | _ \<Rightarrow> None)"

definition required_string :: "string \<Rightarrow> json \<Rightarrow> string res" where
  "required_string k j = ebind (jat k j) jget_str"

text \<open>\<open>metadata[to] = json[from]\<close> if the member is there.\<close>

definition copy_member :: "string \<Rightarrow> string \<Rightarrow> json \<Rightarrow> json \<Rightarrow> json res" where
  "copy_member from to j meta = (case jlookup from j of None \<Rightarrow> Inr meta | Some v \<Rightarrow> jput to v meta)"

record node_context =
  nc_next :: "string list"
  nc_metadata :: json
  nc_signature :: "string option"
  nc_permissions :: "string list"

definition context_metadata :: "json \<Rightarrow> json res" where
  "context_metadata j = ebind (jvalue ''metadata'' jempty j) (\<lambda>m.
     ebind (copy_member ''backend'' ''backend'' j m) (\<lambda>m.
     ebind (copy_member ''env'' ''env_vars'' j m) (\<lambda>m.
     ebind (copy_member ''env_vars'' ''env_vars'' j m) (\<lambda>m.
     ebind (copy_member ''stream'' ''stream'' j m) (\<lambda>m.
     copy_member ''wait_for'' ''wait_for'' j m)))))"

definition parse_context :: "json \<Rightarrow> node_context res" where
  "parse_context j = ebind (next_of j) (\<lambda>ns. ebind (context_metadata j) (\<lambda>m. ebind (signature_of j) (\<lambda>sg.
     Inr \<lparr> nc_next = ns, nc_metadata = m, nc_signature = sg, nc_permissions = permissions_of j \<rparr>)))"

definition apply_context :: "node_context \<Rightarrow> node \<Rightarrow> node" where
  "apply_context c nd = nd \<lparr> nd_metadata := nc_metadata c, nd_signature := nc_signature c,
     nd_permissions := nc_permissions c \<rparr>"

definition parse_resource_type :: "string \<Rightarrow> resource_type res" where
  "parse_resource_type s =
     (if s = ''file'' then Inr FILE
      else if s = ''postgres'' then Inr POSTGRES
      else if s = ''mysql'' then Inr MYSQL
      else if s = ''sqlite'' then Inr SQLITE
      else if s = ''api_endpoint'' then Inr API_ENDPOINT
      else if s = ''vector_store'' then Inr VECTOR_STORE
      else if s = ''custom'' then Inr CUSTOM
      else Inl (Runtime_error (''Unknown resource_type '' @ quoted s)))"

definition parse_output_keys :: "string \<Rightarrow> json \<Rightarrow> string list res" where
  "parse_output_keys path j = (case jlookup ''output_keys'' j of
       None \<Rightarrow> Inl (Runtime_error (''Missing '' @ quoted ''output_keys'' @ '' in node: '' @ path))
     | Some (JStr s) \<Rightarrow> Inr [s]
     | Some (JArr xs) \<Rightarrow> string_items xs
     | Some _ \<Rightarrow> Inl (Runtime_error (quoted ''output_keys'' @ '' must be string or array in node: '' @ path)))"

section \<open>Node factories\<close>

definition make_start :: "string \<Rightarrow> json \<Rightarrow> node res" where
  "make_start path j = ebind (parse_context j) (\<lambda>c. Inr (apply_context c (mk_node path StartNode (nc_next c))))"

definition make_end :: "string \<Rightarrow> json \<Rightarrow> node res" where
  "make_end path j = ebind (parse_context j) (\<lambda>c. Inr (apply_context c (mk_node path EndNode (nc_next c))))"

text \<open>The text of a scalar member.\<close>

definition bool_str :: "bool \<Rightarrow> string" where
  "bool_str b = (if b then ''true'' else ''false'')"

definition assign_text :: "parser_env \<Rightarrow> json \<Rightarrow> string" where
  "assign_text e v = (case v of
       JStr s \<Rightarrow> s | JInt i \<Rightarrow> int_str i | JFloat d \<Rightarrow> pe_double_str e d | JBool b \<Rightarrow> bool_str b
     | _ \<Rightarrow> pe_dump e v)"

definition make_assign :: "parser_env \<Rightarrow> string \<Rightarrow> json \<Rightarrow> node res" where
  "make_assign e path j = ebind (parse_context j) (\<lambda>c.
     let a = (case jlookup ''assign'' j of Some (JObj kvs) \<Rightarrow> map (\<lambda>(k, v). (k, assign_text e v)) kvs | _ \<Rightarrow> [])
     in Inr (apply_context c (mk_node path (AssignNode (pe_hash_order e a)) (nc_next c))))"

text \<open>\<open>get<float>()\<close> and \<open>get<int>()\<close> take numbers and bools.\<close>

definition jget_float :: "parser_env \<Rightarrow> json \<Rightarrow> 32 word res" where
  "jget_float e v = (case v of
       JInt i \<Rightarrow> Inr (pe_i2f e i) | JFloat d \<Rightarrow> Inr (pe_d2f e d) | JBool b \<Rightarrow> Inr (pe_i2f e (of_bool b))
     | _ \<Rightarrow> Inl (Json_error ''type_error.302''))"

definition jget_int :: "parser_env \<Rightarrow> json \<Rightarrow> int res" where
  "jget_int e v = (case v of
       JInt i \<Rightarrow> Inr (wrap32 i) | JFloat d \<Rightarrow> Inr (pe_d2i e d) | JBool b \<Rightarrow> Inr (of_bool b)
     | _ \<Rightarrow> Inl (Json_error ''type_error.302''))"

definition with_member :: "string \<Rightarrow> json \<Rightarrow> (json \<Rightarrow> 'a res) \<Rightarrow> ('a \<Rightarrow> 'b \<Rightarrow> 'b) \<Rightarrow> 'b \<Rightarrow> 'b res" where
  "with_member k j get upd x = (case jlookup k j of None \<Rightarrow> Inr x | Some v \<Rightarrow> ebind (get v) (\<lambda>a. Inr (upd a x)))"

definition parse_llm_params :: "parser_env \<Rightarrow> json \<Rightarrow> llm_config res" where
  "parse_llm_params e j = (case jlookup ''llm_params'' j of
       Some (JObj kvs) \<Rightarrow> (let p = JObj kvs in
         ebind (with_member ''temperature'' p (jget_float e) (\<lambda>a c. c \<lparr> lc_temperature := a \<rparr>) default_llm_config) (\<lambda>c.
         ebind (with_member ''max_tokens'' p (jget_int e) (\<lambda>a c. c \<lparr> lc_max_tokens := a \<rparr>) c) (\<lambda>c.
         ebind (with_member ''top_p'' p (jget_float e) (\<lambda>a c. c \<lparr> lc_top_p := a \<rparr>) c) (\<lambda>c.
         ebind (with_member ''n_ctx'' p (jget_int e) (\<lambda>a c. c \<lparr> lc_n_ctx := a \<rparr>) c) (\<lambda>c.
         ebind (with_member ''n_threads'' p (jget_int e) (\<lambda>a c. c \<lparr> lc_n_threads := a \<rparr>) c) (\<lambda>c.
         with_member ''model'' p jget_str (\<lambda>a c. c \<lparr> lc_model := a \<rparr>) c))))))
     | _ \<Rightarrow> Inr default_llm_config)"

definition make_dsl_or_llm_call :: "parser_env \<Rightarrow> string \<Rightarrow> string \<Rightarrow> json \<Rightarrow> node res" where
  "make_dsl_or_llm_call e default_tool path j = ebind (parse_context j) (\<lambda>c.
     ebind (required_string ''prompt_template'' j) (\<lambda>prompt.
     ebind (if jcontains ''llm_tool_name'' j then required_string ''llm_tool_name'' j else Inr default_tool) (\<lambda>tool.
     ebind (parse_llm_params e j) (\<lambda>params.
     ebind (parse_output_keys path j) (\<lambda>keys.
     Inr (apply_context c (mk_node path (DSLNode prompt tool params keys) (nc_next c))))))))"

definition make_dsl_call :: "parser_env \<Rightarrow> string \<Rightarrow> json \<Rightarrow> node res" where
  "make_dsl_call e = make_dsl_or_llm_call e []"

definition make_llm_call :: "parser_env \<Rightarrow> string \<Rightarrow> json \<Rightarrow> node res" where
  "make_llm_call e = make_dsl_or_llm_call e ''llama-default''"

fun arg_texts :: "parser_env \<Rightarrow> (string \<times> json) list \<Rightarrow> (string \<times> string) list res" where
  "arg_texts e [] = Inr []"
| "arg_texts e ((k, v) # kvs) =
     (if v = JNull then Inl (Runtime_error (''Argument '' @ quoted k @ '' has unsupported type''))
      else ebind (arg_texts e kvs) (\<lambda>as. Inr ((k, assign_text e v) # as)))"

definition tool_arguments :: "parser_env \<Rightarrow> json \<Rightarrow> (string \<times> string) list res" where
  "tool_arguments e j = (case jlookup ''arguments'' j of
       Some (JStr s) \<Rightarrow> Inr [(''input'', s)]
     | Some (JObj kvs) \<Rightarrow> arg_texts e kvs
     | _ \<Rightarrow> Inr [])"

definition make_tool_call :: "parser_env \<Rightarrow> string \<Rightarrow> json \<Rightarrow> node res" where
  "make_tool_call e path j = ebind (parse_context j) (\<lambda>c. ebind (required_string ''tool'' j) (\<lambda>tool.
     ebind (parse_output_keys path j) (\<lambda>keys. ebind (tool_arguments e j) (\<lambda>args.
     Inr (apply_context c (mk_node path (ToolCallNode tool (pe_hash_order e args) keys) (nc_next c)))))))"

text \<open>A resource node takes no successors.\<close>

definition make_resource :: "string \<Rightarrow> json \<Rightarrow> node res" where
  "make_resource path j = ebind (parse_context j) (\<lambda>c. ebind (required_string ''resource_type'' j) (\<lambda>ts.
     ebind (parse_resource_type ts) (\<lambda>t. ebind (required_string ''uri'' j) (\<lambda>uri.
     ebind (jvalue_str ''scope'' ''global'' j) (\<lambda>scope.
     Inr (apply_context c (mk_node path (ResourceNode t uri scope) [])))))))"

fun flat_branches :: "json list \<Rightarrow> string list res" where
  "flat_branches [] = Inr []"
| "flat_branches (b # bs) = (case jlookup ''path'' b of
       Some p \<Rightarrow> ebind (jget_str p) (\<lambda>s. ebind (flat_branches bs) (\<lambda>ss. Inr (s # ss)))
     | None \<Rightarrow> (case b of JStr s \<Rightarrow> ebind (flat_branches bs) (\<lambda>ss. Inr (s # ss)) | _ \<Rightarrow> flat_branches bs))"

definition nested :: "string \<Rightarrow> string \<Rightarrow> json \<Rightarrow> json option" where
  "nested outer inner j = Option.bind (jlookup outer j) (jlookup inner)"

definition string_or_strings :: "json \<Rightarrow> string list res" where
  "string_or_strings v = (case v of JStr s \<Rightarrow> Inr [s] | JArr xs \<Rightarrow> string_items xs | _ \<Rightarrow> Inr [])"

definition branches_of :: "json \<Rightarrow> string list res" where
  "branches_of j = (case jlookup ''branches'' j of
       Some (JArr (b # bs)) \<Rightarrow> flat_branches (b # bs)
     | _ \<Rightarrow> (case nested ''fork'' ''branches'' j of None \<Rightarrow> Inr [] | Some v \<Rightarrow> string_or_strings v))"

definition make_fork :: "string \<Rightarrow> json \<Rightarrow> node res" where
  "make_fork path j = ebind (parse_context j) (\<lambda>c. ebind (branches_of j) (\<lambda>bs.
     Inr (apply_context c (mk_node path (ForkNode bs) (nc_next c)))))"

definition join_deps :: "json \<Rightarrow> string list res" where
  "join_deps j = (case jlookup ''wait_for'' j of
       Some (JArr xs) \<Rightarrow> Inr (only_strings xs)
     | Some (JStr s) \<Rightarrow> Inr [s]
     | Some _ \<Rightarrow> Inr []
     | None \<Rightarrow> (case nested ''join'' ''wait_for'' j of None \<Rightarrow> Inr [] | Some v \<Rightarrow> string_or_strings v))"

definition join_strategy :: "json \<Rightarrow> string res" where
  "join_strategy j = (case nested ''join'' ''merge_strategy'' j of
       Some v \<Rightarrow> jget_str v
     | None \<Rightarrow> (case jlookup ''merge_strategy'' j of Some v \<Rightarrow> jget_str v | None \<Rightarrow> Inr ''error_on_conflict''))"

definition make_join :: "string \<Rightarrow> json \<Rightarrow> node res" where
  "make_join path j = ebind (parse_context j) (\<lambda>c. ebind (join_deps j) (\<lambda>ds. ebind (join_strategy j) (\<lambda>st.
     Inr (apply_context c (mk_node path (JoinNode ds st) (nc_next c))))))"

definition make_generate_subgraph :: "string \<Rightarrow> json \<Rightarrow> node res" where
  "make_generate_subgraph path j = ebind (parse_context j) (\<lambda>c. ebind (required_string ''prompt_template'' j) (\<lambda>prompt.
     ebind (parse_output_keys path j) (\<lambda>keys. ebind (jvalue_str ''signature_validation'' ''strict'' j) (\<lambda>sv.
     Inr (apply_context c (mk_node path
       (GenerateSubgraphNode prompt keys sv (optional_string ''on_signature_violation'' j)) (nc_next c)))))))"

definition make_assert :: "string \<Rightarrow> json \<Rightarrow> node res" where
  "make_assert path j = ebind (parse_context j) (\<lambda>c. ebind (required_string ''condition'' j) (\<lambda>cond.
     Inr (apply_context c (mk_node path (AssertNode cond (optional_string ''on_failure'' j)) (nc_next c)))))"

definition parse_yield_mode :: "string \<Rightarrow> string \<Rightarrow> yield_mode res" where
  "parse_yield_mode s path = (let l = str_lower s in
     if l = ''next'' then Inr NEXT
     else if l = ''continue'' then Inr CONTINUE
     else if l = ''stop'' then Inr STOP
     else Inl (Runtime_error (''YieldNode '' @ quoted path @ '': invalid mode '' @ quoted s @ '', expected next|continue|stop'')))"

definition make_yield :: "string \<Rightarrow> json \<Rightarrow> node res" where
  "make_yield path j = ebind (parse_context j) (\<lambda>c. ebind (jvalue_str ''yield_value'' [] j) (\<lambda>v.
     ebind (case optional_string ''mode'' j of None \<Rightarrow> Inr NEXT | Some s \<Rightarrow> parse_yield_mode s path) (\<lambda>m.
     ebind (jvalue_str ''stop_path'' [] j) (\<lambda>stop.
     Inr (apply_context c (mk_node path (YieldNode v m stop) (nc_next c)))))))"

section \<open>The factory registry\<close>

type_synonym factory = "string \<Rightarrow> json \<Rightarrow> node res"

type_synonym factory_registry = "(string \<times> factory) list"

definition register_factory :: "string \<Rightarrow> factory \<Rightarrow> factory_registry \<Rightarrow> factory_registry" where
  "register_factory ty f reg = kv_ins ty f reg"

definition create_node :: "string \<Rightarrow> string \<Rightarrow> json \<Rightarrow> factory_registry \<Rightarrow> node option res" where
  "create_node ty path j reg = (case map_of reg ty of
       None \<Rightarrow> Inr None
     | Some f \<Rightarrow> ebind (f path j) (\<lambda>nd. Inr (Some nd)))"

definition has_factory :: "string \<Rightarrow> factory_registry \<Rightarrow> bool" where
  "has_factory ty reg \<longleftrightarrow> map_of reg ty \<noteq> None"

definition global_factories :: "parser_env \<Rightarrow> factory_registry" where
  "global_factories e = foldl (\<lambda>reg (ty, f). register_factory ty f reg) []
     [(''start'', make_start), (''end'', make_end), (''assign'', make_assign e), (''dsl_call'', make_dsl_call e),
      (''llm_call'', make_llm_call e), (''tool_call'', make_tool_call e), (''resource'', make_resource),
      (''fork'', make_fork), (''join'', make_join), (''generate_subgraph'', make_generate_subgraph),
      (''assert'', make_assert), (''yield'', make_yield)]"

section \<open>Declarative \<open>exec:\<close> arrays\<close>

record exec_expansion =
  ex_nodes :: "node list"
  ex_fork_path :: string
  ex_join_path :: string
  ex_branch_paths :: "string list"
  ex_single :: bool

definition has_exec_key :: "json \<Rightarrow> bool" where
  "has_exec_key j = (case jlookup ''exec'' j of Some v \<Rightarrow> is_arr v | None \<Rightarrow> False)"

definition make_branch_path :: "string \<Rightarrow> nat \<Rightarrow> string" where
  "make_branch_path base i = base @ ''/branch_'' @ nat_str i"

definition make_fork_path :: "string \<Rightarrow> string" where
  "make_fork_path base = base @ ''_fork''"

definition make_join_path :: "string \<Rightarrow> string" where
  "make_join_path base = base @ ''_join''"

definition expanded_metadata :: "string \<Rightarrow> json \<Rightarrow> json res" where
  "expanded_metadata kind meta = ebind (jput ''exec_expanded'' (JBool True) meta) (\<lambda>m. jput ''exec_kind'' (JStr kind) m)"

definition create_fork_node :: "string \<Rightarrow> string list \<Rightarrow> string list \<Rightarrow> json \<Rightarrow> node res" where
  "create_fork_node path branches next meta = ebind (expanded_metadata ''fork'' meta) (\<lambda>m.
     Inr ((mk_node path (ForkNode branches) next) \<lparr> nd_metadata := m \<rparr>))"

definition create_join_node :: "string \<Rightarrow> string list \<Rightarrow> string list \<Rightarrow> json \<Rightarrow> node res" where
  "create_join_node path waits next meta = ebind (expanded_metadata ''join'' meta) (\<lambda>m.
     Inr ((mk_node path (JoinNode waits ''error_on_conflict'') next) \<lparr> nd_metadata := m \<rparr>))"

definition child_types :: "string list" where
  "child_types = [''tool_call'', ''dsl_call'', ''llm_call'', ''assign'', ''resource'', ''assert'', ''generate_subgraph'', ''yield'']"

text \<open>A string is short for a tool call without arguments.\<close>

definition tool_shorthand :: "string \<Rightarrow> json" where
  "tool_shorthand tool = jobj [(''type'', JStr ''tool_call''), (''tool'', JStr tool), (''arguments'', jempty),
     (''output_keys'', JArr [JStr (tool @ ''_result'')])]"

text \<open>The members of the given metadata that the node's own metadata lacks.\<close>

fun add_missing :: "(string \<times> json) list \<Rightarrow> json \<Rightarrow> json res" where
  "add_missing [] m = Inr m"
| "add_missing ((k, v) # kvs) m =
     (if jcontains k m then add_missing kvs m else ebind (jput k v m) (add_missing kvs))"

definition members :: "json \<Rightarrow> (string \<times> json) list" where
  "members j = (case j of JObj kvs \<Rightarrow> kvs | _ \<Rightarrow> [])"

definition parse_child_node :: "factory_registry \<Rightarrow> string \<Rightarrow> json \<Rightarrow> string list \<Rightarrow> json \<Rightarrow> node res" where
  "parse_child_node reg path child next meta = (case child of
       JStr tool \<Rightarrow> ebind (create_node ''tool_call'' path (tool_shorthand tool) reg) (\<lambda>r. case r of
           Some nd \<Rightarrow> Inr (nd \<lparr> nd_next := next \<rparr>)
         | None \<Rightarrow> Inl (Parse_error (''Failed to create tool_call node for '' @ quoted tool) path))
     | JObj _ \<Rightarrow> ebind (jput ''exec_parent'' (JStr path) meta) (\<lambda>nm. case jlookup ''type'' child of
           None \<Rightarrow> Inl (Parse_error (quoted ''exec'' @ '' array element must be an object or a string'') path)
         | Some tv \<Rightarrow> ebind (jget_str tv) (\<lambda>ty.
             if ty \<in> set child_types
             then ebind (create_node ty path child reg) (\<lambda>r. case r of
                 Some nd \<Rightarrow> ebind (add_missing (members nm) (nd_metadata nd)) (\<lambda>m.
                    Inr (nd \<lparr> nd_metadata := m, nd_next := next \<rparr>))
               | None \<Rightarrow> Inl (Parse_error (''Failed to create node of type '' @ quoted ty) path))
             else Inl (Parse_error (''Unsupported node type '' @ quoted ty @ '' in exec array'') path)))
     | _ \<Rightarrow> Inl (Parse_error (quoted ''exec'' @ '' array element must be an object or a string'') path))"

definition MAX_EXEC_DEPTH :: int where
  "MAX_EXEC_DEPTH = 1"

definition nesting_error :: "string \<Rightarrow> exc" where
  "nesting_error base = Parse_error (quoted ''exec'' @ '' nesting exceeds max_exec_depth='' @ int_str MAX_EXEC_DEPTH) base"

fun branch_nodes :: "factory_registry \<Rightarrow> string \<Rightarrow> json \<Rightarrow> nat \<Rightarrow> json list \<Rightarrow> node list res" where
  "branch_nodes reg base meta i [] = Inr []"
| "branch_nodes reg base meta i (c # cs) = ebind (parse_child_node reg (make_branch_path base i) c [] meta) (\<lambda>nd.
     ebind (branch_nodes reg base meta (Suc i) cs) (\<lambda>nds. Inr (nd # nds)))"

definition validate_exec_array :: "json \<Rightarrow> string \<Rightarrow> json list res" where
  "validate_exec_array j base = (case j of
       JArr [] \<Rightarrow> Inl (Parse_error (quoted ''exec'' @ '' array must not be empty'') base)
     | JArr xs \<Rightarrow> Inr xs
     | _ \<Rightarrow> Inl (Parse_error (quoted ''exec'' @ '' must be an array'') base))"

definition expand_exec_array :: "factory_registry \<Rightarrow> string \<Rightarrow> json \<Rightarrow> string list \<Rightarrow> json \<Rightarrow> int \<Rightarrow> exec_expansion res" where
  "expand_exec_array reg base arr next meta depth = ebind (validate_exec_array arr base) (\<lambda>xs.
     if MAX_EXEC_DEPTH \<le> depth \<or> list_ex has_exec_key xs then Inl (nesting_error base)
     else if length xs = 1 then
       ebind (parse_child_node reg (make_branch_path base 0) (hd xs) next meta) (\<lambda>nd.
         Inr \<lparr> ex_nodes = [nd], ex_fork_path = [], ex_join_path = [], ex_branch_paths = [make_branch_path base 0],
               ex_single = True \<rparr>)
     else (let branches = map (make_branch_path base) [0..<length xs]; fp = make_fork_path base; jp = make_join_path base in
       ebind (create_fork_node fp branches [jp] meta) (\<lambda>f.
       ebind (branch_nodes reg base meta 0 xs) (\<lambda>bs.
       ebind (create_join_node jp branches next meta) (\<lambda>jn.
         Inr \<lparr> ex_nodes = f # bs @ [jn], ex_fork_path = fp, ex_join_path = jp, ex_branch_paths = branches,
               ex_single = False \<rparr>)))))"

section \<open>MarkdownParser\<close>

text \<open>\<open>\s*->\s*(\{.*\})\<close>, where the dot stops at a line break and the star is greedy.\<close>

definition output_pattern :: matcher where
  "output_pattern = m_seqs [m_star is_space, m_lit ''->'', m_star is_space,
     m_group (m_seqs [m_lit ''{'', m_star (\<lambda>c. c \<noteq> CHR 0x0A \<and> c \<noteq> CHR 0x0D), m_lit ''}''])]"

definition parse_output_schema_from_signature :: "parser_env \<Rightarrow> string \<Rightarrow> json option" where
  "parse_output_schema_from_signature e sg = (case rx_search output_pattern sg of
       None \<Rightarrow> None
     | Some (u, caps, r) \<Rightarrow> (case pe_json e (hd caps) of Some j \<Rightarrow> Some j | None \<Rightarrow> Some jempty))"

text \<open>The limits of \<open>/__meta__\<close>: members that are not integers are ignored.\<close>

definition int_member :: "string \<Rightarrow> json \<Rightarrow> int option" where
  "int_member k j = (case jlookup k j of Some (JInt i) \<Rightarrow> Some i | _ \<Rightarrow> None)"

definition with_limit :: "string \<Rightarrow> json \<Rightarrow> (int \<Rightarrow> 'b \<Rightarrow> 'b) \<Rightarrow> 'b \<Rightarrow> 'b" where
  "with_limit k j upd b = (case int_member k j of None \<Rightarrow> b | Some i \<Rightarrow> upd i b)"

definition parse_meta_budget :: "int \<Rightarrow> json \<Rightarrow> execution_budget" where
  "parse_meta_budget now j =
     with_limit ''snapshot_max_size_kb'' j (\<lambda>i b. b \<lparr> snapshot_max_size_kb := unat (word_of_int i :: 64 word) \<rparr>)
     (with_limit ''max_snapshots'' j (\<lambda>i b. b \<lparr> max_snapshots := wrap32 i \<rparr>)
     (with_limit ''max_subgraph_depth'' j (\<lambda>i b. b \<lparr> max_subgraph_depth := wrap32 i \<rparr>)
     (with_limit ''max_duration_sec'' j (\<lambda>i b. b \<lparr> max_duration_sec := wrap32 i \<rparr>)
     (with_limit ''max_llm_calls'' j (\<lambda>i b. b \<lparr> max_llm_calls := wrap32 i \<rparr>)
     (with_limit ''max_nodes'' j (\<lambda>i b. b \<lparr> max_nodes := wrap32 i \<rparr>) (new_budget now))))))"

definition create_node_from_json :: "factory_registry \<Rightarrow> string \<Rightarrow> json \<Rightarrow> node option res" where
  "create_node_from_json reg path j = ebind (required_string ''type'' j) (\<lambda>ty.
     if \<not> has_factory ty reg then Inr None else create_node ty path j reg)"

text \<open>The nodes of an \<open>exec:\<close> node, or None for any other node.\<close>

definition try_expand_exec_node :: "factory_registry \<Rightarrow> string \<Rightarrow> json \<Rightarrow> node list option res" where
  "try_expand_exec_node reg path j =
     (if \<not> has_exec_key j then Inr None
      else ebind (next_of j) (\<lambda>next. ebind (jvalue ''metadata'' jempty j) (\<lambda>meta. ebind (jat ''exec'' j) (\<lambda>arr.
           ebind (expand_exec_array reg path arr next meta 0) (\<lambda>x. Inr (Some (ex_nodes x)))))))"

fun subgraph_nodes :: "factory_registry \<Rightarrow> string \<Rightarrow> json list \<Rightarrow> node list res" where
  "subgraph_nodes reg path [] = Inr []"
| "subgraph_nodes reg path (j # js) = ebind (jvalue_str ''id'' [] j) (\<lambda>i.
     if i = [] then Inl (Runtime_error (''Node in subgraph '' @ quoted path @ '' missing '' @ quoted ''id''))
     else let np = path @ ''/'' @ i in
       ebind (try_expand_exec_node reg np j) (\<lambda>x.
       ebind (case x of Some nds \<Rightarrow> Inr nds
              | None \<Rightarrow> ebind (create_node_from_json reg np j) (\<lambda>nd. Inr (case nd of None \<Rightarrow> [] | Some n \<Rightarrow> [n]))) (\<lambda>nds.
       ebind (subgraph_nodes reg path js) (\<lambda>rest. Inr (nds @ rest)))))"

text \<open>What the two kinds of block have in common.\<close>

definition graph_header :: "parser_env \<Rightarrow> string \<Rightarrow> json \<Rightarrow> bool \<Rightarrow> parsed_graph res" where
  "graph_header e path j with_entry = ebind (jvalue ''metadata'' jempty j) (\<lambda>m.
     ebind (if with_entry then copy_member ''entry'' ''entry'' j m else Inr m) (\<lambda>m.
     ebind (signature_of j) (\<lambda>sg.
     Inr \<lparr> pg_nodes = [], pg_path = path, pg_metadata = m, pg_budget = None, pg_signature = sg,
           pg_permissions = permissions_of j, pg_is_standard_library = starts_with ''/lib/'' path,
           pg_output_schema = Option.bind sg (parse_output_schema_from_signature e) \<rparr>)))"

definition parse_subgraph_block :: "parser_env \<Rightarrow> factory_registry \<Rightarrow> string \<Rightarrow> json \<Rightarrow> parsed_graph res" where
  "parse_subgraph_block e reg path j = ebind (graph_header e path j True) (\<lambda>g.
     ebind (case jlookup ''nodes'' j of Some (JArr xs) \<Rightarrow> subgraph_nodes reg path xs | _ \<Rightarrow> Inr []) (\<lambda>nds.
     Inr (g \<lparr> pg_nodes := nds \<rparr>)))"

text \<open>A block that is one node; of an unknown type nothing remains.\<close>

definition parse_node_block :: "parser_env \<Rightarrow> factory_registry \<Rightarrow> string \<Rightarrow> json \<Rightarrow> parsed_graph option res" where
  "parse_node_block e reg path j = ebind (graph_header e path j False) (\<lambda>g.
     ebind (try_expand_exec_node reg path j) (\<lambda>x. case x of
       Some nds \<Rightarrow> Inr (Some (g \<lparr> pg_nodes := nds \<rparr>))
     | None \<Rightarrow> ebind (create_node_from_json reg path j) (\<lambda>nd.
         Inr (case nd of None \<Rightarrow> None | Some n \<Rightarrow> Some (g \<lparr> pg_nodes := [n] \<rparr>)))))"

text \<open>One block: the graphs it adds, and the budget it sets.\<close>

definition parse_block_body :: "parser_env \<Rightarrow> factory_registry \<Rightarrow> int \<Rightarrow> string \<Rightarrow> json \<Rightarrow>
    (parsed_graph list \<times> execution_budget option) res" where
  "parse_block_body e reg now path j =
     (if path = ''/__meta__'' then Inr ([], map_option (parse_meta_budget now) (jlookup ''execution_budget'' j))
      else if jlookup ''graph_type'' j = Some (JStr ''subgraph'') then
        ebind (parse_subgraph_block e reg path j) (\<lambda>g. Inr ([g], None))
      else if jcontains ''type'' j then
        ebind (parse_node_block e reg path j) (\<lambda>g. Inr (case g of None \<Rightarrow> [] | Some g \<Rightarrow> [g], None))
      else Inr ([], None))"

definition block_error :: "string \<Rightarrow> string \<Rightarrow> string \<Rightarrow> exc" where
  "block_error kind path m = Runtime_error (kind @ quoted path @ '': '' @ m)"

definition parse_block :: "parser_env \<Rightarrow> factory_registry \<Rightarrow> int \<Rightarrow> string \<Rightarrow> string \<Rightarrow>
    (parsed_graph list \<times> execution_budget option) res" where
  "parse_block e reg now path text =
     (if \<not> is_valid_node_path path then Inl (Runtime_error (''Invalid node path format: '' @ path))
      else (case pe_yaml e text of
          Inl (syntax, m) \<Rightarrow> Inl (block_error (if syntax then ''YAML parse error in block '' else ''Error parsing block '') path m)
        | Inr y \<Rightarrow> (case ebind (yaml_to_json (pe_yaml_env e) y) (parse_block_body e reg now path) of
            Inl x \<Rightarrow> Inl (block_error ''Error parsing block '' path (what x))
          | Inr r \<Rightarrow> Inr r)))"

text \<open>All blocks; the last budget wins and goes to the first graph.\<close>

fun parse_blocks :: "parser_env \<Rightarrow> factory_registry \<Rightarrow> int \<Rightarrow> (string \<times> string) list \<Rightarrow>
    parsed_graph list \<times> execution_budget option \<Rightarrow> (parsed_graph list \<times> execution_budget option) res" where
  "parse_blocks e reg now [] acc = Inr acc"
| "parse_blocks e reg now ((path, text) # bs) acc = ebind (parse_block e reg now path text) (\<lambda>(gs, b).
     parse_blocks e reg now bs (fst acc @ gs, case b of None \<Rightarrow> snd acc | Some _ \<Rightarrow> b))"

definition attach_budget :: "execution_budget option \<Rightarrow> parsed_graph list \<Rightarrow> parsed_graph list" where
  "attach_budget b gs = (case (b, gs) of
       (Some _, g # rest) \<Rightarrow> g \<lparr> pg_budget := b \<rparr> # rest
     | _ \<Rightarrow> gs)"

definition parse_from_string :: "parser_env \<Rightarrow> factory_registry \<Rightarrow> int \<Rightarrow> string \<Rightarrow> parsed_graph list res" where
  "parse_from_string e reg now md = ebind (parse_blocks e reg now (extract_pathed_blocks md) ([], None))
     (\<lambda>(gs, b). Inr (attach_budget b gs))"

definition parse_from_file :: "parser_env \<Rightarrow> factory_registry \<Rightarrow> int \<Rightarrow> string \<Rightarrow> string option \<Rightarrow> parsed_graph list res" where
  "parse_from_file e reg now file content = (case content of
       None \<Rightarrow> Inl (Runtime_error (''Cannot open file: '' @ file))
     | Some md \<Rightarrow> parse_from_string e reg now md)"

definition choose_graph :: "parsed_graph list \<Rightarrow> parsed_graph" where
  "choose_graph gs = (case gs of [] \<Rightarrow> empty_graph
     | g # _ \<Rightarrow> (case find (\<lambda>g. pg_path g = ''/main'') gs of Some m \<Rightarrow> m | None \<Rightarrow> g))"

definition parse :: "parser_env \<Rightarrow> factory_registry \<Rightarrow> int \<Rightarrow> string \<Rightarrow> parsed_graph res" where
  "parse e reg now md = ebind (parse_from_string e reg now md) (\<lambda>gs. Inr (choose_graph gs))"

definition parse_file :: "parser_env \<Rightarrow> factory_registry \<Rightarrow> int \<Rightarrow> string \<Rightarrow> string option \<Rightarrow> parsed_graph res" where
  "parse_file e reg now file content = ebind (parse_from_file e reg now file content) (\<lambda>gs. Inr (choose_graph gs))"

section \<open>Facts\<close>

lemma mk_node_simps [simp]:
  "nd_path (mk_node p b ns) = p" "nd_body (mk_node p b ns) = b" "nd_next (mk_node p b ns) = ns"
  "nd_metadata (mk_node p b ns) = jempty"
  by (simp_all add: mk_node_def)

lemma apply_context_simps [simp]:
  "nd_path (apply_context c nd) = nd_path nd" "nd_body (apply_context c nd) = nd_body nd"
  "nd_next (apply_context c nd) = nd_next nd" "nd_metadata (apply_context c nd) = nc_metadata c"
  by (simp_all add: apply_context_def)

lemmas factory_defs = make_start_def make_end_def make_assign_def make_dsl_call_def make_llm_call_def
  make_dsl_or_llm_call_def make_tool_call_def make_resource_def make_fork_def make_join_def
  make_generate_subgraph_def make_assert_def make_yield_def

definition type_of_name :: "string \<Rightarrow> node_type option" where
  "type_of_name ty = map_of [(''start'', START), (''end'', END), (''assign'', ASSIGN), (''dsl_call'', DSL_CALL),
     (''llm_call'', DSL_CALL), (''tool_call'', TOOL_CALL), (''resource'', RESOURCE), (''fork'', FORK), (''join'', JOIN),
     (''generate_subgraph'', GENERATE_SUBGRAPH), (''assert'', ASSERT), (''yield'', YIELD)] ty"

lemma global_factories_map:
  "map_of (global_factories e) = map_of
     [(''start'', make_start), (''end'', make_end), (''assign'', make_assign e), (''dsl_call'', make_dsl_call e),
      (''llm_call'', make_llm_call e), (''tool_call'', make_tool_call e), (''resource'', make_resource),
      (''fork'', make_fork), (''join'', make_join), (''generate_subgraph'', make_generate_subgraph),
      (''assert'', make_assert), (''yield'', make_yield)]"
  unfolding global_factories_def register_factory_def by (rule ext) simp

lemma factory_builds:
  "map_of (global_factories e) ty = Some f \<Longrightarrow> f path j = Inr nd \<Longrightarrow>
     nd_path nd = path \<and> type_of_name ty = Some (nd_type nd) \<and> (\<exists>c. parse_context j = Inr c \<and>
       nd_metadata nd = nc_metadata c \<and> nd_permissions nd = nc_permissions c \<and> nd_signature nd = nc_signature c)"
  unfolding global_factories_map type_of_name_def
  by (auto simp: factory_defs ebind_Inr_conv nd_type_def apply_context_def mk_node_def Let_def split: if_splits)

lemma create_node_path: "create_node ty path j (global_factories e) = Inr (Some nd) \<Longrightarrow> nd_path nd = path"
  using factory_builds[of e ty] by (auto simp: create_node_def ebind_Inr_conv split: option.splits)

lemma create_node_from_json_path:
  "create_node_from_json (global_factories e) path j = Inr (Some nd) \<Longrightarrow> nd_path nd = path"
  by (auto simp: create_node_from_json_def ebind_Inr_conv create_node_path split: if_splits)

lemma parse_child_node_facts:
  "parse_child_node (global_factories e) path child next meta = Inr nd \<Longrightarrow> nd_path nd = path \<and> nd_next nd = next"
  by (auto simp: parse_child_node_def ebind_Inr_conv dest!: create_node_path split: json.splits option.splits if_splits)

lemma branch_nodes_facts:
  "branch_nodes (global_factories e) base meta i cs = Inr nds \<Longrightarrow>
     map nd_path nds = map (make_branch_path base) [i..<i + length cs] \<and> list_all (\<lambda>nd. nd_next nd = []) nds"
proof (induction cs arbitrary: i nds)
  case (Cons c cs)
  then obtain nd nds' where r: "parse_child_node (global_factories e) (make_branch_path base i) c [] meta = Inr nd"
      "branch_nodes (global_factories e) base meta (Suc i) cs = Inr nds'" "nds = nd # nds'"
    by (auto simp: ebind_Inr_conv)
  have "[i..<i + length (c # cs)] = i # [Suc i..<Suc i + length cs]" by (simp add: upt_conv_Cons del: upt_Suc)
  then show ?case using Cons.IH[OF r(2)] parse_child_node_facts[OF r(1)] r(3) by (simp del: upt_Suc)
qed simp

lemma validate_exec_array_Inr: "validate_exec_array (JArr xs) base = Inr ys \<longleftrightarrow> xs \<noteq> [] \<and> ys = xs"
  by (auto simp: validate_exec_array_def split: list.splits)

lemma branch_path_inject [simp]: "make_branch_path base i = make_branch_path base k \<longleftrightarrow> i = k"
  by (simp add: make_branch_path_def)

lemma branch_path_distinct: "distinct (map (make_branch_path base) xs) \<longleftrightarrow> distinct xs"
  by (simp add: distinct_map inj_on_def)

section \<open>Properties\<close>

text \<open>C8. The factories build what their name says: a node of the requested type at the requested path, with
  the metadata, permissions and signature read from the JSON object; only unregistered names give no
  node.\<close>

theorem factories_build_their_type:
  "case create_node ty path j (global_factories e) of
     Inl x \<Rightarrow> type_of_name ty \<noteq> None
   | Inr None \<Rightarrow> type_of_name ty = None
   | Inr (Some nd) \<Rightarrow> nd_path nd = path \<and> type_of_name ty = Some (nd_type nd) \<and>
       parse_context j = Inr \<lparr> nc_next = (case parse_context j of Inr c \<Rightarrow> nc_next c), nc_metadata = nd_metadata nd,
         nc_signature = nd_signature nd, nc_permissions = nd_permissions nd \<rparr>"
proof -
  have n: "map_of (global_factories e) ty = None \<longleftrightarrow> type_of_name ty = None"
    unfolding global_factories_map type_of_name_def by simp
  show ?thesis
  proof (cases "map_of (global_factories e) ty")
    case (Some f)
    show ?thesis
    proof (cases "f path j")
      case (Inr nd)
      from factory_builds[OF Some Inr] show ?thesis using Some Inr by (auto simp: create_node_def)
    qed (use Some n in \<open>simp add: create_node_def\<close>)
  qed (use n in \<open>simp add: create_node_def\<close>)
qed

lemma exec_expansion_nodes:
  assumes "expand_exec_array (global_factories e) base (JArr xs) next meta 0 = Inr r"
  shows "ex_branch_paths r = map (make_branch_path base) [0..<length xs] \<and>
    (if length xs = 1 then map nd_path (ex_nodes r) = [make_branch_path base 0] \<and> map nd_next (ex_nodes r) = [next]
     else map nd_path (ex_nodes r) = (base @ ''_fork'') # map (make_branch_path base) [0..<length xs] @ [base @ ''_join''] \<and>
          map nd_next (ex_nodes r) = [base @ ''_join''] # replicate (length xs) [] @ [next] \<and>
          nd_body (hd (ex_nodes r)) = ForkNode (map (make_branch_path base) [0..<length xs]) \<and>
          nd_body (last (ex_nodes r)) = JoinNode (map (make_branch_path base) [0..<length xs]) ''error_on_conflict'')"
proof (cases "length xs = 1")
  case True
  then obtain nd where "parse_child_node (global_factories e) (make_branch_path base 0) (hd xs) next meta = Inr nd"
      "r = \<lparr> ex_nodes = [nd], ex_fork_path = [], ex_join_path = [], ex_branch_paths = [make_branch_path base 0], ex_single = True \<rparr>"
    using assms by (auto simp: expand_exec_array_def ebind_Inr_conv validate_exec_array_Inr split: if_splits)
  then show ?thesis using parse_child_node_facts True by auto
next
  case False
  then obtain f bs jn where r: "branch_nodes (global_factories e) base meta 0 xs = Inr bs"
      "create_fork_node (make_fork_path base) (map (make_branch_path base) [0..<length xs]) [make_join_path base] meta = Inr f"
      "create_join_node (make_join_path base) (map (make_branch_path base) [0..<length xs]) next meta = Inr jn"
      "ex_nodes r = f # bs @ [jn]" "ex_branch_paths r = map (make_branch_path base) [0..<length xs]"
    using assms by (auto simp: expand_exec_array_def ebind_Inr_conv validate_exec_array_Inr Let_def split: if_splits)
  have fj: "nd_path f = base @ ''_fork''" "nd_next f = [base @ ''_join'']" "nd_body f = ForkNode (map (make_branch_path base) [0..<length xs])"
    "nd_path jn = base @ ''_join''" "nd_next jn = next"
    "nd_body jn = JoinNode (map (make_branch_path base) [0..<length xs]) ''error_on_conflict''"
    using r(2,3) by (auto simp: create_fork_node_def create_join_node_def ebind_Inr_conv make_fork_path_def make_join_path_def)
  have "map nd_path bs = map (make_branch_path base) [0..<length xs]" "map nd_next bs = replicate (length xs) []"
    using branch_nodes_facts[OF r(1)]
    by (auto simp: list_all_iff dest: map_eq_imp_length_eq intro!: replicate_eqI)
  then show ?thesis using False r(4,5) fj by simp
qed

text \<open>The expansion of an \<open>exec:\<close> array at \<open>base\<close>: one element becomes the single node \<open>base/branch_0\<close>
  with the given successors; more become a fork whose branches are \<open>base/branch_i\<close> in order, whose
  successor is the join, branch nodes without successors, and a join that waits for exactly these
  branches and carries the given successors.  The paths are distinct and none of them is \<open>base\<close>, so no
  other node can name the expanded node as its successor.\<close>

theorem exec_expansion:
  "case expand_exec_array (global_factories e) base (JArr xs) next meta 0 of
     Inl x \<Rightarrow> True
   | Inr r \<Rightarrow> (let branches = map (make_branch_path base) [0..<length xs] in
       ex_branch_paths r = branches \<and> base \<notin> set (map nd_path (ex_nodes r)) \<and> distinct (map nd_path (ex_nodes r)) \<and>
       (if length xs = 1 then map nd_path (ex_nodes r) = branches \<and> map nd_next (ex_nodes r) = [next]
        else map nd_path (ex_nodes r) = (base @ ''_fork'') # branches @ [base @ ''_join''] \<and>
             map nd_next (ex_nodes r) = [base @ ''_join''] # replicate (length xs) [] @ [next] \<and>
             nd_body (hd (ex_nodes r)) = ForkNode branches \<and>
             nd_body (last (ex_nodes r)) = JoinNode branches ''error_on_conflict''))"
proof (cases "expand_exec_array (global_factories e) base (JArr xs) next meta 0")
  case (Inr r)
  have b: "base \<noteq> make_branch_path base i" for i by (simp add: make_branch_path_def)
  have d: "base @ ''_fork'' \<noteq> make_branch_path base i" "base @ ''_join'' \<noteq> make_branch_path base i" for i
    by (simp_all add: make_branch_path_def)
  let ?bs = "map (make_branch_path base) [0..<length xs]"
  obtain ps ns where p: "map nd_path (ex_nodes r) = ps" and n: "map nd_next (ex_nodes r) = ns" by simp
  note f = exec_expansion_nodes[OF Inr, unfolded p n]
  have "base \<notin> set ps \<and> distinct ps"
  proof (cases "length xs = 1")
    case True
    with f show ?thesis using b by simp
  next
    case False
    with f have "ps = (base @ ''_fork'') # ?bs @ [base @ ''_join'']" by simp
    moreover have "base \<notin> set ?bs" "base @ ''_fork'' \<notin> set ?bs" "base @ ''_join'' \<notin> set ?bs" "distinct ?bs"
      using b d by (auto simp: branch_path_distinct)
    ultimately show ?thesis by simp
  qed
  then show ?thesis using f unfolding Inr sum.case Let_def p n by simp
qed simp

text \<open>The nodes of a graph: one at its path; or nodes whose path continues its path after a slash; or the
  expansion of an exec array at its path, whose fork and join stand beside it.\<close>

definition strictly_below :: "string \<Rightarrow> node \<Rightarrow> bool" where
  "strictly_below p nd \<longleftrightarrow> prefix (p @ ''/'') (nd_path nd)"

definition graph_nodes_ok :: "string \<Rightarrow> node list \<Rightarrow> bool" where
  "graph_nodes_ok p nds \<longleftrightarrow> list_all (strictly_below p) nds \<or> map nd_path nds = [p] \<or>
     map nd_path nds = (p @ ''_fork'') # map (make_branch_path p) [0..<length nds - 2] @ [p @ ''_join'']"

definition graph_ok :: "parsed_graph \<Rightarrow> bool" where
  "graph_ok g \<longleftrightarrow> is_valid_node_path (pg_path g) \<and> pg_path g \<noteq> ''/__meta__'' \<and> graph_nodes_ok (pg_path g) (pg_nodes g)"

lemma expanded_ok:
  assumes "try_expand_exec_node (global_factories e) path j = Inr (Some nds)"
  shows "graph_nodes_ok path nds"
proof -
  from assms obtain ns meta arr r where x: "expand_exec_array (global_factories e) path arr ns meta 0 = Inr r"
      and n: "nds = ex_nodes r"
    by (auto simp: try_expand_exec_node_def ebind_Inr_conv split: if_splits)
  then obtain xs where xs: "arr = JArr xs"
    by (cases arr) (auto simp: expand_exec_array_def validate_exec_array_def)
  have f: "if length xs = 1 then map nd_path nds = [make_branch_path path 0]
    else map nd_path nds = (path @ ''_fork'') # map (make_branch_path path) [0..<length xs] @ [path @ ''_join'']"
    using exec_expansion_nodes[OF x[unfolded xs]] unfolding n by (auto split: if_splits)
  show ?thesis
  proof (cases "length xs = 1")
    case True
    then obtain nd where "nds = [nd]" "nd_path nd = make_branch_path path 0" using f by (cases nds) auto
    then show ?thesis by (simp add: graph_nodes_ok_def strictly_below_def make_branch_path_def)
  next
    case False
    then have m: "map nd_path nds = (path @ ''_fork'') # map (make_branch_path path) [0..<length xs] @ [path @ ''_join'']"
      using f by simp
    from arg_cong[OF m, of length] have "length nds - 2 = length xs" by simp
    then show ?thesis using m by (simp add: graph_nodes_ok_def)
  qed
qed

lemma prefix_slash:
  assumes "graph_nodes_ok (path @ CHR ''/'' # i) nds"
  shows "list_all (strictly_below path) nds"
proof -
  let ?p = "path @ CHR ''/'' # i"
  have b: "strictly_below path nd" if "prefix ?p (nd_path nd)" for nd
    using that by (auto simp: strictly_below_def prefix_def)
  have m: "list_all (strictly_below path) nds" if "\<forall>q \<in> set (map nd_path nds). prefix ?p q"
    using that b by (simp add: list_all_iff)
  consider "list_all (strictly_below ?p) nds" | "map nd_path nds = [?p]"
    | "map nd_path nds = (?p @ ''_fork'') # map (make_branch_path ?p) [0..<length nds - 2] @ [?p @ ''_join'']"
    using assms by (auto simp: graph_nodes_ok_def)
  then show ?thesis
  proof cases
    case 1
    then show ?thesis using b by (auto simp: list_all_iff strictly_below_def prefix_def)
  next
    case 2
    show ?thesis by (rule m) (simp only: 2, simp)
  next
    case 3
    have "\<forall>q \<in> set ((?p @ ''_fork'') # map (make_branch_path ?p) [0..<length nds - 2] @ [?p @ ''_join'']). prefix ?p q"
      by (auto simp: make_branch_path_def prefix_def)
    then show ?thesis by (intro m) (simp only: 3)
  qed
qed

lemma one_node_ok:
  assumes "create_node_from_json (global_factories e) path j = Inr nd"
  shows "graph_nodes_ok path (case nd of None \<Rightarrow> [] | Some n \<Rightarrow> [n])"
  using assms by (auto dest!: create_node_from_json_path simp: graph_nodes_ok_def split: option.splits)

lemma subgraph_nodes_below:
  "subgraph_nodes (global_factories e) path js = Inr nds \<Longrightarrow> list_all (strictly_below path) nds"
proof (induction js arbitrary: nds)
  case (Cons j js)
  let ?p = "\<lambda>i. path @ CHR ''/'' # i"
  from Cons.prems obtain i x nd' rest where i: "jvalue_str ''id'' [] j = Inr i"
      and x: "try_expand_exec_node (global_factories e) (?p i) j = Inr x"
      and n: "(case x of Some nds \<Rightarrow> Inr nds
         | None \<Rightarrow> ebind (create_node_from_json (global_factories e) (?p i) j)
             (\<lambda>nd. Inr (case nd of None \<Rightarrow> [] | Some n \<Rightarrow> [n]))) = Inr nd'"
      and r: "subgraph_nodes (global_factories e) path js = Inr rest" "nds = nd' @ rest"
    by (auto simp: ebind_Inr_conv Let_def split: if_splits)
  have "graph_nodes_ok (?p i) nd'"
  proof (cases x)
    case None
    with n obtain nd where "create_node_from_json (global_factories e) (?p i) j = Inr nd"
        "nd' = (case nd of None \<Rightarrow> [] | Some n \<Rightarrow> [n])" by (auto simp: ebind_Inr_conv)
    then show ?thesis using one_node_ok by auto
  next
    case (Some nds')
    with x n show ?thesis using expanded_ok[of e "?p i" j] by auto
  qed
  from prefix_slash[OF this] show ?case using Cons.IH[OF r(1)] r(2) by simp
qed simp

lemma graph_header_facts: "graph_header e path j b = Inr g \<Longrightarrow> pg_path g = path \<and> pg_budget g = None"
  by (auto simp: graph_header_def ebind_Inr_conv)

lemma subgraph_block_facts:
  assumes "parse_subgraph_block e (global_factories e) path j = Inr g"
  shows "pg_path g = path \<and> pg_budget g = None \<and> graph_nodes_ok path (pg_nodes g)"
  using assms by (auto simp: parse_subgraph_block_def graph_nodes_ok_def ebind_Inr_conv subgraph_nodes_below dest!: graph_header_facts
      split: option.splits json.splits)

lemma node_block_facts:
  assumes "parse_node_block e (global_factories e) path j = Inr (Some g)"
  shows "pg_path g = path \<and> pg_budget g = None \<and> graph_nodes_ok path (pg_nodes g)"
proof -
  from assms obtain g0 x where h: "graph_header e path j False = Inr g0"
      and x: "try_expand_exec_node (global_factories e) path j = Inr x"
      and c: "(case x of Some nds \<Rightarrow> Inr (Some (g0 \<lparr> pg_nodes := nds \<rparr>))
        | None \<Rightarrow> ebind (create_node_from_json (global_factories e) path j) (\<lambda>nd.
            Inr (case nd of None \<Rightarrow> None | Some n \<Rightarrow> Some (g0 \<lparr> pg_nodes := [n] \<rparr>)))) = Inr (Some g)"
    by (auto simp: parse_node_block_def ebind_Inr_conv)
  show ?thesis
  proof (cases x)
    case None
    with c obtain n where "create_node_from_json (global_factories e) path j = Inr (Some n)" "g = g0 \<lparr> pg_nodes := [n] \<rparr>"
      by (auto simp: ebind_Inr_conv split: option.splits)
    then show ?thesis using graph_header_facts[OF h] one_node_ok by fastforce
  next
    case (Some nds)
    then show ?thesis using c x graph_header_facts[OF h] expanded_ok[of e path j nds] by auto
  qed
qed

lemma parse_block_body_facts:
  assumes "parse_block_body e (global_factories e) now path j = Inr (gs, b)"
  shows "gs = [] \<or> path \<noteq> ''/__meta__'' \<and> (\<exists>g. gs = [g] \<and> pg_path g = path \<and> pg_budget g = None \<and>
    graph_nodes_ok path (pg_nodes g))"
  using assms by (auto simp: parse_block_body_def ebind_Inr_conv dest!: subgraph_block_facts node_block_facts
      split: if_splits option.splits)

lemma parse_block_facts:
  assumes "parse_block e (global_factories e) now path text = Inr (gs, b)"
  shows "gs = [] \<or> (\<exists>g. gs = [g] \<and> pg_path g = path \<and> pg_budget g = None \<and> graph_ok g)"
proof -
  from assms obtain j where "is_valid_node_path path" "parse_block_body e (global_factories e) now path j = Inr (gs, b)"
    by (auto simp: parse_block_def ebind_Inr_conv split: if_splits sum.splits)
  then show ?thesis using parse_block_body_facts[of e now path j gs b] by (auto simp: graph_ok_def)
qed

lemma parse_block_names:
  "parse_block e reg now path text = Inl x \<Longrightarrow> contains_sub path (what x)"
proof -
  assume "parse_block e reg now path text = Inl x"
  then consider "x = Runtime_error (''Invalid node path format: '' @ path)"
    | pre m where "x = block_error pre path m"
    by (auto simp: parse_block_def split: if_splits sum.splits)
  then show ?thesis
  proof cases
    case 1
    then show ?thesis using contains_sub_append[of path "''Invalid node path format: ''" "[]"] by simp
  next
    case (2 pre m)
    then show ?thesis using contains_sub_append[of path "pre @ [CHR 0x27]" "[CHR 0x27] @ '': '' @ m"] by (simp add: block_error_def quoted_def)
  qed
qed

lemma parse_blocks_facts:
  "parse_blocks e (global_factories e) now bs acc = Inr (gs, b) \<Longrightarrow>
     \<exists>gs'. gs = fst acc @ gs' \<and> subseq (map pg_path gs') (map fst bs) \<and> list_all graph_ok gs' \<and>
       list_all (\<lambda>g. pg_budget g = None) gs'"
proof (induction bs arbitrary: acc)
  case (Cons blk bs)
  obtain path t where blk: "blk = (path, t)" by (cases blk)
  from Cons.prems obtain gs1 b1 where p: "parse_block e (global_factories e) now path t = Inr (gs1, b1)"
      and r: "parse_blocks e (global_factories e) now bs (fst acc @ gs1, case b1 of None \<Rightarrow> snd acc | Some _ \<Rightarrow> b1) = Inr (gs, b)"
    by (auto simp: blk ebind_Inr_conv)
  from Cons.IH[OF r] obtain gs' where g: "gs = fst acc @ gs1 @ gs'" "subseq (map pg_path gs') (map fst bs)"
      "list_all graph_ok gs'" "list_all (\<lambda>g. pg_budget g = None) gs'" by auto
  then show ?case using parse_block_facts[OF p] blk by (intro exI[of _ "gs1 @ gs'"]) auto
qed simp

lemma parse_blocks_names:
  "parse_blocks e reg now bs acc = Inl x \<Longrightarrow> list_ex (\<lambda>(p, _). contains_sub p (what x)) bs"
proof (induction bs arbitrary: acc)
  case (Cons blk bs)
  then show ?case by (cases blk) (auto simp: ebind_Inl_conv dest: parse_block_names)
qed simp

text \<open>C7. What a parsed document consists of.  The graphs come from blocks, in their order; their paths are valid
  and never \<open>/__meta__\<close>; the nodes of a graph are one node at its path, or nodes whose paths continue it after a
  slash, or the fork, the branches in order and the join of an exec array at its path (the fork and the join stand
  beside it, at path_fork and path_join); and only the first graph may carry a budget.  A document that is refused is
  refused with a text that names the path of a block.\<close>

theorem parsed_documents:
  "case parse_from_string e (global_factories e) now md of
     Inl x \<Rightarrow> list_ex (\<lambda>(p, _). contains_sub p (what x)) (extract_pathed_blocks md)
   | Inr gs \<Rightarrow> subseq (map pg_path gs) (map fst (extract_pathed_blocks md)) \<and> list_all graph_ok gs \<and>
       list_all (\<lambda>g. pg_budget g = None) (tl gs)"
proof (cases "parse_blocks e (global_factories e) now (extract_pathed_blocks md) ([], None)")
  case (Inl x)
  then show ?thesis using parse_blocks_names[OF Inl] by (simp add: parse_from_string_def)
next
  case (Inr r)
  obtain gs b where r: "r = (gs, b)" by (cases r)
  from parse_blocks_facts[OF Inr[unfolded r]]
  have f: "subseq (map pg_path gs) (map fst (extract_pathed_blocks md))" "list_all graph_ok gs"
    "list_all (\<lambda>g. pg_budget g = None) gs" by auto
  have "map pg_path (attach_budget b gs) = map pg_path gs" "list_all graph_ok (attach_budget b gs)"
    "list_all (\<lambda>g. pg_budget g = None) (tl (attach_budget b gs))"
    using f by (auto simp: attach_budget_def graph_ok_def split: option.splits list.splits)
  then show ?thesis using f(1) Inr r by (simp add: parse_from_string_def)
qed

end
