(* ===== verification/Streams.thy ===== *)
theory Streams
  imports Budget Bus Coordinator
begin

text \<open>
  Streams of language-model tokens: common/llm/llm_types.h (errors, requests, results), sse_stream.cpp
  (the decoder of server-sent events), common/runtime/stream_handle.cpp (the two handles between a
  producer and a consumer) and common/llm/stream_to_bus.cpp (a stream turned into bus events).  A
  method of a handle holds its mutex throughout; a push that has to wait is not a step.
\<close>

section \<open>LLM types\<close>

datatype llm_code = Network_error | Rate_limited | Authentication_error | Llm_cancelled | Invalid_request |
  Server_error | Context_overflow | Llm_unknown

record llm_error =
  le_code :: llm_code
  le_message :: string
  le_retry_after :: "int option"

definition llm_err :: "llm_code \<Rightarrow> string \<Rightarrow> llm_error" where
  "llm_err c m = \<lparr> le_code = c, le_message = m, le_retry_after = None \<rparr>"

definition retryable :: "llm_error \<Rightarrow> bool" where
  "retryable e \<longleftrightarrow> le_code e = Network_error \<or> le_code e = Rate_limited \<or> le_code e = Server_error"

fun llm_code_number :: "llm_code \<Rightarrow> int" where
  "llm_code_number Network_error = 0"
| "llm_code_number Rate_limited = 1"
| "llm_code_number Authentication_error = 2"
| "llm_code_number Llm_cancelled = 3"
| "llm_code_number Invalid_request = 4"
| "llm_code_number Server_error = 5"
| "llm_code_number Context_overflow = 6"
| "llm_code_number Llm_unknown = 7"

record generation_result =
  gr_text :: string
  gr_prompt_tokens :: int
  gr_completion_tokens :: int
  gr_finish_reason :: string

definition empty_result :: generation_result where
  "empty_result = \<lparr> gr_text = [], gr_prompt_tokens = 0, gr_completion_tokens = 0, gr_finish_reason = [] \<rparr>"

section \<open>The decoder of server-sent events\<close>

record sse_event =
  se_event_type :: string
  se_data :: string
  se_id :: "string option"
  se_retry_ms :: "int option"

record sse_decoder =
  sd_queue :: "sse_event list"
  sd_buffer :: string
  sd_current :: sse_event
  sd_current_data :: string
  sd_done :: bool
  sd_error :: string

definition new_sse_event :: sse_event where
  "new_sse_event = \<lparr> se_event_type = [], se_data = [], se_id = None, se_retry_ms = None \<rparr>"

definition new_decoder :: sse_decoder where
  "new_decoder = \<lparr> sd_queue = [], sd_buffer = [], sd_current = new_sse_event, sd_current_data = [],
     sd_done = False, sd_error = [] \<rparr>"

text \<open>What the implicit move leaves behind: empty strings (as libstdc++ does), engaged optionals.\<close>

definition moved_from :: "sse_event \<Rightarrow> sse_event" where
  "moved_from e = \<lparr> se_event_type = [], se_data = [], se_id = map_option (\<lambda>_. []) (se_id e),
     se_retry_ms = se_retry_ms e \<rparr>"

definition dispatch_event :: "sse_decoder \<Rightarrow> sse_decoder" where
  "dispatch_event s =
     (let cur = sd_current s;
          has_payload = (sd_current_data s \<noteq> [] \<or> se_id cur \<noteq> None \<or> se_retry_ms cur \<noteq> None)
      in if \<not> has_payload \<and> se_event_type cur = [] then s
         else
           let cur = (if sd_current_data s \<noteq> [] then cur \<lparr> se_data := sd_current_data s \<rparr> else cur);
               s = s \<lparr> sd_current_data := [] \<rparr>
           in if se_data cur = ''[DONE]'' then s \<lparr> sd_done := True, sd_current := new_sse_event \<rparr>
              else if se_data cur \<noteq> [] then s \<lparr> sd_queue := sd_queue s @ [cur], sd_current := moved_from cur \<rparr>
              else s \<lparr> sd_current := new_sse_event \<rparr>)"

text \<open>\<open>std::stoi\<close>, or None when it throws.\<close>

definition stoi :: "string \<Rightarrow> int option" where
  "stoi s = (case stoll s of None \<Rightarrow> None
     | Some (v, _) \<Rightarrow> if - (2 ^ 31) \<le> v \<and> v < 2 ^ 31 then Some v else None)"

definition field_of :: "string \<Rightarrow> string \<times> string" where
  "field_of line = (takeWhile (\<lambda>c. c \<noteq> CHR '':'') line,
     case drop 1 (dropWhile (\<lambda>c. c \<noteq> CHR '':'') line) of
       [] \<Rightarrow> []
     | c # v \<Rightarrow> if c = CHR '' '' then v else c # v)"

definition process_line :: "string \<Rightarrow> sse_decoder \<Rightarrow> sse_decoder" where
  "process_line line s =
     (if line = [] then dispatch_event s
      else if hd line = CHR '':'' then s
      else case field_of line of (field, value) \<Rightarrow>
        if field = ''event'' then s \<lparr> sd_current := (sd_current s) \<lparr> se_event_type := value \<rparr> \<rparr>
        else if field = ''data'' then
          s \<lparr> sd_current_data := (if sd_current_data s \<noteq> [] then sd_current_data s @ ''\<newline>'' else []) @ value \<rparr>
        else if field = ''id'' then s \<lparr> sd_current := (sd_current s) \<lparr> se_id := Some value \<rparr> \<rparr>
        else if field = ''retry'' then
          (case stoi value of
             Some n \<Rightarrow> if 0 \<le> n then s \<lparr> sd_current := (sd_current s) \<lparr> se_retry_ms := Some n \<rparr> \<rparr> else s
           | None \<Rightarrow> s)
        else s)"

definition strip_cr :: "string \<Rightarrow> string" where
  "strip_cr line = (if line \<noteq> [] \<and> last line = CHR 0x0D then butlast line else line)"

function consume_lines :: "string \<Rightarrow> sse_decoder \<Rightarrow> sse_decoder" where
  "consume_lines b s =
     (if CHR ''\<newline>'' \<notin> set b then s \<lparr> sd_buffer := b \<rparr>
      else consume_lines (drop 1 (dropWhile (\<lambda>c. c \<noteq> CHR ''\<newline>'') b))
             (process_line (strip_cr (takeWhile (\<lambda>c. c \<noteq> CHR ''\<newline>'') b)) s))"
  by pat_completeness auto
termination
proof (relation "measure (\<lambda>(b, s). length b)")
  fix b :: string and s :: sse_decoder
  assume "\<not> CHR ''\<newline>'' \<notin> set b"
  then have "b \<noteq> []" by auto
  then show "((drop 1 (dropWhile (\<lambda>c. c \<noteq> CHR ''\<newline>'') b),
      process_line (strip_cr (takeWhile (\<lambda>c. c \<noteq> CHR ''\<newline>'') b)) s), b, s) \<in> measure (\<lambda>(b, s). length b)"
    using length_dropWhile_le[of "\<lambda>c. c \<noteq> CHR ''\<newline>''" b] by (cases b) (auto simp: less_Suc_eq_le)
qed simp

declare consume_lines.simps [simp del]

definition feed :: "string \<Rightarrow> sse_decoder \<Rightarrow> sse_decoder" where
  "feed chunk s = (if chunk = [] then s else consume_lines (sd_buffer s @ chunk) s)"

definition sse_next :: "sse_decoder \<Rightarrow> sse_event option \<times> sse_decoder" where
  "sse_next s = (case sd_queue s of [] \<Rightarrow> (None, s) | e # q \<Rightarrow> (Some e, s \<lparr> sd_queue := q \<rparr>))"

definition sse_set_error :: "string \<Rightarrow> sse_decoder \<Rightarrow> sse_decoder" where
  "sse_set_error msg s = (if sd_error s = [] then s \<lparr> sd_error := msg \<rparr> else s)"

section \<open>Handles\<close>

record stream_handle =
  sh_queue :: "string list"
  sh_active :: bool
  sh_error :: "llm_error option"

definition new_handle :: stream_handle where
  "new_handle = \<lparr> sh_queue = [], sh_active = True, sh_error = None \<rparr>"

definition handle_next :: "bool \<Rightarrow> stream_handle \<Rightarrow> string option \<times> stream_handle" where
  "handle_next stop h =
     (if stop then (None, h \<lparr> sh_active := False, sh_error := Some (llm_err Llm_cancelled ''stop_token requested'') \<rparr>)
      else case sh_queue h of [] \<Rightarrow> (None, h) | c # q \<Rightarrow> (Some c, h \<lparr> sh_queue := q \<rparr>))"

definition buffered_push :: "string \<Rightarrow> stream_handle \<Rightarrow> stream_handle" where
  "buffered_push c h = (if \<not> sh_active h then h else h \<lparr> sh_queue := sh_queue h @ [c] \<rparr>)"

definition handle_close :: "llm_error option \<Rightarrow> stream_handle \<Rightarrow> stream_handle" where
  "handle_close err h = h \<lparr> sh_active := False, sh_error := (if err \<noteq> None then err else sh_error h) \<rparr>"

text \<open>The second handle: bounded, with a callback, whose invocations are recorded.\<close>

record callback_handle =
  ch_handle :: stream_handle
  ch_on_chunk :: bool
  ch_called :: "string list"

definition kCapacity :: nat where
  "kCapacity = 32"

definition new_callback_handle :: "bool \<Rightarrow> callback_handle" where
  "new_callback_handle cb = \<lparr> ch_handle = new_handle, ch_on_chunk = cb, ch_called = [] \<rparr>"

definition set_callback :: "bool \<Rightarrow> callback_handle \<Rightarrow> callback_handle" where
  "set_callback cb h = h \<lparr> ch_on_chunk := cb \<rparr>"

definition callback_next :: "bool \<Rightarrow> callback_handle \<Rightarrow> string option \<times> callback_handle" where
  "callback_next stop h = (case handle_next stop (ch_handle h) of (r, h') \<Rightarrow> (r, h \<lparr> ch_handle := h' \<rparr>))"

text \<open>None: the pushing thread waits.\<close>

definition callback_push :: "string \<Rightarrow> callback_handle \<Rightarrow> callback_handle option" where
  "callback_push c h =
     (if sh_active (ch_handle h) \<and> kCapacity \<le> length (sh_queue (ch_handle h)) then None
      else if \<not> sh_active (ch_handle h) then Some h
      else Some (h \<lparr> ch_handle := (ch_handle h) \<lparr> sh_queue := sh_queue (ch_handle h) @ [c] \<rparr>,
                     ch_called := (if ch_on_chunk h then ch_called h @ [c] else ch_called h) \<rparr>))"

definition callback_close :: "llm_error option \<Rightarrow> callback_handle \<Rightarrow> callback_handle" where
  "callback_close err h = h \<lparr> ch_handle := handle_close err (ch_handle h) \<rparr>"

section \<open>Streams onto the bus\<close>

fun error_code_name :: "llm_code \<Rightarrow> string" where
  "error_code_name Network_error = ''NetworkError''"
| "error_code_name Rate_limited = ''RateLimited''"
| "error_code_name Authentication_error = ''AuthenticationError''"
| "error_code_name Llm_cancelled = ''Cancelled''"
| "error_code_name Invalid_request = ''InvalidRequest''"
| "error_code_name Server_error = ''ServerError''"
| "error_code_name Context_overflow = ''ContextOverflow''"
| "error_code_name Llm_unknown = ''Unknown''"

definition make_token_payload :: "string \<Rightarrow> string \<Rightarrow> tool_result" where
  "make_token_payload rid t = tr_success (jobj [(''token'', JStr t), (''request_id'', JStr rid)])
     (jobj [(''event'', JStr ''llm.token'')])"

definition make_done_payload :: "string \<Rightarrow> string \<Rightarrow> nat \<Rightarrow> string \<Rightarrow> tool_result" where
  "make_done_payload rid reason n text = tr_success
     (jobj [(''request_id'', JStr rid), (''finish_reason'', JStr reason), (''token_count'', JInt (int n)), (''text'', JStr text)])
     (jobj [(''event'', JStr ''llm.token.done'')])"

definition make_error_payload :: "string \<Rightarrow> llm_error \<Rightarrow> tool_result" where
  "make_error_payload rid e = tr_error Unknown (le_message e)
     (jset_opt ''retry_after_sec'' (map_option JInt (le_retry_after e))
       (jobj [(''event'', JStr ''llm.token.error''), (''request_id'', JStr rid),
              (''code'', JInt (llm_code_number (le_code e))), (''code_name'', JStr (error_code_name (le_code e)))]))"

definition payload_event :: "string \<Rightarrow> tool_result \<Rightarrow> event_builder" where
  "payload_event topic p = eb_meta (tr_meta p) (eb_args (tr_data p) (eb_new topic))"

definition token_event :: "string \<Rightarrow> string \<Rightarrow> event_builder" where
  "token_event rid t = payload_event ''llm.token'' (make_token_payload rid t)"

definition error_event :: "string \<Rightarrow> llm_error \<Rightarrow> event_builder" where
  "error_event rid e = payload_event ''llm.token.error'' (make_error_payload rid e)"

definition done_event :: "string \<Rightarrow> string \<Rightarrow> nat \<Rightarrow> string \<Rightarrow> event_builder" where
  "done_event rid reason n text = payload_event ''llm.token.done'' (make_done_payload rid reason n text)"

definition thrown_event :: "string \<Rightarrow> exc \<Rightarrow> event_builder" where
  "thrown_event rid x = error_event rid (llm_err Llm_cancelled (''stream_to_bus exception: '' @ what x))"

text \<open>A stream is four observations of a world, in which the stop request is one more.\<close>

record 'w llm_stream =
  ls_active :: "'w \<Rightarrow> bool"
  ls_stop_requested :: "'w \<Rightarrow> bool"
  ls_next :: "'w \<Rightarrow> string option res \<times> 'w"
  ls_error :: "'w \<Rightarrow> llm_error option"

text \<open>The loop: whether it was cancelled, the text, the number of tokens and the events.\<close>

fun pump :: "'w llm_stream \<Rightarrow> string \<Rightarrow> nat \<Rightarrow> string \<Rightarrow> nat \<Rightarrow> event_builder list \<Rightarrow> 'w \<Rightarrow>
    (bool \<times> string \<times> nat \<times> event_builder list \<times> 'w) option" where
  "pump str rid 0 text n evs w = None"
| "pump str rid (Suc k) text n evs w =
     (if \<not> ls_active str w then Some (False, text, n, evs, w)
      else if ls_stop_requested str w then Some (True, text, n, evs, w)
      else case ls_next str w of
             (Inl x, w') \<Rightarrow> Some (False, text, n, evs @ [thrown_event rid x], w')
           | (Inr None, w') \<Rightarrow> Some (False, text, n, evs, w')
           | (Inr (Some t), w') \<Rightarrow> pump str rid k (text @ t) (Suc n) (evs @ [token_event rid t]) w')"

definition run_stream_to_bus :: "'w llm_stream \<Rightarrow> string \<Rightarrow> nat \<Rightarrow> 'w \<Rightarrow>
    (generation_result \<times> event_builder list \<times> 'w) option" where
  "run_stream_to_bus str rid fuel w = map_option (\<lambda>(cancelled, text, n, evs, w').
     let reason = (if cancelled then ''cancelled'' else ''stop'') in
     (\<lparr> gr_text = text, gr_prompt_tokens = 0, gr_completion_tokens = wrap32 (int n), gr_finish_reason = reason \<rparr>,
      evs @ [case ls_error str w' of Some e \<Rightarrow> error_event rid e | None \<Rightarrow> done_event rid reason n text], w'))
     (pump str rid fuel [] 0 [] w)"

section \<open>How the decoder sees chunks\<close>

lemma process_line_buffer: "process_line l (s \<lparr> sd_buffer := b \<rparr>) = (process_line l s) \<lparr> sd_buffer := b \<rparr>"
proof -
  have "dispatch_event (s \<lparr> sd_buffer := b \<rparr>) = (dispatch_event s) \<lparr> sd_buffer := b \<rparr>"
    by (cases "sd_current_data s = []") (simp_all add: dispatch_event_def Let_def)
  then show ?thesis
    unfolding process_line_def by (cases "field_of l"; cases "stoi (snd (field_of l))") (simp_all cong: if_cong)
qed

lemma consume_lines_none [simp]: "CHR ''\<newline>'' \<notin> set b \<Longrightarrow> consume_lines b s = s \<lparr> sd_buffer := b \<rparr>"
  by (simp add: consume_lines.simps[of b])

lemma consume_lines_line [simp]:
  assumes "CHR ''\<newline>'' \<notin> set l"
  shows "consume_lines (l @ CHR ''\<newline>'' # r) s = consume_lines r (process_line (strip_cr l) s)"
proof -
  have "takeWhile (\<lambda>c. c \<noteq> CHR ''\<newline>'') (l @ CHR ''\<newline>'' # r) = l"
    "dropWhile (\<lambda>c. c \<noteq> CHR ''\<newline>'') (l @ CHR ''\<newline>'' # r) = CHR ''\<newline>'' # r"
    using assms by (subst takeWhile_append2 dropWhile_append2, auto)+
  then show ?thesis by (subst consume_lines.simps) simp
qed

lemma first_line:
  assumes "CHR ''\<newline>'' \<in> set b"
  obtains l r where "b = l @ CHR ''\<newline>'' # r" "CHR ''\<newline>'' \<notin> set l"
  using assms by (metis split_list_first)

lemma consume_lines_buffer_irrelevant: "consume_lines b (s \<lparr> sd_buffer := x \<rparr>) = consume_lines b s"
proof (induction b arbitrary: s rule: length_induct)
  case (1 b)
  show ?case
  proof (cases "CHR ''\<newline>'' \<in> set b")
    case True
    then obtain l r where b: "b = l @ CHR ''\<newline>'' # r" "CHR ''\<newline>'' \<notin> set l" by (rule first_line)
    then show ?thesis using 1 by (simp add: process_line_buffer)
  qed simp
qed

lemma consume_lines_rest: "CHR ''\<newline>'' \<notin> set (sd_buffer (consume_lines b s))"
proof (induction b arbitrary: s rule: length_induct)
  case (1 b)
  show ?case
  proof (cases "CHR ''\<newline>'' \<in> set b")
    case True
    then obtain l r where b: "b = l @ CHR ''\<newline>'' # r" "CHR ''\<newline>'' \<notin> set l" by (rule first_line)
    then show ?thesis using 1 by simp
  qed simp
qed

lemma consume_lines_append:
  "consume_lines (a @ b) s = consume_lines (sd_buffer (consume_lines a s) @ b) (consume_lines a s)"
proof (induction a arbitrary: s rule: length_induct)
  case (1 a)
  show ?case
  proof (cases "CHR ''\<newline>'' \<in> set a")
    case True
    then obtain l r where a: "a = l @ CHR ''\<newline>'' # r" "CHR ''\<newline>'' \<notin> set l" by (rule first_line)
    then show ?thesis using 1 by simp
  next
    case False
    then show ?thesis by (simp add: consume_lines_buffer_irrelevant)
  qed
qed

lemma feed_feed:
  assumes "CHR ''\<newline>'' \<notin> set (sd_buffer s)"
  shows "feed b (feed a s) = feed (a @ b) s" "CHR ''\<newline>'' \<notin> set (sd_buffer (feed a s))"
proof -
  show "feed b (feed a s) = feed (a @ b) s"
    using consume_lines_append[of "sd_buffer s @ a" b s] assms by (auto simp: feed_def)
  show "CHR ''\<newline>'' \<notin> set (sd_buffer (feed a s))" using assms by (simp add: feed_def consume_lines_rest)
qed

lemma fold_feed:
  assumes "CHR ''\<newline>'' \<notin> set (sd_buffer s)"
  shows "fold feed chunks s = feed (concat chunks) s"
  using assms
proof (induction chunks arbitrary: s)
  case (Cons c chunks)
  then show ?case using feed_feed[OF Cons.prems] by simp
qed (simp add: feed_def)

text \<open>Writing events the way the format prescribes: the type, one data line per line of the payload, and an
  empty line.\<close>

fun join_lines :: "string list \<Rightarrow> string" where
  "join_lines [] = []"
| "join_lines [l] = l"
| "join_lines (l # ls) = l @ ''\<newline>'' @ join_lines ls"

definition print_field :: "string \<Rightarrow> string \<Rightarrow> string" where
  "print_field f v = f @ '': '' @ v @ ''\<newline>''"

definition print_sse :: "string \<times> string list \<Rightarrow> string" where
  "print_sse e = (if fst e = [] then [] else print_field ''event'' (fst e)) @
     concat (map (print_field ''data'') (snd e)) @ ''\<newline>''"

definition line_ok :: "string \<Rightarrow> bool" where
  "line_ok l \<longleftrightarrow> CHR ''\<newline>'' \<notin> set l \<and> (l = [] \<or> last l \<noteq> CHR 0x0D)"

definition sse_ok :: "string \<times> string list \<Rightarrow> bool" where
  "sse_ok e \<longleftrightarrow> line_ok (fst e) \<and> list_all line_ok (snd e) \<and> snd e \<noteq> [] \<and> hd (snd e) \<noteq> [] \<and> snd e \<noteq> [''[DONE]'']"

definition event_of :: "string \<times> string list \<Rightarrow> sse_event" where
  "event_of e = \<lparr> se_event_type = fst e, se_data = join_lines (snd e), se_id = None, se_retry_ms = None \<rparr>"

lemma consume_field:
  assumes "line_ok v" "CHR ''\<newline>'' \<notin> set f" "CHR '':'' \<notin> set f" "f \<noteq> []"
  shows "consume_lines (print_field f v @ r) s = consume_lines r (process_line (f @ '': '' @ v) s)"
    "field_of (f @ '': '' @ v) = (f, v)"
proof -
  have "strip_cr (f @ '': '' @ v) = f @ '': '' @ v" using assms by (auto simp: strip_cr_def line_ok_def)
  moreover have "CHR ''\<newline>'' \<notin> set (f @ '': '' @ v)" using assms by (auto simp: line_ok_def)
  moreover have "print_field f v @ r = (f @ '': '' @ v) @ CHR ''\<newline>'' # r" by (simp add: print_field_def)
  ultimately show "consume_lines (print_field f v @ r) s = consume_lines r (process_line (f @ '': '' @ v) s)"
    using consume_lines_line by metis
  have "takeWhile (\<lambda>c. c \<noteq> CHR '':'') (f @ '': '' @ v) = f" "dropWhile (\<lambda>c. c \<noteq> CHR '':'') (f @ '': '' @ v) = '': '' @ v"
    using assms(3) by (induction f) auto
  then show "field_of (f @ '': '' @ v) = (f, v)" by (simp add: field_of_def)
qed

lemma consume_event_line:
  assumes "line_ok t"
  shows "consume_lines (print_field ''event'' t @ r) s =
    consume_lines r (s \<lparr> sd_current := (sd_current s) \<lparr> se_event_type := t \<rparr> \<rparr>)"
  using consume_field[OF assms, where f = "''event''"] by (simp add: process_line_def)

lemma consume_data_line:
  assumes "line_ok l"
  shows "consume_lines (print_field ''data'' l @ r) s =
    consume_lines r (s \<lparr> sd_current_data := (if sd_current_data s \<noteq> [] then sd_current_data s @ ''\<newline>'' else []) @ l \<rparr>)"
  using consume_field[OF assms, where f = "''data''"] by (simp add: process_line_def)

lemma consume_data_lines:
  "list_all line_ok ls \<Longrightarrow> sd_current_data s \<noteq> [] \<Longrightarrow>
   consume_lines (concat (map (print_field ''data'') ls) @ r) s =
     consume_lines r (s \<lparr> sd_current_data := join_lines (sd_current_data s # ls) \<rparr>)"
proof (induction ls arbitrary: s)
  case (Cons l ls)
  have "join_lines ((d @ ''\<newline>'' @ l) # ls) = d @ ''\<newline>'' @ join_lines (l # ls)" for d by (cases ls) simp_all
  then show ?case using Cons by (simp add: consume_data_line del: join_lines.simps) simp
qed simp

lemma join_lines_done: "join_lines ls = ''[DONE]'' \<Longrightarrow> list_all line_ok ls \<Longrightarrow> ls = [''[DONE]'']"
proof (cases ls rule: join_lines.cases)
  case (3 l l' ls')
  assume "join_lines ls = ''[DONE]''"
  then have "CHR ''\<newline>'' \<in> set ''[DONE]''" using 3 by (metis join_lines.simps(3) in_set_conv_decomp append_Cons append_Nil)
  then show ?thesis by simp
qed auto

lemma consume_sse:
  assumes "sse_ok e" "sd_current s = new_sse_event" "sd_current_data s = []"
  shows "consume_lines (print_sse e @ r) s = consume_lines r (s \<lparr> sd_queue := sd_queue s @ [event_of e] \<rparr>)"
proof -
  obtain t l ls where e: "e = (t, l # ls)" using assms(1) by (cases e; cases "snd e") (auto simp: sse_ok_def)
  have ok: "line_ok t" "line_ok l" "list_all line_ok ls" "l \<noteq> []" "l # ls \<noteq> [''[DONE]'']"
    using assms(1) e by (auto simp: sse_ok_def)
  let ?s1 = "s \<lparr> sd_current := new_sse_event \<lparr> se_event_type := t \<rparr> \<rparr>"
  have "consume_lines (print_sse e @ r) s =
      consume_lines (concat (map (print_field ''data'') (l # ls)) @ ''\<newline>'' @ r) ?s1"
  proof (cases "t = []")
    case True
    then have "?s1 = s" using assms(2) by (simp add: new_sse_event_def)
    then show ?thesis using True e by (simp add: print_sse_def)
  next
    case False
    then show ?thesis using e ok(1) assms(2) by (simp add: print_sse_def consume_event_line)
  qed
  also have "\<dots> = consume_lines (''\<newline>'' @ r) (?s1 \<lparr> sd_current_data := join_lines (l # ls) \<rparr>)"
    using ok assms(3) by (simp add: consume_data_line consume_data_lines del: join_lines.simps)
  also have "\<dots> = consume_lines r (dispatch_event (?s1 \<lparr> sd_current_data := join_lines (l # ls) \<rparr>))"
    using consume_lines_line[of "[]" r] by (simp add: strip_cr_def process_line_def del: join_lines.simps)
  also have "dispatch_event (?s1 \<lparr> sd_current_data := join_lines (l # ls) \<rparr>) =
      s \<lparr> sd_queue := sd_queue s @ [event_of e] \<rparr>"
  proof -
    have "join_lines (l # ls) \<noteq> []" using ok(4) by (cases ls) simp_all
    moreover have "join_lines (l # ls) \<noteq> ''[DONE]''" using join_lines_done[of "l # ls"] ok by auto
    ultimately show ?thesis using assms(2,3) e
      by (simp add: dispatch_event_def Let_def event_of_def moved_from_def new_sse_event_def del: join_lines.simps)
  qed
  finally show ?thesis .
qed

lemma consume_all_sse:
  assumes "list_all sse_ok es" "sd_current s = new_sse_event" "sd_current_data s = []"
  shows "consume_lines (concat (map print_sse es) @ r) s =
    consume_lines r (s \<lparr> sd_queue := sd_queue s @ map event_of es \<rparr>)"
  using assms
proof (induction es arbitrary: s)
  case (Cons e es)
  then show ?case by (simp add: consume_sse)
qed simp

definition print_done :: "bool \<Rightarrow> string" where
  "print_done fin = (if fin then ''data: [DONE]'' @ ''\<newline>\<newline>'' else [])"

lemma consume_done:
  assumes "sd_current s = new_sse_event" "sd_current_data s = []"
  shows "consume_lines (print_done fin) s = s \<lparr> sd_buffer := [], sd_done := (fin \<or> sd_done s) \<rparr>"
proof (cases fin)
  case True
  have "consume_lines (print_done fin) s = consume_lines ''\<newline>'' (s \<lparr> sd_current_data := ''[DONE]'' \<rparr>)"
    using consume_data_line[of "''[DONE]''" "''\<newline>''" s] assms True
    by (simp add: print_done_def print_field_def line_ok_def)
  also have "\<dots> = (dispatch_event (s \<lparr> sd_current_data := ''[DONE]'' \<rparr>)) \<lparr> sd_buffer := [] \<rparr>"
    using consume_lines_line[of "[]" "[]"] by (simp add: strip_cr_def process_line_def)
  finally show ?thesis using assms True
    by (simp add: dispatch_event_def Let_def new_sse_event_def)
qed (simp add: print_done_def)

section \<open>The handles as one contract\<close>

datatype handle_op = Push string | Next bool | Close "llm_error option"

text \<open>Any sequence of operations; a push that would wait is left out.  The chunks delivered and accepted.\<close>

fun handle_run :: "(handle_op \<Rightarrow> 'h \<Rightarrow> (string option \<times> 'h) option) \<Rightarrow> ('h \<Rightarrow> bool) \<Rightarrow> handle_op list \<Rightarrow> 'h \<Rightarrow>
    string list \<times> string list \<times> 'h" where
  "handle_run step act [] h = ([], [], h)"
| "handle_run step act (a # ops) h = (case step a h of
       None \<Rightarrow> handle_run step act ops h
     | Some (r, h') \<Rightarrow> (case handle_run step act ops h' of (d, acc, h'') \<Rightarrow>
         ((case r of None \<Rightarrow> [] | Some c \<Rightarrow> [c]) @ d,
          (case a of Push c \<Rightarrow> if act h then [c] else [] | _ \<Rightarrow> []) @ acc, h'')))"

locale handle_contract =
  fixes step :: "handle_op \<Rightarrow> 'h \<Rightarrow> (string option \<times> 'h) option" and view :: "'h \<Rightarrow> stream_handle"
  assumes push_view: "step (Push c) h = Some (r, h') \<Longrightarrow> r = None \<and> view h' = buffered_push c (view h)"
    and next_view: "step (Next stop) h = Some (r, h') \<Longrightarrow> (r, view h') = handle_next stop (view h)"
    and close_view: "step (Close err) h = Some (r, h') \<Longrightarrow> r = None \<and> view h' = handle_close err (view h)"
begin

lemma step_active: "step a h = Some (r, h') \<Longrightarrow> sh_active (view h') \<Longrightarrow> sh_active (view h)"
  by (cases a) (auto dest!: push_view next_view close_view
      simp: buffered_push_def handle_next_def handle_close_def split: if_splits list.splits)

lemma fifo:
  "handle_run step (\<lambda>h. sh_active (view h)) ops h = (d, acc, h') \<Longrightarrow>
     d @ sh_queue (view h') = sh_queue (view h) @ acc"
proof (induction ops arbitrary: h d acc)
  case (Cons a ops)
  show ?case
  proof (cases "step a h")
    case None
    then show ?thesis using Cons by simp
  next
    case (Some rh)
    obtain r h1 where s: "step a h = Some (r, h1)" using Some by (cases rh) simp
    obtain d1 acc1 where run: "handle_run step (\<lambda>h. sh_active (view h)) ops h1 = (d1, acc1, h')"
      "d = (case r of None \<Rightarrow> [] | Some c \<Rightarrow> [c]) @ d1"
      "acc = (case a of Push c \<Rightarrow> if sh_active (view h) then [c] else [] | _ \<Rightarrow> []) @ acc1"
      using Cons.prems s by (auto split: prod.splits)
    have "(case r of None \<Rightarrow> [] | Some c \<Rightarrow> [c]) @ sh_queue (view h1) = sh_queue (view h) @
        (case a of Push c \<Rightarrow> if sh_active (view h) then [c] else [] | _ \<Rightarrow> [])"
      using s by (cases a) (auto dest!: push_view next_view close_view
        simp: buffered_push_def handle_next_def handle_close_def split: if_splits list.splits)
    then show ?thesis using Cons.IH[OF run(1)] run(2,3) by simp
  qed
qed simp

lemma closed_stays:
  assumes "\<not> sh_active (view h)"
  shows "case handle_run step (\<lambda>h. sh_active (view h)) ops h of (d, acc, h') \<Rightarrow> acc = [] \<and> \<not> sh_active (view h')"
  using assms
proof (induction ops arbitrary: h)
  case (Cons a ops)
  show ?case
  proof (cases "step a h")
    case (Some rh)
    obtain r h1 where s: "step a h = Some (r, h1)" using Some by (cases rh) simp
    obtain d acc h' where "handle_run step (\<lambda>h. sh_active (view h)) ops h1 = (d, acc, h')" by (metis prod_cases3)
    then show ?thesis using Cons.IH[of h1] step_active[OF s] Cons.prems s by (cases a) auto
  qed (use Cons in simp)
qed simp

end

fun buffered_step :: "handle_op \<Rightarrow> stream_handle \<Rightarrow> (string option \<times> stream_handle) option" where
  "buffered_step (Push c) h = Some (None, buffered_push c h)"
| "buffered_step (Next stop) h = Some (handle_next stop h)"
| "buffered_step (Close err) h = Some (None, handle_close err h)"

fun callback_step :: "handle_op \<Rightarrow> callback_handle \<Rightarrow> (string option \<times> callback_handle) option" where
  "callback_step (Push c) h = map_option (Pair None) (callback_push c h)"
| "callback_step (Next stop) h = Some (callback_next stop h)"
| "callback_step (Close err) h = Some (None, callback_close err h)"

interpretation buffered: handle_contract buffered_step "\<lambda>h. h"
  by unfold_locales auto

interpretation bounded: handle_contract callback_step ch_handle
  by unfold_locales
    (auto simp: callback_push_def buffered_push_def callback_next_def callback_close_def split: if_splits prod.splits)

lemma callback_bound:
  "length (sh_queue (ch_handle h)) \<le> kCapacity \<Longrightarrow> callback_step a h = Some (r, h') \<Longrightarrow>
     length (sh_queue (ch_handle h')) \<le> kCapacity"
  by (cases a) (auto simp: callback_push_def callback_next_def callback_close_def handle_next_def handle_close_def
      split: if_splits prod.splits list.splits)

lemma callback_log:
  assumes "handle_run callback_step (\<lambda>h. sh_active (ch_handle h)) ops h = (d, acc, h')" "ch_on_chunk h"
    "length (sh_queue (ch_handle h)) \<le> kCapacity"
  shows "ch_called h' = ch_called h @ acc \<and> length (sh_queue (ch_handle h')) \<le> kCapacity"
  using assms
proof (induction ops arbitrary: h d acc)
  case (Cons a ops)
  show ?case
  proof (cases "callback_step a h")
    case None
    then show ?thesis using Cons by simp
  next
    case (Some rh)
    obtain r h1 where s: "callback_step a h = Some (r, h1)" using Some by (cases rh) simp
    obtain d1 acc1 where run: "handle_run callback_step (\<lambda>h. sh_active (ch_handle h)) ops h1 = (d1, acc1, h')"
      "acc = (case a of Push c \<Rightarrow> if sh_active (ch_handle h) then [c] else [] | _ \<Rightarrow> []) @ acc1"
      using Cons.prems s by (auto split: prod.splits)
    have "ch_on_chunk h1 \<and> ch_called h1 = ch_called h @ (case a of Push c \<Rightarrow> if sh_active (ch_handle h) then [c] else [] | _ \<Rightarrow> [])"
      using s Cons.prems(2)
      by (cases a) (auto simp: callback_push_def callback_next_def callback_close_def split: if_splits prod.splits)
    then show ?thesis using Cons.IH[OF run(1)] callback_bound[OF Cons.prems(3) s] run(2) by simp
  qed
qed simp

section \<open>Pumping a stream\<close>

text \<open>The tokens a stream yields one after another, and how it then ends.\<close>

inductive yields :: "'w llm_stream \<Rightarrow> 'w \<Rightarrow> string list \<Rightarrow> 'w \<Rightarrow> bool" for str :: "'w llm_stream" where
  yields_Nil: "yields str w [] w"
| yields_Cons: "ls_active str w \<Longrightarrow> \<not> ls_stop_requested str w \<Longrightarrow> ls_next str w = (Inr (Some t), w') \<Longrightarrow>
     yields str w' ts w'' \<Longrightarrow> yields str w (t # ts) w''"

datatype stream_end = Ended | Stopped | Thrown exc

definition ends :: "'w llm_stream \<Rightarrow> 'w \<Rightarrow> (stream_end \<times> 'w) option" where
  "ends str w = (if \<not> ls_active str w then Some (Ended, w)
     else if ls_stop_requested str w then Some (Stopped, w)
     else case ls_next str w of
       (Inl x, w') \<Rightarrow> Some (Thrown x, w')
     | (Inr None, w') \<Rightarrow> Some (Ended, w')
     | (Inr (Some t), w') \<Rightarrow> None)"

definition end_events :: "string \<Rightarrow> stream_end \<Rightarrow> event_builder list" where
  "end_events rid e = (case e of Thrown x \<Rightarrow> [thrown_event rid x] | _ \<Rightarrow> [])"

lemma pump_yields:
  "yields str w ts w1 \<Longrightarrow> ends str w1 = Some (e, w2) \<Longrightarrow> length ts < fuel \<Longrightarrow>
   pump str rid fuel acc n evs w = Some (e = Stopped, acc @ concat ts, n + length ts,
     evs @ map (token_event rid) ts @ end_events rid e, w2)"
proof (induction arbitrary: fuel acc n evs rule: yields.induct)
  case (yields_Nil w)
  then obtain k where "fuel = Suc k" by (cases fuel) auto
  then show ?case using yields_Nil
    by (auto simp: ends_def end_events_def split: if_splits prod.splits sum.splits option.splits)
next
  case (yields_Cons w t w' ts w'')
  then obtain k where "fuel = Suc k" "length ts < k" by (cases fuel) auto
  then show ?case using yields_Cons by simp
qed

section \<open>Properties\<close>

text \<open>C21. However the network cuts a well-formed event stream into chunks, the decoder queues exactly the events
  that were written, in order, with their types and multi-line data; the final [DONE] marks the end and
  is not queued, and nothing is left in the buffer.\<close>

theorem sse_stream_decoded:
  assumes "concat chunks = concat (map print_sse es) @ print_done fin" "list_all sse_ok es"
  shows "sd_queue (fold feed chunks new_decoder) = map event_of es \<and> sd_done (fold feed chunks new_decoder) = fin \<and>
    sd_buffer (fold feed chunks new_decoder) = [] \<and> sd_error (fold feed chunks new_decoder) = []"
proof -
  have "fold feed chunks new_decoder = feed (concat chunks) new_decoder"
    by (rule fold_feed) (simp add: new_decoder_def)
  also have "\<dots> = consume_lines (concat (map print_sse es) @ print_done fin) new_decoder"
    using assms(1) consume_lines_none[of "[]" new_decoder] by (simp add: feed_def new_decoder_def)
  also have "\<dots> = new_decoder \<lparr> sd_queue := map event_of es, sd_done := fin \<rparr>"
    using consume_all_sse[OF assms(2), of new_decoder] by (simp add: consume_done new_decoder_def)
  finally show ?thesis by (simp add: new_decoder_def)
qed

lemma sse_stream_decoded_witness:
  "sd_queue (fold feed [''event: del'', ''ta'' @ ''\<newline>'' @ ''data: a'' @ ''\<newline>'', ''data: b'' @ ''\<newline>\<newline>'' @ ''data: [DONE]'', ''\<newline>\<newline>''] new_decoder) =
     [\<lparr> se_event_type = ''delta'', se_data = ''a'' @ ''\<newline>'' @ ''b'', se_id = None, se_retry_ms = None \<rparr>]"
  using sse_stream_decoded[of "[''event: del'', ''ta'' @ ''\<newline>'' @ ''data: a'' @ ''\<newline>'', ''data: b'' @ ''\<newline>\<newline>'' @ ''data: [DONE]'', ''\<newline>\<newline>'']"
      "[(''delta'', [''a'', ''b''])]" True]
  by (simp add: print_sse_def print_field_def print_done_def sse_ok_def line_ok_def event_of_def)

text \<open>After an event with a retry time or an identifier the next event inherits the retry time and gets an empty
  identifier: the move that queues an event leaves its optionals engaged.\<close>

lemma retry_leaks:
  "sd_queue (feed (''retry: 10'' @ ''\<newline>'' @ ''id: 7'' @ ''\<newline>'' @ ''data: a'' @ ''\<newline>\<newline>'' @ ''data: b'' @ ''\<newline>\<newline>'') new_decoder) =
     [\<lparr> se_event_type = [], se_data = ''a'', se_id = Some ''7'', se_retry_ms = Some 10 \<rparr>,
      \<lparr> se_event_type = [], se_data = ''b'', se_id = Some [], se_retry_ms = Some 10 \<rparr>]"
  by code_simp

text \<open>The bounded handle is a first-in first-out queue of at most 32 chunks.  Through any operations of
  producers and consumers, what was delivered followed by what is queued is exactly what was accepted, in
  order, and the callback saw each accepted chunk once; a handle that was closed or cancelled accepts
  nothing more.\<close>

theorem callback_handle_fifo:
  "case handle_run callback_step (\<lambda>h. sh_active (ch_handle h)) ops (new_callback_handle True) of (d, acc, h) \<Rightarrow>
     d @ sh_queue (ch_handle h) = acc \<and> ch_called h = acc \<and> length (sh_queue (ch_handle h)) \<le> 32 \<and>
     (sh_active (ch_handle h) \<or>
      fst (snd (handle_run callback_step (\<lambda>h. sh_active (ch_handle h)) ops' h)) = [])"
proof -
  obtain d acc h where run: "handle_run callback_step (\<lambda>h. sh_active (ch_handle h)) ops (new_callback_handle True) = (d, acc, h)"
    by (metis prod_cases3)
  have "d @ sh_queue (ch_handle h) = acc" using bounded.fifo[OF run] by (simp add: new_callback_handle_def new_handle_def)
  moreover have "ch_called h = acc \<and> length (sh_queue (ch_handle h)) \<le> 32"
    using callback_log[OF run] by (simp add: new_callback_handle_def new_handle_def kCapacity_def)
  moreover have "sh_active (ch_handle h) \<or>
      fst (snd (handle_run callback_step (\<lambda>h. sh_active (ch_handle h)) ops' h)) = []"
    using bounded.closed_stays[of h ops'] by (cases "sh_active (ch_handle h)") (simp_all add: split_beta)
  ultimately show ?thesis using run by simp
qed

text \<open>An empty queue answers like the end of the stream although the handle is still active.\<close>

lemma nothing_yet_looks_like_the_end: "handle_next False new_handle = (None, new_handle) \<and> sh_active new_handle"
  by (simp add: handle_next_def new_handle_def)

text \<open>A stream that yields some tokens and then ends, is stopped, or throws, becomes one token event per token in
  order, an error event for the exception, and one last event: the stream's error if it has one, otherwise
  done.  The result holds all the text and the number of tokens.  Fuel for the tokens is enough.\<close>

theorem stream_to_bus_events:
  assumes "yields str w ts w1" "ends str w1 = Some (e, w2)" "length ts < fuel"
  shows "run_stream_to_bus str rid fuel w =
    Some (\<lparr> gr_text = concat ts, gr_prompt_tokens = 0, gr_completion_tokens = wrap32 (int (length ts)),
            gr_finish_reason = (if e = Stopped then ''cancelled'' else ''stop'') \<rparr>,
          map (token_event rid) ts @ end_events rid e @
            [case ls_error str w2 of Some err \<Rightarrow> error_event rid err
             | None \<Rightarrow> done_event rid (if e = Stopped then ''cancelled'' else ''stop'') (length ts) (concat ts)], w2)"
  using pump_yields[OF assms, of rid "[]" 0 "[]"] by (simp add: run_stream_to_bus_def Let_def)

lemma stream_to_bus_events_witness:
  "\<exists>evs. run_stream_to_bus \<lparr> ls_active = (\<lambda>n :: nat. 0 < n), ls_stop_requested = (\<lambda>_. False),
      ls_next = (\<lambda>n. (Inr (Some ''a''), n - 1)), ls_error = (\<lambda>_. None) \<rparr> ''r'' 5 2 =
    Some (\<lparr> gr_text = ''aa'', gr_prompt_tokens = 0, gr_completion_tokens = wrap32 2, gr_finish_reason = ''stop'' \<rparr>, evs, 0)"
proof -
  let ?str = "\<lparr> ls_active = (\<lambda>n :: nat. 0 < n), ls_stop_requested = (\<lambda>_. False),
      ls_next = (\<lambda>n. (Inr (Some ''a''), n - 1)), ls_error = (\<lambda>_. None) \<rparr>"
  have "yields ?str 2 [''a'', ''a''] 0"
    by (rule yields_Cons[where w' = 1], simp_all, rule yields_Cons[where w' = 0], simp_all add: yields_Nil)
  from stream_to_bus_events[OF this, of Ended 0 5 "''r''"] show ?thesis by (simp add: ends_def)
qed

text \<open>An exception ends in two final events: the error, and done with the reason stop.\<close>

lemma thrown_then_done:
  assumes "ls_active str w" "\<not> ls_stop_requested str w" "ls_next str w = (Inl x, w')" "ls_error str w' = None"
  shows "\<exists>r. run_stream_to_bus str rid 1 w = Some (r, [thrown_event rid x, done_event rid ''stop'' 0 []], w') \<and>
    gr_finish_reason r = ''stop''"
  using assms by (simp add: run_stream_to_bus_def Let_def)

end
