(* ===== verification/Timers.thy ===== *)
theory Timers
  imports HF_Prelude
begin

text \<open>
  Timers: agenticdsl/contract/timer_service.h and common/utils/timer_service.cpp.  The first part is the
  table of timers with its operations, each under the service's mutex, the worker's collection of what is due, and the
  callbacks it then runs without the mutex; times are milliseconds of the steady clock.  The second part is the life of the worker
  thread, which waits on a condition variable, next to the destructor of the service.
\<close>

section \<open>The table\<close>

record timer_entry =
  te_deadline :: int
  te_period :: int
  te_callback :: string

record timers =
  tm_next_id :: "64 word"
  tm_timers :: "(64 word \<times> timer_entry) list"

definition new_timers :: timers where
  "new_timers = \<lparr> tm_next_id = 1, tm_timers = [] \<rparr>"

text \<open>\<open>map::emplace\<close> keeps an entry that is already there.\<close>

definition add_timer :: "int \<Rightarrow> int \<Rightarrow> string \<Rightarrow> timers \<Rightarrow> 64 word \<times> timers" where
  "add_timer deadline period cb s =
     (let i = tm_next_id s;
          e = \<lparr> te_deadline = deadline, te_period = period, te_callback = cb \<rparr>
      in (i, \<lparr> tm_next_id = i + 1,
               tm_timers = (if map_of (tm_timers s) i = None then kv_ins i e (tm_timers s) else tm_timers s) \<rparr>))"

text \<open>A callback is named, None for an empty function.\<close>

definition register_oneshot :: "int \<Rightarrow> int \<Rightarrow> string option \<Rightarrow> timers \<Rightarrow> 64 word \<times> timers" where
  "register_oneshot now delay cb s = (case cb of
       None \<Rightarrow> (0, s)
     | Some f \<Rightarrow> add_timer (now + (if delay \<le> 0 then 1 else delay)) 0 f s)"

definition register_periodic :: "int \<Rightarrow> int \<Rightarrow> string option \<Rightarrow> timers \<Rightarrow> 64 word \<times> timers" where
  "register_periodic now period cb s = (case cb of
       None \<Rightarrow> (0, s)
     | Some f \<Rightarrow> if period \<le> 0 then (0, s) else add_timer (now + period) period f s)"

definition timer_cancel :: "64 word \<Rightarrow> timers \<Rightarrow> bool \<times> timers" where
  "timer_cancel i s = (if i = 0 then (False, s)
     else (map_of (tm_timers s) i \<noteq> None, s \<lparr> tm_timers := kv_del i (tm_timers s) \<rparr>))"

definition has_earlier_deadline :: "int \<Rightarrow> timers \<Rightarrow> bool" where
  "has_earlier_deadline ref s = list_ex (\<lambda>(i, e). te_deadline e < ref) (tm_timers s)"

definition next_deadline :: "timers \<Rightarrow> int option" where
  "next_deadline s = (case tm_timers s of [] \<Rightarrow> None
     | (i, e) # ts \<Rightarrow> Some (foldl (\<lambda>d (i, e). min d (te_deadline e)) (te_deadline e) ts))"

text \<open>What the worker collects under the mutex, in the order of identifiers, and the table it leaves.  The callbacks run
  later, without the mutex.\<close>

definition due :: "int \<Rightarrow> timers \<Rightarrow> (64 word \<times> timer_entry) list" where
  "due now s = filter (\<lambda>(i, e). te_deadline e \<le> now) (tm_timers s)"

definition collect_due :: "int \<Rightarrow> timers \<Rightarrow> (64 word \<times> string) list \<times> timers" where
  "collect_due now s =
     (map (\<lambda>(i, e). (i, te_callback e)) (due now s),
      s \<lparr> tm_timers :=
        map (\<lambda>(i, e). (i, if te_deadline e \<le> now then e \<lparr> te_deadline := te_deadline e + te_period e \<rparr> else e))
          (filter (\<lambda>(i, e). \<not> (te_deadline e \<le> now \<and> te_period e = 0)) (tm_timers s)) \<rparr>)"

section \<open>Histories of the table\<close>

text \<open>The table and the callbacks that were collected and have not run yet.\<close>

record timer_clock =
  ck_table :: timers
  ck_batch :: "(64 word \<times> string) list"

definition new_clock :: timer_clock where
  "new_clock = \<lparr> ck_table = new_timers, ck_batch = [] \<rparr>"

text \<open>Registering and cancelling, by any thread, callbacks included, at any moment; the worker collects only when it has run
  all callbacks it collected before, and runs them one at a time.\<close>

datatype timer_op = Oneshot int int "string option" | Periodic int int "string option" | Cancel "64 word" | Collect int | Call

datatype timer_event = Registered "64 word" int int | Cancelled_timer "64 word" | Collected int "64 word" | Fired "64 word"

definition registration :: "(64 word \<times> timers) \<Rightarrow> timer_event list \<times> timers" where
  "registration r = (case r of (i, s) \<Rightarrow> (case map_of (tm_timers s) i of
       None \<Rightarrow> [] | Some e \<Rightarrow> [Registered i (te_deadline e) (te_period e)], s))"

fun table_do :: "timer_op \<Rightarrow> timers \<Rightarrow> timer_event list \<times> timers" where
  "table_do (Oneshot now delay cb) s = (if cb = None then ([], s) else registration (register_oneshot now delay cb s))"
| "table_do (Periodic now period cb) s =
     (if cb = None \<or> period \<le> 0 then ([], s) else registration (register_periodic now period cb s))"
| "table_do (Cancel i) s = (case timer_cancel i s of (b, s') \<Rightarrow> (if b then [Cancelled_timer i] else [], s'))"
| "table_do (Collect now) s = (case collect_due now s of (fs, s') \<Rightarrow> (map (\<lambda>(i, f). Collected now i) fs, s'))"
| "table_do Call s = ([], s)"

definition timer_do :: "timer_op \<Rightarrow> timer_clock \<Rightarrow> timer_event list \<times> timer_clock" where
  "timer_do a c = (case a of
       Collect now \<Rightarrow> if ck_batch c \<noteq> [] then ([], c)
         else (case table_do a (ck_table c) of (l, s) \<Rightarrow> (l, \<lparr> ck_table = s, ck_batch = fst (collect_due now (ck_table c)) \<rparr>))
     | Call \<Rightarrow> (case ck_batch c of [] \<Rightarrow> ([], c) | (i, f) # fs \<Rightarrow> ([Fired i], c \<lparr> ck_batch := fs \<rparr>))
     | _ \<Rightarrow> (case table_do a (ck_table c) of (l, s) \<Rightarrow> (l, c \<lparr> ck_table := s \<rparr>)))"

fun timer_run :: "timer_op list \<Rightarrow> timer_clock \<Rightarrow> timer_event list \<times> timer_clock" where
  "timer_run [] c = ([], c)"
| "timer_run (a # ops) c = (case timer_do a c of (l, c1) \<Rightarrow> case timer_run ops c1 of (l', c2) \<Rightarrow> (l @ l', c2))"

definition collections :: "64 word \<Rightarrow> timer_event list \<Rightarrow> nat" where
  "collections i l = length (filter (\<lambda>e. \<exists>t. e = Collected t i) l)"

text \<open>What the history says about a timer: its deadline and period, unless it is gone.\<close>

definition pending :: "timer_event list \<Rightarrow> 64 word \<Rightarrow> int \<Rightarrow> int \<Rightarrow> bool" where
  "pending l i d p \<longleftrightarrow> Cancelled_timer i \<notin> set l \<and>
     (\<exists>d0. Registered i d0 p \<in> set l \<and> d = d0 + int (collections i l) * p \<and> (p = 0 \<longrightarrow> collections i l = 0))"

text \<open>The identifiers of the timers collected and of those fired, in order.\<close>

definition collected :: "timer_event list \<Rightarrow> 64 word list" where
  "collected l = concat (map (\<lambda>e. case e of Collected t i \<Rightarrow> [i] | _ \<Rightarrow> []) l)"

definition fired :: "timer_event list \<Rightarrow> 64 word list" where
  "fired l = concat (map (\<lambda>e. case e of Fired i \<Rightarrow> [i] | _ \<Rightarrow> []) l)"

text \<open>Every collection follows its registration, not before its time, and never a cancellation.\<close>

definition justified :: "timer_event list \<Rightarrow> bool" where
  "justified l \<longleftrightarrow> (\<forall>a t i b. l = a @ Collected t i # b \<longrightarrow> (\<exists>d p. pending a i d p \<and> d \<le> t))"

definition registrations :: "timer_event list \<Rightarrow> 64 word list" where
  "registrations l = concat (map (\<lambda>e. case e of Registered i d p \<Rightarrow> [i] | _ \<Rightarrow> []) l)"

definition history_ok :: "timer_event list \<Rightarrow> timers \<Rightarrow> bool" where
  "history_ok l s \<longleftrightarrow> justified l \<and> distinct (registrations l) \<and> distinct (map fst (tm_timers s)) \<and>
     (\<forall>(i, e) \<in> set (tm_timers s). pending l i (te_deadline e) (te_period e)) \<and>
     (\<forall>i \<in> set (registrations l). unat i < unat (tm_next_id s)) \<and>
     (\<forall>t i. Collected t i \<in> set l \<longrightarrow> i \<in> set (registrations l)) \<and>
     (\<forall>i. Cancelled_timer i \<in> set l \<longrightarrow> i \<in> set (registrations l))"

lemma collections_simps [simp]:
  "collections i [] = 0" "collections i (l @ m) = collections i l + collections i m"
  "collections i (Registered j d p # l) = collections i l" "collections i (Cancelled_timer j # l) = collections i l"
  "collections i (Fired j # l) = collections i l" "collections i (Collected t j # l) = (if i = j then Suc (collections i l) else collections i l)"
  by (auto simp: collections_def)

lemma justified_append:
  "justified (l @ m) \<longleftrightarrow> justified l \<and>
    (\<forall>a t i b. m = a @ Collected t i # b \<longrightarrow> (\<exists>d p. pending (l @ a) i d p \<and> d \<le> t))"
proof -
  have "l @ m = a @ Collected t i # b \<longleftrightarrow> (\<exists>b'. l = a @ Collected t i # b' \<and> b = b' @ m) \<or> (\<exists>a'. a = l @ a' \<and> m = a' @ Collected t i # b)"
    for a t i b
    by (auto simp: append_eq_append_conv2 append_eq_Cons_conv)
  then show ?thesis unfolding justified_def by (simp only:) blast
qed

lemma justified_no_collect: "(\<And>t i. Collected t i \<notin> set m) \<Longrightarrow> justified (l @ m) = justified l"
  unfolding justified_append by (metis in_set_conv_decomp)

lemma registrations_simps [simp]:
  "registrations [] = []" "registrations (l @ m) = registrations l @ registrations m"
  "registrations (Registered i d p # l) = i # registrations l"
  "registrations (Cancelled_timer i # l) = registrations l" "registrations (Collected t i # l) = registrations l"
  "registrations (Fired i # l) = registrations l"
  by (auto simp: registrations_def)

lemma registered_in: "i \<in> set (registrations l) \<longleftrightarrow> (\<exists>d p. Registered i d p \<in> set l)"
  by (force simp: registrations_def split: timer_event.splits)

lemma pending_registered: "pending l i d p \<Longrightarrow> i \<in> set (registrations l)"
  by (auto simp: pending_def registered_in)

lemma not_collected: "Collected t i \<notin> set l \<Longrightarrow> (\<And>t. Collected t i \<notin> set l) \<Longrightarrow> collections i l = 0"
  by (auto simp: collections_def filter_empty_conv)

lemma collections_map:
  "collections i (map (\<lambda>(i, f). Collected now i) fs) = length (filter (\<lambda>(j, f). j = i) fs)"
  by (induction fs) auto

lemma collections_distinct:
  "distinct (map fst fs) \<Longrightarrow> collections i (map (\<lambda>(i, f). Collected now i) fs) = (if i \<in> fst ` set fs then 1 else 0)"
proof (induction fs)
  case (Cons q fs)
  then show ?case by (cases q; cases "i = fst q") auto
qed simp

lemma registrations_map [simp]: "registrations (map (\<lambda>(i, f). Collected now i) fs) = []"
  by (induction fs) auto

lemma kv_ins_mem: "q \<in> set (kv_ins k v xs) \<Longrightarrow> q = (k, v) \<or> q \<in> set xs"
  by (induction k v xs rule: kv_ins.induct) (auto split: if_splits)

lemma kv_ins_distinct: "distinct (map fst xs) \<Longrightarrow> k \<notin> fst ` set xs \<Longrightarrow> distinct (map fst (kv_ins k v xs))"
  by (induction k v xs rule: kv_ins.induct) auto

lemma history_add:
  assumes "history_ok l s" "unat (tm_next_id s) < 2 ^ 64 - 1"
  shows "case registration (add_timer d p f s) of (m, s') \<Rightarrow>
    history_ok (l @ m) s' \<and> unat (tm_next_id s') = Suc (unat (tm_next_id s))"
proof -
  let ?i = "tm_next_id s"
  let ?e = "\<lparr> te_deadline = d, te_period = p, te_callback = f \<rparr>"
  have h: "justified l" "distinct (registrations l)" "distinct (map fst (tm_timers s))"
    "\<And>i e. (i, e) \<in> set (tm_timers s) \<Longrightarrow> pending l i (te_deadline e) (te_period e)"
    "\<And>i. i \<in> set (registrations l) \<Longrightarrow> unat i < unat ?i"
    "\<And>t i. Collected t i \<in> set l \<Longrightarrow> i \<in> set (registrations l)"
    "\<And>i. Cancelled_timer i \<in> set l \<Longrightarrow> i \<in> set (registrations l)"
    using assms(1) by (auto simp: history_ok_def)
  have fresh: "?i \<notin> set (registrations l)" using h(5) by blast
  have free: "?i \<notin> fst ` set (tm_timers s)" using h(4) fresh pending_registered by fastforce
  then have none: "map_of (tm_timers s) ?i = None" by (simp add: map_of_eq_None_iff)
  have nxt: "unat (?i + 1) = Suc (unat ?i)" using assms(2) by (simp add: unat_word_ariths)
  have fs: "collections ?i l = 0" using h(6) fresh by (auto intro!: not_collected)
  have ent: "(j, e) \<in> set (kv_ins ?i ?e (tm_timers s)) \<Longrightarrow> (j, e) = (?i, ?e) \<or> (j, e) \<in> set (tm_timers s)" for j e
    by (rule kv_ins_mem)
  have dist: "distinct (map fst (kv_ins ?i ?e (tm_timers s)))"
    using h(3) free by (rule kv_ins_distinct)
  have keep: "pending l j d' p' \<Longrightarrow> pending (l @ [Registered ?i d p]) j d' p'" for j d' p'
    using fresh by (auto simp: pending_def)
  have "pending (l @ [Registered ?i d p]) ?i d p"
    using fs h(7) fresh by (auto simp: pending_def)
  then have "history_ok (l @ [Registered ?i d p]) \<lparr> tm_next_id = ?i + 1, tm_timers = kv_ins ?i ?e (tm_timers s) \<rparr>"
    using h(1,2) dist fresh nxt h(5,6,7) justified_no_collect[of "[Registered ?i d p]" l]
    by (auto simp: history_ok_def dest!: ent intro: keep h(4) less_SucI)
  then show ?thesis using none nxt by (simp add: registration_def add_timer_def Let_def)
qed

lemma history_cancel:
  assumes "history_ok l s"
  shows "case table_do (Cancel i) s of (m, s') \<Rightarrow> history_ok (l @ m) s' \<and> tm_next_id s' = tm_next_id s"
proof (cases "i = 0 \<or> map_of (tm_timers s) i = None")
  case True
  then have "i \<noteq> 0 \<Longrightarrow> kv_del i (tm_timers s) = tm_timers s"
    by (auto simp: kv_del_def filter_id_conv map_of_eq_None_iff image_iff)
  then show ?thesis using True assms by (auto simp: timer_cancel_def)
next
  case False
  then obtain e where "(i, e) \<in> set (tm_timers s)" using map_of_SomeD by fastforce
  then have r: "i \<in> set (registrations l)" using assms pending_registered by (fastforce simp: history_ok_def)
  have keep: "pending l j d p \<Longrightarrow> j \<noteq> i \<Longrightarrow> pending (l @ [Cancelled_timer i]) j d p" for j d p
    by (auto simp: pending_def)
  have "history_ok (l @ [Cancelled_timer i]) (s \<lparr> tm_timers := kv_del i (tm_timers s) \<rparr>)"
    using assms r justified_no_collect[of "[Cancelled_timer i]" l]
    by (auto simp: history_ok_def kv_del_def distinct_map_filter intro!: keep)
  then show ?thesis using False by (simp add: timer_cancel_def)
qed

lemma history_collect:
  assumes "history_ok l s"
  shows "case table_do (Collect now) s of (m, s') \<Rightarrow> history_ok (l @ m) s' \<and> tm_next_id s' = tm_next_id s"
proof -
  let ?fs = "fst (collect_due now s)" and ?s' = "snd (collect_due now s)"
  let ?m = "map (\<lambda>(i, f). Collected now i) ?fs"
  have h: "justified l" "distinct (registrations l)" "distinct (map fst (tm_timers s))"
    "\<And>i e. (i, e) \<in> set (tm_timers s) \<Longrightarrow> pending l i (te_deadline e) (te_period e)"
    using assms by (auto simp: history_ok_def)
  have ids: "map fst ?fs = map fst (due now s)" by (simp add: collect_due_def split_beta comp_def)
  have dist: "distinct (map fst ?fs)"
    unfolding ids due_def by (rule distinct_map_filter[OF h(3)])
  have in_due: "i \<in> fst ` set ?fs \<longleftrightarrow> (\<exists>e. (i, e) \<in> set (tm_timers s) \<and> te_deadline e \<le> now)" for i
    by (force simp: collect_due_def due_def)
  have count: "collections i ?m = (if i \<in> fst ` set ?fs then 1 else 0)" for i
    by (rule collections_distinct[OF dist])
  have J: "justified (l @ ?m)"
    unfolding justified_append
  proof (intro conjI allI impI h(1))
    fix a t i b
    assume m: "?m = a @ Collected t i # b"
    then obtain fa f fb where fs: "?fs = fa @ (i, f) # fb" "a = map (\<lambda>(i, f). Collected now i) fa" "t = now"
      by (auto simp: map_eq_append_conv)
    then obtain e where e: "(i, e) \<in> set (tm_timers s)" "te_deadline e \<le> now" using in_due[of i] by force
    have "i \<notin> fst ` set fa" using dist fs(1) by auto
    then have "collections i a = 0" unfolding fs(2) collections_map by (auto simp: filter_empty_conv image_iff)
    moreover have "Cancelled_timer i \<notin> set a" unfolding fs(2) by auto
    ultimately have "pending (l @ a) i (te_deadline e) (te_period e)" using h(4)[OF e(1)] by (auto simp: pending_def)
    then show "\<exists>d p. pending (l @ a) i d p \<and> d \<le> t" using e(2) fs(3) by blast
  qed
  have P: "pending (l @ ?m) i (te_deadline e') (te_period e')" if "(i, e') \<in> set (tm_timers ?s')" for i e'
  proof -
    from that obtain e where e: "(i, e) \<in> set (tm_timers s)" "\<not> (te_deadline e \<le> now \<and> te_period e = 0)"
      "e' = (if te_deadline e \<le> now then e \<lparr> te_deadline := te_deadline e + te_period e \<rparr> else e)"
      by (auto simp: collect_due_def)
    have uniq: "(i, e2) \<in> set (tm_timers s) \<Longrightarrow> e2 = e" for e2 using h(3) e(1) by (metis eq_key_imp_eq_value)
    have c: "collections i ?m = (if te_deadline e \<le> now then 1 else 0)"
    proof -
      have "i \<in> fst ` set ?fs \<longleftrightarrow> te_deadline e \<le> now" using in_due[of i] e(1) uniq by blast
      then show ?thesis by (simp only: count)
    qed
    have "Cancelled_timer i \<notin> set ?m" by auto
    then show ?thesis using h(4)[OF e(1)] e(2,3) c by (auto simp: pending_def distrib_right)
  qed
  have K: "map fst (tm_timers ?s') = map fst (filter (\<lambda>(i, e). \<not> (te_deadline e \<le> now \<and> te_period e = 0)) (tm_timers s))"
    by (simp add: collect_due_def split_beta comp_def)
  have R: "Collected t i \<in> set ?m \<Longrightarrow> i \<in> set (registrations l)" for t i
  proof -
    assume "Collected t i \<in> set ?m"
    then have "i \<in> fst ` set ?fs" by force
    then obtain e where "(i, e) \<in> set (tm_timers s)" using in_due by blast
    then show ?thesis using h(4) pending_registered by blast
  qed
  have "distinct (map fst (tm_timers ?s'))" unfolding K by (rule distinct_map_filter[OF h(3)])
  moreover have "tm_next_id ?s' = tm_next_id s" by (simp add: collect_due_def)
  moreover have "Cancelled_timer i \<notin> set ?m" for i by auto
  moreover have "i \<in> set (registrations l)" if "Collected t i \<in> set (l @ ?m)" for t i
  proof (cases "Collected t i \<in> set l")
    case True
    then show ?thesis using assms unfolding history_ok_def by blast
  next
    case False
    then show ?thesis using that R by (metis Un_iff set_append)
  qed
  moreover have "\<forall>i \<in> set (registrations l). unat i < unat (tm_next_id s)"
    "\<forall>i. Cancelled_timer i \<in> set l \<longrightarrow> i \<in> set (registrations l)"
    using assms unfolding history_ok_def by blast+
  ultimately have "history_ok (l @ ?m) ?s'"
    using J P h(2) unfolding history_ok_def
    by (simp only: registrations_simps registrations_map set_append Un_iff append_Nil2 split_beta prod.collapse) force
  then show ?thesis using \<open>tm_next_id ?s' = tm_next_id s\<close> by (simp add: split_beta)
qed

lemma history_table:
  assumes "history_ok l s" "unat (tm_next_id s) < 2 ^ 64 - 1"
  shows "case table_do a s of (m, s') \<Rightarrow> history_ok (l @ m) s' \<and> unat (tm_next_id s') \<le> Suc (unat (tm_next_id s))"
proof (cases a)
  case (Oneshot now delay cb)
  then show ?thesis using assms history_add[OF assms, of "now + (if delay \<le> 0 then 1 else delay)" 0 "the cb"]
    by (cases cb) (auto simp: register_oneshot_def split: prod.splits)
next
  case (Periodic now period cb)
  then show ?thesis using assms history_add[OF assms, of "now + period" period "the cb"]
    by (cases cb) (auto simp: register_periodic_def split: prod.splits)
next
  case (Cancel i)
  then show ?thesis using history_cancel[OF assms(1), of i] by (auto split: prod.splits)
next
  case (Collect now)
  then show ?thesis using history_collect[OF assms(1), of now] by (auto split: prod.splits)
next
  case Call
  then show ?thesis using assms by simp
qed

text \<open>What was collected and has not fired is the worker's batch, in which no timer is twice.\<close>

definition batch_ok :: "timer_event list \<Rightarrow> timer_clock \<Rightarrow> bool" where
  "batch_ok l c \<longleftrightarrow> collected l = fired l @ map fst (ck_batch c) \<and> distinct (map fst (ck_batch c))"

lemma event_lists [simp]:
  "collected [] = []" "collected (l @ m) = collected l @ collected m" "collected (Registered i d p # l) = collected l"
  "collected (Cancelled_timer i # l) = collected l" "collected (Collected t i # l) = i # collected l" "collected (Fired i # l) = collected l"
  "fired [] = []" "fired (l @ m) = fired l @ fired m" "fired (Registered i d p # l) = fired l"
  "fired (Cancelled_timer i # l) = fired l" "fired (Collected t i # l) = fired l" "fired (Fired i # l) = i # fired l"
  by (simp_all add: collected_def fired_def)

lemma collected_map [simp]: "collected (map (\<lambda>(i, f). Collected now i) fs) = map fst fs" "fired (map (\<lambda>(i, f). Collected now i) fs) = []"
  by (induction fs) auto

lemma collections_count: "collections i l = count_list (collected l) i"
  by (induction l rule: rev_induct) (auto simp: collections_def collected_def split: timer_event.splits)

lemma table_quiet:
  assumes "\<And>now. a \<noteq> Collect now"
  shows "collected (fst (table_do a s)) = []" "fired (fst (table_do a s)) = []"
  using assms by (cases a; auto simp: registration_def split: prod.splits option.splits)+

lemma collect_distinct:
  assumes "distinct (map fst (tm_timers s))"
  shows "distinct (map fst (fst (collect_due now s)))"
proof -
  have "map fst (fst (collect_due now s)) = map fst (due now s)" by (simp add: collect_due_def split_beta comp_def)
  then show ?thesis unfolding due_def using distinct_map_filter[OF assms] by simp
qed

lemma history_fired: "history_ok l s \<Longrightarrow> history_ok (l @ [Fired i]) s"
proof -
  have "pending l j d p \<Longrightarrow> pending (l @ [Fired i]) j d p" for j d p by (auto simp: pending_def)
  then show "history_ok l s \<Longrightarrow> history_ok (l @ [Fired i]) s"
    using justified_no_collect[of "[Fired i]" l] by (auto simp: history_ok_def)
qed

lemma history_step:
  assumes "history_ok l (ck_table c)" "batch_ok l c" "unat (tm_next_id (ck_table c)) < 2 ^ 64 - 1" "timer_do a c = (m, c')"
  shows "history_ok (l @ m) (ck_table c') \<and> batch_ok (l @ m) c' \<and> unat (tm_next_id (ck_table c')) \<le> Suc (unat (tm_next_id (ck_table c)))"
proof (cases "a = Call \<or> (\<exists>now. a = Collect now \<and> ck_batch c \<noteq> [])")
  case True
  then show ?thesis using assms history_fired[OF assms(1)]
    by (cases "ck_batch c") (auto simp: timer_do_def batch_ok_def split: prod.splits)
next
  case False
  obtain k s where k: "table_do a (ck_table c) = (k, s)" by fastforce
  then have h: "history_ok (l @ k) s" "unat (tm_next_id s) \<le> Suc (unat (tm_next_id (ck_table c)))"
    using history_table[OF assms(1,3), of a] by auto
  show ?thesis
  proof (cases "\<exists>now. a = Collect now")
    case True
    then obtain now where a: "a = Collect now" by blast
    have "distinct (map fst (fst (collect_due now (ck_table c))))" using assms(1) collect_distinct by (simp add: history_ok_def)
    then show ?thesis using h k a False assms(2,4) by (auto simp: timer_do_def batch_ok_def split: prod.splits)
  next
    case not_collect: False
    then have "collected k = []" "fired k = []" using table_quiet[of a "ck_table c"] k by auto
    moreover have "m = k" "c' = c \<lparr> ck_table := s \<rparr>" using not_collect False assms(4) k by (cases a; simp add: timer_do_def)+
    ultimately show ?thesis using h assms(2) by (simp add: batch_ok_def)
  qed
qed

text \<open>At every moment of a history what has fired is the beginning of what was collected, and the rest is one batch.\<close>

definition fires_in_order :: "timer_event list \<Rightarrow> bool" where
  "fires_in_order l \<longleftrightarrow> (\<forall>a b. l = a @ b \<longrightarrow> (\<exists>w. collected a = fired a @ w \<and> distinct w))"

lemma order_one:
  assumes "fires_in_order l" "batch_ok (l @ m) c" "length m \<le> 1"
  shows "fires_in_order (l @ m)"
  unfolding fires_in_order_def
proof (intro allI impI)
  fix a b
  assume ab: "l @ m = a @ b"
  show "\<exists>w. collected a = fired a @ w \<and> distinct w"
  proof (cases "b = []")
    case True
    then show ?thesis using ab assms(2) by (auto simp: batch_ok_def)
  next
    case False
    then have "length a \<le> length l" using arg_cong[OF ab, of length] assms(3) by (cases b) auto
    then obtain r where "l = a @ r" using ab by (metis append_eq_append_conv_if append_take_drop_id)
    then show ?thesis using assms(1) unfolding fires_in_order_def by blast
  qed
qed

lemma order_collect:
  assumes "fires_in_order l" "collected l = fired l" "distinct (map fst fs)"
  shows "fires_in_order (l @ map (\<lambda>(i, f). Collected now i) fs)"
  unfolding fires_in_order_def
proof (intro allI impI)
  fix a b
  assume "l @ map (\<lambda>(i, f). Collected now i) fs = a @ b"
  then consider r where "l = a @ r" | r where "a = l @ r" "map (\<lambda>(i, f). Collected now i) fs = r @ b"
    by (auto simp: append_eq_append_conv2)
  then show "\<exists>w. collected a = fired a @ w \<and> distinct w"
  proof cases
    case 1
    then show ?thesis using assms(1) unfolding fires_in_order_def by blast
  next
    case 2
    then obtain xs ys where "fs = xs @ ys" "r = map (\<lambda>(i, f). Collected now i) xs" by (metis map_eq_append_conv)
    then show ?thesis using 2 assms(2,3) by simp
  qed
qed

lemma table_short: "(\<And>now. a \<noteq> Collect now) \<Longrightarrow> length (fst (table_do a s)) \<le> 1"
  by (cases a) (auto simp: registration_def split: prod.splits option.splits)

lemma order_step:
  assumes "history_ok l (ck_table c)" "fires_in_order l" "batch_ok l c" "batch_ok (l @ m) c'" "timer_do a c = (m, c')"
  shows "fires_in_order (l @ m)"
proof (cases "\<exists>now. a = Collect now \<and> ck_batch c = []")
  case True
  then obtain now where a: "a = Collect now" "ck_batch c = []" by blast
  then have "m = map (\<lambda>(i, f). Collected now i) (fst (collect_due now (ck_table c)))"
    using assms(5) by (auto simp: timer_do_def split: prod.splits)
  moreover have "distinct (map fst (fst (collect_due now (ck_table c))))" using assms(1) collect_distinct by (simp add: history_ok_def)
  moreover have "collected l = fired l" using assms(3) a by (simp add: batch_ok_def)
  ultimately show ?thesis using order_collect[OF assms(2)] by blast
next
  case False
  have "length m \<le> 1"
  proof (cases "\<exists>now. a = Collect now")
    case False
    then have "length (fst (table_do a (ck_table c))) \<le> 1" using table_short by blast
    then show ?thesis using False assms(5) by (cases a; cases "ck_batch c") (auto simp: timer_do_def split: prod.splits)
  qed (use False assms(5) in \<open>auto simp: timer_do_def\<close>)
  then show ?thesis using order_one assms(2,4) by blast
qed

lemma history_run:
  "history_ok l (ck_table c) \<Longrightarrow> batch_ok l c \<Longrightarrow> fires_in_order l \<Longrightarrow> unat (tm_next_id (ck_table c)) + length ops < 2 ^ 64 \<Longrightarrow>
     timer_run ops c = (m, c') \<Longrightarrow> history_ok (l @ m) (ck_table c') \<and> fires_in_order (l @ m)"
proof (induction ops arbitrary: l c m)
  case (Cons a ops)
  obtain k c1 where st: "timer_do a c = (k, c1)" by fastforce
  then obtain k' where k': "timer_run ops c1 = (k', c')" "m = k @ k'" using Cons.prems(5) by (auto split: prod.splits)
  have h: "history_ok (l @ k) (ck_table c1)" "batch_ok (l @ k) c1" "unat (tm_next_id (ck_table c1)) \<le> Suc (unat (tm_next_id (ck_table c)))"
    using history_step[OF Cons.prems(1,2) _ st] Cons.prems(4) by simp_all
  then show ?case using Cons.IH[of "l @ k" c1 k'] order_step[OF Cons.prems(1,3,2) h(2) st] Cons.prems(4) k' by simp
qed simp

text \<open>After a timer was cancelled it can fire once more, and only if the worker had collected it and not called it yet.\<close>

lemma fires_after_cancel:
  assumes "justified l" "fires_in_order l" "l = a @ Cancelled_timer i # b"
  shows "\<exists>w. collected a = fired a @ w \<and> count_list (fired b) i \<le> (if i \<in> set w then 1 else 0)"
proof -
  have "\<And>t. Collected t i \<notin> set b"
  proof
    fix t assume "Collected t i \<in> set b"
    then obtain u v where "b = u @ Collected t i # v" by (meson split_list)
    then have "l = (a @ Cancelled_timer i # u) @ Collected t i # v" using assms(3) by simp
    then show False using assms(1) unfolding justified_def pending_def by (metis in_set_conv_decomp)
  qed
  then have "collections i b = 0" by (auto simp: collections_def filter_empty_conv)
  then have b: "count_list (collected b) i = 0" by (simp add: collections_count)
  obtain w v where w: "collected a = fired a @ w" "distinct w" and v: "collected l = fired l @ v"
    using assms(2,3) unfolding fires_in_order_def by (metis append.right_neutral)
  have "count_list (collected l) i = count_list (fired l) i + count_list v i" using v by simp
  then have "count_list (fired b) i \<le> count_list w i" using w(1) b assms(3) by simp
  moreover have "count_list w i \<le> (if i \<in> set w then 1 else 0)" using w(2) by (induction w) auto
  ultimately show ?thesis using w(1) by (intro exI[of _ w]) simp
qed

section \<open>The worker and the destructor\<close>

text \<open>Where the worker is.  A wait on the condition variable evaluates its predicate under the mutex when it
  begins, when it is notified and at its deadline; \<open>sv_notified\<close> says that it is to be evaluated.  No
  timers are registered once the destructor runs.\<close>

datatype worker = At_top | Idle_wait | Timed_wait int | Calling nat | Finished

text \<open>The destructor notifies in its body; then the jthread member requests the stop and joins.\<close>

datatype destructor = Not_started | Notified | Joining | Joined

record service =
  sv_table :: timers
  sv_worker :: worker
  sv_notified :: bool
  sv_destructor :: destructor

definition stop_requested :: "service \<Rightarrow> bool" where
  "stop_requested s \<longleftrightarrow> sv_destructor s = Joining \<or> sv_destructor s = Joined"

text \<open>What the worker does next at time \<open>now\<close>; None: it is blocked, or has ended.\<close>

definition worker_step :: "int \<Rightarrow> service \<Rightarrow> service option" where
  "worker_step now s = (case sv_worker s of
       At_top \<Rightarrow> Some (if stop_requested s then s \<lparr> sv_worker := Finished \<rparr>
         else case next_deadline (sv_table s) of
           None \<Rightarrow> s \<lparr> sv_worker := Idle_wait, sv_notified := True \<rparr>
         | Some d \<Rightarrow> s \<lparr> sv_worker := Timed_wait d, sv_notified := True \<rparr>)
     | Idle_wait \<Rightarrow>
         if \<not> sv_notified s then None
         else Some (if stop_requested s then s \<lparr> sv_worker := Finished \<rparr>
                    else if tm_timers (sv_table s) \<noteq> [] then s \<lparr> sv_worker := At_top \<rparr>
                    else s \<lparr> sv_notified := False \<rparr>)
     | Timed_wait d \<Rightarrow>
         if \<not> sv_notified s \<and> now < d then None
         else if stop_requested s then Some (s \<lparr> sv_worker := Finished \<rparr>)
         else if has_earlier_deadline d (sv_table s) \<or> d \<le> now
         then (case collect_due now (sv_table s) of (fs, t) \<Rightarrow>
                Some (s \<lparr> sv_table := t, sv_worker := Calling (length fs) \<rparr>))
         else Some (s \<lparr> sv_notified := False \<rparr>)
     | Calling 0 \<Rightarrow> Some (s \<lparr> sv_worker := At_top \<rparr>)
     | Calling (Suc n) \<Rightarrow> Some (s \<lparr> sv_worker := Calling n \<rparr>)
     | Finished \<Rightarrow> None)"

definition destructor_step :: "service \<Rightarrow> service option" where
  "destructor_step s = (case sv_destructor s of
       Not_started \<Rightarrow> Some (s \<lparr> sv_destructor := Notified, sv_notified := True \<rparr>)
     | Notified \<Rightarrow> Some (s \<lparr> sv_destructor := Joining \<rparr>)
     | Joining \<Rightarrow> if sv_worker s = Finished then Some (s \<lparr> sv_destructor := Joined \<rparr>) else None
     | Joined \<Rightarrow> None)"

inductive service_steps :: "service \<Rightarrow> service \<Rightarrow> bool" where
  service_refl: "service_steps s s"
| service_worker: "worker_step now s = Some s1 \<Longrightarrow> service_steps s1 s' \<Longrightarrow> service_steps s s'"
| service_destructor: "destructor_step s = Some s1 \<Longrightarrow> service_steps s1 s' \<Longrightarrow> service_steps s s'"

inductive_cases service_stepsE: "service_steps s s'"

definition new_service :: service where
  "new_service = \<lparr> sv_table = new_timers, sv_worker = At_top, sv_notified = False, sv_destructor = Not_started \<rparr>"

section \<open>Properties\<close>

text \<open>C22. The contract of the timers, for any history of fewer than 2^64 - 1 operations.  Identifiers are used
  once; a timer is collected after its registration, the k-th time not before its first deadline plus k - 1 periods, a one-shot
  timer once, and never after its cancellation; what fires was collected before, in the same order; and after a
  cancellation a timer fires at most once more, only if the worker had already collected it and not yet called it.\<close>

theorem timers_fire_as_registered:
  assumes "length ops < 2 ^ 64 - 1"
  shows "case timer_run ops new_clock of (l, c) \<Rightarrow> distinct (registrations l) \<and>
    (\<forall>a t i b. l = a @ Collected t i # b \<longrightarrow>
      Cancelled_timer i \<notin> set a \<and>
      (\<exists>d p. Registered i d p \<in> set a \<and> d + int (collections i a) * p \<le> t \<and> (p = 0 \<longrightarrow> collections i a = 0))) \<and>
    (\<forall>a b. l = a @ b \<longrightarrow> prefix (fired a) (collected a)) \<and>
    (\<forall>a i b. l = a @ Cancelled_timer i # b \<longrightarrow>
      (\<exists>w. collected a = fired a @ w \<and> count_list (fired b) i \<le> (if i \<in> set w then 1 else 0)))"
proof -
  obtain l c where run: "timer_run ops new_clock = (l, c)" by fastforce
  have "history_ok [] (ck_table new_clock)" "batch_ok [] new_clock" "fires_in_order []"
    by (simp_all add: history_ok_def new_clock_def new_timers_def justified_def batch_ok_def fires_in_order_def)
  then have "history_ok l (ck_table c)" and o: "fires_in_order l"
    using history_run[OF _ _ _ _ run, of "[]"] assms by (simp_all add: new_clock_def new_timers_def)
  then have h: "distinct (registrations l)" "justified l" by (simp_all add: history_ok_def)
  then have "\<exists>d p. pending a i d p \<and> d \<le> t" if "l = a @ Collected t i # b" for a t i b
    using that unfolding justified_def by blast
  moreover have "prefix (fired a) (collected a)" if "l = a @ b" for a b using o that unfolding fires_in_order_def by (metis prefixI)
  ultimately show ?thesis using h(1) fires_after_cancel[OF h(2) o] unfolding run pending_def prod.case by blast
qed

text \<open>The third timer is cancelled by the callback of the second and fires all the same.\<close>

lemma timers_fire_as_registered_witness:
  "fst (timer_run [Periodic 0 10 (Some ''f''), Oneshot 5 3 (Some ''g''), Periodic 5 5 (Some ''h''), Collect 25, Call, Cancel 1, Call, Cancel 3, Call, Collect 100] new_clock) =
     [Registered 1 10 10, Registered 2 8 0, Registered 3 10 5, Collected 25 1, Collected 25 2, Collected 25 3, Fired 1, Cancelled_timer 1, Fired 2,
      Cancelled_timer 3, Fired 3] \<and>
   distinct (registrations [Registered 1 10 10, Registered 2 8 0, Registered 3 10 5, Collected 25 1, Collected 25 2, Collected 25 3, Fired 1,
      Cancelled_timer 1, Fired 2, Cancelled_timer 3, Fired 3])"
proof -
  let ?ops = "[Periodic 0 10 (Some ''f''), Oneshot 5 3 (Some ''g''), Periodic 5 5 (Some ''h''), Collect 25, Call, Cancel 1, Call, Cancel 3, Call, Collect 100]"
  have run: "fst (timer_run ?ops new_clock) =
     [Registered 1 10 10, Registered 2 8 0, Registered 3 10 5, Collected 25 1, Collected 25 2, Collected 25 3, Fired 1, Cancelled_timer 1, Fired 2,
      Cancelled_timer 3, Fired 3]" by code_simp
  moreover have "distinct (registrations (fst (timer_run ?ops new_clock)))"
    using timers_fire_as_registered[of ?ops] by (simp only: split_beta) simp
  ultimately show ?thesis by simp
qed

text \<open>The destructor can hang.  It notifies before the stop is requested, and requesting the stop notifies
  nobody, because the waits are not given the stop token: an idle worker that evaluates its predicate in
  between goes back to waiting.  From then on neither thread can move at any time, although the stop is
  requested and the worker has not ended.\<close>

theorem destructor_can_hang:
  "\<exists>s. service_steps new_service s \<and> sv_destructor s = Joining \<and> sv_worker s \<noteq> Finished \<and>
     (\<forall>s'. service_steps s s' \<longrightarrow> s' = s)"
proof -
  define s where "s = new_service \<lparr> sv_worker := Idle_wait, sv_destructor := Joining \<rparr>"
  have "service_steps new_service s"
    unfolding new_service_def s_def
    apply (rule service_worker[where now = 0])
     apply (simp add: worker_step_def stop_requested_def next_deadline_def new_timers_def)
    apply (rule service_destructor)
     apply (simp add: destructor_step_def)
    apply (rule service_worker[where now = 0])
     apply (simp add: worker_step_def stop_requested_def new_timers_def)
    apply (rule service_destructor)
     apply (simp add: destructor_step_def)
    apply (simp add: service_refl new_timers_def)
    done
  moreover have "worker_step now s = None" "destructor_step s = None" for now
    by (simp_all add: s_def new_service_def worker_step_def destructor_step_def)
  then have "service_steps s s' \<Longrightarrow> s' = s" for s' by (auto elim: service_stepsE)
  ultimately show ?thesis by (intro exI[of _ s]) (auto simp: s_def new_service_def)
qed

end
