(* ===== verification/Providers.thy ===== *)
theory Providers
  imports Streams Tools
begin

text \<open>
  Language-model providers: the decorators around a provider (common/llm/illmprovider_decorator.cpp,
  tracing_decorator.cpp, cost_tracking_decorator.cpp, compliance_decorator.cpp,
  rate_limit_decorator.cpp), the provider factory (llm_provider_factory.cpp) and the providers that
  need no library (mock_provider.cpp, finetune_provider.cpp, orchestration_illm_provider.cpp).  The
  provider inside a chain of decorators is a parameter over a world of its own; the decorators
  share the budget controller and the bus, whose emitted events are recorded.  Clocks, hashes and
  floating-point operations are parameters; token sums are assumed to fit an int.
\<close>

section \<open>Capture modes\<close>

datatype capture_mode = Off | Online | Training

fun capture_mode_to_string :: "capture_mode \<Rightarrow> string" where
  "capture_mode_to_string Off = ''Off''"
| "capture_mode_to_string Online = ''Online''"
| "capture_mode_to_string Training = ''Training''"

definition quoted :: "string \<Rightarrow> string" where
  "quoted s = CHR 0x27 # s @ [CHR 0x27]"

definition parse_capture_mode :: "string \<Rightarrow> capture_mode res" where
  "parse_capture_mode s =
     (if s = ''Off'' then Inr Off
      else if s = ''Online'' then Inr Online
      else if s = ''Training'' then Inr Training
      else Inl (Invalid_argument (''Invalid CaptureMode string: '' @ quoted s @ '' (expected '' @ quoted ''Off'' @ '', '' @
        quoted ''Online'' @ '', or '' @ quoted ''Training'' @ '', case-sensitive)'')))"

section \<open>Requests, worlds and decorators\<close>

record generation_request =
  rq_prompt :: string
  rq_params :: llm_config

text \<open>What the decorators of a chain share; the last component belongs to the provider inside.\<close>

record 'w llm_world =
  pw_budget :: budget_controller
  pw_events :: "event_builder list"
  pw_trace_counter :: "64 word"
  pw_inner :: 'w

text \<open>Operations on double: order, comparison with an int, addition of an int, subtraction of an int, conversion, and the refill
  for elapsed nanoseconds at a rate per minute added to a level.\<close>

record bucket_ops =
  bk_less :: "f64 \<Rightarrow> f64 \<Rightarrow> bool"
  bk_at_least :: "f64 \<Rightarrow> int \<Rightarrow> bool"
  bk_plus :: "f64 \<Rightarrow> int \<Rightarrow> f64"
  bk_minus :: "f64 \<Rightarrow> int \<Rightarrow> f64"
  bk_of_int :: "int \<Rightarrow> f64"
  bk_replenished :: "f64 \<Rightarrow> int \<Rightarrow> int \<Rightarrow> f64"

record 'w provider_env =
  pv_generate :: "generation_request \<Rightarrow> 'w \<Rightarrow> (llm_error + generation_result) \<times> 'w"
  pv_next :: "'w \<Rightarrow> string option \<times> 'w"
  pv_fp :: fp_ops
  pv_bucket :: bucket_ops
  pv_hash :: "string \<Rightarrow> 64 word"
  pv_double :: "32 word \<Rightarrow> f64"
  pv_steady_ns :: "'w \<Rightarrow> int"
  pv_timestamp :: "'w \<Rightarrow> string"

record tracing_state =
  ts_bus :: bool
  ts_trace_id :: string
  ts_request_start :: "int option"
  ts_capture_mode :: capture_mode

record bucket =
  bu_tenant :: string
  bu_tokens_per_minute :: int
  bu_remaining :: f64
  bu_last_refill :: int

datatype decorator_state =
    D_tracing tracing_state
  | D_cost
  | D_compliance bool
  | D_rate bucket

definition pw_emit :: "bool \<Rightarrow> event_builder \<Rightarrow> 'w llm_world \<Rightarrow> 'w llm_world" where
  "pw_emit bus e w = (if bus then w \<lparr> pw_events := pw_events w @ [e] \<rparr> else w)"

section \<open>Tracing\<close>

definition tracing_trace_id :: "int \<Rightarrow> 64 word \<Rightarrow> string" where
  "tracing_trace_id now k = ''llm-trace-'' @ int_str now @ ''-'' @ nat_str (unat k)"

definition params_json :: "'w provider_env \<Rightarrow> llm_config \<Rightarrow> json" where
  "params_json env p = jobj [(''provider'', JStr (lc_provider p)), (''model'', JStr (lc_model p)),
     (''temperature'', JFloat (pv_double env (lc_temperature p))), (''top_p'', JFloat (pv_double env (lc_top_p p))),
     (''max_tokens'', JInt (lc_max_tokens p)), (''n_ctx'', JInt (lc_n_ctx p))]"

definition request_args :: "'w provider_env \<Rightarrow> capture_mode \<Rightarrow> generation_request \<Rightarrow> json" where
  "request_args env mode rq =
     (let p = rq_params rq;
          args = jobj [(''model'', JStr (lc_model p)), (''max_tokens'', JInt (lc_max_tokens p)),
            (''prompt_hash'', JStr (nat_str (unat (pv_hash env (rq_prompt rq))))), (''params'', params_json env p)]
      in if mode = Off then args
         else jset ''system_prompt_source'' (JStr ''unknown'')
                (if length (rq_prompt rq) \<le> 64 * 1024 then jset ''prompt_text'' (JStr (rq_prompt rq)) args else args))"

definition trace_meta :: "string \<Rightarrow> json" where
  "trace_meta i = jobj [(''trace_id'', JStr i)]"

definition emit_request :: "'w provider_env \<Rightarrow> generation_request \<Rightarrow> tracing_state \<Rightarrow> 'w llm_world \<Rightarrow>
    tracing_state \<times> 'w llm_world" where
  "emit_request env rq t w =
     (if \<not> ts_bus t then (t, w)
      else let i = tracing_trace_id (pv_steady_ns env (pw_inner w)) (pw_trace_counter w)
        in (t \<lparr> ts_trace_id := i \<rparr>,
            pw_emit True (eb_meta (trace_meta i) (eb_args (request_args env (ts_capture_mode t) rq) (eb_new ''llm.request'')))
              (w \<lparr> pw_trace_counter := pw_trace_counter w + 1 \<rparr>)))"

definition response_args :: "capture_mode \<Rightarrow> int \<Rightarrow> llm_error + generation_result \<Rightarrow> json" where
  "response_args mode ms r = (case r of
       Inr g \<Rightarrow> (let args = jobj [(''duration_ms'', JInt ms), (''prompt_tokens'', JInt (gr_prompt_tokens g)),
            (''completion_tokens'', JInt (gr_completion_tokens g)),
            (''tokens'', JInt (gr_prompt_tokens g + gr_completion_tokens g)), (''ok'', JBool True)]
          in if mode = Online \<and> length (gr_text g) \<le> 1024 * 1024 then jset ''response_text'' (JStr (gr_text g)) args else args)
     | Inl e \<Rightarrow> jobj [(''duration_ms'', JInt ms), (''ok'', JBool False), (''error_code'', JInt (llm_code_number (le_code e))),
          (''error_message'', JStr (le_message e))])"

definition tracing_pre :: "'w provider_env \<Rightarrow> generation_request \<Rightarrow> tracing_state \<Rightarrow> 'w llm_world \<Rightarrow>
    tracing_state \<times> 'w llm_world" where
  "tracing_pre env rq t w =
     emit_request env rq (t \<lparr> ts_request_start := Some (pv_steady_ns env (pw_inner w)) \<rparr>) w"

definition tracing_post :: "'w provider_env \<Rightarrow> llm_error + generation_result \<Rightarrow> tracing_state \<Rightarrow> 'w llm_world \<Rightarrow>
    tracing_state \<times> 'w llm_world" where
  "tracing_post env r t w =
     (let ms = (case ts_request_start t of None \<Rightarrow> 0 | Some t0 \<Rightarrow> (pv_steady_ns env (pw_inner w) - t0) div 1000000)
      in (t \<lparr> ts_request_start := None \<rparr>,
          pw_emit (ts_bus t) (eb_meta (trace_meta (ts_trace_id t)) (eb_args (response_args (ts_capture_mode t) ms r)
            (eb_new ''llm.response''))) w))"

section \<open>Cost tracking\<close>

definition charge :: "'w provider_env \<Rightarrow> int \<Rightarrow> string \<Rightarrow> 'w llm_world \<Rightarrow> 'w llm_world" where
  "charge env n model w = w \<lparr> pw_budget := record_llm_call (pv_fp env) n model (pw_budget w) \<rparr>"

definition cost_post :: "'w provider_env \<Rightarrow> generation_request \<Rightarrow> llm_error + generation_result \<Rightarrow> 'w llm_world \<Rightarrow>
    'w llm_world" where
  "cost_post env rq r w = (case r of
       Inl e \<Rightarrow> w
     | Inr g \<Rightarrow> (let total = gr_prompt_tokens g + gr_completion_tokens g in
         if 0 < total then charge env total (lc_model (rq_params rq)) w else w))"

section \<open>Compliance\<close>

definition hash_json :: "64 word \<Rightarrow> json" where
  "hash_json h = JInt (uint h)"

definition compliance_event :: "(string \<times> json) list \<Rightarrow> event_builder" where
  "compliance_event kvs = eb_args (jobj kvs) (eb_new ''compliance.log'')"

definition completion_event :: "'w provider_env \<Rightarrow> 64 word \<Rightarrow> string \<Rightarrow> string \<Rightarrow> 'w llm_world \<Rightarrow> event_builder" where
  "completion_event env prompt_hash model text w = compliance_event
     [(''completion_hash'', hash_json (pv_hash env text)), (''prompt_hash'', hash_json prompt_hash),
      (''model'', JStr model), (''timestamp'', JStr (pv_timestamp env (pw_inner w)))]"

definition compliance_post :: "'w provider_env \<Rightarrow> generation_request \<Rightarrow> llm_error + generation_result \<Rightarrow> bool \<Rightarrow>
    'w llm_world \<Rightarrow> 'w llm_world" where
  "compliance_post env rq r bus w =
     (let h = pv_hash env (rq_prompt rq); model = lc_model (rq_params rq);
          w1 = pw_emit bus (compliance_event [(''prompt_hash'', hash_json h), (''model'', JStr model),
                 (''tenant_id'', JStr ''tenant_default''), (''timestamp'', JStr (pv_timestamp env (pw_inner w)))]) w
      in case r of Inl e \<Rightarrow> w1
         | Inr g \<Rightarrow> pw_emit bus (completion_event env h model (gr_text g) w) w1)"

section \<open>Rate limiting\<close>

definition new_bucket :: "'w provider_env \<Rightarrow> string \<Rightarrow> int \<Rightarrow> int \<Rightarrow> bucket" where
  "new_bucket env tenant tpm now = \<lparr> bu_tenant = tenant, bu_tokens_per_minute = tpm,
     bu_remaining = bk_of_int (pv_bucket env) tpm, bu_last_refill = now \<rparr>"

text \<open>\<open>std::min(a, b)\<close>\<close>

definition bk_min :: "bucket_ops \<Rightarrow> f64 \<Rightarrow> f64 \<Rightarrow> f64" where
  "bk_min ops a b = (if bk_less ops b a then b else a)"

definition bucket_refill :: "bucket_ops \<Rightarrow> int \<Rightarrow> bucket \<Rightarrow> bucket" where
  "bucket_refill ops now b = b \<lparr>
     bu_remaining := bk_min ops (bk_replenished ops (bu_remaining b) (now - bu_last_refill b) (bu_tokens_per_minute b))
       (bk_of_int ops (bu_tokens_per_minute b)),
     bu_last_refill := now \<rparr>"

definition bucket_try_consume :: "bucket_ops \<Rightarrow> int \<Rightarrow> int \<Rightarrow> bucket \<Rightarrow> bool \<times> bucket" where
  "bucket_try_consume ops now tokens b =
     (let n = (if tokens < 0 then 0 else tokens); b' = bucket_refill ops now b in
      if bk_at_least ops (bu_remaining b') n
      then (True, b' \<lparr> bu_remaining := bk_minus ops (bu_remaining b') n \<rparr>)
      else (False, b'))"

definition bucket_refund :: "bucket_ops \<Rightarrow> int \<Rightarrow> bucket \<Rightarrow> bucket" where
  "bucket_refund ops refund b = (if 0 < refund
     then b \<lparr> bu_remaining := bk_min ops (bk_plus ops (bu_remaining b) refund) (bk_of_int ops (bu_tokens_per_minute b)) \<rparr>
     else b)"

definition quota_exceeded :: "bucket \<Rightarrow> llm_error" where
  "quota_exceeded b = llm_err Rate_limited (''tenant '' @ bu_tenant b @ '' quota exceeded'')"

definition rate_pre :: "'w provider_env \<Rightarrow> generation_request \<Rightarrow> bucket \<Rightarrow> 'w llm_world \<Rightarrow> llm_error option \<times> bucket" where
  "rate_pre env rq b w =
     (let m = lc_max_tokens (rq_params rq) in
      if 0 < m then (case bucket_try_consume (pv_bucket env) (pv_steady_ns env (pw_inner w)) m b of
           (ok, b') \<Rightarrow> (if ok then None else Some (quota_exceeded b), b'))
      else (None, b))"

definition rate_post :: "'w provider_env \<Rightarrow> generation_request \<Rightarrow> llm_error + generation_result \<Rightarrow> bucket \<Rightarrow> bucket" where
  "rate_post env rq r b =
     (let m = lc_max_tokens (rq_params rq) in
      if m \<le> 0 then b
      else bucket_refund (pv_bucket env) (case r of Inl e \<Rightarrow> m | Inr g \<Rightarrow> m - (gr_prompt_tokens g + gr_completion_tokens g)) b)"

section \<open>A chain of decorators\<close>

text \<open>The two hooks of a decorator around one call.\<close>

definition pre_check :: "'w provider_env \<Rightarrow> generation_request \<Rightarrow> decorator_state \<Rightarrow> 'w llm_world \<Rightarrow>
    llm_error option \<times> decorator_state \<times> 'w llm_world" where
  "pre_check env rq d w = (case d of
       D_tracing t \<Rightarrow> (case tracing_pre env rq t w of (t', w') \<Rightarrow> (None, D_tracing t', w'))
     | D_rate b \<Rightarrow> (case rate_pre env rq b w of (e, b') \<Rightarrow> (e, D_rate b', w))
     | _ \<Rightarrow> (None, d, w))"

definition decorate_generate :: "'w provider_env \<Rightarrow> generation_request \<Rightarrow> llm_error + generation_result \<Rightarrow> decorator_state \<Rightarrow>
    'w llm_world \<Rightarrow> decorator_state \<times> 'w llm_world" where
  "decorate_generate env rq r d w = (case d of
       D_tracing t \<Rightarrow> (case tracing_post env r t w of (t', w') \<Rightarrow> (D_tracing t', w'))
     | D_cost \<Rightarrow> (d, cost_post env rq r w)
     | D_compliance bus \<Rightarrow> (d, compliance_post env rq r bus w)
     | D_rate b \<Rightarrow> (D_rate (rate_post env rq r b), w))"

text \<open>Generating through a chain, outermost decorator first.\<close>

fun chain_generate :: "'w provider_env \<Rightarrow> generation_request \<Rightarrow> decorator_state list \<Rightarrow> 'w llm_world \<Rightarrow>
    (llm_error + generation_result) \<times> decorator_state list \<times> 'w llm_world" where
  "chain_generate env rq [] w = (case pv_generate env rq (pw_inner w) of (r, i) \<Rightarrow> (r, [], w \<lparr> pw_inner := i \<rparr>))"
| "chain_generate env rq (d # ds) w = (case pre_check env rq d w of
       (Some e, d1, w1) \<Rightarrow> (Inl e, d1 # ds, w1)
     | (None, d1, w1) \<Rightarrow> (case chain_generate env rq ds w1 of
         (r, ds', w2) \<Rightarrow> (case decorate_generate env rq r d1 w2 of (d2, w3) \<Rightarrow> (r, d2 # ds', w3))))"

text \<open>The pre-check of a stream: tracing has none.\<close>

definition pre_check_stream :: "'w provider_env \<Rightarrow> generation_request \<Rightarrow> decorator_state \<Rightarrow> 'w llm_world \<Rightarrow>
    llm_error option \<times> decorator_state" where
  "pre_check_stream env rq d w = (case d of
       D_rate b \<Rightarrow> (case rate_pre env rq b w of (e, b') \<Rightarrow> (e, D_rate b'))
     | _ \<Rightarrow> (None, d))"

text \<open>Streams: what each decorator wraps around the stream below it, and the stream at the bottom, the
  provider's own or the one a refusing pre-check returns.\<close>

datatype stream_layer =
    Plain
  | Tracking bool string int
  | Comply bool bool "64 word" string string
  | Limited bool int int

datatype stream_base = Inner_stream | Refused llm_error

definition wrap_stream :: "'w provider_env \<Rightarrow> generation_request \<Rightarrow> decorator_state \<Rightarrow> stream_layer" where
  "wrap_stream env rq d = (let p = rq_params rq in case d of
       D_tracing t \<Rightarrow> Plain
     | D_cost \<Rightarrow> Tracking False (lc_model p) (lc_max_tokens p)
     | D_compliance bus \<Rightarrow> Comply False bus (pv_hash env (rq_prompt rq)) (lc_model p) []
     | D_rate b \<Rightarrow> Limited False (lc_max_tokens p) 0)"

text \<open>Opening a stream gives the layers above the bottom, each with its decorator, and the decorators from a
  refusing one on, which wrap nothing.\<close>

fun open_stream :: "'w provider_env \<Rightarrow> generation_request \<Rightarrow> decorator_state list \<Rightarrow> 'w llm_world \<Rightarrow>
    (decorator_state \<times> stream_layer) list \<times> stream_base \<times> decorator_state list" where
  "open_stream env rq [] w = ([], Inner_stream, [])"
| "open_stream env rq (d # ds) w = (case pre_check_stream env rq d w of
       (Some e, d1) \<Rightarrow> ([], Refused e, d1 # ds)
     | (None, d1) \<Rightarrow> (case open_stream env rq ds w of (ls, base, rest) \<Rightarrow> ((d1, wrap_stream env rq d1) # ls, base, rest)))"

text \<open>What a layer does with the chunk it is handed, and what its destructor does.\<close>

definition track_charge :: "'w provider_env \<Rightarrow> int \<Rightarrow> string \<Rightarrow> 'w llm_world \<Rightarrow> 'w llm_world" where
  "track_charge env m model w = (if 0 < m then charge env m model w else w)"

definition layer_next :: "'w provider_env \<Rightarrow> string option \<Rightarrow> decorator_state \<times> stream_layer \<Rightarrow> 'w llm_world \<Rightarrow>
    (decorator_state \<times> stream_layer) \<times> 'w llm_world" where
  "layer_next env c dl w = (case dl of (d, l) \<Rightarrow> (case (l, d) of
       (Tracking recorded model m, _) \<Rightarrow>
         if c = None \<and> \<not> recorded then ((d, Tracking True model m), track_charge env m model w) else (dl, w)
     | (Comply emitted bus h model acc, _) \<Rightarrow> (case c of
           Some t \<Rightarrow> ((d, Comply emitted bus h model (acc @ t)), w)
         | None \<Rightarrow> if \<not> emitted \<and> bus then ((d, Comply True bus h model acc), pw_emit True (completion_event env h model acc w) w)
                   else (dl, w))
     | (Limited refunded m actual, D_rate b) \<Rightarrow> (case c of
           Some t \<Rightarrow> ((d, Limited refunded m (actual + int (length t div 4))), w)
         | None \<Rightarrow> if \<not> refunded \<and> 0 < m
                   then ((D_rate (bucket_refund (pv_bucket env) (m - actual) b), Limited True m actual), w) else (dl, w))
     | _ \<Rightarrow> (dl, w)))"

definition layer_destroy :: "'w provider_env \<Rightarrow> decorator_state \<times> stream_layer \<Rightarrow> 'w llm_world \<Rightarrow>
    decorator_state \<times> 'w llm_world" where
  "layer_destroy env dl w = (case dl of (d, l) \<Rightarrow> (case (l, d) of
       (Tracking recorded model m, _) \<Rightarrow> (d, if \<not> recorded then track_charge env m model w else w)
     | (Comply emitted bus h model acc, _) \<Rightarrow>
         (d, if \<not> emitted then pw_emit bus (completion_event env h model acc w) w else w)
     | (Limited refunded m actual, D_rate b) \<Rightarrow>
         (if \<not> refunded \<and> 0 < m then D_rate (bucket_refund (pv_bucket env) (m - actual) b) else d, w)
     | _ \<Rightarrow> (d, w)))"

definition base_next :: "'w provider_env \<Rightarrow> stream_base \<Rightarrow> 'w llm_world \<Rightarrow> string option \<times> 'w llm_world" where
  "base_next env base w = (case base of
       Refused e \<Rightarrow> (None, w)
     | Inner_stream \<Rightarrow> (case pv_next env (pw_inner w) of (c, i) \<Rightarrow> (c, w \<lparr> pw_inner := i \<rparr>)))"

fun stream_next :: "'w provider_env \<Rightarrow> stream_base \<Rightarrow> (decorator_state \<times> stream_layer) list \<Rightarrow> 'w llm_world \<Rightarrow>
    string option \<times> (decorator_state \<times> stream_layer) list \<times> 'w llm_world" where
  "stream_next env base [] w = (case base_next env base w of (c, w1) \<Rightarrow> (c, [], w1))"
| "stream_next env base (dl # ls) w = (case stream_next env base ls w of
       (c, ls', w1) \<Rightarrow> (case layer_next env c dl w1 of (dl', w2) \<Rightarrow> (c, dl' # ls', w2)))"

text \<open>A layer is destroyed before the layer below it.\<close>

fun stream_destroy :: "'w provider_env \<Rightarrow> (decorator_state \<times> stream_layer) list \<Rightarrow> 'w llm_world \<Rightarrow>
    decorator_state list \<times> 'w llm_world" where
  "stream_destroy env [] w = ([], w)"
| "stream_destroy env (dl # ls) w = (case layer_destroy env dl w of
       (d, w1) \<Rightarrow> (case stream_destroy env ls w1 of (ds, w2) \<Rightarrow> (d # ds, w2)))"

section \<open>The chain the engine builds\<close>

datatype decorator = Tracing | CostTracking | Compliance | RateLimit int

definition MAX_CHAIN_DEPTH :: nat where
  "MAX_CHAIN_DEPTH = 5"

definition wrap_chain :: "decorator list \<Rightarrow> 'p \<Rightarrow> (decorator list \<times> 'p) res" where
  "wrap_chain ds base = (if MAX_CHAIN_DEPTH - 1 < length ds then Inl (Runtime_error ''decorator chain too deep'')
     else Inr (ds, base))"

definition decorators_for :: "bool \<Rightarrow> bool \<Rightarrow> int option \<Rightarrow> decorator list" where
  "decorators_for bus compliance rate = (if bus then [Tracing] else []) @ [CostTracking] @
     (if compliance \<and> bus then [Compliance] else []) @
     (case rate of None \<Rightarrow> [] | Some tpm \<Rightarrow> [RateLimit tpm])"

definition new_decorator :: "'w provider_env \<Rightarrow> int \<Rightarrow> decorator \<Rightarrow> decorator_state" where
  "new_decorator env now d = (case d of
       Tracing \<Rightarrow> D_tracing \<lparr> ts_bus = True, ts_trace_id = [], ts_request_start = None, ts_capture_mode = Off \<rparr>
     | CostTracking \<Rightarrow> D_cost
     | Compliance \<Rightarrow> D_compliance True
     | RateLimit tpm \<Rightarrow> D_rate (new_bucket env ''default'' tpm now))"

section \<open>The provider factory\<close>

text \<open>A created provider is described by what built it.\<close>

datatype built =
    Mock_provider
  | Cloud_adapter
  | Serialized_cloud string
  | Llama_adapter
  | Dynamic string

record provider_factory =
  pf_dynamic :: "(string \<times> string) list"
  pf_default :: string

definition is_reserved_backend :: "string \<Rightarrow> bool" where
  "is_reserved_backend n \<longleftrightarrow> n = ''mock'' \<or> n = ''openai'' \<or> n = ''anthropic'' \<or> n = ''deepseek'' \<or> n = ''minimax'' \<or>
     n = ''qwen'' \<or> n = ''moonshot'' \<or> n = ''custom'' \<or> n = ''local'' \<or> n = ''llama''"

definition is_cloud_backend :: "string \<Rightarrow> bool" where
  "is_cloud_backend n \<longleftrightarrow> n = ''openai'' \<or> n = ''anthropic'' \<or> n = ''deepseek'' \<or> n = ''minimax'' \<or>
     n = ''qwen'' \<or> n = ''moonshot'' \<or> n = ''custom''"

definition has_dynamic :: "string \<Rightarrow> provider_factory \<Rightarrow> bool" where
  "has_dynamic n f \<longleftrightarrow> map_of (pf_dynamic f) n \<noteq> None"

text \<open>A factory function is named; None is an empty function.\<close>

definition register_dynamic :: "string \<Rightarrow> string option \<Rightarrow> provider_factory \<Rightarrow> bool \<times> provider_factory" where
  "register_dynamic n fn f = (case fn of
       None \<Rightarrow> (False, f)
     | Some g \<Rightarrow>
         if n = [] then (False, f)
         else if is_reserved_backend n then (False, f)
         else if has_dynamic n f then (False, f)
         else (True, f \<lparr> pf_dynamic := kv_ins n g (pf_dynamic f) \<rparr>))"

definition kFinetuneModelName :: string where
  "kFinetuneModelName = ''agenticdsl-llama-3.1-70b-lora-v1''"

definition new_provider_factory :: provider_factory where
  "new_provider_factory = snd (register_dynamic kFinetuneModelName (Some ''finetune'')
     \<lparr> pf_dynamic = [], pf_default = [] \<rparr>)"

definition switch_default :: "string \<Rightarrow> provider_factory \<Rightarrow> bool \<times> provider_factory" where
  "switch_default n f = (if \<not> has_dynamic n f then (False, f) else (True, f \<lparr> pf_default := n \<rparr>))"

definition dynamic_names :: "provider_factory \<Rightarrow> string list" where
  "dynamic_names f = map fst (pf_dynamic f)"

definition factory_create :: "bool \<Rightarrow> string \<Rightarrow> provider_factory \<Rightarrow> built" where
  "factory_create serializer provider f =
     (let backend = (if provider = [] then pf_default f else provider) in
      case map_of (pf_dynamic f) backend of
        Some g \<Rightarrow> Dynamic g
      | None \<Rightarrow>
          if backend = ''mock'' \<or> backend = [] then Mock_provider
          else if is_cloud_backend backend
          then (if serializer then Serialized_cloud (''cloud-'' @ backend) else Cloud_adapter)
          else if backend = ''local'' \<or> backend = ''llama'' then Llama_adapter
          else Mock_provider)"

section \<open>The mock provider\<close>

datatype model_capability = Chat | Completion | Embedding | ToolUse | Vision

record model_info =
  mi_name :: string
  mi_capabilities :: "model_capability list"
  mi_context_window :: int
  mi_provider :: string

record mock =
  mk_queue :: "generation_result list"
  mk_fixed :: "generation_result option"
  mk_stream_tokens :: "string list"
  mk_history :: "generation_request list"
  mk_error :: "llm_error option"
  mk_delay_ms :: int
  mk_models :: "model_info list"

definition new_mock :: mock where
  "new_mock = \<lparr> mk_queue = [], mk_fixed = None, mk_stream_tokens = [], mk_history = [], mk_error = None,
     mk_delay_ms = 0, mk_models = [] \<rparr>"

definition text_result :: "string \<Rightarrow> generation_result" where
  "text_result t = empty_result \<lparr> gr_text := t \<rparr>"

definition enqueue_response :: "generation_result \<Rightarrow> mock \<Rightarrow> mock" where
  "enqueue_response r m = m \<lparr> mk_queue := mk_queue m @ [r] \<rparr>"

definition set_fixed_response :: "generation_result \<Rightarrow> mock \<Rightarrow> mock" where
  "set_fixed_response r m = m \<lparr> mk_fixed := Some r \<rparr>"

definition set_simulate_error :: "llm_code \<Rightarrow> string \<Rightarrow> mock \<Rightarrow> mock" where
  "set_simulate_error c msg m = m \<lparr> mk_error := Some (llm_err c msg) \<rparr>"

definition set_stream_tokens :: "string list \<Rightarrow> mock \<Rightarrow> mock" where
  "set_stream_tokens ts m = m \<lparr> mk_stream_tokens := ts \<rparr>"

definition set_simulate_delay :: "int \<Rightarrow> mock \<Rightarrow> mock" where
  "set_simulate_delay ms m = m \<lparr> mk_delay_ms := ms \<rparr>"

definition set_available_models :: "model_info list \<Rightarrow> mock \<Rightarrow> mock" where
  "set_available_models ms m = m \<lparr> mk_models := ms \<rparr>"

definition clear_history :: "mock \<Rightarrow> mock" where
  "clear_history m = m \<lparr> mk_history := [] \<rparr>"

definition mock_reset :: "mock \<Rightarrow> mock" where
  "mock_reset m = new_mock"

definition next_response :: "mock \<Rightarrow> generation_result \<times> mock" where
  "next_response m = (case mk_queue m of
       r # q \<Rightarrow> (r, m \<lparr> mk_queue := q \<rparr>)
     | [] \<Rightarrow> (case mk_fixed m of Some r \<Rightarrow> (r, m) | None \<Rightarrow> (empty_result, m)))"

text \<open>The delay loop in steps of 50 ms; the argument says before which step a stop is requested.  True: the
  delay was cancelled.\<close>

function delay_loop :: "(nat \<Rightarrow> bool) \<Rightarrow> nat \<Rightarrow> int \<Rightarrow> bool" where
  "delay_loop stop k remaining =
     (if remaining \<le> 0 then False else if stop k then True else delay_loop stop (Suc k) (remaining - min 50 remaining))"
  by pat_completeness auto
termination
  by (relation "measure (\<lambda>(stop, k, remaining). nat remaining)") auto

declare delay_loop.simps [simp del]

text \<open>Returning the simulated error moves its message out of the mock.\<close>

definition mock_generate :: "(nat \<Rightarrow> bool) \<Rightarrow> generation_request \<Rightarrow> mock \<Rightarrow> (llm_error + generation_result) \<times> mock" where
  "mock_generate stop rq m =
     (let m = m \<lparr> mk_history := mk_history m @ [rq] \<rparr> in
      if 0 < mk_delay_ms m \<and> delay_loop stop 0 (mk_delay_ms m)
      then (Inl (llm_err Llm_cancelled ''Cancelled during delay''), m)
      else case mk_error m of
        Some e \<Rightarrow> (Inl e, m \<lparr> mk_error := Some (e \<lparr> le_message := [] \<rparr>) \<rparr>)
      | None \<Rightarrow> (case next_response m of (r, m') \<Rightarrow> (Inr r, m')))"

text \<open>The words of a text, separated by white space.\<close>

function split_words :: "string \<Rightarrow> string list" where
  "split_words s = (let r = dropWhile is_space s in
     if r = [] then [] else takeWhile (\<lambda>c. \<not> is_space c) r # split_words (dropWhile (\<lambda>c. \<not> is_space c) r))"
  by pat_completeness auto
termination
proof (relation "measure length")
  fix s x :: string
  assume x: "x = dropWhile is_space s" "x \<noteq> []"
  then have h: "\<not> is_space (hd x)" using hd_dropWhile by blast
  then have "length (dropWhile (\<lambda>c. \<not> is_space c) x) < length x"
    using x(2) length_dropWhile_le[of "\<lambda>c. \<not> is_space c" "tl x"] by (cases x) auto
  moreover have "length x \<le> length s" using x(1) length_dropWhile_le by blast
  ultimately show "(dropWhile (\<lambda>c. \<not> is_space c) x, s) \<in> measure length" by simp
qed simp

declare split_words.simps [simp del]

record mock_stream =
  mt_tokens :: "string list"
  mt_index :: nat
  mt_active :: bool

definition mock_generate_stream :: "generation_request \<Rightarrow> mock \<Rightarrow> mock_stream \<times> mock" where
  "mock_generate_stream rq m =
     (let m = m \<lparr> mk_history := mk_history m @ [rq] \<rparr> in
      (\<lparr> mt_tokens = (if mk_stream_tokens m \<noteq> [] then mk_stream_tokens m else split_words (rq_prompt rq)),
         mt_index = 0, mt_active = True \<rparr>, m))"

definition mock_stream_next :: "bool \<Rightarrow> mock_stream \<Rightarrow> string option \<times> mock_stream" where
  "mock_stream_next stop s =
     (if \<not> mt_active s then (None, s)
      else if stop then (None, s \<lparr> mt_active := False \<rparr>)
      else if mt_index s < length (mt_tokens s) then (Some (mt_tokens s ! mt_index s), s \<lparr> mt_index := Suc (mt_index s) \<rparr>)
      else (None, s \<lparr> mt_active := False \<rparr>))"

definition mock_available_models :: "mock \<Rightarrow> model_info list" where
  "mock_available_models m = (if mk_models m \<noteq> [] then mk_models m
     else [\<lparr> mi_name = ''mock-llm-v1'', mi_capabilities = [Chat, ToolUse], mi_context_window = 4096, mi_provider = ''mock'' \<rparr>])"

section \<open>The fine-tuned stub and the orchestration provider\<close>

definition finetune_generate :: "llm_error + generation_result" where
  "finetune_generate = Inl (llm_err Llm_unknown ''Phase 2 deferred: finetune model inference not yet implemented'')"

definition finetune_available_models :: "llm_config \<Rightarrow> model_info list" where
  "finetune_available_models c = [\<lparr> mi_name = kFinetuneModelName, mi_capabilities = [Chat, ToolUse],
     mi_context_window = lc_n_ctx c, mi_provider = ''finetune'' \<rparr>]"

text \<open>The orchestration provider: without a provider an error, with a router the models are looked at.\<close>

definition orchestration_generate :: "(generation_request \<Rightarrow> 'w \<Rightarrow> (llm_error + generation_result) \<times> 'w) option \<Rightarrow>
    ('w \<Rightarrow> model_info list) \<Rightarrow> bool \<Rightarrow> generation_request \<Rightarrow> 'w \<Rightarrow> (llm_error + generation_result) \<times> 'w" where
  "orchestration_generate provider models router rq w = (case provider of
       None \<Rightarrow> (Inl (llm_err Invalid_request ''no inference provider''), w)
     | Some g \<Rightarrow> if router \<and> models w = [] then (Inl (llm_err Invalid_request ''no models available''), w) else g rq w)"

section \<open>Accounting for calls\<close>

definition charge_tokens :: "'w provider_env \<Rightarrow> string \<Rightarrow> int \<Rightarrow> budget_controller \<Rightarrow> budget_controller" where
  "charge_tokens env model n b = (if 0 < n then record_llm_call (pv_fp env) n model b else b)"

definition total_tokens :: "llm_error + generation_result \<Rightarrow> int" where
  "total_tokens r = (case r of Inl e \<Rightarrow> 0 | Inr g \<Rightarrow> gr_prompt_tokens g + gr_completion_tokens g)"

definition costs_in :: "decorator_state list \<Rightarrow> nat" where
  "costs_in ds = length (filter (\<lambda>d. d = D_cost) ds)"

lemma costs_in_simps [simp]:
  "costs_in [] = 0" "costs_in (d # ds) = (if d = D_cost then Suc (costs_in ds) else costs_in ds)"
  "costs_in (us @ vs) = costs_in us + costs_in vs"
  by (simp_all add: costs_in_def)

lemma pw_emit_simps [simp]:
  "pw_budget (pw_emit bus e w) = pw_budget w" "pw_inner (pw_emit bus e w) = pw_inner w"
  by (simp_all add: pw_emit_def)

lemma pre_check_passive:
  assumes "pre_check env rq d w = (e, d', w')"
  shows "pw_budget w' = pw_budget w" "pw_inner w' = pw_inner w" "e \<noteq> None \<Longrightarrow> \<exists>b. d' = D_rate b \<and> e = Some (quota_exceeded b)"
  using assms
  by (auto simp: pre_check_def tracing_pre_def emit_request_def rate_pre_def Let_def bucket_try_consume_def
      bucket_refill_def quota_exceeded_def split: decorator_state.splits prod.splits if_splits)

lemma decorate_generate_accounts:
  assumes "decorate_generate env rq r d w = (d', w')"
  shows "pw_inner w' = pw_inner w" "pw_budget w' = (if d = D_cost
    then charge_tokens env (lc_model (rq_params rq)) (total_tokens r) (pw_budget w) else pw_budget w)"
  using assms
  by (auto simp: decorate_generate_def tracing_post_def cost_post_def charge_def compliance_post_def Let_def
      charge_tokens_def total_tokens_def split: decorator_state.splits prod.splits sum.splits if_splits)

lemma chain_generate_accounts:
  "chain_generate env rq ds w = (r, ds', w') \<Longrightarrow>
     (\<exists>b. r = Inl (quota_exceeded b) \<and> pw_inner w' = pw_inner w \<and> pw_budget w' = pw_budget w \<and>
        D_rate b \<in> set ds') \<or>
     pv_generate env rq (pw_inner w) = (r, pw_inner w') \<and>
     pw_budget w' = (charge_tokens env (lc_model (rq_params rq)) (total_tokens r) ^^ costs_in ds) (pw_budget w)"
proof (induction ds arbitrary: w ds' w')
  case (Cons d ds)
  obtain e d1 w1 where p: "pre_check env rq d w = (e, d1, w1)" by (metis prod_cases3)
  note pf = pre_check_passive[OF p]
  show ?case
  proof (cases e)
    case (Some x)
    then show ?thesis using Cons.prems p pf by auto
  next
    case None
    obtain r1 ds1 w2 where g: "chain_generate env rq ds w1 = (r1, ds1, w2)" by (metis prod_cases3)
    obtain d2 w3 where q: "decorate_generate env rq r1 d1 w2 = (d2, w3)" by fastforce
    have eq: "r = r1" "ds' = d2 # ds1" "w' = w3" using Cons.prems p g q None by simp_all
    have d1: "d1 = D_cost \<longleftrightarrow> d = D_cost"
      using p by (auto simp: pre_check_def split: decorator_state.splits prod.splits)
    have zero: "charge_tokens env m 0 b = b" for m b by (simp add: charge_tokens_def)
    have "total_tokens (Inl y :: llm_error + generation_result) = 0" for y by (simp add: total_tokens_def)
    then show ?thesis
      using Cons.IH[OF g[folded eq(1)]] decorate_generate_accounts[OF q] pf(1,2) zero
      by (auto simp: eq d1)
  qed
qed (auto split: prod.splits)

section \<open>Accounting for streams\<close>

definition owed :: "(decorator_state \<times> stream_layer) list \<Rightarrow> nat" where
  "owed ls = length (filter (\<lambda>(d, l). \<exists>model m. l = Tracking False model m) ls)"

definition layers_for :: "string \<Rightarrow> int \<Rightarrow> (decorator_state \<times> stream_layer) list \<Rightarrow> bool" where
  "layers_for model m ls \<longleftrightarrow> (\<forall>(d, l) \<in> set ls. \<forall>r model' m'. l = Tracking r model' m' \<longrightarrow> model' = model \<and> m' = m)"

lemma owed_simps [simp]:
  "owed [] = 0" "owed ((d, l) # ls) = (case l of Tracking False model m \<Rightarrow> 1 | _ \<Rightarrow> 0) + owed ls"
  by (auto simp: owed_def split: stream_layer.splits)

lemma owed_Cons: "owed (x # ls) = owed [x] + owed ls"
  by (simp add: owed_def)

lemma layers_for_simps [simp]:
  "layers_for model m []"
  "layers_for model m ((d, l) # ls) \<longleftrightarrow> (\<forall>r model' m'. l = Tracking r model' m' \<longrightarrow> model' = model \<and> m' = m) \<and> layers_for model m ls"
  by (simp_all add: layers_for_def)

lemma layer_next_accounts:
  assumes "layer_next env c (d, l) w = ((d', l'), w')" "layers_for model m [(d, l)]"
  shows "layers_for model m [(d', l')] \<and>
    (charge_tokens env model m ^^ owed [(d', l')]) (pw_budget w') = (charge_tokens env model m ^^ owed [(d, l)]) (pw_budget w)"
  using assms
  by (cases l; cases d; cases c) (auto simp: layer_next_def track_charge_def charge_def charge_tokens_def split: if_splits)

lemma charge_comm: "(charge_tokens env model m ^^ a) ((charge_tokens env model m ^^ b) x) = (charge_tokens env model m ^^ (a + b)) x"
  by (simp add: funpow_add)

lemma stream_next_accounts:
  "stream_next env base ls w = (c, ls', w') \<Longrightarrow> layers_for model m ls \<Longrightarrow>
     layers_for model m ls' \<and>
     (charge_tokens env model m ^^ owed ls') (pw_budget w') = (charge_tokens env model m ^^ owed ls) (pw_budget w)"
proof (induction ls arbitrary: c ls' w')
  case Nil
  then show ?case by (auto simp: base_next_def split: stream_base.splits prod.splits)
next
  case (Cons dl ls)
  obtain d l where dl: "dl = (d, l)" by fastforce
  obtain c1 ls1 w1 where n: "stream_next env base ls w = (c1, ls1, w1)" by (metis prod_cases3)
  obtain d2 l2 w2 where q: "layer_next env c1 (d, l) w1 = ((d2, l2), w2)" by (metis prod.collapse)
  have eq: "ls' = (d2, l2) # ls1" "w' = w2" using Cons.prems n q dl by simp_all
  let ?C = "charge_tokens env model m"
  have l1: "layers_for model m ls1" "(?C ^^ owed ls1) (pw_budget w1) = (?C ^^ owed ls) (pw_budget w)"
    using Cons.IH[OF n] Cons.prems(2) dl by simp_all
  have l2: "layers_for model m [(d2, l2)]"
    "(?C ^^ owed [(d2, l2)]) (pw_budget w2) = (?C ^^ owed [(d, l)]) (pw_budget w1)"
  proof -
    have "layers_for model m [(d, l)]" using Cons.prems(2) unfolding dl by simp
    from layer_next_accounts[OF q this] show "layers_for model m [(d2, l2)]"
      "(?C ^^ owed [(d2, l2)]) (pw_budget w2) = (?C ^^ owed [(d, l)]) (pw_budget w1)" by blast+
  qed
  have "(?C ^^ owed ls') (pw_budget w') = (?C ^^ owed ls1) ((?C ^^ owed [(d2, l2)]) (pw_budget w2))"
    unfolding eq owed_Cons[of "(d2, l2)" ls1] charge_comm by (simp only: add.commute)
  also have "\<dots> = (?C ^^ owed ls1) ((?C ^^ owed [(d, l)]) (pw_budget w1))" unfolding l2(2) ..
  also have "\<dots> = (?C ^^ owed [(d, l)]) ((?C ^^ owed ls1) (pw_budget w1))"
    unfolding charge_comm by (simp only: add.commute)
  also have "\<dots> = (?C ^^ owed (dl # ls)) (pw_budget w)"
    unfolding l1(2) charge_comm dl owed_Cons[of "(d, l)" ls] ..
  finally show ?case using l1(1) l2(1) eq by simp
qed

lemma stream_destroy_accounts:
  "layers_for model m ls \<Longrightarrow>
   pw_budget (snd (stream_destroy env ls w)) = (charge_tokens env model m ^^ owed ls) (pw_budget w)"
proof (induction ls arbitrary: w)
  case (Cons dl ls)
  obtain d l where dl: "dl = (d, l)" by fastforce
  obtain d1 w1 where q: "layer_destroy env (d, l) w = (d1, w1)" by fastforce
  have "pw_budget w1 = (charge_tokens env model m ^^ owed [(d, l)]) (pw_budget w)"
    using q Cons.prems dl
    by (cases l; cases d) (auto simp: layer_destroy_def track_charge_def charge_def charge_tokens_def split: if_splits)
  moreover have "pw_budget (snd (stream_destroy env ls w1)) = (charge_tokens env model m ^^ owed ls) (pw_budget w1)"
    using Cons dl by simp
  ultimately show ?case using q dl by (simp add: charge_comm add.commute split_beta)
qed simp

fun stream_pulls :: "'w provider_env \<Rightarrow> stream_base \<Rightarrow> nat \<Rightarrow> (decorator_state \<times> stream_layer) list \<Rightarrow> 'w llm_world \<Rightarrow>
    (decorator_state \<times> stream_layer) list \<times> 'w llm_world" where
  "stream_pulls env base 0 ls w = (ls, w)"
| "stream_pulls env base (Suc n) ls w = (case stream_next env base ls w of (c, ls', w') \<Rightarrow> stream_pulls env base n ls' w')"

lemma stream_pulls_accounts:
  "stream_pulls env base n ls w = (ls', w') \<Longrightarrow> layers_for model m ls \<Longrightarrow>
     layers_for model m ls' \<and>
     (charge_tokens env model m ^^ owed ls') (pw_budget w') = (charge_tokens env model m ^^ owed ls) (pw_budget w)"
proof (induction n arbitrary: ls w)
  case (Suc n)
  obtain c ls1 w1 where s: "stream_next env base ls w = (c, ls1, w1)" by (metis prod_cases3)
  show ?case using Suc.IH[of ls1 w1] Suc.prems s stream_next_accounts[OF s Suc.prems(2)] by simp
qed simp

definition is_rate :: "decorator_state \<Rightarrow> bool" where
  "is_rate d \<longleftrightarrow> (\<exists>b. d = D_rate b)"

lemma open_stream_layers:
  "open_stream env rq ds w = (ls, base, rest) \<Longrightarrow> layers_for (lc_model (rq_params rq)) (lc_max_tokens (rq_params rq)) ls"
proof (induction ds arbitrary: ls)
  case (Cons d ds)
  then show ?case
    by (cases d) (auto simp: pre_check_stream_def wrap_stream_def Let_def split: prod.splits option.splits)
qed simp

lemma owed_no_cost: "D_cost \<notin> set ds \<Longrightarrow> open_stream env rq ds w = (ls, base, rest) \<Longrightarrow> owed ls = 0"
proof (induction ds arbitrary: ls)
  case (Cons d ds)
  then show ?case
    by (cases d) (auto simp: pre_check_stream_def wrap_stream_def Let_def split: prod.splits option.splits)
qed simp

lemma open_stream_owed:
  "\<forall>u \<in> set us. \<not> is_rate u \<Longrightarrow> D_cost \<notin> set vs \<Longrightarrow> open_stream env rq (us @ vs) w = (ls, base, rest) \<Longrightarrow>
     owed ls = costs_in us"
proof (induction us arbitrary: ls)
  case Nil
  then show ?case using owed_no_cost by simp
next
  case (Cons d us)
  obtain ls1 where o: "open_stream env rq (us @ vs) w = (ls1, base, rest)" and
    ls: "ls = (d, wrap_stream env rq d) # ls1"
    using Cons.prems by (cases d) (auto simp: pre_check_stream_def is_rate_def split: prod.splits)
  have "owed ls1 = costs_in us" using Cons.IH[OF _ _ o] Cons.prems(1,2) by simp
  then show ?case by (cases d) (auto simp: ls wrap_stream_def Let_def)
qed

section \<open>What the events show\<close>

text \<open>Two requests an observer of the bus should not tell apart: the same parameters, prompts with the same hash,
  and answers that differ at most in texts with the same hash.\<close>

definition same_answer :: "'w provider_env \<Rightarrow> llm_error + generation_result \<Rightarrow> llm_error + generation_result \<Rightarrow> bool" where
  "same_answer env r r' \<longleftrightarrow> (case (r, r') of
       (Inl e, Inl e') \<Rightarrow> e = e'
     | (Inr g, Inr g') \<Rightarrow> gr_prompt_tokens g = gr_prompt_tokens g' \<and> gr_completion_tokens g = gr_completion_tokens g' \<and>
         pv_hash env (gr_text g) = pv_hash env (gr_text g')
     | _ \<Rightarrow> False)"

definition same_request :: "'w provider_env \<Rightarrow> generation_request \<Rightarrow> generation_request \<Rightarrow> bool" where
  "same_request env rq rq' \<longleftrightarrow> rq_params rq = rq_params rq' \<and> pv_hash env (rq_prompt rq) = pv_hash env (rq_prompt rq') \<and>
     (\<forall>i. case (pv_generate env rq i, pv_generate env rq' i) of ((r, j), (r', j')) \<Rightarrow> same_answer env r r' \<and> j = j')"

definition no_capture :: "decorator_state \<Rightarrow> bool" where
  "no_capture d \<longleftrightarrow> (\<forall>t. d = D_tracing t \<longrightarrow> ts_capture_mode t = Off)"

lemma pre_check_blind:
  assumes "same_request env rq rq'" "no_capture d"
  shows "pre_check env rq' d w = pre_check env rq d w"
    "\<And>e d' w'. pre_check env rq d w = (e, d', w') \<Longrightarrow> no_capture d'"
proof -
  have "request_args env Off rq' = request_args env Off rq"
    using assms(1) by (simp add: request_args_def same_request_def Let_def)
  then show "pre_check env rq' d w = pre_check env rq d w"
    using assms by (auto simp: pre_check_def tracing_pre_def emit_request_def rate_pre_def same_request_def no_capture_def
        Let_def split: decorator_state.splits)
  show "no_capture d'" if "pre_check env rq d w = (e, d', w')" for e d' w'
    using assms(2) that by (auto simp: pre_check_def tracing_pre_def emit_request_def rate_pre_def no_capture_def
        Let_def split: decorator_state.splits prod.splits if_splits)
qed

lemma decorate_generate_blind:
  assumes "same_request env rq rq'" "no_capture d" "same_answer env r r'"
  shows "decorate_generate env rq' r' d w = decorate_generate env rq r d w"
proof -
  have p: "rq_params rq' = rq_params rq" "pv_hash env (rq_prompt rq') = pv_hash env (rq_prompt rq)"
    using assms(1) by (simp_all add: same_request_def)
  show ?thesis
  proof (cases r)
    case (Inl e)
    then have "r' = Inl e" using assms(3) by (cases r') (simp_all add: same_answer_def)
    then show ?thesis using Inl
      by (simp add: decorate_generate_def cost_post_def compliance_post_def rate_post_def p split: decorator_state.splits)
  next
    case (Inr g)
    then obtain g' where g: "r' = Inr g'" "gr_prompt_tokens g' = gr_prompt_tokens g"
      "gr_completion_tokens g' = gr_completion_tokens g" "pv_hash env (gr_text g') = pv_hash env (gr_text g)"
      using assms(3) by (cases r') (simp_all add: same_answer_def)
    have "response_args Off ms r' = response_args Off ms r" for ms using Inr g by (simp add: response_args_def Let_def)
    then show ?thesis using Inr g assms(2)
      by (auto simp: decorate_generate_def tracing_post_def cost_post_def compliance_post_def rate_post_def completion_event_def
          no_capture_def p Let_def split: decorator_state.splits)
  qed
qed

lemma chain_generate_blind:
  assumes "same_request env rq rq'"
  shows "list_all no_capture ds \<Longrightarrow> case (chain_generate env rq ds w, chain_generate env rq' ds w) of
     ((r, ds1, w1), (r', ds2, w2)) \<Rightarrow> same_answer env r r' \<and> ds1 = ds2 \<and> w1 = w2"
proof (induction ds arbitrary: w)
  case Nil
  then show ?case using assms by (auto simp: same_request_def split: prod.splits)
next
  case (Cons d ds)
  have d: "no_capture d" and ds: "list_all no_capture ds" using Cons.prems by auto
  obtain e d1 w1 where p: "pre_check env rq d w = (e, d1, w1)" by (metis prod_cases3)
  have p': "pre_check env rq' d w = (e, d1, w1)" and d1: "no_capture d1"
    using pre_check_blind[OF assms d, of w] p by auto
  show ?case
  proof (cases e)
    case (Some x)
    then show ?thesis using p p' by (simp add: same_answer_def)
  next
    case None
    obtain r ds1 w2 where g: "chain_generate env rq ds w1 = (r, ds1, w2)" by (metis prod_cases3)
    obtain r' ds1' w2' where g': "chain_generate env rq' ds w1 = (r', ds1', w2')" by (metis prod_cases3)
    have s: "same_answer env r r'" "ds1 = ds1'" "w2 = w2'" using Cons.IH[OF ds, of w1] g g' by auto
    show ?thesis using None p p' g g' s decorate_generate_blind[OF assms d1 s(1), of w2]
      by (auto split: prod.splits)
  qed
qed

section \<open>Properties\<close>

text \<open>C18. Every call through a chain of decorators is accounted for exactly.  Either a rate limiter refused it: then the
  answer is its refusal, the provider was not called and nothing was charged.  Or the provider was called once,
  its answer is returned unchanged, and each cost decorator charged the prompt and completion tokens of a
  successful answer to the model of the request.\<close>

theorem chain_generate_accounted:
  "case chain_generate env rq ds w of (r, ds', w') \<Rightarrow>
     (\<exists>b. D_rate b \<in> set ds' \<and> r = Inl (quota_exceeded b) \<and> pw_inner w' = pw_inner w \<and> pw_budget w' = pw_budget w) \<or>
     (r = fst (pv_generate env rq (pw_inner w)) \<and> pw_inner w' = snd (pv_generate env rq (pw_inner w)) \<and>
      pw_budget w' = (charge_tokens env (lc_model (rq_params rq)) (total_tokens r) ^^ costs_in ds) (pw_budget w))"
proof -
  obtain r ds' w' where c: "chain_generate env rq ds w = (r, ds', w')" by (metis prod_cases3)
  from chain_generate_accounts[OF c] show ?thesis by (auto simp: c)
qed

text \<open>C19. A stream is charged once.  Through any chain in which the cost decorators are above the rate limiters, as in the
  engine's, a stream that is opened, pulled any number of times and destroyed charges each cost
  decorator's estimate, the token limit of the request, exactly once, whether it was drained or abandoned.  This
  includes the stream a rate limiter refused, for which no provider was called.\<close>

theorem stream_charged_once:
  assumes "\<forall>u \<in> set us. \<not> is_rate u" "D_cost \<notin> set vs"
  shows "case open_stream env rq (us @ vs) w of (ls, base, rest) \<Rightarrow> case stream_pulls env base n ls w of (ls', w') \<Rightarrow>
    pw_budget (snd (stream_destroy env ls' w')) =
      (charge_tokens env (lc_model (rq_params rq)) (lc_max_tokens (rq_params rq)) ^^ costs_in us) (pw_budget w)"
proof -
  obtain ls base rest where o: "open_stream env rq (us @ vs) w = (ls, base, rest)" by (metis prod_cases3)
  obtain ls' w' where p: "stream_pulls env base n ls w = (ls', w')" by fastforce
  have "owed ls = costs_in us" by (rule open_stream_owed[OF assms o])
  moreover from stream_pulls_accounts[OF p open_stream_layers[OF o]]
  have "layers_for (lc_model (rq_params rq)) (lc_max_tokens (rq_params rq)) ls'"
    "(charge_tokens env (lc_model (rq_params rq)) (lc_max_tokens (rq_params rq)) ^^ owed ls') (pw_budget w') =
     (charge_tokens env (lc_model (rq_params rq)) (lc_max_tokens (rq_params rq)) ^^ owed ls) (pw_budget w)" by auto
  ultimately show ?thesis using stream_destroy_accounts[of _ _ ls' env w'] by (simp add: o p)
qed

definition sample_provider :: "nat provider_env" where
  "sample_provider = \<lparr> pv_generate = (\<lambda>rq n. (Inr \<lparr> gr_text = ''ok'', gr_prompt_tokens = 2, gr_completion_tokens = 3,
       gr_finish_reason = [] \<rparr>, Suc n)), pv_next = (\<lambda>n. (Some ''t'', n)),
     pv_fp = \<lparr> fp_add = (+), fp_mul = (*), fp_of_int = word_of_int \<rparr>,
     pv_bucket = \<lparr> bk_less = (<), bk_at_least = (\<lambda>x n. word_of_int n \<le> x), bk_plus = (\<lambda>x n. x + word_of_int n),
       bk_minus = (\<lambda>x n. x - word_of_int n), bk_of_int = word_of_int, bk_replenished = (\<lambda>x _ _. x) \<rparr>,
     pv_hash = (\<lambda>s. of_nat (length s)), pv_double = (\<lambda>_. 0), pv_steady_ns = (\<lambda>n. int n), pv_timestamp = (\<lambda>_. []) \<rparr>"

definition sample_request :: "string \<Rightarrow> generation_request" where
  "sample_request p = \<lparr> rq_prompt = p, rq_params = default_llm_config \<rparr>"

definition sample_world :: "nat llm_world" where
  "sample_world = \<lparr> pw_budget = new_budget_controller 0 None, pw_events = [], pw_trace_counter = 0, pw_inner = 0 \<rparr>"

lemma stream_charged_once_witness:
  "case open_stream sample_provider (sample_request ''hi'') [D_cost, D_rate (new_bucket sample_provider ''default'' 1 0)] sample_world of
     (ls, base, rest) \<Rightarrow> base = Refused (llm_err Rate_limited ''tenant default quota exceeded'') \<and>
       pw_budget (snd (stream_destroy sample_provider ls sample_world)) =
         charge_tokens sample_provider ''gpt-4o-mini'' 2048 (pw_budget sample_world)"
proof -
  let ?b = "new_bucket sample_provider ''default'' 1 0"
  have o: "open_stream sample_provider (sample_request ''hi'') [D_cost, D_rate ?b] sample_world =
     ([(D_cost, Tracking False ''gpt-4o-mini'' 2048)], Refused (llm_err Rate_limited ''tenant default quota exceeded''),
      [D_rate (?b \<lparr> bu_last_refill := 0 \<rparr>)])"
    by (simp add: pre_check_stream_def rate_pre_def sample_request_def default_llm_config_def bucket_try_consume_def Let_def
        bucket_refill_def new_bucket_def sample_provider_def bk_min_def quota_exceeded_def wrap_stream_def sample_world_def
        word_le_nat_alt)
  then show ?thesis
    using stream_charged_once[of "[D_cost]" "[D_rate ?b]" sample_provider "sample_request ''hi''" sample_world 0]
    by (simp add: is_rate_def sample_request_def default_llm_config_def)
qed

text \<open>C20. Unless capture was switched on, prompts and answers do not reach the bus.  Two requests with the same parameters
  and prompts of the same hash, answered by texts of the same hash, leave a chain of decorators in the same
  state and emit the same events.\<close>

theorem events_reveal_only_hashes:
  assumes "same_request env rq rq'" "list_all no_capture ds"
  shows "snd (chain_generate env rq ds w) = snd (chain_generate env rq' ds w)"
  using chain_generate_blind[OF assms, of w] by (auto split: prod.splits)

lemma events_reveal_only_hashes_witness:
  "snd (chain_generate sample_provider (sample_request ''ab'')
      (map (new_decorator sample_provider 0) (decorators_for True True (Some 9000))) sample_world) =
   snd (chain_generate sample_provider (sample_request ''cd'')
      (map (new_decorator sample_provider 0) (decorators_for True True (Some 9000))) sample_world)"
  by (rule events_reveal_only_hashes)
    (simp_all add: same_request_def sample_request_def sample_provider_def same_answer_def decorators_for_def
      new_decorator_def no_capture_def)

text \<open>The decorators' engine chain never is too deep.\<close>

lemma wrap_chain_engine: "wrap_chain (decorators_for bus compliance rate) base = Inr (decorators_for bus compliance rate, base)"
  by (simp add: wrap_chain_def decorators_for_def MAX_CHAIN_DEPTH_def split: option.splits)

datatype factory_op = Register string "string option" | Switch string

definition factory_apply :: "factory_op \<Rightarrow> provider_factory \<Rightarrow> provider_factory" where
  "factory_apply a f = (case a of Register n g \<Rightarrow> snd (register_dynamic n g f) | Switch n \<Rightarrow> snd (switch_default n f))"

definition factory_ok :: "provider_factory \<Rightarrow> bool" where
  "factory_ok f \<longleftrightarrow> (\<forall>n. has_dynamic n f \<longrightarrow> n \<noteq> [] \<and> \<not> is_reserved_backend n) \<and> (pf_default f = [] \<or> has_dynamic (pf_default f) f)"

lemma factory_apply_ok: "factory_ok f \<Longrightarrow> factory_ok (factory_apply a f)"
  by (cases a) (auto simp: factory_ok_def factory_apply_def register_dynamic_def switch_default_def has_dynamic_def
      split: option.splits if_splits)

lemma factory_fold_ok: "factory_ok f \<Longrightarrow> factory_ok (fold factory_apply ops f)"
  by (induction ops arbitrary: f) (simp_all add: factory_apply_ok)

lemma new_factory_ok: "factory_ok new_provider_factory"
  by (simp add: factory_ok_def new_provider_factory_def register_dynamic_def has_dynamic_def kFinetuneModelName_def
      is_reserved_backend_def)

text \<open>Dynamic backends never shadow the built-in ones.  After any registrations and switches, a reserved name gets
  its built-in provider, registered names their own, and a name nobody knows gets the mock; the default
  is always a registered name or unset.\<close>

theorem reserved_backends_stay_built_in:
  "let f = fold factory_apply ops new_provider_factory in
     (pf_default f = [] \<or> has_dynamic (pf_default f) f) \<and>
     factory_create serializer ''mock'' f = Mock_provider \<and>
     factory_create serializer ''local'' f = Llama_adapter \<and> factory_create serializer ''llama'' f = Llama_adapter \<and>
     list_all (\<lambda>n. factory_create serializer n f = (if serializer then Serialized_cloud (''cloud-'' @ n) else Cloud_adapter))
       [''openai'', ''anthropic'', ''deepseek'', ''minimax'', ''qwen'', ''moonshot'', ''custom''] \<and>
     (factory_create serializer n f = (case map_of (pf_dynamic f) n of
        Some g \<Rightarrow> Dynamic g
      | None \<Rightarrow> if n = [] then factory_create serializer (pf_default f) f
               else if is_reserved_backend n then factory_create serializer n new_provider_factory else Mock_provider))"
proof -
  define f where "f = fold factory_apply ops new_provider_factory"
  have ok: "factory_ok f" using factory_fold_ok[OF new_factory_ok] by (simp add: f_def)
  have none: "map_of (pf_dynamic f) n = None" if "is_reserved_backend n" for n
    using ok that by (auto simp: factory_ok_def has_dynamic_def)
  have fresh: "is_reserved_backend n \<Longrightarrow> map_of (pf_dynamic new_provider_factory) n = None" for n
    using new_factory_ok by (auto simp: factory_ok_def has_dynamic_def)
  have r: "is_reserved_backend ''mock''" "is_reserved_backend ''local''" "is_reserved_backend ''llama''"
    "is_reserved_backend ''openai''" "is_reserved_backend ''anthropic''" "is_reserved_backend ''deepseek''"
    "is_reserved_backend ''minimax''" "is_reserved_backend ''qwen''" "is_reserved_backend ''moonshot''" "is_reserved_backend ''custom''"
    by (simp_all add: is_reserved_backend_def)
  have nil: "map_of (pf_dynamic f) [] = None" using ok by (auto simp: factory_ok_def has_dynamic_def)
  have "factory_create serializer n f = (case map_of (pf_dynamic f) n of
        Some g \<Rightarrow> Dynamic g
      | None \<Rightarrow> if n = [] then factory_create serializer (pf_default f) f
               else if is_reserved_backend n then factory_create serializer n new_provider_factory else Mock_provider)"
  proof (cases "n = []")
    case True
    then show ?thesis by (simp add: nil factory_create_def Let_def)
  next
    case False
    then show ?thesis using fresh[of n]
      by (cases "map_of (pf_dynamic f) n")
        (auto simp: factory_create_def Let_def is_reserved_backend_def is_cloud_backend_def)
  qed
  moreover have "pf_default f = [] \<or> has_dynamic (pf_default f) f" using ok by (simp add: factory_ok_def)
  ultimately show ?thesis unfolding f_def[symmetric] Let_def
    by (simp add: factory_create_def[of _ "_ # _"] Let_def none[OF r(1)] none[OF r(2)] none[OF r(3)] none[OF r(4)] none[OF r(5)]
        none[OF r(6)] none[OF r(7)] none[OF r(8)] none[OF r(9)] none[OF r(10)] is_cloud_backend_def)
qed

end
