(* ===== verification/Serializer.thy ===== *)
theory Serializer
  imports Streams
begin

text \<open>
  The serializing decorator (common/llm/serializing_decorator.cpp): any number of threads call a provider
  that must be used by one at a time.  A call is cut into the sections it executes under the mutex: it
  enters and either goes in, is cancelled, or waits; a notified waiter looks again; the call inside
  returns or throws.  The query available_models keeps the mutex while it is inside the provider, where a call, which has
  released the mutex, may be too.  An execution is any list of such actions of any threads.
\<close>

text \<open>Where a thread is.  \<open>Waiting True\<close> has been notified; \<open>Threw\<close> left by an exception of the provider.\<close>

datatype caller = Outside | Waiting bool | Inside | Returned | Cancelled_call | Threw

record serializer =
  sz_concurrent_count :: int
  sz_active_waiters :: int
  sz_cumulative_waiters :: nat
  sz_callers :: "nat \<Rightarrow> caller"
  sz_stop :: "nat \<Rightarrow> bool"
  sz_query :: "nat option"

text \<open>\<open>sz_query\<close> is the thread inside available_models, which holds the mutex.\<close>

definition new_serializer :: serializer where
  "new_serializer = \<lparr> sz_concurrent_count = 0, sz_active_waiters = 0, sz_cumulative_waiters = 0,
     sz_callers = (\<lambda>_. Outside), sz_stop = (\<lambda>_. False), sz_query = None \<rparr>"

definition notify_all :: "(nat \<Rightarrow> caller) \<Rightarrow> nat \<Rightarrow> caller" where
  "notify_all c = (\<lambda>t. case c t of Waiting _ \<Rightarrow> Waiting True | x \<Rightarrow> x)"

definition cancelled_error :: llm_error where
  "cancelled_error = llm_err Llm_cancelled ''SerializingDecorator: cancelled while waiting for serializer''"

text \<open>The predicate of the wait, and what follows it.\<close>

definition after_wait :: "nat \<Rightarrow> serializer \<Rightarrow> serializer" where
  "after_wait t s =
     (if sz_concurrent_count s \<noteq> 0 \<and> \<not> sz_stop s t then s \<lparr> sz_callers := (sz_callers s)(t := Waiting False) \<rparr>
      else if sz_stop s t
      then s \<lparr> sz_active_waiters := sz_active_waiters s - 1, sz_callers := notify_all ((sz_callers s)(t := Cancelled_call)) \<rparr>
      else s \<lparr> sz_concurrent_count := sz_concurrent_count s + 1, sz_active_waiters := sz_active_waiters s - 1,
               sz_callers := (sz_callers s)(t := Inside) \<rparr>)"

datatype serializer_action = Enter nat | Wake nat | Return nat | Throw nat | Request_stop nat | Call_again nat
  | Query nat | Query_done nat

fun serializer_do :: "serializer_action \<Rightarrow> serializer \<Rightarrow> serializer option" where
  "serializer_do (Enter t) s = (if sz_callers s t = Outside \<and> sz_query s = None
     then Some (after_wait t (s \<lparr> sz_active_waiters := sz_active_waiters s + 1,
            sz_cumulative_waiters := sz_cumulative_waiters s + 1 \<rparr>)) else None)"
| "serializer_do (Wake t) s = (if sz_callers s t = Waiting True \<and> sz_query s = None then Some (after_wait t s) else None)"
| "serializer_do (Return t) s = (if sz_callers s t = Inside \<and> sz_query s = None
     then Some (s \<lparr> sz_concurrent_count := sz_concurrent_count s - 1,
                    sz_callers := notify_all ((sz_callers s)(t := Returned)) \<rparr>) else None)"
| "serializer_do (Throw t) s = (if sz_callers s t = Inside
     then Some (s \<lparr> sz_callers := (sz_callers s)(t := Threw) \<rparr>) else None)"
| "serializer_do (Request_stop t) s = Some (s \<lparr> sz_stop := (sz_stop s)(t := True) \<rparr>)"
| "serializer_do (Call_again t) s = (if sz_callers s t \<in> {Returned, Cancelled_call}
     then Some (s \<lparr> sz_callers := (sz_callers s)(t := Outside), sz_stop := (sz_stop s)(t := False) \<rparr>) else None)"
| "serializer_do (Query t) s = (if sz_callers s t = Outside \<and> sz_query s = None then Some (s \<lparr> sz_query := Some t \<rparr>) else None)"
| "serializer_do (Query_done t) s = (if sz_query s = Some t then Some (s \<lparr> sz_query := None \<rparr>) else None)"

fun serializer_run :: "serializer_action list \<Rightarrow> serializer \<Rightarrow> serializer option" where
  "serializer_run [] s = Some s"
| "serializer_run (a # as) s = Option.bind (serializer_do a s) (serializer_run as)"

section \<open>The invariant\<close>

text \<open>The provider is held by at most one thread, inside or thrown out, and the two counters are exact.\<close>

definition holds :: "caller \<Rightarrow> bool" where
  "holds c \<longleftrightarrow> c = Inside \<or> c = Threw"

definition waits :: "caller \<Rightarrow> bool" where
  "waits c \<longleftrightarrow> (\<exists>b. c = Waiting b)"

definition holders :: "(nat \<Rightarrow> caller) \<Rightarrow> nat set" where
  "holders c = {t. holds (c t)}"

definition waiters :: "(nat \<Rightarrow> caller) \<Rightarrow> nat set" where
  "waiters c = {t. waits (c t)}"

definition exclusive :: "serializer \<Rightarrow> bool" where
  "exclusive s \<longleftrightarrow> (\<exists>H W. holders (sz_callers s) = H \<and> waiters (sz_callers s) = W \<and>
     (H = {} \<and> sz_concurrent_count s = 0 \<or> (\<exists>t. H = {t}) \<and> sz_concurrent_count s = 1) \<and>
     finite W \<and> sz_active_waiters s = int (card W))"

lemma holds_simps [simp]:
  "\<not> holds Outside" "\<not> holds (Waiting b)" "holds Inside" "\<not> holds Returned" "\<not> holds Cancelled_call" "holds Threw"
  by (simp_all add: holds_def)

lemma waits_simps [simp]:
  "\<not> waits Outside" "waits (Waiting b)" "\<not> waits Inside" "\<not> waits Returned" "\<not> waits Cancelled_call" "\<not> waits Threw"
  by (simp_all add: waits_def)

lemma caller_sets [simp]:
  "holders (c(t := x)) = (if holds x then insert t (holders c) else holders c - {t})"
  "waiters (c(t := x)) = (if waits x then insert t (waiters c) else waiters c - {t})"
  "holders (notify_all c) = holders c" "waiters (notify_all c) = waiters c"
proof -
  have "holds (notify_all c t) = holds (c t)" "waits (notify_all c t) = waits (c t)" for t
    by (cases "c t"; simp add: notify_all_def)+
  then show "holders (notify_all c) = holders c" "waiters (notify_all c) = waiters c"
    by (simp_all add: holders_def waiters_def)
qed (auto simp: holders_def waiters_def)

lemma in_caller_sets: "t \<in> holders c \<longleftrightarrow> holds (c t)" "t \<in> waiters c \<longleftrightarrow> waits (c t)"
  by (simp_all add: holders_def waiters_def)

lemma notify_all_simps [simp]:
  "notify_all c t = Threw \<longleftrightarrow> c t = Threw" "notify_all c t = Inside \<longleftrightarrow> c t = Inside"
  by (auto simp: notify_all_def split: caller.splits)

text \<open>A thread about to evaluate the predicate counts as waiting.\<close>

lemma after_wait_exclusive:
  assumes "holders (sz_callers s) = {} \<and> sz_concurrent_count s = 0 \<or> (\<exists>t. holders (sz_callers s) = {t}) \<and> sz_concurrent_count s = 1"
    "finite (waiters (sz_callers s))" "sz_active_waiters s = int (card (insert t (waiters (sz_callers s))))"
    "t \<notin> holders (sz_callers s)"
  shows "exclusive (after_wait t s)"
proof -
  have c: "int (card (insert t (waiters (sz_callers s)))) - 1 = int (card (waiters (sz_callers s) - {t}))"
    using assms(2) by (simp add: card.insert_remove)
  consider "sz_concurrent_count s \<noteq> 0" "\<not> sz_stop s t" | "sz_stop s t" | "sz_concurrent_count s = 0" "\<not> sz_stop s t" by blast
  then show ?thesis
  proof cases
    case 1
    then show ?thesis using assms by (simp add: after_wait_def exclusive_def)
  next
    case 2
    then show ?thesis using assms c by (simp add: after_wait_def exclusive_def)
  next
    case 3
    then show ?thesis using assms c by (simp add: after_wait_def exclusive_def)
  qed
qed

lemma serializer_do_exclusive:
  assumes "exclusive s" "serializer_do a s = Some s'"
  shows "exclusive s'"
proof (cases a)
  case (Enter t)
  have out: "sz_callers s t = Outside" "sz_query s = None" using assms(2) Enter by (simp_all split: if_splits)
  then have "t \<notin> holders (sz_callers s)" "t \<notin> waiters (sz_callers s)" by (auto simp: in_caller_sets)
  then show ?thesis using after_wait_exclusive[of "s \<lparr> sz_active_waiters := sz_active_waiters s + 1,
      sz_cumulative_waiters := sz_cumulative_waiters s + 1 \<rparr>" t] assms Enter out
    by (simp add: exclusive_def)
next
  case (Wake t)
  have w: "sz_callers s t = Waiting True" "sz_query s = None" using assms(2) Wake by (simp_all split: if_splits)
  then have "t \<notin> holders (sz_callers s)" "insert t (waiters (sz_callers s)) = waiters (sz_callers s)"
    by (auto simp: in_caller_sets insert_absorb)
  then show ?thesis using after_wait_exclusive[of s t] assms Wake w by (simp add: exclusive_def)
next
  case (Return t)
  then have i: "sz_callers s t = Inside" "sz_query s = None" using assms(2) by (simp_all split: if_splits)
  then have t: "t \<in> holders (sz_callers s)" "t \<notin> waiters (sz_callers s)" by (simp_all add: in_caller_sets)
  then have "holders (sz_callers s) = {t}" "sz_concurrent_count s = 1" using assms(1) by (auto simp: exclusive_def)
  then show ?thesis using assms Return i t(2) by (auto simp: exclusive_def)
next
  case (Throw t)
  then have i: "sz_callers s t = Inside" using assms(2) by (simp split: if_splits)
  then have t: "t \<in> holders (sz_callers s)" "t \<notin> waiters (sz_callers s)" by (simp_all add: in_caller_sets)
  then have "holders (sz_callers s) = {t}" "sz_concurrent_count s = 1" using assms(1) by (auto simp: exclusive_def)
  then show ?thesis using assms Throw i t(2) by (auto simp: exclusive_def)
next
  case (Request_stop t)
  then show ?thesis using assms by (auto simp: exclusive_def)
next
  case (Call_again t)
  then have i: "sz_callers s t = Returned \<or> sz_callers s t = Cancelled_call"
    and s': "s' = s \<lparr> sz_callers := (sz_callers s)(t := Outside), sz_stop := (sz_stop s)(t := False) \<rparr>"
    using assms(2) by (simp_all split: if_splits)
  from i have "t \<notin> holders (sz_callers s)" "t \<notin> waiters (sz_callers s)" by (auto simp: in_caller_sets)
  then have "holders (sz_callers s) - {t} = holders (sz_callers s)" "waiters (sz_callers s) - {t} = waiters (sz_callers s)"
    by simp_all
  then show ?thesis using assms(1) by (simp add: exclusive_def s')
qed (use assms in \<open>auto simp: exclusive_def split: if_splits\<close>)

lemma serializer_run_exclusive: "exclusive s \<Longrightarrow> serializer_run as s = Some s' \<Longrightarrow> exclusive s'"
  by (induction as arbitrary: s) (auto simp: bind_eq_Some_conv dest: serializer_do_exclusive)

lemma new_serializer_exclusive: "exclusive new_serializer"
  by (simp add: exclusive_def new_serializer_def holders_def waiters_def)

lemma exclusive_unique: "exclusive s \<Longrightarrow> holds (sz_callers s t) \<Longrightarrow> holds (sz_callers s u) \<Longrightarrow> t = u"
  unfolding in_caller_sets[symmetric] by (auto simp: exclusive_def)

lemma exclusive_count: "exclusive s \<Longrightarrow> sz_concurrent_count s = (if \<exists>t. holds (sz_callers s t) then 1 else 0)"
  unfolding in_caller_sets[symmetric] by (auto simp: exclusive_def)

text \<open>Once a thread has left by an exception it keeps the count, and nobody gets in.\<close>

lemma threw_stays:
  assumes "exclusive s" "sz_callers s t = Threw" "serializer_do a s = Some s'"
  shows "sz_callers s' t = Threw"
proof -
  have "sz_concurrent_count s \<noteq> 0" using exclusive_count[OF assms(1)] assms(2) by (auto intro: exI[of _ t])
  then show ?thesis using assms(2,3)
    by (cases a) (auto simp: after_wait_def split: if_splits)
qed

section \<open>Properties\<close>

text \<open>C23. Mutual exclusion of calls.  In every execution of any number of threads at most one call is inside the provider,
  beside at most one query of the models; the concurrency count is 1 exactly if a call is inside or left it by an exception, and
  the number of active waiters is exact.\<close>

theorem serializer_excludes:
  "case serializer_run as new_serializer of
     None \<Rightarrow> True
   | Some s \<Rightarrow> card {t. sz_callers s t = Inside} \<le> 1 \<and>
       card ({t. sz_callers s t = Inside} \<union> set_option (sz_query s)) \<le> 2 \<and>
       sz_concurrent_count s = (if \<exists>t. sz_callers s t = Inside \<or> sz_callers s t = Threw then 1 else 0) \<and>
       sz_active_waiters s = int (card {t. \<exists>b. sz_callers s t = Waiting b})"
proof (cases "serializer_run as new_serializer")
  case (Some s)
  have ex: "exclusive s" by (rule serializer_run_exclusive[OF new_serializer_exclusive Some])
  have one: "card {t. sz_callers s t = Inside} \<le> 1"
  proof (cases "\<exists>t. sz_callers s t = Inside")
    case True
    then obtain t where "sz_callers s t = Inside" ..
    then have "{t. sz_callers s t = Inside} = {t}" using exclusive_unique[OF ex] by fastforce
    then show ?thesis by simp
  qed simp
  moreover have "card (set_option (sz_query s)) \<le> 1" by (cases "sz_query s") simp_all
  then have "card ({t. sz_callers s t = Inside} \<union> set_option (sz_query s)) \<le> 2"
    using one card_Un_le[of "{t. sz_callers s t = Inside}" "set_option (sz_query s)"] by linarith
  moreover have "sz_active_waiters s = int (card {t. \<exists>b. sz_callers s t = Waiting b})"
    using ex by (simp add: exclusive_def waiters_def waits_def)
  ultimately show ?thesis using Some exclusive_count[OF ex] by (simp add: holds_def)
qed simp

text \<open>C24. An exception of the provider locks it for ever.  After a thread left by an exception no thread gets inside in
  any continuation, because the count is not taken back: every later call waits, or is cancelled.\<close>

theorem exception_locks_for_ever:
  assumes "serializer_run as new_serializer = Some s" "sz_callers s t = Threw" "serializer_run bs s = Some s'"
  shows "sz_callers s' u \<noteq> Inside \<and> sz_concurrent_count s' = 1"
proof -
  have ex: "exclusive s" by (rule serializer_run_exclusive[OF new_serializer_exclusive assms(1)])
  have s': "exclusive s' \<and> sz_callers s' t = Threw"
    using assms(2,3) ex
  proof (induction bs arbitrary: s)
    case (Cons b bs)
    then obtain s1 where s1: "serializer_do b s = Some s1" "serializer_run bs s1 = Some s'"
      by (auto simp: bind_eq_Some_conv)
    show ?case
      using Cons.IH[OF _ s1(2)] threw_stays[OF Cons.prems(3,1) s1(1)] serializer_do_exclusive[OF Cons.prems(3) s1(1)] by blast
  qed simp
  then have "sz_callers s' u = Inside \<Longrightarrow> u = t" using exclusive_unique[of s' t u] by (metis holds_simps(3,6))
  then show ?thesis using s' exclusive_count[of s'] by (auto intro: exI[of _ t])
qed

lemma exception_locks_for_ever_witness:
  "\<exists>s. serializer_run [Enter 0, Throw 0] new_serializer = Some s \<and> sz_callers s 0 = Threw \<and>
     (\<exists>s'. serializer_run [Enter 1] s = Some s' \<and> sz_callers s' 1 \<noteq> Inside \<and> sz_concurrent_count s' = 1)"
proof -
  let ?s = "new_serializer \<lparr> sz_concurrent_count := 1, sz_cumulative_waiters := 1, sz_callers := (\<lambda>_. Outside)(0 := Threw) \<rparr>"
  have r: "serializer_run [Enter 0, Throw 0] new_serializer = Some ?s"
    by (simp add: new_serializer_def after_wait_def)
  have "serializer_run [Enter 1] ?s = Some (?s \<lparr> sz_active_waiters := 1, sz_cumulative_waiters := 2,
      sz_callers := ((\<lambda>_. Outside)(0 := Threw))(1 := Waiting False) \<rparr>)" (is "_ = Some ?s'")
    by (simp add: new_serializer_def after_wait_def)
  from exception_locks_for_ever[OF r _ this, of 0 1] this r show ?thesis by auto
qed

text \<open>The mutex does not keep a query apart from a call: here two threads are inside the provider.\<close>

lemma query_beside_call:
  "\<exists>s. serializer_run [Enter 0, Query 1] new_serializer = Some s \<and> sz_callers s 0 = Inside \<and> sz_query s = Some 1"
  by (simp add: new_serializer_def after_wait_def)

text \<open>Requesting a stop does not wake the waiting call it is meant for.\<close>

lemma stop_does_not_wake:
  assumes "sz_callers s t = Waiting False" "serializer_do (Request_stop t) s = Some s'"
  shows "sz_callers s' t = Waiting False \<and> serializer_do (Wake t) s' = None"
  using assms by auto

end
