(* ===== verification/Storage.thy ===== *)
theory Storage
  imports HF_Prelude "HOL-Library.Multiset"
begin

text \<open>
  What the components that keep files share: a disk of files addressed by paths with the system calls
  the code makes on it (open, write, copy, rename), the names it builds (std::filesystem::path joins and
  stems), std::getline, and std::unordered_map as an association list in iteration order.  Every call
  that can fail takes its outcome from a list of faults, so a theorem for all disks covers every failure;
  a call beyond the list succeeds.
\<close>

section \<open>Lines\<close>

text \<open>The lines std::getline reads: a last line without line break counts unless it is empty.\<close>

fun getlines :: "string \<Rightarrow> string list" where
  "getlines [] = []"
| "getlines (c # cs) = (if CHR 0x0A = c then [] # getlines cs
     else case getlines cs of [] \<Rightarrow> [[c]] | l # ls \<Rightarrow> (c # l) # ls)"

lemma getlines_line [simp]: "CHR 0x0A \<notin> set l \<Longrightarrow> getlines (l @ CHR 0x0A # r) = l # getlines r"
  by (induction l) simp_all

lemma getlines_last: "CHR 0x0A \<notin> set l \<Longrightarrow> l \<noteq> [] \<Longrightarrow> getlines l = [l]"
proof (induction l)
  case (Cons c l)
  then show ?case by (cases l) simp_all
qed simp

lemma getlines_glued: "CHR 0x0A \<notin> set l \<Longrightarrow> l \<noteq> [] \<Longrightarrow>
    getlines (l @ r) = (case getlines r of [] \<Rightarrow> [l] | m # ms \<Rightarrow> (l @ m) # ms)"
proof (induction l)
  case (Cons c l)
  show ?case
  proof (cases "l = []")
    case True
    then show ?thesis using Cons.prems by (cases "getlines r") simp_all
  next
    case False
    then show ?thesis using Cons by (cases "getlines r") simp_all
  qed
qed simp

lemma getlines_append: "s = [] \<or> last s = CHR 0x0A \<Longrightarrow> getlines (s @ r) = getlines s @ getlines r"
proof (induction s)
  case (Cons c s)
  show ?case
  proof (cases "s = []")
    case True
    then show ?thesis using Cons.prems by simp
  next
    case False
    then have "getlines (s @ r) = getlines s @ getlines r" using Cons by simp
    moreover have "getlines s \<noteq> []" using False by (cases s) (simp_all split: list.splits)
    ultimately show ?thesis by (simp split: list.splits)
  qed
qed simp

section \<open>JSON without floating-point numbers\<close>

fun no_floats :: "json \<Rightarrow> bool" where
  "no_floats (JFloat _) = False"
| "no_floats (JArr xs) = (\<forall>x \<in> set xs. no_floats x)"
| "no_floats (JObj kvs) = (\<forall>kv \<in> set kvs. no_floats (snd kv))"
| "no_floats _ = True"

section \<open>Names\<close>

text \<open>\<open>dir / name\<close>, and \<open>path.stem()\<close>.\<close>

definition path_join :: "string \<Rightarrow> string \<Rightarrow> string" where
  "path_join dir name = (if name \<noteq> [] \<and> hd name = CHR ''/'' then name
     else if dir = [] \<or> last dir = CHR ''/'' then dir @ name else dir @ CHR ''/'' # name)"

definition file_name :: "string \<Rightarrow> string" where
  "file_name p = rev (takeWhile (\<lambda>c. c \<noteq> CHR ''/'') (rev p))"

definition path_stem :: "string \<Rightarrow> string" where
  "path_stem p = (let n = file_name p; r = dropWhile (\<lambda>c. c \<noteq> CHR ''.'') (rev n) in
     if n = ''..'' \<or> length r \<le> 1 then n else rev (tl r))"

section \<open>The disk\<close>

datatype fault = Succeeds | Fails | Short nat

record disk =
  dk_files :: "string \<Rightarrow> string option"
  dk_faults :: "fault list"

definition new_disk :: disk where
  "new_disk = \<lparr> dk_files = (\<lambda>_. None), dk_faults = [] \<rparr>"

definition call :: "disk \<Rightarrow> fault \<times> disk" where
  "call d = (case dk_faults d of [] \<Rightarrow> (Succeeds, d) | f # fs \<Rightarrow> (f, d \<lparr> dk_faults := fs \<rparr>))"

definition put_file :: "string \<Rightarrow> string \<Rightarrow> disk \<Rightarrow> disk" where
  "put_file p c d = d \<lparr> dk_files := (dk_files d)(p \<mapsto> c) \<rparr>"

definition contents :: "string \<Rightarrow> disk \<Rightarrow> string" where
  "contents p d = (case dk_files d p of None \<Rightarrow> [] | Some c \<Rightarrow> c)"

text \<open>\<open>open(p, O_WRONLY | O_CREAT | (O_TRUNC or O_APPEND))\<close>, \<open>write\<close> at the end of the file (the number of bytes
  written, or -1), and the std::filesystem calls.\<close>

definition open_file :: "bool \<Rightarrow> string \<Rightarrow> disk \<Rightarrow> bool \<times> disk" where
  "open_file trunc p d = (case call d of (f, d1) \<Rightarrow>
     if f = Fails then (False, d1)
     else (True, put_file p (if trunc then [] else contents p d1) d1))"

definition write_file :: "string \<Rightarrow> string \<Rightarrow> disk \<Rightarrow> int \<times> disk" where
  "write_file p s d = (case call d of (f, d1) \<Rightarrow> (case f of
       Succeeds \<Rightarrow> (int (length s), put_file p (contents p d1 @ s) d1)
     | Fails \<Rightarrow> (-1, d1)
     | Short n \<Rightarrow> (int (length (take n s)), put_file p (contents p d1 @ take n s) d1)))"

definition copy_file :: "string \<Rightarrow> string \<Rightarrow> disk \<Rightarrow> bool \<times> disk" where
  "copy_file p q d = (case call d of (f, d1) \<Rightarrow>
     (case dk_files d1 p of Some c \<Rightarrow> if f = Fails then (False, d1) else (True, put_file q c d1) | None \<Rightarrow> (False, d1)))"

definition rename_file :: "string \<Rightarrow> string \<Rightarrow> disk \<Rightarrow> bool \<times> disk" where
  "rename_file p q d = (case call d of (f, d1) \<Rightarrow>
     (case dk_files d1 p of
        Some c \<Rightarrow> if f = Fails then (False, d1)
                  else (True, d1 \<lparr> dk_files := (if p = q then dk_files d1 else (dk_files d1)(p := None, q \<mapsto> c)) \<rparr>)
      | None \<Rightarrow> (False, d1)))"

definition remove_file :: "string \<Rightarrow> disk \<Rightarrow> bool \<times> disk" where
  "remove_file p d = (case call d of (f, d1) \<Rightarrow>
     if f = Fails \<or> dk_files d1 p = None then (False, d1) else (True, d1 \<lparr> dk_files := (dk_files d1)(p := None) \<rparr>))"

text \<open>Directories: create_directories leaves a directory and those above it; a file can only be opened in a directory
  that exists.\<close>

definition parent_dir :: "string \<Rightarrow> string" where
  "parent_dir p = rev (drop 1 (dropWhile (\<lambda>c. c \<noteq> CHR ''/'') (rev p)))"

definition with_above :: "string \<Rightarrow> string \<Rightarrow> bool" where
  "with_above dir q \<longleftrightarrow> q = dir \<or> prefix (q @ ''/'') dir"

definition open_in :: "(string \<Rightarrow> bool) \<Rightarrow> bool \<Rightarrow> string \<Rightarrow> disk \<Rightarrow> bool \<times> disk" where
  "open_in dirs trunc p d = (if parent_dir p = [] \<or> dirs (parent_dir p) then open_file trunc p d else (False, d))"

lemma parent_dir_slash: "CHR ''/'' \<notin> set n \<Longrightarrow> parent_dir (q @ CHR ''/'' # n) = q"
proof -
  assume "CHR ''/'' \<notin> set n"
  then have "dropWhile (\<lambda>c. c \<noteq> CHR ''/'') (rev n @ CHR ''/'' # rev q) = CHR ''/'' # rev q"
    by (subst dropWhile_append2) auto
  then show ?thesis by (simp add: parent_dir_def)
qed

lemma parent_dir_join:
  assumes "CHR ''/'' \<notin> set n" "n \<noteq> []"
  shows "parent_dir (path_join dir n) = [] \<or> with_above dir (parent_dir (path_join dir n))"
proof -
  have h: "hd n \<noteq> CHR ''/''" using assms by (cases n) auto
  consider "dir = []" | "dir \<noteq> []" "last dir = CHR ''/''" | "dir \<noteq> []" "last dir \<noteq> CHR ''/''" by blast
  then show ?thesis
  proof cases
    case 1
    have e: "dropWhile (\<lambda>c. c \<noteq> CHR ''/'') (rev n) = []" using assms(1) by auto
    show ?thesis using 1 h by (simp add: path_join_def parent_dir_def e)
  next
    case 2
    then have d: "dir = butlast dir @ [CHR ''/'']" by (metis append_butlast_last_id)
    then have "path_join dir n = butlast dir @ CHR ''/'' # n"
      using h 2 unfolding path_join_def by (metis append.assoc append_Cons append_Nil)
    then have "parent_dir (path_join dir n) = butlast dir" using parent_dir_slash[OF assms(1)] by simp
    moreover have "prefix (butlast dir @ ''/'') dir" using d by (metis prefix_order.refl)
    ultimately show ?thesis by (simp add: with_above_def)
  next
    case 3
    then have "path_join dir n = dir @ CHR ''/'' # n" using h by (simp add: path_join_def)
    then show ?thesis using parent_dir_slash[OF assms(1)] by (simp add: with_above_def)
  qed
qed

lemma call_no_faults [simp]: "dk_faults d = [] \<Longrightarrow> call d = (Succeeds, d)"
  by (simp add: call_def)

lemma call_files [simp]: "dk_files (snd (call d)) = dk_files d"
  by (simp add: call_def split: list.splits)

lemma put_file_simps [simp]:
  "dk_files (put_file p c d) q = (if q = p then Some c else dk_files d q)"
  "dk_faults (put_file p c d) = dk_faults d"
  "contents p (put_file p c d) = c"
  "q \<noteq> p \<Longrightarrow> contents q (put_file p c d) = contents q d"
  by (simp_all add: put_file_def contents_def)

lemma put_file_twice [simp]: "put_file p c (put_file p c' d) = put_file p c d"
  by (simp add: put_file_def)

section \<open>Hash maps\<close>

text \<open>An association list in iteration order.  Where a new element goes is the library's choice, given by
  \<open>place\<close>; an old element keeps its place.\<close>

definition hm_put :: "(('k \<times> 'v) list \<Rightarrow> ('k \<times> 'v) list) \<Rightarrow> 'k \<Rightarrow> 'v \<Rightarrow> ('k \<times> 'v) list \<Rightarrow> ('k \<times> 'v) list" where
  "hm_put place k v m =
     (if map_of m k = None then place (m @ [(k, v)]) else map (\<lambda>(k', w). if k' = k then (k, v) else (k', w)) m)"

definition places :: "(('k \<times> 'v) list \<Rightarrow> ('k \<times> 'v) list) \<Rightarrow> bool" where
  "places place \<longleftrightarrow> (\<forall>m. mset (place m) = mset m)"

lemma places_set: "places place \<Longrightarrow> set (place m) = set m"
  by (metis places_def set_mset_mset)

lemma places_keys: "places place \<Longrightarrow> mset (map fst (place m)) = mset (map fst m)"
  by (simp add: places_def)

lemma hm_put_keys:
  assumes "places place" "distinct (map fst m)"
  shows "distinct (map fst (hm_put place k v m)) \<and> fst ` set (hm_put place k v m) = insert k (fst ` set m)"
proof (cases "map_of m k")
  case None
  have "mset (map fst (place (m @ [(k, v)]))) = mset (map fst m @ [k])" using places_keys[OF assms(1)] by simp
  moreover have "distinct (map fst m @ [k])" using assms(2) None by (auto simp: map_of_eq_None_iff)
  ultimately have "distinct (map fst (place (m @ [(k, v)])))" by (metis mset_eq_imp_distinct_iff)
  then show ?thesis using None places_set[OF assms(1)] by (simp add: hm_put_def)
next
  case (Some w)
  then have e: "hm_put place k v m = map (\<lambda>(k', w). if k' = k then (k, v) else (k', w)) m" by (simp add: hm_put_def)
  have f: "map fst (hm_put place k v m) = map fst m" unfolding e by (induction m) auto
  have "fst ` set (hm_put place k v m) = fst ` set m" using f by (metis list.set_map)
  moreover have "k \<in> fst ` set m" using Some by (metis domI dom_map_of_conv_image_fst)
  ultimately show ?thesis using assms(2) f by (simp add: insert_absorb)
qed

lemma hm_put_set:
  assumes "places place" "distinct (map fst m)"
  shows "set (hm_put place k v m) = insert (k, v) {p \<in> set m. fst p \<noteq> k}"
proof (cases "map_of m k")
  case None
  then have "\<forall>p\<in>set m. fst p \<noteq> k" by (force simp: map_of_eq_None_iff)
  then show ?thesis using None places_set[OF assms(1)] by (auto simp: hm_put_def)
next
  case (Some w)
  then have "(k, w) \<in> set m" by (rule map_of_SomeD)
  moreover have e: "hm_put place k v m = map (\<lambda>(k', w). if k' = k then (k, v) else (k', w)) m"
    using Some by (simp add: hm_put_def)
  ultimately show ?thesis unfolding e by (force simp: image_iff split: if_splits)
qed

lemma map_of_hm_put [simp]:
  assumes "places place" "distinct (map fst m)"
  shows "map_of (hm_put place k v m) = (map_of m)(k \<mapsto> v)"
proof (rule ext)
  fix x
  have d: "distinct (map fst (hm_put place k v m))" using hm_put_keys[OF assms] by blast
  show "map_of (hm_put place k v m) x = ((map_of m)(k \<mapsto> v)) x"
  proof (cases "x = k")
    case True
    then show ?thesis using d hm_put_set[OF assms] by (simp add: map_of_eq_Some_iff)
  next
    case False
    have "map_of (hm_put place k v m) x = Some y \<longleftrightarrow> map_of m x = Some y" for y
      using False d hm_put_set[OF assms] assms(2) by (simp add: map_of_eq_Some_iff)
    then show ?thesis using False by (metis fun_upd_other option.exhaust)
  qed
qed

end
