(* ===== verification/Session_Store.thy ===== *)
theory Session_Store
  imports Storage Bus Nodes
begin

text \<open>
  The tree of stored sessions (core/session_manager.cpp, session_manager.h): records appended to a file
  of JSON lines, the index kept in memory, branches, compaction, the reading of old files and the way
  from a leaf to the root.  The JSON text, the clock, the process id and the places of new elements in
  the two hash maps are parameters; system calls fail as the disk says.  A method of the class is one
  step, except that append_to_branch reads its parent and appends in two critical sections, which are
  two definitions.
\<close>

section \<open>Records\<close>

record session_node =
  sn_id :: string
  sn_parent_id :: string
  sn_branch_id :: string
  sn_content :: json

record branch_meta =
  bm_branch_id :: string
  bm_name :: string
  bm_forked_from_node :: string
  bm_created_at :: string

record session_handle =
  hd_session_id :: string
  hd_jsonl_path :: string

definition node_json :: "session_node \<Rightarrow> json" where
  "node_json n = jobj [(''id'', JStr (sn_id n)), (''parent_id'', JStr (sn_parent_id n)),
     (''branch_id'', JStr (sn_branch_id n)), (''content'', sn_content n)]"

definition branch_json :: "branch_meta \<Rightarrow> json" where
  "branch_json b = jobj [(''type'', JStr ''branch''), (''branch_id'', JStr (bm_branch_id b)), (''name'', JStr (bm_name b)),
     (''forked_from_node'', JStr (bm_forked_from_node b)), (''created_at'', JStr (bm_created_at b))]"

definition kSessionFileExt :: string where
  "kSessionFileExt = ''.jsonl''"

text \<open>What is not in the repository: nlohmann's dump, parse and stream reading, the operating system's error
  text and process id, the clock by the number of its reading, and the places in the hash maps.\<close>

record session_env =
  sv_dump :: "json \<Rightarrow> string res"
  sv_parse :: "string \<Rightarrow> json option"
  sv_parse_file :: "string \<Rightarrow> json res"
  sv_strerror :: string
  sv_pid :: nat
  sv_clock :: "nat \<Rightarrow> int"
  sv_place_node :: "(string \<times> session_node) list \<Rightarrow> (string \<times> session_node) list"
  sv_place_branch :: "(string \<times> branch_meta) list \<Rightarrow> (string \<times> branch_meta) list"

record session_manager =
  sm_dir :: string
  sm_session_id :: string
  sm_path :: string
  sm_node_counter :: "64 word"
  sm_branch_counter :: "64 word"
  sm_nodes :: "(string \<times> session_node) list"
  sm_branches :: "(string \<times> branch_meta) list"
  sm_current_branch :: string
  sm_children :: "(string \<times> string list) list"
  sm_bus :: bool
  sm_disk :: disk
  sm_ticks :: nat
  sm_events :: "event_builder list"

definition new_manager :: "string \<Rightarrow> bool \<Rightarrow> disk \<Rightarrow> session_manager" where
  "new_manager dir bus d = \<lparr> sm_dir = dir, sm_session_id = [], sm_path = [], sm_node_counter = 0, sm_branch_counter = 0,
     sm_nodes = [], sm_branches = [], sm_current_branch = [], sm_children = [], sm_bus = bus, sm_disk = d, sm_ticks = 0,
     sm_events = [] \<rparr>"

section \<open>Identifiers\<close>

definition kHex :: string where
  "kHex = ''0123456789abcdef''"

function hex_loop :: "nat \<Rightarrow> string \<Rightarrow> string" where
  "hex_loop v out = (if v = 0 then out else hex_loop (v div 16) (out @ [kHex ! (v mod 16)]))"
  by pat_completeness auto

termination by (relation "measure fst") auto

declare hex_loop.simps [simp del]

definition to_hex :: "64 word \<Rightarrow> string" where
  "to_hex v = (if v = 0 then ''0'' else rev (hex_loop (unat v) []))"

definition next_node_id :: "(string, session_manager) act" where
  "next_node_id s = (let n = sm_node_counter s + 1 in (Inr (''node_'' @ to_hex n), s \<lparr> sm_node_counter := n \<rparr>))"

definition next_branch_id :: "(string, session_manager) act" where
  "next_branch_id s = (let n = sm_branch_counter s + 1 in (Inr (''branch_'' @ to_hex n), s \<lparr> sm_branch_counter := n \<rparr>))"

definition read_clock :: "session_env \<Rightarrow> (string, session_manager) act" where
  "read_clock env s = (Inr (int_str (sv_clock env (sm_ticks s))), s \<lparr> sm_ticks := Suc (sm_ticks s) \<rparr>)"

section \<open>Opening and appending\<close>

definition system_error :: "session_env \<Rightarrow> string \<Rightarrow> exc" where
  "system_error env m = Runtime_error (m @ '': '' @ sv_strerror env)"

definition main_branch :: "string \<Rightarrow> branch_meta" where
  "main_branch tm = \<lparr> bm_branch_id = ''main'', bm_name = ''main'', bm_forked_from_node = [], bm_created_at = tm \<rparr>"

definition put_branch :: "session_env \<Rightarrow> branch_meta \<Rightarrow> session_manager \<Rightarrow> session_manager" where
  "put_branch env b s = s \<lparr> sm_branches := hm_put (sv_place_branch env) (bm_branch_id b) b (sm_branches s) \<rparr>"

definition open_session :: "session_env \<Rightarrow> string \<Rightarrow> (session_handle, session_manager) act" where
  "open_session env sid s =
     (if sid = [] then (Inl (Runtime_error ''SessionManager::open: session_id is empty''), s)
      else if CHR ''/'' \<in> set sid \<or> CHR 0x5C \<in> set sid
      then (Inl (Runtime_error ''SessionManager::open: session_id contains path separator''), s)
      else let path = path_join (sm_dir s) (sid @ kSessionFileExt);
               s1 = (if map_of (sm_branches s) ''main'' = None then put_branch env (main_branch []) s else s);
               s2 = (if sm_current_branch s1 = [] then s1 \<lparr> sm_current_branch := ''main'' \<rparr> else s1)
           in case open_file False path (sm_disk s2) of (ok, d) \<Rightarrow>
             (if ok then (Inr \<lparr> hd_session_id = sid, hd_jsonl_path = path \<rparr>,
                          s2 \<lparr> sm_disk := d, sm_session_id := sid, sm_path := path \<rparr>)
              else (Inl (system_error env (''SessionManager::open: ::open('' @ path @ '') failed'')), s2 \<lparr> sm_disk := d \<rparr>)))"

text \<open>One line appended to the current file, with the exceptions of the caller.\<close>

definition append_line :: "exc \<Rightarrow> (int \<Rightarrow> exc) \<Rightarrow> string \<Rightarrow> (unit, session_manager) act" where
  "append_line open_exc write_exc payload s = (case open_file False (sm_path s) (sm_disk s) of (ok, d) \<Rightarrow>
     (if \<not> ok then (Inl open_exc, s \<lparr> sm_disk := d \<rparr>)
      else case write_file (sm_path s) payload d of (n, d') \<Rightarrow>
        (if n \<noteq> int (length payload) then (Inl (write_exc n), s \<lparr> sm_disk := d' \<rparr>) else (Inr (), s \<lparr> sm_disk := d' \<rparr>))))"

definition persisted_event :: "session_env \<Rightarrow> session_node \<Rightarrow> session_manager \<Rightarrow> session_manager" where
  "persisted_event env n s = (if sm_bus s then s \<lparr> sm_ticks := Suc (sm_ticks s), sm_events := sm_events s @
       [eb_args (jobj [(''session_id'', JStr (path_stem (sm_path s))), (''node_id'', JStr (sn_id n)),
          (''branch_id'', JStr (sn_branch_id n)), (''timestamp'', JInt (sv_clock env (sm_ticks s)))])
        (eb_from ''session.persisted'' default_tool_result)] \<rparr> else s)"

definition add_child :: "string \<Rightarrow> string \<Rightarrow> (string \<times> string list) list \<Rightarrow> (string \<times> string list) list" where
  "add_child parent i cs = (if parent = [] then cs
     else kv_ins parent (List.insert i (case map_of cs parent of None \<Rightarrow> [] | Some is \<Rightarrow> is)) cs)"

definition index_node :: "session_env \<Rightarrow> session_node \<Rightarrow> session_manager \<Rightarrow> session_manager" where
  "index_node env n s = s \<lparr> sm_nodes := hm_put (sv_place_node env) (sn_id n) n (sm_nodes s),
     sm_children := add_child (sn_parent_id n) (sn_id n) (sm_children s) \<rparr>"

definition flush_append :: "session_env \<Rightarrow> session_node \<Rightarrow> (unit, session_manager) act" where
  "flush_append env n s =
     (if sm_path s = [] then (Inl (Runtime_error ''SessionManager::flush_append: no session opened (call open() first)''), s)
      else sbind (slift (sv_dump env (node_json n))) (\<lambda>line.
        let payload = line @ [CHR 0x0A] in
        sbind (append_line (system_error env (''SessionManager::flush_append: ::open('' @ sm_path s @ '') failed''))
          (\<lambda>k. system_error env (''SessionManager::flush_append: ::write failed (wrote '' @ int_str k @ '' of '' @
             nat_str (length payload) @ '' bytes)'')) payload) (\<lambda>_.
        smod (\<lambda>s. let s1 = index_node env n (persisted_event env n s) in
          if sn_branch_id n = [] \<or> sm_current_branch s1 = []
          then s1 \<lparr> sm_current_branch := (if sn_branch_id n = [] then ''main'' else sn_branch_id n) \<rparr> else s1))) s)"

definition flush_append_internal :: "session_env \<Rightarrow> branch_meta \<Rightarrow> (unit, session_manager) act" where
  "flush_append_internal env b s =
     (if sm_path s = [] then (Inl (Runtime_error ''flush_append_internal: no session opened''), s)
      else sbind (slift (sv_dump env (branch_json b))) (\<lambda>line.
        append_line (system_error env ''flush_append_internal: ::open failed'')
          (\<lambda>_. system_error env ''flush_append_internal: ::write failed'') (line @ [CHR 0x0A])) s)"

section \<open>Loading\<close>

definition read_branch :: "json \<Rightarrow> branch_meta res" where
  "read_branch j = ebind (jvalue_str ''branch_id'' [] j) (\<lambda>i. ebind (jvalue_str ''name'' [] j) (\<lambda>n.
     ebind (jvalue_str ''forked_from_node'' [] j) (\<lambda>f. ebind (jvalue_str ''created_at'' [] j) (\<lambda>c.
       Inr \<lparr> bm_branch_id = i, bm_name = n, bm_forked_from_node = f, bm_created_at = c \<rparr>))))"

definition read_node :: "json \<Rightarrow> session_node res" where
  "read_node j = ebind (jvalue_str ''id'' [] j) (\<lambda>i. ebind (jvalue_str ''parent_id'' [] j) (\<lambda>p.
     ebind (jvalue_str ''branch_id'' ''main'' j) (\<lambda>b.
       Inr \<lparr> sn_id = i, sn_parent_id = p, sn_branch_id = b,
             sn_content = (case jlookup ''content'' j of None \<Rightarrow> jempty | Some c \<Rightarrow> c) \<rparr>)))"

text \<open>A branch a node names but no record declares becomes a placeholder.\<close>

definition placeholder :: "session_env \<Rightarrow> string \<Rightarrow> session_manager \<Rightarrow> session_manager" where
  "placeholder env b s = (if b \<noteq> [] \<and> map_of (sm_branches s) b = None
     then put_branch env \<lparr> bm_branch_id = b, bm_name = b, bm_forked_from_node = [],
            bm_created_at = int_str (sv_clock env (sm_ticks s)) \<rparr> (s \<lparr> sm_ticks := Suc (sm_ticks s) \<rparr>)
     else s)"

fun load_lines :: "session_env \<Rightarrow> string list \<Rightarrow> string list \<Rightarrow> session_node list \<Rightarrow> (session_node list, session_manager) act" where
  "load_lines env [] seen result s = (Inr result, s)"
| "load_lines env (l # ls) seen result s =
     (if l = [] then load_lines env ls seen result s
      else case sv_parse env l of
        None \<Rightarrow> load_lines env ls seen result s
      | Some j \<Rightarrow>
          if jlookup ''type'' j = Some (JStr ''branch'')
          then (case read_branch j of
                  Inl e \<Rightarrow> (Inl e, s)
                | Inr b \<Rightarrow> load_lines env ls seen result (if bm_branch_id b \<noteq> [] then put_branch env b s else s))
          else (case read_node j of
                  Inl e \<Rightarrow> (Inl e, s)
                | Inr n \<Rightarrow>
                    if sn_id n \<noteq> [] \<and> sn_id n \<notin> set seen
                    then load_lines env ls (sn_id n # seen) (result @ [n])
                           (placeholder env (sn_branch_id n) (index_node env n s))
                    else load_lines env ls seen result s))"

definition load_jsonl :: "session_env \<Rightarrow> (session_node list, session_manager) act" where
  "load_jsonl env s = (if sm_path s = [] then (Inr [], s)
     else case dk_files (sm_disk s) (sm_path s) of
       None \<Rightarrow> (Inr [], s)
     | Some c \<Rightarrow> load_lines env (getlines c) [] [] s)"

section \<open>Reading the index\<close>

definition find_node :: "string \<Rightarrow> session_manager \<Rightarrow> session_node option" where
  "find_node i s = (if i = [] then None else map_of (sm_nodes s) i)"

definition list_branches :: "session_manager \<Rightarrow> branch_meta list" where
  "list_branches s = map snd (sm_branches s)"

definition list_all_nodes :: "session_manager \<Rightarrow> session_node list" where
  "list_all_nodes s = map snd (sm_nodes s)"

fun short_id_scan :: "string \<Rightarrow> session_node option \<Rightarrow> (string \<times> session_node) list \<Rightarrow> session_node option" where
  "short_id_scan short match [] = match"
| "short_id_scan short match ((i, n) # ns) =
     (if take (length short) i = short then (if match \<noteq> None then None else short_id_scan short (Some n) ns)
      else short_id_scan short match ns)"

definition get_node_by_short_id :: "string \<Rightarrow> session_manager \<Rightarrow> session_node option" where
  "get_node_by_short_id short s = (if short = [] then None else short_id_scan short None (sm_nodes s))"

definition childless :: "session_manager \<Rightarrow> string \<Rightarrow> bool" where
  "childless s i = (case map_of (sm_children s) i of None \<Rightarrow> True | Some cs \<Rightarrow> cs = [])"

definition branch_leaves :: "string \<Rightarrow> session_manager \<Rightarrow> string list" where
  "branch_leaves b s = map fst (filter (\<lambda>(i, n). sn_branch_id n = b \<and> childless s i) (sm_nodes s))"

definition get_branch_leaf :: "string \<Rightarrow> session_manager \<Rightarrow> string" where
  "get_branch_leaf b s = (if map_of (sm_branches s) b = None then []
     else case branch_leaves b s of [] \<Rightarrow> [] | i # _ \<Rightarrow> i)"

definition get_branch_leaf_node :: "string \<Rightarrow> session_manager \<Rightarrow> (branch_meta \<times> session_node) option" where
  "get_branch_leaf_node b s = (if b = [] then None
     else case map_of (sm_branches s) b of
       None \<Rightarrow> None
     | Some m \<Rightarrow> (case branch_leaves b s of
         [] \<Rightarrow> None
       | i # _ \<Rightarrow> (if i = [] then None else case map_of (sm_nodes s) i of None \<Rightarrow> None | Some n \<Rightarrow> Some (m, n))))"

definition get_root_node :: "session_manager \<Rightarrow> string" where
  "get_root_node s = (case filter (\<lambda>(i, n). sn_parent_id n = []) (sm_nodes s) of [] \<Rightarrow> [] | (i, _) # _ \<Rightarrow> i)"

section \<open>Branches\<close>

definition fork :: "session_env \<Rightarrow> string \<Rightarrow> string \<Rightarrow> (string, session_manager) act" where
  "fork env node name s =
     (if node = [] then (Inl (Runtime_error ''SessionManager::fork: node_id is empty''), s)
      else sbind (\<lambda>s. if sm_nodes s = [] then load_jsonl env s else (Inr [], s)) (\<lambda>_ s.
        if map_of (sm_nodes s) node = None then (Inl (Runtime_error ''SessionManager::fork: node_id not found in index''), s)
        else sbind next_branch_id (\<lambda>b. sbind (read_clock env) (\<lambda>tm.
          let m = \<lparr> bm_branch_id = b, bm_name = name, bm_forked_from_node = node, bm_created_at = tm \<rparr> in
          sbind (smod (\<lambda>s. put_branch env m s \<lparr> sm_current_branch := b \<rparr>)) (\<lambda>_.
          sbind (flush_append_internal env m) (\<lambda>_. sret b)))) s) s)"

definition switch_branch :: "string \<Rightarrow> (unit, session_manager) act" where
  "switch_branch b s = (if map_of (sm_branches s) b = None
     then (Inl (Runtime_error ''SessionManager::switch_branch: branch_id not found''), s)
     else (Inr (), s \<lparr> sm_current_branch := b \<rparr>))"

text \<open>The first critical section of append_to_branch: the current branch and the parent of its next node, the last
  leaf in iteration order, or where the branch was forked.\<close>

definition append_target :: "(string \<times> string, session_manager) act" where
  "append_target s =
     (if sm_current_branch s = []
      then (Inl (Runtime_error ''SessionManager::append_to_branch: no current branch (call fork/switch_branch first)''), s)
      else let b = sm_current_branch s;
               from_meta = (case map_of (sm_branches s) b of None \<Rightarrow> [] | Some m \<Rightarrow> bm_forked_from_node m)
           in (Inr (b, case branch_leaves b s of [] \<Rightarrow> from_meta | ls \<Rightarrow> last ls), s))"

definition append_at :: "session_env \<Rightarrow> string \<Rightarrow> string \<times> string \<Rightarrow> (string, session_manager) act" where
  "append_at env message bp = (case bp of (b, parent) \<Rightarrow> sbind next_node_id (\<lambda>i.
     sbind (flush_append env \<lparr> sn_id = i, sn_parent_id = parent, sn_branch_id = b,
        sn_content = jobj [(''message'', JStr message)] \<rparr>) (\<lambda>_. sret i)))"

definition append_to_branch :: "session_env \<Rightarrow> string \<Rightarrow> (string, session_manager) act" where
  "append_to_branch env message = sbind append_target (append_at env message)"

section \<open>Compaction\<close>

fun write_lines :: "exc \<Rightarrow> string \<Rightarrow> string res list \<Rightarrow> disk \<Rightarrow> unit res \<times> disk" where
  "write_lines ex p [] d = (Inr (), d)"
| "write_lines ex p (r # rs) d = (case r of
       Inl e \<Rightarrow> (Inl e, d)
     | Inr line \<Rightarrow> (case write_file p (line @ [CHR 0x0A]) d of (n, d') \<Rightarrow>
         (if n \<noteq> int (length (line @ [CHR 0x0A])) then (Inl ex, d') else write_lines ex p rs d')))"

definition compact :: "session_env \<Rightarrow> (unit, session_manager) act" where
  "compact env s =
     (if sm_path s = [] then (Inr (), s)
      else let d0 = snd (copy_file (sm_path s) (sm_path s @ ''.backup'') (sm_disk s));
               active = filter (\<lambda>n. sn_branch_id n = sm_current_branch s) (map snd (sm_nodes s));
               metas = map snd (filter (\<lambda>(b, m). b = sm_current_branch s) (sm_branches s));
               temp = sm_path s @ ''.tmp''
           in case open_file True temp d0 of (ok, d1) \<Rightarrow>
             (if \<not> ok then (Inl (system_error env ''SessionManager::compact: ::open temp file failed''), s \<lparr> sm_disk := d1 \<rparr>)
              else case write_lines (system_error env ''SessionManager::compact: ::write failed'') temp
                     (map (sv_dump env \<circ> node_json) active @ map (sv_dump env \<circ> branch_json) metas) d1 of
                (Inl e, d2) \<Rightarrow> (Inl e, s \<lparr> sm_disk := d2 \<rparr>)
              | (Inr _, d2) \<Rightarrow> (case rename_file temp (sm_path s) d2 of (done, d3) \<Rightarrow>
                  (if \<not> done then (Inl (system_error env ''SessionManager::compact: rename failed''), s \<lparr> sm_disk := d3 \<rparr>)
                   else (Inr (), fold (index_node env) active (s \<lparr> sm_nodes := [], sm_children := [], sm_disk := d3,
                          sm_branches := filter (\<lambda>(b, m). b = sm_current_branch s) (sm_branches s) \<rparr>))))))"

section \<open>The way to the root\<close>

lemma unvisited_decreases:
  assumes "map_of ns cur = Some n" "cur \<notin> set visited"
  shows "card (fst ` set ns - insert cur (set visited)) < card (fst ` set ns - set visited)"
proof (rule psubset_card_mono)
  have "cur \<in> fst ` set ns" using assms(1) by (force dest: map_of_SomeD)
  then show "fst ` set ns - insert cur (set visited) \<subset> fst ` set ns - set visited" using assms(2) by auto
qed simp

text \<open>The loop that follows parent pointers, collecting leaf first; an id seen before ends it.\<close>

function context_walk :: "(string \<times> session_node) list \<Rightarrow> string list \<Rightarrow> string \<Rightarrow> session_node list \<Rightarrow> session_node list" where
  "context_walk ns visited cur result =
     (if cur = [] then result
      else if cur \<in> set visited then result
      else case map_of ns cur of
        None \<Rightarrow> result
      | Some n \<Rightarrow> context_walk ns (cur # visited) (sn_parent_id n) (result @ [n]))"
  by pat_completeness auto

termination
  by (relation "measure (\<lambda>(ns, visited, cur, result). card (fst ` set ns - set visited))")
    (auto simp: unvisited_decreases)

declare context_walk.simps [simp del]

definition build_context_entries :: "string \<Rightarrow> session_manager \<Rightarrow> session_node list" where
  "build_context_entries leaf s = (if leaf = [] then [] else rev (context_walk (sm_nodes s) [] leaf []))"

section \<open>Old files and names\<close>

fun migrate_messages :: "session_env \<Rightarrow> json list \<Rightarrow> string \<Rightarrow> (unit, session_manager) act" where
  "migrate_messages env [] parent = sret ()"
| "migrate_messages env (m # ms) parent = sbind next_node_id (\<lambda>i.
     sbind (flush_append env \<lparr> sn_id = i, sn_parent_id = parent, sn_branch_id = ''main'', sn_content = m \<rparr>)
       (\<lambda>_. migrate_messages env ms i))"

definition migrate_legacy_json :: "session_env \<Rightarrow> string \<Rightarrow> (string, session_manager) act" where
  "migrate_legacy_json env legacy s = (case dk_files (sm_disk s) legacy of
       None \<Rightarrow> (Inl (Runtime_error (''migrate_legacy_json: cannot open '' @ legacy)), s)
     | Some c \<Rightarrow> (case sv_parse_file env c of
         Inl e \<Rightarrow> (Inl (Runtime_error (''migrate_legacy_json: parse error: '' @ what e)), s)
       | Inr j \<Rightarrow> (case copy_file legacy (legacy @ ''.backup'') (sm_disk s) of (ok, d) \<Rightarrow>
          (if \<not> ok then (Inl (system_error env ''filesystem error: cannot copy''), s \<lparr> sm_disk := d \<rparr>)
           else let sid = (if path_stem legacy = [] then ''migrated_'' @ nat_str (sv_pid env) else path_stem legacy) in
             sbind (open_session env sid) (\<lambda>_.
             sbind (read_clock env) (\<lambda>tm.
             sbind (smod (\<lambda>s. put_branch env (main_branch tm) s \<lparr> sm_current_branch := ''main'' \<rparr>)) (\<lambda>_.
             sbind (case jlookup ''messages'' j of Some (JArr ms) \<Rightarrow> migrate_messages env ms [] | _ \<Rightarrow> sret ()) (\<lambda>_.
             sbind (sget (\<lambda>s. the (map_of (sm_branches s) ''main''))) (\<lambda>m.
             sbind (flush_append_internal env m) (\<lambda>_. sret sid)))))) (s \<lparr> sm_disk := d \<rparr>)))))"

definition rename_session :: "session_env \<Rightarrow> string \<Rightarrow> (unit, session_manager) act" where
  "rename_session env name s =
     (if sm_path s = [] then (Inl (Runtime_error ''SessionManager::rename_session called before open()''), s)
      else if name = [] then (Inr (), s)
      else sbind next_node_id (\<lambda>i s.
        let n = \<lparr> sn_id = i, sn_parent_id = [], sn_branch_id = (if sm_current_branch s = [] then ''main'' else sm_current_branch s),
                  sn_content = jobj [(''type'', JStr ''session_meta''), (''name'', JStr name)] \<rparr> in
        sbind (slift (sv_dump env (node_json n))) (\<lambda>line.
        sbind (append_line (system_error env (''SessionManager::rename_session: ::open('' @ sm_path s @ '') failed''))
          (\<lambda>_. Runtime_error ''SessionManager::rename_session: short write'') (line @ [CHR 0x0A])) (\<lambda>_.
        smod (\<lambda>s. s \<lparr> sm_nodes := hm_put (sv_place_node env) i n (sm_nodes s) \<rparr>))) s) s)"

section \<open>Records and lines\<close>

text \<open>nlohmann's documented behaviour for values without floats: dump throws on text that is not UTF-8, otherwise it
  gives one line from which parse reads the value back.\<close>

definition codec :: "session_env \<Rightarrow> bool" where
  "codec env \<longleftrightarrow> (\<forall>j l. no_floats j \<longrightarrow> sv_dump env j = Inr l \<longrightarrow>
     l \<noteq> [] \<and> CHR 0x0A \<notin> set l \<and> sv_parse env l = Some j)"

definition places_ok :: "session_env \<Rightarrow> bool" where
  "places_ok env \<longleftrightarrow> places (sv_place_node env) \<and> places (sv_place_branch env)"

type_synonym stored = "session_node + branch_meta"

definition stored_json :: "stored \<Rightarrow> json" where
  "stored_json r = (case r of Inl n \<Rightarrow> node_json n | Inr b \<Rightarrow> branch_json b)"

definition stored_line :: "session_env \<Rightarrow> stored \<Rightarrow> string" where
  "stored_line env r = (case sv_dump env (stored_json r) of Inl _ \<Rightarrow> [] | Inr l \<Rightarrow> l @ [CHR 0x0A])"

definition storable :: "session_env \<Rightarrow> stored \<Rightarrow> bool" where
  "storable env r \<longleftrightarrow> (\<exists>l. sv_dump env (stored_json r) = Inr l) \<and> (\<forall>n. r = Inl n \<longrightarrow> no_floats (sn_content n))"

fun load_stored :: "session_env \<Rightarrow> stored list \<Rightarrow> string list \<Rightarrow> session_node list \<Rightarrow> session_manager \<Rightarrow>
    string list \<times> session_node list \<times> session_manager" where
  "load_stored env [] seen result s = (seen, result, s)"
| "load_stored env (Inl n # rs) seen result s =
     (if sn_id n \<noteq> [] \<and> sn_id n \<notin> set seen
      then load_stored env rs (sn_id n # seen) (result @ [n]) (placeholder env (sn_branch_id n) (index_node env n s))
      else load_stored env rs seen result s)"
| "load_stored env (Inr b # rs) seen result s =
     load_stored env rs seen result (if bm_branch_id b \<noteq> [] then put_branch env b s else s)"

lemma node_json_reads:
  "jlookup ''type'' (node_json n) = None" "read_node (node_json n) = Inr n"
  by (simp_all add: node_json_def read_node_def jobj_def jvalue_str_def)

lemma branch_json_reads:
  "jlookup ''type'' (branch_json b) = Some (JStr ''branch'')" "read_branch (branch_json b) = Inr b"
  by (simp_all add: branch_json_def read_branch_def jobj_def jvalue_str_def)

lemma node_json_no_floats: "no_floats (sn_content n) \<Longrightarrow> no_floats (node_json n)"
  by (simp add: node_json_def jobj_def)

lemma stored_no_floats: "storable env r \<Longrightarrow> no_floats (stored_json r)"
  by (auto simp: storable_def stored_json_def node_json_def branch_json_def jobj_def split: sum.splits)

lemma stored_line_facts:
  assumes "codec env" "storable env r"
  shows "\<exists>l. stored_line env r = l @ [CHR 0x0A] \<and> CHR 0x0A \<notin> set l \<and> l \<noteq> [] \<and> sv_parse env l = Some (stored_json r)"
  using assms stored_no_floats[OF assms(2)] by (auto simp: storable_def codec_def stored_line_def)

lemma load_stored_line:
  assumes "codec env" "storable env r"
  shows "load_lines env (getlines (stored_line env r @ c)) seen result s =
    (case load_stored env [r] seen result s of (seen', result', s') \<Rightarrow> load_lines env (getlines c) seen' result' s')"
proof -
  obtain l where l: "stored_line env r = l @ [CHR 0x0A]" "CHR 0x0A \<notin> set l" "l \<noteq> []" "sv_parse env l = Some (stored_json r)"
    using stored_line_facts[OF assms] by blast
  show ?thesis
    using l by (cases r) (simp_all add: stored_json_def node_json_reads branch_json_reads)
qed

lemma load_stored_append:
  "load_stored env (rs @ qs) seen result s =
    (case load_stored env rs seen result s of (seen', result', s') \<Rightarrow> load_stored env qs seen' result' s')"
  by (induction env rs seen result s rule: load_stored.induct) simp_all

lemma load_stored_lines:
  assumes "codec env" "\<forall>r \<in> set rs. storable env r"
  shows "load_lines env (getlines (concat (map (stored_line env) rs) @ c)) seen result s =
    (case load_stored env rs seen result s of (seen', result', s') \<Rightarrow> load_lines env (getlines c) seen' result' s')"
  using assms(2)
proof (induction rs arbitrary: seen result s)
  case (Cons r rs)
  have "load_lines env (getlines (concat (map (stored_line env) (r # rs)) @ c)) seen result s =
      (case load_stored env [r] seen result s of (seen', result', s') \<Rightarrow>
         load_lines env (getlines (concat (map (stored_line env) rs) @ c)) seen' result' s')"
    using load_stored_line[OF assms(1), of r "concat (map (stored_line env) rs) @ c"] Cons.prems by simp
  also have "\<dots> = (case load_stored env (r # rs) seen result s of (seen', result', s') \<Rightarrow> load_lines env (getlines c) seen' result' s')"
    using Cons.IH Cons.prems load_stored_append[of env "[r]" rs seen result s] by (simp split: prod.split)
  finally show ?case .
qed simp

section \<open>Identifiers are fresh\<close>

definition hex_value :: "string \<Rightarrow> nat" where
  "hex_value s = foldr (\<lambda>c a. 16 * a + length (takeWhile (\<lambda>d. d \<noteq> c) kHex)) (rev s) 0"

lemma hex_digit: "k < 16 \<Longrightarrow> length (takeWhile (\<lambda>d. d \<noteq> kHex ! k) kHex) = k"
proof -
  have "list_all (\<lambda>k. length (takeWhile (\<lambda>d. d \<noteq> kHex ! k) kHex) = k) [0..<16]" by code_simp
  then show "k < 16 \<Longrightarrow> length (takeWhile (\<lambda>d. d \<noteq> kHex ! k) kHex) = k" by (simp add: list_all_iff)
qed

lemma hex_loop_value:
  "foldr (\<lambda>c a. 16 * a + length (takeWhile (\<lambda>d. d \<noteq> c) kHex)) (hex_loop v out) 0 =
   foldr (\<lambda>c a. 16 * a + length (takeWhile (\<lambda>d. d \<noteq> c) kHex)) out v"
proof (induction v out rule: hex_loop.induct)
  case (1 v out)
  show ?case
  proof (cases "v = 0")
    case True
    then show ?thesis by (simp add: hex_loop.simps[of 0 out])
  next
    case False
    then show ?thesis using 1 hex_digit[of "v mod 16"] by (simp add: hex_loop.simps[of v out])
  qed
qed

lemma hex_value_to_hex [simp]: "hex_value (to_hex v) = unat v"
proof (cases "v = 0")
  case True
  then show ?thesis by (simp add: to_hex_def hex_value_def kHex_def)
next
  case False
  then show ?thesis using hex_loop_value[of "unat v" "[]"] by (simp add: to_hex_def hex_value_def)
qed

definition node_name :: "64 word \<Rightarrow> string" where
  "node_name w = ''node_'' @ to_hex w"

definition rank :: "string \<Rightarrow> nat" where
  "rank i = hex_value (drop 5 i)"

lemma rank_node_name [simp]: "rank (node_name w) = unat w"
  by (simp add: rank_def node_name_def)

lemma node_name_not_Nil [simp]: "node_name w \<noteq> []" "[] \<noteq> node_name w"
  by (simp_all add: node_name_def)

lemma node_name_inject [simp]: "node_name v = node_name w \<longleftrightarrow> v = w"
  by (metis rank_node_name unsigned_word_eqI)

section \<open>The tree of a session\<close>

text \<open>The chain of parents of an id, leaf first, as far as the index knows it.\<close>

fun parent_chain :: "(string \<times> session_node) list \<Rightarrow> string \<Rightarrow> session_node list \<Rightarrow> bool" where
  "parent_chain ns cur [] = (cur = [] \<or> map_of ns cur = None)"
| "parent_chain ns cur (n # rest) = (cur \<noteq> [] \<and> map_of ns cur = Some n \<and> parent_chain ns (sn_parent_id n) rest)"

definition older :: "string \<Rightarrow> nat \<Rightarrow> bool" where
  "older i k \<longleftrightarrow> i = [] \<or> (\<exists>v. i = node_name v \<and> unat v < k)"

definition born :: "64 word \<Rightarrow> session_node \<Rightarrow> bool" where
  "born c n \<longleftrightarrow> (\<exists>w. sn_id n = node_name w \<and> w \<le> c \<and> older (sn_parent_id n) (unat w)) \<and> no_floats (sn_content n)"

definition index_ok :: "session_manager \<Rightarrow> bool" where
  "index_ok s \<longleftrightarrow> distinct (map fst (sm_nodes s)) \<and> distinct (map fst (sm_branches s)) \<and>
     (\<forall>(i, n) \<in> set (sm_nodes s). i = sn_id n \<and> born (sm_node_counter s) n) \<and>
     (\<forall>(i, b) \<in> set (sm_branches s). older (bm_forked_from_node b) (Suc (unat (sm_node_counter s))))"

definition stored_ok :: "session_env \<Rightarrow> 64 word \<Rightarrow> stored \<Rightarrow> bool" where
  "stored_ok env c r \<longleftrightarrow> storable env r \<and>
     (case r of Inl n \<Rightarrow> born c n | Inr b \<Rightarrow> older (bm_forked_from_node b) (Suc (unat c)))"

definition file_ok :: "session_env \<Rightarrow> session_manager \<Rightarrow> bool" where
  "file_ok env s \<longleftrightarrow> sm_path s \<noteq> [] \<and> dk_faults (sm_disk s) = [] \<and>
     (\<exists>rs. dk_files (sm_disk s) (sm_path s) = Some (concat (map (stored_line env) rs)) \<and>
           (\<forall>r \<in> set rs. stored_ok env (sm_node_counter s) r))"

definition session_ok :: "session_env \<Rightarrow> session_manager \<Rightarrow> bool" where
  "session_ok env s \<longleftrightarrow> index_ok s \<and> file_ok env s"

lemma older_mono: "older i k \<Longrightarrow> k \<le> l \<Longrightarrow> older i l"
  by (auto simp: older_def intro: order.strict_trans2)

lemma born_mono: "born c n \<Longrightarrow> c \<le> d \<Longrightarrow> born d n"
  by (auto simp: born_def intro: order.trans)

lemma stored_ok_mono: "stored_ok env c r \<Longrightarrow> c \<le> d \<Longrightarrow> stored_ok env d r"
  by (auto simp: stored_ok_def word_le_nat_alt intro: born_mono older_mono split: sum.splits)

lemma context_walk_chain:
  assumes "\<forall>(i, n) \<in> set ns. i = sn_id n \<and> born c n"
  shows "cur = [] \<or> (\<forall>v \<in> set visited. rank cur < rank v) \<Longrightarrow>
    \<exists>rs. context_walk ns visited cur result = result @ rs \<and> parent_chain ns cur rs"
  using assms
proof (induction ns visited cur result rule: context_walk.induct)
  case (1 ns visited cur result)
  show ?case
  proof (cases "cur = [] \<or> map_of ns cur = None")
    case True
    then show ?thesis using 1(2) by (auto simp: context_walk.simps[of ns visited cur] intro!: exI[of _ "[]"])
  next
    case False
    then obtain n where n: "map_of ns cur = Some n" by auto
    have cur: "cur \<noteq> []" "cur \<notin> set visited" using False 1(2) by auto
    have b: "cur = sn_id n" "born c n" using n 1(3) by (auto dest!: map_of_SomeD)
    have "sn_parent_id n = [] \<or> (\<forall>v \<in> set (cur # visited). rank (sn_parent_id n) < rank v)"
    proof (cases "sn_parent_id n = []")
      case False
      then have "rank (sn_parent_id n) < rank cur" using b by (auto simp: born_def older_def)
      then show ?thesis using 1(2) cur(1) by auto
    qed simp
    then obtain rs where "context_walk ns (cur # visited) (sn_parent_id n) (result @ [n]) = (result @ [n]) @ rs"
      "parent_chain ns (sn_parent_id n) rs"
      using 1(1)[OF cur n] 1(3) by blast
    then show ?thesis
      using cur n by (auto simp: context_walk.simps[of ns visited cur] intro!: exI[of _ "n # rs"])
  qed
qed

lemma parent_chain_ranks:
  assumes "\<forall>(i, n) \<in> set ns. i = sn_id n \<and> born c n"
  shows "parent_chain ns cur rs \<Longrightarrow> sorted_wrt (>) (map (\<lambda>m. rank (sn_id m)) rs) \<and> (\<forall>n \<in> set rs. rank (sn_id n) \<le> rank cur)"
proof (induction rs arbitrary: cur)
  case (Cons n rs)
  have b: "cur = sn_id n" "born c n" using Cons.prems assms by (auto dest!: map_of_SomeD)
  show ?case
  proof (cases "sn_parent_id n = []")
    case True
    then have "rs = []" using Cons.prems by (cases rs) auto
    then show ?thesis using b by simp
  next
    case False
    then have "rank (sn_parent_id n) < rank cur" using b by (auto simp: born_def older_def)
    moreover have "sorted_wrt (>) (map (\<lambda>m. rank (sn_id m)) rs) \<and> (\<forall>m \<in> set rs. rank (sn_id m) \<le> rank (sn_parent_id n))"
      using Cons.IH[of "sn_parent_id n"] Cons.prems by simp
    ultimately show ?thesis using b by (auto simp: comp_def intro: order.strict_trans1)
  qed
qed simp

lemma sorted_greater_distinct: "sorted_wrt (>) (xs :: nat list) \<Longrightarrow> distinct xs"
  by (induction xs) auto

lemma session_context:
  assumes "index_ok s"
  shows "parent_chain (sm_nodes s) leaf (rev (build_context_entries leaf s)) \<and>
    distinct (map sn_id (build_context_entries leaf s))"
proof (cases "leaf = []")
  case False
  have ns: "\<forall>(i, n) \<in> set (sm_nodes s). i = sn_id n \<and> born (sm_node_counter s) n" using assms by (simp add: index_ok_def)
  obtain rs where rs: "context_walk (sm_nodes s) [] leaf [] = rs" "parent_chain (sm_nodes s) leaf rs"
    using context_walk_chain[OF ns, of leaf "[]" "[]"] by auto
  have "sorted_wrt (>) (map (\<lambda>m. rank (sn_id m)) rs)" using parent_chain_ranks[OF ns rs(2)] by blast
  then have "distinct (map (\<lambda>m. rank (sn_id m)) rs)" by (rule sorted_greater_distinct)
  then have "distinct (map sn_id (rev rs))" by (auto simp: distinct_map inj_on_def)
  moreover have "build_context_entries leaf s = rev rs" using False rs by (simp add: build_context_entries_def)
  ultimately show ?thesis using rs by simp
qed (simp add: build_context_entries_def)

section \<open>Every operation keeps the tree\<close>

lemma index_ok_put_branch:
  assumes "index_ok s" "places_ok env" "older (bm_forked_from_node b) (Suc (unat (sm_node_counter s)))"
  shows "index_ok (put_branch env b s)"
  using assms hm_put_keys[of "sv_place_branch env" "sm_branches s" "bm_branch_id b" b]
    hm_put_set[of "sv_place_branch env" "sm_branches s" "bm_branch_id b" b]
  by (auto simp: index_ok_def put_branch_def places_ok_def)

lemma index_ok_index_node:
  assumes "index_ok s" "places_ok env" "born (sm_node_counter s) n"
  shows "index_ok (index_node env n s)"
  using assms hm_put_keys[of "sv_place_node env" "sm_nodes s" "sn_id n" n]
    hm_put_set[of "sv_place_node env" "sm_nodes s" "sn_id n" n]
  by (auto simp: index_ok_def index_node_def places_ok_def)

lemma index_ok_placeholder:
  "index_ok s \<Longrightarrow> places_ok env \<Longrightarrow> index_ok (placeholder env b s)"
  unfolding placeholder_def by (auto intro!: index_ok_put_branch simp: older_def) (simp_all add: index_ok_def)

lemma index_frame [simp]:
  "index_ok (s\<lparr>sm_disk := d\<rparr>) = index_ok s" "index_ok (s\<lparr>sm_current_branch := b\<rparr>) = index_ok s"
  "index_ok (s\<lparr>sm_ticks := t\<rparr>) = index_ok s" "index_ok (s\<lparr>sm_events := ev\<rparr>) = index_ok s"
  "index_ok (s\<lparr>sm_branch_counter := c\<rparr>) = index_ok s" "index_ok (persisted_event env n s) = index_ok s"
  by (simp_all add: index_ok_def persisted_event_def)

lemma file_frame [simp]:
  "file_ok env (s\<lparr>sm_current_branch := b\<rparr>) = file_ok env s" "file_ok env (s\<lparr>sm_ticks := t\<rparr>) = file_ok env s"
  "file_ok env (s\<lparr>sm_branch_counter := c\<rparr>) = file_ok env s" "file_ok env (put_branch env m s) = file_ok env s"
  "file_ok env (index_node env n s) = file_ok env s" "file_ok env (placeholder env x s) = file_ok env s"
  "file_ok env (persisted_event env n s) = file_ok env s"
  by (simp_all add: file_ok_def put_branch_def index_node_def placeholder_def persisted_event_def)

lemma counters [simp]:
  "sm_node_counter (put_branch env m s) = sm_node_counter s" "sm_node_counter (index_node env n s) = sm_node_counter s"
  "sm_node_counter (placeholder env x s) = sm_node_counter s" "sm_node_counter (persisted_event env n s) = sm_node_counter s"
  by (simp_all add: put_branch_def index_node_def placeholder_def persisted_event_def)

lemma next_node_id_ok:
  assumes "session_ok env s" "unat (sm_node_counter s) < 2 ^ 64 - 1"
  shows "session_ok env (s \<lparr> sm_node_counter := sm_node_counter s + 1 \<rparr>) \<and>
    unat (sm_node_counter s + 1) = Suc (unat (sm_node_counter s))"
proof -
  have u: "unat (sm_node_counter s + 1) = Suc (unat (sm_node_counter s))"
    using assms(2) by (simp add: unat_word_ariths)
  then have le: "sm_node_counter s \<le> sm_node_counter s + 1" by (simp add: word_le_nat_alt)
  have "index_ok (s \<lparr> sm_node_counter := sm_node_counter s + 1 \<rparr>)"
    using assms(1) le u unfolding session_ok_def index_ok_def
    by (auto intro: born_mono older_mono)
  moreover have "file_ok env (s \<lparr> sm_node_counter := sm_node_counter s + 1 \<rparr>)"
    using assms(1) le unfolding session_ok_def file_ok_def by (auto intro: stored_ok_mono)
  ultimately show ?thesis using u by (simp add: session_ok_def)
qed

text \<open>Appending a line of a record.\<close>

lemma append_line_record:
  assumes "file_ok env s" "sv_dump env (stored_json r) = Inr l" "stored_ok env (sm_node_counter s) r"
  shows "\<exists>d. append_line oe we (l @ [CHR 0x0A]) s = (Inr (), s \<lparr> sm_disk := d \<rparr>) \<and> file_ok env (s \<lparr> sm_disk := d \<rparr>)"
proof -
  obtain rs where rs: "dk_files (sm_disk s) (sm_path s) = Some (concat (map (stored_line env) rs))"
    "\<forall>r \<in> set rs. stored_ok env (sm_node_counter s) r" "sm_path s \<noteq> []" "dk_faults (sm_disk s) = []"
    using assms(1) by (auto simp: file_ok_def)
  define d where "d = put_file (sm_path s) (concat (map (stored_line env) (rs @ [r]))) (sm_disk s)"
  have c: "contents (sm_path s) (sm_disk s) = concat (map (stored_line env) rs)" using rs by (simp add: contents_def)
  have "append_line oe we (l @ [CHR 0x0A]) s = (Inr (), s \<lparr> sm_disk := d \<rparr>)"
    using rs(4) assms(2) by (simp add: append_line_def open_file_def write_file_def c d_def stored_line_def)
  moreover have "file_ok env (s \<lparr> sm_disk := d \<rparr>)"
    using rs assms(3) unfolding file_ok_def d_def by (auto intro!: exI[of _ "rs @ [r]"])
  ultimately show ?thesis by blast
qed

lemma flush_append_ok:
  assumes "session_ok env s" "places_ok env" "born (sm_node_counter s) n"
  shows "session_ok env (snd (flush_append env n s)) \<and> sm_node_counter (snd (flush_append env n s)) = sm_node_counter s"
proof (cases "sv_dump env (node_json n)")
  case (Inl e)
  then show ?thesis using assms by (simp add: flush_append_def sbind_def)
next
  case (Inr l)
  have "stored_ok env (sm_node_counter s) (Inl n)"
    using assms(3) Inr by (auto simp: stored_ok_def storable_def stored_json_def born_def)
  then have "\<exists>d. append_line oe we (l @ [CHR 0x0A]) s = (Inr (), s \<lparr> sm_disk := d \<rparr>) \<and> file_ok env (s \<lparr> sm_disk := d \<rparr>)" for oe we
    using append_line_record[of env s "Inl n" l oe we] assms(1) Inr by (simp add: session_ok_def stored_json_def)
  then obtain d where d: "append_line (system_error env (''SessionManager::flush_append: ::open('' @ sm_path s @ '') failed''))
      (\<lambda>k. system_error env (''SessionManager::flush_append: ::write failed (wrote '' @ int_str k @ '' of '' @
         nat_str (length (l @ [CHR 0x0A])) @ '' bytes)'')) (l @ [CHR 0x0A]) s = (Inr (), s \<lparr> sm_disk := d \<rparr>)"
    "file_ok env (s \<lparr> sm_disk := d \<rparr>)" by blast
  have "index_ok (index_node env n (persisted_event env n (s \<lparr> sm_disk := d \<rparr>)))"
    using assms by (intro index_ok_index_node) (simp_all add: session_ok_def)
  then show ?thesis
    using Inr d assms(1) by (simp add: flush_append_def sbind_def Let_def session_ok_def)
qed

lemma flush_append_internal_ok:
  assumes "session_ok env s" "older (bm_forked_from_node b) (Suc (unat (sm_node_counter s)))"
  shows "session_ok env (snd (flush_append_internal env b s)) \<and>
    sm_node_counter (snd (flush_append_internal env b s)) = sm_node_counter s"
proof (cases "sv_dump env (branch_json b)")
  case (Inl e)
  then show ?thesis using assms by (simp add: flush_append_internal_def sbind_def)
next
  case (Inr l)
  have "stored_ok env (sm_node_counter s) (Inr b)"
    using assms(2) Inr by (auto simp: stored_ok_def storable_def stored_json_def)
  then obtain d where "append_line (system_error env ''flush_append_internal: ::open failed'')
        (\<lambda>_. system_error env ''flush_append_internal: ::write failed'') (l @ [CHR 0x0A]) s = (Inr (), s \<lparr> sm_disk := d \<rparr>)"
    "file_ok env (s \<lparr> sm_disk := d \<rparr>)"
    using append_line_record[of env s "Inr b" l] assms(1) Inr by (fastforce simp: session_ok_def stored_json_def)
  then show ?thesis using Inr assms(1) by (simp add: flush_append_internal_def sbind_def session_ok_def)
qed

lemma load_stored_ok:
  shows "places_ok env \<Longrightarrow> session_ok env s \<Longrightarrow> \<forall>r \<in> set rs. stored_ok env (sm_node_counter s) r \<Longrightarrow>
    session_ok env (snd (snd (load_stored env rs seen result s))) \<and>
    sm_node_counter (snd (snd (load_stored env rs seen result s))) = sm_node_counter s"
proof (induction env rs seen result s rule: load_stored.induct)
  case (2 env n rs seen result s)
  then have "index_ok (placeholder env (sn_branch_id n) (index_node env n s))"
    by (intro index_ok_placeholder index_ok_index_node) (simp_all add: session_ok_def stored_ok_def)
  then have "session_ok env (placeholder env (sn_branch_id n) (index_node env n s))"
    using 2 by (simp add: session_ok_def)
  then show ?case using 2 by simp
next
  case (3 env b rs seen result s)
  then have "session_ok env (put_branch env b s)"
    using index_ok_put_branch[of s env b] by (simp add: session_ok_def stored_ok_def)
  then show ?case using 3 by simp
qed simp

lemma load_jsonl_ok:
  assumes "codec env" "places_ok env" "session_ok env s"
  shows "session_ok env (snd (load_jsonl env s)) \<and> sm_node_counter (snd (load_jsonl env s)) = sm_node_counter s"
proof -
  obtain rs where rs: "dk_files (sm_disk s) (sm_path s) = Some (concat (map (stored_line env) rs))"
    "\<forall>r \<in> set rs. stored_ok env (sm_node_counter s) r" "sm_path s \<noteq> []"
    using assms(3) by (auto simp: session_ok_def file_ok_def)
  have "load_lines env (getlines (concat (map (stored_line env) rs))) [] [] s =
      (case load_stored env rs [] [] s of (seen', result', s') \<Rightarrow> (Inr result', s'))"
    using load_stored_lines[OF assms(1), of rs "[]"] rs(2) by (simp add: stored_ok_def split: prod.split)
  moreover obtain a b c where "load_stored env rs [] [] s = (a, b, c)" by (metis prod_cases3)
  ultimately show ?thesis
    using load_stored_ok[OF assms(2,3) rs(2), of "[]" "[]"] rs(1,3) by (simp add: load_jsonl_def)
qed

lemma branch_leaves_nodes: "i \<in> set (branch_leaves b s) \<Longrightarrow> \<exists>n. (i, n) \<in> set (sm_nodes s) \<and> sn_branch_id n = b \<and> childless s i"
  by (auto simp: branch_leaves_def)

lemma known_older: "index_ok s \<Longrightarrow> (i, n) \<in> set (sm_nodes s) \<Longrightarrow> older i (Suc (unat (sm_node_counter s)))"
  by (fastforce simp: index_ok_def born_def older_def word_le_nat_alt)

lemma append_target_older:
  assumes "index_ok s" "append_target s = (Inr (b, parent), s')"
  shows "s' = s \<and> older parent (Suc (unat (sm_node_counter s)))"
proof (cases "branch_leaves (sm_current_branch s) s")
  case Nil
  show ?thesis
  proof (cases "map_of (sm_branches s) (sm_current_branch s)")
    case (Some m)
    then have "older (bm_forked_from_node m) (Suc (unat (sm_node_counter s)))"
      using assms(1) by (auto simp: index_ok_def dest!: map_of_SomeD)
    then show ?thesis using Nil Some assms(2) by (auto simp: append_target_def Let_def split: if_splits)
  qed (use Nil assms(2) in \<open>auto simp: append_target_def older_def Let_def split: if_splits\<close>)
next
  case (Cons x xs)
  then have "last (branch_leaves (sm_current_branch s) s) \<in> set (branch_leaves (sm_current_branch s) s)" by simp
  then obtain n where "(last (branch_leaves (sm_current_branch s) s), n) \<in> set (sm_nodes s)"
    using branch_leaves_nodes by blast
  then show ?thesis using Cons assms known_older by (auto simp: append_target_def Let_def split: if_splits)
qed

lemma born_fresh:
  "older p (unat c) \<Longrightarrow> no_floats t \<Longrightarrow>
    born c \<lparr> sn_id = ''node_'' @ to_hex c, sn_parent_id = p, sn_branch_id = b, sn_content = t \<rparr>"
  unfolding born_def node_name_def by (auto intro!: exI[of _ c])

lemma append_to_branch_ok:
  assumes "session_ok env s" "places_ok env" "unat (sm_node_counter s) < 2 ^ 64 - 1"
  shows "session_ok env (snd (append_to_branch env m s)) \<and>
    unat (sm_node_counter (snd (append_to_branch env m s))) \<le> Suc (unat (sm_node_counter s))"
proof (cases "append_target s")
  case (Pair r s')
  show ?thesis
  proof (cases r)
    case (Inl e)
    then have "s' = s" using Pair by (auto simp: append_target_def Let_def split: if_splits)
    then show ?thesis using Inl Pair assms by (simp add: append_to_branch_def sbind_def)
  next
    case (Inr bp)
    obtain b parent where bp: "bp = (b, parent)" by fastforce
    have t: "s' = s" "older parent (Suc (unat (sm_node_counter s)))"
      using append_target_older[of s b parent s'] Pair Inr bp assms(1) by (auto simp: session_ok_def)
    let ?s = "s \<lparr> sm_node_counter := sm_node_counter s + 1 \<rparr>"
    let ?n = "\<lparr> sn_id = ''node_'' @ to_hex (sm_node_counter s + 1), sn_parent_id = parent, sn_branch_id = b,
        sn_content = jobj [(''message'', JStr m)] \<rparr>"
    have n: "session_ok env ?s" "unat (sm_node_counter s + 1) = Suc (unat (sm_node_counter s))"
      using next_node_id_ok[OF assms(1,3)] by blast+
    have "born (sm_node_counter ?s) ?n"
      using t(2) n(2) born_fresh[of parent "sm_node_counter s + 1" "jobj [(''message'', JStr m)]" b] by (simp add: jobj_def)
    from flush_append_ok[OF n(1) assms(2) this] show ?thesis
      using Pair Inr bp t(1) n(2)
      by (auto simp: append_to_branch_def append_at_def sbind_def next_node_id_def Let_def split: prod.splits sum.splits)
  qed
qed

lemma rename_session_ok:
  assumes "session_ok env s" "places_ok env" "unat (sm_node_counter s) < 2 ^ 64 - 1"
  shows "session_ok env (snd (rename_session env name s)) \<and>
    unat (sm_node_counter (snd (rename_session env name s))) \<le> Suc (unat (sm_node_counter s))"
proof (cases "name = []")
  case True
  then show ?thesis using assms by (simp add: rename_session_def)
next
  case False
  let ?s = "s \<lparr> sm_node_counter := sm_node_counter s + 1 \<rparr>"
  let ?n = "\<lparr> sn_id = ''node_'' @ to_hex (sm_node_counter s + 1), sn_parent_id = [],
      sn_branch_id = (if sm_current_branch s = [] then ''main'' else sm_current_branch s),
      sn_content = jobj [(''type'', JStr ''session_meta''), (''name'', JStr name)] \<rparr>"
  have s: "session_ok env ?s" "unat (sm_node_counter s + 1) = Suc (unat (sm_node_counter s))"
    using next_node_id_ok[OF assms(1,3)] by blast+
  have b: "born (sm_node_counter ?s) ?n"
    using born_fresh[of "[]" "sm_node_counter s + 1" "sn_content ?n" "sn_branch_id ?n"] by (simp add: jobj_def older_def)
  have p: "sm_path s \<noteq> []" using assms(1) by (auto simp: session_ok_def file_ok_def)
  show ?thesis
  proof (cases "sv_dump env (node_json ?n)")
    case (Inl e)
    then show ?thesis using s p False
      by (cases "sm_current_branch s = []") (simp_all add: rename_session_def next_node_id_def sbind_def Let_def)
  next
    case (Inr l)
    have "stored_ok env (sm_node_counter ?s) (Inl ?n)"
      using b Inr by (auto simp: stored_ok_def storable_def stored_json_def born_def jobj_def)
    then obtain d where "append_line (system_error env (''SessionManager::rename_session: ::open('' @ sm_path s @ '') failed''))
          (\<lambda>_. Runtime_error ''SessionManager::rename_session: short write'') (l @ [CHR 0x0A]) ?s = (Inr (), ?s \<lparr> sm_disk := d \<rparr>)"
        "file_ok env (?s \<lparr> sm_disk := d \<rparr>)"
      using append_line_record[of env ?s "Inl ?n" l] s(1) Inr by (fastforce simp: session_ok_def stored_json_def)
    moreover have "index_ok (?s \<lparr> sm_disk := d, sm_nodes := hm_put (sv_place_node env) (sn_id ?n) ?n (sm_nodes s) \<rparr>)"
      using index_ok_index_node[of "?s \<lparr> sm_disk := d \<rparr>" env ?n] s(1) assms(2) b
      by (simp add: session_ok_def index_ok_def index_node_def)
    ultimately show ?thesis
      using Inr False p s(2)
      by (cases "sm_current_branch s = []")
        (simp_all add: rename_session_def next_node_id_def sbind_def Let_def session_ok_def file_ok_def)
  qed
qed

lemma fork_ok:
  assumes "session_ok env s" "codec env" "places_ok env"
  shows "session_ok env (snd (fork env i name s)) \<and> sm_node_counter (snd (fork env i name s)) = sm_node_counter s"
proof (cases "i = []")
  case True
  then show ?thesis using assms by (simp add: fork_def)
next
  case False
  define lr where "lr = (if sm_nodes s = [] then load_jsonl env s else (Inr [], s))"
  obtain r s1 where lr1: "lr = (r, s1)" by fastforce
  have s1: "session_ok env s1" "sm_node_counter s1 = sm_node_counter s"
    using load_jsonl_ok[OF assms(2,3,1)] assms(1) lr1 by (auto simp: lr_def split: if_splits)
  show ?thesis
  proof (cases "(\<exists>e. r = Inl e) \<or> map_of (sm_nodes s1) i = None")
    case True
    then show ?thesis using False lr1 s1 by (auto simp: fork_def sbind_def lr_def split: if_splits sum.splits)
  next
    case ok: False
    then obtain n where "(i, n) \<in> set (sm_nodes s1)" by (auto dest: map_of_SomeD)
    then have o: "older i (Suc (unat (sm_node_counter s1)))" using s1(1) known_older by (auto simp: session_ok_def)
    let ?b = "''branch_'' @ to_hex (sm_branch_counter s1 + 1)"
    let ?m = "\<lparr> bm_branch_id = ?b, bm_name = name, bm_forked_from_node = i,
        bm_created_at = int_str (sv_clock env (sm_ticks s1)) \<rparr>"
    let ?s2 = "put_branch env ?m (s1 \<lparr> sm_branch_counter := sm_branch_counter s1 + 1, sm_ticks := Suc (sm_ticks s1) \<rparr>)
        \<lparr> sm_current_branch := ?b \<rparr>"
    have "index_ok (put_branch env ?m (s1 \<lparr> sm_branch_counter := sm_branch_counter s1 + 1, sm_ticks := Suc (sm_ticks s1) \<rparr>))"
      using s1(1) o assms(3) by (intro index_ok_put_branch) (simp_all add: session_ok_def)
    then have "session_ok env ?s2" using s1(1) by (simp add: session_ok_def)
    from flush_append_internal_ok[OF this, of ?m] o have
      "session_ok env (snd (flush_append_internal env ?m ?s2)) \<and> sm_node_counter (snd (flush_append_internal env ?m ?s2)) = sm_node_counter s1"
      by simp
    then show ?thesis
      using False ok lr1 s1(2)
      by (auto simp: fork_def sbind_def lr_def next_branch_id_def read_clock_def Let_def split: if_splits sum.splits prod.splits)
  qed
qed

lemma write_lines_records:
  assumes "dk_faults d = []" "dk_files d p = Some c"
  shows "case write_lines ex p (map (\<lambda>r. sv_dump env (stored_json r)) rs) d of
      (Inl e, d') \<Rightarrow> \<exists>c'. d' = put_file p c' d
    | (Inr _, d') \<Rightarrow> (\<forall>r \<in> set rs. \<exists>l. sv_dump env (stored_json r) = Inr l) \<and>
        d' = put_file p (c @ concat (map (stored_line env) rs)) d"
  using assms
proof (induction rs arbitrary: c d)
  case Nil
  then have "put_file p c d = d" by (cases d) (auto simp: put_file_def)
  then show ?case by simp
next
  case (Cons r rs)
  show ?case
  proof (cases "sv_dump env (stored_json r)")
    case (Inl e)
    have "put_file p c d = d" using Cons.prems by (cases d) (auto simp: put_file_def)
    then show ?thesis using Inl by (auto intro: exI[of _ c])
  next
    case (Inr l)
    let ?d = "put_file p (c @ l @ [CHR 0x0A]) d"
    have w: "write_file p (l @ [CHR 0x0A]) d = (int (length (l @ [CHR 0x0A])), ?d)"
      using Cons.prems by (simp add: write_file_def contents_def)
    have "case write_lines ex p (map (\<lambda>r. sv_dump env (stored_json r)) rs) ?d of
        (Inl e, d') \<Rightarrow> \<exists>c'. d' = put_file p c' ?d
      | (Inr _, d') \<Rightarrow> (\<forall>r \<in> set rs. \<exists>l. sv_dump env (stored_json r) = Inr l) \<and>
          d' = put_file p ((c @ l @ [CHR 0x0A]) @ concat (map (stored_line env) rs)) ?d"
      using Cons.prems by (intro Cons.IH) simp_all
    then show ?thesis using Inr w by (auto simp: stored_line_def split: prod.splits sum.splits)
  qed
qed

lemma fold_index_node_ok:
  assumes "places_ok env"
  shows "session_ok env s \<Longrightarrow> \<forall>n \<in> set ns. born (sm_node_counter s) n \<Longrightarrow>
    session_ok env (fold (index_node env) ns s) \<and> sm_node_counter (fold (index_node env) ns s) = sm_node_counter s"
proof (induction ns arbitrary: s)
  case (Cons n ns)
  then have "session_ok env (index_node env n s)"
    using index_ok_index_node[OF _ assms, of s n] by (simp add: session_ok_def)
  then show ?case using Cons by simp
qed simp

lemma compact_ok:
  assumes "session_ok env s" "places_ok env"
  shows "session_ok env (snd (compact env s)) \<and> sm_node_counter (snd (compact env s)) = sm_node_counter s"
proof -
  obtain rs where rs: "dk_files (sm_disk s) (sm_path s) = Some (concat (map (stored_line env) rs))"
    "\<forall>r \<in> set rs. stored_ok env (sm_node_counter s) r" "sm_path s \<noteq> []" "dk_faults (sm_disk s) = []"
    using assms(1) by (auto simp: session_ok_def file_ok_def)
  define active where "active = filter (\<lambda>n. sn_branch_id n = sm_current_branch s) (map snd (sm_nodes s))"
  define kept where "kept = filter (\<lambda>(b, m). b = sm_current_branch s) (sm_branches s)"
  define temp where "temp = sm_path s @ ''.tmp''"
  define qs :: "stored list" where "qs = map Inl active @ map Inr (map snd kept)"
  define d1 where "d1 = put_file temp [] (put_file (sm_path s @ ''.backup'') (concat (map (stored_line env) rs)) (sm_disk s))"
  have dumps: "map (sv_dump env \<circ> node_json) active @ map (sv_dump env \<circ> branch_json) (map snd kept) =
      map (\<lambda>r. sv_dump env (stored_json r)) qs"
    by (simp add: qs_def stored_json_def comp_def)
  have copy: "snd (copy_file (sm_path s) (sm_path s @ ''.backup'') (sm_disk s)) =
      put_file (sm_path s @ ''.backup'') (concat (map (stored_line env) rs)) (sm_disk s)"
    using rs by (simp add: copy_file_def)
  have opened: "open_file True temp (put_file (sm_path s @ ''.backup'') (concat (map (stored_line env) rs)) (sm_disk s)) = (True, d1)"
    using rs(4) by (simp add: open_file_def d1_def)
  have d1: "dk_faults d1 = []" "dk_files d1 temp = Some []" "dk_files d1 (sm_path s) = Some (concat (map (stored_line env) rs))"
    using rs by (simp_all add: d1_def temp_def)
  let ?ex = "system_error env ''SessionManager::compact: ::write failed''"
  obtain r d2 where w: "write_lines ?ex temp (map (\<lambda>r. sv_dump env (stored_json r)) qs) d1 = (r, d2)" by fastforce
  note wr = write_lines_records[OF d1(1,2), where ex = ?ex and env = env and rs = qs, unfolded w]
  show ?thesis
  proof (cases r)
    case (Inl e)
    then obtain c' where "d2 = put_file temp c' d1" using wr by auto
    then have "file_ok env (s \<lparr> sm_disk := d2 \<rparr>)"
      using rs d1 unfolding file_ok_def by (auto simp: temp_def)
    then show ?thesis
      using Inl rs(3) w assms(1) copy opened dumps
      by (simp add: compact_def Let_def active_def[symmetric] kept_def[symmetric] temp_def[symmetric] session_ok_def)
  next
    case (Inr u)
    then have d2: "d2 = put_file temp (concat (map (stored_line env) qs)) d1"
      "\<forall>r \<in> set qs. \<exists>l. sv_dump env (stored_json r) = Inr l" using wr by auto
    have "rename_file temp (sm_path s) d2 = (True, d2 \<lparr> dk_files := (dk_files d2)(temp := None,
        sm_path s \<mapsto> concat (map (stored_line env) qs)) \<rparr>)"
      using d1 by (simp add: rename_file_def d2 temp_def)
    then obtain d3 where d3: "rename_file temp (sm_path s) d2 = (True, d3)"
      "dk_files d3 (sm_path s) = Some (concat (map (stored_line env) qs))" "dk_faults d3 = []"
      using d1 d2 by simp
    have born: "\<forall>n \<in> set active. born (sm_node_counter s) n" using assms(1) by (auto simp: active_def session_ok_def index_ok_def)
    have old: "\<forall>p \<in> set kept. older (bm_forked_from_node (snd p)) (Suc (unat (sm_node_counter s)))"
      using assms(1) by (auto simp: kept_def session_ok_def index_ok_def)
    let ?s = "s \<lparr> sm_nodes := [], sm_children := [], sm_disk := d3, sm_branches := kept \<rparr>"
    have "\<forall>r \<in> set qs. stored_ok env (sm_node_counter s) r"
      using born old d2(2) by (auto simp: qs_def stored_ok_def storable_def born_def)
    then have "session_ok env ?s"
      using assms(1) rs(3) d3 unfolding session_ok_def file_ok_def index_ok_def
      by (auto simp: kept_def distinct_map_filter split: prod.splits)
    from fold_index_node_ok[OF assms(2) this, of active] born show ?thesis
      using Inr rs(3) w copy opened dumps d3
      by (simp add: compact_def Let_def active_def[symmetric] kept_def[symmetric] temp_def[symmetric])
  qed
qed

section \<open>Any use of a session\<close>

datatype session_op = Append_message string | Fork_at string string | Switch_to string | Compact_session | Rename_to string

definition session_do :: "session_env \<Rightarrow> session_op \<Rightarrow> session_manager \<Rightarrow> session_manager" where
  "session_do env a s = (case a of
       Append_message m \<Rightarrow> snd (append_to_branch env m s)
     | Fork_at i name \<Rightarrow> snd (fork env i name s)
     | Switch_to b \<Rightarrow> snd (switch_branch b s)
     | Compact_session \<Rightarrow> snd (compact env s)
     | Rename_to name \<Rightarrow> snd (rename_session env name s))"

lemma session_do_ok:
  assumes "session_ok env s" "codec env" "places_ok env" "unat (sm_node_counter s) < 2 ^ 64 - 1"
  shows "session_ok env (session_do env a s) \<and>
    unat (sm_node_counter (session_do env a s)) \<le> Suc (unat (sm_node_counter s))"
proof (cases a)
  case (Switch_to b)
  then show ?thesis using assms by (simp add: session_do_def switch_branch_def session_ok_def)
qed (use assms append_to_branch_ok fork_ok compact_ok rename_session_ok in \<open>auto simp: session_do_def intro: le_SucI\<close>)

lemma session_run_ok:
  assumes "codec env" "places_ok env"
  shows "session_ok env s \<Longrightarrow> unat (sm_node_counter s) + length ops < 2 ^ 64 \<Longrightarrow> session_ok env (fold (session_do env) ops s)"
proof (induction ops arbitrary: s)
  case (Cons a ops)
  have "session_ok env (session_do env a s) \<and> unat (sm_node_counter (session_do env a s)) \<le> Suc (unat (sm_node_counter s))"
    using session_do_ok[OF Cons.prems(1) assms, of a] Cons.prems(2) by simp
  then show ?case using Cons.IH[of "session_do env a s"] Cons.prems(2) by simp
qed simp

lemma open_session_ok:
  assumes "places_ok env" "dk_faults d = []" "contents (path_join dir (sid @ kSessionFileExt)) d = []"
    "open_session env sid (new_manager dir bus d) = (Inr h, s)"
  shows "session_ok env s \<and> sm_node_counter s = 0"
proof -
  let ?p = "path_join dir (sid @ kSessionFileExt)"
  have "open_file False ?p d = (True, put_file ?p [] d)" using assms(2,3) by (simp add: open_file_def)
  moreover have "index_ok (put_branch env (main_branch []) (new_manager dir bus d))"
    using assms(1) by (intro index_ok_put_branch) (auto simp: index_ok_def new_manager_def main_branch_def older_def)
  ultimately show ?thesis
    using assms(2,4) unfolding session_ok_def
    by (auto simp: open_session_def Let_def new_manager_def put_branch_def index_ok_def file_ok_def path_join_def kSessionFileExt_def
        split: if_splits intro!: exI[of _ "[]"])
qed

section \<open>What a reader of the file gets\<close>

lemma load_stored_result:
  "load_stored env rs seen result s = (a, b, c) \<Longrightarrow> \<exists>c'. load_stored env rs seen result s' = (a, b, c')"
proof (induction rs arbitrary: seen result s s')
  case (Cons r rs)
  then show ?case by (cases r) (auto split: if_splits)
qed simp

lemma load_stored_seen:
  "load_stored env rs seen result s = (a, b, c) \<Longrightarrow> sn_id ` set result \<subseteq> set seen \<Longrightarrow> sn_id ` set b \<subseteq> set a"
proof (induction rs arbitrary: seen result s)
  case (Cons r rs)
  show ?case
  proof (cases r)
    case (Inl n)
    show ?thesis
    proof (cases "sn_id n \<noteq> [] \<and> sn_id n \<notin> set seen")
      case True
      then have "sn_id ` set (result @ [n]) \<subseteq> set (sn_id n # seen)" using Cons.prems(2) by auto
      then show ?thesis using True Cons.IH Cons.prems(1) Inl by simp
    next
      case False
      then have "load_stored env rs seen result s = (a, b, c)" using Cons.prems(1) unfolding Inl by (simp split: if_splits)
      then show ?thesis using Cons.IH Cons.prems(2) by blast
    qed
  qed (use Cons in simp)
qed simp

lemma load_stored_frame:
  "sm_disk (snd (snd (load_stored env rs seen result s))) = sm_disk s \<and> sm_path (snd (snd (load_stored env rs seen result s))) = sm_path s \<and>
   sm_current_branch (snd (snd (load_stored env rs seen result s))) = sm_current_branch s"
  by (induction env rs seen result s rule: load_stored.induct)
    (simp_all add: index_node_def placeholder_def put_branch_def)

lemma load_stored_counter: "sm_node_counter (snd (snd (load_stored env rs seen result s))) = sm_node_counter s"
  by (induction env rs seen result s rule: load_stored.induct) simp_all

text \<open>The records of a file that the code wrote, and what loading makes of them.\<close>

definition holds_records :: "session_env \<Rightarrow> stored list \<Rightarrow> session_manager \<Rightarrow> bool" where
  "holds_records env rs s \<longleftrightarrow> sm_path s \<noteq> [] \<and> dk_faults (sm_disk s) = [] \<and> (\<forall>r \<in> set rs. storable env r) \<and>
     dk_files (sm_disk s) (sm_path s) = Some (concat (map (stored_line env) rs))"

lemma load_records:
  assumes "codec env" "holds_records env rs s"
  shows "load_jsonl env s = (case load_stored env rs [] [] s of (seen, result, s') \<Rightarrow> (Inr result, s'))"
  using assms load_stored_lines[OF assms(1), of rs "[]" "[]" "[]" s]
  by (simp add: holds_records_def load_jsonl_def split: prod.splits)

lemma append_line_holds:
  assumes "holds_records env rs s" "sv_dump env (stored_json r) = Inr l" "\<forall>n. r = Inl n \<longrightarrow> no_floats (sn_content n)"
  shows "\<exists>d. append_line oe we (l @ [CHR 0x0A]) s = (Inr (), s \<lparr> sm_disk := d \<rparr>) \<and> holds_records env (rs @ [r]) (s \<lparr> sm_disk := d \<rparr>)"
proof -
  let ?d = "put_file (sm_path s) (concat (map (stored_line env) (rs @ [r]))) (sm_disk s)"
  have c: "contents (sm_path s) (sm_disk s) = concat (map (stored_line env) rs)" "dk_faults (sm_disk s) = []"
    using assms(1) by (auto simp: holds_records_def contents_def)
  have "append_line oe we (l @ [CHR 0x0A]) s = (Inr (), s \<lparr> sm_disk := ?d \<rparr>)"
    using assms(2) c by (simp add: append_line_def open_file_def write_file_def stored_line_def)
  moreover have "holds_records env (rs @ [r]) (s \<lparr> sm_disk := ?d \<rparr>)"
    using assms by (auto simp: holds_records_def storable_def)
  ultimately show ?thesis by blast
qed

lemma holds_frame [simp]:
  "holds_records env rs (index_node env n s) = holds_records env rs s"
  "holds_records env rs (persisted_event env n s) = holds_records env rs s"
  "holds_records env rs (s\<lparr>sm_current_branch := b\<rparr>) = holds_records env rs s"
  "holds_records env rs (s\<lparr>sm_node_counter := c\<rparr>) = holds_records env rs s"
  by (simp_all add: holds_records_def index_node_def persisted_event_def)

lemma flush_append_holds:
  assumes "holds_records env rs s" "flush_append env n s = (Inr u, s')" "no_floats (sn_content n)"
  shows "holds_records env (rs @ [Inl n]) s' \<and> sm_path s' = sm_path s"
proof -
  obtain l where l: "sv_dump env (node_json n) = Inr l" using assms(1,2)
    by (auto simp: flush_append_def sbind_def holds_records_def split: sum.splits)
  obtain d where "append_line (system_error env (''SessionManager::flush_append: ::open('' @ sm_path s @ '') failed''))
      (\<lambda>k. system_error env (''SessionManager::flush_append: ::write failed (wrote '' @ int_str k @ '' of '' @
         nat_str (length (l @ [CHR 0x0A])) @ '' bytes)'')) (l @ [CHR 0x0A]) s = (Inr (), s \<lparr> sm_disk := d \<rparr>)"
    "holds_records env (rs @ [Inl n]) (s \<lparr> sm_disk := d \<rparr>)"
    using append_line_holds[OF assms(1), of "Inl n" l] l assms(3) by (fastforce simp: stored_json_def)
  then show ?thesis
    using assms(1,2) l
    by (auto simp: flush_append_def sbind_def Let_def holds_records_def index_node_def persisted_event_def split: if_splits)
qed

fun append_all :: "session_env \<Rightarrow> session_node list \<Rightarrow> (unit, session_manager) act" where
  "append_all env [] = sret ()"
| "append_all env (n # ns) = sbind (flush_append env n) (\<lambda>_. append_all env ns)"

lemma append_all_holds:
  "holds_records env rs s \<Longrightarrow> append_all env ns s = (Inr u, s') \<Longrightarrow> \<forall>n \<in> set ns. no_floats (sn_content n) \<Longrightarrow>
    holds_records env (rs @ map Inl ns) s' \<and> sm_path s' = sm_path s"
proof (induction ns arbitrary: rs s)
  case (Cons n ns)
  obtain v s1 where f: "flush_append env n s = (Inr v, s1)" "append_all env ns s1 = (Inr u, s')"
    using Cons.prems(2) by (auto simp: sbind_Inr_conv)
  have "holds_records env (rs @ [Inl n]) s1 \<and> sm_path s1 = sm_path s"
    using flush_append_holds[OF Cons.prems(1) f(1)] Cons.prems(3) by simp
  then show ?case using Cons.IH[of "rs @ [Inl n]" s1] f(2) Cons.prems(3) by simp
qed simp

lemma load_stored_distinct:
  assumes "distinct (map sn_id ns)" "[] \<notin> sn_id ` set ns" "sn_id ` set ns \<inter> set seen = {}"
  shows "fst (snd (load_stored env (map Inl ns) seen result s)) = result @ ns"
  using assms by (induction ns arbitrary: seen result s) auto

lemma reopened:
  assumes "open_session env sid (new_manager dir bus d) = (Inr h, s)" "dk_faults d = []"
  shows "sm_path s = path_join dir (sid @ kSessionFileExt) \<and> sm_path s \<noteq> [] \<and> sm_node_counter s = 0 \<and> sm_current_branch s = ''main'' \<and>
    sm_disk s = put_file (sm_path s) (contents (sm_path s) d) d"
  using assms by (auto simp: open_session_def Let_def new_manager_def put_branch_def open_file_def path_join_def kSessionFileExt_def
      split: if_splits)

text \<open>A manager that opens the file again finds what the first one wrote.\<close>

lemma reopened_holds:
  assumes "holds_records env rs s" "sm_path s = path_join dir (sid @ kSessionFileExt)"
    "open_session env sid (new_manager dir bus (sm_disk s)) = (Inr h, s')"
  shows "holds_records env rs s' \<and> sm_node_counter s' = 0 \<and> sm_path s' = sm_path s"
proof -
  have f: "dk_faults (sm_disk s) = []" using assms(1) by (simp add: holds_records_def)
  show ?thesis
    using reopened[OF assms(3) f] assms(1,2) by (auto simp: holds_records_def contents_def)
qed

section \<open>Theorems\<close>

text \<open>C25. Sessions have no cycles.  However a new session is used on a disk that does not fail (messages, forks, switches,
  compactions, renamings, fewer than 2 to the 64 of them, with calls that throw in between because a node or branch is
  unknown or a text cannot be dumped), what build_context_entries returns, read from the leaf, is exactly the chain
  of parents of the leaf, which ends at a root or at an id the index does not know (a compaction keeps only the
  current branch); no node repeats, so the guard against cycles never acts.\<close>

theorem sessions_form_a_tree:
  assumes "codec env" "places_ok env" "dk_faults d = []" "contents (path_join dir (sid @ kSessionFileExt)) d = []"
    "open_session env sid (new_manager dir bus d) = (Inr h, s0)" "length ops < 2 ^ 64"
  shows "let s = fold (session_do env) ops s0 in
    parent_chain (sm_nodes s) leaf (rev (build_context_entries leaf s)) \<and>
    distinct (map sn_id (build_context_entries leaf s))"
proof -
  have "session_ok env s0 \<and> sm_node_counter s0 = 0" by (rule open_session_ok[OF assms(2-5)])
  then have "session_ok env (fold (session_do env) ops s0)" using session_run_ok[OF assms(1,2)] assms(6) by simp
  then show ?thesis using session_context by (simp add: Let_def session_ok_def)
qed

text \<open>C26. What was appended is read back.  Nodes with distinct ids that were all appended without a failing call are
  returned, in order, by load_jsonl of any manager that opens the session.\<close>

theorem appended_nodes_reload:
  assumes "codec env" "dk_faults d = []" "contents (path_join dir (sid @ kSessionFileExt)) d = []"
    "open_session env sid (new_manager dir bus d) = (Inr h, s0)" "append_all env ns s0 = (Inr u, s)"
    "distinct (map sn_id ns)" "[] \<notin> sn_id ` set ns" "\<forall>n \<in> set ns. no_floats (sn_content n)"
    "open_session env sid (new_manager dir bus' (sm_disk s)) = (Inr h', s')"
  shows "fst (load_jsonl env s') = Inr ns"
proof -
  have s0: "holds_records env [] s0 \<and> sm_path s0 = path_join dir (sid @ kSessionFileExt)"
    using reopened[OF assms(4,2)] assms(2,3) by (auto simp: holds_records_def contents_def)
  have s: "holds_records env (map Inl ns) s" "sm_path s = path_join dir (sid @ kSessionFileExt)"
    using append_all_holds[of env "[]", OF _ assms(5,8)] s0 by simp_all
  have "holds_records env (map Inl ns) s'" using reopened_holds[OF s assms(9)] by blast
  from load_records[OF assms(1) this] load_stored_distinct[OF assms(6,7), of "[]" env "[]" s'] show ?thesis
    by (auto split: prod.splits)
qed

text \<open>The counters start again in every process.  In a session used by one process, opened and loaded by a second,
  the first message the second appends gets the id node_1; the call reports success, but load_jsonl drops
  the record as a duplicate, and every later reader sees only what was there before.\<close>

theorem reopened_session_loses_message:
  assumes "codec env" "places_ok env" "dk_faults d = []" "contents (path_join dir (sid @ kSessionFileExt)) d = []"
    "open_session env sid (new_manager dir bus d) = (Inr h, s0)" "length ops < 2 ^ 64"
    "open_session env sid (new_manager dir bus (sm_disk (fold (session_do env) ops s0))) = (Inr h', s1)"
    "sm_path (fold (session_do env) ops s0) = sm_path s0"
    "load_jsonl env s1 = (Inr ns, s2)" "''node_1'' \<in> sn_id ` set ns"
    "append_to_branch env msg s2 = (Inr i, s3)"
    "open_session env sid (new_manager dir bus (sm_disk s3)) = (Inr h'', s4)"
  shows "i = ''node_1'' \<and> fst (load_jsonl env s4) = Inr ns"
proof -
  let ?s = "fold (session_do env) ops s0"
  have "session_ok env s0 \<and> sm_node_counter s0 = 0" by (rule open_session_ok[OF assms(2-5)])
  then have "session_ok env ?s" using session_run_ok[OF assms(1,2)] assms(6) by simp
  then obtain rs where s: "holds_records env rs ?s"
    by (auto simp: session_ok_def file_ok_def holds_records_def stored_ok_def)
  have p: "sm_path ?s = path_join dir (sid @ kSessionFileExt)" using reopened[OF assms(5,3)] assms(8) by simp
  have s1: "holds_records env rs s1" "sm_node_counter s1 = 0" "sm_path s1 = path_join dir (sid @ kSessionFileExt)"
    using reopened_holds[OF s p assms(7)] p by simp_all
  obtain seen where ld: "load_stored env rs [] [] s1 = (seen, ns, s2)"
    using load_records[OF assms(1) s1(1)] assms(9) by (auto split: prod.splits)
  have s2: "holds_records env rs s2" "sm_path s2 = sm_path s1" "sm_node_counter s2 = 0"
    using load_stored_frame[of env rs "[]" "[]" s1] ld s1 load_stored_counter[of env rs "[]" "[]" s1] by (auto simp: holds_records_def)
  obtain b parent where tg: "append_target s2 = (Inr (b, parent), s2)"
    "append_at env msg (b, parent) s2 = (Inr i, s3)"
    using assms(11) by (auto simp: append_to_branch_def sbind_Inr_conv append_target_def Let_def split: if_splits)
  have one: "''node_'' @ to_hex 1 = ''node_1''"
    by code_simp
  let ?n = "\<lparr> sn_id = ''node_'' @ to_hex (sm_node_counter s2 + 1), sn_parent_id = parent, sn_branch_id = b,
        sn_content = jobj [(''message'', JStr msg)] \<rparr>"
  have i: "i = ''node_1''" and fl: "flush_append env ?n (s2 \<lparr> sm_node_counter := sm_node_counter s2 + 1 \<rparr>) = (Inr (), s3)"
    using tg(2) s2(3) one by (auto simp: append_at_def next_node_id_def sbind_Inr_conv sbind_def Let_def split: prod.splits sum.splits)
  have s3: "holds_records env (rs @ [Inl ?n]) s3" "sm_path s3 = path_join dir (sid @ kSessionFileExt)"
    using flush_append_holds[OF _ fl, of rs] s2 s1(3) by (simp_all add: jobj_def)
  have s4: "holds_records env (rs @ [Inl ?n]) s4" using reopened_holds[OF s3 assms(12)] by blast
  obtain c' where l4: "load_stored env rs [] [] s4 = (seen, ns, c')" using load_stored_result[OF ld] by blast
  have "''node_1'' \<in> set seen" using load_stored_seen[OF ld] assms(10) by auto
  then have "load_stored env (rs @ [Inl ?n]) [] [] s4 = (seen, ns, c')"
    using l4 one s2(3) by (simp add: load_stored_append)
  then show ?thesis using i load_records[OF assms(1) s4] by simp
qed

text \<open>Appending writes a node whose parent has it as a child from then on.\<close>

lemma flush_append_effect:
  assumes "flush_append env n s = (Inr u, s')" "sn_branch_id n \<noteq> []" "sm_current_branch s \<noteq> []"
  shows "sm_nodes s' = hm_put (sv_place_node env) (sn_id n) n (sm_nodes s) \<and>
    sm_children s' = add_child (sn_parent_id n) (sn_id n) (sm_children s) \<and> sm_branches s' = sm_branches s \<and>
    sm_current_branch s' = sm_current_branch s"
  using assms
  by (auto simp: flush_append_def append_line_def sbind_def Let_def index_node_def persisted_event_def
      split: if_splits sum.splits prod.splits)

lemma append_to_branch_effect:
  assumes "append_to_branch env m s = (Inr i, s')"
  shows "\<exists>parent n. append_target s = (Inr (sm_current_branch s, parent), s) \<and>
    sn_id n = i \<and> sn_parent_id n = parent \<and> sn_branch_id n = sm_current_branch s \<and>
    sm_nodes s' = hm_put (sv_place_node env) i n (sm_nodes s) \<and> sm_children s' = add_child parent i (sm_children s) \<and>
    sm_branches s' = sm_branches s \<and> sm_current_branch s' = sm_current_branch s"
proof -
  obtain parent where t: "append_target s = (Inr (sm_current_branch s, parent), s)" "sm_current_branch s \<noteq> []"
    "append_at env m (sm_current_branch s, parent) s = (Inr i, s')"
    using assms by (auto simp: append_to_branch_def sbind_Inr_conv append_target_def Let_def split: if_splits)
  let ?n = "\<lparr> sn_id = i, sn_parent_id = parent, sn_branch_id = sm_current_branch s,
        sn_content = jobj [(''message'', JStr m)] \<rparr>"
  have "flush_append env ?n (s \<lparr> sm_node_counter := sm_node_counter s + 1 \<rparr>) = (Inr (), s')"
    using t(3) by (auto simp: append_at_def next_node_id_def sbind_def Let_def split: prod.splits sum.splits)
  from flush_append_effect[OF this] t show ?thesis by (auto intro!: exI[of _ ?n])
qed

lemma fork_effect:
  assumes "fork env x name s = (Inr b, s')" "sm_nodes s \<noteq> []"
  shows "sm_nodes s' = sm_nodes s \<and> sm_children s' = sm_children s \<and> sm_current_branch s' = b \<and>
    sm_branches s' = hm_put (sv_place_branch env) b \<lparr> bm_branch_id = b, bm_name = name, bm_forked_from_node = x,
      bm_created_at = int_str (sv_clock env (sm_ticks s)) \<rparr> (sm_branches s)"
  using assms
  by (auto simp: fork_def sbind_def next_branch_id_def read_clock_def Let_def put_branch_def flush_append_internal_def append_line_def
      split: if_splits sum.splits prod.splits)

text \<open>Forking at a leaf cuts the branch it belongs to.  A branch with the single leaf x is forked at x and one message
  is appended to the fork.  Back on the old branch nothing is a leaf any more, so its next message becomes a
  child of the node the branch itself was forked from, and on the main branch a second root: the context built
  from it is the message alone.\<close>

theorem fork_at_leaf_cuts_branch:
  assumes "places_ok env" "index_ok s" "sm_current_branch s = ''main''" "branch_leaves ''main'' s = [x]"
    "map_of (sm_branches s) ''main'' = Some (main_branch tm)"
    "fork env x name s = (Inr b, s1)" "b \<noteq> ''main''" "\<forall>(i, n) \<in> set (sm_nodes s). sn_branch_id n \<noteq> b"
    "append_to_branch env msg s1 = (Inr y, s2)" "y \<notin> fst ` set (sm_nodes s)"
    "switch_branch ''main'' s2 = (Inr u, s3)" "append_to_branch env msg' s3 = (Inr z, s4)"
  shows "map sn_id (build_context_entries z s4) = [z] \<and> x \<in> fst ` set (sm_nodes s4)"
proof -
  have d: "distinct (map fst (sm_nodes s))" "distinct (map fst (sm_branches s))" using assms(2) by (auto simp: index_ok_def)
  obtain xn where x: "(x, xn) \<in> set (sm_nodes s)" "sn_branch_id xn = ''main''"
    using branch_leaves_nodes[of x "''main''" s] assms(4) by auto
  then have "x = sn_id xn \<and> born (sm_node_counter s) xn" using assms(2) by (auto simp: index_ok_def)
  then have x0: "x \<noteq> []" by (auto simp: born_def)
  obtain m where s1: "sm_nodes s1 = sm_nodes s" "sm_children s1 = sm_children s" "sm_current_branch s1 = b"
    "bm_forked_from_node m = x" "sm_branches s1 = hm_put (sv_place_branch env) b m (sm_branches s)"
    using fork_effect[OF assms(6)] x(1) by (metis branch_meta.select_convs(3) empty_iff empty_set)
  have br: "map_of (sm_branches s1) = (map_of (sm_branches s))(b \<mapsto> m)"
    using s1(5) d(2) assms(1) by (simp add: places_ok_def)
  have "branch_leaves b s1 = []" using s1(1) assms(8) by (auto simp: branch_leaves_def filter_empty_conv)
  then have t1: "append_target s1 = (Inr (b, q), s1) \<Longrightarrow> q = x" for q
    using s1 br by (simp add: append_target_def split: if_splits)
  obtain p n where t2: "append_target s1 = (Inr (b, p), s1)" and s2: "sn_branch_id n = b" "sm_nodes s2 = hm_put (sv_place_node env) y n (sm_nodes s)"
    "sm_children s2 = add_child p y (sm_children s)" "sm_branches s2 = sm_branches s1"
    using append_to_branch_effect[OF assms(9)] s1 by auto
  have p: "p = x" by (rule t1[OF t2])
  have s3: "s3 = s2 \<lparr> sm_current_branch := ''main'' \<rparr>" using assms(11) by (auto simp: switch_branch_def split: if_splits)
  have set2: "set (sm_nodes s2) = insert (y, n) {p \<in> set (sm_nodes s). fst p \<noteq> y}"
    using s2(2) d(1) assms(1) by (simp add: hm_put_set places_ok_def)
  define cs where "cs = (case map_of (sm_children s) x of None \<Rightarrow> [] | Some l \<Rightarrow> l)"
  have "sm_children s3 = add_child x y (sm_children s)" using s2(3) p s3 by simp
  then have cs: "map_of (sm_children s3) = (map_of (sm_children s))(x \<mapsto> List.insert y cs)"
    by (simp only: add_child_def cs_def x0 if_False map_of_kv_ins)
  have "List.insert y cs \<noteq> []" by (auto simp: List.insert_def)
  then have less: "childless s i \<and> i \<noteq> x" if "childless s3 i" for i
    using that cs by (cases "i = x") (simp_all add: childless_def)
  have only: "i = x" if "(i, n') \<in> set (sm_nodes s)" "sn_branch_id n' = ''main''" "childless s i" for i n'
  proof -
    have "i \<in> set (branch_leaves ''main'' s)" using that by (force simp: branch_leaves_def)
    then show ?thesis using assms(4) by simp
  qed
  have "i \<notin> set (branch_leaves ''main'' s3)" for i
  proof
    assume "i \<in> set (branch_leaves ''main'' s3)"
    then obtain n' where n': "(i, n') \<in> set (sm_nodes s3)" "sn_branch_id n' = ''main''" "childless s3 i"
      using branch_leaves_nodes by blast
    then have "(i, n') \<in> set (sm_nodes s)" using set2 s2(1) assms(7) s3 by auto
    then show False using only[OF _ n'(2)] less[OF n'(3)] by blast
  qed
  then have "branch_leaves ''main'' s3 = []" by (metis list.set_intros(1) neq_Nil_conv)
  moreover have "map_of (sm_branches s3) ''main'' = Some (main_branch tm)" using br s2(4) s3 assms(5,7) by simp
  ultimately have t3: "append_target s3 = (Inr (''main'', []), s3)" using s3 by (simp add: append_target_def main_branch_def Let_def)
  obtain k where k: "sn_parent_id k = []" "sn_id k = z" "sm_nodes s4 = hm_put (sv_place_node env) z k (sm_nodes s3)"
    using append_to_branch_effect[OF assms(12)] t3 by auto
  have d2: "distinct (map fst (sm_nodes s3))" using s2(2) s3 d(1) assms(1) hm_put_keys[of "sv_place_node env" "sm_nodes s" y n] by (simp add: places_ok_def)
  have "map_of (sm_nodes s4) z = Some k" using k(3) d2 assms(1) by (simp add: places_ok_def)
  moreover have z: "z \<noteq> []" using assms(12)
    by (auto simp: append_to_branch_def append_at_def next_node_id_def sbind_def Let_def split: sum.splits prod.splits)
  ultimately have "build_context_entries z s4 = [k]"
    using k(1) by (simp add: build_context_entries_def context_walk.simps[of _ _ z] context_walk.simps[of _ _ "[]"])
  moreover have "x \<in> fst ` set (sm_nodes s4)"
  proof -
    have "x \<noteq> y" using assms(10) x(1) by force
    then have "x \<in> fst ` set (sm_nodes s3)" using set2 x(1) s3 by force
    then show ?thesis using k(3) hm_put_keys[of "sv_place_node env" "sm_nodes s3" z k] d2 assms(1) by (simp add: places_ok_def)
  qed
  ultimately show ?thesis using k(2) by simp
qed

text \<open>A torn line swallows its successor.  A write that stores only a part of its line reports the error, but the next
  append continues the same line; although it reports success, neither node is read back, since the glued line
  is no JSON.\<close>

lemma torn_line_swallows_next:
  assumes "codec env" "dk_faults (sm_disk s) = [Succeeds, Short k]" "contents (sm_path s) (sm_disk s) = []" "sm_path s \<noteq> []"
    "sv_dump env (node_json n1) = Inr l1" "sv_dump env (node_json n2) = Inr l2" "0 < k" "k \<le> length l1"
    "no_floats (sn_content n1)" "no_floats (sn_content n2)" "sv_parse env (take k l1 @ l2) = None"
    "flush_append env n1 s = (r1, s1)" "flush_append env n2 s1 = (r2, s2)"
  shows "(\<exists>e. r1 = Inl e) \<and> r2 = Inr () \<and> fst (load_jsonl env s2) = Inr []"
proof -
  have nl: "CHR 0x0A \<notin> set l1" "l1 \<noteq> []" "CHR 0x0A \<notin> set l2" "l2 \<noteq> []"
    using assms(1,5,6) node_json_no_floats[OF assms(9)] node_json_no_floats[OF assms(10)] by (auto simp: codec_def)
  have s1: "(\<exists>e. r1 = Inl e) \<and> sm_path s1 = sm_path s \<and> dk_faults (sm_disk s1) = [] \<and> contents (sm_path s) (sm_disk s1) = take k l1"
    using assms(12) assms(2-5,7,8)
    by (auto simp: flush_append_def append_line_def open_file_def write_file_def call_def sbind_def Let_def min_def contents_def put_file_def
        split: if_splits)
  have s2: "r2 = Inr () \<and> sm_path s2 = sm_path s \<and> dk_files (sm_disk s2) (sm_path s) = Some (take k l1 @ l2 @ [CHR 0x0A])"
    using assms(13) s1 assms(4,6)
    by (auto simp: flush_append_def append_line_def open_file_def write_file_def sbind_def Let_def index_node_def persisted_event_def
        contents_def put_file_def split: if_splits)
  have "CHR 0x0A \<notin> set (take k l1 @ l2)" using nl set_take_subset[of k l1] by auto
  then have "getlines (take k l1 @ l2 @ [CHR 0x0A]) = [take k l1 @ l2]" using getlines_line[of "take k l1 @ l2" "[]"] by simp
  then show ?thesis using s1 s2 assms(4,11) nl by (simp add: load_jsonl_def)
qed

section \<open>Sample sessions\<close>

text \<open>A codec that knows the records of the samples: the text of a record is one letter.\<close>

definition sample_node :: "string \<Rightarrow> string \<Rightarrow> string \<Rightarrow> string \<Rightarrow> session_node" where
  "sample_node i parent b m = \<lparr> sn_id = i, sn_parent_id = parent, sn_branch_id = b, sn_content = JObj [(''message'', JStr m)] \<rparr>"

definition sample_texts :: "(json \<times> string) list" where
  "sample_texts = [(node_json (sample_node ''node_1'' [] ''main'' ''hello''), ''a''),
     (branch_json \<lparr> bm_branch_id = ''branch_1'', bm_name = ''try'', bm_forked_from_node = ''node_1'', bm_created_at = ''0'' \<rparr>, ''b''),
     (node_json (sample_node ''node_2'' ''node_1'' ''branch_1'' ''aside''), ''c''),
     (node_json (sample_node ''node_3'' [] ''main'' ''again''), ''d''),
     (node_json (sample_node ''node_1'' ''node_1'' ''main'' ''lost''), ''e'')]"

definition sample_store :: session_env where
  "sample_store = \<lparr> sv_dump = (\<lambda>j. case map_of sample_texts j of None \<Rightarrow> Inl (Json_error ''type_error.316'') | Some l \<Rightarrow> Inr l),
     sv_parse = (\<lambda>l. map_of (map prod.swap sample_texts) l), sv_parse_file = (\<lambda>_. Inr JNull),
     sv_strerror = ''error'', sv_pid = 1, sv_clock = (\<lambda>_. 0), sv_place_node = (\<lambda>m. m), sv_place_branch = (\<lambda>m. m) \<rparr>"

lemma sample_codec: "codec sample_store"
  unfolding codec_def sample_store_def sample_texts_def by (auto split: option.splits if_splits)

lemma sample_places: "places_ok sample_store"
  by (simp add: places_ok_def places_def sample_store_def)

definition sample_opened :: "disk \<Rightarrow> session_manager" where
  "sample_opened d = snd (open_session sample_store ''s'' (new_manager ''d'' False d))"

definition sample_used :: "session_op list \<Rightarrow> session_manager" where
  "sample_used ops = fold (session_do sample_store) ops (sample_opened new_disk)"

lemma sample_open: "dk_faults d = [] \<Longrightarrow> open_session sample_store ''s'' (new_manager ''d'' False d) =
    (Inr \<lparr> hd_session_id = ''s'', hd_jsonl_path = ''d/s.jsonl'' \<rparr>, sample_opened d)"
  by (simp add: sample_opened_def open_session_def new_manager_def path_join_def kSessionFileExt_def open_file_def Let_def
      put_branch_def sample_store_def)

lemma sessions_form_a_tree_witness:
  "let s = sample_used [Append_message ''hello'', Fork_at ''node_1'' ''try'', Append_message ''aside''] in
    map sn_id (build_context_entries ''node_2'' s) = [''node_1'', ''node_2''] \<and>
    parent_chain (sm_nodes s) ''node_2'' (rev (build_context_entries ''node_2'' s))"
proof -
  have "map sn_id (build_context_entries ''node_2''
      (sample_used [Append_message ''hello'', Fork_at ''node_1'' ''try'', Append_message ''aside''])) = [''node_1'', ''node_2'']"
    by code_simp
  then show ?thesis
    using sessions_form_a_tree[OF sample_codec sample_places _ _ sample_open,
        of new_disk "[Append_message ''hello'', Fork_at ''node_1'' ''try'', Append_message ''aside'']" "''node_2''"]
    by (simp add: Let_def sample_used_def new_disk_def contents_def)
qed

lemma appended_nodes_reload_witness:
  "let ns = [sample_node ''node_1'' [] ''main'' ''hello'', sample_node ''node_2'' ''node_1'' ''branch_1'' ''aside''];
       s = snd (append_all sample_store ns (sample_opened new_disk))
   in fst (load_jsonl sample_store (sample_opened (sm_disk s))) = Inr ns"
proof -
  let ?ns = "[sample_node ''node_1'' [] ''main'' ''hello'', sample_node ''node_2'' ''node_1'' ''branch_1'' ''aside'']"
  let ?s = "snd (append_all sample_store ?ns (sample_opened new_disk))"
  have "fst (append_all sample_store ?ns (sample_opened new_disk)) = Inr ()" by code_simp
  then have a: "append_all sample_store ?ns (sample_opened new_disk) = (Inr (), ?s)"
    by (simp add: prod_eq_iff)
  have "dk_faults (sm_disk ?s) = []" by code_simp
  from appended_nodes_reload[OF sample_codec _ _ sample_open a _ _ _ sample_open[OF this]] show ?thesis
    by (simp add: new_disk_def contents_def sample_node_def Let_def)
qed

lemma reopened_session_loses_message_witness:
  "let s = sample_used [Append_message ''hello'']; s1 = sample_opened (sm_disk s);
       s2 = snd (load_jsonl sample_store s1); (r, s3) = append_to_branch sample_store ''lost'' s2
   in r = Inr ''node_1'' \<and> fst (load_jsonl sample_store (sample_opened (sm_disk s3))) =
        Inr [sample_node ''node_1'' [] ''main'' ''hello'']"
proof -
  define s where "s = sample_used [Append_message ''hello'']"
  define s1 where "s1 = sample_opened (sm_disk s)"
  define s2 where "s2 = snd (load_jsonl sample_store s1)"
  define s3 where "s3 = snd (append_to_branch sample_store ''lost'' s2)"
  have l: "load_jsonl sample_store s1 = (Inr [sample_node ''node_1'' [] ''main'' ''hello''], s2)"
  proof -
    have "fst (load_jsonl sample_store s1) = Inr [sample_node ''node_1'' [] ''main'' ''hello'']"
      unfolding s1_def s_def by code_simp
    then show ?thesis by (simp add: s2_def prod_eq_iff)
  qed
  have "fst (append_to_branch sample_store ''lost'' s2) = Inr ''node_1''" unfolding s2_def s1_def s_def by code_simp
  then have a: "append_to_branch sample_store ''lost'' s2 = (Inr ''node_1'', s3)" by (simp add: s3_def prod_eq_iff)
  have f: "dk_faults (sm_disk s) = []" "dk_faults (sm_disk s3) = []" "sm_path s = sm_path (sample_opened new_disk)"
    unfolding s3_def s2_def s1_def s_def by code_simp+
  have d: "dk_faults new_disk = []" "contents (path_join ''d'' (''s'' @ kSessionFileExt)) new_disk = []"
    by (simp_all add: new_disk_def contents_def)
  have "length [Append_message ''hello''] < 2 ^ 64" by simp
  note t = reopened_session_loses_message[OF sample_codec sample_places d sample_open[OF d(1)] this, folded sample_used_def, folded s_def]
  have "''node_1'' = ''node_1'' \<and> fst (load_jsonl sample_store (sample_opened (sm_disk s3))) =
      Inr [sample_node ''node_1'' [] ''main'' ''hello'']"
    by (rule t[OF sample_open[OF f(1), folded s1_def] f(3) l _ a sample_open[OF f(2)]]) (simp add: sample_node_def)
  then show ?thesis by (simp add: Let_def a flip: s_def s1_def s2_def)
qed

lemma sample_used_index: "length ops < 2 ^ 64 \<Longrightarrow> index_ok (sample_used ops)"
  using open_session_ok[OF sample_places _ _ sample_open[of new_disk]] session_run_ok[OF sample_codec sample_places, of "sample_opened new_disk" ops]
  by (simp add: sample_used_def session_ok_def new_disk_def contents_def)

lemma fork_at_leaf_cuts_branch_witness:
  "let s = sample_used [Append_message ''hello'', Fork_at ''node_1'' ''try'', Append_message ''aside'', Switch_to ''main'',
       Append_message ''again'']
   in map sn_id (build_context_entries ''node_3'' s) = [''node_3''] \<and> ''node_1'' \<in> fst ` set (sm_nodes s)"
proof -
  define s where "s = sample_used [Append_message ''hello'']"
  define s1 where "s1 = snd (fork sample_store ''node_1'' ''try'' s)"
  define s2 where "s2 = snd (append_to_branch sample_store ''aside'' s1)"
  define s3 where "s3 = snd (switch_branch ''main'' s2)"
  define s4 where "s4 = snd (append_to_branch sample_store ''again'' s3)"
  note defs = s4_def s3_def s2_def s1_def s_def
  have "fst (fork sample_store ''node_1'' ''try'' s) = Inr ''branch_1''" "fst (append_to_branch sample_store ''aside'' s1) = Inr ''node_2''"
    "fst (switch_branch ''main'' s2) = Inr ()" "fst (append_to_branch sample_store ''again'' s3) = Inr ''node_3''"
    unfolding defs by code_simp+
  then have r: "fork sample_store ''node_1'' ''try'' s = (Inr ''branch_1'', s1)" "append_to_branch sample_store ''aside'' s1 = (Inr ''node_2'', s2)"
    "switch_branch ''main'' s2 = (Inr (), s3)" "append_to_branch sample_store ''again'' s3 = (Inr ''node_3'', s4)"
    by (simp_all add: s4_def s3_def s2_def s1_def prod_eq_iff)
  have nodes: "sm_nodes s = [(''node_1'', sample_node ''node_1'' [] ''main'' ''hello'')]" unfolding s_def by code_simp
  have "sm_current_branch s = ''main''" "branch_leaves ''main'' s = [''node_1'']"
    "map_of (sm_branches s) ''main'' = Some (main_branch [])" unfolding s_def by code_simp+
  moreover have "index_ok s" unfolding s_def by (rule sample_used_index) simp
  ultimately have "map sn_id (build_context_entries ''node_3'' s4) = [''node_3''] \<and> ''node_1'' \<in> fst ` set (sm_nodes s4)"
    by (intro fork_at_leaf_cuts_branch[OF sample_places _ _ _ _ r(1) _ _ r(2) _ r(3,4)]) (simp_all add: nodes sample_node_def)
  moreover have "sample_used [Append_message ''hello'', Fork_at ''node_1'' ''try'', Append_message ''aside'', Switch_to ''main'',
       Append_message ''again''] = s4"
    unfolding defs by (simp add: sample_used_def session_do_def)
  ultimately show ?thesis by (simp add: Let_def)
qed

end
