(* ===== verification/Event_Log.thy ===== *)
theory Event_Log
  imports Storage Bus Budget Providers
begin

text \<open>
  The two writers of JSON lines behind the bus: the event log (core/event_log.cpp, event_log_config.h) and the
  session writer (core/session_writer.cpp, session_writer_config.h), with their buffers, rotation, readers and
  queries.  The text of a JSON value, the clock and the conversions of floating-point numbers are parameters.
  A stream that is open does not fail to write; opening and renaming fail as the disk says.  The event log also
  runs in small steps: its flushing thread and the callers of flush_sync interleave between taking a batch, testing
  whether the file is open, locking it, writing each line, closing the file and reopening it.
\<close>

section \<open>Configuration\<close>

record event_log_config =
  el_agent_id :: string
  el_dir :: string
  el_capture_mode :: capture_mode
  el_max_file_size :: nat
  el_max_rotation_files :: nat

record session_writer_config =
  sw_session_id :: string
  sw_writer_dir :: string
  sw_max_file_size :: nat
  sw_max_rotation_files :: nat

definition default_event_log :: event_log_config where
  "default_event_log = \<lparr> el_agent_id = [], el_dir = ''~/.hydraforge/event_log'', el_capture_mode = Off,
     el_max_file_size = 100 * 1024 * 1024, el_max_rotation_files = 3 \<rparr>"

definition default_session_writer :: session_writer_config where
  "default_session_writer = \<lparr> sw_session_id = [], sw_writer_dir = ''~/.hydraforge/sessions'',
     sw_max_file_size = 100 * 1024 * 1024, sw_max_rotation_files = 3 \<rparr>"

definition effective_capture_enabled :: "event_log_config \<Rightarrow> bool" where
  "effective_capture_enabled c = (el_capture_mode c \<noteq> Off)"

definition validate_training_mode :: "event_log_config \<Rightarrow> string \<Rightarrow> unit res" where
  "validate_training_mode c path =
     (if el_capture_mode c \<noteq> Training then Inr ()
      else if \<not> contains_sub ''train'' path \<and> \<not> contains_sub ''distill'' path
      then Inl (Invalid_argument (''EventLog Training mode requires output path containing '' @ quoted ''train'' @ '' or '' @
        quoted ''distill''))
      else Inr ())"

definition detect_online_to_training_downgrade :: "event_log_config \<Rightarrow> capture_mode \<Rightarrow> bool" where
  "detect_online_to_training_downgrade c previous \<longleftrightarrow> previous = Online \<and> el_capture_mode c = Training"

section \<open>Lines\<close>

record line_env =
  lv_dump :: "json \<Rightarrow> string res"
  lv_parse :: "string \<Rightarrow> json option"
  lv_clock :: "nat \<Rightarrow> int"
  lv_f2i :: "64 word \<Rightarrow> int"
  lv_f2u :: "64 word \<Rightarrow> 64 word"

text \<open>The event id takes one reading of the clock and the process-wide counter, the wall time a second one.\<close>

definition next_event_id :: "line_env \<Rightarrow> nat \<Rightarrow> nat \<Rightarrow> string" where
  "next_event_id env ticks num = ''evt-'' @ int_str (lv_clock env ticks) @ ''-'' @ nat_str num"

primrec error_code_number :: "error_code \<Rightarrow> int" where
  "error_code_number Unknown = 0"
| "error_code_number PermissionDenied = 1"
| "error_code_number PathViolation = 2"
| "error_code_number DangerousCommand = 3"
| "error_code_number ToolNotRegistered = 4"
| "error_code_number Retry = 5"
| "error_code_number Skip = 6"
| "error_code_number Abort = 7"
| "error_code_number Audit = 8"
| "error_code_number Timeout = 9"
| "error_code_number ResourceExhausted = 10"
| "error_code_number SandboxViolation = 11"
| "error_code_number MaxStepsExceeded = 12"
| "error_code_number Crash = 13"
| "error_code_number BudgetExhausted = 14"
| "error_code_number UnsupportedPlatform = 15"
| "error_code_number InvalidArg = 16"
| "error_code_number InvalidParams = 17"
| "error_code_number Cancelled = 18"

text \<open>The payload of a line: the data of the event, into which the error code and the latency are written; the
  subscript throws unless the data is an object or null.\<close>

definition logged_payload :: "tool_result \<Rightarrow> json res" where
  "logged_payload r = ebind
     (case tr_error_code r of None \<Rightarrow> Inr (tr_data r)
      | Some c \<Rightarrow> jput ''_error_code'' (JInt (error_code_number c)) (tr_data r))
     (\<lambda>d. case tr_latency_ms r of
        Some ms \<Rightarrow> if 0 < ms then jput ''_latency_ms'' (JInt (uint ms)) d else Inr d
      | None \<Rightarrow> Inr d)"

definition event_json :: "line_env \<Rightarrow> string \<Rightarrow> nat \<Rightarrow> nat \<Rightarrow> bus_event \<Rightarrow> json \<Rightarrow> json" where
  "event_json env agent ticks num e payload = jobj
     ([(''v'', JInt 1), (''event_id'', JStr (next_event_id env ticks num)), (''ts_wall'', JInt (lv_clock env (Suc ticks))),
       (''causal_time'', JInt (uint (ev_causal_time e))), (''topic'', JStr (ev_topic e)), (''agent_id'', JStr agent)] @
      (case tr_trace_id (ev_payload e) of Some t \<Rightarrow> if t \<noteq> [] then [(''session_id'', JStr t)] else [] | None \<Rightarrow> []) @
      [(''payload'', payload)])"

definition serialize_event :: "line_env \<Rightarrow> string \<Rightarrow> nat \<Rightarrow> nat \<Rightarrow> bus_event \<Rightarrow> string res" where
  "serialize_event env agent ticks num e =
     ebind (logged_payload (ev_payload e)) (\<lambda>p. lv_dump env (event_json env agent ticks num e p))"

record pending_record =
  pr_type :: string
  pr_role :: string
  pr_payload :: json

definition serialize_record :: "line_env \<Rightarrow> pending_record \<Rightarrow> int \<Rightarrow> string res" where
  "serialize_record env r ts = lv_dump env (jobj
     ([(''v'', JInt 1), (''type'', JStr (pr_type r)), (''ts'', JInt ts)] @
      (if pr_role r \<noteq> [] then [(''role'', JStr (pr_role r))] else []) @ [(''payload'', pr_payload r)]))"

section \<open>A rotated file\<close>

text \<open>The output stream of a writer: its path, whether it is open, the size the writer counts, and the disk.\<close>

record log_file =
  lf_path :: string
  lf_open :: bool
  lf_size :: nat
  lf_disk :: disk

text \<open>The constructors create the directory of their files, ignoring errors, and open the file.\<close>

definition open_log :: "string \<Rightarrow> string \<Rightarrow> (string \<Rightarrow> bool) \<Rightarrow> disk \<Rightarrow> log_file" where
  "open_log dir path dirs d = (case call d of (f, d0) \<Rightarrow>
     case open_in (\<lambda>q. dirs q \<or> f \<noteq> Fails \<and> with_above dir q) False path d0 of (ok, d1) \<Rightarrow>
     \<lparr> lf_path = path, lf_open = ok, lf_size = (if ok then length (contents path d1) else 0), lf_disk = d1 \<rparr>)"

definition rotation_name :: "string \<Rightarrow> nat \<Rightarrow> string" where
  "rotation_name path i = (if i = 0 then path else path @ ''.rotation.'' @ nat_str i)"

fun shift_rotations :: "string \<Rightarrow> nat \<Rightarrow> disk \<Rightarrow> disk" where
  "shift_rotations path 0 d = d"
| "shift_rotations path (Suc i) d =
     shift_rotations path i (snd (rename_file (rotation_name path i) (rotation_name path (Suc i)) d))"

text \<open>A rotation closes the file, and renames and reopens; another thread can look at the file in between.\<close>

definition rotation_due :: "nat \<Rightarrow> log_file \<Rightarrow> bool" where
  "rotation_due max_size f \<longleftrightarrow> max_size \<le> lf_size f \<and> lf_open f"

definition close_log :: "log_file \<Rightarrow> log_file" where
  "close_log f = f \<lparr> lf_open := False \<rparr>"

definition reopen_rotated :: "nat \<Rightarrow> log_file \<Rightarrow> log_file" where
  "reopen_rotated files f = (case open_file True (lf_path f) (shift_rotations (lf_path f) files (lf_disk f)) of
     (ok, d) \<Rightarrow> f \<lparr> lf_open := ok, lf_size := 0, lf_disk := d \<rparr>)"

definition rotate_event_log :: "nat \<Rightarrow> nat \<Rightarrow> log_file \<Rightarrow> log_file" where
  "rotate_event_log max_size files f = (if rotation_due max_size f then reopen_rotated files (close_log f) else f)"

definition numbered_name :: "string \<Rightarrow> nat \<Rightarrow> string" where
  "numbered_name path i = (if i = 0 then path else path @ ''.'' @ nat_str i)"

text \<open>The session writer removes the oldest file, renames the others from the highest number down to 2, and then
  the file itself to number 1.\<close>

fun shift_numbered :: "string \<Rightarrow> nat \<Rightarrow> disk \<Rightarrow> disk" where
  "shift_numbered path 0 d = d"
| "shift_numbered path (Suc 0) d = d"
| "shift_numbered path (Suc (Suc i)) d =
     shift_numbered path (Suc i)
       (snd (rename_file (path @ ''.'' @ nat_str (Suc i)) (path @ ''.'' @ nat_str (Suc (Suc i))) d))"

definition rotate_session_file :: "nat \<Rightarrow> nat \<Rightarrow> log_file \<Rightarrow> log_file" where
  "rotate_session_file max_size files f =
     (if lf_size f < max_size then f
      else if \<not> lf_open f then f
      else let d1 = snd (remove_file (lf_path f @ ''.'' @ nat_str files) (lf_disk f));
               d2 = shift_numbered (lf_path f) files d1;
               d3 = snd (rename_file (lf_path f) (lf_path f @ ''.1'') d2)
           in case open_file True (lf_path f) d3 of (ok, d4) \<Rightarrow> f \<lparr> lf_open := ok, lf_size := 0, lf_disk := d4 \<rparr>)"

text \<open>One line to the stream; a closed stream swallows it, but the size is counted.\<close>

definition put_line :: "string \<Rightarrow> log_file \<Rightarrow> log_file" where
  "put_line line f = f \<lparr> lf_size := lf_size f + length line + 1,
     lf_disk := (if lf_open f then put_file (lf_path f) (contents (lf_path f) (lf_disk f) @ line @ [CHR 0x0A]) (lf_disk f)
                 else lf_disk f) \<rparr>"

section \<open>The event log\<close>

record event_log =
  lg_config :: event_log_config
  lg_file :: log_file
  lg_buffer :: "bus_event list"
  lg_running :: bool
  lg_ticks :: nat
  lg_ids :: nat

text \<open>The constructor.  The previous mode is one variable for the whole process; it stays as it was when the
  training check throws.  The events are those it emits on the bus.\<close>

definition downgrade_event :: event_builder where
  "downgrade_event = eb_args (jobj [(''previous_mode'', JStr (capture_mode_to_string Online)),
     (''new_mode'', JStr (capture_mode_to_string Training)), (''reason'', JStr ''Runtime capture mode downgrade detected'')])
     (eb_new ''event_log.capture_mode_downgrade'')"

definition event_log_path :: "string \<Rightarrow> string \<Rightarrow> string" where
  "event_log_path dir agent = path_join dir (agent @ ''.v1.jsonl'')"

definition new_event_log :: "event_log_config \<Rightarrow> bool \<Rightarrow> capture_mode \<Rightarrow> (string \<Rightarrow> bool) \<Rightarrow> disk \<Rightarrow>
    event_log res \<times> capture_mode \<times> event_builder list \<times> disk" where
  "new_event_log c bus previous dirs d =
     (let f = open_log (el_dir c) (event_log_path (el_dir c) (el_agent_id c)) dirs d in
      case validate_training_mode c (lf_path f) of
        Inl e \<Rightarrow> (Inl e, previous, [], lf_disk f)
      | Inr _ \<Rightarrow> (Inr \<lparr> lg_config = c, lg_file = f, lg_buffer = [], lg_running = True, lg_ticks = 0, lg_ids = 0 \<rparr>,
          el_capture_mode c,
          if detect_online_to_training_downgrade c previous \<and> bus then [downgrade_event] else [], lf_disk f))"

definition on_bus_event :: "bus_event \<Rightarrow> event_log \<Rightarrow> event_log" where
  "on_bus_event e s = s \<lparr> lg_buffer := lg_buffer s @ [e] \<rparr>"

text \<open>The critical section of the buffer, and that of the file; an exception leaves the rest of the batch unwritten.\<close>

definition take_batch :: "event_log \<Rightarrow> bus_event list \<times> event_log" where
  "take_batch s = (lg_buffer s, s \<lparr> lg_buffer := [] \<rparr>)"

fun write_batch :: "line_env \<Rightarrow> bus_event list \<Rightarrow> event_log \<Rightarrow> unit res \<times> event_log" where
  "write_batch env [] s = (Inr (), s)"
| "write_batch env (e # es) s =
     (let c = lg_config s; s1 = s \<lparr> lg_ticks := lg_ticks s + 2, lg_ids := Suc (lg_ids s) \<rparr> in
      case serialize_event env (el_agent_id c) (lg_ticks s) (lg_ids s) e of
        Inl ex \<Rightarrow> (Inl ex, s1)
      | Inr line \<Rightarrow> write_batch env es (s1 \<lparr> lg_file :=
          rotate_event_log (el_max_file_size c) (el_max_rotation_files c) (put_line line (lg_file s)) \<rparr>))"

definition write_taken :: "line_env \<Rightarrow> bus_event list \<Rightarrow> event_log \<Rightarrow> unit res \<times> event_log" where
  "write_taken env batch s = (if \<not> lf_open (lg_file s) \<or> batch = [] then (Inr (), s) else write_batch env batch s)"

definition flush_sync :: "line_env \<Rightarrow> event_log \<Rightarrow> unit res \<times> event_log" where
  "flush_sync env s = (case take_batch s of (batch, s1) \<Rightarrow> write_taken env batch s1)"

text \<open>stop, once the flushing thread has ended and the bus is drained.\<close>

definition stop_event_log :: "line_env \<Rightarrow> event_log \<Rightarrow> unit res \<times> event_log" where
  "stop_event_log env s = (if \<not> lg_running s then (Inr (), s)
     else case flush_sync env (s \<lparr> lg_running := False \<rparr>) of
       (Inl e, s1) \<Rightarrow> (Inl e, s1)
     | (Inr _, s1) \<Rightarrow> (Inr (), s1 \<lparr> lg_file := close_log (lg_file s1) \<rparr>))"

section \<open>Reading\<close>

text \<open>What a read sets of a BusEvent: topic, causal time, the data and the number of the error code.\<close>

record logged_event =
  le_topic :: string
  le_causal_time :: "64 word"
  le_data :: json
  le_error :: "int option"

text \<open>\<open>get<int>()\<close> and \<open>get<uint64_t>()\<close>, None for their type error.\<close>

fun json_int :: "line_env \<Rightarrow> json \<Rightarrow> int option" where
  "json_int env (JInt i) = Some (wrap32 i)"
| "json_int env (JFloat w) = Some (lv_f2i env w)"
| "json_int env (JBool b) = Some (if b then 1 else 0)"
| "json_int env _ = None"

definition value_int :: "line_env \<Rightarrow> string \<Rightarrow> int \<Rightarrow> json \<Rightarrow> int option" where
  "value_int env k d j = (if \<not> is_obj j then None else case jlookup k j of None \<Rightarrow> Some d | Some v \<Rightarrow> json_int env v)"

definition value_u64 :: "line_env \<Rightarrow> string \<Rightarrow> json \<Rightarrow> 64 word option" where
  "value_u64 env k j = (if \<not> is_obj j then None else case jlookup k j of None \<Rightarrow> Some 0 | v \<Rightarrow> as_u64 (lv_f2u env) v)"

definition value_string :: "string \<Rightarrow> json \<Rightarrow> string option" where
  "value_string k j = (if \<not> is_obj j then None else case jlookup k j of None \<Rightarrow> Some [] | v \<Rightarrow> as_string v)"

definition read_payload :: "line_env \<Rightarrow> json \<Rightarrow> (json \<times> int option) option" where
  "read_payload env j = (case jlookup ''payload'' j of
       Some (JObj kvs) \<Rightarrow> (case map_of kvs ''_error_code'' of
           None \<Rightarrow> Some (JObj kvs, None)
         | Some c \<Rightarrow> (case json_int env c of None \<Rightarrow> None | Some i \<Rightarrow> Some (JObj kvs, Some i)))
     | _ \<Rightarrow> Some (jempty, None))"

definition read_event :: "line_env \<Rightarrow> string \<Rightarrow> logged_event option" where
  "read_event env line = (if line = [] then None else case lv_parse env line of None \<Rightarrow> None
     | Some j \<Rightarrow> if value_int env ''v'' 0 j \<noteq> Some 1 then None
         else case value_string ''topic'' j of None \<Rightarrow> None
         | Some t \<Rightarrow> (case value_u64 env ''causal_time'' j of None \<Rightarrow> None
         | Some ct \<Rightarrow> (case read_payload env j of None \<Rightarrow> None
         | Some (d, c) \<Rightarrow> Some \<lparr> le_topic = t, le_causal_time = ct, le_data = d, le_error = c \<rparr>)))"

definition read_log :: "line_env \<Rightarrow> string \<Rightarrow> string \<Rightarrow> disk \<Rightarrow> logged_event list" where
  "read_log env agent dir d = (case dk_files d (event_log_path dir agent) of
       None \<Rightarrow> [] | Some c \<Rightarrow> List.map_filter (read_event env) (getlines c))"

definition read_window :: "line_env \<Rightarrow> string \<Rightarrow> 64 word \<Rightarrow> 64 word \<Rightarrow> event_log \<Rightarrow> logged_event list" where
  "read_window env agent a b s =
     filter (\<lambda>e. a \<le> le_causal_time e \<and> le_causal_time e \<le> b) (read_log env agent (el_dir (lg_config s)) (lf_disk (lg_file s)))"

section \<open>Queries\<close>

record query_filter =
  qf_topic_glob :: string
  qf_start :: "64 word"
  qf_end :: "64 word"
  qf_has_window :: bool

text \<open>Everything from the first star on is a wildcard.\<close>

definition topic_matches_glob :: "string \<Rightarrow> string \<Rightarrow> bool" where
  "topic_matches_glob topic glob =
     (if glob = [] \<or> glob = ''*'' then True
      else if CHR ''*'' \<notin> set glob then topic = glob
      else let p = takeWhile (\<lambda>c. c \<noteq> CHR ''*'') glob in p = [] \<or> take (length p) topic = p)"

definition line_topic_quick_match :: "string \<Rightarrow> string \<Rightarrow> bool" where
  "line_topic_quick_match line glob =
     (if glob = [] \<or> glob = ''*'' then True
      else if hd glob = CHR ''*'' then True
      else contains_sub (''\"topic\":\"'' @ takeWhile (\<lambda>c. c \<noteq> CHR ''*'') glob) line)"

definition in_window :: "query_filter \<Rightarrow> 64 word \<Rightarrow> bool" where
  "in_window q ct \<longleftrightarrow> \<not> (qf_has_window q \<and> (ct < qf_start q \<or> qf_end q < ct))"

definition query_line :: "line_env \<Rightarrow> query_filter \<Rightarrow> string \<Rightarrow> logged_event option" where
  "query_line env q line =
     (if line = [] then None
      else if \<not> line_topic_quick_match line (qf_topic_glob q) then None
      else case lv_parse env line of None \<Rightarrow> None
      | Some j \<Rightarrow> if value_int env ''v'' 0 j \<noteq> Some 1 then None
          else case value_string ''topic'' j of None \<Rightarrow> None
          | Some t \<Rightarrow> if \<not> topic_matches_glob t (qf_topic_glob q) then None
              else case value_u64 env ''causal_time'' j of None \<Rightarrow> None
              | Some ct \<Rightarrow> if \<not> in_window q ct then None
                  else case read_payload env j of None \<Rightarrow> None
                  | Some (d, c) \<Rightarrow> Some \<lparr> le_topic = t, le_causal_time = ct, le_data = d, le_error = c \<rparr>)"

fun query_lines :: "line_env \<Rightarrow> query_filter \<Rightarrow> nat \<Rightarrow> string list \<Rightarrow> logged_event list \<Rightarrow> logged_event list" where
  "query_lines env q max_count [] out = out"
| "query_lines env q max_count (l # ls) out = (case query_line env q l of
       None \<Rightarrow> query_lines env q max_count ls out
     | Some e \<Rightarrow> if max_count \<le> length (out @ [e]) then out @ [e] else query_lines env q max_count ls (out @ [e]))"

definition query_log :: "line_env \<Rightarrow> string \<Rightarrow> query_filter \<Rightarrow> nat \<Rightarrow> event_log \<Rightarrow> logged_event list" where
  "query_log env agent q max_count s =
     (case dk_files (lf_disk (lg_file s)) (event_log_path (el_dir (lg_config s)) agent) of
        None \<Rightarrow> [] | Some c \<Rightarrow> query_lines env q max_count (getlines c) [])"

section \<open>The session writer\<close>

definition whitelisted_topics :: "string list" where
  "whitelisted_topics = [''conversation.user_message'', ''conversation.assistant_message'', ''attempt.started'',
     ''attempt.ended'', ''phase.completed'', ''branch.created'', ''llm.request'', ''llm.response'', ''tool.execution.start'',
     ''tool.execution.end'', ''dsl.call.started'', ''dsl.call.completed'', ''attempt.converged'']"

definition topic_to_type :: "string \<Rightarrow> string" where
  "topic_to_type t =
     (if t = ''conversation.user_message'' \<or> t = ''conversation.assistant_message'' then ''conversation''
      else if t = ''attempt.started'' \<or> t = ''attempt.ended'' \<or> t = ''phase.completed'' \<or> t = ''branch.created'' then ''attempt''
      else if t = ''llm.request'' \<or> t = ''llm.response'' \<or> t = ''tool.execution.start'' \<or> t = ''tool.execution.end'' then ''step''
      else if t = ''dsl.call.started'' \<or> t = ''dsl.call.completed'' then ''execution''
      else if t = ''attempt.converged'' then ''convergence''
      else [])"

record session_writer =
  ws_config :: session_writer_config
  ws_file :: log_file
  ws_buffer :: "pending_record list"
  ws_running :: bool
  ws_ticks :: nat

definition session_file_path :: "string \<Rightarrow> string \<Rightarrow> string" where
  "session_file_path dir sid = path_join dir (sid @ ''.v1.jsonl'')"

definition new_session_writer :: "session_writer_config \<Rightarrow> (string \<Rightarrow> bool) \<Rightarrow> disk \<Rightarrow> session_writer" where
  "new_session_writer c dirs d = \<lparr> ws_config = c,
     ws_file = open_log (sw_writer_dir c) (session_file_path (sw_writer_dir c) (sw_session_id c)) dirs d,
     ws_buffer = [], ws_running = True, ws_ticks = 0 \<rparr>"

definition append_record :: "string \<Rightarrow> string \<Rightarrow> json \<Rightarrow> session_writer \<Rightarrow> session_writer" where
  "append_record ty role payload s =
     s \<lparr> ws_buffer := ws_buffer s @ [\<lparr> pr_type = ty, pr_role = role, pr_payload = payload \<rparr>] \<rparr>"

definition writer_on_bus_event :: "bus_event \<Rightarrow> session_writer \<Rightarrow> session_writer" where
  "writer_on_bus_event e s =
     (if ev_topic e \<notin> set whitelisted_topics then s
      else let ty = topic_to_type (ev_topic e) in
        if ty = [] then s
        else append_record ty
          (if ty = ''conversation'' then if ev_topic e = ''conversation.user_message'' then ''user'' else ''assistant'' else [])
          (tr_data (ev_payload e)) s)"

definition take_records :: "session_writer \<Rightarrow> pending_record list \<times> session_writer" where
  "take_records s = (ws_buffer s, s \<lparr> ws_buffer := [] \<rparr>)"

fun write_records :: "line_env \<Rightarrow> pending_record list \<Rightarrow> session_writer \<Rightarrow> unit res \<times> session_writer" where
  "write_records env [] s = (Inr (), s)"
| "write_records env (r # rs) s =
     (let c = ws_config s; s1 = s \<lparr> ws_ticks := Suc (ws_ticks s) \<rparr> in
      case serialize_record env r (lv_clock env (ws_ticks s)) of
        Inl ex \<Rightarrow> (Inl ex, s1)
      | Inr line \<Rightarrow> write_records env rs (s1 \<lparr> ws_file :=
          rotate_session_file (sw_max_file_size c) (sw_max_rotation_files c) (put_line line (ws_file s)) \<rparr>))"

definition writer_flush_sync :: "line_env \<Rightarrow> session_writer \<Rightarrow> unit res \<times> session_writer" where
  "writer_flush_sync env s = (case take_records s of (batch, s1) \<Rightarrow>
     if \<not> lf_open (ws_file s1) \<or> batch = [] then (Inr (), s1) else write_records env batch s1)"

text \<open>stop closes the file and does not look at the buffer again.\<close>

definition stop_session_writer :: "session_writer \<Rightarrow> session_writer" where
  "stop_session_writer s = (if \<not> ws_running s then s
     else s \<lparr> ws_running := False, ws_file := (ws_file s) \<lparr> lf_open := False \<rparr> \<rparr>)"

definition read_records :: "line_env \<Rightarrow> string \<Rightarrow> string \<Rightarrow> disk \<Rightarrow> json list" where
  "read_records env sid dir d = (case dk_files d (session_file_path dir sid) of
       None \<Rightarrow> [] | Some c \<Rightarrow> List.map_filter (lv_parse env) (filter (\<lambda>l. l \<noteq> []) (getlines c)))"

section \<open>Rotation\<close>

text \<open>What the two writers rely on: the names of a log's files are different, and rotating a full file empties
  it and moves every file one number up, as long as the numbers up to \<open>n\<close> have no gap.\<close>

definition no_gaps :: "(string \<Rightarrow> nat \<Rightarrow> string) \<Rightarrow> string \<Rightarrow> nat \<Rightarrow> disk \<Rightarrow> bool" where
  "no_gaps name p n d \<longleftrightarrow> (\<forall>i < n. dk_files d (name p i) = None \<longrightarrow> dk_files d (name p (Suc i)) = None)"

text \<open>The history of a log without any limit: the closed segments, newest first, and the current one.\<close>

definition add_line :: "nat \<Rightarrow> string \<Rightarrow> string list \<times> string \<Rightarrow> string list \<times> string" where
  "add_line m line h = (let c = snd h @ line @ [CHR 0x0A] in if m \<le> length c then (c # fst h, []) else (fst h, c))"

locale rotation_scheme =
  fixes name :: "string \<Rightarrow> nat \<Rightarrow> string"
    and rotate :: "nat \<Rightarrow> nat \<Rightarrow> log_file \<Rightarrow> log_file"
  assumes current: "name p 0 = p"
    and separate: "i \<noteq> j \<Longrightarrow> name p i \<noteq> name p j"
    and small: "lf_size f < m \<Longrightarrow> rotate m n f = f"
    and full: "m \<le> lf_size f \<Longrightarrow> lf_open f \<Longrightarrow> 0 < n \<Longrightarrow> dk_faults (lf_disk f) = [] \<Longrightarrow>
      dk_files (lf_disk f) (lf_path f) \<noteq> None \<Longrightarrow> no_gaps name (lf_path f) n (lf_disk f) \<Longrightarrow>
      \<exists>d. rotate m n f = f \<lparr> lf_size := 0, lf_disk := d \<rparr> \<and> dk_faults d = [] \<and> dk_files d (lf_path f) = Some [] \<and>
        (\<forall>i < n. dk_files d (name (lf_path f) (Suc i)) = dk_files (lf_disk f) (name (lf_path f) i))"
begin

definition represents :: "nat \<Rightarrow> log_file \<Rightarrow> string list \<times> string \<Rightarrow> bool" where
  "represents n f h \<longleftrightarrow> lf_open f \<and> dk_faults (lf_disk f) = [] \<and> lf_size f = length (snd h) \<and>
     dk_files (lf_disk f) (lf_path f) = Some (snd h) \<and>
     (\<forall>i < n. dk_files (lf_disk f) (name (lf_path f) (Suc i)) = (if i < length (fst h) then Some (fst h ! i) else None))"

lemma represents_put_line:
  assumes "represents n f h"
  shows "represents n (put_line line f) (fst h, snd h @ line @ [CHR 0x0A]) \<and> lf_path (put_line line f) = lf_path f"
proof -
  have "dk_files (lf_disk (put_line line f)) (name (lf_path f) (Suc i)) = dk_files (lf_disk f) (name (lf_path f) (Suc i))" for i
    using assms separate[of "Suc i" 0 "lf_path f"] by (simp add: represents_def put_line_def current)
  then show ?thesis using assms by (auto simp: represents_def put_line_def contents_def)
qed

lemma represents_rotate:
  assumes "0 < n" "represents n f h" "m \<le> length (snd h)"
  shows "represents n (rotate m n f) (snd h # fst h, []) \<and> lf_path (rotate m n f) = lf_path f"
proof -
  have f: "lf_open f" "dk_faults (lf_disk f) = []" "lf_size f = length (snd h)" "dk_files (lf_disk f) (lf_path f) = Some (snd h)"
    and old: "\<And>i. i < n \<Longrightarrow> dk_files (lf_disk f) (name (lf_path f) (Suc i)) = (if i < length (fst h) then Some (fst h ! i) else None)"
    using assms(2) by (auto simp: represents_def)
  have "no_gaps name (lf_path f) n (lf_disk f)"
    unfolding no_gaps_def
  proof (intro allI impI)
    fix i assume i: "i < n" "dk_files (lf_disk f) (name (lf_path f) i) = None"
    then obtain k where k: "i = Suc k" using f(4) by (cases i) (auto simp: current)
    then have "length (fst h) \<le> k" using i old[of k] by (auto split: if_splits)
    then show "dk_files (lf_disk f) (name (lf_path f) (Suc i)) = None" using i(1) k old[of i] by simp
  qed
  then obtain d where d: "rotate m n f = f \<lparr> lf_size := 0, lf_disk := d \<rparr>" "dk_faults d = []" "dk_files d (lf_path f) = Some []"
    "\<forall>i < n. dk_files d (name (lf_path f) (Suc i)) = dk_files (lf_disk f) (name (lf_path f) i)"
    using full[of m f n] f assms(1,3) by auto
  have "dk_files d (name (lf_path f) (Suc i)) = (if i < length (snd h # fst h) then Some ((snd h # fst h) ! i) else None)" if "i < n" for i
    using d(4) that f(4) old by (cases i) (simp_all add: current)
  then show ?thesis using d f by (simp add: represents_def)
qed

lemma represents_add_line:
  assumes "0 < n" "represents n f h"
  shows "represents n (rotate m n (put_line line f)) (add_line m line h) \<and> lf_path (rotate m n (put_line line f)) = lf_path f"
proof (cases "m \<le> length (snd h @ line @ [CHR 0x0A])")
  case False
  have "represents n (put_line line f) (fst h, snd h @ line @ [CHR 0x0A]) \<and> lf_path (put_line line f) = lf_path f"
    by (rule represents_put_line[OF assms(2)])
  moreover from this False have "rotate m n (put_line line f) = put_line line f" by (intro small) (simp add: represents_def)
  ultimately show ?thesis using False by (simp add: add_line_def Let_def)
next
  case True
  then show ?thesis
    using represents_rotate[OF assms(1), of "put_line line f" "(fst h, snd h @ line @ [CHR 0x0A])" m]
      represents_put_line[OF assms(2), of line] by (simp add: add_line_def Let_def)
qed

lemma represents_lines:
  assumes "0 < n"
  shows "represents n f h \<Longrightarrow> represents n (fold (\<lambda>l f. rotate m n (put_line l f)) ls f) (fold (add_line m) ls h) \<and>
    lf_path (fold (\<lambda>l f. rotate m n (put_line l f)) ls f) = lf_path f"
proof (induction ls arbitrary: f h)
  case (Cons l ls)
  show ?case using Cons.IH[OF conjunct1[OF represents_add_line[OF assms Cons.prems, of m l]]] represents_add_line[OF assms Cons.prems, of m l] by simp
qed simp

end

text \<open>The history loses nothing: segments and current file are all lines in order, cut after whole lines.\<close>

lemma history_total: "concat (rev (fst (fold (add_line m) ls h))) @ snd (fold (add_line m) ls h) =
    concat (rev (fst h)) @ snd h @ concat (map (\<lambda>l. l @ [CHR 0x0A]) ls)"
  by (induction ls arbitrary: h) (simp_all add: add_line_def Let_def)

lemma add_line_current:
  "snd (add_line m l h) = (if m \<le> length (snd h @ l @ [CHR 0x0A]) then [] else snd h @ l @ [CHR 0x0A])"
  by (simp add: add_line_def Let_def)

lemma history_current:
  "\<exists>k. snd (fold (add_line m) ls ([], [])) = concat (map (\<lambda>l. l @ [CHR 0x0A]) (drop k ls)) \<and>
     (k = 0 \<or> m \<le> length (concat (map (\<lambda>l. l @ [CHR 0x0A]) ls)))"
proof (induction ls rule: rev_induct)
  case (snoc l ls)
  then obtain k where k: "snd (fold (add_line m) ls ([], [])) = concat (map (\<lambda>l. l @ [CHR 0x0A]) (drop k ls))"
    "k = 0 \<or> m \<le> length (concat (map (\<lambda>l. l @ [CHR 0x0A]) ls))" by blast
  let ?c = "snd (fold (add_line m) ls ([], [])) @ l @ [CHR 0x0A]"
  have len: "length ?c \<le> length (concat (map (\<lambda>l. l @ [CHR 0x0A]) (ls @ [l])))"
  proof -
    have "length (snd (fold (add_line m) ls ([], []))) \<le> length (concat (map (\<lambda>l. l @ [CHR 0x0A]) ls))"
      using arg_cong[OF history_total[of m ls "([], [])"], of length] by simp
    then show ?thesis by simp
  qed
  show ?case
  proof (cases "m \<le> length ?c")
    case True
    then have "snd (fold (add_line m) (ls @ [l]) ([], [])) = []" by (simp add: add_line_current)
    then show ?thesis using len True by (intro exI[of _ "Suc (length ls)"]) simp
  next
    case False
    then have "snd (fold (add_line m) (ls @ [l]) ([], [])) = ?c" by (simp add: add_line_current)
    moreover have "?c = concat (map (\<lambda>l. l @ [CHR 0x0A]) (drop (min k (length ls)) (ls @ [l])))"
      unfolding k(1) by (cases "k \<le> length ls") (auto simp: min_def)
    ultimately show ?thesis using k(2) by (intro exI[of _ "min k (length ls)"]) auto
  qed
qed simp

section \<open>Both writers rotate that way\<close>

lemma nat_str_no_newline: "CHR 0x0A \<notin> set (nat_str n)"
proof (induction n rule: nat_str.induct)
  case (1 n)
  have "CHR 0x0A \<noteq> char_of (48 + k :: nat)" if "k < 10" for k
  proof
    assume "CHR 0x0A = char_of (48 + k :: nat)"
    then have "(of_char (CHR 0x0A) :: nat) = of_char (char_of (48 + k :: nat))" by simp
    then show False using that by (simp add: of_char_of)
  qed
  then show ?case using 1 by (simp add: nat_str.simps[of n])
qed

lemma not_nat_str: "nat_str i \<noteq> []" "[] \<noteq> nat_str i"
  by (simp_all add: nat_str.simps[of i])

lemma rotation_name_separate: "i \<noteq> j \<Longrightarrow> rotation_name p i \<noteq> rotation_name p j"
  by (auto simp: rotation_name_def not_nat_str)

lemma numbered_name_separate: "i \<noteq> j \<Longrightarrow> numbered_name p i \<noteq> numbered_name p j"
  by (auto simp: numbered_name_def not_nat_str)

lemma rename_no_faults:
  assumes "dk_faults d = []" "p \<noteq> q" "dk_files d p = None \<Longrightarrow> dk_files d q = None"
  shows "dk_faults (snd (rename_file p q d)) = [] \<and>
    dk_files (snd (rename_file p q d)) = (dk_files d)(p := None, q := dk_files d p)"
  using assms by (cases "dk_files d p") (auto simp: rename_file_def)

lemma shift_rotations_files:
  "dk_faults d = [] \<Longrightarrow> no_gaps rotation_name p n d \<Longrightarrow> dk_faults (shift_rotations p n d) = [] \<and>
    (\<forall>i < n. dk_files (shift_rotations p n d) (rotation_name p (Suc i)) = dk_files d (rotation_name p i)) \<and>
    (\<forall>i > n. dk_files (shift_rotations p n d) (rotation_name p i) = dk_files d (rotation_name p i))"
proof (induction n arbitrary: d)
  case (Suc n)
  let ?d = "snd (rename_file (rotation_name p n) (rotation_name p (Suc n)) d)"
  have r: "dk_faults ?d = []" "dk_files ?d = (dk_files d)(rotation_name p n := None, rotation_name p (Suc n) := dk_files d (rotation_name p n))"
    using rename_no_faults[OF Suc.prems(1) rotation_name_separate[of n "Suc n" p]] Suc.prems(2) by (auto simp: no_gaps_def)
  have other: "dk_files ?d (rotation_name p i) = dk_files d (rotation_name p i)" if "i \<noteq> n" "i \<noteq> Suc n" for i
    using r(2) that rotation_name_separate by simp
  have "no_gaps rotation_name p n ?d"
    unfolding no_gaps_def
  proof (intro allI impI)
    fix i assume "i < n" "dk_files ?d (rotation_name p i) = None"
    then show "dk_files ?d (rotation_name p (Suc i)) = None"
      using Suc.prems(2) other r(2) rotation_name_separate by (cases "Suc i = n") (auto simp: no_gaps_def)
  qed
  from Suc.IH[OF r(1) this] show ?case
    using other r(2) rotation_name_separate by (auto simp: less_Suc_eq)
qed (simp add: no_gaps_def)

interpretation el: rotation_scheme rotation_name rotate_event_log
proof unfold_locales
  fix f :: log_file and m n :: nat
  assume a: "m \<le> lf_size f" "lf_open f" "0 < n" "dk_faults (lf_disk f) = []" "dk_files (lf_disk f) (lf_path f) \<noteq> None"
    "no_gaps rotation_name (lf_path f) n (lf_disk f)"
  let ?d = "put_file (lf_path f) [] (shift_rotations (lf_path f) n (lf_disk f))"
  note sh = shift_rotations_files[OF a(4,6)]
  have "rotate_event_log m n f = f \<lparr> lf_size := 0, lf_disk := ?d \<rparr>"
    using a sh by (simp add: rotate_event_log_def rotation_due_def reopen_rotated_def close_log_def open_file_def)
  moreover have "rotation_name (lf_path f) (Suc i) \<noteq> lf_path f" for i
    using rotation_name_separate[of "Suc i" 0 "lf_path f"] by (simp add: rotation_name_def)
  ultimately show "\<exists>d. rotate_event_log m n f = f \<lparr> lf_size := 0, lf_disk := d \<rparr> \<and> dk_faults d = [] \<and> dk_files d (lf_path f) = Some [] \<and>
      (\<forall>i < n. dk_files d (rotation_name (lf_path f) (Suc i)) = dk_files (lf_disk f) (rotation_name (lf_path f) i))"
    using sh by (intro exI[of _ ?d]) auto
qed (simp_all add: rotation_name_def[of _ 0] rotation_name_separate rotate_event_log_def rotation_due_def)

lemma shift_numbered_files:
  "dk_faults d = [] \<Longrightarrow> \<forall>i. 0 < i \<and> i < n \<longrightarrow> dk_files d (numbered_name p i) = None \<longrightarrow> dk_files d (numbered_name p (Suc i)) = None \<Longrightarrow>
    dk_faults (shift_numbered p n d) = [] \<and> dk_files (shift_numbered p n d) p = dk_files d p \<and>
    (\<forall>i. 0 < i \<and> i < n \<longrightarrow> dk_files (shift_numbered p n d) (numbered_name p (Suc i)) = dk_files d (numbered_name p i)) \<and>
    (1 < n \<longrightarrow> dk_files (shift_numbered p n d) (numbered_name p 1) = None) \<and>
    (\<forall>i > n. dk_files (shift_numbered p n d) (numbered_name p i) = dk_files d (numbered_name p i))"
proof (induction p n d rule: shift_numbered.induct)
  case (3 p n d)
  let ?d = "snd (rename_file (numbered_name p (Suc n)) (numbered_name p (Suc (Suc n))) d)"
  have e: "shift_numbered p (Suc (Suc n)) d = shift_numbered p (Suc n) ?d" by (simp add: numbered_name_def)
  have r: "dk_faults ?d = []" "dk_files ?d = (dk_files d)(numbered_name p (Suc n) := None,
      numbered_name p (Suc (Suc n)) := dk_files d (numbered_name p (Suc n)))"
    using rename_no_faults[OF 3(2) numbered_name_separate[of "Suc n" "Suc (Suc n)" p]] 3(3) by auto
  have other: "dk_files ?d (numbered_name p i) = dk_files d (numbered_name p i)" if "i \<noteq> Suc n" "i \<noteq> Suc (Suc n)" for i
    using r(2) that numbered_name_separate by simp
  have base: "dk_files ?d p = dk_files d p" using other[of 0] by (simp add: numbered_name_def)
  have gap: "dk_files ?d (numbered_name p (Suc n)) = None" using r(2) numbered_name_separate[of "Suc n" "Suc (Suc n)" p] by simp
  have gaps: "\<forall>i. 0 < i \<and> i < Suc n \<longrightarrow> dk_files ?d (numbered_name p i) = None \<longrightarrow> dk_files ?d (numbered_name p (Suc i)) = None"
  proof (intro allI impI)
    fix i assume i: "0 < i \<and> i < Suc n" "dk_files ?d (numbered_name p i) = None"
    then show "dk_files ?d (numbered_name p (Suc i)) = None"
      using 3(3) other gap by (cases "i = n") auto
  qed
  have "dk_faults (shift_numbered p (Suc n) ?d) = [] \<and> dk_files (shift_numbered p (Suc n) ?d) p = dk_files ?d p \<and>
    (\<forall>i. 0 < i \<and> i < Suc n \<longrightarrow> dk_files (shift_numbered p (Suc n) ?d) (numbered_name p (Suc i)) = dk_files ?d (numbered_name p i)) \<and>
    (1 < Suc n \<longrightarrow> dk_files (shift_numbered p (Suc n) ?d) (numbered_name p 1) = None) \<and>
    (\<forall>i > Suc n. dk_files (shift_numbered p (Suc n) ?d) (numbered_name p i) = dk_files ?d (numbered_name p i))"
    using 3(1) r(1) gaps unfolding numbered_name_def by simp
  then show ?case unfolding e
    using base other r(2) gap numbered_name_separate by (auto simp: less_Suc_eq)
qed simp_all

interpretation sw: rotation_scheme numbered_name rotate_session_file
proof unfold_locales
  fix f :: log_file and m n :: nat
  assume a: "m \<le> lf_size f" "lf_open f" "0 < n" "dk_faults (lf_disk f) = []" "dk_files (lf_disk f) (lf_path f) \<noteq> None"
    "no_gaps numbered_name (lf_path f) n (lf_disk f)"
  let ?p = "lf_path f"
  let ?d1 = "snd (remove_file (numbered_name ?p n) (lf_disk f))"
  let ?d2 = "shift_numbered ?p n ?d1"
  let ?d3 = "snd (rename_file ?p (numbered_name ?p 1) ?d2)"
  have sep: "numbered_name ?p i \<noteq> ?p" if "0 < i" for i using numbered_name_separate[of i 0 ?p] that by (simp add: numbered_name_def)
  have d1: "dk_faults ?d1 = []" "dk_files ?d1 = (dk_files (lf_disk f))(numbered_name ?p n := None)"
    using a(4) by (auto simp: remove_file_def split: option.splits)
  have keep: "dk_files ?d1 (numbered_name ?p i) = dk_files (lf_disk f) (numbered_name ?p i)" if "i < n" for i
    using d1(2) numbered_name_separate[of i n ?p] that by simp
  have gaps: "\<forall>i. 0 < i \<and> i < n \<longrightarrow> dk_files ?d1 (numbered_name ?p i) = None \<longrightarrow> dk_files ?d1 (numbered_name ?p (Suc i)) = None"
    using a(6) keep d1(2) by (auto simp: no_gaps_def)
  note d2 = shift_numbered_files[OF d1(1) gaps]
  have base: "dk_files ?d2 ?p = dk_files (lf_disk f) ?p" using d2 keep[of 0] a(3) by (simp add: numbered_name_def)
  have d3: "dk_faults ?d3 = []" "dk_files ?d3 = (dk_files ?d2)(?p := None, numbered_name ?p 1 := dk_files (lf_disk f) ?p)"
    using rename_no_faults[of ?d2 ?p "numbered_name ?p 1"] d2 sep[of 1] base a(5) by auto
  have one: "nat_str (Suc 0) = ''1''" by code_simp
  have "rotate_session_file m n f = f \<lparr> lf_size := 0, lf_disk := put_file ?p [] ?d3 \<rparr>"
    using a d3(1) by (simp add: rotate_session_file_def open_file_def Let_def numbered_name_def nat_str.simps[of 1] one)
  moreover have "dk_files (put_file ?p [] ?d3) (numbered_name ?p (Suc i)) = dk_files (lf_disk f) (numbered_name ?p i)" if "i < n" for i
  proof (cases i)
    case 0
    then show ?thesis using d3(2) sep[of 1] by (simp add: numbered_name_def[of _ 0])
  next
    case (Suc k)
    then show ?thesis using d3(2) d2 sep[of "Suc i"] numbered_name_separate[of "Suc i" 1 ?p] keep[of i] that by simp
  qed
  ultimately show "\<exists>d. rotate_session_file m n f = f \<lparr> lf_size := 0, lf_disk := d \<rparr> \<and> dk_faults d = [] \<and> dk_files d ?p = Some [] \<and>
      (\<forall>i < n. dk_files d (numbered_name ?p (Suc i)) = dk_files (lf_disk f) (numbered_name ?p i))"
    using d3(1) by (intro exI[of _ "put_file ?p [] ?d3"]) simp
qed (simp_all add: numbered_name_def[of _ 0] numbered_name_separate rotate_session_file_def)

section \<open>What the event log writes\<close>

text \<open>The lines of events written without error from a reading \<open>t\<close> of the clock and an event number \<open>i\<close> on.\<close>

definition writable :: "line_env \<Rightarrow> string \<Rightarrow> bus_event \<Rightarrow> bool" where
  "writable env agent e \<longleftrightarrow> (\<forall>t i. \<exists>l. serialize_event env agent t i e = Inr l)"

fun logged_lines :: "line_env \<Rightarrow> string \<Rightarrow> nat \<Rightarrow> nat \<Rightarrow> bus_event list \<Rightarrow> string list" where
  "logged_lines env agent t i [] = []"
| "logged_lines env agent t i (e # es) =
     (case serialize_event env agent t i e of Inr l \<Rightarrow> l | Inl _ \<Rightarrow> []) # logged_lines env agent (t + 2) (Suc i) es"

lemma logged_lines_append:
  "logged_lines env agent t i (es @ fs) = logged_lines env agent t i es @ logged_lines env agent (t + 2 * length es) (i + length es) fs"
  by (induction es arbitrary: t i) simp_all

lemma length_logged_lines [simp]: "length (logged_lines env agent t i es) = length es"
  by (induction es arbitrary: t i) simp_all

text \<open>\<open>log_has n s p h\<close>: the log's file is open at \<open>p\<close> and its first \<open>n\<close> files hold the history \<open>h\<close>.\<close>

definition log_has :: "nat \<Rightarrow> event_log \<Rightarrow> string \<Rightarrow> string list \<times> string \<Rightarrow> bool" where
  "log_has n s p h \<longleftrightarrow> el.represents n (lg_file s) h \<and> lf_path (lg_file s) = p"

lemma log_has_files:
  "log_has n s p h \<Longrightarrow> dk_files (lf_disk (lg_file s)) p = Some (snd h) \<and> (\<forall>i < n. dk_files (lf_disk (lg_file s))
    (rotation_name p (Suc i)) = (if i < length (fst h) then Some (fst h ! i) else None))"
  unfolding log_has_def el.represents_def by blast

lemma write_batch_logs:
  assumes "0 < el_max_rotation_files (lg_config s)" "\<forall>e \<in> set es. writable env (el_agent_id (lg_config s)) e" "log_has (el_max_rotation_files (lg_config s)) s p h"
  shows "\<exists>s'. write_batch env es s = (Inr (), s') \<and> lg_config s' = lg_config s \<and> lg_buffer s' = lg_buffer s \<and>
    lg_ticks s' = lg_ticks s + 2 * length es \<and> lg_ids s' = lg_ids s + length es \<and>
    log_has (el_max_rotation_files (lg_config s)) s' p (fold (add_line (el_max_file_size (lg_config s)))
      (logged_lines env (el_agent_id (lg_config s)) (lg_ticks s) (lg_ids s) es) h)"
  using assms
proof (induction es arbitrary: s h)
  case (Cons e es)
  let ?c = "lg_config s"
  obtain l where l: "serialize_event env (el_agent_id ?c) (lg_ticks s) (lg_ids s) e = Inr l"
    using Cons.prems(2) unfolding writable_def by (meson list.set_intros(1))
  let ?s = "s \<lparr> lg_ticks := lg_ticks s + 2, lg_ids := Suc (lg_ids s), lg_file :=
    rotate_event_log (el_max_file_size ?c) (el_max_rotation_files ?c) (put_line l (lg_file s)) \<rparr>"
  have "log_has (el_max_rotation_files ?c) ?s p (add_line (el_max_file_size ?c) l h)"
    using Cons.prems(3) el.represents_add_line[OF Cons.prems(1), of "lg_file s" h] by (simp add: log_has_def)
  with Cons.IH[of ?s "add_line (el_max_file_size ?c) l h"] Cons.prems l show ?case by (simp add: Let_def)
qed simp

lemma write_taken_logs:
  assumes "0 < el_max_rotation_files (lg_config s)" "\<forall>e \<in> set es. writable env (el_agent_id (lg_config s)) e" "log_has (el_max_rotation_files (lg_config s)) s p h"
  shows "\<exists>s'. write_taken env es s = (Inr (), s') \<and> lg_config s' = lg_config s \<and> lg_buffer s' = lg_buffer s \<and>
    lg_ticks s' = lg_ticks s + 2 * length es \<and> lg_ids s' = lg_ids s + length es \<and>
    log_has (el_max_rotation_files (lg_config s)) s' p (fold (add_line (el_max_file_size (lg_config s)))
      (logged_lines env (el_agent_id (lg_config s)) (lg_ticks s) (lg_ids s) es) h)"
proof (cases "es = []")
  case False
  have "lf_open (lg_file s)" using assms(3) by (simp add: log_has_def el.represents_def)
  then have "write_taken env es s = write_batch env es s" using False by (simp add: write_taken_def)
  with write_batch_logs[OF assms] show ?thesis by simp
qed (use assms(3) in \<open>simp add: write_taken_def\<close>)

lemma new_log_has:
  assumes "new_event_log c bus previous dirs d = (Inr s, mode, evs, d')" "dk_faults d = []"
    "\<forall>i. dk_files d (rotation_name (event_log_path (el_dir c) (el_agent_id c)) i) = None" "CHR ''/'' \<notin> set (el_agent_id c)"
  shows "log_has (el_max_rotation_files c) s (event_log_path (el_dir c) (el_agent_id c)) ([], []) \<and> lg_config s = c \<and> lg_buffer s = [] \<and>
    lg_ticks s = 0 \<and> lg_ids s = 0"
proof -
  let ?p = "event_log_path (el_dir c) (el_agent_id c)"
  have s: "s = \<lparr> lg_config = c, lg_file = open_log (el_dir c) ?p dirs d, lg_buffer = [], lg_running = True, lg_ticks = 0, lg_ids = 0 \<rparr>"
    using assms(1) by (auto simp: new_event_log_def Let_def split: sum.splits)
  have "dk_files d (rotation_name ?p 0) = None" using assms(3) by blast
  then have "contents ?p d = []" by (simp add: contents_def rotation_name_def)
  moreover have "parent_dir ?p = [] \<or> with_above (el_dir c) (parent_dir ?p)"
    using parent_dir_join[of "el_agent_id c @ ''.v1.jsonl''" "el_dir c"] assms(4) by (simp add: event_log_path_def)
  ultimately have "open_log (el_dir c) ?p dirs d = \<lparr> lf_path = ?p, lf_open = True, lf_size = 0, lf_disk = put_file ?p [] d \<rparr>"
    using assms(2) by (auto simp: open_log_def open_in_def open_file_def)
  then show ?thesis
    unfolding s log_has_def el.represents_def
    using assms(2,3) rotation_name_separate[of "Suc _" 0 ?p] by (simp add: rotation_name_def[of _ 0])
qed

section \<open>The threads of an event log\<close>

text \<open>Thread 0 is the flushing thread, the others call flush_sync.  A thread has taken the whole buffer under its
  lock; the flushing thread then tests, without the file's lock, whether the file is open and drops its batch if it
  is not, and a caller of flush_sync tests it after locking.  With the lock a thread writes line by line; a full file
  is closed, renamed and reopened.  An exception of the flushing thread ends the process.  What was written to the
  open file and what was dropped is recorded.\<close>

datatype log_thread = Idle | Took "bus_event list" | Passed "bus_event list" | Writing "bus_event list" | Rotating "bus_event list"

primrec in_hand :: "log_thread \<Rightarrow> bus_event list" where
  "in_hand Idle = []"
| "in_hand (Took b) = b"
| "in_hand (Passed b) = b"
| "in_hand (Writing b) = b"
| "in_hand (Rotating b) = b"

primrec rotating :: "log_thread \<Rightarrow> bool" where
  "rotating Idle = False"
| "rotating (Took b) = False"
| "rotating (Passed b) = False"
| "rotating (Writing b) = False"
| "rotating (Rotating b) = True"

primrec locks_file :: "log_thread \<Rightarrow> bool" where
  "locks_file Idle = False"
| "locks_file (Took b) = False"
| "locks_file (Passed b) = False"
| "locks_file (Writing b) = True"
| "locks_file (Rotating b) = True"

record log_run =
  lr_log :: event_log
  lr_threads :: "log_thread list"
  lr_written :: "bus_event list"
  lr_dropped :: "bus_event list"
  lr_dead :: bool

definition start_run :: "event_log \<Rightarrow> nat \<Rightarrow> log_run" where
  "start_run s callers = \<lparr> lr_log = s, lr_threads = Idle # replicate callers Idle, lr_written = [], lr_dropped = [], lr_dead = False \<rparr>"

definition becomes :: "nat \<Rightarrow> log_thread \<Rightarrow> log_run \<Rightarrow> log_run" where
  "becomes t th r = r \<lparr> lr_threads := (lr_threads r)[t := th] \<rparr>"

definition drop_batch :: "nat \<Rightarrow> bus_event list \<Rightarrow> log_run \<Rightarrow> log_run" where
  "drop_batch t b r = becomes t Idle (r \<lparr> lr_dropped := lr_dropped r @ b \<rparr>)"

definition take_step :: "nat \<Rightarrow> log_run \<Rightarrow> log_run" where
  "take_step t r = (if lr_threads r ! t \<noteq> Idle \<or> t = 0 \<and> \<not> lg_running (lr_log r) then r
     else case take_batch (lr_log r) of (b, s) \<Rightarrow> becomes t (Took b) (r \<lparr> lr_log := s \<rparr>))"

definition test_step :: "log_run \<Rightarrow> log_run" where
  "test_step r = (case lr_threads r ! 0 of
     Took b \<Rightarrow> if \<not> lf_open (lg_file (lr_log r)) \<or> b = [] then drop_batch 0 b r else becomes 0 (Passed b) r
   | _ \<Rightarrow> r)"

definition lock_step :: "nat \<Rightarrow> log_run \<Rightarrow> log_run" where
  "lock_step t r = (if list_ex locks_file (lr_threads r) then r
     else case lr_threads r ! t of
       Passed b \<Rightarrow> becomes t (Writing b) r
     | Took b \<Rightarrow> if t = 0 then r
         else if \<not> lf_open (lg_file (lr_log r)) \<or> b = [] then drop_batch t b r else becomes t (Writing b) r
     | _ \<Rightarrow> r)"

definition count_line :: "bus_event \<Rightarrow> log_run \<Rightarrow> log_run" where
  "count_line e r = (if lf_open (lg_file (lr_log r)) then r \<lparr> lr_written := lr_written r @ [e] \<rparr>
     else r \<lparr> lr_dropped := lr_dropped r @ [e] \<rparr>)"

definition write_step :: "line_env \<Rightarrow> nat \<Rightarrow> log_run \<Rightarrow> log_run" where
  "write_step env t r = (case lr_threads r ! t of
     Writing [] \<Rightarrow> becomes t Idle r
   | Writing (e # es) \<Rightarrow>
       (let s = lr_log r; c = lg_config s; s1 = s \<lparr> lg_ticks := lg_ticks s + 2, lg_ids := Suc (lg_ids s) \<rparr> in
        case serialize_event env (el_agent_id c) (lg_ticks s) (lg_ids s) e of
          Inl ex \<Rightarrow> drop_batch t (e # es) (r \<lparr> lr_log := s1, lr_dead := (t = 0) \<rparr>)
        | Inr line \<Rightarrow>
            (let f = put_line line (lg_file s); due = rotation_due (el_max_file_size c) f in
             becomes t (if due then Rotating es else Writing es)
               ((count_line e r) \<lparr> lr_log := s1 \<lparr> lg_file := if due then close_log f else f \<rparr> \<rparr>)))
   | _ \<Rightarrow> r)"

definition reopen_step :: "nat \<Rightarrow> log_run \<Rightarrow> log_run" where
  "reopen_step t r = (case lr_threads r ! t of
     Rotating es \<Rightarrow> becomes t (Writing es) (r \<lparr> lr_log := (lr_log r) \<lparr> lg_file :=
       reopen_rotated (el_max_rotation_files (lg_config (lr_log r))) (lg_file (lr_log r)) \<rparr> \<rparr>)
   | _ \<Rightarrow> r)"

datatype log_step = Emit bus_event | Take nat | Test | Lock nat | Write nat | Reopen nat

primrec step_thread :: "log_step \<Rightarrow> nat" where
  "step_thread (Emit e) = 0"
| "step_thread (Take t) = t"
| "step_thread Test = 0"
| "step_thread (Lock t) = t"
| "step_thread (Write t) = t"
| "step_thread (Reopen t) = t"

primrec log_step_do :: "line_env \<Rightarrow> log_step \<Rightarrow> log_run \<Rightarrow> log_run" where
  "log_step_do env (Emit e) r = r \<lparr> lr_log := on_bus_event e (lr_log r) \<rparr>"
| "log_step_do env (Take t) r = take_step t r"
| "log_step_do env Test r = test_step r"
| "log_step_do env (Lock t) r = lock_step t r"
| "log_step_do env (Write t) r = write_step env t r"
| "log_step_do env (Reopen t) r = reopen_step t r"

definition log_do :: "line_env \<Rightarrow> log_step \<Rightarrow> log_run \<Rightarrow> log_run" where
  "log_do env x r = (if lr_dead r \<or> length (lr_threads r) \<le> step_thread x then r else log_step_do env x r)"

fun emitted :: "log_step list \<Rightarrow> bus_event list" where
  "emitted [] = []"
| "emitted (Emit e # xs) = e # emitted xs"
| "emitted (_ # xs) = emitted xs"

lemma emitted_append: "emitted (xs @ ys) = emitted xs @ emitted ys"
  by (induction xs rule: emitted.induct) simp_all

lemma locks_file_not_rotating: "\<not> locks_file th \<Longrightarrow> \<not> rotating th"
  by (cases th) simp_all

text \<open>What is left in one place after another takes it.\<close>

lemma mset_concat_update:
  "t < length bs \<Longrightarrow> mset (concat (bs[t := b])) + mset (bs ! t) = mset (concat bs) + mset b"
proof (induction bs arbitrary: t)
  case (Cons a bs)
  show ?case
  proof (cases t)
    case (Suc k)
    then have "mset (concat (bs[k := b])) + mset (bs ! k) = mset (concat bs) + mset b" using Cons by simp
    then show ?thesis using Suc by (simp add: add.assoc)
  qed (simp add: ac_simps)
qed simp

definition in_hands :: "log_thread list \<Rightarrow> bus_event list" where
  "in_hands ths = concat (map in_hand ths)"

lemma in_hands_update:
  "t < length ths \<Longrightarrow> mset (in_hands (ths[t := th])) + mset (in_hand (ths ! t)) = mset (in_hands ths) + mset (in_hand th)"
  unfolding in_hands_def map_update using mset_concat_update[of t "map in_hand ths" "in_hand th"] by simp

lemma in_hands_update_same:
  "t < length ths \<Longrightarrow> in_hand th = in_hand (ths ! t) \<Longrightarrow> in_hands (ths[t := th]) = in_hands ths"
  unfolding in_hands_def map_update by (metis length_map list_update_id nth_map)

section \<open>No event is lost but by the flushing thread\<close>

text \<open>The segments and the current text while the file is open, and between closing and reopening it.\<close>

definition disk_history :: "nat \<Rightarrow> bool \<Rightarrow> string list \<Rightarrow> string list \<times> string" where
  "disk_history m rot ls = (if \<not> rot then fold (add_line m) ls ([], [])
     else let h = fold (add_line m) (butlast ls) ([], []) in (fst h, snd h @ last ls @ [CHR 0x0A]))"

definition text_of_lines :: "string list \<Rightarrow> string" where
  "text_of_lines ls = concat (map (\<lambda>l. l @ [CHR 0x0A]) ls)"

lemma text_of_lines_simps [simp]:
  "text_of_lines [] = []" "text_of_lines (l # ls) = l @ CHR 0x0A # text_of_lines ls"
  "text_of_lines (ls @ ms) = text_of_lines ls @ text_of_lines ms"
  by (simp_all add: text_of_lines_def)

definition file_inv :: "nat \<Rightarrow> nat \<Rightarrow> bool \<Rightarrow> string list \<Rightarrow> string \<Rightarrow> log_file \<Rightarrow> bool" where
  "file_inv n m rot ls p f \<longleftrightarrow> lf_open f = (\<not> rot) \<and> lf_path f = p \<and>
     el.represents n (f \<lparr> lf_open := True \<rparr>) (disk_history m rot ls) \<and>
     (rot \<longrightarrow> ls \<noteq> [] \<and> m \<le> length (snd (disk_history m rot ls)))"

lemma open_log_file: "lf_open f \<Longrightarrow> f \<lparr> lf_open := True \<rparr> = f"
  by (cases f) simp

lemma file_inv_put:
  assumes "file_inv n m False ls p f"
  shows "if rotation_due m (put_line l f) then file_inv n m True (ls @ [l]) p (close_log (put_line l f))
    else file_inv n m False (ls @ [l]) p (put_line l f)"
proof -
  let ?h = "disk_history m False ls"
  have r: "el.represents n f ?h" "lf_open f" "lf_path f = p"
    using assms unfolding file_inv_def by (auto simp: open_log_file)
  note put = el.represents_put_line[OF r(1), of l]
  then have o: "lf_open (put_line l f)" "lf_size (put_line l f) = length (snd ?h @ l @ [CHR 0x0A])"
    by (simp_all add: el.represents_def)
  have rot: "disk_history m True (ls @ [l]) = (fst ?h, snd ?h @ l @ [CHR 0x0A])" by (simp add: disk_history_def Let_def)
  show ?thesis
  proof (cases "m \<le> length (snd ?h @ l @ [CHR 0x0A])")
    case True
    have "(close_log (put_line l f)) \<lparr> lf_open := True \<rparr> = put_line l f" using o(1) by (simp add: close_log_def open_log_file)
    then show ?thesis using True put o r(3) by (simp add: rotation_due_def file_inv_def rot) (simp add: close_log_def)
  next
    case False
    then have "disk_history m False (ls @ [l]) = (fst ?h, snd ?h @ l @ [CHR 0x0A])"
      by (simp add: disk_history_def add_line_def Let_def)
    then show ?thesis using False put o r(3) by (simp add: rotation_due_def file_inv_def open_log_file)
  qed
qed

lemma file_inv_reopen:
  assumes "0 < n" "file_inv n m True ls p f"
  shows "file_inv n m False ls p (reopen_rotated n f)"
proof -
  let ?f = "f \<lparr> lf_open := True \<rparr>" and ?h = "disk_history m True ls"
  have f: "\<not> lf_open f" "lf_path f = p" "el.represents n ?f ?h" "ls \<noteq> []" "m \<le> length (snd ?h)"
    using assms(2) by (simp_all add: file_inv_def)
  have "f \<lparr> lf_open := False \<rparr> = f" using f(1) by (cases f) simp
  then have "rotate_event_log m n ?f = reopen_rotated n f"
    using f(3,5) by (simp add: rotate_event_log_def rotation_due_def close_log_def el.represents_def)
  with el.represents_rotate[OF assms(1) f(3,5)] f(2)
  have r: "el.represents n (reopen_rotated n f) (snd ?h # fst ?h, [])" "lf_path (reopen_rotated n f) = p" by simp_all
  have "disk_history m False ls = fold (add_line m) (butlast ls @ [last ls]) ([], [])"
    using f(4) by (simp add: disk_history_def)
  then have "disk_history m False ls = (snd ?h # fst ?h, [])"
    using f(5) by (simp add: disk_history_def add_line_def Let_def)
  then show ?thesis using r by (simp add: file_inv_def el.represents_def)
qed

lemma segments_cut: "\<forall>g \<in> set (fst h). m \<le> length g \<Longrightarrow> \<forall>g \<in> set (fst (fold (add_line m) ls h)). m \<le> length g"
proof (induction ls arbitrary: h)
  case (Cons l ls)
  have "\<forall>g \<in> set (fst (add_line m l h)). m \<le> length g" using Cons.prems by (auto simp: add_line_def Let_def)
  then show ?case using Cons.IH by simp
qed simp

lemma disk_history_total:
  "rot \<longrightarrow> ls \<noteq> [] \<Longrightarrow> concat (rev (fst (disk_history m rot ls))) @ snd (disk_history m rot ls) = text_of_lines ls"
  using history_total[of m ls "([], [])"] history_total[of m "butlast ls" "([], [])"]
  by (cases ls rule: rev_cases) (auto simp: disk_history_def text_of_lines_def Let_def)

lemma disk_history_cut: "\<forall>g \<in> set (fst (disk_history m rot ls)). m \<le> length g"
  using segments_cut[of "([], [])"] by (simp add: disk_history_def Let_def)

lemma disk_history_current:
  assumes "rot \<longrightarrow> ls \<noteq> []"
  shows "\<exists>k. snd (disk_history m rot ls) = text_of_lines (drop k ls) \<and> (k = 0 \<or> m \<le> length (text_of_lines ls))"
proof (cases rot)
  case False
  then show ?thesis using history_current[of m ls] by (simp add: disk_history_def text_of_lines_def)
next
  case True
  then obtain ms l where ls: "ls = ms @ [l]" using assms by (cases ls rule: rev_cases) auto
  from history_current[of m ms] obtain k where k: "snd (fold (add_line m) ms ([], [])) = text_of_lines (drop k ms)"
    "k = 0 \<or> m \<le> length (text_of_lines ms)" unfolding text_of_lines_def by blast
  have "text_of_lines (drop (min k (length ms)) ls) = text_of_lines (drop k ms) @ l @ [CHR 0x0A]"
    unfolding ls by (cases "k \<le> length ms") (auto simp: min_def)
  then show ?thesis using True k ls
    by (intro exI[of _ "min k (length ms)"]) (auto simp: disk_history_def Let_def)
qed

text \<open>The accounts of the events, and the order they have when only the flushing thread writes.\<close>

definition accounted :: "nat \<Rightarrow> bus_event list \<Rightarrow> log_run \<Rightarrow> bool" where
  "accounted k es r \<longleftrightarrow> mset (lr_written r) + mset (in_hands (lr_threads r)) + mset (lg_buffer (lr_log r)) + mset (lr_dropped r) = mset es \<and>
     (k = 0 \<longrightarrow> es = lr_written r @ in_hand (lr_threads r ! 0) @ lg_buffer (lr_log r))"

definition run_inv :: "line_env \<Rightarrow> event_log_config \<Rightarrow> nat \<Rightarrow> bus_event list \<Rightarrow> log_run \<Rightarrow> bool" where
  "run_inv env c k es r \<longleftrightarrow> \<not> lr_dead r \<and> length (lr_threads r) = Suc k \<and> lg_config (lr_log r) = c \<and>
     lg_ticks (lr_log r) = 2 * length (lr_written r) \<and> lg_ids (lr_log r) = length (lr_written r) \<and>
     (\<forall>i j. i < Suc k \<longrightarrow> j < Suc k \<longrightarrow> locks_file (lr_threads r ! i) \<longrightarrow> locks_file (lr_threads r ! j) \<longrightarrow> i = j) \<and>
     accounted k es r \<and>
     (lr_dropped r = [] \<or> 0 < k \<and> el_max_file_size c \<le> length (text_of_lines (logged_lines env (el_agent_id c) 0 0 (lr_written r)))) \<and>
     file_inv (el_max_rotation_files c) (el_max_file_size c) (list_ex rotating (lr_threads r))
       (logged_lines env (el_agent_id c) 0 0 (lr_written r)) (event_log_path (el_dir c) (el_agent_id c)) (lg_file (lr_log r))"

lemma list_ex_update_same: "t < length xs \<Longrightarrow> P y = P (xs ! t) \<Longrightarrow> list_ex P (xs[t := y]) = list_ex P xs"
  by (induction xs arbitrary: t) (auto split: nat.split)

lemma list_ex_update_alone:
  "t < length xs \<Longrightarrow> \<forall>i < length xs. i \<noteq> t \<longrightarrow> \<not> P (xs ! i) \<Longrightarrow> list_ex P (xs[t := y]) = P y"
  by (auto simp: list_ex_length nth_list_update split: if_splits)

lemma list_ex_alone:
  "t < length xs \<Longrightarrow> \<forall>i < length xs. i \<noteq> t \<longrightarrow> \<not> P (xs ! i) \<Longrightarrow> list_ex P xs = P (xs ! t)"
  using list_ex_update_alone[of t xs P "xs ! t"] by simp

lemma sole_lock:
  assumes "run_inv env c k es r" "t < Suc k" "locks_file (lr_threads r ! t)"
  shows "\<forall>i < Suc k. i \<noteq> t \<longrightarrow> \<not> locks_file (lr_threads r ! i)"
  using assms by (auto simp: run_inv_def)

lemma becomes_inv:
  assumes "run_inv env c k es r" "t < Suc k" "in_hand th = in_hand (lr_threads r ! t)" "rotating th = rotating (lr_threads r ! t)"
    and "locks_file th \<Longrightarrow> \<forall>i < Suc k. i \<noteq> t \<longrightarrow> \<not> locks_file (lr_threads r ! i)"
  shows "run_inv env c k es (becomes t th r)"
proof -
  have t: "t < length (lr_threads r)" using assms(1,2) by (simp add: run_inv_def)
  have "in_hand ((lr_threads r)[t := th] ! 0) = in_hand (lr_threads r ! 0)"
    using assms(3) t by (cases t) auto
  then have acc: "accounted k es (becomes t th r)"
    using assms(1) in_hands_update_same[of t "lr_threads r" th] t assms(3) by (simp add: run_inv_def accounted_def becomes_def)
  have lock: "\<forall>i j. i < Suc k \<longrightarrow> j < Suc k \<longrightarrow> locks_file ((lr_threads r)[t := th] ! i) \<longrightarrow> locks_file ((lr_threads r)[t := th] ! j) \<longrightarrow> i = j"
    using assms(1,2,5) t by (auto simp: run_inv_def nth_list_update split: if_splits)
  show ?thesis
    using assms(1) acc lock list_ex_update_same[of t "lr_threads r" rotating th] t assms(4)
    by (simp add: run_inv_def becomes_def)
qed

lemma drop_nothing: "drop_batch t [] r = becomes t Idle r"
  by (simp add: drop_batch_def becomes_def)

lemma take_step_inv:
  assumes "run_inv env c k es r" "t < Suc k"
  shows "run_inv env c k es (take_step t r)"
proof (cases "lr_threads r ! t \<noteq> Idle \<or> t = 0 \<and> \<not> lg_running (lr_log r)")
  case False
  let ?b = "lg_buffer (lr_log r)" and ?ths = "lr_threads r"
  let ?r = "becomes t (Took ?b) (r \<lparr> lr_log := (lr_log r) \<lparr> lg_buffer := [] \<rparr> \<rparr>)"
  have t: "t < length ?ths" using assms by (simp add: run_inv_def)
  have idle: "?ths ! t = Idle" using False by simp
  have "mset (in_hands (?ths[t := Took ?b])) = mset (in_hands ?ths) + mset ?b"
    using in_hands_update[OF t, of "Took ?b"] idle by simp
  moreover have "k = 0 \<Longrightarrow> t = 0" using assms(2) by simp
  ultimately have acc: "accounted k es ?r" using assms(1) idle t
    by (auto simp: run_inv_def accounted_def becomes_def ac_simps)
  have lock: "\<forall>i j. i < Suc k \<longrightarrow> j < Suc k \<longrightarrow> locks_file (?ths[t := Took ?b] ! i) \<longrightarrow> locks_file (?ths[t := Took ?b] ! j) \<longrightarrow> i = j"
    using assms(1) t by (auto simp: run_inv_def nth_list_update split: if_splits)
  have "run_inv env c k es ?r"
    using assms(1) acc lock list_ex_update_same[OF t, of rotating "Took ?b"] idle by (simp add: run_inv_def becomes_def)
  then show ?thesis using False by (auto simp: take_step_def take_batch_def)
qed (use assms in \<open>simp add: take_step_def\<close>)

lemma test_step_inv:
  assumes "run_inv env c k es r"
  shows "run_inv env c k es (test_step r)"
proof (cases "lr_threads r ! 0")
  case (Took b)
  have t: "0 < length (lr_threads r)" using assms by (simp add: run_inv_def)
  show ?thesis
  proof (cases "b = [] \<or> lf_open (lg_file (lr_log r))")
    case True
    then have "test_step r = becomes 0 Idle r \<and> b = [] \<or> test_step r = becomes 0 (Passed b) r"
      using Took drop_nothing by (auto simp: test_step_def)
    then show ?thesis using becomes_inv[OF assms, of 0 Idle] becomes_inv[OF assms, of 0 "Passed b"] Took by auto
  next
    case False
    then have drop: "test_step r = drop_batch 0 b r" using Took by (simp add: test_step_def)
    from False assms have rot: "list_ex rotating (lr_threads r)" by (simp add: run_inv_def file_inv_def)
    have k: "0 < k"
    proof (rule ccontr)
      assume "\<not> 0 < k"
      then have "lr_threads r = [Took b]" using assms Took by (cases "lr_threads r") (auto simp: run_inv_def)
      then show False using rot by simp
    qed
    let ?ls = "logged_lines env (el_agent_id c) 0 0 (lr_written r)"
    have "el_max_file_size c \<le> length (snd (disk_history (el_max_file_size c) True ?ls))" "?ls \<noteq> []"
      using assms rot by (simp_all add: run_inv_def file_inv_def)
    moreover have "length (snd (disk_history (el_max_file_size c) True ?ls)) \<le> length (text_of_lines ?ls)"
      using arg_cong[OF disk_history_total[of True ?ls "el_max_file_size c"], of length] calculation(2) by simp
    ultimately have big: "el_max_file_size c \<le> length (text_of_lines ?ls)" by simp
    have "mset (in_hands (lr_threads r)) = mset (in_hands ((lr_threads r)[0 := Idle])) + mset b"
      using in_hands_update[OF t, of Idle] Took by simp
    then have acc: "accounted k es (drop_batch 0 b r)"
      using assms k by (auto simp: run_inv_def accounted_def drop_batch_def becomes_def ac_simps)
    have lock: "\<forall>i j. i < Suc k \<longrightarrow> j < Suc k \<longrightarrow> locks_file ((lr_threads r)[0 := Idle] ! i) \<longrightarrow>
        locks_file ((lr_threads r)[0 := Idle] ! j) \<longrightarrow> i = j"
      using assms t by (auto simp: run_inv_def nth_list_update split: if_splits)
    have "run_inv env c k es (drop_batch 0 b r)"
      using assms acc lock k big list_ex_update_same[OF t, of rotating Idle] Took
      by (simp add: run_inv_def drop_batch_def becomes_def)
    then show ?thesis using drop by simp
  qed
qed (use assms in \<open>simp_all add: test_step_def\<close>)

lemma lock_step_inv:
  assumes "run_inv env c k es r" "t < Suc k"
  shows "run_inv env c k es (lock_step t r) \<and> lr_dropped (lock_step t r) = lr_dropped r"
proof (cases "list_ex locks_file (lr_threads r)")
  case False
  have len: "length (lr_threads r) = Suc k" using assms(1) by (simp add: run_inv_def)
  have free: "\<forall>i < Suc k. \<not> locks_file (lr_threads r ! i)" using False len by (simp add: list_ex_length)
  have "\<not> list_ex rotating (lr_threads r)" using free len locks_file_not_rotating by (auto simp: list_ex_length)
  then have o: "lf_open (lg_file (lr_log r))" using assms(1) by (simp add: run_inv_def file_inv_def)
  show ?thesis
  proof (cases "lr_threads r ! t")
    case (Took b)
    then have "lock_step t r = r \<or> lock_step t r = becomes t Idle r \<and> b = [] \<or> lock_step t r = becomes t (Writing b) r"
      using False o drop_nothing by (auto simp: lock_step_def)
    then show ?thesis
      using assms becomes_inv[OF assms, of Idle] becomes_inv[OF assms, of "Writing b"] Took free by (auto simp: becomes_def)
  next
    case (Passed b)
    then show ?thesis using becomes_inv[OF assms, of "Writing b"] free False by (simp add: lock_step_def) (simp add: becomes_def)
  qed (use assms False in \<open>simp_all add: lock_step_def\<close>)
qed (use assms in \<open>simp add: lock_step_def\<close>)

lemma reopen_step_inv:
  assumes "0 < el_max_rotation_files c" "run_inv env c k es r" "t < Suc k"
  shows "run_inv env c k es (reopen_step t r)"
proof (cases "lr_threads r ! t")
  case (Rotating b)
  let ?ths = "lr_threads r"
  let ?f = "reopen_rotated (el_max_rotation_files c) (lg_file (lr_log r))"
  let ?s = "(lr_log r) \<lparr> lg_file := ?f \<rparr>"
  let ?r = "becomes t (Writing b) (r \<lparr> lr_log := ?s \<rparr>)"
  have c: "lg_config (lr_log r) = c" using assms(2) by (simp add: run_inv_def)
  have t: "t < length ?ths" "length ?ths = Suc k" using assms(2,3) by (simp_all add: run_inv_def)
  have sole: "\<forall>i < Suc k. i \<noteq> t \<longrightarrow> \<not> locks_file (?ths ! i)" using sole_lock[OF assms(2,3)] Rotating by simp
  then have none: "\<forall>i < length ?ths. i \<noteq> t \<longrightarrow> \<not> rotating (?ths ! i)" using t(2) locks_file_not_rotating by auto
  have rot: "list_ex rotating ?ths" "\<not> list_ex rotating (?ths[t := Writing b])"
    using list_ex_alone[OF t(1) none] list_ex_update_alone[OF t(1) none] Rotating by simp_all
  have "in_hand (?ths[t := Writing b] ! 0) = in_hand (?ths ! 0)" using Rotating t(1) by (cases t) auto
  then have acc: "accounted k es ?r"
    using assms(2) in_hands_update_same[OF t(1), of "Writing b"] Rotating by (simp add: run_inv_def accounted_def becomes_def)
  have lock: "\<forall>i j. i < Suc k \<longrightarrow> j < Suc k \<longrightarrow> locks_file (?ths[t := Writing b] ! i) \<longrightarrow> locks_file (?ths[t := Writing b] ! j) \<longrightarrow> i = j"
    using sole t by (auto simp: nth_list_update split: if_splits)
  have "run_inv env c k es ?r"
    using assms(2) acc lock rot file_inv_reopen[OF assms(1)] by (auto simp: run_inv_def becomes_def)
  then show ?thesis using Rotating c by (simp add: reopen_step_def)
qed (use assms in \<open>simp_all add: reopen_step_def\<close>)

lemma write_step_inv:
  assumes "\<forall>e \<in> set es. writable env (el_agent_id c) e" "run_inv env c k es r" "t < Suc k"
  shows "run_inv env c k es (write_step env t r) \<and> lr_dropped (write_step env t r) = lr_dropped r"
proof (cases "\<exists>e b. lr_threads r ! t = Writing (e # b)")
  case True
  then obtain e b where Writing: "lr_threads r ! t = Writing (e # b)" by blast
  let ?ths = "lr_threads r" and ?s = "lr_log r" and ?ws = "lr_written r"
  have inv: "lg_config ?s = c" "lg_ticks ?s = 2 * length ?ws" "lg_ids ?s = length ?ws" "\<not> lr_dead r" "accounted k es r"
    using assms(2) by (simp_all add: run_inv_def)
  have t: "t < length ?ths" "length ?ths = Suc k" using assms(2,3) by (simp_all add: run_inv_def)
  have sole: "\<forall>i < Suc k. i \<noteq> t \<longrightarrow> \<not> locks_file (?ths ! i)" using sole_lock[OF assms(2,3)] Writing by simp
  then have none: "\<forall>i < length ?ths. i \<noteq> t \<longrightarrow> \<not> rotating (?ths ! i)" using t(2) locks_file_not_rotating by auto
  have rot: "\<not> list_ex rotating ?ths" using list_ex_alone[OF t(1) none] Writing by simp
  have "Writing (e # b) \<in> set ?ths" using nth_mem[OF t(1)] Writing by simp
  then have "e \<in># mset (in_hands ?ths)" by (force simp: in_hands_def)
  then have "e \<in># mset es" using inv(5) unfolding accounted_def by (metis union_iff)
  then obtain l where l: "serialize_event env (el_agent_id c) (2 * length ?ws) (length ?ws) e = Inr l"
    using assms(1) unfolding writable_def by (metis set_mset_mset)
  have lines: "logged_lines env (el_agent_id c) 0 0 (?ws @ [e]) = logged_lines env (el_agent_id c) 0 0 ?ws @ [l]"
    using l by (simp add: logged_lines_append)
  let ?f = "put_line l (lg_file ?s)"
  let ?due = "rotation_due (el_max_file_size c) ?f"
  let ?th = "if ?due then Rotating b else Writing b"
  let ?g = "if ?due then close_log ?f else ?f"
  let ?s1 = "?s \<lparr> lg_ticks := lg_ticks ?s + 2, lg_ids := Suc (lg_ids ?s), lg_file := ?g \<rparr>"
  let ?r = "becomes t ?th (r \<lparr> lr_written := ?ws @ [e], lr_log := ?s1 \<rparr>)"
  have holds: "file_inv (el_max_rotation_files c) (el_max_file_size c) False (logged_lines env (el_agent_id c) 0 0 ?ws)
      (event_log_path (el_dir c) (el_agent_id c)) (lg_file ?s)" using assms(2) rot by (simp add: run_inv_def)
  have rot': "list_ex rotating (?ths[t := ?th]) = ?due" using list_ex_update_alone[OF t(1) none] by simp
  have holds': "file_inv (el_max_rotation_files c) (el_max_file_size c) ?due (logged_lines env (el_agent_id c) 0 0 (?ws @ [e]))
      (event_log_path (el_dir c) (el_agent_id c)) ?g" unfolding lines using file_inv_put[OF holds, of l] by (cases ?due) simp_all
  have "mset (in_hands ?ths) = add_mset e (mset (in_hands (?ths[t := ?th])))"
    using in_hands_update[OF t(1), of ?th] Writing by (auto split: if_splits)
  moreover have "k = 0 \<Longrightarrow> t = 0" using assms(3) by simp
  ultimately have acc: "accounted k es ?r"
    using inv(5) Writing t(1) by (auto simp: accounted_def becomes_def ac_simps)
  have lock: "\<forall>i j. i < Suc k \<longrightarrow> j < Suc k \<longrightarrow> locks_file (?ths[t := ?th] ! i) \<longrightarrow> locks_file (?ths[t := ?th] ! j) \<longrightarrow> i = j"
    using sole t by (auto simp: nth_list_update split: if_splits)
  have drop: "lr_dropped r = [] \<or> 0 < k \<and> el_max_file_size c \<le> length (text_of_lines (logged_lines env (el_agent_id c) 0 0 (?ws @ [e])))"
    using assms(2) unfolding lines by (auto simp: run_inv_def)
  have "run_inv env c k es ?r"
    unfolding run_inv_def using inv t acc lock drop rot' holds' by (simp add: becomes_def)
  moreover have "lf_open (lg_file ?s)" using holds by (simp add: file_inv_def)
  ultimately show ?thesis using Writing l inv by (simp add: write_step_def count_line_def Let_def becomes_def)
next
  case False
  then have "write_step env t r = r \<or> write_step env t r = becomes t Idle r \<and> lr_threads r ! t = Writing []"
    by (auto simp: write_step_def split: log_thread.split list.split)
  then show ?thesis using assms(2) becomes_inv[OF assms(2,3), of Idle] by (auto simp: becomes_def)
qed

text \<open>Only the flushing thread drops events, and only while another thread rotates.\<close>

lemma log_do_drops:
  assumes "\<forall>e \<in> set es. writable env (el_agent_id c) e" "run_inv env c k es r" "lr_dropped (log_do env x r) \<noteq> lr_dropped r"
  shows "x = Test \<and> list_ex rotating (lr_threads r)"
proof -
  have len: "length (lr_threads r) = Suc k" using assms(2) by (simp add: run_inv_def)
  have t: "step_thread x < Suc k" and d: "lr_dropped (log_step_do env x r) \<noteq> lr_dropped r"
    using assms(3) len by (auto simp: log_do_def split: if_splits)
  show ?thesis
  proof (cases x)
    case Test
    then obtain b where "lr_threads r ! 0 = Took b" "\<not> lf_open (lg_file (lr_log r)) \<or> b = []" "b \<noteq> []"
      using d by (auto simp: test_step_def drop_batch_def becomes_def split: log_thread.splits if_splits)
    then show ?thesis using Test assms(2) by (simp add: run_inv_def file_inv_def)
  qed (use d t lock_step_inv[OF assms(2)] write_step_inv[OF assms(1,2)] in
      \<open>auto simp: take_step_def take_batch_def reopen_step_def becomes_def split: log_thread.splits if_splits\<close>)
qed

lemma log_do_inv:
  assumes "0 < el_max_rotation_files c" "\<forall>e \<in> set (es @ emitted [x]). writable env (el_agent_id c) e" "run_inv env c k es r"
  shows "run_inv env c k (es @ emitted [x]) (log_do env x r)"
proof (cases "\<exists>e. x = Emit e")
  case True
  then obtain e where "x = Emit e" by blast
  moreover have "0 < length (lr_threads r)" "\<not> lr_dead r" using assms(3) by (simp_all add: run_inv_def)
  ultimately show ?thesis using assms(3)
    by (auto simp: run_inv_def accounted_def log_do_def on_bus_event_def)
next
  case False
  then have none: "emitted [x] = []" by (cases x) simp_all
  have "run_inv env c k es (log_step_do env x r)" if "step_thread x < Suc k"
    using that False none assms take_step_inv[OF assms(3)] test_step_inv[OF assms(3)] lock_step_inv[OF assms(3)]
      write_step_inv[OF _ assms(3)] reopen_step_inv[OF assms(1,3)] by (cases x) simp_all
  moreover have "length (lr_threads r) = Suc k" "\<not> lr_dead r" using assms(3) by (simp_all add: run_inv_def)
  ultimately show ?thesis using none assms(3) by (simp add: log_do_def)
qed

lemma run_log_inv:
  assumes "0 < el_max_rotation_files c" "\<forall>e \<in> set (emitted xs). writable env (el_agent_id c) e" "run_inv env c k [] r"
  shows "run_inv env c k (emitted xs) (fold (log_do env) xs r)"
  using assms(2)
proof (induction xs rule: rev_induct)
  case (snoc x xs)
  then have "run_inv env c k (emitted xs) (fold (log_do env) xs r)" by (simp add: emitted_append)
  from log_do_inv[OF assms(1) _ this, of x] snoc.prems show ?case by (simp add: emitted_append)
qed (use assms(3) in simp)

lemma start_run_inv:
  assumes "new_event_log c bus previous dirs d = (Inr s0, mode, evs, d')" "dk_faults d = []"
    "\<forall>i. dk_files d (rotation_name (event_log_path (el_dir c) (el_agent_id c)) i) = None" "CHR ''/'' \<notin> set (el_agent_id c)"
  shows "run_inv env c k [] (start_run s0 k)"
proof -
  have "(Idle # replicate k Idle) ! i = Idle" if "i < Suc k" for i using that by (cases i) simp_all
  moreover have "in_hands (Idle # replicate k Idle) = []" unfolding in_hands_def by (induction k) simp_all
  moreover have "\<not> list_ex rotating (Idle # replicate k Idle)" by (induction k) auto
  moreover note new = new_log_has[OF assms]
  moreover have "lf_open (lg_file s0)" using new by (simp add: log_has_def el.represents_def)
  ultimately show ?thesis
    by (auto simp: run_inv_def accounted_def start_run_def file_inv_def disk_history_def log_has_def open_log_file)
qed

text \<open>C27. Whatever the interleaving of the bus, the flushing thread and \<open>k\<close> callers of flush_sync on
  a fresh event log (for an agent id without slash, on a disk that does not fail, with events that can be dumped), and
  of their testing, locking, writing, closing and reopening, each event is exactly once in one of four places: written, held by a thread, in the buffer, or dropped; and the written ones are on the disk, in
  their order: the text of their lines is cut, after whole lines, into closed segments of at least the maximal size
  and a current one; the log's file is the current segment and the rotated files are the newest closed ones, newest
  first.  (What the open stream still buffers counts as on the disk; it is flushed at the end of a batch and before
  closing.)  A step drops events only when the flushing thread tests the file while another thread rotates it; so
  nothing is dropped while the lines do not reach the maximal size, and nothing when nobody calls flush_sync:
  then the written events, those in the thread's hand and the buffer are the emitted ones in order.
\<close>

theorem events_written_once:
  assumes "new_event_log c bus previous dirs d = (Inr s0, mode, evs, d')" "dk_faults d = []"
    and "\<forall>i. dk_files d (rotation_name (event_log_path (el_dir c) (el_agent_id c)) i) = None"
    and "CHR ''/'' \<notin> set (el_agent_id c)"
    and "0 < el_max_rotation_files c" "\<forall>e \<in> set (emitted xs). writable env (el_agent_id c) e"
    and "r = fold (log_do env) xs (start_run s0 k)"
  shows "\<exists>closed current. mset (lr_written r) + mset (in_hands (lr_threads r)) + mset (lg_buffer (lr_log r)) + mset (lr_dropped r) =
      mset (emitted xs) \<and>
    concat (rev closed) @ current = text_of_lines (logged_lines env (el_agent_id c) 0 0 (lr_written r)) \<and>
    (\<forall>g \<in> set closed. el_max_file_size c \<le> length g) \<and>
    dk_files (lf_disk (lg_file (lr_log r))) (event_log_path (el_dir c) (el_agent_id c)) = Some current \<and>
    (\<forall>i < el_max_rotation_files c. dk_files (lf_disk (lg_file (lr_log r)))
        (rotation_name (event_log_path (el_dir c) (el_agent_id c)) (Suc i)) =
      (if i < length closed then Some (closed ! i) else None)) \<and>
    (\<forall>x. lr_dropped (log_do env x r) \<noteq> lr_dropped r \<longrightarrow> x = Test \<and> list_ex rotating (lr_threads r)) \<and>
    (lr_dropped r = [] \<or> 0 < k \<and> el_max_file_size c \<le> length (text_of_lines (logged_lines env (el_agent_id c) 0 0 (lr_written r)))) \<and>
    (k = 0 \<longrightarrow> emitted xs = lr_written r @ in_hand (lr_threads r ! 0) @ lg_buffer (lr_log r))"
proof -
  let ?ls = "logged_lines env (el_agent_id c) 0 0 (lr_written r)"
  let ?rot = "list_ex rotating (lr_threads r)"
  let ?h = "disk_history (el_max_file_size c) ?rot ?ls"
  have inv: "run_inv env c k (emitted xs) r"
    unfolding assms(7) by (rule run_log_inv[OF assms(5,6) start_run_inv[OF assms(1-4)]])
  then have f: "file_inv (el_max_rotation_files c) (el_max_file_size c) ?rot ?ls (event_log_path (el_dir c) (el_agent_id c))
      (lg_file (lr_log r))" by (simp add: run_inv_def)
  from f have ls: "?rot \<longrightarrow> ?ls \<noteq> []" by (simp add: file_inv_def)
  have drops: "x = Test \<and> ?rot" if "lr_dropped (log_do env x r) \<noteq> lr_dropped r" for x
    using log_do_drops[OF assms(6) inv that] .
  show ?thesis
    using inv f drops disk_history_total[OF ls] disk_history_cut[of "el_max_file_size c" ?rot ?ls]
    by (intro exI[of _ "fst ?h"] exI[of _ "snd ?h"]) (simp add: run_inv_def accounted_def file_inv_def el.represents_def)
qed

text \<open>The steps of a caller of flush_sync, when no other thread comes in between, are flush_sync.\<close>

lemma write_steps:
  assumes "write_batch env es (lr_log r) = (Inr (), s)" "\<not> lr_dead r" "t < length (lr_threads r)" "lr_threads r ! t = Writing es"
  shows "\<exists>xs. emitted xs = [] \<and> lr_log (fold (log_do env) xs r) = s \<and> lr_threads (fold (log_do env) xs r) = (lr_threads r)[t := Idle]"
  using assms
proof (induction es arbitrary: r)
  case Nil
  then show ?case by (intro exI[of _ "[Write t]"]) (simp add: log_do_def write_step_def becomes_def)
next
  case (Cons e es)
  let ?s = "lr_log r" let ?c = "lg_config ?s"
  obtain l where l: "serialize_event env (el_agent_id ?c) (lg_ticks ?s) (lg_ids ?s) e = Inr l"
    using Cons.prems(1) by (auto simp: Let_def split: sum.splits)
  let ?f = "put_line l (lg_file ?s)"
  let ?s1 = "?s \<lparr> lg_ticks := lg_ticks ?s + 2, lg_ids := Suc (lg_ids ?s),
    lg_file := rotate_event_log (el_max_file_size ?c) (el_max_rotation_files ?c) ?f \<rparr>"
  define ys where "ys = (if rotation_due (el_max_file_size ?c) ?f then [Write t, Reopen t] else [Write t])"
  let ?r = "fold (log_do env) ys r"
  have r: "lr_log ?r = ?s1" "lr_threads ?r = (lr_threads r)[t := Writing es]" "\<not> lr_dead ?r" "emitted ys = []"
    using Cons.prems(2-4) l
    by (auto simp: ys_def log_do_def write_step_def reopen_step_def becomes_def count_line_def rotate_event_log_def Let_def)
  from Cons.prems(1) l r(1) have "write_batch env es (lr_log ?r) = (Inr (), s)" by (simp add: Let_def)
  from Cons.IH[OF this r(3)] r(2) Cons.prems(3) obtain xs where
    "emitted xs = []" "lr_log (fold (log_do env) xs ?r) = s" "lr_threads (fold (log_do env) xs ?r) = (lr_threads r)[t := Idle]" by auto
  then show ?case using r(4) by (intro exI[of _ "ys @ xs"]) (simp add: emitted_append)
qed

lemma flush_sync_in_steps:
  assumes "flush_sync env (lr_log r) = (Inr (), s)" "\<not> lr_dead r" "0 < t" "t < length (lr_threads r)" "lr_threads r ! t = Idle"
    and "\<not> list_ex locks_file (lr_threads r)"
  shows "\<exists>xs. emitted xs = [] \<and> lr_log (fold (log_do env) xs r) = s \<and> lr_threads (fold (log_do env) xs r) = lr_threads r"
proof -
  let ?b = "lg_buffer (lr_log r)" and ?s = "lr_log r \<lparr> lg_buffer := [] \<rparr>"
  let ?r = "fold (log_do env) [Take t, Lock t] r"
  have took: "\<not> list_ex locks_file ((lr_threads r)[t := Took ?b])"
    using list_ex_update_same[OF assms(4), of locks_file "Took ?b"] assms(5,6) by simp
  have same: "(lr_threads r)[t := Idle] = lr_threads r" using assms(5) by (metis list_update_id)
  show ?thesis
  proof (cases "\<not> lf_open (lg_file (lr_log r)) \<or> ?b = []")
    case True
    then have "s = ?s" using assms(1) by (auto simp: flush_sync_def take_batch_def write_taken_def)
    then show ?thesis using True assms(2-5) took same
      by (intro exI[of _ "[Take t, Lock t]"])
        (auto simp: log_do_def take_step_def take_batch_def becomes_def lock_step_def drop_batch_def)
  next
    case False
    then have w: "write_batch env ?b ?s = (Inr (), s)" using assms(1) by (simp add: flush_sync_def take_batch_def write_taken_def)
    have r: "lr_log ?r = ?s" "lr_threads ?r = (lr_threads r)[t := Writing ?b]" "\<not> lr_dead ?r"
      using False assms(2-5) took by (auto simp: log_do_def take_step_def take_batch_def becomes_def lock_step_def)
    from write_steps[of env ?b ?r s t] w r assms(4) obtain xs where
      "emitted xs = []" "lr_log (fold (log_do env) xs ?r) = s" "lr_threads (fold (log_do env) xs ?r) = lr_threads r"
      by (auto simp: same)
    then show ?thesis by (intro exI[of _ "[Take t, Lock t] @ xs"]) (simp add: emitted_append)
  qed
qed

definition sample_event :: bus_event where
  "sample_event = (mk_event ''tool.call'' (tr_success jempty jempty) 0) \<lparr> ev_causal_time := 7 \<rparr>"

definition sample_config :: event_log_config where
  "sample_config = \<lparr> el_agent_id = ''a'', el_dir = ''d'', el_capture_mode = Online, el_max_file_size = 40, el_max_rotation_files = 1 \<rparr>"

text \<open>An environment whose clock stands still; the line of a sample event shows its topic and its event id.\<close>

definition sample_line :: "nat \<Rightarrow> json" where
  "sample_line i = event_json \<lparr> lv_dump = (\<lambda>_. Inl (Json_error [])), lv_parse = (\<lambda>_. None), lv_clock = (\<lambda>_. 0),
     lv_f2i = (\<lambda>_. 0), lv_f2u = id \<rparr> ''a'' 0 i sample_event jempty"

definition sample_front :: string where
  "sample_front = ''\"topic\":\"tool.call\"''"

definition sample_text :: "nat \<Rightarrow> string" where
  "sample_text n = sample_front @ ''evt-0-'' @ nat_str n"

definition sample_parse :: "string \<Rightarrow> json option" where
  "sample_parse l = (let n = digits_val (drop (length sample_front + 6) l) in
     if l = sample_text n then Some (sample_line n) else None)"

definition sample_dump :: "json \<Rightarrow> string res" where
  "sample_dump j = (case value_string ''event_id'' j of Some i \<Rightarrow>
     if sample_parse (sample_front @ i) = Some j then Inr (sample_front @ i) else Inl (Json_error ''type_error.316'')
   | None \<Rightarrow> Inl (Json_error ''type_error.316''))"

definition sample_lines :: line_env where
  "sample_lines = \<lparr> lv_dump = sample_dump, lv_parse = sample_parse, lv_clock = (\<lambda>_. 0), lv_f2i = (\<lambda>_. 0), lv_f2u = id \<rparr>"

definition sample_log :: event_log where
  "sample_log = \<lparr> lg_config = sample_config, lg_file = \<lparr> lf_path = ''d/a.v1.jsonl'', lf_open = True, lf_size = 0,
     lf_disk = put_file ''d/a.v1.jsonl'' [] new_disk \<rparr>, lg_buffer = [], lg_running = True, lg_ticks = 0, lg_ids = 0 \<rparr>"

lemma sample_new: "new_event_log sample_config b m (\<lambda>_. False) new_disk = (Inr sample_log, Online, [], lf_disk (lg_file sample_log))"
  by (simp add: new_event_log_def sample_config_def sample_log_def event_log_path_def path_join_def open_log_def open_in_def parent_dir_def with_above_def
      open_file_def contents_def new_disk_def validate_training_mode_def detect_online_to_training_downgrade_def Let_def put_file_def)

lemma sample_line_id: "value_string ''event_id'' (sample_line i) = Some (''evt-0-'' @ nat_str i)"
proof -
  have "int_str 0 = ''0''" by code_simp
  then show ?thesis by (simp add: sample_line_def event_json_def jobj_def value_string_def next_event_id_def
      sample_event_def mk_event_def tr_success_def default_tool_result_def)
qed

lemma sample_parsed: "sample_parse (sample_text n) = Some (sample_line n)"
  by (simp add: sample_parse_def sample_text_def)

lemma sample_serialized: "serialize_event sample_lines ''a'' t i sample_event = Inr (sample_text i)"
proof -
  have "event_json sample_lines ''a'' t i sample_event jempty = sample_line i"
    by (simp add: sample_line_def event_json_def sample_lines_def next_event_id_def)
  then have "serialize_event sample_lines ''a'' t i sample_event = sample_dump (sample_line i)"
    by (simp add: serialize_event_def sample_event_def logged_payload_def mk_event_def tr_success_def default_tool_result_def sample_lines_def)
  then show ?thesis using sample_line_id sample_parsed[of i] by (simp add: sample_dump_def sample_text_def)
qed

lemma sample_writable: "writable sample_lines ''a'' sample_event"
  by (simp add: writable_def sample_serialized)

text \<open>The flushing thread loses a batch: a caller of flush_sync has just closed the full file to rotate it when the
  thread tests it.\<close>

definition losing_run :: "log_step list" where
  "losing_run = [Emit sample_event, Emit sample_event, Take 1, Lock 1, Write 1, Write 1, Emit sample_event, Take 0, Test, Reopen 1]"

lemma flushing_thread_drops:
  "lr_dropped (fold (log_do sample_lines) losing_run (start_run sample_log 1)) = [sample_event] \<and>
    lr_written (fold (log_do sample_lines) losing_run (start_run sample_log 1)) = [sample_event, sample_event]"
proof -
  have n: "nat_str 0 = ''0''" "nat_str (Suc 0) = ''1''" by code_simp+
  show ?thesis
    by (simp add: losing_run_def log_do_def start_run_def take_step_def take_batch_def test_step_def lock_step_def write_step_def
        reopen_step_def becomes_def drop_batch_def count_line_def on_bus_event_def sample_log_def sample_config_def Let_def
        sample_serialized put_line_def rotation_due_def close_log_def reopen_rotated_def sample_text_def sample_front_def n)
qed

lemma events_written_once_witness:
  "\<exists>closed current. concat (rev closed) @ current = text_of_lines (logged_lines sample_lines ''a'' 0 0 [sample_event, sample_event]) \<and>
    dk_files (lf_disk (lg_file (lr_log (fold (log_do sample_lines) losing_run (start_run sample_log 1))))) ''d/a.v1.jsonl'' = Some current \<and>
    dk_files (lf_disk (lg_file (lr_log (fold (log_do sample_lines) losing_run (start_run sample_log 1)))))
      (rotation_name ''d/a.v1.jsonl'' 1) = (if 0 < length closed then Some (closed ! 0) else None)"
proof -
  have "\<forall>e \<in> set (emitted losing_run). writable sample_lines (el_agent_id sample_config) e"
    using sample_writable by (simp add: sample_config_def losing_run_def)
  from events_written_once[OF sample_new _ _ _ _ this refl, of 1] show ?thesis
    using flushing_thread_drops by (fastforce simp: new_disk_def sample_config_def event_log_path_def path_join_def)
qed

section \<open>What a read gives back\<close>

text \<open>Documented behaviour of the JSON library: a value without floating-point numbers has, when dump does not
  throw, one line from which parse reads it back.\<close>

definition line_codec :: "line_env \<Rightarrow> bool" where
  "line_codec env \<longleftrightarrow> (\<forall>j l. no_floats j \<longrightarrow> lv_dump env j = Inr l \<longrightarrow> l \<noteq> [] \<and> CHR 0x0A \<notin> set l \<and> lv_parse env l = Some j)"

text \<open>An event whose data is an object without an error code of its own, and how it reads back.\<close>

definition plain_event :: "bus_event \<Rightarrow> bool" where
  "plain_event e \<longleftrightarrow> is_obj (tr_data (ev_payload e)) \<and> jlookup ''_error_code'' (tr_data (ev_payload e)) = None \<and>
     no_floats (tr_data (ev_payload e))"

definition seen :: "bus_event \<Rightarrow> logged_event" where
  "seen e = \<lparr> le_topic = ev_topic e, le_causal_time = ev_causal_time e,
     le_data = (case logged_payload (ev_payload e) of Inr p \<Rightarrow> p | Inl _ \<Rightarrow> JNull),
     le_error = map_option error_code_number (tr_error_code (ev_payload e)) \<rparr>"

lemma wrap32_error_code: "wrap32 (error_code_number c) = error_code_number c"
  by (cases c) (simp_all add: wrap32_def)

lemma no_floats_kv_ins: "\<forall>kv \<in> set kvs. no_floats (snd kv) \<Longrightarrow> no_floats v \<Longrightarrow> kv' \<in> set (kv_ins k v kvs) \<Longrightarrow> no_floats (snd kv')"
  by (induction k v kvs rule: kv_ins.induct) (auto split: if_splits)

lemma no_floats_jset: "is_obj j \<Longrightarrow> no_floats j \<Longrightarrow> no_floats v \<Longrightarrow> no_floats (jset k v j)"
  using no_floats_kv_ins by (cases j) (auto simp: jset_def)

lemma plain_payload:
  assumes "plain_event e"
  shows "\<exists>p. logged_payload (ev_payload e) = Inr p \<and> is_obj p \<and> no_floats p \<and>
    jlookup ''_error_code'' p = map_option (\<lambda>c. JInt (error_code_number c)) (tr_error_code (ev_payload e))"
proof -
  let ?r = "ev_payload e"
  define d where "d = (case tr_error_code ?r of None \<Rightarrow> tr_data ?r | Some c \<Rightarrow> jset ''_error_code'' (JInt (error_code_number c)) (tr_data ?r))"
  have d: "is_obj d" "no_floats d" "jlookup ''_error_code'' d = map_option (\<lambda>c. JInt (error_code_number c)) (tr_error_code ?r)"
    using assms by (auto simp: d_def plain_event_def no_floats_jset split: option.split)
  have "logged_payload ?r = Inr d \<or> (\<exists>i. logged_payload ?r = Inr (jset ''_latency_ms'' (JInt i) d))"
    using assms d(1) by (auto simp: logged_payload_def d_def plain_event_def split: option.split)
  then show ?thesis using d no_floats_jset by auto
qed

lemma event_json_lookup:
  "jlookup ''v'' (event_json env a t i e p) = Some (JInt 1)"
  "jlookup ''topic'' (event_json env a t i e p) = Some (JStr (ev_topic e))"
  "jlookup ''causal_time'' (event_json env a t i e p) = Some (JInt (uint (ev_causal_time e)))"
  "jlookup ''payload'' (event_json env a t i e p) = Some p"
  "is_obj (event_json env a t i e p)"
  by (auto simp: event_json_def jobj_def split: option.split)

lemma event_json_no_floats: "no_floats p \<Longrightarrow> no_floats (event_json env a t i e p)"
  by (auto simp: event_json_def jobj_def split: option.split if_splits)

lemma serialized_reads:
  assumes "line_codec env" "plain_event e" "serialize_event env a t i e = Inr l"
  shows "l \<noteq> [] \<and> CHR 0x0A \<notin> set l \<and> read_event env l = Some (seen e)"
proof -
  obtain p where p: "logged_payload (ev_payload e) = Inr p" "is_obj p" "no_floats p"
    "jlookup ''_error_code'' p = map_option (\<lambda>c. JInt (error_code_number c)) (tr_error_code (ev_payload e))"
    using plain_payload[OF assms(2)] by blast
  let ?j = "event_json env a t i e p"
  have l: "l \<noteq> []" "CHR 0x0A \<notin> set l" "lv_parse env l = Some ?j"
    using assms(1,3) p event_json_no_floats[OF p(3), of env a t i e] by (auto simp: line_codec_def serialize_event_def)
  obtain kvs where kvs: "p = JObj kvs" using p(2) by (cases p) auto
  have "read_payload env ?j = Some (p, map_option error_code_number (tr_error_code (ev_payload e)))"
    using p(4) kvs by (cases "tr_error_code (ev_payload e)") (simp_all add: read_payload_def event_json_lookup wrap32_error_code)
  then show ?thesis
    using l p(1) by (simp add: read_event_def value_int_def value_string_def value_u64_def event_json_lookup seen_def wrap32_def)
qed

lemma logged_lines_read:
  assumes "line_codec env" "\<forall>e \<in> set es. plain_event e \<and> writable env a e"
  shows "List.map_filter (read_event env) (getlines (concat (map (\<lambda>l. l @ [CHR 0x0A]) (drop k (logged_lines env a t i es))))) =
    map seen (drop k es)"
  using assms(2)
proof (induction es arbitrary: k t i)
  case (Cons e es)
  obtain l where l: "serialize_event env a t i e = Inr l"
    using Cons.prems unfolding writable_def by (meson list.set_intros(1))
  from serialized_reads[OF assms(1) _ l] Cons.prems have "l \<noteq> []" "CHR 0x0A \<notin> set l" "read_event env l = Some (seen e)" by auto
  moreover have ih: "List.map_filter (read_event env) (getlines (concat (map (\<lambda>l. l @ [CHR 0x0A]) (drop k' (logged_lines env a t' i' es))))) =
      map seen (drop k' es)" for k' t' i' using Cons by simp
  ultimately show ?case using l ih[of 0] by (cases k) (simp_all add: List.map_filter_simps)
qed (simp add: List.map_filter_simps)

lemma sample_line_codec: "line_codec sample_lines"
proof -
  have "l \<noteq> [] \<and> CHR 0x0A \<notin> set l \<and> sample_parse l = Some j" if "sample_dump j = Inr l" for j l
  proof -
    have p: "sample_parse l = Some j" using that by (auto simp: sample_dump_def split: option.splits if_splits)
    then obtain n where "l = sample_text n" by (auto simp: sample_parse_def Let_def split: if_splits)
    then show ?thesis using p nat_str_no_newline[of n] by (simp add: sample_text_def sample_front_def)
  qed
  then show ?thesis by (simp add: line_codec_def sample_lines_def)
qed

lemma sample_plain: "plain_event sample_event"
  by (simp add: plain_event_def sample_event_def mk_event_def tr_success_def default_tool_result_def)

text \<open>C28. Reading back: on a fresh event log as before, and for events whose data is an object without floats
  and without error code of its own, whatever the interleaving of the bus, the flushing
  thread and \<open>k\<close> callers of flush_sync, when no thread is writing a read gives exactly the events written so far,
  in the order written, with topic, causal time, data, error code and latency; only when their lines reach the
  maximal size can a first part be missing (moved to rotated files, which the reader does not look at).  When
  nothing is held, buffered or dropped, these are all the emitted events; and when nobody calls flush_sync they are a
  beginning of the emitted ones, in the order of emission.
\<close>

theorem logged_events_read_back:
  assumes "new_event_log c bus previous dirs d = (Inr s0, mode, evs, d')" "dk_faults d = []"
    and "\<forall>i. dk_files d (rotation_name (event_log_path (el_dir c) (el_agent_id c)) i) = None"
    and "CHR ''/'' \<notin> set (el_agent_id c)" "0 < el_max_rotation_files c" "line_codec env"
    and "\<forall>e \<in> set (emitted xs). plain_event e \<and> writable env (el_agent_id c) e"
    and "r = fold (log_do env) xs (start_run s0 k)" "\<not> list_ex locks_file (lr_threads r)"
  shows "\<exists>j. read_log env (el_agent_id c) (el_dir c) (lf_disk (lg_file (lr_log r))) = map seen (drop j (lr_written r)) \<and>
    (j = 0 \<or> el_max_file_size c \<le> length (text_of_lines (logged_lines env (el_agent_id c) 0 0 (lr_written r)))) \<and>
    (in_hands (lr_threads r) = [] \<and> lg_buffer (lr_log r) = [] \<and> lr_dropped r = [] \<longrightarrow> mset (lr_written r) = mset (emitted xs)) \<and>
    (k = 0 \<longrightarrow> (\<exists>rest. emitted xs = lr_written r @ rest))"
proof -
  let ?ls = "logged_lines env (el_agent_id c) 0 0 (lr_written r)"
  let ?rot = "list_ex rotating (lr_threads r)"
  have w: "\<forall>e \<in> set (emitted xs). writable env (el_agent_id c) e" using assms(7) by blast
  have inv: "run_inv env c k (emitted xs) r"
    unfolding assms(8) by (rule run_log_inv[OF assms(5) w start_run_inv[OF assms(1-4)]])
  then have f: "file_inv (el_max_rotation_files c) (el_max_file_size c) ?rot ?ls (event_log_path (el_dir c) (el_agent_id c))
      (lg_file (lr_log r))" and acc: "accounted k (emitted xs) r" by (simp_all add: run_inv_def)
  from acc have "set (lr_written r) \<subseteq> set (emitted xs)"
    unfolding accounted_def by (metis set_mset_mset set_mset_union sup_ge1 le_supI1 sup.coboundedI1)
  then have plain: "\<forall>e \<in> set (lr_written r). plain_event e \<and> writable env (el_agent_id c) e" using assms(7) by blast
  from f have ls: "?rot \<longrightarrow> ?ls \<noteq> []" by (simp add: file_inv_def)
  obtain j where j: "snd (disk_history (el_max_file_size c) ?rot ?ls) = text_of_lines (drop j ?ls)"
    "j = 0 \<or> el_max_file_size c \<le> length (text_of_lines ?ls)" using disk_history_current[OF ls] by blast
  have "dk_files (lf_disk (lg_file (lr_log r))) (event_log_path (el_dir c) (el_agent_id c)) = Some (text_of_lines (drop j ?ls))"
    using f unfolding file_inv_def el.represents_def j(1) by auto
  then have "read_log env (el_agent_id c) (el_dir c) (lf_disk (lg_file (lr_log r))) = map seen (drop j (lr_written r))"
    using logged_lines_read[OF assms(6) plain] by (simp add: read_log_def text_of_lines_def)
  then show ?thesis using j(2) acc by (intro exI[of _ j]) (auto simp: accounted_def)
qed

definition quiet_run :: "log_step list" where
  "quiet_run = [Emit sample_event, Take 0, Test, Lock 0, Write 0, Write 0, Emit sample_event]"

lemma logged_events_read_back_witness:
  "\<exists>j r. r = fold (log_do sample_lines) quiet_run (start_run sample_log 1) \<and> lr_written r = [sample_event] \<and>
    read_log sample_lines ''a'' ''d'' (lf_disk (lg_file (lr_log r))) = map seen (drop j [sample_event])"
proof -
  have n: "nat_str 0 = ''0''" by code_simp
  have e: "\<forall>e \<in> set (emitted quiet_run). plain_event e \<and> writable sample_lines (el_agent_id sample_config) e"
    using sample_writable sample_plain by (simp add: sample_config_def quiet_run_def)
  let ?r = "fold (log_do sample_lines) quiet_run (start_run sample_log 1)"
  have r: "lr_written ?r = [sample_event]" "\<not> list_ex locks_file (lr_threads ?r)"
    by (simp_all add: quiet_run_def log_do_def start_run_def take_step_def take_batch_def test_step_def lock_step_def write_step_def
        becomes_def count_line_def on_bus_event_def sample_log_def sample_config_def Let_def
        sample_serialized put_line_def rotation_due_def sample_text_def sample_front_def n)
  have c: "el_agent_id sample_config = ''a''" "el_dir sample_config = ''d''" "0 < el_max_rotation_files sample_config"
    by (simp_all add: sample_config_def)
  moreover have "dk_faults new_disk = []" "\<forall>i. dk_files new_disk (rotation_name
      (event_log_path (el_dir sample_config) (el_agent_id sample_config)) i) = None" by (simp_all add: new_disk_def)
  ultimately show ?thesis
    using logged_events_read_back[OF sample_new _ _ _ _ sample_line_codec e refl r(2)] r(1) unfolding c by auto
qed

section \<open>What a query gives\<close>

definition wanted :: "query_filter \<Rightarrow> logged_event \<Rightarrow> bool" where
  "wanted q e \<longleftrightarrow> topic_matches_glob (le_topic e) (qf_topic_glob q) \<and> in_window q (le_causal_time e)"

text \<open>Documented behaviour of dump: a compact object shows its topic, when nothing in it has to be escaped, after
  its quoted name.\<close>

definition shows_topic :: "line_env \<Rightarrow> string \<Rightarrow> bool" where
  "shows_topic env l \<longleftrightarrow> (\<forall>e. read_event env l = Some e \<longrightarrow> contains_sub (''\"topic\":\"'' @ le_topic e) l)"

lemma glob_prefix: "topic_matches_glob t g \<Longrightarrow> g \<noteq> [] \<Longrightarrow> g \<noteq> ''*'' \<Longrightarrow> \<exists>r. t = takeWhile (\<lambda>c. c \<noteq> CHR ''*'') g @ r"
proof (cases "CHR ''*'' \<in> set g")
  case True
  assume "topic_matches_glob t g" "g \<noteq> []" "g \<noteq> ''*''"
  with True have "take (length (takeWhile (\<lambda>c. c \<noteq> CHR ''*'') g)) t = takeWhile (\<lambda>c. c \<noteq> CHR ''*'') g"
    by (auto simp: topic_matches_glob_def Let_def split: if_splits)
  then show ?thesis by (metis append_take_drop_id)
next
  case False
  assume "topic_matches_glob t g" "g \<noteq> []" "g \<noteq> ''*''"
  then have "t = g" using False by (simp add: topic_matches_glob_def)
  moreover have "takeWhile (\<lambda>c. c \<noteq> CHR ''*'') g = g" using False by (auto simp: takeWhile_eq_all_conv)
  ultimately show ?thesis by (metis append_Nil2)
qed

lemma contains_sub_front: "contains_sub (p @ q) l \<Longrightarrow> contains_sub p l"
  unfolding contains_sub_sublist sublist_def by (metis append_assoc)

lemma quick_match_complete:
  assumes "contains_sub (''\"topic\":\"'' @ t) l" "topic_matches_glob t g"
  shows "line_topic_quick_match l g"
proof (cases "g = [] \<or> g = ''*''")
  case False
  then obtain r where "t = takeWhile (\<lambda>c. c \<noteq> CHR ''*'') g @ r" using glob_prefix assms(2) by blast
  with assms(1) show ?thesis unfolding line_topic_quick_match_def
    by (metis append_assoc contains_sub_front)
qed (auto simp: line_topic_quick_match_def)

lemma query_line_reads:
  assumes "shows_topic env l"
  shows "query_line env q l = (case read_event env l of None \<Rightarrow> None | Some e \<Rightarrow> if wanted q e then Some e else None)"
proof (cases "line_topic_quick_match l (qf_topic_glob q)")
  case True
  then show ?thesis
    by (simp add: query_line_def read_event_def wanted_def split: option.split)
next
  case False
  then have "\<not> wanted q e" if "read_event env l = Some e" for e
    using that assms quick_match_complete by (auto simp: shows_topic_def wanted_def)
  then show ?thesis using False by (simp add: query_line_def split: option.split)
qed

lemma query_lines_take:
  "length out < max 1 m \<Longrightarrow>
    query_lines env q m ls out = out @ take (max 1 m - length out) (List.map_filter (query_line env q) ls)"
proof (induction ls arbitrary: out)
  case (Cons l ls)
  show ?case
  proof (cases "query_line env q l")
    case None
    then show ?thesis using Cons by (simp add: List.map_filter_simps)
  next
    case (Some e)
    show ?thesis
    proof (cases "m \<le> length (out @ [e])")
      case True
      then have "max 1 m - length out = Suc 0" using Cons.prems by auto
      then show ?thesis using Some True by (simp add: List.map_filter_simps)
    next
      case False
      then have "query_lines env q m ls (out @ [e]) = (out @ [e]) @ take (max 1 m - length (out @ [e])) (List.map_filter (query_line env q) ls)"
        by (intro Cons.IH) simp
      moreover have "max 1 m - length out = Suc (max 1 m - length (out @ [e]))" using False by simp
      ultimately show ?thesis using Some False by (simp add: List.map_filter_simps)
    qed
  qed
qed (simp add: List.map_filter_simps)

lemma map_filter_wanted:
  "\<forall>l \<in> set ls. shows_topic env l \<Longrightarrow>
    List.map_filter (query_line env q) ls = filter (wanted q) (List.map_filter (read_event env) ls)"
  by (induction ls) (simp_all add: List.map_filter_simps query_line_reads split: option.split)

text \<open>C29. A query equals its reference: read the whole log, keep the events whose topic
  matches the glob and whose causal time lies in the window, and take the first \<open>n\<close>; but never less than one,
  so a query for at most 0 events can return one.
\<close>

theorem query_is_filtered_read:
  assumes "\<forall>c. dk_files (lf_disk (lg_file s)) (event_log_path (el_dir (lg_config s)) agent) = Some c \<longrightarrow>
    (\<forall>l \<in> set (getlines c). shows_topic env l)"
  shows "query_log env agent q n s = take (max 1 n) (filter (wanted q) (read_log env agent (el_dir (lg_config s)) (lf_disk (lg_file s))))"
  using assms map_filter_wanted query_lines_take[of "[]" n env q]
  by (simp add: query_log_def read_log_def split: option.split)

definition tool_query :: query_filter where
  "tool_query = \<lparr> qf_topic_glob = ''tool.*'', qf_start = 5, qf_end = 9, qf_has_window = True \<rparr>"

definition two_lines :: event_log where
  "two_lines = sample_log \<lparr> lg_file := (lg_file sample_log) \<lparr> lf_disk :=
     put_file ''d/a.v1.jsonl'' (sample_text 0 @ [CHR 0x0A] @ sample_text 1 @ [CHR 0x0A]) new_disk \<rparr> \<rparr>"

lemma sample_shows: "read_event sample_lines (sample_text n) = Some (seen sample_event)"
  "shows_topic sample_lines (sample_text n)" "sample_text n \<noteq> []" "CHR 0x0A \<notin> set (sample_text n)"
proof -
  show r: "read_event sample_lines (sample_text n) = Some (seen sample_event)"
    using serialized_reads[OF sample_line_codec sample_plain sample_serialized[of 0 n]] by simp
  have "le_topic (seen sample_event) = ''tool.call''" by (simp add: seen_def sample_event_def mk_event_def)
  moreover have "contains_sub ''\"topic\":\"tool.call'' (sample_text n)"
    unfolding contains_sub_sublist sublist_def sample_text_def sample_front_def by (rule exI[of _ "[]"]) simp
  ultimately show "shows_topic sample_lines (sample_text n)" by (simp add: shows_topic_def r)
qed (simp_all add: sample_text_def sample_front_def nat_str_no_newline)

lemma query_is_filtered_read_witness:
  "query_log sample_lines ''a'' tool_query 1 two_lines = [seen sample_event] \<and>
    query_log sample_lines ''a'' tool_query 5 two_lines = [seen sample_event, seen sample_event]"
proof -
  let ?c = "sample_text 0 @ [CHR 0x0A] @ sample_text 1 @ [CHR 0x0A]"
  have l: "getlines ?c = [sample_text 0, sample_text 1]" using sample_shows(3,4) by simp
  have f: "dk_files (lf_disk (lg_file two_lines)) (event_log_path (el_dir (lg_config two_lines)) ''a'') = Some ?c"
    by (simp add: two_lines_def sample_log_def sample_config_def event_log_path_def path_join_def)
  then have "\<forall>c. dk_files (lf_disk (lg_file two_lines)) (event_log_path (el_dir (lg_config two_lines)) ''a'') = Some c \<longrightarrow>
    (\<forall>l \<in> set (getlines c). shows_topic sample_lines l)" using l sample_shows(2) by simp
  note q = query_is_filtered_read[OF this]
  have "read_log sample_lines ''a'' (el_dir (lg_config two_lines)) (lf_disk (lg_file two_lines)) = [seen sample_event, seen sample_event]"
    using f l sample_shows by (simp add: read_log_def List.map_filter_simps)
  moreover have "wanted tool_query (seen sample_event)"
    by (simp add: wanted_def tool_query_def seen_def sample_event_def mk_event_def in_window_def) code_simp
  ultimately show ?thesis by (simp add: q)
qed

section \<open>What goes wrong\<close>

text \<open>An event with an error code whose data is neither an object nor null makes the writer throw: the rest of its
  batch is not written, and the flushing thread does not catch the exception.\<close>

lemma unwritable_event:
  assumes "tr_error_code (ev_payload e) = Some c" "\<not> is_obj (tr_data (ev_payload e))" "tr_data (ev_payload e) \<noteq> JNull"
    "lf_open (lg_file s)"
  shows "write_taken env (e # es) s = (Inl (Json_error ''type_error.305''), s \<lparr> lg_ticks := lg_ticks s + 2, lg_ids := Suc (lg_ids s) \<rparr>)"
  using assms by (cases "tr_data (ev_payload e)")
    (simp_all add: write_taken_def serialize_event_def logged_payload_def jput_def Let_def)

text \<open>The session writer forgets what is still buffered when it stops; the event log flushes it.\<close>

lemma session_writer_stop_drops:
  "ws_running s \<Longrightarrow> writer_flush_sync env (stop_session_writer s) =
    (Inr (), (stop_session_writer s) \<lparr> ws_buffer := [] \<rparr>) \<and> lf_disk (ws_file (stop_session_writer s)) = lf_disk (ws_file s)"
  by (simp add: writer_flush_sync_def stop_session_writer_def take_records_def)

text \<open>Every topic of the whitelist has a type, and only those are recorded.\<close>

lemma whitelist_types: "t \<in> set whitelisted_topics \<longleftrightarrow> topic_to_type t \<noteq> []"
  by (simp add: whitelisted_topics_def topic_to_type_def)

lemma recorded_events:
  "ws_buffer (writer_on_bus_event e s) = ws_buffer s @ (if topic_to_type (ev_topic e) = [] then [] else
    [\<lparr> pr_type = topic_to_type (ev_topic e), pr_role = (if ev_topic e = ''conversation.user_message'' then ''user''
       else if ev_topic e = ''conversation.assistant_message'' then ''assistant'' else []), pr_payload = tr_data (ev_payload e) \<rparr>])"
  using whitelist_types[of "ev_topic e"]
  by (auto simp: writer_on_bus_event_def append_record_def Let_def topic_to_type_def split: if_splits)

text \<open>The session writer's files: after any batch, the current segment and the newest closed ones.\<close>

lemma write_records_logs:
  assumes "0 < sw_max_rotation_files (ws_config s)" "\<forall>r \<in> set rs. \<forall>t. \<exists>l. serialize_record env r t = Inr l"
    "sw.represents (sw_max_rotation_files (ws_config s)) (ws_file s) h"
  shows "\<exists>ls s'. write_records env rs s = (Inr (), s') \<and> length ls = length rs \<and>
    sw.represents (sw_max_rotation_files (ws_config s)) (ws_file s') (fold (add_line (sw_max_file_size (ws_config s))) ls h)"
  using assms
proof (induction rs arbitrary: s h)
  case (Cons r rs)
  let ?c = "ws_config s"
  obtain l where l: "serialize_record env r (lv_clock env (ws_ticks s)) = Inr l" using Cons.prems(2) by (meson list.set_intros(1))
  let ?s = "s \<lparr> ws_ticks := Suc (ws_ticks s), ws_file :=
    rotate_session_file (sw_max_file_size ?c) (sw_max_rotation_files ?c) (put_line l (ws_file s)) \<rparr>"
  have "sw.represents (sw_max_rotation_files ?c) (ws_file ?s) (add_line (sw_max_file_size ?c) l h)"
    using sw.represents_add_line[OF Cons.prems(1,3)] by simp
  with Cons.IH[of ?s "add_line (sw_max_file_size ?c) l h"] Cons.prems(1,2) obtain ls s' where
    "write_records env rs ?s = (Inr (), s')" "length ls = length rs"
    "sw.represents (sw_max_rotation_files ?c) (ws_file s') (fold (add_line (sw_max_file_size ?c)) ls (add_line (sw_max_file_size ?c) l h))"
    by auto
  then show ?case using l by (intro exI[of _ "l # ls"] exI[of _ s']) (simp add: Let_def)
qed auto

end
