(* ===== verification/Genome.thy ===== *)
theory Genome
  imports Storage Nodes Yaml
begin

text \<open>
  The genome registry: agenticdsl/genome/genome.h, core/genome/registry_filesystem.cpp, canonical_yaml.cpp and
  hmac.cpp.  A genome is stored as a directory name/version with a YAML file and its signature.  Parameters are
  the YAML library (text to tree and back, its conversion to uint64_t), the bytes of OpenSSL's HMAC, the random
  bytes, the clock, two environment variables, and the outcome of listing a directory.  Paths are compared as texts.  System
  calls fail as the disk says; a file that exists can be read.  Commits hold the mutex of the registry, so each operation is one step.
\<close>

section \<open>Genomes\<close>

datatype genome_error = NotFound | SchemaViolation | IntegrityViolation | BrokenLineage | CycleDetected | IOError | NotImplemented

record genome_metadata =
  gm_name :: string
  gm_version :: "64 word"
  gm_parent :: string
  gm_created_by :: string
  gm_created_at :: string
  gm_capture_mode :: string

record genome_spec =
  gs_harness :: string
  gs_tools :: "string list"
  gs_budget :: "64 word"
  gs_model_routing :: string
  gs_prompt_cache_prefix :: string

record genome =
  ge_metadata :: genome_metadata
  ge_spec :: genome_spec

definition empty_spec :: genome_spec where
  "empty_spec = \<lparr> gs_harness = [], gs_tools = [], gs_budget = 0, gs_model_routing = [], gs_prompt_cache_prefix = [] \<rparr>"

definition is_valid_capture_mode :: "string \<Rightarrow> bool" where
  "is_valid_capture_mode m \<longleftrightarrow> m = ''mock'' \<or> m = ''real'' \<or> m = ''hybrid''"

definition u64_str :: "64 word \<Rightarrow> string" where
  "u64_str v = nat_str (unat v)"

definition with_version :: "64 word \<Rightarrow> genome \<Rightarrow> genome" where
  "with_version v g = g \<lparr> ge_metadata := (ge_metadata g) \<lparr> gm_version := v \<rparr> \<rparr>"

definition diff_genomes :: "genome \<Rightarrow> genome \<Rightarrow> string list" where
  "diff_genomes a b = (let m = ge_metadata a; n = ge_metadata b; s = ge_spec a; t = ge_spec b in
     (if gm_name m \<noteq> gm_name n then [''metadata.name''] else []) @
     (if gm_version m \<noteq> gm_version n then [''metadata.version''] else []) @
     (if gm_parent m \<noteq> gm_parent n then [''metadata.parent''] else []) @
     (if gm_created_by m \<noteq> gm_created_by n then [''metadata.created_by''] else []) @
     (if gm_created_at m \<noteq> gm_created_at n then [''metadata.created_at''] else []) @
     (if gm_capture_mode m \<noteq> gm_capture_mode n then [''metadata.capture_mode''] else []) @
     (if gs_harness s \<noteq> gs_harness t then [''spec.harness''] else []) @
     (if gs_tools s \<noteq> gs_tools t then [''spec.tools''] else []) @
     (if gs_budget s \<noteq> gs_budget t then [''spec.budget''] else []) @
     (if gs_model_routing s \<noteq> gs_model_routing t then [''spec.model_routing''] else []) @
     (if gs_prompt_cache_prefix s \<noteq> gs_prompt_cache_prefix t then [''spec.prompt_cache_prefix''] else []))"

text \<open>A field of a mutation that has its empty value leaves the parent's.\<close>

definition deep_merge_spec :: "genome_spec \<Rightarrow> genome_spec \<Rightarrow> genome_spec" where
  "deep_merge_spec p m =
     \<lparr> gs_harness = (if gs_harness m \<noteq> [] then gs_harness m else gs_harness p),
       gs_tools = (if gs_tools m \<noteq> [] then gs_tools m else gs_tools p),
       gs_budget = (if gs_budget m \<noteq> 0 then gs_budget m else gs_budget p),
       gs_model_routing = (if gs_model_routing m \<noteq> [] then gs_model_routing m else gs_model_routing p),
       gs_prompt_cache_prefix = (if gs_prompt_cache_prefix m \<noteq> [] then gs_prompt_cache_prefix m else gs_prompt_cache_prefix p) \<rparr>"

section \<open>Parameters and state\<close>

text \<open>Listing a directory gives its entries; or it cannot be opened, which the code does not tell from an empty directory; or it
  breaks off, and the iterator throws.\<close>

datatype listing = Listed | Unreadable | Broken_off

record genome_env =
  gv_load :: "string \<Rightarrow> yaml option"
  gv_emit :: "yaml \<Rightarrow> string"
  gv_u64 :: "string \<Rightarrow> 64 word option"
  gv_hmac :: "string \<Rightarrow> string \<Rightarrow> string option"
  gv_random :: "nat \<Rightarrow> string option"
  gv_time :: "nat \<Rightarrow> string"
  gv_key :: "string option"
  gv_home :: "string option"
  gv_strerror :: string
  gv_listing :: "nat \<Rightarrow> listing"

record genome_store =
  gr_root :: string
  gr_disk :: disk
  gr_dirs :: "string list"
  gr_ticks :: nat

section \<open>Hexadecimal signatures\<close>

definition nibble :: "nat \<Rightarrow> char" where
  "nibble n = ''0123456789abcdef'' ! n"

definition hex_text :: "string \<Rightarrow> string" where
  "hex_text bs = concat (map (\<lambda>b. [nibble (of_char b div 16), nibble (of_char b mod 16)]) bs)"

definition hex_digit_value :: "char \<Rightarrow> nat option" where
  "hex_digit_value c = (let n = (of_char c :: nat) in
     if 48 \<le> n \<and> n \<le> 57 then Some (n - 48)
     else if 97 \<le> n \<and> n \<le> 102 then Some (n - 97 + 10)
     else if 65 \<le> n \<and> n \<le> 70 then Some (n - 65 + 10) else None)"

fun from_hex :: "string \<Rightarrow> string option" where
  "from_hex [] = Some []"
| "from_hex [_] = None"
| "from_hex (c # d # cs) = (case (hex_digit_value c, hex_digit_value d) of
     (Some h, Some l) \<Rightarrow> map_option (Cons (char_of (16 * h + l))) (from_hex cs)
   | _ \<Rightarrow> None)"

definition hmac_sign :: "genome_env \<Rightarrow> string \<Rightarrow> string \<Rightarrow> string res" where
  "hmac_sign env key text_bytes = (case gv_hmac env key text_bytes of
       None \<Rightarrow> Inl (Runtime_error ''HMAC computation failed'') | Some bs \<Rightarrow> Inr (hex_text bs))"

text \<open>The comparison that takes every character into account.\<close>

definition hmac_verify :: "genome_env \<Rightarrow> string \<Rightarrow> string \<Rightarrow> string \<Rightarrow> bool res" where
  "hmac_verify env key text_bytes expected_hex = (case from_hex expected_hex of
       None \<Rightarrow> Inr False
     | Some expected \<Rightarrow> ebind (hmac_sign env key text_bytes) (\<lambda>actual.
         Inr (if length actual \<noteq> length expected * 2 then False
         else foldl (\<lambda>d i. or d (xor (of_char (actual ! i) :: 8 word) (of_char (expected_hex ! i)))) 0 [0..<length actual] = 0)))"

section \<open>The YAML form\<close>

definition text_member :: "string \<Rightarrow> string \<Rightarrow> yaml \<times> yaml" where
  "text_member k v = (YScalar k, YScalar v)"

definition emit_metadata :: "genome_metadata \<Rightarrow> yaml" where
  "emit_metadata m = YMap [text_member ''name'' (gm_name m), text_member ''version'' (u64_str (gm_version m)),
     text_member ''parent'' (gm_parent m), text_member ''created_by'' (gm_created_by m),
     text_member ''created_at'' (gm_created_at m), text_member ''capture_mode'' (gm_capture_mode m)]"

definition emit_spec :: "genome_spec \<Rightarrow> yaml" where
  "emit_spec s = YMap [text_member ''harness'' (gs_harness s), (YScalar ''tools'', YSequence (map YScalar (gs_tools s))),
     text_member ''budget'' (u64_str (gs_budget s)), text_member ''model_routing'' (gs_model_routing s),
     text_member ''prompt_cache_prefix'' (gs_prompt_cache_prefix s)]"

definition genome_tree :: "genome \<Rightarrow> yaml" where
  "genome_tree g = YMap [(YScalar ''metadata'', emit_metadata (ge_metadata g)), (YScalar ''spec'', emit_spec (ge_spec g))]"

definition canonical_yaml_serialize :: "genome_env \<Rightarrow> genome \<Rightarrow> string" where
  "canonical_yaml_serialize env g = gv_emit env (genome_tree g)"

text \<open>\<open>node[key]\<close>, undefined when there is none, and \<open>as<std::string>()\<close>, None for its exception.\<close>

definition yaml_member :: "string \<Rightarrow> yaml \<Rightarrow> yaml" where
  "yaml_member k y = (case y of YMap kvs \<Rightarrow> (case map_of kvs (YScalar k) of None \<Rightarrow> YUndefined | Some v \<Rightarrow> v) | _ \<Rightarrow> YUndefined)"

definition yaml_text :: "yaml \<Rightarrow> string option" where
  "yaml_text y = (case y of YScalar s \<Rightarrow> Some s | YNull \<Rightarrow> Some ''null'' | _ \<Rightarrow> None)"

fun yaml_texts :: "yaml list \<Rightarrow> string list option" where
  "yaml_texts [] = Some []"
| "yaml_texts (y # ys) = Option.bind (yaml_text y) (\<lambda>s. map_option (Cons s) (yaml_texts ys))"

text \<open>Iterating over anything but a sequence gives nothing, except a map, whose pairs have no text.\<close>

definition tool_texts :: "yaml \<Rightarrow> string list option" where
  "tool_texts y = (case y of YSequence ys \<Rightarrow> yaml_texts ys | YMap (kv # kvs) \<Rightarrow> None | _ \<Rightarrow> Some [])"

definition yaml_u64 :: "genome_env \<Rightarrow> yaml \<Rightarrow> 64 word option" where
  "yaml_u64 env y = (case y of YScalar s \<Rightarrow> gv_u64 env s | _ \<Rightarrow> None)"

definition parse_metadata :: "genome_env \<Rightarrow> yaml \<Rightarrow> genome_metadata option" where
  "parse_metadata env md =
     Option.bind (yaml_text (yaml_member ''name'' md)) (\<lambda>name.
     Option.bind (yaml_u64 env (yaml_member ''version'' md)) (\<lambda>version.
     Option.bind (if yaml_member ''parent'' md \<noteq> YUndefined then yaml_text (yaml_member ''parent'' md) else Some []) (\<lambda>parent.
     Option.bind (yaml_text (yaml_member ''created_by'' md)) (\<lambda>created_by.
     Option.bind (yaml_text (yaml_member ''created_at'' md)) (\<lambda>created_at.
     Option.bind (yaml_text (yaml_member ''capture_mode'' md)) (\<lambda>mode.
       Some \<lparr> gm_name = name, gm_version = version, gm_parent = parent, gm_created_by = created_by,
              gm_created_at = created_at, gm_capture_mode = mode \<rparr>))))))"

definition parse_spec :: "genome_env \<Rightarrow> yaml \<Rightarrow> genome_spec option" where
  "parse_spec env sp =
     Option.bind (yaml_text (yaml_member ''harness'' sp)) (\<lambda>harness.
     Option.bind (if yaml_member ''tools'' sp \<noteq> YUndefined then tool_texts (yaml_member ''tools'' sp) else Some []) (\<lambda>tools.
     Option.bind (yaml_u64 env (yaml_member ''budget'' sp)) (\<lambda>budget.
     Option.bind (yaml_text (yaml_member ''model_routing'' sp)) (\<lambda>routing.
     Option.bind (yaml_text (yaml_member ''prompt_cache_prefix'' sp)) (\<lambda>pre.
       Some \<lparr> gs_harness = harness, gs_tools = tools, gs_budget = budget, gs_model_routing = routing,
              gs_prompt_cache_prefix = pre \<rparr>)))))"

definition parse_genome_yaml :: "genome_env \<Rightarrow> string \<Rightarrow> genome option" where
  "parse_genome_yaml env content = Option.bind (gv_load env content) (\<lambda>top.
     Option.bind (parse_metadata env (yaml_member ''metadata'' top)) (\<lambda>m.
     Option.bind (parse_spec env (yaml_member ''spec'' top)) (\<lambda>s. Some \<lparr> ge_metadata = m, ge_spec = s \<rparr>)))"

section \<open>Directories\<close>

definition path_exists :: "string \<Rightarrow> genome_store \<Rightarrow> bool" where
  "path_exists p s \<longleftrightarrow> p \<in> set (gr_dirs s) \<or> dk_files (gr_disk s) p \<noteq> None"

text \<open>\<open>create_directories\<close>: every directory on the way that is missing.\<close>

definition dirs_to :: "string \<Rightarrow> string list" where
  "dirs_to p = filter (\<lambda>q. q \<noteq> []) (map (\<lambda>i. take i p) (filter (\<lambda>i. p ! i = CHR ''/'') [0..<length p])) @ [p]"

definition create_directories :: "string \<Rightarrow> genome_store \<Rightarrow> bool \<times> genome_store" where
  "create_directories p s = (case call (gr_disk s) of (f, d) \<Rightarrow>
     if f = Fails then (False, s \<lparr> gr_disk := d \<rparr>)
     else (True, s \<lparr> gr_disk := d, gr_dirs := gr_dirs s @ filter (\<lambda>q. q \<notin> set (gr_dirs s)) (dirs_to p) \<rparr>))"

text \<open>The names of the directories directly below a directory.\<close>

definition subdirs :: "string \<Rightarrow> genome_store \<Rightarrow> string list" where
  "subdirs p s = List.map_filter (\<lambda>q. let n = drop (Suc (length p)) q in
     if prefix (p @ ''/'') q \<and> n \<noteq> [] \<and> CHR ''/'' \<notin> set n then Some n else None) (gr_dirs s)"

text \<open>What an operation sees of them; a directory that does not exist has none.\<close>

definition list_dirs :: "genome_env \<Rightarrow> string \<Rightarrow> (string list, genome_store) act" where
  "list_dirs env p s = (case gv_listing env (gr_ticks s) of
       Listed \<Rightarrow> Inr (subdirs p s)
     | Unreadable \<Rightarrow> Inr []
     | Broken_off \<Rightarrow> if path_exists p s then Inl (Runtime_error ''filesystem error: directory iterator cannot advance'') else Inr (subdirs p s),
     s \<lparr> gr_ticks := Suc (gr_ticks s) \<rparr>)"

definition remove_all :: "string \<Rightarrow> genome_store \<Rightarrow> genome_store" where
  "remove_all p s = (case call (gr_disk s) of (f, d) \<Rightarrow>
     if f = Fails then s \<lparr> gr_disk := d \<rparr>
     else s \<lparr> gr_disk := d \<lparr> dk_files := (\<lambda>q. if q = p \<or> prefix (p @ ''/'') q then None else dk_files d q) \<rparr>,
              gr_dirs := filter (\<lambda>q. q \<noteq> p \<and> \<not> prefix (p @ ''/'') q) (gr_dirs s) \<rparr>)"

section \<open>The key\<close>

definition kDefaultKeyPath :: string where
  "kDefaultKeyPath = ''~/.hydraforge/genome.key''"

definition expand_tilde :: "genome_env \<Rightarrow> string \<Rightarrow> string" where
  "expand_tilde env p = (if p \<noteq> [] \<and> hd p = CHR ''~'' then
       (case gv_home env of Some home \<Rightarrow> if home \<noteq> [] then home @ tl p else p | None \<Rightarrow> p) else p)"

definition parent_path :: "string \<Rightarrow> string" where
  "parent_path p = take (length p - Suc (length (file_name p))) p"

definition key_open_error :: "genome_env \<Rightarrow> exc" where
  "key_open_error env = Runtime_error (''open genome.key failed: '' @ gv_strerror env)"

definition load_or_generate_hmac_key :: "genome_env \<Rightarrow> (string, genome_store) act" where
  "load_or_generate_hmac_key env s =
     (case gv_key env of
        Some (k # ks) \<Rightarrow> (Inr (k # ks), s)
      | _ \<Rightarrow>
         let p = expand_tilde env kDefaultKeyPath; key = contents p (gr_disk s) in
         if path_exists p s \<and> key \<noteq> [] then (Inr key, s)
         else case gv_random env (gr_ticks s) of
           None \<Rightarrow> (Inl (Runtime_error ''RAND_bytes failed''), s)
         | Some raw \<Rightarrow> let new = hex_text raw in
             case create_directories (parent_path p) (s \<lparr> gr_ticks := Suc (gr_ticks s) \<rparr>) of
               (False, s1) \<Rightarrow> (Inl (Runtime_error ''filesystem error: cannot create directories''), s1)
             | (True, s1) \<Rightarrow>
                 if path_exists p s1 then (Inl (key_open_error env), s1)
                 else (case open_file True p (gr_disk s1) of
                   (False, d) \<Rightarrow> (Inl (key_open_error env), s1 \<lparr> gr_disk := d \<rparr>)
                 | (True, d) \<Rightarrow> (case write_file p new d of (n, d1) \<Rightarrow>
                     if n \<noteq> int (length new) then (Inl (Runtime_error (''write genome.key failed: '' @ gv_strerror env)), s1 \<lparr> gr_disk := d1 \<rparr>)
                     else (Inr new, s1 \<lparr> gr_disk := d1 \<rparr>))))"

section \<open>Lineage\<close>

definition version_dir :: "string \<Rightarrow> string \<Rightarrow> 64 word \<Rightarrow> string" where
  "version_dir dir name v = path_join dir (name @ ''/'' @ u64_str v)"

definition yaml_path :: "string \<Rightarrow> string \<Rightarrow> 64 word \<Rightarrow> string" where
  "yaml_path dir name v = path_join (version_dir dir name v) ''genome.yaml''"

definition sig_path :: "string \<Rightarrow> string \<Rightarrow> 64 word \<Rightarrow> string" where
  "sig_path dir name v = path_join (version_dir dir name v) ''signature.hmac''"

definition is_valid_version_field :: "string \<Rightarrow> bool" where
  "is_valid_version_field s \<longleftrightarrow> s \<noteq> [] \<and> list_all is_digit s"

text \<open>\<open>std::stoull\<close>: white space, a sign, digits; a minus wraps around.\<close>

definition stoull :: "string \<Rightarrow> 64 word res" where
  "stoull s = (let r = dropWhile is_space s;
       sign = (if r \<noteq> [] \<and> (hd r = CHR ''-'' \<or> hd r = CHR ''+'') then 1 else 0);
       ds = takeWhile is_digit (drop sign r); v = word_of_nat (digits_val ds)
     in if ds = [] then Inl (Invalid_argument ''stoull'')
        else if 2 ^ 64 \<le> digits_val ds then Inl (Out_of_range ''stoull'')
        else Inr (if hd r = CHR ''-'' then - v else v))"

text \<open>The part before the first at sign and what is behind it.\<close>

definition split_ref :: "string \<Rightarrow> (string \<times> string) option" where
  "split_ref r = (if CHR 0x40 \<notin> set r then None
     else Some (takeWhile (\<lambda>c. c \<noteq> CHR 0x40) r, tl (dropWhile (\<lambda>c. c \<noteq> CHR 0x40) r)))"

definition genome_ref :: "string \<Rightarrow> 64 word \<Rightarrow> string" where
  "genome_ref name v = name @ CHR 0x40 # u64_str v"

definition kMaxLineageDepth :: nat where
  "kMaxLineageDepth = 10000"

text \<open>The loop of the check: what is left of the depth, the keys visited, the genome looked at next.\<close>

primrec lineage_loop :: "nat \<Rightarrow> genome_env \<Rightarrow> genome_store \<Rightarrow> string list \<Rightarrow> string \<Rightarrow> 64 word \<Rightarrow> genome_error + unit" where
  "lineage_loop 0 env s visited name v = (if name = [] then Inr () else Inl BrokenLineage)"
| "lineage_loop (Suc n) env s visited name v =
     (if name = [] then Inr ()
      else if genome_ref name v \<in> set visited then Inl BrokenLineage
      else let p = path_join (path_join (path_join (gr_root s) name) (u64_str v)) ''genome.yaml'' in
        if \<not> path_exists p s then Inl NotFound
        else case parse_genome_yaml env (contents p (gr_disk s)) of
          None \<Rightarrow> Inl SchemaViolation
        | Some g \<Rightarrow> if gm_parent (ge_metadata g) = [] then Inr ()
            else case split_ref (gm_parent (ge_metadata g)) of
              None \<Rightarrow> Inl SchemaViolation
            | Some (m, w) \<Rightarrow> (case stoull w of Inl _ \<Rightarrow> Inl SchemaViolation
                | Inr w' \<Rightarrow> lineage_loop n env s (genome_ref name v # visited) m w'))"

text \<open>The first reference is read outside of any handler, so its exception escapes.\<close>

definition validate_lineage_no_cycle :: "genome_env \<Rightarrow> genome_store \<Rightarrow> string \<Rightarrow> genome \<Rightarrow> (genome_error + unit) res" where
  "validate_lineage_no_cycle env s name child = (let parent = gm_parent (ge_metadata child) in
     case split_ref parent of
       Some (m, w) \<Rightarrow> ebind (stoull w) (\<lambda>v. Inr (lineage_loop kMaxLineageDepth env s [] m v))
     | None \<Rightarrow> Inr (lineage_loop kMaxLineageDepth env s [] (if parent = [] then [] else name) 0))"

section \<open>Operations\<close>

definition atomic_write :: "string \<Rightarrow> string \<Rightarrow> genome_store \<Rightarrow> (genome_error + unit) \<times> genome_store" where
  "atomic_write final content s = (let tmp = final @ ''.tmp'' in
     case open_file True tmp (gr_disk s) of
       (False, d) \<Rightarrow> (Inl IOError, s \<lparr> gr_disk := d \<rparr>)
     | (True, d) \<Rightarrow> (case write_file tmp content d of (n, d1) \<Rightarrow>
         if n \<noteq> int (length content) then (Inl IOError, s \<lparr> gr_disk := snd (remove_file tmp d1) \<rparr>)
         else (case rename_file tmp final d1 of (ok, d2) \<Rightarrow> (if ok then Inr () else Inl IOError, s \<lparr> gr_disk := d2 \<rparr>))))"

definition load_genome :: "genome_env \<Rightarrow> string \<Rightarrow> 64 word \<Rightarrow> (genome_error + genome, genome_store) act" where
  "load_genome env name v s =
     (let yp = yaml_path (gr_root s) name v; sp = sig_path (gr_root s) name v in
      if \<not> path_exists yp s \<or> \<not> path_exists sp s then (Inr (Inl NotFound), s)
      else let sig_hex = contents sp (gr_disk s) in
      case parse_genome_yaml env (contents yp (gr_disk s)) of
        None \<Rightarrow> (Inr (Inl SchemaViolation), s)
      | Some g \<Rightarrow>
          if \<not> is_valid_capture_mode (gm_capture_mode (ge_metadata g)) then (Inr (Inl SchemaViolation), s)
          else if gm_version (ge_metadata g) \<noteq> v then (Inr (Inl SchemaViolation), s)
          else case load_or_generate_hmac_key env s of
            (Inl _, s1) \<Rightarrow> (Inr (Inl IOError), s1)
          | (Inr key, s1) \<Rightarrow>
              case hmac_verify env key (canonical_yaml_serialize env g) sig_hex of
                Inl e \<Rightarrow> (Inl e, s1)
              | Inr False \<Rightarrow> (Inr (Inl IntegrityViolation), s1)
              | Inr True \<Rightarrow> if gm_parent (ge_metadata g) = [] then (Inr (Inr g), s1)
              else case validate_lineage_no_cycle env s1 name g of
                Inl e \<Rightarrow> (Inl e, s1)
              | Inr (Inl e) \<Rightarrow> (Inr (Inl e), s1)
              | Inr (Inr _) \<Rightarrow> (Inr (Inr g), s1))"

text \<open>One more than the greatest version among the directories.\<close>

fun next_version :: "string list \<Rightarrow> 64 word \<Rightarrow> 64 word res" where
  "next_version [] v = Inr v"
| "next_version (n # ns) v = (if \<not> is_valid_version_field n then next_version ns v
     else ebind (stoull n) (\<lambda>w. next_version ns (if v \<le> w then w + 1 else v)))"

definition write_version :: "genome_env \<Rightarrow> string \<Rightarrow> genome \<Rightarrow> genome_store \<Rightarrow> (genome_error + 64 word) \<times> genome_store" where
  "write_version env sig g s =
     (let name = gm_name (ge_metadata g); v = gm_version (ge_metadata g); text_bytes = canonical_yaml_serialize env g;
          dir = version_dir (gr_root s) name v in
      case create_directories dir s of
        (False, s1) \<Rightarrow> (Inl IOError, s1)
      | (True, s1) \<Rightarrow> (case atomic_write (sig_path (gr_root s) name v) sig s1 of
          (Inl e, s2) \<Rightarrow> (Inl e, remove_all dir s2)
        | (Inr _, s2) \<Rightarrow> (case atomic_write (yaml_path (gr_root s) name v) text_bytes s2 of
            (Inl e, s3) \<Rightarrow> (Inl e, remove_all dir s3)
          | (Inr _, s3) \<Rightarrow> (Inr v, s3))))"

definition commit_genome :: "genome_env \<Rightarrow> genome \<Rightarrow> (genome_error + 64 word, genome_store) act" where
  "commit_genome env g s =
     (let name = gm_name (ge_metadata g) in
      if name = [] then (Inr (Inl SchemaViolation), s)
      else if \<not> is_valid_capture_mode (gm_capture_mode (ge_metadata g)) then (Inr (Inl SchemaViolation), s)
      else case list_dirs env (path_join (gr_root s) name) s of
        (Inl e, s0) \<Rightarrow> (Inl e, s0)
      | (Inr names, s0) \<Rightarrow> (case next_version names 1 of
          Inl e \<Rightarrow> (Inl e, s0)
        | Inr v \<Rightarrow> let w = with_version v g in
            case (if gm_parent (ge_metadata w) = [] then Inr (Inr ()) else validate_lineage_no_cycle env s0 name w) of
              Inl e \<Rightarrow> (Inl e, s0)
            | Inr (Inl e) \<Rightarrow> (Inr (Inl e), s0)
            | Inr (Inr _) \<Rightarrow> (case load_or_generate_hmac_key env s0 of
                (Inl _, s1) \<Rightarrow> (Inr (Inl IOError), s1)
              | (Inr key, s1) \<Rightarrow> (case hmac_sign env key (canonical_yaml_serialize env w) of
                  Inl e \<Rightarrow> (Inl e, s1)
                | Inr sig \<Rightarrow> (case write_version env sig w s1 of (r, s2) \<Rightarrow> (Inr r, s2))))))"

definition fork_child :: "genome_env \<Rightarrow> string \<Rightarrow> 64 word \<Rightarrow> genome_spec \<Rightarrow> genome \<Rightarrow> nat \<Rightarrow> genome" where
  "fork_child env name pv mutations parent ticks =
     \<lparr> ge_metadata = \<lparr> gm_name = name, gm_version = 0, gm_parent = genome_ref name pv, gm_created_by = ''fork'',
         gm_created_at = gv_time env ticks, gm_capture_mode = gm_capture_mode (ge_metadata parent) \<rparr>,
       ge_spec = deep_merge_spec (ge_spec parent) mutations \<rparr>"

definition fork_genome :: "genome_env \<Rightarrow> string \<Rightarrow> 64 word \<Rightarrow> genome_spec \<Rightarrow> (genome_error + 64 word, genome_store) act" where
  "fork_genome env name pv mutations s = (case load_genome env name pv s of
       (Inl e, s1) \<Rightarrow> (Inl e, s1)
     | (Inr (Inl e), s1) \<Rightarrow> (Inr (Inl e), s1)
     | (Inr (Inr parent), s1) \<Rightarrow>
         commit_genome env (fork_child env name pv mutations parent (gr_ticks s1)) (s1 \<lparr> gr_ticks := Suc (gr_ticks s1) \<rparr>))"

definition listed_version :: "genome_store \<Rightarrow> string \<Rightarrow> string \<Rightarrow> bool" where
  "listed_version s name_dir n \<longleftrightarrow> is_valid_version_field n \<and>
     (let dir = path_join name_dir n in path_exists (path_join dir ''genome.yaml'') s \<and> path_exists (path_join dir ''signature.hmac'') s \<and>
        \<not> path_exists (path_join dir ''genome.yaml.tmp'') s)"

fun read_versions :: "string list \<Rightarrow> 64 word list res" where
  "read_versions [] = Inr []"
| "read_versions (n # ns) = ebind (stoull n) (\<lambda>v. ebind (read_versions ns) (\<lambda>vs. Inr (v # vs)))"

definition list_versions :: "genome_env \<Rightarrow> string \<Rightarrow> (64 word list, genome_store) act" where
  "list_versions env name s = (let name_dir = path_join (gr_root s) name in
     case list_dirs env name_dir s of
       (Inl e, s1) \<Rightarrow> (Inl e, s1)
     | (Inr names, s1) \<Rightarrow> (ebind (read_versions (filter (listed_version s name_dir) names)) (\<lambda>vs. Inr (sort vs)), s1))"

definition diff_versions :: "genome_env \<Rightarrow> string \<Rightarrow> 64 word \<Rightarrow> 64 word \<Rightarrow> (genome_error + string list, genome_store) act" where
  "diff_versions env name v1 v2 s = (case load_genome env name v1 s of
       (Inl e, s1) \<Rightarrow> (Inl e, s1)
     | (Inr (Inl e), s1) \<Rightarrow> (Inr (Inl e), s1)
     | (Inr (Inr a), s1) \<Rightarrow> (case load_genome env name v2 s1 of
         (Inl e, s2) \<Rightarrow> (Inl e, s2)
       | (Inr (Inl e), s2) \<Rightarrow> (Inr (Inl e), s2)
       | (Inr (Inr b), s2) \<Rightarrow> (Inr (Inr (diff_genomes a b)), s2)))"

section \<open>The walk to the root\<close>

text \<open>A walk is its versions and its genomes, nearest first; it stays within one name.\<close>

type_synonym lineage_walk = "64 word list \<times> genome list"

lemma unvisited_versions: "v \<notin> set visited \<Longrightarrow> 0 < card (UNIV - set (visited :: 64 word list))"
  by (auto simp: card_gt_0_iff)

function walk_loop :: "genome_env \<Rightarrow> genome_store \<Rightarrow> string \<Rightarrow> 64 word option \<Rightarrow> 64 word list \<Rightarrow> lineage_walk \<Rightarrow> 64 word \<Rightarrow>
    genome_error + lineage_walk" where
  "walk_loop env s name to visited walk v =
     (if v \<in> set visited then Inl BrokenLineage
      else let p = path_join (path_join (path_join (gr_root s) name) (u64_str v)) ''genome.yaml'' in
        if \<not> path_exists p s then Inl (if visited = [] then NotFound else BrokenLineage)
        else case parse_genome_yaml env (contents p (gr_disk s)) of
          None \<Rightarrow> Inl SchemaViolation
        | Some g \<Rightarrow> let walk' = (fst walk @ [v], snd walk @ [g]); parent = gm_parent (ge_metadata g) in
            if to = Some v then Inr walk'
            else if parent = [] then (if to \<noteq> None then Inl BrokenLineage else Inr walk')
            else case split_ref parent of
              None \<Rightarrow> Inl SchemaViolation
            | Some (m, w) \<Rightarrow> (case stoull w of Inl _ \<Rightarrow> Inl SchemaViolation
                | Inr w' \<Rightarrow> if m \<noteq> name then Inl BrokenLineage
                    else walk_loop env s name to (v # visited) walk' w'))"
  by pat_completeness auto
termination
  by (relation "measure (\<lambda>(env, s, name, to, visited, walk, v). card (UNIV - set visited))")
    (auto simp: unvisited_versions)

declare walk_loop.simps [simp del]

definition walk_ancestors :: "genome_env \<Rightarrow> string \<Rightarrow> 64 word \<Rightarrow> 64 word option \<Rightarrow> genome_store \<Rightarrow> genome_error + lineage_walk" where
  "walk_ancestors env name from to s = walk_loop env s name to [] ([], []) from"

section \<open>Signatures\<close>

text \<open>The comparison of the characters is equality, and what is printed reads back.\<close>

lemma char_code_less: "(of_char c :: nat) < 256"
proof -
  have "(of_char c :: nat) mod 256 = of_char c" by simp
  then show ?thesis by (metis mod_less_divisor zero_less_numeral)
qed

lemma hex_digit_nibble: "n < 16 \<Longrightarrow> hex_digit_value (nibble n) = Some n"
proof -
  have "\<forall>n \<in> set [0..<16]. hex_digit_value (nibble n) = Some n" by code_simp
  then show "n < 16 \<Longrightarrow> hex_digit_value (nibble n) = Some n" by simp
qed

lemma length_hex_text [simp]: "length (hex_text bs) = 2 * length bs"
  by (induction bs) (simp_all add: hex_text_def)

lemma from_hex_text: "from_hex (hex_text bs) = Some bs"
proof (induction bs)
  case (Cons b bs)
  have "of_char b div 16 < (16 :: nat)" using char_code_less[of b] by (simp add: less_mult_imp_div_less)
  moreover have "char_of (16 * (of_char b div 16) + of_char b mod 16 :: nat) = b" by simp
  ultimately show ?case using Cons by (simp add: hex_text_def hex_digit_nibble)
qed (simp add: hex_text_def)

lemma or_zero_iff: "or a b = 0 \<longleftrightarrow> a = 0 \<and> b = (0 :: 8 word)"
  by (auto simp: bit_eq_iff bit_simps)

lemma xor_chars_zero: "xor (of_char c :: 8 word) (of_char d) = 0 \<longleftrightarrow> c = d"
proof
  assume "xor (of_char c :: 8 word) (of_char d) = 0"
  then have "(of_char c :: 8 word) = of_char d" by (simp add: bit_eq_iff bit_simps)
  then have "unat (of_char c :: 8 word) = unat (of_char d :: 8 word)" by simp
  moreover have "unat (of_char e :: 8 word) = of_char e" for e
  proof -
    have "unat (word_of_nat (of_char e) :: 8 word) = of_char e mod 2 ^ 8" by (simp add: unat_of_nat)
    then show ?thesis by (simp add: of_nat_of_char)
  qed
  ultimately show "c = d" by simp
qed simp

lemma difference_zero:
  "foldl (\<lambda>d i. or d (xor (of_char (a ! i) :: 8 word) (of_char (b ! i)))) d0 [0..<n] = 0 \<longleftrightarrow> d0 = 0 \<and> (\<forall>i < n. a ! i = b ! i)"
  by (induction n) (auto simp: or_zero_iff xor_chars_zero less_Suc_eq)

lemma foldl_unchanged: "foldl (\<lambda>d i. d) a xs = a"
  by (induction xs) simp_all

lemma from_hex_length: "from_hex s = Some bs \<Longrightarrow> length s = 2 * length bs"
  by (induction s arbitrary: bs rule: from_hex.induct) (auto split: option.splits)

text \<open>C30. A signature is accepted exactly when it is the one hmac_sign gives, so no other text and no other
  capitalisation of the same digits is; and the check throws exactly when the text is hexadecimal and hmac_sign throws.\<close>

theorem hmac_verify_exact:
  "(hmac_verify env key text_bytes sig_hex = Inr True \<longleftrightarrow> hmac_sign env key text_bytes = Inr sig_hex) \<and>
   (hmac_verify env key text_bytes sig_hex = Inl e \<longleftrightarrow> hmac_sign env key text_bytes = Inl e \<and> from_hex sig_hex \<noteq> None)"
proof
  show "hmac_verify env key text_bytes sig_hex = Inr True \<longleftrightarrow> hmac_sign env key text_bytes = Inr sig_hex"
  proof
    assume v: "hmac_verify env key text_bytes sig_hex = Inr True"
    then obtain bs actual where a: "from_hex sig_hex = Some bs" "hmac_sign env key text_bytes = Inr actual" "length actual = length bs * 2"
      "\<forall>i < length actual. actual ! i = sig_hex ! i"
      by (auto simp: hmac_verify_def ebind_Inr_conv difference_zero split: option.splits if_splits)
    then have "actual = sig_hex" using from_hex_length by (auto intro!: nth_equalityI)
    then show "hmac_sign env key text_bytes = Inr sig_hex" using a(2) by simp
  next
    assume h: "hmac_sign env key text_bytes = Inr sig_hex"
    then obtain bs where "sig_hex = hex_text bs" by (auto simp: hmac_sign_def split: option.splits)
    then show "hmac_verify env key text_bytes sig_hex = Inr True"
      using h by (simp add: hmac_verify_def from_hex_text foldl_unchanged)
  qed
  show "hmac_verify env key text_bytes sig_hex = Inl e \<longleftrightarrow> hmac_sign env key text_bytes = Inl e \<and> from_hex sig_hex \<noteq> None"
    by (cases "hmac_sign env key text_bytes") (auto simp: hmac_verify_def split: option.split)
qed

lemma signature_verifies: "hmac_sign env key c = Inr sig \<Longrightarrow> hmac_verify env key c sig = Inr True"
  by (auto simp: hmac_verify_def hmac_sign_def from_hex_text foldl_unchanged split: option.splits)

lemma write_version_returns: "write_version env sig w u = (Inr x, u') \<Longrightarrow> x = gm_version (ge_metadata w)"
  by (auto simp: write_version_def Let_def split: prod.splits bool.splits sum.splits)

text \<open>A directory that cannot be listed counts as empty, and the version numbers begin again.\<close>

lemma unreadable_listing_restarts:
  assumes "gv_listing env (gr_ticks s) = Unreadable" "commit_genome env g s = (Inr (Inr v), t)"
  shows "v = 1"
proof -
  have names: "fst (list_dirs env p s) = Inr []" for p using assms(1) by (simp add: list_dirs_def)
  show ?thesis using assms(2) names[of "path_join (gr_root s) (gm_name (ge_metadata g))"]
    by (auto simp: commit_genome_def Let_def with_version_def dest!: write_version_returns split: if_splits prod.splits sum.splits)
qed

section \<open>The YAML form reads back\<close>

definition genome_texts :: "genome \<Rightarrow> string list" where
  "genome_texts g = [gm_name (ge_metadata g), gm_parent (ge_metadata g), gm_created_by (ge_metadata g),
     gm_created_at (ge_metadata g), gm_capture_mode (ge_metadata g), gs_harness (ge_spec g),
     gs_model_routing (ge_spec g), gs_prompt_cache_prefix (ge_spec g)] @ gs_tools (ge_spec g)"

text \<open>Documented behaviour of the YAML library: what its emitter writes for texts of \<open>T\<close> (in practice, those that
  are valid UTF-8) its reader gives back, and the text of an unsigned number converts to that number.\<close>

definition yaml_codec :: "genome_env \<Rightarrow> string set \<Rightarrow> bool" where
  "yaml_codec env T \<longleftrightarrow> (\<forall>g. set (genome_texts g) \<subseteq> T \<longrightarrow> gv_load env (gv_emit env (genome_tree g)) = Some (genome_tree g)) \<and>
     (\<forall>v. gv_u64 env (u64_str v) = Some v)"

lemma yaml_texts_scalars: "yaml_texts (map YScalar ss) = Some ss"
  by (induction ss) (simp_all add: yaml_text_def)

lemma canonical_reads:
  assumes "yaml_codec env T" "set (genome_texts g) \<subseteq> T"
  shows "parse_genome_yaml env (canonical_yaml_serialize env g) = Some g"
proof -
  have "gv_load env (canonical_yaml_serialize env g) = Some (genome_tree g)" "\<And>v. gv_u64 env (u64_str v) = Some v"
    using assms by (auto simp: yaml_codec_def canonical_yaml_serialize_def)
  then show ?thesis
    by (simp add: parse_genome_yaml_def genome_tree_def emit_metadata_def emit_spec_def parse_metadata_def parse_spec_def
        yaml_member_def yaml_text_def yaml_u64_def text_member_def tool_texts_def yaml_texts_scalars)
qed

section \<open>Paths of the registry\<close>

definition plain_name :: "string \<Rightarrow> bool" where
  "plain_name n \<longleftrightarrow> n \<noteq> [] \<and> CHR ''/'' \<notin> set n"

definition below :: "string \<Rightarrow> string \<Rightarrow> string" where
  "below dir name = (if dir = [] \<or> last dir = CHR ''/'' then dir else dir @ ''/'') @ name"

lemma u64_str_chars: "CHR ''/'' \<notin> set (u64_str v)" "CHR 0x40 \<notin> set (u64_str v)" "u64_str v \<noteq> []" "list_all is_digit (u64_str v)"
  "\<not> is_space (hd (u64_str v))"
proof -
  have d: "list_all is_digit (nat_str n)" for n
  proof (induction n rule: nat_str.induct)
    case (1 n)
    have "is_digit (char_of (48 + k :: nat))" if "k < 10" for k using that by (simp add: is_digit_def of_char_of)
    then show ?case using 1 by (simp add: nat_str.simps[of n])
  qed
  then show a: "list_all is_digit (u64_str v)" by (simp add: u64_str_def)
  show n: "u64_str v \<noteq> []" by (simp add: u64_str_def nat_str.simps[of "unat v"])
  have "\<not> is_digit (CHR ''/'')" "\<not> is_digit (CHR 0x40)" by code_simp+
  then show "CHR ''/'' \<notin> set (u64_str v)" "CHR 0x40 \<notin> set (u64_str v)" using a by (auto simp: list_all_iff)
  have "is_digit (hd (u64_str v))" using a n by (cases "u64_str v") auto
  then show "\<not> is_space (hd (u64_str v))" by (simp add: is_digit_def is_space_def Let_def)
qed

lemma u64_str_inject [simp]: "u64_str v = u64_str w \<longleftrightarrow> v = w"
  by (simp add: u64_str_def word_unat_eq_iff)

lemma u64_str_digits: "takeWhile is_digit (u64_str v) = u64_str v" "dropWhile is_space (u64_str v) = u64_str v"
  using u64_str_chars[of v] by (auto simp: list_all_iff takeWhile_eq_all_conv) (cases "u64_str v", auto)

lemma hd_u64_str: "hd (u64_str v) \<noteq> CHR ''-''" "hd (u64_str v) \<noteq> CHR ''+''"
proof -
  have "is_digit (hd (u64_str v))" using u64_str_chars(3,4)[of v] by (cases "u64_str v") auto
  moreover have "\<not> is_digit (CHR ''-'')" "\<not> is_digit (CHR ''+'')" by code_simp+
  ultimately show "hd (u64_str v) \<noteq> CHR ''-''" "hd (u64_str v) \<noteq> CHR ''+''" by auto
qed

lemma stoull_u64_str: "stoull (u64_str v) = Inr v"
  using u64_str_chars(3)[of v] hd_u64_str[of v] unsigned_less[of v, where ?'a = nat]
  by (simp add: stoull_def u64_str_digits Let_def) (simp add: u64_str_def)

lemma split_ref_genome: "CHR 0x40 \<notin> set name \<Longrightarrow> split_ref (genome_ref name v) = Some (name, u64_str v)"
proof -
  assume "CHR 0x40 \<notin> set name"
  then have "takeWhile (\<lambda>c. c \<noteq> CHR 0x40) (name @ CHR 0x40 # u64_str v) = name"
    "dropWhile (\<lambda>c. c \<noteq> CHR 0x40) (name @ CHR 0x40 # u64_str v) = CHR 0x40 # u64_str v"
    by (subst takeWhile_append2 dropWhile_append2; auto)+
  then show ?thesis by (simp add: split_ref_def genome_ref_def)
qed

lemma path_join_below: "n = [] \<or> hd n \<noteq> CHR ''/'' \<Longrightarrow> path_join d n = below d n"
  by (auto simp: path_join_def below_def)

lemma plain_hd: "plain_name n \<Longrightarrow> hd n \<noteq> CHR ''/'' \<and> n \<noteq> [] \<and> last n \<noteq> CHR ''/''"
  unfolding plain_name_def by (metis hd_in_set last_in_set)

lemma registry_paths:
  assumes "plain_name name"
  shows "version_dir d name v = below d name @ ''/'' @ u64_str v"
    "yaml_path d name v = below d name @ ''/'' @ u64_str v @ ''/genome.yaml''"
    "sig_path d name v = below d name @ ''/'' @ u64_str v @ ''/signature.hmac''"
    "path_join (path_join (path_join d name) (u64_str v)) ''genome.yaml'' = yaml_path d name v"
    "path_join d name = below d name"
proof -
  note h = plain_hd[OF assms]
  have u: "hd (u64_str v) \<noteq> CHR ''/''" "last (u64_str v) \<noteq> CHR ''/''" "u64_str v \<noteq> []"
    using u64_str_chars(1,3)[of v] by (metis hd_in_set last_in_set)+
  show v: "version_dir d name v = below d name @ ''/'' @ u64_str v"
    using h by (simp add: version_dir_def path_join_below below_def)
  have l: "last (below d name @ ''/'' @ u64_str v) = last (u64_str v)" using u by simp
  show y: "yaml_path d name v = below d name @ ''/'' @ u64_str v @ ''/genome.yaml''"
    unfolding yaml_path_def v using u l by (simp add: path_join_below) (simp add: below_def)
  show "sig_path d name v = below d name @ ''/'' @ u64_str v @ ''/signature.hmac''"
    unfolding sig_path_def v using u l by (simp add: path_join_below) (simp add: below_def)
  show b: "path_join d name = below d name" using h by (simp add: path_join_below)
  have "path_join (path_join d name) (u64_str v) = version_dir d name v"
    unfolding b v using u h by (simp add: path_join_below) (simp add: below_def)
  then show "path_join (path_join (path_join d name) (u64_str v)) ''genome.yaml'' = yaml_path d name v"
    by (simp add: yaml_path_def)
qed

lemma below_inject:
  assumes "plain_name m" "plain_name n" "below d m @ ''/'' @ x = below d n @ ''/'' @ y"
  shows "m = n \<and> x = y"
proof -
  let ?p = "if d = [] \<or> last d = CHR ''/'' then d else d @ ''/''"
  have e: "m @ CHR ''/'' # x = n @ CHR ''/'' # y" using assms(3) by (auto simp: below_def split: if_splits)
  have "takeWhile (\<lambda>c. c \<noteq> CHR ''/'') (m @ CHR ''/'' # x) = m" "takeWhile (\<lambda>c. c \<noteq> CHR ''/'') (n @ CHR ''/'' # y) = n"
    using assms(1,2) by (subst takeWhile_append2; auto simp: plain_name_def)+
  then have "m = n" using e by metis
  then show ?thesis using e by simp
qed

end
