(* ===== verification/Genome_Lineage.thy ===== *)
theory Genome_Lineage
  imports Genome
begin

text \<open>
  What the genome registry guarantees: genomes once committed stay as they are and load, through any sequence of
  commits and forks and any failures of the disk, as long as directories can be opened for listing, and a fork extends the lineage of its parent by one.
\<close>

section \<open>Growing stores\<close>

definition extends :: "genome_store \<Rightarrow> genome_store \<Rightarrow> bool" where
  "extends s t \<longleftrightarrow> gr_root t = gr_root s \<and> set (gr_dirs s) \<subseteq> set (gr_dirs t) \<and>
     (\<forall>p. path_exists p s \<longrightarrow> dk_files (gr_disk t) p = dk_files (gr_disk s) p)"

lemma extends_exists: "extends s t \<Longrightarrow> path_exists p s \<Longrightarrow> path_exists p t \<and> contents p (gr_disk t) = contents p (gr_disk s)"
  by (auto simp: extends_def path_exists_def contents_def)

lemma lineage_loop_extends:
  "extends s t \<Longrightarrow> lineage_loop n env s visited m v = Inr () \<Longrightarrow> lineage_loop n env t visited m v = Inr ()"
proof (induction n arbitrary: visited m v)
  case (Suc n)
  let ?p = "path_join (path_join (path_join (gr_root s) m) (u64_str v)) ''genome.yaml''"
  have r: "gr_root t = gr_root s" using Suc.prems(1) by (simp add: extends_def)
  show ?case
  proof (cases "m = []")
    case False
    then have "path_exists ?p s" using Suc.prems(2) by (auto simp: Let_def split: if_splits)
    from extends_exists[OF Suc.prems(1) this] show ?thesis
      using Suc False r by (auto simp: Let_def split: if_splits option.splits sum.splits prod.splits)
  qed simp
qed simp

lemma validate_extends:
  "extends s t \<Longrightarrow> validate_lineage_no_cycle env s name g = Inr (Inr ()) \<Longrightarrow> validate_lineage_no_cycle env t name g = Inr (Inr ())"
  by (auto simp: validate_lineage_no_cycle_def Let_def ebind_Inr_conv lineage_loop_extends split: option.splits)

section \<open>What one commit touches\<close>

definition inside :: "string \<Rightarrow> string \<Rightarrow> bool" where
  "inside dir p \<longleftrightarrow> p = dir \<or> prefix (dir @ ''/'') p"

definition touches_only :: "string \<Rightarrow> genome_store \<Rightarrow> genome_store \<Rightarrow> bool" where
  "touches_only dir s t \<longleftrightarrow> gr_root t = gr_root s \<and>
     (\<forall>p. \<not> inside dir p \<longrightarrow> dk_files (gr_disk t) p = dk_files (gr_disk s) p \<and> (p \<in> set (gr_dirs s) \<longrightarrow> p \<in> set (gr_dirs t))) \<and>
     (\<forall>q \<in> set (gr_dirs t). q \<in> set (gr_dirs s) \<or> q \<in> set (dirs_to dir)) \<and>
     (\<forall>p. inside dir p \<longrightarrow> dk_files (gr_disk t) p \<noteq> None \<longrightarrow> p \<noteq> dir \<and> dir \<in> set (gr_dirs t))"

definition fresh_dir :: "string \<Rightarrow> genome_store \<Rightarrow> bool" where
  "fresh_dir dir s \<longleftrightarrow> (\<forall>p. inside dir p \<longrightarrow> \<not> path_exists p s)"

lemma touches_only_start: "fresh_dir dir s \<Longrightarrow> touches_only dir s s"
  by (auto simp: touches_only_def fresh_dir_def path_exists_def)

lemma touches_only_extends: "touches_only dir s t \<Longrightarrow> fresh_dir dir s \<Longrightarrow> extends s t"
  unfolding touches_only_def fresh_dir_def extends_def path_exists_def by blast

lemma call_same: "call d = (f, d') \<Longrightarrow> dk_files d' = dk_files d"
  by (auto simp: call_def split: list.splits)

lemma open_touches:
  "open_file True p d = (ok, d') \<Longrightarrow> dk_files d' q = (if ok \<and> q = p then Some [] else dk_files d q)"
  by (auto simp: open_file_def call_same split: prod.splits if_splits)

lemma write_touches:
  "write_file p c d = (n, d') \<Longrightarrow> q \<noteq> p \<Longrightarrow> dk_files d' q = dk_files d q"
  by (auto simp: write_file_def call_same split: prod.splits fault.splits)

lemma write_full:
  "write_file p c d = (int (length c), d') \<Longrightarrow> dk_files d' p = Some (contents p d @ c)"
  by (auto simp: write_file_def call_same contents_def min_def split: prod.splits fault.splits if_splits)

lemma remove_touches:
  "remove_file p d = (ok, d') \<Longrightarrow> dk_files d' q = dk_files d q \<or> q = p \<and> dk_files d' q = None"
  by (auto simp: remove_file_def call_same split: prod.splits if_splits)

lemma rename_touches:
  "rename_file p q d = (ok, d') \<Longrightarrow> p \<noteq> q \<Longrightarrow> dk_files d' = (if ok then (dk_files d)(p := None, q := dk_files d p) else dk_files d) \<and>
    (ok \<longrightarrow> dk_files d p \<noteq> None)"
  by (auto simp: rename_file_def call_same split: prod.splits if_splits option.splits)

lemma atomic_write_effect:
  assumes "atomic_write final c s = (r, t)"
  shows "gr_root t = gr_root s \<and> gr_dirs t = gr_dirs s \<and>
    (\<forall>q. q \<noteq> final \<and> q \<noteq> final @ ''.tmp'' \<longrightarrow> dk_files (gr_disk t) q = dk_files (gr_disk s) q) \<and>
    (r = Inr () \<longrightarrow> dk_files (gr_disk t) final = Some c) \<and>
    (r \<noteq> Inr () \<longrightarrow> dk_files (gr_disk t) final = dk_files (gr_disk s) final)"
proof -
  let ?tmp = "final @ ''.tmp''"
  obtain ok d where o: "open_file True ?tmp (gr_disk s) = (ok, d)" by fastforce
  show ?thesis
  proof (cases ok)
    case False
    then show ?thesis using assms o open_touches[OF o] by (auto simp: atomic_write_def Let_def)
  next
    case True
    obtain n d1 where w: "write_file ?tmp c d = (n, d1)" by fastforce
    show ?thesis
    proof (cases "n = int (length c)")
      case False
      obtain k d2 where r: "remove_file ?tmp d1 = (k, d2)" by fastforce
      have "dk_files d2 q = dk_files (gr_disk s) q" if "q \<noteq> ?tmp" for q
        using remove_touches[OF r, of q] write_touches[OF w that] open_touches[OF o, of q] that by auto
      then show ?thesis using assms o w r True False by (auto simp: atomic_write_def Let_def)
    next
      case full: True
      have c: "dk_files d1 ?tmp = Some c"
        using write_full[of ?tmp c d d1] w full open_touches[OF o, of ?tmp] True by (simp add: contents_def)
      obtain k d2 where r: "rename_file ?tmp final d1 = (k, d2)" by fastforce
      have e: "r = (if k then Inr () else Inl IOError)" "t = s \<lparr> gr_disk := d2 \<rparr>"
        using assms o w r True full by (auto simp: atomic_write_def Let_def split: if_splits)
      have d2: "dk_files d2 = (if k then (dk_files d1)(?tmp := None, final := Some c) else dk_files d1)"
        using rename_touches[OF r] c by simp
      moreover have "dk_files d1 q = dk_files (gr_disk s) q" if "q \<noteq> ?tmp" for q
        using write_touches[OF w that] open_touches[OF o, of q] that by auto
      ultimately show ?thesis using e by auto
    qed
  qed
qed

lemma inside_below: "inside dir (dir @ CHR ''/'' # n)"
  by (simp add: inside_def)

lemma touches_atomic_write:
  assumes "touches_only dir s t" "dir \<in> set (gr_dirs t)" "atomic_write (dir @ CHR ''/'' # n) c t = (r, u)"
  shows "touches_only dir s u \<and> dir \<in> set (gr_dirs u)"
proof -
  note e = atomic_write_effect[OF assms(3)]
  have "dk_files (gr_disk u) p = dk_files (gr_disk t) p" if "\<not> inside dir p" for p
  proof -
    have "p \<noteq> dir @ CHR ''/'' # n" "p \<noteq> (dir @ CHR ''/'' # n) @ ''.tmp''" using that by (auto simp: inside_def)
    then show ?thesis using e by blast
  qed
  moreover have "p \<noteq> dir" if "inside dir p" "dk_files (gr_disk u) p \<noteq> None" for p
  proof
    assume "p = dir"
    then have "dk_files (gr_disk u) p = dk_files (gr_disk t) p" using e by auto
    then show False using that assms(1) \<open>p = dir\<close> by (auto simp: touches_only_def)
  qed
  ultimately show ?thesis using assms(1,2) e by (auto simp: touches_only_def)
qed

lemma touches_remove_all: "touches_only dir s t \<Longrightarrow> touches_only dir s (remove_all dir t)"
  unfolding remove_all_def by (cases "call (gr_disk t)") (auto simp: touches_only_def inside_def call_same)

lemma touches_create:
  assumes "touches_only dir s t" "create_directories dir t = (ok, u)"
  shows "touches_only dir s u \<and> (ok \<longrightarrow> dir \<in> set (gr_dirs u))"
proof -
  have "dir \<in> set (dirs_to dir)" by (simp add: dirs_to_def)
  then show ?thesis using assms
    by (auto simp: touches_only_def create_directories_def call_same split: prod.splits if_splits)
qed

lemma create_files: "create_directories dir s = (ok, t) \<Longrightarrow> dk_files (gr_disk t) = dk_files (gr_disk s)"
  by (auto simp: create_directories_def call_same split: prod.splits if_splits)

lemma remove_all_None: "dk_files (gr_disk t) p = None \<Longrightarrow> dk_files (gr_disk (remove_all dir t)) p = None"
  by (cases "call (gr_disk t)") (auto simp: remove_all_def call_same)

lemma write_version_effect:
  assumes "write_version env sig g s = (r, t)" "gm_version (ge_metadata g) = v" "gm_name (ge_metadata g) = name"
    "plain_name name" "dir = version_dir (gr_root s) name v" "fresh_dir dir s"
  shows "touches_only dir s t \<and> (\<forall>w. r = Inr w \<longrightarrow> w = v \<and> dir \<in> set (gr_dirs t) \<and>
    dk_files (gr_disk t) (yaml_path (gr_root s) name v) = Some (canonical_yaml_serialize env g) \<and>
    dk_files (gr_disk t) (sig_path (gr_root s) name v) = Some sig) \<and>
    (\<forall>e. r = Inl e \<longrightarrow> dk_files (gr_disk t) (yaml_path (gr_root s) name v) = None)"
proof -
  let ?c = "canonical_yaml_serialize env g"
  note paths = registry_paths(1-3)[OF assms(4), of "gr_root s" v]
  have sp: "sig_path (gr_root s) name v = dir @ CHR ''/'' # ''signature.hmac''"
    and yp: "yaml_path (gr_root s) name v = dir @ CHR ''/'' # ''genome.yaml''"
    unfolding assms(5) paths by simp_all
  have "inside dir (yaml_path (gr_root s) name v)" unfolding yp by (rule inside_below)
  then have none: "dk_files (gr_disk s) (yaml_path (gr_root s) name v) = None"
    using assms(6) by (auto simp: fresh_dir_def path_exists_def)
  obtain ok s1 where c1: "create_directories dir s = (ok, s1)" by fastforce
  note t1 = touches_create[OF touches_only_start[OF assms(6)] c1]
  show ?thesis
  proof (cases ok)
    case False
    then have "r = Inl IOError" "t = s1" using assms(1,2,3,5) c1 by (auto simp: write_version_def Let_def)
    then show ?thesis using t1 none create_files[OF c1] by simp
  next
    case True
    obtain r2 s2 where c2: "atomic_write (sig_path (gr_root s) name v) sig s1 = (r2, s2)" by fastforce
    note t2 = touches_atomic_write[OF conjunct1[OF t1] _ c2[unfolded sp]]
    have n2: "dk_files (gr_disk s2) (yaml_path (gr_root s) name v) = None"
      using atomic_write_effect[OF c2] none create_files[OF c1] unfolding sp yp by simp
    show ?thesis
    proof (cases r2)
      case (Inl e)
      then have "r = Inl e" "t = remove_all dir s2" using assms(1,2,3,5) c1 c2 True by (auto simp: write_version_def Let_def)
      then show ?thesis using t2 t1 True touches_remove_all remove_all_None[OF n2] by auto
    next
      case (Inr u)
      obtain r3 s3 where c3: "atomic_write (yaml_path (gr_root s) name v) ?c s2 = (r3, s3)" by fastforce
      have in2: "touches_only dir s s2" "dir \<in> set (gr_dirs s2)" using t2 t1 True by auto
      note t3 = touches_atomic_write[OF in2 c3[unfolded yp]]
      show ?thesis
      proof (cases r3)
        case (Inl e)
        then have "r = Inl e" "t = remove_all dir s3" using assms(1,2,3,5) c1 c2 c3 True Inr by (auto simp: write_version_def Let_def)
        moreover have "dk_files (gr_disk s3) (yaml_path (gr_root s) name v) = None"
          using atomic_write_effect[OF c3] Inl n2 by simp
        ultimately show ?thesis using t3 touches_remove_all remove_all_None by auto
      next
        case i3: (Inr u')
        then have "r = Inr v" "t = s3" using assms(1,2,3,5) c1 c2 c3 True Inr by (auto simp: write_version_def Let_def)
        moreover have "dk_files (gr_disk s3) (yaml_path (gr_root s) name v) = Some ?c"
          using atomic_write_effect[OF c3] i3 by simp
        moreover have "dk_files (gr_disk s3) (sig_path (gr_root s) name v) = Some sig"
          using atomic_write_effect[OF c3] atomic_write_effect[OF c2] Inr unfolding sp yp by simp
        ultimately show ?thesis using t3 by simp
      qed
    qed
  qed
qed

section \<open>The invariant of a registry\<close>

definition stored :: "genome_env \<Rightarrow> string \<Rightarrow> string set \<Rightarrow> genome_store \<Rightarrow> string \<times> 64 word \<times> genome \<Rightarrow> bool" where
  "stored env key T s = (\<lambda>(name, v, g). plain_name name \<and> gm_name (ge_metadata g) = name \<and> gm_version (ge_metadata g) = v \<and>
     is_valid_capture_mode (gm_capture_mode (ge_metadata g)) \<and> set (genome_texts g) \<subseteq> T \<and>
     dk_files (gr_disk s) (yaml_path (gr_root s) name v) = Some (canonical_yaml_serialize env g) \<and>
     (\<exists>sig. dk_files (gr_disk s) (sig_path (gr_root s) name v) = Some sig \<and> hmac_sign env key (canonical_yaml_serialize env g) = Inr sig) \<and>
     (gm_parent (ge_metadata g) = [] \<or> validate_lineage_no_cycle env s name g = Inr (Inr ())))"

definition dirs_ok :: "nat \<Rightarrow> genome_store \<Rightarrow> bool" where
  "dirs_ok k s \<longleftrightarrow> (\<forall>q \<in> set (gr_dirs s).
     (\<exists>name v. plain_name name \<and> q = version_dir (gr_root s) name v \<and> unat v \<le> k) \<or>
     (\<exists>name. plain_name name \<and> q = below (gr_root s) name) \<or> length q \<le> length (below (gr_root s) []))"

definition files_ok :: "genome_store \<Rightarrow> bool" where
  "files_ok s \<longleftrightarrow> (\<forall>p. dk_files (gr_disk s) p \<noteq> None \<longrightarrow> (\<exists>name v. plain_name name \<and>
     prefix (version_dir (gr_root s) name v @ ''/'') p \<and> version_dir (gr_root s) name v \<in> set (gr_dirs s)))"

text \<open>Every directory can be opened for listing; a listing may still break off.\<close>

definition readable :: "genome_env \<Rightarrow> bool" where
  "readable env \<longleftrightarrow> (\<forall>n. gv_listing env n \<noteq> Unreadable)"

definition registry_ok :: "genome_env \<Rightarrow> string \<Rightarrow> string set \<Rightarrow> nat \<Rightarrow> genome_store \<Rightarrow> (string \<times> 64 word \<times> genome) list \<Rightarrow> bool" where
  "registry_ok env key T k s entries \<longleftrightarrow> readable env \<and> dirs_ok k s \<and> files_ok s \<and> (\<forall>e \<in> set entries. stored env key T s e) \<and>
     (\<forall>name v. plain_name name \<longrightarrow> dk_files (gr_disk s) (yaml_path (gr_root s) name v) \<noteq> None \<longrightarrow> (\<exists>g. (name, v, g) \<in> set entries)) \<and>
     distinct (map (\<lambda>(name, v, g). (name, v)) entries)"

lemma subdirs_set: "n \<in> set (subdirs p s) \<longleftrightarrow> p @ ''/'' @ n \<in> set (gr_dirs s) \<and> n \<noteq> [] \<and> CHR ''/'' \<notin> set n"
proof
  assume "n \<in> set (subdirs p s)"
  then obtain q where "q \<in> set (gr_dirs s)" "prefix (p @ ''/'') q" "n = drop (Suc (length p)) q" "n \<noteq> []" "CHR ''/'' \<notin> set n"
    by (auto simp: subdirs_def List.map_filter_def Let_def split: if_splits)
  then show "p @ ''/'' @ n \<in> set (gr_dirs s) \<and> n \<noteq> [] \<and> CHR ''/'' \<notin> set n" by (auto elim!: prefixE)
next
  assume "p @ ''/'' @ n \<in> set (gr_dirs s) \<and> n \<noteq> [] \<and> CHR ''/'' \<notin> set n"
  then show "n \<in> set (subdirs p s)"
    by (auto simp: subdirs_def List.map_filter_def Let_def image_iff intro!: bexI[of _ "p @ ''/'' @ n"])
qed

lemma version_dir_inject:
  assumes "plain_name m" "plain_name n" "version_dir d m v @ x = version_dir d n w @ y"
    "x = [] \<or> hd x = CHR ''/''" "y = [] \<or> hd y = CHR ''/''"
  shows "m = n \<and> v = w \<and> x = y"
proof -
  have "below d m @ ''/'' @ (u64_str v @ x) = below d n @ ''/'' @ (u64_str w @ y)"
    using assms(3) registry_paths(1)[OF assms(1)] registry_paths(1)[OF assms(2)] by simp
  then have e: "m = n" "u64_str v @ x = u64_str w @ y" using below_inject assms(1,2) by blast+
  have t: "takeWhile (\<lambda>c. c \<noteq> CHR ''/'') (u64_str v' @ z) = u64_str v'" if "z = [] \<or> hd z = CHR ''/''" for v' z
    using that u64_str_chars(1)[of v'] by (subst takeWhile_append2) (auto, cases z, auto)
  have "u64_str v = u64_str w" using t[OF assms(4)] t[OF assms(5)] e(2) by metis
  then show ?thesis using e by simp
qed

lemma insideE: "inside dir p \<Longrightarrow> \<exists>x. p = dir @ x \<and> (x = [] \<or> hd x = CHR ''/'')"
  by (auto simp: inside_def elim!: prefixE)

lemma dirs_ok_inside:
  assumes "dirs_ok k s" "plain_name name" "p \<in> set (gr_dirs s)" "inside (version_dir (gr_root s) name v) p"
  shows "p = version_dir (gr_root s) name v \<and> unat v \<le> k"
proof -
  obtain x where x: "p = version_dir (gr_root s) name v @ x" "x = [] \<or> hd x = CHR ''/''" using insideE assms(4) by blast
  note path = registry_paths(1)[OF assms(2), of "gr_root s" v]
  have "length (below (gr_root s) []) < length p" unfolding x(1) path by (simp add: below_def)
  moreover have "p \<noteq> below (gr_root s) n" if "plain_name n" for n
  proof
    assume "p = below (gr_root s) n"
    then have "name @ ''/'' @ u64_str v @ x = n" unfolding x(1) path by (auto simp: below_def split: if_splits)
    then show False using that by (auto simp: plain_name_def)
  qed
  ultimately obtain n w where "plain_name n" "p = version_dir (gr_root s) n w" "unat w \<le> k"
    using assms(1,3) unfolding dirs_ok_def by (meson not_le)
  then show ?thesis using version_dir_inject[of name n "gr_root s" v x w "[]"] assms(2) x by auto
qed

lemma fresh_version:
  assumes "dirs_ok k s" "files_ok s" "plain_name name" "version_dir (gr_root s) name v \<notin> set (gr_dirs s)"
  shows "fresh_dir (version_dir (gr_root s) name v) s"
  unfolding fresh_dir_def
proof (intro allI impI)
  fix p assume i: "inside (version_dir (gr_root s) name v) p"
  then obtain x where x: "p = version_dir (gr_root s) name v @ x" "x = [] \<or> hd x = CHR ''/''" using insideE by blast
  have "p \<notin> set (gr_dirs s)" using dirs_ok_inside[OF assms(1,3) _ i] assms(4) by auto
  moreover have "dk_files (gr_disk s) p = None"
  proof (rule ccontr)
    assume "dk_files (gr_disk s) p \<noteq> None"
    then obtain n w y where n: "plain_name n" "p = version_dir (gr_root s) n w @ ''/'' @ y" "version_dir (gr_root s) n w \<in> set (gr_dirs s)"
      using assms(2) unfolding files_ok_def by (metis append_assoc prefixE)
    then show False using version_dir_inject[of name n "gr_root s" v x w "''/'' @ y"] assms(3,4) x by auto
  qed
  ultimately show "\<not> path_exists p s" by (simp add: path_exists_def)
qed

lemma next_version_bounds:
  assumes "next_version ns v0 = Inr v" "\<forall>n \<in> set ns. is_valid_version_field n \<longrightarrow> (\<exists>w. n = u64_str w \<and> unat w \<le> k)"
    "unat v0 \<le> Suc k" "Suc k < 2 ^ 64"
  shows "unat v0 \<le> unat v \<and> unat v \<le> Suc k \<and> (\<forall>w. u64_str w \<in> set ns \<longrightarrow> unat w < unat v)"
  using assms
proof (induction ns arbitrary: v0)
  case (Cons n ns)
  have valid: "is_valid_version_field (u64_str w)" for w using u64_str_chars[of w] by (simp add: is_valid_version_field_def)
  show ?case
  proof (cases "is_valid_version_field n")
    case False
    then show ?thesis using Cons valid by auto
  next
    case True
    then obtain w where w: "n = u64_str w" "unat w \<le> k" using Cons.prems(2) by auto
    let ?v = "if v0 \<le> w then w + 1 else v0"
    have s: "unat (w + 1) = Suc (unat w)" using w(2) Cons.prems(4) by (simp add: unat_word_ariths)
    have v: "unat w < unat ?v" "unat v0 \<le> unat ?v" "unat ?v \<le> Suc k" using w(2) s Cons.prems(3) by (auto simp: word_le_nat_alt)
    have "next_version ns ?v = Inr v" using Cons.prems(1) True w(1) by (simp add: stoull_u64_str)
    from Cons.IH[OF this _ v(3) Cons.prems(4)] Cons.prems(2) have
      "unat ?v \<le> unat v" "unat v \<le> Suc k" "\<forall>w. u64_str w \<in> set ns \<longrightarrow> unat w < unat v" by auto
    then show ?thesis using v w(1) by (auto simp del: if_split)
  qed
qed simp

lemma yaml_path_inside: "plain_name name \<Longrightarrow> yaml_path d name v = version_dir d name v @ CHR ''/'' # ''genome.yaml''"
  "plain_name name \<Longrightarrow> sig_path d name v = version_dir d name v @ CHR ''/'' # ''signature.hmac''"
  using registry_paths(1-3)[of name d v] by simp_all

lemma dirs_to_version:
  assumes "plain_name name" "q \<in> set (dirs_to (version_dir d name v))"
  shows "q = version_dir d name v \<or> q = below d name \<or> length q \<le> length (below d [])"
proof -
  note path = registry_paths(1)[OF assms(1), of d v]
  consider "q = version_dir d name v" | i where "q = take i (version_dir d name v)" "version_dir d name v ! i = CHR ''/''" "i < length (version_dir d name v)"
    using assms(2) by (auto simp: dirs_to_def)
  then show ?thesis
  proof cases
    case 2
    let ?b = "length (below d [])" and ?n = "length (below d name)"
    have n: "?n = ?b + length name" by (simp add: below_def)
    consider "i \<le> ?b" | "?b < i" "i < ?n" | "i = ?n" | "?n < i" by linarith
    then show ?thesis
    proof cases
      case 1
      then show ?thesis using 2(1) by auto
    next
      case b: 2
      have "version_dir d name v ! i = below d name ! i" using b(2) unfolding path by (simp add: nth_append)
      also have "\<dots> = name ! (i - ?b)" using b(1) by (auto simp: below_def nth_append)
      finally have "CHR ''/'' = name ! (i - ?b)" using 2(2) by simp
      moreover have "i - ?b < length name" using b n by linarith
      ultimately show ?thesis using assms(1) by (metis nth_mem plain_name_def)
    next
      case 3
      then show ?thesis using 2(1) unfolding path by simp
    next
      case 4
      then have "version_dir d name v ! i = u64_str v ! (i - Suc ?n)" unfolding path by (auto simp: nth_append not_less nth_Cons')
      moreover have "i - Suc ?n < length (u64_str v)" using 4 2(3) unfolding path by simp
      ultimately show ?thesis using 2(2) u64_str_chars(1)[of v] by (metis nth_mem)
    qed
  qed simp
qed

lemma write_version_ok:
  assumes "registry_ok env key T k s entries" "plain_name name" "gm_name (ge_metadata g) = name" "gm_version (ge_metadata g) = v"
    "is_valid_capture_mode (gm_capture_mode (ge_metadata g))" "set (genome_texts g) \<subseteq> T"
    "gm_parent (ge_metadata g) = [] \<or> validate_lineage_no_cycle env s name g = Inr (Inr ())"
    "version_dir (gr_root s) name v \<notin> set (gr_dirs s)" "unat v \<le> Suc k" "write_version env sig g s = (r, t)" "hmac_sign env key (canonical_yaml_serialize env g) = Inr sig"
  shows "registry_ok env key T (Suc k) t (case r of Inr w \<Rightarrow> (name, w, g) # entries | Inl _ \<Rightarrow> entries) \<and> extends s t \<and>
    (\<forall>w. r = Inr w \<longrightarrow> w = v)"
proof -
  let ?D = "version_dir (gr_root s) name v"
  have ok: "dirs_ok k s" "files_ok s" "\<forall>e \<in> set entries. stored env key T s e" "distinct (map (\<lambda>(name, v, g). (name, v)) entries)"
    "\<And>n w. plain_name n \<Longrightarrow> dk_files (gr_disk s) (yaml_path (gr_root s) n w) \<noteq> None \<Longrightarrow> \<exists>g. (n, w, g) \<in> set entries"
    using assms(1) by (auto simp: registry_ok_def)
  have fresh: "fresh_dir ?D s" using fresh_version[OF ok(1,2) assms(2,8)] .
  note eff = write_version_effect[OF assms(10,4,3,2) refl fresh]
  have tch: "touches_only ?D s t" using eff by blast
  have ext: "extends s t" by (rule touches_only_extends[OF tch fresh])
  have root: "gr_root t = gr_root s" using ext by (simp add: extends_def)
  have outside: "dk_files (gr_disk t) p = dk_files (gr_disk s) p" if "\<not> inside ?D p" for p using tch that by (simp add: touches_only_def)
  have dirs: "dirs_ok (Suc k) t"
    unfolding dirs_ok_def root
  proof
    fix q assume "q \<in> set (gr_dirs t)"
    then consider "q \<in> set (gr_dirs s)" | "q \<in> set (dirs_to ?D)" using tch by (auto simp: touches_only_def)
    then show "(\<exists>n w. plain_name n \<and> q = version_dir (gr_root s) n w \<and> unat w \<le> Suc k) \<or>
      (\<exists>n. plain_name n \<and> q = below (gr_root s) n) \<or> length q \<le> length (below (gr_root s) [])"
    proof cases
      case 1
      then show ?thesis using ok(1) unfolding dirs_ok_def by (meson le_SucI)
    next
      case 2
      from dirs_to_version[OF assms(2) this] show ?thesis using assms(2,9) by blast
    qed
  qed
  have files: "files_ok t"
    unfolding files_ok_def root
  proof (intro allI impI)
    fix p assume p: "dk_files (gr_disk t) p \<noteq> None"
    show "\<exists>n w. plain_name n \<and> prefix (version_dir (gr_root s) n w @ ''/'') p \<and> version_dir (gr_root s) n w \<in> set (gr_dirs t)"
    proof (cases "inside ?D p")
      case True
      then have "p \<noteq> ?D \<and> ?D \<in> set (gr_dirs t)" using tch p by (simp add: touches_only_def)
      then show ?thesis using True assms(2) by (auto simp: inside_def)
    next
      case False
      then show ?thesis using p outside ok(2) ext unfolding files_ok_def extends_def by (metis subsetD)
    qed
  qed
  have kept: "stored env key T t e" if "e \<in> set entries" for e
  proof -
    obtain n w h where e: "e = (n, w, h)" by (cases e)
    have s: "stored env key T s (n, w, h)" using ok(3) that e by blast
    then have "path_exists (yaml_path (gr_root s) n w) s" "path_exists (sig_path (gr_root s) n w) s"
      by (auto simp: stored_def path_exists_def)
    then have "dk_files (gr_disk t) (yaml_path (gr_root s) n w) = dk_files (gr_disk s) (yaml_path (gr_root s) n w)"
      "dk_files (gr_disk t) (sig_path (gr_root s) n w) = dk_files (gr_disk s) (sig_path (gr_root s) n w)" using ext by (simp_all add: extends_def)
    then show ?thesis using s e root validate_extends[OF ext] by (auto simp: stored_def)
  qed
  have sound: "gm_parent (ge_metadata g) = [] \<or> validate_lineage_no_cycle env t name g = Inr (Inr ())"
    using assms(7) validate_extends[OF ext] by blast
  have new: "stored env key T t (name, v, g)" "w = v" if "r = Inr w" for w
  proof -
    have "w = v \<and> dk_files (gr_disk t) (yaml_path (gr_root s) name v) = Some (canonical_yaml_serialize env g) \<and>
        dk_files (gr_disk t) (sig_path (gr_root s) name v) = Some sig" using eff that by blast
    then show "stored env key T t (name, v, g)" "w = v" using assms(2-6,11) root sound by (simp_all add: stored_def)
  qed
  have unknown: "(name, v, h) \<notin> set entries" for h
  proof
    assume "(name, v, h) \<in> set entries"
    then have "dk_files (gr_disk s) (yaml_path (gr_root s) name v) \<noteq> None" using ok(3) by (auto simp: stored_def)
    moreover have "inside ?D (yaml_path (gr_root s) name v)" unfolding yaml_path_inside[OF assms(2)] by (rule inside_below)
    ultimately show False using fresh by (auto simp: fresh_dir_def path_exists_def)
  qed
  have known: "\<exists>h. (n, w, h) \<in> set (case r of Inr u \<Rightarrow> (name, u, g) # entries | Inl _ \<Rightarrow> entries)"
    if "plain_name n" "dk_files (gr_disk t) (yaml_path (gr_root s) n w) \<noteq> None" for n w
  proof (cases "inside ?D (yaml_path (gr_root s) n w)")
    case True
    then have "\<exists>x. version_dir (gr_root s) n w @ CHR ''/'' # ''genome.yaml'' = ?D @ x \<and> (x = [] \<or> hd x = CHR ''/'')"
      using insideE unfolding yaml_path_inside[OF that(1)] by blast
    then obtain x where x: "version_dir (gr_root s) n w @ CHR ''/'' # ''genome.yaml'' = ?D @ x" "x = [] \<or> hd x = CHR ''/''" by blast
    have "n = name \<and> w = v \<and> CHR ''/'' # ''genome.yaml'' = x"
      by (rule version_dir_inject[OF \<open>plain_name n\<close> assms(2) x(1) _ x(2)]) simp
    then show ?thesis using \<open>dk_files (gr_disk t) (yaml_path (gr_root s) n w) \<noteq> None\<close> eff by (cases r) auto
  next
    case False
    then show ?thesis using ok(5)[OF that(1)] that(2) outside by (force split: sum.split)
  qed
  have "readable env" using assms(1) by (simp add: registry_ok_def)
  then show ?thesis
    unfolding registry_ok_def root
    using dirs files kept new unknown known ok(4) ext by (cases r) (simp_all add: image_iff split_beta, force)
qed

lemma key_given: "gv_key env = Some key \<Longrightarrow> key \<noteq> [] \<Longrightarrow> load_or_generate_hmac_key env s = (Inr key, s)"
  by (cases key) (auto simp: load_or_generate_hmac_key_def)

lemma stored_loads:
  assumes "gv_key env = Some key" "key \<noteq> []" "yaml_codec env T" "stored env key T s (name, v, g)"
  shows "load_genome env name v s = (Inr (Inr g), s)"
proof -
  let ?y = "yaml_path (gr_root s) name v"
  have st: "dk_files (gr_disk s) ?y = Some (canonical_yaml_serialize env g)"
    "\<exists>sig. dk_files (gr_disk s) (sig_path (gr_root s) name v) = Some sig \<and> hmac_sign env key (canonical_yaml_serialize env g) = Inr sig"
    "is_valid_capture_mode (gm_capture_mode (ge_metadata g))" "gm_version (ge_metadata g) = v" "set (genome_texts g) \<subseteq> T"
    "gm_parent (ge_metadata g) = [] \<or> validate_lineage_no_cycle env s name g = Inr (Inr ())"
    using assms(4) by (auto simp: stored_def)
  show ?thesis
    using st canonical_reads[OF assms(3) st(5)] key_given[OF assms(1,2)] signature_verifies
    by (auto simp: load_genome_def path_exists_def contents_def Let_def)
qed

lemma registry_ok_loads:
  assumes "gv_key env = Some key" "key \<noteq> []" "yaml_codec env T" "registry_ok env key T k s entries" "plain_name name"
    "load_genome env name v s = (Inr (Inr g), s')"
  shows "s' = s \<and> (name, v, g) \<in> set entries"
proof -
  let ?y = "yaml_path (gr_root s) name v"
  have "path_exists ?y s" using assms(6) by (auto simp: load_genome_def Let_def split: if_splits)
  moreover have "?y \<notin> set (gr_dirs s)"
  proof
    assume "?y \<in> set (gr_dirs s)"
    moreover have "inside (version_dir (gr_root s) name v) ?y" unfolding yaml_path_inside[OF assms(5)] by (rule inside_below)
    ultimately have "?y = version_dir (gr_root s) name v"
      using dirs_ok_inside[of k s name ?y v] assms(4,5) by (simp add: registry_ok_def)
    then show False unfolding yaml_path_inside[OF assms(5)] by simp
  qed
  ultimately have "dk_files (gr_disk s) ?y \<noteq> None" by (simp add: path_exists_def)
  then obtain h where h: "(name, v, h) \<in> set entries" using assms(4,5) unfolding registry_ok_def by blast
  then have "load_genome env name v s = (Inr (Inr h), s)" using stored_loads[OF assms(1-3)] assms(4) by (simp add: registry_ok_def)
  then show ?thesis using assms(6) h by simp
qed

section \<open>Sequences of operations\<close>

lemma registry_ok_more: "registry_ok env key T k s entries \<Longrightarrow> registry_ok env key T (Suc k) s entries"
  unfolding registry_ok_def dirs_ok_def by (meson le_SucI)

lemma registry_ok_ticks: "registry_ok env key T k s entries \<Longrightarrow> registry_ok env key T k (s \<lparr> gr_ticks := n \<rparr>) entries"
proof -
  have "lineage_loop n' env (s \<lparr> gr_ticks := n \<rparr>) vis m v = lineage_loop n' env s vis m v" for n' vis m v
    by (induction n' arbitrary: vis m v) (auto simp: path_exists_def Let_def split: option.split sum.split)
  then have "validate_lineage_no_cycle env (s \<lparr> gr_ticks := n \<rparr>) = validate_lineage_no_cycle env s"
    by (intro ext) (simp add: validate_lineage_no_cycle_def Let_def split: option.split)
  then have "stored env key T (s \<lparr> gr_ticks := n \<rparr>) = stored env key T s" by (intro ext) (simp add: stored_def)
  then show "registry_ok env key T k s entries \<Longrightarrow> registry_ok env key T k (s \<lparr> gr_ticks := n \<rparr>) entries"
    by (simp add: registry_ok_def dirs_ok_def files_ok_def)
qed

lemma genome_texts_version [simp]: "genome_texts (with_version v g) = genome_texts g"
  "gm_version (ge_metadata (with_version v g)) = v" "gm_name (ge_metadata (with_version v g)) = gm_name (ge_metadata g)"
  "gm_parent (ge_metadata (with_version v g)) = gm_parent (ge_metadata g)"
  "gm_capture_mode (ge_metadata (with_version v g)) = gm_capture_mode (ge_metadata g)"
  "ge_spec (with_version v g) = ge_spec g"
  by (simp_all add: genome_texts_def with_version_def)

lemma listed_versions:
  assumes "dirs_ok k s" "plain_name name" "n \<in> set (subdirs (below (gr_root s) name) s)"
  shows "\<exists>w. n = u64_str w \<and> unat w \<le> k"
proof -
  let ?q = "below (gr_root s) name @ ''/'' @ n"
  have q: "?q \<in> set (gr_dirs s)" "n \<noteq> []" "CHR ''/'' \<notin> set n" using assms(3) by (auto simp: subdirs_set)
  have "length (below (gr_root s) []) < length ?q" by (simp add: below_def)
  moreover have "?q \<noteq> below (gr_root s) m" if "plain_name m" for m
  proof
    assume "?q = below (gr_root s) m"
    then have "name @ ''/'' @ n = m" by (auto simp: below_def split: if_splits)
    then show False using that by (auto simp: plain_name_def)
  qed
  ultimately obtain m w where m: "plain_name m" "?q = version_dir (gr_root s) m w" "unat w \<le> k"
    using assms(1) q(1) unfolding dirs_ok_def by (meson not_le)
  then have "n = u64_str w" using below_inject[OF assms(2) m(1)] registry_paths(1)[OF m(1)] by metis
  then show ?thesis using m(3) by blast
qed

lemma commit_ok:
  assumes "gv_key env = Some key" "key \<noteq> []" "registry_ok env key T k s entries" "Suc k < 2 ^ 64"
    "plain_name (gm_name (ge_metadata g))" "set (genome_texts g) \<subseteq> T" "commit_genome env g s = (r, t)"
  shows "registry_ok env key T (Suc k) t (case r of Inr (Inr v) \<Rightarrow> (gm_name (ge_metadata g), v, with_version v g) # entries | _ \<Rightarrow> entries) \<and>
    extends s t \<and> (\<forall>v. r = Inr (Inr v) \<longrightarrow> fresh_dir (version_dir (gr_root s) (gm_name (ge_metadata g)) v) s)"
proof (cases "(\<exists>v. r = Inr (Inr v)) \<or> (\<forall>n. t \<noteq> s \<lparr> gr_ticks := n \<rparr>)")
  case False
  then obtain n where "t = s \<lparr> gr_ticks := n \<rparr>" by blast
  then show ?thesis using False registry_ok_more[OF registry_ok_ticks[OF assms(3), of n]] by (auto simp: extends_def split: sum.split)
next
  case True
  let ?name = "gm_name (ge_metadata g)"
  note p = registry_paths(5)[OF assms(5), of "gr_root s"]
  obtain names s0 where l: "list_dirs env (below (gr_root s) ?name) s = (names, s0)" by fastforce
  have "readable env" using assms(3) by (simp add: registry_ok_def)
  then have s0: "\<exists>n. s0 = s \<lparr> gr_ticks := n \<rparr>" "\<And>ns. names = Inr ns \<Longrightarrow> ns = subdirs (below (gr_root s) ?name) s"
    using l by (auto simp: list_dirs_def readable_def split: if_splits listing.splits)
  then obtain n where n: "s0 = s \<lparr> gr_ticks := n \<rparr>" by blast
  have "s = s \<lparr> gr_ticks := gr_ticks s \<rparr>" by simp
  then have new: "(\<exists>v. r = Inr (Inr v)) \<or> t \<noteq> s \<and> t \<noteq> s0" using True n by metis
  obtain ns v where ns: "names = Inr ns" "next_version ns 1 = Inr v"
    using assms(7) new p l by (cases names; cases "next_version (projr names) 1")
      (auto simp: commit_genome_def Let_def split: if_splits)
  let ?g = "with_version v g"
  obtain r' sig where w: "write_version env sig ?g s0 = (r', t)" "r = Inr r'" "hmac_sign env key (canonical_yaml_serialize env ?g) = Inr sig"
    and c: "is_valid_capture_mode (gm_capture_mode (ge_metadata g))"
      "gm_parent (ge_metadata ?g) = [] \<or> validate_lineage_no_cycle env s0 ?name ?g = Inr (Inr ())"
    using assms(7) new ns l p unfolding commit_genome_def
    by (auto simp: Let_def p key_given[OF assms(1,2)] split: if_splits sum.splits prod.splits)
  have ok0: "registry_ok env key T k s0 entries" using registry_ok_ticks[OF assms(3)] n by simp
  have d: "dirs_ok k s" using assms(3) by (simp add: registry_ok_def)
  note sub = s0(2)[OF ns(1)]
  have listed: "\<exists>w. x = u64_str w \<and> unat w \<le> k" if "x \<in> set ns" for x
    using listed_versions[OF d assms(5), of x] that sub by simp
  have b: "unat v \<le> Suc k" "\<And>w. u64_str w \<in> set ns \<Longrightarrow> unat w < unat v"
    using next_version_bounds[OF ns(2) _ _ assms(4)] listed by auto
  have d_new: "version_dir (gr_root s) ?name v \<notin> set (gr_dirs s)"
  proof
    assume "version_dir (gr_root s) ?name v \<in> set (gr_dirs s)"
    then have "u64_str v \<in> set (subdirs (below (gr_root s) ?name) s)"
      using u64_str_chars(1,3)[of v] by (simp add: subdirs_set registry_paths(1)[OF assms(5)])
    then show False using b(2) sub by blast
  qed
  have fresh: "fresh_dir (version_dir (gr_root s) ?name v) s"
    using fresh_version[OF d _ assms(5) d_new] assms(3) by (simp add: registry_ok_def)
  have "version_dir (gr_root s0) ?name v \<notin> set (gr_dirs s0)" using d_new n by simp
  from write_version_ok[OF ok0 assms(5) _ _ _ _ _ this b(1) w(1,3)] c assms(6)
  have "registry_ok env key T (Suc k) t (case r' of Inr u \<Rightarrow> (?name, u, ?g) # entries | Inl _ \<Rightarrow> entries) \<and> extends s0 t \<and> (\<forall>u. r' = Inr u \<longrightarrow> u = v)"
    by simp
  moreover have "extends s0 t \<Longrightarrow> extends s t" using n by (simp add: extends_def path_exists_def)
  ultimately show ?thesis using fresh unfolding w(2) by (auto split: sum.split)
qed

definition speaks :: "genome_env \<Rightarrow> string set \<Rightarrow> bool" where
  "speaks env T \<longleftrightarrow> ''fork'' \<in> T \<and> (\<forall>t. gv_time env t \<in> T) \<and> (\<forall>n v. plain_name n \<and> n \<in> T \<longrightarrow> genome_ref n v \<in> T)"

datatype registry_op = Commit genome | Fork string "64 word" genome_spec

text \<open>One operation, with the list of the genomes it has published.\<close>

fun registry_do :: "genome_env \<Rightarrow> registry_op \<Rightarrow> genome_store \<times> (string \<times> 64 word \<times> genome) list \<Rightarrow>
    genome_store \<times> (string \<times> 64 word \<times> genome) list" where
  "registry_do env (Commit g) (s, entries) = (case commit_genome env g s of
     (Inr (Inr v), t) \<Rightarrow> (t, (gm_name (ge_metadata g), v, with_version v g) # entries) | (_, t) \<Rightarrow> (t, entries))"
| "registry_do env (Fork name pv m) (s, entries) = (case load_genome env name pv s of
     (Inr (Inr parent), s1) \<Rightarrow> (case fork_genome env name pv m s of
         (Inr (Inr v), t) \<Rightarrow> (t, (name, v, with_version v (fork_child env name pv m parent (gr_ticks s1))) # entries)
       | (_, t) \<Rightarrow> (t, entries))
   | _ \<Rightarrow> (snd (fork_genome env name pv m s), entries))"

fun op_in :: "string set \<Rightarrow> registry_op \<Rightarrow> bool" where
  "op_in T (Commit g) \<longleftrightarrow> plain_name (gm_name (ge_metadata g)) \<and> set (genome_texts g) \<subseteq> T"
| "op_in T (Fork name pv m) \<longleftrightarrow> plain_name name \<and> name \<in> T \<and>
     {gs_harness m, gs_model_routing m, gs_prompt_cache_prefix m} \<union> set (gs_tools m) \<subseteq> T"

lemma fork_child_texts:
  assumes "speaks env T" "op_in T (Fork name pv m)" "set (genome_texts parent) \<subseteq> T"
  shows "set (genome_texts (fork_child env name pv m parent t)) \<subseteq> T"
  using assms by (auto simp: fork_child_def genome_texts_def deep_merge_spec_def speaks_def split: if_splits)

lemma fork_keeps_registry:
  assumes "gv_key env = Some key" "key \<noteq> []" "yaml_codec env T" "speaks env T" "registry_ok env key T k s entries" "Suc k < 2 ^ 64"
    "op_in T (Fork name pv m)"
  shows "registry_ok env key T (Suc k) (fst (registry_do env (Fork name pv m) (s, entries))) (snd (registry_do env (Fork name pv m) (s, entries)))"
proof (cases "\<exists>parent s1. load_genome env name pv s = (Inr (Inr parent), s1)")
  case False
  have same: "snd (load_genome env name pv s) = s"
    using key_given[OF assms(1,2)] by (auto simp: load_genome_def Let_def split: if_splits option.splits sum.splits bool.splits)
  obtain r s1 where l: "load_genome env name pv s = (r, s1)" by fastforce
  then have "s1 = s" using same by simp
  then have "registry_do env (Fork name pv m) (s, entries) = (s, entries)" using l False
    by (auto simp: fork_genome_def split: sum.split)
  then show ?thesis using registry_ok_more[OF assms(5)] by simp
next
  case True
  then obtain parent s1 where l: "load_genome env name pv s = (Inr (Inr parent), s1)" by blast
  have name: "plain_name name" using assms(7) by simp
  have s1: "s1 = s" "(name, pv, parent) \<in> set entries" using registry_ok_loads[OF assms(1-3,5) name l] by auto
  then have texts: "set (genome_texts parent) \<subseteq> T" using assms(5) by (auto simp: registry_ok_def stored_def)
  let ?g = "fork_child env name pv m parent (gr_ticks s)"
  obtain r t where c: "commit_genome env ?g (s \<lparr> gr_ticks := Suc (gr_ticks s) \<rparr>) = (r, t)" by fastforce
  have f: "fork_genome env name pv m s = (r, t)" using l s1 c by (simp add: fork_genome_def)
  have n: "gm_name (ge_metadata ?g) = name" by (simp add: fork_child_def)
  from commit_ok[OF assms(1,2) registry_ok_ticks[OF assms(5)] assms(6) _ fork_child_texts[OF assms(4,7) texts] c] name n
  show ?thesis using l s1 f by (auto split: sum.splits)
qed

lemma registry_run_ok:
  assumes "gv_key env = Some key" "key \<noteq> []" "yaml_codec env T" "speaks env T"
  shows "registry_ok env key T k s entries \<Longrightarrow> k + length ops < 2 ^ 64 \<Longrightarrow> \<forall>op \<in> set ops. op_in T op \<Longrightarrow>
    registry_ok env key T (k + length ops) (fst (fold (registry_do env) ops (s, entries))) (snd (fold (registry_do env) ops (s, entries)))"
proof (induction ops arbitrary: k s entries)
  case (Cons op ops)
  obtain t entries' where d: "registry_do env op (s, entries) = (t, entries')" by fastforce
  have "registry_ok env key T (Suc k) t entries'"
  proof (cases op)
    case (Commit g)
    obtain r u where c: "commit_genome env g s = (r, u)" by fastforce
    have "plain_name (gm_name (ge_metadata g))" "set (genome_texts g) \<subseteq> T" "Suc k < 2 ^ 64" using Cons.prems Commit by auto
    from commit_ok[OF assms(1,2) Cons.prems(1) this(3,1,2) c] d Commit c show ?thesis by (auto split: sum.splits)
  next
    case (Fork name pv m)
    then show ?thesis using fork_keeps_registry[OF assms Cons.prems(1), of name pv m] Cons.prems(2,3) d by simp
  qed
  from Cons.IH[OF this] Cons.prems d show ?case by simp
qed simp

text \<open>The empty registry below its root.\<close>

definition new_registry :: "string \<Rightarrow> fault list \<Rightarrow> genome_store" where
  "new_registry root_dir faults = \<lparr> gr_root = root_dir, gr_disk = \<lparr> dk_files = (\<lambda>_. None), dk_faults = faults \<rparr>, gr_dirs = dirs_to root_dir, gr_ticks = 0 \<rparr>"

lemma new_registry_ok: "readable env \<Longrightarrow> registry_ok env key T 0 (new_registry root_dir faults) []"
proof -
  have "length q \<le> length (below root_dir [])" if "q \<in> set (dirs_to root_dir)" for q
    using that by (auto simp: dirs_to_def below_def)
  then show "readable env \<Longrightarrow> ?thesis" by (simp add: registry_ok_def dirs_ok_def files_ok_def new_registry_def)
qed

text \<open>C31. Published genomes are immutable.  After any commits and forks on a registry that was empty, whatever creating, opening,
  writing, renaming and removing of files and directories failed or wrote short, and whatever listings broke off, every version that
  was ever returned still loads and gives exactly the genome that was published under it; no version of a name was given out
  twice.  Every directory can be opened for listing (unreadable_listing_restarts shows what happens otherwise).  Names are
  single components of a path, the key comes from the environment, and the texts are ones the YAML library reads back.\<close>

theorem genomes_are_immutable:
  assumes "gv_key env = Some key" "key \<noteq> []" "yaml_codec env T" "speaks env T" "readable env" "length ops < 2 ^ 64"
    "\<forall>op \<in> set ops. op_in T op" "fold (registry_do env) ops (new_registry root_dir faults, []) = (s, entries)"
  shows "(\<forall>(name, v, g) \<in> set entries. load_genome env name v s = (Inr (Inr g), s)) \<and>
    distinct (map (\<lambda>(name, v, g). (name, v)) entries)"
proof -
  have "registry_ok env key T (length ops) s entries"
    using registry_run_ok[OF assms(1-4) new_registry_ok[OF assms(5)], of ops root_dir faults] assms(6-8) by simp
  then show ?thesis using stored_loads[OF assms(1-3)] by (auto simp: registry_ok_def)
qed

section \<open>A concrete library\<close>

text \<open>A YAML text that marks each character and ends each scalar: enough of a library to show that the hypotheses
  above can hold.\<close>

fun scalars :: "yaml \<Rightarrow> string list" where
  "scalars (YScalar s) = [s]"
| "scalars (YSequence ys) = concat (map scalars ys)"
| "scalars (YMap kvs) = concat (map (\<lambda>(k, v). scalars v) kvs)"
| "scalars _ = []"

definition mark_text :: "string \<Rightarrow> string" where
  "mark_text s = concat (map (\<lambda>c. [CHR ''.'', c]) s) @ ''!''"

fun read_marked :: "string \<Rightarrow> string \<Rightarrow> string list" where
  "read_marked cur (c # cs) = (if c = CHR ''!'' then cur # read_marked [] cs
     else case cs of [] \<Rightarrow> [] | d # ds \<Rightarrow> read_marked (cur @ [d]) ds)"
| "read_marked cur [] = []"

definition rebuild :: "string list \<Rightarrow> yaml option" where
  "rebuild ts = (case ts of n # v # p # b # a # m # h # rest \<Rightarrow> let k = length rest - 3 in
       Some (YMap [(YScalar ''metadata'', YMap [text_member ''name'' n, text_member ''version'' v, text_member ''parent'' p,
           text_member ''created_by'' b, text_member ''created_at'' a, text_member ''capture_mode'' m]),
         (YScalar ''spec'', YMap [text_member ''harness'' h, (YScalar ''tools'', YSequence (map YScalar (take k rest))),
           text_member ''budget'' (rest ! k), text_member ''model_routing'' (rest ! Suc k),
           text_member ''prompt_cache_prefix'' (rest ! Suc (Suc k))])])
     | _ \<Rightarrow> None)"

definition sample_library :: genome_env where
  "sample_library = \<lparr> gv_load = (\<lambda>s. rebuild (read_marked [] s)), gv_emit = (\<lambda>y. concat (map mark_text (scalars y))),
     gv_u64 = (\<lambda>s. Some (word_of_nat (digits_val s))), gv_hmac = (\<lambda>key bs. Some (key @ bs)), gv_random = (\<lambda>_. None),
     gv_time = (\<lambda>_. ''now''), gv_key = Some ''key'', gv_home = None, gv_strerror = [],
     gv_listing = (\<lambda>_. Listed) \<rparr>"

lemma read_marked_text: "read_marked cur (mark_text s @ r) = (cur @ s) # read_marked [] r"
  by (induction s arbitrary: cur) (simp_all add: mark_text_def)

lemma read_marked_texts: "read_marked [] (concat (map mark_text ss)) = ss"
  by (induction ss) (simp_all add: read_marked_text)

lemma scalars_texts: "concat (map scalars (map YScalar ss)) = ss"
  by (induction ss) simp_all

lemma sample_library_readable: "readable sample_library" "\<exists>sig. hmac_sign sample_library key c = Inr sig"
  by (simp_all add: readable_def sample_library_def hmac_sign_def)

lemma sample_library_codec: "yaml_codec sample_library UNIV" "speaks sample_library UNIV"
proof -
  have "scalars (genome_tree g) = [gm_name (ge_metadata g), u64_str (gm_version (ge_metadata g)), gm_parent (ge_metadata g),
      gm_created_by (ge_metadata g), gm_created_at (ge_metadata g), gm_capture_mode (ge_metadata g), gs_harness (ge_spec g)] @
      gs_tools (ge_spec g) @ [u64_str (gs_budget (ge_spec g)), gs_model_routing (ge_spec g), gs_prompt_cache_prefix (ge_spec g)]" for g
    using scalars_texts[of "gs_tools (ge_spec g)"]
    by (simp add: genome_tree_def emit_metadata_def emit_spec_def text_member_def o_def)
  then have "rebuild (scalars (genome_tree g)) = Some (genome_tree g)" for g
    by (simp add: rebuild_def Let_def nth_append genome_tree_def emit_metadata_def emit_spec_def)
  then show "yaml_codec sample_library UNIV"
    by (simp add: yaml_codec_def sample_library_def read_marked_texts) (simp add: u64_str_def)
  show "speaks sample_library UNIV" by (simp add: speaks_def)
qed

definition sample_genome :: genome where
  "sample_genome = \<lparr> ge_metadata = \<lparr> gm_name = ''agent'', gm_version = 0, gm_parent = [], gm_created_by = ''me'', gm_created_at = ''t'',
     gm_capture_mode = ''mock'' \<rparr>, ge_spec = empty_spec \<lparr> gs_harness := ''h'', gs_tools := [''read''] \<rparr> \<rparr>"

section \<open>Forks extend the lineage\<close>

lemma walk_loop_result:
  "walk_loop env s name None visited walk v = Inr w \<Longrightarrow> \<exists>vs gs. w = (fst walk @ vs, snd walk @ gs) \<and>
    set vs \<inter> set visited = {} \<and>
    (\<forall>x \<in> set vs. path_exists (path_join (path_join (path_join (gr_root s) name) (u64_str x)) ''genome.yaml'') s) \<and>
    (\<forall>t visited' walk'. extends s t \<longrightarrow> set vs \<inter> set visited' = {} \<longrightarrow>
      walk_loop env t name None visited' walk' v = Inr (fst walk' @ vs, snd walk' @ gs))"
proof (induction env s name "None :: 64 word option" visited walk v arbitrary: w rule: walk_loop.induct)
  case (1 env s name visited walk v)
  let ?p = "path_join (path_join (path_join (gr_root s) name) (u64_str v)) ''genome.yaml''"
  have nv: "v \<notin> set visited" and pe: "path_exists ?p s"
    using 1(2) by (auto simp: walk_loop.simps[of env s name None visited walk v] Let_def split: if_splits)
  obtain g where g: "parse_genome_yaml env (contents ?p (gr_disk s)) = Some g"
    using 1(2) nv pe by (auto simp: walk_loop.simps[of env s name None visited walk v] Let_def split: option.splits)
  let ?parent = "gm_parent (ge_metadata g)"
  have ext: "gr_root t = gr_root s \<and> path_exists ?p t \<and> contents ?p (gr_disk t) = contents ?p (gr_disk s)" if "extends s t" for t
    using extends_exists[OF that pe] that by (simp add: extends_def)
  show ?case
  proof (cases "?parent = []")
    case True
    then have "w = (fst walk @ [v], snd walk @ [g])" using 1(2) nv pe g
      by (simp add: walk_loop.simps[of env s name None visited walk v] Let_def)
    moreover have "walk_loop env t name None visited' walk' v = Inr (fst walk' @ [v], snd walk' @ [g])"
      if "extends s t" "v \<notin> set visited'" for t visited' walk'
      using True that ext[OF that(1)] g by (simp add: walk_loop.simps[of env t name None visited' walk' v] Let_def)
    ultimately show ?thesis using nv pe by (intro exI[of _ "[v]"] exI[of _ "[g]"]) simp
  next
    case False
    then obtain m u u' where m: "split_ref ?parent = Some (m, u)" "stoull u = Inr u'" "m = name"
      "walk_loop env s name None (v # visited) (fst walk @ [v], snd walk @ [g]) u' = Inr w"
      using 1(2) nv pe g by (auto simp: walk_loop.simps[of env s name None visited walk v] Let_def split: option.splits sum.splits if_splits)
    from 1(1)[OF nv refl _ g refl refl _ False m(1) _ m(2) _ m(4)] pe m(3) obtain vs gs where
      w: "w = (fst walk @ v # vs, snd walk @ g # gs)" "set vs \<inter> set (v # visited) = {}"
      "\<forall>x \<in> set vs. path_exists (path_join (path_join (path_join (gr_root s) name) (u64_str x)) ''genome.yaml'') s"
      "\<forall>t visited' walk'. extends s t \<longrightarrow> set vs \<inter> set visited' = {} \<longrightarrow>
        walk_loop env t name None visited' walk' u' = Inr (fst walk' @ vs, snd walk' @ gs)" by auto
    have "walk_loop env t name None visited' walk' v = Inr (fst walk' @ v # vs, snd walk' @ g # gs)"
      if "extends s t" "set (v # vs) \<inter> set visited' = {}" for t visited' walk'
    proof -
      have "walk_loop env t name None (v # visited') (fst walk' @ [v], snd walk' @ [g]) u' = Inr (fst walk' @ v # vs, snd walk' @ g # gs)"
        using w(2,4) that by auto
      then show ?thesis using False that ext[OF that(1)] g m(1-3)
        by (simp add: walk_loop.simps[of env t name None visited' walk' v] Let_def)
    qed
    then show ?thesis using w nv pe by (intro exI[of _ "v # vs"] exI[of _ "g # gs"]) auto
  qed
qed

lemma walk_head:
  assumes "walk_ancestors env name v None s = Inr (vs, gs)" "load_genome env name v s = (Inr (Inr g), s')" "plain_name name"
  shows "\<exists>vs' gs'. vs = v # vs' \<and> gs = g # gs'"
proof -
  note path = registry_paths(4)[OF assms(3), of "gr_root s" v]
  have g: "path_exists (yaml_path (gr_root s) name v) s" "parse_genome_yaml env (contents (yaml_path (gr_root s) name v) (gr_disk s)) = Some g"
    using assms(2) by (auto simp: load_genome_def Let_def split: if_splits option.splits sum.splits prod.splits bool.splits)
  have "(vs, gs) = ([v], [g]) \<or> (\<exists>u. walk_loop env s name None [v] ([v], [g]) u = Inr (vs, gs))"
    using assms(1) g path
    by (auto simp: walk_ancestors_def walk_loop.simps[of env s name None "[]" "([], [])" v] Let_def split: if_splits option.splits sum.splits)
  then show ?thesis using walk_loop_result by fastforce
qed

lemma fork_genome_effect:
  assumes "gv_key env = Some key" "key \<noteq> []" "yaml_codec env T" "speaks env T" "registry_ok env key T k s entries" "Suc k < 2 ^ 64"
    "op_in T (Fork name pv m)" "fork_genome env name pv m s = (Inr (Inr v), t)"
  shows "\<exists>parent. load_genome env name pv s = (Inr (Inr parent), s) \<and> (name, pv, parent) \<in> set entries \<and>
    stored env key T t (name, v, with_version v (fork_child env name pv m parent (gr_ticks s))) \<and> extends s t \<and>
    fresh_dir (version_dir (gr_root s) name v) s"
proof -
  obtain parent s1 where l: "load_genome env name pv s = (Inr (Inr parent), s1)"
    using assms(8) by (auto simp: fork_genome_def split: prod.splits sum.splits)
  have name: "plain_name name" using assms(7) by simp
  have s1: "s1 = s" "(name, pv, parent) \<in> set entries" using registry_ok_loads[OF assms(1-3,5) name l] by auto
  then have texts: "set (genome_texts parent) \<subseteq> T" using assms(5) by (auto simp: registry_ok_def stored_def)
  let ?g = "fork_child env name pv m parent (gr_ticks s)" and ?s = "s \<lparr> gr_ticks := Suc (gr_ticks s) \<rparr>"
  have c: "commit_genome env ?g ?s = (Inr (Inr v), t)" using assms(8) l s1 by (simp add: fork_genome_def)
  have n: "gm_name (ge_metadata ?g) = name" by (simp add: fork_child_def)
  from commit_ok[OF assms(1,2) registry_ok_ticks[OF assms(5)] assms(6) _ fork_child_texts[OF assms(4,7) texts] c] name n
  have r: "registry_ok env key T (Suc k) t ((name, v, with_version v ?g) # entries)" "extends ?s t"
    "fresh_dir (version_dir (gr_root s) name v) ?s" by auto
  then have "extends s t" "fresh_dir (version_dir (gr_root s) name v) s" by (auto simp: extends_def fresh_dir_def path_exists_def)
  then show ?thesis using l s1 r(1) by (auto simp: registry_ok_def)
qed

lemma fork_walk:
  assumes "gv_key env = Some key" "key \<noteq> []" "yaml_codec env T" "speaks env T" "registry_ok env key T k s entries"
    "Suc k < 2 ^ 64" "op_in T (Fork name pv m)" "fork_genome env name pv m s = (Inr (Inr v), t)"
    "CHR 0x40 \<notin> set name" "walk_ancestors env name pv None s = Inr (vs, gs)"
  shows "\<exists>parent. load_genome env name pv s = (Inr (Inr parent), s) \<and>
    walk_ancestors env name v None t = Inr (v # vs, with_version v (fork_child env name pv m parent (gr_ticks s)) # gs) \<and>
    v \<notin> set vs \<and> (name, pv, parent) \<in> set entries"
proof -
  obtain parent where p: "load_genome env name pv s = (Inr (Inr parent), s)"
    "(name, pv, parent) \<in> set entries" "stored env key T t (name, v, with_version v (fork_child env name pv m parent (gr_ticks s)))" "extends s t"
    "fresh_dir (version_dir (gr_root s) name v) s"
    using fork_genome_effect[OF assms(1-5) assms(6-8)] by blast
  let ?g = "with_version v (fork_child env name pv m parent (gr_ticks s))"
  have name: "plain_name name" using assms(7) by simp
  note path = registry_paths(4)[OF name]
  have root: "gr_root t = gr_root s" using p(4) by (simp add: extends_def)
  have saved: "dk_files (gr_disk t) (yaml_path (gr_root s) name v) = Some (canonical_yaml_serialize env ?g)" "set (genome_texts ?g) \<subseteq> T"
    using p(3) root by (auto simp: stored_def)
  have g: "parse_genome_yaml env (contents (yaml_path (gr_root s) name v) (gr_disk t)) = Some ?g"
    using canonical_reads[OF assms(3) saved(2)] saved(1) by (simp add: contents_def)
  have parent: "gm_parent (ge_metadata ?g) = genome_ref name pv" by (simp add: fork_child_def)
  obtain vs' gs' where w: "(vs, gs) = (vs', gs')" "\<forall>x \<in> set vs'. path_exists (yaml_path (gr_root s) name x) s"
    "\<forall>t visited walk. extends s t \<longrightarrow> set vs' \<inter> set visited = {} \<longrightarrow> walk_loop env t name None visited walk pv = Inr (fst walk @ vs', snd walk @ gs')"
    using walk_loop_result[OF assms(10)[unfolded walk_ancestors_def]] path by auto
  have fresh: "v \<notin> set vs"
  proof
    assume "v \<in> set vs"
    then have "path_exists (yaml_path (gr_root s) name v) s" using w by simp
    moreover have "inside (version_dir (gr_root s) name v) (yaml_path (gr_root s) name v)"
      unfolding yaml_path_inside[OF name] by (rule inside_below)
    ultimately show False using p(5) by (auto simp: fresh_dir_def)
  qed
  then have "walk_loop env t name None [v] ([v], [?g]) pv = Inr (v # vs, ?g # gs)" using w p(4) by simp
  then have "walk_ancestors env name v None t = Inr (v # vs, ?g # gs)"
    using saved(1) g parent split_ref_genome[OF assms(9)] stoull_u64_str root
    by (simp add: walk_ancestors_def walk_loop.simps[of env t name None "[]" "([], [])" v] path path_exists_def Let_def genome_ref_def)
  then show ?thesis using p(1,2) fresh by blast
qed

text \<open>A fork extends the lineage of its parent by one: after any history as above, when a fork of version \<open>pv\<close>
  returns \<open>v\<close>, the walk from \<open>v\<close> is \<open>v\<close> with the child genome, whose fields are the parent's where the mutation is
  silent, followed by the walk from \<open>pv\<close> as it was before.\<close>

theorem fork_extends_lineage:
  assumes "gv_key env = Some key" "key \<noteq> []" "yaml_codec env T" "speaks env T" "readable env" "Suc (length ops) < 2 ^ 64"
    "\<forall>op \<in> set ops. op_in T op" "fold (registry_do env) ops (new_registry root_dir faults, []) = (s, entries)"
    "op_in T (Fork name pv m)" "CHR 0x40 \<notin> set name"
    "fork_genome env name pv m s = (Inr (Inr v), t)" "walk_ancestors env name pv None s = Inr (vs, gs)"
  shows "\<exists>parent. load_genome env name pv s = (Inr (Inr parent), s) \<and>
    walk_ancestors env name v None t = Inr (v # vs, with_version v (fork_child env name pv m parent (gr_ticks s)) # gs)"
proof -
  have "registry_ok env key T (length ops) s entries"
    using registry_run_ok[OF assms(1-4) new_registry_ok[OF assms(5)], of ops root_dir faults] assms(6-8) by simp
  from fork_walk[OF assms(1-4) this assms(6,9,11,10,12)] show ?thesis by blast
qed

text \<open>Without failures a commit with a sound lineage succeeds.\<close>

lemma atomic_write_no_faults:
  "dk_faults (gr_disk s) = [] \<Longrightarrow> \<exists>t. atomic_write final c s = (Inr (), t) \<and> dk_faults (gr_disk t) = []"
  by (simp add: atomic_write_def open_file_def write_file_def rename_file_def contents_def put_file_def Let_def)

lemma write_version_no_faults:
  assumes "dk_faults (gr_disk s) = []"
  shows "\<exists>t. write_version env sig g s = (Inr (gm_version (ge_metadata g)), t) \<and> dk_faults (gr_disk t) = []"
proof -
  let ?dir = "version_dir (gr_root s) (gm_name (ge_metadata g)) (gm_version (ge_metadata g))"
  obtain s1 where s1: "create_directories ?dir s = (True, s1)" "dk_faults (gr_disk s1) = []"
    using assms by (simp add: create_directories_def)
  obtain s2 where s2: "atomic_write (sig_path (gr_root s) (gm_name (ge_metadata g)) (gm_version (ge_metadata g)))
      sig s1 = (Inr (), s2)" "dk_faults (gr_disk s2) = []"
    using atomic_write_no_faults[OF s1(2)] by blast
  obtain s3 where s3: "atomic_write (yaml_path (gr_root s) (gm_name (ge_metadata g)) (gm_version (ge_metadata g)))
      (canonical_yaml_serialize env g) s2 = (Inr (), s3)" "dk_faults (gr_disk s3) = []"
    using atomic_write_no_faults[OF s2(2)] by blast
  show ?thesis using s1 s2 s3 by (simp add: write_version_def Let_def)
qed

lemma next_version_total:
  "\<forall>n \<in> set ns. \<exists>w. n = u64_str w \<Longrightarrow> \<exists>v. next_version ns v0 = Inr v"
  by (induction ns arbitrary: v0) (auto simp: stoull_u64_str)

lemma commit_no_faults:
  assumes "gv_key env = Some key" "key \<noteq> []" "registry_ok env key T k s entries" "dk_faults (gr_disk s) = []"
    "\<And>c. \<exists>sig. hmac_sign env key c = Inr sig" "\<And>n. gv_listing env n = Listed"
    "plain_name (gm_name (ge_metadata g))" "is_valid_capture_mode (gm_capture_mode (ge_metadata g))"
    "gm_parent (ge_metadata g) = [] \<or> (\<forall>n v. validate_lineage_no_cycle env (s \<lparr> gr_ticks := n \<rparr>) (gm_name (ge_metadata g)) (with_version v g) = Inr (Inr ()))"
  shows "\<exists>v t. commit_genome env g s = (Inr (Inr v), t) \<and> dk_faults (gr_disk t) = []"
proof -
  let ?name = "gm_name (ge_metadata g)" and ?s = "s \<lparr> gr_ticks := Suc (gr_ticks s) \<rparr>"
  have "dirs_ok k s" using assms(3) by (simp add: registry_ok_def)
  then obtain v where v: "next_version (subdirs (path_join (gr_root s) ?name) s) 1 = Inr v"
    using next_version_total listed_versions[OF _ assms(7)] registry_paths(5)[OF assms(7)] by metis
  obtain sig where sig: "hmac_sign env key (canonical_yaml_serialize env (with_version v g)) = Inr sig" using assms(5) by blast
  obtain t where "write_version env sig (with_version v g) ?s = (Inr v, t)" "dk_faults (gr_disk t) = []"
    using write_version_no_faults[of ?s env sig "with_version v g"] assms(4) by auto
  moreover have "?name \<noteq> []" using assms(7) by (simp add: plain_name_def)
  moreover have "(if gm_parent (ge_metadata (with_version v g)) = [] then Inr (Inr ())
      else validate_lineage_no_cycle env ?s ?name (with_version v g)) = Inr (Inr ())" using assms(9) by auto
  ultimately show ?thesis
    using assms(6,8) v sig key_given[OF assms(1,2), of ?s] by (simp add: commit_genome_def list_dirs_def Let_def)
qed

text \<open>A registry with one genome, from which any fork succeeds.\<close>

lemma sample_registry:
  "\<exists>s. fold (registry_do sample_library) [Commit sample_genome] (new_registry ''/r'' [], []) =
      (s, [(''agent'', 1, with_version 1 sample_genome)]) \<and>
    load_genome sample_library ''agent'' 1 s = (Inr (Inr (with_version 1 sample_genome)), s) \<and>
    walk_ancestors sample_library ''agent'' 1 None s = Inr ([1], [with_version 1 sample_genome]) \<and>
    (\<forall>m. \<exists>v t. fork_genome sample_library ''agent'' 1 m s = (Inr (Inr v), t))"
proof -
  let ?e = sample_library and ?s0 = "new_registry ''/r'' []"
  have key: "gv_key ?e = Some ''key''" "''key'' \<noteq> ([] :: string)" by (simp_all add: sample_library_def)
  note ok0 = new_registry_ok[OF sample_library_readable(1), of "''key''" UNIV "''/r''" "[]"]
  have lists: "gv_listing ?e n = Listed" for n by (simp add: sample_library_def)
  have plain: "plain_name ''agent''" "CHR 0x40 \<notin> set ''agent''" by (simp_all add: plain_name_def)
  have "\<exists>v s. commit_genome ?e sample_genome ?s0 = (Inr (Inr v), s) \<and> dk_faults (gr_disk s) = []"
    using plain lists sample_library_readable(2) by (intro commit_no_faults[OF key ok0]) (simp_all add: sample_genome_def new_registry_def is_valid_capture_mode_def)
  then obtain v0 s where c: "commit_genome ?e sample_genome ?s0 = (Inr (Inr v0), s)" "dk_faults (gr_disk s) = []" by blast
  have "subdirs (path_join ''/r'' ''agent'') ?s0 = []"
    by (simp add: subdirs_def new_registry_def path_join_def dirs_to_def List.map_filter_def)
  then have names: "fst (list_dirs ?e (path_join (gr_root ?s0) ''agent'') ?s0) = Inr []" by (simp add: list_dirs_def lists new_registry_def)
  have v0: "v0 = 1" using c(1) names
    by (auto simp: commit_genome_def sample_genome_def with_version_def Let_def dest!: write_version_returns split: if_splits sum.splits prod.splits)
  let ?entries = "[(''agent'', 1, with_version 1 sample_genome)]"
  have r: "fold (registry_do ?e) [Commit sample_genome] (?s0, []) = (s, ?entries)"
    using c(1) v0 by (simp add: sample_genome_def)
  have ok: "registry_ok ?e ''key'' UNIV 1 s ?entries"
    using commit_ok[OF key ok0 _ _ _ c(1)] v0 plain by (simp add: sample_genome_def)
  then have l: "load_genome ?e ''agent'' 1 s = (Inr (Inr (with_version 1 sample_genome)), s)"
    using stored_loads[OF key sample_library_codec(1)] by (simp add: registry_ok_def)
  let ?p = "yaml_path (gr_root s) ''agent'' 1" and ?g = "with_version 1 sample_genome"
  have f: "dk_files (gr_disk s) ?p = Some (canonical_yaml_serialize ?e ?g)" using ok by (simp add: registry_ok_def stored_def)
  then have y: "path_exists ?p s" "parse_genome_yaml ?e (contents ?p (gr_disk s)) = Some ?g" "gm_parent (ge_metadata ?g) = []"
    using canonical_reads[OF sample_library_codec(1), of ?g] by (simp_all add: path_exists_def contents_def sample_genome_def)
  note path = registry_paths(4)[OF plain(1), of "gr_root s" 1]
  have w: "walk_ancestors ?e ''agent'' 1 None s = Inr ([1], [?g])"
    using y path by (simp add: walk_ancestors_def walk_loop.simps[of ?e s "''agent''" None "[]" "([], [])" 1])
  have forks: "\<exists>v t. fork_genome ?e ''agent'' 1 m s = (Inr (Inr v), t)" for m
  proof -
    let ?c = "fork_child ?e ''agent'' 1 m ?g (gr_ticks s)" and ?s = "s \<lparr> gr_ticks := Suc (gr_ticks s) \<rparr>"
    have "lineage_loop (Suc n) ?e (?s \<lparr> gr_ticks := k \<rparr>) [] ''agent'' 1 = Inr ()" for n k
      using y path by (simp add: path_exists_def Let_def)
    then have "lineage_loop kMaxLineageDepth ?e (?s \<lparr> gr_ticks := k \<rparr>) [] ''agent'' 1 = Inr ()" for k
      by (metis kMaxLineageDepth_def numeral_eq_Suc)
    then have "validate_lineage_no_cycle ?e (?s \<lparr> gr_ticks := k \<rparr>) ''agent'' (with_version v ?c) = Inr (Inr ())" for k v
      using split_ref_genome[OF plain(2), of 1] stoull_u64_str[of 1] by (simp add: validate_lineage_no_cycle_def fork_child_def)
    then have "\<exists>v t. commit_genome ?e ?c ?s = (Inr (Inr v), t) \<and> dk_faults (gr_disk t) = []"
      using plain c(2) lists sample_library_readable(2) by (intro commit_no_faults[OF key registry_ok_ticks[OF ok]])
        (simp_all add: fork_child_def sample_genome_def with_version_def is_valid_capture_mode_def)
    then show ?thesis using l by (auto simp: fork_genome_def)
  qed
  show ?thesis using r l w forks by (intro exI[of _ s]) blast
qed

lemma sample_names: "gv_key sample_library = Some ''key''" "''key'' \<noteq> ([] :: string)" "CHR 0x40 \<notin> set ''agent''" "plain_name ''agent''"
  by (simp_all add: sample_library_def plain_name_def)

lemma genomes_are_immutable_witness:
  "\<exists>s g h v. fold (registry_do sample_library) [Commit sample_genome, Fork ''agent'' 1 empty_spec] (new_registry ''/r'' [], []) =
      (s, [(''agent'', v, h), (''agent'', 1, g)]) \<and> v \<noteq> 1 \<and>
    load_genome sample_library ''agent'' 1 s = (Inr (Inr g), s) \<and> load_genome sample_library ''agent'' v s = (Inr (Inr h), s)"
proof -
  let ?ops = "[Commit sample_genome, Fork ''agent'' 1 empty_spec]"
  obtain t where t: "fold (registry_do sample_library) [Commit sample_genome] (new_registry ''/r'' [], []) =
      (t, [(''agent'', 1, with_version 1 sample_genome)])"
    and l: "load_genome sample_library ''agent'' 1 t = (Inr (Inr (with_version 1 sample_genome)), t)"
    and f: "\<forall>m. \<exists>v u. fork_genome sample_library ''agent'' 1 m t = (Inr (Inr v), u)" using sample_registry by blast
  obtain v s where v: "fork_genome sample_library ''agent'' 1 empty_spec t = (Inr (Inr v), s)" using f by blast
  obtain h where r: "fold (registry_do sample_library) ?ops (new_registry ''/r'' [], []) = (s, [(''agent'', v, h), (''agent'', 1, with_version 1 sample_genome)])"
    using t l v by simp
  have "\<forall>op \<in> set ?ops. op_in UNIV op" by (simp add: plain_name_def sample_genome_def)
  moreover have "length ?ops < 2 ^ 64" by simp
  ultimately show ?thesis
    using genomes_are_immutable[OF sample_names(1,2) sample_library_codec sample_library_readable(1) _ _ r] r by (auto intro!: exI)
qed

lemma fork_extends_lineage_witness:
  "\<exists>s entries parent v t. fold (registry_do sample_library) [Commit sample_genome] (new_registry ''/r'' [], []) = (s, entries) \<and>
    fork_genome sample_library ''agent'' 1 empty_spec s = (Inr (Inr v), t) \<and>
    walk_ancestors sample_library ''agent'' v None t =
      Inr ([v, 1], [with_version v (fork_child sample_library ''agent'' 1 empty_spec parent (gr_ticks s)), with_version 1 sample_genome])"
proof -
  obtain s where r: "fold (registry_do sample_library) [Commit sample_genome] (new_registry ''/r'' [], []) =
      (s, [(''agent'', 1, with_version 1 sample_genome)])"
    and w: "walk_ancestors sample_library ''agent'' 1 None s = Inr ([1], [with_version 1 sample_genome])"
    and f: "\<forall>m. \<exists>v t. fork_genome sample_library ''agent'' 1 m s = (Inr (Inr v), t)" using sample_registry by blast
  obtain v t where vt: "fork_genome sample_library ''agent'' 1 empty_spec s = (Inr (Inr v), t)" using f by blast
  from fork_extends_lineage[OF sample_names(1,2) sample_library_codec sample_library_readable(1) _ _ r _ sample_names(3) vt w] sample_names(4)
  have "\<exists>parent. walk_ancestors sample_library ''agent'' v None t =
      Inr ([v, 1], [with_version v (fork_child sample_library ''agent'' 1 empty_spec parent (gr_ticks s)), with_version 1 sample_genome])"
    by (auto simp: sample_genome_def with_version_def)
  then show ?thesis using r vt by blast
qed

end
