(* ===== verification/Doubles.thy ===== *)
theory Doubles
  imports HF_Prelude "HOL-Library.Word"
begin

text \<open>
  Comparison of doubles.  A double is its 64 bits (IEEE 754 binary64): not-a-number compares false with everything,
  and otherwise the order is that of sign and magnitude, with both zeros equal.  Arithmetic stays a parameter of the
  theories that use it.
\<close>

definition f64_nan :: "64 word \<Rightarrow> bool" where
  "f64_nan w \<longleftrightarrow> 0x7FF0000000000000 < take_bit 63 w"

definition f64_key :: "64 word \<Rightarrow> int" where
  "f64_key w = (if bit w 63 then - uint (take_bit 63 w) else uint (take_bit 63 w))"

definition f64_less :: "64 word \<Rightarrow> 64 word \<Rightarrow> bool" where
  "f64_less a b \<longleftrightarrow> \<not> f64_nan a \<and> \<not> f64_nan b \<and> f64_key a < f64_key b"

definition f64_le :: "64 word \<Rightarrow> 64 word \<Rightarrow> bool" where
  "f64_le a b \<longleftrightarrow> \<not> f64_nan a \<and> \<not> f64_nan b \<and> f64_key a \<le> f64_key b"

definition f64_zero :: "64 word" where "f64_zero = 0"
definition f64_one :: "64 word" where "f64_one = 0x3FF0000000000000"
definition f64_minus_one :: "64 word" where "f64_minus_one = 0xBFF0000000000000"

definition f64_finite :: "64 word \<Rightarrow> bool" where
  "f64_finite w \<longleftrightarrow> take_bit 63 w < 0x7FF0000000000000"

text \<open>Arithmetic and conversions, as far as the program uses them.\<close>

record f64_ops =
  fo_plus :: "64 word \<Rightarrow> 64 word \<Rightarrow> 64 word"
  fo_minus :: "64 word \<Rightarrow> 64 word \<Rightarrow> 64 word"
  fo_times :: "64 word \<Rightarrow> 64 word \<Rightarrow> 64 word"
  fo_divide :: "64 word \<Rightarrow> 64 word \<Rightarrow> 64 word"
  fo_sqrt :: "64 word \<Rightarrow> 64 word"
  fo_log :: "64 word \<Rightarrow> 64 word"
  fo_of_int :: "int \<Rightarrow> 64 word"
  fo_to_u64 :: "64 word \<Rightarrow> 64 word"
  fo_to_string :: "64 word \<Rightarrow> string"

text \<open>What IEEE 754 says of zero.\<close>

definition zero_arithmetic :: "f64_ops \<Rightarrow> bool" where
  "zero_arithmetic fo \<longleftrightarrow> fo_minus fo f64_zero f64_zero = f64_zero \<and> fo_times fo f64_zero f64_zero = f64_zero \<and>
     fo_plus fo f64_zero f64_zero = f64_zero"

lemma f64_less_irrefl: "\<not> f64_less a a"
  by (simp add: f64_less_def)

lemma f64_less_trans: "f64_less a b \<Longrightarrow> f64_less b c \<Longrightarrow> f64_less a c"
  by (simp add: f64_less_def)

lemma f64_less_asym: "f64_less a b \<Longrightarrow> \<not> f64_less b a"
  by (simp add: f64_less_def)

lemma f64_not_less: "\<not> f64_nan a \<Longrightarrow> \<not> f64_nan b \<Longrightarrow> \<not> f64_less a b \<longleftrightarrow> f64_le b a"
  by (auto simp: f64_less_def f64_le_def)

lemma f64_constants: "f64_less f64_zero f64_one" "f64_less f64_minus_one f64_zero" "\<not> f64_less f64_zero f64_zero"
  by code_simp+

end
