(* ===== verification/Governance.thy ===== *)
theory Governance
  imports Doubles Bus Policy
begin

text \<open>
  The gates every self-modification passes: agenticdsl/contract/imutation_governance.h, types/mutation_record.h,
  reward_signal.h, execution_trace.h, contract/evaluation_events.h and common/governance/mutation_governor.cpp.
  The governor keeps no state of its own; an operation returns its decision (or the exception that ends it) and the
  events it has put on the bus, in order.  Evaluator, approval handler and regression gate are the functions the
  constructor takes, and may throw.
\<close>

section \<open>Rewards and traces\<close>

datatype reward_quality = Excellent | Acceptable | Poor

record reward_signal =
  rw_quality :: reward_quality
  rw_scalar :: "64 word"
  rw_confidence :: "64 word"

definition valid_confidence :: "64 word \<Rightarrow> bool" where
  "valid_confidence c \<longleftrightarrow> \<not> (f64_less c f64_zero \<or> f64_less f64_one c)"

definition reward_of :: "reward_quality \<Rightarrow> 64 word \<Rightarrow> 64 word \<Rightarrow> reward_signal res" where
  "reward_of q s c = (if \<not> valid_confidence c then Inl (Out_of_range ''confidence must be in [0.0, 1.0]'')
     else Inr \<lparr> rw_quality = q, rw_scalar = s, rw_confidence = c \<rparr>)"

definition reward_excellent :: "64 word \<Rightarrow> reward_signal res" where
  "reward_excellent c = reward_of Excellent f64_one c"

definition reward_acceptable :: "64 word \<Rightarrow> reward_signal res" where
  "reward_acceptable c = reward_of Acceptable f64_zero c"

definition reward_poor :: "64 word \<Rightarrow> reward_signal res" where
  "reward_poor c = reward_of Poor f64_minus_one c"

record execution_trace =
  et_final_result :: tool_result
  et_trace_id :: string
  et_trajectory_refs :: "string list"

definition empty_trace :: execution_trace where
  "empty_trace = \<lparr> et_final_result = default_tool_result, et_trace_id = [], et_trajectory_refs = [] \<rparr>"

type_synonym evaluator = "execution_trace \<Rightarrow> reward_signal res"

definition quality_name :: "reward_quality \<Rightarrow> string" where
  "quality_name q = (case q of Excellent \<Rightarrow> ''Excellent'' | Acceptable \<Rightarrow> ''Acceptable'' | Poor \<Rightarrow> ''Poor'')"

text \<open>The clock of the identifier is a parameter; its counter is returned one higher.\<close>

definition make_evaluation_id :: "int \<Rightarrow> 64 word \<Rightarrow> string \<times> 64 word" where
  "make_evaluation_id ms n = (''eval_'' @ int_str ms @ ''_'' @ nat_str (unat n), n + 1)"

definition reward_json :: "reward_signal \<Rightarrow> json" where
  "reward_json r = jobj [(''quality'', JStr (quality_name (rw_quality r))), (''scalar'', JFloat (rw_scalar r)),
     (''confidence'', JFloat (rw_confidence r))]"

definition build_evaluation_result_event :: "string \<Rightarrow> string \<Rightarrow> execution_trace \<Rightarrow> reward_signal \<Rightarrow> event_builder" where
  "build_evaluation_result_event evaluation_id evaluator_type t r =
     eb_meta (jobj [(''trace_id'', JStr (et_trace_id t))])
       (eb_args (jobj [(''evaluation_id'', JStr evaluation_id), (''schema_version'', JStr ''v1''),
            (''evaluator_type'', JStr evaluator_type), (''trace_ref'', JStr (et_trace_id t)), (''trace_id'', JStr (et_trace_id t)),
            (''quality'', JStr (quality_name (rw_quality r))), (''scalar'', JFloat (rw_scalar r)),
            (''confidence'', JFloat (rw_confidence r)), (''reward'', reward_json r), (''evaluation_refs'', JArr [])])
         (eb_new ''evaluation.result''))"

section \<open>Mutations\<close>

datatype mutation_mode = Mutation_yolo | Mutation_plan | Mutation_agent

record mutation_context =
  mc_mutation_id :: string
  mc_source_id :: string
  mc_mutation_kind :: string
  mc_subject_ref :: string
  mc_proposed_change :: string
  mc_parent_ref :: string
  mc_version_id :: string
  mc_mode :: mutation_mode
  mc_evaluation_refs :: "string list"

definition default_mutation :: mutation_context where
  "default_mutation = \<lparr> mc_mutation_id = [], mc_source_id = [], mc_mutation_kind = [], mc_subject_ref = [], mc_proposed_change = [],
     mc_parent_ref = [], mc_version_id = [], mc_mode = Mutation_agent, mc_evaluation_refs = [] \<rparr>"

record mutation_decision =
  dc_approved :: bool
  dc_denial_reason :: string
  dc_failed_step :: string

definition approved_decision :: mutation_decision where
  "approved_decision = \<lparr> dc_approved = True, dc_denial_reason = [], dc_failed_step = [] \<rparr>"

definition json_texts :: "string list \<Rightarrow> json" where
  "json_texts ss = JArr (map JStr ss)"

definition proposed_json :: "mutation_context \<Rightarrow> json" where
  "proposed_json c = jobj [(''mutation_id'', JStr (mc_mutation_id c)), (''source_id'', JStr (mc_source_id c)),
     (''subject_ref'', JStr (mc_subject_ref c)), (''mutation_kind'', JStr (mc_mutation_kind c)),
     (''proposed_change'', JStr (mc_proposed_change c)), (''parent_ref'', JStr (mc_parent_ref c)),
     (''evaluation_refs'', json_texts (mc_evaluation_refs c))]"

definition committed_json :: "mutation_context \<Rightarrow> json" where
  "committed_json c = jobj [(''mutation_id'', JStr (mc_mutation_id c)), (''version_id'', JStr (mc_version_id c)),
     (''mutation_kind'', JStr (mc_mutation_kind c)), (''evaluation_refs'', json_texts (mc_evaluation_refs c))]"

definition reverted_json :: "string \<Rightarrow> string \<Rightarrow> string \<Rightarrow> json" where
  "reverted_json mutation_id target reason = jobj [(''mutation_id'', JStr mutation_id), (''target_version'', JStr target),
     (''rollback_reason'', JStr reason)]"

definition denied_json :: "string \<Rightarrow> string \<Rightarrow> string \<Rightarrow> string \<Rightarrow> json" where
  "denied_json mutation_id reason failed_step subject = jobj [(''mutation_id'', JStr mutation_id), (''denial_reason'', JStr reason),
     (''failed_step'', JStr failed_step), (''subject_ref'', JStr subject)]"

section \<open>The governor\<close>

record governor =
  go_evaluator :: evaluator
  go_whitelist :: "string list"
  go_approval :: "(tool_metadata \<Rightarrow> tool_call_context \<Rightarrow> tool_preview \<Rightarrow> bool res) option"
  go_regression :: "(mutation_context \<Rightarrow> bool res) option"

definition new_governor :: "evaluator option \<Rightarrow> string list \<Rightarrow> bool \<Rightarrow>
    (tool_metadata \<Rightarrow> tool_call_context \<Rightarrow> tool_preview \<Rightarrow> bool res) option \<Rightarrow> (mutation_context \<Rightarrow> bool res) option \<Rightarrow> governor res" where
  "new_governor ev whitelist has_bus approval regression = (case ev of
       None \<Rightarrow> Inl (Invalid_argument (''MutationGovernor requires non-null IEvaluator (ADR-0083 '' @
           [CHR 0xE7, CHR 0xA1, CHR 0xAC, CHR 0xE5, CHR 0x89, CHR 0x8D, CHR 0xE7, CHR 0xBD, CHR 0xAE] @ '')''))
     | Some f \<Rightarrow> if \<not> has_bus then Inl (Invalid_argument (''MutationGovernor requires non-null IInteractionBus ('' @
           [CHR 0xE5, CHR 0xAE, CHR 0xA1, CHR 0xE8, CHR 0xAE, CHR 0xA1, CHR 0xE5, CHR 0xBC, CHR 0xBA, CHR 0xE5, CHR 0x88, CHR 0xB6] @ '')''))
         else Inr \<lparr> go_evaluator = f, go_whitelist = whitelist, go_approval = approval, go_regression = regression \<rparr>)"

definition make_review_meta :: "mutation_context \<Rightarrow> tool_metadata" where
  "make_review_meta c = \<lparr> md_name = ''mutation::'' @ mc_mutation_kind c, md_description = ''mutation governance approval'',
     md_domain = ''mutation'', md_category = StateModify, md_min_layer = Workflow, md_approval = default_approval_policy,
     md_allowed_layers = [], md_cost_estimate = 0, md_timeout_ms = 30000, md_input_schema = None, md_output_schema = None,
     md_validation_mode = Strict \<rparr>"

definition make_review_call_ctx :: "mutation_context \<Rightarrow> tool_call_context" where
  "make_review_call_ctx c = \<lparr> cx_session_id = [], cx_caller_layer = ''mutation_governor'', cx_target_path = mc_subject_ref c,
     cx_is_in_fleet_mode = False, cx_call_count = 0, cx_trace_id = mc_mutation_id c \<rparr>"

definition make_review_preview :: "mutation_context \<Rightarrow> tool_preview" where
  "make_review_preview c = \<lparr> pv_command_line = ''mutation::propose '' @ mc_mutation_kind c @ '' '' @ mc_subject_ref c,
     pv_diff_text = [], pv_affected_paths = [], pv_estimated_sec = 0, pv_risk_summary = ''L3 skill mutation requires human review'',
     pv_metadata_json = [] \<rparr>"

definition source_allowed :: "governor \<Rightarrow> string \<Rightarrow> bool" where
  "source_allowed g s \<longleftrightarrow> s \<noteq> [] \<and> s \<in> set (go_whitelist g)"

definition mutation_event :: "string \<Rightarrow> json \<Rightarrow> mutation_context \<Rightarrow> event_builder" where
  "mutation_event topic payload c = eb_meta (jobj [(''trace_id'', JStr (mc_mutation_id c))]) (eb_args payload (eb_new topic))"

definition mutation_denied_event :: "mutation_context \<Rightarrow> string \<Rightarrow> string \<Rightarrow> event_builder" where
  "mutation_denied_event c reason failed_step = eb_meta (jobj [(''trace_id'', JStr (mc_mutation_id c))])
     (eb_ok False (eb_args (denied_json (mc_mutation_id c) reason failed_step (mc_subject_ref c)) (eb_new ''mutation.denied'')))"

type_synonym 'a governed = "'a res \<times> event_builder list"

definition deny :: "mutation_context \<Rightarrow> string \<Rightarrow> string \<Rightarrow> mutation_decision governed" where
  "deny c reason failed_step = (Inr \<lparr> dc_approved = False, dc_denial_reason = reason, dc_failed_step = failed_step \<rparr>,
     [mutation_denied_event c reason failed_step])"

definition proposal_trace :: "mutation_context \<Rightarrow> execution_trace" where
  "proposal_trace c = empty_trace \<lparr> et_final_result := tr_success (JStr (mc_proposed_change c)) jempty, et_trace_id := mc_mutation_id c \<rparr>"

text \<open>The evaluation gate and the regression gate, then the event of an accepted proposal.\<close>

definition evaluation_gates :: "governor \<Rightarrow> mutation_context \<Rightarrow> mutation_decision governed" where
  "evaluation_gates g c = (case go_evaluator g (proposal_trace c) of
       Inl e \<Rightarrow> (Inl e, [])
     | Inr r \<Rightarrow> if rw_quality r = Poor then deny c ''evaluation_poor_quality'' ''evaluation''
         else case (case go_regression g of None \<Rightarrow> Inr True | Some f \<Rightarrow> f c) of
             Inl e \<Rightarrow> (Inl e, [])
           | Inr ok \<Rightarrow> if \<not> ok then deny c ''behavioral_regression_failed'' ''behavioral_regression''
               else (Inr approved_decision, [mutation_event ''mutation.proposed'' (proposed_json c) c]))"

definition propose :: "governor \<Rightarrow> mutation_context \<Rightarrow> mutation_decision governed" where
  "propose g c =
     (if \<not> source_allowed g (mc_source_id c) then deny c ''non_whitelisted_source'' ''source_whitelist''
      else if mc_mutation_kind c = ''L4_weight''
      then (Inl (Runtime_error ''L4 weight mutation forbidden in V1 (ADR-0084)''), snd (deny c ''l4_forbidden_v1'' ''authorization''))
      else if mc_mutation_kind c = ''L1_prompt'' then evaluation_gates g c
      else if mc_mutation_kind c = ''L2_dsl''
      then (if mc_mode c = Mutation_yolo then deny c ''plan_required'' ''authorization'' else evaluation_gates g c)
      else if mc_mutation_kind c = ''L3_skill''
      then (if mc_mode c = Mutation_yolo then deny c ''plan_required'' ''authorization''
            else if mc_mode c = Mutation_plan then deny c ''plan_insufficient'' ''authorization''
            else case go_approval g of
                None \<Rightarrow> deny c ''approval_handler_unavailable'' ''human_review''
              | Some f \<Rightarrow> (case f (make_review_meta c) (make_review_call_ctx c) (make_review_preview c) of
                    Inl e \<Rightarrow> (Inl e, [])
                  | Inr ok \<Rightarrow> if \<not> ok then deny c ''approval_denied'' ''human_review'' else evaluation_gates g c))
      else deny c ''unknown_mutation_kind'' ''authorization'')"

definition commit_mutation :: "governor \<Rightarrow> mutation_context \<Rightarrow> mutation_decision governed" where
  "commit_mutation g c =
     (if \<not> source_allowed g (mc_source_id c) then deny c ''non_whitelisted_source'' ''source_whitelist''
      else if mc_evaluation_refs c = [] then deny c ''missing_evaluation_refs'' ''evaluation''
      else (Inr approved_decision, [mutation_event ''mutation.committed'' (committed_json c) c]))"

definition revert_mutation :: "governor \<Rightarrow> mutation_context \<Rightarrow> string \<Rightarrow> string \<Rightarrow> event_builder list" where
  "revert_mutation g c target reason =
     (if \<not> source_allowed g (mc_source_id c) then snd (deny c ''non_whitelisted_source'' ''source_whitelist'')
      else [mutation_event ''mutation.reverted'' (reverted_json (mc_mutation_id c) target reason) c])"

section \<open>What the gates decide\<close>

text \<open>The contract: source, authority of the level in the mode (with a human for a skill), evaluation and regression.\<close>

definition human_agrees :: "governor \<Rightarrow> mutation_context \<Rightarrow> bool" where
  "human_agrees g c \<longleftrightarrow> (case go_approval g of None \<Rightarrow> False
     | Some f \<Rightarrow> f (make_review_meta c) (make_review_call_ctx c) (make_review_preview c) = Inr True)"

definition authorized :: "governor \<Rightarrow> mutation_context \<Rightarrow> bool" where
  "authorized g c \<longleftrightarrow> mc_mutation_kind c = ''L1_prompt'' \<or> mc_mutation_kind c = ''L2_dsl'' \<and> mc_mode c \<noteq> Mutation_yolo \<or>
     mc_mutation_kind c = ''L3_skill'' \<and> mc_mode c = Mutation_agent \<and> human_agrees g c"

definition evaluated_well :: "governor \<Rightarrow> mutation_context \<Rightarrow> bool" where
  "evaluated_well g c \<longleftrightarrow> (case go_evaluator g (proposal_trace c) of Inl _ \<Rightarrow> False | Inr r \<Rightarrow> rw_quality r \<noteq> Poor)"

definition regression_passes :: "governor \<Rightarrow> mutation_context \<Rightarrow> bool" where
  "regression_passes g c \<longleftrightarrow> (case go_regression g of None \<Rightarrow> True | Some f \<Rightarrow> f c = Inr True)"

definition cleared :: "governor \<Rightarrow> mutation_context \<Rightarrow> bool" where
  "cleared g c \<longleftrightarrow> source_allowed g (mc_source_id c) \<and> authorized g c \<and> evaluated_well g c \<and> regression_passes g c"

text \<open>Some gate the attempt reaches throws.\<close>

definition gate_throws :: "governor \<Rightarrow> mutation_context \<Rightarrow> exc \<Rightarrow> bool" where
  "gate_throws g c e \<longleftrightarrow> go_evaluator g (proposal_trace c) = Inl e \<or> (case go_regression g of None \<Rightarrow> False | Some f \<Rightarrow> f c = Inl e) \<or>
     (case go_approval g of None \<Rightarrow> False | Some f \<Rightarrow> f (make_review_meta c) (make_review_call_ctx c) (make_review_preview c) = Inl e)"

lemmas gate_defs = human_agrees_def authorized_def evaluated_well_def regression_passes_def cleared_def gate_throws_def

text \<open>A verdict with its one event: the form every decision of the governor has.\<close>

definition decided :: "mutation_context \<Rightarrow> event_builder \<Rightarrow> bool \<Rightarrow> mutation_decision governed \<Rightarrow> bool" where
  "decided c accepted ok r \<longleftrightarrow> (if ok then r = (Inr approved_decision, [accepted])
     else \<exists>reason failed_step. reason \<noteq> [] \<and> failed_step \<noteq> [] \<and>
       r = (Inr \<lparr> dc_approved = False, dc_denial_reason = reason, dc_failed_step = failed_step \<rparr>, [mutation_denied_event c reason failed_step]))"

lemma decided_deny [intro]: "reason \<noteq> [] \<Longrightarrow> failed_step \<noteq> [] \<Longrightarrow> decided c a False (deny c reason failed_step)"
  by (simp add: decided_def deny_def)

lemma decided_approved [intro]: "decided c a True (Inr approved_decision, [a])"
  by (simp add: decided_def)

definition proposed_event :: "mutation_context \<Rightarrow> event_builder" where
  "proposed_event c = mutation_event ''mutation.proposed'' (proposed_json c) c"

lemma evaluation_gates_decided:
  "(\<exists>e. evaluation_gates g c = (Inl e, []) \<and> gate_throws g c e) \<or>
   decided c (proposed_event c) (evaluated_well g c \<and> regression_passes g c) (evaluation_gates g c)"
proof (cases "go_evaluator g (proposal_trace c)")
  case (Inr r)
  consider "rw_quality r = Poor" | e f where "rw_quality r \<noteq> Poor" "go_regression g = Some f" "f c = Inl e"
    | f where "rw_quality r \<noteq> Poor" "go_regression g = Some f" "f c = Inr False" | "rw_quality r \<noteq> Poor" "regression_passes g c"
  proof (cases "go_regression g")
    case (Some f)
    then show ?thesis using that by (cases "f c"; cases "projr (f c)") (auto simp: regression_passes_def)
  qed (auto simp: regression_passes_def)
  then show ?thesis
  proof cases
    case 1
    then show ?thesis using Inr by (auto simp: evaluation_gates_def evaluated_well_def)
  next
    case 4
    then have "evaluation_gates g c = (Inr approved_decision, [proposed_event c])" using Inr
      by (simp add: evaluation_gates_def regression_passes_def proposed_event_def split: option.splits)
    then show ?thesis using 4 Inr decided_approved by (simp add: evaluated_well_def)
  qed (use Inr in \<open>auto simp: evaluation_gates_def gate_defs\<close>)
qed (simp add: evaluation_gates_def gate_defs)

lemma propose_cases:
  "(\<exists>e. propose g c = (Inl e, []) \<and> gate_throws g c e) \<or>
   mc_mutation_kind c = ''L4_weight'' \<and> source_allowed g (mc_source_id c) \<and>
     propose g c = (Inl (Runtime_error ''L4 weight mutation forbidden in V1 (ADR-0084)''), [mutation_denied_event c ''l4_forbidden_v1'' ''authorization'']) \<or>
   decided c (proposed_event c) (cleared g c) (propose g c)"
proof (cases "source_allowed g (mc_source_id c)")
  case allowed: True
  show ?thesis
  proof (cases "mc_mutation_kind c = ''L4_weight''")
    case True
    then show ?thesis using allowed by (simp add: propose_def deny_def)
  next
    case no_weight: False
    show ?thesis
    proof (cases "authorized g c")
      case True
      then have "propose g c = evaluation_gates g c" using allowed no_weight
        by (auto simp: propose_def authorized_def human_agrees_def split: option.splits)
      then show ?thesis using evaluation_gates_decided[of g c] allowed True by (auto simp: cleared_def)
    next
      case False
      consider e f where "mc_mutation_kind c = ''L3_skill''" "mc_mode c = Mutation_agent" "go_approval g = Some f"
          "f (make_review_meta c) (make_review_call_ctx c) (make_review_preview c) = Inl e"
        | "\<exists>reason failed_step. propose g c = deny c reason failed_step \<and> reason \<noteq> [] \<and> failed_step \<noteq> []"
      proof (cases "mc_mutation_kind c = ''L3_skill'' \<and> mc_mode c = Mutation_agent \<and> go_approval g \<noteq> None")
        case True
        then obtain f where f: "go_approval g = Some f" by auto
        then show ?thesis using that allowed False True
          by (cases "f (make_review_meta c) (make_review_call_ctx c) (make_review_preview c)")
            (auto simp: propose_def authorized_def human_agrees_def)
      next
        case other: False
        have "\<exists>reason failed_step. propose g c = deny c reason failed_step \<and> reason \<noteq> [] \<and> failed_step \<noteq> []"
          using False other allowed no_weight by (cases "mc_mode c") (auto simp: propose_def authorized_def)
        then show ?thesis by (rule that(2))
      qed
      then show ?thesis
      proof cases
        case 1
        then show ?thesis using allowed by (simp add: propose_def gate_throws_def)
      next
        case 2
        then show ?thesis using False decided_deny by (auto simp: cleared_def)
      qed
    qed
  qed
next
  case False
  then show ?thesis using decided_deny by (simp add: propose_def cleared_def)
qed

text \<open>C32. A proposal is approved exactly when its source is on the list, its level is allowed in its mode (a skill only by a
  human), the evaluation is not poor and the regression gate passes.  It puts exactly one event on the bus: the
  proposal when approved, otherwise the denial with the reason that is returned.  Exceptions are the one of a weight
  mutation, behind its denial, and those of a gate, which leave no event.\<close>

theorem propose_decided:
  "(\<exists>e. propose g c = (Inl e, []) \<and> gate_throws g c e) \<or>
   mc_mutation_kind c = ''L4_weight'' \<and> source_allowed g (mc_source_id c) \<and>
     propose g c = (Inl (Runtime_error ''L4 weight mutation forbidden in V1 (ADR-0084)''), [mutation_denied_event c ''l4_forbidden_v1'' ''authorization'']) \<or>
   decided c (proposed_event c) (cleared g c) (propose g c)"
  by (rule propose_cases)

text \<open>A commit does not ask what was proposed: with a listed source and any evaluation reference, a mutation that
  \<open>propose\<close> refuses (a weight mutation, which it forbids, or one whose evaluation is poor) is committed and
  announced.\<close>

theorem commit_ignores_proposal:
  assumes "source_allowed g (mc_source_id c)" "mc_evaluation_refs c \<noteq> []" "\<not> cleared g c"
  shows "fst (propose g c) \<noteq> Inr approved_decision"
    "commit_mutation g c = (Inr approved_decision, [mutation_event ''mutation.committed'' (committed_json c) c])"
proof -
  show "commit_mutation g c = (Inr approved_decision, [mutation_event ''mutation.committed'' (committed_json c) c])"
    using assms by (simp add: commit_mutation_def)
  have d: "decided c (proposed_event c) False r \<Longrightarrow> fst r \<noteq> Inr approved_decision" for r
    by (auto simp: decided_def approved_decision_def)
  show "fst (propose g c) \<noteq> Inr approved_decision" using propose_cases[of g c] assms(3) d[of "propose g c"] by auto
qed

definition weight_mutation :: mutation_context where
  "weight_mutation = default_mutation \<lparr> mc_source_id := ''r'', mc_mutation_kind := ''L4_weight'', mc_evaluation_refs := [''e''] \<rparr>"

definition strict_governor :: governor where
  "strict_governor = \<lparr> go_evaluator = (\<lambda>_. reward_poor f64_one), go_whitelist = [''r''], go_approval = None, go_regression = None \<rparr>"

lemma commit_ignores_proposal_witness:
  "fst (propose strict_governor weight_mutation) \<noteq> Inr approved_decision \<and> dc_approved (projr (fst (commit_mutation strict_governor weight_mutation)))"
proof -
  have h: "source_allowed strict_governor (mc_source_id weight_mutation)" "mc_evaluation_refs weight_mutation \<noteq> []"
    "\<not> cleared strict_governor weight_mutation"
    by (simp_all add: source_allowed_def strict_governor_def weight_mutation_def default_mutation_def cleared_def authorized_def)
  show ?thesis using commit_ignores_proposal[OF h] by (simp add: approved_decision_def)
qed

section \<open>The human review\<close>

text \<open>C33. The review of a skill is a request to the approval handler, whose policy decides who is asked: nobody in Yolo mode,
  where the review passes by itself, nobody in Plan mode, where it always fails; in Agent mode the callback, with
  the request of the review, and its absence is a refusal.\<close>

theorem human_review_by_policy:
  assumes "source_allowed g (mc_source_id c)" "mc_mutation_kind c = ''L3_skill''" "mc_mode c = Mutation_agent"
    "go_approval g = Some (\<lambda>m x p. Inr (process_request (Some (policy_create mode)) callback timeout now fresh_id m x p))"
  shows "propose g c = (case mode of
      Yolo \<Rightarrow> evaluation_gates g c
    | Plan \<Rightarrow> deny c ''approval_denied'' ''human_review''
    | Agent \<Rightarrow> (case callback of
          None \<Rightarrow> deny c ''approval_denied'' ''human_review''
        | Some f \<Rightarrow> if f (mk_request (make_review_meta c) (make_review_call_ctx c) (make_review_preview c) fresh_id now) timeout
            then evaluation_gates g c else deny c ''approval_denied'' ''human_review''))"
  using assms
  by (cases mode; cases callback)
    (simp_all add: propose_def process_request_def plan_should_execute_def agent_should_execute_def agent_can_skip_def
      agent_requires_approval_def yolo_should_execute_def yolo_can_skip_def yolo_requires_approval_def forced_def
      make_review_meta_def make_review_call_ctx_def approval_request_id_def default_approval_policy_def)

definition yolo_governor :: governor where
  "yolo_governor = \<lparr> go_evaluator = (\<lambda>_. reward_acceptable f64_one), go_whitelist = [''r''],
     go_approval = Some (\<lambda>m x p. Inr (process_request (Some (policy_create Yolo)) None 0 0 [] m x p)), go_regression = None \<rparr>"

definition skill_mutation :: mutation_context where
  "skill_mutation = default_mutation \<lparr> mc_source_id := ''r'', mc_mutation_kind := ''L3_skill'' \<rparr>"

lemma human_review_by_policy_witness: "dc_approved (projr (fst (propose yolo_governor skill_mutation)))"
proof -
  have h: "source_allowed yolo_governor (mc_source_id skill_mutation)" "mc_mutation_kind skill_mutation = ''L3_skill''"
    "mc_mode skill_mutation = Mutation_agent"
    "go_approval yolo_governor = Some (\<lambda>m x p. Inr (process_request (Some (policy_create Yolo)) None 0 0 [] m x p))"
    by (simp_all add: source_allowed_def yolo_governor_def skill_mutation_def default_mutation_def)
  have "valid_confidence f64_one" by code_simp
  then show ?thesis unfolding human_review_by_policy[OF h]
    by (simp add: evaluation_gates_def yolo_governor_def reward_acceptable_def reward_of_def approved_decision_def)
qed

end
