(* ===== verification/Evolution.thy ===== *)
theory Evolution
  imports Governance Genome_Lineage Tools Budget
begin

text \<open>
  Self-improvement of an agent's harness: agenticdsl/evolution/transition_guard.h, harness_rsi.h,
  agenticdsl/types/attribution_record.h, evolution/harness_rsi.cpp and version_pair_diff.cpp.  Prompt, tools, tool registry
  and genome files are the state; events are kept in the order they are put on the bus.  The evaluator is a function,
  the two clock readings of the budget test and the subtraction of doubles are parameters.
\<close>

section \<open>Attribution\<close>

datatype control_status = Controlled | Uncontrolled

record harness_change_record =
  hc_source_id :: string
  hc_control_status :: control_status
  hc_detection_method :: string
  hc_evidence_refs :: string

datatype attribution_method = DirectComparison | StatisticalTest | CounterfactualAnalysis | ExpertJudgment

datatype attribution_verdict = NotAttempted | Attributed | Confounded | Insufficient

datatype confounder_kind = TaskDifficulty | Environment | Opponent | EvaluatorDrift | ResourceChange | HarnessChange

record confounder_record =
  cf_kind :: confounder_kind
  cf_description :: string
  cf_magnitude :: "64 word option"
  cf_harness_change :: "harness_change_record option"

record version_snapshot =
  vs_name :: string
  vs_version :: "64 word"
  vs_sample_count :: "32 word"
  vs_cost_per_eval :: "64 word"

record attribution_record =
  ar_child_version :: string
  ar_parent_version :: string
  ar_eval_delta :: "64 word"
  ar_method :: attribution_method
  ar_verdict :: attribution_verdict
  ar_reason :: string
  ar_confounders :: "confounder_record list"

definition kMinBaselineSamples :: "32 word" where
  "kMinBaselineSamples = 5"

definition compare_versions :: "(64 word \<Rightarrow> 64 word \<Rightarrow> 64 word) \<Rightarrow> version_snapshot \<Rightarrow> version_snapshot \<Rightarrow> confounder_record list \<Rightarrow>
    attribution_record" where
  "compare_versions minus_f64 child parent confounders =
     (let rec = \<lparr> ar_child_version = genome_ref (vs_name child) (vs_version child),
            ar_parent_version = genome_ref (vs_name parent) (vs_version parent), ar_eval_delta = f64_zero,
            ar_method = DirectComparison, ar_verdict = NotAttempted, ar_reason = [], ar_confounders = confounders \<rparr>
      in if vs_sample_count parent < kMinBaselineSamples
         then rec \<lparr> ar_verdict := Insufficient, ar_reason := ''baseline sample_count '' @ nat_str (unat (vs_sample_count parent)) @
              '' < kMinBaselineSamples (5); single baseline cannot estimate stddev'' \<rparr>
         else rec \<lparr> ar_eval_delta := minus_f64 (vs_cost_per_eval child) (vs_cost_per_eval parent),
              ar_verdict := (if confounders = [] then Attributed else Confounded),
              ar_reason := (if confounders = [] then ''baseline comparison'' else ''confounders detected'') \<rparr>)"

type_synonym genome_version = "string \<times> 64 word"

fun data_index :: "genome_version \<Rightarrow> genome list \<Rightarrow> nat option" where
  "data_index v [] = None"
| "data_index v (g # gs) = (if (gm_name (ge_metadata g), gm_version (ge_metadata g)) = v then Some 0
     else map_option Suc (data_index v gs))"

text \<open>The walk is the registry's answer for a name and a version.\<close>

definition judge_data_freshness :: "genome_version \<Rightarrow> genome_version \<Rightarrow> (string \<Rightarrow> 64 word \<Rightarrow> genome_error + lineage_walk) \<Rightarrow>
    attribution_verdict" where
  "judge_data_freshness v current walk =
     (if fst v = fst current \<and> snd v = snd current then Attributed
      else if fst v \<noteq> fst current then Confounded
      else case walk (fst current) (snd current) of
        Inl _ \<Rightarrow> Insufficient
      | Inr w \<Rightarrow> (case data_index v (snd w) of
            None \<Rightarrow> Confounded
          | Some i \<Rightarrow> if \<exists>j \<in> set [0..<i]. gs_harness (ge_spec (snd w ! j)) \<noteq> gs_harness (ge_spec (snd w ! i)) then Confounded
              else Attributed))"

section \<open>The transition guard\<close>

datatype evolution_state = Ev_idle | Ev_harness | Ev_data | Ev_model | Ev_done

definition all_states :: "evolution_state list" where
  "all_states = [Ev_idle, Ev_harness, Ev_data, Ev_model, Ev_done]"

primrec state_number :: "evolution_state \<Rightarrow> nat" where
  "state_number Ev_idle = 0" | "state_number Ev_harness = 1" | "state_number Ev_data = 2"
| "state_number Ev_model = 3" | "state_number Ev_done = 4"

definition kTransitionMatrix :: "bool list list" where
  "kTransitionMatrix = [
     [False, True, False, False, False],
     [False, False, True, False, False],
     [False, False, False, True, False],
     [False, False, False, False, True],
     [True, False, False, False, False]]"

definition can_transition :: "evolution_state \<Rightarrow> evolution_state \<Rightarrow> bool" where
  "can_transition from to = kTransitionMatrix ! state_number from ! state_number to"

record evolution_verdict =
  ev_can_proceed :: bool
  ev_recommended_next :: evolution_state
  ev_reason :: string
  ev_failed_conditions :: "string list"
  ev_reward_quality :: reward_quality

definition evaluate_readiness :: "evolution_state \<Rightarrow> attribution_record \<Rightarrow> evaluator \<Rightarrow> int \<Rightarrow> budget_controller \<Rightarrow> evolution_verdict res" where
  "evaluate_readiness current a ev now b = ebind (ev empty_trace) (\<lambda>r.
     let failed = (if ar_verdict a \<noteq> Attributed then [''attribution_insufficient''] else []) @
           (if rw_quality r = Poor \<or> f64_less (rw_scalar r) f64_zero then [''regression_failed''] else []) @
           (if bc_exceeded now b then [''budget_exhausted''] else [])
     in Inr \<lparr> ev_can_proceed = (failed = []),
          ev_recommended_next = (case find (can_transition current) all_states of None \<Rightarrow> Ev_idle | Some s \<Rightarrow> s),
          ev_reason = (if failed \<noteq> [] then ''One or more readiness conditions failed (see failed_conditions)'' else []),
          ev_failed_conditions = failed, ev_reward_quality = rw_quality r \<rparr>)"

definition reset_to_idle :: "evolution_state \<Rightarrow> evolution_state" where
  "reset_to_idle s = (if s = Ev_done then Ev_idle else s)"

section \<open>Applying a mutation\<close>

record genome_mutations =
  mu_prompt_delta :: string
  mu_tools_add :: "string list"
  mu_tools_remove :: "string list"
  mu_workflow_patch :: "string option"

datatype mutation_error = NotReady | GovernanceDenied | UnsupportedVariant | RegistryRejected | InvalidMutation

record gate_context =
  gc_current :: evolution_state
  gc_attribution :: "attribution_record option"
  gc_evaluator :: "evaluator option"
  gc_budget :: "budget_controller option"
  gc_bus :: bool
  gc_denied_tools :: "string list"
  gc_trace_id :: string
  gc_registry :: "genome_env option"
  gc_genome_name :: string
  gc_parent_version :: "64 word"

record applied_mutation =
  am_prompts :: "string list"
  am_tools_added :: "string list"
  am_tools_removed :: "string list"
  am_genome_version :: "64 word"
  am_prompt_snapshot :: string
  am_tools_snapshot :: "string list"

record harness =
  ha_prompt :: string
  ha_tools :: "string list"
  ha_registry :: tool_registry
  ha_genomes :: genome_store
  ha_events :: "event_builder list"

definition is_tool_allowed :: "string \<Rightarrow> gate_context \<Rightarrow> bool" where
  "is_tool_allowed t x \<longleftrightarrow> t \<notin> set (gc_denied_tools x)"

definition genome_error_name :: "genome_error \<Rightarrow> string" where
  "genome_error_name e = (case e of NotFound \<Rightarrow> ''NotFound'' | SchemaViolation \<Rightarrow> ''SchemaViolation''
     | IntegrityViolation \<Rightarrow> ''IntegrityViolation'' | BrokenLineage \<Rightarrow> ''BrokenLineage'' | CycleDetected \<Rightarrow> ''CycleDetected''
     | IOError \<Rightarrow> ''IOError'' | NotImplemented \<Rightarrow> ''NotImplemented'')"

definition attribution_verdict_name :: "attribution_verdict \<Rightarrow> string" where
  "attribution_verdict_name v = (case v of NotAttempted \<Rightarrow> ''NotAttempted'' | Attributed \<Rightarrow> ''Attributed''
     | Confounded \<Rightarrow> ''Confounded'' | Insufficient \<Rightarrow> ''Insufficient'')"

definition evolution_state_name :: "evolution_state \<Rightarrow> string" where
  "evolution_state_name s = (case s of Ev_idle \<Rightarrow> ''Idle'' | Ev_harness \<Rightarrow> ''Harness'' | Ev_data \<Rightarrow> ''Data''
     | Ev_model \<Rightarrow> ''Model'' | Ev_done \<Rightarrow> ''Done'')"

definition harness_emit :: "gate_context \<Rightarrow> event_builder \<Rightarrow> harness \<Rightarrow> harness" where
  "harness_emit x e h = (if gc_bus x then h \<lparr> ha_events := ha_events h @ [e] \<rparr> else h)"

definition readiness_denied_event :: "gate_context \<Rightarrow> evolution_verdict \<Rightarrow> attribution_record \<Rightarrow> bool \<Rightarrow> event_builder" where
  "readiness_denied_event x v a over = eb_meta (jobj [(''trace_id'', JStr (gc_trace_id x)),
       (''current_state'', JStr (evolution_state_name (gc_current x)))])
     (eb_args (jobj [(''failed_conditions'', json_texts (ev_failed_conditions v)),
          (''attribution_verdict'', JStr (attribution_verdict_name (ar_verdict a))),
          (''eval_quality'', JStr (quality_name (ev_reward_quality v))),
          (''budget_state'', JStr (if over then ''exceeded'' else ''ok''))])
       (eb_new ''evolution.readiness.denied''))"

definition trace_meta :: "gate_context \<Rightarrow> event_builder \<Rightarrow> event_builder" where
  "trace_meta x = eb_meta (jobj [(''trace_id'', JStr (gc_trace_id x))])"

definition persist_failed_event :: "gate_context \<Rightarrow> genome_error \<Rightarrow> event_builder" where
  "persist_failed_event x e = trace_meta x (eb_args (jobj [(''genome_name'', JStr (gc_genome_name x)),
     (''error'', JStr (genome_error_name e))]) (eb_new ''genome.persist_failed''))"

definition genome_committed_event :: "gate_context \<Rightarrow> 64 word \<Rightarrow> event_builder" where
  "genome_committed_event x v = trace_meta x (eb_args (jobj [(''genome_name'', JStr (gc_genome_name x)),
     (''version'', JInt (uint v)), (''parent'', JInt (uint (gc_parent_version x))), (''mutation_kind'', JStr ''harness'')])
     (eb_new ''genome.committed''))"

text \<open>The gates before anything is written; \<open>t1\<close> and \<open>t2\<close> are the clock readings of the two budget tests.\<close>

definition invalid_mutation :: "genome_mutations \<Rightarrow> bool" where
  "invalid_mutation m \<longleftrightarrow> mu_prompt_delta m = [] \<and> mu_tools_add m = [] \<and> mu_tools_remove m = [] \<and> mu_workflow_patch m = None \<or>
     (\<exists>a \<in> set (mu_tools_add m). \<exists>r \<in> set (mu_tools_remove m). a = r)"

definition harness_gates :: "int \<Rightarrow> int \<Rightarrow> genome_mutations \<Rightarrow> gate_context \<Rightarrow> (mutation_error option, harness) act" where
  "harness_gates t1 t2 m x h =
     (if invalid_mutation m then (Inr (Some InvalidMutation), h)
      else if mu_workflow_patch m \<noteq> None then (Inr (Some UnsupportedVariant), h)
      else if gc_registry x \<noteq> None \<and> gc_genome_name x = [] then (Inr (Some InvalidMutation), h)
      else if gc_registry x \<noteq> None \<and> gc_parent_version x = 0 then (Inr (Some InvalidMutation), h)
      else case (gc_attribution x, gc_evaluator x, gc_budget x) of
        (Some a, Some ev, Some b) \<Rightarrow> (case evaluate_readiness (gc_current x) a ev t1 b of
            Inl e \<Rightarrow> (Inl e, h)
          | Inr v \<Rightarrow>
              if \<not> ev_can_proceed v then (Inr (Some NotReady), harness_emit x (readiness_denied_event x v a (bc_exceeded t2 b)) h)
              else if \<not> list_all (\<lambda>t. is_tool_allowed t x) (mu_tools_add m @ mu_tools_remove m) then (Inr (Some GovernanceDenied), h)
              else if \<not> list_all (\<lambda>t. reg_has_tool t (ha_registry h)) (mu_tools_add m) then (Inr (Some RegistryRejected), h)
              else (Inr None, h))
      | _ \<Rightarrow> (Inr (Some InvalidMutation), h))"

text \<open>\<open>find\<close> and \<open>erase\<close>: the first occurrence of each tool.\<close>

definition final_tools :: "genome_mutations \<Rightarrow> string list \<Rightarrow> string list" where
  "final_tools m ts = fold remove1 (mu_tools_remove m) (ts @ mu_tools_add m)"

definition harness_spec :: "genome_mutations \<Rightarrow> harness \<Rightarrow> genome_spec" where
  "harness_spec m h = empty_spec \<lparr> gs_harness := ha_prompt h @ mu_prompt_delta m, gs_tools := final_tools m (ha_tools h) \<rparr>"

text \<open>The version published before anything is applied; without a registry there is none.\<close>

definition persist_harness :: "genome_mutations \<Rightarrow> gate_context \<Rightarrow> (mutation_error + 64 word, harness) act" where
  "persist_harness m x h = (case gc_registry x of
       None \<Rightarrow> (Inr (Inr 0), h)
     | Some env \<Rightarrow>
         if gs_tools (harness_spec m h) = [] then (Inr (Inl InvalidMutation), h)
         else case fork_genome env (gc_genome_name x) (gc_parent_version x) (harness_spec m h) (ha_genomes h) of
           (Inl e, gs) \<Rightarrow> (Inl e, h \<lparr> ha_genomes := gs \<rparr>)
         | (Inr (Inl e), gs) \<Rightarrow> (Inr (Inl RegistryRejected), harness_emit x (persist_failed_event x e) (h \<lparr> ha_genomes := gs \<rparr>))
         | (Inr (Inr v), gs) \<Rightarrow> (Inr (Inr v), harness_emit x (genome_committed_event x v) (h \<lparr> ha_genomes := gs \<rparr>)))"

definition remove_tool :: "string \<Rightarrow> harness \<Rightarrow> harness" where
  "remove_tool t h = h \<lparr> ha_registry := unregister_tool_function t (ha_registry h), ha_tools := remove1 t (ha_tools h) \<rparr>"

definition apply_delta :: "genome_mutations \<Rightarrow> harness \<Rightarrow> harness" where
  "apply_delta m h = fold remove_tool (mu_tools_remove m)
     (h \<lparr> ha_prompt := ha_prompt h @ mu_prompt_delta m, ha_tools := ha_tools h @ mu_tools_add m \<rparr>)"

definition applied_record :: "genome_mutations \<Rightarrow> 64 word \<Rightarrow> harness \<Rightarrow> applied_mutation" where
  "applied_record m v h = \<lparr> am_prompts = (if mu_prompt_delta m \<noteq> [] then [mu_prompt_delta m] else []),
     am_tools_added = mu_tools_add m, am_tools_removed = mu_tools_remove m, am_genome_version = v,
     am_prompt_snapshot = ha_prompt h, am_tools_snapshot = ha_tools h \<rparr>"

definition apply_harness_mutation :: "int \<Rightarrow> int \<Rightarrow> genome_mutations \<Rightarrow> gate_context \<Rightarrow> (mutation_error + applied_mutation, harness) act" where
  "apply_harness_mutation t1 t2 m x h = (case harness_gates t1 t2 m x h of
       (Inl e, h1) \<Rightarrow> (Inl e, h1)
     | (Inr (Some e), h1) \<Rightarrow> (Inr (Inl e), h1)
     | (Inr None, h1) \<Rightarrow> (case persist_harness m x h1 of
           (Inl e, h2) \<Rightarrow> (Inl e, h2)
         | (Inr (Inl e), h2) \<Rightarrow> (Inr (Inl e), h2)
         | (Inr (Inr v), h2) \<Rightarrow> (Inr (Inr (applied_record m v h1)), apply_delta m h2)))"

definition undo_applied_mutation :: "applied_mutation \<Rightarrow> harness \<Rightarrow> harness" where
  "undo_applied_mutation am h = h \<lparr> ha_prompt := am_prompt_snapshot am, ha_tools := am_tools_snapshot am \<rparr>"

section \<open>The transition guard is a cycle\<close>

lemma can_transition_cycle: "can_transition a b \<longleftrightarrow> state_number b = Suc (state_number a) mod 5"
  by (cases a; cases b) (simp_all add: can_transition_def kTransitionMatrix_def)

lemma recommended_state: "find (can_transition a) all_states = Some b \<longleftrightarrow> can_transition a b"
  "find (can_transition a) all_states \<noteq> None"
  by (cases a; cases b; simp add: all_states_def can_transition_def kTransitionMatrix_def)
    (cases a; simp add: all_states_def can_transition_def kTransitionMatrix_def)

text \<open>What readiness means: the three conditions together, all of them reported.\<close>

definition ready :: "attribution_record \<Rightarrow> reward_signal \<Rightarrow> int \<Rightarrow> budget_controller \<Rightarrow> bool" where
  "ready a r now b \<longleftrightarrow> ar_verdict a = Attributed \<and> rw_quality r \<noteq> Poor \<and> \<not> f64_less (rw_scalar r) f64_zero \<and> \<not> bc_exceeded now b"

lemma readiness_exact:
  "evaluate_readiness s a ev now b = Inr v \<longleftrightarrow> (\<exists>r. ev empty_trace = Inr r \<and> ev_can_proceed v = ready a r now b \<and>
     can_transition s (ev_recommended_next v) \<and> v = projr (evaluate_readiness s a ev now b))"
proof -
  obtain n where n: "can_transition s n" using recommended_state by blast
  then have "find (can_transition s) all_states = Some n" using recommended_state(1) by blast
  then show ?thesis using n by (auto simp: evaluate_readiness_def ebind_def Let_def ready_def split: sum.splits)
qed

section \<open>All or nothing\<close>

lemma harness_emit_simps [simp]:
  "ha_prompt (harness_emit x e h) = ha_prompt h" "ha_tools (harness_emit x e h) = ha_tools h"
  "ha_registry (harness_emit x e h) = ha_registry h" "ha_genomes (harness_emit x e h) = ha_genomes h"
  "ha_events (harness_emit x e h) = ha_events h @ (if gc_bus x then [e] else [])"
  by (simp_all add: harness_emit_def)

lemma fold_remove_tool:
  "fold remove_tool ts h = h \<lparr> ha_registry := fold unregister_tool_function ts (ha_registry h), ha_tools := fold remove1 ts (ha_tools h) \<rparr>"
  by (induction ts arbitrary: h) (simp_all add: remove_tool_def)

lemma apply_delta_eq:
  "apply_delta m h = h \<lparr> ha_prompt := ha_prompt h @ mu_prompt_delta m, ha_tools := final_tools m (ha_tools h),
     ha_registry := fold unregister_tool_function (mu_tools_remove m) (ha_registry h) \<rparr>"
  by (simp add: apply_delta_def fold_remove_tool final_tools_def)

lemma unregistered: "map_of (reg_tools (fold unregister_tool_function ts r)) t = (if t \<in> set ts then None else map_of (reg_tools r) t)"
  by (induction ts arbitrary: r) (auto simp: unregister_tool_function_def map_of_kv_del)

text \<open>The conditions under which a mutation may be applied.\<close>

definition may_apply :: "int \<Rightarrow> genome_mutations \<Rightarrow> gate_context \<Rightarrow> harness \<Rightarrow> bool" where
  "may_apply now m x h \<longleftrightarrow> \<not> invalid_mutation m \<and> mu_workflow_patch m = None \<and>
     (\<exists>a ev b r. gc_attribution x = Some a \<and> gc_evaluator x = Some ev \<and> gc_budget x = Some b \<and> ev empty_trace = Inr r \<and> ready a r now b) \<and>
     (\<forall>t \<in> set (mu_tools_add m) \<union> set (mu_tools_remove m). t \<notin> set (gc_denied_tools x)) \<and>
     (\<forall>t \<in> set (mu_tools_add m). reg_has_tool t (ha_registry h))"

lemma harness_gates_result:
  assumes "harness_gates t1 t2 m x h = (r, h')"
  shows "ha_prompt h' = ha_prompt h \<and> ha_tools h' = ha_tools h \<and> ha_registry h' = ha_registry h \<and> ha_genomes h' = ha_genomes h \<and>
    (\<exists>es. ha_events h' = ha_events h @ es \<and> length es \<le> 1) \<and> (r = Inr None \<longrightarrow> h' = h \<and> may_apply t1 m x h)"
proof (cases "\<exists>a ev b v. gc_attribution x = Some a \<and> gc_evaluator x = Some ev \<and> gc_budget x = Some b \<and>
    evaluate_readiness (gc_current x) a ev t1 b = Inr v")
  case True
  then obtain a ev b v where w: "gc_attribution x = Some a" "gc_evaluator x = Some ev" "gc_budget x = Some b"
    "evaluate_readiness (gc_current x) a ev t1 b = Inr v" by blast
  then obtain q where "ev empty_trace = Inr q" "ev_can_proceed v = ready a q t1 b" using readiness_exact by blast
  then show ?thesis using assms w
    by (auto simp: harness_gates_def may_apply_def is_tool_allowed_def list_all_iff split: if_splits)
next
  case False
  then show ?thesis using assms by (auto simp: harness_gates_def split: if_splits option.splits sum.splits)
qed

lemma persist_harness_result:
  assumes "persist_harness m x h = (r, h')"
  shows "ha_prompt h' = ha_prompt h \<and> ha_tools h' = ha_tools h \<and> ha_registry h' = ha_registry h \<and>
    (gc_registry x = None \<longrightarrow> h' = h) \<and> (\<exists>es. ha_events h' = ha_events h @ es \<and> length es \<le> 1)"
  using assms by (auto simp: persist_harness_def Let_def split: option.splits if_splits prod.splits sum.splits)

text \<open>C34. Applying a mutation is all or nothing.  Either every gate agreed, and then the prompt and the tools are exactly the
  old ones with the change, the removed tools are no longer registered, and undoing gives back prompt and tools but not the
  registrations; or an error or exception is returned and prompt, tools and tool registry are as before.  At most one event tells
  of it.\<close>

theorem harness_all_or_nothing:
  assumes "apply_harness_mutation t1 t2 m x h = (r, h')"
  shows "(case r of
      Inr (Inr am) \<Rightarrow> may_apply t1 m x h \<and> ha_prompt h' = ha_prompt h @ mu_prompt_delta m \<and>
        ha_tools h' = final_tools m (ha_tools h) \<and>
        (\<forall>t. map_of (reg_tools (ha_registry h')) t = (if t \<in> set (mu_tools_remove m) then None else map_of (reg_tools (ha_registry h)) t)) \<and>
        ha_prompt (undo_applied_mutation am h') = ha_prompt h \<and> ha_tools (undo_applied_mutation am h') = ha_tools h \<and>
        ha_registry (undo_applied_mutation am h') = ha_registry h'
    | _ \<Rightarrow> ha_prompt h' = ha_prompt h \<and> ha_tools h' = ha_tools h \<and> ha_registry h' = ha_registry h \<and>
        (gc_registry x = None \<longrightarrow> ha_genomes h' = ha_genomes h)) \<and>
    (\<exists>es. ha_events h' = ha_events h @ es \<and> length es \<le> 1)"
proof -
  obtain g h1 where g: "harness_gates t1 t2 m x h = (g, h1)" by fastforce
  note gates = harness_gates_result[OF g]
  show ?thesis
  proof (cases "g = Inr None")
    case False
    then have "h' = h1 \<and> (\<forall>am. r \<noteq> Inr (Inr am))" using assms g
      by (auto simp: apply_harness_mutation_def split: sum.splits option.splits)
    then show ?thesis using gates by (auto split: sum.split)
  next
    case True
    then have h1: "h1 = h" "may_apply t1 m x h" using gates by auto
    obtain p h2 where p: "persist_harness m x h = (p, h2)" by fastforce
    note persist = persist_harness_result[OF p]
    have "(\<exists>v. p = Inr (Inr v) \<and> r = Inr (Inr (applied_record m v h)) \<and> h' = apply_delta m h2) \<or> h' = h2 \<and> (\<forall>am. r \<noteq> Inr (Inr am))"
      using assms g p h1(1) True by (auto simp: apply_harness_mutation_def split: sum.splits)
    then show ?thesis using persist h1(2)
      by (elim disjE exE) (auto simp: apply_delta_eq unregistered undo_applied_mutation_def applied_record_def split: sum.split)
  qed
qed

section \<open>What is persisted\<close>

lemma persisted_fork:
  assumes "apply_harness_mutation t1 t2 m x h = (Inr (Inr am), h')" "gc_registry x = Some env"
  shows "fork_genome env (gc_genome_name x) (gc_parent_version x) (harness_spec m h) (ha_genomes h) =
      (Inr (Inr (am_genome_version am)), ha_genomes h')"
    "gs_tools (harness_spec m h) \<noteq> []" "ha_prompt h' = gs_harness (harness_spec m h)" "ha_tools h' = gs_tools (harness_spec m h)"
proof -
  obtain g h1 where g: "harness_gates t1 t2 m x h = (g, h1)" by fastforce
  then have "g = Inr None" using assms(1) by (auto simp: apply_harness_mutation_def split: sum.splits option.splits)
  moreover then have "h1 = h" using harness_gates_result[OF g] by simp
  ultimately obtain v h2 where "persist_harness m x h = (Inr (Inr v), h2)" "am = applied_record m v h" "h' = apply_delta m h2"
    using assms(1) g by (auto simp: apply_harness_mutation_def split: sum.splits prod.splits)
  moreover have "ha_prompt h2 = ha_prompt h \<and> ha_tools h2 = ha_tools h" using persist_harness_result calculation(1) by blast
  ultimately show "fork_genome env (gc_genome_name x) (gc_parent_version x) (harness_spec m h) (ha_genomes h) =
      (Inr (Inr (am_genome_version am)), ha_genomes h')"
    "gs_tools (harness_spec m h) \<noteq> []" "ha_prompt h' = gs_harness (harness_spec m h)" "ha_tools h' = gs_tools (harness_spec m h)"
    using assms(2) by (auto simp: persist_harness_def apply_delta_eq applied_record_def harness_spec_def
        split: if_splits sum.splits prod.splits)
qed

text \<open>C35. A mutation that is applied with a registry is persisted first: the version it reports loads to a genome forked from the
  version named in the context, whose tools are the tools now in use and whose harness is the prompt now in use, or, if that is
  empty, the harness of the parent.  This holds after any history of the registry and any failures of its disk, as long as
  directories can be opened for listing.\<close>

theorem persisted_is_applied:
  assumes "gv_key env = Some key" "key \<noteq> []" "yaml_codec env T" "speaks env T" "readable env" "Suc (length ops) < 2 ^ 64"
    "\<forall>op \<in> set ops. op_in T op" "fold (registry_do env) ops (new_registry root_dir faults, []) = (ha_genomes h, entries)"
    "gc_registry x = Some env" "op_in T (Fork (gc_genome_name x) (gc_parent_version x) (harness_spec m h))"
    "apply_harness_mutation t1 t2 m x h = (Inr (Inr am), h')"
  shows "\<exists>g parent. load_genome env (gc_genome_name x) (am_genome_version am) (ha_genomes h') = (Inr (Inr g), ha_genomes h') \<and>
    load_genome env (gc_genome_name x) (gc_parent_version x) (ha_genomes h) = (Inr (Inr parent), ha_genomes h) \<and>
    gs_tools (ge_spec g) = ha_tools h' \<and> gs_harness (ge_spec g) = (if ha_prompt h' = [] then gs_harness (ge_spec parent) else ha_prompt h') \<and>
    gm_parent (ge_metadata g) = genome_ref (gc_genome_name x) (gc_parent_version x)"
proof -
  have ok: "registry_ok env key T (length ops) (ha_genomes h) entries"
    using registry_run_ok[OF assms(1-4) new_registry_ok[OF assms(5)], of ops root_dir faults] assms(6-8) by simp
  note p = persisted_fork[OF assms(11,9)]
  obtain parent where l: "load_genome env (gc_genome_name x) (gc_parent_version x) (ha_genomes h) = (Inr (Inr parent), ha_genomes h)"
    and st: "stored env key T (ha_genomes h') (gc_genome_name x, am_genome_version am, with_version (am_genome_version am)
      (fork_child env (gc_genome_name x) (gc_parent_version x) (harness_spec m h) parent (gr_ticks (ha_genomes h))))"
    using fork_genome_effect[OF assms(1-4) ok assms(6,10) p(1)] by blast
  from stored_loads[OF assms(1-3) st] show ?thesis
    using l p(2-4) by (auto simp: fork_child_def deep_merge_spec_def)
qed

lemma freshness_of_parent:
  assumes "walk_ancestors env name v None t = Inr (v # vs, c # gs)" "gs = parent # gs'" "v \<noteq> pv"
    "gm_name (ge_metadata c) = name" "gm_version (ge_metadata c) = v"
    "gm_name (ge_metadata parent) = name" "gm_version (ge_metadata parent) = pv"
  shows "judge_data_freshness (name, pv) (name, v) (\<lambda>n w. walk_ancestors env n w None t) =
    (if gs_harness (ge_spec c) = gs_harness (ge_spec parent) then Attributed else Confounded)"
  using assms by (simp add: judge_data_freshness_def)

text \<open>Data an agent produced with the version that a mutation then forked is judged by the registry afterwards: if the lineage of
  that version can be walked (within one name), the data still counts when the mutation left the persisted harness as it was, and is
  confounded otherwise.\<close>

theorem mutation_confounds_old_data:
  assumes "gv_key env = Some key" "key \<noteq> []" "yaml_codec env T" "speaks env T" "readable env" "Suc (length ops) < 2 ^ 64"
    "\<forall>op \<in> set ops. op_in T op" "fold (registry_do env) ops (new_registry root_dir faults, []) = (ha_genomes h, entries)"
    "gc_registry x = Some env" "op_in T (Fork (gc_genome_name x) (gc_parent_version x) (harness_spec m h))"
    "apply_harness_mutation t1 t2 m x h = (Inr (Inr am), h')" "CHR 0x40 \<notin> set (gc_genome_name x)"
    "walk_ancestors env (gc_genome_name x) (gc_parent_version x) None (ha_genomes h) = Inr (vs, gs)"
    "load_genome env (gc_genome_name x) (gc_parent_version x) (ha_genomes h) = (Inr (Inr parent), s')"
  shows "judge_data_freshness (gc_genome_name x, gc_parent_version x) (gc_genome_name x, am_genome_version am)
      (\<lambda>n w. walk_ancestors env n w None (ha_genomes h')) =
    (if ha_prompt h' = [] \<or> ha_prompt h' = gs_harness (ge_spec parent) then Attributed else Confounded)"
proof -
  have ok: "registry_ok env key T (length ops) (ha_genomes h) entries"
    using registry_run_ok[OF assms(1-4) new_registry_ok[OF assms(5)], of ops root_dir faults] assms(6-8) by simp
  note p = persisted_fork[OF assms(11,9)]
  have name: "plain_name (gc_genome_name x)" using assms(10) by simp
  let ?c = "with_version (am_genome_version am)
      (fork_child env (gc_genome_name x) (gc_parent_version x) (harness_spec m h) parent (gr_ticks (ha_genomes h)))"
  have w: "walk_ancestors env (gc_genome_name x) (am_genome_version am) None (ha_genomes h') = Inr (am_genome_version am # vs, ?c # gs)"
    "am_genome_version am \<notin> set vs" "(gc_genome_name x, gc_parent_version x, parent) \<in> set entries"
    using fork_walk[OF assms(1-4) ok assms(6,10) p(1) assms(12,13)] assms(14) by auto
  obtain vs' gs' where hd: "vs = gc_parent_version x # vs'" "gs = parent # gs'" using walk_head[OF assms(13,14) name] by blast
  have "stored env key T (ha_genomes h) (gc_genome_name x, gc_parent_version x, parent)" using ok w(3) by (simp add: registry_ok_def)
  then have "gm_name (ge_metadata parent) = gc_genome_name x" "gm_version (ge_metadata parent) = gc_parent_version x"
    by (simp_all add: stored_def)
  then have "judge_data_freshness (gc_genome_name x, gc_parent_version x) (gc_genome_name x, am_genome_version am)
      (\<lambda>n w. walk_ancestors env n w None (ha_genomes h')) =
    (if gs_harness (ge_spec ?c) = gs_harness (ge_spec parent) then Attributed else Confounded)"
    using w(2) hd by (intro freshness_of_parent[OF w(1) hd(2)]) (auto simp: fork_child_def)
  then show ?thesis using p(3) by (simp add: fork_child_def deep_merge_spec_def)
qed

section \<open>A concrete mutation\<close>

definition sample_gate :: "genome_env option \<Rightarrow> gate_context" where
  "sample_gate reg = \<lparr> gc_current = Ev_idle, gc_attribution = Some (compare_versions (\<lambda>a b. 0)
       \<lparr> vs_name = ''agent'', vs_version = 2, vs_sample_count = 9, vs_cost_per_eval = 0 \<rparr>
       \<lparr> vs_name = ''agent'', vs_version = 1, vs_sample_count = 9, vs_cost_per_eval = 0 \<rparr> []),
     gc_evaluator = Some (\<lambda>_. reward_acceptable f64_one), gc_budget = Some (new_budget_controller 0 None),
     gc_bus = True, gc_denied_tools = [''rm''], gc_trace_id = ''t'', gc_registry = reg, gc_genome_name = ''agent'',
     gc_parent_version = 1 \<rparr>"

definition sample_harness :: "genome_store \<Rightarrow> harness" where
  "sample_harness s = \<lparr> ha_prompt = ''be kind'', ha_tools = [''ls'', ''cp''],
     ha_registry = empty_registry \<lparr> reg_tools := [(''cp'', \<lambda>_. Inr JNull), (''ls'', \<lambda>_. Inr JNull), (''mv'', \<lambda>_. Inr JNull)] \<rparr>,
     ha_genomes = s, ha_events = [] \<rparr>"

definition sample_mutation :: genome_mutations where
  "sample_mutation = \<lparr> mu_prompt_delta = '' and brief'', mu_tools_add = [''mv''], mu_tools_remove = [''cp''], mu_workflow_patch = None \<rparr>"

lemma sample_gates: "harness_gates 0 0 sample_mutation (sample_gate reg) (sample_harness s) = (Inr None, sample_harness s)"
proof -
  have "valid_confidence f64_one" "\<not> f64_less f64_zero f64_zero" by code_simp+
  then show ?thesis
    by (simp add: harness_gates_def sample_gate_def sample_harness_def sample_mutation_def invalid_mutation_def evaluate_readiness_def
        reward_acceptable_def reward_of_def compare_versions_def kMinBaselineSamples_def is_tool_allowed_def reg_has_tool_def
        bc_exceeded_def new_budget_controller_def Let_def)
qed

lemma harness_all_or_nothing_witness:
  "\<exists>am h'. apply_harness_mutation 0 0 sample_mutation (sample_gate None) (sample_harness (new_registry ''/r'' [])) = (Inr (Inr am), h') \<and>
     ha_prompt h' = ''be kind and brief'' \<and> ha_tools h' = [''ls'', ''mv''] \<and> ha_tools (undo_applied_mutation am h') = [''ls'', ''cp'']"
proof -
  have a: "\<exists>am h'. apply_harness_mutation 0 0 sample_mutation (sample_gate None) (sample_harness (new_registry ''/r'' [])) = (Inr (Inr am), h')"
    by (simp add: apply_harness_mutation_def sample_gates persist_harness_def) (simp add: sample_gate_def)
  then obtain am h' where r: "apply_harness_mutation 0 0 sample_mutation (sample_gate None) (sample_harness (new_registry ''/r'' [])) = (Inr (Inr am), h')" by blast
  from harness_all_or_nothing[OF this] r show ?thesis
    by (auto simp: sample_harness_def sample_mutation_def final_tools_def)
qed

lemma sample_applied:
  assumes "\<forall>m. \<exists>v t. fork_genome sample_library ''agent'' 1 m s = (Inr (Inr v), t)"
  shows "\<exists>am h'. apply_harness_mutation 0 0 sample_mutation (sample_gate (Some sample_library)) (sample_harness s) = (Inr (Inr am), h') \<and>
    ha_prompt h' = ''be kind and brief''"
proof -
  let ?x = "sample_gate (Some sample_library)" and ?h = "sample_harness s"
  obtain v t where "fork_genome sample_library ''agent'' 1 (harness_spec sample_mutation ?h) s = (Inr (Inr v), t)" using assms by blast
  moreover have "gs_tools (harness_spec sample_mutation ?h) \<noteq> []"
    by (simp add: harness_spec_def final_tools_def sample_harness_def sample_mutation_def)
  moreover have "gc_registry ?x = Some sample_library" "gc_genome_name ?x = ''agent''" "gc_parent_version ?x = 1" "ha_genomes ?h = s"
    by (simp_all add: sample_gate_def sample_harness_def)
  ultimately obtain h2 where p: "persist_harness sample_mutation ?x ?h = (Inr (Inr v), h2)" by (simp add: persist_harness_def)
  then have "ha_prompt h2 = ha_prompt ?h" using persist_harness_result by blast
  with p show ?thesis
    by (simp add: apply_harness_mutation_def sample_gates apply_delta_eq) (simp add: sample_harness_def sample_mutation_def)
qed

lemma persisted_is_applied_witness:
  "\<exists>s am h' g. apply_harness_mutation 0 0 sample_mutation (sample_gate (Some sample_library)) (sample_harness s) = (Inr (Inr am), h') \<and>
    load_genome sample_library ''agent'' (am_genome_version am) (ha_genomes h') = (Inr (Inr g), ha_genomes h') \<and>
    gs_harness (ge_spec g) = ''be kind and brief''"
proof -
  obtain s where r: "fold (registry_do sample_library) [Commit sample_genome] (new_registry ''/r'' [], []) =
      (s, [(''agent'', 1, with_version 1 sample_genome)])"
    and f: "\<forall>m. \<exists>v t. fork_genome sample_library ''agent'' 1 m s = (Inr (Inr v), t)" using sample_registry by blast
  obtain am h' where a: "apply_harness_mutation 0 0 sample_mutation (sample_gate (Some sample_library)) (sample_harness s) = (Inr (Inr am), h')"
    "ha_prompt h' = ''be kind and brief''" using sample_applied[OF f] by blast
  have x: "gc_registry (sample_gate (Some sample_library)) = Some sample_library" "gc_genome_name (sample_gate (Some sample_library)) = ''agent''"
    "gc_parent_version (sample_gate (Some sample_library)) = 1" by (simp_all add: sample_gate_def)
  have r': "fold (registry_do sample_library) [Commit sample_genome] (new_registry ''/r'' [], []) =
      (ha_genomes (sample_harness s), [(''agent'', 1, with_version 1 sample_genome)])" using r by (simp add: sample_harness_def)
  from persisted_is_applied[OF sample_names(1,2) sample_library_codec sample_library_readable(1) _ _ r' x(1) _ a(1)] x a(2) sample_names(4)
  obtain g where "load_genome sample_library ''agent'' (am_genome_version am) (ha_genomes h') = (Inr (Inr g), ha_genomes h')"
    "gs_harness (ge_spec g) = ''be kind and brief''" by (auto simp: sample_genome_def)
  then show ?thesis using a by blast
qed

lemma mutation_confounds_old_data_witness:
  "\<exists>s am h'. apply_harness_mutation 0 0 sample_mutation (sample_gate (Some sample_library)) (sample_harness s) = (Inr (Inr am), h') \<and>
    judge_data_freshness (''agent'', 1) (''agent'', am_genome_version am)
      (\<lambda>n w. walk_ancestors sample_library n w None (ha_genomes h')) = Confounded"
proof -
  obtain s where r: "fold (registry_do sample_library) [Commit sample_genome] (new_registry ''/r'' [], []) =
      (s, [(''agent'', 1, with_version 1 sample_genome)])"
    and l: "load_genome sample_library ''agent'' 1 s = (Inr (Inr (with_version 1 sample_genome)), s)"
    and w: "walk_ancestors sample_library ''agent'' 1 None s = Inr ([1], [with_version 1 sample_genome])"
    and f: "\<forall>m. \<exists>v t. fork_genome sample_library ''agent'' 1 m s = (Inr (Inr v), t)" using sample_registry by blast
  obtain am h' where a: "apply_harness_mutation 0 0 sample_mutation (sample_gate (Some sample_library)) (sample_harness s) = (Inr (Inr am), h')"
    "ha_prompt h' = ''be kind and brief''" using sample_applied[OF f] by blast
  have x: "gc_registry (sample_gate (Some sample_library)) = Some sample_library" "gc_genome_name (sample_gate (Some sample_library)) = ''agent''"
    "gc_parent_version (sample_gate (Some sample_library)) = 1" "ha_genomes (sample_harness s) = s" by (simp_all add: sample_gate_def sample_harness_def)
  have r': "fold (registry_do sample_library) [Commit sample_genome] (new_registry ''/r'' [], []) =
      (ha_genomes (sample_harness s), [(''agent'', 1, with_version 1 sample_genome)])" using r x by simp
  from mutation_confounds_old_data[OF sample_names(1,2) sample_library_codec sample_library_readable(1) _ _ r' x(1) _ a(1)] x a(2) sample_names(3,4) l w
  have "judge_data_freshness (''agent'', 1) (''agent'', am_genome_version am)
      (\<lambda>n w. walk_ancestors sample_library n w None (ha_genomes h')) = Confounded" by (simp add: sample_genome_def with_version_def)
  then show ?thesis using a by blast
qed

end
