(* ===== verification/Trajectory.thy ===== *)
theory Trajectory
  imports Governance Providers Session_Store
begin

text \<open>
  Trajectories of executions and the records distilled from them: agenticdsl/ir/trajectory_ir.h,
  core/parsed_graph_to_trajectory_ir.cpp, modules/ir, modules/prompt/prompt_hash.cpp, modules/distillation and
  agenticdsl/types/distillation_record.h.  Parameters are the text of a JSON value, std::hash, the text of a double, the
  conversion of a double to uint64_t, and what the reward a record never sets happens to hold.
\<close>

section \<open>The representation\<close>

record ir_node =
  in_id :: string
  in_type :: string
  in_metadata :: json

record ir_edge =
  ig_from :: string
  ig_to :: string
  ig_weight :: "64 word"

record ir_step =
  is_node_id :: string
  is_metadata :: json

record parsed_ir =
  pi_schema_version :: string
  pi_nodes :: "ir_node list"
  pi_edges :: "ir_edge list"
  pi_steps :: "ir_step list"

record canonical_ir =
  ci_schema_version :: string
  ci_nodes :: "ir_node list"
  ci_edges :: "ir_edge list"
  ci_steps :: "ir_step list"
  ci_metadata :: json

definition empty_canonical :: canonical_ir where
  "empty_canonical = \<lparr> ci_schema_version = ''1.0'', ci_nodes = [], ci_edges = [], ci_steps = [], ci_metadata = jempty \<rparr>"

record ir_env =
  te_dump :: "json \<Rightarrow> string res"
  te_hash :: "string \<Rightarrow> 64 word"
  te_double :: "64 word \<Rightarrow> string"
  te_f2u :: "64 word \<Rightarrow> 64 word"
  te_reward :: reward_signal

fun ir_node_type :: "node_type \<Rightarrow> string" where
  "ir_node_type START = ''start''" | "ir_node_type END = ''end''" | "ir_node_type ASSIGN = ''assign''"
| "ir_node_type DSL_CALL = ''dsl_call''" | "ir_node_type TOOL_CALL = ''tool_call''" | "ir_node_type RESOURCE = ''resource''"
| "ir_node_type FORK = ''fork''" | "ir_node_type JOIN = ''join''" | "ir_node_type GENERATE_SUBGRAPH = ''generate_subgraph''"
| "ir_node_type ASSERT = ''assert''" | "ir_node_type YIELD = ''yield''"

definition from_parsed_graph :: "parsed_graph \<Rightarrow> parsed_ir" where
  "from_parsed_graph pg = \<lparr> pi_schema_version = ''1.0'',
     pi_nodes = map (\<lambda>nd. \<lparr> in_id = nd_path nd, in_type = ir_node_type (nd_type nd), in_metadata = nd_metadata nd \<rparr>) (pg_nodes pg),
     pi_edges = concat (map (\<lambda>nd. map (\<lambda>p. \<lparr> ig_from = nd_path nd, ig_to = p, ig_weight = f64_one \<rparr>) (nd_next nd)) (pg_nodes pg)),
     pi_steps = [] \<rparr>"

definition constant_folding :: "canonical_ir \<Rightarrow> canonical_ir" where
  "constant_folding c = c"

section \<open>The hash\<close>

text \<open>The text is put together in the order nodes, edges, steps, metadata; a value that cannot be dumped throws.\<close>

fun texts_of :: "('a \<Rightarrow> string res) \<Rightarrow> 'a list \<Rightarrow> string res" where
  "texts_of f [] = Inr []"
| "texts_of f (x # xs) = ebind (f x) (\<lambda>s. ebind (texts_of f xs) (\<lambda>r. Inr (s @ r)))"

definition canonical_text :: "ir_env \<Rightarrow> canonical_ir \<Rightarrow> string res" where
  "canonical_text env c =
     ebind (texts_of (\<lambda>n. ebind (te_dump env (in_metadata n)) (\<lambda>d. Inr (in_id n @ [CHR 0x1F] @ in_type n @ [CHR 0x1F] @ d @ [CHR 0x1E]))) (ci_nodes c)) (\<lambda>ns.
     ebind (texts_of (\<lambda>s. ebind (te_dump env (is_metadata s)) (\<lambda>d. Inr (is_node_id s @ [CHR 0x1F] @ d @ [CHR 0x1E]))) (ci_steps c)) (\<lambda>ss.
     ebind (te_dump env (ci_metadata c)) (\<lambda>m. Inr (ns @ [CHR 0x1D] @
       concat (map (\<lambda>e. ig_from e @ [CHR 0x1F] @ ig_to e @ [CHR 0x1F] @ te_double env (ig_weight e) @ [CHR 0x1E]) (ci_edges c)) @ [CHR 0x1D] @
       ss @ [CHR 0x1D] @ m))))"

definition ir_hash :: "ir_env \<Rightarrow> canonical_ir \<Rightarrow> string res" where
  "ir_hash env c = ebind (canonical_text env c) (\<lambda>t. Inr (to_hex (te_hash env t)))"

section \<open>The backends\<close>

definition sft_node :: "ir_node \<Rightarrow> json" where
  "sft_node n = jobj [(''id'', JStr (in_id n)), (''type'', JStr (in_type n)), (''metadata'', in_metadata n)]"

definition sft_edge :: "ir_edge \<Rightarrow> json" where
  "sft_edge e = jobj [(''from'', JStr (ig_from e)), (''to'', JStr (ig_to e)), (''weight'', JFloat (ig_weight e))]"

definition sft_step :: "ir_step \<Rightarrow> json" where
  "sft_step s = jobj [(''node_id'', JStr (is_node_id s)), (''metadata'', is_metadata s)]"

definition to_sft_data :: "ir_env \<Rightarrow> canonical_ir \<Rightarrow> json res" where
  "to_sft_data env c = ebind (ir_hash env c) (\<lambda>h. Inr (jobj [
     (''nodes'', JArr (map sft_node (ci_nodes c))), (''edges'', JArr (map sft_edge (ci_edges c))), (''steps'', JArr (map sft_step (ci_steps c))),
     (''sft_metadata'', jobj [(''format'', JStr ''trajectory-ir-sft-v1''), (''node_count'', JInt (int (length (ci_nodes c)))),
        (''edge_count'', JInt (int (length (ci_edges c)))), (''step_count'', JInt (int (length (ci_steps c)))), (''trajectory_hash'', JStr h)]),
     (''schema_version'', JStr (ci_schema_version c))]))"

definition short_hash :: "ir_env \<Rightarrow> string \<Rightarrow> string" where
  "short_hash env s = to_hex (te_hash env s)"

text \<open>The source of the first edge into a node.\<close>

definition parent_of :: "ir_edge list \<Rightarrow> string \<Rightarrow> string option" where
  "parent_of es t = map_option ig_from (find (\<lambda>e. ig_to e = t) es)"

definition span_json :: "ir_env \<Rightarrow> string \<Rightarrow> ir_edge list \<Rightarrow> nat \<Rightarrow> ir_node \<Rightarrow> json" where
  "span_json env trace es i n = jobj [(''trace_id'', JStr trace), (''span_id'', JStr (short_hash env (''span:'' @ in_id n))),
     (''parent_span_id'', JStr (case parent_of es (in_id n) of None \<Rightarrow> ''0'' | Some p \<Rightarrow> short_hash env (''span:'' @ p))),
     (''name'', JStr (in_id n)), (''kind'', JStr ''SPAN_KIND_INTERNAL''), (''start_time_unix_nano'', JInt (int (i * 1000))),
     (''end_time_unix_nano'', JInt (int (i * 1000 + 1))), (''attributes'', jobj [(''ir.node_type'', JStr (in_type n))])]"

definition to_otel_spans :: "ir_env \<Rightarrow> canonical_ir \<Rightarrow> json res" where
  "to_otel_spans env c = ebind (ir_hash env c) (\<lambda>h. let trace = short_hash env h in Inr (jobj [
     (''spans'', JArr (map2 (span_json env trace (ci_edges c)) [0..<length (ci_nodes c)] (ci_nodes c))),
     (''trace_id'', JStr trace), (''schema_version'', JStr (ci_schema_version c))]))"

section \<open>Distillation records\<close>

definition pad_left :: "nat \<Rightarrow> string \<Rightarrow> string" where
  "pad_left n s = replicate (n - length s) (CHR ''0'') @ s"

definition hash_prompt :: "ir_env \<Rightarrow> string \<Rightarrow> string" where
  "hash_prompt env p = pad_left 16 (to_hex (te_hash env p))"

definition estimate_tokens :: "string \<Rightarrow> int" where
  "estimate_tokens p = int ((length p + 3) div 4)"

record step_record =
  sr_thought :: string
  sr_tool_name :: string
  sr_tool_args :: json
  sr_observation :: string
  sr_latency_ms :: "64 word"

record convergence_meta =
  cv_agent_id :: string
  cv_teacher_version :: string
  cv_task_id :: string
  cv_trace_id :: string

record distillation_record =
  dr_input :: string
  dr_output :: string
  dr_steps :: "step_record list"
  dr_reward :: reward_signal
  dr_trace_id :: string
  dr_source_event :: string
  dr_agent_id :: string
  dr_teacher_version :: string
  dr_timestamp_ms :: "64 word"
  dr_capture_mode :: capture_mode
  dr_convergence :: convergence_meta

definition new_distillation_record :: "ir_env \<Rightarrow> distillation_record" where
  "new_distillation_record env = \<lparr> dr_input = [], dr_output = [], dr_steps = [], dr_reward = te_reward env, dr_trace_id = [],
     dr_source_event = [], dr_agent_id = [], dr_teacher_version = [], dr_timestamp_ms = 0, dr_capture_mode = Off,
     dr_convergence = \<lparr> cv_agent_id = [], cv_teacher_version = [], cv_task_id = [], cv_trace_id = [] \<rparr> \<rparr>"

definition text_or_empty :: "string \<Rightarrow> json \<Rightarrow> string" where
  "text_or_empty k j = (case jlookup k j of Some (JStr s) \<Rightarrow> s | _ \<Rightarrow> [])"

definition get_text :: "string \<Rightarrow> json \<Rightarrow> string res" where
  "get_text k j = (case jlookup k j of None \<Rightarrow> Inr [] | Some v \<Rightarrow> jget_str v)"

definition get_u64 :: "ir_env \<Rightarrow> string \<Rightarrow> json \<Rightarrow> 64 word res" where
  "get_u64 env k j = (case jlookup k j of None \<Rightarrow> Inr 0
     | Some v \<Rightarrow> (case as_u64 (te_f2u env) (Some v) of None \<Rightarrow> Inl (Json_error ''type_error.302'') | Some w \<Rightarrow> Inr w))"

definition redact :: "ir_env \<Rightarrow> string \<Rightarrow> json \<Rightarrow> json" where
  "redact env k j = (case jlookup k j of Some (JStr s) \<Rightarrow> jset k (JStr (hash_prompt env s)) j | _ \<Rightarrow> j)"

definition distill_step :: "ir_env \<Rightarrow> ir_step \<Rightarrow> step_record res" where
  "distill_step env s = (let m = is_metadata s in
     ebind (get_text ''thought'' m) (\<lambda>thought. ebind (get_text ''tool_name'' m) (\<lambda>tool.
     ebind (get_text ''observation'' m) (\<lambda>obs. ebind (get_u64 env ''latency_ms'' m) (\<lambda>latency.
       Inr \<lparr> sr_thought = thought, sr_tool_name = tool, sr_tool_args = redact env ''input'' (redact env ''prompt'' m),
         sr_observation = obs, sr_latency_ms = latency \<rparr>)))))"

fun distill_steps :: "ir_env \<Rightarrow> ir_step list \<Rightarrow> step_record list res" where
  "distill_steps env [] = Inr []"
| "distill_steps env (s # ss) = ebind (distill_step env s) (\<lambda>r. ebind (distill_steps env ss) (\<lambda>rs. Inr (r # rs)))"

definition from_trajectory_ir :: "ir_env \<Rightarrow> canonical_ir \<Rightarrow> string \<Rightarrow> string \<Rightarrow> distillation_record res" where
  "from_trajectory_ir env c trace event = ebind (distill_steps env (ci_steps c)) (\<lambda>ss. Inr ((new_distillation_record env)
     \<lparr> dr_agent_id := text_or_empty ''agent_id'' (ci_metadata c), dr_teacher_version := text_or_empty ''teacher_version'' (ci_metadata c),
       dr_trace_id := trace, dr_source_event := event, dr_steps := ss \<rparr>))"

section \<open>The file writer\<close>

text \<open>The open stream, when an exception has left one, and which directories there are: a file can only be opened in a
  directory that exists, and the constructor creates the output directory with those above it, but nothing else.\<close>

record distill_writer =
  dw_dir :: string
  dw_agent :: string
  dw_seq :: "64 word"
  dw_open :: "string option"
  dw_closed :: bool
  dw_dirs :: "string \<Rightarrow> bool"
  dw_disk :: disk

definition kMaxRecordSizeBytes :: nat where
  "kMaxRecordSizeBytes = 1572864"

definition validate_training_protection :: "distillation_record \<Rightarrow> unit res" where
  "validate_training_protection r = (let total = length (dr_input r) + length (dr_output r) in
     if kMaxRecordSizeBytes < total
     then Inl (Logic_error (''FileDistillationWriter: record size '' @ nat_str total @ '' bytes exceeds 1.5MB hard limit''))
     else if dr_capture_mode r = Training \<and> dr_agent_id r = []
     then Inl (Invalid_argument ''FileDistillationWriter: Training mode requires non-empty agent_id'')
     else Inr ())"

definition distill_filename :: "distill_writer \<Rightarrow> string" where
  "distill_filename w = dw_agent w @ ''_'' @ pad_left 6 (nat_str (unat (dw_seq w))) @ ''.distill.v1.jsonl''"

text \<open>Opening fails when the stream is still open.\<close>

definition open_new_jsonl :: "(string, distill_writer) act" where
  "open_new_jsonl w = (let name = distill_filename w; p = path_join (dw_dir w) name in
     if dw_open w \<noteq> None then (Inl (Runtime_error (''FileDistillationWriter: failed to open '' @ name)), w)
     else case open_in (dw_dirs w) False p (dw_disk w) of
       (False, d) \<Rightarrow> (Inl (Runtime_error (''FileDistillationWriter: failed to open '' @ name)), w \<lparr> dw_disk := d \<rparr>)
     | (True, d) \<Rightarrow> (Inr p, w \<lparr> dw_disk := d, dw_open := Some p \<rparr>))"

definition step_json :: "step_record \<Rightarrow> json" where
  "step_json s = jobj [(''thought'', JStr (sr_thought s)), (''tool_name'', JStr (sr_tool_name s)), (''tool_args'', sr_tool_args s),
     (''observation'', JStr (sr_observation s)), (''latency_ms'', JInt (uint (sr_latency_ms s)))]"

definition quality_number :: "reward_quality \<Rightarrow> int" where
  "quality_number q = (case q of Excellent \<Rightarrow> 0 | Acceptable \<Rightarrow> 1 | Poor \<Rightarrow> 2)"

definition distillation_json :: "distillation_record \<Rightarrow> json" where
  "distillation_json r = jobj [(''input'', JStr (dr_input r)), (''output'', JStr (dr_output r)), (''steps'', JArr (map step_json (dr_steps r))),
     (''reward'', jobj [(''scalar'', JFloat (rw_scalar (dr_reward r))), (''confidence'', JFloat (rw_confidence (dr_reward r))),
        (''quality'', JInt (quality_number (rw_quality (dr_reward r))))]),
     (''trace_id'', JStr (dr_trace_id r)), (''source_event'', JStr (dr_source_event r)), (''agent_id'', JStr (dr_agent_id r)),
     (''teacher_version'', JStr (dr_teacher_version r)), (''generation_timestamp_ms'', JInt (uint (dr_timestamp_ms r))),
     (''capture_mode'', JStr (capture_mode_to_string (dr_capture_mode r))),
     (''convergence'', jobj [(''agent_id'', JStr (cv_agent_id (dr_convergence r))), (''teacher_version'', JStr (cv_teacher_version (dr_convergence r))),
        (''task_id'', JStr (cv_task_id (dr_convergence r))), (''trace_id'', JStr (cv_trace_id (dr_convergence r)))])]"

text \<open>The outcome of the write is not looked at.\<close>

definition write_distillation :: "ir_env \<Rightarrow> distillation_record \<Rightarrow> (unit, distill_writer) act" where
  "write_distillation env r w = (case validate_training_protection r of
       Inl e \<Rightarrow> (Inl e, w)
     | Inr _ \<Rightarrow> (case open_new_jsonl w of
           (Inl e, w1) \<Rightarrow> (Inl e, w1)
         | (Inr p, w1) \<Rightarrow> (case te_dump env (distillation_json r) of
               Inl e \<Rightarrow> (Inl e, w1)
             | Inr s \<Rightarrow> (Inr (), w1 \<lparr> dw_disk := snd (write_file p (s @ [CHR 0x0A]) (dw_disk w1)), dw_open := None,
                 dw_seq := dw_seq w1 + 1 \<rparr>))))"

definition close_distillation :: "distill_writer \<Rightarrow> distill_writer" where
  "close_distillation w = w \<lparr> dw_open := None, dw_closed := True \<rparr>"

record distillation_metadata =
  dm_version :: string
  dm_total_examples :: "64 word"
  dm_dataset_hash :: string
  dm_generation_config :: json

definition finalize_distillation :: "ir_env \<Rightarrow> distillation_metadata \<Rightarrow> (unit, distill_writer) act" where
  "finalize_distillation env m w =
     (let w1 = (if dw_closed w then w else close_distillation w);
          p = path_join (dw_dir w1) (dw_agent w1 @ ''_'' @ nat_str (unat (dw_seq w1)) @ ''.distill.v1.meta.json'') in
      case open_in (dw_dirs w1) True p (dw_disk w1) of
        (False, d) \<Rightarrow> (Inl (Runtime_error ''FileDistillationWriter: failed to write meta.json''), w1 \<lparr> dw_disk := d \<rparr>)
      | (True, d) \<Rightarrow> (case te_dump env (jobj [(''version'', JStr (dm_version m)), (''total_examples'', JInt (uint (dm_total_examples m))),
            (''dataset_hash'', JStr (dm_dataset_hash m)), (''generation_config'', dm_generation_config m)]) of
          Inl e \<Rightarrow> (Inl e, w1 \<lparr> dw_disk := d \<rparr>)
        | Inr s \<Rightarrow> (Inr (), w1 \<lparr> dw_disk := snd (write_file p s d) \<rparr>)))"

definition new_distill_writer :: "string \<Rightarrow> string \<Rightarrow> (string \<Rightarrow> bool) \<Rightarrow> disk \<Rightarrow> distill_writer res \<times> disk" where
  "new_distill_writer dir agent dirs d = (case call d of (f, d1) \<Rightarrow>
     if dir = [] \<or> f = Fails then (Inl (Runtime_error ''filesystem error: cannot create directories''), d1)
     else (Inr \<lparr> dw_dir = dir, dw_agent = agent, dw_seq = 0, dw_open = None, dw_closed = False,
             dw_dirs = (\<lambda>q. dirs q \<or> with_above dir q), dw_disk = d1 \<rparr>, d1))"

section \<open>What the bridge reveals\<close>

definition redacted :: "ir_env \<Rightarrow> json \<Rightarrow> json" where
  "redacted env m = redact env ''input'' (redact env ''prompt'' m)"

lemma jlookup_redact: "k \<noteq> k' \<Longrightarrow> jlookup k (redact env k' m) = jlookup k m"
proof (cases "is_obj m")
  case False
  then have "jlookup k' m = None" by (cases m) (simp_all add: jlookup_def)
  then show ?thesis by (simp add: redact_def)
qed (auto simp: redact_def split: option.split json.split)

lemma distill_step_redacted:
  "distill_step env s = distill_step env t"
  if "redacted env (is_metadata s) = redacted env (is_metadata t)"
proof -
  have "jlookup k (is_metadata s) = jlookup k (is_metadata t)" if "k \<noteq> ''input''" "k \<noteq> ''prompt''" for k
    using \<open>redacted env (is_metadata s) = redacted env (is_metadata t)\<close> that
    unfolding redacted_def by (metis jlookup_redact)
  then have "get_text k (is_metadata s) = get_text k (is_metadata t)" "get_u64 env k (is_metadata s) = get_u64 env k (is_metadata t)"
    if "k \<noteq> ''input''" "k \<noteq> ''prompt''" for k using that by (simp_all add: get_text_def get_u64_def)
  then show ?thesis using that by (simp add: distill_step_def redacted_def Let_def)
qed

text \<open>A distilled record depends on the prompt and input texts of the steps only through their hashes: two trajectories whose
  steps agree after hashing give the same record, or the same exception.\<close>

theorem bridge_reveals_only_hashes:
  assumes "map (\<lambda>s. redacted env (is_metadata s)) (ci_steps c) = map (\<lambda>s. redacted env (is_metadata s)) (ci_steps d)" "ci_metadata c = ci_metadata d"
  shows "from_trajectory_ir env c trace event = from_trajectory_ir env d trace event"
proof -
  have "distill_steps env ss = distill_steps env ts"
    if "map (\<lambda>s. redacted env (is_metadata s)) ss = map (\<lambda>s. redacted env (is_metadata s)) ts" for ss ts
    using that
  proof (induction ss arbitrary: ts)
    case (Cons s ss)
    then obtain t ts' where t: "ts = t # ts'" "redacted env (is_metadata s) = redacted env (is_metadata t)"
      "map (\<lambda>s. redacted env (is_metadata s)) ss = map (\<lambda>s. redacted env (is_metadata s)) ts'" by (cases ts) auto
    then show ?case using Cons.IH[OF t(3)] distill_step_redacted[OF t(2)] by simp
  qed simp
  from this[OF assms(1)] show ?thesis using assms(2) by (simp add: from_trajectory_ir_def)
qed

section \<open>Files of the writer\<close>

lemma digits_val_pad: "digits_val (pad_left n s) = digits_val s"
proof -
  have "digits_val (replicate k (CHR ''0'') @ s) = digits_val s" for k
    by (induction k) (simp_all add: digits_val_def)
  then show ?thesis by (simp add: pad_left_def)
qed

lemma pad_left_inject: "pad_left n (nat_str a) = pad_left n (nat_str b) \<longleftrightarrow> a = b"
  by (metis digits_val_pad digits_val_nat_str)

definition record_path :: "string \<Rightarrow> string \<Rightarrow> nat \<Rightarrow> string" where
  "record_path dir agent n = path_join dir (agent @ ''_'' @ pad_left 6 (nat_str n) @ ''.distill.v1.jsonl'')"

text \<open>An agent id with a slash puts the file into a directory nobody creates.\<close>

definition plain_agent :: "string \<Rightarrow> bool" where
  "plain_agent a \<longleftrightarrow> CHR ''/'' \<notin> set a"

lemma record_name: "plain_agent a \<Longrightarrow> a @ ''_'' @ x \<noteq> [] \<and> hd (a @ ''_'' @ x) \<noteq> CHR ''/''"
  by (cases a) (auto simp: plain_agent_def)

lemma record_path_inject: "plain_agent a \<Longrightarrow> record_path d a m = record_path d a n \<longleftrightarrow> m = n"
  using record_name[of a "pad_left 6 (nat_str m) @ ''.distill.v1.jsonl''"] record_name[of a "pad_left 6 (nat_str n) @ ''.distill.v1.jsonl''"]
  by (auto simp: record_path_def path_join_def pad_left_inject)

lemma no_slash_number: "CHR ''/'' \<notin> set (pad_left k (nat_str n))"
proof -
  have "CHR ''/'' \<notin> set (nat_str n)"
  proof (induction n rule: nat_str.induct)
    case (1 n)
    have "CHR ''/'' \<noteq> char_of (48 + k :: nat)" if "k < 10" for k
    proof
      assume "CHR ''/'' = char_of (48 + k :: nat)"
      then have "(of_char (CHR ''/'') :: nat) = of_char (char_of (48 + k :: nat))" by simp
      then show False using that by (simp add: of_char_of)
    qed
    then show ?case using 1 by (simp add: nat_str.simps[of n])
  qed
  then show ?thesis by (simp add: pad_left_def)
qed

definition writes_in :: "distill_writer \<Rightarrow> bool" where
  "writes_in w \<longleftrightarrow> (\<forall>q. with_above (dw_dir w) q \<longrightarrow> dw_dirs w q)"

lemma record_parent:
  assumes "writes_in w" "plain_agent (dw_agent w)"
  shows "parent_dir (record_path (dw_dir w) (dw_agent w) n) = [] \<or> dw_dirs w (parent_dir (record_path (dw_dir w) (dw_agent w) n))"
  using parent_dir_join[of "dw_agent w @ ''_'' @ pad_left 6 (nat_str n) @ ''.distill.v1.jsonl''" "dw_dir w"]
    assms no_slash_number[of 6 n] by (auto simp: record_path_def writes_in_def plain_agent_def)

lemma new_writer:
  assumes "new_distill_writer dir agent dirs d = (Inr w, d1)" "dk_faults d = []"
  shows "writes_in w \<and> dw_dir w = dir \<and> dw_agent w = agent \<and> dw_seq w = 0 \<and> dw_open w = None \<and> dw_disk w = d"
  using assms by (auto simp: new_distill_writer_def writes_in_def split: if_splits)

lemma write_no_faults:
  assumes "dk_faults (dw_disk w) = []" "dw_open w = None" "validate_training_protection r = Inr ()"
    "te_dump env (distillation_json r) = Inr s" "writes_in w" "plain_agent (dw_agent w)"
  shows "write_distillation env r w = (Inr (), w \<lparr> dw_seq := dw_seq w + 1,
    dw_disk := put_file (record_path (dw_dir w) (dw_agent w) (unat (dw_seq w)))
      (contents (record_path (dw_dir w) (dw_agent w) (unat (dw_seq w))) (dw_disk w) @ s @ [CHR 0x0A]) (dw_disk w) \<rparr>)"
proof -
  let ?p = "record_path (dw_dir w) (dw_agent w) (unat (dw_seq w))"
  have "open_in (dw_dirs w) False ?p (dw_disk w) = (True, put_file ?p (contents ?p (dw_disk w)) (dw_disk w))"
    using record_parent[OF assms(5,6), of "unat (dw_seq w)"] assms(1) by (auto simp: open_in_def open_file_def)
  then have "open_new_jsonl w = (Inr ?p, w \<lparr> dw_disk := put_file ?p (contents ?p (dw_disk w)) (dw_disk w), dw_open := Some ?p \<rparr>)"
    using assms(2) by (simp add: open_new_jsonl_def record_path_def distill_filename_def Let_def)
  then show ?thesis using assms(1-4) by (simp add: write_distillation_def write_file_def)
qed

fun write_all :: "ir_env \<Rightarrow> distillation_record list \<Rightarrow> distill_writer \<Rightarrow> unit res list \<times> distill_writer" where
  "write_all env [] w = ([], w)"
| "write_all env (r # rs) w = (case write_distillation env r w of (x, w1) \<Rightarrow> (case write_all env rs w1 of (xs, w2) \<Rightarrow> (x # xs, w2)))"

text \<open>C38. Each record gets a file of its own: on a disk without failures and without files of these names, a new writer
  for an agent whose id has no slash, given records that all pass the protection and can be dumped, writes the i-th record, as one
  line, to the i-th file and to no other.\<close>

theorem one_file_per_record:
  assumes "new_distill_writer dir agent dirs d = (Inr w0, d1)" "dk_faults d = []" "plain_agent agent" "length rs < 2 ^ 64"
    "\<forall>r \<in> set rs. validate_training_protection r = Inr () \<and> te_dump env (distillation_json r) = Inr (txt r)"
    "\<forall>n. dk_files d (record_path dir agent n) = None"
  shows "case write_all env rs w0 of (xs, w) \<Rightarrow> xs = replicate (length rs) (Inr ()) \<and>
    (\<forall>i. dk_files (dw_disk w) (record_path dir agent i) = (if i < length rs then Some (txt (rs ! i) @ [CHR 0x0A]) else None))"
proof -
  have "case write_all env rs w of (xs, w') \<Rightarrow> xs = replicate (length rs) (Inr ()) \<and>
      (\<forall>i. dk_files (dw_disk w') (record_path dir agent i) = (if i < n then dk_files (dw_disk w) (record_path dir agent i)
        else if i < n + length rs then Some (txt (rs ! (i - n)) @ [CHR 0x0A]) else None))"
    if "n + length rs < 2 ^ 64" "\<forall>r \<in> set rs. validate_training_protection r = Inr () \<and> te_dump env (distillation_json r) = Inr (txt r)"
      "dk_faults (dw_disk w) = []" "dw_open w = None" "dw_dir w = dir" "dw_agent w = agent" "unat (dw_seq w) = n"
      "\<forall>i \<ge> n. dk_files (dw_disk w) (record_path dir agent i) = None" "writes_in w" for n w
    using that
  proof (induction rs arbitrary: n w)
    case (Cons r rs)
    let ?p = "record_path dir agent n"
    let ?w = "w \<lparr> dw_seq := dw_seq w + 1, dw_disk := put_file ?p (txt r @ [CHR 0x0A]) (dw_disk w) \<rparr>"
    have w: "write_distillation env r w = (Inr (), ?w)"
      using write_no_faults[of w r env "txt r"] Cons.prems assms(3) by (simp add: contents_def)
    have seq: "unat (dw_seq w + 1) = Suc n" using Cons.prems(1,7) by (simp add: unat_word_ariths)
    have wr: "writes_in ?w" using Cons.prems(9) by (simp add: writes_in_def)
    obtain xs w' where r: "write_all env rs ?w = (xs, w')" by fastforce
    have "xs = replicate (length rs) (Inr ()) \<and> (\<forall>i. dk_files (dw_disk w') (record_path dir agent i) =
        (if i < Suc n then dk_files (dw_disk ?w) (record_path dir agent i)
         else if i < Suc n + length rs then Some (txt (rs ! (i - Suc n)) @ [CHR 0x0A]) else None))"
      using Cons.IH[of "Suc n" ?w] Cons.prems seq r wr by (simp add: put_file_def record_path_inject[OF assms(3)])
    then show ?case using w r Cons.prems(8)
      by (auto simp: put_file_def record_path_inject[OF assms(3)] nth_Cons' less_Suc_eq)
  qed auto
  from this[of 0 w0] show ?thesis using assms new_writer[OF assms(1,2)] by auto
qed

definition plain_env :: ir_env where
  "plain_env = \<lparr> te_dump = (\<lambda>_. Inr ''{}''), te_hash = (\<lambda>s. of_nat (length s)), te_double = (\<lambda>_. ''1.000000''), te_f2u = id,
     te_reward = \<lparr> rw_quality = Acceptable, rw_scalar = 0, rw_confidence = 0 \<rparr> \<rparr>"

lemma one_file_per_record_witness:
  "\<exists>w0 w. new_distill_writer ''/d/'' ''a'' (\<lambda>_. False) new_disk = (Inr w0, new_disk) \<and>
    write_all plain_env [new_distillation_record plain_env, new_distillation_record plain_env] w0 = ([Inr (), Inr ()], w) \<and>
    dk_files (dw_disk w) (record_path ''/d/'' ''a'' 1) = Some (''{}'' @ [CHR 0x0A])"
proof -
  let ?r = "new_distillation_record plain_env"
  have h: "dk_faults new_disk = []" "plain_agent ''a''" "length [?r, ?r] < 2 ^ 64"
    "\<forall>r \<in> set [?r, ?r]. validate_training_protection r = Inr () \<and> te_dump plain_env (distillation_json r) = Inr ''{}''"
    "\<forall>n. dk_files new_disk (record_path ''/d/'' ''a'' n) = None"
    by (simp_all add: new_disk_def plain_agent_def validate_training_protection_def new_distillation_record_def plain_env_def
        kMaxRecordSizeBytes_def)
  obtain w0 where n: "new_distill_writer ''/d/'' ''a'' (\<lambda>_. False) new_disk = (Inr w0, new_disk)"
    using h(1) by (simp add: new_distill_writer_def)
  obtain xs w where "write_all plain_env [?r, ?r] w0 = (xs, w)" by fastforce
  then show ?thesis using one_file_per_record[OF n h] n by (auto simp: numeral_2_eq_2)
qed

text \<open>With a slash in the agent id nothing is ever written, unless the directory it names is there already.\<close>

lemma slash_in_agent_writes_nothing:
  assumes "\<not> (parent_dir (path_join (dw_dir w) (distill_filename w)) = [] \<or> dw_dirs w (parent_dir (path_join (dw_dir w) (distill_filename w))))"
    "validate_training_protection r = Inr ()"
  shows "write_distillation env r w = (Inl (Runtime_error (''FileDistillationWriter: failed to open '' @ distill_filename w)), w)"
  using assms by (simp add: write_distillation_def open_new_jsonl_def open_in_def Let_def)

lemma slash_in_agent:
  "\<exists>w. new_distill_writer ''/d'' ''a/b'' (\<lambda>_. False) new_disk = (Inr w, new_disk) \<and>
    write_distillation plain_env (new_distillation_record plain_env) w =
      (Inl (Runtime_error (''FileDistillationWriter: failed to open '' @ distill_filename w)), w)"
proof -
  have n: "nat_str 0 = ''0''" by code_simp
  have z: "replicate 5 (CHR ''0'') = ''00000''" by (simp add: numeral_eq_Suc)
  show ?thesis
    by (simp add: new_distill_writer_def new_disk_def write_distillation_def open_new_jsonl_def open_in_def Let_def
        validate_training_protection_def new_distillation_record_def kMaxRecordSizeBytes_def distill_filename_def path_join_def
        parent_dir_def with_above_def n z pad_left_def)
qed

text \<open>When a record cannot be dumped (a text that is not UTF-8) the exception leaves the file open, and from then on every
  write fails, whatever the record, until the writer is closed.\<close>

theorem undumpable_record_blocks_writer:
  assumes "validate_training_protection r = Inr ()" "te_dump env (distillation_json r) = Inl e"
    "open_new_jsonl w = (Inr p, w1)" "write_distillation env r w = (x, w')"
  shows "\<forall>y \<in> set (fst (write_all env rs w')). \<exists>e. y = Inl e"
proof -
  have "\<forall>y \<in> set (fst (write_all env rs w)). \<exists>e. y = Inl e" if "dw_open w \<noteq> None" for w
    using that
  proof (induction rs arbitrary: w)
    case (Cons r rs)
    have "\<exists>e. write_distillation env r w = (Inl e, w)" using Cons.prems
      by (auto simp: write_distillation_def open_new_jsonl_def Let_def split: sum.split)
    then show ?case using Cons.IH[OF Cons.prems] by (auto split: prod.split)
  qed simp
  moreover have "dw_open w' \<noteq> None" using assms
    by (auto simp: write_distillation_def open_new_jsonl_def Let_def split: if_splits prod.splits bool.splits)
  ultimately show ?thesis by blast
qed

end
