(* ===== verification/Skills.thy ===== *)
theory Skills
  imports Trajectory
begin

text \<open>
  Evaluation and compilation of skills: modules/testing/behavioral_regression.cpp, modules/cognitive/composite_evaluator.cpp,
  behavioral_equivalence_evaluator.cpp and skill_compiler.cpp, with the regression gate of
  agenticdsl/cognitive/mcts_workflow_search.h.  Double arithmetic is the parameter \<open>f64_ops\<close>; comparisons are exact.
\<close>

section \<open>Behavioural regression\<close>

datatype regression_verdict = Regression_pass | Regression_fail | Regression_inconclusive

definition verdict_to_string :: "regression_verdict \<Rightarrow> string" where
  "verdict_to_string v = (case v of Regression_pass \<Rightarrow> ''Pass'' | Regression_fail \<Rightarrow> ''Fail'' | Regression_inconclusive \<Rightarrow> ''Inconclusive'')"

text \<open>Success rate, latency, tokens, error rate.\<close>

record fingerprint =
  fp_success :: "64 word"
  fp_latency :: "64 word"
  fp_tokens :: "64 word"
  fp_errors :: "64 word"

definition fp_features :: "fingerprint \<Rightarrow> (64 word) list" where
  "fp_features f = [fp_success f, fp_latency f, fp_tokens f, fp_errors f]"

definition kConfidence :: "64 word" where
  "kConfidence = 0x3FEE666666666666"

definition f64_two :: "64 word" where
  "f64_two = 0x4000000000000000"

definition hotelling_t2_statistic :: "f64_ops \<Rightarrow> (64 word) list \<Rightarrow> (64 word) list \<Rightarrow> 64 word" where
  "hotelling_t2_statistic fo a b = foldl (\<lambda>t2 (x, y). let diff = fo_minus fo x y in fo_plus fo t2 (fo_times fo diff diff)) f64_zero (zip a b)"

definition hotelling_t2_test :: "f64_ops \<Rightarrow> 64 word \<Rightarrow> fingerprint \<Rightarrow> fingerprint \<Rightarrow> regression_verdict" where
  "hotelling_t2_test fo threshold a b = (let t2 = hotelling_t2_statistic fo (fp_features a) (fp_features b) in
     if f64_less t2 threshold then Regression_pass
     else if f64_le (fo_times fo f64_two threshold) t2 then Regression_fail
     else Regression_inconclusive)"

definition token_counts :: "f64_ops \<Rightarrow> tool_result list \<Rightarrow> (64 word) list" where
  "token_counts fo rs = List.map_filter (\<lambda>r. as_u64 (fo_to_u64 fo) (jlookup ''tokens_used'' (tr_meta r))) rs"

definition compute_fingerprint :: "f64_ops \<Rightarrow> tool_result list \<Rightarrow> fingerprint" where
  "compute_fingerprint fo rs =
     (if rs = [] then \<lparr> fp_success = f64_zero, fp_latency = f64_zero, fp_tokens = f64_zero, fp_errors = f64_zero \<rparr>
      else let n = fo_of_int fo (int (length rs)); ok = length (filter tr_ok rs);
             latency = sum_list (List.map_filter tr_latency_ms rs); tokens = token_counts fo rs in
        \<lparr> fp_success = fo_divide fo (fo_of_int fo (int ok)) n,
          fp_latency = fo_divide fo (fo_of_int fo (uint latency)) n,
          fp_tokens = (if 0 < length tokens then fo_divide fo (fo_of_int fo (uint (sum_list tokens))) (fo_of_int fo (int (length tokens))) else f64_zero),
          fp_errors = fo_divide fo (fo_of_int fo (int (length rs - ok))) n \<rparr>)"

definition gate_allows :: "f64_ops \<Rightarrow> 64 word \<Rightarrow> tool_result list \<Rightarrow> tool_result list \<Rightarrow> bool" where
  "gate_allows fo threshold baseline candidate \<longleftrightarrow>
     hotelling_t2_test fo threshold (compute_fingerprint fo baseline) (compute_fingerprint fo candidate) \<noteq> Regression_fail"

section \<open>Evaluators\<close>

record judge =
  jd_evaluate :: evaluator
  jd_compare :: "execution_trace \<Rightarrow> execution_trace \<Rightarrow> int res"

record composite =
  cp_judges :: "judge list"
  cp_weights :: "(64 word) list"

definition new_composite :: "f64_ops \<Rightarrow> judge list \<Rightarrow> (64 word) list \<Rightarrow> composite res" where
  "new_composite fo js ws =
     (if js = [] \<or> length js \<noteq> length ws then Inl (Invalid_argument ''evaluators and weights must be non-empty and equal-sized'')
      else let sum = foldl (fo_plus fo) f64_zero ws in
        if \<not> f64_finite sum \<or> f64_le sum f64_zero then Inl (Invalid_argument ''weights must have a finite positive sum'')
        else Inr \<lparr> cp_judges = js, cp_weights = map (\<lambda>w. fo_divide fo w sum) ws \<rparr>)"

text \<open>The signals of all judges, or the first exception.\<close>

fun signals :: "judge list \<Rightarrow> execution_trace \<Rightarrow> reward_signal list res" where
  "signals [] t = Inr []"
| "signals (j # js) t = ebind (jd_evaluate j t) (\<lambda>r. ebind (signals js t) (\<lambda>rs. Inr (r # rs)))"

definition f64_min :: "64 word \<Rightarrow> 64 word \<Rightarrow> 64 word" where
  "f64_min a b = (if f64_less b a then b else a)"

definition f64_clamp :: "64 word \<Rightarrow> 64 word \<Rightarrow> 64 word \<Rightarrow> 64 word" where
  "f64_clamp v lo hi = (if f64_less v lo then lo else if f64_less hi v then hi else v)"

definition quality_count :: "reward_quality \<Rightarrow> reward_signal list \<Rightarrow> nat" where
  "quality_count q rs = length (filter (\<lambda>r. rw_quality r = q) rs)"

text \<open>The first of the greatest counts.\<close>

definition majority_quality :: "reward_signal list \<Rightarrow> reward_quality" where
  "majority_quality rs = (let e = quality_count Excellent rs; a = quality_count Acceptable rs; p = quality_count Poor rs in
     if a \<le> e then (if p \<le> e then Excellent else Poor) else if p \<le> a then Acceptable else Poor)"

definition composite_evaluate :: "f64_ops \<Rightarrow> composite \<Rightarrow> evaluator" where
  "composite_evaluate fo c t = ebind (signals (cp_judges c) t) (\<lambda>rs. Inr \<lparr> rw_quality = majority_quality rs,
     rw_scalar = f64_clamp (foldl (\<lambda>s (r, w). fo_plus fo s (fo_times fo (rw_scalar r) w)) f64_zero (zip rs (cp_weights c))) f64_minus_one f64_one,
     rw_confidence = foldl (\<lambda>m r. f64_min m (rw_confidence r)) f64_one rs \<rparr>)"

fun comparisons :: "judge list \<Rightarrow> execution_trace \<Rightarrow> execution_trace \<Rightarrow> int list res" where
  "comparisons [] a b = Inr []"
| "comparisons (j # js) a b = ebind (jd_compare j a b) (\<lambda>r. ebind (comparisons js a b) (\<lambda>rs. Inr (r # rs)))"

definition composite_compare :: "f64_ops \<Rightarrow> composite \<Rightarrow> execution_trace \<Rightarrow> execution_trace \<Rightarrow> int res" where
  "composite_compare fo c a b = ebind (comparisons (cp_judges c) a b) (\<lambda>ks.
     let score = foldl (\<lambda>s (k, w). fo_plus fo s (fo_times fo (fo_of_int fo k) w)) f64_zero (zip ks (cp_weights c)) in
     Inr (if f64_less 0x3FB999999999999A score then 1 else if f64_less score 0xBFB999999999999A then -1 else 0))"

definition equivalence_evaluate :: evaluator where
  "equivalence_evaluate t = reward_acceptable 0x3FE0000000000000"

definition equivalence_compare :: "f64_ops \<Rightarrow> execution_trace \<Rightarrow> execution_trace \<Rightarrow> int res" where
  "equivalence_compare fo a b =
     (if hotelling_t2_test fo kConfidence (compute_fingerprint fo [et_final_result a]) (compute_fingerprint fo [et_final_result b]) \<noteq> Regression_fail
      then Inr 0
      else let scalar = (\<lambda>t. if tr_ok (et_final_result t) then f64_one else f64_minus_one);
             diff = fo_minus fo (scalar a) (scalar b) in
        Inr (if f64_less f64_zero diff then 1 else if f64_less diff f64_zero then -1 else 0))"

section \<open>Skill files\<close>

text \<open>The lines of the front matter; the name is on the first that starts with \<open>name:\<close>.\<close>

definition blank :: "char \<Rightarrow> bool" where
  "blank c \<longleftrightarrow> c = CHR '' '' \<or> c = CHR 0x09"

definition trim_blanks :: "string \<Rightarrow> string" where
  "trim_blanks s = rev (dropWhile blank (rev (dropWhile blank s)))"

fun front_name :: "string list \<Rightarrow> string" where
  "front_name [] = ''anonymous''"
| "front_name (l # ls) = (if prefix ''name:'' l
     then (let v = trim_blanks (drop 5 l) in if v \<noteq> [] then v else ''anonymous'')
     else front_name ls)"

definition parse_skill_md :: "string \<Rightarrow> string \<times> string" where
  "parse_skill_md content =
     (if \<not> prefix ''---\<newline>'' content then (''anonymous'', content)
      else case find_sub ''\<newline>---'' (drop 4 content) of
        None \<Rightarrow> (''anonymous'', content)
      | Some i \<Rightarrow> (front_name (getlines (take i (drop 4 content))),
          let body = drop (i + 8) content in if body \<noteq> [] \<and> hd body = CHR 0x0A then tl body else body))"

record compiled_skill =
  ck_ok :: bool
  ck_skill_id :: string
  ck_original :: string
  ck_content :: string
  ck_version :: string
  ck_compiled_at :: string
  ck_hash :: string
  ck_score :: "64 word"
  ck_verdict :: string
  ck_failure :: string

definition new_compiled_skill :: "string \<Rightarrow> compiled_skill" where
  "new_compiled_skill original = \<lparr> ck_ok = False, ck_skill_id = [], ck_original = original, ck_content = [],
     ck_version = ''skill-compiler-v1.0.0'', ck_compiled_at = [], ck_hash = [], ck_score = f64_zero, ck_verdict = ''NotRun'', ck_failure = [] \<rparr>"

definition skill_failed_event :: "string \<Rightarrow> string \<Rightarrow> event_builder" where
  "skill_failed_event skill reason = eb_args (jobj [(''skill_id'', JStr skill), (''reason'', JStr reason)])
     (eb_ok False (eb_new ''skill.compilation.failed''))"

definition skill_started_event :: "compiled_skill \<Rightarrow> event_builder" where
  "skill_started_event k = eb_args (jobj [(''skill_id'', JStr (ck_skill_id k)), (''original_version'', JStr ''v1''),
     (''compiler_version'', JStr (ck_version k))]) (eb_new ''skill.compilation.started'')"

definition skill_succeeded_event :: "compiled_skill \<Rightarrow> event_builder" where
  "skill_succeeded_event k = eb_args (jobj [(''skill_id'', JStr (ck_skill_id k)), (''regression_verdict'', JStr (ck_verdict k)),
     (''ievaluator_score'', JFloat (ck_score k))]) (eb_new ''skill.compilation.succeeded'')"

record compiler =
  co_evaluator :: "evaluator option"
  co_bus :: bool
  co_ops :: f64_ops
  co_ir :: ir_env
  co_time :: string

definition skill_trace :: "string \<Rightarrow> execution_trace" where
  "skill_trace skill = empty_trace \<lparr> et_final_result := tr_success (JStr (''compile:'' @ skill)) jempty, et_trace_id := ''skill-compiler:'' @ skill \<rparr>"

definition front_matter :: "f64_ops \<Rightarrow> compiled_skill \<Rightarrow> string list" where
  "front_matter fo k = [''name: '' @ ck_skill_id k, ''compiled_at: '' @ ck_compiled_at k,
     ''compiler_version: '' @ [CHR 0x22] @ ck_version k @ [CHR 0x22], ''baseline_skill_id: '' @ ck_skill_id k,
     ''trajectory_ir_hash: '' @ ck_hash k, ''ievaluator_score: '' @ fo_to_string fo (ck_score k),
     ''regression_verdict: '' @ [CHR 0x22] @ ck_verdict k @ [CHR 0x22]]"

definition compiled_text :: "f64_ops \<Rightarrow> compiled_skill \<Rightarrow> string \<Rightarrow> string" where
  "compiled_text fo k body = ''---\<newline>'' @ concat (map (\<lambda>l. l @ [CHR 0x0A]) (front_matter fo k)) @ ''---\<newline>\<newline>'' @ body"

text \<open>From the regression gate on: the hash of an empty trajectory, a comparison of a fingerprint with itself, the product.\<close>

definition compile_product :: "compiler \<Rightarrow> compiled_skill \<Rightarrow> string \<Rightarrow> compiled_skill res \<times> event_builder list" where
  "compile_product co k body = (case ir_hash (co_ir co) empty_canonical of
       Inl e \<Rightarrow> (Inl e, [])
     | Inr h \<Rightarrow> let base = compute_fingerprint (co_ops co) []; v = hotelling_t2_test (co_ops co) kConfidence base base;
           k1 = k \<lparr> ck_hash := h, ck_verdict := verdict_to_string v \<rparr> in
         if v = Regression_fail then (Inr (k1 \<lparr> ck_failure := ''regression_fail'' \<rparr>), [skill_failed_event (ck_skill_id k1) ''regression_fail''])
         else let k2 = k1 \<lparr> ck_compiled_at := co_time co \<rparr>; k3 = k2 \<lparr> ck_content := compiled_text (co_ops co) k2 body, ck_ok := True \<rparr>
           in (Inr k3, [skill_succeeded_event k3]))"

definition compile_skill :: "compiler \<Rightarrow> string \<Rightarrow> compiled_skill res \<times> event_builder list" where
  "compile_skill co content =
     (let k = new_compiled_skill content in
      if content = [] then (Inr (k \<lparr> ck_failure := ''infrastructure_error'' \<rparr>),
        if co_bus co then [skill_failed_event ''anonymous'' ''infrastructure_error''] else [])
      else case parse_skill_md content of (name, body) \<Rightarrow>
        let k1 = k \<lparr> ck_skill_id := name \<rparr>; out = (\<lambda>es. if co_bus co then skill_started_event k1 # es else []) in
        case co_evaluator co of
          None \<Rightarrow> (case compile_product co k1 body of (r, es) \<Rightarrow> (r, out es))
        | Some ev \<Rightarrow> (case ev (skill_trace name) of
              Inl e \<Rightarrow> (Inl e, out [])
            | Inr s \<Rightarrow> let k2 = k1 \<lparr> ck_score := rw_scalar s \<rparr> in
                if rw_quality s = Poor then (Inr (k2 \<lparr> ck_failure := ''quality_poor'' \<rparr>), out [skill_failed_event name ''quality_poor''])
                else (case compile_product co k2 body of (r, es) \<Rightarrow> (r, out es))))"

definition validate_skill :: "compiled_skill \<Rightarrow> bool" where
  "validate_skill k \<longleftrightarrow> ck_ok k \<and> ck_skill_id k \<noteq> [] \<and> list_all (\<lambda>f. contains_sub f (ck_content k))
     [''compiled_at:'', ''compiler_version:'', ''baseline_skill_id:'', ''trajectory_ir_hash:'', ''ievaluator_score:'', ''regression_verdict:'']"

section \<open>Facts about evaluation\<close>

lemma equal_fingerprints_pass:
  assumes "zero_arithmetic fo"
  shows "hotelling_t2_test fo kConfidence (compute_fingerprint fo []) (compute_fingerprint fo []) = Regression_pass"
proof -
  have "f64_less f64_zero kConfidence" by code_simp
  then show ?thesis using assms
    by (simp add: hotelling_t2_test_def hotelling_t2_statistic_def fp_features_def compute_fingerprint_def zero_arithmetic_def)
qed

text \<open>The quality of a composite is Poor only when more judges say Poor than Excellent, and more than Acceptable; the weights do not count.\<close>

lemma composite_quality:
  "composite_evaluate fo c t = Inr r \<Longrightarrow> \<exists>rs. signals (cp_judges c) t = Inr rs \<and>
     (rw_quality r = Poor \<longleftrightarrow> quality_count Excellent rs < quality_count Poor rs \<and> quality_count Acceptable rs < quality_count Poor rs)"
  by (cases "signals (cp_judges c) t") (auto simp: composite_evaluate_def ebind_def majority_quality_def Let_def split: if_splits)

section \<open>Compiled skills\<close>

lemma lines_end:
  assumes "\<forall>l \<in> set ls. CHR 0x0A \<notin> set l" "ls \<noteq> []" "\<forall>l \<in> set (tl ls). \<not> prefix ''---'' l" "\<forall>l \<in> set ls. 3 \<le> length l"
  shows "find_sub ''\<newline>---'' (concat (map (\<lambda>l. l @ [CHR 0x0A]) ls) @ ''---'' @ r) = Some (length (concat (map (\<lambda>l. l @ [CHR 0x0A]) ls)) - 1)"
  using assms
proof (induction ls)
  case (Cons l ls)
  have skip: "find_sub (CHR 0x0A # p) (l @ CHR 0x0A # x) = (if prefix p x then Some (length l) else map_option (\<lambda>i. i + Suc (length l)) (find_sub (CHR 0x0A # p) x))" for p x
    using Cons.prems(1) by (induction l) (auto simp: option.map_comp comp_def)
  show ?case
  proof (cases ls)
    case Nil
    then show ?thesis using skip[of "''---''" "''---'' @ r"] by simp
  next
    case (Cons m ms)
    have "\<not> prefix ''---'' m" "3 \<le> length m" using Cons.prems Cons by auto
    then have "\<not> prefix ''---'' (m @ x)" for x by (cases m; cases "tl m"; cases "tl (tl m)") auto
    then show ?thesis using skip Cons.IH Cons.prems Cons by simp
  qed
qed simp

text \<open>The text has no line break, and no blank at its ends.\<close>

definition one_line :: "string \<Rightarrow> bool" where
  "one_line s \<longleftrightarrow> CHR 0x0A \<notin> set s"

lemma trim_blanks_ends: "s \<noteq> [] \<Longrightarrow> \<not> blank (hd s) \<Longrightarrow> \<not> blank (last s) \<Longrightarrow> trim_blanks (CHR '' '' # s) = s"
proof -
  assume s: "s \<noteq> []" "\<not> blank (hd s)" "\<not> blank (last s)"
  have "dropWhile blank s = s" using s by (cases s) simp_all
  moreover have "dropWhile blank (rev s) = rev s" using s by (cases s rule: rev_cases) simp_all
  ultimately show ?thesis by (simp add: trim_blanks_def blank_def[of "CHR '' ''"])
qed

lemma trim_blanks_trimmed:
  "trim_blanks s = [] \<or> \<not> blank (hd (trim_blanks s)) \<and> \<not> blank (last (trim_blanks s))" "set (trim_blanks s) \<subseteq> set s"
proof -
  show "set (trim_blanks s) \<subseteq> set s" by (auto simp: trim_blanks_def dest!: set_dropWhileD)
  let ?a = "dropWhile blank s" and ?b = "dropWhile blank (rev (dropWhile blank s))"
  show "trim_blanks s = [] \<or> \<not> blank (hd (trim_blanks s)) \<and> \<not> blank (last (trim_blanks s))"
  proof (cases "?b = []")
    case False
    then have l: "\<not> blank (last (trim_blanks s))" using hd_dropWhile[OF False] by (simp add: trim_blanks_def last_rev)
    obtain x where "rev ?a = x @ ?b" by (metis takeWhile_dropWhile_id)
    then have a: "?a = rev ?b @ rev x" by (metis rev_append rev_rev_ident)
    have "hd ?a = hd (trim_blanks s)" unfolding trim_blanks_def using a False by (metis hd_append2 rev_is_Nil_conv)
    moreover have "?a \<noteq> []" using False by (metis dropWhile.simps(1) rev.simps(1))
    ultimately have "\<not> blank (hd (trim_blanks s))" using hd_dropWhile[of blank s] by simp
    then show ?thesis using l by simp
  qed (simp add: trim_blanks_def)
qed

definition good_name :: "string \<Rightarrow> bool" where
  "good_name s \<longleftrightarrow> s \<noteq> [] \<and> one_line s \<and> \<not> blank (hd s) \<and> \<not> blank (last s)"

lemma good_anonymous: "good_name ''anonymous''"
  by (simp add: good_name_def one_line_def blank_def)

lemma getlines_one_line: "l \<in> set (getlines s) \<Longrightarrow> one_line l"
  by (induction s arbitrary: l) (auto simp: one_line_def split: if_splits list.splits)

lemma parsed_name: "good_name (fst (parse_skill_md content))"
proof -
  have "\<forall>l \<in> set ls. one_line l \<Longrightarrow> good_name (front_name ls)" for ls
  proof (induction ls)
    case (Cons l ls)
    have "one_line (trim_blanks (drop 5 l))" using Cons.prems trim_blanks_trimmed(2)[of "drop 5 l"] set_drop_subset[of 5 l]
      by (auto simp: one_line_def)
    then show ?case using Cons trim_blanks_trimmed(1)[of "drop 5 l"] good_anonymous by (auto simp: good_name_def Let_def)
  qed (simp add: good_anonymous)
  then show ?thesis using getlines_one_line good_anonymous by (auto simp: parse_skill_md_def Let_def split: option.split)
qed

text \<open>The product reads back: the name it was given, and the body behind one more line break.\<close>

lemma compiled_text_parses:
  assumes "good_name (ck_skill_id k)" "one_line (ck_compiled_at k)" "one_line (ck_hash k)" "one_line (fo_to_string fo (ck_score k))"
    "one_line (ck_verdict k)" "one_line (ck_version k)"
  shows "parse_skill_md (compiled_text fo k body) = (ck_skill_id k, CHR 0x0A # body)"
proof -
  let ?ls = "front_matter fo k" and ?f = "concat (map (\<lambda>l. l @ [CHR 0x0A]) (front_matter fo k))"
  have ls: "\<forall>l \<in> set ?ls. CHR 0x0A \<notin> set l" "?ls \<noteq> []" "\<forall>l \<in> set (tl ?ls). \<not> prefix ''---'' l" "\<forall>l \<in> set ?ls. 3 \<le> length l"
    using assms by (simp_all add: front_matter_def one_line_def good_name_def)
  have t: "drop 4 (compiled_text fo k body) = ?f @ ''---'' @ ''\<newline>\<newline>'' @ body" by (simp add: compiled_text_def)
  have "concat (map (\<lambda>l. l @ [CHR 0x0A]) ls) = butlast (concat (map (\<lambda>l. l @ [CHR 0x0A]) ls)) @ [CHR 0x0A]" if "ls \<noteq> []" for ls
    using that by (cases ls rule: rev_cases) (simp_all add: butlast_append)
  from this[OF ls(2)] have f: "?f = butlast ?f @ [CHR 0x0A]" "length (butlast ?f) = length ?f - 1" by simp_all
  have i: "find_sub ''\<newline>---'' (drop 4 (compiled_text fo k body)) = Some (length ?f - 1)"
    unfolding t by (rule lines_end[OF ls])
  have "take (length ?f - 1) (drop 4 (compiled_text fo k body)) = butlast ?f" unfolding t by (metis f append_assoc append_eq_conv_conj)
  moreover have "\<exists>x. getlines (butlast ?f) = (''name: '' @ ck_skill_id k) # x"
  proof -
    have "butlast (l @ CHR 0x0A # c) = l @ CHR 0x0A # butlast c" if "c \<noteq> []" for l c :: string
      using that by (simp add: butlast_append)
    then obtain c where c: "butlast ?f = (''name: '' @ ck_skill_id k) @ CHR 0x0A # c"
      by (simp add: front_matter_def)
    have "CHR 0x0A \<notin> set (''name: '' @ ck_skill_id k)" using ls(1) by (simp add: front_matter_def)
    from getlines_line[OF this, of c] show ?thesis unfolding c by blast
  qed
  moreover have "front_name ((''name: '' @ ck_skill_id k) # x) = ck_skill_id k" for x
    using assms(1) trim_blanks_ends[of "ck_skill_id k"] by (simp add: good_name_def Let_def)
  moreover have "drop (length ?f - 1 + 8) (compiled_text fo k body) = ''\<newline>\<newline>'' @ body"
  proof -
    have "length ?f - 1 + 8 = 4 + (length ?f + 3)" using f by (simp add: front_matter_def)
    then have "drop (length ?f - 1 + 8) (compiled_text fo k body) = drop (length ?f + 3) (drop 4 (compiled_text fo k body))"
      by (simp only: drop_drop add.commute)
    then show ?thesis unfolding t by simp
  qed
  moreover have "prefix ''---\<newline>'' (compiled_text fo k body)" by (simp add: compiled_text_def)
  ultimately show ?thesis using i by (auto simp: parse_skill_md_def Let_def)
qed

lemma to_hex_one_line: "one_line (to_hex v)"
proof -
  have d: "CHR 0x0A \<noteq> kHex ! (m mod 16)" for m
  proof -
    have "\<forall>n \<in> set [0..<16]. CHR 0x0A \<noteq> kHex ! n" by code_simp
    then show ?thesis by simp
  qed
  have "CHR 0x0A \<notin> set out \<Longrightarrow> CHR 0x0A \<notin> set (hex_loop n out)" for n out
    by (induction n out rule: hex_loop.induct) (subst hex_loop.simps, use d in auto)
  then show ?thesis by (simp add: one_line_def to_hex_def)
qed

lemma compile_product_ok:
  assumes "compile_product co k body = (Inr k', es)" "ck_ok k'" "\<not> ck_ok k"
  shows "\<exists>h. one_line h \<and> one_line (ck_verdict k') \<and> ck_hash k' = h \<and> ck_skill_id k' = ck_skill_id k \<and> ck_version k' = ck_version k \<and>
    ck_compiled_at k' = co_time co \<and> ck_score k' = ck_score k \<and> ck_content k' = compiled_text (co_ops co) k' body"
  using assms to_hex_one_line
  by (auto simp: compile_product_def Let_def ir_hash_def verdict_to_string_def one_line_def compiled_text_def front_matter_def ebind_def
      split: sum.splits if_splits regression_verdict.splits)

text \<open>C37. What the compiler accepts it produces in a form that validates and reads back: the same name as the source and the same
  body, behind one more line break.  The time and the printed score are texts without line break.\<close>

theorem compiled_skill_reads_back:
  assumes "compile_skill co content = (Inr k, es)" "ck_ok k" "one_line (co_time co)" "\<forall>w. one_line (fo_to_string (co_ops co) w)"
  shows "validate_skill k \<and> parse_skill_md (ck_content k) = (fst (parse_skill_md content), CHR 0x0A # snd (parse_skill_md content))"
proof -
  obtain name body where p: "parse_skill_md content = (name, body)" by fastforce
  obtain k0 es' where c: "compile_product co k0 body = (Inr k, es')" "ck_skill_id k0 = name" "\<not> ck_ok k0" "ck_version k0 = ''skill-compiler-v1.0.0''"
    using assms(1,2) p by (auto simp: compile_skill_def new_compiled_skill_def Let_def split: if_splits option.splits sum.splits prod.splits)
  obtain h where k: "one_line h" "one_line (ck_verdict k)" "ck_hash k = h" "ck_skill_id k = name" "ck_version k = ''skill-compiler-v1.0.0''"
    "ck_compiled_at k = co_time co" "ck_content k = compiled_text (co_ops co) k body"
    using compile_product_ok[OF c(1) assms(2) c(3)] c(2,4) by auto
  have name: "good_name name" using parsed_name[of content] p by simp
  have "parse_skill_md (ck_content k) = (name, CHR 0x0A # body)" unfolding k(7)
    using compiled_text_parses[of k "co_ops co" body] name k assms(3,4) by (simp add: one_line_def)
  moreover have "list_all (\<lambda>f. sublist f (compiled_text fo k body)) [''compiled_at:'', ''compiler_version:'', ''baseline_skill_id:'',
     ''trajectory_ir_hash:'', ''ievaluator_score:'', ''regression_verdict:'']" for fo
  proof -
    have "sublist f (compiled_text fo k body)" if "l \<in> set (front_matter fo k)" "prefix f l" for f l
    proof -
      from split_list[OF that(1)] obtain a b where "front_matter fo k = a @ l # b" by blast
      then have "compiled_text fo k body = (''---\<newline>'' @ concat (map (\<lambda>l. l @ [CHR 0x0A]) a)) @ l @
          ([CHR 0x0A] @ concat (map (\<lambda>l. l @ [CHR 0x0A]) b) @ ''---\<newline>\<newline>'' @ body)"
        by (simp add: compiled_text_def)
      then have "sublist l (compiled_text fo k body)" by (metis sublist_appendI)
      then show ?thesis using that(2) by (metis prefix_imp_sublist sublist_order.order.trans)
    qed
    moreover have "\<forall>f \<in> set [''compiled_at:'', ''compiler_version:'', ''baseline_skill_id:'',
        ''trajectory_ir_hash:'', ''ievaluator_score:'', ''regression_verdict:'']. \<exists>l \<in> set (front_matter fo k). prefix f l"
      by (simp add: front_matter_def)
    ultimately show ?thesis unfolding list_all_iff by blast
  qed
  ultimately show ?thesis using assms(2) k(4,7) name p
    by (simp add: validate_skill_def contains_sub_sublist good_name_def)
qed

definition zero_ops :: f64_ops where
  "zero_ops = \<lparr> fo_plus = (\<lambda>a b. 0), fo_minus = (\<lambda>a b. 0), fo_times = (\<lambda>a b. 0), fo_divide = (\<lambda>a b. 0), fo_sqrt = id, fo_log = id,
     fo_of_int = (\<lambda>i. 0), fo_to_u64 = id, fo_to_string = (\<lambda>w. ''0.000000'') \<rparr>"

definition sample_compiler :: compiler where
  "sample_compiler = \<lparr> co_evaluator = None, co_bus = False, co_ops = zero_ops, co_ir = plain_env, co_time = ''now'' \<rparr>"

lemma compile_plain:
  assumes "co_evaluator co = None" "zero_arithmetic (co_ops co)" "ir_hash (co_ir co) empty_canonical = Inr h" "content \<noteq> []"
  shows "\<exists>k es. compile_skill co content = (Inr k, es) \<and> ck_ok k \<and> ck_failure k = [] \<and>
    (\<exists>k'. ck_skill_id k' = fst (parse_skill_md content) \<and> ck_content k = compiled_text (co_ops co) k' (snd (parse_skill_md content)))"
proof -
  obtain name body where "parse_skill_md content = (name, body)" by fastforce
  then show ?thesis using assms equal_fingerprints_pass[OF assms(2)]
    by (simp add: compile_skill_def compile_product_def Let_def new_compiled_skill_def)
      (intro exI, rule conjI[rotated], rule refl, simp)
qed

lemma sample_compiles: "zero_arithmetic zero_ops" "ir_hash plain_env empty_canonical = Inr ''5''"
proof -
  show "zero_arithmetic zero_ops" by (simp add: zero_arithmetic_def zero_ops_def f64_zero_def)
  have "to_hex 5 = ''5''" by code_simp
  then show "ir_hash plain_env empty_canonical = Inr ''5''"
    by (simp add: ir_hash_def canonical_text_def plain_env_def empty_canonical_def)
qed

lemma compiled_skill_reads_back_witness:
  "\<exists>k es. compile_skill sample_compiler ''---\<newline>name: x\<newline>---\<newline>hi'' = (Inr k, es) \<and> validate_skill k \<and>
    parse_skill_md (ck_content k) = (''x'', ''\<newline>hi'')"
proof -
  let ?s = "''---\<newline>name: x\<newline>---\<newline>hi''"
  have p: "parse_skill_md ?s = (''x'', ''hi'')" by (simp add: parse_skill_md_def trim_blanks_def blank_def)
  have h: "co_evaluator sample_compiler = None" "zero_arithmetic (co_ops sample_compiler)"
    "ir_hash (co_ir sample_compiler) empty_canonical = Inr ''5''" "?s \<noteq> []"
    "one_line (co_time sample_compiler)" "\<forall>w. one_line (fo_to_string (co_ops sample_compiler) w)"
    using sample_compiles by (simp_all add: sample_compiler_def one_line_def zero_ops_def)
  obtain k es where "compile_skill sample_compiler ?s = (Inr k, es)" "ck_ok k" using compile_plain[OF h(1-4)] by blast
  with compiled_skill_reads_back[OF this h(5,6)] p show ?thesis by auto
qed

end
