(* ===== verification/Gepa.thy ===== *)
theory Gepa
  imports Skills Evolution
begin

text \<open>
  The reflection loop: modules/cognitive/gepa_loop.cpp.  It connects evaluator, governor, language model, skill compiler, the
  evolution budget and the genome registry.  The language model answers by the number of the call and the prompt; the
  events of the loop and those of the governor are kept apart, each in its order.
\<close>

section \<open>Configuration and state\<close>

record gepa_config =
  gg_threshold :: "64 word"
  gg_max_iterations :: int
  gg_source_id :: string
  gg_registry :: "genome_env option"
  gg_genome_name :: string
  gg_parent_version :: "64 word"

definition default_gepa_config :: gepa_config where
  "default_gepa_config = \<lparr> gg_threshold = f64_zero, gg_max_iterations = 3, gg_source_id = ''R_T19_GEPA'', gg_registry = None,
     gg_genome_name = [], gg_parent_version = 0 \<rparr>"

record gepa_loop =
  gl_evaluator :: "evaluator option"
  gl_governor :: "governor option"
  gl_llm :: "(nat \<Rightarrow> string \<Rightarrow> string option res) option"
  gl_bus :: bool
  gl_config :: gepa_config
  gl_ops :: f64_ops
  gl_ir :: ir_env
  gl_time :: "nat \<Rightarrow> string"

record gepa_world =
  gw_calls :: nat
  gw_budget :: "budget_controller option"
  gw_genomes :: genome_store
  gw_audit :: "event_builder list"
  gw_events :: "event_builder list"

record reflection_result =
  rr_success :: bool
  rr_failure_mode :: string
  rr_candidates :: "string list"

definition reflection_failed :: "string \<Rightarrow> reflection_result" where
  "reflection_failed m = \<lparr> rr_success = False, rr_failure_mode = m, rr_candidates = [] \<rparr>"

text \<open>What one iteration does to the loop: it sets the failure mode and the loop goes on, or ends; or it succeeds with a candidate
  and leaves the failure mode as it was.\<close>

datatype gepa_step = Go_on string | Stop string | Succeed string

definition gepa_emit :: "gepa_loop \<Rightarrow> string \<Rightarrow> (string \<times> json) list \<Rightarrow> gepa_world \<Rightarrow> gepa_world" where
  "gepa_emit g topic kvs w = (if gl_bus g then w \<lparr> gw_events := gw_events w @ [eb_args (jobj kvs) (eb_new topic)] \<rparr> else w)"

definition make_reflection_id :: "execution_trace \<Rightarrow> nat \<Rightarrow> string" where
  "make_reflection_id t i = et_trace_id t @ '':reflection:'' @ nat_str i"

definition gepa_denied :: "gepa_loop \<Rightarrow> string \<Rightarrow> string \<Rightarrow> string \<Rightarrow> gepa_world \<Rightarrow> gepa_world" where
  "gepa_denied g rid mode reason w = gepa_emit g ''gepa.commit.denied'' [(''reflection_id'', JStr rid), (''reason'', JStr reason)]
     (gepa_emit g ''gepa.reflection.failed'' [(''reflection_id'', JStr rid), (''reason'', JStr mode)] w)"

definition gepa_proposal :: "gepa_loop \<Rightarrow> execution_trace \<Rightarrow> string \<Rightarrow> mutation_context" where
  "gepa_proposal g t rid = default_mutation \<lparr> mc_mutation_id := rid, mc_source_id := gg_source_id (gl_config g),
     mc_mutation_kind := ''L1_prompt'', mc_subject_ref := et_trace_id t, mc_parent_ref := et_trace_id t,
     mc_proposed_change := ''GEPA reflection candidate'', mc_mode := Mutation_yolo \<rparr>"

definition reflection_prompt :: "execution_trace \<Rightarrow> string" where
  "reflection_prompt t = ''Reflect on failed execution '' @ et_trace_id t"

definition gepa_compiler :: "gepa_loop \<Rightarrow> nat \<Rightarrow> compiler" where
  "gepa_compiler g n = \<lparr> co_evaluator = None, co_bus = False, co_ops = gl_ops g, co_ir = gl_ir g, co_time = gl_time g n \<rparr>"

definition candidate_text :: "string \<Rightarrow> string \<Rightarrow> string" where
  "candidate_text rid txt = ''---\<newline>name: '' @ rid @ ''\<newline>---\<newline>\<newline>'' @ txt"

definition gepa_verdict :: "gepa_loop \<Rightarrow> regression_verdict" where
  "gepa_verdict g = (let base = compute_fingerprint (gl_ops g) [] in hotelling_t2_test (gl_ops g) kConfidence base base)"

section \<open>One iteration\<close>

text \<open>The governor's commit of a proposal whose version has been chosen.\<close>

definition gepa_commit :: "gepa_loop \<Rightarrow> governor \<Rightarrow> string \<Rightarrow> mutation_context \<Rightarrow> 64 word \<Rightarrow> string \<Rightarrow> (gepa_step, gepa_world) act" where
  "gepa_commit g gov rid c version content w = (case commit_mutation gov c of (r, es) \<Rightarrow>
     let w1 = w \<lparr> gw_audit := gw_audit w @ es \<rparr> in
     case r of
       Inl e \<Rightarrow> (Inl e, w1)
     | Inr d \<Rightarrow> if \<not> dc_approved d then (Inr (Go_on ''commit_denied''), gepa_denied g rid ''commit_denied'' (dc_denial_reason d) w1)
         else (Inr (Succeed content),
           gepa_emit g ''gepa.commit.committed'' [(''reflection_id'', JStr rid), (''commit_id'', JStr (mc_version_id c)),
               (''evaluation_refs'', json_texts (mc_evaluation_refs c)), (''genome_version'', JInt (uint version))]
             (gepa_emit g ''gepa.reflection.completed'' [(''reflection_id'', JStr rid),
                (''regression_verdict'', JStr (verdict_to_string (gepa_verdict g)))] w1)))"

text \<open>Persist, then commit.\<close>

definition gepa_persist :: "gepa_loop \<Rightarrow> governor \<Rightarrow> string \<Rightarrow> mutation_context \<Rightarrow> string \<Rightarrow> (gepa_step, gepa_world) act" where
  "gepa_persist g gov rid proposal content w =
     (let c = proposal \<lparr> mc_version_id := rid, mc_evaluation_refs := [rid] \<rparr>; name = gg_genome_name (gl_config g) in
      case gg_registry (gl_config g) of
        None \<Rightarrow> gepa_commit g gov rid c 0 content w
      | Some env \<Rightarrow>
          if name = [] then gepa_commit g gov rid c 0 content w
          else case fork_genome env name (gg_parent_version (gl_config g)) (empty_spec \<lparr> gs_harness := content \<rparr>) (gw_genomes w) of
            (Inl e, s) \<Rightarrow> (Inl e, w \<lparr> gw_genomes := s \<rparr>)
          | (Inr (Inl _), s) \<Rightarrow> (Inr (Go_on ''genome_persist_failed''),
              gepa_denied g rid ''genome_persist_failed'' ''genome_persist_failed'' (w \<lparr> gw_genomes := s \<rparr>))
          | (Inr (Inr v), s) \<Rightarrow> gepa_commit g gov rid (c \<lparr> mc_version_id := genome_ref name v \<rparr>) v content (w \<lparr> gw_genomes := s \<rparr>))"

definition candidate_trace :: "string \<Rightarrow> string \<Rightarrow> execution_trace" where
  "candidate_trace rid txt = empty_trace \<lparr> et_final_result := tr_success (JStr txt) jempty, et_trace_id := rid \<rparr>"

text \<open>From the text the model gave: compile, compare, evaluate.\<close>

definition gepa_judge :: "gepa_loop \<Rightarrow> evaluator \<Rightarrow> governor \<Rightarrow> reward_signal \<Rightarrow> string \<Rightarrow> mutation_context \<Rightarrow> string \<Rightarrow> (gepa_step, gepa_world) act" where
  "gepa_judge g ev gov failed rid proposal txt w =
     (case fst (compile_skill (gepa_compiler g (gw_calls w)) (candidate_text rid txt)) of
        Inl e \<Rightarrow> (Inl e, w)
      | Inr k \<Rightarrow>
          if \<not> ck_ok k then (Inr (Go_on ''skill_compilation_failed''), gepa_denied g rid ''skill_compilation_failed'' ''skill_compilation_failed'' w)
          else if gepa_verdict g = Regression_fail
          then (Inr (Stop ''behavioral_regression_failed''), gepa_denied g rid ''behavioral_regression_failed'' ''behavioral_regression_failed'' w)
          else case ev (candidate_trace rid txt) of
            Inl e \<Rightarrow> (Inl e, w)
          | Inr s \<Rightarrow>
              if f64_le (rw_scalar s) (fo_plus (gl_ops g) (rw_scalar failed) (gg_threshold (gl_config g)))
              then (Inr (Go_on ''no_improvement''), gepa_emit g ''gepa.commit.denied'' [(''reflection_id'', JStr rid), (''reason'', JStr ''no_improvement'')]
                (gepa_emit g ''gepa.reflection.completed'' [(''reflection_id'', JStr rid),
                   (''regression_verdict'', JStr (verdict_to_string (gepa_verdict g)))] w))
              else gepa_persist g gov rid proposal (ck_content k) w)"

text \<open>From the proposal on.\<close>

definition gepa_reflect :: "gepa_loop \<Rightarrow> evaluator \<Rightarrow> governor \<Rightarrow> (nat \<Rightarrow> string \<Rightarrow> string option res) \<Rightarrow> execution_trace \<Rightarrow> reward_signal \<Rightarrow>
    string \<Rightarrow> nat \<Rightarrow> (gepa_step, gepa_world) act" where
  "gepa_reflect g ev gov llm t failed hash i w =
     (let rid = make_reflection_id t i; proposal = gepa_proposal g t rid;
          w0 = gepa_emit g ''gepa.reflection.started'' [(''reflection_id'', JStr rid), (''trajectory_ir_hash'', JStr hash)] w in
      case propose gov proposal of (r, es) \<Rightarrow>
        let w1 = w0 \<lparr> gw_audit := gw_audit w0 @ es \<rparr> in
        case r of
          Inl e \<Rightarrow> (Inl e, w1)
        | Inr d \<Rightarrow>
            let w2 = gepa_emit g ''gepa.commit.proposed'' [(''reflection_id'', JStr rid), (''candidate_skill'', JStr (mc_proposed_change proposal))] w1 in
            if \<not> dc_approved d then (Inr (Go_on ''proposal_denied''), gepa_denied g rid ''proposal_denied'' (dc_denial_reason d) w2)
            else let w3 = w2 \<lparr> gw_calls := Suc (gw_calls w2) \<rparr> in
              case llm (gw_calls w2) (reflection_prompt t) of
                Inl e \<Rightarrow> (Inl e, w3)
              | Inr None \<Rightarrow> (Inr (Go_on ''reflection_generation_failed''), gepa_denied g rid ''reflection_generation_failed'' ''reflection_generation_failed'' w3)
              | Inr (Some txt) \<Rightarrow> gepa_judge g ev gov failed rid proposal txt w3)"

definition gepa_iteration :: "gepa_loop \<Rightarrow> evaluator \<Rightarrow> governor \<Rightarrow> (nat \<Rightarrow> string \<Rightarrow> string option res) \<Rightarrow> execution_trace \<Rightarrow> reward_signal \<Rightarrow>
    string \<Rightarrow> nat \<Rightarrow> (gepa_step, gepa_world) act" where
  "gepa_iteration g ev gov llm t failed hash i w = (case gw_budget w of
       None \<Rightarrow> gepa_reflect g ev gov llm t failed hash i w
     | Some b \<Rightarrow> (case bc_try_consume_evolution_llm_call b of (ok, b') \<Rightarrow>
         let w1 = w \<lparr> gw_budget := Some b' \<rparr> in
         if \<not> ok then (Inr (Stop ''evolution_budget_exceeded''),
           gepa_emit g ''gepa.reflection.failed'' [(''reason'', JStr ''evolution_budget_exceeded''), (''iterations_used'', JInt (int i))] w1)
         else gepa_reflect g ev gov llm t failed hash i w1))"

section \<open>The loop\<close>

text \<open>\<open>n\<close> iterations are left, \<open>i\<close> are done, the last of which failed with \<open>mode\<close>, which a later success keeps.\<close>

primrec gepa_iterations :: "nat \<Rightarrow> gepa_loop \<Rightarrow> evaluator \<Rightarrow> governor \<Rightarrow> (nat \<Rightarrow> string \<Rightarrow> string option res) \<Rightarrow> execution_trace \<Rightarrow>
    reward_signal \<Rightarrow> string \<Rightarrow> nat \<Rightarrow> string \<Rightarrow> (reflection_result, gepa_world) act" where
  "gepa_iterations 0 g ev gov llm t failed hash i mode w = (Inr (reflection_failed mode), w)"
| "gepa_iterations (Suc n) g ev gov llm t failed hash i mode w = (case gepa_iteration g ev gov llm t failed hash i w of
       (Inl e, w1) \<Rightarrow> (Inl e, w1)
     | (Inr (Stop m), w1) \<Rightarrow> (Inr (reflection_failed m), w1)
     | (Inr (Succeed c), w1) \<Rightarrow> (Inr \<lparr> rr_success = True, rr_failure_mode = mode, rr_candidates = [c] \<rparr>, w1)
     | (Inr (Go_on m), w1) \<Rightarrow> gepa_iterations n g ev gov llm t failed hash (Suc i) m w1)"

definition reflect_and_commit :: "gepa_loop \<Rightarrow> execution_trace \<Rightarrow> (reflection_result, gepa_world) act" where
  "reflect_and_commit g t w = (case (gl_evaluator g, gl_governor g, gl_llm g) of
       (Some ev, Some gov, Some llm) \<Rightarrow>
         if gg_max_iterations (gl_config g) \<le> 0 then (Inr (reflection_failed ''invalid_configuration''), w)
         else (case ev t of
             Inl e \<Rightarrow> (Inl e, w)
           | Inr failed \<Rightarrow> (case ir_hash (gl_ir g) empty_canonical of
                 Inl e \<Rightarrow> (Inl e, w)
               | Inr hash \<Rightarrow> gepa_iterations (nat (gg_max_iterations (gl_config g))) g ev gov llm t failed hash 0 [] w))
     | _ \<Rightarrow> (Inr (reflection_failed ''invalid_configuration''), w))"

section \<open>What an iteration can do\<close>

definition committed :: "event_builder list \<Rightarrow> nat" where
  "committed es = length (filter (\<lambda>e. eb_topic e = ''mutation.committed'') es)"

lemma committed_simps [simp]: "committed [] = 0" "committed (a @ b) = committed a + committed b"
  "committed [mutation_denied_event c r s] = 0" "committed [mutation_event ''mutation.committed'' j c] = 1"
  by (simp_all add: committed_def mutation_denied_event_def mutation_event_def eb_new_def eb_args_def eb_ok_def eb_meta_def)

lemma gepa_emit_simps [simp]:
  "gw_calls (gepa_emit g topic kvs w) = gw_calls w" "gw_budget (gepa_emit g topic kvs w) = gw_budget w"
  "gw_genomes (gepa_emit g topic kvs w) = gw_genomes w" "gw_audit (gepa_emit g topic kvs w) = gw_audit w"
  by (simp_all add: gepa_emit_def)

lemma gepa_denied_simps [simp]:
  "gw_calls (gepa_denied g rid m r w) = gw_calls w" "gw_budget (gepa_denied g rid m r w) = gw_budget w"
  "gw_genomes (gepa_denied g rid m r w) = gw_genomes w" "gw_audit (gepa_denied g rid m r w) = gw_audit w"
  by (simp_all add: gepa_denied_def)

text \<open>The outcomes a run can have; the others the code names are unreachable with this governor, compiler and gate.\<close>

definition gepa_modes :: "string list" where
  "gepa_modes = [[], ''invalid_configuration'', ''evolution_budget_exceeded'', ''proposal_denied'', ''reflection_generation_failed'',
     ''no_improvement'', ''genome_persist_failed'']"

text \<open>An improvement: the compiled text of some answer, whose evaluation is not at most the failed one plus the threshold; a score that is
  not a number counts as one.\<close>

definition improved :: "gepa_loop \<Rightarrow> evaluator \<Rightarrow> reward_signal \<Rightarrow> string \<Rightarrow> bool" where
  "improved g ev failed content \<longleftrightarrow> (\<exists>rid txt n k s. fst (compile_skill (gepa_compiler g n) (candidate_text rid txt)) = Inr k \<and> ck_ok k \<and>
     content = ck_content k \<and> ev (candidate_trace rid txt) = Inr s \<and>
     \<not> f64_le (rw_scalar s) (fo_plus (gl_ops g) (rw_scalar failed) (gg_threshold (gl_config g))))"

definition persisted :: "gepa_loop \<Rightarrow> gepa_world \<Rightarrow> string \<Rightarrow> bool" where
  "persisted g w' content \<longleftrightarrow> (case gg_registry (gl_config g) of
       None \<Rightarrow> True
     | Some env \<Rightarrow> gg_genome_name (gl_config g) = [] \<or> (\<exists>v s.
         fork_genome env (gg_genome_name (gl_config g)) (gg_parent_version (gl_config g)) (empty_spec \<lparr> gs_harness := content \<rparr>) s =
           (Inr (Inr v), gw_genomes w')))"

definition step_ok :: "gepa_loop \<Rightarrow> evaluator \<Rightarrow> reward_signal \<Rightarrow> gepa_world \<Rightarrow> gepa_step \<Rightarrow> gepa_world \<Rightarrow> bool" where
  "step_ok g ev failed w st w' \<longleftrightarrow> (\<exists>es. gw_audit w' = gw_audit w @ es \<and> (case st of
       Go_on m \<Rightarrow> committed es = 0 \<and> m \<in> set gepa_modes
     | Stop m \<Rightarrow> committed es = 0 \<and> m = ''evolution_budget_exceeded''
     | Succeed content \<Rightarrow> committed es = 1 \<and> improved g ev failed content \<and> persisted g w' content))"

lemma approved_source: "propose gov c = (Inr d, es) \<Longrightarrow> dc_approved d \<Longrightarrow> source_allowed gov (mc_source_id c)"
  using propose_cases[of gov c] by (auto simp: decided_def cleared_def split: if_splits)

lemma propose_commits_nothing: "propose gov c = (r, es) \<Longrightarrow> committed es = 0"
proof -
  have "committed [proposed_event c] = 0"
    by (simp add: committed_def proposed_event_def mutation_event_def eb_new_def eb_args_def eb_meta_def)
  then show "propose gov c = (r, es) \<Longrightarrow> committed es = 0"
    using propose_cases[of gov c] by (auto simp: decided_def split: if_splits)
qed

lemma gepa_commit_result:
  assumes "source_allowed gov (mc_source_id c)" "mc_evaluation_refs c \<noteq> []"
  shows "\<exists>w'. gepa_commit g gov rid c v content w = (Inr (Succeed content), w') \<and>
    gw_audit w' = gw_audit w @ [mutation_event ''mutation.committed'' (committed_json c) c] \<and> gw_calls w' = gw_calls w \<and>
    gw_budget w' = gw_budget w \<and> gw_genomes w' = gw_genomes w"
  using assms by (simp add: gepa_commit_def commit_mutation_def approved_decision_def Let_def)

lemma gepa_persist_result:
  assumes "source_allowed gov (mc_source_id p)" "gepa_persist g gov rid p content w = (Inr st, w')"
  shows "gw_calls w' = gw_calls w \<and> gw_budget w' = gw_budget w \<and>
    (st = Go_on ''genome_persist_failed'' \<and> gw_audit w' = gw_audit w \<or>
     st = Succeed content \<and>
       (\<exists>e. gw_audit w' = gw_audit w @ [e] \<and> committed [e] = 1) \<and>
       persisted g w' content)"
proof -
  let ?c = "p \<lparr> mc_version_id := rid, mc_evaluation_refs := [rid] \<rparr>"
  note commit = gepa_commit_result[of gov ?c g rid 0 content w]
  show ?thesis
  proof (cases "gg_registry (gl_config g) = None \<or> gg_genome_name (gl_config g) = []")
    case True
    then have "gepa_persist g gov rid p content w = gepa_commit g gov rid ?c 0 content w"
      by (auto simp: gepa_persist_def Let_def split: option.split)
    then show ?thesis using commit assms True by (auto simp: persisted_def split: option.split)
  next
    case False
    then obtain env where env: "gg_registry (gl_config g) = Some env" "gg_genome_name (gl_config g) \<noteq> []" by auto
    obtain r s where f: "fork_genome env (gg_genome_name (gl_config g)) (gg_parent_version (gl_config g)) (empty_spec \<lparr> gs_harness := content \<rparr>) (gw_genomes w) = (r, s)"
      by fastforce
    show ?thesis
    proof (cases r)
      case (Inr x)
      show ?thesis
      proof (cases x)
        case (Inr v)
        then show ?thesis using assms env f \<open>r = Inr x\<close>
          gepa_commit_result[of gov "?c \<lparr> mc_version_id := genome_ref (gg_genome_name (gl_config g)) v \<rparr>" g rid v content "w \<lparr> gw_genomes := s \<rparr>"]
          by (auto simp: gepa_persist_def persisted_def Let_def)
      qed (use assms env f \<open>r = Inr x\<close> in \<open>auto simp: gepa_persist_def Let_def\<close>)
    qed (use assms env f in \<open>auto simp: gepa_persist_def Let_def\<close>)
  qed
qed

lemma gepa_verdict_passes: "zero_arithmetic (gl_ops g) \<Longrightarrow> gepa_verdict g = Regression_pass"
  by (simp add: gepa_verdict_def equal_fingerprints_pass Let_def)

lemma candidate_compiles:
  assumes "zero_arithmetic (gl_ops g)" "ir_hash (gl_ir g) empty_canonical = Inr h"
  shows "\<exists>k. fst (compile_skill (gepa_compiler g n) (candidate_text rid txt)) = Inr k \<and> ck_ok k"
  using compile_plain[of "gepa_compiler g n" h "candidate_text rid txt"] assms
  by (auto simp: gepa_compiler_def candidate_text_def)

lemma gepa_judge_result:
  assumes "zero_arithmetic (gl_ops g)" "ir_hash (gl_ir g) empty_canonical = Inr h" "source_allowed gov (mc_source_id p)"
    "gepa_judge g ev gov failed rid p txt w = (Inr st, w')"
  shows "gw_calls w' = gw_calls w \<and> gw_budget w' = gw_budget w \<and> step_ok g ev failed w st w'"
proof -
  obtain k where k: "fst (compile_skill (gepa_compiler g (gw_calls w)) (candidate_text rid txt)) = Inr k" "ck_ok k"
    using candidate_compiles[OF assms(1,2)] by blast
  have v: "gepa_verdict g \<noteq> Regression_fail" using gepa_verdict_passes[OF assms(1)] by simp
  obtain s where s: "ev (candidate_trace rid txt) = Inr s"
    using assms(4) k v by (auto simp: gepa_judge_def split: sum.splits)
  show ?thesis
  proof (cases "f64_le (rw_scalar s) (fo_plus (gl_ops g) (rw_scalar failed) (gg_threshold (gl_config g)))")
    case True
    then show ?thesis using assms(4) k v s by (auto simp: gepa_judge_def step_ok_def gepa_modes_def)
  next
    case False
    then have p: "gepa_persist g gov rid p (ck_content k) w = (Inr st, w')" using assms(4) k v s by (simp add: gepa_judge_def)
    have "improved g ev failed (ck_content k)"
      using k s False unfolding improved_def by fastforce
    then show ?thesis using gepa_persist_result[OF assms(3) p] by (auto simp: step_ok_def gepa_modes_def)
  qed
qed

lemma step_ok_behind:
  assumes "step_ok g ev failed w1 st w'" "gw_audit w1 = gw_audit w @ es" "committed es = 0"
  shows "step_ok g ev failed w st w'"
proof -
  obtain es' where "gw_audit w' = gw_audit w @ es @ es'" "case st of
       Go_on m \<Rightarrow> committed es' = 0 \<and> m \<in> set gepa_modes
     | Stop m \<Rightarrow> committed es' = 0 \<and> m = ''evolution_budget_exceeded''
     | Succeed content \<Rightarrow> committed es' = 1 \<and> improved g ev failed content \<and> persisted g w' content"
    using assms(1,2) by (auto simp: step_ok_def)
  then show ?thesis using assms(3) unfolding step_ok_def by (intro exI[of _ "es @ es'"]) (auto split: gepa_step.split)
qed

lemma gepa_reflect_result:
  assumes "zero_arithmetic (gl_ops g)" "ir_hash (gl_ir g) empty_canonical = Inr h"
    "gepa_reflect g ev gov llm t failed hash i w = (Inr st, w')"
  shows "gw_calls w' \<le> Suc (gw_calls w) \<and> gw_budget w' = gw_budget w \<and> step_ok g ev failed w st w'"
proof -
  let ?rid = "make_reflection_id t i" and ?p = "gepa_proposal g t (make_reflection_id t i)"
  obtain r es where r: "propose gov ?p = (r, es)" by fastforce
  note none = propose_commits_nothing[OF r]
  obtain d where d: "r = Inr d" using assms(3) r by (auto simp: gepa_reflect_def Let_def split: sum.splits)
  show ?thesis
  proof (cases "dc_approved d")
    case False
    then show ?thesis using assms(3) r d none
      by (auto simp: gepa_reflect_def Let_def step_ok_def gepa_modes_def)
  next
    case True
    note src = approved_source[OF r[unfolded d] True]
    define w1 where "w1 = (let w0 = gepa_emit g ''gepa.reflection.started'' [(''reflection_id'', JStr ?rid), (''trajectory_ir_hash'', JStr hash)] w in
      (gepa_emit g ''gepa.commit.proposed'' [(''reflection_id'', JStr ?rid), (''candidate_skill'', JStr (mc_proposed_change ?p))]
        (w0\<lparr>gw_audit := gw_audit w0 @ es\<rparr>))\<lparr>gw_calls := Suc (gw_calls w)\<rparr>)"
    have w1: "gw_calls w1 = Suc (gw_calls w)" "gw_budget w1 = gw_budget w" "gw_audit w1 = gw_audit w @ es"
      by (simp_all add: w1_def Let_def)
    have "gepa_reflect g ev gov llm t failed hash i w = (case llm (gw_calls w) (reflection_prompt t) of
          Inl e \<Rightarrow> (Inl e, w1)
        | Inr None \<Rightarrow> (Inr (Go_on ''reflection_generation_failed''), gepa_denied g ?rid ''reflection_generation_failed'' ''reflection_generation_failed'' w1)
        | Inr (Some txt) \<Rightarrow> gepa_judge g ev gov failed ?rid ?p txt w1)"
      using True r d by (simp add: gepa_reflect_def w1_def Let_def split: sum.split option.split)
    then consider "st = Go_on ''reflection_generation_failed''" "w' = gepa_denied g ?rid ''reflection_generation_failed'' ''reflection_generation_failed'' w1"
      | answer where "gepa_judge g ev gov failed ?rid ?p answer w1 = (Inr st, w')"
      using assms(3) by (auto split: sum.splits option.splits)
    then show ?thesis
    proof cases
      case 1
      then show ?thesis using w1 none by (auto simp: step_ok_def gepa_modes_def)
    next
      case 2
      from gepa_judge_result[OF assms(1,2) src 2] w1 show ?thesis using step_ok_behind[OF _ w1(3) none] by auto
    qed
  qed
qed

section \<open>What a run can do\<close>

text \<open>What is left of the evolution budget, when it has a limit.\<close>

definition evolution_left :: "gepa_world \<Rightarrow> int option" where
  "evolution_left w = (case gw_budget w of None \<Rightarrow> None | Some c \<Rightarrow> (case budget_opt c of None \<Rightarrow> None
     | Some b \<Rightarrow> if max_evolution_llm_calls b < 0 then None else Some (max_evolution_llm_calls b - evolution_llm_calls_used b)))"

definition paid :: "gepa_world \<Rightarrow> gepa_world \<Rightarrow> bool" where
  "paid w w' \<longleftrightarrow> (\<forall>k. evolution_left w = Some k \<longrightarrow> 0 \<le> k \<longrightarrow>
     (\<exists>k'. evolution_left w' = Some k' \<and> 0 \<le> k' \<and> int (gw_calls w') + k' \<le> int (gw_calls w) + k))"

lemma paid_trans: "paid a b \<Longrightarrow> paid b c \<Longrightarrow> paid a c"
  unfolding paid_def by (meson order_trans)

lemma gepa_iteration_result:
  assumes "zero_arithmetic (gl_ops g)" "ir_hash (gl_ir g) empty_canonical = Inr h"
    "gepa_iteration g ev gov llm t failed hash i w = (Inr st, w')"
  shows "gw_calls w' \<le> Suc (gw_calls w) \<and> paid w w' \<and> step_ok g ev failed w st w'"
proof (cases "gw_budget w")
  case None
  then have "gepa_reflect g ev gov llm t failed hash i w = (Inr st, w')" using assms(3) by (simp add: gepa_iteration_def)
  from gepa_reflect_result[OF assms(1,2) this] show ?thesis using None by (simp add: paid_def evolution_left_def)
next
  case (Some c)
  obtain ok c' where c: "bc_try_consume_evolution_llm_call c = (ok, c')" by fastforce
  let ?w = "w \<lparr> gw_budget := Some c' \<rparr>"
  show ?thesis
  proof (cases ok)
    case False
    then have "c' = c" using c by (auto simp: bc_try_consume_evolution_llm_call_def on_budget_def try_consume_evolution_llm_call_def
        split: option.splits if_splits)
    then show ?thesis using assms(3) Some c False
      by (auto simp: gepa_iteration_def step_ok_def reflection_failed_def paid_def evolution_left_def)
  next
    case True
    then have "gepa_reflect g ev gov llm t failed hash i ?w = (Inr st, w')" using assms(3) Some c by (simp add: gepa_iteration_def)
    note r = gepa_reflect_result[OF assms(1,2) this]
    have "paid w w'" unfolding paid_def
    proof (intro allI impI)
      fix k assume k: "evolution_left w = Some k" "0 \<le> k"
      then obtain b where b: "budget_opt c = Some b" "0 \<le> max_evolution_llm_calls b" "k = max_evolution_llm_calls b - evolution_llm_calls_used b"
        using Some by (auto simp: evolution_left_def split: option.splits if_splits)
      then have "budget_opt c' = Some (b \<lparr> evolution_llm_calls_used := evolution_llm_calls_used b + 1 \<rparr>)"
          "evolution_llm_calls_used b < max_evolution_llm_calls b" using c True
        by (auto simp: bc_try_consume_evolution_llm_call_def on_budget_def try_consume_evolution_llm_call_def split: if_splits)
      then have "evolution_left w' = Some (k - 1)" "0 \<le> k - 1" using r b by (simp_all add: evolution_left_def)
      moreover have "gw_calls w' \<le> Suc (gw_calls w)" using r by simp
      ultimately show "\<exists>k'. evolution_left w' = Some k' \<and> 0 \<le> k' \<and> int (gw_calls w') + k' \<le> int (gw_calls w) + k" by auto
    qed
    then show ?thesis using r by (auto simp: step_ok_def)
  qed
qed

definition run_ok :: "gepa_loop \<Rightarrow> evaluator \<Rightarrow> reward_signal \<Rightarrow> gepa_world \<Rightarrow> reflection_result \<Rightarrow> gepa_world \<Rightarrow> bool" where
  "run_ok g ev failed w r w' \<longleftrightarrow> (\<exists>es. gw_audit w' = gw_audit w @ es \<and> committed es = (if rr_success r then 1 else 0)) \<and>
     rr_failure_mode r \<in> set gepa_modes \<and>
     (if rr_success r then \<exists>content. rr_candidates r = [content] \<and> improved g ev failed content \<and> persisted g w' content
      else rr_candidates r = [])"

lemma gepa_iterations_result:
  assumes "zero_arithmetic (gl_ops g)" "ir_hash (gl_ir g) empty_canonical = Inr h"
  shows "gepa_iterations n g ev gov llm t failed hash i mode w = (Inr r, w') \<Longrightarrow> mode \<in> set gepa_modes \<Longrightarrow>
    gw_calls w' \<le> gw_calls w + n \<and> paid w w' \<and> run_ok g ev failed w r w'"
proof (induction n arbitrary: i mode w)
  case 0
  then show ?case by (auto simp: run_ok_def reflection_failed_def paid_def)
next
  case (Suc n)
  obtain st w1 where s: "gepa_iteration g ev gov llm t failed hash i w = (Inr st, w1)"
    using Suc.prems(1) by (auto split: prod.splits sum.splits)
  note step = gepa_iteration_result[OF assms s]
  show ?case
  proof (cases st)
    case (Go_on m)
    then have "gepa_iterations n g ev gov llm t failed hash (Suc i) m w1 = (Inr r, w')" "m \<in> set gepa_modes"
      using Suc.prems(1) s step by (auto simp: step_ok_def)
    note rest = Suc.IH[OF this]
    obtain es where "gw_audit w1 = gw_audit w @ es" "committed es = 0" using step Go_on by (auto simp: step_ok_def)
    then have "run_ok g ev failed w r w'" using rest unfolding run_ok_def by (metis append_assoc committed_simps(2) add_0)
    then show ?thesis using rest step paid_trans by fastforce
  next
    case (Stop m)
    then have "r = reflection_failed m" "w1 = w'" using Suc.prems(1) s by simp_all
    then show ?thesis using step Stop by (auto simp: run_ok_def step_ok_def reflection_failed_def gepa_modes_def)
  next
    case (Succeed c)
    then have "r = \<lparr> rr_success = True, rr_failure_mode = mode, rr_candidates = [c] \<rparr>" "w1 = w'" using Suc.prems(1) s by simp_all
    then show ?thesis using step Succeed Suc.prems(2) by (auto simp: run_ok_def step_ok_def)
  qed
qed


text \<open>A loop over no arithmetic, whose evaluator finds everything acceptable.\<close>

definition sample_loop :: gepa_loop where
  "sample_loop = \<lparr> gl_evaluator = Some (\<lambda>_. reward_acceptable f64_one),
     gl_governor = Some \<lparr> go_evaluator = (\<lambda>_. reward_acceptable f64_one), go_whitelist = [''R_T19_GEPA''], go_approval = None, go_regression = None \<rparr>,
     gl_llm = Some (\<lambda>n p. Inr (Some ''again'')), gl_bus = True, gl_config = default_gepa_config \<lparr> gg_threshold := f64_minus_one \<rparr>,
     gl_ops = zero_ops \<lparr> fo_plus := (\<lambda>a b. if b = f64_zero then f64_zero else f64_minus_one) \<rparr>, gl_ir = plain_env, gl_time = (\<lambda>n. ''now'') \<rparr>"

definition sample_world :: gepa_world where
  "sample_world = \<lparr> gw_calls = 0, gw_budget = None, gw_genomes = \<lparr> gr_root = [], gr_disk = new_disk, gr_dirs = [], gr_ticks = 0 \<rparr>, gw_audit = [], gw_events = [] \<rparr>"

lemma sample_score: "reward_acceptable f64_one = Inr \<lparr> rw_quality = Acceptable, rw_scalar = f64_zero, rw_confidence = f64_one \<rparr>"
  "\<not> f64_le f64_zero f64_minus_one"
  by code_simp+

lemma sample_run: "\<exists>r w'. reflect_and_commit sample_loop empty_trace sample_world = (Inr r, w') \<and> rr_success r"
proof -
  let ?g = sample_loop and ?p = "gepa_proposal sample_loop empty_trace (make_reflection_id empty_trace 0)"
  let ?ev = "\<lambda>_::execution_trace. reward_acceptable f64_one"
  let ?gov = "\<lparr> go_evaluator = ?ev, go_whitelist = [''R_T19_GEPA''], go_approval = None, go_regression = None \<rparr>"
  let ?failed = "\<lparr> rw_quality = Acceptable, rw_scalar = f64_zero, rw_confidence = f64_one \<rparr>"
  have z: "zero_arithmetic (gl_ops ?g)" and hash: "ir_hash (gl_ir ?g) empty_canonical = Inr ''5''"
    using sample_compiles by (simp_all add: sample_loop_def zero_arithmetic_def zero_ops_def)
  have src: "mc_source_id ?p = ''R_T19_GEPA''" "mc_mutation_kind ?p = ''L1_prompt''"
    by (simp_all add: gepa_proposal_def sample_loop_def default_gepa_config_def)
  then have p: "propose ?gov ?p = (Inr approved_decision, [mutation_event ''mutation.proposed'' (proposed_json ?p) ?p])"
    by (simp add: propose_def source_allowed_def evaluation_gates_def sample_score)
  have "\<exists>st w'. gepa_judge ?g ?ev ?gov ?failed rid ?p x w = (Inr (Succeed st), w')" for rid x w
  proof -
    obtain k where k: "fst (compile_skill (gepa_compiler ?g (gw_calls w)) (candidate_text rid x)) = Inr k" "ck_ok k"
      using candidate_compiles[OF z hash] by blast
    have v: "gepa_verdict ?g \<noteq> Regression_fail" using gepa_verdict_passes[OF z] by simp
    have t: "fo_plus (gl_ops ?g) f64_zero (gg_threshold (gl_config ?g)) = f64_minus_one" "gg_registry (gl_config ?g) = None"
      by (simp_all add: sample_loop_def zero_ops_def default_gepa_config_def)
    have "source_allowed ?gov (mc_source_id ?p)" using src by (simp add: source_allowed_def)
    then obtain w' where "gepa_persist ?g ?gov rid ?p (ck_content k) w =
        (Inr (Succeed (ck_content k)), w')"
      using t gepa_commit_result[of ?gov "?p \<lparr> mc_version_id := rid, mc_evaluation_refs := [rid] \<rparr>"]
      by (fastforce simp: gepa_persist_def)
    then show ?thesis using k v t by (simp add: gepa_judge_def sample_score)
  qed
  then have "\<exists>st w'. gepa_iteration ?g ?ev ?gov (\<lambda>n p. Inr (Some ''again'')) empty_trace ?failed ''5'' 0 sample_world = (Inr (Succeed st), w')"
    by (simp add: gepa_iteration_def gepa_reflect_def p sample_world_def approved_decision_def Let_def)
  then obtain st w' where "gepa_iteration ?g ?ev ?gov (\<lambda>n p. Inr (Some ''again'')) empty_trace ?failed ''5'' 0 sample_world = (Inr (Succeed st), w')"
    by blast
  moreover have "gl_evaluator ?g = Some ?ev" "gl_governor ?g = Some ?gov" "gl_llm ?g = Some (\<lambda>n p. Inr (Some ''again''))"
    "gg_max_iterations (gl_config ?g) = 3" by (simp_all add: sample_loop_def default_gepa_config_def)
  ultimately show ?thesis using hash by (simp add: reflect_and_commit_def sample_score numeral_3_eq_3)
qed


end
