(* ===== verification/Workflow_Search.thy ===== *)
theory Workflow_Search
  imports Gepa Document
begin

text \<open>
  The tree search for workflows and the text made of its result: agenticdsl/cognitive/mcts_workflow_search.h,
  modules/cognitive/mcts_workflow_search.cpp and workflow_materializer.cpp.  Parameters are the evaluator, the numbers the
  generator draws from a seed, std::hash and the arithmetic of doubles.  Where the code follows a null pointer the
  search ends as \<open>Search_undefined\<close>.
\<close>

unbundle bit_operations_syntax

section \<open>Workflows\<close>

datatype axis1 = A1_linear | A1_branching | A1_loop | A1_parallel
datatype axis2 = A2_temperature | A2_max_tokens | A2_top_p
datatype axis3 = A3_none | A3_calculator | A3_search | A3_custom
datatype axis4 = A4_sequential | A4_parallel | A4_loop
datatype axis5 = A5_retry | A5_fallback | A5_abort
datatype axis6 = A6_none | A6_reflect | A6_search | A6_compile | A6_meta_select | A6_reason

record workflow_node =
  wn_id :: string
  wn_axis1 :: axis1
  wn_axis2 :: axis2
  wn_axis3 :: axis3
  wn_axis4 :: axis4
  wn_axis5 :: axis5
  wn_axis6 :: axis6

definition default_workflow_node :: workflow_node where
  "default_workflow_node = \<lparr> wn_id = [], wn_axis1 = A1_linear, wn_axis2 = A2_temperature, wn_axis3 = A3_none, wn_axis4 = A4_sequential,
     wn_axis5 = A5_retry, wn_axis6 = A6_none \<rparr>"

record workflow_edge =
  we_from :: string
  we_to :: string
  we_rule :: string

record workflow_graph =
  wg_task_id :: string
  wg_nodes :: "workflow_node list"
  wg_edges :: "workflow_edge list"

record task_spec =
  sp_task_id :: string
  sp_goal :: string
  sp_max_nodes :: int

section \<open>The search\<close>

record search_config =
  sg_max_iterations :: int
  sg_exploration :: "64 word"
  sg_source_id :: string
  sg_max_children :: int
  sg_seed :: "32 word"

record workflow_search =
  sw_evaluator :: "evaluator option"
  sw_governor :: "governor option"
  sw_gate :: "64 word option"
  sw_bus :: bool
  sw_chain_depth :: int
  sw_config :: search_config
  sw_ops :: f64_ops
  sw_ir :: ir_env
  sw_random :: "32 word \<Rightarrow> nat \<Rightarrow> nat"
  sw_hash_int :: "int \<Rightarrow> 64 word"

record search_node =
  sn_state :: workflow_graph
  sn_children :: "nat list"
  sn_parent :: "nat option"
  sn_visits :: int
  sn_reward :: "64 word"

text \<open>The variables of \<open>search\<close>: the tree, how many numbers were drawn, the best so far, the events.\<close>

record search_state =
  sx_tree :: "search_node list"
  sx_drawn :: nat
  sx_best :: "64 word"
  sx_workflow :: "workflow_graph option"
  sx_trace :: string
  sx_events :: "event_builder list"

record search_result =
  su_workflow :: "workflow_graph option"
  su_reward :: "64 word"
  su_iterations :: int
  su_success :: bool
  su_failure :: string

definition ucb1_value :: "f64_ops \<Rightarrow> 64 word \<Rightarrow> int \<Rightarrow> int \<Rightarrow> 64 word \<Rightarrow> 64 word" where
  "ucb1_value fo q child_visits parent_visits c =
     (if child_visits \<le> 0 then 0x7FF0000000000000
      else if parent_visits \<le> 0 then q
      else fo_plus fo q (fo_times fo c (fo_sqrt fo (fo_divide fo (fo_log fo (fo_of_int fo parent_visits)) (fo_of_int fo child_visits)))))"

definition generate_random_node :: "(nat \<Rightarrow> nat) \<Rightarrow> nat \<Rightarrow> workflow_node \<times> nat" where
  "generate_random_node r n = (default_workflow_node \<lparr>
     wn_axis1 := [A1_linear, A1_branching, A1_loop, A1_parallel] ! (r n mod 4),
     wn_axis2 := [A2_temperature, A2_max_tokens, A2_top_p] ! (r (n + 1) mod 3),
     wn_axis3 := [A3_none, A3_calculator, A3_search, A3_custom] ! (r (n + 2) mod 4),
     wn_axis4 := [A4_sequential, A4_parallel, A4_loop] ! (r (n + 3) mod 3),
     wn_axis5 := [A5_retry, A5_fallback, A5_abort] ! (r (n + 4) mod 3) \<rparr>, n + 5)"

definition combination_rule :: "(nat \<Rightarrow> nat) \<Rightarrow> nat \<Rightarrow> string \<times> nat" where
  "combination_rule r n = ([''sequential'', ''conditional'', ''loop''] ! (r n mod 3), n + 1)"

definition axis3_name :: "axis3 \<Rightarrow> string" where
  "axis3_name a = (case a of A3_none \<Rightarrow> ''none'' | A3_calculator \<Rightarrow> ''calculator'' | A3_search \<Rightarrow> ''search'' | A3_custom \<Rightarrow> ''custom'')"

definition has_search_tool :: "workflow_graph \<Rightarrow> bool" where
  "has_search_tool g \<longleftrightarrow> list_ex (\<lambda>n. wn_axis3 n = A3_search) (wg_nodes g)"

definition has_parallel :: "workflow_graph \<Rightarrow> bool" where
  "has_parallel g \<longleftrightarrow> list_ex (\<lambda>n. wn_axis1 n = A1_parallel \<or> wn_axis4 n = A4_parallel) (wg_nodes g)"

definition normalize_reward :: "f64_ops \<Rightarrow> 64 word \<Rightarrow> 64 word" where
  "normalize_reward fo s = fo_divide fo (fo_plus fo s f64_one) f64_two"

definition make_root_graph :: "task_spec \<Rightarrow> workflow_graph" where
  "make_root_graph t = \<lparr> wg_task_id = [], wg_nodes = [default_workflow_node \<lparr> wn_id := sp_task_id t @ '':wf:start'' \<rparr>], wg_edges = [] \<rparr>"

definition search_trace :: "workflow_graph \<Rightarrow> task_spec \<Rightarrow> int \<Rightarrow> execution_trace" where
  "search_trace g t i = empty_trace \<lparr> et_trace_id := ''mcts:'' @ sp_task_id t @ '':'' @ int_str i,
     et_final_result := tr_success (jobj [(''task_id'', JStr (sp_task_id t)), (''iteration'', JInt i),
       (''nodes'', JInt (int (length (wg_nodes g)))), (''edges'', JInt (int (length (wg_edges g)))),
       (''has_search_tool'', JBool (has_search_tool g)), (''has_parallel'', JBool (has_parallel g))]) jempty \<rparr>"

definition synthesize_results :: "bool \<Rightarrow> tool_result list" where
  "synthesize_results decline = [if decline then (tr_error Unknown ''behavioral_decline'' jempty) \<lparr> tr_latency_ms := Some 100000 \<rparr>
     else (tr_success jempty (jobj [(''tokens_used'', JInt 1000)])) \<lparr> tr_latency_ms := Some 100 \<rparr>]"

definition workflow_summary :: "workflow_graph \<Rightarrow> string" where
  "workflow_summary g = ''workflow:'' @ nat_str (length (wg_nodes g)) @ ''nodes:'' @ nat_str (length (wg_edges g)) @ ''edges''"

definition workflow_hash :: "ir_env \<Rightarrow> workflow_graph \<Rightarrow> task_spec \<Rightarrow> string res" where
  "workflow_hash env g t = ir_hash env (empty_canonical \<lparr>
     ci_nodes := map (\<lambda>n. \<lparr> in_id = wn_id n, in_type = axis3_name (wn_axis3 n), in_metadata = jempty \<rparr>) (wg_nodes g),
     ci_edges := map (\<lambda>e. \<lparr> ig_from = we_from e, ig_to = we_to e, ig_weight = f64_one \<rparr>) (wg_edges g),
     ci_metadata := jobj [(''task_id'', JStr (sp_task_id t))] \<rparr>)"

definition search_event :: "workflow_search \<Rightarrow> string \<Rightarrow> (string \<times> json) list \<Rightarrow> event_builder list" where
  "search_event m topic kvs = (if sw_bus m then [eb_args (jobj kvs) (eb_new topic)] else [])"

subsection \<open>Selection\<close>

definition child_ucb :: "workflow_search \<Rightarrow> search_node list \<Rightarrow> nat \<Rightarrow> nat \<Rightarrow> 64 word" where
  "child_ucb m t i c = (let child = t ! c;
     q = (if 0 < sn_visits child then fo_divide (sw_ops m) (sn_reward child) (fo_of_int (sw_ops m) (sn_visits child)) else f64_zero) in
     ucb1_value (sw_ops m) q (sn_visits child) (sn_visits (t ! i)) (sg_exploration (sw_config m)))"

text \<open>The first child with the greatest value, if any value is above minus infinity.\<close>

definition best_child :: "workflow_search \<Rightarrow> search_node list \<Rightarrow> nat \<Rightarrow> nat option" where
  "best_child m t i = snd (foldl (\<lambda>(u, b) c. let v = child_ucb m t i c in if f64_less u v then (v, Some c) else (u, b))
     (0xFFF0000000000000, None) (sn_children (t ! i)))"

definition is_full :: "workflow_search \<Rightarrow> search_node \<Rightarrow> bool" where
  "is_full m n \<longleftrightarrow> sn_children n \<noteq> [] \<and> sg_max_children (sw_config m) \<le> int (length (sn_children n))"

text \<open>The descent, with fuel; None means that the fuel did not suffice.\<close>

fun select_node :: "nat \<Rightarrow> workflow_search \<Rightarrow> search_node list \<Rightarrow> nat \<Rightarrow> nat option" where
  "select_node 0 m t i = None"
| "select_node (Suc n) m t i = (if is_full m (t ! i)
     then (case best_child m t i of None \<Rightarrow> Some i | Some c \<Rightarrow> select_node n m t c)
     else Some i)"

subsection \<open>Expansion and backpropagation\<close>

definition expand_graph :: "workflow_search \<Rightarrow> task_spec \<Rightarrow> nat \<Rightarrow> workflow_graph \<Rightarrow> nat \<Rightarrow> workflow_graph \<times> nat" where
  "expand_graph m t child g n =
     (if int (length (wg_nodes g)) < sp_max_nodes t
      then let r = sw_random m (sg_seed (sw_config m)); (node, n1) = generate_random_node r n;
               node1 = node \<lparr> wn_id := sp_task_id t @ '':wf:'' @ nat_str child \<rparr>; (rule, n2) = combination_rule r n1 in
        (g \<lparr> wg_nodes := wg_nodes g @ [node1],
            wg_edges := wg_edges g @ [\<lparr> we_from = wn_id (last (wg_nodes g)), we_to = wn_id node1, we_rule = rule \<rparr>] \<rparr>, n2)
      else (g, n))"

definition add_child :: "nat \<Rightarrow> nat \<Rightarrow> workflow_graph \<Rightarrow> search_node list \<Rightarrow> search_node list" where
  "add_child current child g t = t[current := (t ! current) \<lparr> sn_children := sn_children (t ! current) @ [child] \<rparr>] @
     [\<lparr> sn_state = g, sn_children = [], sn_parent = Some current, sn_visits = 0, sn_reward = f64_zero \<rparr>]"

fun backpropagate :: "nat \<Rightarrow> f64_ops \<Rightarrow> 64 word \<Rightarrow> nat \<Rightarrow> search_node list \<Rightarrow> search_node list option" where
  "backpropagate 0 fo reward i t = None"
| "backpropagate (Suc n) fo reward i t =
     (let t1 = t[i := (t ! i) \<lparr> sn_visits := sn_visits (t ! i) + 1, sn_reward := fo_plus fo (sn_reward (t ! i)) reward \<rparr>] in
      case sn_parent (t ! i) of None \<Rightarrow> Some t1 | Some p \<Rightarrow> backpropagate n fo reward p t1)"

definition search_iteration :: "workflow_search \<Rightarrow> evaluator \<Rightarrow> task_spec \<Rightarrow> nat \<Rightarrow> search_state \<Rightarrow> (unit res \<times> search_state) option" where
  "search_iteration m ev t i s =
     (let tree = sx_tree s; child = length tree in
      case select_node child m tree 0 of None \<Rightarrow> None | Some current \<Rightarrow>
        (case expand_graph m t child (sn_state (tree ! current)) (sx_drawn s) of (g, drawn) \<Rightarrow>
         let s1 = s \<lparr> sx_tree := add_child current child g tree, sx_drawn := drawn \<rparr>; trace = search_trace g t (int i) in
         case ev trace of
           Inl e \<Rightarrow> Some (Inl e, s1)
         | Inr signal \<Rightarrow>
             let reward = normalize_reward (sw_ops m) (rw_scalar signal) in
             case backpropagate (length (sx_tree s1)) (sw_ops m) reward child (sx_tree s1) of None \<Rightarrow> None | Some tree2 \<Rightarrow>
               let s2 = s1 \<lparr> sx_tree := tree2, sx_events := sx_events s1 @ search_event m ''mcts.search.iteration''
                     [(''search_id'', JStr (sp_task_id t)), (''iteration'', JInt (int i)), (''reward'', JFloat reward), (''node_id'', JInt (int child))] \<rparr> in
               Some (Inr (), if f64_less (sx_best s2) reward
                 then s2 \<lparr> sx_best := reward, sx_workflow := Some g, sx_trace := et_trace_id trace \<rparr> else s2)))"

text \<open>\<open>n\<close> iterations from the \<open>i\<close>-th on.\<close>

primrec search_iterations :: "nat \<Rightarrow> workflow_search \<Rightarrow> evaluator \<Rightarrow> task_spec \<Rightarrow> nat \<Rightarrow> search_state \<Rightarrow> (unit res \<times> search_state) option" where
  "search_iterations 0 m ev t i s = Some (Inr (), s)"
| "search_iterations (Suc n) m ev t i s = (case search_iteration m ev t i s of
       None \<Rightarrow> None
     | Some (Inl e, s1) \<Rightarrow> Some (Inl e, s1)
     | Some (Inr _, s1) \<Rightarrow> search_iterations n m ev t (Suc i) s1)"

definition initial_search :: "task_spec \<Rightarrow> event_builder list \<Rightarrow> search_state" where
  "initial_search t es = \<lparr> sx_tree = [\<lparr> sn_state = make_root_graph t, sn_children = [], sn_parent = None, sn_visits = 0, sn_reward = f64_zero \<rparr>],
     sx_drawn = 0, sx_best = f64_minus_one, sx_workflow = None, sx_trace = [], sx_events = es \<rparr>"

subsection \<open>Gates and commit\<close>

datatype search_end = Search_done search_result | Search_threw exc | Search_undefined

definition search_failed_event :: "workflow_search \<Rightarrow> task_spec \<Rightarrow> string \<Rightarrow> event_builder list" where
  "search_failed_event m t reason = search_event m ''mcts.search.failed'' [(''search_id'', JStr (sp_task_id t)), (''failure_reason'', JStr reason)]"

definition search_proposal :: "workflow_search \<Rightarrow> task_spec \<Rightarrow> workflow_graph \<Rightarrow> string \<Rightarrow> mutation_context" where
  "search_proposal m t g trace = default_mutation \<lparr> mc_mutation_id := sp_task_id t @ '':mcts:'' @ int_str (sg_max_iterations (sw_config m)),
     mc_source_id := sg_source_id (sw_config m), mc_mutation_kind := ''L1_prompt'', mc_subject_ref := sp_task_id t,
     mc_parent_ref := sp_task_id t, mc_proposed_change := workflow_summary g, mc_mode := Mutation_yolo, mc_evaluation_refs := [trace] \<rparr>"

text \<open>Proposal and commit of the best workflow; events of the search and of the governor.\<close>

definition search_commit :: "workflow_search \<Rightarrow> governor \<Rightarrow> task_spec \<Rightarrow> search_result \<Rightarrow> workflow_graph \<Rightarrow> string \<Rightarrow>
    search_end \<times> event_builder list \<times> event_builder list" where
  "search_commit m gov t r g trace =
     (let c = search_proposal m t g trace in
      case propose gov c of
        (Inl e, es) \<Rightarrow> (Search_threw e, [], es)
      | (Inr d, es) \<Rightarrow>
          if \<not> dc_approved d then (Search_done (r \<lparr> su_failure := ''proposal_denied'' \<rparr>), search_failed_event m t ''proposal_denied'', es)
          else (case commit_mutation gov c of
              (Inl e, es') \<Rightarrow> (Search_threw e, [], es @ es')
            | (Inr d', es') \<Rightarrow>
                if \<not> dc_approved d' then (Search_done (r \<lparr> su_failure := ''commit_denied'' \<rparr>), search_failed_event m t ''commit_denied'', es @ es')
                else (case workflow_hash (sw_ir m) g t of
                    Inl e \<Rightarrow> (Search_threw e, [], es @ es')
                  | Inr h \<Rightarrow> (Search_done (r \<lparr> su_success := True \<rparr>), search_event m ''mcts.search.completed''
                      [(''search_id'', JStr (sp_task_id t)), (''best_workflow'', JStr h), (''best_reward'', JFloat (su_reward r)),
                       (''iterations_used'', JInt (su_iterations r))], es @ es'))))"

text \<open>After the iterations: the regression gate, then the commit.  Without a best workflow a null pointer is followed, whether
  or not there is a gate.\<close>

definition search_conclude :: "workflow_search \<Rightarrow> evaluator \<Rightarrow> governor \<Rightarrow> task_spec \<Rightarrow> search_state \<Rightarrow>
    search_end \<times> event_builder list \<times> event_builder list" where
  "search_conclude m ev gov t s =
     (let r = \<lparr> su_workflow = sx_workflow s, su_reward = sx_best s, su_iterations = sg_max_iterations (sw_config m), su_success = False, su_failure = [] \<rparr> in
      case ev (search_trace (sn_state (hd (sx_tree s))) t (-1)) of
        Inl e \<Rightarrow> (Search_threw e, [], [])
      | Inr base \<Rightarrow> (case sx_workflow s of
            None \<Rightarrow> (Search_undefined, [], [])
          | Some g \<Rightarrow>
              let declined = f64_less (sx_best s) (normalize_reward (sw_ops m) (rw_scalar base)) in
              if (case sw_gate m of None \<Rightarrow> False
                  | Some threshold \<Rightarrow> \<not> gate_allows (sw_ops m) threshold (synthesize_results False) (synthesize_results declined))
              then (Search_done (r \<lparr> su_failure := ''behavioral_regression_failed'' \<rparr>), search_failed_event m t ''behavioral_regression_failed'', [])
              else search_commit m gov t r g (sx_trace s)))"

definition workflow_search_run :: "workflow_search \<Rightarrow> task_spec \<Rightarrow> (search_end \<times> event_builder list \<times> event_builder list) option" where
  "workflow_search_run m t = (case (sw_evaluator m, sw_governor m) of
       (Some ev, Some gov) \<Rightarrow>
         if sg_max_iterations (sw_config m) \<le> 0
         then Some (Search_done \<lparr> su_workflow = None, su_reward = f64_minus_one, su_iterations = 0, su_success = False, su_failure = ''invalid_configuration'' \<rparr>,
           search_failed_event m t ''invalid_configuration'', [])
         else (case search_iterations (nat (sg_max_iterations (sw_config m))) m ev t 0
               (initial_search t (search_event m ''mcts.search.started'' [(''search_id'', JStr (sp_task_id t)), (''task_id'', JStr (sp_task_id t))])) of
             None \<Rightarrow> None
           | Some (Inl e, s) \<Rightarrow> Some (Search_threw e, sx_events s, [])
           | Some (Inr _, s) \<Rightarrow> (case search_conclude m ev gov t s of (e, es, audit) \<Rightarrow> Some (e, sx_events s @ es, audit)))
     | _ \<Rightarrow> Some (Search_done \<lparr> su_workflow = None, su_reward = f64_minus_one, su_iterations = 0, su_success = False, su_failure = ''invalid_configuration'' \<rparr>,
           search_failed_event m t ''invalid_configuration'', []))"

section \<open>Chains of cognitive domains\<close>

definition axis6_number :: "axis6 \<Rightarrow> int" where
  "axis6_number a = (case a of A6_none \<Rightarrow> 0 | A6_reflect \<Rightarrow> 1 | A6_search \<Rightarrow> 2 | A6_compile \<Rightarrow> 3 | A6_meta_select \<Rightarrow> 4 | A6_reason \<Rightarrow> 5)"

record commit_result =
  cr_approved :: bool
  cr_failure :: string
  cr_mutation_id :: string

definition chain_hash :: "workflow_search \<Rightarrow> axis6 list \<Rightarrow> 64 word" where
  "chain_hash m ds = foldl (\<lambda>h d. h XOR (sw_hash_int m (axis6_number d) + 0x9e3779b9 + push_bit 6 h + drop_bit 2 h)) 0 ds"

text \<open>The counter of the process is returned one higher; events of the search and of the governor.\<close>

definition commit_chain :: "workflow_search \<Rightarrow> axis6 list \<Rightarrow> 64 word \<Rightarrow> commit_result res \<times> event_builder list \<times> event_builder list \<times> 64 word" where
  "commit_chain m ds seq =
     (let early = ''axis6:'' @ nat_str (unat seq) @ '':'' @ nat_str (unat (chain_hash m ds));
          depth = (if 0 < sw_chain_depth m then sw_chain_depth m else 3);
          size = JInt (int (length ds)) in
      if ds = [] \<or> ds = [A6_none]
      then (Inr \<lparr> cr_approved = False, cr_failure = ''empty_chain_or_all_none'', cr_mutation_id = early \<rparr>,
        search_event m ''axis6.degraded'' [(''reason'', JStr ''empty_chain_or_all_none''), (''chain_size'', size)], [], seq + 1)
      else if depth < int (length ds)
      then (Inr \<lparr> cr_approved = False, cr_failure = ''chain_depth_exceeded'', cr_mutation_id = early \<rparr>,
        search_event m ''axis6.degraded'' [(''reason'', JStr ''chain_depth_exceeded''), (''requested_depth'', size), (''max_depth'', JInt depth)], [], seq + 1)
      else let started = search_event m ''axis6.search.started'' [(''chain'', JArr (map (JInt \<circ> axis6_number) ds)), (''source_id'', JStr ''MCTS'')];
             c = default_mutation \<lparr> mc_source_id := ''MCTS'', mc_subject_ref := ''WorkflowNode'',
               mc_proposed_change := ''axis6 chain: '' @ nat_str (length ds) @ '' steps'', mc_mode := Mutation_agent \<rparr> in
        case sw_governor m of
          None \<Rightarrow> (Inr \<lparr> cr_approved = False, cr_failure = ''no_governor'', cr_mutation_id = mc_mutation_id c \<rparr>,
            started @ search_event m ''axis6.commit.reverted'' [(''mutation_id'', JStr (mc_mutation_id c)), (''reason'', JStr ''no_governor'')], [], seq + 1)
        | Some gov \<Rightarrow> (case commit_mutation gov c of
              (Inl e, es) \<Rightarrow> (Inl e, started, es, seq + 1)
            | (Inr d, es) \<Rightarrow> if dc_approved d
                then (Inr \<lparr> cr_approved = True, cr_failure = [], cr_mutation_id = mc_mutation_id c \<rparr>,
                  started @ search_event m ''axis6.commit.committed'' [(''mutation_id'', JStr (mc_mutation_id c)), (''chain_size'', size)], es, seq + 1)
                else (Inr \<lparr> cr_approved = False, cr_failure = dc_denial_reason d, cr_mutation_id = mc_mutation_id c \<rparr>,
                  started @ search_event m ''axis6.commit.reverted'' [(''mutation_id'', JStr (mc_mutation_id c)), (''reason'', JStr (dc_denial_reason d))], es, seq + 1)))"

definition can_execute :: "workflow_node \<Rightarrow> bool" where
  "can_execute n \<longleftrightarrow> wn_axis6 n \<noteq> A6_none"

section \<open>The text of a workflow\<close>

definition axis6_tool_name :: "axis6 \<Rightarrow> string" where
  "axis6_tool_name a = (case a of A6_reflect \<Rightarrow> ''evolution::reflect'' | A6_search \<Rightarrow> ''evolution::search''
     | A6_compile \<Rightarrow> ''evolution::compile'' | A6_meta_select \<Rightarrow> [] | A6_reason \<Rightarrow> [] | A6_none \<Rightarrow> [])"

definition in_quotes :: "string \<Rightarrow> string" where
  "in_quotes s = CHR 0x22 # s @ [CHR 0x22]"

text \<open>The lines of a node.\<close>

definition node_lines :: "workflow_node \<Rightarrow> string list" where
  "node_lines n = (let tool = axis6_tool_name (wn_axis6 n) in (''  - id: '' @ wn_id n) #
     (if tool \<noteq> [] then [''    type: tool_call'', ''    tool: '' @ in_quotes tool, ''    args:'', ''      prompt: '' @ in_quotes ''{{ task }}'']
      else if wn_axis5 n = A5_abort then [''    type: end'', ''    termination_mode: hard'']
      else (if wn_axis5 n = A5_retry then [''    on_failure: '' @ in_quotes ''/dynamic/retry''] else []) @
        (if wn_axis5 n = A5_fallback then [''    on_failure: '' @ in_quotes ''/dynamic/fallback''] else []) @
        (if wn_axis1 n = A1_branching \<and> wn_axis4 n = A4_parallel
         then [''    type: fork'', ''    branches:'', ''      - '' @ in_quotes ''/dynamic/branch_a'', ''      - '' @ in_quotes ''/dynamic/branch_b'']
         else if wn_axis1 n = A1_branching \<and> wn_axis4 n = A4_sequential \<or> wn_axis4 n = A4_parallel \<and> wn_axis1 n \<noteq> A1_branching
         then [''    type: join'', ''    wait_for: ['' @ in_quotes ''branch_a'' @ '', '' @ in_quotes ''branch_b'' @ '']'']
         else if wn_axis3 n = A3_calculator
         then [''    type: tool_call'', ''    tool: '' @ in_quotes ''math::calculate'', ''    args:'', ''      expr: '' @ in_quotes ''{{ expr }}'']
         else if wn_axis3 n = A3_search
         then [''    type: tool_call'', ''    tool: '' @ in_quotes ''search::query'', ''    args:'', ''      query: '' @ in_quotes ''{{ query }}'']
         else [''    type: assign'', ''    assign:'', ''      result: '' @ in_quotes ''{{ input }}''])))"

definition render_node :: "workflow_node \<Rightarrow> string" where
  "render_node n = concat (map (\<lambda>l. l @ [CHR 0x0A]) (node_lines n))"

definition dynamic_prefix :: string where
  "dynamic_prefix = ''/dynamic/mcts/''"

definition workflow_task :: "workflow_graph \<Rightarrow> string" where
  "workflow_task g = (if wg_task_id g = [] then ''unnamed'' else wg_task_id g)"

definition materialize_to_dsl :: "workflow_graph \<Rightarrow> string option" where
  "materialize_to_dsl g = (if wg_nodes g = [] then None else Some (
     ''### AgenticDSL `'' @ dynamic_prefix @ workflow_task g @ ''`\<newline>'' @ ''```yaml\<newline>'' @ ''# --- BEGIN AgenticDSL ---\<newline>'' @
     ''graph_type: subgraph\<newline>'' @ ''nodes:\<newline>'' @ concat (map render_node (wg_nodes g)) @
     ''# --- END AgenticDSL ---\<newline>'' @ ''```\<newline>''))"

definition materialized_event :: "workflow_graph \<Rightarrow> event_builder" where
  "materialized_event g = eb_from ''workflow.materialized'' (tr_success (jobj [(''output_path'', JStr (dynamic_prefix @ workflow_task g)),
     (''task_id'', JStr (workflow_task g)), (''node_count'', JInt (int (length (wg_nodes g))))]) jempty)"

section \<open>The tree\<close>

text \<open>A node and its ancestors; the nodes at or below one; what the simulations scored.\<close>

function path_up :: "search_node list \<Rightarrow> nat \<Rightarrow> nat list" where
  "path_up t i = i # (case sn_parent (t ! i) of None \<Rightarrow> [] | Some p \<Rightarrow> if p < i then path_up t p else [])"
  by auto
termination by (relation "measure snd") auto

declare path_up.simps [simp del]

definition below :: "search_node list \<Rightarrow> nat \<Rightarrow> nat list" where
  "below t i = filter (\<lambda>j. i \<in> set (path_up t j)) [1..<length t]"

definition score :: "workflow_search \<Rightarrow> evaluator \<Rightarrow> task_spec \<Rightarrow> search_node list \<Rightarrow> nat \<Rightarrow> 64 word" where
  "score m ev t tree j = normalize_reward (sw_ops m) (rw_scalar (projr (ev (search_trace (sn_state (tree ! j)) t (int (j - 1))))))"

definition is_tree :: "search_node list \<Rightarrow> bool" where
  "is_tree t \<longleftrightarrow> t \<noteq> [] \<and> (\<forall>i < length t. case sn_parent (t ! i) of None \<Rightarrow> i = 0 | Some p \<Rightarrow> p < i) \<and>
     (\<forall>i < length t. sn_children (t ! i) = filter (\<lambda>j. sn_parent (t ! j) = Some i) [0..<length t])"

definition exact_statistics :: "workflow_search \<Rightarrow> evaluator \<Rightarrow> task_spec \<Rightarrow> search_node list \<Rightarrow> bool" where
  "exact_statistics m ev t tree \<longleftrightarrow> (\<forall>i < length tree. sn_visits (tree ! i) = int (length (below tree i)) \<and>
     sn_reward (tree ! i) = foldl (fo_plus (sw_ops m)) f64_zero (map (score m ev t tree) (below tree i)))"

text \<open>A workflow is a chain from the start node; its other nodes carry the numbers of nodes of the tree, increasing.\<close>

definition numbered :: "task_spec \<Rightarrow> nat \<Rightarrow> string list \<Rightarrow> bool" where
  "numbered t i ids \<longleftrightarrow> (\<exists>js. ids = (sp_task_id t @ '':wf:start'') # map (\<lambda>j. sp_task_id t @ '':wf:'' @ nat_str j) js \<and>
     sorted_wrt (<) js \<and> (\<forall>j \<in> set js. 0 < j \<and> j \<le> i))"

definition chain_of :: "task_spec \<Rightarrow> nat \<Rightarrow> workflow_graph \<Rightarrow> bool" where
  "chain_of t i g \<longleftrightarrow> wg_task_id g = [] \<and> int (length (wg_nodes g)) \<le> max 1 (sp_max_nodes t) \<and> numbered t i (map wn_id (wg_nodes g)) \<and>
     map we_from (wg_edges g) = butlast (map wn_id (wg_nodes g)) \<and> map we_to (wg_edges g) = tl (map wn_id (wg_nodes g))"

text \<open>The first of the greatest scores above -1.\<close>

definition best_of :: "(nat \<Rightarrow> 64 word) \<Rightarrow> nat list \<Rightarrow> 64 word \<times> nat option" where
  "best_of f js = foldl (\<lambda>(b, w) j. if f64_less b (f j) then (f j, Some j) else (b, w)) (f64_minus_one, None) js"

definition best_ok :: "workflow_search \<Rightarrow> evaluator \<Rightarrow> task_spec \<Rightarrow> search_state \<Rightarrow> bool" where
  "best_ok m ev t s \<longleftrightarrow> (case best_of (score m ev t (sx_tree s)) [1..<length (sx_tree s)] of (b, w) \<Rightarrow> sx_best s = b \<and>
     sx_workflow s = map_option (\<lambda>j. sn_state (sx_tree s ! j)) w \<and>
     (\<forall>j. w = Some j \<longrightarrow> sx_trace s = ''mcts:'' @ sp_task_id t @ '':'' @ int_str (int j - 1)))"

definition search_ok :: "workflow_search \<Rightarrow> evaluator \<Rightarrow> task_spec \<Rightarrow> search_state \<Rightarrow> bool" where
  "search_ok m ev t s \<longleftrightarrow> is_tree (sx_tree s) \<and> exact_statistics m ev t (sx_tree s) \<and>
     (\<forall>i < length (sx_tree s). chain_of t i (sn_state (sx_tree s ! i))) \<and> best_ok m ev t s"

lemma path_up_le: "j \<in> set (path_up t i) \<Longrightarrow> j \<le> i"
proof (induction t i rule: path_up.induct)
  case (1 t i)
  then show ?case using path_up.simps[of t i] by (fastforce split: option.splits if_splits)
qed

lemma path_up_cong:
  "(\<And>j. j \<le> i \<Longrightarrow> sn_parent (t ! j) = sn_parent (u ! j)) \<Longrightarrow> path_up t i = path_up u i"
proof (induction t i rule: path_up.induct)
  case (1 t i)
  have "path_up t p = path_up u p" if "sn_parent (t ! i) = Some p" "p < i" for p
    using 1(1)[OF that] 1(2) that(2) by simp
  then show ?case using 1(2)[of i] by (subst (1 2) path_up.simps) (auto split: option.split)
qed

lemma best_child_in: "best_child m t i = Some c \<Longrightarrow> c \<in> set (sn_children (t ! i))"
proof -
  have "snd (foldl (\<lambda>(u, b) c. let v = child_ucb m t i c in if f64_less u v then (v, Some c) else (u, b)) (u, b) cs) = Some c \<Longrightarrow>
      c \<in> set cs \<or> b = Some c" for u b cs
    by (induction cs arbitrary: u b) (auto simp: Let_def split: if_splits)
  then show "best_child m t i = Some c \<Longrightarrow> ?thesis" unfolding best_child_def by blast
qed

lemma select_terminates:
  assumes "is_tree t"
  shows "i < length t \<Longrightarrow> length t - i \<le> n \<Longrightarrow> \<exists>c < length t. select_node n m t i = Some c"
proof (induction n arbitrary: i)
  case (Suc n)
  show ?case
  proof (cases "is_full m (t ! i) \<and> best_child m t i \<noteq> None")
    case True
    then obtain c where c: "best_child m t i = Some c" by blast
    then have "c \<in> set (filter (\<lambda>j. sn_parent (t ! j) = Some i) [0..<length t])"
      using best_child_in[OF c] assms Suc.prems by (simp add: is_tree_def)
    then have "c < length t" "sn_parent (t ! c) = Some i" by auto
    then have "c < length t" "i < c" using assms by (auto simp: is_tree_def split: option.splits)
    then show ?thesis using Suc.IH[of c] Suc.prems c True by simp
  next
    case False
    then show ?thesis using Suc.prems by (auto split: option.split)
  qed
qed simp

lemma backpropagate_exact:
  assumes "\<forall>i < length t. case sn_parent (t ! i) of None \<Rightarrow> True | Some p \<Rightarrow> p < i"
  shows "i < length t \<Longrightarrow> i < n \<Longrightarrow> \<exists>u. backpropagate n fo r i t = Some u \<and> length u = length t \<and>
    (\<forall>j < length t. u ! j = (if j \<in> set (path_up t i)
       then (t ! j) \<lparr> sn_visits := sn_visits (t ! j) + 1, sn_reward := fo_plus fo (sn_reward (t ! j)) r \<rparr> else t ! j))"
  using assms
proof (induction n arbitrary: i t)
  case (Suc n)
  let ?t = "t[i := (t ! i) \<lparr> sn_visits := sn_visits (t ! i) + 1, sn_reward := fo_plus fo (sn_reward (t ! i)) r \<rparr>]"
  show ?case
  proof (cases "sn_parent (t ! i)")
    case None
    then have "path_up t i = [i]" by (simp add: path_up.simps)
    then show ?thesis using None Suc.prems by (auto simp: Let_def nth_list_update)
  next
    case (Some p)
    then have p: "p < i" using Suc.prems by fastforce
    have par: "sn_parent (?t ! j) = sn_parent (t ! j)" if "j < length t" for j using that Suc.prems(1) by (simp add: nth_list_update)
    have "\<forall>j < length ?t. case sn_parent (?t ! j) of None \<Rightarrow> True | Some q \<Rightarrow> q < j" using Suc.prems(3) par by simp
    then obtain u where u: "backpropagate n fo r p ?t = Some u" "length u = length t"
      "\<forall>j < length t. u ! j = (if j \<in> set (path_up ?t p)
         then (?t ! j) \<lparr> sn_visits := sn_visits (?t ! j) + 1, sn_reward := fo_plus fo (sn_reward (?t ! j)) r \<rparr> else ?t ! j)"
      using Suc.IH[of p ?t] p Suc.prems(1,2) by auto
    have "path_up ?t p = path_up t p" using p Suc.prems(1) by (intro path_up_cong) (simp add: nth_list_update)
    moreover have "path_up t i = i # path_up t p" using Some p by (simp add: path_up.simps[of t i])
    moreover have "i \<notin> set (path_up t p)" using path_up_le[of i t p] p by auto
    ultimately show ?thesis using u Some Suc.prems(1) by (auto simp: Let_def nth_list_update)
  qed
qed simp

lemma add_child_simps [simp]:
  "length (add_child c n g t) = Suc (length t)"
  by (simp add: add_child_def)

lemma add_child_nth:
  assumes "c < length t" "j \<le> length t"
  shows "add_child c n g t ! j = (if j = length t
      then \<lparr> sn_state = g, sn_children = [], sn_parent = Some c, sn_visits = 0, sn_reward = f64_zero \<rparr>
      else if j = c then (t ! c) \<lparr> sn_children := sn_children (t ! c) @ [n] \<rparr> else t ! j)"
  using assms by (auto simp: add_child_def nth_append)

lemma add_child_tree:
  assumes "is_tree t" "c < length t" "n = length t"
  shows "is_tree (add_child c n g t)" "path_up (add_child c n g t) n = n # path_up t c"
    "\<And>j. j < n \<Longrightarrow> path_up (add_child c n g t) j = path_up t j"
proof -
  let ?u = "add_child c n g t"
  have par: "sn_parent (?u ! j) = (if j = n then Some c else sn_parent (t ! j))" if "j \<le> n" for j
    using that assms by (auto simp: add_child_nth[OF assms(2)])
  show old: "path_up ?u j = path_up t j" if "j < n" for j using par that by (intro path_up_cong) simp
  then show "path_up ?u n = n # path_up t c" using par[of n] assms(2,3) by (subst path_up.simps) simp
  have "sn_children (?u ! i) = filter (\<lambda>j. sn_parent (?u ! j) = Some i) [0..<length ?u]" if i: "i < length ?u" for i
  proof -
    have "filter (\<lambda>j. sn_parent (?u ! j) = Some i) [0..<n] = filter (\<lambda>j. sn_parent (t ! j) = Some i) [0..<n]"
      using par by (intro filter_cong) auto
    moreover have "filter (\<lambda>j. sn_parent (t ! j) = Some n) [0..<n] = []"
      using assms(1,3) by (fastforce simp: is_tree_def filter_empty_conv split: option.splits)
    moreover have "sn_children (?u ! i) = (if i = n then [] else sn_children (t ! i) @ (if i = c then [n] else []))"
      using i assms(2,3) by (simp add: add_child_nth less_Suc_eq_le)
    ultimately show ?thesis using i par[of n] assms by (simp add: is_tree_def less_Suc_eq_le)
  qed
  moreover have "case sn_parent (?u ! i) of None \<Rightarrow> i = 0 | Some p \<Rightarrow> p < i" if "i < length ?u" for i
  proof (cases "i = n")
    case False
    then show ?thesis using that par[of i] assms by (simp add: is_tree_def)
  qed (use par[of n] assms(2,3) in simp)
  moreover have "?u \<noteq> []" by (simp add: add_child_def)
  ultimately show "is_tree ?u" unfolding is_tree_def by blast
qed

lemma numbered_later: "numbered t c ids \<Longrightarrow> c < n \<Longrightarrow> numbered t n ids"
  unfolding numbered_def by (elim exE conjE, intro exI conjI, assumption, assumption) fastforce

lemma numbered_more:
  assumes "numbered t c ids" "c < n"
  shows "numbered t n (ids @ [sp_task_id t @ '':wf:'' @ nat_str n])"
proof -
  from assms(1) obtain js where js: "ids = (sp_task_id t @ '':wf:start'') # map (\<lambda>j. sp_task_id t @ '':wf:'' @ nat_str j) js"
    "sorted_wrt (<) js" "\<forall>j \<in> set js. 0 < j \<and> j \<le> c" unfolding numbered_def by (elim exE conjE)
  have "sorted_wrt (<) (js @ [n])" "\<forall>j \<in> set (js @ [n]). 0 < j \<and> j \<le> n"
    using js(2,3) assms(2) by (fastforce simp: sorted_wrt_append)+
  moreover have "ids @ [sp_task_id t @ '':wf:'' @ nat_str n] =
      (sp_task_id t @ '':wf:start'') # map (\<lambda>j. sp_task_id t @ '':wf:'' @ nat_str j) (js @ [n])" by (simp add: js(1))
  ultimately show ?thesis unfolding numbered_def by (intro exI[of _ "js @ [n]"] conjI)
qed

lemma numbered_nonempty: "numbered t c ids \<Longrightarrow> ids \<noteq> []"
  by (auto simp: numbered_def)

lemma expand_chain:
  assumes "chain_of t c g" "c < n" "expand_graph m t n g d = (g', d')"
  shows "chain_of t n g'"
proof (cases "int (length (wg_nodes g)) < sp_max_nodes t")
  case False
  then have "g' = g" using assms(3) by (simp add: expand_graph_def)
  then show ?thesis using assms(1) numbered_later[OF _ assms(2)] by (simp add: chain_of_def)
next
  case True
  obtain node n1 rule n2 where d: "generate_random_node (sw_random m (sg_seed (sw_config m))) d = (node, n1)"
    "combination_rule (sw_random m (sg_seed (sw_config m))) n1 = (rule, n2)" by fastforce
  let ?node = "node \<lparr> wn_id := sp_task_id t @ '':wf:'' @ nat_str n \<rparr>"
  have g: "g' = g \<lparr> wg_nodes := wg_nodes g @ [?node],
      wg_edges := wg_edges g @ [\<lparr> we_from = wn_id (last (wg_nodes g)), we_to = wn_id ?node, we_rule = rule \<rparr>] \<rparr>"
    using assms(3) True d by (auto simp: expand_graph_def Let_def)
  have e: "map we_from (wg_edges g) = butlast (map wn_id (wg_nodes g))" "map we_to (wg_edges g) = tl (map wn_id (wg_nodes g))"
    "wg_task_id g = []" "numbered t c (map wn_id (wg_nodes g))" using assms(1) by (simp_all add: chain_of_def)
  then have ne: "wg_nodes g \<noteq> []" using numbered_nonempty by fastforce
  then obtain xs x where x: "wg_nodes g = xs @ [x]" by (metis rev_exhaust)
  have "map we_from (wg_edges g') = butlast (map wn_id (wg_nodes g'))" using e(1) g x by (simp add: butlast_append)
  moreover have "map we_to (wg_edges g') = tl (map wn_id (wg_nodes g'))" using e(2) g ne by simp
  moreover have "numbered t n (map wn_id (wg_nodes g'))" using numbered_more[OF e(4) assms(2)] g by simp
  ultimately show ?thesis using e(3) g True by (simp add: chain_of_def)
qed

lemma score_cong: "sn_state (u ! j) = sn_state (v ! j) \<Longrightarrow> score m ev t u j = score m ev t v j"
  by (simp add: score_def)

lemma best_of_snoc: "best_of f (js @ [j]) = (case best_of f js of (b, w) \<Rightarrow> if f64_less b (f j) then (f j, Some j) else (b, w))"
  by (simp add: best_of_def split: prod.split)

lemma best_of_cong: "(\<And>j. j \<in> set js \<Longrightarrow> f j = g j) \<Longrightarrow> best_of f js = best_of g js"
  unfolding best_of_def by (intro foldl_cong) auto

lemma best_of_cases:
  "case best_of f js of (b, None) \<Rightarrow> b = f64_minus_one \<and> (\<forall>j \<in> set js. \<not> f64_less f64_minus_one (f j))
     | (b, Some j) \<Rightarrow> j \<in> set js \<and> b = f j \<and> f64_less f64_minus_one (f j)"
proof (induction js rule: rev_induct)
  case (snoc x xs)
  obtain b w where b: "best_of f xs = (b, w)" by fastforce
  show ?case
  proof (cases w)
    case None
    then show ?thesis using snoc b by (auto simp: best_of_snoc)
  next
    case (Some j)
    then show ?thesis using snoc b f64_less_trans[of f64_minus_one b "f x"] by (auto simp: best_of_snoc)
  qed
qed (simp add: best_of_def)

text \<open>One iteration keeps the invariant and adds one node; only the evaluator can end it.\<close>

lemma iteration_ok:
  assumes "search_ok m ev t s" "length (sx_tree s) = Suc i"
  shows "\<exists>r s'. search_iteration m ev t i s = Some (r, s') \<and> (case r of
       Inl e \<Rightarrow> \<exists>tr. ev tr = Inl e
     | Inr _ \<Rightarrow> search_ok m ev t s' \<and> length (sx_tree s') = Suc (Suc i))"
proof -
  let ?t = "sx_tree s" and ?n = "length (sx_tree s)"
  have tree: "is_tree ?t" and stat: "exact_statistics m ev t ?t" and chain: "\<And>i. i < ?n \<Longrightarrow> chain_of t i (sn_state (?t ! i))"
    using assms(1) by (auto simp: search_ok_def)
  obtain c where c: "c < ?n" "select_node ?n m ?t 0 = Some c" using select_terminates[OF tree, of 0 ?n] assms(2) by auto
  obtain g d where g: "expand_graph m t ?n (sn_state (?t ! c)) (sx_drawn s) = (g, d)" by fastforce
  let ?u = "add_child c ?n g ?t" and ?tr = "search_trace g t (int i)"
  show ?thesis
  proof (cases "ev ?tr")
    case (Inl e)
    then show ?thesis using c g by (auto simp: search_iteration_def Let_def)
  next
    case (Inr signal)
    let ?r = "normalize_reward (sw_ops m) (rw_scalar signal)"
    note u = add_child_tree[OF tree c(1) refl, where g = g]
    have up: "\<forall>i < length ?u. case sn_parent (?u ! i) of None \<Rightarrow> True | Some p \<Rightarrow> p < i"
      using u(1) unfolding is_tree_def by (auto split: option.splits)
    obtain v where v: "backpropagate (length ?u) (sw_ops m) ?r ?n ?u = Some v" "length v = Suc ?n"
      "\<forall>j < Suc ?n. v ! j = (if j \<in> set (path_up ?u ?n)
         then (?u ! j) \<lparr> sn_visits := sn_visits (?u ! j) + 1, sn_reward := fo_plus (sw_ops m) (sn_reward (?u ! j)) ?r \<rparr> else ?u ! j)"
      using backpropagate_exact[OF up, of ?n "length ?u" "sw_ops m" ?r] by auto
    have parv: "sn_parent (v ! j) = sn_parent (?u ! j)" "sn_children (v ! j) = sn_children (?u ! j)" "sn_state (v ! j) = sn_state (?u ! j)" if "j < Suc ?n" for j
      using v(3) that by auto
    have pathv: "path_up v j = path_up ?u j" if "j < Suc ?n" for j using parv(1) that by (intro path_up_cong) simp
    have state: "sn_state (v ! j) = (if j = ?n then g else sn_state (?t ! j))" if "j < Suc ?n" for j
      using parv(3)[OF that] that c(1) by (simp add: add_child_nth less_Suc_eq_le)
    have sc: "score m ev t v j = (if j = ?n then ?r else score m ev t ?t j)" if "j < Suc ?n" for j
      using state[OF that] Inr assms(2) by (auto simp: score_def)
    have tv: "is_tree v" using u(1) parv v(2) unfolding is_tree_def by (auto intro: filter_cong)
    have belowv: "below v j = below ?t j @ (if j \<in> set (path_up ?u ?n) then [?n] else [])" if "j \<le> ?n" for j
      using pathv u(3) assms(2) v(2) by (auto simp: below_def intro!: filter_cong)
    have none: "below ?t ?n = []" by (auto simp: below_def filter_empty_conv dest: path_up_le)
    have statv: "sn_visits (v ! j) = int (length (below v j)) \<and>
        sn_reward (v ! j) = foldl (fo_plus (sw_ops m)) f64_zero (map (score m ev t v) (below v j))" if "j < length v" for j
    proof -
      have j: "j \<le> ?n" using that v(2) by simp
      have "map (score m ev t v) (below ?t j) = map (score m ev t ?t) (below ?t j)" using sc by (auto simp: below_def)
      moreover have "sn_visits (?u ! j) = int (length (below ?t j)) \<and>
          sn_reward (?u ! j) = foldl (fo_plus (sw_ops m)) f64_zero (map (score m ev t ?t) (below ?t j))"
        using stat j none c(1) by (auto simp: add_child_nth exact_statistics_def)
      moreover have "v ! j = (if j \<in> set (path_up ?u ?n)
         then (?u ! j) \<lparr> sn_visits := sn_visits (?u ! j) + 1, sn_reward := fo_plus (sw_ops m) (sn_reward (?u ! j)) ?r \<rparr> else ?u ! j)"
        using v(3) j by simp
      ultimately show ?thesis using sc[of ?n] by (simp add: belowv[OF j] del: map_eq_conv)
    qed
    let ?s = "s \<lparr> sx_tree := v, sx_drawn := d, sx_events := sx_events s @ search_event m ''mcts.search.iteration''
       [(''search_id'', JStr (sp_task_id t)), (''iteration'', JInt (int i)), (''reward'', JFloat ?r), (''node_id'', JInt (int ?n))] \<rparr>"
    let ?s' = "if f64_less (sx_best s) ?r then ?s \<lparr> sx_best := ?r, sx_workflow := Some g, sx_trace := et_trace_id ?tr \<rparr> else ?s"
    have it: "search_iteration m ev t i s = Some (Inr (), ?s')"
      using c g Inr v(1) by (simp add: search_iteration_def Let_def)
    have "chain_of t j (sn_state (v ! j))" if "j < length v" for j
      using chain state[of j] that v(2) expand_chain[OF chain[OF c(1)] c(1) g] by auto
    moreover have "best_ok m ev t ?s'"
    proof -
      obtain b w where b: "best_of (score m ev t ?t) [1..<?n] = (b, w)" by fastforce
      have "best_ok m ev t s" using assms(1) by (simp add: search_ok_def)
      note old = this[unfolded best_ok_def b prod.case]
      have "best_of (score m ev t v) [1..<?n] = best_of (score m ev t ?t) [1..<?n]" by (rule best_of_cong) (simp add: sc)
      then have "best_of (score m ev t v) [1..<?n] = (b, w)" using b by simp
      then have new: "best_of (score m ev t v) [1..<length v] = (if f64_less b ?r then (?r, Some ?n) else (b, w))"
        using sc[of ?n] v(2) assms(2) best_of_snoc[of "score m ev t v" "[1..<?n]" ?n] by simp
      have "\<forall>j. w = Some j \<longrightarrow> j < ?n" using best_of_cases[of "[1..<?n]" "score m ev t ?t"] b by auto
      then have st: "map_option (\<lambda>j. sn_state (v ! j)) w = map_option (\<lambda>j. sn_state (?t ! j)) w" "sn_state (v ! ?n) = g"
        using state by (auto intro: option.map_cong)
      show ?thesis
      proof (cases "f64_less b ?r")
        case True
        then show ?thesis by (simp add: best_ok_def new[unfolded One_nat_def] old st(2)[unfolded assms(2)] search_trace_def assms(2))
      next
        case False
        then show ?thesis using old by (simp add: best_ok_def new[unfolded One_nat_def] st(1))
      qed
    qed
    ultimately have "search_ok m ev t ?s'" using tv statv by (simp add: search_ok_def exact_statistics_def)
    then show ?thesis using it v(2) assms(2) by auto
  qed
qed

lemma initial_ok: "search_ok m ev t (initial_search t es)"
proof -
  have "numbered t 0 [sp_task_id t @ '':wf:start'']" unfolding numbered_def by (intro exI[of _ "[]"]) simp
  then show ?thesis
    by (simp add: search_ok_def initial_search_def is_tree_def exact_statistics_def below_def chain_of_def best_ok_def best_of_def make_root_graph_def)
qed

lemma search_runs:
  "\<exists>r s. search_iterations n m ev t 0 (initial_search t es) = Some (r, s) \<and> (case r of
       Inl e \<Rightarrow> \<exists>tr. ev tr = Inl e
     | Inr _ \<Rightarrow> search_ok m ev t s \<and> length (sx_tree s) = Suc n)"
proof -
  have "\<exists>r s'. search_iterations n m ev t i s = Some (r, s') \<and> (case r of
       Inl e \<Rightarrow> \<exists>tr. ev tr = Inl e
     | Inr _ \<Rightarrow> search_ok m ev t s' \<and> length (sx_tree s') = Suc (i + n))" if "search_ok m ev t s" "length (sx_tree s) = Suc i" for i s
    using that
  proof (induction n arbitrary: i s)
    case (Suc n)
    from iteration_ok[OF Suc.prems] obtain r s' where r: "search_iteration m ev t i s = Some (r, s')" "case r of
       Inl e \<Rightarrow> \<exists>tr. ev tr = Inl e
     | Inr _ \<Rightarrow> search_ok m ev t s' \<and> length (sx_tree s') = Suc (Suc i)" by blast
    then show ?case using Suc.IH[of s' "Suc i"] by (cases r) (auto split: sum.splits)
  qed simp
  note run = this
  have "length (sx_tree (initial_search t es)) = Suc 0" by (simp add: initial_search_def)
  from run[OF initial_ok this] show ?thesis unfolding add_0 .
qed

text \<open>C39. The search tree, after any number of iterations: the descent always ends, and if the evaluator does not throw, every iteration
  has added one node; the visits and the reward of a node are exactly the number and the sum, in order, of the scores of
  the nodes at or below it; every node holds a chain of at most \<open>max_nodes\<close> workflow nodes (the start node is always there); and the best workflow is that of the first
  node with the greatest score above -1.\<close>

theorem search_tree_exact:
  "\<exists>r s. search_iterations n m ev t 0 (initial_search t es) = Some (r, s) \<and> (case r of
       Inl e \<Rightarrow> \<exists>tr. ev tr = Inl e
     | Inr _ \<Rightarrow> search_ok m ev t s \<and> length (sx_tree s) = Suc n)"
  by (rule search_runs)

section \<open>How a search ends\<close>

lemma search_commit_outcome:
  assumes "search_commit m gov t r g trace = (e, es, audit)" "\<not> su_success r"
  shows "case e of Search_done r' \<Rightarrow> committed audit = (if su_success r' then 1 else 0) \<and> su_workflow r' = su_workflow r \<and> su_reward r' = su_reward r \<and>
       su_iterations r' = su_iterations r \<and> (su_success r' \<longrightarrow> su_failure r' = su_failure r \<and> source_allowed gov (sg_source_id (sw_config m)))
     | Search_threw _ \<Rightarrow> True | Search_undefined \<Rightarrow> False"
proof -
  let ?c = "search_proposal m t g trace"
  have src: "mc_source_id ?c = sg_source_id (sw_config m)" "mc_evaluation_refs ?c \<noteq> []" by (simp_all add: search_proposal_def)
  obtain p ps where p: "propose gov ?c = (p, ps)" by fastforce
  note none = propose_commits_nothing[OF p]
  show ?thesis
  proof (cases p)
    case (Inl x)
    then show ?thesis using assms(1) p by (auto simp: search_commit_def)
  next
    case (Inr d)
    show ?thesis
    proof (cases "dc_approved d")
      case True
      have "source_allowed gov (mc_source_id ?c)" using approved_source[OF p[unfolded Inr] True] .
      then have "commit_mutation gov ?c = (Inr approved_decision, [mutation_event ''mutation.committed'' (committed_json ?c) ?c])"
        using src(2) by (simp add: commit_mutation_def)
      then show ?thesis using assms p Inr True none src(1) \<open>source_allowed gov (mc_source_id ?c)\<close>
        by (auto simp: search_commit_def approved_decision_def Let_def split: sum.splits)
    next
      case False
      then show ?thesis using assms p Inr none by (auto simp: search_commit_def Let_def)
    qed
  qed
qed

lemma best_workflow_chain:
  assumes "search_ok m ev t s" "sx_workflow s = Some g" "length (sx_tree s) = Suc n"
  shows "chain_of t n g \<and> f64_less f64_minus_one (sx_best s)"
proof -
  let ?f = "score m ev t (sx_tree s)"
  obtain b w where b: "best_of ?f [1..<length (sx_tree s)] = (b, w)" by fastforce
  have "best_ok m ev t s" using assms(1) by (simp add: search_ok_def)
  note this[unfolded best_ok_def b prod.case]
  then obtain j where j: "w = Some j" "g = sn_state (sx_tree s ! j)" "sx_best s = b" using assms(2) by (cases w) auto
  then have "j \<in> set [1..<length (sx_tree s)]" "b = ?f j" "f64_less f64_minus_one (?f j)"
    using best_of_cases[of "[1..<length (sx_tree s)]" ?f] b by auto
  moreover have "chain_of t j (sn_state (sx_tree s ! j))" if "j < length (sx_tree s)" using assms(1) that by (simp add: search_ok_def)
  ultimately have c: "chain_of t j g" "f64_less f64_minus_one (sx_best s)" "j \<le> n" using j assms(3) by auto
  then show ?thesis using numbered_later[of t j "map wn_id (wg_nodes g)" n] by (cases "j = n") (auto simp: chain_of_def)
qed

lemma no_best_workflow:
  assumes "best_ok m ev t s" "sx_workflow s = None" "0 < j" "j < length (sx_tree s)"
  shows "\<not> f64_less f64_minus_one (score m ev t (sx_tree s) j)"
proof -
  let ?f = "score m ev t (sx_tree s)"
  obtain b w where b: "best_of ?f [1..<length (sx_tree s)] = (b, w)" by fastforce
  note assms(1)[unfolded best_ok_def b prod.case]
  then have "w = None" using assms(2) by auto
  then show ?thesis using best_of_cases[of "[1..<length (sx_tree s)]" ?f] b assms(3,4) by auto
qed

text \<open>A search always ends.  It succeeds exactly when the governor has announced one commit; then its workflow is a chain from the
  start node whose reward is above -1.  It follows a null pointer only when no simulation scored above -1, and then nothing was
  announced.\<close>

theorem search_outcome:
  "\<exists>e es audit. workflow_search_run m t = Some (e, es, audit) \<and> (case e of
       Search_done r \<Rightarrow> committed audit = (if su_success r then 1 else 0) \<and>
         (su_success r \<longrightarrow> su_failure r = [] \<and> su_iterations r = sg_max_iterations (sw_config m) \<and>
            (\<exists>g. su_workflow r = Some g \<and> chain_of t (nat (sg_max_iterations (sw_config m))) g \<and> f64_less f64_minus_one (su_reward r)))
     | Search_threw _ \<Rightarrow> True
     | Search_undefined \<Rightarrow> audit = [] \<and> (\<exists>ev start s. sw_evaluator m = Some ev \<and>
         search_iterations (nat (sg_max_iterations (sw_config m))) m ev t 0 (initial_search t start) = Some (Inr (), s) \<and>
         (\<forall>j \<in> {1..nat (sg_max_iterations (sw_config m))}. \<not> f64_less f64_minus_one (score m ev t (sx_tree s) j))))"
proof -
  let ?n = "nat (sg_max_iterations (sw_config m))"
  let ?start = "search_event m ''mcts.search.started'' [(''search_id'', JStr (sp_task_id t)), (''task_id'', JStr (sp_task_id t))]"
  consider "sw_evaluator m = None \<or> sw_governor m = None \<or> sg_max_iterations (sw_config m) \<le> 0"
    | ev gov where "sw_evaluator m = Some ev" "sw_governor m = Some gov" "0 < sg_max_iterations (sw_config m)"
    by (metis not_le option.exhaust)
  then show ?thesis
  proof cases
    case 1
    then have "\<exists>r es. workflow_search_run m t = Some (Search_done r, es, []) \<and> \<not> su_success r"
      by (cases "sw_evaluator m"; cases "sw_governor m") (simp_all add: workflow_search_run_def)
    then show ?thesis by (auto simp: committed_def)
  next
    case 2
    obtain x s where x: "search_iterations ?n m ev t 0 (initial_search t ?start) = Some (x, s)"
      "case x of Inl e \<Rightarrow> \<exists>tr. ev tr = Inl e | Inr _ \<Rightarrow> search_ok m ev t s \<and> length (sx_tree s) = Suc ?n"
      using search_runs by blast
    show ?thesis
    proof (cases x)
      case (Inl e)
      then show ?thesis using 2 x by (simp add: workflow_search_run_def)
    next
      case (Inr u)
      then have ok: "search_ok m ev t s" "length (sx_tree s) = Suc ?n" using x by auto
      obtain e es audit where e: "search_conclude m ev gov t s = (e, es, audit)" by (metis prod_cases3)
      have run: "workflow_search_run m t = Some (e, sx_events s @ es, audit)" using 2 x Inr e by (simp add: workflow_search_run_def)
      have out: "case e of
       Search_done r \<Rightarrow> committed audit = (if su_success r then 1 else 0) \<and>
         (su_success r \<longrightarrow> su_failure r = [] \<and> su_iterations r = sg_max_iterations (sw_config m) \<and>
            (\<exists>g. su_workflow r = Some g \<and> chain_of t ?n g \<and> f64_less f64_minus_one (su_reward r)))
        | Search_threw _ \<Rightarrow> True
        | Search_undefined \<Rightarrow> audit = [] \<and> sx_workflow s = None"
      proof (cases "\<exists>base g. ev (search_trace (sn_state (hd (sx_tree s))) t (-1)) = Inr base \<and> sx_workflow s = Some g")
        case False
        then show ?thesis using e by (auto simp: search_conclude_def Let_def split: sum.splits option.splits)
      next
        case True
        then obtain base g where g: "ev (search_trace (sn_state (hd (sx_tree s))) t (-1)) = Inr base" "sx_workflow s = Some g" by blast
        let ?r = "\<lparr> su_workflow = sx_workflow s, su_reward = sx_best s, su_iterations = sg_max_iterations (sw_config m), su_success = False, su_failure = [] \<rparr>"
        consider "search_commit m gov t ?r g (sx_trace s) = (e, es, audit)"
          | "e = Search_done (?r \<lparr> su_failure := ''behavioral_regression_failed'' \<rparr>)" "audit = []"
          using e g by (auto simp: search_conclude_def Let_def split: if_splits)
        then show ?thesis
        proof cases
          case 1
          from search_commit_outcome[OF this] show ?thesis
            using best_workflow_chain[OF ok(1) g(2) ok(2)] g(2) by (cases e) auto
        next
          case 2
          then show ?thesis by (simp add: committed_def)
        qed
      qed
      show ?thesis
      proof (cases e)
        case Search_undefined
        then have none: "sx_workflow s = None" "audit = []" using out by auto
        then have "\<forall>j \<in> {1..?n}. \<not> f64_less f64_minus_one (score m ev t (sx_tree s) j)"
          using no_best_workflow[of m ev t s] ok by (auto simp: search_ok_def)
        then show ?thesis using run Search_undefined none(2) 2(1) x(1) Inr by auto
      qed (use run out in auto)
    qed
  qed
qed

text \<open>A chain is never committed through a mutation governor: the context has no evaluation references.\<close>

theorem commit_chain_never_approved:
  assumes "commit_chain m ds seq = (r, es, audit, seq')"
  shows "\<exists>c. r = Inr c \<and> \<not> cr_approved c \<and> committed audit = 0"
  using assms
  by (auto simp: commit_chain_def commit_mutation_def deny_def default_mutation_def Let_def committed_def mutation_denied_event_def
      eb_new_def eb_args_def eb_ok_def eb_meta_def split: if_splits option.splits)

section \<open>The text is found again\<close>

definition workflow_yaml :: "workflow_graph \<Rightarrow> string" where
  "workflow_yaml g = ''graph_type: subgraph\<newline>nodes:'' @ concat (map (\<lambda>l. CHR 0x0A # l) (concat (map node_lines (wg_nodes g))))"

lemma shift_separator: "c # concat (map (\<lambda>l. l @ [c]) ls) = concat (map (\<lambda>l. c # l) ls) @ [c]"
  by (induction ls) auto

lemma render_nodes: "concat (map render_node ns) = concat (map (\<lambda>l. l @ [CHR 0x0A]) (concat (map node_lines ns)))"
  by (induction ns) (simp_all add: render_node_def)

lemma materialized_block:
  assumes "wg_nodes g \<noteq> []"
  shows "materialize_to_dsl g = Some (''##'' @ print_block (dynamic_prefix @ workflow_task g) (workflow_yaml g) @ [CHR 0x0A])"
  using assms shift_separator[of "CHR 0x0A" "concat (map node_lines (wg_nodes g))"]
  by (simp add: materialize_to_dsl_def print_block_def workflow_yaml_def render_nodes begin_marker_def end_marker_def fence_def)

lemma rx_all_heading:
  assumes "block_ok (p, y)"
  shows "rx_all block_pattern (''##'' @ print_block p y @ r) = (print_block p y, [p]) # rx_all block_pattern r"
proof -
  have no: "block_pattern (CHR ''#'' # CHR ''#'' # x) = []" for x
    by (simp add: block_pattern_def m_seqs_Cons m_seq_def m_lit_def m_plus_def)
  have "rx_search block_pattern (''##'' @ print_block p y @ r) = rx_search block_pattern (print_block p y @ r)"
  proof -
    obtain x where "print_block p y @ r = CHR ''#'' # x" by (simp add: print_block_def)
    then show ?thesis by (simp add: no)
  qed
  also have "\<dots> = Some (print_block p y, [p], r)" by (rule rx_search_starts[OF block_pattern_starts[OF assms]])
  finally have found: "rx_search block_pattern (''##'' @ print_block p y @ r) = Some (print_block p y, [p], r)" .
  show ?thesis by (subst rx_all.simps) (simp only: found option.case prod.case, simp)
qed

lemma node_lines_hash:
  assumes "CHR ''#'' \<notin> set (wn_id n)"
  shows "list_all (\<lambda>l. CHR ''#'' \<notin> set l) (node_lines n)"
  using assms by (simp add: node_lines_def in_quotes_def axis6_tool_name_def Let_def split: axis6.split)

lemma materialized_extracts:
  assumes "wg_nodes g \<noteq> []" "list_all (\<lambda>c. c \<noteq> CHR ''`'' \<and> c \<noteq> CHR ''#'') (wg_task_id g)" "\<forall>n \<in> set (wg_nodes g). CHR ''#'' \<notin> set (wn_id n)"
  shows "\<exists>text. materialize_to_dsl g = Some text \<and> extract_pathed_blocks text = [(dynamic_prefix @ workflow_task g, workflow_yaml g)]"
proof -
  have "CHR ''#'' \<notin> set l" if "n \<in> set (wg_nodes g)" "l \<in> set (node_lines n)" for n l
    using node_lines_hash[of n] assms(3) that by (simp add: list_all_iff)
  then have "CHR ''#'' \<notin> set (workflow_yaml g)" by (auto simp: workflow_yaml_def)
  then have "\<not> contains_sub end_marker (workflow_yaml g)"
    by (simp add: contains_sub_def end_marker_def find_sub_absent)
  then have ok: "block_ok (dynamic_prefix @ workflow_task g, workflow_yaml g)"
    using assms(2) by (simp add: block_ok_def dynamic_prefix_def workflow_task_def workflow_yaml_def is_space_def)
  have "rx_all block_pattern [CHR 0x0A] = []" by (rule rx_all_none) simp
  then have "extract_pathed_blocks (''##'' @ print_block (dynamic_prefix @ workflow_task g) (workflow_yaml g) @ [CHR 0x0A]) =
      [(dynamic_prefix @ workflow_task g, workflow_yaml g)]"
    using rx_all_heading[OF ok] yaml_between_print[OF ok] by (simp add: extract_pathed_blocks_def)
  then show ?thesis using materialized_block[OF assms(1)] by blast
qed

lemma nat_str_chars: "c \<in> set (nat_str n) \<Longrightarrow> 48 \<le> (of_char c :: nat) \<and> (of_char c :: nat) < 58"
proof (induction n rule: nat_str.induct)
  case (1 n)
  have "48 \<le> (of_char (char_of (48 + k :: nat)) :: nat) \<and> (of_char (char_of (48 + k :: nat)) :: nat) < 58" if "k < 10" for k
    using that by (simp add: of_char_of)
  then show ?case using 1 by (auto simp: nat_str.simps[of n] split: if_splits)
qed

lemma nat_str_hash: "CHR ''#'' \<notin> set (nat_str n)"
  using nat_str_chars[of "CHR ''#''" n] by auto

lemma numbered_hash: "numbered t n ids \<Longrightarrow> CHR ''#'' \<notin> set (sp_task_id t) \<Longrightarrow> x \<in> set ids \<Longrightarrow> CHR ''#'' \<notin> set x"
  using nat_str_hash by (auto simp: numbered_def)

text \<open>What a search finds can be loaded: for a task whose name has no hash sign, the text made of a chain holds exactly one block, which the
  document scanner finds again with the lines of the nodes in order; its path is valid, and it is the same for all tasks.\<close>

theorem searched_workflow_loads:
  assumes "chain_of t n g" "CHR ''#'' \<notin> set (sp_task_id t)"
  shows "\<exists>text. materialize_to_dsl g = Some text \<and> extract_pathed_blocks text = [(''/dynamic/mcts/unnamed'', workflow_yaml g)] \<and>
    is_valid_node_path ''/dynamic/mcts/unnamed''"
proof -
  have "numbered t n (map wn_id (wg_nodes g))" "wg_task_id g = []" using assms(1) by (simp_all add: chain_of_def)
  moreover from this have "wg_nodes g \<noteq> []" using numbered_nonempty by fastforce
  ultimately have "\<exists>text. materialize_to_dsl g = Some text \<and> extract_pathed_blocks text = [(dynamic_prefix @ workflow_task g, workflow_yaml g)]"
    using numbered_hash[OF _ assms(2)] by (intro materialized_extracts) auto
  moreover have "is_valid_node_path ''/dynamic/mcts/unnamed''" by code_simp
  ultimately show ?thesis using \<open>wg_task_id g = []\<close> by (simp add: workflow_task_def dynamic_prefix_def)
qed

section \<open>A concrete search\<close>

definition sample_task :: task_spec where
  "sample_task = \<lparr> sp_task_id = ''t'', sp_goal = [], sp_max_nodes = 2 \<rparr>"

definition sample_search :: workflow_search where
  "sample_search = \<lparr> sw_evaluator = Some (\<lambda>_. reward_acceptable f64_one),
     sw_governor = Some \<lparr> go_evaluator = (\<lambda>_. reward_acceptable f64_one), go_whitelist = [''R_T20_AFLOW''], go_approval = None, go_regression = None \<rparr>,
     sw_gate = Some kConfidence, sw_bus = True, sw_chain_depth = 3,
     sw_config = \<lparr> sg_max_iterations = 2, sg_exploration = f64_one, sg_source_id = ''R_T20_AFLOW'', sg_max_children = 1, sg_seed = 42 \<rparr>,
     sw_ops = zero_ops, sw_ir = plain_env, sw_random = (\<lambda>seed n. n), sw_hash_int = word_of_int \<rparr>"

lemma sample_search_succeeds:
  "case workflow_search_run sample_search sample_task of Some (Search_done r, es, audit) \<Rightarrow> su_success r | _ \<Rightarrow> False"
  by code_simp

lemma search_outcome_witness:
  "\<exists>r es audit g. workflow_search_run sample_search sample_task = Some (Search_done r, es, audit) \<and> committed audit = 1 \<and>
     su_workflow r = Some g \<and> chain_of sample_task 2 g"
proof -
  obtain r es audit where run: "workflow_search_run sample_search sample_task = Some (Search_done r, es, audit)" "su_success r"
    using sample_search_succeeds by (auto split: option.splits prod.splits search_end.splits)
  have "nat (sg_max_iterations (sw_config sample_search)) = 2" by (simp add: sample_search_def)
  then show ?thesis using search_outcome[of sample_search sample_task] run by auto
qed

lemma searched_workflow_loads_witness:
  "\<exists>text. materialize_to_dsl (make_root_graph sample_task) = Some text \<and>
     extract_pathed_blocks text = [(''/dynamic/mcts/unnamed'', workflow_yaml (make_root_graph sample_task))]"
proof -
  have "numbered sample_task 0 [sp_task_id sample_task @ '':wf:start'']" unfolding numbered_def by (intro exI[of _ "[]"]) simp
  then have "chain_of sample_task 0 (make_root_graph sample_task)" by (simp add: chain_of_def make_root_graph_def sample_task_def)
  from searched_workflow_loads[OF this] show ?thesis by (auto simp: sample_task_def)
qed

end
