(* ===== verification/Orchestrator.thy ===== *)
theory Orchestrator
  imports Workflow_Search
begin

text \<open>
  One round of reasoning and acting, and what is registered as tools: modules/cognitive/simple_orchestrator.cpp and
  cognitive_tools.cpp, with the parts of a worker's task that do not depend on threads (cognitive_worker.cpp,
  domain_worker_pool.cpp).  The tool registry and the language model are functions behind their interfaces; reading and
  printing JSON and the text of a double are parameters.
\<close>

section \<open>One round\<close>

record react_env =
  re_has_tool :: "string \<Rightarrow> bool"
  re_call_tool :: "string \<Rightarrow> tool_args \<Rightarrow> json res"
  re_generate :: "string \<Rightarrow> (llm_error + generation_result) res"
  re_parse :: "string \<Rightarrow> json res"
  re_dump :: "json \<Rightarrow> string res"
  re_double :: "64 word \<Rightarrow> string"

fun llm_error_to_error_code :: "llm_code \<Rightarrow> error_code" where
  "llm_error_to_error_code Network_error = Retry"
| "llm_error_to_error_code Rate_limited = Retry"
| "llm_error_to_error_code Server_error = Retry"
| "llm_error_to_error_code Authentication_error = PermissionDenied"
| "llm_error_to_error_code Context_overflow = ResourceExhausted"
| "llm_error_to_error_code Llm_cancelled = Cancelled"
| "llm_error_to_error_code Invalid_request = Unknown"
| "llm_error_to_error_code Llm_unknown = Unknown"

text \<open>The value of an argument as text; integers pass through \<open>long long\<close>.\<close>

definition flat_value :: "react_env \<Rightarrow> json \<Rightarrow> string res" where
  "flat_value env v = (case v of
       JStr s \<Rightarrow> Inr s
     | JInt i \<Rightarrow> Inr (int_str (sint (word_of_int i :: 64 word)))
     | JFloat w \<Rightarrow> Inr (re_double env w)
     | JBool b \<Rightarrow> Inr (if b then ''true'' else ''false'')
     | JNull \<Rightarrow> Inr []
     | _ \<Rightarrow> re_dump env v)"

fun flatten_pairs :: "react_env \<Rightarrow> (string \<times> json) list \<Rightarrow> tool_args res" where
  "flatten_pairs env [] = Inr []"
| "flatten_pairs env ((k, v) # kvs) = ebind (flat_value env v) (\<lambda>s. ebind (flatten_pairs env kvs) (\<lambda>rest. Inr ((k, s) # rest)))"

definition flatten_args :: "react_env \<Rightarrow> json \<Rightarrow> tool_args res" where
  "flatten_args env j = (case j of JObj kvs \<Rightarrow> flatten_pairs env kvs | _ \<Rightarrow> Inr [])"

definition react_prompt :: "string \<Rightarrow> string" where
  "react_prompt user = ''You have access to tools: [echo]\<newline>Respond with JSON: {'' @ in_quotes ''tool'' @ '': '' @ in_quotes ''name'' @ '', '' @
     in_quotes ''args'' @ '': {...}}'' @ ''\<newline>[user] '' @ user"

text \<open>The envelope of what a tool returned.\<close>

definition tool_envelope :: "string \<Rightarrow> json \<Rightarrow> tool_result" where
  "tool_envelope name j = (case jlookup ''error'' j of
       Some (JStr e) \<Rightarrow> default_tool_result \<lparr> tr_ok := False, tr_data := j, tr_meta := jobj [(''tool_name'', JStr name),
         (''error_code'', JStr ''ERR_TOOL.RUNTIME''), (''error_message'', JStr e)] \<rparr>
     | _ \<Rightarrow> default_tool_result \<lparr> tr_ok := True, tr_data := j, tr_meta := jobj [(''tool_name'', JStr name)] \<rparr>)"

definition tool_name_of :: "json \<Rightarrow> string option" where
  "tool_name_of j = (case jlookup ''tool'' j of Some (JStr s) \<Rightarrow> Some s | _ \<Rightarrow> None)"

definition tool_args_of :: "json \<Rightarrow> json" where
  "tool_args_of j = (case jlookup ''args'' j of Some a \<Rightarrow> (if is_obj a then a else jempty) | None \<Rightarrow> jempty)"

text \<open>The result and the tool calls that were made.\<close>

definition call_chosen_tool :: "react_env \<Rightarrow> json \<Rightarrow> tool_result res \<times> (string \<times> tool_args) list" where
  "call_chosen_tool env j = (case tool_name_of j of
       None \<Rightarrow> (Inr (tr_error Unknown ''Missing 'tool' field'' jempty), [])
     | Some name \<Rightarrow>
         if \<not> re_has_tool env name then (Inr (tr_error ToolNotRegistered (''Tool not registered: '' @ name) jempty), [])
         else (case flatten_args env (tool_args_of j) of
             Inl e \<Rightarrow> (Inl e, [])
           | Inr args \<Rightarrow> (case re_call_tool env name args of
                 Inl e \<Rightarrow> (Inr (tr_error Unknown (''Tool execution failed: '' @ what e) jempty), [(name, args)])
               | Inr out \<Rightarrow> (Inr (tool_envelope name out), [(name, args)]))))"

definition react_once :: "react_env \<Rightarrow> string \<Rightarrow> tool_result res \<times> (string \<times> tool_args) list" where
  "react_once env user = (case re_generate env (react_prompt user) of
       Inl e \<Rightarrow> (Inl e, [])
     | Inr (Inl e) \<Rightarrow> (Inr (tr_error (llm_error_to_error_code (le_code e)) (le_message e) jempty), [])
     | Inr (Inr g) \<Rightarrow> (case re_parse env (gr_text g) of
           Inl e \<Rightarrow> (Inr (tr_error Unknown (what e) jempty), [])
         | Inr j \<Rightarrow> call_chosen_tool env j))"

text \<open>The results handed to the callback, in order, and what escapes; a callback that throws is called a second time.\<close>

definition process_session :: "react_env option \<Rightarrow> (nat \<Rightarrow> tool_result \<Rightarrow> unit res) \<Rightarrow> string \<Rightarrow>
    tool_result list \<times> unit res \<times> (string \<times> tool_args) list" where
  "process_session deps callback session = (case deps of
       None \<Rightarrow> (let r = tr_error Unknown ''Missing dependencies (registry or llm)'' jempty in ([r], callback 0 r, []))
     | Some env \<Rightarrow> (case react_once env session of
           (Inl e, calls) \<Rightarrow> (let r = tr_error Unknown (what e) jempty in ([r], callback 0 r, calls))
         | (Inr r, calls) \<Rightarrow> (case callback 0 r of
               Inr _ \<Rightarrow> ([r], Inr (), calls)
             | Inl e \<Rightarrow> (let r' = tr_error Unknown (what e) jempty in ([r, r'], callback 1 r', calls)))))"

section \<open>Tools of the cognitive domain\<close>

definition arg_or :: "string \<Rightarrow> string \<Rightarrow> tool_args \<Rightarrow> string" where
  "arg_or k d args = (case map_of args k of None \<Rightarrow> d | Some v \<Rightarrow> v)"

text \<open>evolution::reflect, evolution::search and evolution::compile, from the outcome of what they call.\<close>

definition reflect_trace :: "tool_args \<Rightarrow> execution_trace" where
  "reflect_trace args = empty_trace \<lparr> et_trace_id := arg_or ''failed_trace'' ''t5_unnamed'' args \<rparr>"

definition reflect_json :: "reflection_result \<Rightarrow> json" where
  "reflect_json r = (let j = jobj [(''ok'', JBool (rr_success r))];
     j1 = (if \<not> rr_success r \<and> rr_failure_mode r \<noteq> [] then jset ''failure_mode'' (JStr (rr_failure_mode r)) j else j) in
     case rr_candidates r of [] \<Rightarrow> j1 | c # _ \<Rightarrow> jset ''new_prompt'' (JStr c) j1)"

definition reflect_tool :: "gepa_loop \<Rightarrow> tool_args \<Rightarrow> (json, gepa_world) act" where
  "reflect_tool g args w = (case reflect_and_commit g (reflect_trace args) w of
       (Inl e, w1) \<Rightarrow> (Inl e, w1) | (Inr r, w1) \<Rightarrow> (Inr (reflect_json r), w1))"

definition search_task :: "tool_args \<Rightarrow> task_spec" where
  "search_task args = \<lparr> sp_task_id = arg_or ''task_id'' ''t5_default'' args, sp_goal = [], sp_max_nodes = 8 \<rparr>"

definition search_json :: "string \<Rightarrow> search_result \<Rightarrow> json" where
  "search_json task r = (let j = jobj [(''ok'', JBool (su_success r))];
     j1 = (if \<not> su_success r then jset ''failure_mode'' (JStr (su_failure r)) j else j) in
     jset ''best_workflow'' (jobj [(''task_id'', JStr task), (''result'', JBool (su_success r))]) j1)"

definition compile_json :: "compiled_skill \<Rightarrow> json" where
  "compile_json k = (let j = jobj [(''ok'', JBool (ck_ok k))];
     j1 = (if \<not> ck_ok k \<and> ck_failure k \<noteq> [] then jset ''failure_reason'' (JStr (ck_failure k)) j else j) in
     jset ''compiled_content'' (JStr (ck_content k)) j1)"

definition compile_tool :: "compiler \<Rightarrow> tool_args \<Rightarrow> json res \<times> event_builder list" where
  "compile_tool co args = (case compile_skill co (arg_or ''skill_md_content'' [] args) of
       (Inl e, es) \<Rightarrow> (Inl e, es) | (Inr k, es) \<Rightarrow> (Inr (compile_json k), es))"

text \<open>What the three tools are registered with: a single text argument that is required.\<close>

definition text_argument_schema :: "string \<Rightarrow> string \<Rightarrow> json" where
  "text_argument_schema key description = jobj [(''type'', JStr ''object''),
     (''properties'', jobj [(key, jobj [(''type'', JStr ''string''), (''description'', JStr description)])]),
     (''required'', JArr [JStr key])]"

definition cognitive_tool :: "string \<Rightarrow> string \<Rightarrow> tool_category \<Rightarrow> 64 word \<Rightarrow> int \<Rightarrow> json \<Rightarrow> string \<Rightarrow> string \<Rightarrow> tool_metadata" where
  "cognitive_tool name description category cost timeout input output output_type = \<lparr> md_name = name, md_description = description,
     md_domain = ''cognitive'', md_category = category, md_min_layer = Thinking,
     md_approval = \<lparr> requires_approval_in_plan = True, requires_approval_in_agent = True, requires_approval_in_yolo = False,
       force_approval_always = False \<rparr>,
     md_allowed_layers = [Workflow, Thinking], md_cost_estimate = cost, md_timeout_ms = timeout, md_input_schema = Some input,
     md_output_schema = Some (jobj [(''type'', JStr ''object''), (''properties'', jobj [(output, jobj [(''type'', JStr output_type)])])]),
     md_validation_mode = Strict \<rparr>"

text \<open>0.05, 0.1 and 0.02 by their bits.\<close>

definition reflect_metadata :: tool_metadata where
  "reflect_metadata = cognitive_tool ''evolution::reflect'' ''Reflect on failed execution trace and propose mutation'' StateModify
     0x3FA999999999999A 30000 (text_argument_schema ''failed_trace'' ''Execution trace ID to reflect on'') ''new_prompt'' ''string''"

definition search_metadata :: tool_metadata where
  "search_metadata = cognitive_tool ''evolution::search'' ''MCTS workflow search for optimal cognitive domain chain'' Execute
     0x3FB999999999999A 60000 (text_argument_schema ''task_id'' ''Task spec ID for MCTS search'') ''best_workflow'' ''object''"

definition compile_metadata :: tool_metadata where
  "compile_metadata = cognitive_tool ''evolution::compile'' ''Compile SKILL.md content into executable skill form'' StateModify
     0x3F947AE147AE147B 10000 (text_argument_schema ''skill_md_content'' ''Raw SKILL.md content to compile'') ''compiled_skill_path'' ''string''"

text \<open>A tool is registered when its implementation is given; a refused registration leaves those before it.\<close>

definition register_given :: "string \<Rightarrow> tool_metadata \<Rightarrow> tool_func option \<Rightarrow> (unit, tool_registry) act" where
  "register_given name m f r = (case f of None \<Rightarrow> (Inr (), r)
     | Some g \<Rightarrow> (case register_tool_function name m g r of Inl e \<Rightarrow> (Inl e, r) | Inr r1 \<Rightarrow> (Inr (), r1)))"

definition register_cognitive_tools :: "tool_func option \<Rightarrow> tool_func option \<Rightarrow> tool_func option \<Rightarrow> (unit, tool_registry) act" where
  "register_cognitive_tools reflect search compile =
     sbind (register_given ''evolution::reflect'' reflect_metadata reflect) (\<lambda>_.
     sbind (register_given ''evolution::search'' search_metadata search) (\<lambda>_.
       register_given ''evolution::compile'' compile_metadata compile))"

section \<open>Tasks of the workers\<close>

record domain_task =
  dt_domain :: string
  dt_tool_name :: string
  dt_arguments :: json
  dt_output_key :: string
  dt_parent_trace :: "string option"

record worker_env =
  we_evaluator :: "evaluator option"
  we_evaluator_type :: string
  we_evaluation_id :: "tool_result \<Rightarrow> string"

text \<open>The handlers of a pool by domain; a handler that cannot be called is None.\<close>

type_synonym domain_handler = "domain_task \<Rightarrow> json res"

definition register_domain_handler :: "string \<Rightarrow> domain_handler option \<Rightarrow> (string \<times> domain_handler) list \<Rightarrow> (string \<times> domain_handler) list res" where
  "register_domain_handler d h hs = (case h of
       None \<Rightarrow> Inl (Invalid_argument ''DomainWorkerPool::register_domain_handler: handler must be callable'')
     | Some f \<Rightarrow> if map_of hs d \<noteq> None
         then Inl (Invalid_argument (''DomainWorkerPool::register_domain_handler: domain already registered: '' @ d))
         else Inr (kv_ins d f hs))"

definition unregister_domain_handler :: "string \<Rightarrow> (string \<times> domain_handler) list \<Rightarrow> (string \<times> domain_handler) list res" where
  "unregister_domain_handler d hs = (if map_of hs d = None
     then Inl (Out_of_range (''DomainWorkerPool::unregister_domain_handler: domain not registered: '' @ d))
     else Inr (kv_del d hs))"

text \<open>The evaluation of a result: an exception is swallowed.\<close>

definition evaluate_result :: "worker_env \<Rightarrow> string \<Rightarrow> tool_result \<Rightarrow> event_builder list" where
  "evaluate_result env trace r = (case we_evaluator env of
       None \<Rightarrow> []
     | Some ev \<Rightarrow> let t = empty_trace \<lparr> et_final_result := r, et_trace_id := trace \<rparr> in
         (case ev t of Inl _ \<Rightarrow> []
           | Inr s \<Rightarrow> [build_evaluation_result_event (we_evaluation_id env r) (we_evaluator_type env) t s]))"

definition with_parent :: "string option \<Rightarrow> event_builder \<Rightarrow> event_builder" where
  "with_parent p b = (case p of None \<Rightarrow> b | Some t \<Rightarrow> eb_parent_trace t b)"

definition task_started :: "nat \<Rightarrow> domain_task \<Rightarrow> event_builder" where
  "task_started i t = with_parent (dt_parent_trace t) (eb_meta (jobj [(''worker_id'', JInt (int i))])
     (eb_args (jobj [(''domain'', JStr (dt_domain t)), (''tool_name'', JStr (dt_tool_name t)), (''output_key'', JStr (dt_output_key t))])
       (eb_new ''domain.task.started'')))"

definition task_meta :: "nat \<Rightarrow> domain_task \<Rightarrow> json" where
  "task_meta i t = jobj [(''domain'', JStr (dt_domain t)), (''tool_name'', JStr (dt_tool_name t)),
     (''output_key'', JStr (dt_output_key t)), (''worker_id'', JInt (int i))]"

definition unhandled_result :: "nat \<Rightarrow> domain_task \<Rightarrow> tool_result" where
  "unhandled_result i t = default_tool_result \<lparr> tr_ok := False, tr_error_code := Some Unknown,
     tr_meta := jset ''error_message'' (JStr (''no handler for domain: '' @ dt_domain t)) (task_meta i t) \<rparr>"

text \<open>The outcome of the handler: its value, or the text of its exception.\<close>

definition handled_result :: "nat \<Rightarrow> domain_task \<Rightarrow> json res \<Rightarrow> tool_result" where
  "handled_result i t out = (let base = default_tool_result \<lparr> tr_meta := task_meta i t, tr_trace_id := Some (dt_output_key t),
       tr_parent_trace := dt_parent_trace t \<rparr> in
     case out of
       Inr j \<Rightarrow> base \<lparr> tr_ok := True, tr_data := jset (dt_output_key t) j jempty \<rparr>
     | Inl e \<Rightarrow> base \<lparr> tr_ok := False, tr_error_code := Some Unknown,
         tr_meta := jset ''error_message'' (JStr (what e)) (task_meta i t) \<rparr>)"

text \<open>The events of a task, when there is a bus.\<close>

definition process_task :: "worker_env \<Rightarrow> (string \<Rightarrow> (domain_task \<Rightarrow> json res) option) \<Rightarrow> nat \<Rightarrow> domain_task \<Rightarrow> event_builder list" where
  "process_task env handlers i t = task_started i t # (case handlers (dt_domain t) of
       None \<Rightarrow> [eb_from ''domain.task.failed'' (unhandled_result i t)]
     | Some h \<Rightarrow> let r = handled_result i t (h t) in
         eb_from (if tr_ok r then ''domain.task.completed'' else ''domain.task.failed'') r # evaluate_result env (dt_output_key t) r)"

definition error_code_from_string :: "string \<Rightarrow> error_code option" where
  "error_code_from_string s =
     (if s = ''ERR_LLM.NETWORK'' then Some Retry
      else if s = ''ERR_LLM.RATE_LIMITED'' then Some Retry
      else if s = ''ERR_LLM.AUTH'' then Some PermissionDenied
      else if s = ''ERR_LLM.CANCELLED'' then Some Abort
      else if s = ''ERR_LLM.INVALID_REQUEST'' then Some Unknown
      else if s = ''ERR_LLM.SERVER'' then Some Unknown
      else if s = ''ERR_LLM.CONTEXT_OVERFLOW'' then Some ResourceExhausted
      else if s = ''ERR_TOOL.NOT_FOUND'' then Some ToolNotRegistered
      else Some Unknown)"

definition bridge_error_code :: "tool_result \<Rightarrow> tool_result" where
  "bridge_error_code r = (if \<not> tr_ok r \<and> tr_error_code r = None
     then (case jlookup ''error_code'' (tr_meta r) of Some (JStr s) \<Rightarrow> r \<lparr> tr_error_code := error_code_from_string s \<rparr> | _ \<Rightarrow> r)
     else r)"

text \<open>A task of the cognitive worker: its identifier, prompt and parent.\<close>

type_synonym cognitive_task = "string \<times> string \<times> string option"

definition cognitive_result :: "react_env option \<Rightarrow> cognitive_task \<Rightarrow> tool_result" where
  "cognitive_result deps t = (case t of (task, prompt, parent) \<Rightarrow>
     let r = bridge_error_code (last (fst (process_session deps (\<lambda>_ _. Inr ()) prompt)));
         r1 = r \<lparr> tr_trace_id := Some task \<rparr> in
     (case parent of None \<Rightarrow> r1 | Some p \<Rightarrow> r1 \<lparr> tr_parent_trace := Some p \<rparr>))"

definition cognitive_events :: "worker_env \<Rightarrow> react_env option \<Rightarrow> cognitive_task \<Rightarrow> event_builder list" where
  "cognitive_events env deps t = (case t of (task, prompt, parent) \<Rightarrow>
     let r = cognitive_result deps t in
     with_parent parent (eb_meta (jobj [(''task_id'', JStr task)]) (eb_new ''cognitive.task.started'')) #
     eb_from ''cognitive.task.completed'' r # evaluate_result env task r)"

section \<open>What a round does\<close>

text \<open>A round calls at most one tool, a registered one, with the flattened arguments the model chose; it reports success
  exactly when that call returned a value without an error text, which is then its data; and every exception but one of the model or of
  printing an argument becomes a result.\<close>

theorem react_calls_one_tool:
  "case react_once env user of (r, calls) \<Rightarrow>
     (case calls of [] \<Rightarrow> \<not> (\<exists>x. r = Inr x \<and> tr_ok x)
      | [(name, args)] \<Rightarrow> re_has_tool env name \<and> (\<exists>g j. re_generate env (react_prompt user) = Inr (Inr g) \<and> re_parse env (gr_text g) = Inr j \<and>
            tool_name_of j = Some name \<and> flatten_args env (tool_args_of j) = Inr args) \<and>
          (\<exists>x. r = Inr x \<and> (tr_ok x \<longleftrightarrow> (\<exists>out. re_call_tool env name args = Inr out \<and> \<not> (\<exists>e. jlookup ''error'' out = Some (JStr e)) \<and> tr_data x = out)))
      | _ \<Rightarrow> False)"
proof -
  have bad: "\<not> tr_ok (tr_error c m j)" for c m j by (simp add: tr_error_def default_tool_result_def Let_def)
  have good: "tr_ok (tool_envelope name out) \<longleftrightarrow> \<not> (\<exists>e. jlookup ''error'' out = Some (JStr e))" "tr_data (tool_envelope name out) = out" for name out
    by (auto simp: tool_envelope_def default_tool_result_def split: option.split json.split)
  show ?thesis
    by (auto simp: react_once_def call_chosen_tool_def bad good split: sum.split option.split)
qed

text \<open>The three tools are always accepted when their names are free, keep the tools that were there, and ask for approval in plan and
  agent mode.\<close>

lemma register_given_new:
  assumes "map_of (reg_tools r) name = None" "name \<noteq> []" "md_min_layer m \<in> set (md_allowed_layers m)" "\<not> no_plan_or_agent m"
  shows "register_given name m (Some f) r = (Inr (), r \<lparr> reg_tools := kv_ins name f (reg_tools r), reg_metadata := kv_ins name m (reg_metadata r) \<rparr>)"
  using assms by (simp add: register_given_def register_tool_function_def)

lemmas cognitive_metadata = reflect_metadata_def search_metadata_def compile_metadata_def cognitive_tool_def

lemma cognitive_tools_registered:
  assumes "\<forall>name \<in> {''evolution::reflect'', ''evolution::search'', ''evolution::compile''}. map_of (reg_tools r) name = None"
  shows "\<exists>r'. register_cognitive_tools (Some f) (Some g) (Some h) r = (Inr (), r') \<and>
    map_of (reg_tools r') = (map_of (reg_tools r))(''evolution::reflect'' \<mapsto> f, ''evolution::search'' \<mapsto> g, ''evolution::compile'' \<mapsto> h) \<and>
    (\<forall>name \<in> {''evolution::reflect'', ''evolution::search'', ''evolution::compile''}. \<exists>m. map_of (reg_metadata r') name = Some m \<and>
       requires_approval_in_plan (md_approval m) \<and> requires_approval_in_agent (md_approval m))"
  using assms
  by (simp add: register_cognitive_tools_def sbind_def register_given_new cognitive_metadata no_plan_or_agent_def)

lemma handlers_after_register:
  "register_domain_handler d (Some f) hs = Inr hs' \<Longrightarrow> map_of hs' = (map_of hs)(d \<mapsto> f)"
  "unregister_domain_handler d hs = Inr hs' \<Longrightarrow> map_of hs' = (map_of hs)(d := None)"
  by (auto simp: register_domain_handler_def unregister_domain_handler_def split: if_splits)

text \<open>The callback gets exactly one result, unless it throws; then it gets the text of its own exception as a second one.\<close>

lemma process_completes_once:
  "process_session deps callback session = (rs, out, calls) \<Longrightarrow> (length rs = 1 \<or> length rs = 2 \<and> (\<exists>e. callback 0 (hd rs) = Inl e))"
  by (auto simp: process_session_def Let_def split: option.splits prod.splits sum.splits)

lemma bridged: "\<not> tr_ok r \<Longrightarrow> tr_error_code r = None \<Longrightarrow> jlookup ''error_code'' (tr_meta r) = Some (JStr s) \<Longrightarrow> tr_error_code (bridge_error_code r) \<noteq> None"
  by (simp add: bridge_error_code_def error_code_from_string_def)

lemma react_results_have_codes:
  "fst (react_once env user) = Inr x \<Longrightarrow> tr_ok x \<or> tr_error_code x \<noteq> None \<or> jlookup ''error_code'' (tr_meta x) = Some (JStr ''ERR_TOOL.RUNTIME'')"
proof -
  have "jlookup ''error_code'' (jobj [(''tool_name'', JStr n), (''error_code'', c), (''error_message'', m)]) = Some c" for n c m
    by (simp add: jobj_def)
  then show "fst (react_once env user) = Inr x \<Longrightarrow> ?thesis"
  by (auto simp: react_once_def call_chosen_tool_def tool_envelope_def tr_error_def default_tool_result_def Let_def
      split: sum.splits option.splits if_splits json.splits)
qed

text \<open>Every task of the cognitive worker gives one started event, one completed event whose result names the task, the parent the
  caller gave and, when it failed, an error code, and at most one evaluation.\<close>

theorem cognitive_task_events:
  "\<exists>started ev r. cognitive_events env deps (task, prompt, parent) = started # eb_from ''cognitive.task.completed'' r # ev \<and>
     eb_topic started = ''cognitive.task.started'' \<and> tr_trace_id r = Some task \<and> (tr_ok r \<or> tr_error_code r \<noteq> None) \<and>
     (case parent of None \<Rightarrow> True | Some p \<Rightarrow> tr_parent_trace r = Some p) \<and> length ev \<le> 1"
proof -
  let ?r = "last (fst (process_session deps (\<lambda>_ _. Inr ()) prompt))"
  have err: "tr_error_code (tr_error c m j) \<noteq> None" for c m j by (simp add: tr_error_def default_tool_result_def Let_def)
  have "tr_ok ?r \<or> tr_error_code ?r \<noteq> None \<or> jlookup ''error_code'' (tr_meta ?r) = Some (JStr ''ERR_TOOL.RUNTIME'')"
  proof (cases deps)
    case (Some env)
    obtain x calls where x: "react_once env prompt = (x, calls)" by fastforce
    then show ?thesis using Some err react_results_have_codes[of env prompt] by (cases x) (simp_all add: process_session_def Let_def)
  qed (simp add: process_session_def err Let_def)
  then have ok: "tr_ok (bridge_error_code ?r) \<or> tr_error_code (bridge_error_code ?r) \<noteq> None"
    using bridged[of ?r] by (cases "tr_ok ?r"; cases "tr_error_code ?r") (auto simp: bridge_error_code_def)
  have "eb_topic (with_parent p b) = eb_topic b" for p b by (simp add: with_parent_def eb_parent_trace_def split: option.split)
  moreover have "length (evaluate_result env task r) \<le> 1" for r by (simp add: evaluate_result_def Let_def split: option.split sum.split)
  ultimately show ?thesis using ok
    by (auto simp: cognitive_events_def cognitive_result_def eb_meta_def eb_new_def Let_def split: option.split)
qed

end
