(* ===== verification/Workers.thy ===== *)
theory Workers
  imports Orchestrator "HOL-Library.Multiset"
begin

text \<open>
  Threads around a queue of tasks: modules/cognitive/domain_worker_pool.cpp and cognitive_worker.cpp.  The mutex of the queue is held
  by a worker between its test of the queue and its wait; every other critical section is one step.  Changing the state,
  asking the workers to stop and notifying them are steps of the stopping thread that do not take the mutex, as in the code.
  Starting creates all threads in one step (it is not called concurrently with itself or with stop).
\<close>

section \<open>State\<close>

datatype crew_state = Crew_idle | Crew_running | Crew_stopped

text \<open>A worker is about to lock the queue, or has found nothing to do and holds the mutex, or waits on the condition
  variable, or works on a task, or has returned.\<close>

datatype 't phase = Ready | Checked | Waiting | Working 't | Gone

datatype stopper = No_stop | Requesting nat | Notifying | Joining nat | Stop_returned

record 't crew =
  kw_state :: crew_state
  kw_phases :: "'t phase list"
  kw_flags :: "bool list"
  kw_queue :: "'t list"
  kw_pending :: "'t list"
  kw_notify :: nat
  kw_stopper :: stopper
  kw_pushed :: "'t list"
  kw_taken :: "'t list"
  kw_finished :: "'t list"
  kw_early :: "'t list option"

text \<open>The last four are not in the code: what was put into the queue, taken out and finished, and what had been put in when
  the state became stopped.\<close>

definition new_crew :: "'t crew" where
  "new_crew = \<lparr> kw_state = Crew_idle, kw_phases = [], kw_flags = [], kw_queue = [], kw_pending = [], kw_notify = 0, kw_stopper = No_stop,
     kw_pushed = [], kw_taken = [], kw_finished = [], kw_early = None \<rparr>"

definition mutex_free :: "'t crew \<Rightarrow> bool" where
  "mutex_free s \<longleftrightarrow> Checked \<notin> set (kw_phases s)"

definition set_phase :: "nat \<Rightarrow> 't phase \<Rightarrow> 't crew \<Rightarrow> 't crew" where
  "set_phase i p s = s \<lparr> kw_phases := (kw_phases s)[i := p] \<rparr>"

text \<open>A worker takes the first task.\<close>

definition take_task :: "nat \<Rightarrow> 't crew \<Rightarrow> 't crew" where
  "take_task i s = (case kw_queue s of [] \<Rightarrow> s
     | t # q \<Rightarrow> set_phase i (Working t) (s \<lparr> kw_queue := q, kw_taken := kw_taken s @ [t] \<rparr>))"

text \<open>What a worker does with the mutex.  A worker of the pool empties the queue before it obeys the stop token; the cognitive worker
  returns as soon as the state is not running.\<close>

definition pool_check :: "nat \<Rightarrow> 't crew \<Rightarrow> 't crew" where
  "pool_check i s = (if kw_queue s \<noteq> [] then take_task i s
     else if kw_flags s ! i then set_phase i Gone s else set_phase i Checked s)"

definition cognitive_check :: "nat \<Rightarrow> 't crew \<Rightarrow> 't crew" where
  "cognitive_check i s = (if kw_state s \<noteq> Crew_running then set_phase i Gone s
     else if kw_queue s \<noteq> [] then take_task i s else set_phase i Checked s)"

section \<open>Steps\<close>

datatype 't crew_action =
    Start nat | Submit 't | Push | Notify_one nat | Check nat | Block nat | Spurious nat | Finish nat
  | Stop | Request | Notify_all | Join

definition crew_start :: "nat \<Rightarrow> 't crew \<Rightarrow> 't crew" where
  "crew_start n s = (if kw_state s = Crew_idle
     then s \<lparr> kw_state := Crew_running, kw_phases := replicate n Ready, kw_flags := replicate n False \<rparr> else s)"

text \<open>The test of the state comes before the mutex; a refused task throws.\<close>

definition crew_submit :: "'t \<Rightarrow> 't crew \<Rightarrow> 't crew" where
  "crew_submit t s = (if kw_state s = Crew_running then s \<lparr> kw_pending := kw_pending s @ [t] \<rparr> else s)"

definition crew_push :: "'t crew \<Rightarrow> 't crew option" where
  "crew_push s = (case kw_pending s of [] \<Rightarrow> None
     | t # ts \<Rightarrow> if mutex_free s then Some (s \<lparr> kw_pending := ts, kw_queue := kw_queue s @ [t], kw_pushed := kw_pushed s @ [t],
         kw_notify := Suc (kw_notify s) \<rparr>) else None)"

text \<open>A notification wakes one waiting worker, any, and none when none waits.\<close>

definition crew_notify_one :: "nat \<Rightarrow> 't crew \<Rightarrow> 't crew option" where
  "crew_notify_one i s = (if kw_notify s = 0 then None
     else let s1 = s \<lparr> kw_notify := kw_notify s - 1 \<rparr> in
       if i < length (kw_phases s) \<and> kw_phases s ! i = Waiting then Some (set_phase i Ready s1)
       else if Waiting \<in> set (kw_phases s) then None else Some s1)"

definition wake :: "'t phase \<Rightarrow> 't phase" where
  "wake p = (if p = Waiting then Ready else p)"

text \<open>\<open>begin\<close>: where the stopping thread goes on after it has changed the state; only the pool has stop tokens.\<close>

definition crew_stop :: "stopper \<Rightarrow> 't crew \<Rightarrow> 't crew" where
  "crew_stop first s = (if kw_state s = Crew_running
     then s \<lparr> kw_state := Crew_stopped, kw_stopper := first, kw_early := Some (kw_pushed s) \<rparr> else s)"

definition crew_request :: "'t crew \<Rightarrow> 't crew option" where
  "crew_request s = (case kw_stopper s of
       Requesting i \<Rightarrow> Some (if i < length (kw_flags s)
         then s \<lparr> kw_flags := (kw_flags s)[i := True], kw_stopper := Requesting (Suc i) \<rparr>
         else s \<lparr> kw_stopper := Notifying \<rparr>)
     | _ \<Rightarrow> None)"

definition crew_notify_all :: "'t crew \<Rightarrow> 't crew option" where
  "crew_notify_all s = (if kw_stopper s = Notifying
     then Some (s \<lparr> kw_phases := map wake (kw_phases s), kw_stopper := Joining 0 \<rparr>) else None)"

definition crew_join :: "'t crew \<Rightarrow> 't crew option" where
  "crew_join s = (case kw_stopper s of
       Joining i \<Rightarrow> if length (kw_phases s) \<le> i then Some (s \<lparr> kw_stopper := Stop_returned \<rparr>)
         else if kw_phases s ! i = Gone then Some (s \<lparr> kw_stopper := Joining (Suc i) \<rparr>) else None
     | _ \<Rightarrow> None)"

definition at_phase :: "nat \<Rightarrow> 't phase \<Rightarrow> 't crew \<Rightarrow> bool" where
  "at_phase i p s \<longleftrightarrow> i < length (kw_phases s) \<and> kw_phases s ! i = p"

definition crew_finish :: "nat \<Rightarrow> 't crew \<Rightarrow> 't crew option" where
  "crew_finish i s = (if i < length (kw_phases s)
     then (case kw_phases s ! i of Working t \<Rightarrow> Some (set_phase i Ready (s \<lparr> kw_finished := kw_finished s @ [t] \<rparr>)) | _ \<Rightarrow> None)
     else None)"

text \<open>None: the action is not possible now.\<close>

fun crew_step :: "(nat \<Rightarrow> 't crew \<Rightarrow> 't crew) \<Rightarrow> stopper \<Rightarrow> 't crew_action \<Rightarrow> 't crew \<Rightarrow> 't crew option" where
  "crew_step check first (Start n) s = Some (crew_start n s)"
| "crew_step check first (Submit t) s = Some (crew_submit t s)"
| "crew_step check first Push s = crew_push s"
| "crew_step check first (Notify_one i) s = crew_notify_one i s"
| "crew_step check first (Check i) s = (if at_phase i Ready s \<and> mutex_free s then Some (check i s) else None)"
| "crew_step check first (Block i) s = (if at_phase i Checked s then Some (set_phase i Waiting s) else None)"
| "crew_step check first (Spurious i) s = (if at_phase i Waiting s then Some (set_phase i Ready s) else None)"
| "crew_step check first (Finish i) s = crew_finish i s"
| "crew_step check first Stop s = Some (crew_stop first s)"
| "crew_step check first Request s = crew_request s"
| "crew_step check first Notify_all s = crew_notify_all s"
| "crew_step check first Join s = crew_join s"

inductive crew_run :: "(nat \<Rightarrow> 't crew \<Rightarrow> 't crew) \<Rightarrow> stopper \<Rightarrow> 't crew \<Rightarrow> 't crew_action list \<Rightarrow> 't crew \<Rightarrow> bool" for check first where
  crew_nil: "crew_run check first s [] s"
| crew_cons: "crew_step check first a s = Some s1 \<Longrightarrow> crew_run check first s1 as s2 \<Longrightarrow> crew_run check first s (a # as) s2"

inductive_simps crew_run_simps [simp]: "crew_run check first s [] s'" "crew_run check first s (a # as) s'"

text \<open>A pool has at least one thread, the cognitive worker has one.\<close>

definition pool_run :: "'t crew_action list \<Rightarrow> 't crew \<Rightarrow> bool" where
  "pool_run as s \<longleftrightarrow> crew_run pool_check (Requesting 0) new_crew as s \<and> Start 0 \<notin> set as"

definition cognitive_run :: "'t crew_action list \<Rightarrow> 't crew \<Rightarrow> bool" where
  "cognitive_run as s \<longleftrightarrow> crew_run cognitive_check Notifying new_crew as s \<and> (\<forall>n. Start n \<in> set as \<longrightarrow> n = 1)"

section \<open>What every crew keeps\<close>

definition hand :: "'t phase \<Rightarrow> 't multiset" where
  "hand p = (case p of Working t \<Rightarrow> {#t#} | _ \<Rightarrow> {#})"

definition in_hand :: "'t phase list \<Rightarrow> 't multiset" where
  "in_hand ps = sum_list (map hand ps)"

lemma hand_simps [simp]: "hand Ready = {#}" "hand Checked = {#}" "hand Waiting = {#}" "hand Gone = {#}" "hand (Working t) = {#t#}"
  by (simp_all add: hand_def)

lemma in_hand_update: "i < length ps \<Longrightarrow> in_hand (ps[i := p]) + hand (ps ! i) = in_hand ps + hand p"
proof (induction ps arbitrary: i)
  case (Cons q ps)
  show ?case
  proof (cases i)
    case (Suc j)
    then have "in_hand (ps[j := p]) + hand (ps ! j) = in_hand ps + hand p" using Cons by simp
    then show ?thesis using Suc by (simp add: in_hand_def add.assoc)
  qed (simp add: in_hand_def ac_simps)
qed simp

lemma in_hand_wake: "in_hand (map wake ps) = in_hand ps"
  by (induction ps) (auto simp: in_hand_def wake_def)

lemma in_hand_start: "in_hand (replicate n Ready) = {#}"
  by (induction n) (simp_all add: in_hand_def)

lemma in_hand_same: "i < length ps \<Longrightarrow> hand (ps ! i) = hand p \<Longrightarrow> in_hand (ps[i := p]) = in_hand ps"
  using in_hand_update[of i ps p] by simp

lemma in_update: "x \<in> set (xs[i := y]) \<Longrightarrow> x = y \<or> x \<in> set xs"
  using set_update_subset_insert by fastforce

lemma set_phase_simps [simp]:
  "kw_phases (set_phase i p s) = (kw_phases s)[i := p]" "kw_state (set_phase i p s) = kw_state s" "kw_flags (set_phase i p s) = kw_flags s"
  "kw_queue (set_phase i p s) = kw_queue s" "kw_pending (set_phase i p s) = kw_pending s" "kw_notify (set_phase i p s) = kw_notify s"
  "kw_stopper (set_phase i p s) = kw_stopper s" "kw_pushed (set_phase i p s) = kw_pushed s" "kw_taken (set_phase i p s) = kw_taken s"
  "kw_finished (set_phase i p s) = kw_finished s" "kw_early (set_phase i p s) = kw_early s"
  by (simp_all add: set_phase_def)

text \<open>The queue is first in, first out, and every task taken is in one worker's hands or finished.\<close>

definition queue_ok :: "'t crew \<Rightarrow> bool" where
  "queue_ok s \<longleftrightarrow> kw_pushed s = kw_taken s @ kw_queue s \<and> mset (kw_taken s) = mset (kw_finished s) + in_hand (kw_phases s)"

text \<open>Nobody has been asked to stop, has stopped or is stopping before the state is stopped.\<close>

definition stop_ok :: "'t crew \<Rightarrow> bool" where
  "stop_ok s \<longleftrightarrow> length (kw_flags s) = length (kw_phases s) \<and> (kw_state s = Crew_idle \<longrightarrow> kw_phases s = []) \<and>
     (True \<in> set (kw_flags s) \<or> Gone \<in> set (kw_phases s) \<or> kw_stopper s \<noteq> No_stop \<or> kw_early s \<noteq> None \<longrightarrow> kw_state s = Crew_stopped) \<and>
     (case kw_early s of None \<Rightarrow> kw_stopper s = No_stop | Some e \<Rightarrow> prefix e (kw_pushed s))"

definition join_ok :: "'t crew \<Rightarrow> bool" where
  "join_ok s \<longleftrightarrow> (case kw_stopper s of
       Joining k \<Rightarrow> k \<le> length (kw_phases s) \<and> (\<forall>i < k. kw_phases s ! i = Gone)
     | Stop_returned \<Rightarrow> set (kw_phases s) \<subseteq> {Gone}
     | _ \<Rightarrow> True)"

lemmas crew_defs = crew_start_def crew_submit_def crew_push_def crew_notify_one_def crew_stop_def crew_request_def crew_notify_all_def
  crew_join_def crew_finish_def at_phase_def Let_def

text \<open>What a worker may do with the mutex: find nothing, take the first task, or leave for a reason.\<close>

locale work_crew =
  fixes check :: "nat \<Rightarrow> 't crew \<Rightarrow> 't crew" and first :: stopper
  assumes check_result: "check i s = set_phase i Checked s \<or> check i s = take_task i s \<and> kw_queue s \<noteq> [] \<or>
      check i s = set_phase i Gone s \<and> (kw_flags s ! i \<or> kw_state s \<noteq> Crew_running)"
    and first_step: "first = Notifying \<or> first = Requesting 0"
begin

lemma step_queue:
  assumes "crew_step check first a s = Some s'" "queue_ok s" "stop_ok s"
  shows "queue_ok s'"
proof (cases a)
  case (Check i)
  then have i: "i < length (kw_phases s)" "kw_phases s ! i = Ready" "s' = check i s"
    using assms(1) by (auto simp: at_phase_def split: if_splits)
  from check_result[of i s] i consider "s' = set_phase i Checked s" | "s' = take_task i s" "kw_queue s \<noteq> []" | "s' = set_phase i Gone s"
    by auto
  then show ?thesis
  proof cases
    case 2
    then obtain t q where q: "kw_queue s = t # q" by (cases "kw_queue s") auto
    have "in_hand ((kw_phases s)[i := Working t]) = in_hand (kw_phases s) + {#t#}" using in_hand_update[OF i(1), of "Working t"] i(2) by simp
    then show ?thesis using assms(2) 2 q by (simp add: queue_ok_def take_task_def)
  qed (use assms(2) i in_hand_same[OF i(1)] in \<open>simp_all add: queue_ok_def\<close>)
next
  case (Finish i)
  then obtain t where t: "i < length (kw_phases s)" "kw_phases s ! i = Working t" "s' = set_phase i Ready (s \<lparr> kw_finished := kw_finished s @ [t] \<rparr>)"
    using assms(1) by (auto simp: crew_finish_def split: if_splits phase.splits)
  have "in_hand ((kw_phases s)[i := Ready]) + {#t#} = in_hand (kw_phases s)" using in_hand_update[OF t(1), of Ready] t(2) by simp
  then show ?thesis using assms(2) t(3) by (simp add: queue_ok_def ac_simps flip: add_mset_add_single)
next
  case (Start n)
  then show ?thesis using assms in_hand_start[of n] by (auto simp: queue_ok_def stop_ok_def crew_start_def in_hand_def)
qed (use assms in \<open>auto simp: queue_ok_def crew_defs in_hand_same in_hand_wake split: if_splits list.splits stopper.splits\<close>)

lemma check_cases:
  assumes "crew_step check first (Check i) s = Some s'"
  obtains "i < length (kw_phases s)" "kw_phases s ! i = Ready" "s' = set_phase i Checked s"
  | t q where "i < length (kw_phases s)" "kw_phases s ! i = Ready" "kw_queue s = t # q"
      "s' = set_phase i (Working t) (s \<lparr> kw_queue := q, kw_taken := kw_taken s @ [t] \<rparr>)"
  | "i < length (kw_phases s)" "kw_phases s ! i = Ready" "s' = set_phase i Gone s" "kw_flags s ! i \<or> kw_state s \<noteq> Crew_running"
proof -
  have i: "i < length (kw_phases s)" "kw_phases s ! i = Ready" "s' = check i s"
    using assms by (auto simp: at_phase_def split: if_splits)
  show ?thesis using check_result[of i s] i that by (cases "kw_queue s") (auto simp: take_task_def)
qed

text \<open>Threads neither appear nor come back.\<close>

lemma step_phases:
  assumes "crew_step check first a s = Some s'" "kw_state s \<noteq> Crew_idle"
  shows "length (kw_phases s') = length (kw_phases s) \<and> (\<forall>j < length (kw_phases s). kw_phases s ! j = Gone \<longrightarrow> kw_phases s' ! j = Gone)"
proof (cases a)
  case (Check i)
  from assms(1)[unfolded Check] show ?thesis by (cases rule: check_cases) (auto simp: nth_list_update)
qed (use assms in \<open>auto simp: crew_defs nth_list_update wake_def split: if_splits list.splits stopper.splits phase.splits\<close>)

lemma step_from_none:
  assumes "crew_step check first a s = Some s'" "kw_phases s = []"
  shows "kw_phases s' = [] \<or> (\<exists>n. a = Start n \<and> kw_phases s' = replicate n Ready)"
proof (cases a)
  case (Notify_one i)
  then show ?thesis using assms by (auto simp: crew_notify_one_def Let_def split: if_splits)
qed (use assms in \<open>auto simp: crew_start_def crew_submit_def crew_push_def crew_finish_def at_phase_def crew_stop_def crew_request_def
  crew_notify_all_def crew_join_def split: if_splits list.splits stopper.splits\<close>)

lemma step_stop:
  assumes "crew_step check first a s = Some s'" "stop_ok s"
  shows "stop_ok s'"
proof (cases a)
  case (Check i)
  from assms(1)[unfolded Check] show ?thesis
  proof (cases rule: check_cases)
    case 3
    then have "kw_state s = Crew_stopped" using assms(2) using nth_mem[of i "kw_flags s"] by (cases "kw_state s") (auto simp: stop_ok_def)
    then show ?thesis using assms(2) 3 by (auto simp: stop_ok_def split: option.splits)
  qed (use assms(2) in \<open>auto simp: stop_ok_def dest!: in_update split: option.splits\<close>)
next
  case (Finish i)
  then show ?thesis using assms
    by (auto simp: stop_ok_def crew_defs dest!: in_update split: if_splits phase.splits option.splits)
next
  case (Notify_one i)
  then show ?thesis using assms by (auto simp: stop_ok_def crew_notify_one_def Let_def dest!: in_update split: if_splits option.splits)
next
  case (Block i)
  then show ?thesis using assms by (auto simp: stop_ok_def dest!: in_update split: if_splits option.splits)
next
  case (Spurious i)
  then show ?thesis using assms by (auto simp: stop_ok_def dest!: in_update split: if_splits option.splits)
next
  case Request
  then show ?thesis using assms by (auto simp: stop_ok_def crew_request_def dest!: in_update split: stopper.splits if_splits option.splits)
next
  case Notify_all
  then show ?thesis using assms by (auto simp: stop_ok_def crew_notify_all_def wake_def split: if_splits option.splits)
next
  case Join
  then show ?thesis using assms by (auto simp: stop_ok_def crew_join_def split: stopper.splits if_splits option.splits)
next
  case Stop
  then show ?thesis using assms first_step by (auto simp: stop_ok_def crew_stop_def split: if_splits option.splits)
next
  case (Start n)
  then show ?thesis using assms by (auto simp: stop_ok_def crew_start_def split: if_splits option.splits)
qed (use assms in \<open>auto simp: stop_ok_def crew_submit_def crew_push_def split: if_splits list.splits option.splits\<close>)

lemma step_join:
  assumes "crew_step check first a s = Some s'" "stop_ok s" "join_ok s"
  shows "join_ok s'"
proof (cases "kw_state s = Crew_idle")
  case True
  then have "kw_stopper s = No_stop" "kw_phases s = []" using assms(2) by (auto simp: stop_ok_def)
  then have "kw_stopper s' = No_stop" using assms(1) True
    by (cases a) (auto simp: crew_defs split: if_splits list.splits)
  then show ?thesis by (simp add: join_ok_def)
next
  case False
  note ph = step_phases[OF assms(1) False]
  show ?thesis
  proof (cases "kw_stopper s' = kw_stopper s")
    case True
    then show ?thesis using ph assms(3) by (auto simp: join_ok_def in_set_conv_nth subset_iff split: stopper.splits)
  next
    case False
    consider "a = Stop" | "a = Request" | "a = Notify_all" | "a = Join"
      using False assms(1)
    proof (cases a)
      case (Check i)
      from assms(1)[unfolded Check] show ?thesis using False by (cases rule: check_cases) auto
    qed (auto simp: crew_defs split: if_splits list.splits phase.splits)
    then show ?thesis
    proof cases
      case 4
      then show ?thesis using assms(1,3)
        by (fastforce simp: join_ok_def crew_join_def less_Suc_eq in_set_conv_nth split: stopper.splits if_splits)
    qed (use assms(1) False first_step in \<open>auto simp: join_ok_def crew_defs split: if_splits stopper.splits\<close>)
  qed
qed

lemma run_ok:
  "crew_run check first s as s' \<Longrightarrow> queue_ok s \<Longrightarrow> stop_ok s \<Longrightarrow> join_ok s \<Longrightarrow> queue_ok s' \<and> stop_ok s' \<and> join_ok s'"
  by (induction rule: crew_run.induct) (auto intro: step_queue step_stop step_join)

end

interpretation pool: work_crew pool_check "Requesting 0"
  by unfold_locales (auto simp: pool_check_def take_task_def)

interpretation cognitive: work_crew cognitive_check Notifying
  by unfold_locales (auto simp: cognitive_check_def)

section \<open>Tasks\<close>

lemma new_crew_ok: "queue_ok new_crew" "stop_ok new_crew" "join_ok new_crew"
  by (simp_all add: queue_ok_def stop_ok_def join_ok_def new_crew_def in_hand_def)

text \<open>What was put in before the stop is taken before a worker of the pool leaves.\<close>

definition drained_ok :: "'t crew \<Rightarrow> bool" where
  "drained_ok s \<longleftrightarrow> (kw_state s \<noteq> Crew_idle \<longrightarrow> kw_phases s \<noteq> []) \<and> (kw_state s = Crew_stopped \<longrightarrow> kw_early s \<noteq> None) \<and>
     (Gone \<in> set (kw_phases s) \<longrightarrow> (\<exists>e. kw_early s = Some e \<and> prefix e (kw_taken s)))"

lemma pool_step_drained:
  assumes "crew_step pool_check (Requesting 0) a s = Some s'" "a \<noteq> Start 0" "queue_ok s" "stop_ok s" "drained_ok s"
  shows "drained_ok s'"
proof (cases a)
  case (Check i)
  then have i: "i < length (kw_phases s)" "kw_phases s ! i = Ready" "s' = pool_check i s"
    using assms(1) by (auto simp: at_phase_def split: if_splits)
  show ?thesis
  proof (cases "kw_queue s")
    case Nil
    show ?thesis
    proof (cases "kw_flags s ! i")
      case True
      then have "kw_state s = Crew_stopped" using i assms(4) nth_mem[of i "kw_flags s"] by (auto simp: stop_ok_def)
      then obtain e where e: "kw_early s = Some e" using assms(5) by (auto simp: drained_ok_def)
      then have "prefix e (kw_taken s)" using assms(3,4) Nil by (simp add: queue_ok_def stop_ok_def)
      then show ?thesis using assms(5) i Nil True e by (simp add: drained_ok_def pool_check_def)
    next
      case False
      then have "s' = set_phase i Checked s" using i Nil by (simp add: pool_check_def)
      then show ?thesis using assms(5) by (auto simp: drained_ok_def dest!: in_update split: option.splits)
    qed
  next
    case (Cons t q)
    then have s': "s' = set_phase i (Working t) (s \<lparr> kw_queue := q, kw_taken := kw_taken s @ [t] \<rparr>)"
      using i by (simp add: pool_check_def take_task_def)
    have "Gone \<in> set (kw_phases s)" if "Gone \<in> set (kw_phases s')" using that by (auto simp: s' dest!: in_update)
    moreover have "kw_phases s \<noteq> [] \<Longrightarrow> kw_phases s' \<noteq> []" by (simp add: s')
    moreover have "kw_state s' = kw_state s" "kw_early s' = kw_early s" "\<And>e. prefix e (kw_taken s) \<Longrightarrow> prefix e (kw_taken s')" by (simp_all add: s')
    ultimately show ?thesis using assms(5) unfolding drained_ok_def by metis
  qed
next
  case (Start n)
  then have s': "s' = crew_start n s" "n \<noteq> 0" using assms(1,2) by simp_all
  show ?thesis
  proof (cases "kw_state s = Crew_idle")
    case True
    then show ?thesis using s' by (simp add: drained_ok_def crew_start_def)
  next
    case False
    then show ?thesis using s' assms(5) by (simp add: crew_start_def)
  qed
next
  case Stop
  then have s': "s' = crew_stop (Requesting 0) s" using assms(1) by simp
  show ?thesis
  proof (cases "kw_state s = Crew_running")
    case True
    then have "Gone \<notin> set (kw_phases s)" using assms(4) by (auto simp: stop_ok_def)
    then show ?thesis using True s' assms(5) by (simp add: drained_ok_def crew_stop_def)
  next
    case False
    then show ?thesis using s' assms(5) by (simp add: crew_stop_def)
  qed
next
  case Notify_all
  then show ?thesis using assms(1,5) by (auto simp: drained_ok_def crew_notify_all_def wake_def split: if_splits)
next
  case (Notify_one i)
  then show ?thesis using assms(1,5) by (auto simp: drained_ok_def crew_notify_one_def Let_def dest!: in_update split: if_splits)
next
  case (Finish i)
  then show ?thesis using assms(1,5) by (auto simp: drained_ok_def crew_finish_def dest!: in_update split: if_splits phase.splits)
next
  case Request
  then show ?thesis using assms(1,5) by (auto simp: drained_ok_def crew_request_def split: stopper.splits if_splits)
next
  case Join
  then show ?thesis using assms(1,5) by (auto simp: drained_ok_def crew_join_def split: stopper.splits if_splits)
qed (use assms(1,5) in \<open>auto simp: drained_ok_def crew_submit_def crew_push_def dest!: in_update split: if_splits list.splits\<close>)

lemma pool_run_ok:
  assumes "crew_run pool_check (Requesting 0) s as s'" "Start 0 \<notin> set as" "queue_ok s" "stop_ok s" "join_ok s" "drained_ok s"
  shows "queue_ok s' \<and> stop_ok s' \<and> join_ok s' \<and> drained_ok s'"
  using assms
proof (induction rule: crew_run.induct)
  case (crew_cons a s s1 as s2)
  then show ?case using pool_step_drained[OF crew_cons.hyps(1)] pool.step_queue[OF crew_cons.hyps(1)] pool.step_stop[OF crew_cons.hyps(1)]
      pool.step_join[OF crew_cons.hyps(1)] by auto
qed simp

lemma in_hand_gone: "set ps \<subseteq> {Gone} \<Longrightarrow> in_hand ps = {#}"
  by (induction ps) (auto simp: in_hand_def)



section \<open>The cognitive worker\<close>

text \<open>The same order; but tasks in the queue when stop is called may be dropped, and at most one task is worked on at a time.\<close>

lemma cognitive_run_ok:
  "crew_run cognitive_check Notifying new_crew as s \<Longrightarrow> queue_ok s \<and> stop_ok s \<and> join_ok s"
  using cognitive.run_ok[of new_crew as s] new_crew_ok by blast

theorem cognitive_tasks_in_order:
  assumes "cognitive_run as s"
  shows "kw_pushed s = kw_taken s @ kw_queue s \<and> mset (kw_taken s) = mset (kw_finished s) + in_hand (kw_phases s) \<and> size (in_hand (kw_phases s)) \<le> 1"
proof -
  have "length (kw_phases s') \<le> 1"
    if "crew_run cognitive_check Notifying r bs s'" "\<forall>n. Start n \<in> set bs \<longrightarrow> n = 1" "stop_ok r" "length (kw_phases r) \<le> 1" for r bs s'
    using that
  proof (induction rule: crew_run.induct)
    case (crew_cons a r r1 bs r2)
    have "length (kw_phases r1) \<le> 1"
    proof (cases "kw_state r = Crew_idle")
      case True
      then have "kw_phases r = []" using crew_cons.prems(2) by (simp add: stop_ok_def)
      from cognitive.step_from_none[OF crew_cons.hyps(1) this] consider "kw_phases r1 = []" | n where "a = Start n" "kw_phases r1 = replicate n Ready"
        by blast
      then show ?thesis
      proof cases
        case 2
        then have "n = 1" using crew_cons.prems(1) by (meson list.set_intros(1))
        then show ?thesis using 2 by simp
      qed simp
    next
      case False
      then show ?thesis using cognitive.step_phases[OF crew_cons.hyps(1)] crew_cons.prems(3) by simp
    qed
    moreover have "stop_ok r1" using cognitive.step_stop[OF crew_cons.hyps(1)] crew_cons.prems(2) .
    ultimately show ?case using crew_cons.IH crew_cons.prems(1) by (metis list.set_intros(2))
  qed simp
  moreover have "length (kw_phases (new_crew :: 'a crew)) \<le> 1" by (simp add: new_crew_def)
  ultimately have "length (kw_phases s) \<le> 1" using assms new_crew_ok(2) unfolding cognitive_run_def by blast
  moreover have "size (in_hand ps) \<le> length ps" for ps :: "'a phase list"
    by (induction ps) (auto simp: in_hand_def hand_def split: phase.split)
  ultimately show ?thesis using cognitive_run_ok[of as s] assms order_trans unfolding cognitive_run_def queue_ok_def by blast
qed

lemma cognitive_tasks_in_order_witness:
  "\<exists>s. cognitive_run [Start 1, Submit ''t'', Submit ''u'', Push, Push, Check 0, Stop] s \<and> kw_taken s = [''t''] \<and> kw_queue s = [''u''] \<and>
     kw_pushed s = [''t'', ''u'']"
proof -
  obtain s where s: "cognitive_run [Start 1, Submit ''t'', Submit ''u'', Push, Push, Check 0, Stop] s" "kw_taken s = [''t'']" "kw_queue s = [''u'']"
    by (simp add: cognitive_run_def new_crew_def crew_defs mutex_free_def cognitive_check_def take_task_def set_phase_def)
  then show ?thesis using cognitive_tasks_in_order[OF s(1)] by auto
qed

section \<open>A lost notification\<close>

text \<open>A worker that has tested the queue but does not wait yet misses the notification of stop, since stop changes the state and notifies
  without the mutex.  Then nothing but a spurious wake-up ends the wait.\<close>

definition hung :: "'t crew \<Rightarrow> bool" where
  "hung s \<longleftrightarrow> kw_state s = Crew_stopped \<and> kw_phases s = [Waiting] \<and> kw_pending s = [] \<and> kw_notify s = 0 \<and> kw_stopper s = Joining 0"

lemma hung_for_ever: "crew_run check first s as s' \<Longrightarrow> hung s \<Longrightarrow> (\<forall>i. Spurious i \<notin> set as) \<Longrightarrow> s' = s"
proof (induction rule: crew_run.induct)
  case (crew_cons a s s1 as s2)
  have "s1 = s" using crew_cons.hyps(1) crew_cons.prems
    by (cases a) (auto simp: hung_def crew_defs split: if_splits)
  then show ?case using crew_cons by auto
qed simp

definition waits_for_ever :: "(nat \<Rightarrow> 't crew \<Rightarrow> 't crew) \<Rightarrow> stopper \<Rightarrow> 't crew \<Rightarrow> bool" where
  "waits_for_ever check first s \<longleftrightarrow> hung s \<and> (\<forall>as s'. crew_run check first s as s' \<longrightarrow> (\<forall>i. Spurious i \<notin> set as) \<longrightarrow> s' = s)"

text \<open>Stop of the pool, and of the cognitive worker, can wait for ever for its thread: each reaches, without any spurious wake-up, a state in which
  stop joins a waiting worker and which no further actions but a spurious wake-up can change.\<close>

theorem stop_can_hang:
  "(\<exists>s. pool_run [Start 1, Check 0, Stop, Request, Request, Notify_all, Block 0] s \<and> waits_for_ever pool_check (Requesting 0) s) \<and>
   (\<exists>s. cognitive_run [Start 1, Check 0, Stop, Notify_all, Block 0] s \<and> waits_for_ever cognitive_check Notifying s)"
proof
  have "\<exists>s. pool_run [Start 1, Check 0, Stop, Request, Request, Notify_all, Block 0] s \<and> hung s"
    by (simp add: pool_run_def new_crew_def crew_defs mutex_free_def pool_check_def set_phase_def hung_def wake_def)
  then show "\<exists>s. pool_run [Start 1, Check 0, Stop, Request, Request, Notify_all, Block 0] s \<and> waits_for_ever pool_check (Requesting 0) s"
    unfolding waits_for_ever_def using hung_for_ever by blast
  have "\<exists>s. cognitive_run [Start 1, Check 0, Stop, Notify_all, Block 0] s \<and> hung s"
    by (simp add: cognitive_run_def new_crew_def crew_defs mutex_free_def cognitive_check_def set_phase_def hung_def wake_def)
  then show "\<exists>s. cognitive_run [Start 1, Check 0, Stop, Notify_all, Block 0] s \<and> waits_for_ever cognitive_check Notifying s"
    unfolding waits_for_ever_def using hung_for_ever by blast
qed

end
