(* ===== verification/Engine.thy ===== *)
theory Engine
  imports Parser Static_Graphs Sessions Providers Event_Log
begin

text \<open>
  The engine: core/engine.cpp and engine.h.  It parses a document, keeps the graphs, the execution
  policy, the LLM provider and the sessions, and runs the graphs on a new scheduler, alone or inside a
  user session.  The scheduler environment, with the tools, the coordinator and the provider's answers,
  is a parameter; the engine fills in its graphs and its approval handler.  Event log and session writer
  are represented by the configuration they are created with (their own behaviour is in Event_Log); of the
  event log's constructor the check of the training path, which can throw, is made here.
\<close>

section \<open>State\<close>

text \<open>A provider is the one handed in (named here) with the decorators around it, outermost first.\<close>

datatype provider = Owned "decorator list" string | Borrowed string

record engine =
  en_graphs :: "parsed_graph list"
  en_tools :: tool_registry
  en_sessions :: session_registry
  en_provider :: provider
  en_budget :: budget_controller
  en_policy :: exec_policy
  en_traces :: "trace_record list"
  en_bus :: bool
  en_compliance :: bool
  en_rate_limit :: "int option"
  en_compactor :: "compactor option"
  en_event_log :: "event_log_config option"
  en_session_writer :: "session_writer_config option"

section \<open>The decorators of a provider\<close>

definition decorate_provider :: "engine \<Rightarrow> string \<Rightarrow> provider res" where
  "decorate_provider e base =
     ebind (wrap_chain (decorators_for (en_bus e) (en_compliance e) (en_rate_limit e)) base) (\<lambda>(ds, b). Inr (Owned ds b))"

definition set_llm_provider :: "string \<Rightarrow> engine \<Rightarrow> engine res" where
  "set_llm_provider base e = ebind (decorate_provider e base) (\<lambda>p. Inr (e \<lparr> en_provider := p \<rparr>))"

definition set_borrowed_provider :: "string \<Rightarrow> engine \<Rightarrow> engine" where
  "set_borrowed_provider name e = e \<lparr> en_provider := Borrowed name \<rparr>"

definition set_rate_limit_enabled :: "bool \<Rightarrow> int \<Rightarrow> engine \<Rightarrow> engine" where
  "set_rate_limit_enabled on tpm e = e \<lparr> en_rate_limit := (if on then Some tpm else None) \<rparr>"

section \<open>Session tools\<close>

definition session_tool_metadata :: "string \<Rightarrow> string \<Rightarrow> tool_category \<Rightarrow> approval_policy \<Rightarrow> tool_metadata" where
  "session_tool_metadata name desc cat ap = \<lparr> md_name = name, md_description = desc, md_domain = ''builtin'',
     md_category = cat, md_min_layer = Workflow, md_approval = ap, md_allowed_layers = [], md_cost_estimate = 0,
     md_timeout_ms = 30000, md_input_schema = None, md_output_schema = None, md_validation_mode = Strict \<rparr>"

definition approvals :: "bool \<Rightarrow> bool \<Rightarrow> bool \<Rightarrow> bool \<Rightarrow> approval_policy" where
  "approvals plan agent yolo always = \<lparr> requires_approval_in_plan = plan, requires_approval_in_agent = agent,
     requires_approval_in_yolo = yolo, force_approval_always = always \<rparr>"

definition session_tools :: "(string \<times> tool_metadata) list" where
  "session_tools =
     [(''session.create'', session_tool_metadata ''session.create'' ''Create a new session'' StateModify (approvals False True False False)),
      (''session.destroy'', session_tool_metadata ''session.destroy'' ''Destroy a session'' StateModify (approvals True True False True)),
      (''session.set_var'', session_tool_metadata ''session.set_var'' ''Set a session variable'' StateModify (approvals True True False False)),
      (''session.get_var'', session_tool_metadata ''session.get_var'' ''Get a session variable'' ReadOnly (approvals True True False False))]"

text \<open>What the four tools do to the session registry; an exception of session.create leaves the call.\<close>

definition error_json :: "string \<Rightarrow> json" where
  "error_json m = jobj [(''error'', JStr m)]"

definition tool_session_create :: "int \<Rightarrow> tool_args \<Rightarrow> session_registry \<Rightarrow> json res \<times> session_registry" where
  "tool_session_create ns args r =
     (let (res, r') = create_session ns (case map_of args ''name'' of None \<Rightarrow> [] | Some n \<Rightarrow> n) r
      in (ebind res (\<lambda>sid. Inr (jobj [(''session_id'', JStr sid)])), r'))"

definition tool_session_destroy :: "(nat \<Rightarrow> session_registry \<Rightarrow> session_registry) \<Rightarrow> tool_args \<Rightarrow> session_registry \<Rightarrow>
    json res \<times> session_registry" where
  "tool_session_destroy others args r = (case map_of args ''session_id'' of
       None \<Rightarrow> (Inr (error_json ''Missing session_id''), r)
     | Some sid \<Rightarrow> (Inr (jobj [(''destroyed'', JStr sid)]), snd (destroy_session others sid r)))"

definition tool_session_set_var :: "(string \<Rightarrow> json res) \<Rightarrow> tool_args \<Rightarrow> session_registry \<Rightarrow> json res \<times> session_registry" where
  "tool_session_set_var read args r =
     (case (map_of args ''session_id'', map_of args ''key'', map_of args ''value'') of
        (Some sid, Some k, Some v) \<Rightarrow>
          (case get_session sid r of
             Inl x \<Rightarrow> (Inr (error_json (what x)), r)
           | Inr u \<Rightarrow> (case read v of
               Inl x \<Rightarrow> (Inr (error_json (what x)), r)
             | Inr j \<Rightarrow> (case set_session_var k j u of
                 (Inl x, _) \<Rightarrow> (Inr (error_json (what x)), r)
               | (Inr _, u') \<Rightarrow> (Inr (jobj [(''ok'', JBool True)]), r \<lparr> sg_sessions := kv_ins sid u' (sg_sessions r) \<rparr>))))
      | _ \<Rightarrow> (Inr (error_json ''Missing session_id/key/value''), r))"

definition tool_session_get_var :: "tool_args \<Rightarrow> session_registry \<Rightarrow> json res" where
  "tool_session_get_var args r =
     (case (map_of args ''session_id'', map_of args ''key'') of
        (Some sid, Some k) \<Rightarrow> (case get_session sid r of
            Inl x \<Rightarrow> Inr (error_json (what x))
          | Inr u \<Rightarrow> Inr (get_session_var k u))
      | _ \<Rightarrow> Inr (error_json ''Missing session_id/key''))"

section \<open>Construction\<close>

text \<open>The closures behind the four names are a parameter here.\<close>

definition register_session_tools :: "(string \<Rightarrow> tool_func) \<Rightarrow> tool_registry \<Rightarrow> tool_registry res" where
  "register_session_tools f r = foldl (\<lambda>acc (name, meta). ebind acc (register_tool_function name meta (f name)))
     (Inr r) session_tools"

definition new_engine :: "(string \<Rightarrow> tool_func) \<Rightarrow> tool_registry \<Rightarrow> int \<Rightarrow> parsed_graph list \<Rightarrow> engine res" where
  "new_engine f tools now gs =
     ebind (wrap_chain (decorators_for False False None) ''mock'') (\<lambda>(ds, b).
     ebind (register_session_tools f tools) (\<lambda>tools'.
     Inr \<lparr> en_graphs = gs, en_tools = tools', en_sessions = new_registry, en_provider = Owned ds b,
           en_budget = new_budget_controller now None, en_policy = policy_create Agent, en_traces = [],
           en_bus = False, en_compliance = False, en_rate_limit = None, en_compactor = None,
           en_event_log = None, en_session_writer = None \<rparr>))"

definition from_markdown :: "parser_env \<Rightarrow> factory_registry \<Rightarrow> (string \<Rightarrow> tool_func) \<Rightarrow> tool_registry \<Rightarrow> int \<Rightarrow> string \<Rightarrow>
    engine res" where
  "from_markdown pe reg f tools now md = ebind (parse_from_string pe reg now md) (\<lambda>gs.
     if \<not> list_ex (\<lambda>g. pg_path g = ''/main'') gs then Inl (Runtime_error ''Required /main subgraph not found'')
     else new_engine f tools now gs)"

definition from_markdown_borrowing :: "parser_env \<Rightarrow> factory_registry \<Rightarrow> (string \<Rightarrow> tool_func) \<Rightarrow> tool_registry \<Rightarrow> int \<Rightarrow>
    string \<Rightarrow> string \<Rightarrow> engine res" where
  "from_markdown_borrowing pe reg f tools now md parent =
     ebind (from_markdown pe reg f tools now md) (\<lambda>e. Inr (set_borrowed_provider parent e))"

definition from_file :: "parser_env \<Rightarrow> factory_registry \<Rightarrow> (string \<Rightarrow> tool_func) \<Rightarrow> tool_registry \<Rightarrow> int \<Rightarrow> string \<Rightarrow>
    string option \<Rightarrow> engine res" where
  "from_file pe reg f tools now path content = (case content of
       None \<Rightarrow> Inl (Runtime_error (''Cannot open file: '' @ path))
     | Some md \<Rightarrow> from_markdown pe reg f tools now md)"

definition set_interaction_bus :: "bool \<Rightarrow> engine \<Rightarrow> engine" where
  "set_interaction_bus b e = e \<lparr> en_bus := b \<rparr>"

definition enable_event_log :: "string \<Rightarrow> capture_mode \<Rightarrow> nat \<Rightarrow> nat \<Rightarrow> engine \<Rightarrow> engine res" where
  "enable_event_log agent mode max_size files e =
     (if en_event_log e \<noteq> None
      then Inl (Logic_error ''DSLEngine::enable_event_log: already enabled (idempotent call forbidden)'')
      else if agent = [] then Inl (Invalid_argument ''DSLEngine::enable_event_log: agent_id empty (fail-closed)'')
      else if \<not> en_bus e
      then Inl (Logic_error ''DSLEngine::enable_event_log: bus not injected (call set_interaction_bus first)'')
      else let c = default_event_log \<lparr> el_agent_id := agent, el_capture_mode := mode, el_max_file_size := max_size,
                     el_max_rotation_files := files \<rparr>
           in ebind (validate_training_mode c (event_log_path (el_dir c) agent)) (\<lambda>_. Inr (e \<lparr> en_event_log := Some c \<rparr>)))"

definition enable_session_writer :: "string \<Rightarrow> string \<Rightarrow> engine \<Rightarrow> engine res" where
  "enable_session_writer sid dir e =
     (if en_session_writer e \<noteq> None
      then Inl (Logic_error ''DSLEngine::enable_session_writer: already enabled (idempotent call forbidden)'')
      else if sid = [] then Inl (Invalid_argument ''DSLEngine::enable_session_writer: session_id empty (fail-closed)'')
      else if \<not> en_bus e
      then Inl (Logic_error ''DSLEngine::enable_session_writer: bus not injected (call set_interaction_bus first)'')
      else Inr (e \<lparr> en_session_writer := Some (if dir = [] then default_session_writer \<lparr> sw_session_id := sid \<rparr>
             else default_session_writer \<lparr> sw_session_id := sid, sw_writer_dir := dir \<rparr>) \<rparr>))"

definition set_execution_policy :: "policy_mode \<Rightarrow> engine \<Rightarrow> engine" where
  "set_execution_policy m e = e \<lparr> en_policy := policy_create m \<rparr>"

definition append_graphs :: "parsed_graph list \<Rightarrow> engine \<Rightarrow> engine" where
  "append_graphs gs e = e \<lparr> en_graphs := en_graphs e @ gs \<rparr>"

definition continue_with_generated_dsl :: "parser_env \<Rightarrow> factory_registry \<Rightarrow> int \<Rightarrow> string \<Rightarrow> engine \<Rightarrow> engine res" where
  "continue_with_generated_dsl pe reg now dsl e = (if dsl = [] then Inr e
     else ebind (parse_from_string pe reg now dsl) (\<lambda>gs. Inr (append_graphs gs e)))"

section \<open>Running\<close>

text \<open>The approval handler of the engine: its policy with a callback that always agrees.\<close>

definition kApprovalTimeoutMs :: int where
  "kApprovalTimeoutMs = 300000"

definition engine_approval :: "engine \<Rightarrow> string \<Rightarrow> int \<Rightarrow> tool_metadata \<Rightarrow> tool_call_context \<Rightarrow> tool_preview \<Rightarrow> bool" where
  "engine_approval e fresh_id now = process_request (Some (en_policy e)) (Some (\<lambda>req ms. True)) kApprovalTimeoutMs now fresh_id"

definition engine_env :: "'w scheduler_env \<Rightarrow> string \<Rightarrow> engine \<Rightarrow> 'w scheduler_env" where
  "engine_env base fresh_id e = base \<lparr> sv_session := (sv_session base) \<lparr> se_full_graphs := Some (en_graphs e),
     se_exec := (se_exec (sv_session base)) \<lparr> xe_approval :=
       Some (\<lambda>m c p w. (Inr (engine_approval e fresh_id (xe_now (se_exec (sv_session base)) w) m c p), w)) \<rparr> \<rparr> \<rparr>"

text \<open>The nodes of a run: the system nodes, then a clone of every node of every graph; the budget is that of
  the first graph that has one.\<close>

definition engine_nodes :: "engine \<Rightarrow> node list" where
  "engine_nodes e = create_system_nodes @ map clone (concat (map pg_nodes (en_graphs e)))"

definition engine_budget :: "engine \<Rightarrow> execution_budget option" where
  "engine_budget e = Option.bind (find (\<lambda>g. pg_budget g \<noteq> None) (en_graphs e)) pg_budget"

definition loaded_scheduler :: "'w scheduler_env \<Rightarrow> engine \<Rightarrow> int \<Rightarrow> 'w \<Rightarrow> 'w scheduler" where
  "loaded_scheduler env e flags w =
     foldl (\<lambda>s nd. register_node nd s) (new_scheduler env (engine_budget e) flags w) (engine_nodes e)"

text \<open>The graph is built here and again by \<open>execute\<close>.  None: the fuel does not suffice.\<close>

definition run_scheduler :: "'w scheduler_env \<Rightarrow> nat \<Rightarrow> int \<Rightarrow> json \<Rightarrow> engine \<Rightarrow> 'w \<Rightarrow>
    (exec_result res \<times> 'w scheduler) option" where
  "run_scheduler env fuel flags ctx e w = (case build_dag (loaded_scheduler env e flags w) of
       (Inl x, s) \<Rightarrow> Some (Inl x, s)
     | (Inr _, s) \<Rightarrow> execute env fuel ctx s)"

definition flag_number :: "bool \<Rightarrow> int" where
  "flag_number autonomous = (if autonomous then 1 else 0)"

definition engine_run :: "'w scheduler_env \<Rightarrow> string \<Rightarrow> nat \<Rightarrow> bool \<Rightarrow> layered_context \<Rightarrow> engine \<Rightarrow> 'w \<Rightarrow>
    (exec_result res \<times> engine \<times> 'w) option" where
  "engine_run base fresh_id fuel autonomous ctx e w =
     map_option (\<lambda>(r, s). (r, case r of Inl x \<Rightarrow> e | Inr res \<Rightarrow> e \<lparr> en_traces := ss_traces (sc_session s) \<rparr>,
                           ss_world (sc_session s)))
       (run_scheduler (engine_env base fresh_id e) fuel (flag_number autonomous) (ly_working ctx) e w)"

definition engine_run_flat :: "'w scheduler_env \<Rightarrow> string \<Rightarrow> nat \<Rightarrow> json \<Rightarrow> engine \<Rightarrow> 'w \<Rightarrow>
    (exec_result res \<times> engine \<times> 'w) option" where
  "engine_run_flat base fresh_id fuel ctx = engine_run base fresh_id fuel False (to_context ctx)"

section \<open>Running inside a user session\<close>

definition to_tool_result :: "exec_result \<Rightarrow> tool_result" where
  "to_tool_result r = default_tool_result \<lparr> tr_ok := xr_success r,
     tr_meta := jobj [(''message'', JStr (xr_message r)),
                      (''paused_at'', case xr_paused_at r of Some p \<Rightarrow> JStr p | None \<Rightarrow> JNull)],
     tr_error_code := (if xr_success r then None else Some Unknown) \<rparr>"

text \<open>The task session of the next run: a new one if there is none, after a failed one, or after three
  failures.\<close>

definition choose_task :: "user_session \<Rightarrow> user_session" where
  "choose_task u =
     (let u1 = (case current_task_session u of
                  None \<Rightarrow> create_task_session u
                | Some t \<Rightarrow> if ts_status t = ''failed'' then create_task_session u else u)
      in case current_task_session u1 of
           None \<Rightarrow> u1
         | Some t \<Rightarrow> if determine_failure_mode t = NewSession then create_task_session u1 else u1)"

text \<open>The scheduler leaves the error code of a result unset.\<close>

definition finish_run :: "exec_result \<Rightarrow> user_session \<Rightarrow> user_session" where
  "finish_run r u = on_current (set_status (if xr_success r then ''completed'' else ''failed''))
     (append_message (to_tool_result r) (on_current (record_failure (xr_success r) None) u))"

definition session_run :: "'w scheduler_env \<Rightarrow> string \<Rightarrow> nat \<Rightarrow> string \<Rightarrow> json \<Rightarrow> user_session \<Rightarrow> engine \<Rightarrow> 'w \<Rightarrow>
    (exec_result res \<times> user_session \<times> engine \<times> 'w) option" where
  "session_run base fresh_id fuel message initial u e w =
     (case jput ''user_input'' (JStr message) initial of
        Inl x \<Rightarrow> Some (Inl x, u, e, w)
      | Inr ctx \<Rightarrow>
          (let u1 = on_current (\<lambda>t. set_context ctx (set_policy (en_policy e) t)) (choose_task u) in
           map_option (\<lambda>(r, s). case r of
               Inl x \<Rightarrow> (Inl x, u1, e, ss_world (sc_session s))
             | Inr res \<Rightarrow> (Inr res, finish_run res u1, e \<lparr> en_traces := [] \<rparr>, ss_world (sc_session s)))
             (run_scheduler (engine_env base fresh_id e) fuel 0 ctx e w)))"

section \<open>Compaction\<close>

text \<open>\<open>std::string json = ctx.dump()\<close> converts the dumped object with \<open>get<std::string>()\<close>.\<close>

definition record_json :: "compaction \<Rightarrow> json" where
  "record_json r = jobj [(''tokens_before'', JInt (int (cn_tokens_before r))), (''tokens_after'', JInt (int (cn_tokens_after r))),
     (''summary_length'', JInt (int (cn_summary_length r))), (''timestamp'', JStr (cn_timestamp r))]"

definition store_summary :: "string \<Rightarrow> string \<Rightarrow> compaction \<Rightarrow> (unit, layered_context) act" where
  "store_summary original summary r = sbind (append_original original) (\<lambda>_.
     sbind (set_working_view summary) (\<lambda>_. set_metadata ''compaction_record'' (record_json r)))"

definition check_and_compact :: "(string \<Rightarrow> 'w \<Rightarrow> (string + string) option \<times> 'w) \<Rightarrow> (nat \<Rightarrow> nat \<Rightarrow> 64 word) \<Rightarrow> int \<Rightarrow>
    compactor option \<Rightarrow> layered_context \<times> 'w \<Rightarrow> (unit res \<times> event_builder list) \<times> layered_context \<times> 'w" where
  "check_and_compact generate ratio epoch cp = (\<lambda>(ctx, w). case cp of
       None \<Rightarrow> ((Inr (), []), ctx, w)
     | Some c \<Rightarrow> (case jget_str (lc_dump ctx) of
         Inl x \<Rightarrow> ((Inl x, []), ctx, w)
       | Inr text \<Rightarrow>
           (let n = count_tokens text in
            if \<not> should_compact c n then ((Inr (), []), ctx, w)
            else case jvalue_str ''session_id'' ''main'' (ly_meta ctx) of
              Inl x \<Rightarrow> ((Inl x, []), ctx, w)
            | Inr sid \<Rightarrow>
                (let before = on_compact_before c sid n; (summary, w') = compact generate text w in
                 if summary = [] then ((Inr (), before), ctx, w')
                 else
                   let after = count_tokens summary;
                       (r, ctx') = store_summary text summary (make_record epoch n after (length summary)) ctx
                   in case r of
                        Inl x \<Rightarrow> ((Inl x, before), ctx', w')
                      | Inr _ \<Rightarrow> ((Inr (), before @ on_compact_after ratio c sid n after), ctx', w')))))"

section \<open>Loading the scheduler\<close>

lemma register_fold:
  "sc_all_nodes (foldl (\<lambda>s nd. register_node nd s) s nds) = sc_all_nodes s @ nds"
  "sc_executed (foldl (\<lambda>s nd. register_node nd s) s nds) = sc_executed s"
  "sc_executing_fork (foldl (\<lambda>s nd. register_node nd s) s nds) = sc_executing_fork s"
  "sc_dynamic_graphs (foldl (\<lambda>s nd. register_node nd s) s nds) = sc_dynamic_graphs s"
  "sc_session (foldl (\<lambda>s nd. register_node nd s) s nds) = sc_session s"
  "sc_ready_queue (foldl (\<lambda>s nd. register_node nd s) s nds) = sc_ready_queue s"
  by (induction nds arbitrary: s) (simp_all add: register_node_def)

lemma register_fold_map:
  "distinct (map nd_path nds) \<Longrightarrow>
     map_of (sc_node_map (foldl (\<lambda>s nd. register_node nd s) s nds)) = map_of (sc_node_map s) ++ node_at nds"
proof (induction nds rule: rev_induct)
  case Nil
  then show ?case by (simp add: node_at_def map_add_def fun_eq_iff)
next
  case (snoc nd nds)
  have "node_at nds (nd_path nd) = None" using snoc.prems by (auto simp: node_at_def map_of_eq_None_iff image_image)
  then have "node_at (nds @ [nd]) = (node_at nds)(nd_path nd \<mapsto> nd)"
    by (auto simp: node_at_def map_add_def fun_eq_iff split: option.splits)
  moreover have "map_of (sc_node_map (foldl (\<lambda>s nd. register_node nd s) s nds)) = map_of (sc_node_map s) ++ node_at nds"
    using snoc by simp
  ultimately show ?case by (auto simp: register_node_def map_add_def fun_eq_iff split: option.splits)
qed

lemma loaded_fresh:
  assumes "distinct (map nd_path (engine_nodes e))"
  shows "fresh (engine_nodes e) (loaded_scheduler env e flags w)"
  unfolding fresh_def loaded_scheduler_def register_fold register_fold_map[OF assms]
  by (simp add: new_scheduler_def new_session_def map_add_def fun_eq_iff split: option.splits)

lemma resources_session:
  "\<exists>t. sc_session (register_resources s) = (sc_session s) \<lparr> ss_resources := t \<rparr>"
  by (auto simp: register_resources_def)

definition initial_session :: "'w scheduler_env \<Rightarrow> engine \<Rightarrow> int \<Rightarrow> 'w \<Rightarrow> 'w session" where
  "initial_session env e flags w = new_session (sv_session env) [] (engine_budget e) flags [] w"

lemma run_scheduler_static:
  fixes rank :: "string \<Rightarrow> nat"
  assumes "static_graph (engine_nodes e)" "ends_last (engine_nodes e)"
    "\<And>p q. (p, q) \<in> before (engine_nodes e) \<Longrightarrow> rank p < rank q"
    "benign env (engine_nodes e) P" "\<And>t. P ctx ((initial_session env e flags w) \<lparr> ss_resources := t \<rparr>)"
    "entry_ok env (engine_nodes e)"
    "2 * (length (engine_nodes e) + edge_count (engine_nodes e)) + 1 < fuel"
  shows "\<exists>ctx' s. run_scheduler env fuel flags ctx e w = Some (Inr (completed ctx'), s) \<and>
    P ctx' (sc_session s) \<and> run_complete (engine_nodes e) s"
proof -
  let ?nds = "engine_nodes e" and ?s = "loaded_scheduler env e flags w"
  have f: "fresh ?nds ?s" using assms(1) by (intro loaded_fresh) (simp add: static_graph_def)
  have ses: "sc_session ?s = initial_session env e flags w" "sc_ready_queue ?s = []"
    unfolding loaded_scheduler_def register_fold by (simp_all add: new_scheduler_def initial_session_def)
  obtain s1 where s1: "build_dag ?s = (Inr (), s1)" "fresh ?nds s1" "sc_session s1 = sc_session (register_resources ?s)"
      "length (sc_ready_queue s1) \<le> length ?nds + edge_count ?nds"
    using build_fresh[OF assms(1) f] ses(2) by auto
  obtain t where "sc_session (register_resources s1) = (initial_session env e flags w) \<lparr> ss_resources := t \<rparr>"
    using resources_session[of ?s] resources_session[of s1] s1(3) ses(1) by auto
  then have p: "P ctx (sc_session (register_resources s1))" using assms(5) by simp
  have "length (sc_ready_queue s1) + length ?nds + edge_count ?nds + 1 < fuel" using s1(4) assms(7) by simp
  from static_graph_execute[where rank = rank, OF assms(1) s1(2) assms(2,3,4) p assms(6) this]
  show ?thesis using s1(1) by (simp add: run_scheduler_def)
qed

section \<open>Properties\<close>

text \<open>C4. The engine implements its contract on static programs.  Let the system nodes and the cloned nodes of
  all graphs form an acyclic static graph whose hard ends come last, let an entry point have no
  predecessors, and let the nodes run successfully in the sessions the engine creates.  Then with fuel
  for every node and edge twice (the graph is built twice) the engine's run returns success, every node
  but perhaps system nodes has been executed exactly once and after everything before it, and the
  engine keeps the trace of exactly this run and is otherwise unchanged.\<close>

theorem engine_runs_static_programs:
  fixes rank :: "string \<Rightarrow> nat"
  assumes "static_graph (engine_nodes e)" "ends_last (engine_nodes e)"
    "\<And>p q. (p, q) \<in> before (engine_nodes e) \<Longrightarrow> rank p < rank q"
    "benign (engine_env base fresh_id e) (engine_nodes e) P"
    "\<And>t. P (ly_working ctx) ((initial_session (engine_env base fresh_id e) e (flag_number autonomous) w) \<lparr> ss_resources := t \<rparr>)"
    "entry_ok (engine_env base fresh_id e) (engine_nodes e)"
    "2 * (length (engine_nodes e) + edge_count (engine_nodes e)) + 1 < fuel"
  shows "\<exists>ctx' s. run_scheduler (engine_env base fresh_id e) fuel (flag_number autonomous) (ly_working ctx) e w =
       Some (Inr \<lparr> xr_success = True, xr_message = ''Execution completed successfully'',
         xr_final_context = ctx', xr_paused_at = None \<rparr>, s) \<and>
     engine_run base fresh_id fuel autonomous ctx e w = Some (Inr \<lparr> xr_success = True,
         xr_message = ''Execution completed successfully'', xr_final_context = ctx', xr_paused_at = None \<rparr>,
         e \<lparr> en_traces := ss_traces (sc_session s) \<rparr>, ss_world (sc_session s)) \<and>
     user_paths (engine_nodes e) \<subseteq> set (sc_executed s) \<and> set (sc_executed s) \<subseteq> paths (engine_nodes e) \<and>
     distinct (sc_executed s) \<and> topo (engine_nodes e) (sc_executed s)"
proof -
  obtain ctx' s where "run_scheduler (engine_env base fresh_id e) fuel (flag_number autonomous) (ly_working ctx) e w =
      Some (Inr (completed ctx'), s)" "run_complete (engine_nodes e) s"
    using run_scheduler_static[where rank = rank, OF assms] by blast
  then show ?thesis by (auto simp: engine_run_def run_complete_def)
qed

definition sample_engine :: engine where
  "sample_engine = \<lparr> en_graphs = [empty_graph \<lparr> pg_path := ''/main'', pg_nodes := sample_nodes \<rparr>],
     en_tools = \<lparr> reg_tools = [], reg_metadata = [], reg_llm = [] \<rparr>, en_sessions = new_registry,
     en_provider = Owned [CostTracking] ''mock'', en_budget = new_budget_controller 0 None,
     en_policy = policy_create Agent, en_traces = [], en_bus = False, en_compliance = False, en_rate_limit = None,
     en_compactor = None, en_event_log = None, en_session_writer = None \<rparr>"

lemma sample_engine_nodes:
  "engine_nodes sample_engine = create_system_nodes @ [sample_start, mk_node ''/main/end'' EndNode []]"
  by (simp add: engine_nodes_def sample_engine_def sample_nodes_def sample_start_def clone_def mk_node_def)

lemmas sample_engine_defs = sample_engine_nodes create_system_nodes_def system_end_def sample_start_def mk_node_def

lemma sample_engine_before: "before (engine_nodes sample_engine) = {(''/main/start'', ''/main/end'')}"
  by (auto simp: before_def sample_engine_defs waits_of_def static_waits_def jobj_def)

lemma sample_engine_static: "static_graph (engine_nodes sample_engine)"
  by (auto simp: static_graph_def sample_engine_defs node_ok_def plain_def nd_type_def paths_def waits_of_def
      static_waits_def end_mode_def jvalue_str_def jobj_def)

lemma sample_engine_ends_last: "ends_last (engine_nodes sample_engine)"
  unfolding ends_last_def sample_engine_before
  by (auto simp: user_paths_def paths_def sample_engine_defs hard_end_def nd_type_def is_system_path_def starts_with_def)

lemma sample_engine_benign:
  "benign (engine_env sample_scheduler_env [] sample_engine) (engine_nodes sample_engine) no_budget"
proof -
  have "\<exists>r ses'. session_execute_node env nd ctx ses = (Inr r, ses') \<and> er_success r \<and>
      er_paused_at r = None \<and> no_budget (er_new_context r) ses'"
    if "nd \<in> set (engine_nodes sample_engine)" "no_budget ctx ses" for env nd ctx and ses :: "unit session"
  proof -
    have "nd_permissions nd = [] \<and> (nd_body nd = StartNode \<or> nd_body nd = EndNode) \<and> needs_snapshot nd = Inr False"
      using that(1) by (auto simp: sample_engine_defs needs_snapshot_def meta_flag_def nd_type_def jobj_def)
    then show ?thesis using passive_runs[OF _ _ _ that(2), of nd env] by blast
  qed
  then show ?thesis by (auto simp: benign_def no_budget_def bc_exceeded_def)
qed

lemma engine_runs_static_programs_witness:
  "\<exists>ctx' s. run_scheduler (engine_env sample_scheduler_env [] sample_engine) 100 (flag_number False)
       (ly_working (new_layered \<lparr> ly_working := jempty \<rparr>)) sample_engine () = Some (Inr (completed ctx'), s) \<and>
     engine_run sample_scheduler_env [] 100 False (new_layered \<lparr> ly_working := jempty \<rparr>) sample_engine () =
       Some (Inr (completed ctx'), sample_engine \<lparr> en_traces := ss_traces (sc_session s) \<rparr>, ss_world (sc_session s)) \<and>
     user_paths (engine_nodes sample_engine) \<subseteq> set (sc_executed s) \<and>
     set (sc_executed s) \<subseteq> paths (engine_nodes sample_engine) \<and>
     distinct (sc_executed s) \<and> topo (engine_nodes sample_engine) (sc_executed s)"
proof -
  have n: "no_budget (ly_working (new_layered \<lparr> ly_working := jempty \<rparr>))
     ((initial_session (engine_env sample_scheduler_env [] sample_engine) sample_engine (flag_number False) ()) \<lparr> ss_resources := t \<rparr>)" for t
    by (simp add: no_budget_def initial_session_def new_session_def engine_budget_def sample_engine_def empty_graph_def
        new_budget_controller_def)
  have e: "entry_ok (engine_env sample_scheduler_env [] sample_engine) (engine_nodes sample_engine)"
    by (simp add: entry_ok_def engine_env_def sample_engine_def empty_graph_def)
  have f: "2 * (length (engine_nodes sample_engine) + edge_count (engine_nodes sample_engine)) + 1 < 100"
  proof -
    have "sum f (set xs) \<le> sum_list (map f xs)" for f :: "node \<Rightarrow> nat" and xs
      by (induction xs) (auto simp: sum.insert_if)
    then have "edge_count nds \<le> sum_list (map (\<lambda>nd. length (nd_next nd) + length (waits_of nd)) nds)" for nds
      by (simp add: edge_count_def)
    moreover have "sum_list (map (\<lambda>nd. length (nd_next nd) + length (waits_of nd)) (engine_nodes sample_engine)) = 1"
      by (simp add: sample_engine_defs waits_of_def static_waits_def jobj_def)
    ultimately have "edge_count (engine_nodes sample_engine) \<le> 1" by metis
    then show ?thesis by (simp add: sample_engine_defs)
  qed
  show ?thesis
    by (rule engine_runs_static_programs[where rank = "\<lambda>p. if p = ''/main/end'' then 1 else 0",
        OF sample_engine_static sample_engine_ends_last _ sample_engine_benign n e f])
      (auto simp: sample_engine_before)
qed

section \<open>Sessions that fail\<close>

fun session_runs :: "'w scheduler_env \<Rightarrow> string \<Rightarrow> nat \<Rightarrow> (string \<times> json) list \<Rightarrow> user_session \<Rightarrow> engine \<Rightarrow> 'w \<Rightarrow>
    (user_session \<times> engine \<times> 'w) option" where
  "session_runs base fresh_id fuel [] u e w = Some (u, e, w)"
| "session_runs base fresh_id fuel ((m, ctx) # runs) u e w =
     Option.bind (session_run base fresh_id fuel m ctx u e w)
       (\<lambda>(r, u', e', w'). session_runs base fresh_id fuel runs u' e' w')"

definition keeps_id :: "(task_session \<Rightarrow> task_session) \<Rightarrow> bool" where
  "keeps_id f \<longleftrightarrow> (\<forall>t. ts_id (f t) = ts_id t)"

lemma keeps_id_updates [simp]:
  "keeps_id (set_status st)" "keeps_id (set_policy p)" "keeps_id (set_context c)" "keeps_id (record_failure b ec)"
  "keeps_id (\<lambda>t. set_context c (set_policy p t))"
  by (auto simp: keeps_id_def set_status_def set_policy_def set_context_def record_failure_def)

lemma on_current_current:
  assumes "tasks_ok u" "keeps_id f"
  shows "tasks_ok (on_current f u)" "current_task_session (on_current f u) = map_option f (current_task_session u)"
proof -
  show ok: "tasks_ok (on_current f u)" using assms by (intro tasks_ok_on_current) (simp_all add: keeps_id_def)
  show "current_task_session (on_current f u) = map_option f (current_task_session u)"
  proof (cases "us_tasks u = []")
    case True
    then show ?thesis using current_is_last[OF ok] current_is_last[OF assms(1)] by (simp add: on_current_def)
  next
    case False
    then have "us_current u = Some (ts_id (last (us_tasks u)))"
      using assms(1) by (auto simp: tasks_ok_def split: option.splits)
    then show ?thesis using current_is_last[OF ok] current_is_last[OF assms(1)] False
      by (simp add: on_current_def last_map)
  qed
qed

lemma append_message_current:
  "tasks_ok (append_message m u) = tasks_ok u" "current_task_session (append_message m u) = current_task_session u"
  by (simp_all add: append_message_def tasks_ok_def current_task_session_def split: option.splits)

lemma create_current:
  assumes "tasks_ok u"
  shows "current_task_session (create_task_session u) = Some (new_task (us_next_id u))"
  using current_is_last[OF tasks_ok_create[OF assms]] by (simp add: create_task_session_def Let_def)

text \<open>Between two runs: the failure count of the current task is 1 after a failure and 0 otherwise.\<close>

definition counts_ok :: "user_session \<Rightarrow> bool" where
  "counts_ok u \<longleftrightarrow> tasks_ok u \<and> (case current_task_session u of None \<Rightarrow> True
     | Some t \<Rightarrow> ts_failure_count t = (if ts_status t = ''failed'' then 1 else 0))"

lemma choose_task_facts:
  assumes "counts_ok u"
  shows "tasks_ok (choose_task u)" "us_messages (choose_task u) = us_messages u"
    "\<exists>t. current_task_session (choose_task u) = Some t \<and> ts_failure_count t = 0 \<and> ts_status t \<noteq> ''failed''"
proof -
  define u1 where "u1 = (case current_task_session u of None \<Rightarrow> create_task_session u
    | Some t \<Rightarrow> if ts_status t = ''failed'' then create_task_session u else u)"
  have ok: "tasks_ok u" using assms by (simp add: counts_ok_def)
  have n: "us_messages (create_task_session u) = us_messages u" by (simp add: create_task_session_def Let_def)
  have "tasks_ok u1 \<and> us_messages u1 = us_messages u \<and>
      (\<exists>t. current_task_session u1 = Some t \<and> ts_failure_count t = 0 \<and> ts_status t \<noteq> ''failed'')"
    using assms tasks_ok_create[OF ok] create_current[OF ok] n
    by (auto simp: u1_def counts_ok_def new_task_def split: option.splits)
  moreover from this have "choose_task u = u1"
    by (auto simp: choose_task_def u1_def[symmetric] determine_failure_mode_def Let_def)
  ultimately show "tasks_ok (choose_task u)" "us_messages (choose_task u) = us_messages u"
    "\<exists>t. current_task_session (choose_task u) = Some t \<and> ts_failure_count t = 0 \<and> ts_status t \<noteq> ''failed''"
    by auto
qed

lemma finish_run_counts:
  assumes "tasks_ok u" "current_task_session u = Some t" "ts_failure_count t = 0"
  shows "counts_ok (finish_run r u)" "us_messages (finish_run r u) = us_messages u @ [to_tool_result r]"
proof -
  let ?u1 = "on_current (record_failure (xr_success r) None) u"
  have u1: "tasks_ok ?u1" "current_task_session ?u1 = Some (record_failure (xr_success r) None t)"
    using on_current_current[OF assms(1)] assms(2) by simp_all
  let ?u2 = "append_message (to_tool_result r) ?u1"
  have u2: "tasks_ok ?u2" "current_task_session ?u2 = Some (record_failure (xr_success r) None t)"
    using u1 by (simp_all add: append_message_current)
  show "counts_ok (finish_run r u)"
    using on_current_current[OF u2(1)] u2(2) assms(3)
    by (simp add: finish_run_def counts_ok_def set_status_def record_failure_def is_retryable_def)
  show "us_messages (finish_run r u) = us_messages u @ [to_tool_result r]"
    by (simp add: finish_run_def on_current_def append_message_def)
qed

lemma session_run_counts:
  assumes "counts_ok u" "session_run base fresh_id fuel m ctx u e w = Some (r, u', e', w')"
  shows "counts_ok u' \<and> length (us_messages u') \<le> Suc (length (us_messages u))"
proof (cases "jput ''user_input'' (JStr m) ctx")
  case (Inl x)
  then show ?thesis using assms by (simp add: session_run_def)
next
  case (Inr c)
  define u1 where "u1 = on_current (\<lambda>t. set_context c (set_policy (en_policy e) t)) (choose_task u)"
  obtain t where t: "current_task_session (choose_task u) = Some t" "ts_failure_count t = 0" "ts_status t \<noteq> ''failed''"
    using choose_task_facts(3)[OF assms(1)] by blast
  have u1: "tasks_ok u1" "current_task_session u1 = Some (set_context c (set_policy (en_policy e) t))"
    "us_messages u1 = us_messages u"
    using on_current_current[OF choose_task_facts(1)[OF assms(1)]] choose_task_facts(2)[OF assms(1)] t(1)
    by (simp_all add: u1_def) (simp add: on_current_def)
  have f: "ts_failure_count (set_context c (set_policy (en_policy e) t)) = 0"
    "ts_status (set_context c (set_policy (en_policy e) t)) \<noteq> ''failed''"
    using t by (simp_all add: set_context_def set_policy_def)
  have "counts_ok u1" using u1 f by (simp add: counts_ok_def)
  moreover have "u' = u1 \<or> (\<exists>res. u' = finish_run res u1)"
    using assms(2) Inr by (auto simp: session_run_def u1_def Let_def split: sum.splits prod.splits) (metis sum.exhaust)
  ultimately show ?thesis using finish_run_counts[OF u1(1,2) f(1)] u1(3) by auto
qed

lemma session_runs_counts:
  "session_runs base fresh_id fuel runs u e w = Some (u', e', w') \<Longrightarrow> counts_ok u \<Longrightarrow>
     counts_ok u' \<and> length (us_messages u') \<le> length (us_messages u) + length runs"
proof (induction runs arbitrary: u e w)
  case (Cons run runs)
  obtain m ctx where run: "run = (m, ctx)" by (cases run)
  from Cons.prems(1) obtain r u1 e1 w1 where s: "session_run base fresh_id fuel m ctx u e w = Some (r, u1, e1, w1)"
      "session_runs base fresh_id fuel runs u1 e1 w1 = Some (u', e', w')"
    by (auto simp: run split: Option.bind_splits)
  show ?case using session_run_counts[OF Cons.prems(2) s(1)] Cons.IH[OF s(2)] by auto
qed simp

lemma counts_new: "counts_ok (new_user_session now uid)"
  using tasks_ok_new[of now uid] current_is_last[OF tasks_ok_new, of now uid]
  by (simp add: counts_ok_def new_user_session_def)

text \<open>The failure count of a task session never reaches its threshold.  Through any number of session runs
  of the engine, whatever the graphs do, the current task counts at most one failure and
  determine_failure_mode answers KeepSession, because a failed task is replaced before the next run;
  the split after three failures that the run checks for cannot happen.  At most one message is
  appended per run and at most 100 tasks are kept.\<close>

theorem session_never_splits:
  "case session_runs base fresh_id fuel runs (new_user_session now uid) e w of
     None \<Rightarrow> True
   | Some (u, e', w') \<Rightarrow> length (us_messages u) \<le> length runs \<and> length (us_tasks u) \<le> 100 \<and>
       (case current_task_session u of None \<Rightarrow> True
        | Some t \<Rightarrow> ts_failure_count t \<le> 1 \<and> determine_failure_mode t = KeepSession)"
proof (cases "session_runs base fresh_id fuel runs (new_user_session now uid) e w")
  case (Some uw)
  obtain u e' w' where uw: "uw = (u, e', w')" by (cases uw)
  have m: "us_messages (new_user_session now uid) = []" by (simp add: new_user_session_def)
  from session_runs_counts[OF Some[unfolded uw] counts_new]
  show ?thesis using Some uw m
    by (auto simp: counts_ok_def tasks_ok_def determine_failure_mode_def split: option.splits if_splits)
qed simp

text \<open>Compaction never happens: as soon as a compactor is installed, check_and_compact throws the type
  error of the implicit conversion of the dumped object to a string, before anything is counted,
  emitted or stored.\<close>

theorem compaction_always_throws:
  "check_and_compact generate ratio epoch cp (ctx, w) =
     ((if cp = None then Inr () else Inl (Json_error ''type_error.302''), []), ctx, w)"
  by (cases cp) (simp_all add: check_and_compact_def lc_dump_def jobj_def)

end
