(* ===== verification/Spec2Isabelle.thy ===== *)
theory Spec2Isabelle
  imports HF_Prelude Budget Tool_Result Bus Context_Engine Policy Tools Coordinator
    Nodes Executor Trace Exec_Session Scheduler Static_Graphs Scheduler_Behaviour
    Layered Sessions Regex Yaml Document Parser Streams Timers Providers Serializer Storage
    Session_Store Event_Log Genome Genome_Lineage Doubles Governance Evolution
    Trajectory Skills Gepa Workflow_Search Orchestrator Workers Engine
begin

text \<open>
  A verification development for HydraForge, the C++ engine that executes AgenticDSL documents.

  \<^bold>\<open>The program.\<close>  A document is Markdown whose marked blocks are YAML descriptions of graphs and
  nodes.  The parser (src/modules/parser) turns it into graphs; the engine (src/core/engine.cpp) keeps
  them with a tool registry, an execution policy, a provider of language-model answers and user
  sessions, and runs them on a scheduler (src/modules/scheduler).  The scheduler orders the nodes, an
  execution session charges budgets, takes snapshots and traces, and a node executor
  (src/modules/executor) carries out one node; tools are reached through a registry, a security
  decorator and a coordinator (src/common/tools) that validates arguments and asks for approval
  (src/common/policy).  Components tell each other what happened by events on a bus
  (src/common/contract).

  \<^bold>\<open>Theories, and the code each models.\<close>
  \<^item> HF_Prelude: exceptions and results (\<open>'a res\<close>), JSON values (\<open>json\<close>, objects as key-sorted
    association lists), the string and map operations, shared by all.
  \<^item> Budget: core/types/budget.h, modules/budget.  \<open>execution_budget\<close>, \<open>budget_controller\<close>, the
    \<open>try_consume\<close> operations, the lock-free increment as a step relation \<open>cas_step\<close> over any number of
    threads.  Locales \<open>limited_counter\<close> and \<open>metered_counter\<close>, interpreted for the four counters.
  \<^item> Tool_Result: core/types/tool_result.cpp, the result envelope, its error codes and its JSON form.
  \<^item> Bus: contract/bus_event.h, event_builder.h, causal_order.h, common/contract/inmemory_bus.cpp.
    Critical sections of the bus and its dispatch thread are actions; an execution is any list of them.
  \<^item> Context_Engine: modules/context.  Merging of contexts under strategies, the snapshot store.
  \<^item> Policy: common/policy.  Modes, approval handler, layers, path and shell guards, backend policies.
    Locale \<open>approval_floor\<close>, interpreted for the three modes.
  \<^item> Tools: common/tools/registry.cpp, tool_hook_registry.cpp, secure_tool_registry.cpp.  Locale
    \<open>tool_registry_api\<close>, interpreted for the plain and the secured registry.
  \<^item> Coordinator: common/tools/tool_coordinator.cpp, tool_schema_validator.cpp.
  \<^item> Nodes: core/types/node.h, modules/executor/node.cpp, system nodes, resources, and the
    state-and-exception computations (\<open>('a, 's) act\<close>) the following theories are written with.
  \<^item> Executor: modules/executor/node_executor.cpp, yield_stream_bridge.cpp, signature_validator.cpp.
  \<^item> Trace: modules/trace/trace_exporter.cpp.
  \<^item> Exec_Session: modules/scheduler/execution_session.cpp.  Locale \<open>session_contract\<close>: what the scheduler
    relies on; interpreted for the session's own \<open>session_execute_node\<close>.
  \<^item> Scheduler: modules/scheduler/topo_scheduler.cpp.  Static_Graphs: its behaviour on static graphs
    (Kahn's algorithm).  Scheduler_Behaviour: yields, restoring, jumps, waits, generated graphs.
  \<^item> Layered: agenticdsl/types/layered_context.h, context_flatten.h, core/context_compactor.cpp.
  \<^item> Sessions: core/types/session.cpp, session_registry.cpp.
  \<^item> Regex, Yaml, Document, Parser: std::regex as far as it is used, common/utils/yaml_json.cpp,
    parser_utils.cpp, and modules/parser (scanning, lint, node factories, exec expansion, documents).
  \<^item> Streams: common/llm/llm_types.h, sse_stream.cpp, stream_to_bus.cpp, common/runtime/stream_handle.cpp.
    Locale \<open>handle_contract\<close>, interpreted for both handles.
  \<^item> Providers: the decorators of common/llm around a call and around a stream, the provider factory, the
    mock, fine-tune and orchestration providers.  Serializer: serializing_decorator.cpp as a lock protocol.
  \<^item> Timers: common/utils/timer_service.cpp, the timer table, collecting and calling, and the worker thread.
  \<^item> Storage: what the components with files share: lines, names, hash maps, and a disk whose calls take
    their outcome from a list of faults, so that a theorem for all disks covers every failing or short write; a file is only
    opened in a directory that exists where the path can leave the directory the code created.
  \<^item> Session_Store: core/session_manager.cpp, the tree of messages of a session in a file of JSON lines.
  \<^item> Event_Log: core/event_log.cpp, session_writer.cpp, the writers of JSON lines behind the bus.  Locale
    \<open>rotation_scheme\<close>: what a rotated file needs of its names and its renaming; interpreted for both writers.
  \<^item> Genome: agenticdsl/genome/genome.h, core/genome.  Signed versions of an agent's configuration as files.
    Genome_Lineage: its behaviour over any sequence of commits and forks on any disk whose directories can be listed.
  \<^item> Doubles: the order of IEEE doubles on their bits.  Governance: common/governance/mutation_governor.cpp and the
    types of rewards and mutations.  Evolution: evolution/harness_rsi.cpp, version_pair_diff.cpp, transition_guard.h.
  \<^item> Trajectory: agenticdsl/ir/trajectory_ir.h, modules/ir, modules/distillation, modules/prompt/prompt_hash.cpp.
    Skills: modules/testing/behavioral_regression.cpp and the evaluators and the skill compiler of modules/cognitive.
    Gepa: modules/cognitive/gepa_loop.cpp, which connects model, governor, compiler, evaluator, budget and registry.
  \<^item> Workflow_Search: modules/cognitive/mcts_workflow_search.cpp and workflow_materializer.cpp, the tree search for
    workflows and the document made of one.  Orchestrator: simple_orchestrator.cpp, cognitive_tools.cpp and what a worker
    does with one task.  Workers: the threads of domain_worker_pool.cpp and cognitive_worker.cpp around their queue.  Locale
    \<open>work_crew\<close>, interpreted for the pool and the cognitive worker.
  \<^item> Engine: core/engine.cpp, which composes parser, sessions, provider chain and scheduler.

  \<^bold>\<open>Correspondence.\<close>  A class is a record of its fields, an enumeration or variant a datatype, each
  method one definition with the method's guards, branches and exceptions in their order.  An exception
  is a value of type \<open>exc\<close> in a result; a method that changes state before it throws returns the changed
  state with the exception.  64-bit counters that wrap are words; other integers are read as integers
  where a guard keeps them in range, otherwise reduced with \<open>wrap32\<close>.  A mutex-protected method is one
  atomic step; where threads interleave inside an operation (the budget counters, the bus dispatcher, the timers,
  the serialised provider, the event log, the workers, destroying a session) the interleaving is explicit.  Iteration orders of hash maps, clocks, random
  identifiers, floating-point arithmetic, JSON printing, the template engine, the YAML reader, tools and
  language models are parameters, and no theorem assumes more of them than its statement says.

  \<^bold>\<open>What the lemmas show.\<close>
  \<^item> Safety of calls: a tool runs only after guard, hooks, validation, layer and approval agreed
    (Coordinator), the approval floor holds in every mode (Policy), permissions come first (Executor),
    budgets gate every node and bound their number (Exec_Session, Budget, in every interleaving).
  \<^item> Execution: a static acyclic graph is executed completely, in order and once, with an explicit fuel
    bound (Static_Graphs), and the engine passes this on to whole programs (Engine); saving and
    restoring a suspended scheduler are inverse, and what goes wrong with jumps, waits and resumed
    yields is stated exactly (Scheduler_Behaviour).
  \<^item> Data: round trips for tool results, signatures, layered contexts and documents; merging loses
    nothing; the snapshot store, the registry, the sessions and the trace keep their invariants.
  \<^item> Communication: the bus delivers in order, to exactly the matching subscriptions; event streams are
    decoded however they are cut, handles deliver what was pushed, in order (Streams).
  \<^item> Language models: what a chain of decorators charges, refuses, emits and reveals (Providers), mutual
    exclusion of calls and its failure after an exception (Serializer); timers fire as registered, and after a
    cancellation only when collected before (Timers).
  \<^item> Files: the stored messages of a session have no cycle of parents through any operations on a disk that does not fail,
    and are read back as written, where reopening loses one (Session_Store); the event log writes every event once in
    every interleaving, but for batches its flushing thread drops while another thread rotates, keeps the newest files
    when it rotates, and reads and queries agree (Event_Log).  Published genomes are immutable while directories can be
    listed, their signatures exact, and a fork extends the lineage of its parent by one (Genome, Genome_Lineage).
  \<^item> Self-modification: what the governor approves and announces (Governance), that a harness mutation is applied
    completely or not at all, what of it is stored, and which old data it confounds (Evolution);
    that the reflection loop stays in its budgets and reports success exactly when one change was committed (Gepa).
  \<^item> Records: what a distilled record reveals of the prompts and where it is stored (Trajectory), that compiled skills
    read back (Skills).
  \<^item> Cognition: the statistics of the search are exact, a success is one commit of a chain that loads again
    (Workflow_Search); a round calls one registered tool (Orchestrator); workers lose no task, in any interleaving, but
    stopping them can wait for ever (Workers).

  \<^bold>\<open>Fuel.\<close>  Only the scheduler's main loop is given fuel, because it need not end (a lone unmet wait
  spins, Scheduler_Behaviour); \<open>None\<close> means that the fuel did not suffice.  For a static graph one step
  per node and edge and one more suffices, twice that for the engine, which builds the graph twice.
  The pump of a stream (Streams) has fuel too, since a stream may never end: more fuel than tokens
  suffices.  The descent of the workflow search and its backpropagation have the number of nodes of the tree,
  which search_tree_exact shows to suffice.  All other loops are structurally recursive or have a measure.

  \<^bold>\<open>Not modelled.\<close>  The concurrent run of task graphs by the Taskflow library (its precedences are);
  network and llama.cpp adapters, since their libraries are not part of the repository; process control
  (environment backends, skill interpreter), plugin loading; log output; the lifecycle events of agents; and the components the
  manifest lists as not modelled, which are clients of the parts above.
\<close>

end
